(* ===== verification/Prelude.thy ===== *)
theory Prelude
  imports Main "HOL-Library.List_Lexorder" "HOL-Library.Char_ord"
begin

text \<open>
  What every component shares: the theorem collections of the development, Python
  dictionaries as association lists with distinct keys (insertion order kept, as
  \<open>dict\<close> keeps it), Python's \<open>sorted\<close> on strings, and the list facts the component
  proofs use.

  Strings are \<open>char list\<close>s, one \<open>char\<close> per byte of the UTF-8 form. The order of
  \<open>List_Lexorder\<close> on them is the byte order, which is also Python's code point order.
\<close>

named_theorems dict_simps \<open>lookup, keys and updates of dictionaries\<close>
named_theorems status_simps \<open>what an operation does to the status of a row\<close>
named_theorems frame_simps \<open>what an operation leaves alone\<close>

section \<open>Dictionaries\<close>

type_synonym ('k, 'v) pydict = "('k \<times> 'v) list"

text \<open>\<open>d.get(k)\<close> is \<open>map_of d k\<close>; \<open>d[k] = v\<close> replaces in place or appends.\<close>

fun dict_set :: "'k \<Rightarrow> 'v \<Rightarrow> ('k, 'v) pydict \<Rightarrow> ('k, 'v) pydict" where
  "dict_set k v [] = [(k, v)]"
| "dict_set k v ((k', v') # d) =
     (if k' = k then (k, v) # d else (k', v') # dict_set k v d)"

definition dict_keys :: "('k, 'v) pydict \<Rightarrow> 'k list" where
  "dict_keys d = map fst d"

definition dict_values :: "('k, 'v) pydict \<Rightarrow> 'v list" where
  "dict_values d = map snd d"

definition dict_ok :: "('k, 'v) pydict \<Rightarrow> bool" where
  "dict_ok d = distinct (map fst d)"

definition dict_pop :: "'k \<Rightarrow> ('k, 'v) pydict \<Rightarrow> ('k, 'v) pydict" where
  "dict_pop k d = filter (\<lambda>p. fst p \<noteq> k) d"

text \<open>\<open>d.update(e)\<close>: every entry of \<open>e\<close>, in its order.\<close>

definition dict_update :: "('k, 'v) pydict \<Rightarrow> ('k, 'v) pydict \<Rightarrow> ('k, 'v) pydict" where
  "dict_update d e = fold (\<lambda>(k, v). dict_set k v) e d"

lemma map_of_dict_set [simp, dict_simps]:
  "map_of (dict_set k v d) = (map_of d)(k \<mapsto> v)"
  by (induction k v d rule: dict_set.induct) (auto simp: fun_eq_iff)

lemma keys_dict_set [simp, dict_simps]:
  "fst ` set (dict_set k v d) = insert k (fst ` set d)"
  by (induction k v d rule: dict_set.induct) auto

lemma dict_ok_Nil [simp]: "dict_ok []"
  by (simp add: dict_ok_def)

lemma dict_ok_set [simp]: "dict_ok d \<Longrightarrow> dict_ok (dict_set k v d)"
proof (induction k v d rule: dict_set.induct)
  case (2 k v k' v' d)
  have "fst ` set (dict_set k v d) = insert k (fst ` set d)" by simp
  with 2 show ?case by (auto simp: dict_ok_def)
qed (simp add: dict_ok_def)

lemma map_of_dict_pop [simp, dict_simps]:
  "map_of (dict_pop k d) = (map_of d)(k := None)"
  by (induction d) (auto simp: dict_pop_def fun_eq_iff)

lemma dict_ok_pop [simp]: "dict_ok d \<Longrightarrow> dict_ok (dict_pop k d)"
  by (simp add: dict_ok_def dict_pop_def distinct_map_filter)

lemma map_of_dict_update [simp, dict_simps]:
  "map_of (dict_update d e) k =
     (case map_of (rev e) k of None \<Rightarrow> map_of d k | Some v \<Rightarrow> Some v)"
  unfolding dict_update_def
proof (induction e arbitrary: d)
  case (Cons p e)
  obtain a b where p: "p = (a, b)" by (cases p)
  show ?case by (simp add: p Cons.IH map_add_def split: option.splits)
qed simp

lemma dict_ok_update: "dict_ok d \<Longrightarrow> dict_ok (dict_update d e)"
  unfolding dict_update_def
  by (induction e arbitrary: d) auto

lemma dict_set_in: "(k', v') \<in> set (dict_set k v d) \<Longrightarrow> (k', v') \<in> set d \<or> (k', v') = (k, v)"
  by (induction k v d rule: dict_set.induct) (auto split: if_splits)

lemma map_of_keys_iff: "k \<in> fst ` set d \<longleftrightarrow> (\<exists>v. map_of d k = Some v)"
  by (metis domD domI dom_map_of_conv_image_fst)

locale dictionary =
  fixes empty :: "'d"
    and upd :: "'k \<Rightarrow> 'v \<Rightarrow> 'd \<Rightarrow> 'd"
    and look :: "'d \<Rightarrow> 'k \<Rightarrow> 'v option"
    and ok :: "'d \<Rightarrow> bool"
  assumes look_empty: "look empty k = None"
    and look_upd: "ok d \<Longrightarrow> look (upd k v d) k' = (if k' = k then Some v else look d k')"
    and ok_empty: "ok empty"
    and ok_upd: "ok d \<Longrightarrow> ok (upd k v d)"
begin

text \<open>Filling a dictionary in a loop: the last write of each key is what a lookup returns.\<close>

lemma ok_fill: "ok d \<Longrightarrow> ok (fold (\<lambda>(k, v). upd k v) kvs d)"
  by (induction kvs arbitrary: d) (auto simp: ok_upd)

lemma look_fill:
  "ok d \<Longrightarrow> look (fold (\<lambda>(k, v). upd k v) kvs d) k =
     (case map_of (rev kvs) k of None \<Rightarrow> look d k | Some v \<Rightarrow> Some v)"
proof (induction kvs arbitrary: d)
  case (Cons p kvs)
  obtain a b where p: "p = (a, b)" by (cases p)
  have "ok (upd a b d)" using Cons.prems by (rule ok_upd)
  then show ?case
    using Cons.prems by (simp add: p Cons.IH look_upd map_add_def split: option.splits)
qed simp

lemma fill_once:
  "(k, v) \<in> set kvs \<Longrightarrow> distinct (map fst kvs) \<Longrightarrow>
     look (fold (\<lambda>(k, v). upd k v) kvs empty) k = Some v"
  by (simp add: look_fill [OF ok_empty] distinct_map rev_map [symmetric])
end

interpretation pydict: dictionary "[]" dict_set map_of dict_ok
  by unfold_locales auto

section \<open>Lists\<close>

text \<open>\<open>next(x for x in xs if p(x))\<close> with a default of \<open>None\<close> is \<open>find p xs\<close>.\<close>

lemma find_Some_in: "find p xs = Some x \<Longrightarrow> x \<in> set xs \<and> p x"
  by (induction xs) (auto split: if_splits)

lemma find_None_all: "find p xs = None \<longleftrightarrow> (\<forall>x\<in>set xs. \<not> p x)"
  by (induction xs) auto

text \<open>\<open>list(dict.fromkeys(xs))\<close>: the first occurrence of every element, in order.\<close>

fun ordered_unique :: "'a list \<Rightarrow> 'a list" where
  "ordered_unique [] = []"
| "ordered_unique (x # xs) = x # filter (\<lambda>y. y \<noteq> x) (ordered_unique xs)"

lemma set_ordered_unique [simp]: "set (ordered_unique xs) = set xs"
  by (induction xs) auto

lemma distinct_ordered_unique [simp]: "distinct (ordered_unique xs)"
  by (induction xs) auto

lemma ordered_unique_distinct: "distinct xs \<Longrightarrow> ordered_unique xs = xs"
proof (induction xs)
  case (Cons x xs)
  then have "filter (\<lambda>y. y \<noteq> x) xs = xs" by (auto intro: filter_True)
  with Cons show ?case by simp
qed simp

lemma ordered_unique_snoc:
  "distinct xs \<Longrightarrow> ordered_unique (xs @ [x]) = (if x \<in> set xs then xs else xs @ [x])"
proof (induction xs)
  case (Cons a xs)
  then have "filter (\<lambda>y. y \<noteq> a) xs = xs" by (auto intro: filter_True)
  with Cons show ?case by auto
qed simp

text \<open>\<open>sorted(s)\<close> of a Python set given by a list of its members.\<close>

definition sorted_set :: "string list \<Rightarrow> string list" where
  "sorted_set xs = sort (remdups xs)"

lemma set_sorted_set [simp]: "set (sorted_set xs) = set xs"
  by (simp add: sorted_set_def)

lemma distinct_sorted_set [simp]: "distinct (sorted_set xs)"
  by (simp add: sorted_set_def)

lemma sorted_sorted_set [simp]: "sorted (sorted_set xs)"
  by (simp add: sorted_set_def)

lemma sorted_set_Nil_iff [simp]: "sorted_set xs = [] \<longleftrightarrow> xs = []"
  by (metis set_empty set_sorted_set)

lemma hd_sorted_set_le: "x \<in> set xs \<Longrightarrow> hd (sorted_set xs) \<le> x"
  by (metis hd_in_set in_set_conv_nth list.set_cases list.sel(1) order_refl set_sorted_set
      sorted_sorted_set sorted_wrt.simps(2))

text \<open>Sorting by a key commutes with a map.\<close>

lemma insort_key_map: "insort_key k (f x) (map f xs) = map f (insort_key (\<lambda>y. k (f y)) x xs)"
  by (induction xs) auto

lemma sort_key_map: "sort_key k (map f xs) = map f (sort_key (\<lambda>y. k (f y)) xs)"
  by (induction xs) (auto simp: insort_key_map)

end
