(* ===== verification/Normalizers.thy ===== *)
theory Normalizers
  imports Prelude "HOL-Library.Product_Lexorder"
begin

text \<open>
  The query normalizer library (\<open>backend/app/domain/study/normalizers.py\<close>): the steps and
  their two orders, the pipeline, the labels a pipeline is sampled under and the way back from
  a label. A query text is a list of code points. What the interpreter takes from the Unicode
  tables is a parameter of the definitions: \<open>str.lower\<close>, the white space of \<open>str.strip\<close> and
  \<open>\s\<close>, and the word characters of \<open>\b\<close>. The ASCII part of those tables is \<open>ascii\<close>.
\<close>

section \<open>Steps and their orders\<close>

datatype normalizer_step =
  lowercase | trim | collapse_whitespace | strip_punctuation
  | expand_contractions_en | expand_contractions_custom

definition STEP_ORDER :: "normalizer_step list" where
  "STEP_ORDER = [lowercase, strip_punctuation, expand_contractions_en, expand_contractions_custom,
     collapse_whitespace, trim]"

definition LABEL_ORDER :: "normalizer_step list" where
  "LABEL_ORDER = [lowercase, trim, expand_contractions_en, collapse_whitespace, strip_punctuation,
     expand_contractions_custom]"

definition NORMALIZER_CHOICES :: "string list" where
  "NORMALIZER_CHOICES = [''none'', ''lowercase'', ''lowercase+trim'',
     ''lowercase+trim+expand_contractions'']"

definition DEFAULT_NORMALIZER :: string where
  "DEFAULT_NORMALIZER = ''none''"

fun STEP_LABEL_TOKEN :: "normalizer_step \<Rightarrow> string" where
  "STEP_LABEL_TOKEN lowercase = ''lowercase''"
| "STEP_LABEL_TOKEN trim = ''trim''"
| "STEP_LABEL_TOKEN collapse_whitespace = ''collapse_whitespace''"
| "STEP_LABEL_TOKEN strip_punctuation = ''strip_punctuation''"
| "STEP_LABEL_TOKEN expand_contractions_en = ''expand_contractions''"
| "STEP_LABEL_TOKEN expand_contractions_custom = ''expand_contractions_custom''"

definition TOKEN_TO_STEP :: "string \<Rightarrow> normalizer_step option" where
  "TOKEN_TO_STEP token = find (\<lambda>s. STEP_LABEL_TOKEN s = token) STEP_ORDER"

definition BUNDLE_TO_STEPS :: "string \<Rightarrow> normalizer_step list option" where
  "BUNDLE_TO_STEPS = map_of
     [(''none'', []), (''lowercase'', [lowercase]), (''lowercase+trim'', [lowercase, trim]),
      (''lowercase+trim+expand_contractions'', [lowercase, trim, expand_contractions_en])]"

section \<open>Texts\<close>

type_synonym qtext = "nat list"

definition codes :: "string \<Rightarrow> qtext" where
  "codes s = map of_char s"

record unicode =
  uc_lower :: "qtext \<Rightarrow> qtext"
  uc_space :: "nat \<Rightarrow> bool"
  uc_word :: "nat \<Rightarrow> bool"

definition CONTRACTIONS_RAW :: "(string \<times> string) list" where
  "CONTRACTIONS_RAW =
    [(''ain'' @ [CHR 0x27] @ ''t'', ''is not''), (''aren'' @ [CHR 0x27] @ ''t'', ''are not''),
     (''can'' @ [CHR 0x27] @ ''t'', ''cannot''), (''couldn'' @ [CHR 0x27] @ ''t'', ''could not''),
     (''didn'' @ [CHR 0x27] @ ''t'', ''did not''), (''doesn'' @ [CHR 0x27] @ ''t'', ''does not''),
     (''don'' @ [CHR 0x27] @ ''t'', ''do not''), (''hadn'' @ [CHR 0x27] @ ''t'', ''had not''),
     (''hasn'' @ [CHR 0x27] @ ''t'', ''has not''), (''haven'' @ [CHR 0x27] @ ''t'', ''have not''),
     (''he'' @ [CHR 0x27] @ ''s'', ''he is''), (''i'' @ [CHR 0x27] @ ''d'', ''i would''),
     (''i'' @ [CHR 0x27] @ ''ll'', ''i will''), (''i'' @ [CHR 0x27] @ ''m'', ''i am''),
     (''i'' @ [CHR 0x27] @ ''ve'', ''i have''), (''isn'' @ [CHR 0x27] @ ''t'', ''is not''),
     (''it'' @ [CHR 0x27] @ ''s'', ''it is''), (''let'' @ [CHR 0x27] @ ''s'', ''let us''),
     (''shouldn'' @ [CHR 0x27] @ ''t'', ''should not''), (''that'' @ [CHR 0x27] @ ''s'', ''that is''),
     (''they'' @ [CHR 0x27] @ ''re'', ''they are''), (''they'' @ [CHR 0x27] @ ''ve'', ''they have''),
     (''wasn'' @ [CHR 0x27] @ ''t'', ''was not''), (''we'' @ [CHR 0x27] @ ''re'', ''we are''),
     (''we'' @ [CHR 0x27] @ ''ve'', ''we have''), (''weren'' @ [CHR 0x27] @ ''t'', ''were not''),
     (''what'' @ [CHR 0x27] @ ''s'', ''what is''), (''won'' @ [CHR 0x27] @ ''t'', ''will not''),
     (''wouldn'' @ [CHR 0x27] @ ''t'', ''would not''), (''you'' @ [CHR 0x27] @ ''re'', ''you are'')]"

text \<open>The alternatives of the pattern: the keys, longest first, as \<open>sorted\<close> leaves them.\<close>

definition CONTRACTION_KEYS :: "(qtext \<times> qtext) list" where
  "CONTRACTION_KEYS = map (\<lambda>(k, v). (codes k, codes v))
     (sort_key (\<lambda>(k, v). - int (length k)) CONTRACTIONS_RAW)"

definition SMART_APOSTROPHE :: nat where
  "SMART_APOSTROPHE = 0x2019"

text \<open>\<open>string.punctuation\<close> without the apostrophe, by its ranges of code points.\<close>

definition PUNCTUATION_TO_STRIP :: "nat list" where
  "PUNCTUATION_TO_STRIP =
     filter (\<lambda>c. c \<noteq> 0x27) ([0x21..<0x30] @ [0x3A..<0x41] @ [0x5B..<0x61] @ [0x7B..<0x7F])"

section \<open>The steps\<close>

text \<open>A word boundary \<open>\b\<close> between two neighbours; \<open>None\<close> is an end of the text.\<close>

definition word_at :: "unicode \<Rightarrow> nat option \<Rightarrow> bool" where
  "word_at u c = (case c of None \<Rightarrow> False | Some x \<Rightarrow> uc_word u x)"

definition boundary :: "unicode \<Rightarrow> nat option \<Rightarrow> nat option \<Rightarrow> bool" where
  "boundary u a b = (word_at u a \<noteq> word_at u b)"

definition head_opt :: "qtext \<Rightarrow> nat option" where
  "head_opt t = (case t of [] \<Rightarrow> None | c # _ \<Rightarrow> Some c)"

definition match_here :: "unicode \<Rightarrow> nat option \<Rightarrow> qtext \<Rightarrow> (qtext \<times> qtext) option" where
  "match_here u prev t =
     (if boundary u prev (head_opt t) then
        find (\<lambda>(k, v). take (length k) t = k \<and> boundary u (Some (last k)) (head_opt (drop (length k) t)))
          CONTRACTION_KEYS
      else None)"

text \<open>\<open>_CONTRACTION_PATTERN.sub\<close>: the leftmost matches, none overlapping another.\<close>

function expand_from :: "unicode \<Rightarrow> nat option \<Rightarrow> qtext \<Rightarrow> qtext" where
  "expand_from u prev [] = []"
| "expand_from u prev (c # cs) = (case match_here u prev (c # cs) of
       None \<Rightarrow> c # expand_from u (Some c) cs
     | Some (k, v) \<Rightarrow> v @ expand_from u (Some (last k)) (drop (length k - 1) cs))"
  by pat_completeness auto
termination by (relation "measure (\<lambda>(u, prev, t). length t)") auto

fun collapse :: "unicode \<Rightarrow> qtext \<Rightarrow> qtext" where
  "collapse u [] = []"
| "collapse u (c # cs) =
     (if uc_space u c then
        (case cs of [] \<Rightarrow> [32]
         | c' # _ \<Rightarrow> if uc_space u c' then collapse u cs else 32 # collapse u cs)
      else c # collapse u cs)"

definition strip :: "unicode \<Rightarrow> qtext \<Rightarrow> qtext" where
  "strip u t = rev (dropWhile (uc_space u) (rev (dropWhile (uc_space u) t)))"

fun apply_step :: "unicode \<Rightarrow> qtext \<Rightarrow> normalizer_step \<Rightarrow> qtext" where
  "apply_step u t lowercase = uc_lower u t"
| "apply_step u t strip_punctuation = filter (\<lambda>c. c \<notin> set PUNCTUATION_TO_STRIP) t"
| "apply_step u t expand_contractions_en =
     expand_from u None (map (\<lambda>c. if c = SMART_APOSTROPHE then 0x27 else c) t)"
| "apply_step u t expand_contractions_custom = t"
| "apply_step u t collapse_whitespace = collapse u t"
| "apply_step u t trim = strip u t"

definition normalize_pipeline :: "unicode \<Rightarrow> qtext \<Rightarrow> normalizer_step list \<Rightarrow> qtext" where
  "normalize_pipeline u query_text steps =
     fold (\<lambda>step result. if step \<in> set steps then apply_step u result step else result)
       STEP_ORDER query_text"

text \<open>\<open>None\<close> is the \<open>ValueError\<close> on an unknown choice.\<close>

definition normalize_choice :: "unicode \<Rightarrow> qtext \<Rightarrow> string \<Rightarrow> qtext option" where
  "normalize_choice u query_text choice =
     map_option (normalize_pipeline u query_text) (BUNDLE_TO_STEPS choice)"

section \<open>Labels\<close>

fun join_plus :: "string list \<Rightarrow> string" where
  "join_plus [] = []"
| "join_plus [x] = x"
| "join_plus (x # y # xs) = x @ CHR ''+'' # join_plus (y # xs)"

fun split_plus :: "string \<Rightarrow> string list" where
  "split_plus [] = [[]]"
| "split_plus (c # cs) =
     (if c = CHR ''+'' then [] # split_plus cs
      else (c # hd (split_plus cs)) # List.tl (split_plus cs))"

definition label_for_subset :: "normalizer_step set \<Rightarrow> string" where
  "label_for_subset chosen =
     (if chosen = {} then ''none''
      else join_plus (map STEP_LABEL_TOKEN (filter (\<lambda>s. s \<in> chosen) LABEL_ORDER)))"

text \<open>\<open>itertools.combinations\<close>, in its order.\<close>

fun combinations :: "'a list \<Rightarrow> nat \<Rightarrow> 'a list list" where
  "combinations xs 0 = [[]]"
| "combinations [] (Suc r) = []"
| "combinations (x # xs) (Suc r) = map (Cons x) (combinations xs r) @ combinations xs (Suc r)"

definition pipeline_labels :: "normalizer_step list \<Rightarrow> string list" where
  "pipeline_labels steps =
     (let items = filter (\<lambda>s. s \<in> set steps) STEP_ORDER;
          sized_labels = concat (map (\<lambda>r. map (\<lambda>combo. (r, label_for_subset (set combo)))
            (combinations items r)) [0..<length items + 1])
      in map snd (sort_key (\<lambda>t. (fst t, snd t)) sized_labels))"

text \<open>\<open>None\<close> is the \<open>ValueError\<close> on an unknown token.\<close>

definition steps_for_label :: "string \<Rightarrow> normalizer_step list option" where
  "steps_for_label label =
     (if label = ''none'' then Some []
      else (let found = map TOKEN_TO_STEP (split_plus label)
        in if None \<in> set found then None
           else Some (filter (\<lambda>s. Some s \<in> set found) STEP_ORDER)))"

section \<open>Lemmas on labels\<close>

lemma split_plus_not_Nil [simp]: "split_plus s \<noteq> []"
  by (induction s) auto

lemma split_plus_plain: "CHR ''+'' \<notin> set s \<Longrightarrow> split_plus s = [s]"
  by (induction s) auto

lemma split_plus_append: "CHR ''+'' \<notin> set s \<Longrightarrow> split_plus (s @ CHR ''+'' # t) = s # split_plus t"
  by (induction s) auto

lemma split_join:
  "xs \<noteq> [] \<Longrightarrow> \<forall>x\<in>set xs. CHR ''+'' \<notin> set x \<Longrightarrow> split_plus (join_plus xs) = xs"
  by (induction xs rule: join_plus.induct) (auto simp: split_plus_plain split_plus_append)

lemma token_no_plus [simp]: "CHR ''+'' \<notin> set (STEP_LABEL_TOKEN s)"
  by (cases s) auto

lemma token_to_step [simp]: "TOKEN_TO_STEP (STEP_LABEL_TOKEN s) = Some s"
  by (cases s) (auto simp: TOKEN_TO_STEP_def STEP_ORDER_def)

lemma token_to_step_Some: "TOKEN_TO_STEP t = Some s \<Longrightarrow> t = STEP_LABEL_TOKEN s"
  by (auto simp: TOKEN_TO_STEP_def dest!: find_Some_in)

lemma in_orders [simp]: "s \<in> set STEP_ORDER" "s \<in> set LABEL_ORDER"
  by (cases s; simp add: STEP_ORDER_def LABEL_ORDER_def)+

lemma distinct_orders [simp]: "distinct STEP_ORDER" "distinct LABEL_ORDER"
  by (simp_all add: STEP_ORDER_def LABEL_ORDER_def)

lemma join_plus_none: "join_plus (map STEP_LABEL_TOKEN ss) = ''none'' \<Longrightarrow> False"
proof -
  assume a: "join_plus (map STEP_LABEL_TOKEN ss) = ''none''"
  then have "ss \<noteq> []" by auto
  then have "split_plus (join_plus (map STEP_LABEL_TOKEN ss)) = map STEP_LABEL_TOKEN ss"
    by (intro split_join) auto
  with a have "map STEP_LABEL_TOKEN ss = [''none'']" by (simp add: split_plus_plain)
  then obtain s where "STEP_LABEL_TOKEN s = ''none''" by auto
  then show False by (cases s) auto
qed

lemma steps_for_label_subset: "steps_for_label (label_for_subset S) = Some (filter (\<lambda>s. s \<in> S) STEP_ORDER)"
proof (cases "S = {}")
  case True
  then show ?thesis by (simp add: steps_for_label_def label_for_subset_def)
next
  case False
  let ?ss = "filter (\<lambda>s. s \<in> S) LABEL_ORDER"
  have set: "set ?ss = S" by auto
  then have "?ss \<noteq> []" using False by force
  then have sp: "split_plus (join_plus (map STEP_LABEL_TOKEN ?ss)) = map STEP_LABEL_TOKEN ?ss"
    by (intro split_join) auto
  have "map TOKEN_TO_STEP (map STEP_LABEL_TOKEN ?ss) = map Some ?ss" by simp
  moreover have "Some s \<in> set (map Some ?ss) \<longleftrightarrow> s \<in> S" for s using set by auto
  moreover have "None \<notin> set (map Some ?ss)" by auto
  ultimately show ?thesis
    using False join_plus_none [of ?ss]
    by (auto simp: steps_for_label_def label_for_subset_def sp simp del: map_map set_map set_filter)
qed

lemma label_inj: "inj label_for_subset"
proof (rule injI)
  fix S T assume "label_for_subset S = label_for_subset T"
  then have "filter (\<lambda>s. s \<in> S) STEP_ORDER = filter (\<lambda>s. s \<in> T) STEP_ORDER"
    using steps_for_label_subset [of S] steps_for_label_subset [of T] by simp
  then have "set (filter (\<lambda>s. s \<in> S) STEP_ORDER) = set (filter (\<lambda>s. s \<in> T) STEP_ORDER)" by simp
  then show "S = T" by auto
qed

lemma set_combinations: "distinct xs \<Longrightarrow> set ` set (combinations xs r) = {A. A \<subseteq> set xs \<and> card A = r}"
proof (induction xs r rule: combinations.induct)
  case (1 xs)
  then show ?case by (auto simp: finite_subset card_eq_0_iff)
next
  case (2 r)
  then show ?case by auto
next
  case (3 x xs r)
  then have x: "x \<notin> set xs" and d: "distinct xs" by auto
  have "{A. A \<subseteq> set (x # xs) \<and> card A = Suc r} =
      insert x ` {A. A \<subseteq> set xs \<and> card A = r} \<union> {A. A \<subseteq> set xs \<and> card A = Suc r}" (is "?l = ?r")
  proof (rule subset_antisym)
    show "?l \<subseteq> ?r"
    proof
      fix A assume A: "A \<in> ?l"
      then have f: "finite A" by (auto intro: finite_subset)
      show "A \<in> ?r"
      proof (cases "x \<in> A")
        case True
        then have "A = insert x (A - {x})" "A - {x} \<subseteq> set xs" "card (A - {x}) = r"
          using A f by auto
        then show ?thesis by blast
      qed (use A in auto)
    qed
    show "?r \<subseteq> ?l" using x by (auto simp: card_insert_if finite_subset [OF _ finite_set] subset_iff)
  qed
  moreover have "set ` set (combinations (x # xs) (Suc r)) =
      insert x ` (set ` set (combinations xs r)) \<union> set ` set (combinations xs (Suc r))"
    by (simp add: image_Un image_image)
  ultimately show ?case using 3 d by simp
qed

lemma length_combinations: "length (combinations xs r) = length xs choose r"
  by (induction xs r rule: combinations.induct) auto

definition sized_labels :: "normalizer_step list \<Rightarrow> (nat \<times> string) list" where
  "sized_labels items = concat (map (\<lambda>r. map (\<lambda>combo. (r, label_for_subset (set combo)))
     (combinations items r)) [0..<length items + 1])"

lemma pipeline_labels_eq:
  "pipeline_labels steps =
     map snd (sort_key (\<lambda>t. (fst t, snd t)) (sized_labels (filter (\<lambda>s. s \<in> set steps) STEP_ORDER)))"
  by (simp add: pipeline_labels_def sized_labels_def Let_def)

lemma length_sized_labels: "length (sized_labels items) = 2 ^ length items"
proof -
  have "length (sized_labels items) = (\<Sum>r\<leftarrow>[0..<length items + 1]. length items choose r)"
    by (simp add: sized_labels_def length_concat comp_def length_combinations)
  also have "\<dots> = (\<Sum>r\<le>length items. length items choose r)"
    by (simp add: sum_list_distinct_conv_sum_set atLeast0LessThan lessThan_Suc_atMost del: upt_Suc)
  finally show ?thesis by (simp add: choose_row_sum)
qed

lemma set_sized_labels:
  "distinct items \<Longrightarrow> snd ` set (sized_labels items) = label_for_subset ` Pow (set items)"
proof -
  assume d: "distinct items"
  have "snd ` set (sized_labels items) = label_for_subset ` (\<Union>r\<in>{0..<length items + 1}. set ` set (combinations items r))"
    by (simp add: sized_labels_def image_UN image_image del: upt_Suc)
  also have "(\<Union>r\<in>{0..<length items + 1}. set ` set (combinations items r)) = Pow (set items)"
  proof -
    have "card A \<le> length items" if "A \<subseteq> set items" for A
      using card_mono [OF finite_set that] card_length [of items] by simp
    then show ?thesis unfolding set_combinations [OF d] by (auto simp: less_Suc_eq_le)
  qed
  finally show ?thesis .
qed

lemma sized_label_steps:
  assumes "distinct items" "(r, l) \<in> set (sized_labels items)"
  shows "length (the (steps_for_label l)) = r"
proof -
  obtain combo where c: "combo \<in> set (combinations items r)" "l = label_for_subset (set combo)"
    using assms(2) by (auto simp: sized_labels_def simp del: upt_Suc)
  have "set combo \<in> {A. A \<subseteq> set items \<and> card A = r}"
    using c(1) set_combinations [OF assms(1), of r] by blast
  moreover have "distinct (filter (\<lambda>s. s \<in> set combo) STEP_ORDER)" by simp
  then have "length (filter (\<lambda>s. s \<in> set combo) STEP_ORDER) = card (set combo)"
    using distinct_card by fastforce
  ultimately show ?thesis by (simp add: c(2) steps_for_label_subset)
qed

section \<open>Properties of labels\<close>

text \<open>Labels and subsets of steps correspond: the label of any subset resolves to exactly
  that subset, in application order, and different subsets have different labels.\<close>

theorem label_roundtrip:
  "steps_for_label (label_for_subset S) = Some (filter (\<lambda>s. s \<in> S) STEP_ORDER) \<and>
   (label_for_subset S = label_for_subset T \<longleftrightarrow> S = T)"
  using steps_for_label_subset [of S] inj_eq [OF label_inj] by blast

text \<open>The choices a pipeline is sampled over are the labels of all subsets of its steps,
  each once: \<open>2 ^ n\<close> of them for \<open>n\<close> distinct steps, ordered by the number of steps and then
  by label.\<close>

theorem pipeline_labels_powerset:
  "set (pipeline_labels steps) = label_for_subset ` Pow (set steps) \<and>
   distinct (pipeline_labels steps) \<and>
   length (pipeline_labels steps) = 2 ^ card (set steps) \<and>
   sorted (map (\<lambda>l. (length (the (steps_for_label l)), l)) (pipeline_labels steps))"
proof -
  let ?items = "filter (\<lambda>s. s \<in> set steps) STEP_ORDER"
  let ?sz = "sized_labels ?items"
  let ?srt = "sort_key (\<lambda>t. (fst t, snd t)) ?sz"
  have items: "set ?items = set steps" "distinct ?items" by auto
  have len: "length ?items = card (set steps)" using distinct_card [OF items(2)] items(1) by simp
  have st: "set (pipeline_labels steps) = label_for_subset ` Pow (set steps)"
    using set_sized_labels [OF items(2)] items(1) by (simp add: pipeline_labels_eq)
  have ln: "length (pipeline_labels steps) = 2 ^ card (set steps)"
    by (simp only: pipeline_labels_eq length_map length_sort length_sized_labels len)
  have "card (set (pipeline_labels steps)) = 2 ^ card (set steps)"
    unfolding st by (subst card_image) (auto simp: card_Pow intro: inj_on_subset [OF label_inj])
  then have di: "distinct (pipeline_labels steps)" using ln by (simp add: card_distinct)
  have "map (\<lambda>l. (length (the (steps_for_label l)), l)) (pipeline_labels steps) =
      map (\<lambda>t. (fst t, snd t)) ?srt"
    unfolding pipeline_labels_eq map_map
    by (rule map_cong) (auto simp: comp_def dest: sized_label_steps [OF items(2)])
  then have "sorted (map (\<lambda>l. (length (the (steps_for_label l)), l)) (pipeline_labels steps))"
    by (simp only: sorted_sort_key)
  with st di ln show ?thesis by blast
qed

section \<open>Lemmas on texts\<close>

text \<open>White space in front of white space is dropped, before anything else a blank stands for it.\<close>

lemma collapse_Cons:
  "collapse u (c # cs) =
     (if \<not> uc_space u c then c # collapse u cs
      else if cs \<noteq> [] \<and> uc_space u (hd cs) then collapse u cs
      else 32 # collapse u cs)"
  by (cases cs) auto

lemma set_collapse: "x \<in> set (collapse u t) \<Longrightarrow> x \<in> set t \<or> x = 32"
  by (induction t) (auto simp: collapse_Cons simp del: collapse.simps(2) split: if_splits)

text \<open>No two neighbours are white space, and the only white space is the blank.\<close>

fun single_spaced :: "unicode \<Rightarrow> qtext \<Rightarrow> bool" where
  "single_spaced u (a # b # t) =
     (\<not> (uc_space u a \<and> uc_space u b) \<and> (uc_space u a \<longrightarrow> a = 32) \<and> single_spaced u (b # t))"
| "single_spaced u [a] = (uc_space u a \<longrightarrow> a = 32)"
| "single_spaced u [] = True"

lemma single_spaced_hd:
  "single_spaced u (a # t) \<longleftrightarrow> (uc_space u a \<longrightarrow> a = 32 \<and> (t = [] \<or> \<not> uc_space u (hd t))) \<and> single_spaced u t"
  by (cases t) auto

lemma collapse_hd: "t \<noteq> [] \<Longrightarrow> \<not> uc_space u (hd t) \<Longrightarrow> collapse u t \<noteq> [] \<and> hd (collapse u t) = hd t"
  by (cases t) (auto simp: collapse_Cons simp del: collapse.simps(2))

lemma collapse_spaced: "single_spaced u (collapse u t)"
proof (induction t)
  case (Cons c cs)
  have "collapse u cs = [] \<or> \<not> uc_space u (hd (collapse u cs))"
    if "\<not> (cs \<noteq> [] \<and> uc_space u (hd cs))"
    using that collapse_hd [of cs u] by (cases cs) auto
  with Cons show ?case
    by (auto simp: collapse_Cons single_spaced_hd simp del: collapse.simps(2) single_spaced.simps(1))
qed simp

lemma single_spaced_Cons: "single_spaced u (a # t) \<Longrightarrow> single_spaced u t"
  by (cases t) auto

lemma single_spaced_append: "single_spaced u (xs @ ys) \<Longrightarrow> single_spaced u xs \<and> single_spaced u ys"
proof (induction xs rule: single_spaced.induct [of _ u])
  case (2 u a)
  then show ?case using single_spaced_Cons by (cases ys) auto
qed auto

lemma strip_part: "\<exists>a b. t = a @ strip u t @ b"
proof -
  let ?d = "dropWhile (uc_space u) t"
  have "t = takeWhile (uc_space u) t @ ?d" by simp
  moreover have "?d = rev (dropWhile (uc_space u) (rev ?d)) @ rev (takeWhile (uc_space u) (rev ?d))"
    by (metis rev_append rev_rev_ident takeWhile_dropWhile_id)
  ultimately show ?thesis unfolding strip_def by metis
qed

lemma set_strip: "x \<in> set (strip u t) \<Longrightarrow> x \<in> set t"
  by (metis Un_iff set_append strip_part)

lemma strip_ends:
  "strip u t \<noteq> [] \<Longrightarrow> \<not> uc_space u (hd (strip u t)) \<and> \<not> uc_space u (last (strip u t))"
proof -
  let ?d = "dropWhile (uc_space u) t"
  assume ne: "strip u t \<noteq> []"
  then have r: "dropWhile (uc_space u) (rev ?d) \<noteq> []" by (simp add: strip_def)
  have "\<not> uc_space u (last (strip u t))"
    using hd_dropWhile [OF r] r by (simp add: strip_def last_rev)
  moreover have "hd (strip u t) = hd ?d"
  proof -
    obtain a where "?d = strip u t @ a"
      unfolding strip_def by (metis rev_append rev_rev_ident takeWhile_dropWhile_id)
    then show ?thesis using ne by (metis hd_append2)
  qed
  moreover have "?d \<noteq> []" using r by force
  ultimately show ?thesis using hd_dropWhile by metis
qed

text \<open>The ASCII part of the tables.\<close>

definition ascii :: unicode where
  "ascii = \<lparr>uc_lower = map (\<lambda>c. if 0x41 \<le> c \<and> c \<le> 0x5A then c + 0x20 else c),
     uc_space = (\<lambda>c. 0x09 \<le> c \<and> c \<le> 0x0D \<or> 0x1C \<le> c \<and> c \<le> 0x20),
     uc_word = (\<lambda>c. 0x30 \<le> c \<and> c \<le> 0x39 \<or> 0x41 \<le> c \<and> c \<le> 0x5A \<or> c = 0x5F \<or> 0x61 \<le> c \<and> c \<le> 0x7A)\<rparr>"

lemma in_punctuation: "c \<in> set PUNCTUATION_TO_STRIP \<longleftrightarrow>
    c \<noteq> 0x27 \<and> (0x21 \<le> c \<and> c < 0x30 \<or> 0x3A \<le> c \<and> c < 0x41 \<or> 0x5B \<le> c \<and> c < 0x61 \<or> 0x7B \<le> c \<and> c < 0x7F)"
  by (auto simp: PUNCTUATION_TO_STRIP_def simp del: upt_rec_numeral)

lemma contraction_values:
  "\<forall>(k, v)\<in>set CONTRACTION_KEYS. 0x27 \<in> set k \<and> (\<forall>x\<in>set v. x \<notin> set PUNCTUATION_TO_STRIP)"
  unfolding in_punctuation
  by (simp add: CONTRACTION_KEYS_def CONTRACTIONS_RAW_def codes_def)

lemma match_here_in: "match_here u p t = Some (k, v) \<Longrightarrow> (k, v) \<in> set CONTRACTION_KEYS \<and> take (length k) t = k"
  by (auto simp: match_here_def split: if_splits dest!: find_Some_in)

lemma set_expand:
  "x \<in> set (expand_from u p t) \<Longrightarrow> x \<in> set t \<or> x \<notin> set PUNCTUATION_TO_STRIP"
proof (induction u p t rule: expand_from.induct)
  case (2 u prev c cs)
  show ?case
  proof (cases "match_here u prev (c # cs)")
    case None
    with 2 show ?thesis by auto
  next
    case (Some kv)
    obtain k v where kv: "kv = (k, v)" by (cases kv)
    have "x \<in> set v \<or> x \<in> set (expand_from u (Some (last k)) (drop (length k - 1) cs))"
      using 2(3) Some kv by auto
    moreover have "x \<notin> set PUNCTUATION_TO_STRIP" if "x \<in> set v"
      using match_here_in [of u prev "c # cs" k v] Some kv contraction_values that by blast
    moreover have "x \<in> set cs" if "x \<in> set (drop (length k - 1) cs)"
      using that by (rule in_set_dropD)
    ultimately show ?thesis using 2(2) [OF Some kv [symmetric]] by auto
  qed
qed simp

lemma expand_no_apostrophe: "0x27 \<notin> set t \<Longrightarrow> expand_from u p t = t"
proof (induction t arbitrary: p)
  case (Cons c cs)
  have "match_here u p (c # cs) = None"
  proof (rule ccontr)
    assume "match_here u p (c # cs) \<noteq> None"
    then obtain k v where kv: "match_here u p (c # cs) = Some (k, v)" by auto
    then have "0x27 \<in> set k" "take (length k) (c # cs) = k"
      using match_here_in [OF kv] contraction_values by auto
    then have "0x27 \<in> set (c # cs)" by (metis in_set_takeD)
    with Cons.prems show False by simp
  qed
  with Cons show ?case by simp
qed simp

lemma bundle_choices: "BUNDLE_TO_STEPS c = None \<longleftrightarrow> c \<notin> set NORMALIZER_CHOICES"
  by (auto simp: BUNDLE_TO_STEPS_def NORMALIZER_CHOICES_def)

lemma bundle_label:
  "BUNDLE_TO_STEPS c = Some ss \<Longrightarrow> \<exists>ts. steps_for_label c = Some ts \<and> set ts = set ss"
proof -
  assume a: "BUNDLE_TO_STEPS c = Some ss"
  have "c = label_for_subset (set ss)"
    using a by (auto simp: BUNDLE_TO_STEPS_def label_for_subset_def LABEL_ORDER_def split: if_splits)
  then show ?thesis using steps_for_label_subset by auto
qed

lemma pipeline_cong: "set ss = set ts \<Longrightarrow> normalize_pipeline u q ss = normalize_pipeline u q ts"
  by (simp add: normalize_pipeline_def)

section \<open>Properties of the pipeline\<close>

text \<open>The two ways a choice is executed agree: a built-in choice means the pipeline of the
  steps its label resolves to, and every other string is refused.\<close>

theorem choice_is_pipeline:
  "normalize_choice u q choice =
     (if choice \<in> set NORMALIZER_CHOICES
      then map_option (normalize_pipeline u q) (steps_for_label choice) else None)"
proof (cases "BUNDLE_TO_STEPS choice")
  case None
  then show ?thesis using bundle_choices [of choice] by (simp add: normalize_choice_def)
next
  case (Some ss)
  then have "choice \<in> set NORMALIZER_CHOICES" using bundle_choices [of choice] by auto
  moreover obtain ts where "steps_for_label choice = Some ts" "set ts = set ss"
    using bundle_label [OF Some] by blast
  ultimately show ?thesis using Some pipeline_cong [of ts ss u q] by (simp add: normalize_choice_def)
qed

text \<open>What a pipeline guarantees whatever the other steps do: with both whitespace steps
  the result is trimmed and single-spaced; with \<open>strip_punctuation\<close> no stripped character is
  left, although contractions are expanded after it; without an apostrophe in the text the
  expansion step changes nothing.\<close>

theorem pipeline_guarantees:
  "({collapse_whitespace, trim} \<subseteq> set steps \<longrightarrow>
      single_spaced u (normalize_pipeline u q steps) \<and>
      (normalize_pipeline u q steps = [] \<or>
       \<not> uc_space u (hd (normalize_pipeline u q steps)) \<and> \<not> uc_space u (last (normalize_pipeline u q steps)))) \<and>
   (strip_punctuation \<in> set steps \<longrightarrow>
      set (normalize_pipeline u q steps) \<inter> set PUNCTUATION_TO_STRIP = {}) \<and>
   (0x27 \<notin> set q \<and> SMART_APOSTROPHE \<notin> set q \<longrightarrow> apply_step u q expand_contractions_en = q)"
proof (intro conjI impI)
  define a where "a = (if lowercase \<in> set steps then uc_lower u q else q)"
  define b where "b = (if strip_punctuation \<in> set steps then apply_step u a strip_punctuation else a)"
  define c where "c = (if expand_contractions_en \<in> set steps then apply_step u b expand_contractions_en else b)"
  define d where "d = (if collapse_whitespace \<in> set steps then collapse u c else c)"
  have n: "normalize_pipeline u q steps = (if trim \<in> set steps then strip u d else d)"
    by (simp add: normalize_pipeline_def STEP_ORDER_def a_def b_def c_def d_def)
  {
    assume s: "{collapse_whitespace, trim} \<subseteq> set steps"
    have "single_spaced u d" using s collapse_spaced by (simp add: d_def)
    then show "single_spaced u (normalize_pipeline u q steps)"
      using s strip_part [of d u] single_spaced_append by (metis insert_subset n)
    show "normalize_pipeline u q steps = [] \<or>
       \<not> uc_space u (hd (normalize_pipeline u q steps)) \<and> \<not> uc_space u (last (normalize_pipeline u q steps))"
      using s strip_ends [of u d] by (simp add: n) blast
  next
    assume s: "strip_punctuation \<in> set steps"
    have b: "x \<notin> set PUNCTUATION_TO_STRIP" if "x \<in> set b" for x using s that by (simp add: b_def)
    have quote: "0x27 \<notin> set PUNCTUATION_TO_STRIP" "32 \<notin> set PUNCTUATION_TO_STRIP"
      by (simp_all add: PUNCTUATION_TO_STRIP_def)
    have c: "x \<notin> set PUNCTUATION_TO_STRIP" if "x \<in> set c" for x
      using that b set_expand [of x u None "map (\<lambda>c. if c = SMART_APOSTROPHE then 0x27 else c) b"] quote
      by (auto simp: c_def split: if_splits)
    have d: "x \<notin> set PUNCTUATION_TO_STRIP" if "x \<in> set d" for x
      using that c set_collapse [of x u c] quote by (auto simp: d_def split: if_splits)
    then show "set (normalize_pipeline u q steps) \<inter> set PUNCTUATION_TO_STRIP = {}"
      using set_strip [of _ u d] by (auto simp: n)
  next
    assume "0x27 \<notin> set q \<and> SMART_APOSTROPHE \<notin> set q"
    moreover from this have "map (\<lambda>c. if c = SMART_APOSTROPHE then 0x27 else c) q = q"
      by (intro map_idI) auto
    ultimately show "apply_step u q expand_contractions_en = q" by (simp add: expand_no_apostrophe)
  }
qed

lemma pipeline_guarantees_witness:
  "single_spaced ascii (normalize_pipeline ascii (codes '' What is   THIS! '') [trim, collapse_whitespace])"
  using pipeline_guarantees [of "[trim, collapse_whitespace]" ascii "codes '' What is   THIS! ''"] by simp

end
