(* ===== verification/Agent_Confirm.thy ===== *)
theory Agent_Confirm
  imports Normalizers
begin

text \<open>
  The confirmation guard of the chat agent (\<open>backend/app/agent/confirmation.py\<close> and the guard
  of \<open>backend/app/agent/orchestrator.py\<close>): which texts of the assistant and the user
  authorize a tool that changes something. A text is a list of code points, as in
  \<open>Normalizers\<close>; the patterns are regular expressions over it with the meaning
  \<open>ends\<close>, the ends of the matches that start at a position. \<open>re.IGNORECASE\<close> compares the
  lower case of a code point, and takes the dotless i for an i and the long s for an s.
\<close>

section \<open>Patterns\<close>

datatype rx =
    Cls "nat \<Rightarrow> bool"
  | Many "nat \<Rightarrow> bool"
  | Bound
  | Nothing
  | Seq rx rx
  | Alt rx rx

record re_unicode = unicode +
  uc_tolower :: "nat \<Rightarrow> nat"

fun run_lengths :: "(nat \<Rightarrow> bool) \<Rightarrow> qtext \<Rightarrow> nat list" where
  "run_lengths p [] = [0]"
| "run_lengths p (c # cs) = 0 # (if p c then map Suc (run_lengths p cs) else [])"

definition char_before :: "qtext \<Rightarrow> nat \<Rightarrow> nat option" where
  "char_before t i = (if i = 0 then None else head_opt (drop (i - 1) t))"

primrec ends :: "'z unicode_scheme \<Rightarrow> qtext \<Rightarrow> rx \<Rightarrow> nat \<Rightarrow> nat list" where
  "ends u t (Cls p) i = (case drop i t of [] \<Rightarrow> [] | c # _ \<Rightarrow> if p c then [Suc i] else [])"
| "ends u t (Many p) i = map ((+) i) (run_lengths p (drop i t))"
| "ends u t Bound i = (if boundary (unicode.truncate u) (char_before t i) (head_opt (drop i t)) then [i] else [])"
| "ends u t Nothing i = [i]"
| "ends u t (Seq r s) i = concat (map (ends u t s) (ends u t r i))"
| "ends u t (Alt r s) i = ends u t r i @ ends u t s i"

text \<open>\<open>pattern.search\<close> and \<open>pattern.match\<close> find a match.\<close>

definition searches :: "'z unicode_scheme \<Rightarrow> rx \<Rightarrow> qtext \<Rightarrow> bool" where
  "searches u r t = list_ex (\<lambda>i. ends u t r i \<noteq> []) [0..<Suc (length t)]"

definition matches :: "'z unicode_scheme \<Rightarrow> rx \<Rightarrow> qtext \<Rightarrow> bool" where
  "matches u r t = (ends u t r 0 \<noteq> [])"

definition lit :: "string \<Rightarrow> rx" where
  "lit s = foldr (\<lambda>c. Seq (Cls (\<lambda>x. x = c))) (codes s) Nothing"

definition same_letter :: "re_unicode \<Rightarrow> nat \<Rightarrow> nat \<Rightarrow> bool" where
  "same_letter u l c = (uc_tolower u c = l \<or> l = 0x69 \<and> uc_tolower u c = 0x131 \<or> l = 0x73 \<and> uc_tolower u c = 0x17F)"

definition ilit :: "re_unicode \<Rightarrow> string \<Rightarrow> rx" where
  "ilit u s = foldr (\<lambda>c. Seq (Cls (same_letter u c))) (codes s) Nothing"

definition opt :: "rx \<Rightarrow> rx" where "opt r = Alt r Nothing"

definition any_of :: "rx list \<Rightarrow> rx" where
  "any_of rs = foldr Alt rs (Cls (\<lambda>_. False))"

definition spaces :: "'z unicode_scheme \<Rightarrow> rx" where
  "spaces u = Seq (Cls (uc_space u)) (Many (uc_space u))"

section \<open>Affirmative texts\<close>

definition MUTATING_TOOL_NAMES :: "string list" where
  "MUTATING_TOOL_NAMES = [''import_queries_from_csv'', ''generate_judgments_llm'',
     ''generate_judgments_from_ubi'', ''create_study'', ''cancel_study'',
     ''create_proposal_from_study'', ''create_proposal_manual'', ''open_pr'']"

definition AFFIRMATIVE_TOKENS :: "string list" where
  "AFFIRMATIVE_TOKENS = [''yes'', ''y'', ''yep'', ''yeah'', ''ok'', ''okay'', ''go'', ''confirm'',
     ''confirmed'', ''proceed'']"

definition AFFIRMATIVE_PHRASES :: "string list" where
  "AFFIRMATIVE_PHRASES = [''go ahead'', ''do it'', ''ship it'']"

definition LEADING_AFFIRMATIVE_PHRASE :: "re_unicode \<Rightarrow> rx" where
  "LEADING_AFFIRMATIVE_PHRASE u =
     Seq (Many (\<lambda>c. \<not> uc_word u c)) (Seq (any_of (map (ilit u) AFFIRMATIVE_PHRASES)) Bound)"

definition NEGATION_TOKENS :: "string list" where
  "NEGATION_TOKENS = [''no'', ''not'', ''don'', ''dont'', ''doesn'', ''doesnt'', ''won'', ''wont'',
     ''cancel'', ''stop'', ''abort'', ''wait'', ''nope'', ''never'', ''cant'', ''cannot'',
     ''couldnt'', ''maybe'', ''later'']"

definition NEGATION_CONTRACTIONS :: "string list" where
  "NEGATION_CONTRACTIONS = [''can'' @ [CHR 0x27] @ ''t'', ''couldn'' @ [CHR 0x27] @ ''t'']"

definition APOSTROPHE_FOLD :: "nat \<Rightarrow> nat" where
  "APOSTROPHE_FOLD c = (if c \<in> set [0x2019, 0x2018, 0x2BC, 0x2B9, 0x2032, 0xFF07] then 0x27 else c)"

definition folded :: "'z unicode_scheme \<Rightarrow> qtext \<Rightarrow> qtext" where
  "folded u t = map APOSTROPHE_FOLD (uc_lower u t)"

definition occurs :: "'a list \<Rightarrow> 'a list \<Rightarrow> bool" where
  "occurs s t = list_ex (\<lambda>i. take (length s) (drop i t) = s) [0..<Suc (length t)]"

definition az :: "nat \<Rightarrow> bool" where
  "az c = (0x61 \<le> c \<and> c \<le> 0x7A)"

text \<open>\<open>re.findall(r"[a-z]+", t)\<close>\<close>

function az_words :: "qtext \<Rightarrow> qtext list" where
  "az_words t = (case dropWhile (\<lambda>c. \<not> az c) t of
       [] \<Rightarrow> []
     | c # cs \<Rightarrow> takeWhile az (c # cs) # az_words (dropWhile az cs))"
  by pat_completeness auto
termination
proof (relation "measure length")
  fix t c cs assume "dropWhile (\<lambda>c. \<not> az c) t = c # cs"
  then have "length (c # cs) \<le> length t" by (metis length_dropWhile_le)
  then show "(dropWhile az cs, t) \<in> measure length"
    using length_dropWhile_le [of az cs] by simp
qed simp

definition is_affirmative :: "re_unicode \<Rightarrow> qtext \<Rightarrow> bool" where
  "is_affirmative u text =
     (if text = [] then False
      else (let lowered = folded u text in
        if list_ex (\<lambda>neg. occurs (codes neg) lowered) NEGATION_CONTRACTIONS then False
        else (let words = az_words lowered in
          if list_ex (\<lambda>w. codes w \<in> set words) NEGATION_TOKENS then False
          else if matches u (LEADING_AFFIRMATIVE_PHRASE u) lowered then True
          else list_ex (\<lambda>w. codes w \<in> set words) AFFIRMATIVE_TOKENS)))"

section \<open>The guard\<close>

definition spaced :: "string \<Rightarrow> string" where
  "spaced name = map (\<lambda>c. if c = CHR ''_'' then CHR '' '' else c) name"

definition tool_name_pattern :: "string \<Rightarrow> rx" where
  "tool_name_pattern name = Alt (Seq Bound (Seq (lit name) Bound)) (Seq Bound (Seq (lit (spaced name)) Bound))"

definition NEG_FORMS :: "re_unicode \<Rightarrow> rx list" where
  "NEG_FORMS u = (let i = ilit u; quote = opt (i [CHR 0x27]); sp = spaces u in
     [i ''not'', i ''never'', i ''cannot'', Seq (i ''won'') (Seq quote (i ''t'')), Seq (i ''can'') (Seq quote (i ''t'')),
      Seq (i ''do'') (Seq (opt (i ''es'')) (Seq (i ''n'') (Seq quote (i ''t'')))),
      Seq (i ''would'') (Seq (Many (uc_space u)) (Seq (i ''n'') (Seq quote (i ''t'')))),
      Seq (i ''instead'') (Seq sp (i ''of'')), Seq (i ''rather'') (Seq sp (i ''than'')),
      Seq (i ''no'') (Seq sp (Seq (i ''need'') (Seq sp (i ''to''))))])"

definition NEG_BEFORE_TOOL :: "re_unicode \<Rightarrow> rx" where
  "NEG_BEFORE_TOOL u = Seq Bound (Seq (any_of (NEG_FORMS u)) Bound)"

definition negated_tool_pattern :: "re_unicode \<Rightarrow> string \<Rightarrow> rx" where
  "negated_tool_pattern u name =
     (let word = Seq (spaces u) (Seq (Cls (uc_word u)) (Many (uc_word u))) in
      Seq (NEG_BEFORE_TOOL u) (Seq (opt (Seq word (opt (Seq word (opt word)))))
        (Seq (spaces u) (Seq (Alt (ilit u name) (ilit u (spaced name))) Bound))))"

definition tool_mention_is_negated :: "re_unicode \<Rightarrow> qtext \<Rightarrow> string \<Rightarrow> bool" where
  "tool_mention_is_negated u assistant_lower name = searches u (negated_tool_pattern u name) assistant_lower"

definition is_authorized_mutation :: "re_unicode \<Rightarrow> string \<Rightarrow> qtext option \<Rightarrow> qtext \<Rightarrow> bool" where
  "is_authorized_mutation u tool_name last_assistant_text last_user_text =
     (case last_assistant_text of
        None \<Rightarrow> False
      | Some text \<Rightarrow>
          (if text = [] then False
           else (let assistant_lower = folded u text;
                     matching_tools = filter (\<lambda>name. searches u (tool_name_pattern name) assistant_lower) MUTATING_TOOL_NAMES
                 in if matching_tools \<noteq> [tool_name] then False
                    else if tool_mention_is_negated u assistant_lower tool_name then False
                    else is_affirmative u last_user_text)))"

section \<open>Lemmas on patterns\<close>

lemma in_run_lengths: "n \<in> set (run_lengths p t) \<longleftrightarrow> n \<le> length t \<and> (\<forall>c\<in>set (take n t). p c)"
proof (induction p t arbitrary: n rule: run_lengths.induct)
  case (2 p c cs)
  then show ?case by (cases n) auto
qed auto

lemma ends_Cls: "j \<in> set (ends u t (Cls p) i) \<longleftrightarrow> i < length t \<and> p (t ! i) \<and> j = Suc i"
  by (auto simp: Cons_nth_drop_Suc [symmetric] split: list.splits if_splits)
    (metis Cons_nth_drop_Suc drop_eq_Nil leI list.distinct(1) list.inject)+

lemma codes_simps [simp]: "codes [] = []" "codes (c # cs) = of_char c # codes cs" "length (codes s) = length s"
  by (simp_all add: codes_def)

lemma lit_simps: "lit [] = Nothing" "lit (c # cs) = Seq (Cls (\<lambda>x. x = of_char c)) (lit cs)"
  by (simp_all add: lit_def)

lemma ends_Seq: "j \<in> set (ends u t (Seq r s) i) \<longleftrightarrow> (\<exists>k\<in>set (ends u t r i). j \<in> set (ends u t s k))"
  by auto

lemma ends_Alt: "j \<in> set (ends u t (Alt r s) i) \<longleftrightarrow> j \<in> set (ends u t r i) \<or> j \<in> set (ends u t s i)"
  by simp

lemma ends_Bound: "j \<in> set (ends u t Bound i) \<longleftrightarrow>
    j = i \<and> boundary (unicode.truncate u) (char_before t i) (head_opt (drop i t))"
  by simp

lemma ends_between:
  "i \<in> set (ends u t Bound i) \<Longrightarrow> k \<in> set (ends u t r i) \<Longrightarrow> k \<in> set (ends u t Bound k) \<Longrightarrow>
     k \<in> set (ends u t (Seq Bound (Seq r Bound)) i)"
  by (auto simp: ends_Seq simp del: ends.simps)

lemma ends_lit: "i \<le> length t \<Longrightarrow> j \<in> set (ends u t (lit s) i) \<longleftrightarrow> j = i + length s \<and> take (length s) (drop i t) = codes s"
proof (induction s arbitrary: i)
  case Nil
  then show ?case by (auto simp: lit_simps)
next
  case (Cons c s)
  show ?case
  proof (cases "i < length t")
    case True
    have d: "drop i t = t ! i # drop (Suc i) t" using True by (simp add: Cons_nth_drop_Suc)
    have "j \<in> set (ends u t (lit (c # s)) i) \<longleftrightarrow> t ! i = of_char c \<and> j \<in> set (ends u t (lit s) (Suc i))"
      using True by (auto simp: lit_simps ends_Seq ends_Cls simp del: ends.simps)
    then show ?thesis using Cons.IH [of "Suc i"] True by (auto simp: d)
  next
    case False
    then have "drop i t = []" by simp
    then show ?thesis by (auto simp: lit_simps)
  qed
qed

text \<open>A word stands on its own in a text: no word character before or after it.\<close>

definition stands_in :: "'z unicode_scheme \<Rightarrow> qtext \<Rightarrow> string \<Rightarrow> bool" where
  "stands_in u t w = (\<exists>before after. t = before @ codes w @ after \<and>
     (before = [] \<or> \<not> uc_word u (last before)) \<and> (after = [] \<or> \<not> uc_word u (hd after)))"

lemma head_opt_simps [simp]: "head_opt [] = None" "head_opt (c # cs) = Some c"
  by (simp_all add: head_opt_def)

lemma head_opt_hd: "t \<noteq> [] \<Longrightarrow> head_opt t = Some (hd t)"
  by (cases t) auto

lemma char_before_append: "char_before (a @ b) (length a) = (if a = [] then None else Some (last a))"
  by (cases a rule: rev_cases) (auto simp: char_before_def)

lemma truncate_word [simp]: "uc_word (unicode.truncate u) = uc_word u"
  by (simp add: unicode.truncate_def)

lemma found_word:
  assumes "w \<noteq> []" "\<forall>c\<in>set w. uc_word u (of_char c) \<or> c = CHR '' ''" "uc_word u (of_char (hd w))" "uc_word u (of_char (last w))"
  shows "searches u (Seq Bound (Seq (lit w) Bound)) t \<longleftrightarrow> stands_in u t w"
proof
  assume "searches u (Seq Bound (Seq (lit w) Bound)) t"
  then obtain i j where i: "i \<le> length t" and j: "j \<in> set (ends u t (Seq Bound (Seq (lit w) Bound)) i)"
    unfolding searches_def list_ex_iff by (metis atLeastLessThan_iff atLeastLessThan_upt less_Suc_eq_le last_in_set)
  let ?a = "take i t" and ?b = "drop (i + length w) t"
  from j i have m: "boundary (unicode.truncate u) (char_before t i) (head_opt (drop i t))"
    "take (length w) (drop i t) = codes w" "boundary (unicode.truncate u) (char_before t (i + length w)) (head_opt ?b)"
    by (auto simp: ends_Seq ends_Bound ends_lit simp del: ends.simps)
  have t: "t = ?a @ codes w @ ?b" by (metis m(2) append_take_drop_id drop_drop add.commute)
  have len: "length ?a = i" using i by simp
  have before: "char_before t i = (if ?a = [] then None else Some (last ?a))"
    using char_before_append [of ?a "drop i t"] len by simp
  have "drop i t = codes w @ ?b" using t len by (metis append_eq_conv_conj)
  then have first: "head_opt (drop i t) = Some (of_char (hd w))" using assms(1) by (cases w) auto
  have last: "char_before t (i + length w) = Some (of_char (last w))"
    using char_before_append [of "?a @ codes w" ?b] t len assms(1) by (simp add: codes_def last_map)
  have "?a = [] \<or> \<not> uc_word u (last ?a)"
    using m(1) assms(3) unfolding before first by (auto simp: boundary_def word_at_def split: if_splits)
  moreover have "?b = [] \<or> \<not> uc_word u (hd ?b)"
    using m(3) assms(4) unfolding last by (cases "?b = []") (auto simp: boundary_def word_at_def head_opt_hd)
  ultimately show "stands_in u t w" unfolding stands_in_def using t by blast
next
  assume "stands_in u t w"
  then obtain a b where t: "t = a @ codes w @ b" and a: "a = [] \<or> \<not> uc_word u (last a)" and b: "b = [] \<or> \<not> uc_word u (hd b)"
    by (auto simp: stands_in_def)
  have "head_opt (drop (length a) t) = Some (of_char (hd w))" using assms(1) t by (cases w) auto
  moreover have "char_before t (length a) = (if a = [] then None else Some (last a))" unfolding t by (rule char_before_append)
  ultimately have "boundary (unicode.truncate u) (char_before t (length a)) (head_opt (drop (length a) t))"
    using a assms(3) by (auto simp: boundary_def word_at_def)
  moreover have "char_before t (length a + length w) = Some (of_char (last w))"
    using char_before_append [of "a @ codes w" b] assms(1) by (simp add: t codes_def last_map)
  then have "boundary (unicode.truncate u) (char_before t (length a + length w)) (head_opt (drop (length a + length w) t))"
    using b assms(4) by (cases b) (auto simp: boundary_def word_at_def t)
  moreover have "take (length w) (drop (length a) t) = codes w" by (simp add: t)
  ultimately have "length a + length w \<in> set (ends u t (Seq Bound (Seq (lit w) Bound)) (length a))"
    by (auto simp: ends_Seq ends_Bound ends_lit t simp del: ends.simps)
  then show "searches u (Seq Bound (Seq (lit w) Bound)) t"
    unfolding searches_def list_ex_iff by (intro bexI [of _ "length a"]) (auto simp: t simp del: ends.simps)
qed

lemma searches_Alt: "searches u (Alt r s) t \<longleftrightarrow> searches u r t \<or> searches u s t"
  by (auto simp: searches_def list_ex_iff)

section \<open>Lemmas on words\<close>

text \<open>A maximal run of lower case letters.\<close>

definition is_run :: "qtext \<Rightarrow> qtext \<Rightarrow> bool" where
  "is_run t w = (\<exists>a b. t = a @ w @ b \<and> w \<noteq> [] \<and> (\<forall>c\<in>set w. az c) \<and>
     (a = [] \<or> \<not> az (last a)) \<and> (b = [] \<or> \<not> az (hd b)))"

declare az_words.simps [simp del]

lemma az_words_Nil: "dropWhile (\<lambda>c. \<not> az c) t = [] \<Longrightarrow> az_words t = []"
  by (subst az_words.simps) (simp only: list.case)

lemma az_words_Cons: "dropWhile (\<lambda>c. \<not> az c) t = c # cs \<Longrightarrow> az_words t = takeWhile az (c # cs) # az_words (dropWhile az cs)"
  by (subst az_words.simps) simp

lemma run_in_words: "is_run t w \<Longrightarrow> w \<in> set (az_words t)"
proof (induction t rule: az_words.induct)
  case (1 t)
  then obtain a b where t: "t = a @ w @ b" "w \<noteq> []" "\<forall>c\<in>set w. az c" "a = [] \<or> \<not> az (last a)" "b = [] \<or> \<not> az (hd b)"
    by (auto simp: is_run_def)
  show ?case
  proof (cases "\<exists>x\<in>set a. az x")
    case False
    then have d: "dropWhile (\<lambda>c. \<not> az c) t = w @ b" using t by (cases w) (auto simp: dropWhile_append2)
    have "takeWhile az (w @ b) = w" using t by (cases b) (auto simp: takeWhile_append2)
    moreover obtain c cs where "w @ b = c # cs" using t(2) by (cases w) auto
    ultimately show ?thesis using az_words_Cons [of t] d by auto
  next
    case True
    let ?d = "dropWhile (\<lambda>c. \<not> az c) a"
    from True obtain c cs where d: "?d = c # cs" "az c"
      by (metis dropWhile_eq_Nil_conv hd_dropWhile list.collapse)
    then have dt: "dropWhile (\<lambda>c. \<not> az c) t = c # (cs @ w @ b)" using True t(1) by (auto simp: dropWhile_append1)
    have "a \<noteq> []" using True by auto
    moreover have last: "last (c # cs) = last a"
      by (metis d(1) last_append list.distinct(1) takeWhile_dropWhile_id)
    ultimately have "a \<noteq> []" "last (c # cs) = last a" by auto
    then have "\<not> az (last (c # cs))" using t(4) by simp
    then have ex: "\<exists>x\<in>set cs. \<not> az x" using d(2) by (cases cs rule: rev_cases) auto
    then have rest: "dropWhile az (cs @ w @ b) = dropWhile az cs @ w @ b" by (auto simp: dropWhile_append1)
    have "dropWhile az cs \<noteq> []" using ex by (auto simp: dropWhile_eq_Nil_conv)
    then have "\<not> az (last (dropWhile az cs))"
      using \<open>\<not> az (last (c # cs))\<close> ex by (metis last_ConsR last_append list.set_cases list.distinct(1) takeWhile_dropWhile_id)
    then have "is_run (dropWhile az (cs @ w @ b)) w" unfolding is_run_def rest using t by blast
    then show ?thesis using "1.IH" [OF dt] az_words_Cons [OF dt] by simp
  qed
qed

lemma words_are_runs: "w \<in> set (az_words t) \<Longrightarrow> is_run t w"
proof (induction t rule: az_words.induct)
  case (1 t)
  show ?case
  proof (cases "dropWhile (\<lambda>c. \<not> az c) t")
    case Nil
    then show ?thesis using 1 az_words_Nil by simp
  next
    case (Cons c cs)
    let ?n = "takeWhile (\<lambda>c. \<not> az c) t" and ?r = "takeWhile az (c # cs)" and ?b = "dropWhile az cs"
    have c: "az c" using Cons by (metis hd_dropWhile list.distinct(1) list.sel(1))
    have t: "t = ?n @ ?r @ ?b" using Cons c by (metis append.assoc append_Cons takeWhile.simps(2) takeWhile_dropWhile_id)
    have n: "?n = [] \<or> \<not> az (last ?n)" by (metis last_in_set set_takeWhileD)
    have r: "?r \<noteq> []" "\<forall>x\<in>set ?r. az x" "az (last ?r)" using c by (auto dest: set_takeWhileD) (metis last_in_set set_takeWhileD)
    have b: "?b = [] \<or> \<not> az (hd ?b)" by (metis hd_dropWhile)
    consider "w = ?r" | "w \<in> set (az_words ?b)" using 1 az_words_Cons [OF Cons] by auto
    then show ?thesis
    proof cases
      case 1
      then show ?thesis unfolding is_run_def using t n r b by blast
    next
      case 2
      from "1.IH" [OF Cons this] obtain a' b' where ab: "?b = a' @ w @ b'" "w \<noteq> []" "\<forall>x\<in>set w. az x"
        "a' = [] \<or> \<not> az (last a')" "b' = [] \<or> \<not> az (hd b')" by (auto simp: is_run_def)
      have "a' \<noteq> []" using ab(1,2,3) b by (cases w) auto
      then have "t = (?n @ ?r @ a') @ w @ b' \<and> \<not> az (last (?n @ ?r @ a'))" using t ab by (metis append.assoc last_appendR)
      then show ?thesis unfolding is_run_def using ab by blast
    qed
  qed
qed

lemma words_iff_runs: "w \<in> set (az_words t) \<longleftrightarrow> is_run t w"
  using run_in_words words_are_runs by blast

lemma occurs_iff: "occurs s t \<longleftrightarrow> (\<exists>a b. t = a @ s @ b)"
proof
  assume "occurs s t"
  then obtain i where "take (length s) (drop i t) = s" by (auto simp: occurs_def list_ex_iff)
  then have "t = take i t @ s @ drop (length s) (drop i t)" by (metis append_take_drop_id)
  then show "\<exists>a b. t = a @ s @ b" by blast
next
  assume "\<exists>a b. t = a @ s @ b"
  then obtain a b where "t = a @ s @ b" by blast
  then show "occurs s t" by (auto simp: occurs_def list_ex_iff intro!: bexI [of _ "length a"])
qed

section \<open>Lemmas on negated mentions\<close>

text \<open>Of the tables of the interpreter: letters and the underscore are word characters and their own
  lower case, the space is not a word character, and it and the apostrophe are their own lower case.\<close>

definition letters_ok :: "re_unicode \<Rightarrow> bool" where
  "letters_ok u = ((\<forall>c. az c \<or> c = 0x5F \<longrightarrow> uc_word u c) \<and> \<not> uc_word u 32 \<and>
     (\<forall>c. az c \<or> c = 0x5F \<or> c = 32 \<or> c = 0x27 \<longrightarrow> uc_tolower u c = c) \<and> (\<forall>c. uc_space u c \<longrightarrow> \<not> uc_word u c))"

lemma ilit_simps: "ilit u [] = Nothing" "ilit u (c # cs) = Seq (Cls (same_letter u (of_char c))) (ilit u cs)"
  by (simp_all add: ilit_def)

lemma ends_ilit:
  "\<forall>c\<in>set s. uc_tolower u (of_char c) = of_char c \<Longrightarrow> drop i t = codes s @ rest \<Longrightarrow> i + length s \<in> set (ends u t (ilit u s) i)"
proof (induction s arbitrary: i)
  case (Cons c s)
  then have "drop (Suc i) t = codes s @ rest" by (metis drop_Suc drop_drop codes_simps(2) append_Cons list.sel(3) tl_drop plus_1_eq_Suc)
  with Cons have "Suc i + length s \<in> set (ends u t (ilit u s) (Suc i))" using Cons.IH [of "Suc i"] by auto
  moreover have "Suc i \<in> set (ends u t (Cls (same_letter u (of_char c))) i)" using Cons.prems by (simp add: same_letter_def)
  ultimately show ?case by (auto simp: ilit_simps ends_Seq simp del: ends.simps)
qed (simp add: ilit_simps)

lemma ends_run:
  assumes "drop i t = r @ rest" "r \<noteq> []" "\<forall>c\<in>set r. p c"
  shows "i + length r \<in> set (ends u t (Seq (Cls p) (Many p)) i)"
proof -
  obtain c cs where r: "r = c # cs" using assms(2) by (cases r) auto
  have d: "drop (Suc i) t = cs @ rest" using assms(1) r by (metis append_Cons drop_Suc list.sel(3) tl_drop)
  have "Suc i \<in> set (ends u t (Cls p) i)" using assms r by simp
  moreover have "length cs \<in> set (run_lengths p (cs @ rest))" using assms(3) r by (simp add: in_run_lengths)
  then have "Suc i + length cs \<in> set (ends u t (Many p) (Suc i))" by (simp add: d)
  ultimately show ?thesis by (auto simp: ends_Seq r simp del: ends.simps)
qed

text \<open>Up to three words, each with white space before it.\<close>

definition word_gap :: "re_unicode \<Rightarrow> qtext \<times> qtext \<Rightarrow> bool" where
  "word_gap u g = (fst g \<noteq> [] \<and> snd g \<noteq> [] \<and> (\<forall>c\<in>set (fst g). uc_space u c) \<and> (\<forall>c\<in>set (snd g). uc_word u c))"

abbreviation "gap_word u \<equiv> Seq (spaces u) (Seq (Cls (uc_word u)) (Many (uc_word u)))"

lemma ends_gap_word:
  assumes "word_gap u g" "drop i t = fst g @ snd g @ rest"
  shows "i + length (fst g) + length (snd g) \<in> set (ends u t (gap_word u) i)"
proof -
  have "i + length (fst g) \<in> set (ends u t (spaces u) i)"
    unfolding spaces_def using assms by (intro ends_run [of i t _ "snd g @ rest"]) (auto simp: word_gap_def)
  moreover have "drop (i + length (fst g)) t = snd g @ rest" using assms(2) by (metis append_eq_conv_conj drop_drop add.commute)
  then have "i + length (fst g) + length (snd g) \<in> set (ends u t (Seq (Cls (uc_word u)) (Many (uc_word u))) (i + length (fst g)))"
    using assms(1) by (intro ends_run) (auto simp: word_gap_def)
  ultimately show ?thesis by (auto simp: ends_Seq [of _ u t "spaces u"] simp del: ends.simps)
qed

lemma ends_opt: "j \<in> set (ends u t (opt r) i) \<longleftrightarrow> j = i \<or> j \<in> set (ends u t r i)"
  by (auto simp: opt_def)

definition gap_text :: "(qtext \<times> qtext) list \<Rightarrow> qtext" where
  "gap_text gs = concat (map (\<lambda>g. fst g @ snd g) gs)"

lemma ends_gaps:
  assumes "length gs \<le> 3" "\<forall>g\<in>set gs. word_gap u g" "drop i t = gap_text gs @ rest"
  shows "i + length (gap_text gs) \<in> set (ends u t (opt (Seq (gap_word u) (opt (Seq (gap_word u) (opt (gap_word u)))))) i)"
proof -
  have step: "i + length (gap_text (g # gs)) \<in> set (ends u t (opt (Seq (gap_word u) r)) i)"
    if "word_gap u g" "drop i t = gap_text (g # gs) @ rest"
      "\<And>k. drop k t = gap_text gs @ rest \<Longrightarrow> k + length (gap_text gs) \<in> set (ends u t r k)" for g gs i r
  proof -
    let ?k = "i + length (fst g) + length (snd g)"
    have "?k \<in> set (ends u t (gap_word u) i)" using that(1,2) by (intro ends_gap_word) (auto simp: gap_text_def)
    moreover have "drop ?k t = gap_text gs @ rest"
      using arg_cong [OF that(2), of "drop (length (fst g @ snd g))"] by (simp add: gap_text_def add.commute add.left_commute)
    ultimately show ?thesis using that(3) [of ?k]
      by (auto simp: ends_opt ends_Seq [of _ u t "gap_word u"] gap_text_def add.assoc simp del: ends.simps)
  qed
  have nil: "k + length (gap_text []) \<in> set (ends u t (opt r) k)" for k r by (simp add: gap_text_def ends_opt del: ends.simps)
  have one: "k + length (gap_text [g]) \<in> set (ends u t (opt (gap_word u)) k)"
    if "word_gap u g" "drop k t = gap_text [g] @ rest" for k g
    using ends_gap_word [OF that(1), of k t rest] that(2) by (simp add: gap_text_def ends_opt add.assoc del: ends.simps)
  have two: "k + length (gap_text hs) \<in> set (ends u t (opt (Seq (gap_word u) (opt (gap_word u)))) k)"
    if "length hs \<le> 2" "\<forall>g\<in>set hs. word_gap u g" "drop k t = gap_text hs @ rest" for k hs
  proof (cases hs)
    case (Cons g ts)
    then have "ts = [] \<or> (\<exists>h. ts = [h])" using that(1) by (cases ts) auto
    then show ?thesis unfolding Cons using that Cons by (intro step) (auto intro: nil one)
  qed (simp only: nil)
  show ?thesis
  proof (cases gs)
    case (Cons g ts)
    then show ?thesis unfolding Cons using assms Cons by (intro step two) auto
  qed (simp only: nil)
qed

lemma tool_letters:
  "list_all (\<lambda>n. n \<noteq> [] \<and> list_all (\<lambda>c. az (of_char c) \<or> c = CHR ''_'') n \<and> az (of_char (hd n)) \<and> az (of_char (last n)))
     MUTATING_TOOL_NAMES"
  "list_all (\<lambda>n. spaced n \<noteq> [] \<and> list_all (\<lambda>c. az (of_char c) \<or> c = CHR '' '') (spaced n) \<and>
      az (of_char (hd (spaced n))) \<and> az (of_char (last (spaced n)))) MUTATING_TOOL_NAMES"
  by code_simp+

lemma tool_names_plain:
  assumes "name \<in> set MUTATING_TOOL_NAMES"
  shows "name \<noteq> []" "\<forall>c\<in>set name. az (of_char c) \<or> c = CHR ''_''" "az (of_char (hd name))" "az (of_char (last name))"
  using bspec [OF tool_letters(1) [unfolded list_all_iff] assms] by auto

lemma spaced_plain:
  assumes "name \<in> set MUTATING_TOOL_NAMES"
  shows "spaced name \<noteq> []" "\<forall>c\<in>set (spaced name). az (of_char c) \<or> c = CHR '' ''"
    "az (of_char (hd (spaced name)))" "az (of_char (last (spaced name)))"
  using bspec [OF tool_letters(2) [unfolded list_all_iff] assms] by auto

lemma tool_lower:
  assumes "letters_ok u" "name \<in> set MUTATING_TOOL_NAMES" "form = name \<or> form = spaced name"
  shows "\<forall>c\<in>set form. uc_tolower u (of_char c) = of_char c" "form \<noteq> []"
    "uc_word u (of_char (hd form))" "uc_word u (of_char (last form))" "\<forall>c\<in>set form. uc_word u (of_char c) \<or> c = CHR '' ''"
proof -
  have plain: "\<forall>c\<in>set form. az (of_char c) \<or> c = CHR ''_'' \<or> c = CHR '' ''" "form \<noteq> []"
    "az (of_char (hd form))" "az (of_char (last form))"
    using assms(3) tool_names_plain [OF assms(2)] spaced_plain [OF assms(2)] by auto
  have tables: "az x \<Longrightarrow> uc_word u x" "az x \<Longrightarrow> uc_tolower u x = x" "uc_word u 0x5F" "uc_tolower u 0x5F = 0x5F"
    "uc_tolower u 32 = 32" for x using assms(1) by (auto simp: letters_ok_def)
  show "\<forall>c\<in>set form. uc_tolower u (of_char c) = of_char c" using plain(1) tables by auto
  show "\<forall>c\<in>set form. uc_word u (of_char c) \<or> c = CHR '' ''" using plain(1) tables by auto
  show "form \<noteq> []" "uc_word u (of_char (hd form))" "uc_word u (of_char (last form))" using plain tables by auto
qed

text \<open>A pattern that can match a text, wherever it stands.\<close>

definition reads :: "re_unicode \<Rightarrow> rx \<Rightarrow> qtext \<Rightarrow> bool" where
  "reads u r s = (\<forall>t i rest. drop i t = s @ rest \<longrightarrow> i + length s \<in> set (ends u t r i))"

lemma reads_Seq: "reads u r a \<Longrightarrow> reads u s b \<Longrightarrow> reads u (Seq r s) (a @ b)"
  unfolding reads_def
proof (intro allI impI)
  fix t i rest
  assume r: "\<forall>t i rest. drop i t = a @ rest \<longrightarrow> i + length a \<in> set (ends u t r i)"
    and s: "\<forall>t i rest. drop i t = b @ rest \<longrightarrow> i + length b \<in> set (ends u t s i)" and d: "drop i t = (a @ b) @ rest"
  have "drop (i + length a) t = b @ rest" using arg_cong [OF d, of "drop (length a)"] by (simp add: add.commute)
  then have "i + length a \<in> set (ends u t r i)" "i + length a + length b \<in> set (ends u t s (i + length a))" using r s d by auto
  then show "i + length (a @ b) \<in> set (ends u t (Seq r s) i)" by (auto simp: ends_Seq [of _ u t r] add.assoc simp del: ends.simps)
qed

lemma reads_ilit: "\<forall>c\<in>set s. uc_tolower u (of_char c) = of_char c \<Longrightarrow> reads u (ilit u s) (codes s)"
  unfolding reads_def using ends_ilit by fastforce

lemma reads_opt: "reads u (opt r) []" "reads u r a \<Longrightarrow> reads u (opt r) a"
  by (auto simp: reads_def ends_opt simp del: ends.simps)

lemma reads_spaces: "sp \<noteq> [] \<Longrightarrow> \<forall>c\<in>set sp. uc_space u c \<Longrightarrow> reads u (spaces u) sp"
  unfolding reads_def spaces_def by (blast intro: ends_run)

lemma reads_Many: "\<forall>c\<in>set sp. p c \<Longrightarrow> reads u (Many p) sp"
  by (auto simp: reads_def in_run_lengths)

text \<open>The words of a refusal, the apostrophe of a contraction written or not: \<open>not\<close>, \<open>never\<close>, \<open>cannot\<close>, \<open>won't\<close>,
  \<open>can't\<close>, \<open>don't\<close>, \<open>doesn't\<close>, \<open>wouldn't\<close>, \<open>instead of\<close>, \<open>rather than\<close> and \<open>no need to\<close>.\<close>

definition refusal :: "re_unicode \<Rightarrow> qtext \<Rightarrow> bool" where
  "refusal u r =
     (r \<in> {codes ''not'', codes ''never'', codes ''cannot''} \<or>
      (\<exists>q\<in>{[], [0x27]}. r \<in> {codes ''won'' @ q @ codes ''t'', codes ''can'' @ q @ codes ''t'', codes ''don'' @ q @ codes ''t'',
         codes ''doesn'' @ q @ codes ''t'', codes ''wouldn'' @ q @ codes ''t''}) \<or>
      (\<exists>a b. a \<noteq> [] \<and> b \<noteq> [] \<and> (\<forall>c\<in>set a. uc_space u c) \<and> (\<forall>c\<in>set b. uc_space u c) \<and>
         r \<in> {codes ''instead'' @ a @ codes ''of'', codes ''rather'' @ a @ codes ''than'',
           codes ''no'' @ a @ codes ''need'' @ b @ codes ''to''}))"

lemma refusal_read:
  assumes "letters_ok u" "refusal u r"
  shows "\<exists>f\<in>set (NEG_FORMS u). reads u f r"
proof -
  have low: "uc_tolower u x = x" if "az x \<or> x = 0x27" for x using assms(1) that unfolding letters_ok_def by blast
  have lit: "reads u (ilit u s) (codes s)" if "\<forall>c\<in>set s. az (of_char c) \<or> of_char c = (0x27 :: nat)" for s
    using that low by (intro reads_ilit) blast
  have quote: "reads u (opt (ilit u [CHR 0x27])) q" if "q \<in> {[], [0x27]}" for q
    using that reads_opt(1) reads_opt(2) [OF lit [of "[CHR 0x27]"]] by (auto simp: codes_def)
  have a: "az (of_char c)" if "c \<in> set ''notevrcawdsuliph''" for c using that by (auto simp: az_def)
  have words: "reads u (ilit u s) (codes s)" if "set s \<subseteq> set ''notevrcawdsuliph''" for s
    using that a by (intro lit) blast
  have sp: "reads u (spaces u) a" if "a \<noteq> []" "\<forall>c\<in>set a. uc_space u c" for a using reads_spaces that by blast
  let ?q = "opt (ilit u [CHR 0x27])"
  let ?do = "Seq (ilit u ''do'') (Seq (opt (ilit u ''es'')) (Seq (ilit u ''n'') (Seq ?q (ilit u ''t''))))"
  let ?would = "Seq (ilit u ''would'') (Seq (Many (uc_space u)) (Seq (ilit u ''n'') (Seq ?q (ilit u ''t''))))"
  let ?need = "Seq (ilit u ''no'') (Seq (spaces u) (Seq (ilit u ''need'') (Seq (spaces u) (ilit u ''to''))))"
  have forms: "ilit u ''not'' \<in> set (NEG_FORMS u)" "ilit u ''never'' \<in> set (NEG_FORMS u)" "ilit u ''cannot'' \<in> set (NEG_FORMS u)"
    "Seq (ilit u ''won'') (Seq ?q (ilit u ''t'')) \<in> set (NEG_FORMS u)" "Seq (ilit u ''can'') (Seq ?q (ilit u ''t'')) \<in> set (NEG_FORMS u)"
    "?do \<in> set (NEG_FORMS u)" "?would \<in> set (NEG_FORMS u)" "?need \<in> set (NEG_FORMS u)"
    "Seq (ilit u ''instead'') (Seq (spaces u) (ilit u ''of'')) \<in> set (NEG_FORMS u)"
    "Seq (ilit u ''rather'') (Seq (spaces u) (ilit u ''than'')) \<in> set (NEG_FORMS u)"
    unfolding NEG_FORMS_def Let_def by simp_all
  have plain: "reads u (ilit u s) (codes s)" if "s \<in> {''not'', ''never'', ''cannot''}" for s
    using that by (intro words) auto
  have short: "reads u (Seq (ilit u s) (Seq ?q (ilit u ''t''))) (codes s @ q @ codes ''t'')"
    if "s \<in> {''won'', ''can''}" "q \<in> {[], [0x27]}" for s q
    using that(1) quote [OF that(2)] by (intro reads_Seq words) auto
  have do: "reads u ?do (codes ''do'' @ x @ codes ''n'' @ q @ codes ''t'')" if "x \<in> {[], codes ''es''}" "q \<in> {[], [0x27]}" for x q
  proof -
    have "reads u (opt (ilit u ''es'')) x" using that(1) reads_opt [of u "ilit u ''es''"] words [of "''es''"] by auto
    then show ?thesis using quote [OF that(2)] by (intro reads_Seq words) auto
  qed
  have does: "reads u ?do (codes ''don'' @ q @ codes ''t'')" "reads u ?do (codes ''doesn'' @ q @ codes ''t'')"
    if "q \<in> {[], [0x27]}" for q
    using do [OF _ that, of "[]"] do [OF _ that, of "codes ''es''"] by (simp_all add: codes_def)
  have "reads u ?would (codes ''would'' @ [] @ codes ''n'' @ q @ codes ''t'')" if "q \<in> {[], [0x27]}" for q
    using quote [OF that] by (intro reads_Seq words reads_Many) auto
  then have would: "reads u ?would (codes ''wouldn'' @ q @ codes ''t'')" if "q \<in> {[], [0x27]}" for q
    using that by (simp add: codes_def)
  have of: "reads u (ilit u ''of'') (codes ''of'')" by (intro lit) (simp add: az_def)
  have spread: "reads u (Seq (ilit u ''instead'') (Seq (spaces u) (ilit u ''of''))) (codes ''instead'' @ a @ codes ''of'')"
    "reads u (Seq (ilit u ''rather'') (Seq (spaces u) (ilit u ''than''))) (codes ''rather'' @ a @ codes ''than'')"
    if "a \<noteq> []" "\<forall>c\<in>set a. uc_space u c" for a
    by (intro reads_Seq words sp [OF that] of; simp)+
  have need: "reads u ?need (codes ''no'' @ a @ codes ''need'' @ b @ codes ''to'')"
    if "a \<noteq> []" "\<forall>c\<in>set a. uc_space u c" "b \<noteq> []" "\<forall>c\<in>set b. uc_space u c" for a b
    by (intro reads_Seq words sp [OF that(1,2)] sp [OF that(3,4)]; simp)
  have hit: "r = s \<Longrightarrow> ?thesis" if "f \<in> set (NEG_FORMS u)" "reads u f s" for f s using that by blast
  from assms(2) [unfolded refusal_def] show ?thesis
  proof (elim disjE bexE exE conjE)
    assume "r \<in> {codes ''not'', codes ''never'', codes ''cannot''}"
    then show ?thesis
      by (elim insertE emptyE)
        (rule hit [OF forms(1) plain], simp, assumption, rule hit [OF forms(2) plain], simp, assumption,
         rule hit [OF forms(3) plain], simp, assumption)
  next
    fix q :: qtext assume q: "q \<in> {[], [0x27]}"
    assume "r \<in> {codes ''won'' @ q @ codes ''t'', codes ''can'' @ q @ codes ''t'', codes ''don'' @ q @ codes ''t'',
         codes ''doesn'' @ q @ codes ''t'', codes ''wouldn'' @ q @ codes ''t''}"
    then show ?thesis
      by (elim insertE emptyE)
        (rule hit [OF forms(4) short [OF _ q]], simp, assumption, rule hit [OF forms(5) short [OF _ q]], simp, assumption,
         rule hit [OF forms(6) does(1) [OF q]], assumption, rule hit [OF forms(6) does(2) [OF q]], assumption,
         rule hit [OF forms(7) would [OF q]], assumption)
  next
    fix a b :: qtext assume ab: "a \<noteq> []" "b \<noteq> []" "\<forall>c\<in>set a. uc_space u c" "\<forall>c\<in>set b. uc_space u c"
    assume "r \<in> {codes ''instead'' @ a @ codes ''of'', codes ''rather'' @ a @ codes ''than'',
      codes ''no'' @ a @ codes ''need'' @ b @ codes ''to''}"
    then show ?thesis
      by (elim insertE emptyE)
        (rule hit [OF forms(9) spread(1) [OF ab(1,3)]], assumption, rule hit [OF forms(10) spread(2) [OF ab(1,3)]], assumption,
         rule hit [OF forms(8) need [OF ab(1,3,2,4)]], assumption)
  qed
qed

lemma refusal_ends: "refusal u r \<Longrightarrow> r \<noteq> [] \<and> az (hd r) \<and> az (last r)"
  by (auto simp: refusal_def codes_def az_def)

text \<open>The assistant declines: a refusal, at most three words, the name of the tool.\<close>

definition declines :: "re_unicode \<Rightarrow> qtext \<Rightarrow> string \<Rightarrow> bool" where
  "declines u t name = (\<exists>before neg gs sp form after. t = before @ neg @ gap_text gs @ sp @ codes form @ after \<and>
     refusal u neg \<and> length gs \<le> 3 \<and> (\<forall>g\<in>set gs. word_gap u g) \<and>
     sp \<noteq> [] \<and> (\<forall>c\<in>set sp. uc_space u c) \<and> (form = name \<or> form = spaced name) \<and>
     (before = [] \<or> \<not> uc_word u (last before)) \<and> (after = [] \<or> \<not> uc_word u (hd after)))"

lemma ends_any_of: "r \<in> set rs \<Longrightarrow> j \<in> set (ends u t r i) \<Longrightarrow> j \<in> set (ends u t (any_of rs) i)"
  by (induction rs) (auto simp: any_of_def)

lemma gap_text_hd:
  assumes "\<forall>g\<in>set gs. word_gap u g" "sp \<noteq> []" "\<forall>c\<in>set sp. uc_space u c"
  shows "gap_text gs @ sp \<noteq> [] \<and> uc_space u (hd (gap_text gs @ sp))"
  using assms by (cases gs) (auto simp: gap_text_def word_gap_def hd_append)

lemma declined_is_negated:
  assumes "letters_ok u" "name \<in> set MUTATING_TOOL_NAMES" "declines u t name"
  shows "tool_mention_is_negated u t name"
proof -
  from assms(3) obtain before neg gs sp form after where
    t: "t = before @ neg @ gap_text gs @ sp @ codes form @ after" and
    neg: "refusal u neg" and gs: "length gs \<le> 3" "\<forall>g\<in>set gs. word_gap u g" and
    sp: "sp \<noteq> []" "\<forall>c\<in>set sp. uc_space u c" and form: "form = name \<or> form = spaced name" and
    before: "before = [] \<or> \<not> uc_word u (last before)" and after: "after = [] \<or> \<not> uc_word u (hd after)"
    unfolding declines_def by blast
  note fl = tool_lower [OF assms(1,2) form]
  have tables: "az x \<Longrightarrow> uc_word u x" "az x \<Longrightarrow> uc_tolower u x = x" "uc_space u x \<Longrightarrow> \<not> uc_word u x" for x
    using assms(1) by (auto simp: letters_ok_def)
  have nl: "az (hd neg)" "az (last neg)" "neg \<noteq> []" using refusal_ends [OF neg] by auto
  obtain f where f: "f \<in> set (NEG_FORMS u)" "reads u f neg" using refusal_read [OF assms(1) neg] by blast
  let ?i = "length before" let ?j = "?i + length neg" let ?k = "?j + length (gap_text gs)" let ?l = "?k + length sp"
  let ?m = "?l + length form"
  have d: "drop ?i t = neg @ gap_text gs @ sp @ codes form @ after" "drop ?j t = gap_text gs @ sp @ codes form @ after"
    "drop ?k t = sp @ codes form @ after" "drop ?l t = codes form @ after" "drop ?m t = after" by (simp_all add: t)
  have cb: "char_before t ?i = (if before = [] then None else Some (last before))"
    "char_before t ?j = Some (last neg)" "char_before t ?m = Some (of_char (last form))"
    using char_before_append [of before] char_before_append [of "before @ neg"]
      char_before_append [of "before @ neg @ gap_text gs @ sp @ codes form"] nl(3) fl(2)
    by (simp_all add: t codes_def last_map add.assoc)
  have "boundary (unicode.truncate u) (char_before t ?i) (head_opt (drop ?i t))"
    using before nl tables(1) unfolding cb d by (cases neg) (auto simp: boundary_def word_at_def)
  moreover have "?j \<in> set (ends u t f ?i)" using f(2) d(1) unfolding reads_def by blast
  moreover obtain y ys where y: "gap_text gs @ sp @ codes form @ after = y # ys" "uc_space u y"
  proof -
    from gap_text_hd [OF gs(2) sp] obtain a as where "gap_text gs @ sp = a # as" "uc_space u a"
      by (cases "gap_text gs @ sp") auto
    then show ?thesis using that [of a "as @ codes form @ after"] by (metis append.assoc append_Cons)
  qed
  then have "boundary (unicode.truncate u) (char_before t ?j) (head_opt (drop ?j t))"
    using nl tables unfolding cb d y(1) by (auto simp: boundary_def word_at_def)
  ultimately have neg_end: "?j \<in> set (ends u t (NEG_BEFORE_TOOL u) ?i)"
    unfolding NEG_BEFORE_TOOL_def using f(1) by (intro ends_between ends_any_of [of f]) (simp_all only: ends_Bound)
  have gaps: "?k \<in> set (ends u t (opt (Seq (gap_word u) (opt (Seq (gap_word u) (opt (gap_word u)))))) ?j)"
    using ends_gaps [OF gs d(2)] .
  have spe: "?l \<in> set (ends u t (spaces u) ?k)" unfolding spaces_def using ends_run [OF d(3) sp] .
  have frm: "?m \<in> set (ends u t (Alt (ilit u name) (ilit u (spaced name))) ?l)"
    using ends_ilit [OF fl(1) d(4)] form by (auto simp del: ends.simps simp: ends_Alt)
  have "boundary (unicode.truncate u) (char_before t ?m) (head_opt (drop ?m t))"
    using after fl unfolding cb d by (cases after) (auto simp: boundary_def word_at_def)
  then have "?m \<in> set (ends u t (negated_tool_pattern u name) ?i)"
    unfolding negated_tool_pattern_def Let_def ends_Seq [of _ u t "NEG_BEFORE_TOOL u"]
      ends_Seq [of _ u t "opt r" for r] ends_Seq [of _ u t "spaces u" "Seq (Alt r s) b" for r s b] ends_Seq [of _ u t "Alt r s" for r s] ends_Bound
    using neg_end gaps spe frm by blast
  then show ?thesis
    unfolding tool_mention_is_negated_def searches_def list_ex_iff by (intro bexI [of _ ?i]) (auto simp: t simp del: ends.simps)
qed

lemma affirmative_iff:
  "is_affirmative u t \<longleftrightarrow> t \<noteq> [] \<and> \<not> list_ex (\<lambda>neg. occurs (codes neg) (folded u t)) NEGATION_CONTRACTIONS \<and>
     \<not> list_ex (\<lambda>w. codes w \<in> set (az_words (folded u t))) NEGATION_TOKENS \<and>
     (matches u (LEADING_AFFIRMATIVE_PHRASE u) (folded u t) \<or>
      list_ex (\<lambda>w. codes w \<in> set (az_words (folded u t))) AFFIRMATIVE_TOKENS)"
  by (simp add: is_affirmative_def Let_def)

section \<open>A guarded request\<close>

definition ascii_re :: re_unicode where
  "ascii_re = unicode.extend ascii \<lparr>uc_tolower = (\<lambda>c. if 0x41 \<le> c \<and> c \<le> 0x5A then c + 0x20 else c)\<rparr>"

lemma ascii_letters: "letters_ok ascii_re"
  by (auto simp: letters_ok_def ascii_re_def unicode.extend_def ascii_def az_def)

lemma plain_folded:
  "\<forall>c\<in>set s. az (of_char c) \<or> c = CHR ''_'' \<or> c = CHR ''?'' \<Longrightarrow> folded ascii_re (codes s) = codes s"
  by (induction s) (auto simp: folded_def ascii_re_def unicode.extend_def ascii_def APOSTROPHE_FOLD_def az_def)

lemma demo_user: "is_affirmative ascii_re (codes ''ok'')"
proof -
  have "az_words (codes ''ok'') = [codes ''ok'']" by (simp add: az_words.simps codes_def az_def)
  moreover have "folded ascii_re (codes ''ok'') = codes ''ok''" by (rule plain_folded) (simp add: az_def)
  moreover have "occurs (codes neg) (codes ''ok'') = False" if "neg \<in> set NEGATION_CONTRACTIONS" for neg
    using that by (auto simp: NEGATION_CONTRACTIONS_def occurs_def)
  ultimately show ?thesis unfolding affirmative_iff list_ex_iff
    by (auto simp: NEGATION_TOKENS_def AFFIRMATIVE_TOKENS_def)
qed

lemma demo_pr: "filter (\<lambda>name. searches ascii_re (tool_name_pattern name) (codes ''open_pr'')) MUTATING_TOOL_NAMES = [''open_pr'']"
 by (simp add: searches_def codes_def tool_name_pattern_def MUTATING_TOOL_NAMES_def lit_def spaced_def char_before_def boundary_def ascii_re_def unicode.extend_def ascii_def unicode.truncate_def word_at_def upt_rec)

lemma no_space_not_negated:
  assumes "\<forall>c\<in>set t. \<not> uc_space u c"
  shows "\<not> tool_mention_is_negated u t name"
proof -
  have "ends u t (Cls (uc_space u)) i = []" for i
    using assms ends_Cls [of _ u t "uc_space u" i] by (metis nth_mem list.set_intros(1) neq_Nil_conv)
  then have "ends u t (spaces u) i = []" for i by (simp add: spaces_def del: ends.simps(1))
  then show ?thesis
    by (simp add: tool_mention_is_negated_def searches_def negated_tool_pattern_def Let_def list_ex_iff)
qed

lemma demo_neg: "\<not> tool_mention_is_negated ascii_re (codes ''open_pr'') ''open_pr''"
  by (rule no_space_not_negated) (simp add: codes_def ascii_re_def unicode.extend_def ascii_def)

lemma demo_authorized:
  "is_authorized_mutation ascii_re ''open_pr'' (Some (codes ''open_pr'')) (codes ''ok'')"
proof -
  have "folded ascii_re (codes ''open_pr'') = codes ''open_pr''" by (rule plain_folded) (simp add: az_def)
  then show ?thesis using demo_user demo_neg demo_pr by (simp add: is_authorized_mutation_def Let_def)
qed

section \<open>Properties\<close>

text \<open>C14 What the guard authorizes: the last message of the assistant names this tool, as words of their
  own, and no other tool that changes something, and has no refusal within three words before its name;
  and the user says yes, and nothing that means no.\<close>

theorem confirmation_guard:
  assumes "letters_ok u" and "is_authorized_mutation u tool assistant user"
  shows "\<exists>said. assistant = Some said \<and> tool \<in> set MUTATING_TOOL_NAMES \<and>
    (\<forall>name\<in>set MUTATING_TOOL_NAMES.
       stands_in u (folded u said) name \<or> stands_in u (folded u said) (spaced name) \<longleftrightarrow> name = tool) \<and>
    \<not> declines u (folded u said) tool \<and>
    (\<forall>w\<in>set NEGATION_TOKENS. \<not> is_run (folded u user) (codes w)) \<and>
    (\<forall>w\<in>set NEGATION_CONTRACTIONS. \<not> (\<exists>a b. folded u user = a @ codes w @ b)) \<and>
    (matches u (LEADING_AFFIRMATIVE_PHRASE u) (folded u user) \<or>
     (\<exists>w\<in>set AFFIRMATIVE_TOKENS. is_run (folded u user) (codes w)))"
proof -
  from assms(2) obtain said where said: "assistant = Some said"
    "filter (\<lambda>name. searches u (tool_name_pattern name) (folded u said)) MUTATING_TOOL_NAMES = [tool]"
    "\<not> tool_mention_is_negated u (folded u said) tool" "is_affirmative u user"
    by (auto simp: is_authorized_mutation_def Let_def split: option.splits if_splits)
  have "\<forall>name\<in>set MUTATING_TOOL_NAMES. searches u (tool_name_pattern name) (folded u said) \<longleftrightarrow> name = tool"
    using arg_cong [OF said(2), of set] by auto
  moreover have "searches u (tool_name_pattern name) t \<longleftrightarrow> stands_in u t name \<or> stands_in u t (spaced name)"
    if "name \<in> set MUTATING_TOOL_NAMES" for name t
  proof -
    have "searches u (Seq Bound (Seq (lit form) Bound)) t \<longleftrightarrow> stands_in u t form" if "form = name \<or> form = spaced name" for form
      using tool_lower [OF assms(1) \<open>name \<in> set MUTATING_TOOL_NAMES\<close> that] by (intro found_word)
    then show ?thesis unfolding tool_name_pattern_def searches_Alt by simp
  qed
  moreover have tool: "tool \<in> set MUTATING_TOOL_NAMES" using arg_cong [OF said(2), of set] by auto
  moreover have "\<not> declines u (folded u said) tool" using declined_is_negated [OF assms(1) tool] said(3) by blast
  moreover have "(\<forall>w\<in>set NEGATION_TOKENS. \<not> is_run (folded u user) (codes w)) \<and>
    (\<forall>w\<in>set NEGATION_CONTRACTIONS. \<not> (\<exists>a b. folded u user = a @ codes w @ b)) \<and>
    (matches u (LEADING_AFFIRMATIVE_PHRASE u) (folded u user) \<or>
     (\<exists>w\<in>set AFFIRMATIVE_TOKENS. is_run (folded u user) (codes w)))"
    using affirmative_iff [THEN iffD1, OF said(4)] unfolding list_ex_iff occurs_iff words_iff_runs by blast
  ultimately show ?thesis using said(1) by auto
qed

theorem confirmation_guard_witness:
  "\<exists>said. Some (codes ''open_pr'') = Some said \<and> \<not> declines ascii_re (folded ascii_re said) ''open_pr'' \<and>
     (stands_in ascii_re (folded ascii_re said) ''open_pr'' \<or> stands_in ascii_re (folded ascii_re said) (spaced ''open_pr''))"
proof -
  from confirmation_guard [OF ascii_letters demo_authorized] obtain said where said:
    "Some (codes ''open_pr'') = Some said" "''open_pr'' \<in> set MUTATING_TOOL_NAMES"
    "\<forall>name\<in>set MUTATING_TOOL_NAMES. stands_in ascii_re (folded ascii_re said) name \<or>
       stands_in ascii_re (folded ascii_re said) (spaced name) \<longleftrightarrow> name = ''open_pr''"
    "\<not> declines ascii_re (folded ascii_re said) ''open_pr''" by (elim exE conjE)
  then show ?thesis using bspec [OF said(3,2)] by (intro exI [of _ said] conjI) simp_all
qed

end
