(* ===== verification/Pyfloat.thy ===== *)
theory Pyfloat
  imports Prelude Complex_Main "HOL-Library.Log_Nat"
begin

text \<open>
  Python's \<open>float\<close>: IEEE 754 binary64, as a rational number or one of the three special
  values. Every arithmetic result is the exact rational result rounded to nearest, ties to
  even, with the exponent range of binary64 (subnormals kept, overflow to an infinity).
  The one thing left out is the sign of zero, which no operation modelled here can observe.
  The locale \<open>rounding\<close> is the interface the components use: what holds of every
  rounding that is monotone and keeps the sign; \<open>rnd64\<close> is its interpretation.
\<close>

datatype pyfloat = Fin rat | PInf | NInf | NaN

section \<open>Comparison\<close>

fun flt :: "pyfloat \<Rightarrow> pyfloat \<Rightarrow> bool" where
  "flt (Fin a) (Fin b) = (a < b)"
| "flt NInf (Fin b) = True"
| "flt NInf PInf = True"
| "flt (Fin a) PInf = True"
| "flt _ _ = False"

fun feq :: "pyfloat \<Rightarrow> pyfloat \<Rightarrow> bool" where
  "feq (Fin a) (Fin b) = (a = b)"
| "feq PInf PInf = True"
| "feq NInf NInf = True"
| "feq _ _ = False"

definition fle :: "pyfloat \<Rightarrow> pyfloat \<Rightarrow> bool" where
  "fle a b = (flt a b \<or> feq a b)"

lemma fle_Fin [simp]: "fle (Fin a) (Fin b) \<longleftrightarrow> a \<le> b"
  by (auto simp: fle_def)

lemma fle_special [simp]:
  "fle NaN b = False" "fle a NaN = False" "fle (Fin q) PInf" "fle NInf (Fin q)"
  "fle NInf PInf" "fle PInf PInf" "fle NInf NInf" "\<not> fle PInf (Fin q)"
  "\<not> fle (Fin q) NInf" "\<not> fle PInf NInf"
  by (cases a; simp add: fle_def)+

lemma flt_irrefl [simp]: "\<not> flt a a"
  by (cases a) auto

lemma flt_trans: "flt a b \<Longrightarrow> flt b c \<Longrightarrow> flt a c"
  by (cases a; cases b; cases c) auto

lemma fle_trans: "fle a b \<Longrightarrow> fle b c \<Longrightarrow> fle a c"
  by (cases a; cases b; cases c) auto

lemma fle_refl: "a \<noteq> NaN \<Longrightarrow> fle a a"
  by (cases a) auto

lemma flt_NaN [simp]: "\<not> flt NaN a" "\<not> flt a NaN"
  by (cases a; simp)+

lemma flt_total: "a \<noteq> NaN \<Longrightarrow> b \<noteq> NaN \<Longrightarrow> flt a b \<or> feq a b \<or> flt b a"
  by (cases a; cases b) auto

lemma not_flt: "a \<noteq> NaN \<Longrightarrow> b \<noteq> NaN \<Longrightarrow> \<not> flt a b \<longleftrightarrow> fle b a"
  by (cases a; cases b) auto

lemma feq_iff: "feq a b \<longleftrightarrow> a = b \<and> a \<noteq> NaN"
  by (cases a; cases b) auto

lemma flt_fle_trans: "flt a b \<Longrightarrow> fle b c \<Longrightarrow> flt a c"
  by (cases a; cases b; cases c) auto

lemma fle_flt_trans: "fle a b \<Longrightarrow> flt b c \<Longrightarrow> flt a c"
  by (cases a; cases b; cases c) auto

lemma flt_imp_fle: "flt a b \<Longrightarrow> fle a b"
  by (simp add: fle_def)

text \<open>
  Python's \<open>min\<close> and \<open>max\<close> keep the first argument unless a later one is strictly
  smaller (greater); on a list they fold that comparison.
\<close>

definition fmin :: "pyfloat \<Rightarrow> pyfloat \<Rightarrow> pyfloat" where
  "fmin a b = (if flt b a then b else a)"

definition fmax :: "pyfloat \<Rightarrow> pyfloat \<Rightarrow> pyfloat" where
  "fmax a b = (if flt a b then b else a)"

fun fmax_list :: "pyfloat list \<Rightarrow> pyfloat option" where
  "fmax_list [] = None"
| "fmax_list (x # xs) = Some (fold (\<lambda>y m. fmax m y) xs x)"

fun fmin_list :: "pyfloat list \<Rightarrow> pyfloat option" where
  "fmin_list [] = None"
| "fmin_list (x # xs) = Some (fold (\<lambda>y m. fmin m y) xs x)"

lemma fold_fmax:
  "x \<noteq> NaN \<Longrightarrow> NaN \<notin> set xs \<Longrightarrow>
     fold (\<lambda>y m. fmax m y) xs x \<in> insert x (set xs) \<and>
     (\<forall>y\<in>insert x (set xs). fle y (fold (\<lambda>y m. fmax m y) xs x))"
proof (induction xs arbitrary: x)
  case (Cons a xs)
  have m: "fmax x a \<noteq> NaN" "fle x (fmax x a)" "fle a (fmax x a)" "fmax x a \<in> {x, a}"
    using Cons.prems by (auto simp: fmax_def fle_refl not_flt flt_imp_fle)
  have "NaN \<notin> set xs" using Cons.prems by auto
  from Cons.IH [OF m(1) this] m show ?case by (auto intro: fle_trans)
qed (simp add: fle_refl)

lemma fold_fmin:
  "x \<noteq> NaN \<Longrightarrow> NaN \<notin> set xs \<Longrightarrow>
     fold (\<lambda>y m. fmin m y) xs x \<in> insert x (set xs) \<and>
     (\<forall>y\<in>insert x (set xs). fle (fold (\<lambda>y m. fmin m y) xs x) y)"
proof (induction xs arbitrary: x)
  case (Cons a xs)
  have m: "fmin x a \<noteq> NaN" "fle (fmin x a) x" "fle (fmin x a) a" "fmin x a \<in> {x, a}"
    using Cons.prems by (auto simp: fmin_def fle_refl not_flt flt_imp_fle)
  have "NaN \<notin> set xs" using Cons.prems by auto
  from Cons.IH [OF m(1) this] m show ?case by (auto intro: fle_trans)
qed (simp add: fle_refl)

lemma fmax_list_max:
  "fmax_list xs = Some m \<Longrightarrow> NaN \<notin> set xs \<Longrightarrow> m \<in> set xs \<and> (\<forall>y\<in>set xs. fle y m)"
proof (cases xs)
  case (Cons a ys)
  assume "fmax_list xs = Some m" "NaN \<notin> set xs"
  with Cons fold_fmax [of a ys] show ?thesis by auto
qed simp

lemma fmin_list_min:
  "fmin_list xs = Some m \<Longrightarrow> NaN \<notin> set xs \<Longrightarrow> m \<in> set xs \<and> (\<forall>y\<in>set xs. fle m y)"
proof (cases xs)
  case (Cons a ys)
  assume "fmin_list xs = Some m" "NaN \<notin> set xs"
  with Cons fold_fmin [of a ys] show ?thesis by auto
qed simp

lemma fmax_list_None [simp]: "fmax_list xs = None \<longleftrightarrow> xs = []"
  by (cases xs) auto

lemma fmin_list_None [simp]: "fmin_list xs = None \<longleftrightarrow> xs = []"
  by (cases xs) auto

section \<open>Rounding to binary64\<close>

definition pow2 :: "int \<Rightarrow> rat" where
  "pow2 e = (if 0 \<le> e then 2 ^ nat e else 1 / 2 ^ nat (- e))"

definition round_half_even :: "rat \<Rightarrow> int" where
  "round_half_even q =
     (let f = \<lfloor>q\<rfloor>; r = q - of_int f
      in if r < 1 / 2 then f else if r > 1 / 2 then f + 1
         else if even f then f else f + 1)"

text \<open>\<open>exponent q\<close> is the floor of the binary logarithm of a positive \<open>q\<close>.\<close>

definition exponent :: "rat \<Rightarrow> int" where
  "exponent q =
     (let (n, d) = quotient_of q; e = int (floorlog 2 (nat n)) - int (floorlog 2 (nat d))
      in if pow2 e \<le> q then e else e - 1)"

definition ulp_exponent :: "rat \<Rightarrow> int" where
  "ulp_exponent q = max (exponent q - 52) (- 1074)"

definition rnd_pos :: "rat \<Rightarrow> rat" where
  "rnd_pos q = of_int (round_half_even (q / pow2 (ulp_exponent q))) * pow2 (ulp_exponent q)"

definition rnd64 :: "rat \<Rightarrow> pyfloat" where
  "rnd64 q =
     (if q = 0 then Fin 0
      else if 0 < q then (let r = rnd_pos q in if pow2 1024 \<le> r then PInf else Fin r)
      else (let r = rnd_pos (- q) in if pow2 1024 \<le> r then NInf else Fin (- r)))"

subsection \<open>Powers of two and the exponent\<close>

lemma pow2_powi: "pow2 e = 2 powi e"
  by (auto simp: pow2_def power_int_def inverse_eq_divide power_one_over)

lemma pow2_pos [simp]: "0 < pow2 e"
  by (simp add: pow2_def)

lemma pow2_add: "pow2 (a + b) = pow2 a * pow2 b"
  by (simp add: pow2_powi power_int_add)

lemma pow2_strict_mono: "a < b \<Longrightarrow> pow2 a < pow2 b"
  by (simp add: pow2_powi power_int_strict_increasing)

lemma pow2_less_iff [simp]: "pow2 a < pow2 b \<longleftrightarrow> a < b"
  by (metis linorder_less_linear order_less_asym pow2_strict_mono)

lemma pow2_le_iff [simp]: "pow2 a \<le> pow2 b \<longleftrightarrow> a \<le> b"
  by (metis not_less pow2_less_iff)

lemma pow2_nat: "pow2 (int n) = of_int (2 ^ n)"
  by (simp add: pow2_def)

lemma pow2_nonneg_int: "0 \<le> e \<Longrightarrow> pow2 e = of_int (2 ^ nat e)"
  by (simp add: pow2_def)

lemma pow2_diff: "pow2 (a - b) * pow2 b = pow2 a"
  by (simp flip: pow2_add)

lemma pow2_divide: "pow2 (a - b) = pow2 a / pow2 b"
  by (metis pow2_diff pow2_pos less_irrefl nonzero_mult_div_cancel_right)

lemma quotient_of_pos:
  assumes "0 < q" "quotient_of q = (n, d)"
  shows "0 < n" "0 < d" "q = of_int n / of_int d"
proof -
  show d: "0 < d" using quotient_of_denom_pos [OF assms(2)] .
  show q: "q = of_int n / of_int d" using quotient_of_div [OF assms(2)] .
  show "0 < n" using assms(1) d q by (simp add: zero_less_divide_iff)
qed

lemma floorlog_pow2:
  assumes "0 < (n::int)"
  shows "pow2 (int (floorlog 2 (nat n)) - 1) \<le> of_int n"
    and "of_int n < pow2 (int (floorlog 2 (nat n)))"
proof -
  let ?l = "floorlog 2 (nat n)"
  have b: "2 ^ (?l - 1) \<le> nat n" "nat n < 2 ^ ?l"
    using floorlog_bounds [of "nat n" 2] assms by auto
  have l: "1 \<le> ?l" using b(2) assms by (cases "?l = 0") auto
  then have l': "int ?l - 1 = int (?l - 1)" by simp
  have n: "(of_int n :: rat) = of_nat (nat n)" using assms by simp
  have "of_nat (2 ^ (?l - 1)) \<le> (of_nat (nat n) :: rat)" using b(1) of_nat_mono by blast
  then show "pow2 (int ?l - 1) \<le> of_int n"
    unfolding l' n pow2_nat by simp
  have "(of_nat (nat n) :: rat) < of_nat (2 ^ ?l)" using b(2) of_nat_less_iff by blast
  then show "of_int n < pow2 (int ?l)" unfolding n pow2_nat by simp
qed

lemma exponent_bounds:
  assumes "0 < q"
  shows "pow2 (exponent q) \<le> q" and "q < pow2 (exponent q + 1)"
proof -
  obtain n d where nd: "quotient_of q = (n, d)" by (cases "quotient_of q")
  note f = quotient_of_pos [OF assms nd]
  let ?e = "int (floorlog 2 (nat n)) - int (floorlog 2 (nat d))"
  note ln = floorlog_pow2 [OF f(1)] and ld = floorlog_pow2 [OF f(2)]
  have d0: "(0 :: rat) < of_int d" using f(2) by simp
  have up: "q < pow2 (?e + 1)"
  proof -
    have "of_int n < pow2 (int (floorlog 2 (nat n)))" by (rule ln(2))
    also have "\<dots> = pow2 (?e + 1) * pow2 (int (floorlog 2 (nat d)) - 1)"
      by (simp flip: pow2_add)
    also have "\<dots> \<le> pow2 (?e + 1) * of_int d"
      using ld(1) by (simp add: mult_left_mono less_imp_le)
    finally show ?thesis using d0 f(3) by (simp add: pos_divide_less_eq)
  qed
  have lo: "pow2 (?e - 1) \<le> q"
  proof -
    have "pow2 (?e - 1) * of_int d \<le> pow2 (?e - 1) * pow2 (int (floorlog 2 (nat d)))"
      using ld(2) by (simp add: mult_left_mono less_imp_le)
    also have "\<dots> = pow2 (int (floorlog 2 (nat n)) - 1)" by (simp flip: pow2_add)
    also have "\<dots> \<le> of_int n" by (rule ln(1))
    finally show ?thesis using d0 f(3) by (simp add: pos_le_divide_eq)
  qed
  show "pow2 (exponent q) \<le> q" "q < pow2 (exponent q + 1)"
    using up lo by (auto simp: exponent_def nd Let_def)
qed

lemma exponent_unique: "pow2 e \<le> q \<Longrightarrow> q < pow2 (e + 1) \<Longrightarrow> exponent q = e"
proof -
  assume a: "pow2 e \<le> q" "q < pow2 (e + 1)"
  then have "0 < q" using pow2_pos [of e] by linarith
  note b = exponent_bounds [OF this]
  have "pow2 e < pow2 (exponent q + 1)" "pow2 (exponent q) < pow2 (e + 1)"
    using a b by linarith+
  then show ?thesis by simp
qed

lemma exponent_mono: "0 < p \<Longrightarrow> p \<le> q \<Longrightarrow> exponent p \<le> exponent q"
proof -
  assume "0 < p" "p \<le> q"
  then have "pow2 (exponent p) < pow2 (exponent q + 1)"
    using exponent_bounds [of p] exponent_bounds [of q] by linarith
  then show ?thesis by simp
qed

subsection \<open>Rounding to an integer\<close>

lemma round_half_even_floor: "round_half_even q \<in> {\<lfloor>q\<rfloor>, \<lfloor>q\<rfloor> + 1}"
  by (simp add: round_half_even_def Let_def)

lemma round_half_even_int [simp]: "round_half_even (of_int n) = n"
  by (simp add: round_half_even_def)

lemma round_half_even_mono: "p \<le> q \<Longrightarrow> round_half_even p \<le> round_half_even q"
proof (cases "\<lfloor>p\<rfloor> = \<lfloor>q\<rfloor>")
  case False
  assume "p \<le> q"
  with False have "\<lfloor>p\<rfloor> + 1 \<le> \<lfloor>q\<rfloor>" using floor_mono [of p q] by linarith
  then show ?thesis using round_half_even_floor [of p] round_half_even_floor [of q] by auto
next
  case True
  assume "p \<le> q"
  with True show ?thesis by (simp add: round_half_even_def Let_def)
qed

lemma round_half_even_le: "q \<le> of_int n \<Longrightarrow> round_half_even q \<le> n"
  using round_half_even_mono [of q "of_int n"] by simp

lemma round_half_even_ge: "of_int n \<le> q \<Longrightarrow> n \<le> round_half_even q"
  using round_half_even_mono [of "of_int n" q] by simp

subsection \<open>Rounding a positive number\<close>

lemma ulp_exponent_mono: "0 < p \<Longrightarrow> p \<le> q \<Longrightarrow> ulp_exponent p \<le> ulp_exponent q"
  using exponent_mono [of p q] by (simp add: ulp_exponent_def)

lemma rnd_pos_nonneg: "0 < q \<Longrightarrow> 0 \<le> rnd_pos q"
  using round_half_even_ge [of 0 "q / pow2 (ulp_exponent q)"]
  by (simp add: rnd_pos_def less_imp_le)

text \<open>A multiple of the unit in the last place bounds the rounded value where it bounds the value.\<close>

lemma rnd_pos_le:
  assumes "q \<le> of_int m * pow2 u" "ulp_exponent q \<le> u" "0 < q"
  shows "rnd_pos q \<le> of_int m * pow2 u"
proof -
  let ?u = "ulp_exponent q"
  have e: "pow2 u = of_int (2 ^ nat (u - ?u)) * pow2 ?u"
    using assms(2) by (metis diff_ge_0_iff_ge pow2_diff pow2_nonneg_int)
  then have "q / pow2 ?u \<le> of_int (m * 2 ^ nat (u - ?u))"
    using assms(1) by (simp add: pos_divide_le_eq mult.assoc)
  then have "round_half_even (q / pow2 ?u) \<le> m * 2 ^ nat (u - ?u)"
    by (rule round_half_even_le)
  then have "(of_int (round_half_even (q / pow2 ?u)) :: rat) \<le> of_int (m * 2 ^ nat (u - ?u))"
    by (simp only: of_int_le_iff)
  then show ?thesis
    by (simp add: rnd_pos_def e mult.assoc [symmetric] mult_right_mono less_imp_le)
qed

lemma rnd_pos_ge:
  assumes "of_int m * pow2 u \<le> q" "ulp_exponent q \<le> u"
  shows "of_int m * pow2 u \<le> rnd_pos q"
proof -
  let ?u = "ulp_exponent q"
  have e: "pow2 u = of_int (2 ^ nat (u - ?u)) * pow2 ?u"
    using assms(2) by (metis diff_ge_0_iff_ge pow2_diff pow2_nonneg_int)
  then have "of_int (m * 2 ^ nat (u - ?u)) \<le> q / pow2 ?u"
    using assms(1) by (simp add: pos_le_divide_eq mult.assoc)
  then have "m * 2 ^ nat (u - ?u) \<le> round_half_even (q / pow2 ?u)"
    by (rule round_half_even_ge)
  then have "(of_int (m * 2 ^ nat (u - ?u)) :: rat) \<le> of_int (round_half_even (q / pow2 ?u))"
    by (simp only: of_int_le_iff)
  then show ?thesis
    by (simp add: rnd_pos_def e mult.assoc [symmetric] mult_right_mono less_imp_le)
qed

lemma rnd_pos_mono:
  assumes "0 < p" "p \<le> q"
  shows "rnd_pos p \<le> rnd_pos q"
proof (cases "ulp_exponent p = ulp_exponent q")
  case True
  have "p / pow2 (ulp_exponent q) \<le> q / pow2 (ulp_exponent q)"
    using assms(2) by (simp add: divide_right_mono less_imp_le)
  from round_half_even_mono [OF this] show ?thesis
    by (simp add: rnd_pos_def True mult_right_mono less_imp_le)
next
  case False
  then have u: "ulp_exponent p < ulp_exponent q"
    using ulp_exponent_mono [OF assms] by simp
  then have uq: "ulp_exponent q = exponent q - 52" and pq: "exponent p < exponent q"
    by (auto simp: ulp_exponent_def max_def split: if_splits)
  have "rnd_pos p \<le> of_int 1 * pow2 (exponent q)"
  proof (rule rnd_pos_le [OF _ _ assms(1)])
    have "p < pow2 (exponent p + 1)" using exponent_bounds(2) [OF assms(1)] .
    also have "\<dots> \<le> pow2 (exponent q)" using pq by simp
    finally show "p \<le> of_int 1 * pow2 (exponent q)" by simp
    show "ulp_exponent p \<le> exponent q" using u uq by linarith
  qed
  also have "\<dots> \<le> rnd_pos q"
    using exponent_bounds(1) [of q] assms uq by (intro rnd_pos_ge) auto
  finally show ?thesis .
qed

lemma significand_less: "m < 2 ^ 53 \<Longrightarrow> of_int m * pow2 u < pow2 (53 + u)"
proof -
  assume "m < 2 ^ 53"
  then have "(of_int m :: rat) < of_int (2 ^ 53)" by (simp only: of_int_less_iff)
  also have "\<dots> = pow2 53" by (simp add: pow2_def)
  finally show ?thesis by (simp add: pow2_add mult_strict_right_mono)
qed

text \<open>A number with at most 53 significant bits is its own rounding.\<close>

lemma rnd_pos_exact:
  assumes "q = of_int m * pow2 u" "m < 2 ^ 53" "- 1074 \<le> u" "0 < q"
  shows "rnd_pos q = q"
proof -
  have "pow2 (exponent q) \<le> q" using exponent_bounds(1) [OF assms(4)] .
  also have "q < pow2 (53 + u)" using significand_less [OF assms(2)] assms(1) by simp
  finally have "ulp_exponent q \<le> u" using assms(3) by (simp add: ulp_exponent_def)
  then show ?thesis
    using rnd_pos_le [of q m u] rnd_pos_ge [of m u q] assms by simp
qed

section \<open>The rounding interface\<close>

locale rounding =
  fixes rnd :: "rat \<Rightarrow> pyfloat"
  assumes rnd_mono: "p \<le> q \<Longrightarrow> fle (rnd p) (rnd q)"
    and rnd_zero: "rnd 0 = Fin 0"
    and rnd_neg: "rnd (- q) = (case rnd q of Fin r \<Rightarrow> Fin (- r) | PInf \<Rightarrow> NInf | NInf \<Rightarrow> PInf | NaN \<Rightarrow> NaN)"
begin

lemma rnd_not_NaN [simp]: "rnd q \<noteq> NaN"
  using rnd_mono [of q q] by auto

lemma rnd_nonneg: "0 \<le> q \<Longrightarrow> fle (Fin 0) (rnd q)"
  using rnd_mono [of 0 q] by (simp add: rnd_zero)

lemma rnd_nonpos: "q \<le> 0 \<Longrightarrow> fle (rnd q) (Fin 0)"
  using rnd_mono [of q 0] by (simp add: rnd_zero)

lemma rnd_le_fixed: "p \<le> q \<Longrightarrow> rnd q = Fin q \<Longrightarrow> fle (rnd p) (Fin q)"
  using rnd_mono [of p q] by simp

lemma rnd_ge_fixed: "q \<le> p \<Longrightarrow> rnd q = Fin q \<Longrightarrow> fle (Fin q) (rnd p)"
  using rnd_mono [of q p] by simp

text \<open>What is strictly positive after rounding was strictly positive before.\<close>

lemma rnd_pos_imp: "flt (Fin 0) (rnd q) \<Longrightarrow> 0 < q"
  using rnd_nonpos [of q] by (metis flt_fle_trans flt_irrefl not_le)
end

lemma rnd64_neg:
  "rnd64 (- q) = (case rnd64 q of Fin r \<Rightarrow> Fin (- r) | PInf \<Rightarrow> NInf | NInf \<Rightarrow> PInf | NaN \<Rightarrow> NaN)"
  by (auto simp: rnd64_def Let_def)

lemma rnd64_mono_nonneg: "0 \<le> p \<Longrightarrow> p \<le> q \<Longrightarrow> fle (rnd64 p) (rnd64 q)"
proof (cases "p = 0")
  case True
  assume "p \<le> q"
  with True rnd_pos_nonneg [of q] show ?thesis by (auto simp: rnd64_def Let_def)
next
  case False
  assume "0 \<le> p" "p \<le> q"
  with False rnd_pos_mono [of p q] show ?thesis by (auto simp: rnd64_def Let_def)
qed

lemma rnd64_not_NaN: "rnd64 q \<noteq> NaN"
  by (auto simp: rnd64_def Let_def)

lemma rnd64_mono: "p \<le> q \<Longrightarrow> fle (rnd64 p) (rnd64 q)"
proof -
  assume pq: "p \<le> q"
  have zero: "rnd64 0 = Fin 0" by (simp add: rnd64_def)
  have flip: "fle (rnd64 (- b)) (rnd64 (- a))" if "fle (rnd64 a) (rnd64 b)" for a b
    using that unfolding rnd64_neg by (cases "rnd64 a"; cases "rnd64 b") auto
  consider "0 \<le> p" | "q \<le> 0" | "p \<le> 0" "0 \<le> q" using pq by linarith
  then show ?thesis
  proof cases
    case 2
    then have "fle (rnd64 (- q)) (rnd64 (- p))" using pq by (intro rnd64_mono_nonneg) auto
    from flip [OF this] show ?thesis by simp
  next
    case 3
    have "fle (rnd64 0) (rnd64 (- p))" "fle (rnd64 0) (rnd64 q)"
      using 3 by (auto intro: rnd64_mono_nonneg)
    with flip [of 0 "- p"] have "fle (rnd64 p) (Fin 0)" "fle (Fin 0) (rnd64 q)"
      by (auto simp: zero)
    then show ?thesis by (rule fle_trans)
  qed (use pq rnd64_mono_nonneg in blast)
qed

interpretation r64: rounding rnd64
  by unfold_locales (use rnd64_mono rnd64_neg in \<open>auto simp: rnd64_def\<close>)

lemma rnd64_exact:
  assumes "q = of_int m * pow2 u" "\<bar>m\<bar> < 2 ^ 53" "- 1074 \<le> u" "u \<le> 971"
  shows "rnd64 q = Fin q"
proof -
  have pos: "rnd64 r = Fin r" if "r = of_int n * pow2 u" "\<bar>n\<bar> < 2 ^ 53" "0 < r" for r n
  proof -
    have "r < pow2 (53 + u)" using significand_less [of n u] that by simp
    also have "\<dots> \<le> pow2 1024" using assms(4) by simp
    finally show ?thesis
      using rnd_pos_exact [OF that(1) _ assms(3) that(3)] that by (simp add: rnd64_def Let_def)
  qed
  show ?thesis
  proof (cases "0 \<le> q")
    case True
    then show ?thesis using pos [OF assms(1,2)] by (cases "q = 0") (auto simp: rnd64_def)
  next
    case False
    have "rnd64 (- q) = Fin (- q)"
      by (rule pos [of "- q" "- m"]) (use assms False in auto)
    then show ?thesis using rnd64_neg [of "- q"] by simp
  qed
qed

lemma rnd64_of_int: "\<bar>n\<bar> < 2 ^ 53 \<Longrightarrow> rnd64 (of_int n) = Fin (of_int n)"
  by (rule rnd64_exact [of _ n 0]) (auto simp: pow2_def)

text \<open>
  Evaluating a rounding: give the binary exponent of the number and round the scaled
  number to an integer. \<open>rnd64_dyadic\<close> covers the short binary fractions of the examples.
\<close>

lemma rnd64_eval:
  assumes "pow2 e \<le> q" "q < pow2 (e + 1)" "- 1022 \<le> e" "e \<le> 1022"
    and "round_half_even (q / pow2 (e - 52)) = m"
  shows "rnd64 q = Fin (of_int m * pow2 (e - 52))"
proof -
  have q: "0 < q" using assms(1) pow2_pos [of e] by linarith
  have ex: "exponent q = e" using assms(1,2) by (rule exponent_unique)
  then have r: "rnd_pos q = of_int m * pow2 (e - 52)"
    using assms(3,5) by (simp add: rnd_pos_def ulp_exponent_def)
  have "rnd_pos q \<le> of_int 1 * pow2 (e + 1)"
    using assms(2,3) q ex by (intro rnd_pos_le) (auto simp: ulp_exponent_def)
  also have "\<dots> < pow2 1024" using assms(4) by simp
  finally show ?thesis using q r by (simp add: rnd64_def Let_def)
qed

lemma round_half_even_near: "\<bar>x - of_int m\<bar> < 1 / 2 \<Longrightarrow> round_half_even x = m"
proof -
  assume a: "\<bar>x - of_int m\<bar> < 1 / 2"
  have "\<lfloor>x\<rfloor> = m \<or> \<lfloor>x\<rfloor> = m - 1" using a by linarith
  then show ?thesis using a by (auto simp: round_half_even_def Let_def)
qed

lemma rnd64_near:
  assumes "pow2 e \<le> q" "q < pow2 (e + 1)" "- 1022 \<le> e" "e \<le> 1022"
    and "\<bar>q / pow2 (e - 52) - of_int m\<bar> < 1 / 2"
  shows "rnd64 q = Fin (of_int m * pow2 (e - 52))"
  using assms(1-4) round_half_even_near [OF assms(5)] by (rule rnd64_eval)

lemma rnd64_dyadic: "\<bar>n\<bar> < 2 ^ 53 \<Longrightarrow> k \<le> 1074 \<Longrightarrow> rnd64 (of_int n / 2 ^ k) = Fin (of_int n / 2 ^ k)"
  by (rule rnd64_exact [of _ n "- int k"]) (auto simp: pow2_def)

lemma rnd64_numeral [simp]: "numeral n < (2 ^ 53 :: int) \<Longrightarrow> rnd64 (numeral n) = Fin (numeral n)"
  using rnd64_of_int [of "numeral n"] by simp

lemma rnd64_0 [simp]: "rnd64 0 = Fin 0" and rnd64_1 [simp]: "rnd64 1 = Fin 1"
  using rnd64_of_int [of 0] rnd64_of_int [of 1] by simp_all

lemma rnd64_half_power [simp]: "rnd64 (1 / 2) = Fin (1 / 2)" "rnd64 (1 / 4) = Fin (1 / 4)"
  "rnd64 (3 / 4) = Fin (3 / 4)" "rnd64 (1 / 8) = Fin (1 / 8)" "rnd64 (3 / 2) = Fin (3 / 2)"
  using rnd64_dyadic [of 1 1] rnd64_dyadic [of 1 2] rnd64_dyadic [of 3 2]
    rnd64_dyadic [of 1 3] rnd64_dyadic [of 3 1] by simp_all

section \<open>Arithmetic\<close>

fun fneg :: "pyfloat \<Rightarrow> pyfloat" where
  "fneg (Fin a) = Fin (- a)"
| "fneg PInf = NInf"
| "fneg NInf = PInf"
| "fneg NaN = NaN"

fun fadd :: "pyfloat \<Rightarrow> pyfloat \<Rightarrow> pyfloat" where
  "fadd (Fin a) (Fin b) = rnd64 (a + b)"
| "fadd NaN _ = NaN"
| "fadd _ NaN = NaN"
| "fadd PInf NInf = NaN"
| "fadd NInf PInf = NaN"
| "fadd PInf _ = PInf"
| "fadd _ PInf = PInf"
| "fadd NInf _ = NInf"
| "fadd _ NInf = NInf"

definition fsub :: "pyfloat \<Rightarrow> pyfloat \<Rightarrow> pyfloat" where
  "fsub a b = fadd a (fneg b)"

definition fabs :: "pyfloat \<Rightarrow> pyfloat" where
  "fabs a = (if flt a (Fin 0) then fneg a else a)"

definition fsign_inf :: "bool \<Rightarrow> pyfloat" where
  "fsign_inf pos = (if pos then PInf else NInf)"

fun fmul :: "pyfloat \<Rightarrow> pyfloat \<Rightarrow> pyfloat" where
  "fmul (Fin a) (Fin b) = rnd64 (a * b)"
| "fmul NaN _ = NaN"
| "fmul _ NaN = NaN"
| "fmul (Fin a) b = (if a = 0 then NaN else fsign_inf ((0 < a) = (b = PInf)))"
| "fmul a (Fin b) = (if b = 0 then NaN else fsign_inf ((0 < b) = (a = PInf)))"
| "fmul a b = fsign_inf (a = b)"

text \<open>Division raises \<open>ZeroDivisionError\<close> on a zero divisor: \<open>None\<close>.\<close>

fun fdiv :: "pyfloat \<Rightarrow> pyfloat \<Rightarrow> pyfloat option" where
  "fdiv a (Fin b) =
     (if b = 0 then None
      else Some (case a of Fin x \<Rightarrow> rnd64 (x / b) | NaN \<Rightarrow> NaN
                 | _ \<Rightarrow> fsign_inf ((0 < b) = (a = PInf))))"
| "fdiv a NaN = Some NaN"
| "fdiv (Fin a) _ = Some (Fin 0)"
| "fdiv _ _ = Some NaN"

lemma fneg_fneg [simp]: "fneg (fneg a) = a"
  by (cases a) auto

lemma fadd_commute: "fadd a b = fadd b a"
  by (cases a; cases b) (auto simp: add.commute)

lemma fneg_rnd64: "fneg (rnd64 q) = rnd64 (- q)"
  by (subst rnd64_neg) (cases "rnd64 q"; simp)

lemma fsub_swap: "fsub b a = fneg (fsub a b)"
  by (cases a; cases b) (auto simp: fsub_def fneg_rnd64)

lemma fsub_self: "fsub (Fin a) (Fin a) = Fin 0"
  by (simp add: fsub_def r64.rnd_zero)

lemma fsub_nonneg: "fle b a \<Longrightarrow> fsub a b = NaN \<or> fle (Fin 0) (fsub a b)"
  by (cases a; cases b) (auto simp: fsub_def intro: r64.rnd_nonneg)

lemma fsub_pos_imp: "flt (Fin 0) (fsub a b) \<Longrightarrow> flt b a"
  by (cases a; cases b) (auto simp: fsub_def dest: r64.rnd_pos_imp)

lemma fsub_Fin_nonneg: "b \<le> a \<Longrightarrow> fle (Fin 0) (fsub (Fin a) (Fin b))"
  by (auto simp: fsub_def intro: r64.rnd_nonneg)

text \<open>Subtraction is monotone in both arguments.\<close>

lemma fsub_mono_left: "a \<le> b \<Longrightarrow> fle (fsub (Fin a) (Fin c)) (fsub (Fin b) (Fin c))"
  by (auto simp: fsub_def intro: rnd64_mono)

lemma fsub_mono_right: "b \<le> a \<Longrightarrow> fle (fsub (Fin c) (Fin a)) (fsub (Fin c) (Fin b))"
  by (auto simp: fsub_def intro: rnd64_mono)

text \<open>A decimal literal of the source denotes the nearest binary64.\<close>

abbreviation flit :: "rat \<Rightarrow> pyfloat" where
  "flit q \<equiv> rnd64 q"

end
