(* ===== verification/Budget.thy ===== *)
theory Budget
  imports Pyfloat Prelude
begin

text \<open>
  The daily language model budget: token prices (\<open>backend/app/llm/cost_model.py\<close>), the
  rolling counter in Redis (\<open>backend/app/llm/budget_gate.py\<close>) and the pre-call check its
  callers make. Redis is the map of a day's key to a float; \<open>GET\<close>, \<open>INCRBYFLOAT\<close> and
  \<open>EXPIRE\<close> act on it atomically. A time is a number of seconds since 1970-01-01 UTC, and the
  key keeps the number of the day, in bijection with the \<open>%Y-%m-%d\<close> of the source.
\<close>

section \<open>Prices\<close>

definition MODEL_USD_PER_1K_INPUT :: "(string, pyfloat) pydict" where
  "MODEL_USD_PER_1K_INPUT =
     [(''gpt-4o-2024-08-06'', flit (25 / 10000)), (''gpt-4o-mini-2024-07-18'', flit (15 / 100000))]"

definition MODEL_USD_PER_1K_OUTPUT :: "(string, pyfloat) pydict" where
  "MODEL_USD_PER_1K_OUTPUT =
     [(''gpt-4o-2024-08-06'', flit (1 / 100)), (''gpt-4o-mini-2024-07-18'', flit (6 / 10000))]"

definition INPUT_TOKEN_CEILING :: int where "INPUT_TOKEN_CEILING = 10000"

definition OUTPUT_TOKEN_CEILING :: int where "OUTPUT_TOKEN_CEILING = 2000"

definition known_models :: "string set" where
  "known_models = set (dict_keys MODEL_USD_PER_1K_INPUT) \<inter> set (dict_keys MODEL_USD_PER_1K_OUTPUT)"

datatype cost_error = UnknownModelPricing string | TokenOverflow

text \<open>\<open>tokens / 1000.0\<close>: the integer is converted first, which fails beyond the doubles.\<close>

definition per_thousand :: "int \<Rightarrow> pyfloat option" where
  "per_thousand tokens = (case rnd64 (of_int tokens) of
       Fin q \<Rightarrow> fdiv (Fin q) (Fin 1000) | _ \<Rightarrow> None)"

definition compute_call_cost :: "string \<Rightarrow> int \<Rightarrow> int \<Rightarrow> cost_error + pyfloat" where
  "compute_call_cost model input_tokens output_tokens =
     (case (map_of MODEL_USD_PER_1K_INPUT model, map_of MODEL_USD_PER_1K_OUTPUT model) of
        (Some in_rate, Some out_rate) \<Rightarrow>
          (case (per_thousand input_tokens, per_thousand output_tokens) of
             (Some i, Some k) \<Rightarrow> Inr (fadd (fmul i in_rate) (fmul k out_rate))
           | _ \<Rightarrow> Inl TokenOverflow)
      | _ \<Rightarrow> Inl (UnknownModelPricing model))"

definition estimated_max_call_cost :: "string \<Rightarrow> cost_error + pyfloat" where
  "estimated_max_call_cost model = compute_call_cost model INPUT_TOKEN_CEILING OUTPUT_TOKEN_CEILING"

section \<open>The counter\<close>

definition TTL_SECONDS :: int where "TTL_SECONDS = 26 * 60 * 60"

text \<open>An entry of Redis: the float it holds and when it expires.\<close>

type_synonym redis = "int \<rightharpoonup> pyfloat \<times> int option"

definition daily_key :: "int \<Rightarrow> int" where
  "daily_key now = now div 86400"

definition redis_live :: "redis \<Rightarrow> int \<Rightarrow> int \<Rightarrow> pyfloat option" where
  "redis_live r now key = (case r key of
       None \<Rightarrow> None
     | Some (x, None) \<Rightarrow> Some x
     | Some (x, Some expires) \<Rightarrow> if now < expires then Some x else None)"

definition peek_daily_total :: "redis \<Rightarrow> int \<Rightarrow> pyfloat" where
  "peek_daily_total r now = (case redis_live r now (daily_key now) of None \<Rightarrow> Fin 0 | Some x \<Rightarrow> x)"

text \<open>
  \<open>INCRBYFLOAT\<close> then \<open>EXPIRE\<close>; Redis adds in its own floating point format, so the sum is
  the parameter \<open>redis_add\<close>.
\<close>

definition record_cost ::
  "(pyfloat \<Rightarrow> pyfloat \<Rightarrow> pyfloat) \<Rightarrow> redis \<Rightarrow> pyfloat \<Rightarrow> int \<Rightarrow> pyfloat \<times> redis" where
  "record_cost redis_add r cost_usd now =
     (let key = daily_key now;
          total = redis_add (case redis_live r now key of None \<Rightarrow> Fin 0 | Some x \<Rightarrow> x) cost_usd
      in (total, r(key \<mapsto> (total, Some (now + TTL_SECONDS)))))"

text \<open>A failure of Redis after a paid call is logged and swallowed, wherever it strikes.\<close>

datatype redis_fault = NoFault | IncrFails | ExpireFails

definition safe_record_cost ::
  "(pyfloat \<Rightarrow> pyfloat \<Rightarrow> pyfloat) \<Rightarrow> redis_fault \<Rightarrow> redis \<Rightarrow> pyfloat \<Rightarrow> int \<Rightarrow> pyfloat option \<times> redis" where
  "safe_record_cost redis_add fault r cost_usd now =
     (case fault of
        NoFault \<Rightarrow> (let (total, r') = record_cost redis_add r cost_usd now in (Some total, r'))
      | IncrFails \<Rightarrow> (None, r)
      | ExpireFails \<Rightarrow>
          (let key = daily_key now;
               expires = (case redis_live r now key of None \<Rightarrow> None | Some _ \<Rightarrow> snd (the (r key)))
           in (None, r(key \<mapsto> (fst (record_cost redis_add r cost_usd now), expires)))))"

section \<open>Lemmas\<close>

lemma rnd64_within: "0 \<le> q \<Longrightarrow> q \<le> numeral n \<Longrightarrow> numeral n < (2 ^ 53 :: int) \<Longrightarrow>
    \<exists>x. rnd64 q = Fin x \<and> 0 \<le> x \<and> x \<le> numeral n"
proof -
  assume a: "0 \<le> q" "q \<le> numeral n" "numeral n < (2 ^ 53 :: int)"
  have "rnd64 (numeral n) = Fin (numeral n)" using a(3) by (rule rnd64_numeral)
  then have "fle (Fin 0) (rnd64 q)" "fle (rnd64 q) (Fin (numeral n))"
    using rnd64_mono [OF a(1)] rnd64_mono [OF a(2)] by simp_all
  then show ?thesis by (cases "rnd64 q") auto
qed

lemma rates:
  "map_of MODEL_USD_PER_1K_INPUT model = Some v \<Longrightarrow> \<exists>r. v = Fin r \<and> 0 \<le> r \<and> r \<le> 2"
  "map_of MODEL_USD_PER_1K_OUTPUT model = Some v \<Longrightarrow> \<exists>r. v = Fin r \<and> 0 \<le> r \<and> r \<le> 2"
  by (auto simp: MODEL_USD_PER_1K_INPUT_def MODEL_USD_PER_1K_OUTPUT_def split: if_splits
      intro!: rnd64_within)

lemma priced: "model \<in> known_models \<longleftrightarrow>
    (\<exists>i k. map_of MODEL_USD_PER_1K_INPUT model = Some i \<and> map_of MODEL_USD_PER_1K_OUTPUT model = Some k)"
  by (auto simp: known_models_def dict_keys_def map_of_keys_iff)

lemma per_thousand_mono:
  assumes "0 \<le> m" "m \<le> n" "n \<le> 10000"
  shows "\<exists>x y. per_thousand m = Some (Fin x) \<and> per_thousand n = Some (Fin y) \<and> 0 \<le> x \<and> x \<le> y \<and> y \<le> 10"
proof -
  have "rnd64 (of_int m) = Fin (of_int m)" "rnd64 (of_int n) = Fin (of_int n)"
    using assms by (auto intro!: rnd64_of_int)
  moreover have q: "(0::rat) \<le> of_int m / 1000" "(of_int m :: rat) / 1000 \<le> of_int n / 1000" "(of_int n :: rat) / 1000 \<le> 10"
    using assms by auto
  ultimately show ?thesis
    using rnd64_within [of "of_int m / 1000" "Num.Bit0 (Num.Bit1 (Num.Bit0 Num.One))"]
      rnd64_within [of "of_int n / 1000" "Num.Bit0 (Num.Bit1 (Num.Bit0 Num.One))"] rnd64_mono [OF q(2)]
    by (auto simp: per_thousand_def)
qed

lemma product_mono:
  assumes "0 \<le> x" "x \<le> y" "y \<le> 10" "0 \<le> r" "r \<le> 2"
  shows "\<exists>u v. fmul (Fin x) (Fin r) = Fin u \<and> fmul (Fin y) (Fin r) = Fin v \<and> 0 \<le> u \<and> u \<le> v \<and> v \<le> 20"
proof -
  have xy: "x * r \<le> y * r" using assms by (intro mult_right_mono) auto
  have "y * r \<le> 10 * 2" using assms by (intro mult_mono) auto
  then show ?thesis
    using rnd64_within [of "x * r" "Num.Bit0 (Num.Bit0 (Num.Bit1 (Num.Bit0 Num.One)))"] rnd64_mono [OF xy]
      rnd64_within [of "y * r" "Num.Bit0 (Num.Bit0 (Num.Bit1 (Num.Bit0 Num.One)))"] xy assms
    by auto
qed

lemma redis_live_set: "redis_live (r(k \<mapsto> (x, Some e))) now k = (if now < e then Some x else None)"
  by (simp add: redis_live_def)

lemma record_live:
  "daily_key t = day \<Longrightarrow> t < e \<Longrightarrow>
     snd (record_cost redis_add (r(day \<mapsto> (x, Some e))) c t) = r(day \<mapsto> (redis_add x c, Some (t + TTL_SECONDS)))"
  by (simp add: record_cost_def redis_live_set Let_def)

section \<open>Properties\<close>

text \<open>The estimate the budget checks before a call bounds what the call costs: within the token
  ceilings every priced model's cost is a non-negative number no larger than the estimate, in
  the binary64 arithmetic of the program; a model without prices raises in both.\<close>

theorem estimate_bounds_cost:
  assumes "0 \<le> i" and "i \<le> INPUT_TOKEN_CEILING" and "0 \<le> k" and "k \<le> OUTPUT_TOKEN_CEILING"
  shows "if model \<in> known_models
    then \<exists>c m. compute_call_cost model i k = Inr (Fin c) \<and> estimated_max_call_cost model = Inr (Fin m) \<and>
      0 \<le> c \<and> c \<le> m
    else compute_call_cost model i k = Inl (UnknownModelPricing model) \<and>
      estimated_max_call_cost model = Inl (UnknownModelPricing model)"
proof (cases "model \<in> known_models")
  case True
  then obtain a b where ab: "map_of MODEL_USD_PER_1K_INPUT model = Some a"
    "map_of MODEL_USD_PER_1K_OUTPUT model = Some b" by (auto simp: priced)
  from rates(1) [OF ab(1)] obtain r where r: "a = Fin r" "0 \<le> r" "r \<le> 2" by blast
  from rates(2) [OF ab(2)] obtain q where q: "b = Fin q" "0 \<le> q" "q \<le> 2" by blast
  from per_thousand_mono [of i 10000] assms obtain x y where
    xy: "per_thousand i = Some (Fin x)" "per_thousand 10000 = Some (Fin y)" "0 \<le> x" "x \<le> y" "y \<le> 10"
    by (auto simp: INPUT_TOKEN_CEILING_def)
  from per_thousand_mono [of k 2000] assms obtain z w where
    zw: "per_thousand k = Some (Fin z)" "per_thousand 2000 = Some (Fin w)" "0 \<le> z" "z \<le> w" "w \<le> 10"
    by (auto simp: OUTPUT_TOKEN_CEILING_def)
  from product_mono [OF xy(3-5) r(2,3)] obtain u v where
    uv: "fmul (Fin x) (Fin r) = Fin u" "fmul (Fin y) (Fin r) = Fin v" "0 \<le> u" "u \<le> v" "v \<le> 20" by blast
  from product_mono [OF zw(3-5) q(2,3)] obtain s t where
    st: "fmul (Fin z) (Fin q) = Fin s" "fmul (Fin w) (Fin q) = Fin t" "0 \<le> s" "s \<le> t" "t \<le> 20" by blast
  have le: "u + s \<le> v + t" using uv st by linarith
  then have "\<exists>c m. fadd (Fin u) (Fin s) = Fin c \<and> fadd (Fin v) (Fin t) = Fin m \<and> 0 \<le> c \<and> c \<le> m"
    using rnd64_within [of "u + s" "Num.Bit0 (Num.Bit0 (Num.Bit0 (Num.Bit1 (Num.Bit0 Num.One))))"]
      rnd64_within [of "v + t" "Num.Bit0 (Num.Bit0 (Num.Bit0 (Num.Bit1 (Num.Bit0 Num.One))))"]
      rnd64_mono [OF le] uv st by auto
  moreover have "compute_call_cost model i k = Inr (fadd (Fin u) (Fin s))"
    using ab r q xy zw uv st by (simp add: compute_call_cost_def del: fadd.simps fmul.simps)
  moreover have "estimated_max_call_cost model = Inr (fadd (Fin v) (Fin t))"
    using ab r q xy zw uv st
    by (simp add: estimated_max_call_cost_def compute_call_cost_def INPUT_TOKEN_CEILING_def
        OUTPUT_TOKEN_CEILING_def del: fadd.simps fmul.simps)
  ultimately show ?thesis using True by auto
next
  case False
  then show ?thesis
    by (auto simp: priced estimated_max_call_cost_def compute_call_cost_def split: option.splits)
qed

lemma estimate_bounds_cost_witness:
  "\<exists>c m. compute_call_cost ''gpt-4o-2024-08-06'' 5000 1000 = Inr (Fin c) \<and>
     estimated_max_call_cost ''gpt-4o-2024-08-06'' = Inr (Fin m) \<and> 0 \<le> c \<and> c \<le> m"
  using estimate_bounds_cost [of 5000 1000 "''gpt-4o-2024-08-06''"]
  by (simp add: known_models_def dict_keys_def MODEL_USD_PER_1K_INPUT_def MODEL_USD_PER_1K_OUTPUT_def
      INPUT_TOKEN_CEILING_def OUTPUT_TOKEN_CEILING_def)

text \<open>The counter accounts for the day's spending: however many calls record their cost in the
  course of a day, a later look on that day sees the sum of all of them in the order they
  were recorded - no entry expires before its day is over - and the next day starts at zero
  again.\<close>

theorem budget_day_total:
  assumes "sorted ats" and "\<forall>t\<in>set ats. daily_key t = day" and "length costs = length ats"
    and "ats \<noteq> []" and "last ats \<le> now" and "r day = None" and "r (day + 1) = None"
  shows "let r' = fold (\<lambda>(c, t) r. snd (record_cost redis_add r c t)) (zip costs ats) r in
    (daily_key now = day \<longrightarrow> peek_daily_total r' now = fold (\<lambda>c s. redis_add s c) costs (Fin 0)) \<and>
    (daily_key now = day + 1 \<longrightarrow> peek_daily_total r' now = Fin 0)"
proof -
  have gen: "fold (\<lambda>(c, t) r. snd (record_cost redis_add r c t)) (zip costs ats) r =
      r(day \<mapsto> (fold (\<lambda>c s. redis_add s c) costs (Fin 0), Some (last ats + TTL_SECONDS)))"
    using assms(1-4)
  proof (induction ats arbitrary: costs rule: rev_induct)
    case (snoc t ts)
    from snoc.prems(3) obtain cs c where costs: "costs = cs @ [c]" "length cs = length ts"
      by (cases costs rule: rev_cases) auto
    have day: "daily_key t = day" using snoc.prems by simp
    show ?case
    proof (cases "ts = []")
      case True
      then show ?thesis using costs assms(6) by (simp add: record_cost_def redis_live_def Let_def day del: fun_upd_apply)
    next
      case False
      then have IH: "fold (\<lambda>(c, t) r. snd (record_cost redis_add r c t)) (zip cs ts) r =
          r(day \<mapsto> (fold (\<lambda>c s. redis_add s c) cs (Fin 0), Some (last ts + TTL_SECONDS)))"
        using snoc.IH [of cs] snoc.prems costs by (simp add: sorted_append del: fun_upd_apply)
      have "last ts \<in> set ts" using False by simp
      then have "daily_key (last ts) = day" using snoc.prems by simp
      then have "t < last ts + TTL_SECONDS"
        using day by (simp add: daily_key_def TTL_SECONDS_def)
      then show ?thesis using costs by (simp add: IH record_live [OF day] del: fun_upd_apply)
    qed
  qed simp
  have "last ats \<in> set ats" using assms(4) by simp
  then have "daily_key (last ats) = day" using assms(2) by simp
  then have "daily_key now = day \<Longrightarrow> now < last ats + TTL_SECONDS"
    by (simp add: daily_key_def TTL_SECONDS_def)
  then show ?thesis
    using assms(7) by (auto simp: gen peek_daily_total_def redis_live_set redis_live_def)
qed

lemma budget_day_total_witness:
  "peek_daily_total (snd (record_cost fadd (snd (record_cost fadd (\<lambda>_. None) (Fin 1) 10)) (Fin 2) 86399)) 86399 = Fin 3"
  using budget_day_total [of "[10, 86399]" 0 "[Fin 1, Fin 2]" 86399 "\<lambda>_. None" fadd]
  by (simp add: daily_key_def)

end
