(* ===== verification/Values.thy ===== *)
theory Values
  imports Pyfloat
begin

text \<open>
  The dynamically typed values of the program: what a JSONB column, a request body or a
  Python \<open>Any\<close> holds. \<open>PDict\<close> keeps the insertion order of a \<open>dict\<close>. The functions
  below are the Python operations the components apply to such values: truthiness,
  \<open>isinstance\<close> tests (a \<open>bool\<close> is an \<open>int\<close>), \<open>get\<close> with and without a default.
\<close>

datatype pyval =
    PNone
  | PBool bool
  | PInt int
  | PFloat pyfloat
  | PStr string
  | PList "pyval list"
  | PDict "(string \<times> pyval) list"

type_synonym obj = "(string, pyval) pydict"

fun truthy :: "pyval \<Rightarrow> bool" where
  "truthy PNone = False"
| "truthy (PBool b) = b"
| "truthy (PInt n) = (n \<noteq> 0)"
| "truthy (PFloat x) = (\<not> feq x (Fin 0))"
| "truthy (PStr s) = (s \<noteq> [])"
| "truthy (PList xs) = (xs \<noteq> [])"
| "truthy (PDict d) = (d \<noteq> [])"

fun is_str :: "pyval \<Rightarrow> bool" where
  "is_str (PStr _) = True"
| "is_str _ = False"

fun is_bool :: "pyval \<Rightarrow> bool" where
  "is_bool (PBool _) = True"
| "is_bool _ = False"

fun is_int :: "pyval \<Rightarrow> bool" where
  "is_int (PInt _) = True"
| "is_int (PBool _) = True"
| "is_int _ = False"

text \<open>\<open>d.get(k)\<close> yields \<open>None\<close> for a missing key as for a JSON \<open>null\<close>.\<close>

definition obj_get :: "obj \<Rightarrow> string \<Rightarrow> pyval" where
  "obj_get d k = (case map_of d k of None \<Rightarrow> PNone | Some v \<Rightarrow> v)"

definition obj_get_default :: "obj \<Rightarrow> string \<Rightarrow> pyval \<Rightarrow> pyval" where
  "obj_get_default d k v0 = (case map_of d k of None \<Rightarrow> v0 | Some v \<Rightarrow> v)"

lemma obj_get_set [simp, dict_simps]:
  "obj_get (dict_set k v d) k' = (if k' = k then v else obj_get d k')"
  by (simp add: obj_get_def)

lemma obj_get_pop [simp, dict_simps]:
  "obj_get (dict_pop k d) k' = (if k' = k then PNone else obj_get d k')"
  by (simp add: obj_get_def)

text \<open>
  The numeric value of an \<open>int\<close>, \<open>bool\<close> or \<open>float\<close>, and equality as Python's \<open>==\<close> sees
  it (\<open>1 == 1.0 == True\<close>); comparisons of an \<open>int\<close> with a \<open>float\<close> are exact in Python.
\<close>

fun num_of :: "pyval \<Rightarrow> pyfloat option" where
  "num_of (PBool b) = Some (Fin (if b then 1 else 0))"
| "num_of (PInt n) = Some (Fin (of_int n))"
| "num_of (PFloat x) = Some x"
| "num_of _ = None"

fun int_of :: "pyval \<Rightarrow> int option" where
  "int_of (PInt n) = Some n"
| "int_of (PBool b) = Some (if b then 1 else 0)"
| "int_of _ = None"

section \<open>Numbers as text\<close>

text \<open>
  \<open>str\<close> of an \<open>int\<close>, and \<open>int\<close> of a \<open>str\<close>: surrounding white space, a sign, digits that single
  underscores may separate; \<open>None\<close> is the \<open>ValueError\<close>. The decimal digits outside ASCII that
  Python also accepts are not modelled.
\<close>

fun nat_str :: "nat \<Rightarrow> string" where
  "nat_str n = (if n < 10 then [char_of (48 + n)] else nat_str (n div 10) @ [char_of (48 + n mod 10)])"

definition int_str :: "int \<Rightarrow> string" where
  "int_str n = (if n < 0 then ''-'' @ nat_str (nat (- n)) else nat_str (nat n))"

definition ascii_digit :: "char \<Rightarrow> nat option" where
  "ascii_digit c = (let k = of_char c :: nat in if 48 \<le> k \<and> k \<le> 57 then Some (k - 48) else None)"

definition ascii_space :: "char \<Rightarrow> bool" where
  "ascii_space c = (let k = of_char c :: nat in k = 32 \<or> 9 \<le> k \<and> k \<le> 13 \<or> 28 \<le> k \<and> k \<le> 31)"

definition py_strip :: "string \<Rightarrow> string" where
  "py_strip s = rev (dropWhile ascii_space (rev (dropWhile ascii_space s)))"

text \<open>The digits after the first one; an underscore must be followed by a digit.\<close>

fun more_digits :: "string \<Rightarrow> nat \<Rightarrow> nat option" where
  "more_digits [] n = Some n"
| "more_digits (c # cs) n =
     (case ascii_digit c of
        Some k \<Rightarrow> more_digits cs (10 * n + k)
      | None \<Rightarrow> if c = CHR ''_'' then
          (case cs of [] \<Rightarrow> None | d # _ \<Rightarrow> if ascii_digit d = None then None else more_digits cs n)
          else None)"

definition py_digits :: "string \<Rightarrow> nat option" where
  "py_digits s = (case s of [] \<Rightarrow> None | c # cs \<Rightarrow>
     (case ascii_digit c of None \<Rightarrow> None | Some k \<Rightarrow> more_digits cs k))"

definition py_int :: "string \<Rightarrow> int option" where
  "py_int s = (case py_strip s of
       [] \<Rightarrow> None
     | c # cs \<Rightarrow> if c = CHR ''-'' then map_option (\<lambda>n. - int n) (py_digits cs)
                 else if c = CHR ''+'' then map_option int (py_digits cs)
                 else map_option int (py_digits (c # cs)))"

end
