(* ===== verification/Calibration.thy ===== *)
theory Calibration
  imports Values
begin

text \<open>
  How well a judge agrees with human ratings (\<open>backend/app/eval/calibration.py\<close>): the confusion matrix,
  Cohen's kappa, its linearly weighted form and the agreement for every rating. The sum of floats of
  Python compensates its rounding; it is the parameter \<open>fl_sum\<close>. The loops that add floats one by one round
  at each step.
\<close>

section \<open>The report\<close>

definition RATING_VALUES :: "nat list" where "RATING_VALUES = [0, 1, 2, 3]"

record calibration_result =
  cb_cohens_kappa :: "pyfloat option"
  cb_weighted_kappa :: "pyfloat option"
  cb_per_class :: "(string, pyfloat) pydict"
  cb_n_samples :: nat
  cb_warning :: "string option"

definition in_scale :: "int \<times> int \<Rightarrow> bool" where
  "in_scale p = (0 \<le> fst p \<and> fst p \<le> 3 \<and> 0 \<le> snd p \<and> snd p \<le> 3)"

text \<open>\<open>matrix[human][llm]\<close>\<close>

definition confusion_matrix :: "(int \<times> int) list \<Rightarrow> nat list list" where
  "confusion_matrix pairs =
     fold (\<lambda>(human, llm) m. if in_scale (human, llm)
         then m[nat human := (m ! nat human)[nat llm := m ! nat human ! nat llm + 1]] else m)
       pairs (map (\<lambda>_. [0, 0, 0, 0]) RATING_VALUES)"

definition ratio :: "nat \<Rightarrow> nat \<Rightarrow> pyfloat" where
  "ratio a b = rnd64 (of_nat a / of_nat b)"

definition KAPPA_EPSILON :: pyfloat where "KAPPA_EPSILON = flit (1 / 10 ^ 12)"

definition kappa_value :: "pyfloat \<Rightarrow> pyfloat \<Rightarrow> pyfloat option" where
  "kappa_value p_o p_e =
     (if flt (fabs (fsub (Fin 1) p_e)) KAPPA_EPSILON then None
      else fdiv (fsub p_o p_e) (fsub (Fin 1) p_e))"

text \<open>\<open>1.0 - abs(i - j) / 3.0\<close>\<close>

definition weight :: "nat \<Rightarrow> nat \<Rightarrow> pyfloat" where
  "weight i j = fsub (Fin 1) (rnd64 (of_int \<bar>int i - int j\<bar> / 3))"

definition float_or_zero :: "pyfloat option \<Rightarrow> pyfloat" where
  "float_or_zero x = (case x of None \<Rightarrow> Fin 0 | Some v \<Rightarrow> v)"

definition cells :: "(nat \<times> nat) list" where
  "cells = concat (map (\<lambda>i. map (\<lambda>j. (i, j)) RATING_VALUES) RATING_VALUES)"

definition kappa :: "(pyfloat list \<Rightarrow> pyfloat) \<Rightarrow> (int \<times> int) list \<Rightarrow> pyfloat option \<times> pyfloat option" where
  "kappa fl_sum pairs =
     (let m = confusion_matrix pairs; n = sum_list (map sum_list m) in
      if n = 0 then (None, None)
      else
        (let p_o = ratio (sum_list (map (\<lambda>i. m ! i ! i) RATING_VALUES)) n;
             human_marg = map (\<lambda>i. ratio (sum_list (map (\<lambda>j. m ! i ! j) RATING_VALUES)) n) RATING_VALUES;
             llm_marg = map (\<lambda>j. ratio (sum_list (map (\<lambda>i. m ! i ! j) RATING_VALUES)) n) RATING_VALUES;
             p_e = fl_sum (map (\<lambda>i. fmul (human_marg ! i) (llm_marg ! i)) RATING_VALUES);
             p_o_w = fold (\<lambda>(i, j) acc. fadd acc (float_or_zero (fdiv (fmul (weight i j) (Fin (of_nat (m ! i ! j)))) (Fin (of_nat n)))))
               cells (Fin 0);
             p_e_w = fold (\<lambda>(i, j) acc. fadd acc (fmul (fmul (weight i j) (human_marg ! i)) (llm_marg ! j))) cells (Fin 0)
         in (kappa_value p_o p_e, kappa_value p_o_w p_e_w)))"

definition count_at :: "(int \<times> int) list \<Rightarrow> nat \<Rightarrow> nat" where
  "count_at pairs r = length (filter (\<lambda>p. in_scale p \<and> fst p = int r) pairs)"

definition match_at :: "(int \<times> int) list \<Rightarrow> nat \<Rightarrow> nat" where
  "match_at pairs r = length (filter (\<lambda>p. in_scale p \<and> fst p = int r \<and> fst p = snd p) pairs)"

definition per_class_agreement :: "(int \<times> int) list \<Rightarrow> (string, pyfloat) pydict" where
  "per_class_agreement pairs =
     map (\<lambda>r. (nat_str r, if 0 < count_at pairs r then ratio (match_at pairs r) (count_at pairs r) else Fin 0)) RATING_VALUES"

definition compute_calibration :: "(pyfloat list \<Rightarrow> pyfloat) \<Rightarrow> (int \<times> int) list \<Rightarrow> calibration_result" where
  "compute_calibration fl_sum pairs =
     (let (cohens, weighted) = kappa fl_sum pairs in
      \<lparr>cb_cohens_kappa = cohens, cb_weighted_kappa = weighted, cb_per_class = per_class_agreement pairs,
       cb_n_samples = length pairs,
       cb_warning = (if cohens = None \<and> weighted = None \<and> pairs \<noteq> [] then Some ''no rating variance'' else None)\<rparr>)"

section \<open>The matrix counts\<close>

definition cell_count :: "(int \<times> int) list \<Rightarrow> nat \<Rightarrow> nat \<Rightarrow> nat" where
  "cell_count pairs i j = length (filter (\<lambda>p. in_scale p \<and> p = (int i, int j)) pairs)"

definition count_matrix :: "(int \<times> int) list \<Rightarrow> nat list list" where
  "count_matrix pairs = map (\<lambda>i. map (\<lambda>j. cell_count pairs i j) RATING_VALUES) RATING_VALUES"

lemma small: "0 \<le> a \<Longrightarrow> a \<le> 3 \<Longrightarrow> a = 0 \<or> a = 1 \<or> a = 2 \<or> a = (3::int)"
  by arith

lemma confusion_counts: "confusion_matrix pairs = count_matrix pairs"
proof -
  let ?step = "\<lambda>(human, llm) m. if in_scale (human, llm)
         then m[nat human := (m ! nat human)[nat llm := m ! nat human ! nat llm + 1]] else (m :: nat list list)"
  have one: "?step p (count_matrix ps) = count_matrix (ps @ [p])" for p ps
  proof -
    obtain a b where p: "p = (a, b)" by (cases p)
    show ?thesis
    proof (cases "in_scale (a, b)")
      case True
      then have "a = 0 \<or> a = 1 \<or> a = 2 \<or> a = 3" "b = 0 \<or> b = 1 \<or> b = 2 \<or> b = 3"
        by (auto simp: in_scale_def dest: small)
      then show ?thesis using True
        by (elim disjE) (simp_all add: p count_matrix_def cell_count_def RATING_VALUES_def numeral_2_eq_2 numeral_3_eq_3)
    qed (simp add: p count_matrix_def cell_count_def RATING_VALUES_def)
  qed
  have "fold ?step qs (count_matrix ps) = count_matrix (ps @ qs)" for qs ps
  proof (induction qs arbitrary: ps)
    case (Cons q qs)
    then show ?case using one [of q ps] by simp
  qed simp
  from this [of pairs "[]"] show ?thesis
    by (simp add: confusion_matrix_def count_matrix_def cell_count_def RATING_VALUES_def)
qed

lemma count_cells: "count_matrix pairs ! i ! j = cell_count pairs i j" if "i < 4" "j < 4"
proof -
  have "i = 0 \<or> i = 1 \<or> i = 2 \<or> i = 3" "j = 0 \<or> j = 1 \<or> j = 2 \<or> j = 3" using that by auto
  then show ?thesis by (elim disjE) (simp_all add: count_matrix_def RATING_VALUES_def numeral_2_eq_2 numeral_3_eq_3)
qed

lemma count_all: "sum_list (map sum_list (count_matrix pairs)) = length (filter in_scale pairs)"
proof (induction pairs)
  case Nil
  show ?case by (simp add: count_matrix_def cell_count_def RATING_VALUES_def)
next
  case (Cons p pairs)
  obtain a b where p: "p = (a, b)" by (cases p)
  show ?case
  proof (cases "in_scale (a, b)")
    case True
    then have "a = 0 \<or> a = 1 \<or> a = 2 \<or> a = 3" "b = 0 \<or> b = 1 \<or> b = 2 \<or> b = 3"
      by (auto simp: in_scale_def dest: small)
    then show ?thesis using True Cons.IH
      by (elim disjE) (simp_all add: p count_matrix_def cell_count_def RATING_VALUES_def)
  qed (use Cons.IH in \<open>simp add: p count_matrix_def cell_count_def RATING_VALUES_def\<close>)
qed

lemma diagonal: "list_all (\<lambda>p. fst p = snd p) pairs \<Longrightarrow>
    sum_list (map (\<lambda>i. count_matrix pairs ! i ! i) RATING_VALUES) = length (filter in_scale pairs)"
proof (induction pairs)
  case Nil
  show ?case by (simp add: RATING_VALUES_def count_cells cell_count_def)
next
  case (Cons p pairs)
  obtain a where p: "p = (a, a)" using Cons.prems by (cases p) auto
  show ?case
  proof (cases "in_scale (a, a)")
    case True
    then have "a = 0 \<or> a = 1 \<or> a = 2 \<or> a = 3" by (auto simp: in_scale_def dest: small)
    then show ?thesis using True Cons by (elim disjE) (simp_all add: p count_cells cell_count_def RATING_VALUES_def)
  qed (use Cons in \<open>simp add: p count_cells cell_count_def RATING_VALUES_def\<close>)
qed

section \<open>Bounds\<close>

definition unit_float :: "pyfloat \<Rightarrow> bool" where
  "unit_float x = (\<exists>q. x = Fin q \<and> 0 \<le> q \<and> q \<le> 1)"

lemma unit_rnd: "0 \<le> q \<Longrightarrow> q \<le> 1 \<Longrightarrow> unit_float (rnd64 q)"
  using rnd64_mono [of 0 q] rnd64_mono [of q 1] by (cases "rnd64 q") (auto simp: unit_float_def)

lemma unit_ratio: "a \<le> b \<Longrightarrow> unit_float (ratio a b)"
  unfolding ratio_def by (rule unit_rnd) (auto simp: divide_le_eq_1)

lemma unit_mult: "unit_float x \<Longrightarrow> unit_float y \<Longrightarrow> unit_float (fmul x y)"
  by (auto simp: unit_float_def [of x] unit_float_def [of y] mult_le_one intro!: unit_rnd)

lemma match_le_count: "match_at pairs r \<le> count_at pairs r"
  by (induction pairs) (auto simp: match_at_def count_at_def)

lemma unit_zero: "unit_float (Fin 0)"
  by (simp add: unit_float_def)

lemma per_class_bounds: "list_all (\<lambda>e. unit_float (snd e)) (per_class_agreement pairs)"
proof -
  have "unit_float (if 0 < count_at pairs r then ratio (match_at pairs r) (count_at pairs r) else Fin 0)" for r
    using unit_ratio [OF match_le_count] unit_zero by simp
  then show ?thesis unfolding per_class_agreement_def RATING_VALUES_def by simp
qed

text \<open>What is relied on of the compensated sum: of at most four numbers of the unit interval it is a number
  between zero and four.\<close>

definition sum_ok :: "(pyfloat list \<Rightarrow> pyfloat) \<Rightarrow> bool" where
  "sum_ok fl_sum = (\<forall>xs. length xs = 4 \<and> list_all unit_float xs \<longrightarrow> (\<exists>q. fl_sum xs = Fin q \<and> 0 \<le> q \<and> q \<le> 4))"

lemma kappa_of_one: "0 \<le> q \<Longrightarrow> q \<le> 4 \<Longrightarrow> kappa_value (Fin 1) (Fin q) \<in> {None, Some (Fin 1)}"
proof -
  assume q: "0 \<le> q" "q \<le> 4"
  then have "fle (rnd64 (1 - q)) (Fin 1)" "fle (rnd64 (- 3)) (rnd64 (1 - q))"
    using rnd64_mono [of "1 - q" 1] rnd64_mono [of "- 3" "1 - q"] by simp_all
  moreover have "rnd64 (- 3) = Fin (- 3)" using rnd64_of_int [of "- 3"] by simp
  ultimately obtain x where x: "fsub (Fin 1) (Fin q) = Fin x" by (cases "rnd64 (1 - q)") (auto simp: fsub_def)
  have eps: "flt (Fin 0) KAPPA_EPSILON"
  proof -
    have "fle (Fin (1 / 2 ^ 60)) (rnd64 (1 / 10 ^ 12))"
      using rnd64_mono [of "1 / 2 ^ 60" "1 / 10 ^ 12"] rnd64_dyadic [of 1 60] by simp
    then show ?thesis by (cases "rnd64 (1 / 10 ^ 12)") (auto simp: KAPPA_EPSILON_def intro: order.strict_trans2)
  qed
  show ?thesis
  proof (cases "x = 0")
    case True
    then show ?thesis using eps x by (simp add: kappa_value_def fabs_def)
  next
    case False
    then show ?thesis by (simp add: kappa_value_def x)
  qed
qed

section \<open>Properties\<close>

lemma chance_terms: "list_all unit_float (map (\<lambda>i. fmul
    (map (\<lambda>i. ratio (sum_list (map (\<lambda>j. count_matrix pairs ! i ! j) RATING_VALUES)) (length (filter in_scale pairs))) RATING_VALUES ! i)
    (map (\<lambda>j. ratio (sum_list (map (\<lambda>i. count_matrix pairs ! i ! j) RATING_VALUES)) (length (filter in_scale pairs))) RATING_VALUES ! i))
    RATING_VALUES)"
proof -
  have sum4: "sum_list (map sum_list (count_matrix pairs)) = (\<Sum>i\<leftarrow>RATING_VALUES. \<Sum>j\<leftarrow>RATING_VALUES. cell_count pairs i j)"
    by (simp add: count_matrix_def RATING_VALUES_def)
  have "i \<in> set RATING_VALUES \<Longrightarrow> sum_list (map (\<lambda>j. count_matrix pairs ! i ! j) RATING_VALUES) \<le> length (filter in_scale pairs)"
    "i \<in> set RATING_VALUES \<Longrightarrow> sum_list (map (\<lambda>j. count_matrix pairs ! j ! i) RATING_VALUES) \<le> length (filter in_scale pairs)" for i
    unfolding count_all [symmetric] sum4 by (auto simp: RATING_VALUES_def count_cells)
  then have "\<forall>i\<in>set RATING_VALUES. unit_float (ratio (sum_list (map (\<lambda>j. count_matrix pairs ! i ! j) RATING_VALUES)) (length (filter in_scale pairs)))"
    "\<forall>i\<in>set RATING_VALUES. unit_float (ratio (sum_list (map (\<lambda>j. count_matrix pairs ! j ! i) RATING_VALUES)) (length (filter in_scale pairs)))"
    by (auto intro: unit_ratio)
  then show ?thesis by (auto simp: RATING_VALUES_def numeral_2_eq_2 numeral_3_eq_3 intro: unit_mult)
qed

text \<open>A judge that agrees with the humans everywhere has kappa one, or none when only one rating
  occurs; the agreement of every rating is a fraction, and one where the humans used the rating.\<close>

lemma perfect_agreement:
  assumes "sum_ok fl_sum" and "list_all (\<lambda>p. fst p = snd p) pairs"
  shows "cb_cohens_kappa (compute_calibration fl_sum pairs) \<in> {None, Some (Fin 1)} \<and>
    (\<forall>r\<in>set RATING_VALUES. 0 < count_at pairs r \<longrightarrow> (nat_str r, Fin 1) \<in> set (cb_per_class (compute_calibration fl_sum pairs)))"
proof
  let ?n = "length (filter in_scale pairs)"
  show "cb_cohens_kappa (compute_calibration fl_sum pairs) \<in> {None, Some (Fin 1)}"
  proof (cases "?n = 0")
    case True
    then show ?thesis unfolding compute_calibration_def kappa_def Let_def confusion_counts count_all by simp
  next
    case False
    have four: "length (map f RATING_VALUES) = 4" for f :: "nat \<Rightarrow> pyfloat" by (simp add: RATING_VALUES_def)
    from assms(1) chance_terms [of pairs] obtain q where q: "0 \<le> q" "q \<le> 4" and
      e: "fl_sum (map (\<lambda>i. fmul
        (map (\<lambda>i. ratio (sum_list (map (\<lambda>j. count_matrix pairs ! i ! j) RATING_VALUES)) ?n) RATING_VALUES ! i)
        (map (\<lambda>j. ratio (sum_list (map (\<lambda>i. count_matrix pairs ! i ! j) RATING_VALUES)) ?n) RATING_VALUES ! i))
        RATING_VALUES) = Fin q"
      unfolding sum_ok_def using four by blast
    have "ratio ?n ?n = Fin 1" using False by (simp add: ratio_def)
    then show ?thesis
      using False kappa_of_one [OF q]
      unfolding compute_calibration_def kappa_def Let_def confusion_counts count_all e diagonal [OF assms(2)] by simp
  qed
  have "match_at pairs r = count_at pairs r" for r
    using assms(2) by (induction pairs) (auto simp: match_at_def count_at_def)
  then show "\<forall>r\<in>set RATING_VALUES. 0 < count_at pairs r \<longrightarrow> (nat_str r, Fin 1) \<in> set (cb_per_class (compute_calibration fl_sum pairs))"
    by (auto simp: compute_calibration_def per_class_agreement_def ratio_def Let_def simp del: nat_str.simps split: prod.splits)
qed

text \<open>Ratings outside the scale are counted as samples, and the warning speaks of variance when none was left.\<close>

lemma out_of_scale: "compute_calibration fl_sum [(7, 7)] = \<lparr>cb_cohens_kappa = None, cb_weighted_kappa = None,
    cb_per_class = [(''0'', Fin 0), (''1'', Fin 0), (''2'', Fin 0), (''3'', Fin 0)], cb_n_samples = 1,
    cb_warning = Some ''no rating variance''\<rparr>"
proof -
  have "nat_str 0 = ''0''" "nat_str 1 = ''1''" "nat_str 2 = ''2''" "nat_str 3 = ''3''" by code_simp+
  then show ?thesis
    unfolding compute_calibration_def kappa_def Let_def confusion_counts count_all
    by (simp add: in_scale_def per_class_agreement_def count_at_def RATING_VALUES_def del: nat_str.simps)
qed

end
