(* ===== verification/Url_Policy.thy ===== *)
theory Url_Policy
  imports Values "HOL-Library.Word"
begin

text \<open>
  Which hosts the address of a cluster may name when private clusters are not allowed
  (\<open>backend/app/domain/cluster/url_policy.py\<close>, \<open>backend/app/services/cluster_url_policy.py\<close>). An address is a
  word of 32 or 128 bits; the properties of Python's \<open>ipaddress\<close> the code asks for are tests of a prefix
  against its tables of networks. Parsing of URLs and addresses and the resolver are parameters; the
  resolver fails, by an error or by its time limit, with \<open>None\<close>.
\<close>

section \<open>Networks\<close>

text \<open>\<open>addr in ip_network(net, prefix length)\<close>\<close>

definition in_net :: "('a::len) word \<Rightarrow> nat \<Rightarrow> 'a word \<Rightarrow> bool" where
  "in_net net len ip = (drop_bit (LENGTH('a) - len) ip = drop_bit (LENGTH('a) - len) net)"

definition in_some :: "(('a::len) word \<times> nat) list \<Rightarrow> 'a word \<Rightarrow> bool" where
  "in_some nets ip = list_ex (\<lambda>(net, len). in_net net len ip) nets"

definition quad :: "nat \<Rightarrow> nat \<Rightarrow> nat \<Rightarrow> nat \<Rightarrow> 32 word" where
  "quad a b c d = of_nat (((a * 256 + b) * 256 + c) * 256 + d)"

definition V4_PRIVATE :: "(32 word \<times> nat) list" where
  "V4_PRIVATE = [(quad 0 0 0 0, 8), (quad 10 0 0 0, 8), (quad 127 0 0 0, 8), (quad 169 254 0 0, 16), (quad 172 16 0 0, 12),
     (quad 192 0 0 0, 24), (quad 192 0 0 170, 31), (quad 192 0 2 0, 24), (quad 192 168 0 0, 16), (quad 198 18 0 0, 15),
     (quad 198 51 100 0, 24), (quad 203 0 113 0, 24), (quad 240 0 0 0, 4), (quad 255 255 255 255, 32)]"

definition V4_PRIVATE_EXCEPTIONS :: "(32 word \<times> nat) list" where
  "V4_PRIVATE_EXCEPTIONS = [(quad 192 0 0 9, 32), (quad 192 0 0 10, 32)]"

definition CGNAT_V4 :: "32 word \<times> nat" where "CGNAT_V4 = (quad 100 64 0 0, 10)"

definition is_private_v4 :: "32 word \<Rightarrow> bool" where
  "is_private_v4 ip = (in_some V4_PRIVATE ip \<and> \<not> in_some V4_PRIVATE_EXCEPTIONS ip)"

definition is_blocked_v4 :: "32 word \<Rightarrow> bool" where
  "is_blocked_v4 ip = (is_private_v4 ip \<or> in_net (quad 127 0 0 0) 8 ip \<or> in_net (quad 169 254 0 0) 16 ip \<or>
     in_net (quad 240 0 0 0) 4 ip \<or> in_net (quad 224 0 0 0) 4 ip \<or> ip = 0 \<or> in_net (fst CGNAT_V4) (snd CGNAT_V4) ip)"

text \<open>The first 64 bits of an IPv6 network, as four groups of 16.\<close>

definition groups :: "nat \<Rightarrow> nat \<Rightarrow> nat \<Rightarrow> nat \<Rightarrow> 128 word" where
  "groups a b c d = push_bit 64 (of_nat (((a * 65536 + b) * 65536 + c) * 65536 + d))"

definition V6_PRIVATE :: "(128 word \<times> nat) list" where
  "V6_PRIVATE = [(1, 128), (0, 128), (push_bit 32 0xFFFF, 96), (groups 0x64 0xFF9B 1 0, 48), (groups 0x100 0 0 0, 64),
     (groups 0x2001 0 0 0, 23), (groups 0x2001 0xDB8 0 0, 32), (groups 0x3FFF 0 0 0, 20), (groups 0xFC00 0 0 0, 7),
     (groups 0xFE80 0 0 0, 10)]"

definition V6_PRIVATE_EXCEPTIONS :: "(128 word \<times> nat) list" where
  "V6_PRIVATE_EXCEPTIONS = [(groups 0x2001 1 0 0 + 1, 128), (groups 0x2001 1 0 0 + 2, 128), (groups 0x2001 3 0 0, 32),
     (groups 0x2001 4 0x112 0, 48), (groups 0x2001 0x20 0 0, 28), (groups 0x2001 0x30 0 0, 28)]"

definition V6_RESERVED :: "(128 word \<times> nat) list" where
  "V6_RESERVED = [(0, 8), (groups 0x100 0 0 0, 8), (groups 0x200 0 0 0, 7), (groups 0x400 0 0 0, 6), (groups 0x800 0 0 0, 5),
     (groups 0x1000 0 0 0, 4), (groups 0x4000 0 0 0, 3), (groups 0x6000 0 0 0, 3), (groups 0x8000 0 0 0, 3),
     (groups 0xA000 0 0 0, 3), (groups 0xC000 0 0 0, 3), (groups 0xE000 0 0 0, 4), (groups 0xF000 0 0 0, 5),
     (groups 0xF800 0 0 0, 6), (groups 0xFE00 0 0 0, 9)]"

definition is_private_v6 :: "128 word \<Rightarrow> bool" where
  "is_private_v6 ip = (in_some V6_PRIVATE ip \<and> \<not> in_some V6_PRIVATE_EXCEPTIONS ip)"

datatype ip_addr = V4 "32 word" | V6 "128 word"

text \<open>\<open>::ffff:a.b.c.d\<close>\<close>

definition ipv4_mapped :: "128 word \<Rightarrow> 32 word option" where
  "ipv4_mapped ip = (if drop_bit 32 ip = 0xFFFF then Some (ucast ip) else None)"

fun is_blocked_address :: "ip_addr \<Rightarrow> bool" where
  "is_blocked_address (V4 ip) = is_blocked_v4 ip"
| "is_blocked_address (V6 ip) = (case ipv4_mapped ip of
       Some mapped \<Rightarrow> is_blocked_v4 mapped
     | None \<Rightarrow> is_private_v6 ip \<or> ip = 1 \<or> in_net (groups 0xFE80 0 0 0) 10 ip \<or> in_some V6_RESERVED ip \<or>
         in_net (groups 0xFF00 0 0 0) 8 ip \<or> ip = 0)"

section \<open>The policy\<close>

definition METADATA_HOSTNAMES :: "string list" where
  "METADATA_HOSTNAMES = [''metadata.google.internal'', ''metadata'']"

record url_env =
  ue_allow_private :: bool
  ue_hostname :: "string \<Rightarrow> string option"
  ue_strip :: "string \<Rightarrow> string"
  ue_lower :: "string \<Rightarrow> string"
  ue_parse_ip :: "string \<Rightarrow> ip_addr option"
  ue_resolve :: "string \<Rightarrow> string list option"

definition rstrip_dots :: "string \<Rightarrow> string" where
  "rstrip_dots s = rev (dropWhile (\<lambda>c. c = CHR ''.'') (rev s))"

definition is_metadata_hostname :: "url_env \<Rightarrow> string \<Rightarrow> bool" where
  "is_metadata_hostname env host = (ue_lower env (rstrip_dots (ue_strip env host)) \<in> set METADATA_HOSTNAMES)"

text \<open>\<open>Inl\<close> is \<open>ClusterUrlBlocked\<close>, with the address or host that is blocked.\<close>

definition assert_base_url_allowed :: "url_env \<Rightarrow> string \<Rightarrow> string + unit" where
  "assert_base_url_allowed env base_url =
     (if ue_allow_private env then Inr ()
      else (case ue_hostname env base_url of
          None \<Rightarrow> Inr ()
        | Some host \<Rightarrow>
          (if host = [] then Inr ()
           else if is_metadata_hostname env host then Inl host
           else (case ue_parse_ip env host of
               Some literal \<Rightarrow> if is_blocked_address literal then Inl host else Inr ()
             | None \<Rightarrow> (case ue_resolve env host of
                 None \<Rightarrow> Inr ()
               | Some addrs \<Rightarrow>
                 (case find (\<lambda>a. case ue_parse_ip env a of None \<Rightarrow> False | Some ip \<Rightarrow> is_blocked_address ip) addrs of
                    Some a \<Rightarrow> Inl a | None \<Rightarrow> Inr ()))))))"

section \<open>What is blocked\<close>

lemma in_net_unat:
  "in_net net len (ip :: ('a::len) word) \<longleftrightarrow> unat ip div 2 ^ (LENGTH('a) - len) = unat net div 2 ^ (LENGTH('a) - len)"
  unfolding in_net_def word_unat_eq_iff unat_drop_bit_eq by (simp only: drop_bit_eq_div)

lemma div_range: "0 < b \<Longrightarrow> (m div b = q) \<longleftrightarrow> q * b \<le> m \<and> m < (q + 1) * (b::nat)"
  by (metis Suc_eq_plus1 div_nat_eqI dividend_less_times_div less_mult_imp_div_less mult.commute mult_Suc_right
      div_times_less_eq_dividend)

text \<open>The addresses that are internal, as intervals of numbers.\<close>

definition internal_v4 :: "nat \<Rightarrow> bool" where
  "internal_v4 n = (let net16 = (\<lambda>a b. (a * 256 + b) * 2 ^ 16) in
     n < net16 1 0 \<or> net16 10 0 \<le> n \<and> n < net16 11 0 \<or> net16 100 64 \<le> n \<and> n < net16 100 128 \<or> net16 127 0 \<le> n \<and> n < net16 128 0 \<or>
     net16 169 254 \<le> n \<and> n < net16 169 255 \<or> net16 172 16 \<le> n \<and> n < net16 172 32 \<or> net16 192 168 \<le> n \<and> n < net16 192 169 \<or> net16 224 0 \<le> n)"

fun internal :: "ip_addr \<Rightarrow> bool" where
  "internal (V4 ip) = internal_v4 (unat ip)"
| "internal (V6 ip) = (let n = unat ip in
     0xFFFF * 2 ^ 32 \<le> n \<and> n < 2 ^ 48 \<and> internal_v4 (n - 0xFFFF * 2 ^ 32) \<or> n \<le> 1 \<or>
     0xFC00 * 2 ^ 112 \<le> n \<and> n < 0xFE00 * 2 ^ 112 \<or> 0xFE80 * 2 ^ 112 \<le> n \<and> n < 0xFEC0 * 2 ^ 112 \<or> 0xFF00 * 2 ^ 112 \<le> n)"

lemma v4_net: "in_net (quad a b c d) len ip \<longleftrightarrow>
    unat ip div 2 ^ (32 - len) = (((a * 256 + b) * 256 + c) * 256 + d) mod 2 ^ 32 div 2 ^ (32 - len)"
  unfolding in_net_unat quad_def unat_of_nat by simp

lemma v4_intervals:
  "in_net (quad 0 0 0 0) 8 ip \<longleftrightarrow> unat ip < 0x1000000"
  "in_net (quad 10 0 0 0) 8 ip \<longleftrightarrow> 0xA000000 \<le> unat ip \<and> unat ip < 0xB000000"
  "in_net (quad 100 64 0 0) 10 ip \<longleftrightarrow> 0x64400000 \<le> unat ip \<and> unat ip < 0x64800000"
  "in_net (quad 127 0 0 0) 8 ip \<longleftrightarrow> 0x7F000000 \<le> unat ip \<and> unat ip < 0x80000000"
  "in_net (quad 169 254 0 0) 16 ip \<longleftrightarrow> 0xA9FE0000 \<le> unat ip \<and> unat ip < 0xA9FF0000"
  "in_net (quad 172 16 0 0) 12 ip \<longleftrightarrow> 0xAC100000 \<le> unat ip \<and> unat ip < 0xAC200000"
  "in_net (quad 192 168 0 0) 16 ip \<longleftrightarrow> 0xC0A80000 \<le> unat ip \<and> unat ip < 0xC0A90000"
  "in_net (quad 224 0 0 0) 4 ip \<longleftrightarrow> 0xE0000000 \<le> unat ip \<and> unat ip < 0xF0000000"
  "in_net (quad 240 0 0 0) 4 ip \<longleftrightarrow> 0xF0000000 \<le> unat ip \<and> unat ip < 0x100000000"
  "in_net (quad 192 0 0 9) 32 ip \<longleftrightarrow> unat ip = 0xC0000009"
  "in_net (quad 192 0 0 10) 32 ip \<longleftrightarrow> unat ip = 0xC000000A"
  by (simp_all add: v4_net div_range)

lemma private_v4: "in_net net len ip \<Longrightarrow> (net, len) \<in> set V4_PRIVATE \<Longrightarrow> unat ip < 0xC0000000 \<or> 0xC0010000 \<le> unat ip \<Longrightarrow>
    is_private_v4 ip"
  by (auto simp: is_private_v4_def in_some_def list_ex_iff V4_PRIVATE_EXCEPTIONS_def v4_intervals)

lemma internal_v4_blocked:
  assumes "internal_v4 (unat ip)"
  shows "is_blocked_v4 ip"
proof -
  have listed: "(quad 0 0 0 0, 8) \<in> set V4_PRIVATE" "(quad 10 0 0 0, 8) \<in> set V4_PRIVATE"
    "(quad 172 16 0 0, 12) \<in> set V4_PRIVATE" "(quad 192 168 0 0, 16) \<in> set V4_PRIVATE"
    by (simp_all add: V4_PRIVATE_def)
  have top: "unat ip < 0x100000000" using unsigned_less [of ip] by simp
  have "unat ip < 0x1000000 \<or> 0xA000000 \<le> unat ip \<and> unat ip < 0xB000000 \<or> 0x64400000 \<le> unat ip \<and> unat ip < 0x64800000 \<or>
      0x7F000000 \<le> unat ip \<and> unat ip < 0x80000000 \<or> 0xA9FE0000 \<le> unat ip \<and> unat ip < 0xA9FF0000 \<or>
      0xAC100000 \<le> unat ip \<and> unat ip < 0xAC200000 \<or> 0xC0A80000 \<le> unat ip \<and> unat ip < 0xC0A90000 \<or> 0xE0000000 \<le> unat ip"
    using assms by (simp add: internal_v4_def)
  then show ?thesis
  proof (elim disjE)
    assume "unat ip < 0x1000000"
    then show ?thesis using private_v4 [OF _ listed(1), of ip] by (simp add: is_blocked_v4_def v4_intervals)
  next
    assume "0xA000000 \<le> unat ip \<and> unat ip < 0xB000000"
    then show ?thesis using private_v4 [OF _ listed(2), of ip] by (simp add: is_blocked_v4_def v4_intervals)
  next
    assume "0xAC100000 \<le> unat ip \<and> unat ip < 0xAC200000"
    then show ?thesis using private_v4 [OF _ listed(3), of ip] by (simp add: is_blocked_v4_def v4_intervals)
  next
    assume "0xC0A80000 \<le> unat ip \<and> unat ip < 0xC0A90000"
    then show ?thesis using private_v4 [OF _ listed(4), of ip] by (simp add: is_blocked_v4_def v4_intervals)
  next
    assume "0xE0000000 \<le> unat ip"
    then show ?thesis using top by (cases "unat ip < 0xF0000000") (simp_all add: is_blocked_v4_def v4_intervals)
  qed (simp_all add: is_blocked_v4_def CGNAT_V4_def v4_intervals)
qed

lemma groups_unat: "a < 65536 \<Longrightarrow> unat (groups a 0 0 0) = a * 2 ^ 112"
proof -
  assume a: "a < 65536"
  have "groups a 0 0 0 = of_nat (a * 2 ^ 112)" by (simp add: groups_def push_bit_eq_mult)
  then have "unat (groups a 0 0 0) = a * 2 ^ 112 mod 2 ^ 128" by (simp only: unat_of_nat) simp
  then show ?thesis using a by simp
qed

lemma mapped_iff: "drop_bit 32 (ip :: 128 word) = 0xFFFF \<longleftrightarrow> 0xFFFF * 2 ^ 32 \<le> unat ip \<and> unat ip < 2 ^ 48"
proof -
  have "drop_bit 32 ip = 0xFFFF \<longleftrightarrow> unat ip div 2 ^ 32 = 0xFFFF"
    unfolding word_unat_eq_iff unat_drop_bit_eq by (simp only: drop_bit_eq_div) simp
  then show ?thesis by (simp add: div_range)
qed

lemma v6_intervals:
  "in_net (groups 0xFC00 0 0 0) 7 ip \<longleftrightarrow> 0xFC00 * 2 ^ 112 \<le> unat ip \<and> unat ip < 0xFE00 * 2 ^ 112"
  "in_net (groups 0xFE80 0 0 0) 10 ip \<longleftrightarrow> 0xFE80 * 2 ^ 112 \<le> unat ip \<and> unat ip < 0xFEC0 * 2 ^ 112"
  "in_net (groups 0xFF00 0 0 0) 8 ip \<longleftrightarrow> 0xFF00 * 2 ^ 112 \<le> unat ip \<and> unat ip < 2 ^ 128"
  "in_net (groups 0x2000 0 0 0) 14 ip \<longleftrightarrow> 0x2000 * 2 ^ 112 \<le> unat ip \<and> unat ip < 0x2004 * 2 ^ 112"
  by (simp_all add: in_net_unat groups_unat div_range)

text \<open>The exceptions lie among the addresses \<open>2001:\<close>.\<close>

lemma exception_low: "in_some V6_PRIVATE_EXCEPTIONS ip \<Longrightarrow> unat ip < 0x2002 * 2 ^ 112"
proof -
  have bound: "unat net < 0x2002 * 2 ^ 112 \<and> 0x2002 * 2 ^ 112 mod 2 ^ (128 - len) = (0 :: nat) \<Longrightarrow> in_net net len ip \<Longrightarrow>
      unat ip < 0x2002 * 2 ^ 112" for net len
  proof -
    assume a: "unat net < 0x2002 * 2 ^ 112 \<and> 0x2002 * 2 ^ 112 mod 2 ^ (128 - len) = (0 :: nat)" "in_net net len ip"
    then have d: "unat ip div 2 ^ (128 - len) = unat net div 2 ^ (128 - len)" by (simp add: in_net_unat)
    obtain k :: nat where k: "0x2002 * 2 ^ 112 = k * 2 ^ (128 - len)" using a(1) by (metis mod_0_imp_dvd dvd_def mult.commute)
    then have "unat net div 2 ^ (128 - len) < k" using a(1) by (metis less_mult_imp_div_less)
    then show ?thesis using d k by (metis div_less_iff_less_mult zero_less_numeral zero_less_power)
  qed
  have all: "\<forall>(net, len)\<in>set V6_PRIVATE_EXCEPTIONS. unat net < 0x2002 * 2 ^ 112 \<and> 0x2002 * 2 ^ 112 mod 2 ^ (128 - len) = (0 :: nat)"
    by (simp add: V6_PRIVATE_EXCEPTIONS_def groups_def)
  assume "in_some V6_PRIVATE_EXCEPTIONS ip"
  then obtain net len where "(net, len) \<in> set V6_PRIVATE_EXCEPTIONS" "in_net net len ip"
    by (auto simp: in_some_def list_ex_iff)
  with bspec [OF all this(1)] show ?thesis by (intro bound [of net len]) simp_all
qed

lemma internal_v6_blocked:
  assumes "internal (V6 ip)"
  shows "is_blocked_address (V6 ip)"
proof (cases "ipv4_mapped ip")
  case (Some m)
  then have m: "0xFFFF * 2 ^ 32 \<le> unat ip" "unat ip < 2 ^ 48" "m = ucast ip"
    by (auto simp: ipv4_mapped_def mapped_iff split: if_splits)
  have "unat m = unat ip mod 2 ^ 32" using m(3) by (simp add: unsigned_ucast_eq take_bit_eq_mod)
  also have "\<dots> = unat ip - 0xFFFF * 2 ^ 32"
  proof -
    obtain r where r: "unat ip = 0xFFFF * 2 ^ 32 + r" using m(1) by (metis le_iff_add)
    then have "r < 2 ^ 32" using m(2) by simp
    then show ?thesis unfolding r by (simp only: mod_mult_self3 mod_less add_diff_cancel_left')
  qed
  finally have "internal_v4 (unat m)" using assms m(1,2) by (simp add: Let_def)
  then show ?thesis using internal_v4_blocked Some by simp
next
  case None
  then have free: "\<not> (0xFFFF * 2 ^ 32 \<le> unat ip \<and> unat ip < 2 ^ 48)" by (auto simp: ipv4_mapped_def mapped_iff split: if_splits)
  have high: "is_private_v6 ip" if "in_net net len ip" "(net, len) \<in> set V6_PRIVATE" "0x2002 * 2 ^ 112 \<le> unat ip" for net len
    using that exception_low [of ip] by (auto simp: is_private_v6_def in_some_def list_ex_iff)
  have top: "unat ip < 2 ^ 128" using unsigned_less [of ip] by simp
  from assms free have "unat ip = 0 \<or> unat ip = 1 \<or> 0xFC00 * 2 ^ 112 \<le> unat ip \<and> unat ip < 0xFE00 * 2 ^ 112 \<or>
      0xFE80 * 2 ^ 112 \<le> unat ip \<and> unat ip < 0xFEC0 * 2 ^ 112 \<or> 0xFF00 * 2 ^ 112 \<le> unat ip"
    by (simp add: Let_def) linarith
  then show ?thesis
  proof (elim disjE)
    assume "0xFC00 * 2 ^ 112 \<le> unat ip \<and> unat ip < 0xFE00 * 2 ^ 112"
    then have "is_private_v6 ip" using v6_intervals(1) by (intro high [of "groups 0xFC00 0 0 0" 7]) (simp_all add: V6_PRIVATE_def)
    then show ?thesis using None by simp
  next
    assume "unat ip = 1"
    then have "ip = 1" by (simp add: word_unat_eq_iff)
    then show ?thesis using None by simp
  next
    assume "unat ip = 0"
    then have "ip = 0" by (simp add: word_unat_eq_iff)
    then show ?thesis using None by simp
  qed (use None top in \<open>simp_all add: v6_intervals\<close>)
qed

section \<open>What passes\<close>

text \<open>A host that is no metadata host and whose literal address, or every address the resolver returned, is not internal.\<close>

definition host_external :: "url_env \<Rightarrow> string \<Rightarrow> bool" where
  "host_external env url = (case ue_hostname env url of
       None \<Rightarrow> True
     | Some host \<Rightarrow> host = [] \<or> \<not> is_metadata_hostname env host \<and>
         (case ue_parse_ip env host of
            Some ip \<Rightarrow> \<not> internal ip
          | None \<Rightarrow> (case ue_resolve env host of
              None \<Rightarrow> True
            | Some addrs \<Rightarrow> list_all (\<lambda>a. case ue_parse_ip env a of None \<Rightarrow> True | Some ip \<Rightarrow> \<not> internal ip) addrs)))"

lemma policy_excludes_internal:
  assumes "assert_base_url_allowed env url = Inr ()" and "\<not> ue_allow_private env"
  shows "host_external env url"
proof -
  have blocked: "internal ip \<Longrightarrow> is_blocked_address ip" for ip
    using internal_v4_blocked internal_v6_blocked by (cases ip) auto
  show ?thesis
    using assms blocked
    by (auto simp: assert_base_url_allowed_def host_external_def find_None_all list_all_iff split: option.splits if_splits) metis
qed

section \<open>Instances\<close>

definition demo_url_env :: url_env where
  "demo_url_env = \<lparr>ue_allow_private = False, ue_hostname = Some, ue_strip = (\<lambda>s. s), ue_lower = (\<lambda>s. s),
     ue_parse_ip = (\<lambda>s. if s = ''8.8.8.8'' then Some (V4 (quad 8 8 8 8)) else if s = ''10.0.0.7'' then Some (V4 (quad 10 0 0 7)) else None),
     ue_resolve = (\<lambda>s. if s = ''slow'' then None else if s = ''mixed'' then Some [''8.8.8.8'', ''10.0.0.7''] else Some [''8.8.8.8''])\<rparr>"

lemma demo_quads: "\<not> is_blocked_v4 (quad 8 8 8 8)" "is_blocked_v4 (quad 10 0 0 7)"
proof -
  have n: "unat (quad 8 8 8 8) = 0x8080808" "unat (quad 10 0 0 7) = 0xA000007" unfolding quad_def unat_of_nat by simp_all
  then have "quad 8 8 8 8 \<noteq> 0" by auto
  then show "\<not> is_blocked_v4 (quad 8 8 8 8)"
    by (simp add: is_blocked_v4_def is_private_v4_def in_some_def V4_PRIVATE_def CGNAT_V4_def v4_net n)
  have "internal_v4 (unat (quad 10 0 0 7))" unfolding n by (simp add: internal_v4_def)
  then show "is_blocked_v4 (quad 10 0 0 7)" by (rule internal_v4_blocked)
qed

lemma demo_url_allowed: "assert_base_url_allowed demo_url_env ''dns'' = Inr ()"
  by (simp add: assert_base_url_allowed_def demo_url_env_def is_metadata_hostname_def METADATA_HOSTNAMES_def rstrip_dots_def demo_quads)

text \<open>One internal address among several is enough to be blocked; a resolver that does not answer in time lets the host through.\<close>

lemma mixed_answers_blocked: "assert_base_url_allowed demo_url_env ''mixed'' = Inl ''10.0.0.7''"
proof -
  show ?thesis
    by (simp add: assert_base_url_allowed_def demo_url_env_def is_metadata_hostname_def METADATA_HOSTNAMES_def rstrip_dots_def demo_quads)
qed

lemma slow_resolver_passes:
  assumes "ue_resolve env host = None" and "ue_hostname env url = Some host" and "\<not> is_metadata_hostname env host" and "ue_parse_ip env host = None"
  shows "assert_base_url_allowed env url = Inr ()"
  using assms by (simp add: assert_base_url_allowed_def)

end
