(* ===== verification/Adapters.thy ===== *)
theory Adapters
  imports Url_Policy
begin

text \<open>
  What every use of a cluster goes through: the allowlists (\<open>backend/app/adapters/registry.py\<close>), the
  credentials (\<open>credentials.py\<close>), the construction of an adapter with its headers, one request with
  its retry (\<open>http.py\<close>), the health check of Elasticsearch and OpenSearch (\<open>elastic.py\<close>) and the health
  check and the probe of capabilities of Solr (\<open>solr.py\<close>). The engines, base64, text of values, the mounted
  secrets and the clock are the environment; a path stands for a request with its query string.
\<close>

section \<open>Allowlists\<close>

definition SUPPORTED_ENGINE_TYPES :: "string list" where
  "SUPPORTED_ENGINE_TYPES = [''elasticsearch'', ''opensearch'', ''solr'']"

definition SUPPORTED_AUTH_KINDS :: "string list" where
  "SUPPORTED_AUTH_KINDS = [''es_apikey'', ''es_basic'', ''opensearch_basic'', ''solr_basic'', ''solr_apikey'']"

definition RESERVED_AUTH_KINDS :: "string list" where "RESERVED_AUTH_KINDS = [''opensearch_sigv4'']"

definition ALLOWED_AUTH_PER_ENGINE :: "(string, string list) pydict" where
  "ALLOWED_AUTH_PER_ENGINE =
     [(''elasticsearch'', [''es_apikey'', ''es_basic'']), (''opensearch'', [''opensearch_basic'']),
      (''solr'', [''solr_basic'', ''solr_apikey''])]"

definition allowed_auth :: "string \<Rightarrow> string list" where
  "allowed_auth engine = (case map_of ALLOWED_AUTH_PER_ENGINE engine of None \<Rightarrow> [] | Some ks \<Rightarrow> ks)"

section \<open>Rows and environment\<close>

record cluster_rec =
  cc_id :: string
  cc_name :: string
  cc_engine_type :: string
  cc_environment :: string
  cc_base_url :: string
  cc_auth_kind :: string
  cc_credentials_ref :: string
  cc_engine_config :: "obj option"
  cc_notes :: "string option"
  cc_target_filter :: "string option"
  cc_created_at :: int
  cc_deleted_at :: "int option"

datatype health_state = Green | Yellow | Red | Unreachable

record health_status =
  hs_status :: health_state
  hs_version :: "string option"
  hs_checked_at :: int
  hs_error :: "string option"

record adapter =
  ad_engine_type :: string
  ad_base_url :: string
  ad_auth_headers :: "(string, string) pydict"
  ad_engine_config :: obj

text \<open>What one attempt at a request meets: a failed connection, a read that times out, another error of the
  client, or a response with its status and its body as JSON, if it is JSON.\<close>

datatype engine_answer = ConnectFailed string | ReadTimedOut string | ClientError string | EngineResponse int "pyval option"

datatype engine_error =
    ClusterUnreachableError string
  | QueryTimeoutError string
  | RawConnectError string
  | RawReadTimeout string
  | OtherClientError string

record cluster_env =
  ke_policy :: url_env
  ke_credentials :: "pyval option"
  ke_b64 :: "string \<Rightarrow> string"
  ke_str :: "pyval \<Rightarrow> string"
  ke_send :: "adapter \<Rightarrow> string \<Rightarrow> nat \<Rightarrow> engine_answer"
  ke_now :: int
  ke_uuid :: string
  ke_cache_reads :: bool
  ke_cache_writes :: bool
  ke_meanwhile :: "cluster_rec list \<Rightarrow> cluster_rec list"

section \<open>Credentials and adapters\<close>

text \<open>\<open>None\<close> is \<open>CredentialsMissing\<close>; the value is the content of the mounted YAML.\<close>

definition required_fields :: "string \<Rightarrow> string list" where
  "required_fields auth_kind =
     (if auth_kind = ''es_apikey'' then [''api_key'']
      else if auth_kind \<in> {''es_basic'', ''opensearch_basic'', ''solr_basic''} then [''username'', ''password'']
      else if auth_kind = ''solr_apikey'' then [''jwt_token'']
      else [])"

definition resolve_credentials :: "pyval option \<Rightarrow> string \<Rightarrow> string \<Rightarrow> obj option" where
  "resolve_credentials body auth_kind credentials_ref = (case body of
       None \<Rightarrow> None
     | Some v \<Rightarrow> (case (if truthy v then v else PDict []) of
         PDict parsed \<Rightarrow> (case map_of parsed credentials_ref of
             Some (PDict entry) \<Rightarrow>
               if list_all (\<lambda>k. k \<in> set (dict_keys entry)) (required_fields auth_kind) then Some entry else None
           | _ \<Rightarrow> None)
       | _ \<Rightarrow> None))"

definition basic_header :: "cluster_env \<Rightarrow> obj \<Rightarrow> (string, string) pydict" where
  "basic_header env creds =
     [(''Authorization'', ''Basic '' @ ke_b64 env (ke_str env (obj_get creds ''username'') @ '':'' @ ke_str env (obj_get creds ''password'')))]"

text \<open>\<open>None\<close> is the \<open>AssertionError\<close> of a kind that does not belong to the adapter.\<close>

definition elastic_headers :: "cluster_env \<Rightarrow> string \<Rightarrow> obj \<Rightarrow> (string, string) pydict option" where
  "elastic_headers env auth_kind creds =
     (if auth_kind = ''es_apikey'' then Some [(''Authorization'', ''ApiKey '' @ ke_str env (obj_get creds ''api_key''))]
      else if auth_kind \<in> {''es_basic'', ''opensearch_basic''} then Some (basic_header env creds)
      else None)"

definition solr_headers :: "cluster_env \<Rightarrow> string \<Rightarrow> obj \<Rightarrow> (string, string) pydict option" where
  "solr_headers env auth_kind creds =
     (if auth_kind = ''solr_basic'' then Some (basic_header env creds)
      else if auth_kind = ''solr_apikey'' then Some [(''Authorization'', ''Bearer '' @ ke_str env (obj_get creds ''jwt_token''))]
      else None)"

datatype build_error = CredentialsMissing | BuildRaised

definition rstrip_slash :: "string \<Rightarrow> string" where
  "rstrip_slash s = rev (dropWhile (\<lambda>c. c = CHR ''/'') (rev s))"

definition build_adapter_from_args ::
  "cluster_env \<Rightarrow> string \<Rightarrow> string \<Rightarrow> string \<Rightarrow> string \<Rightarrow> obj option \<Rightarrow> build_error + adapter" where
  "build_adapter_from_args env engine_type base_url auth_kind credentials_ref engine_config =
     (if engine_type \<notin> set SUPPORTED_ENGINE_TYPES then Inl BuildRaised
      else if auth_kind \<in> set RESERVED_AUTH_KINDS \<or> auth_kind \<notin> set SUPPORTED_AUTH_KINDS then Inl BuildRaised
      else if engine_type = ''solr'' \<and> auth_kind \<notin> {''solr_basic'', ''solr_apikey''} then Inl BuildRaised
      else (case resolve_credentials (ke_credentials env) auth_kind credentials_ref of
          None \<Rightarrow> Inl CredentialsMissing
        | Some creds \<Rightarrow>
          (case (if engine_type = ''solr'' then solr_headers else elastic_headers) env auth_kind creds of
             None \<Rightarrow> Inl BuildRaised
           | Some headers \<Rightarrow> Inr \<lparr>ad_engine_type = engine_type, ad_base_url = rstrip_slash base_url,
               ad_auth_headers = headers, ad_engine_config = (case engine_config of None \<Rightarrow> [] | Some c \<Rightarrow> c)\<rparr>)))"

definition build_adapter :: "cluster_env \<Rightarrow> cluster_rec \<Rightarrow> build_error + adapter" where
  "build_adapter env c = build_adapter_from_args env (cc_engine_type c) (cc_base_url c) (cc_auth_kind c)
     (cc_credentials_ref c) (cc_engine_config c)"

section \<open>Requests and health\<close>

text \<open>One request: a failed connection or a read that times out is tried once more, an answer is translated by its status.\<close>

definition request_with_retry ::
  "(string \<Rightarrow> engine_error) \<Rightarrow> bool \<Rightarrow> (nat \<Rightarrow> engine_answer) \<Rightarrow> engine_error + (int \<times> pyval option)" where
  "request_with_retry read_timeout_error translate_errors client =
     (let answered = (\<lambda>status body.
            if translate_errors \<and> status \<in> {401, 403} then Inl (ClusterUnreachableError ''Authentication failed'')
            else if translate_errors \<and> 500 \<le> status then Inl (ClusterUnreachableError ''HTTP'')
            else Inr (status, body));
          second = (case client 2 of
              EngineResponse status body \<Rightarrow> answered status body
            | ReadTimedOut m \<Rightarrow> Inl (if translate_errors then read_timeout_error m else RawReadTimeout m)
            | ConnectFailed m \<Rightarrow> Inl (if translate_errors then ClusterUnreachableError m else RawConnectError m)
            | ClientError m \<Rightarrow> Inl (OtherClientError m))
      in case client 1 of
           EngineResponse status body \<Rightarrow> answered status body
         | ClientError m \<Rightarrow> Inl (OtherClientError m)
         | _ \<Rightarrow> second)"

fun split_dots :: "string \<Rightarrow> string list" where
  "split_dots [] = [[]]"
| "split_dots (c # cs) =
     (if c = CHR ''.'' then [] # split_dots cs
      else (case split_dots cs of [] \<Rightarrow> [[c]] | p # ps \<Rightarrow> (c # p) # ps))"

definition is_digits :: "string \<Rightarrow> bool" where
  "is_digits s = (s \<noteq> [] \<and> list_all (\<lambda>c. ascii_digit c \<noteq> None) s)"

definition ES_MIN_VERSION :: "int \<times> int" where "ES_MIN_VERSION = (8, 11)"
definition OPENSEARCH_MIN_VERSION :: "int \<times> int" where "OPENSEARCH_MIN_VERSION = (2, 0)"

definition below :: "int \<times> int \<Rightarrow> int \<times> int \<Rightarrow> bool" where
  "below v w = (fst v < fst w \<or> fst v = fst w \<and> snd v < snd w)"

text \<open>Whether \<open>_enforce_min_version\<close> raises.\<close>

definition too_old :: "string \<Rightarrow> string \<Rightarrow> bool" where
  "too_old engine_type version =
     (case List.map_filter (\<lambda>p. if is_digits p then py_int p else None) (take 2 (split_dots version)) of
        [a, b] \<Rightarrow> engine_type = ''elasticsearch'' \<and> below (a, b) ES_MIN_VERSION \<or>
                  engine_type = ''opensearch'' \<and> below (a, b) OPENSEARCH_MIN_VERSION
      | _ \<Rightarrow> False)"

definition unreachable :: "int \<Rightarrow> string option \<Rightarrow> string \<Rightarrow> health_status" where
  "unreachable now version error =
     \<lparr>hs_status = Unreachable, hs_version = version, hs_checked_at = now, hs_error = Some error\<rparr>"

text \<open>The version in the answer to \<open>GET /\<close>: \<open>None\<close> raises, \<open>Some None\<close> is missing.\<close>

definition version_number :: "pyval \<Rightarrow> string option option" where
  "version_number info = (case info of
       PDict d \<Rightarrow> (case obj_get_default d ''version'' (PDict []) of
           PDict v \<Rightarrow> (case obj_get v ''number'' of PNone \<Rightarrow> Some None | PStr s \<Rightarrow> Some (Some s) | _ \<Rightarrow> None)
         | _ \<Rightarrow> None)
     | _ \<Rightarrow> None)"

definition cluster_state :: "obj \<Rightarrow> health_state" where
  "cluster_state body = (case obj_get_default body ''status'' (PStr ''red'') of
       PStr s \<Rightarrow> if s = ''green'' then Green else if s = ''yellow'' then Yellow else Red
     | _ \<Rightarrow> Red)"

text \<open>\<open>ElasticAdapter.health_check\<close> on a fresh adapter; \<open>None\<close> is an exception it lets out.\<close>

definition version_check :: "cluster_env \<Rightarrow> adapter \<Rightarrow> health_state \<Rightarrow> health_status option" where
  "version_check env ad state = (case request_with_retry ClusterUnreachableError False (ke_send env ad ''/'') of
       Inl (RawConnectError m) \<Rightarrow> Some (unreachable (ke_now env) None m)
     | Inl (RawReadTimeout m) \<Rightarrow> Some (unreachable (ke_now env) None m)
     | Inl _ \<Rightarrow> None
     | Inr (status, body) \<Rightarrow>
       (if status \<in> {401, 403} then Some (unreachable (ke_now env) None ''Authentication failed'')
        else if status \<noteq> 200 then Some (unreachable (ke_now env) None ''cannot read engine version'')
        else (case Option.bind body version_number of
            None \<Rightarrow> None
          | Some None \<Rightarrow> Some (unreachable (ke_now env) None ''missing version.number'')
          | Some (Some v) \<Rightarrow>
              if too_old (ad_engine_type ad) v then Some (unreachable (ke_now env) (Some v) ''below minimum'')
              else Some \<lparr>hs_status = state, hs_version = Some v, hs_checked_at = ke_now env, hs_error = None\<rparr>)))"

definition elastic_health_check :: "cluster_env \<Rightarrow> adapter \<Rightarrow> health_status option" where
  "elastic_health_check env ad = (case request_with_retry ClusterUnreachableError False (ke_send env ad ''/_cluster/health'') of
       Inl (RawConnectError m) \<Rightarrow> Some (unreachable (ke_now env) None m)
     | Inl (RawReadTimeout m) \<Rightarrow> Some (unreachable (ke_now env) None m)
     | Inl _ \<Rightarrow> None
     | Inr (status, body) \<Rightarrow>
       (if 500 \<le> status then Some (unreachable (ke_now env) None ''HTTP'')
        else if status \<in> {401, 403} then Some (unreachable (ke_now env) None ''Authentication failed'')
        else (case body of
            Some (PDict d) \<Rightarrow> version_check env ad (cluster_state d)
          | _ \<Rightarrow> None)))"

section \<open>Health and capabilities of Solr\<close>

definition SOLR_MIN_VERSION :: "int \<times> int" where "SOLR_MIN_VERSION = (9, 0)"

definition SOLR_SYSTEM_TARGETS :: "string list" where "SOLR_SYSTEM_TARGETS = [''.system'', ''_default'']"

text \<open>A \<open>GET\<close> with \<open>translate_errors=False\<close>.\<close>

definition solr_get :: "cluster_env \<Rightarrow> adapter \<Rightarrow> string \<Rightarrow> engine_error + (int \<times> pyval option)" where
  "solr_get env ad path = request_with_retry QueryTimeoutError False (ke_send env ad path)"

text \<open>\<open>d.get(k) or {}\<close>, \<open>None\<close> when the next \<open>.get\<close> would raise.\<close>

definition block_of :: "obj \<Rightarrow> string \<Rightarrow> obj option" where
  "block_of d k = (case obj_get d k of PDict b \<Rightarrow> Some b | v \<Rightarrow> if truthy v then None else Some [])"

definition nonempty_str :: "pyval \<Rightarrow> string option" where
  "nonempty_str v = (case v of PStr s \<Rightarrow> if s = [] then None else Some s | _ \<Rightarrow> None)"

definition extract_version :: "obj \<Rightarrow> string option option" where
  "extract_version info_body =
     map_option (\<lambda>lucene. case nonempty_str (obj_get lucene ''solr-spec-version'') of
         Some v \<Rightarrow> Some v
       | None \<Rightarrow> nonempty_str (obj_get info_body ''solr-spec-version'')) (block_of info_body ''lucene'')"

definition meets_min_version :: "string \<Rightarrow> bool" where
  "meets_min_version version =
     (case List.map_filter (\<lambda>p. if is_digits p then py_int p else None) (take 2 (split_dots version)) of
        [a, b] \<Rightarrow> \<not> below (a, b) SOLR_MIN_VERSION
      | _ \<Rightarrow> False)"

definition solr_health_check :: "cluster_env \<Rightarrow> adapter \<Rightarrow> health_status option" where
  "solr_health_check env ad = (case solr_get env ad ''/solr/admin/info/system'' of
       Inl (RawConnectError m) \<Rightarrow> Some (unreachable (ke_now env) None m)
     | Inl (RawReadTimeout m) \<Rightarrow> Some (unreachable (ke_now env) None m)
     | Inl (OtherClientError m) \<Rightarrow> Some (unreachable (ke_now env) None m)
     | Inl _ \<Rightarrow> None
     | Inr (status, body) \<Rightarrow>
       (if 500 \<le> status then Some (unreachable (ke_now env) None ''HTTP'')
        else if status \<in> {401, 403} then Some (unreachable (ke_now env) None ''Authentication failed'')
        else if status \<noteq> 200 then Some (unreachable (ke_now env) None ''HTTP'')
        else (case body of
            Some (PDict info_body) \<Rightarrow> (case extract_version info_body of
                None \<Rightarrow> None
              | Some None \<Rightarrow> Some (unreachable (ke_now env) None ''missing lucene.solr-spec-version'')
              | Some (Some v) \<Rightarrow>
                  if \<not> meets_min_version v then Some (unreachable (ke_now env) (Some v) ''below minimum'')
                  else Some \<lparr>hs_status = Green, hs_version = Some v, hs_checked_at = ke_now env, hs_error = None\<rparr>)
          | _ \<Rightarrow> None)))"

text \<open>The probe: \<open>ProbeUnreachable\<close> is the \<open>ClusterUnreachableError\<close> it means to raise, \<open>ProbeRaised\<close> anything else.\<close>

datatype probe_error = ProbeUnreachable | ProbeRaised

definition contains_text :: "string \<Rightarrow> string \<Rightarrow> bool" where
  "contains_text s p = list_ex (\<lambda>i. take (length p) (drop i s) = p) [0..<length s]"

definition detect_mode :: "cluster_env \<Rightarrow> adapter \<Rightarrow> string option" where
  "detect_mode env ad = (case solr_get env ad ''/solr/admin/zookeeper/status'' of
       Inl _ \<Rightarrow> Some ''standalone''
     | Inr (status, body) \<Rightarrow>
       (if status \<noteq> 200 then Some ''standalone''
        else (case body of
            Some (PDict d) \<Rightarrow> if ''zkStatus'' \<in> set (dict_keys d) \<or> d \<noteq> [] then Some ''cloud'' else Some ''standalone''
          | Some (PList xs) \<Rightarrow> if PStr ''zkStatus'' \<in> set xs then Some ''cloud'' else None
          | Some (PStr s) \<Rightarrow> if contains_text s ''zkStatus'' then Some ''cloud'' else None
          | _ \<Rightarrow> None)))"

definition is_visible_target :: "string \<Rightarrow> bool" where
  "is_visible_target name = (name \<noteq> [] \<and> hd name \<noteq> CHR ''.'' \<and> name \<notin> set SOLR_SYSTEM_TARGETS)"

text \<open>\<open>str\<close>, the identity on a \<open>str\<close>.\<close>

definition str_of :: "cluster_env \<Rightarrow> pyval \<Rightarrow> string" where
  "str_of env v = (case v of PStr s \<Rightarrow> s | _ \<Rightarrow> ke_str env v)"

definition enumerate_targets :: "cluster_env \<Rightarrow> adapter \<Rightarrow> string \<Rightarrow> probe_error + string list" where
  "enumerate_targets env ad mode =
     (case solr_get env ad (if mode = ''cloud'' then ''/solr/admin/collections?action=LIST''
         else ''/solr/admin/cores?action=STATUS&indexInfo=false'') of
        Inl _ \<Rightarrow> Inl ProbeRaised
      | Inr (status, body) \<Rightarrow>
        (if status = 404 then Inr []
         else if 400 \<le> status then Inl ProbeUnreachable
         else (case body of
             Some (PDict d) \<Rightarrow>
               if mode = ''cloud'' then
                 (let collections = obj_get d ''collections''
                  in case collections of
                       PList cs \<Rightarrow> Inr (filter is_visible_target (map (str_of env) cs))
                     | PDict cs \<Rightarrow> Inr (filter is_visible_target (dict_keys cs))
                     | PStr cs \<Rightarrow> Inr (filter is_visible_target (map (\<lambda>c. [c]) cs))
                     | v \<Rightarrow> if truthy v then Inl ProbeRaised else Inr [])
               else (case block_of d ''status'' of
                   None \<Rightarrow> Inl ProbeRaised
                 | Some cores \<Rightarrow> Inr (map (\<lambda>(name, defn). case defn of
                       PDict c \<Rightarrow> if truthy (obj_get c ''name'') then str_of env (obj_get c ''name'') else name
                     | _ \<Rightarrow> name) (filter (\<lambda>(name, defn). is_visible_target name) cores)))
           | _ \<Rightarrow> Inl ProbeRaised)))"

text \<open>What follows is best effort: a failed request is an absent capability, only a body that is not what it
  should be raises, which is \<open>None\<close>. The body of a good answer, \<open>Some None\<close> without one:\<close>

definition best_effort :: "cluster_env \<Rightarrow> adapter \<Rightarrow> string \<Rightarrow> obj option option" where
  "best_effort env ad path = (case solr_get env ad path of
       Inl _ \<Rightarrow> Some None
     | Inr (status, body) \<Rightarrow>
       (if status \<noteq> 200 then Some None else (case body of Some (PDict d) \<Rightarrow> Some (Some d) | _ \<Rightarrow> None)))"

definition fetch_unique_key :: "cluster_env \<Rightarrow> adapter \<Rightarrow> string \<Rightarrow> string option option" where
  "fetch_unique_key env ad target =
     map_option (\<lambda>found. Option.bind found (\<lambda>body. nonempty_str (obj_get body ''uniqueKey'')))
       (best_effort env ad (''/solr/'' @ target @ ''/schema/uniquekey''))"

text \<open>\<open>body.get("config", {}).get(k) or {}\<close>\<close>

definition config_block :: "obj \<Rightarrow> string \<Rightarrow> pyval option" where
  "config_block body k = (case obj_get_default body ''config'' (PDict []) of
       PDict config \<Rightarrow> Some (if truthy (obj_get config k) then obj_get config k else PDict [])
     | _ \<Rightarrow> None)"

definition detect_ltr_module :: "cluster_env \<Rightarrow> adapter \<Rightarrow> obj \<Rightarrow> string list \<Rightarrow> bool option" where
  "detect_ltr_module env ad info_body targets = (case block_of info_body ''system'' of
       None \<Rightarrow> None
     | Some system_block \<Rightarrow>
       (if (case obj_get system_block ''modules'' of PList ms \<Rightarrow> PStr ''ltr'' \<in> set ms | _ \<Rightarrow> False) then Some True
        else (case targets of
            [] \<Rightarrow> Some False
          | t # _ \<Rightarrow> (case best_effort env ad (''/solr/'' @ t @ ''/config/queryParser'') of
              None \<Rightarrow> None
            | Some None \<Rightarrow> Some False
            | Some (Some body) \<Rightarrow> map_option (\<lambda>v. case v of PDict qparsers \<Rightarrow> ''ltr'' \<in> set (dict_keys qparsers) | _ \<Rightarrow> False)
                (config_block body ''queryParser'')))))"

definition fetch_ltr_models :: "cluster_env \<Rightarrow> adapter \<Rightarrow> string \<Rightarrow> string list option" where
  "fetch_ltr_models env ad target = (case best_effort env ad (''/solr/'' @ target @ ''/schema/model-store'') of
       None \<Rightarrow> None
     | Some None \<Rightarrow> Some []
     | Some (Some body) \<Rightarrow> (case obj_get body ''models'' of
         PList ms \<Rightarrow> Some (List.map_filter (\<lambda>m. case m of PDict d \<Rightarrow> nonempty_str (obj_get d ''name'') | _ \<Rightarrow> None) ms)
       | PDict _ \<Rightarrow> Some []
       | PStr _ \<Rightarrow> Some []
       | v \<Rightarrow> if truthy v then None else Some []))"

definition ascii_lower :: "char \<Rightarrow> char" where
  "ascii_lower c = (let k = of_char c :: nat in if 65 \<le> k \<and> k \<le> 90 then char_of (k + 32) else c)"

definition ends_with :: "string \<Rightarrow> string \<Rightarrow> bool" where
  "ends_with s p = (length p \<le> length s \<and> drop (length s - length p) s = p)"

definition is_ubi_component :: "pyval \<Rightarrow> bool" where
  "is_ubi_component defn = (case defn of
       PDict d \<Rightarrow> (case obj_get d ''class'' of PStr cls \<Rightarrow> ends_with (map ascii_lower cls) ''ubicomponent'' | _ \<Rightarrow> False)
     | _ \<Rightarrow> False)"

definition detect_ubi_component :: "cluster_env \<Rightarrow> adapter \<Rightarrow> string \<Rightarrow> bool option" where
  "detect_ubi_component env ad target = (case best_effort env ad (''/solr/'' @ target @ ''/config/searchComponent'') of
       None \<Rightarrow> None
     | Some None \<Rightarrow> Some False
     | Some (Some body) \<Rightarrow> map_option (\<lambda>v. case v of PDict components \<Rightarrow> list_ex is_ubi_component (dict_values components) | _ \<Rightarrow> False)
         (config_block body ''searchComponent''))"

fun unique_keys_of :: "cluster_env \<Rightarrow> adapter \<Rightarrow> string list \<Rightarrow> obj \<Rightarrow> obj option" where
  "unique_keys_of env ad [] found = Some found"
| "unique_keys_of env ad (t # ts) found = (case fetch_unique_key env ad t of
       None \<Rightarrow> None
     | Some None \<Rightarrow> unique_keys_of env ad ts found
     | Some (Some uk) \<Rightarrow> unique_keys_of env ad ts (dict_set t (PStr uk) found))"

definition probe_report :: "string \<Rightarrow> string \<Rightarrow> bool \<Rightarrow> bool \<Rightarrow> string list \<Rightarrow> obj \<Rightarrow> obj" where
  "probe_report version mode ubi ltr models unique_keys =
     [(''version'', PStr version), (''mode'', PStr mode), (''ubi_component_present'', PBool ubi),
      (''ltr_module_present'', PBool ltr), (''ltr_models'', PList (map PStr models)),
      (''unique_key_per_target'', PDict unique_keys)]"

text \<open>Steps 2 to 7, once the version is known.\<close>

definition probe_targets :: "cluster_env \<Rightarrow> adapter \<Rightarrow> obj \<Rightarrow> string \<Rightarrow> probe_error + obj" where
  "probe_targets env ad info_body version = (case detect_mode env ad of
       None \<Rightarrow> Inl ProbeRaised
     | Some mode \<Rightarrow> (case enumerate_targets env ad mode of
         Inl e \<Rightarrow> Inl e
       | Inr targets \<Rightarrow> (case (unique_keys_of env ad targets [], detect_ltr_module env ad info_body targets) of
           (Some unique_keys, Some ltr) \<Rightarrow>
             (case ((if ltr \<and> targets \<noteq> [] then fetch_ltr_models env ad (hd targets) else Some []),
                    (if targets \<noteq> [] then detect_ubi_component env ad (hd targets) else Some False)) of
                (Some models, Some ubi) \<Rightarrow> Inr (probe_report version mode ubi ltr models unique_keys)
              | _ \<Rightarrow> Inl ProbeRaised)
         | _ \<Rightarrow> Inl ProbeRaised)))"

definition probe_capabilities :: "cluster_env \<Rightarrow> adapter \<Rightarrow> probe_error + obj" where
  "probe_capabilities env ad = (case solr_get env ad ''/solr/admin/info/system'' of
       Inl _ \<Rightarrow> Inl ProbeRaised
     | Inr (status, body) \<Rightarrow>
       (if status \<noteq> 200 then Inl ProbeUnreachable
        else (case body of
            Some (PDict info_body) \<Rightarrow> (case extract_version info_body of
                None \<Rightarrow> Inl ProbeRaised
              | Some None \<Rightarrow> Inl ProbeUnreachable
              | Some (Some version) \<Rightarrow>
                  if meets_min_version version then probe_targets env ad info_body version else Inl ProbeUnreachable)
          | _ \<Rightarrow> Inl ProbeRaised)))"

text \<open>What a report says: a version the adapter supports, and unique keys of targets an operator may see.\<close>

lemma unique_keys_of_targets:
  "unique_keys_of env ad ts found = Some keys \<Longrightarrow> set (dict_keys keys) \<subseteq> set (dict_keys found) \<union> set ts"
proof (induction ts arbitrary: found)
  case (Cons t ts)
  show ?case
  proof (cases "fetch_unique_key env ad t")
    case (Some uk)
    then show ?thesis using Cons.prems Cons.IH [of found] Cons.IH [of "dict_set t (PStr (the uk)) found"]
      by (cases uk) (auto simp: dict_keys_def)
  qed (use Cons.prems in simp)
qed simp

lemma probe_report_supported:
  assumes "probe_capabilities env ad = Inr report"
  shows "\<exists>version keys. obj_get report ''version'' = PStr version \<and> meets_min_version version \<and>
    obj_get report ''unique_key_per_target'' = PDict keys"
  using assms by (auto simp: probe_capabilities_def probe_targets_def probe_report_def obj_get_def
      split: sum.splits prod.splits option.splits if_splits pyval.splits)

text \<open>Where the probe answers for a standalone server: a 200 with any body counts as a cloud.\<close>

lemma nonempty_status_is_cloud:
  assumes "solr_get env ad ''/solr/admin/zookeeper/status'' = Inr (200, Some (PDict [(''status'', PStr ''OK'')]))"
  shows "detect_mode env ad = Some ''cloud''"
  using assms by (simp add: detect_mode_def)

end
