(* ===== verification/Clusters.thy ===== *)
theory Clusters
  imports Adapters
begin

text \<open>
  The clusters an operator registers: the cache of health (\<open>backend/app/adapters/health_cache.py\<close>), the
  repository (\<open>backend/app/db/repo/cluster.py\<close>), the service (\<open>backend/app/services/cluster.py\<close>) and the
  codes its errors become (\<open>backend/app/api/v1/clusters.py\<close>). The store keeps, beside the table and the
  cache, the addresses that have been connected to; the probe of capabilities uses the connection of the
  health check before it. What another session commits while a registration waits is \<open>ke_meanwhile\<close>.
\<close>

section \<open>The store\<close>

record cluster_store =
  ct_rows :: "cluster_rec list"
  ct_cache :: "string \<rightharpoonup> health_status \<times> int"
  ct_contacts :: "string list"

datatype cluster_error =
    EngineTypeNotSupported
  | AuthKindNotSupported
  | ClusterUrlBlocked string
  | ClusterNameTaken
  | ClusterUnreachable
  | AdapterUnreachable
  | ClusterNotFound
  | ClusterRaised

text \<open>The probe of an adapter connects to its cluster.\<close>

definition health_check :: "cluster_env \<Rightarrow> string \<Rightarrow> adapter \<Rightarrow> cluster_store \<Rightarrow> health_status option \<times> cluster_store" where
  "health_check env base_url ad s =
     (if ad_engine_type ad = ''solr'' then solr_health_check env ad else elastic_health_check env ad,
      s\<lparr>ct_contacts := ct_contacts s @ [base_url]\<rparr>)"

section \<open>Cache and table\<close>

definition HEALTH_TTL_SECONDS :: int where "HEALTH_TTL_SECONDS = 30"

definition read_cached_health :: "cluster_env \<Rightarrow> string \<Rightarrow> cluster_store \<Rightarrow> health_status option" where
  "read_cached_health env i s =
     (if \<not> ke_cache_reads env then None
      else (case ct_cache s i of Some (h, expires) \<Rightarrow> if ke_now env < expires then Some h else None | None \<Rightarrow> None))"

definition write_cached_health :: "cluster_env \<Rightarrow> string \<Rightarrow> health_status \<Rightarrow> cluster_store \<Rightarrow> cluster_store" where
  "write_cached_health env i h s =
     (if ke_cache_writes env then s\<lparr>ct_cache := (ct_cache s)(i \<mapsto> (h, ke_now env + HEALTH_TTL_SECONDS))\<rparr> else s)"

definition get_cluster :: "cluster_rec list \<Rightarrow> string \<Rightarrow> cluster_rec option" where
  "get_cluster rows i = find (\<lambda>c. cc_id c = i \<and> cc_deleted_at c = None) rows"

definition get_any_cluster_by_name :: "cluster_rec list \<Rightarrow> string \<Rightarrow> cluster_rec option" where
  "get_any_cluster_by_name rows n = find (\<lambda>c. cc_name c = n) rows"

text \<open>\<open>None\<close> is the \<open>IntegrityError\<close> of a name or an id in use.\<close>

definition create_cluster :: "cluster_rec \<Rightarrow> cluster_rec list \<Rightarrow> cluster_rec list option" where
  "create_cluster c rows =
     (if cc_name c \<in> cc_name ` set rows \<or> cc_id c \<in> cc_id ` set rows then None else Some (rows @ [c]))"

definition update_cluster :: "string \<Rightarrow> (cluster_rec \<Rightarrow> cluster_rec) \<Rightarrow> cluster_rec list \<Rightarrow> cluster_rec list" where
  "update_cluster i f rows = map (\<lambda>c. if cc_id c = i then f c else c) rows"

text \<open>An attribute that is set to what was loaded is not written.\<close>

definition assigned :: "'v \<Rightarrow> 'v \<Rightarrow> 'v \<Rightarrow> 'v" where
  "assigned loaded new current = (if new = loaded then current else new)"

definition revive_cluster :: "cluster_rec \<Rightarrow> cluster_rec \<Rightarrow> cluster_rec list \<Rightarrow> cluster_rec list" where
  "revive_cluster loaded new rows = update_cluster (cc_id loaded) (\<lambda>c. c\<lparr>
       cc_engine_type := assigned (cc_engine_type loaded) (cc_engine_type new) (cc_engine_type c),
       cc_environment := assigned (cc_environment loaded) (cc_environment new) (cc_environment c),
       cc_base_url := assigned (cc_base_url loaded) (cc_base_url new) (cc_base_url c),
       cc_auth_kind := assigned (cc_auth_kind loaded) (cc_auth_kind new) (cc_auth_kind c),
       cc_credentials_ref := assigned (cc_credentials_ref loaded) (cc_credentials_ref new) (cc_credentials_ref c),
       cc_engine_config := assigned (cc_engine_config loaded) (cc_engine_config new) (cc_engine_config c),
       cc_notes := assigned (cc_notes loaded) (cc_notes new) (cc_notes c),
       cc_target_filter := assigned (cc_target_filter loaded) (cc_target_filter new) (cc_target_filter c),
       cc_deleted_at := assigned (cc_deleted_at loaded) None (cc_deleted_at c)\<rparr>) rows"

section \<open>The service\<close>

record cluster_request =
  cq_name :: string
  cq_engine_type :: string
  cq_environment :: string
  cq_base_url :: string
  cq_auth_kind :: string
  cq_credentials_ref :: string
  cq_engine_config :: "obj option"
  cq_notes :: "string option"
  cq_target_filter :: "string option"

text \<open>The checks registration and the connection test share.\<close>

definition validate_pairing :: "cluster_request \<Rightarrow> cluster_error option" where
  "validate_pairing q =
     (if cq_engine_type q \<notin> set SUPPORTED_ENGINE_TYPES then Some EngineTypeNotSupported
      else if cq_auth_kind q \<in> set RESERVED_AUTH_KINDS then Some AuthKindNotSupported
      else if cq_auth_kind q \<notin> set SUPPORTED_AUTH_KINDS then Some AuthKindNotSupported
      else if cq_auth_kind q \<notin> set (allowed_auth (cq_engine_type q)) then Some AuthKindNotSupported
      else None)"

text \<open>\<open>None\<close> lets the request through.\<close>

definition check_request :: "cluster_env \<Rightarrow> cluster_request \<Rightarrow> cluster_error option" where
  "check_request env q =
     (case validate_pairing q of
        Some e \<Rightarrow> Some e
      | None \<Rightarrow> (case assert_base_url_allowed (ke_policy env) (cq_base_url q) of
          Inl m \<Rightarrow> Some (ClusterUrlBlocked m) | Inr _ \<Rightarrow> None))"

fun service_error :: "build_error \<Rightarrow> cluster_error" where
  "service_error CredentialsMissing = ClusterUnreachable"
| "service_error BuildRaised = ClusterRaised"

definition build_for_request :: "cluster_env \<Rightarrow> cluster_request \<Rightarrow> build_error + adapter" where
  "build_for_request env q = build_adapter_from_args env (cq_engine_type q) (cq_base_url q) (cq_auth_kind q)
     (cq_credentials_ref q) (cq_engine_config q)"

text \<open>The major version of the engine fills an absent \<open>api_version\<close>; an empty object is stored as NULL.\<close>

definition config_with_version :: "obj \<Rightarrow> health_status \<Rightarrow> obj" where
  "config_with_version cfg h =
     (case hs_version h of
        Some v \<Rightarrow> if v = [] \<or> ''api_version'' \<in> set (dict_keys cfg) then cfg
          else dict_set ''api_version'' (PStr (hd (split_dots v))) cfg
      | None \<Rightarrow> cfg)"

definition config_or_null :: "obj \<Rightarrow> obj option" where
  "config_or_null cfg = (if cfg = [] then None else Some cfg)"

definition row_of_request :: "cluster_env \<Rightarrow> cluster_request \<Rightarrow> string \<Rightarrow> health_status \<Rightarrow> cluster_rec" where
  "row_of_request env q i h =
     \<lparr>cc_id = i, cc_name = cq_name q, cc_engine_type = cq_engine_type q, cc_environment = cq_environment q,
      cc_base_url = cq_base_url q, cc_auth_kind = cq_auth_kind q, cc_credentials_ref = cq_credentials_ref q,
      cc_engine_config = config_or_null (config_with_version (case cq_engine_config q of None \<Rightarrow> [] | Some c \<Rightarrow> c) h),
      cc_notes = cq_notes q, cc_target_filter = cq_target_filter q, cc_created_at = ke_now env, cc_deleted_at = None\<rparr>"

text \<open>The order of the checks is that of the code: pairing, address, name, credentials, health.\<close>

definition register_cluster ::
  "cluster_env \<Rightarrow> cluster_request \<Rightarrow> cluster_store \<Rightarrow> (cluster_error + string \<times> health_status) \<times> cluster_store" where
  "register_cluster env q s =
     (case check_request env q of
        Some e \<Rightarrow> (Inl e, s)
      | None \<Rightarrow>
        (let existing = get_any_cluster_by_name (ct_rows s) (cq_name q) in
         if (case existing of None \<Rightarrow> False | Some c \<Rightarrow> cc_deleted_at c = None) then (Inl ClusterNameTaken, s)
         else (let i = (case existing of None \<Rightarrow> ke_uuid env | Some c \<Rightarrow> cc_id c) in
           case build_for_request env q of
             Inl e \<Rightarrow> (Inl (service_error e), s)
           | Inr ad \<Rightarrow> (case health_check env (cq_base_url q) ad s of
               (None, s1) \<Rightarrow> (Inl ClusterRaised, s1)
             | (Some h, s1) \<Rightarrow>
               (if hs_status h = Unreachable then (Inl ClusterUnreachable, s1)
                else (let new = row_of_request env q i h; rows = ke_meanwhile env (ct_rows s1) in
                  case (case existing of Some c \<Rightarrow> Some (revive_cluster c new rows) | None \<Rightarrow> create_cluster new rows) of
                    None \<Rightarrow> (Inl ClusterRaised, s1\<lparr>ct_rows := rows\<rparr>)
                  | Some rows' \<Rightarrow> (Inr (i, h), write_cached_health env i h (s1\<lparr>ct_rows := rows'\<rparr>))))))))"

definition cluster_adapter :: "cluster_env \<Rightarrow> cluster_rec \<Rightarrow> cluster_error + adapter" where
  "cluster_adapter env c =
     (case assert_base_url_allowed (ke_policy env) (cc_base_url c) of
        Inl m \<Rightarrow> Inl (ClusterUrlBlocked m)
      | Inr _ \<Rightarrow> (case build_adapter env c of Inl e \<Rightarrow> Inl (service_error e) | Inr ad \<Rightarrow> Inr ad))"

fun probe_raised :: "probe_error \<Rightarrow> cluster_error" where
  "probe_raised ProbeUnreachable = AdapterUnreachable"
| "probe_raised ProbeRaised = ClusterRaised"

text \<open>The row is locked, so nothing else writes it while the probe runs.\<close>

definition reprobe_cluster ::
  "cluster_env \<Rightarrow> string \<Rightarrow> cluster_store \<Rightarrow> (cluster_error + cluster_rec) \<times> cluster_store" where
  "reprobe_cluster env i s =
     (case get_cluster (ct_rows s) i of
        None \<Rightarrow> (Inl ClusterNotFound, s)
      | Some c \<Rightarrow> (case cluster_adapter env c of
          Inl e \<Rightarrow> (Inl e, s)
        | Inr ad \<Rightarrow> (case health_check env (cc_base_url c) ad s of
            (None, s1) \<Rightarrow> (Inl ClusterRaised, s1)
          | (Some h, s1) \<Rightarrow>
            (if hs_status h = Unreachable then (Inl ClusterUnreachable, s1)
             else (let cfg = (case cc_engine_config c of None \<Rightarrow> [] | Some x \<Rightarrow> x) in
               case (if cc_engine_type c = ''solr'' then map_sum probe_raised (dict_update cfg) (probe_capabilities env ad)
                     else Inr (case hs_version h of
                         Some v \<Rightarrow> if v = [] then cfg else dict_set ''api_version'' (PStr (hd (split_dots v))) cfg
                       | None \<Rightarrow> cfg)) of
                 Inl e \<Rightarrow> (Inl e, s1)
               | Inr cfg' \<Rightarrow>
                 (Inr (c\<lparr>cc_engine_config := config_or_null cfg'\<rparr>),
                  write_cached_health env i h (s1\<lparr>ct_rows :=
                    update_cluster i (\<lambda>c. c\<lparr>cc_engine_config := config_or_null cfg'\<rparr>) (ct_rows s1)\<rparr>)))))))"

record connection_summary =
  cs_reachable :: bool
  cs_status :: health_state
  cs_version :: "string option"
  cs_capabilities :: "obj option"
  cs_error :: "string option"

definition connection_test ::
  "cluster_env \<Rightarrow> cluster_request \<Rightarrow> cluster_store \<Rightarrow> (cluster_error + connection_summary) \<times> cluster_store" where
  "connection_test env q s = (case check_request env q of
       Some e \<Rightarrow> (Inl e, s)
     | None \<Rightarrow> (case build_for_request env q of
       Inl e \<Rightarrow> (Inl (service_error e), s)
     | Inr ad \<Rightarrow> (case health_check env (cq_base_url q) ad s of
         (None, s1) \<Rightarrow> (Inl ClusterRaised, s1)
       | (Some h, s1) \<Rightarrow>
         (let reachable = (hs_status h = Green \<or> hs_status h = Yellow);
              summary = (\<lambda>capabilities. \<lparr>cs_reachable = reachable, cs_status = hs_status h, cs_version = hs_version h,
                cs_capabilities = capabilities, cs_error = hs_error h\<rparr>)
          in (if reachable \<and> cq_engine_type q = ''solr'' then
                (case probe_capabilities env ad of
                   Inr report \<Rightarrow> Inr (summary (Some report))
                 | Inl ProbeUnreachable \<Rightarrow> Inr (summary None)
                 | Inl ProbeRaised \<Rightarrow> Inl ClusterRaised)
              else Inr (summary None), s1)))))"

definition get_or_probe_health ::
  "cluster_env \<Rightarrow> cluster_rec \<Rightarrow> cluster_store \<Rightarrow> health_status option \<times> cluster_store" where
  "get_or_probe_health env c s = (case read_cached_health env (cc_id c) s of
       Some h \<Rightarrow> (Some h, s)
     | None \<Rightarrow>
       (let failed = (\<lambda>m. (Some (unreachable (ke_now env) None m),
              write_cached_health env (cc_id c) (unreachable (ke_now env) None m) s)) in
        case cluster_adapter env c of
          Inl (ClusterUrlBlocked _) \<Rightarrow> failed ''cluster base_url blocked by SSRF policy''
        | Inl ClusterUnreachable \<Rightarrow> failed ''credentials resolution failed''
        | Inl _ \<Rightarrow> (None, s)
        | Inr ad \<Rightarrow> (case health_check env (cc_base_url c) ad s of
            (None, s1) \<Rightarrow> (None, s1)
          | (Some h, s1) \<Rightarrow> (Some h, write_cached_health env (cc_id c) h s1))))"

definition soft_delete_cluster :: "cluster_env \<Rightarrow> string \<Rightarrow> cluster_store \<Rightarrow> bool \<times> cluster_store" where
  "soft_delete_cluster env i s = (case get_cluster (ct_rows s) i of
       None \<Rightarrow> (False, s)
     | Some _ \<Rightarrow> (True, s\<lparr>ct_rows := update_cluster i (\<lambda>c. c\<lparr>cc_deleted_at := Some (ke_now env)\<rparr>) (ct_rows s)\<rparr>))"

section \<open>The endpoints\<close>

text \<open>The status and code of an error; an exception the endpoint does not name is a 500.\<close>

fun create_code :: "cluster_error \<Rightarrow> nat \<times> string" where
  "create_code EngineTypeNotSupported = (400, ''ENGINE_NOT_SUPPORTED'')"
| "create_code AuthKindNotSupported = (400, ''AUTH_KIND_NOT_SUPPORTED'')"
| "create_code (ClusterUrlBlocked _) = (400, ''CLUSTER_URL_BLOCKED'')"
| "create_code ClusterNameTaken = (409, ''CLUSTER_NAME_TAKEN'')"
| "create_code ClusterUnreachable = (503, ''CLUSTER_UNREACHABLE'')"
| "create_code _ = (500, [])"

fun test_code :: "cluster_error \<Rightarrow> nat \<times> string" where
  "test_code EngineTypeNotSupported = (400, ''ENGINE_NOT_SUPPORTED'')"
| "test_code AuthKindNotSupported = (400, ''AUTH_KIND_NOT_SUPPORTED'')"
| "test_code (ClusterUrlBlocked _) = (400, ''CLUSTER_URL_BLOCKED'')"
| "test_code ClusterUnreachable = (400, ''CREDENTIALS_INVALID'')"
| "test_code _ = (500, [])"

fun reprobe_code :: "cluster_error \<Rightarrow> nat \<times> string" where
  "reprobe_code ClusterNotFound = (404, ''CLUSTER_NOT_FOUND'')"
| "reprobe_code ClusterUnreachable = (503, ''CLUSTER_UNREACHABLE'')"
| "reprobe_code _ = (500, [])"

section \<open>Any sequence of operations\<close>

datatype cluster_op =
    Register cluster_env cluster_request
  | Reprobe cluster_env string
  | TestConnection cluster_env cluster_request
  | ProbeHealth cluster_env cluster_rec
  | SoftDelete cluster_env string

fun op_env :: "cluster_op \<Rightarrow> cluster_env" where
  "op_env (Register env _) = env"
| "op_env (Reprobe env _) = env"
| "op_env (TestConnection env _) = env"
| "op_env (ProbeHealth env _) = env"
| "op_env (SoftDelete env _) = env"

fun cluster_step :: "cluster_op \<Rightarrow> cluster_store \<Rightarrow> cluster_store" where
  "cluster_step (Register env q) s = snd (register_cluster env q s)"
| "cluster_step (Reprobe env i) s = snd (reprobe_cluster env i s)"
| "cluster_step (TestConnection env q) s = snd (connection_test env q s)"
| "cluster_step (ProbeHealth env c) s = snd (get_or_probe_health env c s)"
| "cluster_step (SoftDelete env i) s = snd (soft_delete_cluster env i s)"

section \<open>Where an operation connects\<close>

definition connects :: "cluster_env \<Rightarrow> cluster_store \<Rightarrow> cluster_store \<Rightarrow> bool" where
  "connects env s s' = (ct_contacts s' = ct_contacts s \<or>
     (\<exists>url. ct_contacts s' = ct_contacts s @ [url] \<and> assert_base_url_allowed (ke_policy env) url = Inr ()))"

lemma write_cached_frame [simp, frame_simps]:
  "ct_contacts (write_cached_health env i h s) = ct_contacts s"
  "ct_rows (write_cached_health env i h s) = ct_rows s"
  by (simp_all add: write_cached_health_def)

lemma health_check_frame:
  "health_check env url ad s = (r, s') \<Longrightarrow> ct_contacts s' = ct_contacts s @ [url] \<and> ct_rows s' = ct_rows s"
  by (auto simp: health_check_def)

lemma check_request_allowed: "check_request env q = None \<Longrightarrow> assert_base_url_allowed (ke_policy env) (cq_base_url q) = Inr ()"
  by (auto simp: check_request_def split: option.splits sum.splits)

lemma cluster_adapter_allowed: "cluster_adapter env c = Inr ad \<Longrightarrow> assert_base_url_allowed (ke_policy env) (cc_base_url c) = Inr ()"
  by (auto simp: cluster_adapter_def split: sum.splits)

lemma step_connects: "connects (op_env op) s (cluster_step op s)"
proof (cases op)
  case (Register env q)
  then show ?thesis
    by (auto simp: connects_def register_cluster_def Let_def dest!: health_check_frame check_request_allowed
        split: option.splits sum.splits prod.splits if_splits)
next
  case (Reprobe env i)
  then show ?thesis
    by (auto simp: connects_def reprobe_cluster_def Let_def dest!: health_check_frame cluster_adapter_allowed
        split: option.splits sum.splits prod.splits if_splits)
next
  case (TestConnection env q)
  then show ?thesis
    by (auto simp: connects_def connection_test_def Let_def dest!: health_check_frame check_request_allowed
        split: option.splits sum.splits prod.splits if_splits)
next
  case (ProbeHealth env c)
  then show ?thesis
    by (auto simp: connects_def get_or_probe_health_def Let_def dest!: health_check_frame cluster_adapter_allowed
        split: option.splits sum.splits prod.splits cluster_error.splits)
next
  case (SoftDelete env i)
  then show ?thesis by (auto simp: connects_def soft_delete_cluster_def split: option.splits)
qed

lemma steps_connect:
  "\<exists>urls. ct_contacts (fold cluster_step ops s) = ct_contacts s @ urls \<and>
     (\<forall>url\<in>set urls. \<exists>op\<in>set ops. assert_base_url_allowed (ke_policy (op_env op)) url = Inr ())"
proof (induction ops arbitrary: s)
  case (Cons op ops)
  obtain us where us: "ct_contacts (cluster_step op s) = ct_contacts s @ us"
    "\<forall>url\<in>set us. assert_base_url_allowed (ke_policy (op_env op)) url = Inr ()"
    using step_connects [of op s] unfolding connects_def by (metis append_Nil2 empty_iff empty_set set_ConsD)
  obtain vs where "ct_contacts (fold cluster_step ops (cluster_step op s)) = ct_contacts (cluster_step op s) @ vs"
    "\<forall>url\<in>set vs. \<exists>op\<in>set ops. assert_base_url_allowed (ke_policy (op_env op)) url = Inr ()"
    using Cons.IH by blast
  with us show ?case by (intro exI [of _ "us @ vs"]) auto
qed simp

section \<open>The registry\<close>

text \<open>Ids and names are unique, deleted rows included, and every row pairs its engine with a kind of credentials made for it.\<close>

definition registry_ok :: "cluster_rec list \<Rightarrow> bool" where
  "registry_ok rows = (distinct (map cc_id rows) \<and> distinct (map cc_name rows) \<and>
     list_all (\<lambda>c. cc_auth_kind c \<in> set (allowed_auth (cc_engine_type c))) rows)"

text \<open>Other sessions add rows and leave those there are.\<close>

definition adds_rows :: "(cluster_rec list \<Rightarrow> cluster_rec list) \<Rightarrow> bool" where
  "adds_rows f = (\<forall>rows. registry_ok rows \<longrightarrow> registry_ok (f rows) \<and> set rows \<subseteq> set (f rows))"

lemma registry_update:
  assumes "registry_ok rows" and f: "\<And>c. c \<in> set rows \<Longrightarrow> cc_id c = i \<Longrightarrow> cc_id (f c) = i \<and> cc_name (f c) = cc_name c \<and>
    cc_auth_kind (f c) \<in> set (allowed_auth (cc_engine_type (f c)))"
  shows "registry_ok (update_cluster i f rows)"
proof -
  have "map cc_id (update_cluster i f rows) = map cc_id rows" "map cc_name (update_cluster i f rows) = map cc_name rows"
    using f by (simp_all add: update_cluster_def)
  moreover have "list_all (\<lambda>c. cc_auth_kind c \<in> set (allowed_auth (cc_engine_type c))) (update_cluster i f rows)"
    using assms by (auto simp: registry_ok_def update_cluster_def list_all_iff)
  ultimately show ?thesis using assms(1) unfolding registry_ok_def by simp
qed

lemma registry_create: "registry_ok rows \<Longrightarrow> create_cluster c rows = Some rows' \<Longrightarrow>
    cc_auth_kind c \<in> set (allowed_auth (cc_engine_type c)) \<Longrightarrow> registry_ok rows'"
  by (auto simp: registry_ok_def create_cluster_def split: if_splits)

lemma same_id: "registry_ok rows \<Longrightarrow> c \<in> set rows \<Longrightarrow> c' \<in> set rows \<Longrightarrow> cc_id c = cc_id c' \<Longrightarrow> c = c'"
  by (auto simp: registry_ok_def distinct_map inj_on_def)

lemma valid_pairing: "check_request env q = None \<Longrightarrow> cq_auth_kind q \<in> set (allowed_auth (cq_engine_type q))"
  by (auto simp: check_request_def validate_pairing_def split: option.splits sum.splits if_splits)

text \<open>The row a registration leaves, when no other session has touched the deleted row it revives.\<close>

definition revived :: "cluster_rec \<Rightarrow> cluster_rec \<Rightarrow> cluster_rec" where
  "revived c new = new\<lparr>cc_id := cc_id c, cc_name := cc_name c, cc_created_at := cc_created_at c\<rparr>"

lemma assigned_self [simp]: "assigned x y x = y"
  by (simp add: assigned_def)

lemma revive_rows:
  assumes "registry_ok rows" and "c \<in> set rows" and "cc_deleted_at new = None"
  shows "revive_cluster c new rows = map (\<lambda>x. if x = c then revived c new else x) rows"
  unfolding revive_cluster_def update_cluster_def
proof (rule map_cong [OF refl])
  fix x
  assume "x \<in> set rows"
  then have x: "cc_id x = cc_id c \<longleftrightarrow> x = c" using same_id [OF assms(1) _ assms(2)] by auto
  show "(if cc_id x = cc_id c then x\<lparr>
       cc_engine_type := assigned (cc_engine_type c) (cc_engine_type new) (cc_engine_type x),
       cc_environment := assigned (cc_environment c) (cc_environment new) (cc_environment x),
       cc_base_url := assigned (cc_base_url c) (cc_base_url new) (cc_base_url x),
       cc_auth_kind := assigned (cc_auth_kind c) (cc_auth_kind new) (cc_auth_kind x),
       cc_credentials_ref := assigned (cc_credentials_ref c) (cc_credentials_ref new) (cc_credentials_ref x),
       cc_engine_config := assigned (cc_engine_config c) (cc_engine_config new) (cc_engine_config x),
       cc_notes := assigned (cc_notes c) (cc_notes new) (cc_notes x),
       cc_target_filter := assigned (cc_target_filter c) (cc_target_filter new) (cc_target_filter x),
       cc_deleted_at := assigned (cc_deleted_at c) None (cc_deleted_at x)\<rparr> else x) = (if x = c then revived c new else x)"
  proof (cases "x = c")
    case True
    then show ?thesis using assms(3) by (intro cluster_rec.equality) (simp_all add: revived_def)
  qed (simp add: x)
qed

lemma get_any_in: "get_any_cluster_by_name rows n = Some c \<Longrightarrow> c \<in> set rows \<and> cc_name c = n"
  by (auto simp: get_any_cluster_by_name_def dest: find_Some_in)

lemma register_cases:
  assumes "register_cluster env q s = (Inr (i, h), s')"
  obtains ad s1 where "check_request env q = None" "build_for_request env q = Inr ad"
    "health_check env (cq_base_url q) ad s = (Some h, s1)" "hs_status h \<noteq> Unreachable"
    "(\<exists>c. get_any_cluster_by_name (ct_rows s) (cq_name q) = Some c \<and> cc_deleted_at c \<noteq> None \<and> i = cc_id c \<and>
        ct_rows s' = revive_cluster c (row_of_request env q i h) (ke_meanwhile env (ct_rows s))) \<or>
     get_any_cluster_by_name (ct_rows s) (cq_name q) = None \<and> i = ke_uuid env \<and>
        create_cluster (row_of_request env q i h) (ke_meanwhile env (ct_rows s)) = Some (ct_rows s')"
proof -
  have chk: "check_request env q = None" using assms by (cases "check_request env q") (auto simp: register_cluster_def)
  obtain ad where ad: "build_for_request env q = Inr ad"
    using assms chk by (cases "build_for_request env q") (auto simp: register_cluster_def Let_def split: if_splits)
  obtain r s1 where hc: "health_check env (cq_base_url q) ad s = (r, s1)" by (cases "health_check env (cq_base_url q) ad s")
  then have rows: "ct_rows s1 = ct_rows s" using health_check_frame by blast
  obtain h' where r: "r = Some h'" using assms chk ad hc by (cases r) (auto simp: register_cluster_def Let_def split: if_splits)
  have free: "\<not> (case get_any_cluster_by_name (ct_rows s) (cq_name q) of None \<Rightarrow> False | Some c \<Rightarrow> cc_deleted_at c = None)"
    using assms chk by (auto simp: register_cluster_def Let_def split: if_splits)
  have up: "hs_status h' \<noteq> Unreachable"
    using assms chk ad hc r free by (auto simp: register_cluster_def Let_def split: if_splits)
  show thesis
  proof (cases "get_any_cluster_by_name (ct_rows s) (cq_name q)")
    case None
    then show thesis using assms chk ad hc r up rows that by (auto simp: register_cluster_def Let_def split: option.splits)
  next
    case (Some c)
    then show thesis using assms chk ad hc r up rows free that by (auto simp: register_cluster_def Let_def)
  qed
qed

lemma row_of_request_fields [simp]:
  "cc_deleted_at (row_of_request env q i h) = None" "cc_name (row_of_request env q i h) = cq_name q"
  "cc_id (row_of_request env q i h) = i" "cc_auth_kind (row_of_request env q i h) = cq_auth_kind q"
  "cc_engine_type (row_of_request env q i h) = cq_engine_type q"
  by (simp_all add: row_of_request_def)

text \<open>The two ways to register: in place of the deleted row of that name, or as a new row.\<close>

lemma registered_rows:
  assumes run: "register_cluster env q s = (Inr (i, h), s')" and ok: "registry_ok (ct_rows s)" and adds: "adds_rows (ke_meanwhile env)"
  defines "rows \<equiv> ke_meanwhile env (ct_rows s)" and "new \<equiv> row_of_request env q i h"
  shows "(\<exists>c\<in>set rows. cc_name c = cq_name q \<and> cc_id c = i \<and> cc_deleted_at c \<noteq> None \<and>
       ct_rows s' = update_cluster i (\<lambda>x. revived c new) rows) \<or>
    cq_name q \<notin> cc_name ` set rows \<and> i \<notin> cc_id ` set rows \<and> ct_rows s' = rows @ [new]"
proof -
  have r: "registry_ok rows" "set (ct_rows s) \<subseteq> set rows" using ok adds by (auto simp: adds_rows_def rows_def)
  from run show ?thesis
  proof (rule register_cases)
    assume "(\<exists>c. get_any_cluster_by_name (ct_rows s) (cq_name q) = Some c \<and> cc_deleted_at c \<noteq> None \<and> i = cc_id c \<and>
        ct_rows s' = revive_cluster c (row_of_request env q i h) (ke_meanwhile env (ct_rows s))) \<or>
      get_any_cluster_by_name (ct_rows s) (cq_name q) = None \<and> i = ke_uuid env \<and>
        create_cluster (row_of_request env q i h) (ke_meanwhile env (ct_rows s)) = Some (ct_rows s')"
    then consider c where "c \<in> set rows" "cc_name c = cq_name q" "cc_deleted_at c \<noteq> None" "i = cc_id c" "ct_rows s' = revive_cluster c new rows"
      | "create_cluster new rows = Some (ct_rows s')"
      using get_any_in r(2) unfolding rows_def [symmetric] new_def [symmetric] by blast
    then show ?thesis
    proof cases
      case 1
      have del: "cc_deleted_at new = None" by (simp add: new_def)
      have "map (\<lambda>x. if x = c then revived c new else x) rows = map (\<lambda>x. if cc_id x = i then revived c new else x) rows"
      proof (rule map_cong [OF refl])
        fix x
        assume "x \<in> set rows"
        then have "x = c \<longleftrightarrow> cc_id x = i" using same_id [OF r(1) _ 1(1), of x] 1(4) by blast
        then show "(if x = c then revived c new else x) = (if cc_id x = i then revived c new else x)" by simp
      qed
      then have "ct_rows s' = update_cluster i (\<lambda>x. revived c new) rows"
        unfolding 1(5) revive_rows [OF r(1) 1(1) del] update_cluster_def .
      then show ?thesis using 1(2,3,4) by (intro disjI1 bexI [OF _ 1(1)]) (simp only: simp_thms)
    next
      case 2
      then show ?thesis by (auto simp: create_cluster_def new_def split: if_splits)
    qed
  qed
qed

lemma register_registry:
  assumes run: "register_cluster env q s = (r, s')" and ok: "registry_ok (ct_rows s)" and adds: "adds_rows (ke_meanwhile env)"
  shows "registry_ok (ct_rows s')"
proof (cases r)
  case (Inl e)
  then have "ct_rows s' = ct_rows s \<or> ct_rows s' = ke_meanwhile env (ct_rows s)"
    using run by (auto simp: register_cluster_def Let_def dest!: health_check_frame split: option.splits sum.splits prod.splits if_splits)
  then show ?thesis using ok adds by (auto simp: adds_rows_def)
next
  case (Inr ih)
  obtain i h where ih: "r = Inr (i, h)" using Inr by (cases ih) auto
  have pair: "cq_auth_kind q \<in> set (allowed_auth (cq_engine_type q))"
    using run [unfolded ih] by (elim register_cases) (rule valid_pairing)
  have rows: "registry_ok (ke_meanwhile env (ct_rows s))" using ok adds by (simp add: adds_rows_def)
  from registered_rows [OF run [unfolded ih] ok adds] show ?thesis
  proof (elim disjE bexE conjE)
    fix c
    assume c: "c \<in> set (ke_meanwhile env (ct_rows s))" "cc_id c = i" "cc_name c = cq_name q"
      "ct_rows s' = update_cluster i (\<lambda>x. revived c (row_of_request env q i h)) (ke_meanwhile env (ct_rows s))"
    show ?thesis unfolding c(4)
      using same_id [OF rows _ c(1)] pair c(2) by (intro registry_update [OF rows]) (auto simp: revived_def)
  next
    assume "cq_name q \<notin> cc_name ` set (ke_meanwhile env (ct_rows s))" "i \<notin> cc_id ` set (ke_meanwhile env (ct_rows s))"
      "ct_rows s' = ke_meanwhile env (ct_rows s) @ [row_of_request env q i h]"
    then show ?thesis using rows pair by (simp add: registry_ok_def)
  qed
qed

lemma reprobe_rows:
  "\<exists>f. (\<forall>c. cc_id (f c) = cc_id c \<and> cc_name (f c) = cc_name c \<and> cc_auth_kind (f c) = cc_auth_kind c \<and> cc_engine_type (f c) = cc_engine_type c) \<and>
    ct_rows (snd (reprobe_cluster env i s)) = update_cluster i f (ct_rows s)"
proof (cases "ct_rows (snd (reprobe_cluster env i s)) = ct_rows s")
  case True
  then show ?thesis by (intro exI [of _ "\<lambda>c. c"]) (simp add: update_cluster_def)
next
  case False
  then obtain cfg where "ct_rows (snd (reprobe_cluster env i s)) = update_cluster i (\<lambda>c. c\<lparr>cc_engine_config := cfg\<rparr>) (ct_rows s)"
    by (auto simp: reprobe_cluster_def Let_def dest!: health_check_frame split: option.splits sum.splits prod.splits if_splits)
  then show ?thesis by (intro exI [of _ "\<lambda>c. c\<lparr>cc_engine_config := cfg\<rparr>"]) simp
qed

lemma step_registry:
  assumes "registry_ok (ct_rows s)" and "adds_rows (ke_meanwhile (op_env op))"
  shows "registry_ok (ct_rows (cluster_step op s))"
proof (cases op)
  case (Register env q)
  then show ?thesis using register_registry [OF _ assms(1)] assms(2) by (cases "register_cluster env q s") auto
next
  case (Reprobe env i)
  obtain f where "\<forall>c. cc_id (f c) = cc_id c \<and> cc_name (f c) = cc_name c \<and> cc_auth_kind (f c) = cc_auth_kind c \<and> cc_engine_type (f c) = cc_engine_type c"
    "ct_rows (cluster_step op s) = update_cluster i f (ct_rows s)"
    using reprobe_rows [of env i s] Reprobe by auto
  then show ?thesis using assms(1) registry_update [OF assms(1), of i f] by (auto simp: registry_ok_def list_all_iff)
next
  case (TestConnection env q)
  then show ?thesis using assms(1)
    by (auto simp: connection_test_def Let_def dest!: health_check_frame split: option.splits sum.splits prod.splits)
next
  case (ProbeHealth env c)
  then show ?thesis using assms(1)
    by (auto simp: get_or_probe_health_def Let_def dest!: health_check_frame split: option.splits sum.splits prod.splits cluster_error.splits)
next
  case (SoftDelete env i)
  have "registry_ok (update_cluster i (\<lambda>c. c\<lparr>cc_deleted_at := Some (ke_now env)\<rparr>) (ct_rows s))"
    using assms(1) by (intro registry_update [OF assms(1)]) (simp add: registry_ok_def list_all_iff)
  then show ?thesis using assms(1) SoftDelete by (simp add: soft_delete_cluster_def split: option.splits)
qed

lemma registered_lookup:
  assumes "(\<exists>c\<in>set rows. cc_name c = cq_name q \<and> cc_id c = i \<and> cc_deleted_at c \<noteq> None \<and>
       rows' = update_cluster i (\<lambda>x. revived c (row_of_request env q i h)) rows) \<or>
    cq_name q \<notin> cc_name ` set rows \<and> i \<notin> cc_id ` set rows \<and> rows' = rows @ [row_of_request env q i h]"
  shows "\<exists>c. get_cluster rows' i = Some c \<and> cc_name c = cq_name q \<and> cc_engine_type c = cq_engine_type q \<and>
    cc_base_url c = cq_base_url q \<and> cc_auth_kind c = cq_auth_kind q \<and> cc_credentials_ref c = cq_credentials_ref q \<and>
    cc_target_filter c = cq_target_filter q"
  using assms
proof (elim disjE bexE conjE)
  fix c
  assume c: "c \<in> set rows" "cc_name c = cq_name q" "cc_id c = i"
    "rows' = update_cluster i (\<lambda>x. revived c (row_of_request env q i h)) rows"
  have "get_cluster rows' i = Some (revived c (row_of_request env q i h))"
    unfolding c(4) get_cluster_def update_cluster_def using c(1,3)
    by (induction rows) (auto simp: revived_def)
  then show ?thesis using c(2) by (simp add: revived_def row_of_request_def)
next
  assume c: "i \<notin> cc_id ` set rows" "rows' = rows @ [row_of_request env q i h]"
  have "get_cluster rows' i = Some (row_of_request env q i h)"
    unfolding c(2) get_cluster_def using c(1) by (induction rows) auto
  then show ?thesis by (simp add: row_of_request_def)
qed

lemma register_names:
  assumes "register_cluster env q s = (Inr (i, h), s')" and "registry_ok (ct_rows s)" and "c \<in> set (ct_rows s)" and "cc_name c = cq_name q"
  shows "cc_deleted_at c \<noteq> None \<and> cc_id c = i"
proof -
  have "get_any_cluster_by_name (ct_rows s) (cq_name q) = Some c"
  proof -
    obtain c' where c': "get_any_cluster_by_name (ct_rows s) (cq_name q) = Some c'"
      using assms(3,4) by (fastforce simp: get_any_cluster_by_name_def find_None_iff dest: not_None_eq [THEN iffD1])
    then have "c' = c" using get_any_in [OF c'] assms(2,3,4) by (auto simp: registry_ok_def distinct_map inj_on_def)
    with c' show ?thesis by simp
  qed
  with assms(1) show ?thesis by (elim register_cases) auto
qed

lemma register_caches:
  "register_cluster env q s = (Inr (i, h), s') \<Longrightarrow> ke_cache_writes env \<Longrightarrow> ct_cache s' i = Some (h, ke_now env + HEALTH_TTL_SECONDS)"
  by (auto simp: register_cluster_def Let_def write_cached_health_def split: option.splits sum.splits prod.splits if_splits)

section \<open>Instances\<close>

definition demo_cluster_env :: cluster_env where
  "demo_cluster_env =
     \<lparr>ke_policy = demo_url_env,
      ke_credentials = Some (PDict [(''prod'', PDict [(''api_key'', PStr ''k'')])]),
      ke_b64 = (\<lambda>x. x), ke_str = (\<lambda>_. ''k''),
      ke_send = (\<lambda>_ path _. if path = ''/'' then EngineResponse 200 (Some (PDict [(''version'', PDict [(''number'', PStr ''8.15.0'')])]))
         else EngineResponse 200 (Some (PDict [(''status'', PStr ''green'')]))),
      ke_now = 100, ke_uuid = ''c1'',
      ke_cache_reads = True, ke_cache_writes = True, ke_meanwhile = (\<lambda>rows. rows)\<rparr>"

definition demo_cluster_request :: cluster_request where
  "demo_cluster_request =
     \<lparr>cq_name = ''shop'', cq_engine_type = ''elasticsearch'', cq_environment = ''prod'', cq_base_url = ''dns'',
      cq_auth_kind = ''es_apikey'', cq_credentials_ref = ''prod'', cq_engine_config = None, cq_notes = None, cq_target_filter = None\<rparr>"

definition no_clusters :: cluster_store where
  "no_clusters = \<lparr>ct_rows = [], ct_cache = (\<lambda>_. None), ct_contacts = []\<rparr>"

lemma demo_request_checked: "check_request demo_cluster_env demo_cluster_request = None"
  using demo_url_allowed
  by (simp add: check_request_def validate_pairing_def demo_cluster_request_def demo_cluster_env_def SUPPORTED_ENGINE_TYPES_def
      RESERVED_AUTH_KINDS_def SUPPORTED_AUTH_KINDS_def allowed_auth_def ALLOWED_AUTH_PER_ENGINE_def)

lemma demo_adapter: "build_for_request demo_cluster_env demo_cluster_request =
    Inr \<lparr>ad_engine_type = ''elasticsearch'', ad_base_url = ''dns'', ad_auth_headers = [(''Authorization'', ''ApiKey k'')], ad_engine_config = []\<rparr>"
  by (simp add: build_for_request_def build_adapter_from_args_def demo_cluster_env_def demo_cluster_request_def resolve_credentials_def
      SUPPORTED_ENGINE_TYPES_def RESERVED_AUTH_KINDS_def SUPPORTED_AUTH_KINDS_def required_fields_def elastic_headers_def
      dict_keys_def rstrip_slash_def)

definition demo_health :: health_status where
  "demo_health = \<lparr>hs_status = Green, hs_version = Some ''8.15.0'', hs_checked_at = 100, hs_error = None\<rparr>"

lemma demo_not_old: "\<not> too_old ''elasticsearch'' ''8.15.0''"
  by code_simp

lemma demo_probe: "ad_engine_type ad = ''elasticsearch'' \<Longrightarrow> elastic_health_check demo_cluster_env ad = Some demo_health"
  using demo_not_old
  by (simp add: elastic_health_check_def version_check_def request_with_retry_def demo_cluster_env_def version_number_def
      obj_get_default_def obj_get_def cluster_state_def demo_health_def)

lemma demo_registered: "\<exists>s'. register_cluster demo_cluster_env demo_cluster_request no_clusters = (Inr (''c1'', demo_health), s')"
proof -
  have env: "ke_uuid demo_cluster_env = ''c1''" "ke_meanwhile demo_cluster_env rows = rows" for rows
    by (simp_all add: demo_cluster_env_def)
  have "hs_status demo_health \<noteq> Unreachable" by (simp add: demo_health_def)
  then show ?thesis
    by (simp add: register_cluster_def demo_request_checked demo_adapter get_any_cluster_by_name_def no_clusters_def
        health_check_def demo_probe env create_cluster_def Let_def)
qed

lemma demo_meanwhile: "adds_rows (ke_meanwhile demo_cluster_env)" "registry_ok (ct_rows no_clusters)"
  by (simp_all add: adds_rows_def demo_cluster_env_def registry_ok_def no_clusters_def)

section \<open>Properties\<close>





text \<open>C29 A registration that succeeds took a name no live cluster had, found the engine reachable and leaves
  exactly the requested cluster to be looked up under the returned id, with its health in the cache.
  A deleted cluster of that name comes back under its old id.\<close>

theorem registration_stores:
  assumes "register_cluster env q s = (Inr (i, h), s')" and "registry_ok (ct_rows s)" and "adds_rows (ke_meanwhile env)"
  shows "(\<forall>c\<in>set (ct_rows s). cc_name c = cq_name q \<longrightarrow> cc_deleted_at c \<noteq> None \<and> cc_id c = i) \<and>
    hs_status h \<noteq> Unreachable \<and>
    (\<exists>c. get_cluster (ct_rows s') i = Some c \<and> cc_name c = cq_name q \<and> cc_engine_type c = cq_engine_type q \<and>
       cc_base_url c = cq_base_url q \<and> cc_auth_kind c = cq_auth_kind q \<and> cc_credentials_ref c = cq_credentials_ref q \<and>
       cc_target_filter c = cq_target_filter q) \<and>
    (ke_cache_writes env \<longrightarrow> ct_cache s' i = Some (h, ke_now env + HEALTH_TTL_SECONDS))"
proof (intro conjI)
  show "\<forall>c\<in>set (ct_rows s). cc_name c = cq_name q \<longrightarrow> cc_deleted_at c \<noteq> None \<and> cc_id c = i"
    using register_names [OF assms(1,2)] by blast
  show "hs_status h \<noteq> Unreachable" using assms(1) by (rule register_cases)
  show "\<exists>c. get_cluster (ct_rows s') i = Some c \<and> cc_name c = cq_name q \<and> cc_engine_type c = cq_engine_type q \<and>
       cc_base_url c = cq_base_url q \<and> cc_auth_kind c = cq_auth_kind q \<and> cc_credentials_ref c = cq_credentials_ref q \<and>
       cc_target_filter c = cq_target_filter q"
    using registered_rows [OF assms] by (rule registered_lookup)
  show "ke_cache_writes env \<longrightarrow> ct_cache s' i = Some (h, ke_now env + HEALTH_TTL_SECONDS)"
    using register_caches [OF assms(1)] by simp
qed

text \<open>The first cluster of an empty registry.\<close>

theorem registration_stores_witness:
  "\<exists>s' c. register_cluster demo_cluster_env demo_cluster_request no_clusters = (Inr (''c1'', demo_health), s') \<and>
     get_cluster (ct_rows s') ''c1'' = Some c \<and> cc_base_url c = ''dns''"
proof -
  obtain s' where run: "register_cluster demo_cluster_env demo_cluster_request no_clusters = (Inr (''c1'', demo_health), s')"
    using demo_registered by blast
  then show ?thesis
    using registration_stores [OF run demo_meanwhile(2,1)] by (auto simp: demo_cluster_request_def)
qed

end
