(* ===== verification/Csv_Parser.thy ===== *)
theory Csv_Parser
  imports Normalizers Values
begin

text \<open>
  The upload of queries as CSV (\<open>backend/app/domain/study/csv_parser.py\<close>): the reader of Python's
  \<open>csv\<close> module for its \<open>excel\<close> dialect, a state machine over characters that is told the end of
  every line, \<open>DictReader\<close> on top of it, and the rows the endpoint stores. A text is a list of code
  points; its lines end at line feeds only, as those of a \<open>StringIO\<close> do. Decoding UTF-8 is a parameter.
\<close>

section \<open>The reader\<close>

datatype csv_state = StartRecord | StartField | InField | InQuotedField | QuoteInQuotedField | EatCrnl

record csv_reader =
  rd_state :: csv_state
  rd_fields :: "qtext list"
  rd_field :: qtext

definition csv_start :: csv_reader where
  "csv_start = \<lparr>rd_state = StartRecord, rd_fields = [], rd_field = []\<rparr>"

definition FIELD_SIZE_LIMIT :: nat where "FIELD_SIZE_LIMIT = 131072"

definition comma :: nat where "comma = 44"
definition quote_char :: nat where "quote_char = 34"
definition line_feed :: nat where "line_feed = 10"
definition carriage_return :: nat where "carriage_return = 13"

definition save_field :: "csv_state \<Rightarrow> csv_reader \<Rightarrow> csv_reader" where
  "save_field st r = r\<lparr>rd_state := st, rd_fields := rd_fields r @ [rd_field r], rd_field := []\<rparr>"

text \<open>\<open>None\<close> is the \<open>csv.Error\<close> of a field that is too long.\<close>

definition add_char :: "csv_state \<Rightarrow> nat \<Rightarrow> csv_reader \<Rightarrow> csv_reader option" where
  "add_char st c r = (if FIELD_SIZE_LIMIT \<le> length (rd_field r) then None
     else Some (r\<lparr>rd_state := st, rd_field := rd_field r @ [c]\<rparr>))"

text \<open>A character, or \<open>None\<close> for the end of the line; the field ends there or at a line break.\<close>

definition ends_field :: "nat option \<Rightarrow> bool" where
  "ends_field c = (c = None \<or> c = Some line_feed \<or> c = Some carriage_return)"

definition end_state :: "nat option \<Rightarrow> csv_state" where
  "end_state c = (if c = None then StartRecord else EatCrnl)"

definition start_field :: "nat option \<Rightarrow> csv_reader \<Rightarrow> csv_reader option" where
  "start_field c r =
     (if ends_field c then Some (save_field (end_state c) r)
      else if c = Some quote_char then Some (r\<lparr>rd_state := InQuotedField\<rparr>)
      else if c = Some comma then Some (save_field StartField r)
      else add_char InField (the c) r)"

definition process_char :: "nat option \<Rightarrow> csv_reader \<Rightarrow> csv_reader option" where
  "process_char c r = (case rd_state r of
       StartRecord \<Rightarrow>
         (if c = None then Some r
          else if ends_field c then Some (r\<lparr>rd_state := EatCrnl\<rparr>)
          else start_field c (r\<lparr>rd_state := StartField\<rparr>))
     | StartField \<Rightarrow> start_field c r
     | InField \<Rightarrow>
         (if ends_field c then Some (save_field (end_state c) r)
          else if c = Some comma then Some (save_field StartField r)
          else add_char InField (the c) r)
     | InQuotedField \<Rightarrow>
         (if c = None then Some r
          else if c = Some quote_char then Some (r\<lparr>rd_state := QuoteInQuotedField\<rparr>)
          else add_char InQuotedField (the c) r)
     | QuoteInQuotedField \<Rightarrow>
         (if c = Some quote_char then add_char InQuotedField quote_char r
          else if c = Some comma then Some (save_field StartField r)
          else if ends_field c then Some (save_field (end_state c) r)
          else add_char InField (the c) r)
     | EatCrnl \<Rightarrow>
         (if c = None then Some (r\<lparr>rd_state := StartRecord\<rparr>)
          else if ends_field c then Some r
          else None))"

fun process_line :: "qtext \<Rightarrow> csv_reader \<Rightarrow> csv_reader option" where
  "process_line [] r = process_char None r"
| "process_line (c # cs) r = (case process_char (Some c) r of None \<Rightarrow> None | Some r' \<Rightarrow> process_line cs r')"

fun split_lines :: "qtext \<Rightarrow> qtext list" where
  "split_lines [] = []"
| "split_lines (c # cs) =
     (if c = line_feed then [c] # split_lines cs
      else (case split_lines cs of [] \<Rightarrow> [[c]] | l # ls \<Rightarrow> (c # l) # ls))"

text \<open>\<open>next(reader)\<close>: an error, the end, or a record with the lines that are left.\<close>

fun next_record :: "csv_reader \<Rightarrow> qtext list \<Rightarrow> unit + (qtext list \<times> qtext list) option" where
  "next_record r [] =
     Inr (if rd_field r \<noteq> [] \<or> rd_state r = InQuotedField then Some (rd_fields r @ [rd_field r], []) else None)"
| "next_record r (l # ls) = (case process_line l r of
       None \<Rightarrow> Inl ()
     | Some r' \<Rightarrow> if rd_state r' = StartRecord then Inr (Some (rd_fields r', ls)) else next_record r' ls)"

section \<open>Rows\<close>

datatype csv_value = CsvText qtext | CsvMissing | CsvRest "qtext list"

datatype csv_error = InvalidCsvError string | CsvError

text \<open>A key is a column, or \<open>None\<close> for the surplus fields.\<close>

type_synonym csv_dict = "(qtext option, csv_value) pydict"

record query_row =
  qr_query_text :: qtext
  qr_reference_answer :: "qtext option"
  qr_query_metadata :: "csv_dict option"

definition QUERY_TEXT :: qtext where "QUERY_TEXT = codes ''query_text''"
definition REFERENCE_ANSWER :: qtext where "REFERENCE_ANSWER = codes ''reference_answer''"
definition MAX_ROWS :: nat where "MAX_ROWS = 10000"

text \<open>\<open>DictReader.__next__\<close>\<close>

definition dict_row :: "qtext list \<Rightarrow> qtext list \<Rightarrow> csv_dict" where
  "dict_row header row =
     (let d = fold (\<lambda>(k, v). dict_set (Some k) (CsvText v)) (zip header row) []
      in if length header < length row then dict_set None (CsvRest (drop (length header) row)) d
         else fold (\<lambda>k. dict_set (Some k) CsvMissing) (drop (length row) header) d)"

fun csv_truthy :: "csv_value \<Rightarrow> bool" where
  "csv_truthy (CsvText t) = (t \<noteq> [])"
| "csv_truthy CsvMissing = False"
| "csv_truthy (CsvRest ts) = (ts \<noteq> [])"

definition text_or_empty :: "csv_dict \<Rightarrow> qtext \<Rightarrow> qtext" where
  "text_or_empty d k = (case map_of d (Some k) of Some (CsvText t) \<Rightarrow> t | _ \<Rightarrow> [])"

definition metadata_of :: "csv_dict \<Rightarrow> csv_dict" where
  "metadata_of d = filter (\<lambda>(k, v). k \<noteq> Some QUERY_TEXT \<and> k \<noteq> Some REFERENCE_ANSWER \<and> csv_truthy v) d"

definition build_query_row :: "unicode \<Rightarrow> csv_dict \<Rightarrow> csv_error + query_row" where
  "build_query_row u d =
     (if strip u (text_or_empty d QUERY_TEXT) = [] then Inl (InvalidCsvError ''empty `query_text`'')
      else Inr \<lparr>qr_query_text = text_or_empty d QUERY_TEXT,
        qr_reference_answer = (let a = text_or_empty d REFERENCE_ANSWER in if a = [] then None else Some a),
        qr_query_metadata = (if metadata_of d = [] then None else Some (metadata_of d))\<rparr>)"

lemma next_record_shorter: "next_record r ls = Inr (Some (fs, rest)) \<Longrightarrow> length rest \<le> length ls \<and> (ls \<noteq> [] \<longrightarrow> length rest < length ls)"
proof (induction ls arbitrary: r)
  case (Cons l ls)
  then show ?case by (fastforce split: option.splits if_splits)
qed (simp split: if_splits)

lemma record_shorter: "next_record csv_start ls = Inr (Some (fs, rest)) \<Longrightarrow> length rest < length ls"
  using next_record_shorter [of csv_start ls fs rest] by (cases ls) (auto simp: csv_start_def)

lemma nothing_left: "next_record csv_start [] = Inr None"
  by (simp add: csv_start_def)

text \<open>The loop over the reader: \<open>i\<close> counts the records, blank ones are skipped.\<close>

function read_rows :: "unicode \<Rightarrow> qtext list \<Rightarrow> nat \<Rightarrow> qtext list \<Rightarrow> csv_error + query_row list" where
  "read_rows u header i ls = (case next_record csv_start ls of
       Inl _ \<Rightarrow> Inl CsvError
     | Inr None \<Rightarrow> Inr []
     | Inr (Some (row, rest)) \<Rightarrow>
       (if row = [] then read_rows u header i rest
        else if MAX_ROWS + 1 < i then Inl (InvalidCsvError ''csv exceeds max row count'')
        else (case build_query_row u (dict_row header row) of
            Inl e \<Rightarrow> Inl e
          | Inr q \<Rightarrow> (case read_rows u header (i + 1) rest of Inl e \<Rightarrow> Inl e | Inr qs \<Rightarrow> Inr (q # qs)))))"
  by pat_completeness auto
termination
  by (relation "measure (\<lambda>(u, header, i, ls). length ls)") (auto dest: record_shorter)

declare read_rows.simps [simp del]

definition parse_queries_csv :: "unicode \<Rightarrow> (string \<Rightarrow> qtext option) \<Rightarrow> string \<Rightarrow> csv_error + query_row list" where
  "parse_queries_csv u decode body = (case decode body of
       None \<Rightarrow> Inl (InvalidCsvError ''csv body is not valid UTF-8'')
     | Some t \<Rightarrow> (case next_record csv_start (split_lines t) of
         Inl _ \<Rightarrow> Inl CsvError
       | Inr None \<Rightarrow> Inl (InvalidCsvError ''csv body has no header row'')
       | Inr (Some (header, rest)) \<Rightarrow>
         (if QUERY_TEXT \<notin> set header then Inl (InvalidCsvError ''csv missing required column(s)'')
          else read_rows u header 2 rest)))"

section \<open>Reading over lines\<close>

text \<open>The reader on the text itself: the record that starts here, and the text after it.\<close>

fun scan :: "csv_reader \<Rightarrow> qtext \<Rightarrow> (qtext list \<times> qtext) option" where
  "scan r [] = None"
| "scan r (c # cs) = (case process_char (Some c) r of
       None \<Rightarrow> None
     | Some r1 \<Rightarrow>
       (if c \<noteq> line_feed then scan r1 cs
        else (case process_char None r1 of
            None \<Rightarrow> None
          | Some r2 \<Rightarrow> if rd_state r2 = StartRecord then Some (rd_fields r2, cs) else scan r2 cs)))"

lemma split_lines_empty [simp]: "split_lines t = [] \<longleftrightarrow> t = []"
  by (cases t) (auto split: list.splits)

lemma next_record_scan: "scan r t = Some (fs, rest) \<Longrightarrow> next_record r (split_lines t) = Inr (Some (fs, split_lines rest))"
proof (induction r t rule: scan.induct)
  case (2 r c cs)
  from 2(3) obtain r1 where r1: "process_char (Some c) r = Some r1" by (auto split: option.splits)
  show ?case
  proof (cases "c = line_feed")
    case True
    then show ?thesis using 2 r1 by (auto split: option.splits if_splits)
  next
    case False
    then have sc: "scan r1 cs = Some (fs, rest)" using 2(3) r1 by simp
    then have ih: "next_record r1 (split_lines cs) = Inr (Some (fs, split_lines rest))" using 2(1) r1 False by simp
    from sc have "cs \<noteq> []" by (cases cs) simp_all
    then obtain l ls where "split_lines cs = l # ls" by (cases "split_lines cs") simp_all
    then show ?thesis using ih False r1 by simp
  qed
qed simp

section \<open>Writing\<close>

text \<open>A table as a writer that quotes every field puts it down.\<close>

fun escape :: "qtext \<Rightarrow> qtext" where
  "escape [] = []"
| "escape (c # cs) = (if c = quote_char then [c, c] else [c]) @ escape cs"

definition quoted :: "qtext \<Rightarrow> qtext" where
  "quoted f = quote_char # escape f @ [quote_char]"

fun print_fields :: "qtext list \<Rightarrow> qtext" where
  "print_fields [] = []"
| "print_fields [f] = quoted f @ [carriage_return, line_feed]"
| "print_fields (f # g # fs) = quoted f @ comma # print_fields (g # fs)"

definition print_table :: "qtext list list \<Rightarrow> qtext" where
  "print_table rows = concat (map print_fields rows)"

lemmas csv_simps = process_char_def start_field_def save_field_def add_char_def ends_field_def end_state_def
  quote_char_def comma_def line_feed_def carriage_return_def

abbreviation reading :: "csv_state \<Rightarrow> qtext list \<Rightarrow> qtext \<Rightarrow> csv_reader" where
  "reading st fs f \<equiv> \<lparr>rd_state = st, rd_fields = fs, rd_field = f\<rparr>"

lemma scan_escaped:
  "length g + length f \<le> FIELD_SIZE_LIMIT \<Longrightarrow>
   scan (reading InQuotedField fs g) (escape f @ rest) = scan (reading InQuotedField fs (g @ f)) rest"
proof (induction f arbitrary: g)
  case (Cons c f)
  have "scan (reading InQuotedField fs (g @ [c])) (escape f @ rest) = scan (reading InQuotedField fs (g @ c # f)) rest"
    using Cons.IH [of "g @ [c]"] Cons.prems by simp
  then show ?case using Cons.prems by (auto simp: csv_simps)
qed simp

lemma scan_quoted:
  assumes "st = StartRecord \<or> st = StartField" and "length f \<le> FIELD_SIZE_LIMIT"
  shows "scan (reading st fs []) (quoted f @ rest) = scan (reading QuoteInQuotedField fs f) rest"
proof -
  have "scan (reading st fs []) (quoted f @ rest) = scan (reading InQuotedField fs []) (escape f @ quote_char # rest)"
    using assms(1) by (auto simp: quoted_def csv_simps)
  also have "\<dots> = scan (reading InQuotedField fs f) (quote_char # rest)"
    using scan_escaped [of "[]" f fs "quote_char # rest"] assms(2) by simp
  finally show ?thesis by (simp add: csv_simps)
qed

lemma scan_row:
  "fs \<noteq> [] \<Longrightarrow> \<forall>f\<in>set fs. length f \<le> FIELD_SIZE_LIMIT \<Longrightarrow> st = StartRecord \<or> st = StartField \<Longrightarrow>
   scan (reading st gs []) (print_fields fs @ rest) = Some (gs @ fs, rest)"
proof (induction fs arbitrary: st gs rule: print_fields.induct)
  case (2 f)
  then have "scan (reading st gs []) (quoted f @ [carriage_return, line_feed] @ rest) =
      scan (reading QuoteInQuotedField gs f) ([carriage_return, line_feed] @ rest)"
    by (intro scan_quoted) auto
  then show ?case by (simp add: csv_simps)
next
  case (3 f g fs)
  have "scan (reading st gs []) (quoted f @ comma # print_fields (g # fs) @ rest) =
      scan (reading QuoteInQuotedField gs f) (comma # print_fields (g # fs) @ rest)"
    using 3(3,4) by (intro scan_quoted) auto
  also have "\<dots> = scan (reading StartField (gs @ [f]) []) (print_fields (g # fs) @ rest)"
    by (simp add: csv_simps)
  also have "\<dots> = Some ((gs @ [f]) @ g # fs, rest)"
    using 3(3) by (intro 3(1)) simp_all
  finally show ?case by simp
qed simp

lemma read_row:
  assumes "fs \<noteq> []" and "\<forall>f\<in>set fs. length f \<le> FIELD_SIZE_LIMIT"
  shows "next_record csv_start (split_lines (print_fields fs @ rest)) = Inr (Some (fs, split_lines rest))"
  using scan_row [OF assms, of StartRecord "[]" rest] next_record_scan by (simp add: csv_start_def)

section \<open>A row of the table\<close>

text \<open>What the row stores, column by column.\<close>

definition cell :: "qtext list \<Rightarrow> qtext list \<Rightarrow> qtext \<Rightarrow> qtext" where
  "cell header row k = (case map_of (zip header row) k of None \<Rightarrow> [] | Some t \<Rightarrow> t)"

definition stored_row :: "qtext list \<Rightarrow> qtext list \<Rightarrow> query_row" where
  "stored_row header row =
     (let extra = filter (\<lambda>(k, t). k \<noteq> QUERY_TEXT \<and> k \<noteq> REFERENCE_ANSWER \<and> t \<noteq> []) (zip header row)
      in \<lparr>qr_query_text = cell header row QUERY_TEXT,
          qr_reference_answer = (if cell header row REFERENCE_ANSWER = [] then None else Some (cell header row REFERENCE_ANSWER)),
          qr_query_metadata = (if extra = [] then None else Some (map (\<lambda>(k, t). (Some k, CsvText t)) extra))\<rparr>)"

lemma fill_distinct:
  "distinct (map fst kvs) \<Longrightarrow> fst ` set kvs \<inter> fst ` set d = {} \<Longrightarrow> fold (\<lambda>(k, v). dict_set k v) kvs d = d @ kvs"
proof (induction kvs arbitrary: d)
  case (Cons p kvs)
  obtain k v where p: "p = (k, v)" by (cases p)
  have "k \<notin> fst ` set d \<Longrightarrow> dict_set k v d = d @ [(k, v)]" for d :: "('a \<times> 'b) list"
    by (induction d) auto
  then have "dict_set k v d = d @ [(k, v)]" using Cons.prems p by auto
  then show ?case using Cons.IH [of "d @ [(k, v)]"] Cons.prems p by auto
qed simp

lemma dict_row_full:
  assumes "distinct header" and "length row = length header"
  shows "dict_row header row = map (\<lambda>(k, t). (Some k, CsvText t)) (zip header row)"
proof -
  let ?kvs = "map (\<lambda>(k, t). (Some k, CsvText t)) (zip header row)"
  have keys: "map fst ?kvs = map Some header" using assms(2) by (intro nth_equalityI) auto
  have d: "distinct (map fst ?kvs)" unfolding keys using assms(1) by (simp add: distinct_map)
  have "fold (\<lambda>(k, v). dict_set (Some k) (CsvText v)) (zip header row) d = fold (\<lambda>(k, v). dict_set k v) ?kvs d" for d
    by (induction "zip header row" arbitrary: header row d) (auto simp: fold_map comp_def case_prod_unfold)
  then have "fold (\<lambda>(k, v). dict_set (Some k) (CsvText v)) (zip header row) [] = ?kvs"
    using fill_distinct [OF d, of "[]"] by simp
  then show ?thesis using assms(2) by (simp add: dict_row_def)
qed

lemma map_of_some_text: "map_of (map (\<lambda>(k, t). (Some k, CsvText t)) kvs) (Some k) = map_option CsvText (map_of kvs k)"
  by (induction kvs) auto

lemma build_stored:
  assumes "distinct header" and "length row = length header" and "strip u (cell header row QUERY_TEXT) \<noteq> []"
  shows "build_query_row u (dict_row header row) = Inr (stored_row header row)"
proof -
  have cells: "text_or_empty (dict_row header row) k = cell header row k" for k
    by (simp add: text_or_empty_def dict_row_full [OF assms(1,2)] map_of_some_text cell_def split: option.splits)
  have "metadata_of (map (\<lambda>(k, t). (Some k, CsvText t)) kvs) =
      map (\<lambda>(k, t). (Some k, CsvText t)) (filter (\<lambda>(k, t). k \<noteq> QUERY_TEXT \<and> k \<noteq> REFERENCE_ANSWER \<and> t \<noteq> []) kvs)" for kvs
    by (induction kvs) (auto simp: metadata_of_def)
  then have "metadata_of (dict_row header row) =
      map (\<lambda>(k, t). (Some k, CsvText t)) (filter (\<lambda>(k, t). k \<noteq> QUERY_TEXT \<and> k \<noteq> REFERENCE_ANSWER \<and> t \<noteq> []) (zip header row))"
    by (simp add: dict_row_full [OF assms(1,2)])
  then show ?thesis using assms(3) by (simp add: build_query_row_def stored_row_def cells Let_def)
qed

text \<open>A table the endpoint accepts.\<close>

definition table_ok :: "unicode \<Rightarrow> qtext list \<Rightarrow> qtext list list \<Rightarrow> bool" where
  "table_ok u header rows = (distinct header \<and> QUERY_TEXT \<in> set header \<and> length rows \<le> MAX_ROWS \<and>
     (\<forall>row\<in>set (header # rows). length row = length header \<and> (\<forall>f\<in>set row. length f \<le> FIELD_SIZE_LIMIT)) \<and>
     (\<forall>row\<in>set rows. strip u (cell header row QUERY_TEXT) \<noteq> []))"

lemma read_printed:
  assumes "distinct header" and "header \<noteq> []" and "i + length rows \<le> MAX_ROWS + 2"
    and "\<forall>row\<in>set rows. length row = length header \<and> (\<forall>f\<in>set row. length f \<le> FIELD_SIZE_LIMIT) \<and>
      strip u (cell header row QUERY_TEXT) \<noteq> []"
  shows "read_rows u header i (split_lines (print_table rows)) = Inr (map (stored_row header) rows)"
  using assms(3,4)
proof (induction rows arbitrary: i)
  case Nil
  then show ?case by (simp add: print_table_def read_rows.simps [of u header i "[]"] csv_start_def)
next
  case (Cons row rows)
  have row: "row \<noteq> []" "length row = length header" using Cons.prems(2) assms(2) by auto
  have "next_record csv_start (split_lines (print_table (row # rows))) = Inr (Some (row, split_lines (print_table rows)))"
    using read_row [OF row(1)] Cons.prems(2) by (simp add: print_table_def)
  moreover have "read_rows u header (i + 1) (split_lines (print_table rows)) = Inr (map (stored_row header) rows)"
    using Cons.prems by (intro Cons.IH) auto
  ultimately show ?case
    using row build_stored [OF assms(1) row(2), of u] Cons.prems by (simp add: read_rows.simps [of u header i])
qed

section \<open>Properties\<close>

text \<open>C31 A table written with every field quoted is read back: whatever characters its fields hold,
  line breaks, commas and quotes included, each row is stored with its query, its answer and the other
  columns that are not empty.\<close>

theorem csv_roundtrip:
  assumes "table_ok u header rows" and "decode body = Some (print_table (header # rows))"
  shows "parse_queries_csv u decode body = Inr (map (stored_row header) rows)"
proof -
  have h: "header \<noteq> []" "\<forall>f\<in>set header. length f \<le> FIELD_SIZE_LIMIT" using assms(1) by (auto simp: table_ok_def)
  have "next_record csv_start (split_lines (print_table (header # rows))) = Inr (Some (header, split_lines (print_table rows)))"
    using read_row [OF h] by (simp add: print_table_def)
  then show ?thesis
    using read_printed [OF _ h(1), of 2 rows u] assms by (simp add: parse_queries_csv_def table_ok_def)
qed

section \<open>Instances\<close>

lemma csv_roundtrip_witness:
  "parse_queries_csv ascii (\<lambda>_. Some (print_table [[QUERY_TEXT, codes ''lang''], [codes ''a,b'' @ [34, 10], codes ''en'']])) [] =
   Inr [\<lparr>qr_query_text = codes ''a,b'' @ [34, 10], qr_reference_answer = None,
         qr_query_metadata = Some [(Some (codes ''lang''), CsvText (codes ''en''))]\<rparr>]"
proof -
  have t: "table_ok ascii [QUERY_TEXT, codes ''lang''] [[codes ''a,b'' @ [34, 10], codes ''en'']]"
    by (simp add: table_ok_def cell_def QUERY_TEXT_def codes_def FIELD_SIZE_LIMIT_def MAX_ROWS_def strip_def ascii_def)
  have "stored_row [QUERY_TEXT, codes ''lang''] [codes ''a,b'' @ [34, 10], codes ''en''] =
     \<lparr>qr_query_text = codes ''a,b'' @ [34, 10], qr_reference_answer = None,
       qr_query_metadata = Some [(Some (codes ''lang''), CsvText (codes ''en''))]\<rparr>"
    by code_simp
  then show ?thesis using csv_roundtrip [OF t, of "\<lambda>_. Some (print_table [[QUERY_TEXT, codes ''lang''], [codes ''a,b'' @ [34, 10], codes ''en'']])"] by simp
qed

text \<open>A lone carriage return raises an error of the \<open>csv\<close> module that is not the one the endpoint translates,
  a byte order mark hides the column, and a surplus field is stored under no key.\<close>

lemmas csv_eval = parse_queries_csv_def csv_start_def csv_simps read_rows.simps FIELD_SIZE_LIMIT_def MAX_ROWS_def
  QUERY_TEXT_def REFERENCE_ANSWER_def codes_def build_query_row_def dict_row_def text_or_empty_def metadata_of_def
  strip_def ascii_def Let_def

lemma lone_carriage_return:
  "parse_queries_csv ascii (\<lambda>_. Some (QUERY_TEXT @ [13, 65, 10])) [] = Inl CsvError"
  by (simp add: csv_eval)

lemma byte_order_mark:
  "parse_queries_csv ascii (\<lambda>_. Some (0xFEFF # QUERY_TEXT @ [10, 65, 10])) [] = Inl (InvalidCsvError ''csv missing required column(s)'')"
  by (simp add: csv_eval)

lemma surplus_under_no_key:
  "parse_queries_csv ascii (\<lambda>_. Some (QUERY_TEXT @ [10, 65, 44, 66, 10])) [] =
   Inr [\<lparr>qr_query_text = [65], qr_reference_answer = None, qr_query_metadata = Some [(None, CsvRest [[66]])]\<rparr>]"
  by (simp add: csv_eval)

end
