(* ===== verification/Store.thy ===== *)
theory Store
  imports Values
begin

text \<open>
  The tables the components share (\<open>backend/app/db/models\<close>): a row is a record with the
  columns of its ORM model, a table a list of rows in no particular order, a timestamp a
  number of microseconds. The \<open>metric_delta\<close> of a proposal, which only the digest writes, is kept beside the
  table there. The CHECK
  constraints on the status columns make those columns enumerations.
\<close>

section \<open>Rows\<close>

datatype study_status = Queued | Running | Completed | Cancelled | Failed

record study =
  st_id :: string
  st_name :: string
  st_cluster_id :: string
  st_target :: string
  st_template_id :: string
  st_query_set_id :: string
  st_judgment_list_id :: string
  st_search_space :: pyval
  st_objective :: obj
  st_config :: obj
  st_status :: study_status
  st_failed_reason :: "string option"
  st_optuna_study_name :: string
  st_parent_study_id :: "string option"
  st_parent_proposal_id :: "string option"
  st_baseline_metric :: "pyfloat option"
  st_baseline_trial_id :: "string option"
  st_best_metric :: "pyfloat option"
  st_best_trial_id :: "string option"
  st_created_at :: int
  st_started_at :: "int option"
  st_completed_at :: "int option"

datatype trial_status = Complete | TrialFailed | Pruned

record trial =
  tr_id :: string
  tr_study_id :: string
  tr_number :: int
  tr_params :: obj
  tr_primary_metric :: "pyfloat option"
  tr_metrics :: obj
  tr_per_query_metrics :: "(string, (string, pyfloat) pydict) pydict option"
  tr_duration_ms :: "int option"
  tr_status :: trial_status
  tr_error :: "string option"
  tr_started_at :: "int option"
  tr_ended_at :: "int option"
  tr_is_baseline :: bool

datatype proposal_status = Pending | PrOpened | PrMerged | Rejected | Superseded

datatype pr_state = PrOpen | PrClosed | PrStateMerged

record proposal =
  pp_id :: string
  pp_study_id :: "string option"
  pp_study_trial_id :: "string option"
  pp_cluster_id :: string
  pp_template_id :: string
  pp_config_diff :: obj
  pp_status :: proposal_status
  pp_pr_url :: "string option"
  pp_pr_state :: "pr_state option"
  pp_pr_merged_at :: "int option"
  pp_pr_open_error :: "string option"
  pp_last_polled_at :: "int option"
  pp_rejected_reason :: "string option"
  pp_created_at :: int

record db =
  db_studies :: "study list"
  db_trials :: "trial list"
  db_proposals :: "proposal list"

section \<open>Lookups and updates by primary key\<close>

definition get_study :: "db \<Rightarrow> string \<Rightarrow> study option" where
  "get_study d i = find (\<lambda>s. st_id s = i) (db_studies d)"

definition get_trial :: "db \<Rightarrow> string \<Rightarrow> trial option" where
  "get_trial d i = find (\<lambda>t. tr_id t = i) (db_trials d)"

definition get_proposal :: "db \<Rightarrow> string \<Rightarrow> proposal option" where
  "get_proposal d i = find (\<lambda>p. pp_id p = i) (db_proposals d)"

text \<open>An UPDATE of the row with a given id; it never changes the id.\<close>

definition update_study :: "string \<Rightarrow> (study \<Rightarrow> study) \<Rightarrow> db \<Rightarrow> db" where
  "update_study i f d =
     d\<lparr>db_studies := map (\<lambda>s. if st_id s = i then (f s)\<lparr>st_id := i\<rparr> else s) (db_studies d)\<rparr>"

definition update_proposals :: "(proposal \<Rightarrow> bool) \<Rightarrow> (proposal \<Rightarrow> proposal) \<Rightarrow> db \<Rightarrow> db" where
  "update_proposals p f d =
     d\<lparr>db_proposals := map (\<lambda>r. if p r then (f r)\<lparr>pp_id := pp_id r\<rparr> else r) (db_proposals d)\<rparr>"

text \<open>The primary keys are unique.\<close>

definition db_ok :: "db \<Rightarrow> bool" where
  "db_ok d = (distinct (map st_id (db_studies d)) \<and> distinct (map tr_id (db_trials d)) \<and>
     distinct (map pp_id (db_proposals d)))"

definition study_ids :: "db \<Rightarrow> string list" where
  "study_ids d = map st_id (db_studies d)"

lemma find_map_id:
  "(\<And>x. k (f x) = k x) \<Longrightarrow> find (\<lambda>x. k x = i) (map f xs) = map_option f (find (\<lambda>x. k x = i) xs)"
  by (induction xs) auto

lemma get_study_id: "get_study d i = Some s \<Longrightarrow> st_id s = i \<and> s \<in> set (db_studies d)"
  by (auto simp: get_study_def dest: find_Some_in)

lemma get_trial_id: "get_trial d i = Some t \<Longrightarrow> tr_id t = i \<and> t \<in> set (db_trials d)"
  by (auto simp: get_trial_def dest: find_Some_in)

lemma get_proposal_id: "get_proposal d i = Some p \<Longrightarrow> pp_id p = i \<and> p \<in> set (db_proposals d)"
  by (auto simp: get_proposal_def dest: find_Some_in)

lemma get_study_update [simp, dict_simps]:
  "get_study (update_study i f d) j =
     (if j = i then map_option (\<lambda>s. (f s)\<lparr>st_id := i\<rparr>) (get_study d i) else get_study d j)"
proof -
  let ?g = "\<lambda>s. if st_id s = i then (f s)\<lparr>st_id := i\<rparr> else s"
  have "get_study (update_study i f d) j = map_option ?g (get_study d j)"
    by (simp add: get_study_def update_study_def find_map_id)
  then show ?thesis
    by (cases "get_study d j") (auto dest: get_study_id)
qed

lemma update_study_frame [simp, frame_simps]:
  "db_trials (update_study i f d) = db_trials d"
  "db_proposals (update_study i f d) = db_proposals d"
  "study_ids (update_study i f d) = study_ids d"
  by (auto simp: update_study_def study_ids_def)

lemma update_proposals_frame [simp, frame_simps]:
  "db_trials (update_proposals p f d) = db_trials d"
  "db_studies (update_proposals p f d) = db_studies d"
  "map pp_id (db_proposals (update_proposals p f d)) = map pp_id (db_proposals d)"
  by (auto simp: update_proposals_def)

lemma db_ok_update_study [simp]: "db_ok (update_study i f d) = db_ok d"
  using update_study_frame(3) [of i f d] by (simp add: db_ok_def study_ids_def)

lemma db_ok_update_proposals [simp]: "db_ok (update_proposals p f d) = db_ok d"
  by (simp add: db_ok_def)

lemma get_study_in:
  "distinct (study_ids d) \<Longrightarrow> s \<in> set (db_studies d) \<Longrightarrow> get_study d (st_id s) = Some s"
proof -
  assume a: "distinct (study_ids d)" "s \<in> set (db_studies d)"
  have "distinct (map st_id xs) \<Longrightarrow> s \<in> set xs \<Longrightarrow> find (\<lambda>x. st_id x = st_id s) xs = Some s" for xs
    by (induction xs) force+
  with a show ?thesis by (simp add: get_study_def study_ids_def)
qed

lemma get_study_None: "get_study d i = None \<longleftrightarrow> i \<notin> set (study_ids d)"
  by (auto simp: get_study_def study_ids_def find_None_all)

lemma get_study_cong: "db_studies d = db_studies e \<Longrightarrow> get_study d = get_study e"
  by (simp add: get_study_def fun_eq_iff)

section \<open>A sample row\<close>

text \<open>The row the concrete instances of the properties are built from.\<close>

definition sample_study :: "string \<Rightarrow> string option \<Rightarrow> study_status \<Rightarrow> study" where
  "sample_study i parent status =
     \<lparr>st_id = i, st_name = i, st_cluster_id = ''c'', st_target = ''t'', st_template_id = ''tpl'',
      st_query_set_id = ''q'', st_judgment_list_id = ''j'', st_search_space = PNone,
      st_objective = [], st_config = [], st_status = status, st_failed_reason = None,
      st_optuna_study_name = i, st_parent_study_id = parent, st_parent_proposal_id = None, st_baseline_metric = None,
      st_baseline_trial_id = None, st_best_metric = None, st_best_trial_id = None,
      st_created_at = 0, st_started_at = None, st_completed_at = None\<rparr>"

definition sample_trial :: "string \<Rightarrow> string \<Rightarrow> int \<Rightarrow> trial_status \<Rightarrow> pyfloat option \<Rightarrow> trial" where
  "sample_trial i study number status metric =
     \<lparr>tr_id = i, tr_study_id = study, tr_number = number, tr_params = [],
      tr_primary_metric = metric, tr_metrics = [], tr_per_query_metrics = None, tr_duration_ms = None,
      tr_status = status, tr_error = None, tr_started_at = None, tr_ended_at = Some number, tr_is_baseline = False\<rparr>"

definition sample_proposal :: "string \<Rightarrow> string option \<Rightarrow> proposal_status \<Rightarrow> proposal" where
  "sample_proposal i study status =
     \<lparr>pp_id = i, pp_study_id = study, pp_study_trial_id = None, pp_cluster_id = ''c'',
      pp_template_id = ''tpl'', pp_config_diff = [], pp_status = status, pp_pr_url = None,
      pp_pr_state = None, pp_pr_merged_at = None, pp_pr_open_error = None,
      pp_last_polled_at = None, pp_rejected_reason = None, pp_created_at = 0\<rparr>"

end
