(* ===== verification/Study_State.thy ===== *)
theory Study_State
  imports Store
begin

text \<open>
  The study state machine and the guard that protects the status column
  (\<open>backend/app/services/study_state.py\<close>). A session is the transaction's view of the
  tables, the rows as last committed, the mapped objects with unflushed attribute writes and
  the authorization sentinel of \<open>Session.info\<close>. Every operation returns the session it
  leaves behind, also when it raises. SQLAlchemy's autoflush before a query is the call of
  \<open>flush\<close> in \<open>load_for_update\<close>. \<open>clock i\<close> is the value of \<open>datetime.now(UTC)\<close> when the
  row \<open>i\<close> is stamped. Log calls leave no trace in the model.
\<close>

datatype state_error =
    StudyNotFound string
  | InvalidStateTransition study_status study_status
  | StudyStateProtectionError
  | BaselineTrialNotFound string
  | InvalidBaselineTrialState string
  | PyTypeError

record session =
  ss_db :: db
  ss_committed :: db
  ss_dirty :: "study list"
  ss_authorized :: bool

section \<open>Legal transitions\<close>

fun legal_transitions :: "study_status \<Rightarrow> study_status list" where
  "legal_transitions Queued = [Running, Cancelled]"
| "legal_transitions Running = [Completed, Cancelled, Failed]"
| "legal_transitions Completed = []"
| "legal_transitions Cancelled = []"
| "legal_transitions Failed = []"

definition ensure_legal :: "study_status \<Rightarrow> study_status \<Rightarrow> state_error + unit" where
  "ensure_legal current target =
     (if target \<notin> set (legal_transitions current)
      then Inl (InvalidStateTransition current target) else Inr ())"

definition in_flight :: "study_status \<Rightarrow> bool" where
  "in_flight x = (x = Queued \<or> x = Running)"

definition terminal :: "study_status \<Rightarrow> bool" where
  "terminal x = (x = Completed \<or> x = Cancelled \<or> x = Failed)"

section \<open>The session and its guard\<close>

text \<open>A dirty object changes the status when the row it was loaded from has another one.\<close>

definition status_changed :: "db \<Rightarrow> study \<Rightarrow> bool" where
  "status_changed d ob =
     (case get_study d (st_id ob) of None \<Rightarrow> False | Some r \<Rightarrow> st_status r \<noteq> st_status ob)"

definition study_state_guard :: "session \<Rightarrow> state_error + unit" where
  "study_state_guard s =
     (if ss_authorized s then Inr ()
      else if \<exists>ob\<in>set (ss_dirty s). status_changed (ss_db s) ob
      then Inl StudyStateProtectionError else Inr ())"

definition write_objects :: "study list \<Rightarrow> db \<Rightarrow> db" where
  "write_objects obs d = fold (\<lambda>ob. update_study (st_id ob) (\<lambda>_. ob)) obs d"

definition flush :: "session \<Rightarrow> (state_error + unit) \<times> session" where
  "flush s = (case study_state_guard s of
       Inl e \<Rightarrow> (Inl e, s)
     | Inr _ \<Rightarrow> (Inr (), s\<lparr>ss_db := write_objects (ss_dirty s) (ss_db s), ss_dirty := []\<rparr>))"

definition set_object :: "study \<Rightarrow> session \<Rightarrow> session" where
  "set_object ob s = s\<lparr>ss_dirty := ob # filter (\<lambda>x. st_id x \<noteq> st_id ob) (ss_dirty s)\<rparr>"

text \<open>The object the identity map holds for a row: the modified one, or the row as loaded.\<close>

definition object_of :: "session \<Rightarrow> string \<Rightarrow> study option" where
  "object_of s i = (case find (\<lambda>x. st_id x = i) (ss_dirty s) of
       Some ob \<Rightarrow> Some ob | None \<Rightarrow> get_study (ss_db s) i)"

definition assign_attributes :: "string \<Rightarrow> (study \<Rightarrow> study) \<Rightarrow> session \<Rightarrow> session" where
  "assign_attributes i f s = (case object_of s i of
       None \<Rightarrow> s | Some ob \<Rightarrow> set_object ((f ob)\<lparr>st_id := i\<rparr>) s)"

text \<open>
  \<open>session.execute(update(Study).where(p).values(cols))\<close>: the columns of the SET clause are
  given by name with what they assign.
\<close>

definition orm_execute_guard :: "string list \<Rightarrow> session \<Rightarrow> state_error + unit" where
  "orm_execute_guard cols s =
     (if ss_authorized s then Inr ()
      else if ''status'' \<in> set cols then Inl StudyStateProtectionError else Inr ())"

definition execute_update ::
  "(study \<Rightarrow> bool) \<Rightarrow> (string \<times> (study \<Rightarrow> study)) list \<Rightarrow> session \<Rightarrow> (state_error + unit) \<times> session" where
  "execute_update p cols s = (case orm_execute_guard (map fst cols) s of
       Inl e \<Rightarrow> (Inl e, s)
     | Inr _ \<Rightarrow> (case flush s of
         (Inl e, s1) \<Rightarrow> (Inl e, s1)
       | (Inr _, s1) \<Rightarrow> (Inr (), s1\<lparr>ss_db := fold
             (\<lambda>r. if p r then update_study (st_id r) (\<lambda>x. fold (\<lambda>(c, f). f) cols x) else id)
             (db_studies (ss_db s1)) (ss_db s1)\<rparr>)))"

definition commit :: "session \<Rightarrow> (state_error + unit) \<times> session" where
  "commit s = (case flush s of
       (Inl e, s1) \<Rightarrow> (Inl e, s1)
     | (Inr _, s1) \<Rightarrow> (Inr (), s1\<lparr>ss_committed := ss_db s1\<rparr>))"

definition rollback :: "session \<Rightarrow> session" where
  "rollback s = s\<lparr>ss_db := ss_committed s, ss_dirty := []\<rparr>"

section \<open>The transitions\<close>

definition load_for_update :: "string \<Rightarrow> session \<Rightarrow> (state_error + study) \<times> session" where
  "load_for_update i s = (case flush s of
       (Inl e, s1) \<Rightarrow> (Inl e, s1)
     | (Inr _, s1) \<Rightarrow> (case get_study (ss_db s1) i of
         None \<Rightarrow> (Inl (StudyNotFound i), s1)
       | Some st \<Rightarrow> (Inr st, s1)))"

text \<open>\<open>async with _authorize_status_mutation(db)\<close> around attribute writes and a flush.\<close>

definition authorize_status_mutation ::
  "study \<Rightarrow> (study \<Rightarrow> study) \<Rightarrow> session \<Rightarrow> (state_error + study) \<times> session" where
  "authorize_status_mutation st f s =
     (let s1 = set_object (f st) (s\<lparr>ss_authorized := True\<rparr>); (r, s2) = flush s1
      in (case r of Inl e \<Rightarrow> Inl e | Inr _ \<Rightarrow> Inr (f st), s2\<lparr>ss_authorized := False\<rparr>))"

definition start_study :: "(string \<Rightarrow> int) \<Rightarrow> string \<Rightarrow> session \<Rightarrow> (state_error + study) \<times> session" where
  "start_study clock i s = (case load_for_update i s of
       (Inl e, s1) \<Rightarrow> (Inl e, s1)
     | (Inr st, s1) \<Rightarrow>
         (if st_status st = Running then (Inr st, s1)
          else (case ensure_legal (st_status st) Running of
              Inl e \<Rightarrow> (Inl e, s1)
            | Inr _ \<Rightarrow> authorize_status_mutation st
                (\<lambda>x. x\<lparr>st_status := Running, st_started_at := Some (clock i)\<rparr>) s1)))"

definition cancel_study :: "(string \<Rightarrow> int) \<Rightarrow> string \<Rightarrow> session \<Rightarrow> (state_error + study) \<times> session" where
  "cancel_study clock i s = (case load_for_update i s of
       (Inl e, s1) \<Rightarrow> (Inl e, s1)
     | (Inr st, s1) \<Rightarrow> (case ensure_legal (st_status st) Cancelled of
          Inl e \<Rightarrow> (Inl e, s1)
        | Inr _ \<Rightarrow> authorize_status_mutation st
            (\<lambda>x. x\<lparr>st_status := Cancelled, st_completed_at := Some (clock i)\<rparr>) s1))"

definition complete_study ::
  "(string \<Rightarrow> int) \<Rightarrow> string \<Rightarrow> pyfloat option \<Rightarrow> string option \<Rightarrow> session
   \<Rightarrow> (state_error + study) \<times> session" where
  "complete_study clock i best_metric best_trial_id s = (case load_for_update i s of
       (Inl e, s1) \<Rightarrow> (Inl e, s1)
     | (Inr st, s1) \<Rightarrow> (case ensure_legal (st_status st) Completed of
          Inl e \<Rightarrow> (Inl e, s1)
        | Inr _ \<Rightarrow> authorize_status_mutation st
            (\<lambda>x. x\<lparr>st_status := Completed, st_completed_at := Some (clock i),
                   st_best_metric := best_metric, st_best_trial_id := best_trial_id\<rparr>) s1))"

definition fail_study ::
  "(string \<Rightarrow> int) \<Rightarrow> string \<Rightarrow> string \<Rightarrow> session \<Rightarrow> (state_error + study) \<times> session" where
  "fail_study clock i failed_reason s = (case load_for_update i s of
       (Inl e, s1) \<Rightarrow> (Inl e, s1)
     | (Inr st, s1) \<Rightarrow> (case ensure_legal (st_status st) Failed of
          Inl e \<Rightarrow> (Inl e, s1)
        | Inr _ \<Rightarrow> authorize_status_mutation st
            (\<lambda>x. x\<lparr>st_status := Failed, st_completed_at := Some (clock i),
                   st_failed_reason := Some failed_reason\<rparr>) s1))"

section \<open>Stamping the baseline trial\<close>

text \<open>
  The UPDATE is a textual statement: no mapped object, so neither guard sees it, and it
  writes the two baseline columns only.
\<close>

definition stamp_baseline_trial ::
  "string \<Rightarrow> string \<Rightarrow> pyfloat \<Rightarrow> session \<Rightarrow> (state_error + bool) \<times> session" where
  "stamp_baseline_trial study_id trial_id primary_metric s = (case flush s of
       (Inl e, s1) \<Rightarrow> (Inl e, s1)
     | (Inr _, s1) \<Rightarrow> (case get_trial (ss_db s1) trial_id of
         None \<Rightarrow> (Inl (BaselineTrialNotFound trial_id), s1)
       | Some t \<Rightarrow>
          (if tr_study_id t \<noteq> study_id then (Inl (InvalidBaselineTrialState ''study_id''), s1)
           else if \<not> tr_is_baseline t then (Inl (InvalidBaselineTrialState ''is_baseline''), s1)
           else if tr_status t \<noteq> Complete then (Inl (InvalidBaselineTrialState ''status''), s1)
           else (case get_study (ss_db s1) study_id of
               None \<Rightarrow> (Inr False, s1)
             | Some st \<Rightarrow> (if st_baseline_trial_id st \<noteq> None then (Inr False, s1)
                 else (Inr True, s1\<lparr>ss_db := update_study study_id
                   (\<lambda>x. x\<lparr>st_baseline_trial_id := Some trial_id,
                          st_baseline_metric := Some primary_metric\<rparr>) (ss_db s1)\<rparr>))))))"

section \<open>Cancelling a chain\<close>

text \<open>
  \<open>repo.list_children_of_study\<close>: the rows whose parent is the study, by
  \<open>(created_at, id)\<close>. The caller gets mapped objects, so only their ids are kept here and
  the attributes are read from the session when they are used.
\<close>

definition list_children_of_study :: "db \<Rightarrow> string \<Rightarrow> study list" where
  "list_children_of_study d i =
     sort_key (\<lambda>r. st_created_at r)
       (sort_key st_id (filter (\<lambda>r. st_parent_study_id r = Some i) (db_studies d)))"

definition depth_key :: string where
  "depth_key = ''auto_followup_depth''"

text \<open>The parent's own transition; \<open>previous_depth > 0\<close> raises on a value that is no number.\<close>

definition cascade_parent ::
  "(string \<Rightarrow> int) \<Rightarrow> study \<Rightarrow> session \<Rightarrow> (state_error + study) \<times> session" where
  "cascade_parent clock parent s =
     (if in_flight (st_status parent) then
        (case cancel_study clock (st_id parent) s of
           (Inl (InvalidStateTransition a b), s1) \<Rightarrow> (Inr parent, s1)
         | r \<Rightarrow> r)
      else if st_status parent = Completed then
        (case obj_get (st_config parent) depth_key of
           PNone \<Rightarrow> (Inr parent, s)
         | v \<Rightarrow> (case num_of v of
             None \<Rightarrow> (Inl PyTypeError, s)
           | Some n \<Rightarrow> (if flt (Fin 0) n then
                 let parent' = parent\<lparr>st_config := dict_set depth_key (PInt 0) (st_config parent)\<rparr>
                 in (case flush (set_object parent' s) of
                       (Inl e, s1) \<Rightarrow> (Inl e, s1)
                     | (Inr _, s1) \<Rightarrow> (Inr parent', s1))
               else (Inr parent, s))))
      else (Inr parent, s))"

text \<open>What the loop does to one child before it recurses into it.\<close>

definition cascade_child ::
  "(string \<Rightarrow> int) \<Rightarrow> string \<Rightarrow> session \<Rightarrow> (state_error + unit) \<times> session" where
  "cascade_child clock c s = (case object_of s c of
       None \<Rightarrow> (Inr (), s)
     | Some child \<Rightarrow>
         (if in_flight (st_status child) then
            (case cancel_study clock c s of
               (Inl (InvalidStateTransition a b), s1) \<Rightarrow> (Inr (), s1)
             | (Inl e, s1) \<Rightarrow> (Inl e, s1)
             | (Inr _, s1) \<Rightarrow> (Inr (), s1))
          else (Inr (), s)))"

text \<open>The recursion has no bound in the source: \<open>None\<close> is running out of fuel.\<close>

fun chain_cascade ::
    "nat \<Rightarrow> (string \<Rightarrow> int) \<Rightarrow> string \<Rightarrow> session \<Rightarrow> ((state_error + study) \<times> session) option"
  and cascade_children ::
    "nat \<Rightarrow> (string \<Rightarrow> int) \<Rightarrow> string list \<Rightarrow> session \<Rightarrow> ((state_error + unit) \<times> session) option" where
  "chain_cascade 0 clock i s = None"
| "chain_cascade (Suc n) clock i s = (case load_for_update i s of
       (Inl e, s1) \<Rightarrow> Some (Inl e, s1)
     | (Inr parent, s1) \<Rightarrow> (case cascade_parent clock parent s1 of
         (Inl e, s2) \<Rightarrow> Some (Inl e, s2)
       | (Inr parent', s2) \<Rightarrow> (case flush s2 of
           (Inl e, s3) \<Rightarrow> Some (Inl e, s3)
         | (Inr _, s3) \<Rightarrow>
             (case cascade_children n clock
                     (map st_id (list_children_of_study (ss_db s3) i)) s3 of
                None \<Rightarrow> None
              | Some (Inl e, s4) \<Rightarrow> Some (Inl e, s4)
              | Some (Inr _, s4) \<Rightarrow> Some (Inr parent', s4)))))"
| "cascade_children n clock [] s = Some (Inr (), s)"
| "cascade_children n clock (c # cs) s = (case cascade_child clock c s of
       (Inl e, s1) \<Rightarrow> Some (Inl e, s1)
     | (Inr _, s1) \<Rightarrow> (case chain_cascade n clock c s1 of
         None \<Rightarrow> None
       | Some (Inl e, s2) \<Rightarrow> Some (Inl e, s2)
       | Some (Inr _, s2) \<Rightarrow> cascade_children n clock cs s2))"

definition cancel_study_with_chain_cascade ::
  "nat \<Rightarrow> (string \<Rightarrow> int) \<Rightarrow> string \<Rightarrow> bool \<Rightarrow> session
   \<Rightarrow> ((state_error + study) \<times> session) option" where
  "cancel_study_with_chain_cascade fuel clock i cascade s =
     (if \<not> cascade then Some (cancel_study clock i s) else chain_cascade fuel clock i s)"

section \<open>State machines\<close>

text \<open>
  What a table of legal transitions promises: the final states have no successor. With a
  rank that every transition increases, a run never comes back to a state it left.
\<close>

locale status_machine =
  fixes targets :: "'s \<Rightarrow> 's list"
    and final :: "'s \<Rightarrow> bool"
  assumes final_no_targets: "final x \<Longrightarrow> targets x = []"
begin

lemma final_absorbing: "(\<lambda>x y. y \<in> set (targets x))\<^sup>*\<^sup>* x y \<Longrightarrow> final x \<Longrightarrow> y = x"
  by (induction rule: converse_rtranclp_induct) (auto simp: final_no_targets)
end

locale progress_machine = status_machine targets final
  for targets :: "'s \<Rightarrow> 's list" and final :: "'s \<Rightarrow> bool" +
  fixes rank :: "'s \<Rightarrow> nat"
  assumes targets_rank: "y \<in> set (targets x) \<Longrightarrow> rank x < rank y"
begin

lemma run_rank: "(\<lambda>x y. y \<in> set (targets x))\<^sup>*\<^sup>* x y \<Longrightarrow> x = y \<or> rank x < rank y"
proof (induction rule: rtranclp_induct)
  case (step y z)
  then show ?case using targets_rank [of z y] by (auto dest: less_trans)
qed simp

lemma no_return:
  "(\<lambda>x y. y \<in> set (targets x))\<^sup>*\<^sup>* x y \<Longrightarrow> (\<lambda>x y. y \<in> set (targets x))\<^sup>*\<^sup>* y x \<Longrightarrow> x = y"
  using run_rank [of x y] run_rank [of y x] by auto
end

fun status_rank :: "study_status \<Rightarrow> nat" where
  "status_rank Queued = 0"
| "status_rank Running = 1"
| "status_rank _ = 2"

interpretation study_sm: progress_machine legal_transitions terminal status_rank
proof unfold_locales
  show "terminal x \<Longrightarrow> legal_transitions x = []" for x by (auto simp: terminal_def)
  show "y \<in> set (legal_transitions x) \<Longrightarrow> status_rank x < status_rank y" for x y
    by (cases x) auto
qed

definition legal_run :: "study_status \<Rightarrow> study_status \<Rightarrow> bool" where
  "legal_run = (\<lambda>x y. y \<in> set (legal_transitions x))\<^sup>*\<^sup>*"

lemma legal_run_refl [simp]: "legal_run x x"
  by (simp add: legal_run_def)

lemma legal_run_step: "y \<in> set (legal_transitions x) \<Longrightarrow> legal_run x y"
  by (simp add: legal_run_def r_into_rtranclp)

lemma legal_run_trans: "legal_run x y \<Longrightarrow> legal_run y z \<Longrightarrow> legal_run x z"
  unfolding legal_run_def by (rule rtranclp_trans)

lemma ensure_legal_simps [simp]:
  "ensure_legal a b = Inr () \<longleftrightarrow> b \<in> set (legal_transitions a)"
  "ensure_legal a b = Inl e \<longleftrightarrow> b \<notin> set (legal_transitions a) \<and> e = InvalidStateTransition a b"
  by (auto simp: ensure_legal_def)

section \<open>What a session may do to the statuses\<close>

definition row_status :: "db \<Rightarrow> string \<Rightarrow> study_status option" where
  "row_status d i = map_option st_status (get_study d i)"

definition advances :: "db \<Rightarrow> db \<Rightarrow> bool" where
  "advances d e = (\<forall>i. rel_option legal_run (row_status d i) (row_status e i))"

lemma advances_refl [simp]: "advances d d"
  by (auto simp: advances_def option.rel_refl)

lemma advances_trans: "advances d e \<Longrightarrow> advances e f \<Longrightarrow> advances d f"
  unfolding advances_def
proof
  fix i
  assume a: "\<forall>i. rel_option legal_run (row_status d i) (row_status e i)"
    "\<forall>i. rel_option legal_run (row_status e i) (row_status f i)"
  have "rel_option legal_run (row_status d i) (row_status e i)"
    "rel_option legal_run (row_status e i) (row_status f i)" using a by auto
  then show "rel_option legal_run (row_status d i) (row_status f i)"
    by (auto simp: option_rel_Some1 option_rel_Some2 rel_option_iff legal_run_trans split: option.splits)
qed

lemma advances_same: "row_status d = row_status e \<Longrightarrow> advances d e"
  by (auto simp: advances_def option.rel_refl)

lemma row_status_update:
  "row_status (update_study i f d) j =
     (if j = i then map_option (\<lambda>s. st_status (f s)) (get_study d i) else row_status d j)"
  by (simp add: row_status_def option.map_comp comp_def)

lemma advances_update:
  "(\<And>s. get_study d i = Some s \<Longrightarrow> legal_run (st_status s) (st_status (f s))) \<Longrightarrow>
     advances d (update_study i f d)"
  by (auto simp: advances_def row_status_update rel_option_iff row_status_def split: option.splits)

text \<open>The promise of every operation: no open authorization, committed rows as before.\<close>

definition session_advances :: "session \<Rightarrow> session \<Rightarrow> bool" where
  "session_advances s t = (\<not> ss_authorized t \<and> ss_committed t = ss_committed s \<and>
     advances (ss_db s) (ss_db t))"

lemma session_advances_refl: "\<not> ss_authorized s \<Longrightarrow> session_advances s s"
  by (simp add: session_advances_def)

lemma session_advances_trans:
  "session_advances s t \<Longrightarrow> session_advances t u \<Longrightarrow> session_advances s u"
  by (auto simp: session_advances_def intro: advances_trans)

lemma write_objects_same:
  "\<forall>ob\<in>set obs. \<not> status_changed d ob \<Longrightarrow> row_status (write_objects obs d) = row_status d"
proof (induction obs arbitrary: d)
  case (Cons ob obs)
  let ?d = "update_study (st_id ob) (\<lambda>_. ob) d"
  have same: "row_status ?d = row_status d"
    using Cons.prems
    by (auto simp: fun_eq_iff row_status_update row_status_def status_changed_def split: option.splits)
  have "status_changed ?d x = status_changed d x" for x
    using fun_cong [OF same, of "st_id x"]
    by (auto simp: row_status_def status_changed_def split: option.splits)
  with Cons same show ?case by (simp add: write_objects_def)
qed (simp add: write_objects_def)

lemma flush_advances:
  "\<not> ss_authorized s \<Longrightarrow> flush s = (r, t) \<Longrightarrow>
     session_advances s t \<and> (\<forall>u. r = Inr u \<longrightarrow> ss_dirty t = [])"
  by (auto simp: flush_def study_state_guard_def session_advances_def write_objects_same
      intro!: advances_same split: if_splits)

lemma flush_clean [simp]: "ss_dirty s = [] \<Longrightarrow> \<not> ss_authorized s \<Longrightarrow> flush s = (Inr (), s)"
  by (simp add: flush_def study_state_guard_def write_objects_def)

section \<open>The contract of the four transitions\<close>

text \<open>
  The shape the four transitions share: load the row under its lock, check the transition
  and write the row with the guard lifted. \<open>idem\<close> says that a row that has the target
  status already is handed back as it is.
\<close>

locale transition_op =
  fixes trans :: "string \<Rightarrow> session \<Rightarrow> (state_error + study) \<times> session"
    and target :: study_status
    and idem :: bool
    and stamp :: "string \<Rightarrow> study \<Rightarrow> study"
  assumes trans_shape: "trans i s = (case load_for_update i s of
       (Inl e, s1) \<Rightarrow> (Inl e, s1)
     | (Inr st, s1) \<Rightarrow>
         (if idem \<and> st_status st = target then (Inr st, s1)
          else (case ensure_legal (st_status st) target of
              Inl e \<Rightarrow> (Inl e, s1)
            | Inr _ \<Rightarrow> authorize_status_mutation st (stamp i) s1)))"
    and stamp_status: "st_status (stamp i x) = target"
    and stamp_id: "st_id (stamp i x) = st_id x"
begin

lemma trans_clean:
  assumes "ss_dirty s = []" "\<not> ss_authorized s"
  shows "trans i s = (case get_study (ss_db s) i of
       None \<Rightarrow> (Inl (StudyNotFound i), s)
     | Some st \<Rightarrow>
         (if idem \<and> st_status st = target then (Inr st, s)
          else if target \<in> set (legal_transitions (st_status st)) then
            (Inr (stamp i st), s\<lparr>ss_db := update_study i (\<lambda>_. stamp i st) (ss_db s)\<rparr>)
          else (Inl (InvalidStateTransition (st_status st) target), s)))"
  using assms
  by (cases "get_study (ss_db s) i")
     (auto simp: trans_shape load_for_update_def authorize_status_mutation_def set_object_def
       flush_def study_state_guard_def write_objects_def ensure_legal_def Let_def stamp_id
       dest: get_study_id)

lemma trans_any:
  assumes "\<not> ss_authorized s" "trans i s = (r, t)"
  shows "(\<exists>e. flush s = (Inl e, t) \<and> r = Inl e) \<or> (\<exists>u. flush s = (Inr (), u) \<and> trans i u = (r, t))"
proof (cases "flush s")
  case (Pair q u)
  show ?thesis
  proof (cases q)
    case (Inl e)
    then show ?thesis using assms(2) by (simp add: trans_shape load_for_update_def Pair)
  next
    case (Inr x)
    have "session_advances s u" "ss_dirty u = []"
      using flush_advances [OF assms(1) Pair] Inr by auto
    then have "flush u = (Inr (), u)" by (simp add: session_advances_def)
    then show ?thesis using assms(2) Inr by (simp add: trans_shape load_for_update_def Pair)
  qed
qed

lemma trans_advances:
  assumes "\<not> ss_authorized s" "trans i s = (r, t)"
  shows "session_advances s t"
proof -
  have clean: "session_advances u t"
    if "ss_dirty u = []" "\<not> ss_authorized u" "trans i u = (r, t)" for u
    using that
    by (auto simp: trans_clean session_advances_def stamp_status
        intro!: advances_update legal_run_step split: option.splits if_splits)
  from trans_any [OF assms] show ?thesis
    using flush_advances [OF assms(1)] clean
    by (metis session_advances_def session_advances_trans)
qed

lemma trans_ok:
  assumes "ss_dirty s = []" "\<not> ss_authorized s" "get_study (ss_db s) i = Some st"
    and "target \<in> set (legal_transitions (st_status st))"
  shows "\<exists>t. trans i s = (Inr (stamp i st), t) \<and> get_study (ss_db t) i = Some (stamp i st) \<and>
    (\<forall>j. j \<noteq> i \<longrightarrow> get_study (ss_db t) j = get_study (ss_db s) j)"
proof -
  have n: "\<not> (idem \<and> st_status st = target)"
    using assms(4) study_sm.targets_rank by force
  have "st_id (stamp i st) = i" using assms(3) by (auto simp: stamp_id dest: get_study_id)
  then have "(stamp i st)\<lparr>st_id := i\<rparr> = stamp i st" by simp
  with n assms show ?thesis by (auto simp: trans_clean)
qed

lemma trans_illegal:
  assumes "ss_dirty s = []" "\<not> ss_authorized s" "get_study (ss_db s) i = Some st"
    and "target \<notin> set (legal_transitions (st_status st))" "\<not> (idem \<and> st_status st = target)"
  shows "trans i s = (Inl (InvalidStateTransition (st_status st) target), s)"
  using assms by (simp add: trans_clean)

lemma trans_missing:
  "ss_dirty s = [] \<Longrightarrow> \<not> ss_authorized s \<Longrightarrow> get_study (ss_db s) i = None \<Longrightarrow>
     trans i s = (Inl (StudyNotFound i), s)"
  by (simp add: trans_clean)
end

interpretation start_op: transition_op "start_study clock" Running True
    "\<lambda>i x. x\<lparr>st_status := Running, st_started_at := Some (clock i)\<rparr>" for clock
  by unfold_locales (auto simp: start_study_def split: sum.splits prod.splits)

interpretation cancel_op: transition_op "cancel_study clock" Cancelled False
    "\<lambda>i x. x\<lparr>st_status := Cancelled, st_completed_at := Some (clock i)\<rparr>" for clock
  by unfold_locales (auto simp: cancel_study_def split: sum.splits prod.splits)

interpretation complete_op: transition_op "\<lambda>i. complete_study clock i bm bt" Completed False
    "\<lambda>i x. x\<lparr>st_status := Completed, st_completed_at := Some (clock i),
             st_best_metric := bm, st_best_trial_id := bt\<rparr>" for clock bm bt
  by unfold_locales (auto simp: complete_study_def split: sum.splits prod.splits)

interpretation fail_op: transition_op "\<lambda>i. fail_study clock i reason" Failed False
    "\<lambda>i x. x\<lparr>st_status := Failed, st_completed_at := Some (clock i),
             st_failed_reason := Some reason\<rparr>" for clock reason
  by unfold_locales (auto simp: fail_study_def split: sum.splits prod.splits)

section \<open>Every operation keeps the promise\<close>

text \<open>A column other than the status is assigned without touching the status.\<close>

definition setters_ok :: "(string \<times> (study \<Rightarrow> study)) list \<Rightarrow> bool" where
  "setters_ok cols = (\<forall>(c, f)\<in>set cols. c \<noteq> ''status'' \<longrightarrow> (\<forall>x. st_status (f x) = st_status x))"

lemma setters_status:
  "setters_ok cols \<Longrightarrow> ''status'' \<notin> fst ` set cols \<Longrightarrow>
     st_status (fold (\<lambda>(c, f). f) cols x) = st_status x"
  by (induction cols arbitrary: x) (auto simp: setters_ok_def)

lemma bulk_status:
  "(\<And>x. st_status (g x) = st_status x) \<Longrightarrow>
     row_status (fold (\<lambda>r. if p r then update_study (st_id r) g else id) rs d) = row_status d"
proof (induction rs arbitrary: d)
  case (Cons r rs)
  have "row_status (update_study (st_id r) g d) = row_status d"
    using Cons.prems
    by (auto simp: fun_eq_iff row_status_update row_status_def [of d] simp del: get_study_update)
  with Cons show ?case by simp
qed simp

lemma session_advances_db:
  "session_advances s u \<Longrightarrow> advances (ss_db u) d \<Longrightarrow> session_advances s (u\<lparr>ss_db := d\<rparr>)"
  by (auto simp: session_advances_def intro: advances_trans)

lemma session_advances_dirty [simp]:
  "session_advances s (u\<lparr>ss_dirty := xs\<rparr>) = session_advances s u"
  by (simp add: session_advances_def)

lemma execute_update_advances:
  assumes "\<not> ss_authorized s" "execute_update p cols s = (r, t)" "setters_ok cols"
  shows "session_advances s t"
proof (cases "''status'' \<in> fst ` set cols")
  case True
  with assms show ?thesis
    by (simp add: execute_update_def orm_execute_guard_def session_advances_refl)
next
  case False
  obtain q u where f: "flush s = (q, u)" by (cases "flush s")
  note a = flush_advances [OF assms(1) f]
  have "session_advances s (u\<lparr>ss_db := fold (\<lambda>r. if p r then update_study (st_id r)
      (\<lambda>x. fold (\<lambda>(c, f). f) cols x) else id) (db_studies (ss_db u)) (ss_db u)\<rparr>)"
    by (rule session_advances_db [OF conjunct1 [OF a]])
      (simp add: advances_same bulk_status [OF setters_status [OF assms(3) False]])
  with a f False assms show ?thesis
    by (auto simp: execute_update_def orm_execute_guard_def split: sum.splits)
qed

lemma stamp_baseline_advances:
  assumes "\<not> ss_authorized s" "stamp_baseline_trial i tid m s = (r, t)"
  shows "session_advances s t"
proof -
  obtain q u where f: "flush s = (q, u)" by (cases "flush s")
  have "session_advances s u" using flush_advances [OF assms(1) f] by simp
  moreover have "session_advances s (u\<lparr>ss_db := update_study i
      (\<lambda>x. x\<lparr>st_baseline_trial_id := Some tid, st_baseline_metric := Some m\<rparr>) (ss_db u)\<rparr>)"
    using calculation by (intro session_advances_db advances_update) auto
  ultimately show ?thesis
    using assms(2) by (auto simp: stamp_baseline_trial_def f split: sum.splits option.splits if_splits)
qed

lemma assign_advances: "\<not> ss_authorized s \<Longrightarrow> session_advances s (assign_attributes i f s)"
  by (simp add: assign_attributes_def set_object_def session_advances_refl split: option.splits)

lemma load_advances:
  "\<not> ss_authorized s \<Longrightarrow> load_for_update i s = (r, t) \<Longrightarrow>
     session_advances s t \<and> (\<forall>st. r = Inr st \<longrightarrow> flush s = (Inr (), t) \<and> ss_dirty t = [])"
  using flush_advances [of s]
  by (auto simp: load_for_update_def split: prod.splits sum.splits option.splits)

lemma cascade_parent_advances:
  assumes "\<not> ss_authorized s" "cascade_parent clock parent s = (r, t)"
  shows "session_advances s t"
proof -
  have fl: "session_advances s u" if "flush (set_object ob s) = (q, u)" for ob q u
  proof -
    have "session_advances (set_object ob s) u"
      using flush_advances [OF _ that] assms(1) by (simp add: set_object_def)
    then show ?thesis by (simp add: session_advances_def set_object_def)
  qed
  have ca: "session_advances s u" if "cancel_study clock i s = (q, u)" for i q u
    using cancel_op.trans_advances [OF assms(1) that] .
  have "session_advances s s" using assms(1) by (rule session_advances_refl)
  with assms(2) ca fl show ?thesis
    unfolding cascade_parent_def Let_def
    by (fastforce split: if_splits prod.splits sum.splits state_error.splits pyval.splits option.splits)
qed

lemma cascade_child_advances:
  assumes "\<not> ss_authorized s" "cascade_child clock c s = (r, t)"
  shows "session_advances s t"
proof -
  have "session_advances s u" if "cancel_study clock i s = (q, u)" for i q u
    using cancel_op.trans_advances [OF assms(1) that] .
  moreover have "session_advances s s" using assms(1) by (rule session_advances_refl)
  ultimately show ?thesis
    using assms(2) unfolding cascade_child_def
    by (fastforce split: if_splits prod.splits sum.splits state_error.splits option.splits)
qed

lemma chain_cascade_advances:
  "\<not> ss_authorized s \<Longrightarrow> chain_cascade n clock i s = Some (r, t) \<Longrightarrow> session_advances s t"
  "\<not> ss_authorized s \<Longrightarrow> cascade_children n clock cs s = Some (q, t) \<Longrightarrow> session_advances s t"
proof (induction n clock i s and n clock cs s arbitrary: r t and q t
    rule: chain_cascade_cascade_children.induct)
  case (2 n clock i s)
  obtain r1 s1 where l: "load_for_update i s = (r1, s1)" by (cases "load_for_update i s")
  note a1 = load_advances [OF 2(2) l]
  show ?case
  proof (cases r1)
    case (Inl e)
    then show ?thesis using 2(3) a1 l by simp
  next
    case (Inr parent)
    obtain r2 s2 where p: "cascade_parent clock parent s1 = (r2, s2)"
      by (cases "cascade_parent clock parent s1")
    have a2: "session_advances s s2"
      using a1 cascade_parent_advances [OF _ p] session_advances_trans
      by (auto simp: session_advances_def)
    show ?thesis
    proof (cases r2)
      case (Inl e)
      then show ?thesis using 2(3) l p \<open>r1 = Inr parent\<close> a2 by simp
    next
      case r2: (Inr parent')
      obtain r3 s3 where f: "flush s2 = (r3, s3)" by (cases "flush s2")
      have a3: "session_advances s s3"
        using a2 flush_advances [OF _ f] session_advances_trans by (auto simp: session_advances_def)
      show ?thesis
      proof (cases r3)
        case (Inl e)
        then show ?thesis using 2(3) l p f \<open>r1 = Inr parent\<close> r2 a3 by simp
      next
        case r3: (Inr x)
        have na: "\<not> ss_authorized s3" using a3 by (simp add: session_advances_def)
        obtain q where
          "cascade_children n clock (map st_id (list_children_of_study (ss_db s3) i)) s3 = Some (q, t)"
          using 2(3) l p f \<open>r1 = Inr parent\<close> r2 r3
          by (auto split: option.splits sum.splits prod.splits)
        then have "session_advances s3 t"
          using 2(1) [OF l [symmetric] \<open>r1 = Inr parent\<close> p [symmetric] r2 f [symmetric]] r3 na
          by simp
        with a3 show ?thesis by (rule session_advances_trans)
      qed
    qed
  qed
next
  case (4 n clock c cs s)
  obtain r1 s1 where c: "cascade_child clock c s = (r1, s1)" by (cases "cascade_child clock c s")
  note a1 = cascade_child_advances [OF 4(3) c]
  then have n1: "\<not> ss_authorized s1" by (simp add: session_advances_def)
  show ?case
  proof (cases r1)
    case (Inl e)
    then show ?thesis using 4(4) c a1 by simp
  next
    case (Inr u)
    show ?thesis
    proof (cases "chain_cascade n clock c s1")
      case None
      then show ?thesis using 4(4) c Inr by simp
    next
      case (Some p)
      obtain r2 s2 where p: "p = (r2, s2)" by (cases p)
      have a2: "session_advances s s2"
        using session_advances_trans [OF a1 4(1) [OF c [symmetric] Inr n1]] Some p by simp
      show ?thesis
      proof (cases r2)
        case (Inl e)
        then show ?thesis using 4(4) c \<open>r1 = Inr u\<close> Some p a2 by simp
      next
        case r2: (Inr x)
        have n2: "\<not> ss_authorized s2" using a2 by (simp add: session_advances_def)
        have "cascade_children n clock cs s2 = Some (q, t)"
          using 4(4) c \<open>r1 = Inr u\<close> Some p r2 by simp
        with 4(2) [OF c [symmetric] \<open>r1 = Inr u\<close> Some p [symmetric] r2 n2] a2 show ?thesis
          by (blast intro: session_advances_trans)
      qed
    qed
  qed
qed (auto simp: session_advances_refl)

section \<open>Everything a session can do\<close>

text \<open>
  One step of code that uses a session: attribute writes on mapped objects (any function of
  the row), bulk updates, the service's operations, flush, commit and rollback, each with
  whatever result it has.
\<close>

inductive session_step :: "(string \<Rightarrow> int) \<Rightarrow> session \<Rightarrow> session \<Rightarrow> bool" for clock where
  attr_write: "session_step clock s (assign_attributes i f s)"
| flushed: "flush s = (r, t) \<Longrightarrow> session_step clock s t"
| bulk: "execute_update p cols s = (r, t) \<Longrightarrow> setters_ok cols \<Longrightarrow> session_step clock s t"
| start: "start_study clock i s = (q, t) \<Longrightarrow> session_step clock s t"
| complete: "complete_study clock i bm bt s = (q, t) \<Longrightarrow> session_step clock s t"
| fail: "fail_study clock i reason s = (q, t) \<Longrightarrow> session_step clock s t"
| stamp: "stamp_baseline_trial i tid m s = (b, t) \<Longrightarrow> session_step clock s t"
| cancel: "cancel_study_with_chain_cascade n clock i cascade s = Some (q, t) \<Longrightarrow>
    session_step clock s t"
| committed: "commit s = (r, t) \<Longrightarrow> session_step clock s t"
| rolled_back: "session_step clock s (rollback s)"

definition opened_on :: "db \<Rightarrow> session \<Rightarrow> bool" where
  "opened_on d s = (\<not> ss_authorized s \<and> advances d (ss_committed s) \<and>
     advances (ss_committed s) (ss_db s))"

definition fresh_session :: "db \<Rightarrow> session" where
  "fresh_session d = \<lparr>ss_db = d, ss_committed = d, ss_dirty = [], ss_authorized = False\<rparr>"

lemma opened_on_fresh: "opened_on d (fresh_session d)"
  by (simp add: opened_on_def fresh_session_def)

lemma opened_on_advances:
  "opened_on d s \<Longrightarrow> (\<not> ss_authorized s \<Longrightarrow> session_advances s t) \<Longrightarrow> opened_on d t"
  by (auto simp: opened_on_def session_advances_def intro: advances_trans)

lemma opened_on_commit: "opened_on d s \<Longrightarrow> commit s = (r, t) \<Longrightarrow> opened_on d t"
proof -
  assume o: "opened_on d s" and c: "commit s = (r, t)"
  obtain q u where f: "flush s = (q, u)" by (cases "flush s")
  have "opened_on d u"
    by (rule opened_on_advances [OF o]) (use flush_advances [OF _ f] in blast)
  then show "opened_on d t"
    using c f by (auto simp: commit_def opened_on_def intro: advances_trans split: sum.splits)
qed

lemma cancel_cascade_advances:
  "\<not> ss_authorized s \<Longrightarrow> cancel_study_with_chain_cascade n clock i cascade s = Some (q, t) \<Longrightarrow>
     session_advances s t"
  using cancel_op.trans_advances [of s clock i] chain_cascade_advances(1) [of s n clock i]
  by (auto simp: cancel_study_with_chain_cascade_def split: if_splits)

lemma opened_on_step: "session_step clock s t \<Longrightarrow> opened_on d s \<Longrightarrow> opened_on d t"
proof (induction rule: session_step.induct)
  case (attr_write s i f)
  then show ?case by (blast intro: opened_on_advances assign_advances)
next
  case (flushed s r t)
  then show ?case by (blast intro: opened_on_advances dest: flush_advances)
next
  case (bulk p cols s r t)
  then show ?case by (blast intro: opened_on_advances execute_update_advances)
next
  case (start i s q t)
  then show ?case by (blast intro: opened_on_advances start_op.trans_advances)
next
  case (complete i bm bt s q t)
  show ?case by (rule opened_on_advances [OF complete(2)], rule complete_op.trans_advances)
      (use complete(1) in auto)
next
  case (fail i reason s q t)
  show ?case by (rule opened_on_advances [OF fail(2)], rule fail_op.trans_advances)
      (use fail(1) in auto)
next
  case (stamp i tid m s b t)
  then show ?case by (blast intro: opened_on_advances stamp_baseline_advances)
next
  case (cancel n i cascade s q t)
  then show ?case by (blast intro: opened_on_advances cancel_cascade_advances)
next
  case (committed s r t)
  then show ?case by (blast intro: opened_on_commit)
next
  case (rolled_back s)
  then show ?case by (simp add: opened_on_def rollback_def)
qed

lemma opened_on_run: "(session_step clock)\<^sup>*\<^sup>* s t \<Longrightarrow> opened_on d s \<Longrightarrow> opened_on d t"
  by (induction rule: rtranclp_induct) (blast dest: opened_on_step)+

lemma rel_option_status:
  "advances d e \<Longrightarrow> get_study d i = Some st \<Longrightarrow>
     \<exists>st'. get_study e i = Some st' \<and> legal_run (st_status st) (st_status st')"
  unfolding advances_def row_status_def by (drule spec [of _ i]) (auto simp: option_rel_Some1)

section \<open>Properties\<close>

text \<open>C1 Whatever a transaction does - attribute writes, bulk updates, the service's
  operations, flushes, commits, rollbacks - a study's row, as the transaction sees it and as
  it is committed, only ever moves along the legal transitions.\<close>

theorem statuses_follow_transitions:
  assumes "(session_step clock)\<^sup>*\<^sup>* (fresh_session d) s"
    and "get_study d i = Some st"
  shows "(\<exists>st'. get_study (ss_db s) i = Some st' \<and> legal_run (st_status st) (st_status st')) \<and>
    (\<exists>st'. get_study (ss_committed s) i = Some st' \<and> legal_run (st_status st) (st_status st'))"
proof -
  have "opened_on d s" using opened_on_run [OF assms(1) opened_on_fresh] .
  then show ?thesis
    unfolding opened_on_def by (meson advances_trans rel_option_status assms(2))
qed

definition sample_session :: session where
  "sample_session = fresh_session \<lparr>db_studies = [sample_study ''a'' None Queued],
     db_trials = [(sample_trial ''t'' ''a'' 0 Complete None)\<lparr>tr_is_baseline := True\<rparr>],
     db_proposals = []\<rparr>"

lemmas sample_defs = sample_session_def fresh_session_def sample_study_def sample_trial_def
  get_study_def get_trial_def

lemma statuses_follow_transitions_witness:
  "\<exists>st'. get_study (ss_db (snd (start_study (\<lambda>_. 5) ''a'' sample_session))) ''a'' = Some st' \<and>
     legal_run Queued (st_status st')"
proof -
  have "session_step (\<lambda>_. 5) (fresh_session (ss_db sample_session))
      (snd (start_study (\<lambda>_. 5) ''a'' sample_session))"
    by (rule start [of _ "''a''" _ "fst (start_study (\<lambda>_. 5) ''a'' sample_session)"])
      (simp add: sample_session_def fresh_session_def)
  then have "(session_step (\<lambda>_. 5))\<^sup>*\<^sup>* (fresh_session (ss_db sample_session))
      (snd (start_study (\<lambda>_. 5) ''a'' sample_session))" by (rule r_into_rtranclp)
  from statuses_follow_transitions [OF this, of "''a''" "sample_study ''a'' None Queued"]
  show ?thesis by (auto simp: sample_defs)
qed

text \<open>Assigning a study's status outside the service is refused: the flush (and the
  commit) of a mapped object whose status differs from its row raises, and neither the
  transaction's tables nor the committed ones change.\<close>

theorem direct_status_write_refused:
  assumes "\<not> ss_authorized s" and "get_study (ss_db s) i = Some r"
    and "object_of s i = Some ob" and "st_status (f ob) \<noteq> st_status r"
  shows "flush (assign_attributes i f s) = (Inl StudyStateProtectionError, assign_attributes i f s) \<and>
    commit (assign_attributes i f s) = (Inl StudyStateProtectionError, assign_attributes i f s) \<and>
    ss_db (assign_attributes i f s) = ss_db s \<and> ss_committed (assign_attributes i f s) = ss_committed s"
proof -
  have "study_state_guard (assign_attributes i f s) = Inl StudyStateProtectionError"
    using assms by (auto simp: study_state_guard_def assign_attributes_def set_object_def
        status_changed_def)
  then show ?thesis
    by (simp add: flush_def commit_def) (simp add: assign_attributes_def set_object_def assms(3))
qed

lemma direct_status_write_refused_witness:
  "fst (commit (assign_attributes ''a'' (st_status_update (\<lambda>_. Completed)) sample_session)) =
     Inl StudyStateProtectionError"
  using direct_status_write_refused [of sample_session "''a''" "sample_study ''a'' None Queued"
      "sample_study ''a'' None Queued" "st_status_update (\<lambda>_. Completed)"]
  by (simp add: sample_defs object_of_def)

text \<open>From a session with nothing pending, each operation succeeds exactly on the rows
  whose status it may leave (starting a running study is allowed and does nothing), and a
  refused call leaves the session as it was.\<close>

theorem transitions_succeed_iff:
  assumes "ss_dirty s = []" and "\<not> ss_authorized s"
  shows "((\<exists>x. fst (start_study clock i s) = Inr x) \<longleftrightarrow>
        row_status (ss_db s) i = Some Queued \<or> row_status (ss_db s) i = Some Running) \<and>
    (row_status (ss_db s) i = Some Running \<longrightarrow> snd (start_study clock i s) = s) \<and>
    ((\<exists>x. fst (cancel_study clock i s) = Inr x) \<longleftrightarrow>
        row_status (ss_db s) i = Some Queued \<or> row_status (ss_db s) i = Some Running) \<and>
    ((\<exists>x. fst (complete_study clock i bm bt s) = Inr x) \<longleftrightarrow> row_status (ss_db s) i = Some Running) \<and>
    ((\<exists>x. fst (fail_study clock i reason s) = Inr x) \<longleftrightarrow> row_status (ss_db s) i = Some Running) \<and>
    (\<forall>e. fst (start_study clock i s) = Inl e \<longrightarrow> snd (start_study clock i s) = s) \<and>
    (\<forall>e. fst (cancel_study clock i s) = Inl e \<longrightarrow> snd (cancel_study clock i s) = s) \<and>
    (\<forall>e. fst (complete_study clock i bm bt s) = Inl e \<longrightarrow> snd (complete_study clock i bm bt s) = s) \<and>
    (\<forall>e. fst (fail_study clock i reason s) = Inl e \<longrightarrow> snd (fail_study clock i reason s) = s)"
proof (cases "get_study (ss_db s) i")
  case None
  then show ?thesis
    using assms by (simp add: row_status_def start_op.trans_clean cancel_op.trans_clean
        complete_op.trans_clean fail_op.trans_clean)
next
  case (Some st)
  then show ?thesis
    using assms by (cases "st_status st") (simp_all add: row_status_def start_op.trans_clean
        cancel_op.trans_clean complete_op.trans_clean fail_op.trans_clean)
qed

lemma transitions_succeed_iff_witness:
  "\<exists>x. fst (start_study (\<lambda>_. 5) ''a'' sample_session) = Inr x"
  using transitions_succeed_iff [of sample_session "\<lambda>_. 5" "''a''"]
  by (simp add: sample_defs row_status_def)

text \<open>Completing a running study stamps exactly the winner it is given: the row becomes
  completed with that metric, trial and time, and no other row changes.\<close>

theorem complete_study_row:
  assumes "ss_dirty s = []" and "\<not> ss_authorized s"
    and "get_study (ss_db s) i = Some st" and "st_status st = Running"
  shows "\<exists>t. complete_study clock i bm bt s =
      (Inr (st\<lparr>st_status := Completed, st_completed_at := Some (clock i), st_best_metric := bm,
               st_best_trial_id := bt\<rparr>), t) \<and>
    get_study (ss_db t) i = Some (st\<lparr>st_status := Completed, st_completed_at := Some (clock i),
               st_best_metric := bm, st_best_trial_id := bt\<rparr>) \<and>
    (\<forall>j. j \<noteq> i \<longrightarrow> get_study (ss_db t) j = get_study (ss_db s) j)"
  using complete_op.trans_ok [OF assms(1,2,3), of clock bm bt] assms(4) by simp

lemma complete_study_row_witness:
  "\<exists>t. fst (complete_study (\<lambda>_. 7) ''a'' (Some PInf) (Some ''t'')
       (fresh_session \<lparr>db_studies = [sample_study ''a'' None Running], db_trials = [], db_proposals = []\<rparr>))
     = Inr t \<and> st_best_trial_id t = Some ''t''"
  using complete_study_row [of "fresh_session \<lparr>db_studies = [sample_study ''a'' None Running],
      db_trials = [], db_proposals = []\<rparr>" "''a''" "sample_study ''a'' None Running" "\<lambda>_. 7" "Some PInf"
      "Some ''t''"]
  by (auto simp: sample_defs)

text \<open>Stamping the baseline happens once: whatever the tables hold, a second call with the
  same study raises or reports that it wrote nothing, and it changes no row.\<close>

theorem baseline_stamped_once:
  assumes "\<not> ss_authorized s" and "stamp_baseline_trial i t1 m1 s = (Inr b, s1)"
  shows "snd (stamp_baseline_trial i t2 m2 s1) = s1 \<and>
    fst (stamp_baseline_trial i t2 m2 s1) \<noteq> Inr True"
proof -
  obtain q u where f: "flush s = (q, u)" by (cases "flush s")
  have u: "q = Inr () \<Longrightarrow> \<not> ss_authorized u \<and> ss_dirty u = []"
    using flush_advances [OF assms(1) f] by (auto simp: session_advances_def)
  have "\<not> ss_authorized s1 \<and> ss_dirty s1 = [] \<and>
      (\<forall>r. get_study (ss_db s1) i = Some r \<longrightarrow> st_baseline_trial_id r \<noteq> None)"
    using assms(2) u
    by (auto simp: stamp_baseline_trial_def f split: sum.splits option.splits if_splits)
  then show ?thesis
    by (auto simp: stamp_baseline_trial_def split: option.splits)
qed

lemma baseline_stamped_once_witness:
  "fst (stamp_baseline_trial ''a'' ''t'' (Fin 1)
      (snd (stamp_baseline_trial ''a'' ''t'' (Fin 0) sample_session))) \<noteq> Inr True"
  using baseline_stamped_once [of sample_session "''a''" "''t''" "Fin 0" True
      "snd (stamp_baseline_trial ''a'' ''t'' (Fin 0) sample_session)" "''t''" "Fin 1"]
  by (simp add: sample_defs stamp_baseline_trial_def flush_def study_state_guard_def write_objects_def)

end
