(* ===== verification/Study_Cascade.thy ===== *)
theory Study_Cascade
  imports Study_State
begin

text \<open>
  What cancelling a chain does (\<open>cancel_study_with_chain_cascade\<close>): a specification that
  stops the rows of a subtree all at once, and the proof that the recursive procedure of
  \<open>Study_State\<close>, which loads, cancels and flushes row by row, implements it whenever the
  parent links have no cycle.
\<close>

section \<open>The specification\<close>

definition depth_positive :: "study \<Rightarrow> bool" where
  "depth_positive r = (case num_of (obj_get (st_config r) depth_key) of
       None \<Rightarrow> False | Some n \<Rightarrow> flt (Fin 0) n)"

text \<open>Stopping one row: cancelled when in flight; a completed one gets no follow-up any more.\<close>

definition stop_row :: "(string \<Rightarrow> int) \<Rightarrow> study \<Rightarrow> study" where
  "stop_row clock r =
     (if in_flight (st_status r)
      then r\<lparr>st_status := Cancelled, st_completed_at := Some (clock (st_id r))\<rparr>
      else if st_status r = Completed \<and> depth_positive r
      then r\<lparr>st_config := dict_set depth_key (PInt 0) (st_config r)\<rparr>
      else r)"

definition stop_rows :: "(string \<Rightarrow> int) \<Rightarrow> string set \<Rightarrow> db \<Rightarrow> db" where
  "stop_rows clock S d =
     d\<lparr>db_studies := map (\<lambda>r. if st_id r \<in> S then stop_row clock r else r) (db_studies d)\<rparr>"

definition child_of :: "db \<Rightarrow> string \<Rightarrow> string \<Rightarrow> bool" where
  "child_of d a b = (\<exists>r\<in>set (db_studies d). st_id r = b \<and> st_parent_study_id r = Some a)"

definition subtree :: "db \<Rightarrow> string \<Rightarrow> string set" where
  "subtree d i = {j. (child_of d)\<^sup>*\<^sup>* i j}"

text \<open>The depth is absent or a number on every completed row.\<close>

definition depth_ok :: "study \<Rightarrow> bool" where
  "depth_ok r = (st_status r = Completed \<longrightarrow>
     obj_get (st_config r) depth_key = PNone \<or> num_of (obj_get (st_config r) depth_key) \<noteq> None)"

section \<open>Lemmas\<close>

lemma stop_row_fields [simp]:
  "st_id (stop_row clock r) = st_id r"
  "st_parent_study_id (stop_row clock r) = st_parent_study_id r"
  "st_created_at (stop_row clock r) = st_created_at r"
  by (auto simp: stop_row_def)

lemma stop_row_idem [simp]: "stop_row clock (stop_row clock r) = stop_row clock r"
  by (auto simp: stop_row_def in_flight_def depth_positive_def)

lemma depth_ok_stop [simp]: "depth_ok r \<Longrightarrow> depth_ok (stop_row clock r)"
  by (auto simp: stop_row_def in_flight_def depth_ok_def)

lemma not_in_flight_stop [simp]: "\<not> in_flight (st_status (stop_row clock r))"
  by (auto simp: stop_row_def in_flight_def)

lemma stop_rows_twice: "stop_rows clock S (stop_rows clock T d) = stop_rows clock (S \<union> T) d"
  by (auto simp: stop_rows_def comp_def intro!: map_cong)

lemma stop_rows_empty [simp]: "stop_rows clock {} d = d"
  by (simp add: stop_rows_def)

lemma study_ids_stop [simp]: "study_ids (stop_rows clock S d) = study_ids d"
  by (auto simp: stop_rows_def study_ids_def)

lemma get_study_stop:
  "get_study (stop_rows clock S d) i =
     map_option (\<lambda>r. if i \<in> S then stop_row clock r else r) (get_study d i)"
proof -
  have "get_study (stop_rows clock S d) i =
      map_option (\<lambda>r. if st_id r \<in> S then stop_row clock r else r) (get_study d i)"
    by (simp add: get_study_def stop_rows_def find_map_id)
  then show ?thesis by (cases "get_study d i") (auto dest: get_study_id)
qed

lemma children_stop:
  "map st_id (list_children_of_study (stop_rows clock S d) i) =
     map st_id (list_children_of_study d i)"
proof -
  define f where "f r = (if st_id r \<in> S then stop_row clock r else r)" for r
  have f: "st_id (f r) = st_id r" "st_parent_study_id (f r) = st_parent_study_id r"
    "st_created_at (f r) = st_created_at r" for r by (auto simp: f_def)
  have "db_studies (stop_rows clock S d) = map f (db_studies d)"
    by (simp add: stop_rows_def f_def)
  then show ?thesis
    by (simp add: list_children_of_study_def filter_map comp_def sort_key_map f)
qed

lemma in_children: "b \<in> st_id ` set (list_children_of_study d a) \<longleftrightarrow> child_of d a b"
  by (auto simp: list_children_of_study_def child_of_def)

lemma subtree_children:
  "subtree d i = insert i (\<Union>c\<in>st_id ` set (list_children_of_study d i). subtree d c)"
proof (intro set_eqI iffI)
  fix x assume "x \<in> subtree d i"
  then have "(child_of d)\<^sup>*\<^sup>* i x" by (simp add: subtree_def)
  then show "x \<in> insert i (\<Union>c\<in>st_id ` set (list_children_of_study d i). subtree d c)"
    by (cases rule: converse_rtranclpE)
      (auto simp: subtree_def in_children [of _ d i, symmetric] image_iff)
next
  fix x assume "x \<in> insert i (\<Union>c\<in>st_id ` set (list_children_of_study d i). subtree d c)"
  then show "x \<in> subtree d i"
    using in_children [of _ d i]
    by (auto simp: subtree_def intro: converse_rtranclp_into_rtranclp)
qed

lemma subtree_self [simp]: "i \<in> subtree d i"
  by (simp add: subtree_def)

section \<open>One row\<close>

definition clean :: "session \<Rightarrow> bool" where
  "clean s = (ss_dirty s = [] \<and> \<not> ss_authorized s)"

lemma clean_db [simp]: "clean (s\<lparr>ss_db := d\<rparr>) = clean s"
  by (simp add: clean_def)

lemma flush_clean' [simp]: "clean s \<Longrightarrow> flush s = (Inr (), s)"
  by (simp add: clean_def)

lemma update_study_stop:
  assumes "get_study d i = Some r" "distinct (study_ids d)" "st_id ob = i" "ob = stop_row clock r"
  shows "update_study i (\<lambda>_. ob) d = stop_rows clock {i} d"
proof -
  have "(if st_id x = i then ob\<lparr>st_id := i\<rparr> else x) = (if st_id x \<in> {i} then stop_row clock x else x)"
    if "x \<in> set (db_studies d)" for x
  proof (cases "st_id x = i")
    case True
    then have "x = r" using get_study_in [OF assms(2) that] assms(1) by simp
    moreover have "ob\<lparr>st_id := i\<rparr> = ob" using assms(3) by simp
    ultimately show ?thesis using True assms(4) by simp
  qed simp
  then show ?thesis by (auto simp: update_study_def stop_rows_def intro!: map_cong)
qed

lemma stop_rows_same:
  assumes "get_study d i = Some r" "distinct (study_ids d)" "stop_row clock r = r"
  shows "stop_rows clock {i} d = d"
proof -
  have "(if st_id x \<in> {i} then stop_row clock x else x) = x" if "x \<in> set (db_studies d)" for x
    using get_study_in [OF assms(2) that] assms(1,3) by auto
  then have "map (\<lambda>x. if st_id x \<in> {i} then stop_row clock x else x) (db_studies d) = db_studies d"
    by (rule map_idI)
  then show ?thesis by (simp add: stop_rows_def)
qed

lemma cancel_in_flight:
  assumes "clean s" "get_study (ss_db s) i = Some r" "distinct (study_ids (ss_db s))"
    "in_flight (st_status r)"
  shows "cancel_study clock i s = (Inr (stop_row clock r), s\<lparr>ss_db := stop_rows clock {i} (ss_db s)\<rparr>)"
proof -
  have i: "st_id r = i" using assms(2) by (simp add: get_study_id)
  have e: "r\<lparr>st_status := Cancelled, st_completed_at := Some (clock i)\<rparr> = stop_row clock r"
    using assms(4) i by (simp add: stop_row_def)
  have "Cancelled \<in> set (legal_transitions (st_status r))"
    using assms(4) by (auto simp: in_flight_def)
  then show ?thesis
    using assms update_study_stop [OF assms(2,3) _ refl] i
    by (simp add: cancel_op.trans_clean clean_def e)
qed

lemma cascade_parent_stop:
  assumes "clean s" "get_study (ss_db s) i = Some r" "distinct (study_ids (ss_db s))" "depth_ok r"
  shows "cascade_parent clock r s =
    (Inr (stop_row clock r), s\<lparr>ss_db := stop_rows clock {i} (ss_db s)\<rparr>)"
proof -
  have i: "st_id r = i" using assms(2) by (simp add: get_study_id)
  consider (fl) "in_flight (st_status r)" | (dep) "st_status r = Completed" "depth_positive r"
    | (other) "\<not> in_flight (st_status r)" "\<not> (st_status r = Completed \<and> depth_positive r)"
    by auto
  then show ?thesis
  proof cases
    case fl
    then show ?thesis
      by (simp add: cascade_parent_def i cancel_in_flight [OF assms(1-3)])
  next
    case dep
    let ?ob = "r\<lparr>st_config := dict_set depth_key (PInt 0) (st_config r)\<rparr>"
    have ob: "?ob = stop_row clock r" using dep by (simp add: stop_row_def in_flight_def)
    have fl: "flush (set_object ?ob s) = (Inr (), s\<lparr>ss_db := stop_rows clock {i} (ss_db s)\<rparr>)"
      using assms(1,2) update_study_stop [OF assms(2,3) _ ob] i
      by (simp add: flush_def set_object_def clean_def study_state_guard_def status_changed_def
          write_objects_def)
    obtain n where n: "num_of (obj_get (st_config r) depth_key) = Some n" "flt (Fin 0) n"
      using dep(2) by (auto simp: depth_positive_def split: option.splits)
    then show ?thesis
      using dep fl
      by (cases "obj_get (st_config r) depth_key")
        (auto simp: cascade_parent_def in_flight_def Let_def ob)
  next
    case other
    have same: "stop_row clock r = r" using other by (auto simp: stop_row_def)
    then have st: "stop_rows clock {i} (ss_db s) = ss_db s"
      by (rule stop_rows_same [OF assms(2,3)])
    show ?thesis
      using other assms(4) same st
      by (auto simp: cascade_parent_def depth_ok_def depth_positive_def
          split: option.splits pyval.splits)
  qed
qed

lemma cascade_child_stop:
  assumes "clean s" "get_study (ss_db s) c = Some r" "distinct (study_ids (ss_db s))"
  shows "\<exists>T. T \<subseteq> {c} \<and>
    cascade_child clock c s = (Inr (), s\<lparr>ss_db := stop_rows clock T (ss_db s)\<rparr>)"
proof (cases "in_flight (st_status r)")
  case True
  then show ?thesis
    using assms by (intro exI [of _ "{c}"])
      (simp add: cascade_child_def object_of_def cancel_in_flight clean_def)
next
  case False
  then show ?thesis
    using assms by (intro exI [of _ "{}"]) (simp add: cascade_child_def object_of_def clean_def)
qed

lemma stop_row_quiet:
  "\<not> (st_status (stop_row clock r) = Completed \<and> depth_positive (stop_row clock r))"
  by (auto simp: stop_row_def depth_positive_def in_flight_def)

section \<open>The recursion implements the specification\<close>

text \<open>The tables met on the way are all the first ones with a set of rows stopped.\<close>

lemma cascade_children_stop:
  assumes step: "\<And>c S. c \<in> set (study_ids d) \<Longrightarrow> P c \<Longrightarrow>
      \<exists>r. chain_cascade n clock c (s\<lparr>ss_db := stop_rows clock S d\<rparr>) =
        Some (Inr r, s\<lparr>ss_db := stop_rows clock (S \<union> subtree d c) d\<rparr>)"
    and c: "clean s" and d: "distinct (study_ids d)"
  shows "set cs \<subseteq> set (study_ids d) \<Longrightarrow> \<forall>x\<in>set cs. P x \<Longrightarrow>
    cascade_children n clock cs (s\<lparr>ss_db := stop_rows clock S d\<rparr>) =
      Some (Inr (), s\<lparr>ss_db := stop_rows clock (S \<union> (\<Union>x\<in>set cs. subtree d x)) d\<rparr>)"
proof (induction cs arbitrary: S)
  case (Cons x cs)
  from Cons.prems(1) have "get_study (stop_rows clock S d) x \<noteq> None" by (simp add: get_study_None)
  then obtain r where r: "get_study (stop_rows clock S d) x = Some r" by blast
  have cl: "clean (s\<lparr>ss_db := stop_rows clock S d\<rparr>)" using c by simp
  obtain T where T: "T \<subseteq> {x}" "cascade_child clock x (s\<lparr>ss_db := stop_rows clock S d\<rparr>) =
      (Inr (), s\<lparr>ss_db := stop_rows clock (T \<union> S) d\<rparr>)"
    using cascade_child_stop [OF cl, of x r clock] r d by (auto simp: stop_rows_twice)
  obtain q where q: "chain_cascade n clock x (s\<lparr>ss_db := stop_rows clock (T \<union> S) d\<rparr>) =
      Some (Inr q, s\<lparr>ss_db := stop_rows clock (T \<union> S \<union> subtree d x) d\<rparr>)"
    using step [of x "T \<union> S"] Cons.prems by auto
  have "T \<union> S \<union> subtree d x = S \<union> subtree d x" using T(1) by auto
  with T q Cons show ?case by (simp add: Un_assoc)
qed simp

lemma cascade_step:
  assumes c: "clean s" and d: "distinct (study_ids d)" and r: "get_study d i = Some r"
    and ok: "depth_ok r"
    and kids: "\<And>S. cascade_children n clock (map st_id (list_children_of_study d i))
        (s\<lparr>ss_db := stop_rows clock S d\<rparr>) = Some (Inr (), s\<lparr>ss_db := stop_rows clock
          (S \<union> (\<Union>x\<in>st_id ` set (list_children_of_study d i). subtree d x)) d\<rparr>)"
  shows "chain_cascade (Suc n) clock i (s\<lparr>ss_db := stop_rows clock S d\<rparr>) =
    Some (Inr (stop_row clock r), s\<lparr>ss_db := stop_rows clock (S \<union> subtree d i) d\<rparr>)"
proof -
  let ?s = "s\<lparr>ss_db := stop_rows clock S d\<rparr>" and ?r = "if i \<in> S then stop_row clock r else r"
  have g: "get_study (ss_db ?s) i = Some ?r" using r by (simp add: get_study_stop)
  have p: "cascade_parent clock ?r ?s =
      (Inr (stop_row clock r), s\<lparr>ss_db := stop_rows clock (insert i S) d\<rparr>)"
    using cascade_parent_stop [of ?s i ?r clock] g c d ok by (simp add: stop_rows_twice)
  have "load_for_update i ?s = (Inr ?r, ?s)" using g c by (simp add: load_for_update_def)
  with p c kids [of "insert i S"] subtree_children [of d i] show ?thesis
    by (simp add: children_stop)
qed

lemma chain_cascade_stop:
  assumes c: "clean s" and d: "distinct (study_ids d)" and ok: "\<forall>r\<in>set (db_studies d). depth_ok r"
    and rk: "\<And>a b. child_of d a b \<Longrightarrow> rk b < rk a"
  shows "rk i < n \<Longrightarrow> get_study d i = Some r \<Longrightarrow>
    chain_cascade n clock i (s\<lparr>ss_db := stop_rows clock S d\<rparr>) =
      Some (Inr (stop_row clock r), s\<lparr>ss_db := stop_rows clock (S \<union> subtree d i) d\<rparr>)"
proof (induction n arbitrary: i r S)
  case (Suc n)
  have step: "\<exists>q. chain_cascade n clock x (s\<lparr>ss_db := stop_rows clock S d\<rparr>) =
      Some (Inr q, s\<lparr>ss_db := stop_rows clock (S \<union> subtree d x) d\<rparr>)"
    if x: "x \<in> set (study_ids d)" "rk x < n" for x S
  proof -
    from x(1) obtain q where "get_study d x = Some q" by (metis get_study_None option.exhaust)
    with Suc.IH x(2) show ?thesis by blast
  qed
  let ?cs = "map st_id (list_children_of_study d i)"
  have sub: "set ?cs \<subseteq> set (study_ids d)" by (auto simp: list_children_of_study_def study_ids_def)
  have low: "\<forall>x\<in>set ?cs. rk x < n"
    using rk [of i] in_children [of _ d i] Suc.prems(1) by fastforce
  have "depth_ok r" using ok Suc.prems(2) by (auto dest: get_study_id)
  moreover have "cascade_children n clock ?cs (s\<lparr>ss_db := stop_rows clock S d\<rparr>) =
      Some (Inr (), s\<lparr>ss_db := stop_rows clock (S \<union> (\<Union>x\<in>st_id ` set (list_children_of_study d i).
        subtree d x)) d\<rparr>)" for S
    using cascade_children_stop [OF step c d sub low] by simp
  ultimately show ?case by (intro cascade_step [OF c d Suc.prems(2)])
qed simp


definition sample_chain :: session where
  "sample_chain = fresh_session
     \<lparr>db_studies = [(sample_study ''a'' None Completed)\<lparr>st_config := [(depth_key, PInt 2)]\<rparr>,
        sample_study ''b'' (Some ''a'') Running, sample_study ''c'' None Running],
      db_trials = [], db_proposals = []\<rparr>"


end
