(* ===== verification/Paging.thy ===== *)
theory Paging
  imports Values
begin

text \<open>
  Keyset pagination (\<open>backend/app/db/repo/_sort.py\<close>, \<open>backend/app/api/v1/_cursor.py\<close> and the
  pages the routers cut): ORDER BY as an insertion sort by a strict order, the WHERE clause of
  a cursor as a predicate, a page as the first rows that satisfy it. The locale \<open>keyset\<close> is
  what makes paging correct; every sort of the program interprets it. Base64 and JSON are
  parameters of the cursor codec.
\<close>

section \<open>ORDER BY and LIMIT\<close>

fun insert_by :: "('r \<Rightarrow> 'r \<Rightarrow> bool) \<Rightarrow> 'r \<Rightarrow> 'r list \<Rightarrow> 'r list" where
  "insert_by lt x [] = [x]"
| "insert_by lt x (y # ys) = (if lt y x then y # insert_by lt x ys else x # y # ys)"

definition order_by :: "('r \<Rightarrow> 'r \<Rightarrow> bool) \<Rightarrow> 'r list \<Rightarrow> 'r list" where
  "order_by lt rows = foldr (insert_by lt) rows []"

text \<open>The rows of one request; the cursor stands for the last row of the previous page.\<close>

definition MAX_PAGE_LIMIT :: nat where "MAX_PAGE_LIMIT = 200"

definition fetch_page ::
  "('r \<Rightarrow> 'r \<Rightarrow> bool) \<Rightarrow> ('r \<Rightarrow> 'r \<Rightarrow> bool) \<Rightarrow> nat \<Rightarrow> 'r option \<Rightarrow> 'r list \<Rightarrow> 'r list" where
  "fetch_page lt after limit cursor rows =
     take (min limit MAX_PAGE_LIMIT)
       (order_by lt (filter (\<lambda>r. case cursor of None \<Rightarrow> True | Some c \<Rightarrow> after c r) rows))"

text \<open>A client that follows \<open>next_cursor\<close>, at most \<open>fuel\<close> times: a full page has a successor.\<close>

fun follow_pages ::
  "nat \<Rightarrow> ('r \<Rightarrow> 'r \<Rightarrow> bool) \<Rightarrow> ('r \<Rightarrow> 'r \<Rightarrow> bool) \<Rightarrow> nat \<Rightarrow> 'r option \<Rightarrow> 'r list \<Rightarrow> 'r list list option" where
  "follow_pages 0 lt after limit cursor rows = None"
| "follow_pages (Suc fuel) lt after limit cursor rows =
     (let page = fetch_page lt after limit cursor rows
      in if page \<noteq> [] \<and> length page = limit
         then map_option (Cons page) (follow_pages fuel lt after limit (Some (last page)) rows)
         else Some [page])"

section \<open>The sorts\<close>

record 'c parsed_sort =
  ps_column :: 'c
  ps_desc :: bool
  ps_col_name :: string

text \<open>\<open>s.partition(':')\<close>.\<close>

definition partition_colon :: "string \<Rightarrow> string \<times> string" where
  "partition_colon s = (takeWhile (\<lambda>c. c \<noteq> CHR '':'') s, drop 1 (dropWhile (\<lambda>c. c \<noteq> CHR '':'') s))"

definition parse_sort :: "string option \<Rightarrow> (string, 'c) pydict \<Rightarrow> 'c parsed_sort option" where
  "parse_sort s allowed = (case s of
       None \<Rightarrow> None
     | Some s \<Rightarrow> if s = [] then None
         else (let (col_name, dir_str) = partition_colon s in
           case map_of allowed col_name of
             None \<Rightarrow> None
           | Some col \<Rightarrow> Some \<lparr>ps_column = col, ps_desc = (dir_str = ''desc''), ps_col_name = col_name\<rparr>))"

text \<open>\<open>NULLS LAST\<close> when descending, \<open>NULLS FIRST\<close> when ascending, then \<open>id DESC\<close>.\<close>

definition order_by_clauses ::
  "('r \<Rightarrow> ('v::linorder) option) parsed_sort option \<Rightarrow> ('r \<Rightarrow> ('d::linorder)) \<Rightarrow> ('r \<Rightarrow> string) \<Rightarrow> 'r \<Rightarrow> 'r \<Rightarrow> bool" where
  "order_by_clauses parsed default_col id_col a b = (case parsed of
       None \<Rightarrow> default_col b < default_col a \<or> default_col a = default_col b \<and> id_col b < id_col a
     | Some p \<Rightarrow> (case (ps_column p a, ps_column p b) of
           (None, None) \<Rightarrow> id_col b < id_col a
         | (None, Some y) \<Rightarrow> \<not> ps_desc p
         | (Some x, None) \<Rightarrow> ps_desc p
         | (Some x, Some y) \<Rightarrow>
             (if ps_desc p then y < x else x < y) \<or> x = y \<and> id_col b < id_col a))"

text \<open>A comparison with NULL is not true in a WHERE clause.\<close>

fun sql_less :: "('v::linorder) option \<Rightarrow> 'v option \<Rightarrow> bool" where
  "sql_less (Some x) (Some y) = (x < y)"
| "sql_less _ _ = False"

fun sql_eq :: "'v option \<Rightarrow> 'v option \<Rightarrow> bool" where
  "sql_eq (Some x) (Some y) = (x = y)"
| "sql_eq _ _ = False"

definition keyset_predicate ::
  "('r \<Rightarrow> ('v::linorder) option) parsed_sort option \<Rightarrow> 'd option \<Rightarrow> 'v option \<Rightarrow> string \<Rightarrow>
   ('r \<Rightarrow> ('d::linorder)) \<Rightarrow> ('r \<Rightarrow> string) \<Rightarrow> 'r \<Rightarrow> bool" where
  "keyset_predicate parsed default_value cursor_value cursor_id default_col id_col r = (case parsed of
       None \<Rightarrow> sql_less (Some (default_col r)) default_value \<or>
               sql_eq (Some (default_col r)) default_value \<and> id_col r < cursor_id
     | Some p \<Rightarrow> (let col = ps_column p r in
         if ps_desc p then
           (if cursor_value = None then col = None \<and> id_col r < cursor_id
            else sql_less col cursor_value \<or> sql_eq col cursor_value \<and> id_col r < cursor_id \<or> col = None)
         else
           (if cursor_value = None then col \<noteq> None \<or> col = None \<and> id_col r < cursor_id
            else sql_less cursor_value col \<or> sql_eq col cursor_value \<and> id_col r < cursor_id)))"

text \<open>The predicate at the cursor the router takes from a row.\<close>

definition after_row ::
  "('r \<Rightarrow> ('v::linorder) option) parsed_sort option \<Rightarrow> ('r \<Rightarrow> ('d::linorder)) \<Rightarrow> ('r \<Rightarrow> string) \<Rightarrow> 'r \<Rightarrow> 'r \<Rightarrow> bool" where
  "after_row parsed default_col id_col c = keyset_predicate parsed (Some (default_col c))
     (case parsed of None \<Rightarrow> None | Some p \<Rightarrow> ps_column p c) (id_col c) default_col id_col"

section \<open>Base64\<close>

text \<open>
  \<open>base64.urlsafe_b64encode\<close> and \<open>urlsafe_b64decode\<close> on bytes. The decoder is the lenient one of Python:
  it takes both alphabets, skips any other character, and stops at the padding that completes a group.
\<close>

definition b64_alphabet :: string where
  "b64_alphabet = ''ABCDEFGHIJKLMNOPQRSTUVWXYZabcdefghijklmnopqrstuvwxyz0123456789-_''"

definition b64_char :: "nat \<Rightarrow> char" where
  "b64_char n = b64_alphabet ! n"

definition b64_digit :: "char \<Rightarrow> nat option" where
  "b64_digit c = map_of (zip b64_alphabet [0..<64] @ [(CHR ''+'', 62), (CHR ''/'', 63)]) c"

fun b64_groups :: "nat list \<Rightarrow> string" where
  "b64_groups [] = []"
| "b64_groups [a] = [b64_char (a div 4), b64_char (a mod 4 * 16), CHR ''='', CHR ''='']"
| "b64_groups [a, b] =
     [b64_char (a div 4), b64_char (a mod 4 * 16 + b div 16), b64_char (b mod 16 * 4), CHR ''='']"
| "b64_groups (a # b # c # rest) =
     [b64_char (a div 4), b64_char (a mod 4 * 16 + b div 16), b64_char (b mod 16 * 4 + c div 64), b64_char (c mod 64)]
     @ b64_groups rest"

definition urlsafe_b64encode :: "string \<Rightarrow> string" where
  "urlsafe_b64encode bytes = b64_groups (map of_char bytes)"

text \<open>\<open>pos\<close> is the place in the group of four, \<open>left\<close> the bits carried over, \<open>pads\<close> the run of padding; \<open>None\<close> is \<open>binascii.Error\<close>.\<close>

fun b64_scan :: "nat \<Rightarrow> nat \<Rightarrow> nat \<Rightarrow> string \<Rightarrow> nat list option" where
  "b64_scan pos left pads [] = (if pos = 0 then Some [] else None)"
| "b64_scan pos left pads (c # cs) =
     (if c = CHR ''='' then
        (if 2 \<le> pos then (if 4 \<le> pos + pads + 1 then Some [] else b64_scan pos left (pads + 1) cs)
         else b64_scan pos left pads cs)
      else (case b64_digit c of
          None \<Rightarrow> b64_scan pos left pads cs
        | Some d \<Rightarrow>
            if pos = 0 then b64_scan 1 d 0 cs
            else if pos = 1 then map_option (Cons (left * 4 + d div 16)) (b64_scan 2 (d mod 16) 0 cs)
            else if pos = 2 then map_option (Cons (left * 16 + d div 4)) (b64_scan 3 (d mod 4) 0 cs)
            else map_option (Cons (left * 64 + d)) (b64_scan 0 0 0 cs)))"

definition urlsafe_b64decode :: "string \<Rightarrow> string option" where
  "urlsafe_b64decode text = map_option (map char_of) (b64_scan 0 0 0 text)"

lemma b64_digit_char: "n < 64 \<Longrightarrow> b64_digit (b64_char n) = Some n \<and> b64_char n \<noteq> CHR ''=''"
proof -
  have "list_all (\<lambda>n. b64_digit (b64_char n) = Some n \<and> b64_char n \<noteq> CHR ''='') [0..<64]" by code_simp
  then show "n < 64 \<Longrightarrow> ?thesis" by (simp add: list_all_iff)
qed

lemma b64_digits: "n < 64 \<Longrightarrow> b64_digit (b64_char n) = Some n" "n < 64 \<Longrightarrow> (b64_char n = CHR ''='') = False"
  using b64_digit_char [of n] by simp_all

lemma mixed_digit: "y < m \<Longrightarrow> (x * m + y) div m = x \<and> (x * m + y) mod m = y" for x y m :: nat
  by simp

lemma six_bits:
  fixes a b c :: nat
  assumes "a < 256" and "b < 256" and "c < 256"
  shows "a div 4 < 64" "a mod 4 * 16 + b div 16 < 64" "b mod 16 * 4 + c div 64 < 64" "c mod 64 < 64"
    "(a mod 4 * 16 + b div 16) div 16 = a mod 4" "(a mod 4 * 16 + b div 16) mod 16 = b div 16"
    "(b mod 16 * 4 + c div 64) div 4 = b mod 16" "(b mod 16 * 4 + c div 64) mod 4 = c div 64" "b div 16 mod 16 = b div 16"
proof -
  have "a mod 4 < 4" "b div 16 < 16" "b mod 16 < 16" "c div 64 < 4" using assms by simp_all
  then show "a mod 4 * 16 + b div 16 < 64" "b mod 16 * 4 + c div 64 < 64"
    "(a mod 4 * 16 + b div 16) div 16 = a mod 4" "(a mod 4 * 16 + b div 16) mod 16 = b div 16"
    "(b mod 16 * 4 + c div 64) div 4 = b mod 16" "(b mod 16 * 4 + c div 64) mod 4 = c div 64"
    "b div 16 mod 16 = b div 16"
    using mixed_digit by simp_all
qed (use assms in simp_all)

lemma b64_scan_groups: "\<forall>b\<in>set bs. b < 256 \<Longrightarrow> b64_scan 0 0 0 (b64_groups bs) = Some bs"
proof (induction bs rule: b64_groups.induct)
  case (2 a)
  then show ?case using six_bits [of a 0 0] by (simp add: b64_digits div_mult_mod_eq)
next
  case (3 a b)
  then show ?case using six_bits [of a b 0] by (simp add: b64_digits div_mult_mod_eq)
next
  case (4 a b c rest)
  then show ?case using six_bits [of a b c] by (simp add: b64_digits div_mult_mod_eq)
qed simp

lemma b64_roundtrip: "urlsafe_b64decode (urlsafe_b64encode bytes) = Some bytes"
  using b64_scan_groups [of "map of_char bytes"]
  by (simp add: urlsafe_b64decode_def urlsafe_b64encode_def comp_def)

section \<open>Cursors\<close>

datatype cursor_error = NotDecodable | NotPair | BadValueHalf | BadRowId | ValueNotStr | NotIsoFormat

text \<open>A datetime column encodes its ISO form, the others their JSON val.\<close>

datatype cursor_value = CDatetime int | CValue pyval

definition encode_value_cursor ::
  "(int \<Rightarrow> string) \<Rightarrow> (pyval \<Rightarrow> string) \<Rightarrow> cursor_value \<Rightarrow> string \<Rightarrow> string" where
  "encode_value_cursor isoformat dumps val row_id =
     urlsafe_b64encode (dumps (PList [(case val of CDatetime t \<Rightarrow> PStr (isoformat t) | CValue v \<Rightarrow> v), PStr row_id]))"

fun cursor_primitive :: "pyval \<Rightarrow> bool" where
  "cursor_primitive PNone = True"
| "cursor_primitive (PStr _) = True"
| "cursor_primitive (PInt _) = True"
| "cursor_primitive (PFloat _) = True"
| "cursor_primitive _ = False"

definition decode_value_cursor_raw ::
  "(string \<Rightarrow> int option) \<Rightarrow> (string \<Rightarrow> pyval option) \<Rightarrow> string \<Rightarrow> bool \<Rightarrow> cursor_error + (cursor_value \<times> string)" where
  "decode_value_cursor_raw fromisoformat loads raw datetime_value =
     (case Option.bind (urlsafe_b64decode raw) loads of
        None \<Rightarrow> Inl NotDecodable
      | Some (PList [raw_value, row]) \<Rightarrow>
          (if \<not> cursor_primitive raw_value then Inl BadValueHalf
           else (case row of
               PStr row_id \<Rightarrow>
                 (if datetime_value then
                    (case raw_value of
                       PNone \<Rightarrow> Inr (CValue PNone, row_id)
                     | PStr s \<Rightarrow> (case fromisoformat s of
                         None \<Rightarrow> Inl NotIsoFormat | Some t \<Rightarrow> Inr (CDatetime t, row_id))
                     | _ \<Rightarrow> Inl ValueNotStr)
                  else Inr (CValue raw_value, row_id))
             | _ \<Rightarrow> Inl BadRowId))
      | Some _ \<Rightarrow> Inl NotPair)"

text \<open>
  The wrappers the routes call: a shape failure is the \<open>422 VALIDATION_ERROR\<close> envelope, and a
  \<open>(created_at, id)\<close> cursor must hold a datetime (a null val half is refused here).
\<close>

datatype cursor_rejection = Unprocessable cursor_error | NotDatetime

definition decode_value_cursor ::
  "(string \<Rightarrow> int option) \<Rightarrow> (string \<Rightarrow> pyval option) \<Rightarrow> string \<Rightarrow> bool \<Rightarrow> cursor_rejection + (cursor_value \<times> string)" where
  "decode_value_cursor fromisoformat loads raw datetime_value =
     (case decode_value_cursor_raw fromisoformat loads raw datetime_value of
        Inl e \<Rightarrow> Inl (Unprocessable e) | Inr p \<Rightarrow> Inr p)"

definition decode_created_at_cursor ::
  "(string \<Rightarrow> int option) \<Rightarrow> (string \<Rightarrow> pyval option) \<Rightarrow> string \<Rightarrow> cursor_rejection + (int \<times> string)" where
  "decode_created_at_cursor fromisoformat loads raw =
     (case decode_value_cursor fromisoformat loads raw True of
        Inl e \<Rightarrow> Inl e
      | Inr (CDatetime t, row_id) \<Rightarrow> Inr (t, row_id)
      | Inr (CValue _, _) \<Rightarrow> Inl NotDatetime)"

definition encode_created_at_cursor ::
  "(int \<Rightarrow> string) \<Rightarrow> (pyval \<Rightarrow> string) \<Rightarrow> int \<Rightarrow> string \<Rightarrow> string" where
  "encode_created_at_cursor isoformat dumps created_at row_id =
     encode_value_cursor isoformat dumps (CDatetime created_at) row_id"

text \<open>
  The codec of \<open>_sort.py\<close> is a second copy of the same format; a sorted listing encodes with
  one and may decode with the other.
\<close>

definition encode_cursor ::
  "(int \<Rightarrow> string) \<Rightarrow> (pyval \<Rightarrow> string) \<Rightarrow> cursor_value \<Rightarrow> string \<Rightarrow> string" where
  "encode_cursor isoformat dumps val row_id =
     (case val of
        CDatetime t \<Rightarrow> urlsafe_b64encode (dumps (PList [PStr (isoformat t), PStr row_id]))
      | CValue v \<Rightarrow> urlsafe_b64encode (dumps (PList [v, PStr row_id])))"

definition decode_cursor ::
  "(string \<Rightarrow> int option) \<Rightarrow> (string \<Rightarrow> pyval option) \<Rightarrow> string \<Rightarrow> bool \<Rightarrow> cursor_error + (cursor_value \<times> string)" where
  "decode_cursor fromisoformat loads raw value_is_datetime =
     (case Option.bind (urlsafe_b64decode raw) loads of
        None \<Rightarrow> Inl NotDecodable
      | Some (PList [raw_value, row]) \<Rightarrow>
          (if \<not> cursor_primitive raw_value then Inl BadValueHalf
           else (case row of
               PStr row_id \<Rightarrow>
                 (if value_is_datetime \<and> raw_value \<noteq> PNone then
                    (case raw_value of
                       PStr s \<Rightarrow> (case fromisoformat s of
                         None \<Rightarrow> Inl NotIsoFormat | Some t \<Rightarrow> Inr (CDatetime t, row_id))
                     | _ \<Rightarrow> Inl ValueNotStr)
                  else Inr (CValue raw_value, row_id))
             | _ \<Rightarrow> Inl BadRowId))
      | Some _ \<Rightarrow> Inl NotPair)"

lemma cursor_codecs_agree:
  "encode_cursor isoformat dumps = encode_value_cursor isoformat dumps"
  "decode_cursor fromisoformat loads = decode_value_cursor_raw fromisoformat loads"
  by (auto simp: encode_cursor_def encode_value_cursor_def decode_cursor_def
      decode_value_cursor_raw_def fun_eq_iff split: cursor_value.splits option.splits pyval.splits
      list.splits)

definition datetime_sort_cols :: "string set" where
  "datetime_sort_cols = {''created_at'', ''completed_at'', ''ended_at''}"

definition cursor_value_is_datetime :: "'c parsed_sort option \<Rightarrow> bool" where
  "cursor_value_is_datetime parsed = (case parsed of
       None \<Rightarrow> True | Some p \<Rightarrow> ps_col_name p \<in> datetime_sort_cols)"

section \<open>What makes paging correct\<close>

lemma set_insert_by [simp]: "set (insert_by lt x xs) = insert x (set xs)"
  by (induction xs) auto

lemma length_insert_by [simp]: "length (insert_by lt x xs) = Suc (length xs)"
  by (induction xs) auto

lemma set_order_by [simp]: "set (order_by lt xs) = set xs"
  by (induction xs) (auto simp: order_by_def)

lemma length_order_by [simp]: "length (order_by lt xs) = length xs"
  by (induction xs) (auto simp: order_by_def)

lemma distinct_insert_by:
  "distinct (map f (insert_by lt x xs)) \<longleftrightarrow> f x \<notin> f ` set xs \<and> distinct (map f xs)"
  by (induction xs) auto

lemma distinct_order_by [simp]: "distinct (map f (order_by lt xs)) = distinct (map f xs)"
  by (induction xs) (simp_all add: order_by_def distinct_insert_by set_order_by [unfolded order_by_def])

lemma order_by_Cons: "order_by lt (x # xs) = insert_by lt x (order_by lt xs)"
  by (simp add: order_by_def)

text \<open>
  A strict order that is total on rows with different ids, and a cursor predicate that means
  \<open>later than the row the cursor was taken from\<close>.
\<close>

locale keyset =
  fixes lt :: "'r \<Rightarrow> 'r \<Rightarrow> bool" and after :: "'r \<Rightarrow> 'r \<Rightarrow> bool" and id_of :: "'r \<Rightarrow> 'i"
  assumes lt_irrefl: "\<not> lt a a"
    and lt_trans: "lt a b \<Longrightarrow> lt b c \<Longrightarrow> lt a c"
    and lt_total: "id_of a \<noteq> id_of b \<Longrightarrow> lt a b \<or> lt b a"
    and after_lt: "after c r \<longleftrightarrow> lt c r"
begin

lemma after_eq: "after = lt"
  by (simp add: fun_eq_iff after_lt)

lemma lt_asym: "lt a b \<Longrightarrow> \<not> lt b a"
  using lt_trans lt_irrefl by blast

lemma insert_sorted:
  "sorted_wrt lt xs \<Longrightarrow> \<forall>y\<in>set xs. id_of y \<noteq> id_of x \<Longrightarrow> sorted_wrt lt (insert_by lt x xs)"
proof (induction xs)
  case (Cons y ys)
  then have "lt x y \<or> lt y x" using lt_total [of x y] by auto
  then show ?case using Cons by (auto intro: lt_trans)
qed simp

lemma order_by_sorted: "distinct (map id_of xs) \<Longrightarrow> sorted_wrt lt (order_by lt xs)"
proof (induction xs)
  case (Cons x xs)
  have "\<forall>y\<in>set (order_by lt xs). id_of y \<noteq> id_of x" using Cons.prems by (auto simp: image_iff)
  then show ?case using Cons by (simp add: order_by_Cons insert_sorted)
qed (simp add: order_by_def)

lemma sorted_unique: "sorted_wrt lt xs \<Longrightarrow> sorted_wrt lt ys \<Longrightarrow> set xs = set ys \<Longrightarrow> xs = ys"
proof (induction xs arbitrary: ys)
  case (Cons x xs)
  then obtain y ys' where y: "ys = y # ys'" by (cases ys) auto
  have "x = y" using Cons.prems y lt_asym by (metis insertE list.simps(15) list.set_intros(1) sorted_wrt.simps(2))
  moreover have "x \<notin> set xs" "y \<notin> set ys'" using Cons.prems y lt_irrefl by auto
  ultimately show ?case using Cons y by (metis Diff_insert_absorb list.simps(15) sorted_wrt.simps(2))
qed simp

lemma order_by_filter:
  assumes "distinct (map id_of rows)"
  shows "order_by lt (filter p rows) = filter p (order_by lt rows)"
proof (rule sorted_unique)
  show "sorted_wrt lt (order_by lt (filter p rows))"
    using assms by (intro order_by_sorted) (simp add: distinct_map_filter)
  show "sorted_wrt lt (filter p (order_by lt rows))"
    using order_by_sorted [OF assms] by (rule sorted_wrt_filter)
qed simp

text \<open>After the \<open>k\<close>-th row of the sorted table comes the rest of it.\<close>

lemma filter_after:
  assumes "sorted_wrt lt s" "k < length s"
  shows "filter (after (s ! k)) s = drop (Suc k) s"
proof -
  have "\<not> lt (s ! k) (s ! i)" if "i \<le> k" for i
    using that assms lt_irrefl lt_asym [OF sorted_wrt_nth_less [OF assms(1)]] by (cases "i = k") auto
  then have "filter (lt (s ! k)) (take (Suc k) s) = []"
    using assms(2) by (auto simp: filter_empty_conv in_set_conv_nth)
  moreover have "filter (lt (s ! k)) (drop (Suc k) s) = drop (Suc k) s"
    using assms sorted_wrt_nth_less [OF assms(1)] by (auto simp: in_set_conv_nth intro!: filter_True)
  ultimately have "filter (lt (s ! k)) (take (Suc k) s @ drop (Suc k) s) = drop (Suc k) s" by (simp only: filter_append append_Nil)
  then show ?thesis by (simp add: after_eq)
qed

text \<open>The page after the first \<open>k\<close> rows.\<close>

lemma fetch_after:
  assumes "distinct (map id_of rows)" "k \<le> length rows"
  shows "fetch_page lt after limit (if k = 0 then None else Some (order_by lt rows ! (k - 1))) rows =
    take (min limit MAX_PAGE_LIMIT) (drop k (order_by lt rows))"
proof (cases k)
  case (Suc j)
  have "filter (after (order_by lt rows ! j)) (order_by lt rows) = drop k (order_by lt rows)"
    using filter_after [OF order_by_sorted [OF assms(1)], of j] Suc assms(2) by simp
  then show ?thesis using Suc by (simp add: fetch_page_def order_by_filter [OF assms(1)])
qed (simp add: fetch_page_def)

lemma follow_from:
  assumes "distinct (map id_of rows)" "0 < limit" "limit \<le> MAX_PAGE_LIMIT"
  shows "k \<le> length rows \<Longrightarrow> (length rows - k) div limit < fuel \<Longrightarrow>
    \<exists>pages. follow_pages fuel lt after limit (if k = 0 then None else Some (order_by lt rows ! (k - 1))) rows = Some pages \<and>
      concat pages = drop k (order_by lt rows) \<and> length pages = Suc ((length rows - k) div limit)"
proof (induction fuel arbitrary: k)
  case (Suc fuel)
  let ?s = "order_by lt rows"
  have page: "fetch_page lt after limit (if k = 0 then None else Some (?s ! (k - 1))) rows = take limit (drop k ?s)"
    using fetch_after [OF assms(1) Suc.prems(1), of limit] assms(3) by simp
  show ?case
  proof (cases "limit \<le> length rows - k")
    case True
    then have "k + limit \<le> length rows" using Suc.prems(1) by simp
    moreover have d: "(length rows - k) div limit = Suc ((length rows - (k + limit)) div limit)"
      using True assms(2) le_div_geq [of limit "length rows - k"] by simp
    ultimately obtain pages where p: "follow_pages fuel lt after limit
        (if k + limit = 0 then None else Some (?s ! (k + limit - 1))) rows = Some pages"
      "concat pages = drop (k + limit) ?s" "length pages = Suc ((length rows - (k + limit)) div limit)"
      using Suc.IH [of "k + limit"] Suc.prems(2) by auto
    have "last (take limit (drop k ?s)) = ?s ! (k + limit - 1)"
      using True assms(2) by (subst last_conv_nth) (auto simp: min_def)
    moreover have "take limit (drop k ?s) @ drop (k + limit) ?s = drop k ?s"
      by (metis add.commute append_take_drop_id drop_drop)
    moreover have "take limit (drop k ?s) \<noteq> []" "length (take limit (drop k ?s)) = limit"
      using True assms(2) by auto
    ultimately show ?thesis using page p d assms(2) by (simp add: Let_def)
  next
    case False
    then show ?thesis using page by (auto simp: Let_def)
  qed
qed simp

end

section \<open>The sort-aware lists\<close>

interpretation sort_keys: keyset "order_by_clauses parsed default_col id_col" "after_row parsed default_col id_col" id_col
  for parsed :: "('r \<Rightarrow> ('v::linorder) option) parsed_sort option" and default_col :: "'r \<Rightarrow> ('d::linorder)"
    and id_col :: "'r \<Rightarrow> string"
proof unfold_locales
  fix a b c :: 'r
  show "\<not> order_by_clauses parsed default_col id_col a a"
    by (auto simp: order_by_clauses_def split: option.splits)
  show "order_by_clauses parsed default_col id_col a b \<Longrightarrow> order_by_clauses parsed default_col id_col b c \<Longrightarrow>
      order_by_clauses parsed default_col id_col a c"
    by (auto simp: order_by_clauses_def split: option.splits if_splits)
  show "id_col a \<noteq> id_col b \<Longrightarrow> order_by_clauses parsed default_col id_col a b \<or> order_by_clauses parsed default_col id_col b a"
    by (auto simp: order_by_clauses_def split: option.splits)
  show "after_row parsed default_col id_col a b \<longleftrightarrow> order_by_clauses parsed default_col id_col a b"
    by (auto simp: after_row_def keyset_predicate_def order_by_clauses_def Let_def split: option.splits)
qed

section \<open>Properties\<close>

text \<open>Whatever the sort (NULLs included) and the page size, a client that follows the cursors
  of a list that does not change gets every row exactly once, in the order of the sort, and the
  pages end after \<open>length rows div limit + 1\<close> requests.\<close>

theorem pages_enumerate:
  assumes "distinct (map id_col rows)" and "0 < limit" and "limit \<le> MAX_PAGE_LIMIT"
  shows "\<exists>pages. follow_pages (Suc (length rows div limit)) (order_by_clauses parsed default_col id_col)
      (after_row parsed default_col id_col) limit None rows = Some pages \<and>
    concat pages = order_by (order_by_clauses parsed default_col id_col) rows \<and>
    length pages = Suc (length rows div limit) \<and>
    distinct (map id_col (concat pages)) \<and> set (concat pages) = set rows"
proof -
  obtain pages where "follow_pages (Suc (length rows div limit)) (order_by_clauses parsed default_col id_col)
      (after_row parsed default_col id_col) limit None rows = Some pages"
    "concat pages = order_by (order_by_clauses parsed default_col id_col) rows" "length pages = Suc (length rows div limit)"
    using sort_keys.follow_from [OF assms, of 0 "Suc (length rows div limit)" parsed default_col] by auto
  then show ?thesis using assms(1) by (simp del: set_concat follow_pages.simps)
qed

definition sample_rows :: "(string \<times> int option) list" where
  "sample_rows = [(''a'', Some 5), (''b'', None), (''c'', Some 5), (''d'', Some 9)]"

definition sample_sort :: "(string \<times> int option \<Rightarrow> int option) parsed_sort option" where
  "sample_sort = Some \<lparr>ps_column = snd, ps_desc = True, ps_col_name = ''best_metric''\<rparr>"

lemma pages_enumerate_witness:
  "\<exists>pages. follow_pages (Suc 2) (order_by_clauses sample_sort fst fst) (after_row sample_sort fst fst) 2 None sample_rows =
      Some pages \<and> set (concat pages) = set sample_rows"
proof -
  have len: "length sample_rows div 2 = 2" "distinct (map fst sample_rows)" by (simp_all add: sample_rows_def)
  have "(0::nat) < 2" "2 \<le> MAX_PAGE_LIMIT" by (simp_all add: MAX_PAGE_LIMIT_def)
  from pages_enumerate [OF len(2) this, of sample_sort fst] show ?thesis
    unfolding len(1) by (elim exE conjE) (intro exI conjI)
qed

text \<open>The values JSON has a form of its own for, without the booleans.\<close>

fun json_scalar :: "pyval \<Rightarrow> bool" where
  "json_scalar PNone = True"
| "json_scalar (PStr s) = True"
| "json_scalar (PInt n) = True"
| "json_scalar (PFloat x) = True"
| "json_scalar v = False"

lemma json_scalar_iff: "json_scalar v \<longleftrightarrow> v = PNone \<or> (\<exists>s. v = PStr s) \<or> (\<exists>n. v = PInt n) \<or> (\<exists>f. v = PFloat f)"
  by (cases v) auto

lemma cursor_primitive_iff: "cursor_primitive v \<longleftrightarrow> json_scalar v"
  by (cases v) auto

lemma decoded_cursor:
  "decode_value_cursor_raw fromisoformat loads raw is_datetime = Inr (out, i) \<longleftrightarrow>
    (\<exists>bytes x. urlsafe_b64decode raw = Some bytes \<and> loads bytes = Some (PList [x, PStr i]) \<and>
      (if is_datetime
       then x = PNone \<and> out = CValue PNone \<or> (\<exists>s t. x = PStr s \<and> fromisoformat s = Some t \<and> out = CDatetime t)
       else out = CValue x \<and> (x = PNone \<or> (\<exists>s. x = PStr s) \<or> (\<exists>n. x = PInt n) \<or> (\<exists>f. x = PFloat f))))"
proof -
  let ?typed = "\<lambda>x. if is_datetime
       then x = PNone \<and> out = CValue PNone \<or> (\<exists>s t. x = PStr s \<and> fromisoformat s = Some t \<and> out = CDatetime t)
       else out = CValue x \<and> (x = PNone \<or> (\<exists>s. x = PStr s) \<or> (\<exists>n. x = PInt n) \<or> (\<exists>f. x = PFloat f))"
  consider "Option.bind (urlsafe_b64decode raw) loads = None"
    | x y where "Option.bind (urlsafe_b64decode raw) loads = Some (PList [x, y])"
    | v where "Option.bind (urlsafe_b64decode raw) loads = Some v" "\<And>x y. v \<noteq> PList [x, y]"
    by (metis not_None_eq)
  then show ?thesis
  proof cases
    case 1
    then have "decode_value_cursor_raw fromisoformat loads raw is_datetime = Inl NotDecodable"
      unfolding decode_value_cursor_raw_def by simp
    then show ?thesis using 1 by (auto simp: bind_eq_None_conv)
  next
    case (2 x y)
    then have "(\<exists>bytes x. urlsafe_b64decode raw = Some bytes \<and> loads bytes = Some (PList [x, PStr i]) \<and> ?typed x) \<longleftrightarrow>
        y = PStr i \<and> ?typed x"
      by (auto simp: bind_eq_Some_conv)
    moreover have "decode_value_cursor_raw fromisoformat loads raw is_datetime = Inr (out, i) \<longleftrightarrow> y = PStr i \<and> ?typed x"
      unfolding decode_value_cursor_raw_def 2 by (cases x; cases y) (auto split: option.splits)
    ultimately show ?thesis by simp
  next
    case (3 v)
    then have "decode_value_cursor_raw fromisoformat loads raw is_datetime = Inl NotPair"
      unfolding decode_value_cursor_raw_def 3(1) by (auto split: pyval.splits list.splits)
    then show ?thesis using 3 by (auto simp: bind_eq_Some_conv)
  qed
qed

text \<open>C40 If the JSON module loads the pairs it dumps and the ISO form of a time parses back, a cursor made
  from a time or NULL for a datetime column, and from NULL, a string, an integer or a float for any
  other, decodes to what it was made from. And whatever string a client sends, it is accepted exactly
  when it is the Base64 of the JSON of a pair of a value and a string where the value is a string that
  parses as a time or NULL for a datetime column, and NULL, a string, an integer or a float, but never
  a boolean, a list or an object, for any other; what is returned is that value and that string.\<close>

theorem cursor_roundtrip_typed:
  assumes "\<And>v i. json_scalar v \<Longrightarrow> loads (dumps (PList [v, PStr i])) = Some (PList [v, PStr i])"
    and "\<And>t. fromisoformat (isoformat t) = Some t"
    and "case val of CDatetime t \<Rightarrow> is_datetime
         | CValue v \<Rightarrow> v = PNone \<or> \<not> is_datetime \<and> ((\<exists>s. v = PStr s) \<or> (\<exists>n. v = PInt n) \<or> (\<exists>x. v = PFloat x))"
  shows "decode_value_cursor_raw fromisoformat loads (encode_value_cursor isoformat dumps val row_id) is_datetime
      = Inr (val, row_id) \<and>
    (decode_value_cursor_raw fromisoformat loads raw is_datetime = Inr (out, i) \<longleftrightarrow>
      (\<exists>bytes x. urlsafe_b64decode raw = Some bytes \<and> loads bytes = Some (PList [x, PStr i]) \<and>
        (if is_datetime
         then x = PNone \<and> out = CValue PNone \<or> (\<exists>s t. x = PStr s \<and> fromisoformat s = Some t \<and> out = CDatetime t)
         else out = CValue x \<and> (x = PNone \<or> (\<exists>s. x = PStr s) \<or> (\<exists>n. x = PInt n) \<or> (\<exists>f. x = PFloat f)))))"
proof
  let ?half = "case val of CDatetime t \<Rightarrow> PStr (isoformat t) | CValue v \<Rightarrow> v"
  have "json_scalar ?half" using assms(3) by (auto split: cursor_value.splits)
  then have "loads (dumps (PList [?half, PStr row_id])) = Some (PList [?half, PStr row_id])" by (rule assms(1))
  then show "decode_value_cursor_raw fromisoformat loads (encode_value_cursor isoformat dumps val row_id) is_datetime
      = Inr (val, row_id)"
    using assms(2,3) by (auto simp: decoded_cursor encode_value_cursor_def b64_roundtrip split: cursor_value.splits)
qed (rule decoded_cursor)

text \<open>A format for pairs with the law: a tag, two numbers in unary, and the characters of the strings.\<close>

fun demo_parts :: "pyval \<Rightarrow> char \<times> nat \<times> nat \<times> string" where
  "demo_parts (PStr s) = (CHR ''s'', length s, 0, s)"
| "demo_parts (PInt n) = (if 0 \<le> n then CHR ''p'' else CHR ''m'', nat \<bar>n\<bar>, 0, [])"
| "demo_parts (PFloat (Fin q)) =
     (let (n, d) = quotient_of q in (if 0 \<le> n then CHR ''f'' else CHR ''g'', nat \<bar>n\<bar>, nat d, []))"
| "demo_parts (PFloat PInf) = (CHR ''b'', 0, 0, [])"
| "demo_parts (PFloat NInf) = (CHR ''c'', 0, 0, [])"
| "demo_parts (PFloat NaN) = (CHR ''a'', 0, 0, [])"
| "demo_parts v = (CHR ''n'', 0, 0, [])"

definition demo_join :: "char \<Rightarrow> nat \<Rightarrow> nat \<Rightarrow> string \<Rightarrow> pyval" where
  "demo_join tag a b s =
     (if tag = CHR ''s'' then PStr (take a s) else if tag = CHR ''p'' then PInt (int a) else if tag = CHR ''m'' then PInt (- int a)
      else if tag = CHR ''f'' then PFloat (Fin (of_int (int a) / of_int (int b)))
      else if tag = CHR ''g'' then PFloat (Fin (of_int (- int a) / of_int (int b)))
      else if tag = CHR ''b'' then PFloat PInf else if tag = CHR ''c'' then PFloat NInf else if tag = CHR ''a'' then PFloat NaN
      else PNone)"

definition unary :: "nat \<Rightarrow> string" where "unary n = replicate n (CHR ''1'') @ ''0''"

definition ones :: "string \<Rightarrow> nat" where "ones s = length (takeWhile (\<lambda>c. c = CHR ''1'') s)"

fun demo_dumps :: "pyval \<Rightarrow> string" where
  "demo_dumps (PList [v, PStr i]) = (let (tag, a, b, s) = demo_parts v in tag # unary a @ unary b @ s @ i)"
| "demo_dumps v = []"

fun demo_loads :: "string \<Rightarrow> pyval option" where
  "demo_loads (tag # t) =
     (let a = ones t; t = drop (Suc a) t; b = ones t; s = drop (Suc b) t
      in Some (PList [demo_join tag a b s, PStr (drop (if tag = CHR ''s'' then a else 0) s)]))"
| "demo_loads [] = None"

lemma unary_read [simp]: "ones (unary n @ t) = n" "length (unary n) = Suc n"
  by (simp_all add: unary_def ones_def takeWhile_append)

lemma demo_codec: "json_scalar v \<Longrightarrow> demo_loads (demo_dumps (PList [v, PStr i])) = Some (PList [v, PStr i])"
proof (induction v rule: demo_parts.induct)
  case (3 q)
  obtain n d where nd: "quotient_of q = (n, d)" by (cases "quotient_of q")
  have d: "0 < d" and q: "PFloat (Fin (of_int n / of_int d)) = PFloat (Fin q)"
    using quotient_of_denom_pos [OF nd] quotient_of_div [OF nd] by simp_all
  have "demo_parts (PFloat (Fin q)) = (if 0 \<le> n then CHR ''f'' else CHR ''g'', nat \<bar>n\<bar>, nat d, [])" by (simp add: nd)
  then show ?case using d by (cases "0 \<le> n") (simp_all add: demo_join_def Let_def q del: demo_parts.simps)
qed (simp_all add: demo_join_def Let_def)

definition demo_time :: "int \<Rightarrow> string" where
  "demo_time t = (if 0 \<le> t then CHR ''p'' else CHR ''m'') # unary (nat \<bar>t\<bar>)"

fun demo_time_parse :: "string \<Rightarrow> int option" where
  "demo_time_parse (c # s) = Some (if c = CHR ''p'' then int (ones s) else - int (ones s))"
| "demo_time_parse [] = None"

lemma demo_times: "demo_time_parse (demo_time t) = Some t"
  using unary_read(1) [of _ "[]"] by (simp add: demo_time_def)

lemma cursor_roundtrip_typed_witness:
  "decode_value_cursor_raw demo_time_parse demo_loads (encode_value_cursor demo_time demo_dumps
     (CValue (PInt 3)) ''abc'') False = Inr (CValue (PInt 3), ''abc'')"
proof -
  have "case CValue (PInt 3) of CDatetime t \<Rightarrow> False
      | CValue v \<Rightarrow> v = PNone \<or> \<not> False \<and> ((\<exists>s. v = PStr s) \<or> (\<exists>n. v = PInt n) \<or> (\<exists>x. v = PFloat x))" by simp
  note t = cursor_roundtrip_typed [where loads = demo_loads and dumps = demo_dumps and fromisoformat = demo_time_parse
      and isoformat = demo_time and val = "CValue (PInt 3)" and is_datetime = False, OF demo_codec demo_times this]
  show ?thesis by (rule conjunct1 [OF t])
qed

end
