(* ===== verification/Chain_Gate.thy ===== *)
theory Chain_Gate
  imports Store "HOL-Library.Multiset"
begin

text \<open>
  The gate that decides whether a completed study gets a follow-up
  (\<open>backend/app/domain/study/auto_followup.py\<close>): first-decile baseline, direction-normalized
  lift, decision. The \<open>direction\<close> argument is an enumeration of its two literals; the
  arithmetic is binary64 (\<open>Pyfloat\<close>). \<open>objective\<close> at the end is what the gate, the chain
  summary and the convergence verdict rely on in a direction.
\<close>

section \<open>The code\<close>

datatype direction = Maximize | Minimize

definition AUTO_FOLLOWUP_LIFT_EPSILON :: pyfloat where
  "AUTO_FOLLOWUP_LIFT_EPSILON = flit (5 / 1000)"

datatype chain_gate_decision = ENQUEUE | SKIP_NO_LIFT | SKIP_PARENT_FAILED | SKIP_DEPTH_EXHAUSTED

record chain_gate_outcome =
  cg_decision :: chain_gate_decision
  cg_lift :: "pyfloat option"
  cg_first_decile_max :: "pyfloat option"
  cg_epsilon :: pyfloat

definition metrics_of :: "trial list \<Rightarrow> pyfloat list" where
  "metrics_of ts = List.map_filter tr_primary_metric ts"

definition first_decile :: "trial list \<Rightarrow> trial list" where
  "first_decile ts = (let sorted_trials = sort_key tr_number ts
     in take (max 1 (length sorted_trials div 10)) sorted_trials)"

definition compute_first_decile_max :: "trial list \<Rightarrow> direction \<Rightarrow> pyfloat option" where
  "compute_first_decile_max complete_trials d =
     (let metrics = metrics_of (first_decile complete_trials)
      in if metrics = [] then None
         else if d = Maximize then fmax_list metrics else fmin_list metrics)"

definition direction_normalized_lift :: "pyfloat \<Rightarrow> pyfloat \<Rightarrow> direction \<Rightarrow> pyfloat" where
  "direction_normalized_lift best_metric baseline_metric d =
     (if d = Minimize then fsub baseline_metric best_metric else fsub best_metric baseline_metric)"

text \<open>\<open>depth is None or depth == 0\<close>; \<open>0\<close>, \<open>0.0\<close> and \<open>False\<close> are equal in Python.\<close>

definition depth_exhausted :: "study \<Rightarrow> bool" where
  "depth_exhausted parent = (let depth = obj_get (st_config parent) ''auto_followup_depth'' in
     depth = PNone \<or> (case num_of depth of None \<Rightarrow> False | Some n \<Rightarrow> feq n (Fin 0)))"

definition evaluate_chain_gate ::
  "study \<Rightarrow> trial list \<Rightarrow> pyfloat \<Rightarrow> direction \<Rightarrow> chain_gate_outcome" where
  "evaluate_chain_gate parent complete_trials epsilon d =
     (if st_status parent = Failed \<or> st_status parent = Cancelled then
        \<lparr>cg_decision = SKIP_PARENT_FAILED, cg_lift = None, cg_first_decile_max = None,
         cg_epsilon = epsilon\<rparr>
      else if depth_exhausted parent then
        \<lparr>cg_decision = SKIP_DEPTH_EXHAUSTED, cg_lift = None, cg_first_decile_max = None,
         cg_epsilon = epsilon\<rparr>
      else (case st_best_metric parent of
          None \<Rightarrow> \<lparr>cg_decision = SKIP_NO_LIFT, cg_lift = None, cg_first_decile_max = None,
                   cg_epsilon = epsilon\<rparr>
        | Some best \<Rightarrow> (case st_baseline_metric parent of
            Some baseline \<Rightarrow> (let lift = direction_normalized_lift best baseline d in
              if flt epsilon lift then
                \<lparr>cg_decision = ENQUEUE, cg_lift = Some lift, cg_first_decile_max = None,
                 cg_epsilon = epsilon\<rparr>
              else \<lparr>cg_decision = SKIP_NO_LIFT, cg_lift = Some lift, cg_first_decile_max = None,
                    cg_epsilon = epsilon\<rparr>)
          | None \<Rightarrow> (case compute_first_decile_max complete_trials d of
              None \<Rightarrow> \<lparr>cg_decision = SKIP_NO_LIFT, cg_lift = None, cg_first_decile_max = None,
                       cg_epsilon = epsilon\<rparr>
            | Some fd \<Rightarrow> (let lift = direction_normalized_lift best fd d in
                if flt epsilon lift then
                  \<lparr>cg_decision = ENQUEUE, cg_lift = Some lift, cg_first_decile_max = Some fd,
                   cg_epsilon = epsilon\<rparr>
                else \<lparr>cg_decision = SKIP_NO_LIFT, cg_lift = Some lift,
                      cg_first_decile_max = Some fd, cg_epsilon = epsilon\<rparr>)))))"

section \<open>What a direction means\<close>

definition better :: "direction \<Rightarrow> pyfloat \<Rightarrow> pyfloat \<Rightarrow> bool" where
  "better d a b = (case d of Maximize \<Rightarrow> flt b a | Minimize \<Rightarrow> flt a b)"

definition extremum :: "direction \<Rightarrow> pyfloat list \<Rightarrow> pyfloat option" where
  "extremum d xs = (case d of Maximize \<Rightarrow> fmax_list xs | Minimize \<Rightarrow> fmin_list xs)"

text \<open>
  A strict order of metrics, the lift of one over another and the extremum of a list: a
  positive lift is an improvement, and no member of a list without NaN is better than its
  extremum.
\<close>

locale objective =
  fixes bet :: "pyfloat \<Rightarrow> pyfloat \<Rightarrow> bool"
    and lift :: "pyfloat \<Rightarrow> pyfloat \<Rightarrow> pyfloat"
    and extr :: "pyfloat list \<Rightarrow> pyfloat option"
  assumes bet_irrefl: "\<not> bet a a"
    and bet_trans: "bet a b \<Longrightarrow> bet b c \<Longrightarrow> bet a c"
    and lift_pos: "flt (Fin 0) (lift a b) \<Longrightarrow> bet a b"
    and extr_None: "extr xs = None \<longleftrightarrow> xs = []"
    and extr_in: "NaN \<notin> set xs \<Longrightarrow> extr xs = Some m \<Longrightarrow> m \<in> set xs"
    and extr_best: "NaN \<notin> set xs \<Longrightarrow> extr xs = Some m \<Longrightarrow> x \<in> set xs \<Longrightarrow> \<not> bet x m"
    and bet_weaken: "bet a m \<Longrightarrow> NaN \<notin> {x, m} \<Longrightarrow> \<not> bet x m \<Longrightarrow> bet a x"
begin

lemma lift_above: "fle (Fin 0) eps \<Longrightarrow> flt eps (lift a b) \<Longrightarrow> bet a b"
  by (rule lift_pos) (rule fle_flt_trans)

lemma beats_all:
  "NaN \<notin> set xs \<Longrightarrow> extr xs = Some m \<Longrightarrow> bet a m \<Longrightarrow> x \<in> set xs \<Longrightarrow> bet a x"
  using bet_weaken [of a m x] extr_best [of xs m x] extr_in [of xs m] by auto

end

lemma better_simps [simp]: "better Maximize a b = flt b a" "better Minimize a b = flt a b"
  by (simp_all add: better_def)

lemma not_better: "a \<noteq> NaN \<Longrightarrow> b \<noteq> NaN \<Longrightarrow> \<not> better d a b \<Longrightarrow> a = b \<or> better d b a"
  by (cases d) (use flt_total [of a b] in \<open>auto simp: feq_iff\<close>)

interpretation obj: objective "better d" "\<lambda>a b. direction_normalized_lift a b d" "extremum d" for d
proof unfold_locales
  show "\<not> better d a a" for a by (cases d) auto
  show tr: "better d a b \<Longrightarrow> better d b c \<Longrightarrow> better d a c" for a b c
    by (cases d) (auto intro: flt_trans)
  show "flt (Fin 0) (direction_normalized_lift a b d) \<Longrightarrow> better d a b" for a b
    by (cases d) (auto simp: direction_normalized_lift_def dest: fsub_pos_imp)
  show "extremum d xs = None \<longleftrightarrow> xs = []" for xs
    by (cases d) (auto simp: extremum_def)
  show "NaN \<notin> set xs \<Longrightarrow> extremum d xs = Some m \<Longrightarrow> m \<in> set xs" for xs m
    by (cases d) (auto simp: extremum_def dest: fmax_list_max fmin_list_min)
  show "\<not> better d x m" if "NaN \<notin> set xs" "extremum d xs = Some m" "x \<in> set xs" for xs m x
    using that not_flt [of m x] not_flt [of x m]
    by (cases d) (auto simp: extremum_def dest!: fmax_list_max fmin_list_min)
  show "better d a m \<Longrightarrow> NaN \<notin> {x, m} \<Longrightarrow> \<not> better d x m \<Longrightarrow> better d a x" for a m x
    using not_better [of x m d] tr by blast
qed

section \<open>Lemmas\<close>

lemma metrics_of_simps [simp]:
  "metrics_of [] = []"
  "metrics_of (t # ts) = (case tr_primary_metric t of None \<Rightarrow> metrics_of ts | Some m \<Rightarrow> m # metrics_of ts)"
  by (auto simp: metrics_of_def split: option.splits)

lemma metrics_of_append [simp]: "metrics_of (xs @ ys) = metrics_of xs @ metrics_of ys"
  by (simp add: metrics_of_def map_filter_def)

lemma in_metrics_of: "m \<in> set (metrics_of ts) \<longleftrightarrow> (\<exists>t\<in>set ts. tr_primary_metric t = Some m)"
  by (induction ts) (auto split: option.splits)

lemma extremum_Nil [simp]: "extremum d [] = None"
  by (simp add: obj.extr_None)

lemma first_decile_max_extremum:
  "compute_first_decile_max ts d = extremum d (metrics_of (first_decile ts))"
  by (cases d) (simp_all add: compute_first_decile_max_def extremum_def Let_def)

lemma take_sorted_le:
  "sorted (map k xs) \<Longrightarrow> x \<in> set (take n xs) \<Longrightarrow> y \<in> set (drop n xs) \<Longrightarrow> k x \<le> k y"
proof -
  assume a: "sorted (map k xs)" "x \<in> set (take n xs)" "y \<in> set (drop n xs)"
  have "sorted (map k (take n xs) @ map k (drop n xs))"
    using a(1) by (simp flip: map_append)
  then show "k x \<le> k y" using a(2,3) by (simp add: sorted_append)
qed

text \<open>The depth is left or not; the baseline the gate compares with.\<close>

definition gate_baseline :: "study \<Rightarrow> trial list \<Rightarrow> direction \<Rightarrow> pyfloat option" where
  "gate_baseline parent ts d = (case st_baseline_metric parent of
       Some b \<Rightarrow> Some b | None \<Rightarrow> compute_first_decile_max ts d)"

lemma gate_enqueue_iff:
  "cg_decision (evaluate_chain_gate parent ts epsilon d) = ENQUEUE \<longleftrightarrow>
     st_status parent \<notin> {Failed, Cancelled} \<and> \<not> depth_exhausted parent \<and>
     (\<exists>best base. st_best_metric parent = Some best \<and> gate_baseline parent ts d = Some base \<and>
        flt epsilon (direction_normalized_lift best base d))"
  by (auto simp: evaluate_chain_gate_def gate_baseline_def Let_def split: option.splits)

text \<open>Mirroring: the metrics of a study and its trials with the sign changed.\<close>

definition mirror_trial :: "trial \<Rightarrow> trial" where
  "mirror_trial t = t\<lparr>tr_primary_metric := map_option fneg (tr_primary_metric t)\<rparr>"

definition mirror_study :: "study \<Rightarrow> study" where
  "mirror_study s = s\<lparr>st_best_metric := map_option fneg (st_best_metric s),
     st_baseline_metric := map_option fneg (st_baseline_metric s)\<rparr>"

lemma flt_fneg [simp]: "flt (fneg a) (fneg b) = flt b a"
  by (cases a; cases b) auto

lemma fold_fmin_fneg:
  "fold (\<lambda>y m. fmin m y) (map fneg xs) (fneg x) = fneg (fold (\<lambda>y m. fmax m y) xs x)"
proof (induction xs arbitrary: x)
  case (Cons a xs)
  have "fmin (fneg x) (fneg a) = fneg (fmax x a)" by (simp add: fmin_def fmax_def)
  with Cons show ?case by simp
qed simp

lemma extremum_mirror: "extremum Minimize (map fneg xs) = map_option fneg (extremum Maximize xs)"
  by (cases xs) (simp_all add: extremum_def fold_fmin_fneg)

lemma metrics_of_mirror: "metrics_of (map mirror_trial ts) = map fneg (metrics_of ts)"
  by (induction ts) (auto simp: mirror_trial_def split: option.splits)

lemma first_decile_mirror: "first_decile (map mirror_trial ts) = map mirror_trial (first_decile ts)"
  by (simp add: first_decile_def sort_key_map Let_def mirror_trial_def take_map)

lemma lift_mirror:
  "direction_normalized_lift (fneg a) (fneg b) Minimize = direction_normalized_lift a b Maximize"
  by (simp add: direction_normalized_lift_def fsub_def fadd_commute)

section \<open>Properties\<close>

text \<open>C21 With a non-negative epsilon and metrics that are numbers, the gate enqueues only when
  the study is neither failed nor cancelled, has depth left, and its best metric is strictly
  better, in its direction, than its explicit baseline or, without one, than every metric of
  its first decile of trials.\<close>

theorem gate_enqueues_improvements:
  assumes "fle (Fin 0) epsilon" and "NaN \<notin> set (metrics_of ts)"
    and "cg_decision (evaluate_chain_gate parent ts epsilon d) = ENQUEUE"
  shows "st_status parent \<notin> {Failed, Cancelled} \<and> \<not> depth_exhausted parent \<and>
    (\<exists>best. st_best_metric parent = Some best \<and>
      (case st_baseline_metric parent of
         Some base \<Rightarrow> better d best base
       | None \<Rightarrow> metrics_of (first_decile ts) \<noteq> [] \<and>
           (\<forall>m\<in>set (metrics_of (first_decile ts)). better d best m)))"
proof -
  obtain best base where b: "st_best_metric parent = Some best"
      "gate_baseline parent ts d = Some base" "flt epsilon (direction_normalized_lift best base d)"
    and st: "st_status parent \<notin> {Failed, Cancelled}" "\<not> depth_exhausted parent"
    using assms(3) unfolding gate_enqueue_iff by blast
  have bet: "better d best base" using obj.lift_above [OF assms(1) b(3)] .
  have sub: "set (first_decile ts) \<subseteq> set ts"
    by (auto simp: first_decile_def Let_def dest: in_set_takeD)
  have "NaN \<notin> set (metrics_of (first_decile ts))"
    using assms(2) sub by (auto simp: in_metrics_of)
  then show ?thesis
    using b st bet obj.beats_all [of "metrics_of (first_decile ts)" d base best]
    by (auto simp: gate_baseline_def first_decile_max_extremum obj.extr_None split: option.splits)
qed

text \<open>The gate treats the two directions alike: minimizing is maximizing with every metric
  negated, with the same decision and the same lift.\<close>

theorem gate_direction_symmetric:
  "cg_decision (evaluate_chain_gate (mirror_study parent) (map mirror_trial ts) epsilon Minimize) =
     cg_decision (evaluate_chain_gate parent ts epsilon Maximize) \<and>
   cg_lift (evaluate_chain_gate (mirror_study parent) (map mirror_trial ts) epsilon Minimize) =
     cg_lift (evaluate_chain_gate parent ts epsilon Maximize)"
proof -
  have "compute_first_decile_max (map mirror_trial ts) Minimize =
      map_option fneg (compute_first_decile_max ts Maximize)"
    by (simp add: first_decile_max_extremum first_decile_mirror metrics_of_mirror extremum_mirror)
  moreover have "depth_exhausted (mirror_study parent) = depth_exhausted parent"
    by (simp add: depth_exhausted_def mirror_study_def)
  ultimately show ?thesis
    by (auto simp: evaluate_chain_gate_def mirror_study_def lift_mirror Let_def split: option.splits)
qed

lemma first_decile_cong:
  assumes "mset ts = mset us" and "distinct (map tr_number ts)"
  shows "first_decile ts = first_decile us"
proof -
  have "inj_on tr_number (set ts)" using assms(2) by (simp add: distinct_map)
  then have "sort_key tr_number ts = sort_key tr_number us"
    by (intro sort_key_inj_key_eq) (simp_all add: assms(1))
  then show ?thesis by (simp add: first_decile_def)
qed

text \<open>The trials may be handed over in any order: with distinct trial numbers the gate's
  outcome is the same, and the first decile is the tenth (at least one) of the trials with the
  lowest numbers.\<close>

theorem gate_ignores_trial_order:
  assumes "mset ts = mset us" and "distinct (map tr_number ts)"
  shows "evaluate_chain_gate parent ts epsilon d = evaluate_chain_gate parent us epsilon d \<and>
    length (first_decile ts) = min (length ts) (max 1 (length ts div 10)) \<and>
    (\<forall>t\<in>set (first_decile ts). \<forall>u\<in>set ts - set (first_decile ts). tr_number t < tr_number u)"
proof (intro conjI ballI)
  show "evaluate_chain_gate parent ts epsilon d = evaluate_chain_gate parent us epsilon d"
    unfolding evaluate_chain_gate_def compute_first_decile_max_def first_decile_cong [OF assms] ..
next
  show "length (first_decile ts) = min (length ts) (max 1 (length ts div 10))"
    by (simp add: first_decile_def Let_def)
next
  fix t u assume t: "t \<in> set (first_decile ts)" and u: "u \<in> set ts - set (first_decile ts)"
  let ?xs = "sort_key tr_number ts" and ?n = "max 1 (length (sort_key tr_number ts) div 10)"
  have fd: "first_decile ts = take ?n ?xs" by (simp add: first_decile_def Let_def)
  have "u \<in> set (drop ?n ?xs)"
    using u fd by (metis DiffE Un_iff append_take_drop_id set_append set_sort)
  then have le: "tr_number t \<le> tr_number u"
    using t unfolding fd by (intro take_sorted_le [of tr_number ?xs t ?n]) auto
  have "t \<in> set ts" using t unfolding fd by (auto dest: in_set_takeD)
  then have "tr_number t \<noteq> tr_number u"
    using t u assms(2) by (auto simp: distinct_map dest: inj_onD)
  with le show "tr_number t < tr_number u" by simp
qed

section \<open>Concrete instances\<close>

lemma epsilon_value:
  "AUTO_FOLLOWUP_LIFT_EPSILON = Fin (5764607523034235 / 1152921504606846976)"
  unfolding AUTO_FOLLOWUP_LIFT_EPSILON_def
  by (subst rnd64_near [where e = "- 8" and m = 5764607523034235]) (auto simp: pow2_def)

definition sample_parent :: study where
  "sample_parent = (sample_study ''p'' None Completed)\<lparr>st_config := [(''auto_followup_depth'', PInt 2)],
     st_best_metric := Some (Fin (3 / 4))\<rparr>"

definition sample_trials :: "trial list" where
  "sample_trials = [sample_trial ''u'' ''p'' 1 Complete (Some (Fin (3 / 4))),
     sample_trial ''t'' ''p'' 0 Complete (Some (Fin (1 / 2)))]"

lemma sample_gate:
  "first_decile sample_trials = [sample_trial ''t'' ''p'' 0 Complete (Some (Fin (1 / 2)))]"
  "cg_decision (evaluate_chain_gate sample_parent sample_trials AUTO_FOLLOWUP_LIFT_EPSILON Maximize) = ENQUEUE"
  "cg_decision (evaluate_chain_gate sample_parent sample_trials AUTO_FOLLOWUP_LIFT_EPSILON Minimize) = SKIP_NO_LIFT"
  by (simp_all add: sample_trials_def sample_trial_def first_decile_def evaluate_chain_gate_def
      sample_parent_def sample_study_def depth_exhausted_def obj_get_def compute_first_decile_max_def
      direction_normalized_lift_def fsub_def epsilon_value Let_def flip: fneg_rnd64)

lemma gate_enqueues_improvements_witness:
  "better Maximize (Fin (3 / 4)) (Fin (1 / 2))"
  using gate_enqueues_improvements [of AUTO_FOLLOWUP_LIFT_EPSILON sample_trials sample_parent Maximize]
  by (simp add: sample_gate epsilon_value sample_trials_def sample_trial_def)

lemma gate_ignores_trial_order_witness:
  "evaluate_chain_gate sample_parent sample_trials AUTO_FOLLOWUP_LIFT_EPSILON Maximize =
   evaluate_chain_gate sample_parent (rev sample_trials) AUTO_FOLLOWUP_LIFT_EPSILON Maximize"
  using gate_ignores_trial_order [of sample_trials "rev sample_trials" sample_parent
      AUTO_FOLLOWUP_LIFT_EPSILON Maximize]
  by (simp add: sample_trials_def sample_trial_def)

end
