(* ===== verification/Convergence.thy ===== *)
theory Convergence
  imports Chain_Gate
begin

text \<open>
  The convergence verdict of a study (\<open>backend/app/domain/study/convergence.py\<close>): the
  best-so-far curve of the usable trials, the improvement inside the trailing window and the
  decision. \<open>curve[-window_size]\<close> is written with the index from the front.
\<close>

section \<open>The code\<close>

definition CONVERGENCE_FLAT_EPSILON :: pyfloat where
  "CONVERGENCE_FLAT_EPSILON = AUTO_FOLLOWUP_LIFT_EPSILON"

definition CONVERGENCE_FLAT_WINDOW :: nat where "CONVERGENCE_FLAT_WINDOW = 20"

definition CONVERGENCE_FLAT_MIN_COMPLETE :: nat where "CONVERGENCE_FLAT_MIN_COMPLETE = 5"

definition STUDIES_TPE_WARMUP_FLOOR :: nat where "STUDIES_TPE_WARMUP_FLOOR = 50"

datatype convergence_verdict = Converged | StillImproving | TooFewTrials

record curve_point =
  cp_trial_number :: int
  cp_best_so_far :: pyfloat

record study_convergence =
  sc_verdict :: convergence_verdict
  sc_direction :: direction
  sc_window_size :: nat
  sc_epsilon :: pyfloat
  sc_warmup_floor :: nat
  sc_total_complete_trials :: nat
  sc_improvement_in_window :: pyfloat
  sc_best_so_far_curve :: "curve_point list"

definition usable :: "trial \<Rightarrow> bool" where
  "usable t = (tr_status t = Complete \<and> \<not> tr_is_baseline t \<and> tr_primary_metric t \<noteq> None)"

text \<open>The loops over the usable trials, with the running extremum.\<close>

fun curve_from :: "direction \<Rightarrow> pyfloat \<Rightarrow> trial list \<Rightarrow> curve_point list" where
  "curve_from d running [] = []"
| "curve_from d running (t # ts) =
     (let metric = the (tr_primary_metric t);
          running' = (if (if d = Maximize then flt running metric else flt metric running)
                      then metric else running)
      in \<lparr>cp_trial_number = tr_number t, cp_best_so_far = running'\<rparr> # curve_from d running' ts)"

definition best_so_far_curve :: "direction \<Rightarrow> trial list \<Rightarrow> curve_point list" where
  "best_so_far_curve d ts = curve_from d (if d = Maximize then NInf else PInf) ts"

definition convergence_window :: "nat \<Rightarrow> nat" where
  "convergence_window n_total = min CONVERGENCE_FLAT_WINDOW (max 5 (n_total div 5))"

definition classify_convergence :: "trial list \<Rightarrow> direction \<Rightarrow> study_convergence option" where
  "classify_convergence complete_trials d =
     (let usable_trials = sort_key tr_number (filter usable complete_trials);
          n_total = length usable_trials
      in if n_total < CONVERGENCE_FLAT_MIN_COMPLETE then None
         else
           (let curve = best_so_far_curve d usable_trials;
                window_size = convergence_window n_total;
                window_start = cp_best_so_far (curve ! (length curve - window_size));
                window_end = cp_best_so_far (last curve);
                raw_improvement = fsub window_end window_start;
                improvement = (if d = Maximize then raw_improvement else fneg raw_improvement);
                verdict = (if n_total < STUDIES_TPE_WARMUP_FLOOR then TooFewTrials
                           else if fle improvement CONVERGENCE_FLAT_EPSILON then Converged
                           else StillImproving)
            in Some \<lparr>sc_verdict = verdict, sc_direction = d, sc_window_size = window_size,
                 sc_epsilon = CONVERGENCE_FLAT_EPSILON, sc_warmup_floor = STUDIES_TPE_WARMUP_FLOOR,
                 sc_total_complete_trials = n_total, sc_improvement_in_window = improvement,
                 sc_best_so_far_curve = curve\<rparr>))"

section \<open>Lemmas\<close>

definition metrics :: "trial list \<Rightarrow> pyfloat list" where
  "metrics ts = map (\<lambda>t. the (tr_primary_metric t)) ts"

definition start_value :: "direction \<Rightarrow> pyfloat" where
  "start_value d = (if d = Maximize then NInf else PInf)"

text \<open>Not worse, in a direction.\<close>

definition at_least :: "direction \<Rightarrow> pyfloat \<Rightarrow> pyfloat \<Rightarrow> bool" where
  "at_least d a b = (case d of Maximize \<Rightarrow> fle b a | Minimize \<Rightarrow> fle a b)"

lemma at_least_trans: "at_least d a b \<Longrightarrow> at_least d b c \<Longrightarrow> at_least d a c"
  by (cases d) (auto simp: at_least_def intro: fle_trans)

lemma at_least_refl: "a \<noteq> NaN \<Longrightarrow> at_least d a a"
  by (cases d) (auto simp: at_least_def fle_refl)

lemma at_least_start: "a \<noteq> NaN \<Longrightarrow> at_least d a (start_value d)"
  by (cases d; cases a) (auto simp: at_least_def start_value_def)

lemma length_curve [simp]: "length (curve_from d r ts) = length ts"
  by (induction ts arbitrary: r) (auto simp: Let_def)

lemma curve_from_nth:
  assumes "NaN \<notin> set (metrics ts)" "r \<noteq> NaN" "i < length ts"
  shows "cp_trial_number (curve_from d r ts ! i) = tr_number (ts ! i) \<and>
    cp_best_so_far (curve_from d r ts ! i) \<in> insert r (set (metrics (take (Suc i) ts))) \<and>
    (\<forall>m\<in>insert r (set (metrics (take (Suc i) ts))). at_least d (cp_best_so_far (curve_from d r ts ! i)) m)"
  using assms
proof (induction ts arbitrary: r i)
  case (Cons t ts)
  let ?m = "the (tr_primary_metric t)"
  let ?r = "if (if d = Maximize then flt r ?m else flt ?m r) then ?m else r"
  have m: "?m \<noteq> NaN" "NaN \<notin> set (metrics ts)" using Cons.prems by (auto simp: metrics_def)
  have r: "?r \<noteq> NaN" "at_least d ?r ?m" "at_least d ?r r" "?r \<in> {r, ?m}"
    using m Cons.prems(2) not_flt [of r ?m] not_flt [of ?m r]
    by (cases d; auto simp: at_least_def flt_imp_fle fle_refl)+
  show ?case
  proof (cases i)
    case 0
    then show ?thesis using r by (auto simp: Let_def metrics_def)
  next
    case (Suc k)
    then have "k < length ts" using Cons.prems(3) by simp
    note IH = Cons.IH [OF m(2) r(1) this]
    let ?b = "cp_best_so_far (curve_from d ?r ts ! k)"
    have "at_least d ?b ?m" "at_least d ?b r"
      using IH r(2,3) at_least_trans by blast+
    then show ?thesis using IH r(4) Suc by (auto simp: Let_def metrics_def)
  qed
qed simp

lemma curve_from_mono:
  assumes "NaN \<notin> set (metrics ts)" "r \<noteq> NaN" "i \<le> j" "j < length ts"
  shows "at_least d (cp_best_so_far (curve_from d r ts ! j)) (cp_best_so_far (curve_from d r ts ! i))"
proof -
  have i: "i < length ts" using assms(3,4) by simp
  have "insert r (set (metrics (take (Suc i) ts))) \<subseteq> insert r (set (metrics (take (Suc j) ts)))"
    using set_take_subset_set_take [of "Suc i" "Suc j" ts] assms(3) by (auto simp: metrics_def)
  with curve_from_nth [OF assms(1,2) i, of d] curve_from_nth [OF assms(1,2,4), of d]
  show ?thesis by blast
qed

definition usable_sorted :: "trial list \<Rightarrow> trial list" where
  "usable_sorted ts = sort_key tr_number (filter usable ts)"

definition finite_metrics :: "trial list \<Rightarrow> bool" where
  "finite_metrics ts = (\<forall>t\<in>set ts. \<forall>m. usable t \<and> tr_primary_metric t = Some m \<longrightarrow> (\<exists>q. m = Fin q))"

lemma metrics_usable: "set (metrics (usable_sorted ts)) = {m. \<exists>t\<in>set ts. usable t \<and> tr_primary_metric t = Some m}"
  by (force simp: metrics_def usable_sorted_def usable_def image_iff)

lemma start_value_not_NaN [simp]: "start_value d \<noteq> NaN"
  by (simp add: start_value_def)

lemma best_so_far_curve_eq: "best_so_far_curve d = curve_from d (start_value d)"
  by (simp add: best_so_far_curve_def start_value_def fun_eq_iff)

lemma curve_nth:
  assumes "NaN \<notin> set (metrics ts)" "i < length ts"
  shows "cp_trial_number (best_so_far_curve d ts ! i) = tr_number (ts ! i) \<and>
    cp_best_so_far (best_so_far_curve d ts ! i) \<in> set (metrics (take (Suc i) ts)) \<and>
    (\<forall>m\<in>set (metrics (take (Suc i) ts)). at_least d (cp_best_so_far (best_so_far_curve d ts ! i)) m)"
proof -
  let ?b = "cp_best_so_far (best_so_far_curve d ts ! i)"
  note c = curve_from_nth [OF assms(1) start_value_not_NaN assms(2), of d d, folded best_so_far_curve_eq]
  have "metrics (take (Suc i) ts) \<noteq> []" using assms(2) by (cases ts) (auto simp: metrics_def)
  then obtain m where m: "m \<in> set (metrics (take (Suc i) ts))" by (meson list.set_sel(1))
  have "?b \<in> set (metrics (take (Suc i) ts))"
  proof (cases "?b = start_value d")
    case True
    have "m \<in> set (metrics ts)" using m by (auto simp: metrics_def dest: in_set_takeD)
    then have "m \<noteq> NaN" using assms(1) by auto
    moreover have "at_least d ?b m" using c m by blast
    ultimately have "m = ?b"
      unfolding True by (cases d; cases m) (auto simp: at_least_def start_value_def)
    with m show ?thesis by simp
  next
    case False
    then show ?thesis using c by blast
  qed
  then show ?thesis using c by blast
qed

lemma classify_None: "classify_convergence ts d = None \<longleftrightarrow> length (usable_sorted ts) < 5"
  by (simp add: classify_convergence_def usable_sorted_def CONVERGENCE_FLAT_MIN_COMPLETE_def Let_def)

lemma convergence_window_bounds:
  "5 \<le> n \<Longrightarrow> 5 \<le> convergence_window n \<and> convergence_window n \<le> min 20 n"
  by (auto simp: convergence_window_def CONVERGENCE_FLAT_WINDOW_def)

text \<open>The improvement as a lift over the curve's value where the window starts.\<close>

lemma improvement_lift:
  "(if d = Maximize then fsub e s else fneg (fsub e s)) = direction_normalized_lift e s d"
  by (cases d) (simp_all add: direction_normalized_lift_def fsub_swap [of s e])

lemma classify_fields:
  assumes "classify_convergence ts d = Some c"
  shows "sc_best_so_far_curve c = best_so_far_curve d (usable_sorted ts)"
    "sc_total_complete_trials c = length (usable_sorted ts)" "5 \<le> length (usable_sorted ts)"
    "sc_window_size c = convergence_window (length (usable_sorted ts))"
    "sc_improvement_in_window c = direction_normalized_lift (cp_best_so_far (last (sc_best_so_far_curve c)))
       (cp_best_so_far (sc_best_so_far_curve c ! (length (usable_sorted ts) - sc_window_size c))) d"
    "sc_verdict c = (if length (usable_sorted ts) < 50 then TooFewTrials
       else if fle (sc_improvement_in_window c) CONVERGENCE_FLAT_EPSILON then Converged else StillImproving)"
  using assms
  by (auto simp: classify_convergence_def Let_def usable_sorted_def CONVERGENCE_FLAT_MIN_COMPLETE_def
      STUDIES_TPE_WARMUP_FLOOR_def improvement_lift best_so_far_curve_eq split: if_splits)

lemma lift_mono:
  "at_least d (Fin p) (Fin q) \<Longrightarrow>
     fle (direction_normalized_lift (Fin q) (Fin b) d) (direction_normalized_lift (Fin p) (Fin b) d)"
  by (cases d) (auto simp: at_least_def direction_normalized_lift_def
      intro: fsub_mono_left fsub_mono_right)

lemma lift_nonneg:
  "at_least d (Fin p) (Fin q) \<Longrightarrow> fle (Fin 0) (direction_normalized_lift (Fin p) (Fin q) d)"
  by (cases d) (auto simp: at_least_def direction_normalized_lift_def intro: fsub_Fin_nonneg)

text \<open>The improvement over the last \<open>w\<close> points of the curve of finite metrics.\<close>

definition window_improvement :: "direction \<Rightarrow> trial list \<Rightarrow> nat \<Rightarrow> pyfloat" where
  "window_improvement d u w = direction_normalized_lift
     (cp_best_so_far (best_so_far_curve d u ! (length u - 1)))
     (cp_best_so_far (best_so_far_curve d u ! (length u - w))) d"

lemma curve_finite:
  assumes "\<forall>m\<in>set (metrics u). \<exists>q. m = Fin q" "i < length u"
  shows "\<exists>q. cp_best_so_far (best_so_far_curve d u ! i) = Fin q"
proof -
  have nan: "NaN \<notin> set (metrics u)" using assms(1) by blast
  have "cp_best_so_far (best_so_far_curve d u ! i) \<in> set (metrics (take (Suc i) u))"
    using curve_nth [OF nan assms(2)] by simp
  then have "cp_best_so_far (best_so_far_curve d u ! i) \<in> set (metrics u)"
    by (auto simp: metrics_def dest: in_set_takeD)
  with assms(1) show ?thesis by blast
qed

lemma window_ends:
  assumes "\<forall>m\<in>set (metrics u). \<exists>q. m = Fin q" "0 < w" "w \<le> length u"
  obtains s e where "cp_best_so_far (best_so_far_curve d u ! (length u - w)) = Fin s"
    "cp_best_so_far (best_so_far_curve d u ! (length u - 1)) = Fin e" "at_least d (Fin e) (Fin s)"
proof -
  have n: "length u - w \<le> length u - 1" "length u - w < length u" "length u - 1 < length u"
    using assms(2,3) by auto
  have nan: "NaN \<notin> set (metrics u)" using assms(1) by blast
  show ?thesis
    using that curve_finite [OF assms(1) n(2), of d] curve_finite [OF assms(1) n(3), of d]
      curve_from_mono [OF nan start_value_not_NaN n(1,3), of d d]
    by (auto simp: best_so_far_curve_eq)
qed

lemma window_improvement_nonneg:
  assumes "\<forall>m\<in>set (metrics u). \<exists>q. m = Fin q" "0 < w" "w \<le> length u"
  shows "fle (Fin 0) (window_improvement d u w)"
proof -
  obtain s e where "cp_best_so_far (best_so_far_curve d u ! (length u - w)) = Fin s"
    "cp_best_so_far (best_so_far_curve d u ! (length u - 1)) = Fin e" "at_least d (Fin e) (Fin s)"
    by (rule window_ends [OF assms])
  then show ?thesis using lift_nonneg by (simp add: window_improvement_def)
qed

text \<open>The best point is the start of the window, or a trial of the window.\<close>

lemma best_in_window:
  assumes "NaN \<notin> set (metrics u)" "0 < w" "w \<le> length u"
    and "cp_best_so_far (best_so_far_curve d u ! (length u - w)) = Fin s"
    and "cp_best_so_far (best_so_far_curve d u ! (length u - 1)) = Fin e" "at_least d (Fin e) (Fin s)"
  shows "e = s \<or> (\<exists>t\<in>set (drop (length u - w) u). the (tr_primary_metric t) = Fin e)"
proof -
  have n: "length u - w < length u" "length u - 1 < length u" using assms(2,3) by auto
  have "Fin e \<in> set (metrics u)"
    using curve_nth [OF assms(1) n(2), of d] assms(5) by (auto simp: metrics_def dest: in_set_takeD)
  then obtain t where t: "t \<in> set u" "the (tr_primary_metric t) = Fin e" by (auto simp: metrics_def)
  have "t \<in> set (take (length u - w) u) \<or> t \<in> set (drop (length u - w) u)"
    using t(1) by (metis Un_iff append_take_drop_id set_append)
  moreover have "e = s" if "t \<in> set (take (length u - w) u)"
  proof -
    have "Fin e \<in> set (metrics (take (Suc (length u - w)) u))"
      using that t(2) set_take_subset_set_take [of "length u - w" "Suc (length u - w)" u]
      by (force simp: metrics_def)
    then have "at_least d (Fin s) (Fin e)" using curve_nth [OF assms(1) n(1), of d] assms(4) by auto
    with assms(6) show ?thesis by (cases d) (auto simp: at_least_def)
  qed
  ultimately show ?thesis using t(2) by blast
qed

lemma window_flat_iff:
  assumes "\<forall>m\<in>set (metrics u). \<exists>q. m = Fin q" "0 < w" "w \<le> length u"
  shows "fle (window_improvement d u w) CONVERGENCE_FLAT_EPSILON \<longleftrightarrow>
    (\<forall>t\<in>set (drop (length u - w) u). fle (direction_normalized_lift (the (tr_primary_metric t))
       (cp_best_so_far (best_so_far_curve d u ! (length u - w))) d) CONVERGENCE_FLAT_EPSILON)"
proof -
  obtain s e where se: "cp_best_so_far (best_so_far_curve d u ! (length u - w)) = Fin s"
    "cp_best_so_far (best_so_far_curve d u ! (length u - 1)) = Fin e" "at_least d (Fin e) (Fin s)"
    by (rule window_ends [OF assms])
  have nan: "NaN \<notin> set (metrics u)" using assms(1) by blast
  have n: "length u - 1 < length u" "Suc (length u - 1) = length u" using assms(2,3) by auto
  have le: "fle (direction_normalized_lift (the (tr_primary_metric t)) (Fin s) d)
      (direction_normalized_lift (Fin e) (Fin s) d)" if "t \<in> set u" for t
  proof -
    have m: "the (tr_primary_metric t) \<in> set (metrics u)" using that by (simp add: metrics_def)
    then obtain q where q: "the (tr_primary_metric t) = Fin q" using assms(1) by blast
    have "at_least d (Fin e) (Fin q)" using curve_nth [OF nan n(1), of d] m q se(2) n(2) by auto
    then show ?thesis unfolding q by (rule lift_mono)
  qed
  have zero: "fle (direction_normalized_lift (Fin s) (Fin s) d) CONVERGENCE_FLAT_EPSILON"
    by (simp add: direction_normalized_lift_def fsub_self CONVERGENCE_FLAT_EPSILON_def epsilon_value)
  show ?thesis
    unfolding window_improvement_def se(1,2)
    using best_in_window [OF nan assms(2,3) se] zero le fle_trans
    by (metis in_set_dropD)
qed

section \<open>Properties\<close>

text \<open>The classifier answers from five usable trials on. Its curve has one point per usable
  trial, in the order of the trial numbers, and every point is the best metric up to that trial:
  one of those metrics, and none of them is better.\<close>

theorem convergence_curve:
  assumes "\<forall>t\<in>set ts. usable t \<longrightarrow> tr_primary_metric t \<noteq> Some NaN"
  shows "(classify_convergence ts d = None \<longleftrightarrow> length (filter usable ts) < 5) \<and>
    (\<forall>c. classify_convergence ts d = Some c \<longrightarrow>
      map cp_trial_number (sc_best_so_far_curve c) = map tr_number (usable_sorted ts) \<and>
      (\<forall>i<length (usable_sorted ts).
        cp_best_so_far (sc_best_so_far_curve c ! i) \<in> set (metrics (take (Suc i) (usable_sorted ts))) \<and>
        (\<forall>m\<in>set (metrics (take (Suc i) (usable_sorted ts))).
           \<not> better d m (cp_best_so_far (sc_best_so_far_curve c ! i)))))"
proof (intro conjI allI impI)
  show "classify_convergence ts d = None \<longleftrightarrow> length (filter usable ts) < 5"
    unfolding classify_None by (simp add: usable_sorted_def)
next
  have nan: "NaN \<notin> set (metrics (usable_sorted ts))" using assms by (auto simp: metrics_usable)
  fix c assume c: "classify_convergence ts d = Some c"
  note f = classify_fields [OF c]
  show "map cp_trial_number (sc_best_so_far_curve c) = map tr_number (usable_sorted ts)"
    using curve_nth [OF nan] by (auto simp: f best_so_far_curve_eq intro: nth_equalityI)
  fix i assume i: "i < length (usable_sorted ts)"
  note cn = curve_nth [OF nan i, of d]
  then show "cp_best_so_far (sc_best_so_far_curve c ! i) \<in> set (metrics (take (Suc i) (usable_sorted ts)))"
    by (simp add: f)
  show "\<forall>m\<in>set (metrics (take (Suc i) (usable_sorted ts))).
      \<not> better d m (cp_best_so_far (sc_best_so_far_curve c ! i))"
    using cn by (cases d) (fastforce simp: f at_least_def dest: flt_fle_trans)+
qed

text \<open>The verdict means what it says. The window has between 5 and 20 points and never more
  than there are; the improvement in it is not negative; below 50 usable trials the verdict is
  too few; from there on it is converged exactly when no usable trial of the window lifts the
  best metric at the window's start by more than the epsilon.\<close>

theorem convergence_verdict_meaning:
  assumes "finite_metrics ts" and "classify_convergence ts d = Some c"
  shows "5 \<le> sc_window_size c \<and> sc_window_size c \<le> min 20 (length (usable_sorted ts)) \<and>
    fle (Fin 0) (sc_improvement_in_window c) \<and>
    (sc_verdict c = TooFewTrials \<longleftrightarrow> length (usable_sorted ts) < 50) \<and>
    (50 \<le> length (usable_sorted ts) \<longrightarrow>
      (sc_verdict c = Converged \<longleftrightarrow>
        (\<forall>t\<in>set (drop (length (usable_sorted ts) - sc_window_size c) (usable_sorted ts)).
           fle (direction_normalized_lift (the (tr_primary_metric t))
               (cp_best_so_far (sc_best_so_far_curve c ! (length (usable_sorted ts) - sc_window_size c))) d)
             CONVERGENCE_FLAT_EPSILON)))"
proof -
  let ?u = "usable_sorted ts" and ?w = "sc_window_size c"
  note f = classify_fields [OF assms(2)]
  have w: "5 \<le> ?w" "?w \<le> 20" "?w \<le> length ?u"
    using convergence_window_bounds [OF f(3)] f(4) by simp_all
  have fin: "\<forall>m\<in>set (metrics ?u). \<exists>q. m = Fin q"
    using assms(1) by (auto simp: metrics_usable finite_metrics_def)
  have "sc_best_so_far_curve c \<noteq> []"
    using w by (simp add: f best_so_far_curve_eq flip: length_greater_0_conv)
  then have lst: "last (sc_best_so_far_curve c) = best_so_far_curve d ?u ! (length ?u - 1)"
    by (simp add: last_conv_nth f best_so_far_curve_eq)
  have imp: "sc_improvement_in_window c = window_improvement d ?u ?w"
    by (simp add: window_improvement_def f(5) lst) (simp add: f(1))
  have w0: "0 < ?w" using w(1) by simp
  show ?thesis
    using w window_improvement_nonneg [OF fin w0 w(3), of d] window_flat_iff [OF fin w0 w(3), of d]
    by (auto simp: f(6) imp f(1))
qed

section \<open>Concrete instances\<close>

definition sample_run :: "trial list" where
  "sample_run = map (\<lambda>i. sample_trial ''t'' ''s'' (int i) Complete (Some (Fin (of_nat i)))) [0, 2, 1, 3, 4]"

lemma sample_run_usable: "usable_sorted sample_run =
    map (\<lambda>i. sample_trial ''t'' ''s'' (int i) Complete (Some (Fin (of_nat i)))) [0, 1, 2, 3, 4]"
  by (simp add: usable_sorted_def sample_run_def usable_def sample_trial_def)

lemma sample_run_classified:
  "\<exists>c. classify_convergence sample_run Maximize = Some c \<and> sc_total_complete_trials c = 5"
proof -
  obtain c where "classify_convergence sample_run Maximize = Some c"
    using classify_None [of sample_run Maximize] by (auto simp: sample_run_usable)
  then show ?thesis using classify_fields(2) by (fastforce simp: sample_run_usable)
qed

lemma convergence_curve_witness:
  "\<exists>c. classify_convergence sample_run Maximize = Some c \<and>
     map cp_trial_number (sc_best_so_far_curve c) = [0, 1, 2, 3, 4]"
proof -
  have "\<forall>t\<in>set sample_run. usable t \<longrightarrow> tr_primary_metric t \<noteq> Some NaN"
    by (simp add: sample_run_def sample_trial_def)
  from convergence_curve [OF this, of Maximize] sample_run_classified show ?thesis
    by (auto simp: sample_run_usable sample_trial_def)
qed

lemma convergence_verdict_meaning_witness:
  "\<exists>c. classify_convergence sample_run Maximize = Some c \<and> sc_verdict c = TooFewTrials \<and>
     fle (Fin 0) (sc_improvement_in_window c)"
proof -
  have "finite_metrics sample_run"
    by (simp add: finite_metrics_def sample_run_def sample_trial_def)
  with sample_run_classified convergence_verdict_meaning show ?thesis
    by (fastforce simp: sample_run_usable)
qed

end
