(* ===== verification/Trial_Repo.thy ===== *)
theory Trial_Repo
  imports Paging Store Convergence
begin

text \<open>
  The queries on trials (\<open>backend/app/db/repo/trial.py\<close>): the lists the workers and the
  convergence classifier read, the aggregate the orchestrator stops with, and the paginated
  list in its five sorts. Metrics compare as PostgreSQL compares \<open>double precision\<close>: NaN is
  equal to itself and greater than every number.
\<close>

section \<open>The order of PostgreSQL on floats\<close>

instantiation pyfloat :: linorder
begin

fun less_eq_pyfloat :: "pyfloat \<Rightarrow> pyfloat \<Rightarrow> bool" where
  "less_eq_pyfloat a NaN = True"
| "less_eq_pyfloat NaN b = False"
| "less_eq_pyfloat NInf b = True"
| "less_eq_pyfloat a NInf = False"
| "less_eq_pyfloat a PInf = True"
| "less_eq_pyfloat PInf b = False"
| "less_eq_pyfloat (Fin x) (Fin y) = (x \<le> y)"

definition less_pyfloat :: "pyfloat \<Rightarrow> pyfloat \<Rightarrow> bool" where
  "less_pyfloat a b = (a \<le> b \<and> a \<noteq> b)"

instance
proof
  fix a b c :: pyfloat
  show le_antisym': "a \<le> b \<Longrightarrow> b \<le> a \<Longrightarrow> a = b" by (cases a; cases b) auto
  show "(a < b) = (a \<le> b \<and> \<not> b \<le> a)" by (cases a; cases b) (auto simp: less_pyfloat_def)
  show "a \<le> a" by (cases a) auto
  show "a \<le> b \<Longrightarrow> b \<le> c \<Longrightarrow> a \<le> c" by (cases a; cases b; cases c) auto
  show "a \<le> b \<or> b \<le> a" by (cases a; cases b) auto
qed

end

lemma sql_less_flt: "a \<noteq> NaN \<Longrightarrow> b \<noteq> NaN \<Longrightarrow> a < b \<longleftrightarrow> flt a b"
  by (cases a; cases b) (auto simp: less_pyfloat_def)

section \<open>Lists\<close>

definition trials_of :: "db \<Rightarrow> string \<Rightarrow> trial list" where
  "trials_of d study_id = filter (\<lambda>t. tr_study_id t = study_id) (db_trials d)"

definition list_trials_for_study :: "db \<Rightarrow> string \<Rightarrow> trial list" where
  "list_trials_for_study d study_id = sort_key tr_number (trials_of d study_id)"

record trial_counts =
  tc_total :: nat
  tc_complete :: nat

text \<open>The rows of the GROUP BY, then the studies without trials.\<close>

definition count_trials_for_studies :: "db \<Rightarrow> string list \<Rightarrow> (string, trial_counts) pydict" where
  "count_trials_for_studies d ids =
     (let groups = ordered_unique (filter (\<lambda>s. s \<in> set ids) (map tr_study_id (db_trials d)));
          total = (\<lambda>s. filter (\<lambda>t. \<not> tr_is_baseline t) (trials_of d s));
          result = map (\<lambda>s. (s, \<lparr>tc_total = length (total s),
            tc_complete = length (filter (\<lambda>t. tr_status t = Complete) (total s))\<rparr>)) groups
      in fold (\<lambda>s res. if map_of res s = None then dict_set s \<lparr>tc_total = 0, tc_complete = 0\<rparr> res else res)
           ids result)"

definition complete_optuna :: "trial \<Rightarrow> bool" where
  "complete_optuna t = (tr_status t = Complete \<and> \<not> tr_is_baseline t \<and> tr_primary_metric t \<noteq> None)"

definition list_complete_optuna_trials_for_study :: "db \<Rightarrow> string \<Rightarrow> trial list" where
  "list_complete_optuna_trials_for_study d study_id =
     sort_key tr_number (filter complete_optuna (trials_of d study_id))"

definition list_complete_optuna_trials_for_studies :: "db \<Rightarrow> string list \<Rightarrow> (string, trial list) pydict" where
  "list_complete_optuna_trials_for_studies d ids =
     (if ids = [] then []
      else (let rows = sort_key tr_study_id (sort_key tr_number
                  (filter (\<lambda>t. tr_study_id t \<in> set ids \<and> complete_optuna t) (db_trials d)));
                grouped = fold (\<lambda>s. dict_set s []) ids []
            in fold (\<lambda>t g. dict_set (tr_study_id t)
                 ((case map_of g (tr_study_id t) of None \<Rightarrow> [] | Some ts \<Rightarrow> ts) @ [t]) g) rows grouped))"

section \<open>The aggregate\<close>

record trials_summary =
  ts_total :: nat
  ts_complete :: nat
  ts_failed :: nat
  ts_pruned :: nat
  ts_best_primary_metric :: "pyfloat option"
  ts_best_trial_id :: "string option"

text \<open>\<open>MAX\<close> over the non-NULL values.\<close>

definition sql_max :: "('v::linorder) list \<Rightarrow> 'v option" where
  "sql_max xs = (if xs = [] then None else Some (Max (set xs)))"

definition aggregate_trials_summary :: "db \<Rightarrow> string \<Rightarrow> trials_summary" where
  "aggregate_trials_summary d study_id =
     (let rows = filter (\<lambda>t. \<not> tr_is_baseline t) (trials_of d study_id);
          complete = filter (\<lambda>t. tr_status t = Complete) rows;
          best = sql_max (List.map_filter tr_primary_metric complete);
          winner = sort_key tr_number (filter (\<lambda>t. sql_eq (tr_primary_metric t) best) complete)
      in \<lparr>ts_total = length rows, ts_complete = length complete,
          ts_failed = length (filter (\<lambda>t. tr_status t = TrialFailed) rows),
          ts_pruned = length (filter (\<lambda>t. tr_status t = Pruned) rows),
          ts_best_primary_metric = best,
          ts_best_trial_id = (case winner of [] \<Rightarrow> None | t # _ \<Rightarrow> Some (tr_id t))\<rparr>)"

section \<open>The paginated list\<close>

datatype trial_sort_key = PrimaryMetricDesc | PrimaryMetricAsc | EndedAtDesc | EndedAtAsc | NumberAsc

fun nulls_last :: "('v \<Rightarrow> 'v \<Rightarrow> bool) \<Rightarrow> bool \<Rightarrow> 'v option \<Rightarrow> 'v option \<Rightarrow> bool" where
  "nulls_last lt tie (Some x) (Some y) = (lt x y \<or> x = y \<and> tie)"
| "nulls_last lt tie (Some x) None = True"
| "nulls_last lt tie None (Some y) = False"
| "nulls_last lt tie None None = tie"

fun trial_order :: "trial_sort_key \<Rightarrow> trial \<Rightarrow> trial \<Rightarrow> bool" where
  "trial_order PrimaryMetricDesc a b =
     nulls_last (\<lambda>x y. y < x) (tr_id b < tr_id a) (tr_primary_metric a) (tr_primary_metric b)"
| "trial_order PrimaryMetricAsc a b =
     nulls_last (<) (tr_id a < tr_id b) (tr_primary_metric a) (tr_primary_metric b)"
| "trial_order EndedAtDesc a b =
     nulls_last (\<lambda>x y. y < x) (tr_id b < tr_id a) (tr_ended_at a) (tr_ended_at b)"
| "trial_order EndedAtAsc a b =
     nulls_last (<) (tr_id a < tr_id b) (tr_ended_at a) (tr_ended_at b)"
| "trial_order NumberAsc a b = (tr_number a < tr_number b \<or> tr_number a = tr_number b \<and> tr_id a < tr_id b)"

text \<open>
  The WHERE clause of a cursor taken from the row \<open>c\<close>. A comparison with the Python value
  \<open>None\<close> is rendered as IS NULL, so \<open>==\<close> is equality here.
\<close>

fun trial_after :: "trial_sort_key \<Rightarrow> trial \<Rightarrow> trial \<Rightarrow> bool" where
  "trial_after PrimaryMetricDesc c r =
     (if tr_primary_metric c \<noteq> None
      then sql_less (tr_primary_metric r) (tr_primary_metric c) \<or> tr_primary_metric r = None \<or>
           tr_primary_metric r = tr_primary_metric c \<and> tr_id r < tr_id c
      else tr_primary_metric r = None \<and> tr_id r < tr_id c)"
| "trial_after PrimaryMetricAsc c r =
     (if tr_primary_metric c \<noteq> None
      then sql_less (tr_primary_metric c) (tr_primary_metric r) \<or> tr_primary_metric r = None \<or>
           tr_primary_metric r = tr_primary_metric c \<and> tr_id c < tr_id r
      else tr_primary_metric r = None \<and> tr_id c < tr_id r)"
| "trial_after EndedAtDesc c r =
     (sql_less (tr_ended_at r) (tr_ended_at c) \<or> tr_ended_at r = tr_ended_at c \<and> tr_id r < tr_id c)"
| "trial_after EndedAtAsc c r =
     (sql_less (tr_ended_at c) (tr_ended_at r) \<or> tr_ended_at r = tr_ended_at c \<and> tr_id c < tr_id r)"
| "trial_after NumberAsc c r =
     (tr_number c < tr_number r \<or> tr_number r = tr_number c \<and> tr_id c < tr_id r)"

definition trials_since :: "db \<Rightarrow> string \<Rightarrow> int option \<Rightarrow> trial list" where
  "trials_since d study_id since = filter (\<lambda>t. case since of None \<Rightarrow> True
     | Some s \<Rightarrow> (case tr_ended_at t of None \<Rightarrow> False | Some e \<Rightarrow> s \<le> e)) (trials_of d study_id)"

definition list_trials_paginated ::
  "db \<Rightarrow> string \<Rightarrow> trial option \<Rightarrow> nat \<Rightarrow> trial_sort_key \<Rightarrow> int option \<Rightarrow> trial list" where
  "list_trials_paginated d study_id cursor limit k since =
     fetch_page (trial_order k) (trial_after k) limit cursor (trials_since d study_id since)"

definition count_trials :: "db \<Rightarrow> string \<Rightarrow> int option \<Rightarrow> nat" where
  "count_trials d study_id since = length (trials_since d study_id since)"

section \<open>Lemmas on the pages\<close>

text \<open>What the cursor predicate has to be; the two \<open>ended_at\<close> sorts miss the rows without one.\<close>

definition trial_after_all :: "trial_sort_key \<Rightarrow> trial \<Rightarrow> trial \<Rightarrow> bool" where
  "trial_after_all k c r = (trial_after k c r \<or>
     k \<in> {EndedAtDesc, EndedAtAsc} \<and> tr_ended_at c \<noteq> None \<and> tr_ended_at r = None)"

lemma nulls_last_trans:
  fixes a b c :: "('v::linorder) option" and i j l :: "'i::linorder"
  shows "nulls_last (\<lambda>x y. y < x) (j < i) a b \<Longrightarrow> nulls_last (\<lambda>x y. y < x) (l < j) b c \<Longrightarrow>
      nulls_last (\<lambda>x y. y < x) (l < i) a c"
    and "nulls_last (<) (i < j) a b \<Longrightarrow> nulls_last (<) (j < l) b c \<Longrightarrow> nulls_last (<) (i < l) a c"
  by (cases a; cases b; cases c; auto)+

lemma nulls_last_total:
  fixes a b :: "('v::linorder) option" and i j :: "'i::linorder"
  shows "i \<noteq> j \<Longrightarrow> nulls_last (\<lambda>x y. y < x) (j < i) a b \<or> nulls_last (\<lambda>x y. y < x) (i < j) b a"
    and "i \<noteq> j \<Longrightarrow> nulls_last (<) (i < j) a b \<or> nulls_last (<) (j < i) b a"
  by (cases a; cases b; auto)+

interpretation trial_keys: keyset "trial_order k" "trial_after_all k" tr_id for k
proof unfold_locales
  fix a b c :: trial
  show "\<not> trial_order k a a"
    by (cases k; cases "tr_primary_metric a"; cases "tr_ended_at a") auto
  show "trial_order k a b \<Longrightarrow> trial_order k b c \<Longrightarrow> trial_order k a c"
  proof (cases k)
    case NumberAsc
    then show "trial_order k a b \<Longrightarrow> trial_order k b c \<Longrightarrow> trial_order k a c" by auto
  qed (simp_all only: trial_order.simps, (erule (1) nulls_last_trans)+)
  show "tr_id a \<noteq> tr_id b \<Longrightarrow> trial_order k a b \<or> trial_order k b a"
    by (cases k) (simp_all add: nulls_last_total, auto)
  show "trial_after_all k a b \<longleftrightarrow> trial_order k a b"
    by (cases k; cases "tr_primary_metric a"; cases "tr_primary_metric b"; cases "tr_ended_at a"; cases "tr_ended_at b")
      (auto simp: trial_after_all_def)
qed

text \<open>Only rows of the table become cursors.\<close>

lemma fetch_page_cong:
  "(\<And>r. r \<in> set rows \<Longrightarrow> case cursor of None \<Rightarrow> True | Some c \<Rightarrow> after c r = after' c r) \<Longrightarrow>
     fetch_page lt after limit cursor rows = fetch_page lt after' limit cursor rows"
  unfolding fetch_page_def by (rule arg_cong [where f = "\<lambda>xs. take _ (order_by lt xs)"])
    (auto split: option.splits intro: filter_cong)

lemma fetch_page_subset: "set (fetch_page lt after limit cursor rows) \<subseteq> set rows"
  using set_take_subset by (fastforce simp: fetch_page_def)

lemma follow_pages_cong:
  assumes "\<And>c r. c \<in> set rows \<Longrightarrow> r \<in> set rows \<Longrightarrow> after c r = after' c r"
  shows "(case cursor of None \<Rightarrow> True | Some c \<Rightarrow> c \<in> set rows) \<Longrightarrow>
    follow_pages fuel lt after limit cursor rows = follow_pages fuel lt after' limit cursor rows"
proof (induction fuel arbitrary: cursor)
  case (Suc fuel)
  let ?p = "fetch_page lt after limit cursor rows"
  have p: "fetch_page lt after' limit cursor rows = ?p"
    using Suc.prems assms by (intro fetch_page_cong [symmetric]) (auto split: option.splits)
  have "?p \<noteq> [] \<Longrightarrow> last ?p \<in> set rows" using fetch_page_subset [of lt after limit cursor rows] last_in_set by blast
  then show ?case using p Suc.IH [of "Some (last ?p)"] by (simp add: Let_def)
qed simp

lemma trial_after_fixed:
  "k \<in> {EndedAtDesc, EndedAtAsc} \<longrightarrow> tr_ended_at r \<noteq> None \<Longrightarrow> trial_after k c r = trial_after_all k c r"
  by (auto simp: trial_after_all_def)

section \<open>The batched lists\<close>

lemma complete_optuna_usable: "complete_optuna = usable"
  by (simp add: fun_eq_iff complete_optuna_def usable_def)

lemma map_of_group:
  "map_of (fold (\<lambda>t g. dict_set (tr_study_id t)
        ((case map_of g (tr_study_id t) of None \<Rightarrow> [] | Some ts \<Rightarrow> ts) @ [t]) g) rows g) s =
     (case map_of g s of
        None \<Rightarrow> if \<exists>t\<in>set rows. tr_study_id t = s then Some (filter (\<lambda>t. tr_study_id t = s) rows) else None
      | Some ts \<Rightarrow> Some (ts @ filter (\<lambda>t. tr_study_id t = s) rows))"
  by (induction rows arbitrary: g) (auto split: option.splits)

lemma map_of_empty_groups: "map_of (fold (\<lambda>s. dict_set s []) ids g) s = (if s \<in> set ids then Some [] else map_of g s)"
  by (induction ids arbitrary: g) auto

text \<open>Picking one study's rows commutes with sorting them by number, then by study.\<close>

lemma filter_sort_study:
  "filter (\<lambda>t. tr_study_id t = s) (sort_key tr_study_id (sort_key tr_number rows)) =
     sort_key tr_number (filter (\<lambda>t. tr_study_id t = s) rows)"
  by (simp only: sort_key_stable filter_sort [of _ tr_number])

lemma batched_lookup:
  assumes "s \<in> set ids"
  shows "map_of (list_complete_optuna_trials_for_studies d ids) s = Some (list_complete_optuna_trials_for_study d s)"
proof -
  have "filter (\<lambda>t. tr_study_id t = s) (filter (\<lambda>t. tr_study_id t \<in> set ids \<and> complete_optuna t) (db_trials d)) =
      filter complete_optuna (trials_of d s)"
    using assms by (auto simp: trials_of_def intro: filter_cong)
  then show ?thesis
    using assms by (auto simp: list_complete_optuna_trials_for_studies_def Let_def map_of_group map_of_empty_groups
      filter_sort_study list_complete_optuna_trials_for_study_def)
qed

section \<open>The aggregate\<close>

lemma sql_max_None [simp]: "sql_max xs = None \<longleftrightarrow> xs = []"
  by (simp add: sql_max_def)

lemma sql_max_Some: "sql_max xs = Some m \<Longrightarrow> m \<in> set xs \<and> (\<forall>x\<in>set xs. x \<le> m)"
  by (auto simp: sql_max_def split: if_splits)

lemma sql_eq_Some: "sql_eq a b \<longleftrightarrow> a = b \<and> a \<noteq> None"
  by (cases a; cases b) auto

lemma set_map_filter: "set (List.map_filter f xs) = {y. \<exists>x\<in>set xs. f x = Some y}"
  by (induction xs) (auto simp: map_filter_simps split: option.splits)

lemma sort_key_Nil: "sort_key f xs = [] \<longleftrightarrow> xs = []"
  by (metis set_empty set_sort)

lemma first_of: "xs \<noteq> [] \<Longrightarrow> (case xs of [] \<Rightarrow> None | t # _ \<Rightarrow> Some (f t)) = Some (f (hd xs))"
  by (cases xs) auto

lemma hd_sort_key: "xs \<noteq> [] \<Longrightarrow> hd (sort_key f xs) \<in> set xs \<and> (\<forall>x\<in>set xs. f (hd (sort_key f xs)) \<le> f x)"
proof -
  assume a: "xs \<noteq> []"
  then obtain y ys where y: "sort_key f xs = y # ys" by (metis neq_Nil_conv set_empty set_sort)
  then have "sorted (map f (y # ys))" by (metis sorted_sort_key)
  moreover have "set xs = insert y (set ys)" using y by (metis list.simps(15) set_sort)
  ultimately show ?thesis using y by auto
qed

lemma three_statuses: "length xs = length (filter (\<lambda>t. tr_status t = Complete) xs) +
    length (filter (\<lambda>t. tr_status t = TrialFailed) xs) + length (filter (\<lambda>t. tr_status t = Pruned) xs)"
proof (induction xs)
  case (Cons t ts)
  then show ?case by (cases "tr_status t") auto
qed simp

section \<open>Properties\<close>

text \<open>The trial list paginates correctly in every sort by metric or number, and by end time as
  long as every trial has one: following the cursors yields each matching trial once, in order,
  and the total in the header is their number.\<close>

theorem trial_pages_enumerate:
  assumes "db_ok d" and "0 < limit" and "limit \<le> MAX_PAGE_LIMIT"
    and "k \<in> {EndedAtDesc, EndedAtAsc} \<longrightarrow> (\<forall>t\<in>set (trials_since d study_id since). tr_ended_at t \<noteq> None)"
  shows "\<exists>pages. follow_pages (Suc (count_trials d study_id since div limit)) (trial_order k) (trial_after k) limit None
      (trials_since d study_id since) = Some pages \<and>
    concat pages = order_by (trial_order k) (trials_since d study_id since) \<and>
    length (concat pages) = count_trials d study_id since \<and> distinct (map tr_id (concat pages))"
proof -
  let ?rows = "trials_since d study_id since"
  have "distinct (map tr_id ?rows)"
    using assms(1) by (simp add: db_ok_def trials_since_def trials_of_def distinct_map_filter)
  from trial_keys.follow_from [OF this assms(2,3), of 0 "Suc (length ?rows div limit)" k]
  obtain pages where p: "follow_pages (Suc (length ?rows div limit)) (trial_order k) (trial_after_all k) limit None ?rows = Some pages"
    "concat pages = order_by (trial_order k) ?rows" by auto
  have "follow_pages (Suc (length ?rows div limit)) (trial_order k) (trial_after k) limit None ?rows = Some pages"
    using p(1) assms(4) trial_after_fixed by (subst follow_pages_cong [where after' = "trial_after_all k"]) auto
  moreover have "distinct (map tr_id (concat pages))"
    unfolding p(2) using \<open>distinct (map tr_id ?rows)\<close> by simp
  ultimately show ?thesis using p(2) by (simp add: count_trials_def del: follow_pages.simps)
qed

text \<open>The aggregate counts every Optuna trial once. Its best metric is the largest of the
  complete trials (whatever the direction of the study), and its winner is the trial with the
  lowest number among those that reach it; the batched lists of complete trials are the single
  ones.\<close>

theorem summary_winner:
  "let r = aggregate_trials_summary d study_id; cs = filter (\<lambda>t. tr_status t = Complete \<and> \<not> tr_is_baseline t) (trials_of d study_id)
   in ts_total r = ts_complete r + ts_failed r + ts_pruned r \<and>
      (case ts_best_primary_metric r of
         None \<Rightarrow> ts_best_trial_id r = None \<and> (\<forall>t\<in>set cs. tr_primary_metric t = None)
       | Some m \<Rightarrow> \<exists>w\<in>set cs. ts_best_trial_id r = Some (tr_id w) \<and> tr_primary_metric w = Some m \<and>
           (\<forall>t\<in>set cs. \<forall>x. tr_primary_metric t = Some x \<longrightarrow> x \<le> m \<and> (x = m \<longrightarrow> tr_number w \<le> tr_number t))) \<and>
      (\<forall>s\<in>set ids. map_of (list_complete_optuna_trials_for_studies d ids) s =
        Some (list_complete_optuna_trials_for_study d s))"
proof -
  let ?r = "aggregate_trials_summary d study_id"
  let ?cs = "filter (\<lambda>t. tr_status t = Complete \<and> \<not> tr_is_baseline t) (trials_of d study_id)"
  let ?m = "sql_max (List.map_filter tr_primary_metric ?cs)"
  let ?w = "filter (\<lambda>t. sql_eq (tr_primary_metric t) ?m) ?cs"
  have cs: "filter (\<lambda>t. tr_status t = Complete) (filter (\<lambda>t. \<not> tr_is_baseline t) (trials_of d study_id)) = ?cs"
    by (simp add: conj_commute)
  have best: "ts_best_primary_metric ?r = ?m"
    and win: "ts_best_trial_id ?r = (case sort_key tr_number ?w of [] \<Rightarrow> None | t # _ \<Rightarrow> Some (tr_id t))"
    and total: "ts_total ?r = ts_complete ?r + ts_failed ?r + ts_pruned ?r"
    using three_statuses [of "filter (\<lambda>t. \<not> tr_is_baseline t) (trials_of d study_id)"]
    by (simp_all only: aggregate_trials_summary_def Let_def cs trials_summary.select_convs)
  have "case ?m of
      None \<Rightarrow> ts_best_trial_id ?r = None \<and> (\<forall>t\<in>set ?cs. tr_primary_metric t = None)
    | Some m \<Rightarrow> \<exists>w\<in>set ?cs. ts_best_trial_id ?r = Some (tr_id w) \<and> tr_primary_metric w = Some m \<and>
        (\<forall>t\<in>set ?cs. \<forall>x. tr_primary_metric t = Some x \<longrightarrow> x \<le> m \<and> (x = m \<longrightarrow> tr_number w \<le> tr_number t))"
  proof (cases ?m)
    case None
    have "tr_primary_metric t = None" if t: "t \<in> set ?cs" for t
    proof (cases "tr_primary_metric t")
      case (Some x)
      then have "x \<in> set (List.map_filter tr_primary_metric ?cs)"
        unfolding set_map_filter mem_Collect_eq using t by (intro bexI)
      then show ?thesis using None by simp
    qed
    moreover have "?w = []" using None by (auto simp: filter_empty_conv sql_eq_Some simp del: sql_max_None)
    ultimately show ?thesis using None win by (simp del: sql_max_None)
  next
    case (Some m)
    have m: "m \<in> {y. \<exists>t\<in>set ?cs. tr_primary_metric t = Some y}" "\<forall>t\<in>set ?cs. \<forall>x. tr_primary_metric t = Some x \<longrightarrow> x \<le> m"
      using sql_max_Some [OF Some] unfolding set_map_filter by auto
    have w: "?w = filter (\<lambda>t. tr_primary_metric t = Some m) ?cs" using Some by (auto simp: sql_eq_Some intro: filter_cong)
    then have ne: "?w \<noteq> []" using m(1) by (auto simp: filter_empty_conv)
    let ?h = "hd (sort_key tr_number ?w)"
    have "ts_best_trial_id ?r = Some (tr_id ?h)"
      unfolding win by (rule first_of) (simp only: sort_key_Nil ne not_False_eq_True)
    moreover have "?h \<in> set ?cs" "tr_primary_metric ?h = Some m" and
      low: "\<forall>t\<in>set ?cs. tr_primary_metric t = Some m \<longrightarrow> tr_number ?h \<le> tr_number t"
      using hd_sort_key [OF ne, of tr_number] unfolding w by auto
    moreover have "\<forall>t\<in>set ?cs. \<forall>x. tr_primary_metric t = Some x \<longrightarrow> x \<le> m \<and> (x = m \<longrightarrow> tr_number ?h \<le> tr_number t)"
      using m(2) low by blast
    ultimately show ?thesis unfolding Some option.case by blast
  qed
  then show ?thesis using best total batched_lookup by (simp add: Let_def)
qed

text \<open>A page boundary of an \<open>ended_at\<close> sort loses the trials without an end time, such as those
  rebuilt from Optuna's state.\<close>

definition sample_trial_db :: "int option \<Rightarrow> db" where
  "sample_trial_db e = \<lparr>db_studies = [],
     db_trials = [sample_trial ''a'' ''s'' 1 Complete (Some (Fin 1)),
       (sample_trial ''b'' ''s'' 2 Complete (Some (Fin 2)))\<lparr>tr_ended_at := e\<rparr>], db_proposals = []\<rparr>"

lemma ended_at_page_loses_rows:
  "follow_pages 2 (trial_order EndedAtDesc) (trial_after EndedAtDesc) 1 None
     (trials_since (sample_trial_db None) ''s'' None) =
   Some [[sample_trial ''a'' ''s'' 1 Complete (Some (Fin 1))], []]"
  by (simp add: numeral_2_eq_2 Let_def fetch_page_def trials_since_def trials_of_def sample_trial_db_def sample_trial_def
      order_by_def MAX_PAGE_LIMIT_def)

lemma trial_pages_enumerate_witness:
  "\<exists>pages. follow_pages 3 (trial_order EndedAtDesc) (trial_after EndedAtDesc) 1 None
     (trials_since (sample_trial_db (Some 9)) ''s'' None) = Some pages \<and> length (concat pages) = 2"
proof -
  have "db_ok (sample_trial_db (Some 9))" by (simp add: db_ok_def sample_trial_db_def sample_trial_def)
  moreover have "\<forall>t\<in>set (trials_since (sample_trial_db (Some 9)) ''s'' None). tr_ended_at t \<noteq> None"
    "count_trials (sample_trial_db (Some 9)) ''s'' None = 2"
    by (simp_all add: count_trials_def trials_since_def trials_of_def sample_trial_db_def sample_trial_def)
  ultimately show ?thesis
    using trial_pages_enumerate [of "sample_trial_db (Some 9)" 1 EndedAtDesc "''s''" None]
    by (simp add: MAX_PAGE_LIMIT_def numeral_3_eq_3 del: follow_pages.simps) (metis numeral_2_eq_2)
qed

lemma summary_winner_witness:
  "ts_best_trial_id (aggregate_trials_summary (sample_trial_db None) ''s'') = Some ''b'' \<and>
     ts_total (aggregate_trials_summary (sample_trial_db None) ''s'') = 2"
  using summary_winner [of "sample_trial_db None" "''s''" "[]"]
  by (simp add: aggregate_trials_summary_def Let_def trials_of_def sample_trial_db_def sample_trial_def sql_max_def
      map_filter_simps less_pyfloat_def max_def)

end
