(* ===== verification/Search_Space.thy ===== *)
theory Search_Space
  imports Values Normalizers
begin

text \<open>
  The typed search space of a study (\<open>backend/app/domain/study/search_space.py\<close>, and
  \<open>validate_normalizer_reservation\<close> of \<open>normalizers.py\<close>): parameter specs and their
  validators, the cardinality estimate, the checks against a template and the sampling of a
  trial's parameters. A validator that raises is an error value. Optuna's trial is the
  parameter \<open>suggest\<close> functions on a trial state, with what they promise in \<open>suggests_ok\<close>.
\<close>

section \<open>Specs and their validators\<close>

datatype param_spec =
    FloatParam pyfloat pyfloat bool
  | IntParam int int
  | CategoricalParam "pyval list"
  | NormalizerPipelineParam "normalizer_step list"

type_synonym search_space = "(string, param_spec) pydict"

datatype space_error =
    ValidationError string
  | InvalidSearchSpaceError string
  | UnknownSearchSpaceParamError string string "string list"
  | MissingDeclaredParamError string string
  | NormalizerPipelineMisplacedError string
  | NormalizerParamShapeError
  | NormalizerChoiceInvalidError pyval

definition check_float_bounds :: "pyfloat \<Rightarrow> pyfloat \<Rightarrow> bool \<Rightarrow> space_error option" where
  "check_float_bounds low high is_log =
     (if fle high low then Some (ValidationError ''low must be < high'')
      else if is_log \<and> fle low (Fin 0) then Some (ValidationError ''log-uniform: low must be > 0'')
      else None)"

definition check_int_bounds :: "int \<Rightarrow> int \<Rightarrow> space_error option" where
  "check_int_bounds low high =
     (if high < low then Some (ValidationError ''low must be <= high'') else None)"

fun no_duplicate_steps :: "normalizer_step list \<Rightarrow> normalizer_step list \<Rightarrow> space_error option" where
  "no_duplicate_steps seen [] = None"
| "no_duplicate_steps seen (s # ss) =
     (if s \<in> set seen then Some (ValidationError ''duplicate step'')
      else no_duplicate_steps (s # seen) ss)"

text \<open>The validators of one spec, with the \<open>min_length\<close> of its lists.\<close>

fun check_param :: "param_spec \<Rightarrow> space_error option" where
  "check_param (FloatParam low high is_log) = check_float_bounds low high is_log"
| "check_param (IntParam low high) = check_int_bounds low high"
| "check_param (CategoricalParam choices) =
     (if choices = [] then Some (ValidationError ''choices: min_length'') else None)"
| "check_param (NormalizerPipelineParam steps) =
     (if steps = [] then Some (ValidationError ''steps: min_length'')
      else no_duplicate_steps [] steps)"

fun spec_cardinality :: "param_spec \<Rightarrow> int" where
  "spec_cardinality (FloatParam low high is_log) = 100"
| "spec_cardinality (IntParam low high) = high - low + 1"
| "spec_cardinality (CategoricalParam choices) = int (length choices)"
| "spec_cardinality (NormalizerPipelineParam steps) = 2 ^ length steps"

definition estimate_cardinality :: "search_space \<Rightarrow> int" where
  "estimate_cardinality space = fold (\<lambda>spec n. n * spec_cardinality spec) (dict_values space) 1"

definition check_cardinality :: "search_space \<Rightarrow> space_error option" where
  "check_cardinality space =
     (if estimate_cardinality space > 1000000
      then Some (ValidationError ''search-space cardinality estimate exceeds 10^6'') else None)"

text \<open>\<open>SearchSpace(params=...)\<close>: every spec's validators, then the model's own.\<close>

definition make_search_space :: "search_space \<Rightarrow> space_error + search_space" where
  "make_search_space params =
     (if params = [] then Inl (ValidationError ''params: min_length'')
      else (case List.map_filter check_param (dict_values params) of
          e # _ \<Rightarrow> Inl e
        | [] \<Rightarrow> (case check_cardinality params of Some e \<Rightarrow> Inl e | None \<Rightarrow> Inr params)))"

section \<open>Checks against a template\<close>

definition validate_against_template ::
  "search_space \<Rightarrow> (string, string) pydict \<Rightarrow> string \<Rightarrow> space_error + unit" where
  "validate_against_template space declared_params template_name =
     (let declared_names = dict_keys declared_params; submitted_names = dict_keys space;
          unknown = sorted_set (filter (\<lambda>n. n \<notin> set declared_names) submitted_names);
          missing = sorted_set (filter (\<lambda>n. n \<notin> set submitted_names) declared_names)
      in if unknown \<noteq> [] then
           Inl (UnknownSearchSpaceParamError (hd unknown) template_name (sorted_set declared_names))
         else if missing \<noteq> [] then Inl (MissingDeclaredParamError (hd missing) template_name)
         else Inr ())"

section \<open>The reserved normalizer key\<close>

definition normalizer_key :: string where
  "normalizer_key = ''query_normalizer''"

fun is_pipeline :: "param_spec \<Rightarrow> bool" where
  "is_pipeline (NormalizerPipelineParam _) = True"
| "is_pipeline _ = False"

definition choice_allowed :: "pyval \<Rightarrow> bool" where
  "choice_allowed v = (case v of PStr s \<Rightarrow> s \<in> set NORMALIZER_CHOICES | _ \<Rightarrow> False)"

definition validate_normalizer_reservation :: "search_space \<Rightarrow> space_error + unit" where
  "validate_normalizer_reservation space =
     (case find (\<lambda>(name, spec). name \<noteq> normalizer_key \<and> is_pipeline spec) space of
        Some (name, _) \<Rightarrow> Inl (NormalizerPipelineMisplacedError name)
      | None \<Rightarrow> (case map_of space normalizer_key of
          None \<Rightarrow> Inr ()
        | Some (NormalizerPipelineParam _) \<Rightarrow> Inr ()
        | Some (CategoricalParam choices) \<Rightarrow>
            (case find (\<lambda>c. \<not> choice_allowed c) choices of
               None \<Rightarrow> Inr () | Some c \<Rightarrow> Inl (NormalizerChoiceInvalidError c))
        | Some _ \<Rightarrow> Inl NormalizerParamShapeError))"

section \<open>Sampling\<close>

record 't trial_api =
  suggest_float :: "string \<Rightarrow> pyfloat \<Rightarrow> pyfloat \<Rightarrow> bool \<Rightarrow> 't \<Rightarrow> pyval \<times> 't"
  suggest_int :: "string \<Rightarrow> int \<Rightarrow> int \<Rightarrow> 't \<Rightarrow> pyval \<times> 't"
  suggest_categorical :: "string \<Rightarrow> pyval list \<Rightarrow> 't \<Rightarrow> pyval \<times> 't"

fun suggest :: "'t trial_api \<Rightarrow> string \<Rightarrow> param_spec \<Rightarrow> 't \<Rightarrow> pyval \<times> 't" where
  "suggest api name (FloatParam low high is_log) t = suggest_float api name low high is_log t"
| "suggest api name (IntParam low high) t = suggest_int api name low high t"
| "suggest api name (CategoricalParam choices) t = suggest_categorical api name choices t"
| "suggest api name (NormalizerPipelineParam steps) t =
     suggest_categorical api name (map PStr (pipeline_labels steps)) t"

definition apply_search_space :: "'t trial_api \<Rightarrow> 't \<Rightarrow> search_space \<Rightarrow> obj \<times> 't" where
  "apply_search_space api trial space =
     fold (\<lambda>(name, spec) (suggested, t). let (v, t') = suggest api name spec t
        in (dict_set name v suggested, t')) space ([], trial)"

section \<open>Lemmas\<close>

definition param_ok :: "param_spec \<Rightarrow> bool" where
  "param_ok spec = (case spec of
       FloatParam low high is_log \<Rightarrow> \<not> fle high low \<and> (is_log \<longrightarrow> \<not> fle low (Fin 0))
     | IntParam low high \<Rightarrow> low \<le> high
     | CategoricalParam choices \<Rightarrow> choices \<noteq> []
     | NormalizerPipelineParam steps \<Rightarrow> steps \<noteq> [] \<and> distinct steps)"

definition space_ok :: "search_space \<Rightarrow> bool" where
  "space_ok space = (space \<noteq> [] \<and> (\<forall>spec\<in>set (dict_values space). param_ok spec) \<and>
     estimate_cardinality space \<le> 1000000)"

lemma no_duplicate_steps_iff: "no_duplicate_steps seen ss = None \<longleftrightarrow> distinct ss \<and> set seen \<inter> set ss = {}"
  by (induction seen ss rule: no_duplicate_steps.induct) auto

lemma check_param_iff: "check_param spec = None \<longleftrightarrow> param_ok spec"
  by (cases spec) (auto simp: param_ok_def check_float_bounds_def check_int_bounds_def no_duplicate_steps_iff)

lemma map_filter_Nil: "List.map_filter f xs = [] \<longleftrightarrow> (\<forall>x\<in>set xs. f x = None)"
  by (induction xs) (auto split: option.splits)

lemma make_search_space_ok: "make_search_space params = Inr s \<longleftrightarrow> s = params \<and> space_ok params"
proof (cases "List.map_filter check_param (dict_values params)")
  case Nil
  then have "\<forall>spec\<in>set (dict_values params). param_ok spec" by (simp add: map_filter_Nil check_param_iff)
  with Nil show ?thesis by (auto simp: make_search_space_def space_ok_def check_cardinality_def)
next
  case (Cons e es)
  then have "\<not> (\<forall>spec\<in>set (dict_values params). param_ok spec)"
    using map_filter_Nil [of check_param "dict_values params"] by (simp add: check_param_iff)
  with Cons show ?thesis by (auto simp: make_search_space_def space_ok_def)
qed

lemma spec_cardinality_pos: "param_ok spec \<Longrightarrow> 1 \<le> spec_cardinality spec"
  by (cases spec) (auto simp: param_ok_def Suc_le_eq)

lemma fold_mult: "fold (\<lambda>x n. n * f x) xs a = (a :: int) * prod_list (map f xs)"
  by (induction xs arbitrary: a) auto

lemma estimate_cardinality_prod: "estimate_cardinality space = prod_list (map spec_cardinality (dict_values space))"
  by (simp add: estimate_cardinality_def fold_mult)

lemma prod_list_ge1: "\<forall>x\<in>set xs. 1 \<le> x \<Longrightarrow> 1 \<le> prod_list (xs :: int list)"
proof (induction xs)
  case (Cons a xs)
  then have "1 \<le> a" "1 \<le> prod_list xs" by auto
  then show ?case using mult_mono [of 1 a 1 "prod_list xs"] by simp
qed simp

lemma prod_list_member: "\<forall>x\<in>set xs. 1 \<le> x \<Longrightarrow> y \<in> set xs \<Longrightarrow> y \<le> prod_list (xs :: int list)"
proof (induction xs)
  case (Cons a xs)
  then have a: "1 \<le> a" "1 \<le> prod_list xs" using prod_list_ge1 [of xs] by auto
  show ?case
  proof (cases "y = a")
    case True
    then show ?thesis using a mult_left_mono [of 1 "prod_list xs" a] by simp
  next
    case False
    then have "y \<le> prod_list xs" using Cons by simp
    moreover have "prod_list xs \<le> a * prod_list xs" using a mult_right_mono [of 1 a "prod_list xs"] by simp
    ultimately show ?thesis by simp
  qed
qed simp

text \<open>What a value must satisfy to be a sample of a spec; the choices a spec is sampled over.\<close>

fun in_spec :: "param_spec \<Rightarrow> pyval \<Rightarrow> bool" where
  "in_spec (FloatParam low high is_log) v = (\<exists>x. v = PFloat x \<and> fle low x \<and> fle x high)"
| "in_spec (IntParam low high) v = (\<exists>n. v = PInt n \<and> low \<le> n \<and> n \<le> high)"
| "in_spec (CategoricalParam choices) v = (v \<in> set choices)"
| "in_spec (NormalizerPipelineParam steps) v =
     (\<exists>l ss. v = PStr l \<and> steps_for_label l = Some ss \<and> set ss \<subseteq> set steps)"

text \<open>Optuna's documented promise: a suggestion lies in the range or is one of the choices.\<close>

definition suggests_ok :: "'t trial_api \<Rightarrow> bool" where
  "suggests_ok api =
     ((\<forall>name low high is_log t. flt low high \<longrightarrow>
        (\<exists>x. fst (suggest_float api name low high is_log t) = PFloat x \<and> fle low x \<and> fle x high)) \<and>
      (\<forall>name low high t. low \<le> high \<longrightarrow>
        (\<exists>n. fst (suggest_int api name low high t) = PInt n \<and> low \<le> n \<and> n \<le> high)) \<and>
      (\<forall>name choices t. choices \<noteq> [] \<longrightarrow> fst (suggest_categorical api name choices t) \<in> set choices))"

definition number_bounds :: "param_spec \<Rightarrow> bool" where
  "number_bounds spec = (case spec of FloatParam low high is_log \<Rightarrow> low \<noteq> NaN \<and> high \<noteq> NaN | _ \<Rightarrow> True)"

lemma label_in_spec: "l \<in> set (pipeline_labels steps) \<Longrightarrow> in_spec (NormalizerPipelineParam steps) (PStr l)"
proof -
  assume "l \<in> set (pipeline_labels steps)"
  moreover have "set (pipeline_labels steps) = label_for_subset ` Pow (set steps)"
    using set_sized_labels [of "filter (\<lambda>s. s \<in> set steps) STEP_ORDER"]
    by (simp add: pipeline_labels_eq Int_def [symmetric])
  ultimately obtain S where "S \<subseteq> set steps" "l = label_for_subset S" by auto
  then show ?thesis by (auto simp: steps_for_label_subset)
qed

lemma pipeline_labels_not_Nil: "pipeline_labels steps \<noteq> []"
proof -
  have "length (pipeline_labels steps) = 2 ^ length (filter (\<lambda>s. s \<in> set steps) STEP_ORDER)"
    by (simp add: pipeline_labels_eq length_sized_labels)
  then show ?thesis by (metis length_0_conv power_eq_0_iff zero_neq_numeral)
qed

lemma suggest_in_spec:
  assumes "suggests_ok api" "param_ok spec" "number_bounds spec"
  shows "in_spec spec (fst (suggest api name spec t))"
proof (cases spec)
  case (NormalizerPipelineParam steps)
  have "fst (suggest api name spec t) \<in> set (map PStr (pipeline_labels steps))"
    using assms(1) pipeline_labels_not_Nil [of steps]
    unfolding suggests_ok_def NormalizerPipelineParam suggest.simps
    by (auto simp del: set_map simp: Ball_def [symmetric])
  then show ?thesis unfolding NormalizerPipelineParam using label_in_spec by (auto simp del: in_spec.simps)
next
  case (FloatParam low high is_log)
  then have "flt low high" using assms(2,3) not_flt [of low high]
    by (auto simp: param_ok_def number_bounds_def)
  then show ?thesis using assms(1) by (auto simp: suggests_ok_def FloatParam)
qed (use assms in \<open>auto simp: suggests_ok_def param_ok_def\<close>)

lemma dict_set_fresh: "k \<notin> fst ` set d \<Longrightarrow> dict_set k v d = d @ [(k, v)]"
  by (induction k v d rule: dict_set.induct) auto

lemma fold_suggest:
  assumes api: "suggests_ok api" and ok: "\<forall>spec\<in>set (dict_values space). param_ok spec \<and> number_bounds spec"
    and d: "distinct (map fst space)" "set (map fst space) \<inter> fst ` set acc = {}"
  shows "\<exists>vs t'. fold (\<lambda>(name, spec) (suggested, t). let (v, t') = suggest api name spec t
        in (dict_set name v suggested, t')) space (acc, t) = (acc @ zip (map fst space) vs, t') \<and>
      list_all2 in_spec (dict_values space) vs"
  using ok d
proof (induction space arbitrary: acc t)
  case (Cons p space)
  obtain name spec where p: "p = (name, spec)" by (cases p)
  obtain v t' where v: "suggest api name spec t = (v, t')" by (cases "suggest api name spec t")
  have "in_spec spec v"
    using suggest_in_spec [OF api, of spec name t] Cons.prems(1) v by (simp add: p dict_values_def)
  moreover have "dict_set name v acc = acc @ [(name, v)]"
    using Cons.prems(3) by (intro dict_set_fresh) (auto simp: p)
  moreover have "\<exists>vs t''. fold (\<lambda>(name, spec) (suggested, t). let (v, t') = suggest api name spec t
        in (dict_set name v suggested, t')) space (acc @ [(name, v)], t') =
        ((acc @ [(name, v)]) @ zip (map fst space) vs, t'') \<and> list_all2 in_spec (dict_values space) vs"
    using Cons.prems by (intro Cons.IH) (auto simp: p dict_values_def)
  then obtain vs t'' where "fold (\<lambda>(name, spec) (suggested, t). let (v, t') = suggest api name spec t
        in (dict_set name v suggested, t')) space (acc @ [(name, v)], t') =
        (acc @ (name, v) # zip (map fst space) vs, t'')" "list_all2 in_spec (dict_values space) vs"
    by auto
  ultimately show ?case
    by (intro exI [of _ "v # vs"] exI [of _ t'']) (simp add: p v dict_values_def)
qed (simp add: dict_values_def)

section \<open>Properties\<close>

text \<open>A search space passes validation exactly when it is non-empty, every spec is well
  formed and the estimate is at most a million; then the estimate is at least one, it bounds
  every spec's own cardinality, and for a pipeline that is the number of labels it is sampled
  over.\<close>

theorem validated_space_cardinality:
  "(make_search_space params = Inr s \<longleftrightarrow> s = params \<and> space_ok params) \<and>
   (space_ok params \<longrightarrow> 1 \<le> estimate_cardinality params \<and> estimate_cardinality params \<le> 1000000 \<and>
     (\<forall>(name, spec)\<in>set params. spec_cardinality spec \<le> estimate_cardinality params \<and>
        (\<forall>steps. spec = NormalizerPipelineParam steps \<longrightarrow>
           spec_cardinality spec = int (length (pipeline_labels steps)))))"
proof (intro conjI impI)
  show "make_search_space params = Inr s \<longleftrightarrow> s = params \<and> space_ok params" by (rule make_search_space_ok)
  assume ok: "space_ok params"
  then have pos: "\<forall>x\<in>set (map spec_cardinality (dict_values params)). 1 \<le> x"
    by (auto simp: space_ok_def intro: spec_cardinality_pos)
  show "1 \<le> estimate_cardinality params"
    unfolding estimate_cardinality_prod by (rule prod_list_ge1 [OF pos])
  show "estimate_cardinality params \<le> 1000000" using ok by (simp add: space_ok_def)
  show "\<forall>(name, spec)\<in>set params. spec_cardinality spec \<le> estimate_cardinality params \<and>
      (\<forall>steps. spec = NormalizerPipelineParam steps \<longrightarrow>
         spec_cardinality spec = int (length (pipeline_labels steps)))"
  proof (clarify, intro conjI allI impI)
    fix name spec assume m: "(name, spec) \<in> set params"
    then have "spec \<in> set (dict_values params)" by (force simp: dict_values_def)
    then show "spec_cardinality spec \<le> estimate_cardinality params"
      unfolding estimate_cardinality_prod by (intro prod_list_member [OF pos]) simp
    fix steps assume s: "spec = NormalizerPipelineParam steps"
    have "param_ok spec" using ok \<open>spec \<in> set (dict_values params)\<close> by (simp add: space_ok_def)
    then have d: "distinct steps" by (simp add: s param_ok_def)
    let ?items = "filter (\<lambda>s. s \<in> set steps) STEP_ORDER"
    have "length ?items = length steps"
      using distinct_card [of ?items] distinct_card [OF d] by (simp add: Int_def [symmetric])
    then show "spec_cardinality spec = int (length (pipeline_labels steps))"
      by (simp add: s pipeline_labels_eq length_sized_labels)
  qed
qed

text \<open>Against a template a search space passes exactly when it has the declared names; an
  unknown name is reported before a missing one, the smallest first.\<close>

theorem template_check:
  "case validate_against_template space declared template_name of
     Inr _ \<Rightarrow> set (dict_keys space) = set (dict_keys declared)
   | Inl (UnknownSearchSpaceParamError n tn names) \<Rightarrow>
       n \<in> set (dict_keys space) - set (dict_keys declared) \<and> tn = template_name \<and>
       (\<forall>m\<in>set (dict_keys space) - set (dict_keys declared). n \<le> m) \<and>
       set names = set (dict_keys declared)
   | Inl (MissingDeclaredParamError n tn) \<Rightarrow>
       set (dict_keys space) \<subseteq> set (dict_keys declared) \<and> tn = template_name \<and>
       n \<in> set (dict_keys declared) - set (dict_keys space) \<and>
       (\<forall>m\<in>set (dict_keys declared) - set (dict_keys space). n \<le> m)
   | _ \<Rightarrow> False"
proof -
  let ?d = "dict_keys declared" and ?s = "dict_keys space"
  let ?u = "filter (\<lambda>n. n \<notin> set ?d) ?s" and ?m = "filter (\<lambda>n. n \<notin> set ?s) ?d"
  have hd_in: "xs \<noteq> [] \<Longrightarrow> hd (sorted_set xs) \<in> set xs" for xs
    using hd_in_set [of "sorted_set xs"] by simp
  consider "?u \<noteq> []" | "?u = []" "?m \<noteq> []" | "?u = []" "?m = []" by blast
  then show ?thesis
  proof cases
    case 1
    have "\<forall>x\<in>set ?u. hd (sorted_set ?u) \<le> x" by (blast intro: hd_sorted_set_le)
    moreover have "hd (sorted_set ?u) \<in> set ?u" using hd_in [OF 1] .
    ultimately show ?thesis using 1
      by (simp add: validate_against_template_def Let_def del: set_filter) auto
  next
    case 2
    have "\<forall>x\<in>set ?m. hd (sorted_set ?m) \<le> x" by (blast intro: hd_sorted_set_le)
    moreover have "hd (sorted_set ?m) \<in> set ?m" using hd_in [OF 2(2)] .
    ultimately show ?thesis using 2
      by (simp add: validate_against_template_def Let_def del: set_filter) (auto simp: filter_empty_conv)
  next
    case 3
    then show ?thesis by (auto simp: validate_against_template_def Let_def filter_empty_conv)
  qed
qed

text \<open>Sampling a validated space suggests every declared parameter once, in the order of
  the space, each with a value of its spec; a sampled normalizer label always resolves, to
  declared steps only.\<close>

theorem sampling_respects_space:
  assumes "suggests_ok api" and "dict_ok space" and "space_ok space"
    and "\<forall>spec\<in>set (dict_values space). number_bounds spec"
  shows "\<exists>vs t'. apply_search_space api trial space = (zip (dict_keys space) vs, t') \<and>
    list_all2 in_spec (dict_values space) vs"
  using fold_suggest [OF assms(1), of space "[]" trial] assms(2-4)
  by (simp add: apply_search_space_def space_ok_def dict_ok_def dict_keys_def)

text \<open>A sampler that always takes the lower end or the first choice.\<close>

definition first_choice :: "nat trial_api" where
  "first_choice = \<lparr>suggest_float = (\<lambda>name low high lg t. (PFloat low, t + 1)),
     suggest_int = (\<lambda>name low high t. (PInt low, t + 1)),
     suggest_categorical = (\<lambda>name choices t. (hd choices, t + 1))\<rparr>"

definition sample_space :: search_space where
  "sample_space = [(''boost'', FloatParam (Fin (1 / 2)) (Fin 10) True), (''slop'', IntParam 0 5),
     (''query_normalizer'', NormalizerPipelineParam [trim, lowercase])]"

lemma sampling_respects_space_witness:
  "\<exists>vs t'. apply_search_space first_choice 0 sample_space = (zip (dict_keys sample_space) vs, t') \<and>
     list_all2 in_spec (dict_values sample_space) vs"
proof (rule sampling_respects_space)
  show "suggests_ok first_choice"
    by (auto simp: suggests_ok_def first_choice_def flt_imp_fle intro: fle_refl)
qed (auto simp: sample_space_def dict_ok_def space_ok_def estimate_cardinality_def dict_values_def
    param_ok_def number_bounds_def)

lemma template_check_witness:
  "case validate_against_template [(''slop'', IntParam 0 5)] [(''boost'', ''float''), (''slop'', ''int'')] ''t'' of
     Inl (MissingDeclaredParamError n tn) \<Rightarrow> n = ''boost'' | _ \<Rightarrow> False"
  using template_check [of "[(''slop'', IntParam 0 5)]" "[(''boost'', ''float''), (''slop'', ''int'')]" "''t''"]
  by (auto simp: validate_against_template_def dict_keys_def split: if_splits)

lemma validated_space_cardinality_witness:
  "1 \<le> estimate_cardinality sample_space"
  using validated_space_cardinality [of sample_space sample_space]
  by (auto simp: sample_space_def space_ok_def estimate_cardinality_def dict_values_def param_ok_def)

text \<open>The bounds check does not reject NaN: every comparison with it is false.\<close>

lemma nan_bounds_accepted: "make_search_space [(''x'', FloatParam NaN NaN True)] = Inr [(''x'', FloatParam NaN NaN True)]"
  by (simp add: make_search_space_ok space_ok_def param_ok_def dict_values_def estimate_cardinality_def)

end
