(* ===== verification/Followups.thy ===== *)
theory Followups
  imports Search_Space
begin

text \<open>
  Digest follow-ups (\<open>backend/app/domain/study/followups.py\<close>) and the selection of the one
  the autopilot runs (\<open>auto_followup_strategy.py\<close>). Pydantic's \<open>validate_python\<close> is the
  parameter \<open>validate\<close>: a follow-up, or the text of the \<open>ValidationError\<close>; \<open>repr\<close> is the
  parameter \<open>py_repr\<close>. The log is part of the result: a list of events. A string is a list of
  characters here.
\<close>

section \<open>The follow-ups\<close>

datatype followup =
    NarrowFollowup string search_space
  | WidenFollowup string search_space
  | TextFollowup string
  | SwapTemplateFollowup string string search_space

datatype followup_event =
    TopLevelMalformed string
  | FollowupDropped string
  | ValidationDowngraded string string

definition TRUNCATE_LIMIT :: nat where "TRUNCATE_LIMIT = 200"

definition truncation_marker :: string where
  "truncation_marker = ''...[truncated]...''"

definition truncate_validation_error :: "string \<Rightarrow> string" where
  "truncate_validation_error t =
     (if length t \<le> 2 * TRUNCATE_LIMIT then t
      else take TRUNCATE_LIMIT t @ truncation_marker @ drop (length t - TRUNCATE_LIMIT) t)"

section \<open>Parsing\<close>

definition blank :: "string \<Rightarrow> bool" where
  "blank s = list_all (\<lambda>c. uc_space ascii (of_char c)) s"

definition try_text_only :: "obj \<Rightarrow> string \<Rightarrow> string \<Rightarrow> (followup \<times> followup_event) option" where
  "try_text_only raw_item original_kind validation_error =
     (case obj_get raw_item ''rationale'' of
        PStr rationale \<Rightarrow>
          if blank rationale then None
          else Some (TextFollowup (''[validation failed: '' @ truncate_validation_error validation_error
                 @ ''] '' @ rationale),
               ValidationDowngraded original_kind (truncate_validation_error validation_error))
      | _ \<Rightarrow> None)"

definition original_kind :: "obj \<Rightarrow> string" where
  "original_kind item = (case obj_get item ''kind'' of PStr k \<Rightarrow> k | _ \<Rightarrow> ''<missing>'')"

text \<open>One turn of the loop: the parsed item, if any, and the event, if any.\<close>

definition parse_item ::
  "(obj \<Rightarrow> string + followup) \<Rightarrow> (pyval \<Rightarrow> string) \<Rightarrow> pyval \<Rightarrow> followup option \<times> followup_event option" where
  "parse_item validate py_repr item =
     (case item of
        PStr s \<Rightarrow> (Some (TextFollowup s), None)
      | PDict d \<Rightarrow> (case validate d of
            Inr f \<Rightarrow> (Some f, None)
          | Inl err \<Rightarrow> (case try_text_only d (original_kind d) err of
                Some (f, ev) \<Rightarrow> (Some f, Some ev)
              | None \<Rightarrow> (None, Some (FollowupDropped (truncate_validation_error (py_repr item))))))
      | _ \<Rightarrow> (None, Some (FollowupDropped (truncate_validation_error (py_repr item)))))"

definition parse_followup_list ::
  "(obj \<Rightarrow> string + followup) \<Rightarrow> (pyval \<Rightarrow> string) \<Rightarrow> pyval \<Rightarrow> followup list \<times> followup_event list" where
  "parse_followup_list validate py_repr raw =
     (case raw of
        PList items \<Rightarrow> fold (\<lambda>item (result, events).
           (let (f, ev) = parse_item validate py_repr item
            in (result @ (case f of None \<Rightarrow> [] | Some x \<Rightarrow> [x]),
                events @ (case ev of None \<Rightarrow> [] | Some x \<Rightarrow> [x])))) items ([], [])
      | PNone \<Rightarrow> ([], [])
      | _ \<Rightarrow> ([], [TopLevelMalformed (truncate_validation_error (py_repr raw))]))"

section \<open>Selecting\<close>

record selection_outcome =
  so_selected :: "followup option"
  so_source_index :: "nat option"
  so_candidate_count :: nat
  so_dropped_template_ids :: "string list"

fun scan_followups ::
  "nat \<Rightarrow> followup list \<Rightarrow> string set \<Rightarrow> string list \<Rightarrow> (nat \<times> followup) list
   \<Rightarrow> string list \<times> (nat \<times> followup) list" where
  "scan_followups i [] visited dropped candidates = (dropped, candidates)"
| "scan_followups i (item # items) visited dropped candidates =
     (case item of
        TextFollowup _ \<Rightarrow> scan_followups (Suc i) items visited dropped candidates
      | SwapTemplateFollowup _ tid _ \<Rightarrow>
          if tid \<in> visited then scan_followups (Suc i) items visited (dropped @ [tid]) candidates
          else scan_followups (Suc i) items visited dropped (candidates @ [(i, item)])
      | _ \<Rightarrow> scan_followups (Suc i) items visited dropped (candidates @ [(i, item)]))"

definition select_executable_followup :: "followup list \<Rightarrow> string set \<Rightarrow> selection_outcome" where
  "select_executable_followup followups visited_template_ids =
     (let (dropped, candidates) = scan_followups 0 followups visited_template_ids [] [];
          dropped_template_ids = sort dropped
      in case candidates of
           [] \<Rightarrow> \<lparr>so_selected = None, so_source_index = None, so_candidate_count = 0,
                 so_dropped_template_ids = dropped_template_ids\<rparr>
         | (source_index, selected) # _ \<Rightarrow>
             \<lparr>so_selected = Some selected, so_source_index = Some source_index,
              so_candidate_count = length candidates,
              so_dropped_template_ids = dropped_template_ids\<rparr>)"

section \<open>Lemmas\<close>

lemma truncate_length: "length (truncate_validation_error t) \<le> 2 * TRUNCATE_LIMIT + length truncation_marker"
  by (auto simp: truncate_validation_error_def)

lemma truncate_keeps_ends:
  "take TRUNCATE_LIMIT (truncate_validation_error t) = take TRUNCATE_LIMIT t \<and>
   drop (length t - TRUNCATE_LIMIT) t = drop (length (truncate_validation_error t) - TRUNCATE_LIMIT) (truncate_validation_error t)"
  by (auto simp: truncate_validation_error_def)

definition opt_list :: "'a option \<Rightarrow> 'a list" where
  "opt_list x = (case x of None \<Rightarrow> [] | Some y \<Rightarrow> [y])"

lemma parse_fold:
  "fold (\<lambda>item (result, events). (let (f, ev) = parse_item validate py_repr item
      in (result @ (case f of None \<Rightarrow> [] | Some x \<Rightarrow> [x]), events @ (case ev of None \<Rightarrow> [] | Some x \<Rightarrow> [x]))))
      items (rs, es) =
   (rs @ concat (map (\<lambda>i. opt_list (fst (parse_item validate py_repr i))) items),
    es @ concat (map (\<lambda>i. opt_list (snd (parse_item validate py_repr i))) items))"
  by (induction items arbitrary: rs es) (auto simp: opt_list_def split: prod.splits)

lemma parse_list_eq:
  "parse_followup_list validate py_repr (PList items) =
     (concat (map (\<lambda>i. opt_list (fst (parse_item validate py_repr i))) items),
      concat (map (\<lambda>i. opt_list (snd (parse_item validate py_repr i))) items))"
  by (simp only: parse_followup_list_def pyval.case parse_fold append_Nil)

text \<open>An item that is no error: a legacy string or a dictionary that validates.\<close>

definition item_valid :: "(obj \<Rightarrow> string + followup) \<Rightarrow> pyval \<Rightarrow> bool" where
  "item_valid validate item = (case item of
       PStr _ \<Rightarrow> True | PDict d \<Rightarrow> (\<exists>f. validate d = Inr f) | _ \<Rightarrow> False)"

lemma parse_item_cases:
  "(item_valid validate item \<longrightarrow> (\<exists>f. parse_item validate py_repr item = (Some f, None))) \<and>
   (\<not> item_valid validate item \<longrightarrow>
      (\<exists>r k e. parse_item validate py_repr item = (Some (TextFollowup r), Some (ValidationDowngraded k e))) \<or>
      (\<exists>e. parse_item validate py_repr item = (None, Some (FollowupDropped e))))"
  by (auto simp: parse_item_def item_valid_def try_text_only_def split: pyval.splits sum.splits option.splits)

definition executable :: "string set \<Rightarrow> followup \<Rightarrow> bool" where
  "executable visited f = (case f of
       TextFollowup _ \<Rightarrow> False | SwapTemplateFollowup _ tid _ \<Rightarrow> tid \<notin> visited | _ \<Rightarrow> True)"

definition cycle_dropped :: "string set \<Rightarrow> followup \<Rightarrow> string list" where
  "cycle_dropped visited f = (case f of
       SwapTemplateFollowup _ tid _ \<Rightarrow> if tid \<in> visited then [tid] else [] | _ \<Rightarrow> [])"

lemma scan_followups_eq:
  "scan_followups i items visited dropped candidates =
     (dropped @ concat (map (cycle_dropped visited) items),
      candidates @ filter (\<lambda>p. executable visited (snd p)) (enumerate i items))"
proof (induction items arbitrary: i dropped candidates)
  case (Cons item items)
  show ?case
    by (cases item) (auto simp: Cons.IH cycle_dropped_def executable_def)
qed simp

lemma filter_zip_first:
  "filter (\<lambda>p. P (snd p)) (enumerate i xs) = (j, x) # rest \<Longrightarrow>
     i \<le> j \<and> j < i + length xs \<and> xs ! (j - i) = x \<and> P x \<and> (\<forall>k<j - i. \<not> P (xs ! k))"
proof (induction xs arbitrary: i)
  case (Cons y ys)
  show ?case
  proof (cases "P y")
    case True
    then show ?thesis using Cons.prems by auto
  next
    case False
    then have "filter (\<lambda>p. P (snd p)) (enumerate (Suc i) ys) = (j, x) # rest"
      using Cons.prems by simp
    note IH = Cons.IH [OF this]
    then have "\<not> P ((y # ys) ! k)" if "k < j - i" for k
      using that False by (cases k) auto
    moreover have "(y # ys) ! (j - i) = x"
    proof -
      have "Suc i \<le> j" using IH by simp
      then have "j - i = Suc (j - Suc i)" by arith
      then show ?thesis using IH by simp
    qed
    ultimately show ?thesis using IH by auto
  qed
qed simp

lemma filter_zip_length: "length (filter (\<lambda>p. P (snd p)) (enumerate i xs)) = length (filter P xs)"
proof (induction xs arbitrary: i)
  case (Cons y ys)
  show ?case using Cons.IH [of "Suc i"] by simp
qed simp

section \<open>Properties\<close>

text \<open>Parsing accepts whatever the column holds: a list is parsed item by item, in order, the
  valid ones (and legacy strings) as they are and without a log line; every other item leaves
  one event and at most a text item behind, so that results and drops add up to the items;
  anything that is no list gives no follow-up. What is quoted of an error keeps both of its ends
  and a bounded length.\<close>

theorem parse_total:
  "(case raw of
      PList items \<Rightarrow>
        fst (parse_followup_list validate py_repr raw) =
          concat (map (\<lambda>i. opt_list (fst (parse_item validate py_repr i))) items) \<and>
        length (fst (parse_followup_list validate py_repr raw)) +
          length (filter (\<lambda>e. \<exists>m. e = FollowupDropped m) (snd (parse_followup_list validate py_repr raw))) =
          length items \<and>
        length (snd (parse_followup_list validate py_repr raw)) =
          length (filter (\<lambda>i. \<not> item_valid validate i) items)
    | PNone \<Rightarrow> parse_followup_list validate py_repr raw = ([], [])
    | _ \<Rightarrow> fst (parse_followup_list validate py_repr raw) = []) \<and>
   length (truncate_validation_error t) \<le> 2 * TRUNCATE_LIMIT + length truncation_marker \<and>
   take TRUNCATE_LIMIT (truncate_validation_error t) = take TRUNCATE_LIMIT t \<and>
   drop (length (truncate_validation_error t) - TRUNCATE_LIMIT) (truncate_validation_error t) =
     drop (length t - TRUNCATE_LIMIT) t"
proof -
  let ?p = "parse_item validate py_repr"
  have counts: "length (concat (map (\<lambda>i. opt_list (fst (?p i))) items)) +
      length (filter (\<lambda>e. \<exists>m. e = FollowupDropped m) (concat (map (\<lambda>i. opt_list (snd (?p i))) items))) = length items \<and>
      length (concat (map (\<lambda>i. opt_list (snd (?p i))) items)) = length (filter (\<lambda>i. \<not> item_valid validate i) items)"
    for items
  proof (induction items)
    case (Cons i items)
    then show ?case
      using parse_item_cases [of validate i py_repr] by (cases "item_valid validate i") (auto simp: opt_list_def)
  qed simp
  show ?thesis
    using counts truncate_length [of t] truncate_keeps_ends [of t]
    by (cases raw) (auto simp: parse_list_eq, auto simp: parse_followup_list_def)
qed

text \<open>The selected follow-up is the first executable one, at its place in the original list:
  never a text item, never a swap to a template the chain has visited; without an executable one
  nothing is selected. The count and the sorted dropped template ids are exact in both cases.\<close>

theorem selection_first_executable:
  "let r = select_executable_followup followups visited in
     so_candidate_count r = length (filter (executable visited) followups) \<and>
     so_dropped_template_ids r = sort (concat (map (cycle_dropped visited) followups)) \<and>
     (case so_selected r of
        None \<Rightarrow> so_source_index r = None \<and> filter (executable visited) followups = []
      | Some f \<Rightarrow> \<exists>j<length followups. so_source_index r = Some j \<and> followups ! j = f \<and>
          executable visited f \<and> filter (executable visited) (take j followups) = [])"
proof (cases "filter (\<lambda>p. executable visited (snd p)) (enumerate 0 followups)")
  case Nil
  have "filter (executable visited) followups = []"
    using filter_zip_length [of "executable visited" 0 followups] Nil by simp
  then show ?thesis
    using Nil by (simp add: select_executable_followup_def scan_followups_eq)
next
  case (Cons p rest)
  obtain j f where p: "p = (j, f)" by (cases p)
  have first: "j < length followups" "followups ! j = f" "executable visited f"
    "\<forall>k<j. \<not> executable visited (followups ! k)"
    using filter_zip_first [of "executable visited" 0 followups j f rest] Cons p by auto
  have "filter (executable visited) (take j followups) = []"
    using first(1,4) by (auto simp: filter_empty_conv in_set_conv_nth)
  then show ?thesis
    using Cons first filter_zip_length [of "executable visited" 0 followups]
    by (simp add: select_executable_followup_def scan_followups_eq p)
qed

end
