(* ===== verification/Search_Space_Defaults.thy ===== *)
theory Search_Space_Defaults
  imports Search_Space
begin

text \<open>
  Starter search spaces and narrowing (\<open>backend/app/domain/study/search_space_defaults.py\<close>):
  the naming rules, the cap-aware fallback that trades float ranges for small integers until
  the estimate fits, and the bracket around a winner. A regular expression of the rule table
  is the predicate it denotes; \<open>dollar\<close> is what \<open>$\<close> matches (the end, or before a final
  newline), and \<open>.\<close> matches no newline.
\<close>

section \<open>The rules\<close>

definition newline :: char where "newline = CHR 0x0A"

definition dollar :: "string \<Rightarrow> string list" where
  "dollar name = name # (if name \<noteq> [] \<and> last name = newline then [butlast name] else [])"

definition starts_with :: "string \<Rightarrow> string \<Rightarrow> bool" where
  "starts_with p s = (take (length p) s = p)"

text \<open>\<open>.*suf\<close> and \<open>.+suf\<close>, up to the end of \<open>s\<close>.\<close>

definition dot_star_suffix :: "nat \<Rightarrow> string \<Rightarrow> string \<Rightarrow> bool" where
  "dot_star_suffix least suf s =
     (let n = length s - length suf
      in length suf + least \<le> length s \<and> drop n s = suf \<and> newline \<notin> set (take n s))"

definition HEURISTIC_RULES :: "((string \<Rightarrow> bool) \<times> param_spec) list" where
  "HEURISTIC_RULES =
    [(\<lambda>n. starts_with ''field_boost'' n \<or> starts_with ''boost_'' n,
        FloatParam (Fin (1 / 2)) (Fin 10) True),
     (\<lambda>n. \<exists>s\<in>set (dollar n). s = ''boost'' \<or> dot_star_suffix 1 ''_boost'' s,
        FloatParam (Fin (1 / 2)) (Fin 10) True),
     (\<lambda>n. \<exists>s\<in>set (dollar n). s = ''tie_breaker'' \<or> dot_star_suffix 0 ''_weight'' s,
        FloatParam (Fin 0) (Fin 1) False),
     (\<lambda>n. \<exists>s\<in>set (dollar n). s = ''slop'' \<or> s = ''min_should_match'' \<or> dot_star_suffix 0 ''_size'' s,
        IntParam 0 5),
     (\<lambda>n. ''fuzziness'' \<in> set (dollar n),
        CategoricalParam [PStr ''AUTO'', PStr ''0'', PStr ''1'', PStr ''2''])]"

definition DEFAULT_FALLBACK :: param_spec where
  "DEFAULT_FALLBACK = FloatParam (Fin 0) (Fin 1) False"

definition simple_form_spec :: "string \<Rightarrow> param_spec option" where
  "simple_form_spec type_name =
     (if type_name = ''int'' then Some (IntParam 0 5)
      else if type_name = ''float'' then Some (FloatParam (Fin 0) (Fin 1) False)
      else if type_name = ''bool'' then Some (CategoricalParam [PBool True, PBool False])
      else if type_name = ''string'' then Some (CategoricalParam [PStr ''__placeholder__''])
      else None)"

fun estimate_param_cardinality :: "param_spec \<Rightarrow> int" where
  "estimate_param_cardinality (FloatParam low high is_log) = 100"
| "estimate_param_cardinality (IntParam low high) = max 0 (high - low + 1)"
| "estimate_param_cardinality (NormalizerPipelineParam steps) = 2 ^ length steps"
| "estimate_param_cardinality (CategoricalParam choices) = int (length choices)"

definition match_heuristic_rule :: "string \<Rightarrow> param_spec option" where
  "match_heuristic_rule name = map_option snd (find (\<lambda>(pattern, spec). pattern name) HEURISTIC_RULES)"

definition estimate_cardinality_from_dict :: "search_space \<Rightarrow> int" where
  "estimate_cardinality_from_dict params =
     fold (\<lambda>spec n. n * estimate_param_cardinality spec) (dict_values params) 1"

section \<open>Building a starter space\<close>

record starter_search_space =
  sp_space :: search_space
  sp_fallback_names :: "string list"

text \<open>The spec of one declared parameter, and whether a naming rule gave it.\<close>

definition starter_spec :: "string \<Rightarrow> string \<Rightarrow> param_spec \<times> bool" where
  "starter_spec name type_name =
     (if name = normalizer_key then (CategoricalParam (map PStr NORMALIZER_CHOICES), False)
      else (case match_heuristic_rule name of
          Some spec \<Rightarrow> (spec, True)
        | None \<Rightarrow> (case simple_form_spec type_name of
            Some spec \<Rightarrow> (spec, False) | None \<Rightarrow> (DEFAULT_FALLBACK, False))))"

definition is_float :: "param_spec \<Rightarrow> bool" where
  "is_float spec = (case spec of FloatParam _ _ _ \<Rightarrow> True | _ \<Rightarrow> False)"

fun convert_floats :: "string list \<Rightarrow> search_space \<Rightarrow> string list \<Rightarrow> search_space \<times> string list" where
  "convert_floats [] params names = (params, names)"
| "convert_floats (name # rest) params names =
     (let params' = dict_set name (IntParam 0 5) params; names' = names @ [name]
      in if estimate_cardinality_from_dict params' \<le> 1000000 then (params', names')
         else convert_floats rest params' names')"

definition float_names :: "search_space \<Rightarrow> (string \<Rightarrow> bool) \<Rightarrow> string list" where
  "float_names params p = sorted_set (map fst (filter (\<lambda>(n, spec). is_float spec \<and> p n) params))"

definition build_starter_search_space ::
  "(string, string) pydict \<Rightarrow> space_error + starter_search_space" where
  "build_starter_search_space declared_params =
     (if declared_params = [] then Inl (InvalidSearchSpaceError ''empty declared_params'')
      else
        (let params = fold (\<lambda>(name, type_name). dict_set name (fst (starter_spec name type_name)))
               declared_params [];
             regex_matched = map fst (filter (\<lambda>(name, type_name). snd (starter_spec name type_name))
               declared_params);
             (params', names) =
               (if estimate_cardinality_from_dict params > 1000000 then
                  convert_floats
                    (float_names params (\<lambda>n. n \<notin> set regex_matched) @
                     float_names params (\<lambda>n. n \<in> set regex_matched)) params []
                else (params, []))
         in if estimate_cardinality_from_dict params' > 1000000
            then Inl (InvalidSearchSpaceError ''cap-aware fallback exhausted'')
            else (case make_search_space params' of
                Inl e \<Rightarrow> Inl (InvalidSearchSpaceError ''validation'')
              | Inr space \<Rightarrow> Inr \<lparr>sp_space = space, sp_fallback_names = names\<rparr>)))"

section \<open>Narrowing around a winner\<close>

text \<open>\<open>math.sqrt(2.0)\<close>, the binary64 number nearest to the square root of two.\<close>

definition SQRT2 :: pyfloat where
  "SQRT2 = Fin (6369051672525773 / 4503599627370496)"

definition narrow_float_bounds ::
  "pyfloat \<Rightarrow> pyfloat \<Rightarrow> bool \<Rightarrow> pyfloat \<Rightarrow> pyfloat \<Rightarrow> space_error + param_spec option" where
  "narrow_float_bounds low high is_log winner bracket =
     (if fle winner low \<or> fle high winner then Inr None
      else
        (let (new_low, new_high) =
           (if is_log then (fmax low (the (fdiv winner SQRT2)), fmin high (fmul winner SQRT2))
            else (let half_width = fmul (fabs winner) bracket
                  in (fmax low (fsub winner half_width), fmin high (fadd winner half_width))))
         in if fle new_high new_low then Inr None
            else (case check_float_bounds new_low new_high is_log of
                Some e \<Rightarrow> Inl e
              | None \<Rightarrow> Inr (Some (FloatParam new_low new_high is_log)))))"

text \<open>
  An \<open>int\<close> in float arithmetic is converted first (\<open>OverflowError\<close> when no double is near);
  \<open>math.floor\<close> and \<open>math.ceil\<close> raise on infinities and NaN. \<open>None\<close> is the exception.
\<close>

definition float_of_int :: "int \<Rightarrow> pyfloat option" where
  "float_of_int n = (case rnd64 (of_int n) of Fin q \<Rightarrow> Some (Fin q) | _ \<Rightarrow> None)"

fun py_floor :: "pyfloat \<Rightarrow> int option" where
  "py_floor (Fin q) = Some \<lfloor>q\<rfloor>"
| "py_floor _ = None"

fun py_ceil :: "pyfloat \<Rightarrow> int option" where
  "py_ceil (Fin q) = Some \<lceil>q\<rceil>"
| "py_ceil _ = None"

definition narrow_int_bounds :: "int \<Rightarrow> int \<Rightarrow> int \<Rightarrow> pyfloat \<Rightarrow> param_spec option option" where
  "narrow_int_bounds low high winner bracket =
     (if winner \<le> low \<or> high \<le> winner then Some None
      else (case (float_of_int winner, float_of_int \<bar>winner\<bar>) of
          (Some w, Some a) \<Rightarrow>
            (let half_width = fmul a bracket
             in case (py_floor (fsub w half_width), py_ceil (fadd w half_width)) of
                  (Some f, Some c) \<Rightarrow>
                    (let new_low = max low f; new_high = min high c
                     in if new_low > new_high then Some None
                        else Some (Some (IntParam new_low new_high)))
                | _ \<Rightarrow> None)
        | _ \<Rightarrow> None))"

text \<open>\<open>float(winner_value)\<close> of a winner that is an \<open>int\<close> or a \<open>float\<close> and no \<open>bool\<close>.\<close>

fun float_winner :: "pyval \<Rightarrow> pyfloat option option" where
  "float_winner (PInt n) = Some (float_of_int n)"
| "float_winner (PFloat x) = Some (Some x)"
| "float_winner _ = None"

datatype narrow_error = NarrowValidation space_error | NarrowArithmetic

definition narrow_param :: "param_spec \<Rightarrow> pyval \<Rightarrow> pyfloat \<Rightarrow> narrow_error + param_spec option" where
  "narrow_param current_spec winner_value bracket =
     (case current_spec of
        FloatParam low high is_log \<Rightarrow>
          (case float_winner winner_value of
             None \<Rightarrow> Inr None
           | Some None \<Rightarrow> Inl NarrowArithmetic
           | Some (Some w) \<Rightarrow> (case narrow_float_bounds low high is_log w bracket of
               Inl e \<Rightarrow> Inl (NarrowValidation e) | Inr r \<Rightarrow> Inr r))
      | IntParam low high \<Rightarrow>
          (case winner_value of
             PInt w \<Rightarrow> (case narrow_int_bounds low high w bracket of
                 None \<Rightarrow> Inl NarrowArithmetic | Some r \<Rightarrow> Inr r)
           | _ \<Rightarrow> Inr None)
      | _ \<Rightarrow> Inr None)"

fun narrow_loop ::
  "search_space \<Rightarrow> obj \<Rightarrow> pyfloat \<Rightarrow> search_space \<Rightarrow> string list
   \<Rightarrow> narrow_error + (search_space \<times> string list)" where
  "narrow_loop [] winning_params bracket new_params narrowed = Inr (new_params, narrowed)"
| "narrow_loop ((name, current_spec) # rest) winning_params bracket new_params narrowed =
     (case map_of winning_params name of
        None \<Rightarrow> narrow_loop rest winning_params bracket new_params narrowed
      | Some winner_value \<Rightarrow> (case narrow_param current_spec winner_value bracket of
          Inl e \<Rightarrow> Inl e
        | Inr None \<Rightarrow> narrow_loop rest winning_params bracket new_params narrowed
        | Inr (Some spec) \<Rightarrow> narrow_loop rest winning_params bracket
            (dict_set name spec new_params) (narrowed @ [name])))"

definition narrow_bounds_around_winner ::
  "search_space \<Rightarrow> obj \<Rightarrow> pyfloat \<Rightarrow> narrow_error + (search_space \<times> string list)" where
  "narrow_bounds_around_winner space winning_params bracket =
     (case narrow_loop space winning_params bracket space [] of
        Inl e \<Rightarrow> Inl e
      | Inr (new_params, narrowed) \<Rightarrow>
          (if narrowed = [] then Inr (space, [])
           else (case make_search_space new_params of
               Inl e \<Rightarrow> Inl (NarrowValidation e)
             | Inr space' \<Rightarrow> Inr (space', sorted_set narrowed))))"

section \<open>Lemmas on the fallback\<close>

definition starter_params :: "(string, string) pydict \<Rightarrow> search_space" where
  "starter_params declared = map (\<lambda>(n, t). (n, fst (starter_spec n t))) declared"

text \<open>The space with the float parameters named in a set converted.\<close>

definition converted :: "string set \<Rightarrow> search_space \<Rightarrow> search_space" where
  "converted S params = map (\<lambda>(n, spec). (n, if n \<in> S \<and> is_float spec then IntParam 0 5 else spec)) params"

definition cardinality_ok :: "search_space \<Rightarrow> bool" where
  "cardinality_ok params = (\<forall>spec\<in>set (dict_values params). 1 \<le> estimate_param_cardinality spec)"

lemma estimate_from_dict_prod:
  "estimate_cardinality_from_dict params = prod_list (map estimate_param_cardinality (dict_values params))"
  by (simp add: estimate_cardinality_from_dict_def fold_mult)

lemma estimate_param_same: "param_ok spec \<Longrightarrow> estimate_param_cardinality spec = spec_cardinality spec"
  by (cases spec) (auto simp: param_ok_def)

lemma estimate_same:
  "\<forall>spec\<in>set (dict_values params). param_ok spec \<Longrightarrow>
     estimate_cardinality_from_dict params = estimate_cardinality params"
  by (simp add: estimate_from_dict_prod estimate_cardinality_prod estimate_param_same cong: map_cong)

lemma param_ok_cardinality: "param_ok spec \<Longrightarrow> 1 \<le> estimate_param_cardinality spec"
  using spec_cardinality_pos by (simp add: estimate_param_same)

lemma prod_list_mono:
  "list_all2 (\<lambda>x y. 0 \<le> x \<and> x \<le> y) xs ys \<Longrightarrow> 0 \<le> prod_list xs \<and> prod_list xs \<le> prod_list (ys :: int list)"
  by (induction rule: list_all2_induct) (auto intro: mult_mono)

lemma converted_twice: "converted S (converted T params) = converted (S \<union> T) params"
  by (auto simp: converted_def is_float_def)

lemma converted_empty [simp]: "converted {} params = params"
  by (auto simp: converted_def intro: map_idI)

lemma keys_converted [simp]: "dict_keys (converted S params) = dict_keys params"
  by (auto simp: converted_def dict_keys_def)

lemma converted_ok:
  "\<forall>spec\<in>set (dict_values params). param_ok spec \<Longrightarrow>
     \<forall>spec\<in>set (dict_values (converted S params)). param_ok spec"
  by (auto simp: converted_def dict_values_def param_ok_def)

lemma converted_mono:
  assumes "S \<subseteq> T" "cardinality_ok params"
  shows "estimate_cardinality_from_dict (converted T params) \<le> estimate_cardinality_from_dict (converted S params)"
proof -
  have "list_all2 (\<lambda>x y. 0 \<le> x \<and> x \<le> y) (map estimate_param_cardinality (dict_values (converted T params)))
      (map estimate_param_cardinality (dict_values (converted S params)))"
    using assms(2)
  proof (induction params)
    case (Cons p params)
    then show ?case using assms(1)
      by (cases p) (auto simp: converted_def dict_values_def cardinality_ok_def is_float_def subset_iff
          split: param_spec.splits)
  qed (simp add: converted_def dict_values_def)
  from prod_list_mono [OF this] show ?thesis by (simp add: estimate_from_dict_prod)
qed

lemma dict_set_converted:
  assumes "dict_ok params" "(name, spec) \<in> set params" "is_float spec"
  shows "dict_set name (IntParam 0 5) params = converted {name} params"
  using assms
proof (induction params)
  case (Cons p params)
  obtain n q where p: "p = (n, q)" by (cases p)
  show ?case
  proof (cases "n = name")
    case True
    have "x \<in> set params \<Longrightarrow> fst x \<noteq> name" for x
      using Cons.prems(1) True p by (force simp: dict_ok_def)
    then have "converted {name} params = params"
      by (auto simp: converted_def intro!: map_idI)
    moreover have "q = spec" using Cons.prems True p by (force simp: dict_ok_def)
    ultimately show ?thesis using True Cons.prems(3) p by (simp add: converted_def)
  next
    case False
    then show ?thesis using Cons p by (auto simp: dict_ok_def converted_def)
  qed
qed simp

text \<open>The loop converts a shortest prefix of the names that brings the estimate down.\<close>

lemma convert_floats_spec:
  assumes "dict_ok params" "distinct names" "\<forall>n\<in>set names. \<exists>spec. (n, spec) \<in> set params \<and> is_float spec"
  shows "\<exists>k\<le>length names. convert_floats names params acc =
      (converted (set (take k names)) params, acc @ take k names) \<and>
      (k = length names \<or> estimate_cardinality_from_dict (converted (set (take k names)) params) \<le> 1000000) \<and>
      (names \<noteq> [] \<longrightarrow> 0 < k) \<and>
      (\<forall>j. 0 < j \<and> j < k \<longrightarrow> estimate_cardinality_from_dict (converted (set (take j names)) params) > 1000000)"
  using assms
proof (induction names arbitrary: params acc)
  case (Cons name names)
  let ?p = "converted {name} params"
  obtain spec where sp: "(name, spec) \<in> set params" "is_float spec" using Cons.prems(3) by auto
  have ds: "dict_set name (IntParam 0 5) params = ?p" by (rule dict_set_converted [OF Cons.prems(1) sp])
  show ?case
  proof (cases "estimate_cardinality_from_dict ?p \<le> 1000000")
    case True
    then show ?thesis by (intro exI [of _ 1]) (simp add: ds)
  next
    case False
    have "dict_ok ?p" using Cons.prems(1) keys_converted [of "{name}" params] by (simp add: dict_ok_def dict_keys_def)
    moreover have "\<forall>n\<in>set names. \<exists>spec. (n, spec) \<in> set ?p \<and> is_float spec"
    proof
      fix n assume n: "n \<in> set names"
      then obtain q where "(n, q) \<in> set params" "is_float q" using Cons.prems(3) by auto
      moreover have "n \<noteq> name" using n Cons.prems(2) by auto
      ultimately show "\<exists>spec. (n, spec) \<in> set ?p \<and> is_float spec"
        by (intro exI [of _ q]) (force simp: converted_def image_iff)
    qed
    ultimately obtain k where k: "k \<le> length names"
      "convert_floats names ?p (acc @ [name]) = (converted (set (take k names)) ?p, (acc @ [name]) @ take k names)"
      "k = length names \<or> estimate_cardinality_from_dict (converted (set (take k names)) ?p) \<le> 1000000"
      "\<forall>j. 0 < j \<and> j < k \<longrightarrow> estimate_cardinality_from_dict (converted (set (take j names)) ?p) > 1000000"
      using Cons.IH [of ?p "acc @ [name]"] Cons.prems(2) by auto
    have tw: "converted (set (take j names)) ?p = converted (set (take (Suc j) (name # names))) params" for j
      by (simp add: converted_twice)
    have small: "estimate_cardinality_from_dict (converted (set (take j (name # names))) params) > 1000000"
      if "0 < j" "j < Suc k" for j
    proof (cases "j = 1")
      case True
      then show ?thesis using False by simp
    next
      case j: False
      then have "0 < j - 1 \<and> j - 1 < k" and "Suc (j - 1) = j" using that by auto
      then show ?thesis using k(4) tw [of "j - 1"] by metis
    qed
    show ?thesis
      using k(1,2,3) False small by (intro exI [of _ "Suc k"]) (auto simp: ds tw)
  qed
qed simp

lemma rules_ok: "\<forall>(p, spec)\<in>set HEURISTIC_RULES. param_ok spec"
  by (simp add: HEURISTIC_RULES_def param_ok_def)

lemma starter_spec_ok: "param_ok (fst (starter_spec name type_name))"
proof -
  have "param_ok spec" if "match_heuristic_rule name = Some spec" for spec
    using that rules_ok by (auto simp: match_heuristic_rule_def dest!: find_Some_in)
  moreover have "param_ok spec" if "simple_form_spec type_name = Some spec" for spec
    using that by (auto simp: simple_form_spec_def param_ok_def split: if_splits)
  moreover have "param_ok DEFAULT_FALLBACK" "param_ok (CategoricalParam (map PStr NORMALIZER_CHOICES))"
    by (simp_all add: DEFAULT_FALLBACK_def param_ok_def NORMALIZER_CHOICES_def)
  ultimately show ?thesis by (auto simp: starter_spec_def split: option.splits)
qed

lemma fold_dict_set_map:
  "distinct (map fst xs) \<Longrightarrow> set (map fst xs) \<inter> fst ` set acc = {} \<Longrightarrow>
     fold (\<lambda>(n, t). dict_set n (f n t)) xs acc = acc @ map (\<lambda>(n, t). (n, f n t)) xs"
proof (induction xs arbitrary: acc)
  case (Cons x xs)
  obtain n t where x: "x = (n, t)" by (cases x)
  have "dict_set n (f n t) acc = acc @ [(n, f n t)]"
    using Cons.prems by (intro dict_set_fresh) (auto simp: x)
  moreover have "set (map fst xs) \<inter> fst ` set (acc @ [(n, f n t)]) = {}" using Cons.prems by (auto simp: x)
  ultimately show ?case using Cons by (simp add: x)
qed simp

lemma starter_params_fold:
  "dict_ok declared \<Longrightarrow>
     fold (\<lambda>(name, type_name). dict_set name (fst (starter_spec name type_name))) declared [] = starter_params declared"
  using fold_dict_set_map [of declared "[]" "\<lambda>n t. fst (starter_spec n t)"]
  by (simp add: starter_params_def dict_ok_def)

lemma starter_params_ok: "\<forall>spec\<in>set (dict_values (starter_params declared)). param_ok spec"
  by (auto simp: starter_params_def dict_values_def starter_spec_ok)

lemma dict_ok_starter: "dict_ok declared \<Longrightarrow> dict_ok (starter_params declared)"
  by (simp add: dict_ok_def starter_params_def comp_def case_prod_beta)

lemma float_names_in: "set (float_names params p) = {n. \<exists>spec. (n, spec) \<in> set params \<and> is_float spec \<and> p n}"
  by (force simp: float_names_def)

lemma converted_all:
  "{n. \<exists>spec. (n, spec) \<in> set params \<and> is_float spec} \<subseteq> S \<Longrightarrow> converted S params = converted UNIV params"
  unfolding converted_def by (rule map_cong) (auto, blast)

text \<open>The order in which floats are given up.\<close>

definition fallback_order :: "(string, string) pydict \<Rightarrow> string list" where
  "fallback_order declared =
     (let matched = map fst (filter (\<lambda>(n, t). snd (starter_spec n t)) declared)
      in float_names (starter_params declared) (\<lambda>n. n \<notin> set matched) @
         float_names (starter_params declared) (\<lambda>n. n \<in> set matched))"

lemma fallback_order_ok:
  "distinct (fallback_order declared)"
  "set (fallback_order declared) = {n. \<exists>spec. (n, spec) \<in> set (starter_params declared) \<and> is_float spec}"
  by (auto simp: fallback_order_def Let_def float_names_in) (simp_all add: float_names_def)

definition fits :: "search_space \<Rightarrow> bool" where
  "fits params = (estimate_cardinality_from_dict params \<le> 1000000)"

lemma build_unfold:
  assumes "dict_ok declared" "declared \<noteq> []"
  shows "\<exists>k\<le>length (fallback_order declared).
      (k = length (fallback_order declared) \<or> fits (converted (set (take k (fallback_order declared))) (starter_params declared))) \<and>
      (\<forall>j<k. \<not> fits (converted (set (take j (fallback_order declared))) (starter_params declared))) \<and>
      build_starter_search_space declared =
        (let params' = converted (set (take k (fallback_order declared))) (starter_params declared)
         in if fits params' then Inr \<lparr>sp_space = params', sp_fallback_names = take k (fallback_order declared)\<rparr>
            else Inl (InvalidSearchSpaceError ''cap-aware fallback exhausted''))"
proof -
  let ?p = "starter_params declared" and ?o = "fallback_order declared"
  let ?c = "\<lambda>k. converted (set (take k ?o)) ?p"
  have ne: "?c k \<noteq> []" for k using assms(2) by (simp add: converted_def starter_params_def)
  have made: "make_search_space (?c k) = Inr (?c k)" if "fits (?c k)" for k
    using that ne [of k] converted_ok [OF starter_params_ok] estimate_same [of "?c k"]
    by (simp add: make_search_space_ok space_ok_def fits_def)
  obtain k where k: "k \<le> length ?o"
    "(if fits ?p then (?p, []) else convert_floats ?o ?p []) = (?c k, take k ?o)"
    "k = length ?o \<or> fits (?c k)" "\<forall>j<k. \<not> fits (?c j)"
  proof (cases "fits ?p")
    case True
    then show ?thesis using that [of 0] by simp
  next
    case False
    obtain k where "k \<le> length ?o" "convert_floats ?o ?p [] = (?c k, take k ?o)"
      "k = length ?o \<or> fits (?c k)" "\<forall>j. 0 < j \<and> j < k \<longrightarrow> \<not> fits (?c j)"
      using convert_floats_spec [OF dict_ok_starter [OF assms(1)] fallback_order_ok(1), of declared "[]"]
        fallback_order_ok(2) [of declared] by (auto simp: fits_def not_le)
    moreover from this False have "\<forall>j<k. \<not> fits (?c j)" by (metis gr0I converted_empty empty_set take0)
    ultimately show ?thesis using False that by auto
  qed
  have "build_starter_search_space declared =
      (if fits (?c k) then Inr \<lparr>sp_space = ?c k, sp_fallback_names = take k ?o\<rparr>
       else Inl (InvalidSearchSpaceError ''cap-aware fallback exhausted''))"
    using assms(2) k(2) made [of k]
    unfolding build_starter_search_space_def starter_params_fold [OF assms(1)] Let_def
    by (auto simp: fits_def not_le fallback_order_def Let_def split: if_splits)
  with k show ?thesis by (auto simp: Let_def)
qed

lemma starter_space_facts:
  assumes "dict_ok declared" "build_starter_search_space declared = Inr r"
  shows "dict_keys (sp_space r) = dict_keys declared"
    "sp_space r = converted (set (sp_fallback_names r)) (starter_params declared)"
proof -
  have "declared \<noteq> []" using assms(2) by (auto simp: build_starter_search_space_def)
  then obtain k where "sp_space r = converted (set (take k (fallback_order declared))) (starter_params declared)"
    "sp_fallback_names r = take k (fallback_order declared)"
    using build_unfold [OF assms(1)] assms(2) by (auto simp: Let_def split: if_splits)
  then show "sp_space r = converted (set (sp_fallback_names r)) (starter_params declared)" by simp
  then show "dict_keys (sp_space r) = dict_keys declared"
    by simp (simp add: dict_keys_def starter_params_def comp_def case_prod_beta)
qed

lemma map_of_converted: "map_of (converted S params) n =
    map_option (\<lambda>spec. if n \<in> S \<and> is_float spec then IntParam 0 5 else spec) (map_of params n)"
  by (induction params) (auto simp: converted_def)

lemma map_of_starter: "map_of (starter_params declared) n = map_option (\<lambda>t. fst (starter_spec n t)) (map_of declared n)"
  by (induction declared) (auto simp: starter_params_def)

lemma starter_entry:
  assumes "dict_ok declared" "build_starter_search_space declared = Inr r" "map_of declared n = Some t"
  shows "\<exists>spec. map_of (sp_space r) n = Some spec \<and> (spec = fst (starter_spec n t) \<or>
    is_float (fst (starter_spec n t)) \<and> spec = IntParam 0 5)"
  using starter_space_facts(2) [OF assms(1,2)] assms(3) by (auto simp: map_of_converted map_of_starter)

section \<open>Properties\<close>

text \<open>A starter space is built unless nothing is declared or the estimate stays above a
  million with every float converted. What is built is valid, has the declared names in their
  order, and differs from the heuristic specs only in the floats it reports as converted; these
  are the first ones of the fallback order, and converting fewer of them would not have fitted.\<close>

theorem starter_space_spec:
  assumes "dict_ok declared"
  shows "case build_starter_search_space declared of
      Inl e \<Rightarrow> (\<exists>m. e = InvalidSearchSpaceError m) \<and>
        (declared = [] \<or> \<not> fits (converted UNIV (starter_params declared)))
    | Inr r \<Rightarrow> space_ok (sp_space r) \<and> dict_keys (sp_space r) = dict_keys declared \<and>
        sp_space r = converted (set (sp_fallback_names r)) (starter_params declared) \<and>
        (\<exists>k. sp_fallback_names r = take k (fallback_order declared)) \<and>
        (\<forall>j<length (sp_fallback_names r).
           \<not> fits (converted (set (take j (sp_fallback_names r))) (starter_params declared)))"
proof (cases "declared = []")
  case True
  then show ?thesis by (simp add: build_starter_search_space_def)
next
  case False
  let ?p = "starter_params declared" and ?o = "fallback_order declared"
  obtain k where k: "k \<le> length ?o" "k = length ?o \<or> fits (converted (set (take k ?o)) ?p)"
    "\<forall>j<k. \<not> fits (converted (set (take j ?o)) ?p)"
    "build_starter_search_space declared = (let params' = converted (set (take k ?o)) ?p
       in if fits params' then Inr \<lparr>sp_space = params', sp_fallback_names = take k ?o\<rparr>
          else Inl (InvalidSearchSpaceError ''cap-aware fallback exhausted''))"
    using build_unfold [OF assms False] by blast
  let ?c = "converted (set (take k ?o)) ?p"
  show ?thesis
  proof (cases "fits ?c")
    case True
    have "?c \<noteq> []" using False by (simp add: converted_def starter_params_def)
    moreover have "\<forall>spec\<in>set (dict_values ?c). param_ok spec"
      by (rule converted_ok [OF starter_params_ok])
    ultimately have "space_ok ?c" using True by (simp add: space_ok_def fits_def estimate_same)
    moreover have "dict_keys ?c = dict_keys declared"
      by simp (simp add: dict_keys_def starter_params_def comp_def case_prod_beta)
    ultimately show ?thesis using k(3,4) True by (simp add: Let_def) blast
  next
    case f: False
    then have "k = length ?o" using k(2) by simp
    then have "?c = converted UNIV ?p" using converted_all [of ?p "set ?o"] fallback_order_ok(2) by simp
    then show ?thesis using f k(4) by simp
  qed
qed

lemma starter_space_spec_witness:
  "\<exists>r. build_starter_search_space [(''title_boost'', ''float''), (''slop'', ''int'')] = Inr r \<and> space_ok (sp_space r)"
proof -
  let ?d = "[(''title_boost'', ''float''), (''slop'', ''int'')]"
  have "fits (converted UNIV (starter_params ?d))"
    by (simp add: fits_def starter_params_def starter_spec_def normalizer_key_def match_heuristic_rule_def
        HEURISTIC_RULES_def dollar_def newline_def starts_with_def dot_star_suffix_def converted_def is_float_def
        estimate_cardinality_from_dict_def dict_values_def)
  with starter_space_spec [of ?d] show ?thesis
    by (auto simp: dict_ok_def split: sum.splits)
qed

section \<open>Lemmas on narrowing\<close>

text \<open>The same kind of spec, with bounds inside the old ones.\<close>

fun refines :: "param_spec \<Rightarrow> param_spec \<Rightarrow> bool" where
  "refines (FloatParam l h g) (FloatParam l' h' g') =
     (g' = g \<and> (l' = l \<or> flt l l') \<and> (h' = h \<or> flt h' h) \<and> \<not> fle h' l')"
| "refines (IntParam l h) (IntParam l' h') = (l \<le> l' \<and> h' \<le> h \<and> l' \<le> h')"
| "refines s s' = (s' = s)"

lemma fmax_cases: "fmax a b = a \<or> flt a (fmax a b)"
  by (simp add: fmax_def)

lemma fmin_cases: "fmin a b = a \<or> flt (fmin a b) a"
  by (simp add: fmin_def)

lemma log_low_ok: "\<not> fle low (Fin 0) \<Longrightarrow> new = low \<or> flt low new \<Longrightarrow> \<not> fle new (Fin 0)"
  by (auto dest: flt_fle_trans flt_imp_fle)

lemma narrow_float_refines:
  assumes "param_ok (FloatParam low high g)"
  shows "case narrow_float_bounds low high g w b of
      Inl e \<Rightarrow> False
    | Inr None \<Rightarrow> True
    | Inr (Some spec) \<Rightarrow> refines (FloatParam low high g) spec \<and> param_ok spec"
proof (cases "fle w low \<or> fle high w")
  case True
  then show ?thesis by (simp add: narrow_float_bounds_def)
next
  case False
  obtain l h where lh: "(if g then (fmax low (the (fdiv w SQRT2)), fmin high (fmul w SQRT2))
            else (let half_width = fmul (fabs w) b
                  in (fmax low (fsub w half_width), fmin high (fadd w half_width)))) = (l, h)"
    by fastforce
  then have l: "l = low \<or> flt low l" and h: "h = high \<or> flt h high"
    using fmax_cases fmin_cases by (auto simp: Let_def split: if_splits)
  have "g \<longrightarrow> \<not> fle l (Fin 0)" using assms l log_low_ok by (auto simp: param_ok_def)
  then show ?thesis
    using False l h by (auto simp: narrow_float_bounds_def lh check_float_bounds_def param_ok_def)
qed

lemma narrow_int_refines:
  "narrow_int_bounds low high w b = Some (Some spec) \<Longrightarrow> refines (IntParam low high) spec \<and> param_ok spec"
  by (auto simp: narrow_int_bounds_def Let_def param_ok_def split: if_splits option.splits)

lemma narrow_param_refines:
  assumes "param_ok spec"
  shows "case narrow_param spec v b of
      Inl e \<Rightarrow> e = NarrowArithmetic
    | Inr None \<Rightarrow> True
    | Inr (Some spec') \<Rightarrow> refines spec spec' \<and> param_ok spec' \<and> spec_cardinality spec' \<le> spec_cardinality spec"
proof (cases spec)
  case (FloatParam low high g)
  have cd: "refines (FloatParam low high g) s \<Longrightarrow> spec_cardinality s = 100" for s by (cases s) auto
  show ?thesis
  proof (cases "float_winner v")
    case (Some ow)
    show ?thesis
    proof (cases ow)
      case (Some w)
      have "case narrow_float_bounds low high g w b of Inl e \<Rightarrow> False | Inr None \<Rightarrow> True
          | Inr (Some spec) \<Rightarrow> refines (FloatParam low high g) spec \<and> param_ok spec"
        using narrow_float_refines assms FloatParam by blast
      then show ?thesis using cd \<open>float_winner v = Some ow\<close> Some
        by (auto simp: narrow_param_def FloatParam split: option.splits sum.splits)
    qed (use Some in \<open>simp add: narrow_param_def FloatParam\<close>)
  qed (simp add: narrow_param_def FloatParam)
next
  case (IntParam low high)
  have cd: "refines (IntParam low high) s \<Longrightarrow> spec_cardinality s \<le> high - low + 1" for s by (cases s) auto
  show ?thesis
    using narrow_int_refines [of low high _ b] cd
    by (auto simp: narrow_param_def IntParam split: option.splits pyval.splits)
qed (simp_all add: narrow_param_def)

lemma refines_refl: "param_ok spec \<Longrightarrow> refines spec spec"
  by (cases spec) (auto simp: param_ok_def)

text \<open>The interval around a winning value, for a value strictly inside the old bounds and if anything is left of it.\<close>

fun window :: "pyval \<Rightarrow> pyfloat \<Rightarrow> param_spec \<Rightarrow> param_spec option" where
  "window v bracket (FloatParam low high is_log) =
     (case float_winner v of
        Some (Some w) \<Rightarrow>
          (let half = fmul (fabs w) bracket;
               l = fmax low (if is_log then the (fdiv w SQRT2) else fsub w half);
               h = fmin high (if is_log then fmul w SQRT2 else fadd w half)
           in if fle w low \<or> fle high w \<or> fle h l then None else Some (FloatParam l h is_log))
      | _ \<Rightarrow> None)"
| "window (PInt w) bracket (IntParam low high) =
     (case (float_of_int w, float_of_int \<bar>w\<bar>) of
        (Some x, Some a) \<Rightarrow> (case (py_floor (fsub x (fmul a bracket)), py_ceil (fadd x (fmul a bracket))) of
            (Some f, Some c) \<Rightarrow> if w \<le> low \<or> high \<le> w \<or> min high c < max low f then None
                               else Some (IntParam (max low f) (min high c))
          | _ \<Rightarrow> None)
      | _ \<Rightarrow> None)"
| "window v bracket spec = None"

text \<open>The value is in the interval, if it is a double, the bracket is not negative and no bound is a NaN.\<close>

fun holds_winner :: "pyval \<Rightarrow> param_spec \<Rightarrow> bool" where
  "holds_winner v (FloatParam l h g) = (\<exists>w. float_winner v = Some (Some w) \<and> fle l w \<and> fle w h)"
| "holds_winner v (IntParam l h) = (\<exists>w. v = PInt w \<and> l \<le> w \<and> w \<le> h)"
| "holds_winner v spec = False"

fun exact_winner :: "pyval \<Rightarrow> bool" where
  "exact_winner (PInt n) = (\<bar>n\<bar> < 2 ^ 53)"
| "exact_winner (PFloat (Fin q)) = (rnd64 q = Fin q)"
| "exact_winner _ = False"

fun numeric_bounds :: "param_spec \<Rightarrow> bool" where
  "numeric_bounds (FloatParam l h g) = (l \<noteq> NaN \<and> h \<noteq> NaN)"
| "numeric_bounds spec = True"

lemma window_of_narrow: "narrow_param spec v b = Inr r \<Longrightarrow> r = window v b spec"
proof (cases spec)
  case (FloatParam low high g)
  assume "narrow_param spec v b = Inr r"
  then show ?thesis by (cases "float_winner v") (auto simp: narrow_param_def narrow_float_bounds_def FloatParam Let_def
      split: option.splits sum.splits if_splits)
next
  case (IntParam low high)
  assume "narrow_param spec v b = Inr r"
  then show ?thesis by (cases v) (auto simp: narrow_param_def narrow_int_bounds_def IntParam Let_def not_less
      split: option.splits if_splits)
qed (simp_all add: narrow_param_def)

lemma exact_float: "exact_winner v \<Longrightarrow> float_winner v = Some (Some w) \<Longrightarrow> \<exists>x. w = Fin x \<and> rnd64 x = Fin x"
  by (cases v; cases w) (auto simp: float_of_int_def rnd64_of_int split: pyfloat.splits)

lemma half_nonneg: "0 \<le> a \<Longrightarrow> 0 \<le> q \<Longrightarrow> fmul (Fin a) (Fin q) = PInf \<or> (\<exists>h\<ge>0. fmul (Fin a) (Fin q) = Fin h)"
  using rnd64_mono [of 0 "a * q"] by (cases "rnd64 (a * q)") (auto simp: fle_def)

lemma around:
  assumes "rnd64 x = Fin x" and "d = PInf \<or> (\<exists>h\<ge>0. d = Fin h)"
  shows "fle (fsub (Fin x) d) (Fin x) \<and> fle (Fin x) (fadd (Fin x) d)"
  using assms rnd64_mono [of "x - h" x for h] rnd64_mono [of x "x + h" for h] by (auto simp: fsub_def)

lemma window_holds:
  assumes "window v (Fin q) spec = Some new" and "exact_winner v" and "0 \<le> q" and "param_ok spec" and "numeric_bounds spec"
  shows "holds_winner v new"
proof (cases spec)
  case (FloatParam low high g)
  obtain w where w: "float_winner v = Some (Some w)"
    using assms(1) by (auto simp: FloatParam split: option.splits)
  obtain x where x: "w = Fin x" "rnd64 x = Fin x" using exact_float [OF assms(2) w] by blast
  have "fabs w = Fin \<bar>x\<bar>" by (auto simp: x fabs_def)
  then have lin: "fle (fsub w (fmul (fabs w) (Fin q))) w \<and> fle w (fadd w (fmul (fabs w) (Fin q)))"
    using around [OF x(2) half_nonneg [of "\<bar>x\<bar>" q]] assms(3) by (simp add: x)
  have "0 < x" if "g" "\<not> fle w low"
    using that assms(4,5) by (cases low) (auto simp: FloatParam param_ok_def x fle_def)
  then have log: "fle (the (fdiv w SQRT2)) w \<and> fle w (fmul w SQRT2)" if "g" "\<not> fle w low"
    using that rnd64_mono [of "x / (6369051672525773 / 4503599627370496)" x] rnd64_mono [of x "x * (6369051672525773 / 4503599627370496)"] x
    by (simp add: SQRT2_def field_simps)
  show ?thesis
    using assms(1,5) w lin log x(1) by (cases low; cases high) (auto simp: FloatParam Let_def fmax_def fmin_def fle_def split: if_splits)
next
  case (IntParam low high)
  obtain w where v: "v = PInt w" using assms(1) by (cases v) (simp_all add: IntParam)
  have f: "float_of_int w = Some (Fin (of_int w))" "float_of_int \<bar>w\<bar> = Some (Fin \<bar>of_int w\<bar>)"
    using assms(2) rnd64_of_int [of w] rnd64_of_int [of "\<bar>w\<bar>"] by (simp_all add: v float_of_int_def)
  let ?d = "fmul (Fin \<bar>of_int w\<bar>) (Fin q)"
  have "fle (fsub (Fin (of_int w)) ?d) (Fin (of_int w)) \<and> fle (Fin (of_int w)) (fadd (Fin (of_int w)) ?d)"
    using assms(2,3) by (intro around rnd64_of_int half_nonneg) (auto simp: v)
  then show ?thesis
    using assms(1) by (cases "fsub (Fin (of_int w)) ?d"; cases "fadd (Fin (of_int w)) ?d")
      (auto simp: IntParam v f floor_le_iff le_ceiling_iff min_def max_def split: if_splits)
qed (use assms(1) in simp_all)

text \<open>The loop as a map over the space.\<close>

definition narrowed_to :: "obj \<Rightarrow> pyfloat \<Rightarrow> string \<times> param_spec \<Rightarrow> param_spec option" where
  "narrowed_to winning_params bracket p = Option.bind (map_of winning_params (fst p)) (\<lambda>v. window v bracket (snd p))"

definition narrowed_entry :: "obj \<Rightarrow> pyfloat \<Rightarrow> string \<times> param_spec \<Rightarrow> string \<times> param_spec" where
  "narrowed_entry w b p = (case narrowed_to w b p of None \<Rightarrow> p | Some q \<Rightarrow> (fst p, q))"

lemma narrow_loop_map:
  assumes "dict_ok (past @ rest)" "\<forall>p\<in>set rest. param_ok (snd p)"
    and "narrow_loop rest w b (map (narrowed_entry w b) past @ rest) (map fst (filter (\<lambda>p. narrowed_to w b p \<noteq> None) past)) = r"
  shows "case r of Inl e \<Rightarrow> e = NarrowArithmetic
    | Inr (params, names) \<Rightarrow> params = map (narrowed_entry w b) (past @ rest) \<and>
        names = map fst (filter (\<lambda>p. narrowed_to w b p \<noteq> None) (past @ rest)) \<and>
        (\<forall>p\<in>set rest. \<forall>q. narrowed_to w b p = Some q \<longrightarrow>
           refines (snd p) q \<and> param_ok q \<and> spec_cardinality q \<le> spec_cardinality (snd p))"
  using assms
proof (induction rest arbitrary: past)
  case (Cons p rest)
  obtain n spec where p: "p = (n, spec)" by (cases p)
  have fresh: "n \<notin> fst ` set (map (narrowed_entry w b) past)"
    using Cons.prems(1) by (auto simp: dict_ok_def p narrowed_entry_def image_iff split: option.splits)
  have "dict_set n q (new @ (n, spec) # rest) = new @ (n, q) # rest" if "n \<notin> fst ` set new" for new q
    using that by (induction new) auto
  note ds = this [OF fresh]
  note IH = Cons.IH [of "past @ [p]", unfolded append_assoc append_Cons append_Nil map_append filter_append]
  show ?case
  proof (cases "map_of w n")
    case None
    then have nt: "narrowed_to w b p = None" by (simp add: narrowed_to_def p)
    then have "narrowed_entry w b p = p" by (simp add: narrowed_entry_def)
    then show ?thesis using IH nt Cons.prems None by (simp add: p split: sum.splits prod.splits)
  next
    case (Some v)
    note np = narrow_param_refines [of spec v b]
    consider e where "narrow_param spec v b = Inl e" | q where "narrow_param spec v b = Inr q"
      by (metis sum.exhaust)
    then show ?thesis
    proof cases
      case (1 e)
      then show ?thesis using np Some Cons.prems(2,3) by (auto simp: p)
    next
      case (2 q)
      then have nt: "narrowed_to w b p = q" using window_of_narrow [OF 2] Some by (simp add: narrowed_to_def p)
      then have "narrowed_entry w b p = (case q of None \<Rightarrow> p | Some s \<Rightarrow> (n, s))"
        by (simp add: narrowed_entry_def p split: option.splits)
      then show ?thesis using nt IH Cons.prems Some 2 np ds
        by (cases q) (auto simp: p split: sum.splits prod.splits)
    qed
  qed
qed auto

lemma map_of_entries: "map_of (map (narrowed_entry w b) space) n =
    (case map_of space n of None \<Rightarrow> None
     | Some old \<Rightarrow> Some (case narrowed_to w b (n, old) of None \<Rightarrow> old | Some q \<Rightarrow> q))"
  by (induction space) (auto simp: narrowed_entry_def split: option.splits)

lemma entries_ok:
  assumes "space_ok space" and "\<forall>p\<in>set space. \<forall>q. narrowed_to w b p = Some q \<longrightarrow>
           param_ok q \<and> spec_cardinality q \<le> spec_cardinality (snd p)"
  shows "space_ok (map (narrowed_entry w b) space) \<and> dict_keys (map (narrowed_entry w b) space) = dict_keys space \<and>
    estimate_cardinality (map (narrowed_entry w b) space) \<le> estimate_cardinality space"
proof -
  let ?s = "map (narrowed_entry w b) space"
  have old: "\<forall>p\<in>set space. param_ok (snd p)" using assms(1) by (auto simp: space_ok_def dict_values_def)
  have new: "\<forall>p\<in>set space. param_ok (snd (narrowed_entry w b p)) \<and> spec_cardinality (snd (narrowed_entry w b p)) \<le> spec_cardinality (snd p)"
    using old assms(2) by (auto simp: narrowed_entry_def split: option.splits)
  have "list_all2 (\<lambda>x y. 0 \<le> x \<and> x \<le> y) (map spec_cardinality (dict_values ?s)) (map spec_cardinality (dict_values space))"
    using new spec_cardinality_pos by (fastforce simp: dict_values_def list_all2_map1 list_all2_map2 list_all2_same intro: order_trans [of 0 1])
  then have "estimate_cardinality ?s \<le> estimate_cardinality space"
    using prod_list_mono by (simp add: estimate_cardinality_prod)
  moreover have "dict_keys ?s = dict_keys space" by (auto simp: dict_keys_def narrowed_entry_def split: option.splits)
  ultimately show ?thesis using new assms(1) by (auto simp: space_ok_def dict_values_def)
qed

section \<open>The narrowing property\<close>

text \<open>C33 Narrowing a valid space never fails validation (only the arithmetic of an integer winner too
  large for a float raises), and changes only winning parameters: a parameter that is not among the
  winners is unchanged; one that is gets the interval around its winning value, when the value is
  strictly inside the old bounds and the interval is not empty, and is unchanged otherwise. A narrowed
  interval lies inside the old bounds and, for a winner that is a double, bounds that are numbers and a
  bracket that is not negative, holds the winning value. The reported names are exactly the narrowed parameters, sorted, the
  result is valid, and the cardinality estimate does not grow.\<close>

theorem narrowing_refines:
  assumes "dict_ok space" and "space_ok space"
  shows "case narrow_bounds_around_winner space winning_params bracket of
      Inl e \<Rightarrow> e = NarrowArithmetic
    | Inr (space', names) \<Rightarrow> space_ok space' \<and> dict_keys space' = dict_keys space \<and>
        estimate_cardinality space' \<le> estimate_cardinality space \<and> sorted names \<and>
        set names = {n. \<exists>old v. map_of space n = Some old \<and> map_of winning_params n = Some v \<and> window v bracket old \<noteq> None} \<and>
        (\<forall>n old. map_of space n = Some old \<longrightarrow>
          (case map_of winning_params n of
             None \<Rightarrow> map_of space' n = Some old
           | Some v \<Rightarrow> (case window v bracket old of
               None \<Rightarrow> map_of space' n = Some old
             | Some new \<Rightarrow> map_of space' n = Some new \<and> refines old new \<and>
                 (\<forall>q. bracket = Fin q \<and> 0 \<le> q \<and> exact_winner v \<and> numeric_bounds old \<longrightarrow> holds_winner v new))))"
proof (cases "narrow_loop space winning_params bracket space []")
  case (Inl e)
  then show ?thesis using narrow_loop_map [of "[]" space winning_params bracket] assms
    by (auto simp: narrow_bounds_around_winner_def space_ok_def dict_values_def)
next
  case (Inr r)
  let ?to = "narrowed_to winning_params bracket" and ?s = "map (narrowed_entry winning_params bracket) space"
  have ok: "\<forall>p\<in>set space. param_ok (snd p)" using assms(2) by (auto simp: space_ok_def dict_values_def)
  have r: "r = (?s, map fst (filter (\<lambda>p. ?to p \<noteq> None) space))"
    and q: "\<forall>p\<in>set space. \<forall>q. ?to p = Some q \<longrightarrow> refines (snd p) q \<and> param_ok q \<and> spec_cardinality q \<le> spec_cardinality (snd p)"
    using narrow_loop_map [of "[]" space winning_params bracket] assms(1) ok Inr by (auto split: prod.splits)
  have s: "space_ok ?s \<and> dict_keys ?s = dict_keys space \<and> estimate_cardinality ?s \<le> estimate_cardinality space"
    using entries_ok [OF assms(2)] q by blast
  have same: "filter (\<lambda>p. ?to p \<noteq> None) space = [] \<Longrightarrow> ?s = space"
    by (auto simp: filter_empty_conv narrowed_entry_def intro!: map_idI)
  have run: "narrow_bounds_around_winner space winning_params bracket = Inr (?s, sorted_set (map fst (filter (\<lambda>p. ?to p \<noteq> None) space)))"
  proof (cases "filter (\<lambda>p. ?to p \<noteq> None) space = []")
    case True
    then show ?thesis using Inr r same by (simp add: narrow_bounds_around_winner_def sorted_set_def del: not_None_eq)
  next
    case False
    have "make_search_space ?s = Inr ?s" using s by (simp add: make_search_space_ok)
    with False show ?thesis using Inr r by (simp add: narrow_bounds_around_winner_def del: not_None_eq)
  qed
  have names: "fst ` {p \<in> set space. ?to p \<noteq> None} =
      {n. \<exists>old v. map_of space n = Some old \<and> map_of winning_params n = Some v \<and> window v bracket old \<noteq> None}"
    using assms(1) by (force simp: narrowed_to_def dict_ok_def dict_keys_def bind_eq_Some_conv)
  have entry: "refines old new" "param_ok old" if "map_of space n = Some old" "map_of winning_params n = Some v"
      "window v bracket old = Some new" for n old v new
    using q ok map_of_SomeD [OF that(1)] that(2,3) by (force simp: narrowed_to_def)+
  have "set (sorted_set (map fst (filter (\<lambda>p. ?to p \<noteq> None) space))) =
      {n. \<exists>old v. map_of space n = Some old \<and> map_of winning_params n = Some v \<and> window v bracket old \<noteq> None}"
    using names by simp
  then show ?thesis
    using s entry window_holds
    by (auto simp: run map_of_entries narrowed_to_def split: option.splits)
qed

lemma narrowing_refines_witness:
  "\<exists>space' names. narrow_bounds_around_winner sample_space [(''slop'', PInt 5)] (Fin (1 / 2)) = Inr (space', names) \<and>
     estimate_cardinality space' \<le> estimate_cardinality sample_space"
proof -
  have "\<exists>r. narrow_bounds_around_winner sample_space [(''slop'', PInt 5)] (Fin (1 / 2)) = Inr r"
    by (simp add: narrow_bounds_around_winner_def sample_space_def narrow_param_def narrow_int_bounds_def)
  moreover have "dict_ok sample_space" "space_ok sample_space"
    by (auto simp: sample_space_def dict_ok_def space_ok_def estimate_cardinality_def dict_values_def param_ok_def)
  ultimately show ?thesis
    using narrowing_refines [of sample_space "[(''slop'', PInt 5)]" "Fin (1 / 2)"] by force
qed

end
