(* ===== verification/Followup_Worker.thy ===== *)
theory Followup_Worker
  imports Study_Cascade Trial_Repo Followups Search_Space_Defaults Budget
begin

text \<open>
  The worker that extends a chain of studies by one link
  (\<open>backend/workers/auto_followup.py\<close>): its checks in order, the space and template of the
  child, the child's configuration and the insert. What the worker reads from outside the
  tables is the record \<open>followup_env\<close>: the settings, Redis, the templates and digests, the
  pydantic validation of a follow-up, \<open>repr\<close>, the text of a \<open>float\<close>, the fresh uuid, the
  clock and whether Arq takes the job. An exception the worker does not catch is \<open>JobRaised\<close>:
  the session is closed without a commit.
\<close>

section \<open>The environment and the outcome\<close>

record followup_env =
  fe_budget :: pyfloat
  fe_model :: string
  fe_redis :: redis
  fe_templates :: "string \<Rightarrow> (string, string) pydict option"
  fe_digests :: "string \<Rightarrow> pyval option"
  fe_validate :: "obj \<Rightarrow> string + followup"
  fe_repr :: "pyval \<Rightarrow> string"
  fe_float_str :: "pyfloat \<Rightarrow> string"
  fe_uuid :: string
  fe_now :: int
  fe_arq_accepts :: bool

datatype worker_event =
    SkippedParentMissing
  | DuplicateDropped "string list"
  | SkippedNoLift
  | SkippedParentFailed
  | DepthExhausted
  | SkippedBudget
  | StrategyDigestMissing
  | FollowupEvent followup_event
  | SwapTargetMissing string
  | StrategyDispatchError
  | StartEnqueueFailed string
  | ChildEnqueued string
  | StrategySelected string
  | FellBackToNarrow "string list"

datatype worker_outcome = Skipped | JobRaised | ChildCreated study

section \<open>Values the worker computes with\<close>

text \<open>The values of the steps, and \<open>SearchSpace.model_dump()\<close>.\<close>

fun step_value :: "normalizer_step \<Rightarrow> string" where
  "step_value lowercase = ''lowercase''"
| "step_value trim = ''trim''"
| "step_value collapse_whitespace = ''collapse_whitespace''"
| "step_value strip_punctuation = ''strip_punctuation''"
| "step_value expand_contractions_en = ''expand_contractions_en''"
| "step_value expand_contractions_custom = ''expand_contractions_custom''"

fun dump_spec :: "param_spec \<Rightarrow> pyval" where
  "dump_spec (FloatParam low high is_log) =
     PDict [(''type'', PStr ''float''), (''low'', PFloat low), (''high'', PFloat high), (''log'', PBool is_log)]"
| "dump_spec (IntParam low high) =
     PDict [(''type'', PStr ''int''), (''low'', PInt low), (''high'', PInt high)]"
| "dump_spec (CategoricalParam choices) =
     PDict [(''type'', PStr ''categorical''), (''choices'', PList choices)]"
| "dump_spec (NormalizerPipelineParam steps) =
     PDict [(''type'', PStr ''normalizer_pipeline''), (''steps'', PList (map (\<lambda>s. PStr (step_value s)) steps))]"

definition dump_space :: "search_space \<Rightarrow> pyval" where
  "dump_space space = PDict [(''params'', PDict (map (\<lambda>(n, spec). (n, dump_spec spec)) space))]"

text \<open>\<open>parent_depth - 1\<close>: a \<open>bool\<close> counts as 0 or 1, anything but a number raises.\<close>

fun decrement :: "pyval \<Rightarrow> pyval option" where
  "decrement (PInt n) = Some (PInt (n - 1))"
| "decrement (PBool b) = Some (PInt (if b then 0 else - 1))"
| "decrement (PFloat x) = Some (PFloat (fsub x (Fin 1)))"
| "decrement _ = None"

fun depth_str :: "(pyfloat \<Rightarrow> string) \<Rightarrow> pyval \<Rightarrow> string" where
  "depth_str float_str (PInt n) = int_str n"
| "depth_str float_str (PFloat x) = float_str x"
| "depth_str float_str _ = []"

text \<open>
  Iterating a JSON value: a list gives its items, a \<open>dict\<close> its keys, a \<open>str\<close> its code points
  (a string is UTF-8 here, so a code point is a byte with the continuation bytes after it);
  anything else is a \<open>TypeError\<close>.
\<close>

definition continuation :: "char \<Rightarrow> bool" where
  "continuation c = (128 \<le> (of_char c :: nat) \<and> (of_char c :: nat) < 192)"

function code_points :: "string \<Rightarrow> string list" where
  "code_points [] = []"
| "code_points (c # cs) = (c # takeWhile continuation cs) # code_points (dropWhile continuation cs)"
  by pat_completeness auto

termination
  by (relation "measure length") (auto simp: le_imp_less_Suc length_dropWhile_le)

fun iterate :: "pyval \<Rightarrow> pyval list option" where
  "iterate (PList xs) = Some xs"
| "iterate (PDict d) = Some (map (\<lambda>(k, v). PStr k) d)"
| "iterate (PStr s) = Some (map PStr (code_points s))"
| "iterate _ = None"

fun hashable :: "pyval \<Rightarrow> bool" where
  "hashable (PList _) = False"
| "hashable (PDict _) = False"
| "hashable _ = True"

text \<open>Equal keys of a \<open>dict\<close>: numbers by value (\<open>1 == 1.0 == True\<close>), the rest structurally.\<close>

definition same_key :: "pyval \<Rightarrow> pyval \<Rightarrow> bool" where
  "same_key a b = (a = b \<or> (num_of a \<noteq> None \<and> num_of a = num_of b))"

fun unique_keys :: "pyval list \<Rightarrow> pyval list" where
  "unique_keys [] = []"
| "unique_keys (x # xs) = x # filter (\<lambda>y. \<not> same_key x y) (unique_keys xs)"

definition visited_key :: string where
  "visited_key = ''auto_followup_visited_template_ids''"

definition kind_key :: string where
  "kind_key = ''auto_followup_selected_kind''"

definition parent_visited :: "study \<Rightarrow> pyval" where
  "parent_visited parent =
     obj_get_default (st_config parent) visited_key (PList [PStr (st_template_id parent)])"

section \<open>The budget\<close>

text \<open>Whether the daily budget forbids another link.\<close>

definition budget_skip :: "followup_env \<Rightarrow> bool" where
  "budget_skip env =
     (flt (Fin 0) (fe_budget env) \<and>
      (fe_model env \<notin> known_models \<or>
       (case estimated_max_call_cost (fe_model env) of
          Inl _ \<Rightarrow> False
        | Inr max_call_cost \<Rightarrow>
            flt (fmul (flit (80 / 100)) (fe_budget env))
              (fadd (peek_daily_total (fe_redis env) (fe_now env)) max_call_cost))))"

section \<open>The strategy\<close>

text \<open>
  What the \<open>follow_suggestions\<close> block leaves behind: the outcome of the selection (none after
  an exception), whether the swap target was missing, the child's template and space, and the
  events.
\<close>

record dispatch =
  di_selection :: "selection_outcome option"
  di_swap_missing :: bool
  di_template_id :: string
  di_space :: search_space
  di_events :: "worker_event list"

definition dispatch_suggestions :: "followup_env \<Rightarrow> study \<Rightarrow> search_space \<Rightarrow> dispatch" where
  "dispatch_suggestions env parent narrow_space =
     (let digest = fe_digests env (st_id parent);
          missing = (if digest = None then [StrategyDigestMissing] else []);
          (followups, parse_events) = parse_followup_list (fe_validate env) (fe_repr env)
            (case digest of None \<Rightarrow> PList [] | Some raw \<Rightarrow> raw);
          events = missing @ map FollowupEvent parse_events;
          narrow = \<lparr>di_selection = None, di_swap_missing = False,
                    di_template_id = st_template_id parent, di_space = narrow_space,
                    di_events = events\<rparr>
      in case iterate (parent_visited parent) of
           None \<Rightarrow> narrow\<lparr>di_events := events @ [StrategyDispatchError]\<rparr>
         | Some visited_list \<Rightarrow>
             if \<not> list_all hashable visited_list
             then narrow\<lparr>di_events := events @ [StrategyDispatchError]\<rparr>
             else
               (let outcome = select_executable_followup followups {t. PStr t \<in> set visited_list};
                    chosen = narrow\<lparr>di_selection := Some outcome\<rparr>
                in case so_selected outcome of
                     Some (NarrowFollowup _ space) \<Rightarrow> chosen\<lparr>di_space := space\<rparr>
                   | Some (WidenFollowup _ space) \<Rightarrow> chosen\<lparr>di_space := space\<rparr>
                   | Some (SwapTemplateFollowup _ tid space) \<Rightarrow>
                       (case fe_templates env tid of
                          None \<Rightarrow> chosen\<lparr>di_swap_missing := True,
                                         di_events := events @ [SwapTargetMissing tid]\<rparr>
                        | Some _ \<Rightarrow> chosen\<lparr>di_template_id := tid, di_space := space\<rparr>)
                   | _ \<Rightarrow> chosen))"

definition follows_suggestions :: "study \<Rightarrow> bool" where
  "follows_suggestions parent =
     (obj_get (st_config parent) ''auto_followup_strategy'' = PStr ''follow_suggestions'')"

definition dispatch_strategy :: "followup_env \<Rightarrow> study \<Rightarrow> search_space \<Rightarrow> dispatch" where
  "dispatch_strategy env parent narrow_space =
     (if follows_suggestions parent then dispatch_suggestions env parent narrow_space
      else \<lparr>di_selection = None, di_swap_missing = False, di_template_id = st_template_id parent,
            di_space = narrow_space, di_events = []\<rparr>)"

definition selected_kind :: "dispatch \<Rightarrow> string" where
  "selected_kind di =
     (case di_selection di of
        None \<Rightarrow> ''narrow_default''
      | Some outcome \<Rightarrow> (case so_selected outcome of
            Some (NarrowFollowup _ _) \<Rightarrow> ''narrow''
          | Some (WidenFollowup _ _) \<Rightarrow> ''widen''
          | Some (SwapTemplateFollowup _ _ _) \<Rightarrow>
              if di_swap_missing di then ''narrow_default'' else ''swap_template''
          | _ \<Rightarrow> ''narrow_default''))"

section \<open>The child\<close>

text \<open>\<open>None\<close> is a \<open>TypeError\<close>: a depth that is no number, or visited ids that do not iterate.\<close>

definition child_config :: "study \<Rightarrow> dispatch \<Rightarrow> pyval \<Rightarrow> obj option" where
  "child_config parent di remaining =
     (let config = dict_pop kind_key (dict_set depth_key remaining (st_config parent))
      in if follows_suggestions parent then
           (case iterate (parent_visited parent) of
              None \<Rightarrow> None
            | Some visited \<Rightarrow>
                if list_all hashable visited then
                  Some (dict_set kind_key (PStr (selected_kind di))
                    (dict_set visited_key
                      (PList (unique_keys (visited @ [PStr (di_template_id di)]))) config))
                else None)
         else Some config)"

definition child_row :: "followup_env \<Rightarrow> study \<Rightarrow> dispatch \<Rightarrow> pyval \<Rightarrow> obj \<Rightarrow> study" where
  "child_row env parent di remaining config =
     \<lparr>st_id = fe_uuid env,
      st_name = st_name parent @ '' (chain depth '' @ depth_str (fe_float_str env) remaining @ '')'',
      st_cluster_id = st_cluster_id parent, st_target = st_target parent,
      st_template_id = di_template_id di, st_query_set_id = st_query_set_id parent,
      st_judgment_list_id = st_judgment_list_id parent, st_search_space = dump_space (di_space di),
      st_objective = st_objective parent, st_config = config, st_status = Queued,
      st_failed_reason = None, st_optuna_study_name = fe_uuid env,
      st_parent_study_id = Some (st_id parent), st_parent_proposal_id = None, st_baseline_metric = None,
      st_baseline_trial_id = None, st_best_metric = None, st_best_trial_id = None,
      st_created_at = fe_now env, st_started_at = None, st_completed_at = None\<rparr>"

text \<open>\<open>repo.create_study\<close> and the commit: the primary key is unique.\<close>

definition create_study :: "study \<Rightarrow> db \<Rightarrow> db option" where
  "create_study row d =
     (if st_id row \<in> set (study_ids d) then None else Some (d\<lparr>db_studies := db_studies d @ [row]\<rparr>))"

text \<open>The telemetry after the commit.\<close>

definition success_events :: "followup_env \<Rightarrow> study \<Rightarrow> dispatch \<Rightarrow> worker_event list" where
  "success_events env parent di =
     (if fe_arq_accepts env then [] else [StartEnqueueFailed (fe_uuid env)]) @
     [ChildEnqueued (fe_uuid env)] @
     (if follows_suggestions parent then
        (case di_selection di of
           None \<Rightarrow> []
         | Some outcome \<Rightarrow> (case so_selected outcome of
               Some (NarrowFollowup _ _) \<Rightarrow> [StrategySelected (selected_kind di)]
             | Some (WidenFollowup _ _) \<Rightarrow> [StrategySelected (selected_kind di)]
             | Some (SwapTemplateFollowup _ _ _) \<Rightarrow>
                 if di_swap_missing di then [] else [StrategySelected (selected_kind di)]
             | _ \<Rightarrow> [FellBackToNarrow (so_dropped_template_ids outcome)]))
      else [])"

section \<open>The job\<close>

text \<open>Steps 7 to 12, for a parent that passed the gates, its best trial and its template.\<close>

definition build_child ::
  "followup_env \<Rightarrow> study \<Rightarrow> trial \<Rightarrow> (string, string) pydict \<Rightarrow> db \<Rightarrow> worker_outcome \<times> worker_event list \<times> db" where
  "build_child env parent best_trial declared_params d =
     (case build_starter_search_space declared_params of
        Inl _ \<Rightarrow> (JobRaised, [], d)
      | Inr starter \<Rightarrow>
        (case narrow_bounds_around_winner (sp_space starter) (tr_params best_trial) (Fin (1 / 2)) of
           Inl _ \<Rightarrow> (JobRaised, [], d)
         | Inr (narrow_space, _) \<Rightarrow>
           (let di = dispatch_strategy env parent narrow_space
            in case decrement (obj_get_default (st_config parent) depth_key (PInt 0)) of
                 None \<Rightarrow> (JobRaised, di_events di, d)
               | Some remaining \<Rightarrow>
                 (case child_config parent di remaining of
                    None \<Rightarrow> (JobRaised, di_events di, d)
                  | Some config \<Rightarrow>
                    (let child = child_row env parent di remaining config
                     in case create_study child d of
                          None \<Rightarrow> (JobRaised, di_events di, d)
                        | Some d' \<Rightarrow>
                            (ChildCreated child, di_events di @ success_events env parent di, d'))))))"

definition enqueue_followup_study ::
  "followup_env \<Rightarrow> string \<Rightarrow> db \<Rightarrow> worker_outcome \<times> worker_event list \<times> db" where
  "enqueue_followup_study env parent_study_id d =
     (case get_study d parent_study_id of
        None \<Rightarrow> (Skipped, [SkippedParentMissing], d)
      | Some parent \<Rightarrow>
        (let existing_children = list_children_of_study d parent_study_id
         in if existing_children \<noteq> [] then
              (Skipped, [DuplicateDropped (map st_id existing_children)], d)
            else
              (let complete_trials = filter (\<lambda>t. tr_status t = Complete) (list_trials_for_study d parent_study_id);
                   outcome = evaluate_chain_gate parent complete_trials AUTO_FOLLOWUP_LIFT_EPSILON Maximize
               in case cg_decision outcome of
                    SKIP_NO_LIFT \<Rightarrow> (Skipped, [SkippedNoLift], d)
                  | SKIP_PARENT_FAILED \<Rightarrow> (Skipped, [SkippedParentFailed], d)
                  | SKIP_DEPTH_EXHAUSTED \<Rightarrow> (Skipped, [DepthExhausted], d)
                  | ENQUEUE \<Rightarrow>
                      if budget_skip env then (Skipped, [SkippedBudget], d)
                      else
                        (case st_best_trial_id parent of
                           None \<Rightarrow> (Skipped, [SkippedNoLift], d)
                         | Some best_trial_id \<Rightarrow>
                           (case get_trial d best_trial_id of
                              None \<Rightarrow> (Skipped, [SkippedNoLift], d)
                            | Some best_trial \<Rightarrow>
                              (case fe_templates env (st_template_id parent) of
                                 None \<Rightarrow> (Skipped, [SkippedNoLift], d)
                               | Some declared_params \<Rightarrow>
                                   build_child env parent best_trial declared_params d))))))"

section \<open>What a run of the job leaves behind\<close>

lemma build_child_cases:
  "build_child env parent best_trial declared d = (out, evs, e) \<Longrightarrow>
     (\<exists>narrow_space remaining config.
        decrement (obj_get_default (st_config parent) depth_key (PInt 0)) = Some remaining \<and>
        child_config parent (dispatch_strategy env parent narrow_space) remaining = Some config \<and>
        out = ChildCreated (child_row env parent (dispatch_strategy env parent narrow_space) remaining config) \<and>
        create_study (child_row env parent (dispatch_strategy env parent narrow_space) remaining config) d = Some e) \<or>
     (out = JobRaised \<and> e = d)"
  by (auto simp: build_child_def Let_def split: sum.splits option.splits prod.splits)

lemma enqueue_cases:
  "enqueue_followup_study env pid d = (out, evs, e) \<Longrightarrow>
     (\<exists>parent best_trial declared.
        get_study d pid = Some parent \<and> list_children_of_study d pid = [] \<and>
        cg_decision (evaluate_chain_gate parent (filter (\<lambda>t. tr_status t = Complete) (list_trials_for_study d pid))
          AUTO_FOLLOWUP_LIFT_EPSILON Maximize) = ENQUEUE \<and>
        \<not> budget_skip env \<and> build_child env parent best_trial declared d = (out, evs, e)) \<or>
     (out = Skipped \<and> e = d)"
  by (auto simp: enqueue_followup_study_def Let_def
      split: option.splits chain_gate_decision.splits if_splits)

lemma gate_enqueue:
  "cg_decision (evaluate_chain_gate parent ts eps dir) = ENQUEUE \<Longrightarrow>
     st_status parent \<noteq> Failed \<and> st_status parent \<noteq> Cancelled \<and> \<not> depth_exhausted parent"
  by (auto simp: evaluate_chain_gate_def split: if_splits)

lemma child_row_simps [simp]:
  "st_id (child_row env p di n config) = fe_uuid env"
  "st_parent_study_id (child_row env p di n config) = Some (st_id p)"
  "st_status (child_row env p di n config) = Queued"
  "st_template_id (child_row env p di n config) = di_template_id di"
  "st_config (child_row env p di n config) = config"
  "st_cluster_id (child_row env p di n config) = st_cluster_id p"
  "st_target (child_row env p di n config) = st_target p"
  "st_query_set_id (child_row env p di n config) = st_query_set_id p"
  "st_judgment_list_id (child_row env p di n config) = st_judgment_list_id p"
  "st_objective (child_row env p di n config) = st_objective p"
  "st_search_space (child_row env p di n config) = dump_space (di_space di)"
  by (simp_all add: child_row_def)

lemma created_cases:
  assumes "enqueue_followup_study env pid d = (ChildCreated c, evs, e)"
  obtains parent narrow_space remaining config where
    "get_study d pid = Some parent" "list_children_of_study d pid = []"
    "st_status parent \<noteq> Failed" "st_status parent \<noteq> Cancelled" "\<not> depth_exhausted parent"
    "\<not> budget_skip env"
    "decrement (obj_get_default (st_config parent) depth_key (PInt 0)) = Some remaining"
    "child_config parent (dispatch_strategy env parent narrow_space) remaining = Some config"
    "c = child_row env parent (dispatch_strategy env parent narrow_space) remaining config"
    "fe_uuid env \<notin> set (study_ids d)" "e = d\<lparr>db_studies := db_studies d @ [c]\<rparr>"
proof -
  from enqueue_cases [OF assms] obtain parent bt decl where p:
    "get_study d pid = Some parent" "list_children_of_study d pid = []"
    "cg_decision (evaluate_chain_gate parent (filter (\<lambda>t. tr_status t = Complete) (list_trials_for_study d pid))
          AUTO_FOLLOWUP_LIFT_EPSILON Maximize) = ENQUEUE"
    "\<not> budget_skip env" "build_child env parent bt decl d = (ChildCreated c, evs, e)" by auto
  from build_child_cases [OF p(5)] obtain space remaining config where q:
    "decrement (obj_get_default (st_config parent) depth_key (PInt 0)) = Some remaining"
    "child_config parent (dispatch_strategy env parent space) remaining = Some config"
    "c = child_row env parent (dispatch_strategy env parent space) remaining config"
    "create_study c d = Some e" by auto
  from q(3,4) have u: "fe_uuid env \<notin> set (study_ids d)" "e = d\<lparr>db_studies := db_studies d @ [c]\<rparr>"
    by (simp_all add: create_study_def split: if_splits)
  from gate_enqueue [OF p(3)] have g: "st_status parent \<noteq> Failed" "st_status parent \<noteq> Cancelled"
    "\<not> depth_exhausted parent" by simp_all
  show ?thesis by (rule that [OF p(1,2) g p(4) q(1-3) u])
qed

lemma not_created:
  "enqueue_followup_study env pid d = (out, evs, e) \<Longrightarrow> (\<And>c. out \<noteq> ChildCreated c) \<Longrightarrow> e = d"
  by (auto dest!: enqueue_cases build_child_cases)

lemma key_names [simp]:
  "depth_key \<noteq> kind_key" "depth_key \<noteq> visited_key" "kind_key \<noteq> visited_key"
  "kind_key \<noteq> depth_key" "visited_key \<noteq> depth_key" "visited_key \<noteq> kind_key"
  "depth_key \<noteq> ''auto_followup_strategy''" "kind_key \<noteq> ''auto_followup_strategy''"
  "visited_key \<noteq> ''auto_followup_strategy''"
  by (simp_all add: depth_key_def kind_key_def visited_key_def)

lemma child_config_cases:
  "child_config parent di remaining = Some config \<Longrightarrow>
     (\<not> follows_suggestions parent \<and>
        config = dict_pop kind_key (dict_set depth_key remaining (st_config parent))) \<or>
     (\<exists>visited. follows_suggestions parent \<and> iterate (parent_visited parent) = Some visited \<and>
        list_all hashable visited \<and>
        config = dict_set kind_key (PStr (selected_kind di)) (dict_set visited_key
          (PList (unique_keys (visited @ [PStr (di_template_id di)])))
          (dict_pop kind_key (dict_set depth_key remaining (st_config parent)))))"
  by (auto simp: child_config_def Let_def split: if_splits option.splits)

lemma child_config_get:
  assumes "child_config parent di remaining = Some config"
  shows "map_of config depth_key = Some remaining"
    and "k \<notin> {depth_key, kind_key, visited_key} \<Longrightarrow> map_of config k = map_of (st_config parent) k"
    and "map_of config kind_key =
      (if follows_suggestions parent then Some (PStr (selected_kind di)) else None)"
    and "\<not> follows_suggestions parent \<Longrightarrow> map_of config visited_key = map_of (st_config parent) visited_key"
  using child_config_cases [OF assms] by auto

lemma unique_keys_strs:
  "unique_keys (map PStr xs) = map PStr (ordered_unique xs)"
  by (induction xs) (auto simp: same_key_def filter_map comp_def intro!: filter_cong arg_cong [of _ _ "map PStr"])

lemma strs_hashable [simp]: "list_all hashable (map PStr xs)"
  by (simp add: list_all_iff)

section \<open>The cycle guard\<close>

text \<open>The template ids a study has visited, when its configuration lists strings.\<close>

definition visits :: "study \<Rightarrow> string list \<Rightarrow> bool" where
  "visits r ts = (iterate (parent_visited r) = Some (map PStr ts))"

lemma PStr_map_inj: "map PStr xs = map PStr ys \<longleftrightarrow> xs = ys"
  by (simp add: inj_map_eq_map inj_def)

lemma visits_unique: "visits r ts \<Longrightarrow> visits r us \<Longrightarrow> us = ts"
  by (auto simp: visits_def PStr_map_inj)

text \<open>A swap that runs goes to a template outside the visited ones.\<close>

lemma scan_selected:
  assumes "so_selected (select_executable_followup fs visited) = Some f"
  shows "executable visited f"
proof (cases "filter (\<lambda>p. executable visited (snd p)) (enumerate 0 fs)")
  case Nil
  then show ?thesis using assms by (simp add: select_executable_followup_def scan_followups_eq)
next
  case (Cons p rest)
  then have "p \<in> set (filter (\<lambda>p. executable visited (snd p)) (enumerate 0 fs))" by simp
  moreover have "f = snd p"
    using Cons assms by (cases p) (simp add: select_executable_followup_def scan_followups_eq)
  ultimately show ?thesis by simp
qed

lemma dispatch_template:
  assumes "visits parent ts" "di = dispatch_strategy env parent space"
  shows "if selected_kind di = ''swap_template''
    then di_template_id di \<notin> set ts \<and> fe_templates env (di_template_id di) \<noteq> None
    else di_template_id di = st_template_id parent"
proof (cases "follows_suggestions parent")
  case False
  then show ?thesis using assms(2) by (simp add: dispatch_strategy_def selected_kind_def)
next
  case True
  have it: "iterate (parent_visited parent) = Some (map PStr ts)" using assms(1) by (simp add: visits_def)
  have set: "{t. PStr t \<in> PStr ` set ts} = set ts" by auto
  obtain fs es where parse: "parse_followup_list (fe_validate env) (fe_repr env)
      (case fe_digests env (st_id parent) of None \<Rightarrow> PList [] | Some raw \<Rightarrow> raw) = (fs, es)"
    by (meson surj_pair)
  note d = dispatch_suggestions_def [of env parent space, unfolded Let_def parse it, simplified]
  show ?thesis
  proof (cases "so_selected (select_executable_followup fs (set ts))")
    case None
    then show ?thesis using True assms(2) by (simp add: dispatch_strategy_def d set selected_kind_def)
  next
    case (Some f)
    from scan_selected [OF Some] Some show ?thesis
      using True assms(2)
      by (cases f) (simp_all add: dispatch_strategy_def d set selected_kind_def executable_def split: option.splits)
  qed
qed

lemma child_follows:
  "child_config parent di remaining = Some config \<Longrightarrow>
     follows_suggestions (child_row env parent di n config) = follows_suggestions parent"
  using child_config_get(2) [of parent di remaining config "''auto_followup_strategy''"]
  by (simp add: follows_suggestions_def obj_get_def key_names [symmetric])

lemma child_visits:
  assumes "child_config parent di remaining = Some config" "follows_suggestions parent"
    and "visits parent ts" "distinct ts"
  shows "visits (child_row env parent di n config)
    (if di_template_id di \<in> set ts then ts else ts @ [di_template_id di])"
proof -
  have it: "iterate (parent_visited parent) = Some (map PStr ts)" using assms(3) by (simp add: visits_def)
  have "map_of config visited_key = Some (PList (unique_keys (map PStr (ts @ [di_template_id di]))))"
    using child_config_cases [OF assms(1)] assms(2) it by auto
  then show ?thesis
    by (simp only: unique_keys_strs ordered_unique_snoc [OF assms(4)])
      (simp add: visits_def parent_visited_def obj_get_default_def)
qed

section \<open>Interleavings\<close>

text \<open>
  Runs of the worker, each finished before the next begins, and what may happen between two of them: a row keeps its id, parent and template and
  its configuration, except that a cancelled chain gets its depth set to zero. Trials and
  proposals change freely.
\<close>

definition evolves :: "study \<Rightarrow> study \<Rightarrow> bool" where
  "evolves r r' =
     (st_id r' = st_id r \<and> st_parent_study_id r' = st_parent_study_id r \<and>
      st_template_id r' = st_template_id r \<and>
      (st_config r' = st_config r \<or> st_config r' = dict_set depth_key (PInt 0) (st_config r)))"

inductive chain_step :: "db \<Rightarrow> db \<Rightarrow> bool" where
  chain_worker: "enqueue_followup_study env pid d = (out, evs, e) \<Longrightarrow> chain_step d e"
| chain_evolve: "list_all2 evolves (db_studies d) (db_studies e) \<Longrightarrow> chain_step d e"

inductive_cases chain_stepE: "chain_step d e"

lemma stop_rows_step: "chain_step d (stop_rows clock S d)"
  by (rule chain_evolve)
    (auto simp: stop_rows_def list_all2_map2 evolves_def stop_row_def list_all2_same)

text \<open>A step adds a child at the end or changes rows in place.\<close>

lemma chain_step_cases:
  assumes "chain_step d e"
  obtains (child) env pid c evs where "enqueue_followup_study env pid d = (ChildCreated c, evs, e)"
    | (rows) "list_all2 evolves (db_studies d) (db_studies e)"
proof (cases rule: chain_stepE [OF assms])
  case (1 env pid out evs)
  show ?thesis
  proof (cases "\<exists>c. out = ChildCreated c")
    case True
    then show ?thesis using 1 by (auto intro: child)
  next
    case False
    then have "e = d" using not_created [OF 1] by blast
    then show ?thesis by (intro rows) (simp add: list_all2_same evolves_def)
  qed
next
  case 2
  then show ?thesis by (rule rows)
qed

section \<open>Depth\<close>

text \<open>A depth as the API admits and the worker writes it: absent, null or a natural number.\<close>

definition depth_nat :: "study \<Rightarrow> bool" where
  "depth_nat r = (case obj_get (st_config r) depth_key of PNone \<Rightarrow> True | PInt n \<Rightarrow> 0 \<le> n | _ \<Rightarrow> False)"

lemma depth_nat_ok: "depth_nat r \<Longrightarrow> depth_ok r"
  by (cases "obj_get (st_config r) depth_key") (auto simp: depth_nat_def depth_ok_def)

definition links_left :: "study \<Rightarrow> nat" where
  "links_left r = (case obj_get (st_config r) depth_key of PInt n \<Rightarrow> nat n | _ \<Rightarrow> 0)"

definition leaf :: "db \<Rightarrow> study \<Rightarrow> bool" where
  "leaf d r = (list_children_of_study d (st_id r) = [])"

text \<open>How many studies the worker may still create: the depths of the studies without a child.\<close>

definition potential :: "db \<Rightarrow> nat" where
  "potential d = sum_list (map links_left (filter (leaf d) (db_studies d)))"

lemma leaf_iff: "leaf d r \<longleftrightarrow> Some (st_id r) \<notin> st_parent_study_id ` set (db_studies d)"
proof -
  have "set (list_children_of_study d (st_id r)) = {q \<in> set (db_studies d). st_parent_study_id q = Some (st_id r)}"
    by (auto simp: list_children_of_study_def)
  moreover have "leaf d r \<longleftrightarrow> set (list_children_of_study d (st_id r)) = {}" by (simp add: leaf_def)
  ultimately show ?thesis by (auto simp: image_iff)
qed

lemma child_depth:
  assumes "depth_nat parent" "\<not> depth_exhausted parent" "child_config parent di remaining = Some config"
    and "decrement (obj_get_default (st_config parent) depth_key (PInt 0)) = Some remaining"
  shows "links_left parent = Suc (links_left (child_row env parent di n config)) \<and>
    depth_nat (child_row env parent di n config)"
proof -
  obtain m where m: "obj_get (st_config parent) depth_key = PInt m" "0 < m"
    using assms(1,2)
    by (auto simp: depth_nat_def depth_exhausted_def depth_key_def Let_def split: pyval.splits)
  then have "obj_get_default (st_config parent) depth_key (PInt 0) = PInt m"
    by (auto simp: obj_get_def obj_get_default_def split: option.splits)
  then have "obj_get config depth_key = PInt (m - 1)"
    using assms(4) child_config_get(1) [OF assms(3)] by (auto simp: obj_get_def)
  then show ?thesis using m by (simp add: links_left_def depth_nat_def)
qed

lemma evolves_depth:
  "evolves r r' \<Longrightarrow> links_left r' \<le> links_left r \<and> (depth_nat r \<longrightarrow> depth_nat r')"
  by (auto simp: evolves_def links_left_def depth_nat_def)

lemma sum_filter_mono:
  "(\<And>x. P x \<Longrightarrow> Q x) \<Longrightarrow>
     sum_list (map f (filter P xs)) \<le> sum_list (map f (filter Q xs) :: nat list)"
  by (induction xs) (auto simp: trans_le_add2)

lemma sum_filter_drop:
  "p \<in> set xs \<Longrightarrow> Q p \<Longrightarrow> (\<And>x. P x \<Longrightarrow> Q x \<and> k x \<noteq> k p) \<Longrightarrow>
     sum_list (map f (filter P xs)) + f p \<le> sum_list (map f (filter Q xs) :: nat list)"
proof (induction xs)
  case (Cons x xs)
  show ?case
  proof (cases "x = p")
    case True
    then show ?thesis using Cons.prems(2,3) sum_filter_mono [of P Q f xs] by auto
  next
    case False
    then have "sum_list (map f (filter P xs)) + f p \<le> sum_list (map f (filter Q xs))"
      using Cons by simp
    moreover have "P x \<Longrightarrow> Q x" using Cons.prems(3) by blast
    ultimately show ?thesis by auto
  qed
qed simp

lemma list_all2_sum_mono:
  "list_all2 R xs ys \<Longrightarrow> (\<And>x y. R x y \<Longrightarrow> f y \<le> (f x :: nat) \<and> P x = Q y) \<Longrightarrow>
     sum_list (map f (filter Q ys)) \<le> sum_list (map f (filter P xs))"
  by (induction xs ys rule: list_all2_induct) (auto simp: add_mono)

lemma list_all2_in:
  "list_all2 R xs ys \<Longrightarrow> y \<in> set ys \<Longrightarrow> \<exists>x\<in>set xs. R x y"
  by (induction xs ys rule: list_all2_induct) auto

lemma evolves_frame:
  assumes "list_all2 evolves xs ys"
  shows "map st_id ys = map st_id xs" "map st_parent_study_id ys = map st_parent_study_id xs"
  using assms by (induction xs ys rule: list_all2_induct) (auto simp: evolves_def)

lemma chain_step_potential:
  assumes "chain_step d e" "\<forall>r\<in>set (db_studies d). depth_nat r"
  shows "length (db_studies e) + potential e \<le> length (db_studies d) + potential d \<and>
    (\<forall>r\<in>set (db_studies e). depth_nat r)"
  using assms(1)
proof (cases rule: chain_step_cases)
  case (child env pid c evs)
  from created_cases [OF child] obtain p space remaining config where
    p: "get_study d pid = Some p" "list_children_of_study d pid = []" "\<not> depth_exhausted p"
    "decrement (obj_get_default (st_config p) depth_key (PInt 0)) = Some remaining"
    "child_config p (dispatch_strategy env p space) remaining = Some config"
    "c = child_row env p (dispatch_strategy env p space) remaining config"
    "e = d\<lparr>db_studies := db_studies d @ [c]\<rparr>" by metis
  have pin: "p \<in> set (db_studies d)" "st_id p = pid" using get_study_id [OF p(1)] by auto
  have dep: "links_left p = Suc (links_left c)" "depth_nat c"
    using child_depth [OF _ p(3,5,4)] assms(2) pin(1) p(6) by auto
  have "leaf e r \<Longrightarrow> leaf d r \<and> st_id r \<noteq> st_id p" for r
    using p(7) p(6) by (auto simp: leaf_iff)
  then have "sum_list (map links_left (filter (leaf e) (db_studies d))) + links_left p \<le> potential d"
    unfolding potential_def
    by (intro sum_filter_drop [of _ _ _ _ st_id] pin(1)) (use p(2) pin(2) in \<open>auto simp: leaf_def\<close>)
  moreover have "potential e \<le> sum_list (map links_left (filter (leaf e) (db_studies d))) + links_left c"
    using p(7) by (simp add: potential_def)
  ultimately show ?thesis using assms(2) dep p(7) by auto
next
  case rows
  have "potential e \<le> potential d"
    unfolding potential_def
  proof (rule list_all2_sum_mono [OF rows])
    fix x y assume "evolves x y"
    moreover have "st_parent_study_id ` set (db_studies e) = st_parent_study_id ` set (db_studies d)"
      using evolves_frame(2) [OF rows] by (metis set_map)
    ultimately show "links_left y \<le> links_left x \<and> leaf d x = leaf e y"
      using evolves_depth by (auto simp: leaf_iff evolves_def)
  qed
  moreover have "\<forall>r\<in>set (db_studies e). depth_nat r"
    using list_all2_in [OF rows] evolves_depth assms(2) by blast
  ultimately show ?thesis using list_all2_lengthD [OF rows] by simp
qed

section \<open>Templates along a chain\<close>

definition swapped :: "study \<Rightarrow> bool" where
  "swapped r = (map_of (st_config r) kind_key = Some (PStr ''swap_template''))"

text \<open>The parent links are what the foreign key makes them.\<close>

definition links_ok :: "db \<Rightarrow> bool" where
  "links_ok d = (distinct (study_ids d) \<and>
     (\<forall>r\<in>set (db_studies d). \<forall>q. st_parent_study_id r = Some q \<longrightarrow> q \<in> set (study_ids d)))"

definition link :: "db \<Rightarrow> study \<Rightarrow> study \<Rightarrow> bool" where
  "link d p c = (p \<in> set (db_studies d) \<and> c \<in> set (db_studies d) \<and> st_parent_study_id c = Some (st_id p))"

text \<open>
  A study that follows suggestions has a list of visited templates without repetition that
  names its own, and below a parent it extends the parent's list, by a new template when it
  swapped.
\<close>

definition visits_own :: "study \<Rightarrow> bool" where
  "visits_own r = (follows_suggestions r \<longrightarrow>
     (\<exists>ts. visits r ts \<and> distinct ts \<and> st_template_id r \<in> set ts))"

definition visits_link :: "study \<Rightarrow> study \<Rightarrow> bool" where
  "visits_link p c = (follows_suggestions c \<longrightarrow> follows_suggestions p \<and>
     (\<exists>ts us. visits p ts \<and> visits c us \<and> set ts \<subseteq> set us \<and>
       (swapped c \<longrightarrow> st_template_id c \<notin> set ts)))"

definition guard_ok :: "db \<Rightarrow> bool" where
  "guard_ok d = (links_ok d \<and> (\<forall>r\<in>set (db_studies d). visits_own r) \<and>
     (\<forall>p c. link d p c \<longrightarrow> visits_link p c))"

lemma evolves_guard:
  assumes "evolves r r'"
  shows "follows_suggestions r' = follows_suggestions r" "visits r' = visits r" "swapped r' = swapped r"
    "st_template_id r' = st_template_id r" "st_id r' = st_id r" "st_parent_study_id r' = st_parent_study_id r"
  using assms
  by (auto simp: evolves_def follows_suggestions_def visits_def parent_visited_def swapped_def obj_get_default_def fun_eq_iff
      key_names [symmetric])

lemma evolves_visits:
  "evolves r r' \<Longrightarrow> visits_own r' = visits_own r"
  "evolves p p' \<Longrightarrow> evolves c c' \<Longrightarrow> visits_link p' c' = visits_link p c"
  by (simp_all add: visits_own_def visits_link_def evolves_guard)

lemma child_guard:
  assumes cfg: "child_config p di remaining = Some config" and c: "c = child_row env p di n config"
    and di: "di = dispatch_strategy env p space" and own: "visits_own p"
  shows "visits_own c" "visits_link p c"
proof -
  have fol: "follows_suggestions c = follows_suggestions p" using child_follows [OF cfg] c by simp
  have kind: "swapped c \<Longrightarrow> selected_kind di = ''swap_template''" if "follows_suggestions p"
    using child_config_get(3) [OF cfg] that c by (simp add: swapped_def)
  show "visits_own c" "visits_link p c"
  proof -
    { assume f: "follows_suggestions p"
      then obtain ts where ts: "visits p ts" "distinct ts" "st_template_id p \<in> set ts"
        using own by (auto simp: visits_own_def)
      let ?us = "if di_template_id di \<in> set ts then ts else ts @ [di_template_id di]"
      have us: "visits c ?us" using child_visits [OF cfg f ts(1,2)] c by simp
      have d: "distinct ?us" "st_template_id c \<in> set ?us" "set ts \<subseteq> set ?us" using ts(2) c by auto
      have "swapped c \<Longrightarrow> st_template_id c \<notin> set ts"
        using dispatch_template [OF ts(1) di] kind [OF f] c by simp
      with us d ts(1) have "\<exists>us. visits c us \<and> distinct us \<and> st_template_id c \<in> set us"
        "\<exists>ts us. visits p ts \<and> visits c us \<and> set ts \<subseteq> set us \<and> (swapped c \<longrightarrow> st_template_id c \<notin> set ts)"
        by blast+ }
    then show "visits_own c" "visits_link p c"
      by (simp_all add: visits_own_def visits_link_def fol)
  qed
qed

lemma chain_step_guard:
  assumes "chain_step d e" "guard_ok d"
  shows "guard_ok e"
  using assms(1)
proof (cases rule: chain_step_cases)
  case (child env pid c evs)
  from created_cases [OF child] obtain p space remaining config where
    p: "get_study d pid = Some p"
    "child_config p (dispatch_strategy env p space) remaining = Some config"
    "c = child_row env p (dispatch_strategy env p space) remaining config"
    "fe_uuid env \<notin> set (study_ids d)" "e = d\<lparr>db_studies := db_studies d @ [c]\<rparr>" by metis
  have pin: "p \<in> set (db_studies d)" "st_id p = pid" using get_study_id [OF p(1)] by auto
  have own: "visits_own p" using assms(2) pin(1) by (simp add: guard_ok_def)
  note cg = child_guard [OF p(2,3) refl own]
  have ids: "study_ids e = study_ids d @ [fe_uuid env]" using p(3,5) by (simp add: study_ids_def)
  have par: "st_parent_study_id c = Some pid" "st_id c = fe_uuid env" using p(3) pin(2) by simp_all
  have pid: "pid \<in> set (study_ids d)" using pin by (auto simp: study_ids_def)
  have "links_ok e"
    using assms(2) p(4,5) par pid unfolding guard_ok_def links_ok_def ids by auto
  moreover have "visits_link x y" if l: "link e x y" for x y
  proof (cases "y = c")
    case True
    then have "st_id x = pid" "x \<in> set (db_studies d) \<or> x = c" using l par p(5) by (auto simp: link_def)
    moreover have "x \<noteq> c" using \<open>st_id x = pid\<close> par(2) p(4) pid by auto
    ultimately have "x = p"
      using assms(2) p(1) get_study_in [of d x] by (auto simp: guard_ok_def links_ok_def)
    then show ?thesis using cg(2) True by simp
  next
    case False
    then have y: "y \<in> set (db_studies d)" "st_parent_study_id y = Some (st_id x)"
      using l p(5) by (auto simp: link_def)
    then have "st_id x \<in> set (study_ids d)" using assms(2) by (auto simp: guard_ok_def links_ok_def)
    then have "x \<noteq> c" using par(2) p(4) by auto
    then have "link d x y" using l y p(5) by (auto simp: link_def)
    then show ?thesis using assms(2) by (simp add: guard_ok_def)
  qed
  ultimately show ?thesis using assms(2) cg(1) p(5) by (auto simp: guard_ok_def)
next
  case rows
  have ids: "study_ids e = study_ids d" using evolves_frame(1) [OF rows] by (simp add: study_ids_def)
  have "links_ok e"
    using assms(2) unfolding guard_ok_def links_ok_def ids
    by (metis evolves_guard(6) list_all2_in [OF rows])
  moreover have "visits_own r" if "r \<in> set (db_studies e)" for r
    using list_all2_in [OF rows that] evolves_visits(1) assms(2) by (auto simp: guard_ok_def)
  moreover have "visits_link x y" if l: "link e x y" for x y
  proof -
    from l have xy: "x \<in> set (db_studies e)" "y \<in> set (db_studies e)" by (auto simp: link_def)
    from list_all2_in [OF rows xy(1)] obtain x' where x: "x' \<in> set (db_studies d)" "evolves x' x" by blast
    from list_all2_in [OF rows xy(2)] obtain y' where y: "y' \<in> set (db_studies d)" "evolves y' y" by blast
    have "link d x' y'" using l x y by (auto simp: link_def evolves_def)
    then show ?thesis using assms(2) evolves_visits(2) [OF x(2) y(2)] by (simp add: guard_ok_def)
  qed
  ultimately show ?thesis by (simp add: guard_ok_def)
qed

lemma run_guard: "chain_step\<^sup>*\<^sup>* d e \<Longrightarrow> guard_ok d \<Longrightarrow> guard_ok e"
  by (induction rule: rtranclp_induct) (auto intro: chain_step_guard)

lemma ancestors_visited:
  assumes "(link e)\<^sup>+\<^sup>+ a c" "guard_ok e" "follows_suggestions c"
  shows "follows_suggestions a \<and> (\<exists>ts us. visits a ts \<and> visits c us \<and> set ts \<subseteq> set us \<and>
    (swapped c \<longrightarrow> st_template_id c \<notin> set ts))"
  using assms(1,3)
proof (induction rule: tranclp_induct)
  case (base c)
  then show ?case using assms(2) by (auto simp: guard_ok_def visits_link_def)
next
  case (step b c)
  have "visits_link b c" using step.hyps(2) assms(2) by (simp add: guard_ok_def)
  then obtain ts us where b: "follows_suggestions b" "visits b ts" "visits c us" "set ts \<subseteq> set us"
    "swapped c \<longrightarrow> st_template_id c \<notin> set ts" using step.prems by (auto simp: visits_link_def)
  from step.IH [OF b(1)] obtain vs ws where a: "follows_suggestions a" "visits a vs" "visits b ws"
    "set vs \<subseteq> set ws" by blast
  then have "ws = ts" using visits_unique b(2) by blast
  then show ?case using a b by blast
qed

section \<open>Properties\<close>

text \<open>What a run of the job does. It creates a study only for a parent that exists, has no child
  yet, is neither failed nor cancelled, has depth left and passes the budget; then it appends
  exactly one queued row with a fresh id below that parent, which inherits cluster, target,
  query set, judgments and objective, has the parent's configuration with the depth one lower
  and the worker's own keys rewritten, and the space as dumped. Otherwise nothing is written.\<close>

theorem followup_child:
  assumes "enqueue_followup_study env pid d = (out, evs, e)"
  shows "(case out of
      ChildCreated c \<Rightarrow>
        (\<exists>parent. get_study d pid = Some parent \<and> list_children_of_study d pid = [] \<and>
          st_status parent \<notin> {Failed, Cancelled} \<and> \<not> depth_exhausted parent \<and> \<not> budget_skip env \<and>
          e = d\<lparr>db_studies := db_studies d @ [c]\<rparr> \<and> st_id c \<notin> set (study_ids d) \<and>
          st_status c = Queued \<and> st_parent_study_id c = Some pid \<and>
          (st_cluster_id c, st_target c, st_query_set_id c, st_judgment_list_id c, st_objective c) =
            (st_cluster_id parent, st_target parent, st_query_set_id parent, st_judgment_list_id parent,
             st_objective parent) \<and>
          map_of (st_config c) depth_key = decrement (obj_get_default (st_config parent) depth_key (PInt 0)) \<and>
          (\<forall>k. k \<notin> {depth_key, kind_key, visited_key} \<longrightarrow> map_of (st_config c) k = map_of (st_config parent) k) \<and>
          (follows_suggestions parent \<longleftrightarrow> map_of (st_config c) kind_key \<noteq> None) \<and>
          (\<not> follows_suggestions parent \<longrightarrow> st_template_id c = st_template_id parent))
    | _ \<Rightarrow> e = d)"
proof (cases "\<exists>c. out = ChildCreated c")
  case True
  then obtain c where c: "out = ChildCreated c" by blast
  note created = assms [unfolded c]
  from created_cases [OF created] obtain p space remaining config where p:
    "get_study d pid = Some p" "list_children_of_study d pid = []"
    "st_status p \<noteq> Failed" "st_status p \<noteq> Cancelled" "\<not> depth_exhausted p" "\<not> budget_skip env"
    "decrement (obj_get_default (st_config p) depth_key (PInt 0)) = Some remaining"
    "child_config p (dispatch_strategy env p space) remaining = Some config"
    "c = child_row env p (dispatch_strategy env p space) remaining config"
    "fe_uuid env \<notin> set (study_ids d)" "e = d\<lparr>db_studies := db_studies d @ [c]\<rparr>" by metis
  have "st_id p = pid" using get_study_id [OF p(1)] by simp
  moreover have "\<not> follows_suggestions p \<Longrightarrow> st_template_id c = st_template_id p"
    using p(9) by (simp add: dispatch_strategy_def)
  moreover have "st_status c = Queued" "st_config c = config" "st_id c = fe_uuid env"
    "st_parent_study_id c = Some (st_id p)" using p(9) by simp_all
  ultimately show ?thesis
    using p(1-6,10,11) p(7) child_config_get [OF p(8)] c
    by (simp add: p(9) [symmetric]) (simp add: p(9))
next
  case False
  then show ?thesis using not_created [OF assms] by (cases out) auto
qed


text \<open>C11 A chain that follows suggestions never comes back to a template: in every interleaving, a
  study that swapped its template has one that no study above it in the chain has.\<close>

theorem swaps_never_revisit:
  assumes "chain_step\<^sup>*\<^sup>* d e" and "guard_ok d" and "(link e)\<^sup>+\<^sup>+ a c"
    and "follows_suggestions c" and "swapped c"
  shows "st_template_id c \<noteq> st_template_id a"
proof -
  have g: "guard_ok e" using assms(1,2) by (rule run_guard)
  from ancestors_visited [OF assms(3) g assms(4)] obtain ts where
    a: "follows_suggestions a" "visits a ts" "st_template_id c \<notin> set ts" using assms(5) by blast
  have "a \<in> set (db_studies e)" using assms(3) by (induction rule: tranclp_induct) (auto simp: link_def)
  then obtain vs where v: "visits a vs" "st_template_id a \<in> set vs"
    using g a(1) by (auto simp: guard_ok_def visits_own_def)
  then show ?thesis using visits_unique [OF a(2) v(1)] a(3) by auto
qed


section \<open>A concrete run\<close>

definition sample_space_x :: search_space where
  "sample_space_x = [(''x'', IntParam 0 3)]"

definition sample_env :: followup_env where
  "sample_env = \<lparr>fe_budget = Fin 0, fe_model = ''m'', fe_redis = (\<lambda>_. None),
     fe_templates = (\<lambda>t. if t = ''tpl'' \<or> t = ''other'' then Some [(''x'', ''int'')] else None),
     fe_digests = (\<lambda>_. Some (PList [PStr ''text'', PDict []])),
     fe_validate = (\<lambda>_. Inr (SwapTemplateFollowup ''why'' ''other'' sample_space_x)),
     fe_repr = (\<lambda>_. []), fe_float_str = (\<lambda>_. []), fe_uuid = ''u'', fe_now = 7, fe_arq_accepts = True\<rparr>"

definition sample_link :: study where
  "sample_link = (sample_study ''p'' None Completed)
     \<lparr>st_config := [(depth_key, PInt 1), (''auto_followup_strategy'', PStr ''follow_suggestions'')],
      st_best_metric := Some (Fin (3 / 4)), st_baseline_metric := Some (Fin (1 / 2)),
      st_best_trial_id := Some ''t''\<rparr>"

definition sample_chain_start :: db where
  "sample_chain_start = \<lparr>db_studies = [sample_link],
     db_trials = [sample_trial ''t'' ''p'' 0 Complete (Some (Fin (3 / 4)))], db_proposals = []\<rparr>"

definition sample_followup :: study where
  "sample_followup = (sample_study ''u'' (Some ''p'') Queued)
     \<lparr>st_name := ''p (chain depth 0)'', st_template_id := ''other'',
      st_search_space := dump_space sample_space_x,
      st_config := [(depth_key, PInt 0), (''auto_followup_strategy'', PStr ''follow_suggestions''),
        (visited_key, PList [PStr ''tpl'', PStr ''other'']), (kind_key, PStr ''swap_template'')],
      st_created_at := 7\<rparr>"

lemma sample_starter:
  "build_starter_search_space [(''x'', ''int'')] = Inr \<lparr>sp_space = [(''x'', IntParam 0 5)], sp_fallback_names = []\<rparr>"
  by (simp add: build_starter_search_space_def starter_spec_def normalizer_key_def match_heuristic_rule_def
      HEURISTIC_RULES_def dollar_def newline_def starts_with_def dot_star_suffix_def simple_form_spec_def
      estimate_cardinality_from_dict_def dict_values_def make_search_space_def check_int_bounds_def
      check_cardinality_def estimate_cardinality_def)

lemma sample_gate_passes:
  "cg_decision (evaluate_chain_gate sample_link ts AUTO_FOLLOWUP_LIFT_EPSILON Maximize) = ENQUEUE"
  by (simp add: evaluate_chain_gate_def sample_link_def sample_study_def depth_exhausted_def depth_key_def
      obj_get_def direction_normalized_lift_def epsilon_value fsub_def)

definition sample_child :: "string \<Rightarrow> study" where
  "sample_child u = sample_followup\<lparr>st_id := u, st_optuna_study_name := u\<rparr>"

lemma sample_build:
  assumes "u \<notin> set (study_ids d)"
  shows "build_child (sample_env\<lparr>fe_uuid := u\<rparr>) sample_link (sample_trial ''t'' ''p'' 0 Complete (Some (Fin (3 / 4)))) [(''x'', ''int'')] d =
     (ChildCreated (sample_child u), [ChildEnqueued u, StrategySelected ''swap_template''],
      d\<lparr>db_studies := db_studies d @ [sample_child u]\<rparr>)"
proof -
  let ?env = "sample_env\<lparr>fe_uuid := u\<rparr>"
  have "narrow_bounds_around_winner [(''x'', IntParam 0 5)]
      (tr_params (sample_trial ''t'' ''p'' 0 Complete (Some (Fin (3 / 4))))) (Fin (1 / 2)) = Inr ([(''x'', IntParam 0 5)], [])"
    by (simp add: narrow_bounds_around_winner_def sample_trial_def)
  moreover have "decrement (obj_get_default (st_config sample_link) depth_key (PInt 0)) = Some (PInt 0)"
    by (simp add: sample_link_def sample_study_def obj_get_default_def)
  moreover have strategy: "follows_suggestions sample_link"
    by (simp add: follows_suggestions_def sample_link_def sample_study_def obj_get_def depth_key_def)
  moreover have visited: "iterate (parent_visited sample_link) = Some [PStr ''tpl'']"
    by (simp add: parent_visited_def sample_link_def sample_study_def obj_get_default_def visited_key_def depth_key_def)
  moreover have "dispatch_strategy ?env sample_link space =
      \<lparr>di_selection = Some \<lparr>so_selected = Some (SwapTemplateFollowup ''why'' ''other'' sample_space_x),
         so_source_index = Some 1, so_candidate_count = 1, so_dropped_template_ids = []\<rparr>,
       di_swap_missing = False, di_template_id = ''other'', di_space = sample_space_x, di_events = []\<rparr>" for space
    by (simp add: dispatch_strategy_def strategy dispatch_suggestions_def visited sample_env_def
        parse_followup_list_def parse_item_def select_executable_followup_def Let_def)
  moreover have "st_config sample_link =
      [(depth_key, PInt 1), (''auto_followup_strategy'', PStr ''follow_suggestions'')]"
    by (simp add: sample_link_def)
  moreover have "fe_arq_accepts ?env" by (simp add: sample_env_def)
  moreover have "child_row ?env sample_link
        \<lparr>di_selection = sel, di_swap_missing = False, di_template_id = ''other'', di_space = sample_space_x,
          di_events = []\<rparr> (PInt 0)
        [(depth_key, PInt 0), (''auto_followup_strategy'', PStr ''follow_suggestions''),
         (visited_key, PList [PStr ''tpl'', PStr ''other'']), (kind_key, PStr ''swap_template'')] = sample_child u" for sel
    by (simp add: child_row_def sample_child_def sample_followup_def sample_study_def sample_link_def sample_env_def int_str_def
      char_of_def bit_0)
  moreover have "st_id (sample_child u) = u" by (simp add: sample_child_def)
  ultimately show ?thesis using assms
    by (simp add: build_child_def sample_starter
        child_config_def selected_kind_def success_events_def same_key_def create_study_def Let_def
        dict_pop_def key_names [symmetric])
qed

lemma sample_run:
  "enqueue_followup_study sample_env ''p'' sample_chain_start =
     (ChildCreated sample_followup, [ChildEnqueued ''u'', StrategySelected ''swap_template''],
      sample_chain_start\<lparr>db_studies := [sample_link, sample_followup]\<rparr>)"
proof -
  have g: "get_study sample_chain_start ''p'' = Some sample_link" "list_children_of_study sample_chain_start ''p'' = []"
    "get_trial sample_chain_start ''t'' = Some (sample_trial ''t'' ''p'' 0 Complete (Some (Fin (3 / 4))))"
    "st_best_trial_id sample_link = Some ''t''" "fe_templates sample_env (st_template_id sample_link) = Some [(''x'', ''int'')]"
    "db_studies sample_chain_start = [sample_link]" "''u'' \<notin> set (study_ids sample_chain_start)"
    by (simp_all add: sample_chain_start_def sample_link_def sample_study_def get_study_def
        list_children_of_study_def get_trial_def sample_trial_def sample_env_def study_ids_def)
  have "\<not> budget_skip sample_env" by (simp add: budget_skip_def sample_env_def)
  moreover have "sample_env\<lparr>fe_uuid := ''u''\<rparr> = sample_env" "sample_child ''u'' = sample_followup"
    by (simp_all add: sample_env_def sample_child_def sample_followup_def sample_study_def)
  ultimately show ?thesis using sample_build [OF g(7)] g
    by (simp add: enqueue_followup_study_def sample_gate_passes Let_def)
qed

text \<open>
  Two runs for one parent at a time: the second has read that the parent has no child before the first
  inserts one. Nothing it does after that looks again, and the parent gets two.
\<close>

lemma overlapping_runs:
  assumes "e = sample_chain_start\<lparr>db_studies := [sample_link, sample_followup]\<rparr>"
  shows "\<exists>evs evs2 c2 e2. enqueue_followup_study sample_env ''p'' sample_chain_start = (ChildCreated sample_followup, evs, e) \<and>
    build_child (sample_env\<lparr>fe_uuid := ''v''\<rparr>) sample_link (sample_trial ''t'' ''p'' 0 Complete (Some (Fin (3 / 4)))) [(''x'', ''int'')] e =
      (ChildCreated c2, evs2, e2) \<and> length (list_children_of_study e2 ''p'') = 2"
proof -
  have "''v'' \<notin> set (study_ids e)" by (simp add: assms study_ids_def sample_link_def sample_followup_def sample_study_def)
  note second = sample_build [OF this]
  have "length (list_children_of_study (e\<lparr>db_studies := db_studies e @ [sample_child ''v'']\<rparr>) ''p'') = 2"
    by (simp add: list_children_of_study_def assms sample_child_def sample_link_def sample_followup_def sample_study_def)
  then show ?thesis using sample_run second assms by blast
qed

lemma sample_link_facts:
  "depth_nat sample_link" "depth_nat sample_followup" "follows_suggestions sample_followup" "swapped sample_followup"
  by (simp_all add: depth_nat_def sample_link_def sample_followup_def obj_get_def sample_study_def
      follows_suggestions_def swapped_def depth_key_def visited_key_def kind_key_def)

lemma sample_guard: "guard_ok sample_chain_start"
proof -
  have "visits_own sample_link"
    by (auto simp: visits_own_def visits_def parent_visited_def sample_link_def sample_study_def
        obj_get_default_def visited_key_def depth_key_def intro!: exI [of _ "[''tpl'']"])
  then show ?thesis
    by (simp add: guard_ok_def links_ok_def link_def study_ids_def sample_chain_start_def)
      (simp add: sample_link_def sample_study_def)
qed

lemma sample_step:
  "chain_step sample_chain_start (sample_chain_start\<lparr>db_studies := [sample_link, sample_followup]\<rparr>)"
  using sample_run by (rule chain_worker)

lemma followup_child_witness:
  "\<exists>parent. get_study sample_chain_start ''p'' = Some parent \<and> \<not> depth_exhausted parent \<and>
     map_of (st_config sample_followup) depth_key = decrement (obj_get_default (st_config parent) depth_key (PInt 0))"
  using followup_child [OF sample_run] by auto


lemma swaps_never_revisit_witness: "st_template_id sample_followup \<noteq> st_template_id sample_link"
proof (rule swaps_never_revisit [OF r_into_rtranclp [of chain_step, OF sample_step] sample_guard])
  show "(link (sample_chain_start\<lparr>db_studies := [sample_link, sample_followup]\<rparr>))\<^sup>+\<^sup>+ sample_link sample_followup"
    by (rule tranclp.r_into_trancl) (simp add: link_def sample_followup_def sample_link_def sample_study_def)
qed (rule sample_link_facts)+


end
