(* ===== verification/Scoring.thy ===== *)
theory Scoring
  imports Values
begin

text \<open>
  Scoring a run against judgments (\<open>backend/app/eval/scoring.py\<close>, \<open>qrels_loader.py\<close>): the
  names of metrics and the measures they stand for, the objective's key, the filter of queries
  and the mean over them. \<open>ir_measures.iter_calc\<close> is the parameter \<open>iter_calc\<close>: the values it
  yields for the measures asked for, a query each. A set of metric names is a list without
  repetition, in the order Python happens to iterate it.
\<close>

section \<open>Metric names\<close>

datatype measure = RR | AP | NDCG_at int | AP_at int | P_at int | R_at int

datatype score_error =
    NeedsCut string
  | UnknownBase string
  | NoCutAllowed string
  | CutNotInteger string
  | CutNotAllowed int
  | ObjectiveNotString
  | UnknownObjective string
  | ObjectiveCut string
  | UnexpectedMeasure measure
  | MeasureFailure

definition SUPPORTED_METRICS :: "string set" where
  "SUPPORTED_METRICS = {''ndcg'', ''map'', ''precision'', ''recall'', ''mrr''}"

definition SUPPORTED_K_VALUES :: "int set" where
  "SUPPORTED_K_VALUES = {1, 3, 5, 10, 20, 50, 100}"

definition K_REQUIRED :: "string set" where
  "K_REQUIRED = {''ndcg'', ''precision'', ''recall''}"

definition K_NEVER :: "string set" where
  "K_NEVER = {''mrr''}"

text \<open>\<open>s.partition("@")\<close>, the parts before and after the first \<open>@\<close>, if there is one.\<close>

definition partition_at :: "string \<Rightarrow> (string \<times> string) option" where
  "partition_at s = (case dropWhile (\<lambda>c. c \<noteq> CHR ''@'') s of
       [] \<Rightarrow> None | _ # rest \<Rightarrow> Some (takeWhile (\<lambda>c. c \<noteq> CHR ''@'') s, rest))"

definition translate_metric_name :: "string \<Rightarrow> score_error + measure" where
  "translate_metric_name user_facing =
     (if user_facing = ''mrr'' then Inr RR
      else if user_facing = ''map'' then Inr AP
      else (case partition_at user_facing of
          None \<Rightarrow> Inl (NeedsCut user_facing)
        | Some (base, k_str) \<Rightarrow>
            (if base \<notin> SUPPORTED_METRICS then Inl (UnknownBase base)
             else if base \<in> K_NEVER then Inl (NoCutAllowed base)
             else (case py_int k_str of
                 None \<Rightarrow> Inl (CutNotInteger k_str)
               | Some k \<Rightarrow>
                   (if k \<notin> SUPPORTED_K_VALUES then Inl (CutNotAllowed k)
                    else if base = ''ndcg'' then Inr (NDCG_at k)
                    else if base = ''map'' then Inr (AP_at k)
                    else if base = ''precision'' then Inr (P_at k)
                    else Inr (R_at k))))))"

text \<open>
  A JSON integer or boolean \<open>k\<close> as the f-string writes it; \<open>k in SUPPORTED_K_VALUES\<close> compares
  by value, so \<open>True\<close> counts as 1.
\<close>

fun cut_str :: "pyval \<Rightarrow> string" where
  "cut_str (PInt n) = int_str n"
| "cut_str (PBool b) = (if b then ''True'' else ''False'')"
| "cut_str _ = []"

definition cut_allowed :: "pyval \<Rightarrow> bool" where
  "cut_allowed k = (case int_of k of None \<Rightarrow> False | Some n \<Rightarrow> n \<in> SUPPORTED_K_VALUES)"

definition objective_metric_key :: "obj \<Rightarrow> score_error + string" where
  "objective_metric_key objective =
     (case obj_get objective ''metric'' of
        PStr metric \<Rightarrow>
          (if metric \<notin> SUPPORTED_METRICS then Inl (UnknownObjective metric)
           else (let k = obj_get objective ''k'' in
             if metric \<in> K_NEVER then Inr metric
             else if metric = ''map'' then
               (if k = PNone then Inr ''map''
                else if \<not> cut_allowed k then Inl (ObjectiveCut metric)
                else Inr (''map@'' @ cut_str k))
             else if \<not> cut_allowed k then Inl (ObjectiveCut metric)
             else Inr (metric @ ''@'' @ cut_str k)))
      | _ \<Rightarrow> Inl ObjectiveNotString)"

section \<open>Loading judgments\<close>

type_synonym qrels = "(string, (string, int) pydict) pydict"
type_synonym run = "(string, (string, pyfloat) pydict) pydict"

record judgment_row =
  jd_judgment_list_id :: string
  jd_query_id :: string
  jd_doc_id :: string
  jd_rating :: int

text \<open>\<open>d.setdefault(k, {})[k'] = v\<close>.\<close>

definition set_nested :: "'a \<Rightarrow> 'b \<Rightarrow> 'v \<Rightarrow> ('a, ('b, 'v) pydict) pydict \<Rightarrow> ('a, ('b, 'v) pydict) pydict" where
  "set_nested k k' v d =
     dict_set k (dict_set k' v (case map_of d k of None \<Rightarrow> [] | Some inner \<Rightarrow> inner)) d"

definition load_qrels :: "judgment_row list \<Rightarrow> string \<Rightarrow> qrels" where
  "load_qrels judgments judgment_list_id =
     fold (\<lambda>j. set_nested (jd_query_id j) (jd_doc_id j) (jd_rating j))
       (filter (\<lambda>j. jd_judgment_list_id j = judgment_list_id) judgments) []"

section \<open>Scoring\<close>

text \<open>
  \<open>sum\<close> of floats, which CPython compensates: a running sum with the lost low part, added at
  the end when it is finite and not zero.
\<close>

fun cs_add :: "pyfloat \<Rightarrow> pyfloat \<times> pyfloat \<Rightarrow> pyfloat \<times> pyfloat" where
  "cs_add x (hi, lo) =
     (let t = fadd hi x
      in (t, fadd lo (if fle (fabs x) (fabs hi) then fadd (fsub hi t) x else fadd (fsub x t) hi)))"

fun is_finite :: "pyfloat \<Rightarrow> bool" where
  "is_finite (Fin _) = True"
| "is_finite _ = False"

definition float_sum :: "pyfloat list \<Rightarrow> pyfloat" where
  "float_sum xs = (case xs of
       [] \<Rightarrow> Fin 0
     | x # ys \<Rightarrow> (let (hi, lo) = fold cs_add ys (x, Fin 0)
                  in if is_finite lo \<and> lo \<noteq> Fin 0 then fadd hi lo else hi))"

definition float_mean :: "pyfloat list \<Rightarrow> pyfloat" where
  "float_mean xs = the (fdiv (float_sum xs) (Fin (of_nat (length xs))))"

record score_result =
  sr_aggregate :: "(string, pyfloat) pydict"
  sr_per_query :: "(string, (string, pyfloat) pydict) pydict"

definition valid_qids :: "qrels \<Rightarrow> run \<Rightarrow> string set" where
  "valid_qids qrels run =
     {q \<in> set (dict_keys qrels) \<inter> set (dict_keys run). map_of qrels q \<noteq> Some []}"

fun translate_all :: "string list \<Rightarrow> score_error + (string, measure) pydict" where
  "translate_all [] = Inr []"
| "translate_all (m # ms) =
     (case translate_metric_name m of
        Inl e \<Rightarrow> Inl e
      | Inr x \<Rightarrow> (case translate_all ms of Inl e \<Rightarrow> Inl e | Inr rest \<Rightarrow> Inr ((m, x) # rest)))"

fun collect ::
  "(measure, string) pydict \<Rightarrow> string set \<Rightarrow> (string \<times> measure \<times> pyfloat) list
   \<Rightarrow> (string, (string, pyfloat) pydict) pydict \<Rightarrow> score_error + (string, (string, pyfloat) pydict) pydict" where
  "collect obj_to_user valid [] per_query = Inr per_query"
| "collect obj_to_user valid ((q, m, v) # rest) per_query =
     (if q \<notin> valid then collect obj_to_user valid rest per_query
      else (case map_of obj_to_user m of
          None \<Rightarrow> Inl (UnexpectedMeasure m)
        | Some user_token \<Rightarrow> collect obj_to_user valid rest (set_nested q user_token v per_query)))"

definition aggregate_metrics ::
  "string list \<Rightarrow> (string, (string, pyfloat) pydict) pydict \<Rightarrow> (string, pyfloat) pydict" where
  "aggregate_metrics users per_query =
     concat (map (\<lambda>user. let vs = List.map_filter (\<lambda>q. map_of q user) (dict_values per_query)
        in if vs = [] then [] else [(user, float_mean vs)]) users)"

definition score ::
  "(measure list \<Rightarrow> qrels \<Rightarrow> run \<Rightarrow> (string \<times> measure \<times> pyfloat) list option) \<Rightarrow> qrels \<Rightarrow> run \<Rightarrow> string list
   \<Rightarrow> score_error + score_result" where
  "score iter_calc qrels run metrics =
     (if metrics = [] then Inr \<lparr>sr_aggregate = [], sr_per_query = []\<rparr>
      else (case translate_all metrics of
          Inl e \<Rightarrow> Inl e
        | Inr user_to_obj \<Rightarrow>
            (let obj_to_user = fold (\<lambda>(user, ob). dict_set ob user) user_to_obj []
             in case iter_calc (dict_values user_to_obj) qrels run of
                  None \<Rightarrow> Inl MeasureFailure
                | Some results \<Rightarrow>
                    (case collect obj_to_user (valid_qids qrels run) results [] of
                       Inl e \<Rightarrow> Inl e
                     | Inr per_query \<Rightarrow>
                         Inr \<lparr>sr_aggregate = aggregate_metrics metrics per_query,
                              sr_per_query = per_query\<rparr>))))"

section \<open>Lemmas\<close>

text \<open>The measure an objective means.\<close>

definition objective_measure :: "obj \<Rightarrow> measure" where
  "objective_measure objective =
     (let metric = obj_get objective ''metric''; k = obj_get objective ''k''
      in if metric = PStr ''mrr'' then RR
         else if metric = PStr ''map'' then (if k = PNone then AP else AP_at (the (int_of k)))
         else if metric = PStr ''ndcg'' then NDCG_at (the (int_of k))
         else if metric = PStr ''precision'' then P_at (the (int_of k))
         else R_at (the (int_of k)))"

lemma cut_texts:
  assumes "k \<in> SUPPORTED_K_VALUES"
  shows "translate_metric_name (''ndcg@'' @ int_str k) = Inr (NDCG_at k)"
    "translate_metric_name (''map@'' @ int_str k) = Inr (AP_at k)"
    "translate_metric_name (''precision@'' @ int_str k) = Inr (P_at k)"
    "translate_metric_name (''recall@'' @ int_str k) = Inr (R_at k)"
proof -
  have "\<forall>k\<in>SUPPORTED_K_VALUES.
      translate_metric_name (''ndcg@'' @ int_str k) = Inr (NDCG_at k) \<and>
      translate_metric_name (''map@'' @ int_str k) = Inr (AP_at k) \<and>
      translate_metric_name (''precision@'' @ int_str k) = Inr (P_at k) \<and>
      translate_metric_name (''recall@'' @ int_str k) = Inr (R_at k)"
    by code_simp
  with assms show "translate_metric_name (''ndcg@'' @ int_str k) = Inr (NDCG_at k)"
    "translate_metric_name (''map@'' @ int_str k) = Inr (AP_at k)"
    "translate_metric_name (''precision@'' @ int_str k) = Inr (P_at k)"
    "translate_metric_name (''recall@'' @ int_str k) = Inr (R_at k)" by blast+
qed

lemma cut_allowed_int: "cut_allowed k \<Longrightarrow> \<not> is_bool k \<Longrightarrow> \<exists>n\<in>SUPPORTED_K_VALUES. k = PInt n"
  by (cases k) (auto simp: cut_allowed_def)

lemma collect_keys:
  "collect otu valid results pq = Inr r \<Longrightarrow> fst ` set pq \<subseteq> valid \<Longrightarrow> fst ` set r \<subseteq> valid"
proof (induction otu valid results pq rule: collect.induct)
  case (2 otu valid q m v rest pq)
  then show ?case
    by (cases "q \<in> valid"; cases "map_of otu m") (auto simp: set_nested_def)
qed simp

lemma aggregate_lookup:
  assumes "distinct users"
  shows "map_of (aggregate_metrics users pq) user =
    (let vs = List.map_filter (\<lambda>q. map_of q user) (dict_values pq)
     in if user \<in> set users \<and> vs \<noteq> [] then Some (float_mean vs) else None)"
  using assms
  by (induction users) (auto simp: aggregate_metrics_def Let_def)

lemma collect_token_from:
  "collect otu valid results pq = Inr r \<Longrightarrow> map_of r q = Some inner \<Longrightarrow> map_of inner t = Some v \<Longrightarrow>
     (\<exists>inner0. map_of pq q = Some inner0 \<and> map_of inner0 t = Some v) \<or>
     (\<exists>m. (q, m, v) \<in> set results \<and> q \<in> valid \<and> map_of otu m = Some t)"
proof (induction otu valid results pq arbitrary: inner rule: collect.induct)
  case (2 otu valid q' m v' rest pq)
  show ?case
  proof (cases "q' \<in> valid")
    case False
    then show ?thesis using 2 by auto
  next
    case True
    then obtain u where u: "map_of otu m = Some u" using 2(3) by (auto split: option.splits)
    have "collect otu valid rest (set_nested q' u v' pq) = Inr r" using 2(3) True u by simp
    from 2(2) [OF _ u this 2(4,5)] True u show ?thesis
      by (auto simp: set_nested_def split: if_splits option.splits)
  qed
qed auto

section \<open>Properties\<close>

text \<open>The key an objective stores its metric under is a name the scorer knows, and it stands for
  the measure the objective means - unless the cut-off is a boolean.\<close>

theorem objective_key_measured:
  assumes "objective_metric_key objective = Inr key" and "\<not> is_bool (obj_get objective ''k'')"
  shows "translate_metric_name key = Inr (objective_measure objective)"
proof -
  from assms(1) obtain metric where m: "obj_get objective ''metric'' = PStr metric" "metric \<in> SUPPORTED_METRICS"
    by (auto simp: objective_metric_key_def split: pyval.splits if_splits)
  let ?k = "obj_get objective ''k''"
  have plain: "translate_metric_name ''mrr'' = Inr RR" "translate_metric_name ''map'' = Inr AP"
    by (simp_all add: translate_metric_name_def)
  show ?thesis
  proof (cases "metric = ''mrr'' \<or> metric = ''map'' \<and> ?k = PNone")
    case True
    then show ?thesis using assms(1) m plain
      by (auto simp: objective_metric_key_def objective_measure_def K_NEVER_def)
  next
    case False
    then have "cut_allowed ?k" using assms(1) m
      by (auto simp: objective_metric_key_def K_NEVER_def Let_def split: if_splits)
    then obtain n where n: "n \<in> SUPPORTED_K_VALUES" "?k = PInt n" using cut_allowed_int assms(2) by blast
    then show ?thesis using assms(1) m False cut_texts [OF n(1)]
      by (auto simp: objective_metric_key_def objective_measure_def K_NEVER_def SUPPORTED_METRICS_def
          cut_allowed_def split: if_splits)
  qed
qed

lemma objective_key_measured_witness:
  "translate_metric_name ''ndcg@10'' = Inr (NDCG_at 10)"
proof -
  let ?o = "[(''metric'', PStr ''ndcg''), (''k'', PInt 10)]"
  have "objective_metric_key ?o = Inr ''ndcg@10''" by code_simp
  from objective_key_measured [OF this] show ?thesis by (simp add: obj_get_def objective_measure_def)
qed

text \<open>What scoring returns. Only queries that were run and have a judgment appear; a metric has an
  aggregate exactly when some of them has a value for it, and it is the mean of those values;
  every value comes from the measures. With no judged query there is no aggregate at all.\<close>

theorem score_result_shape:
  assumes "score iter_calc qrels run metrics = Inr r" and "distinct metrics"
  shows "fst ` set (sr_per_query r) \<subseteq> valid_qids qrels run \<and>
    (\<forall>user. map_of (sr_aggregate r) user =
       (let vs = List.map_filter (\<lambda>q. map_of q user) (dict_values (sr_per_query r))
        in if user \<in> set metrics \<and> vs \<noteq> [] then Some (float_mean vs) else None)) \<and>
    (valid_qids qrels run = {} \<longrightarrow> sr_aggregate r = [])"
proof (cases "metrics = []")
  case True
  then show ?thesis using assms by (auto simp: score_def)
next
  case False
  then obtain otu results where r: "collect otu (valid_qids qrels run) results [] = Inr (sr_per_query r)"
    "sr_aggregate r = aggregate_metrics metrics (sr_per_query r)"
    using assms(1) by (auto simp: score_def Let_def split: sum.splits option.splits)
  have keys: "fst ` set (sr_per_query r) \<subseteq> valid_qids qrels run" using collect_keys [OF r(1)] by simp
  then have "valid_qids qrels run = {} \<Longrightarrow> sr_aggregate r = []"
    by (auto simp: r(2) aggregate_metrics_def dict_values_def)
  with keys aggregate_lookup [OF assms(2)] show ?thesis by (simp add: r(2))
qed

lemma score_result_shape_witness:
  "map_of (sr_aggregate \<lparr>sr_aggregate = [(''mrr'', Fin 1)], sr_per_query = [(''q'', [(''mrr'', Fin 1)])]\<rparr>) ''map'' = None"
proof -
  have "translate_all [''mrr''] = Inr [(''mrr'', RR)]" by code_simp
  then have "score (\<lambda>_ _ _. Some [(''q'', RR, Fin 1)]) [(''q'', [(''d'', 1)])] [(''q'', [])] [''mrr''] =
      Inr \<lparr>sr_aggregate = [(''mrr'', Fin 1)], sr_per_query = [(''q'', [(''mrr'', Fin 1)])]\<rparr>"
    by (simp add: score_def dict_values_def valid_qids_def dict_keys_def set_nested_def aggregate_metrics_def
        float_mean_def float_sum_def List.map_filter_def)
  from score_result_shape [OF this] show ?thesis by (simp add: Let_def)
qed

text \<open>
  Two spellings of one measure: the later one takes its values and the earlier one gets no
  aggregate, although it may be the objective's key.
\<close>

lemma shadowed_metric:
  "score (\<lambda>_ _ _. Some [(''q'', NDCG_at 10, Fin 1)]) [(''q'', [(''d'', 1)])] [(''q'', [])] [''ndcg@10'', ''ndcg@010''] =
     Inr \<lparr>sr_aggregate = [(''ndcg@010'', Fin 1)], sr_per_query = [(''q'', [(''ndcg@010'', Fin 1)])]\<rparr>"
proof -
  have "translate_all [''ndcg@10'', ''ndcg@010''] = Inr [(''ndcg@10'', NDCG_at 10), (''ndcg@010'', NDCG_at 10)]"
    by code_simp
  then show ?thesis
    by (simp add: score_def dict_values_def valid_qids_def dict_keys_def set_nested_def aggregate_metrics_def
        float_mean_def float_sum_def List.map_filter_def)
qed

end
