(* ===== verification/Confidence.thy ===== *)
theory Confidence
  imports Scoring Trial_Repo
begin

text \<open>
  The confidence analytics of a study (\<open>backend/app/domain/study/confidence.py\<close>) and the service
  that fetches what they need (\<open>backend/app/services/study_confidence.py\<close>). The column
  \<open>per_query_metrics\<close> of the trials is an argument, given by the id of the trial. What numpy computes
  - the percentiles of the bootstrap with the fixed seed and the standard deviation - is a
  parameter, and so is the order in which Python lists the members of a set of strings.
\<close>

section \<open>Constants and shapes\<close>

definition BOOTSTRAP_MIN_N_QUERIES :: nat where "BOOTSTRAP_MIN_N_QUERIES = 5"

definition REGRESSOR_THRESHOLDS :: "(string, pyfloat) pydict" where
  "REGRESSOR_THRESHOLDS = [(''ndcg'', flit (1 / 100)), (''precision'', flit (1 / 100)), (''recall'', flit (1 / 100)),
     (''map'', flit (2 / 100)), (''mrr'', flit (2 / 100))]"

definition RUNNER_UP_PLATEAU_BAND :: pyfloat where "RUNNER_UP_PLATEAU_BAND = flit (5 / 1000)"
definition LATE_TRIAL_WINDOW_FRAC :: pyfloat where "LATE_TRIAL_WINDOW_FRAC = flit (2 / 10)"
definition LATE_TRIAL_WINDOW_MIN :: nat where "LATE_TRIAL_WINDOW_MIN = 5"
definition LATE_TRIAL_MIN_COMPLETE :: nat where "LATE_TRIAL_MIN_COMPLETE = 10"
definition EARLY_HELD_TRIAL_NUMBER_FRAC :: pyfloat where "EARLY_HELD_TRIAL_NUMBER_FRAC = flit (1 / 2)"
definition EARLY_HELD_LATE_WINDOW_FRAC :: pyfloat where "EARLY_HELD_LATE_WINDOW_FRAC = flit (1 / 4)"
definition LATE_RISING_TRIAL_NUMBER_FRAC :: pyfloat where "LATE_RISING_TRIAL_NUMBER_FRAC = flit (9 / 10)"
definition CONVERGENCE_MIN_COMPLETE :: nat where "CONVERGENCE_MIN_COMPLETE = 3"
definition RUNNER_UP_GAP_MIN_COMPLETE :: nat where "RUNNER_UP_GAP_MIN_COMPLETE = 2"
definition TOP_REGRESSORS_CAP :: nat where "TOP_REGRESSORS_CAP = 5"

datatype convergence_regime = EarlyHeld | LateRising | Noisy
datatype runner_up_classification = RobustPlateau | SharpPeak
datatype comparison_against = AgainstRunnerUp | AgainstBaseline

record headline_shape =
  hl_metric :: string
  hl_value :: pyfloat
  hl_k :: "int option"
  hl_n_queries :: "nat option"

record ci_shape =
  ci_low :: pyfloat
  ci_high :: pyfloat
  ci_n_samples :: nat

record runner_up_gap_shape =
  rg_value :: pyfloat
  rg_classification :: runner_up_classification
  rg_top10_within :: pyfloat
  rg_runner_up_metric :: pyfloat

record late_stddev_shape =
  ls_value :: pyfloat
  ls_window_size :: nat
  ls_min_window_required :: nat

record convergence_shape =
  cv_best_at_trial :: int
  cv_total_trials :: int
  cv_regime :: convergence_regime

record regressor_row =
  rr_query_id :: string
  rr_query_text :: string
  rr_winner_score :: pyfloat
  rr_comparison_score :: pyfloat
  rr_delta :: pyfloat

record per_query_outcomes =
  po_improved :: nat
  po_unchanged :: nat
  po_regressed :: nat
  po_comparison_against :: comparison_against
  po_top_regressors :: "regressor_row list"
  po_top_improvers :: "regressor_row list"

record confidence_shape =
  cf_headline :: headline_shape
  cf_ci_95 :: "ci_shape option"
  cf_runner_up_gap :: "runner_up_gap_shape option"
  cf_late_trial_stddev :: "late_stddev_shape option"
  cf_convergence :: "convergence_shape option"
  cf_per_query_outcomes :: "per_query_outcomes option"

type_synonym candidate = "string \<times> pyfloat \<times> pyfloat \<times> pyfloat"
type_synonym per_query = "(string, (string, pyfloat) pydict) pydict"

record outcome_summary =
  os_improved :: nat
  os_unchanged :: nat
  os_regressed :: nat
  os_regressor_candidates :: "candidate list"
  os_improver_candidates :: "candidate list"

section \<open>The helpers\<close>

definition bootstrap_ci_95 :: "(pyfloat list \<Rightarrow> pyfloat \<times> pyfloat) \<Rightarrow> pyfloat list \<Rightarrow> ci_shape option" where
  "bootstrap_ci_95 percentiles values =
     (if length values < BOOTSTRAP_MIN_N_QUERIES then None
      else (let (low, high) = percentiles values in Some \<lparr>ci_low = low, ci_high = high, ci_n_samples = length values\<rparr>))"

definition classify_runner_up_gap :: "pyfloat list \<Rightarrow> runner_up_gap_shape option" where
  "classify_runner_up_gap sorted_primary_metrics =
     (if length sorted_primary_metrics < RUNNER_UP_GAP_MIN_COMPLETE then None
      else (let winner = sorted_primary_metrics ! 0; runner_up = sorted_primary_metrics ! 1;
                top_band = take (min 10 (length sorted_primary_metrics)) sorted_primary_metrics;
                top10_within = the (fmax_list (map (\<lambda>m. fsub winner m) top_band))
            in Some \<lparr>rg_value = fsub winner runner_up,
                 rg_classification = (if fle top10_within RUNNER_UP_PLATEAU_BAND then RobustPlateau else SharpPeak),
                 rg_top10_within = top10_within, rg_runner_up_metric = runner_up\<rparr>))"

text \<open>\<open>int(x)\<close> of a nonnegative float.\<close>

definition trunc_nat :: "pyfloat \<Rightarrow> nat" where
  "trunc_nat x = (case x of Fin q \<Rightarrow> nat \<lfloor>q\<rfloor> | _ \<Rightarrow> 0)"

definition compute_late_trial_stddev :: "(pyfloat list \<Rightarrow> pyfloat) \<Rightarrow> pyfloat list \<Rightarrow> late_stddev_shape option" where
  "compute_late_trial_stddev std primary_metrics_in_trial_order =
     (let n = length primary_metrics_in_trial_order in
      if n < LATE_TRIAL_MIN_COMPLETE then None
      else (let window_size = max LATE_TRIAL_WINDOW_MIN (trunc_nat (fmul (Fin (of_nat n)) LATE_TRIAL_WINDOW_FRAC));
                tail = drop (n - window_size) primary_metrics_in_trial_order
            in Some \<lparr>ls_value = std tail, ls_window_size = window_size,
                 ls_min_window_required = LATE_TRIAL_MIN_COMPLETE\<rparr>))"

text \<open>An \<open>int\<close> against a \<open>float\<close> product; a product of an \<open>int\<close> and a \<open>float\<close> rounds.\<close>

definition part_of :: "pyfloat \<Rightarrow> int \<Rightarrow> pyfloat" where
  "part_of fraction n = fmul fraction (Fin (of_int n))"

definition classify_convergence_regime :: "int \<Rightarrow> (int, pyfloat) pydict \<Rightarrow> convergence_shape option" where
  "classify_convergence_regime winner_trial_number by_number =
     (if length by_number < CONVERGENCE_MIN_COMPLETE then None
      else (case map_of by_number winner_trial_number of
        None \<Rightarrow> None
      | Some winner_metric \<Rightarrow>
        (let max_trial_number = Max (set (dict_keys by_number));
             regime =
               (if fle (part_of LATE_RISING_TRIAL_NUMBER_FRAC max_trial_number) (Fin (of_int winner_trial_number)) then LateRising
                else if fle (Fin (of_int winner_trial_number)) (part_of EARLY_HELD_TRIAL_NUMBER_FRAC max_trial_number)
                then (let late_window_start = part_of (fsub (Fin 1) EARLY_HELD_LATE_WINDOW_FRAC) max_trial_number;
                          late_window_trials = map snd (filter (\<lambda>(tn, m). fle late_window_start (Fin (of_int tn))) by_number)
                      in if late_window_trials \<noteq> [] \<and>
                            list_ex (\<lambda>m. fle (fsub winner_metric m) RUNNER_UP_PLATEAU_BAND) late_window_trials
                         then EarlyHeld else Noisy)
                else Noisy)
         in Some \<lparr>cv_best_at_trial = winner_trial_number, cv_total_trials = max_trial_number + 1, cv_regime = regime\<rparr>)))"

section \<open>The outcomes per query\<close>

text \<open>\<open>metric.partition("@")[0]\<close>\<close>

definition metric_base :: "string \<Rightarrow> string" where
  "metric_base m = takeWhile (\<lambda>c. c \<noteq> CHR ''@'') m"

definition common_queries :: "per_query \<Rightarrow> per_query \<Rightarrow> string list" where
  "common_queries w c = filter (\<lambda>q. q \<in> set (dict_keys c)) (dict_keys w)"

text \<open>The queries that have the metric on both sides, with their scores.\<close>

definition compared :: "per_query \<Rightarrow> per_query \<Rightarrow> string \<Rightarrow> string list \<Rightarrow> candidate list" where
  "compared w c metric qids = List.map_filter (\<lambda>q.
     case (map_of (the (map_of w q)) metric, map_of (the (map_of c q)) metric) of
       (Some ws, Some cs) \<Rightarrow> Some (q, ws, cs, fsub ws cs) | _ \<Rightarrow> None) qids"

definition delta_of :: "candidate \<Rightarrow> pyfloat" where
  "delta_of row = snd (snd (snd row))"

definition compute_outcome_summary ::
  "(string list \<Rightarrow> string list) \<Rightarrow> per_query \<Rightarrow> per_query \<Rightarrow> string \<Rightarrow> outcome_summary option" where
  "compute_outcome_summary set_order winner_per_query comparison_per_query metric =
     (if winner_per_query = [] \<or> comparison_per_query = [] then None
      else (case map_of REGRESSOR_THRESHOLDS (metric_base metric) of
        None \<Rightarrow> None
      | Some threshold \<Rightarrow>
        (let rows = compared winner_per_query comparison_per_query metric
               (set_order (common_queries winner_per_query comparison_per_query));
             improvers = filter (\<lambda>row. flt threshold (delta_of row)) rows;
             regressors = filter (\<lambda>row. \<not> flt threshold (delta_of row) \<and> flt (delta_of row) (fneg threshold)) rows
         in Some \<lparr>os_improved = length improvers,
              os_unchanged = length rows - length improvers - length regressors,
              os_regressed = length regressors,
              os_regressor_candidates = take TOP_REGRESSORS_CAP (sort_key delta_of regressors),
              os_improver_candidates = take TOP_REGRESSORS_CAP (sort_key (\<lambda>row. fneg (delta_of row)) improvers)\<rparr>)))"

definition build_regressor_rows :: "candidate list \<Rightarrow> (string, string) pydict \<Rightarrow> regressor_row list" where
  "build_regressor_rows candidates query_text_by_id = List.map_filter (\<lambda>(qid, ws, cs, delta).
     map_option (\<lambda>t. \<lparr>rr_query_id = qid, rr_query_text = t, rr_winner_score = ws, rr_comparison_score = cs, rr_delta = delta\<rparr>)
       (map_of query_text_by_id qid)) candidates"

section \<open>The assembly\<close>

record numpy =
  np_percentiles :: "pyfloat list \<Rightarrow> pyfloat \<times> pyfloat"
  np_std :: "pyfloat list \<Rightarrow> pyfloat"
  np_set_order :: "string list \<Rightarrow> string list"

text \<open>A trial with its column \<open>per_query_metrics\<close>; a JSON \<open>null\<close> and an empty object are falsy.\<close>

type_synonym pq_trial = "trial \<times> per_query option"

definition per_query_of :: "pq_trial \<Rightarrow> per_query" where
  "per_query_of t = (case snd t of None \<Rightarrow> [] | Some pq \<Rightarrow> pq)"

text \<open>The baseline when it has per-query metrics, else the runner-up when it has.\<close>

definition comparison_trial :: "pq_trial option \<Rightarrow> pq_trial option \<Rightarrow> (per_query \<times> comparison_against) option" where
  "comparison_trial baseline_trial runner_up_trial =
     (case baseline_trial of
        Some b \<Rightarrow> (if per_query_of b \<noteq> [] then Some (per_query_of b, AgainstBaseline)
          else (case runner_up_trial of
              Some r \<Rightarrow> if per_query_of r \<noteq> [] then Some (per_query_of r, AgainstRunnerUp) else None | None \<Rightarrow> None))
      | None \<Rightarrow> (case runner_up_trial of
              Some r \<Rightarrow> if per_query_of r \<noteq> [] then Some (per_query_of r, AgainstRunnerUp) else None | None \<Rightarrow> None))"

definition outcomes_of ::
  "numpy \<Rightarrow> per_query \<Rightarrow> (per_query \<times> comparison_against) option \<Rightarrow> string \<Rightarrow> (string, string) pydict
   \<Rightarrow> per_query_outcomes option" where
  "outcomes_of np winner_per_query comparison key query_text_by_id =
     (case comparison of
        Some (cmp, against) \<Rightarrow>
          (if winner_per_query = [] then None
           else (case compute_outcome_summary (np_set_order np) winner_per_query cmp key of
               None \<Rightarrow> None
             | Some outcome \<Rightarrow> Some \<lparr>po_improved = os_improved outcome, po_unchanged = os_unchanged outcome,
                 po_regressed = os_regressed outcome, po_comparison_against = against,
                 po_top_regressors = build_regressor_rows (os_regressor_candidates outcome) query_text_by_id,
                 po_top_improvers = build_regressor_rows (os_improver_candidates outcome) query_text_by_id\<rparr>))
      | None \<Rightarrow> None)"

definition compute_study_confidence ::
  "numpy \<Rightarrow> obj \<Rightarrow> pyfloat option \<Rightarrow> pq_trial option \<Rightarrow> pq_trial option \<Rightarrow> (pyfloat \<times> int) list
   \<Rightarrow> (string, string) pydict \<Rightarrow> pq_trial option \<Rightarrow> confidence_shape option" where
  "compute_study_confidence np study_objective best_metric winner_trial runner_up_trial summary query_text_by_id baseline_trial =
     (case winner_trial of
        None \<Rightarrow> None
      | Some winner \<Rightarrow>
        (if summary = [] then None
         else (case (obj_get study_objective ''metric'', objective_metric_key study_objective) of
             (PStr metric, Inr key) \<Rightarrow>
               (let pq = per_query_of winner;
                    values = List.map_filter (\<lambda>v. map_of v key) (dict_values pq);
                    in_order = map fst summary
                in Some \<lparr>cf_headline = \<lparr>hl_metric = metric,
                       hl_value = (case best_metric of Some x \<Rightarrow> x
                         | None \<Rightarrow> (case tr_primary_metric (fst winner) of Some x \<Rightarrow> if feq x (Fin 0) then Fin 0 else x | None \<Rightarrow> Fin 0)),
                       hl_k = int_of (obj_get study_objective ''k''),
                       hl_n_queries = (if pq \<noteq> [] then Some (length values) else None)\<rparr>,
                     cf_ci_95 = bootstrap_ci_95 (np_percentiles np) values,
                     cf_runner_up_gap = classify_runner_up_gap (rev (sort in_order)),
                     cf_late_trial_stddev = compute_late_trial_stddev (np_std np) in_order,
                     cf_convergence = classify_convergence_regime (tr_number (fst winner))
                       (fold (\<lambda>(m, tn). dict_set tn m) summary []),
                     cf_per_query_outcomes = outcomes_of np pq (comparison_trial baseline_trial runner_up_trial) key query_text_by_id\<rparr>)
           | _ \<Rightarrow> None)))"

section \<open>The service\<close>

definition confidence_trials :: "db \<Rightarrow> string \<Rightarrow> trial list" where
  "confidence_trials d study_id =
     filter (\<lambda>t. tr_study_id t = study_id \<and> \<not> tr_is_baseline t \<and> tr_status t = Complete) (db_trials d)"

text \<open>\<open>ORDER BY primary_metric DESC NULLS LAST LIMIT 1\<close>; of equal ones, the first of the table.\<close>

definition runner_up_of :: "db \<Rightarrow> string \<Rightarrow> string \<Rightarrow> trial option" where
  "runner_up_of d study_id winner_id =
     (let others = filter (\<lambda>t. tr_id t \<noteq> winner_id) (confidence_trials d study_id);
          valued = filter (\<lambda>t. tr_primary_metric t \<noteq> None) others
      in case filter (\<lambda>t. \<forall>u\<in>set valued. the (tr_primary_metric u) \<le> the (tr_primary_metric t)) valued of
           t # _ \<Rightarrow> Some t
         | [] \<Rightarrow> (case others of t # _ \<Rightarrow> Some t | [] \<Rightarrow> None))"

definition complete_summary :: "db \<Rightarrow> string \<Rightarrow> (pyfloat \<times> int) list" where
  "complete_summary d study_id =
     List.map_filter (\<lambda>t. map_option (\<lambda>m. (m, tr_number t)) (tr_primary_metric t))
       (sort_key tr_number (confidence_trials d study_id))"

text \<open>\<open>SELECT id, query_text FROM queries WHERE id IN (...)\<close>\<close>

definition query_texts :: "(string \<times> string) list \<Rightarrow> string list \<Rightarrow> (string, string) pydict" where
  "query_texts queries qids = fold (\<lambda>(i, t). dict_set i t) (filter (\<lambda>(i, t). i \<in> set qids) queries) []"

definition candidate_ids :: "outcome_summary \<Rightarrow> string list" where
  "candidate_ids outcome = map fst (os_regressor_candidates outcome @ os_improver_candidates outcome)"

definition fetch_query_texts ::
  "numpy \<Rightarrow> (string \<times> string) list \<Rightarrow> obj \<Rightarrow> pq_trial \<Rightarrow> pq_trial option \<Rightarrow> pq_trial option \<Rightarrow> (string, string) pydict" where
  "fetch_query_texts np queries study_objective winner baseline runner_up =
     (case comparison_trial baseline runner_up of
        None \<Rightarrow> []
      | Some (cmp, _) \<Rightarrow>
        (if per_query_of winner = [] then []
         else (case objective_metric_key study_objective of
             Inl _ \<Rightarrow> []
           | Inr key \<Rightarrow> (case compute_outcome_summary (np_set_order np) (per_query_of winner) cmp key of
                 None \<Rightarrow> []
               | Some outcome \<Rightarrow>
                   (if os_regressor_candidates outcome = [] \<and> os_improver_candidates outcome = [] then []
                    else query_texts queries (candidate_ids outcome))))))"

definition fetch_study_confidence ::
  "numpy \<Rightarrow> (string \<Rightarrow> per_query option) \<Rightarrow> (string \<times> string) list \<Rightarrow> db \<Rightarrow> study \<Rightarrow> confidence_shape option" where
  "fetch_study_confidence np column queries d st =
     (case st_best_trial_id st of
        None \<Rightarrow> None
      | Some best_id \<Rightarrow>
        (case get_trial d best_id of
           None \<Rightarrow> None
         | Some w \<Rightarrow>
           (let with_pq = (\<lambda>t. (t, column (tr_id t))); winner = with_pq w;
                baseline = map_option with_pq (Option.bind (st_baseline_trial_id st) (get_trial d));
                runner_up = map_option with_pq (runner_up_of d (st_id st) (tr_id w))
            in compute_study_confidence np (st_objective st) (st_best_metric st) (Some winner) runner_up
                 (complete_summary d (st_id st)) (fetch_query_texts np queries (st_objective st) winner baseline runner_up) baseline)))"

section \<open>Lemmas\<close>

lemma mset_map_filter: "mset (List.map_filter f xs) = image_mset (\<lambda>x. the (f x)) (filter_mset (\<lambda>x. f x \<noteq> None) (mset xs))"
  by (induction xs) (auto simp: List.map_filter_simps split: option.splits)

lemma compared_perm: "mset xs = mset ys \<Longrightarrow> mset (compared w c metric xs) = mset (compared w c metric ys)"
  by (simp add: compared_def mset_map_filter)

lemma literal_pos: "1 / 128 \<le> q \<Longrightarrow> flt (fneg (rnd64 q)) (rnd64 q) \<and> rnd64 q \<noteq> NaN"
proof -
  assume "1 / 128 \<le> q"
  from rnd64_mono [OF this] rnd64_dyadic [of 1 7] have "fle (Fin (1 / 128)) (rnd64 q)" by simp
  then show ?thesis using rnd64_not_NaN [of q] by (cases "rnd64 q") auto
qed

lemma threshold_pos: "map_of REGRESSOR_THRESHOLDS b = Some t \<Longrightarrow> flt (fneg t) t \<and> t \<noteq> NaN"
  using literal_pos [of "1 / 100"] literal_pos [of "2 / 100"]
  by (auto simp: REGRESSOR_THRESHOLDS_def split: if_splits)

lemma take_sorted_least:
  fixes k :: "'a \<Rightarrow> 'k::linorder"
  assumes "x \<in> set (take n (sort_key k xs))" "y \<in> set (drop n (sort_key k xs))"
  shows "k x \<le> k y"
proof -
  have "sorted (map k (take n (sort_key k xs) @ drop n (sort_key k xs)))" by simp
  then show ?thesis using assms by (simp only: map_append sorted_append set_map) blast
qed

lemma unlisted:
  assumes "x \<in> set xs" "x \<notin> set (take n (sort_key k xs))"
  shows "x \<in> set (drop n (sort_key k xs))"
proof -
  have "x \<in> set (take n (sort_key k xs) @ drop n (sort_key k xs))" using assms(1) by simp
  then show ?thesis using assms(2) by (simp only: set_append) blast
qed

lemma filter_perm: "mset xs = mset ys \<Longrightarrow> length (filter P xs) = length (filter P ys)"
  by (metis mset_filter size_mset)

lemma fneg_le: "a \<noteq> NaN \<Longrightarrow> b \<noteq> NaN \<Longrightarrow> fneg a \<le> fneg b \<Longrightarrow> b \<le> (a :: pyfloat)"
  by (cases a; cases b) auto

lemma outcome_summary_spec:
  assumes "compute_outcome_summary set_order w c metric = Some s" and perm: "\<And>xs. mset (set_order xs) = mset xs"
  defines "rows \<equiv> compared w c metric (common_queries w c)"
  obtains t where "map_of REGRESSOR_THRESHOLDS (metric_base metric) = Some t"
    "os_improved s + os_unchanged s + os_regressed s = length rows"
    "os_improved s = length (filter (\<lambda>r. flt t (delta_of r)) rows)"
    "os_regressed s = length (filter (\<lambda>r. flt (delta_of r) (fneg t)) rows)"
    "length (os_regressor_candidates s) = min TOP_REGRESSORS_CAP (os_regressed s)"
    "length (os_improver_candidates s) = min TOP_REGRESSORS_CAP (os_improved s)"
    "set (os_regressor_candidates s) \<subseteq> {r \<in> set rows. flt (delta_of r) (fneg t)}"
    "set (os_improver_candidates s) \<subseteq> {r \<in> set rows. flt t (delta_of r)}"
    "\<And>r r'. r \<in> set (os_regressor_candidates s) \<Longrightarrow> r' \<in> set rows \<Longrightarrow> flt (delta_of r') (fneg t) \<Longrightarrow>
       r' \<notin> set (os_regressor_candidates s) \<Longrightarrow> delta_of r \<le> delta_of r'"
    "\<And>r r'. r \<in> set (os_improver_candidates s) \<Longrightarrow> r' \<in> set rows \<Longrightarrow> flt t (delta_of r') \<Longrightarrow>
       r' \<notin> set (os_improver_candidates s) \<Longrightarrow> delta_of r' \<le> delta_of r"
proof -
  obtain t where t: "map_of REGRESSOR_THRESHOLDS (metric_base metric) = Some t"
    using assms(1) by (auto simp: compute_outcome_summary_def split: if_splits option.splits)
  note pos = threshold_pos [OF t]
  define ordered where "ordered = compared w c metric (set_order (common_queries w c))"
  define improvers where "improvers = filter (\<lambda>r. flt t (delta_of r)) ordered"
  define regressors where "regressors = filter (\<lambda>r. flt (delta_of r) (fneg t)) ordered"
  have both: "\<not> (flt t x \<and> flt x (fneg t))" for x using pos flt_trans [of t x "fneg t"] flt_trans [of "fneg t" t "fneg t"] by auto
  have reg: "filter (\<lambda>r. \<not> flt t (delta_of r) \<and> flt (delta_of r) (fneg t)) ordered = regressors"
    unfolding regressors_def using both by (intro filter_cong) auto
  have m: "mset ordered = mset rows" unfolding ordered_def rows_def by (rule compared_perm) (rule perm)
  have sets: "set ordered = set rows" using m by (rule mset_eq_setD)
  have "length (filter P ordered) = length (filter P rows)" for P using m by (rule filter_perm)
  then have len: "length improvers = length (filter (\<lambda>r. flt t (delta_of r)) rows)"
    "length regressors = length (filter (\<lambda>r. flt (delta_of r) (fneg t)) rows)" by (simp_all add: improvers_def regressors_def)
  have "length improvers + length regressors \<le> length ordered"
    unfolding improvers_def regressors_def using both by (induction ordered) auto
  moreover have lo: "length ordered = length rows" using m by (metis size_mset)
  ultimately have total: "length improvers + length regressors \<le> length rows" by simp
  have "compute_outcome_summary set_order w c metric = Some \<lparr>os_improved = length improvers,
      os_unchanged = length ordered - length improvers - length regressors, os_regressed = length regressors,
      os_regressor_candidates = take TOP_REGRESSORS_CAP (sort_key delta_of regressors),
      os_improver_candidates = take TOP_REGRESSORS_CAP (sort_key (\<lambda>r. fneg (delta_of r)) improvers)\<rparr>"
    using assms(1) t reg
    by (simp add: compute_outcome_summary_def Let_def ordered_def [symmetric] improvers_def split: if_splits)
  then have s: "s = \<lparr>os_improved = length improvers,
      os_unchanged = length ordered - length improvers - length regressors, os_regressed = length regressors,
      os_regressor_candidates = take TOP_REGRESSORS_CAP (sort_key delta_of regressors),
      os_improver_candidates = take TOP_REGRESSORS_CAP (sort_key (\<lambda>r. fneg (delta_of r)) improvers)\<rparr>"
    using assms(1) by simp
  have worst: "delta_of r \<le> delta_of r'"
    if "r \<in> set (take TOP_REGRESSORS_CAP (sort_key delta_of regressors))" "r' \<in> set rows" "flt (delta_of r') (fneg t)"
      "r' \<notin> set (take TOP_REGRESSORS_CAP (sort_key delta_of regressors))" for r r'
  proof -
    have "r' \<in> set regressors" using that(2,3) sets by (simp add: regressors_def)
    from unlisted [OF this that(4)] take_sorted_least [OF that(1)] show ?thesis by blast
  qed
  have best: "delta_of r' \<le> delta_of r"
    if "r \<in> set (take TOP_REGRESSORS_CAP (sort_key (\<lambda>r. fneg (delta_of r)) improvers))" "r' \<in> set rows" "flt t (delta_of r')"
      "r' \<notin> set (take TOP_REGRESSORS_CAP (sort_key (\<lambda>r. fneg (delta_of r)) improvers))" for r r'
  proof -
    have r': "r' \<in> set improvers" using that(2,3) sets by (simp add: improvers_def)
    have "r \<in> set improvers" using in_set_takeD [OF that(1)] by simp
    then have "delta_of r \<noteq> NaN" "delta_of r' \<noteq> NaN" using r' by (auto simp: improvers_def)
    moreover from unlisted [OF r' that(4)] take_sorted_least [OF that(1)] have "fneg (delta_of r) \<le> fneg (delta_of r')" by blast
    ultimately show ?thesis by (rule fneg_le)
  qed
  have in_reg: "set (take TOP_REGRESSORS_CAP (sort_key delta_of regressors)) \<subseteq> {r \<in> set rows. flt (delta_of r) (fneg t)}"
  proof
    fix r assume "r \<in> set (take TOP_REGRESSORS_CAP (sort_key delta_of regressors))"
    then have "r \<in> set (sort_key delta_of regressors)" by (rule in_set_takeD)
    then show "r \<in> {r \<in> set rows. flt (delta_of r) (fneg t)}" using sets by (simp add: regressors_def)
  qed
  have in_imp: "set (take TOP_REGRESSORS_CAP (sort_key (\<lambda>r. fneg (delta_of r)) improvers)) \<subseteq> {r \<in> set rows. flt t (delta_of r)}"
  proof
    fix r assume "r \<in> set (take TOP_REGRESSORS_CAP (sort_key (\<lambda>r. fneg (delta_of r)) improvers))"
    then have "r \<in> set (sort_key (\<lambda>r. fneg (delta_of r)) improvers)" by (rule in_set_takeD)
    then show "r \<in> {r \<in> set rows. flt t (delta_of r)}" using sets by (simp add: improvers_def)
  qed
  show thesis
  proof (rule that [OF t])
    show "os_improved s + os_unchanged s + os_regressed s = length rows" using total lo by (simp add: s)
    show "os_improved s = length (filter (\<lambda>r. flt t (delta_of r)) rows)" using len(1) by (simp add: s)
    show "os_regressed s = length (filter (\<lambda>r. flt (delta_of r) (fneg t)) rows)" using len(2) by (simp add: s)
    show "length (os_regressor_candidates s) = min TOP_REGRESSORS_CAP (os_regressed s)" by (simp add: s min.commute)
    show "length (os_improver_candidates s) = min TOP_REGRESSORS_CAP (os_improved s)" by (simp add: s min.commute)
  qed (simp_all only: s outcome_summary.simps in_reg in_imp, fact worst, fact best)
qed

lemma build_rows_named:
  assumes "\<forall>r\<in>set cs. map_of texts (fst r) \<noteq> None"
  shows "length (build_regressor_rows cs texts) = length cs"
    "map (\<lambda>r. (rr_query_id r, rr_winner_score r, rr_comparison_score r, rr_delta r)) (build_regressor_rows cs texts) = cs"
  using assms by (induction cs) (auto simp: build_regressor_rows_def List.map_filter_simps)

lemma build_rows_text: "r \<in> set (build_regressor_rows cs texts) \<Longrightarrow> map_of texts (rr_query_id r) = Some (rr_query_text r)"
  by (auto simp: build_regressor_rows_def List.map_filter_def split: prod.splits)

lemma map_of_fold_set: "map_of (fold (\<lambda>(i, t). dict_set i t) kvs d) k = (case map_of (rev kvs) k of None \<Rightarrow> map_of d k | Some v \<Rightarrow> Some v)"
  using map_of_dict_update [of d kvs k] by (simp only: dict_update_def)

lemma query_texts_lookup:
  assumes "distinct (map fst queries)"
  shows "map_of (query_texts queries ids) q = (if q \<in> set ids then map_of queries q else None)"
proof -
  let ?f = "filter (\<lambda>(i, t). i \<in> set ids) queries"
  have d: "distinct (map fst ?f)" using assms by (simp add: distinct_map_filter)
  then have r: "map_of (rev ?f) = map_of ?f" by (intro map_of_inject_set [THEN iffD2]) (simp_all add: rev_map [symmetric])
  have "map_of ?f q = (if q \<in> set ids then map_of queries q else None)" by (induction queries) auto
  then show ?thesis by (simp add: query_texts_def map_of_fold_set r split: option.splits)
qed

text \<open>What the service fetches is what the assembly names.\<close>

lemma outcomes_named:
  assumes "distinct (map fst queries)" and "\<forall>q\<in>set (dict_keys (per_query_of winner)). map_of queries q \<noteq> None"
    and key: "objective_metric_key o' = Inr key"
    and out: "outcomes_of np (per_query_of winner) (comparison_trial baseline runner_up) key
      (fetch_query_texts np queries o' winner baseline runner_up) = Some po"
    and perm: "\<And>xs. mset (np_set_order np xs) = mset xs"
  shows "\<exists>cmp outcome. comparison_trial baseline runner_up = Some (cmp, po_comparison_against po) \<and>
     compute_outcome_summary (np_set_order np) (per_query_of winner) cmp key = Some outcome \<and>
     po_improved po = os_improved outcome \<and> po_unchanged po = os_unchanged outcome \<and> po_regressed po = os_regressed outcome \<and>
     map (\<lambda>r. (rr_query_id r, rr_winner_score r, rr_comparison_score r, rr_delta r)) (po_top_regressors po) = os_regressor_candidates outcome \<and>
     map (\<lambda>r. (rr_query_id r, rr_winner_score r, rr_comparison_score r, rr_delta r)) (po_top_improvers po) = os_improver_candidates outcome \<and>
     (\<forall>r\<in>set (po_top_regressors po @ po_top_improvers po). map_of queries (rr_query_id r) = Some (rr_query_text r))"
proof -
  obtain cmp against outcome where c: "comparison_trial baseline runner_up = Some (cmp, against)" "per_query_of winner \<noteq> []"
    "compute_outcome_summary (np_set_order np) (per_query_of winner) cmp key = Some outcome"
    using out by (auto simp: outcomes_of_def split: option.splits prod.splits if_splits)
  define texts where "texts = fetch_query_texts np queries o' winner baseline runner_up"
  have po: "po = \<lparr>po_improved = os_improved outcome, po_unchanged = os_unchanged outcome,
      po_regressed = os_regressed outcome, po_comparison_against = against,
      po_top_regressors = build_regressor_rows (os_regressor_candidates outcome) texts,
      po_top_improvers = build_regressor_rows (os_improver_candidates outcome) texts\<rparr>"
    using out c by (simp add: outcomes_of_def texts_def)
  have rows: "q \<in> set (dict_keys (per_query_of winner))"
    if "(q, x) \<in> set (compared (per_query_of winner) cmp key (common_queries (per_query_of winner) cmp))" for q x
    using that by (auto simp: compared_def common_queries_def List.map_filter_def split: option.splits)
  obtain t where "map_of REGRESSOR_THRESHOLDS (metric_base key) = Some t"
    and sub: "set (os_regressor_candidates outcome) \<subseteq> {r \<in> set (compared (per_query_of winner) cmp key (common_queries (per_query_of winner) cmp)). flt (delta_of r) (fneg t)}"
      "set (os_improver_candidates outcome) \<subseteq> {r \<in> set (compared (per_query_of winner) cmp key (common_queries (per_query_of winner) cmp)). flt t (delta_of r)}"
    by (rule outcome_summary_spec [OF c(3) perm]; rule that; assumption)
  have texts: "map_of texts q = (if q \<in> set (candidate_ids outcome) then map_of queries q else None)" for q
    using c key query_texts_lookup [OF assms(1), of "candidate_ids outcome" q]
    by (simp add: texts_def fetch_query_texts_def candidate_ids_def)
  have known: "map_of texts (fst r) \<noteq> None" if "r \<in> set (os_regressor_candidates outcome @ os_improver_candidates outcome)" for r
  proof -
    have "fst r \<in> set (candidate_ids outcome)" using that unfolding candidate_ids_def set_map by (rule imageI)
    moreover have "r \<in> set (compared (per_query_of winner) cmp key (common_queries (per_query_of winner) cmp))"
      using that sub unfolding set_append by blast
    then have "fst r \<in> set (dict_keys (per_query_of winner))" using rows [of "fst r" "snd r"] by simp
    ultimately show ?thesis using texts assms(2) by simp
  qed
  have named: "map_of queries (rr_query_id r) = Some (rr_query_text r)"
    if "r \<in> set (build_regressor_rows cs texts)" for r cs
    using build_rows_text [OF that] texts [of "rr_query_id r"] by (simp split: if_splits)
  have all: "\<forall>r\<in>set (po_top_regressors po @ po_top_improvers po). map_of queries (rr_query_id r) = Some (rr_query_text r)"
    using named unfolding po by auto
  show ?thesis
    using c(1,3) build_rows_named(2) [of "os_regressor_candidates outcome" texts]
      build_rows_named(2) [of "os_improver_candidates outcome" texts] known all
    unfolding po by (intro exI [of _ cmp] exI [of _ outcome] conjI) simp_all
qed

text \<open>The trial a comparison is with, and the ranking of the queries that are named.\<close>

lemma comparison_column:
  fixes base :: "string option" and d :: db and column :: "string \<Rightarrow> per_query option" and r :: "trial option"
  defines "baseline \<equiv> map_option (\<lambda>t. (t, column (tr_id t))) (Option.bind base (get_trial d))"
    and "runner_up \<equiv> map_option (\<lambda>t. (t, column (tr_id t))) r"
  assumes o: "comparison_trial baseline runner_up = Some (cpq, against)"
  shows "\<exists>c. column c = Some cpq \<and> (against = AgainstBaseline \<longrightarrow> base = Some c)"
  proof (cases "baseline \<noteq> None \<and> per_query_of (the baseline) \<noteq> []")
    case True
    then obtain t where t: "baseline = Some (t, column (tr_id t))" "base = Some (tr_id t)"
      by (cases "base") (auto simp: baseline_def dest: get_trial_id)
    then have "column (tr_id t) = Some cpq" using o True
      by (auto simp: comparison_trial_def per_query_of_def split: option.splits if_splits)
    then show ?thesis using t by blast
  next
    case False
    then have r: "comparison_trial baseline runner_up = (case runner_up of
        Some r \<Rightarrow> if per_query_of r \<noteq> [] then Some (per_query_of r, AgainstRunnerUp) else None | None \<Rightarrow> None)"
      by (cases baseline) (auto simp: comparison_trial_def)
    then obtain t where "runner_up = Some (t, column (tr_id t))" "cpq = per_query_of (t, column (tr_id t))"
      "per_query_of (t, column (tr_id t)) \<noteq> []" "against = AgainstRunnerUp"
      using o by (auto simp: runner_up_def split: option.splits if_splits)
    then show ?thesis by (intro exI [of _ "tr_id t"]) (auto simp: per_query_of_def split: option.splits)
qed

lemma regressors_ranked:
  assumes out: "compute_outcome_summary set_order wpq cpq key = Some outcome" and perm: "\<And>xs. mset (set_order xs) = mset xs"
    and rows: "map (\<lambda>r. (rr_query_id r, rr_winner_score r, rr_comparison_score r, rr_delta r)) regs = os_regressor_candidates outcome"
  shows "\<exists>t. map_of REGRESSOR_THRESHOLDS (metric_base key) = Some t \<and>
    (let rows = compared wpq cpq key (common_queries wpq cpq); named = rr_query_id ` set regs in
       os_improved outcome + os_unchanged outcome + os_regressed outcome = length rows \<and>
       os_improved outcome = length (filter (\<lambda>r. flt t (delta_of r)) rows) \<and>
       os_regressed outcome = length (filter (\<lambda>r. flt (delta_of r) (fneg t)) rows) \<and>
       length regs = min 5 (os_regressed outcome) \<and>
       (\<forall>r\<in>set regs. (rr_query_id r, rr_winner_score r, rr_comparison_score r, rr_delta r) \<in> set rows \<and> flt (rr_delta r) (fneg t) \<and>
          (\<forall>x\<in>set rows. flt (delta_of x) (fneg t) \<and> fst x \<notin> named \<longrightarrow> rr_delta r \<le> delta_of x)))"
proof -
  let ?rows = "compared wpq cpq key (common_queries wpq cpq)"
  obtain t where t: "map_of REGRESSOR_THRESHOLDS (metric_base key) = Some t"
    "os_improved outcome + os_unchanged outcome + os_regressed outcome = length ?rows"
    "os_improved outcome = length (filter (\<lambda>r. flt t (delta_of r)) ?rows)"
    "os_regressed outcome = length (filter (\<lambda>r. flt (delta_of r) (fneg t)) ?rows)"
    "length (os_regressor_candidates outcome) = min TOP_REGRESSORS_CAP (os_regressed outcome)"
    "set (os_regressor_candidates outcome) \<subseteq> {r \<in> set ?rows. flt (delta_of r) (fneg t)}"
    "\<And>r r'. r \<in> set (os_regressor_candidates outcome) \<Longrightarrow> r' \<in> set ?rows \<Longrightarrow> flt (delta_of r') (fneg t) \<Longrightarrow>
       r' \<notin> set (os_regressor_candidates outcome) \<Longrightarrow> delta_of r \<le> delta_of r'"
    by (rule outcome_summary_spec [OF out perm]; rule that; assumption)
  let ?as = "\<lambda>r. (rr_query_id r, rr_winner_score r, rr_comparison_score r, rr_delta r)"
  have cand: "?as r \<in> set (os_regressor_candidates outcome)" if "r \<in> set regs" for r
    using that unfolding rows [symmetric] set_map by (rule imageI)
  have listed: "fst x \<in> rr_query_id ` set regs" if "x \<in> set (os_regressor_candidates outcome)" for x
    using that unfolding rows [symmetric] by auto
  have "length regs = min 5 (os_regressed outcome)"
    using t(5) unfolding rows [symmetric] TOP_REGRESSORS_CAP_def by simp
  moreover have "?as r \<in> set ?rows" "flt (rr_delta r) (fneg t)" if "r \<in> set regs" for r
    using cand [OF that] t(6) by (auto simp: delta_of_def)
  moreover have "rr_delta r \<le> delta_of x"
    if "r \<in> set regs" "x \<in> set ?rows" "flt (delta_of x) (fneg t)" "fst x \<notin> rr_query_id ` set regs" for r x
  proof -
    have "x \<notin> set (os_regressor_candidates outcome)" using listed that(4) by blast
    from t(7) [OF cand [OF that(1)] that(2,3) this] show ?thesis by (simp add: delta_of_def)
  qed
  ultimately show ?thesis using t(1-4) by (intro exI [of _ t] conjI) (simp_all add: Let_def)
qed

section \<open>What goes wrong\<close>

text \<open>Everything takes the greatest metric for the best, also when the objective is minimized.\<close>

lemma gap_ignores_direction:
  "classify_runner_up_gap (rev (sort [Fin (1 / 4), Fin (1 / 2), Fin 1])) =
     Some \<lparr>rg_value = Fin (1 / 2), rg_classification = SharpPeak, rg_top10_within = Fin (3 / 4), rg_runner_up_metric = Fin (1 / 2)\<rparr>"
proof -
  have "rnd64 (3 / 4) = Fin (3 / 4)" using rnd64_dyadic [of 3 2] by simp
  moreover have "\<not> fle (Fin (3 / 4)) (rnd64 (5 / 1000))"
  proof -
    have "fle (rnd64 (5 / 1000)) (Fin (1 / 2))" using rnd64_mono [of "5 / 1000" "1 / 2"] by simp
    then show ?thesis by (cases "rnd64 (5 / 1000)") auto
  qed
  ultimately show ?thesis
    by (simp add: classify_runner_up_gap_def RUNNER_UP_GAP_MIN_COMPLETE_def fsub_def fmax_def RUNNER_UP_PLATEAU_BAND_def
        less_pyfloat_def Let_def)
qed

section \<open>A study with two trials\<close>

definition demo_numpy :: numpy where
  "demo_numpy = \<lparr>np_percentiles = (\<lambda>_. (Fin 0, Fin 1)), np_std = (\<lambda>_. Fin 0), np_set_order = (\<lambda>x. x)\<rparr>"

definition demo_column :: "string \<Rightarrow> per_query option" where
  "demo_column i = (if i = ''t1'' then Some [(''q1'', [(''mrr'', Fin (1 / 4))])]
     else if i = ''t2'' then Some [(''q1'', [(''mrr'', Fin (3 / 4))])] else None)"

definition demo_conf_db :: db where
  "demo_conf_db = \<lparr>db_studies = [], db_trials = [sample_trial ''t1'' ''s'' 1 Complete (Some (Fin 1)),
     sample_trial ''t2'' ''s'' 2 Complete (Some (Fin (1 / 2)))], db_proposals = []\<rparr>"

definition demo_conf_study :: study where
  "demo_conf_study = (sample_study ''s'' None Completed)\<lparr>st_objective := [(''metric'', PStr ''mrr'')],
     st_best_trial_id := Some ''t1'', st_best_metric := Some (Fin 1), st_baseline_trial_id := None\<rparr>"

lemma demo_fetch:
  "\<exists>cf po. fetch_study_confidence demo_numpy demo_column [(''q1'', ''shoe'')] demo_conf_db demo_conf_study = Some cf \<and>
     cf_per_query_outcomes cf = Some po \<and> po_regressed po = 1"
proof -
  have dyadic: "rnd64 (- 1 / 2) = Fin (- 1 / 2)" using rnd64_dyadic [of "- 1" 1] by simp
  obtain t where t: "rnd64 (2 / 100) = t" "flt (Fin (- 1 / 2)) (fneg t)" "\<not> flt t (Fin (- 1 / 2))"
  proof -
    have "fle (rnd64 (2 / 100)) (Fin (1 / 4))" using rnd64_mono [of "2 / 100" "1 / 4"] by simp
    moreover have "fle (Fin 0) (rnd64 (2 / 100))" using rnd64_mono [of 0 "2 / 100"] by simp
    ultimately show ?thesis using that [of "rnd64 (2 / 100)"] by (cases "rnd64 (2 / 100)") auto
  qed
  have key: "objective_metric_key [(''metric'', PStr ''mrr'')] = Inr ''mrr''" by code_simp
  have sum: "compute_outcome_summary (\<lambda>x. x) [(''q1'', [(''mrr'', Fin (1 / 4))])] [(''q1'', [(''mrr'', Fin (3 / 4))])] ''mrr'' =
      Some \<lparr>os_improved = 0, os_unchanged = 0, os_regressed = 1,
        os_regressor_candidates = [(''q1'', Fin (1 / 4), Fin (3 / 4), Fin (- 1 / 2))], os_improver_candidates = []\<rparr>"
    using t dyadic
    by (simp add: compute_outcome_summary_def metric_base_def REGRESSOR_THRESHOLDS_def common_queries_def dict_keys_def
        compared_def List.map_filter_simps fsub_def delta_of_def TOP_REGRESSORS_CAP_def Let_def)
  show ?thesis
    by (simp add: fetch_study_confidence_def demo_conf_study_def demo_conf_db_def get_trial_def sample_trial_def Let_def
        runner_up_of_def confidence_trials_def demo_column_def complete_summary_def List.map_filter_simps
        compute_study_confidence_def key obj_get_def fetch_query_texts_def comparison_trial_def per_query_of_def
        demo_numpy_def sum outcomes_of_def sample_study_def)
qed

section \<open>Properties\<close>

text \<open>The outcomes per query that a study shows are the comparison of its winner, under the objective's
  metric, with its baseline trial or the runner-up: every query that has the metric on both sides is
  counted once, as improved, regressed or neither by the threshold of the metric; and the queries
  named are the worst regressed ones, at most five, each with its own text. It rests on the queries
  of the winner being in the table.\<close>

theorem outcomes_are_the_comparison:
  assumes fetch: "fetch_study_confidence np column queries d st = Some cf" and po: "cf_per_query_outcomes cf = Some po"
    and perm: "\<And>xs. mset (np_set_order np xs) = mset xs" and ids: "distinct (map fst queries)"
    and known: "\<And>i pq q. column i = Some pq \<Longrightarrow> q \<in> set (dict_keys pq) \<Longrightarrow> map_of queries q \<noteq> None"
  shows "\<exists>w wpq c cpq key t. st_best_trial_id st = Some w \<and> column w = Some wpq \<and> column c = Some cpq \<and>
    (po_comparison_against po = AgainstBaseline \<longrightarrow> st_baseline_trial_id st = Some c) \<and>
    objective_metric_key (st_objective st) = Inr key \<and> map_of REGRESSOR_THRESHOLDS (metric_base key) = Some t \<and>
    (let rows = compared wpq cpq key (common_queries wpq cpq); named = rr_query_id ` set (po_top_regressors po) in
       po_improved po + po_unchanged po + po_regressed po = length rows \<and>
       po_improved po = length (filter (\<lambda>r. flt t (delta_of r)) rows) \<and>
       po_regressed po = length (filter (\<lambda>r. flt (delta_of r) (fneg t)) rows) \<and>
       length (po_top_regressors po) = min 5 (po_regressed po) \<and>
       (\<forall>r\<in>set (po_top_regressors po).
          (rr_query_id r, rr_winner_score r, rr_comparison_score r, rr_delta r) \<in> set rows \<and>
          flt (rr_delta r) (fneg t) \<and> map_of queries (rr_query_id r) = Some (rr_query_text r) \<and>
          (\<forall>x\<in>set rows. flt (delta_of x) (fneg t) \<and> fst x \<notin> named \<longrightarrow> rr_delta r \<le> delta_of x)))"
proof -
  obtain best w where b: "st_best_trial_id st = Some best" "get_trial d best = Some w"
    using fetch by (auto simp: fetch_study_confidence_def split: option.splits)
  have w: "tr_id w = best" using b(2) get_trial_id by blast
  define winner where "winner = (w, column best)"
  define baseline where "baseline = map_option (\<lambda>t. (t, column (tr_id t))) (Option.bind (st_baseline_trial_id st) (get_trial d))"
  define runner_up where "runner_up = map_option (\<lambda>t. (t, column (tr_id t))) (runner_up_of d (st_id st) best)"
  define texts where "texts = fetch_query_texts np queries (st_objective st) winner baseline runner_up"
  have cf: "compute_study_confidence np (st_objective st) (st_best_metric st) (Some winner) runner_up
      (complete_summary d (st_id st)) texts baseline = Some cf"
    using fetch b w by (simp add: fetch_study_confidence_def Let_def winner_def baseline_def runner_up_def texts_def)
  then obtain key where key: "objective_metric_key (st_objective st) = Inr key"
    "outcomes_of np (per_query_of winner) (comparison_trial baseline runner_up) key texts = Some po"
    using po by (auto simp: compute_study_confidence_def Let_def split: if_splits pyval.splits sum.splits)
  have "\<forall>q\<in>set (dict_keys (per_query_of winner)). map_of queries q \<noteq> None"
    using known [of best] by (cases "column best") (simp_all add: winner_def per_query_of_def dict_keys_def)
  from outcomes_named [OF ids this key(1) key(2) [unfolded texts_def] perm] obtain cpq outcome where
    o: "comparison_trial baseline runner_up = Some (cpq, po_comparison_against po)"
      "compute_outcome_summary (np_set_order np) (per_query_of winner) cpq key = Some outcome"
      "po_improved po = os_improved outcome" "po_unchanged po = os_unchanged outcome" "po_regressed po = os_regressed outcome"
      "map (\<lambda>r. (rr_query_id r, rr_winner_score r, rr_comparison_score r, rr_delta r)) (po_top_regressors po) = os_regressor_candidates outcome"
      "\<forall>r\<in>set (po_top_regressors po @ po_top_improvers po). map_of queries (rr_query_id r) = Some (rr_query_text r)"
    by (elim exE conjE) (rule that)
  have "per_query_of winner \<noteq> []" using o(2) by (auto simp: compute_outcome_summary_def)
  then have wpq: "column best = Some (per_query_of winner)" by (auto simp: winner_def per_query_of_def split: option.splits)
  obtain c where c: "column c = Some cpq" "po_comparison_against po = AgainstBaseline \<longrightarrow> st_baseline_trial_id st = Some c"
    using comparison_column [OF o(1) [unfolded baseline_def runner_up_def]] by blast
  obtain t where t: "map_of REGRESSOR_THRESHOLDS (metric_base key) = Some t"
    and ranked: "let rows = compared (per_query_of winner) cpq key (common_queries (per_query_of winner) cpq); named = rr_query_id ` set (po_top_regressors po) in
       os_improved outcome + os_unchanged outcome + os_regressed outcome = length rows \<and>
       os_improved outcome = length (filter (\<lambda>r. flt t (delta_of r)) rows) \<and>
       os_regressed outcome = length (filter (\<lambda>r. flt (delta_of r) (fneg t)) rows) \<and>
       length (po_top_regressors po) = min 5 (os_regressed outcome) \<and>
       (\<forall>r\<in>set (po_top_regressors po). (rr_query_id r, rr_winner_score r, rr_comparison_score r, rr_delta r) \<in> set rows \<and> flt (rr_delta r) (fneg t) \<and>
          (\<forall>x\<in>set rows. flt (delta_of x) (fneg t) \<and> fst x \<notin> named \<longrightarrow> rr_delta r \<le> delta_of x))"
    using regressors_ranked [OF o(2) perm o(6)] by blast
  show ?thesis using b(1) wpq c key(1) t ranked o(3,4,5,7)
    by (intro exI [of _ best] exI [of _ "per_query_of winner"] exI [of _ c] exI [of _ cpq] exI [of _ key] exI [of _ t] conjI)
      (simp_all add: Let_def)
qed

theorem outcomes_are_the_comparison_witness:
  "\<exists>cf po w. fetch_study_confidence demo_numpy demo_column [(''q1'', ''shoe'')] demo_conf_db demo_conf_study = Some cf \<and>
     cf_per_query_outcomes cf = Some po \<and> length (po_top_regressors po) = 1 \<and> st_best_trial_id demo_conf_study = Some w"
proof -
  obtain cf po where f: "fetch_study_confidence demo_numpy demo_column [(''q1'', ''shoe'')] demo_conf_db demo_conf_study = Some cf"
    "cf_per_query_outcomes cf = Some po" "po_regressed po = 1" using demo_fetch by blast
  have "mset (np_set_order demo_numpy xs) = mset xs" for xs by (simp add: demo_numpy_def)
  moreover have "distinct (map fst [(''q1'', ''shoe'')])" by simp
  moreover have "map_of [(''q1'', ''shoe'')] q \<noteq> None" if "demo_column i = Some pq" "q \<in> set (dict_keys pq)" for i pq q
    using that by (auto simp: demo_column_def dict_keys_def split: if_splits)
  ultimately show ?thesis using outcomes_are_the_comparison [OF f(1,2)] f
    by (auto simp: Let_def)
qed

end
