(* ===== verification/Ubi.thy ===== *)
theory Ubi
  imports Scoring Search_Space_Defaults
begin

text \<open>
  Judgments from user behaviour: the position bias prior, the features of a pair of query and
  document, the converters to ratings (\<open>backend/app/domain/ubi\<close>), the reader that scans the two
  indices (\<open>backend/app/services/ubi_reader.py\<close>) and the mapping of its queries to the query
  set (\<open>backend/workers/judgments_ubi.py\<close>). What JSON, \<open>float\<close> of a string, \<open>str\<close> of a value
  and \<open>lower\<close> yield are parameters, as are the pages of the engine. Numbers of events are far
  below the doubles, so their conversion does not fail.
\<close>

section \<open>Conversions that raise\<close>

text \<open>\<open>ValueError\<close> and \<open>TypeError\<close>, which the code catches, and \<open>OverflowError\<close>, which it does not.\<close>

datatype conv_error = BadValue | Overflow

definition int_conv :: "pyval \<Rightarrow> conv_error + int" where
  "int_conv v = (case v of
       PInt n \<Rightarrow> Inr n
     | PBool b \<Rightarrow> Inr (if b then 1 else 0)
     | PFloat (Fin q) \<Rightarrow> Inr (if 0 \<le> q then \<lfloor>q\<rfloor> else \<lceil>q\<rceil>)
     | PFloat NaN \<Rightarrow> Inl BadValue
     | PFloat _ \<Rightarrow> Inl Overflow
     | PStr s \<Rightarrow> (case py_int s of None \<Rightarrow> Inl BadValue | Some n \<Rightarrow> Inr n)
     | _ \<Rightarrow> Inl BadValue)"

definition float_conv :: "(string \<Rightarrow> pyfloat option) \<Rightarrow> pyval \<Rightarrow> conv_error + pyfloat" where
  "float_conv float_of_str v = (case v of
       PFloat x \<Rightarrow> Inr x
     | PInt n \<Rightarrow> (case float_of_int n of None \<Rightarrow> Inl Overflow | Some x \<Rightarrow> Inr x)
     | PBool b \<Rightarrow> Inr (Fin (if b then 1 else 0))
     | PStr s \<Rightarrow> (case float_of_str s of None \<Rightarrow> Inl BadValue | Some x \<Rightarrow> Inr x)
     | _ \<Rightarrow> Inl BadValue)"

section \<open>The position bias prior\<close>

datatype prior_file = NoPath | Missing | ReadFails | FileText string

text \<open>The entries, until one is not usable: \<open>None\<close> within is the fallback to no prior.\<close>

fun prior_entries ::
  "(string \<Rightarrow> pyfloat option) \<Rightarrow> obj \<Rightarrow> (int, pyfloat) pydict \<Rightarrow> conv_error + (int, pyfloat) pydict option" where
  "prior_entries float_of_str [] weights = Inr (Some weights)"
| "prior_entries float_of_str ((key, v) # rest) weights =
     (case int_conv (PStr key) of
        Inl _ \<Rightarrow> Inr None
      | Inr rank \<Rightarrow> (case float_conv float_of_str v of
          Inl Overflow \<Rightarrow> Inl Overflow
        | Inl BadValue \<Rightarrow> Inr None
        | Inr weight \<Rightarrow>
            if rank < 1 then Inr None
            else if flt weight (Fin 0) then Inr None
            else prior_entries float_of_str rest (dict_set rank weight weights)))"

definition load_position_bias_prior ::
  "(string \<Rightarrow> pyval option) \<Rightarrow> (string \<Rightarrow> pyfloat option) \<Rightarrow> prior_file \<Rightarrow> conv_error + (int, pyfloat) pydict" where
  "load_position_bias_prior json_loads float_of_str path =
     (case path of
        FileText raw \<Rightarrow>
          (let raw_text = py_strip raw in
           if raw_text = [] then Inr []
           else (case json_loads raw_text of
               Some (PDict parsed) \<Rightarrow>
                 (case obj_get parsed ''positions'' of
                    PDict positions_raw \<Rightarrow>
                      (case prior_entries float_of_str positions_raw [] of
                         Inl e \<Rightarrow> Inl e
                       | Inr None \<Rightarrow> Inr []
                       | Inr (Some weights) \<Rightarrow> Inr weights)
                  | _ \<Rightarrow> Inr [])
             | _ \<Rightarrow> Inr []))
      | _ \<Rightarrow> Inr [])"

section \<open>Features\<close>

record ubi_event =
  ue_query_id :: string
  ue_doc_id :: string
  ue_event_type :: string
  ue_position :: "int option"
  ue_dwell_seconds :: "pyfloat option"

record feature_vec =
  fv_click_count :: nat
  fv_impression_count :: nat
  fv_corrected_ctr :: pyfloat
  fv_dwell_mean_seconds :: "pyfloat option"
  fv_conversion_rate :: "pyfloat option"
  fv_refinement_rate :: "pyfloat option"

type_synonym pair = "string \<times> string"

record tally =
  ta_clicks :: nat
  ta_weighted :: pyfloat
  ta_impressions :: nat
  ta_dwell :: "pyfloat list"
  ta_conversions :: nat
  ta_refinements :: nat

definition no_tally :: tally where
  "no_tally = \<lparr>ta_clicks = 0, ta_weighted = Fin 0, ta_impressions = 0, ta_dwell = [], ta_conversions = 0,
     ta_refinements = 0\<rparr>"

text \<open>The weight of an event's rank: rank 1 when it has none (or 0), 1.0 for a rank without weight.\<close>

definition rank_weight :: "(int, pyfloat) pydict \<Rightarrow> ubi_event \<Rightarrow> pyfloat" where
  "rank_weight prior e =
     (let position = (case ue_position e of None \<Rightarrow> 1 | Some p \<Rightarrow> if p = 0 then 1 else p)
      in case map_of prior position of None \<Rightarrow> Fin 1 | Some w \<Rightarrow> w)"

definition count_event :: "(int, pyfloat) pydict \<Rightarrow> ubi_event \<Rightarrow> tally \<Rightarrow> tally" where
  "count_event prior e t =
     (if ue_event_type e = ''click'' then t\<lparr>ta_clicks := Suc (ta_clicks t)\<rparr>
      else if ue_event_type e = ''impression'' then
        t\<lparr>ta_impressions := Suc (ta_impressions t), ta_weighted := fadd (ta_weighted t) (rank_weight prior e)\<rparr>
      else if ue_event_type e = ''dwell'' \<and> ue_dwell_seconds e \<noteq> None then
        t\<lparr>ta_dwell := ta_dwell t @ [the (ue_dwell_seconds e)]\<rparr>
      else if ue_event_type e = ''conversion'' then t\<lparr>ta_conversions := Suc (ta_conversions t)\<rparr>
      else if ue_event_type e = ''refinement'' then t\<lparr>ta_refinements := Suc (ta_refinements t)\<rparr>
      else t)"

text \<open>Division of two counts, correctly rounded.\<close>

definition ratio :: "nat \<Rightarrow> nat \<Rightarrow> pyfloat option" where
  "ratio a b = (if 0 < b then Some (rnd64 (of_nat a / of_nat b)) else None)"

definition corrected_ctr :: "nat \<Rightarrow> pyfloat \<Rightarrow> pyfloat" where
  "corrected_ctr clicks weighted =
     (if flt (Fin 0) weighted then fmin (the (fdiv (rnd64 (of_nat clicks)) weighted)) (Fin 1) else Fin 0)"

definition feature_of :: "(int, pyfloat) pydict \<Rightarrow> ubi_event list \<Rightarrow> feature_vec" where
  "feature_of prior events =
     (let t = fold (count_event prior) events no_tally
      in \<lparr>fv_click_count = ta_clicks t, fv_impression_count = ta_impressions t,
          fv_corrected_ctr = corrected_ctr (ta_clicks t) (ta_weighted t),
          fv_dwell_mean_seconds = (if ta_dwell t = [] then None else Some (float_mean (ta_dwell t))),
          fv_conversion_rate = ratio (ta_conversions t) (ta_clicks t),
          fv_refinement_rate = ratio (ta_refinements t) (ta_impressions t)\<rparr>)"

text \<open>The model of a feature vector checks its fields; \<open>None\<close> is the validation error.\<close>

definition aggregate_features ::
  "(pair, ubi_event list) pydict \<Rightarrow> (int, pyfloat) pydict \<Rightarrow> (pair, feature_vec) pydict option" where
  "aggregate_features events_by_pair prior =
     (let out = map (\<lambda>(p, events). (p, feature_of prior events)) events_by_pair
      in if list_all (\<lambda>(_, f). fle (Fin 0) (fv_corrected_ctr f) \<and> fle (fv_corrected_ctr f) (Fin 1)) out
         then Some out else None)"

section \<open>Converters\<close>

definition CTR_DEFAULTS :: "(int, pyfloat) pydict" where
  "CTR_DEFAULTS = [(1, flit (5 / 100)), (2, flit (15 / 100)), (3, flit (30 / 100))]"

definition DWELL_DEFAULTS :: "(int, pyfloat) pydict" where
  "DWELL_DEFAULTS = [(1, Fin 10), (2, Fin 30), (3, Fin 90)]"

definition HYBRID_LLM_FILL_THRESHOLD_DEFAULT :: int where
  "HYBRID_LLM_FILL_THRESHOLD_DEFAULT = 20"

text \<open>
  Any bad configuration is a \<open>ValueError\<close>; so \<open>BadValue\<close> stands for all of them.
\<close>

fun parse_thresholds ::
  "(string \<Rightarrow> pyfloat option) \<Rightarrow> obj \<Rightarrow> (int, pyfloat) pydict \<Rightarrow> conv_error + (int, pyfloat) pydict" where
  "parse_thresholds float_of_str [] parsed = Inr parsed"
| "parse_thresholds float_of_str ((key, v) # rest) parsed =
     (case int_conv (PStr key) of
        Inl e \<Rightarrow> Inl e
      | Inr rating \<Rightarrow>
          if rating \<notin> {1, 2, 3} then Inl BadValue
          else (case float_conv float_of_str v of
              Inl e \<Rightarrow> Inl e
            | Inr x \<Rightarrow> parse_thresholds float_of_str rest (dict_set rating x parsed)))"

definition resolve_thresholds ::
  "(string \<Rightarrow> pyfloat option) \<Rightarrow> obj \<Rightarrow> (int, pyfloat) pydict \<Rightarrow> conv_error + (int, pyfloat) pydict" where
  "resolve_thresholds float_of_str extra defaults =
     (case obj_get extra ''thresholds'' of
        PNone \<Rightarrow> Inr defaults
      | PDict raw \<Rightarrow> (case parse_thresholds float_of_str raw [] of
          Inl e \<Rightarrow> Inl e
        | Inr parsed \<Rightarrow>
            (case (map_of parsed 1, map_of parsed 2, map_of parsed 3) of
               (Some a, Some b, Some c) \<Rightarrow> if flt a b \<and> flt b c then Inr parsed else Inl BadValue
             | _ \<Rightarrow> Inl BadValue))
      | _ \<Rightarrow> Inl BadValue)"

definition threshold_rating :: "pyfloat \<Rightarrow> (int, pyfloat) pydict \<Rightarrow> int" where
  "threshold_rating x thresholds =
     (if flt x (the (map_of thresholds 1)) then 0
      else if flt x (the (map_of thresholds 2)) then 1
      else if flt x (the (map_of thresholds 3)) then 2 else 3)"

definition ctr_convert ::
  "(string \<Rightarrow> pyfloat option) \<Rightarrow> (pair, feature_vec) pydict \<Rightarrow> obj \<Rightarrow> conv_error + (pair, int) pydict" where
  "ctr_convert float_of_str features extra =
     (case resolve_thresholds float_of_str extra CTR_DEFAULTS of
        Inl e \<Rightarrow> Inl e
      | Inr thresholds \<Rightarrow>
          Inr (map (\<lambda>(p, f). (p, threshold_rating (fv_corrected_ctr f) thresholds))
            (filter (\<lambda>(p, f). fv_impression_count f \<noteq> 0) features)))"

definition dwell_convert ::
  "(string \<Rightarrow> pyfloat option) \<Rightarrow> (pair, feature_vec) pydict \<Rightarrow> obj \<Rightarrow> conv_error + (pair, int) pydict" where
  "dwell_convert float_of_str features extra =
     (case resolve_thresholds float_of_str extra DWELL_DEFAULTS of
        Inl e \<Rightarrow> Inl e
      | Inr thresholds \<Rightarrow>
          Inr (List.map_filter (\<lambda>(p, f). map_option (\<lambda>x. (p, threshold_rating x thresholds)) (fv_dwell_mean_seconds f))
            features))"

text \<open>
  The hybrid converter. The language model is the operation \<open>llm_rate\<close> on a state; it may
  raise what the converter raises, or an error of its own.
\<close>

datatype 'e convert_error = Conversion conv_error | FromRater 'e

definition hybrid_convert ::
  "((pair, feature_vec) pydict \<Rightarrow> obj \<Rightarrow> conv_error + (pair, int) pydict)
   \<Rightarrow> ((string \<times> string \<times> string) list \<Rightarrow> 's \<Rightarrow> ('e + (pair, int) pydict) \<times> 's)
   \<Rightarrow> (string \<Rightarrow> string) \<Rightarrow> (pair, feature_vec) pydict \<Rightarrow> obj \<Rightarrow> 's \<Rightarrow> ('e convert_error + (pair, int) pydict) \<times> 's" where
  "hybrid_convert inner llm_rate lookup_query_text features extra s =
     (case int_conv (obj_get_default extra ''llm_fill_threshold'' (PInt HYBRID_LLM_FILL_THRESHOLD_DEFAULT)) of
        Inl e \<Rightarrow> (Inl (Conversion e), s)
      | Inr threshold \<Rightarrow>
        (if threshold < 1 then (Inl (Conversion BadValue), s)
         else
          (let head_pairs = filter (\<lambda>(p, f). threshold \<le> int (fv_impression_count f)) features;
               tail_pairs = filter (\<lambda>(p, f). \<not> threshold \<le> int (fv_impression_count f)) features
           in case inner head_pairs extra of
                Inl e \<Rightarrow> (Inl (Conversion e), s)
              | Inr head_ratings \<Rightarrow>
                  (if tail_pairs = [] then (Inr (dict_update [] head_ratings), s)
                   else (case llm_rate (map (\<lambda>((q, doc), f). (q, doc, lookup_query_text q)) tail_pairs) s of
                       (Inl e, s1) \<Rightarrow> (Inl (FromRater e), s1)
                     | (Inr tail_ratings, s1) \<Rightarrow> (Inr (dict_update tail_ratings head_ratings), s1))))))"

section \<open>Queries of the query set\<close>

record query_row =
  qr_id :: string
  qr_query_text :: string
  qr_created_at :: int

text \<open>\<open>max(rows, key=created_at)\<close> keeps the first of the latest.\<close>

fun most_recent :: "query_row \<Rightarrow> query_row list \<Rightarrow> query_row" where
  "most_recent best [] = best"
| "most_recent best (r # rs) = most_recent (if qr_created_at best < qr_created_at r then r else best) rs"

definition pick_query :: "string \<Rightarrow> query_row list \<Rightarrow> string option" where
  "pick_query mapping_strategy candidates =
     (if mapping_strategy = ''first_match'' then Some (qr_id (hd (sort_key qr_id candidates)))
      else if mapping_strategy = ''most_recent'' then Some (qr_id (most_recent (hd candidates) (tl candidates)))
      else None)"

datatype query_match = NoMatch | Ambiguous | Match string

definition match_query :: "query_row list \<Rightarrow> string \<Rightarrow> string \<Rightarrow> query_match" where
  "match_query rows mapping_strategy user_query =
     (case filter (\<lambda>r. qr_query_text r = user_query) rows of
        [] \<Rightarrow> NoMatch
      | [r] \<Rightarrow> Match (qr_id r)
      | candidates \<Rightarrow> (case pick_query mapping_strategy candidates of None \<Rightarrow> Ambiguous | Some i \<Rightarrow> Match i))"

fun apply_mapping_loop ::
  "query_row list \<Rightarrow> string \<Rightarrow> (string \<times> string) list \<Rightarrow> (string, string) pydict \<times> nat \<Rightarrow> (string, string) pydict \<times> nat" where
  "apply_mapping_loop rows mapping_strategy [] acc = acc"
| "apply_mapping_loop rows mapping_strategy ((ubi_qid, user_query) # rest) (mapping, ambiguous_count) =
     apply_mapping_loop rows mapping_strategy rest
       (case match_query rows mapping_strategy user_query of
          NoMatch \<Rightarrow> (mapping, ambiguous_count)
        | Ambiguous \<Rightarrow> (mapping, Suc ambiguous_count)
        | Match i \<Rightarrow> (dict_set ubi_qid i mapping, ambiguous_count))"

definition apply_mapping_strategy ::
  "(string, string) pydict \<Rightarrow> query_row list \<Rightarrow> string \<Rightarrow> (string, string) pydict \<times> nat" where
  "apply_mapping_strategy ubi_query_to_user_query query_set_rows mapping_strategy =
     apply_mapping_loop query_set_rows mapping_strategy ubi_query_to_user_query ([], 0)"

text \<open>The features under the identifiers of the query set.\<close>

definition scope_features ::
  "(string, string) pydict \<Rightarrow> (pair, feature_vec) pydict \<Rightarrow> (pair, feature_vec) pydict" where
  "scope_features query_id_map features =
     fold (\<lambda>((ubi_qid, doc), f) scoped. case map_of query_id_map ubi_qid of
         None \<Rightarrow> scoped | Some internal_qid \<Rightarrow> dict_set (internal_qid, doc) f scoped) features []"

section \<open>The reader\<close>

definition ES_MAX_RESULT_WINDOW :: nat where "ES_MAX_RESULT_WINDOW = 10000"

fun comma_join :: "string list \<Rightarrow> string" where
  "comma_join [] = []"
| "comma_join [s] = s"
| "comma_join (s # ss) = s @ '','' @ comma_join ss"

definition serialized_terms_fragment_size :: "(string list \<Rightarrow> string) \<Rightarrow> string \<Rightarrow> string list \<Rightarrow> nat" where
  "serialized_terms_fragment_size dumps_terms engine_type ids =
     (if engine_type = ''solr'' then length (''{!terms f=query_id}'' @ comma_join ids)
      else length (dumps_terms ids))"

text \<open>\<open>over ids\<close>: the ids breach one of the two ceilings.\<close>

fun chunk_loop :: "('a list \<Rightarrow> bool) \<Rightarrow> 'a list \<Rightarrow> 'a list \<Rightarrow> 'a list list" where
  "chunk_loop over [] current = (if current = [] then [] else [current])"
| "chunk_loop over (qid # qids) current =
     (if over (current @ [qid])
      then if current = [] then [qid] # chunk_loop over qids [] else current # chunk_loop over qids [qid]
      else chunk_loop over qids (current @ [qid]))"

definition chunk_query_ids :: "(string list \<Rightarrow> nat) \<Rightarrow> int \<Rightarrow> int \<Rightarrow> string list \<Rightarrow> string list list" where
  "chunk_query_ids size_of max_count max_bytes query_ids =
     chunk_loop (\<lambda>c. max_count < int (length c) \<or> max_bytes < int (size_of c)) query_ids []"

text \<open>
  One scan through the pages of the engine. \<open>scan cursor size\<close> is its answer, \<open>None\<close> an
  exception. The loop ends at the end of the stream, at the ceiling, or never: the outer
  option. The result is the hits, what is left of the budget, and whether it was truncated.
\<close>

partial_function (option) scan_loop ::
  "('c option \<Rightarrow> nat \<Rightarrow> ('h list \<times> 'c option) option) \<Rightarrow> nat \<Rightarrow> 'c option \<Rightarrow> 'h list
   \<Rightarrow> ('h list \<times> nat \<times> bool) option option" where
  "scan_loop scan remaining cursor acc =
     (if remaining = 0 then Some (Some (acc, 0, cursor \<noteq> None))
      else (case scan cursor (min ES_MAX_RESULT_WINDOW remaining) of
          None \<Rightarrow> Some None
        | Some (hits, next_cursor) \<Rightarrow>
            (if next_cursor = None then Some (Some (acc @ take remaining hits, remaining - length (take remaining hits), False))
             else if length (take remaining hits) < length hits
             then Some (Some (acc @ take remaining hits, remaining - length (take remaining hits), True))
             else scan_loop scan (remaining - length (take remaining hits)) next_cursor (acc @ take remaining hits))))"

text \<open>The usable hits of the query index.\<close>

definition extract_query_hits :: "obj option list \<Rightarrow> (string \<times> string) list" where
  "extract_query_hits hits = List.map_filter (\<lambda>h. case h of
       None \<Rightarrow> None
     | Some source \<Rightarrow> (case (obj_get source ''query_id'', obj_get source ''user_query'') of
         (PStr q, PStr u) \<Rightarrow> Some (q, u) | _ \<Rightarrow> None)) hits"

text \<open>The events of all chunks, under one ceiling.\<close>

fun scan_chunks ::
  "(string list \<Rightarrow> 'c option \<Rightarrow> nat \<Rightarrow> (obj option list \<times> 'c option) option) \<Rightarrow> string list list \<Rightarrow> nat \<Rightarrow> obj list
   \<Rightarrow> (obj list \<times> nat \<times> bool) option option" where
  "scan_chunks scan [] remaining out = Some (Some (out, remaining, False))"
| "scan_chunks scan (batch # batches) remaining out =
     (if remaining = 0 then Some (Some (out, 0, True))
      else (case scan_loop (scan batch) remaining None [] of
          None \<Rightarrow> None
        | Some None \<Rightarrow> Some None
        | Some (Some (hits, remaining', truncated)) \<Rightarrow>
            (case scan_chunks scan batches remaining' (out @ List.map_filter id hits) of
               Some (Some (out', r, t)) \<Rightarrow> Some (Some (out', r, truncated \<or> t))
             | other \<Rightarrow> other)))"

text \<open>The outer sum is an exception.\<close>

definition doc_id_of :: "(pyval \<Rightarrow> string) \<Rightarrow> pyval \<Rightarrow> string option" where
  "doc_id_of py_str v =
     (if v = PNone then None else (let s = py_strip (py_str v) in if s = [] then None else Some s))"

definition extract_event ::
  "(pyval \<Rightarrow> string) \<Rightarrow> (string \<Rightarrow> string) \<Rightarrow> obj \<Rightarrow> conv_error + ubi_event option" where
  "extract_event py_str lower source =
     (case (obj_get source ''query_id'', obj_get source ''action_name'') of
        (PStr query_id, PStr action_name) \<Rightarrow>
          (let attrs = (case obj_get source ''event_attributes'' of PDict a \<Rightarrow> a | _ \<Rightarrow> []);
               nested = (case obj_get attrs ''object'' of PDict ob \<Rightarrow> doc_id_of py_str (obj_get ob ''object_id'') | _ \<Rightarrow> None);
               doc = (case nested of Some s \<Rightarrow> Some s | None \<Rightarrow> doc_id_of py_str (obj_get source ''object_id''))
           in case doc of
                None \<Rightarrow> Inr None
              | Some doc_id \<Rightarrow>
                (let raw_position = obj_get_default attrs ''position'' (obj_get source ''position'');
                     raw_dwell = obj_get_default attrs ''dwell_time_seconds''
                       (obj_get_default attrs ''dwell_seconds'' (obj_get source ''dwell_seconds''));
                     position = (case raw_position of
                         PFloat x \<Rightarrow> map_sum id Some (int_conv (PFloat x))
                       | v \<Rightarrow> Inr (int_of v));
                     dwell = (if num_of raw_dwell = None then Inr None
                       else map_sum id Some (float_conv (\<lambda>_. None) raw_dwell))
                 in case position of
                      Inl e \<Rightarrow> Inl e
                    | Inr p \<Rightarrow> (case dwell of
                        Inl e \<Rightarrow> Inl e
                      | Inr w \<Rightarrow> Inr (Some \<lparr>ue_query_id = query_id, ue_doc_id = doc_id,
                          ue_event_type = lower action_name, ue_position = p, ue_dwell_seconds = w\<rparr>))))
      | _ \<Rightarrow> Inr None)"

fun bucket_events ::
  "(pyval \<Rightarrow> string) \<Rightarrow> (string \<Rightarrow> string) \<Rightarrow> obj list \<Rightarrow> (pair, ubi_event list) pydict
   \<Rightarrow> conv_error + (pair, ubi_event list) pydict" where
  "bucket_events py_str lower [] acc = Inr acc"
| "bucket_events py_str lower (raw # raws) acc =
     (case extract_event py_str lower raw of
        Inl e \<Rightarrow> Inl e
      | Inr None \<Rightarrow> bucket_events py_str lower raws acc
      | Inr (Some e) \<Rightarrow>
          (let p = (ue_query_id e, ue_doc_id e); old = (case map_of acc p of None \<Rightarrow> [] | Some es \<Rightarrow> es)
           in bucket_events py_str lower raws (dict_set p (old @ [e]) acc)))"

text \<open>The reader's environment: whether the index is there, the pages, the settings.\<close>

record 'c ubi_engine =
  ub_enabled :: bool
  ub_queries :: "'c option \<Rightarrow> nat \<Rightarrow> (obj option list \<times> 'c option) option"
  ub_events :: "string list \<Rightarrow> 'c option \<Rightarrow> nat \<Rightarrow> (obj option list \<times> 'c option) option"
  ub_size_of :: "string list \<Rightarrow> nat"
  ub_prior :: "(int, pyfloat) pydict"
  ub_max_queries :: nat
  ub_max_events :: nat
  ub_batch_size :: int
  ub_batch_bytes :: int

datatype ubi_error = UbiNotEnabled | ScanFailed | BadEvent conv_error | InvalidFeature

definition read_features ::
  "'c ubi_engine \<Rightarrow> (pyval \<Rightarrow> string) \<Rightarrow> (string \<Rightarrow> string) \<Rightarrow> (ubi_error + (pair, feature_vec) pydict) option" where
  "read_features eng py_str lower =
     (if \<not> ub_enabled eng then Some (Inl UbiNotEnabled)
      else (case scan_loop (ub_queries eng) (ub_max_queries eng) None [] of
          None \<Rightarrow> None
        | Some None \<Rightarrow> Some (Inl ScanFailed)
        | Some (Some (hits, _)) \<Rightarrow>
          (let queries = extract_query_hits hits in
           if queries = [] then Some (Inr [])
           else (case scan_chunks (ub_events eng)
                 (chunk_query_ids (ub_size_of eng) (ub_batch_size eng) (ub_batch_bytes eng) (sorted_set (map fst queries)))
                 (ub_max_events eng) [] of
               None \<Rightarrow> None
             | Some None \<Rightarrow> Some (Inl ScanFailed)
             | Some (Some (raws, _)) \<Rightarrow>
               (case bucket_events py_str lower raws [] of
                  Inl e \<Rightarrow> Some (Inl (BadEvent e))
                | Inr events_by_pair \<Rightarrow>
                  if events_by_pair = [] then Some (Inr [])
                  else (case aggregate_features events_by_pair (ub_prior eng) of
                      None \<Rightarrow> Some (Inl InvalidFeature)
                    | Some fs \<Rightarrow> Some (Inr fs)))))))"

definition read_user_query_map :: "'c ubi_engine \<Rightarrow> (ubi_error + (string, string) pydict) option" where
  "read_user_query_map eng =
     (case scan_loop (ub_queries eng) (ub_max_queries eng) None [] of
        None \<Rightarrow> None
      | Some None \<Rightarrow> Some (Inl ScanFailed)
      | Some (Some (hits, _)) \<Rightarrow> Some (Inr (fold (\<lambda>(q, u). dict_set q u) (extract_query_hits hits) [])))"

section \<open>Lemmas on features\<close>

lemma rnd64_count: "n < 2 ^ 53 \<Longrightarrow> rnd64 (of_nat n) = Fin (of_nat n)"
  using rnd64_of_int [of "int n"] by simp

lemma ctr_bounds:
  assumes "clicks < 2 ^ 53"
  shows "fle (Fin 0) (corrected_ctr clicks w) \<and> fle (corrected_ctr clicks w) (Fin 1)"
proof (cases "flt (Fin 0) w")
  case True
  have "\<exists>v. fdiv (Fin (of_nat clicks)) w = Some v \<and> fle (Fin 0) v"
    using True by (cases w) (auto intro: r64.rnd_nonneg)
  then obtain v where v: "fdiv (Fin (of_nat clicks)) w = Some v" "fle (Fin 0) v" by blast
  show ?thesis
    using v True by (cases v) (simp_all add: corrected_ctr_def fmin_def rnd64_count [OF assms])
qed (simp add: corrected_ctr_def)

definition typed :: "string \<Rightarrow> ubi_event list \<Rightarrow> nat" where
  "typed k es = length (filter (\<lambda>e. ue_event_type e = k) es)"

lemma typed_simps [simp]:
  "typed k [] = 0" "typed k (es @ [e]) = typed k es + (if ue_event_type e = k then 1 else 0)"
  by (simp_all add: typed_def)

lemma tally_counts:
  "ta_clicks (fold (count_event prior) es no_tally) = typed ''click'' es \<and>
   ta_impressions (fold (count_event prior) es no_tally) = typed ''impression'' es \<and>
   ta_conversions (fold (count_event prior) es no_tally) = typed ''conversion'' es \<and>
   ta_refinements (fold (count_event prior) es no_tally) = typed ''refinement'' es"
  by (induction es rule: rev_induct) (auto simp: no_tally_def count_event_def)

lemma typed_le: "typed k es \<le> length es"
  by (simp add: typed_def)

lemma uninformed_weight:
  "length es < 2 ^ 53 \<Longrightarrow> ta_weighted (fold (count_event []) es no_tally) = Fin (of_nat (typed ''impression'' es))"
proof (induction es rule: rev_induct)
  case (snoc e es)
  have "typed ''impression'' es + 1 < 2 ^ 53" using typed_le [of "''impression''" es] snoc.prems by simp
  then have "rnd64 (of_int (int (typed ''impression'' es + 1))) = Fin (of_int (int (typed ''impression'' es + 1)))"
    by (intro rnd64_of_int) auto
  then have "rnd64 (of_nat (typed ''impression'' es) + 1) = Fin (of_nat (typed ''impression'' es) + 1)"
    by (simp add: algebra_simps)
  then show ?case using snoc by (auto simp: count_event_def rank_weight_def Let_def add.commute)
qed (simp add: no_tally_def)

section \<open>Lemmas on chunks and scans\<close>

lemma chunk_concat: "concat (chunk_loop over ids current) = current @ ids"
  by (induction over ids current rule: chunk_loop.induct) auto

lemma chunk_bounds:
  "(current = [] \<or> \<not> over current \<or> length current = 1) \<Longrightarrow> c \<in> set (chunk_loop over ids current) \<Longrightarrow>
     c \<noteq> [] \<and> (\<not> over c \<or> length c = 1)"
  by (induction over ids current rule: chunk_loop.induct) (auto split: if_splits)

text \<open>
  An engine that pages through \<open>hits\<close>: a cursor stands for an offset, a page holds the next
  hits, at most as many as asked for, and only the last one carries no cursor.
\<close>

definition pages_through ::
  "('c option \<Rightarrow> nat \<Rightarrow> ('h list \<times> 'c option) option) \<Rightarrow> ('c \<Rightarrow> nat) \<Rightarrow> 'h list \<Rightarrow> bool" where
  "pages_through scan pos hits =
     (\<forall>c k. 0 < k \<longrightarrow> (let off = (case c of None \<Rightarrow> 0 | Some x \<Rightarrow> pos x) in
        \<exists>n c'. scan c k = Some (take n (drop off hits), c') \<and> n \<le> k \<and>
          (case c' of None \<Rightarrow> length hits \<le> off + n
           | Some x \<Rightarrow> pos x = off + n \<and> 0 < n \<and> off + n \<le> length hits)))"

lemma scan_loop_reads:
  assumes "pages_through scan pos hits"
  shows "off = (case c of None \<Rightarrow> 0 | Some x \<Rightarrow> pos x) \<Longrightarrow> acc = take off hits \<Longrightarrow> off \<le> length hits \<Longrightarrow>
    \<exists>left trunc. scan_loop scan remaining c acc = Some (Some (take (off + remaining) hits, left, trunc)) \<and>
      left = off + remaining - length (take (off + remaining) hits) \<and> (\<not> trunc \<longrightarrow> length hits \<le> off + remaining \<or> c = None \<and> remaining = 0)"
proof (induction remaining arbitrary: c acc off rule: less_induct)
  case (less remaining)
  show ?case
  proof (cases "remaining = 0")
    case True
    then show ?thesis using less.prems by (auto simp: scan_loop.simps [of scan 0])
  next
    case False
    let ?k = "min ES_MAX_RESULT_WINDOW remaining"
    have "0 < ?k" using False by (simp add: ES_MAX_RESULT_WINDOW_def)
    then obtain n c' where page: "scan c ?k = Some (take n (drop off hits), c')" "n \<le> ?k"
      "case c' of None \<Rightarrow> length hits \<le> off + n | Some x \<Rightarrow> pos x = off + n \<and> 0 < n \<and> off + n \<le> length hits"
      using assms less.prems(1) unfolding pages_through_def Let_def by metis
    have whole: "take remaining (take n (drop off hits)) = take n (drop off hits)" using page(2) by simp
    have acc: "acc @ take n (drop off hits) = take (off + n) hits"
      by (simp add: less.prems(2) take_add)
    show ?thesis
    proof (cases c')
      case None
      have e: "take (off + n) hits = hits" "take (off + remaining) hits = hits" using page(2,3) None by auto
      have "length hits - off \<le> remaining" "length hits - off \<le> n" using page(2,3) None by auto
      then have "scan_loop scan remaining c acc = Some (Some (hits, remaining - (length hits - off), False))"
        using False page(1) None acc e(1) by (simp add: scan_loop.simps [of scan remaining])
      then show ?thesis using e less.prems(3) page(2,3) None by auto
    next
      case (Some x)
      then have x: "pos x = off + n" "0 < n" "off + n \<le> length hits" using page(3) by auto
      have rec: "scan_loop scan remaining c acc = scan_loop scan (remaining - n) (Some x) (take (off + n) hits)"
        using False page(1,2) Some acc x(3) by (simp add: scan_loop.simps [of scan remaining])
      have "remaining - n < remaining" using x(2) False by simp
      from less.IH [OF this, of "off + n" "Some x" "take (off + n) hits"] x page(2)
      show ?thesis unfolding rec by auto
    qed
  qed
qed

section \<open>Lemmas on converters\<close>

lemma threshold_rating_range: "threshold_rating x th \<in> {0, 1, 2, 3}"
  by (simp add: threshold_rating_def)

lemma threshold_rating_mono: "fle x y \<Longrightarrow> threshold_rating x th \<le> threshold_rating y th"
  by (auto simp: threshold_rating_def dest: fle_flt_trans)

lemma map_of_filter_keys:
  "dict_ok d \<Longrightarrow> map_of (filter (\<lambda>(k, v). P v) d) k = (case map_of d k of None \<Rightarrow> None | Some v \<Rightarrow> if P v then Some v else None)"
proof (induction d)
  case (Cons e d)
  then show ?case
    by (cases e) (auto simp: dict_ok_def dict_keys_def map_of_eq_None_iff split: option.splits)
qed simp

lemma map_of_map_filter_keys:
  "dict_ok d \<Longrightarrow> map_of (List.map_filter (\<lambda>(k, v). map_option (\<lambda>x. (k, g x)) (h v)) d) k =
     (case map_of d k of None \<Rightarrow> None | Some v \<Rightarrow> map_option g (h v))"
proof (induction d)
  case (Cons e d)
  have "k \<notin> fst ` set d \<Longrightarrow> map_of (List.map_filter (\<lambda>(k, v). map_option (\<lambda>x. (k, g x)) (h v)) d) k = None" for k
    by (force simp: map_of_eq_None_iff List.map_filter_def)
  with Cons show ?case
    by (cases e) (auto simp: dict_ok_def dict_keys_def List.map_filter_simps split: option.splits)
qed (simp add: List.map_filter_simps)

lemma dict_ok_filter: "dict_ok d \<Longrightarrow> dict_ok (filter P d)"
  by (auto simp: dict_ok_def dict_keys_def distinct_map_filter)

lemma map_of_map_val: "map_of (map (\<lambda>(k, v). (k, f v)) d) k = map_option f (map_of d k)"
  by (induction d) auto

text \<open>What a pure converter makes of the features of one pair.\<close>

definition ctr_rating :: "(int, pyfloat) pydict \<Rightarrow> feature_vec \<Rightarrow> int option" where
  "ctr_rating th f = (if fv_impression_count f \<noteq> 0 then Some (threshold_rating (fv_corrected_ctr f) th) else None)"

definition dwell_rating :: "(int, pyfloat) pydict \<Rightarrow> feature_vec \<Rightarrow> int option" where
  "dwell_rating th f = map_option (\<lambda>x. threshold_rating x th) (fv_dwell_mean_seconds f)"

lemma ctr_lookup:
  assumes "ctr_convert fos features extra = Inr r" "dict_ok features"
  shows "\<exists>th. resolve_thresholds fos extra CTR_DEFAULTS = Inr th \<and>
    (\<forall>p. map_of r p = (case map_of features p of None \<Rightarrow> None | Some f \<Rightarrow> ctr_rating th f))"
proof -
  obtain th where th: "resolve_thresholds fos extra CTR_DEFAULTS = Inr th" using assms(1)
    by (auto simp: ctr_convert_def split: sum.splits)
  have "map_of r p = (case map_of features p of None \<Rightarrow> None | Some f \<Rightarrow> ctr_rating th f)" for p
    using assms(1) th map_of_filter_keys [OF assms(2), of "\<lambda>f. fv_impression_count f \<noteq> 0" p]
    by (auto simp: ctr_convert_def map_of_map_val ctr_rating_def split: option.splits)
  with th show ?thesis by blast
qed

lemma dwell_lookup:
  assumes "dwell_convert fos features extra = Inr r" "dict_ok features"
  shows "\<exists>th. resolve_thresholds fos extra DWELL_DEFAULTS = Inr th \<and>
    (\<forall>p. map_of r p = (case map_of features p of None \<Rightarrow> None | Some f \<Rightarrow> dwell_rating th f))"
proof -
  obtain th where th: "resolve_thresholds fos extra DWELL_DEFAULTS = Inr th" using assms(1)
    by (auto simp: dwell_convert_def split: sum.splits)
  have "map_of r p = (case map_of features p of None \<Rightarrow> None | Some f \<Rightarrow> dwell_rating th f)" for p
    using assms(1) th map_of_map_filter_keys [OF assms(2), of "\<lambda>x. threshold_rating x th" fv_dwell_mean_seconds p]
    by (auto simp: dwell_convert_def dwell_rating_def split: option.splits)
  with th show ?thesis by blast
qed

section \<open>Lemmas on the mapping\<close>

lemma most_recent_in: "most_recent b rs \<in> set (b # rs) \<and> (\<forall>r\<in>set (b # rs). qr_created_at r \<le> qr_created_at (most_recent b rs))"
  by (induction b rs rule: most_recent.induct) fastforce+

lemma pick_query_in:
  assumes "pick_query strat cs = Some i" "cs \<noteq> []"
  shows "\<exists>r\<in>set cs. qr_id r = i"
proof -
  have "sort_key qr_id cs \<noteq> []" using assms(2) by (metis set_sort set_empty)
  then have "hd (sort_key qr_id cs) \<in> set cs" using hd_in_set by fastforce
  moreover have "most_recent (hd cs) (tl cs) \<in> set cs"
    using most_recent_in [of "hd cs" "tl cs"] assms(2) by simp
  ultimately show ?thesis using assms(1) by (auto simp: pick_query_def split: if_splits)
qed

lemma match_query_in: "match_query rows strat u = Match i \<Longrightarrow> \<exists>r\<in>set rows. qr_id r = i \<and> qr_query_text r = u"
proof -
  assume m: "match_query rows strat u = Match i"
  obtain cs where cs: "filter (\<lambda>r. qr_query_text r = u) rows = cs" by simp
  have "\<exists>r\<in>set cs. qr_id r = i"
    using m pick_query_in [of strat cs i] unfolding match_query_def cs by (cases cs) (auto split: list.splits option.splits)
  moreover have "set cs = {r \<in> set rows. qr_query_text r = u}" using cs by auto
  ultimately show ?thesis by blast
qed

lemma match_query_unique:
  "r \<in> set rows \<Longrightarrow> filter (\<lambda>x. qr_query_text x = qr_query_text r) rows = [r] \<Longrightarrow> match_query rows strat (qr_query_text r) = Match (qr_id r)"
  by (simp add: match_query_def)

lemma apply_mapping_spec:
  "dict_ok (done' @ ubi) \<Longrightarrow> apply_mapping_loop rows strat ubi (m, n) = (m', n') \<Longrightarrow>
    set (dict_keys m) \<subseteq> set (dict_keys done') \<Longrightarrow>
    (\<forall>q. map_of m' q = (case map_of ubi q of
        Some u \<Rightarrow> (case match_query rows strat u of Match i \<Rightarrow> Some i | _ \<Rightarrow> None) | None \<Rightarrow> map_of m q)) \<and>
    n' = n + length (filter (\<lambda>(q, u). match_query rows strat u = Ambiguous) ubi)"
proof (induction ubi arbitrary: m n done')
  case (Cons e ubi)
  obtain q u where e: "e = (q, u)" by (cases e)
  have new: "map_of m q = None" using Cons.prems(1,3) e
    by (auto simp: dict_ok_def dict_keys_def map_of_eq_None_iff)
  define mn where "mn = (case match_query rows strat u of NoMatch \<Rightarrow> (m, n) | Ambiguous \<Rightarrow> (m, Suc n)
      | Match i \<Rightarrow> (dict_set q i m, n))"
  have "dict_ok ((done' @ [(q, u)]) @ ubi)" using Cons.prems(1) e by simp
  moreover have "apply_mapping_loop rows strat ubi (fst mn, snd mn) = (m', n')"
    using Cons.prems(2) by (simp add: e mn_def)
  moreover have "set (dict_keys (fst mn)) \<subseteq> set (dict_keys (done' @ [(q, u)]))"
    using Cons.prems(3) by (auto simp: mn_def dict_keys_def split: query_match.splits)
  ultimately have IH: "(\<forall>q. map_of m' q = (case map_of ubi q of
        Some u \<Rightarrow> (case match_query rows strat u of Match i \<Rightarrow> Some i | _ \<Rightarrow> None) | None \<Rightarrow> map_of (fst mn) q)) \<and>
      n' = snd mn + length (filter (\<lambda>(q, u). match_query rows strat u = Ambiguous) ubi)"
    by (rule Cons.IH)
  have "map_of ubi q = None" using Cons.prems(1) e by (auto simp: dict_ok_def dict_keys_def map_of_eq_None_iff)
  then show ?case using IH new by (auto simp: e mn_def split: query_match.splits option.splits)
qed simp

section \<open>What goes wrong\<close>

text \<open>
  The search engine gives every search a query id of its own, so one query text has many. The
  features of all of them but the last are thrown away.
\<close>

lemma searches_collapse:
  assumes "map_of query_id_map a = Some q" and "map_of query_id_map b = Some q"
  shows "scope_features query_id_map (features @ [((a, doc), f), ((b, doc), g)]) =
    scope_features query_id_map (features @ [((b, doc), g)])"
proof -
  have twice: "dict_set k g (dict_set k f d) = dict_set k g d" for k and d :: "(pair, feature_vec) pydict"
    by (induction d) auto
  show ?thesis using assms by (simp add: scope_features_def twice)
qed

section \<open>Properties\<close>

text \<open>A scan of an engine that pages ends, whatever the size of its pages, and yields exactly the first
  hits up to the ceiling; when it does not report a truncation, they are all.\<close>

theorem scan_reads_ceiling:
  assumes "pages_through scan pos hits"
  shows "\<exists>left truncated. scan_loop scan max_hits None [] = Some (Some (take max_hits hits, left, truncated)) \<and>
    left = max_hits - length hits \<and> (\<not> truncated \<and> 0 < max_hits \<longrightarrow> take max_hits hits = hits)"
  using scan_loop_reads [OF assms, of 0 None "[]" max_hits] by fastforce

text \<open>The query ids of a scan are split into consecutive batches, none lost and none repeated, each
  within both ceilings unless it is a single id.\<close>

theorem chunks_partition:
  "concat (chunk_query_ids size_of max_count max_bytes ids) = ids \<and>
   (\<forall>c\<in>set (chunk_query_ids size_of max_count max_bytes ids). c \<noteq> [] \<and>
      (length c = 1 \<or> int (length c) \<le> max_count \<and> int (size_of c) \<le> max_bytes))"
  using chunk_concat [of _ ids "[]"] chunk_bounds [of "[]" _ _ ids]
  by (fastforce simp: chunk_query_ids_def)

text \<open>The features of any events are valid: the counts are those of the events, the corrected rate is
  between 0 and 1 whatever the prior weighs, and without a prior it is the share of impressions
  that were clicked.\<close>

theorem features_valid:
  assumes "\<forall>(p, es)\<in>set E. length es < 2 ^ 53"
  shows "aggregate_features E prior = Some (map (\<lambda>(p, es). (p, feature_of prior es)) E) \<and>
    (\<forall>(p, es)\<in>set E. fv_click_count (feature_of prior es) = typed ''click'' es \<and>
       fv_impression_count (feature_of prior es) = typed ''impression'' es \<and>
       (prior = [] \<longrightarrow> fv_corrected_ctr (feature_of prior es) =
          (if typed ''impression'' es = 0 then Fin 0
           else fmin (rnd64 (of_nat (typed ''click'' es) / of_nat (typed ''impression'' es))) (Fin 1))))"
proof -
  have clicks: "typed k es < 2 ^ 53" if "(p, es) \<in> set E" for p es k
    using assms that typed_le [of k es] by fastforce
  have "fle (Fin 0) (fv_corrected_ctr (feature_of prior es)) \<and> fle (fv_corrected_ctr (feature_of prior es)) (Fin 1)"
    if "(p, es) \<in> set E" for p es
    using ctr_bounds [OF clicks [OF that, of "''click''"]] tally_counts [of prior es] by (simp add: feature_of_def Let_def)
  then have "aggregate_features E prior = Some (map (\<lambda>(p, es). (p, feature_of prior es)) E)"
    by (auto simp: aggregate_features_def Let_def list_all_iff)
  moreover have "fv_corrected_ctr (feature_of [] es) = (if typed ''impression'' es = 0 then Fin 0
      else fmin (rnd64 (of_nat (typed ''click'' es) / of_nat (typed ''impression'' es))) (Fin 1))"
    if "(p, es) \<in> set E" for p es
  proof -
    have "length es < 2 ^ 53" using assms that by auto
    then show ?thesis
      using uninformed_weight [of es] tally_counts [of "[]" es] rnd64_count [OF clicks [OF that, of "''click''"]]
      by (simp add: feature_of_def Let_def corrected_ctr_def)
  qed
  moreover have "fv_click_count (feature_of prior es) = typed ''click'' es \<and>
      fv_impression_count (feature_of prior es) = typed ''impression'' es" for es
    using tally_counts [of prior es] by (simp add: feature_of_def Let_def)
  ultimately show ?thesis by fastforce
qed

text \<open>The hybrid converter splits the pairs at its threshold: the model is asked about exactly those
  with fewer impressions, with their texts, and only if there are any. A pair above gets the
  rating of its clicks, whatever the model says; one below gets the answer of the model. Ratings
  of clicks are 0 to 3, and grow with the rate.\<close>

theorem hybrid_partition:
  assumes "hybrid_convert (ctr_convert float_of_str) llm_rate lookup features extra s = (Inr ratings, s')"
    and "dict_ok features"
  shows "\<exists>t th tail. int_conv (obj_get_default extra ''llm_fill_threshold'' (PInt HYBRID_LLM_FILL_THRESHOLD_DEFAULT)) = Inr t \<and>
    1 \<le> t \<and> resolve_thresholds float_of_str extra CTR_DEFAULTS = Inr th \<and>
    (let below = filter (\<lambda>(p, f). int (fv_impression_count f) < t) features
     in if below = [] then tail = [] \<and> s' = s
        else llm_rate (map (\<lambda>((q, doc), f). (q, doc, lookup q)) below) s = (Inr tail, s')) \<and>
    (\<forall>p f. map_of features p = Some f \<longrightarrow>
       map_of ratings p = (if t \<le> int (fv_impression_count f)
         then Some (threshold_rating (fv_corrected_ctr f) th) else map_of tail p)) \<and>
    (\<forall>x y. threshold_rating x th \<in> {0, 1, 2, 3} \<and> (fle x y \<longrightarrow> threshold_rating x th \<le> threshold_rating y th))"
proof -
  from assms(1) obtain t where t: "int_conv (obj_get_default extra ''llm_fill_threshold'' (PInt HYBRID_LLM_FILL_THRESHOLD_DEFAULT)) = Inr t"
    "1 \<le> t" by (auto simp: hybrid_convert_def split: sum.splits if_splits)
  define head where "head = filter (\<lambda>(p :: pair, f). t \<le> int (fv_impression_count f)) features"
  define tail_pairs where "tail_pairs = filter (\<lambda>(p :: pair, f). \<not> t \<le> int (fv_impression_count f)) features"
  have below: "tail_pairs = filter (\<lambda>(p, f). int (fv_impression_count f) < t) features"
    by (simp add: tail_pairs_def not_le)
  from assms(1) t obtain hr where hr: "ctr_convert float_of_str head extra = Inr hr"
    by (auto simp: hybrid_convert_def head_def Let_def split: sum.splits if_splits)
  obtain tl' where tl': "ratings = dict_update tl' hr"
    "if tail_pairs = [] then tl' = [] \<and> s' = s
     else llm_rate (map (\<lambda>((q, doc), f). (q, doc, lookup q)) tail_pairs) s = (Inr tl', s')"
  proof (cases "tail_pairs = []")
    case True
    then show ?thesis using assms(1) t hr that [of "[]"]
      by (simp add: hybrid_convert_def head_def tail_pairs_def Let_def)
  next
    case False
    obtain r s1 where r: "llm_rate (map (\<lambda>((q, doc), f). (q, doc, lookup q)) tail_pairs) s = (r, s1)" by fastforce
    then show ?thesis using assms(1) t hr False that
      by (cases r) (auto simp: hybrid_convert_def head_def [symmetric] tail_pairs_def [symmetric] Let_def)
  qed
  obtain th where th: "resolve_thresholds float_of_str extra CTR_DEFAULTS = Inr th"
    "\<And>p. map_of hr p = (case map_of head p of None \<Rightarrow> None | Some f \<Rightarrow> ctr_rating th f)"
    using ctr_lookup [OF hr] dict_ok_filter [OF assms(2)] unfolding head_def by blast
  have "dict_ok hr" using hr dict_ok_filter [OF assms(2)]
    by (auto simp: ctr_convert_def head_def dict_ok_def dict_keys_def o_def case_prod_unfold distinct_map_filter
        split: sum.splits)
  then have hr_rev: "map_of (rev hr) = map_of hr"
    by (auto simp: dict_ok_def dict_keys_def rev_map [symmetric] intro!: map_of_inject_set [THEN iffD2])
  have "map_of ratings p = (if t \<le> int (fv_impression_count f) then Some (threshold_rating (fv_corrected_ctr f) th) else map_of tl' p)"
    if "map_of features p = Some f" for p f
    using that th(2) [of p] t(2) map_of_filter_keys [OF assms(2), of "\<lambda>f. t \<le> int (fv_impression_count f)" p]
    by (auto simp: tl'(1) head_def ctr_rating_def hr_rev)
  then show ?thesis
    using t th(1) tl'(2) threshold_rating_range threshold_rating_mono unfolding below Let_def by blast
qed

text \<open>The mapping to the query set: a query id is mapped exactly when its text picks a query of that
  text - the only one, or the one the strategy picks - and what is counted as ambiguous are the
  ids whose text has several and a strategy that rejects.\<close>

theorem mapping_by_text:
  assumes "apply_mapping_strategy ubi rows strategy = (mapping, ambiguous)" and "dict_ok ubi"
  shows "(\<forall>q i. map_of mapping q = Some i \<longrightarrow>
       (\<exists>r\<in>set rows. qr_id r = i \<and> map_of ubi q = Some (qr_query_text r))) \<and>
    (\<forall>q. \<forall>r\<in>set rows. map_of ubi q = Some (qr_query_text r) \<and> filter (\<lambda>x. qr_query_text x = qr_query_text r) rows = [r]
       \<longrightarrow> map_of mapping q = Some (qr_id r)) \<and>
    ambiguous = length (filter (\<lambda>(q, u). match_query rows strategy u = Ambiguous) ubi)"
proof -
  have spec: "(\<forall>q. map_of mapping q = (case map_of ubi q of
        Some u \<Rightarrow> (case match_query rows strategy u of Match i \<Rightarrow> Some i | _ \<Rightarrow> None) | None \<Rightarrow> None)) \<and>
      ambiguous = length (filter (\<lambda>(q, u). match_query rows strategy u = Ambiguous) ubi)"
    using apply_mapping_spec [of "[]" ubi rows strategy "[]" 0 mapping ambiguous, unfolded map_of.simps(1)] assms
    by (simp add: apply_mapping_strategy_def dict_keys_def)
  show ?thesis
  proof (intro conjI allI ballI impI)
    fix q i assume "map_of mapping q = Some i"
    then obtain u where "map_of ubi q = Some u" "match_query rows strategy u = Match i"
      using spec by (auto split: option.splits query_match.splits)
    then show "\<exists>r\<in>set rows. qr_id r = i \<and> map_of ubi q = Some (qr_query_text r)"
      using match_query_in by fastforce
  next
    fix q r assume "r \<in> set rows" "map_of ubi q = Some (qr_query_text r) \<and> filter (\<lambda>x. qr_query_text x = qr_query_text r) rows = [r]"
    then show "map_of mapping q = Some (qr_id r)" using spec match_query_unique [of r rows strategy] by simp
  qed (use spec in blast)
qed

section \<open>Concrete inputs\<close>

definition sample_pages :: "'h list \<Rightarrow> nat option \<Rightarrow> nat \<Rightarrow> ('h list \<times> nat option) option" where
  "sample_pages hits c k =
     (let off = (case c of None \<Rightarrow> 0 | Some x \<Rightarrow> x); n = min 2 k
      in Some (take n (drop off hits), if off + n < length hits then Some (off + n) else None))"

lemma sample_pages_ok: "pages_through (sample_pages hits) (\<lambda>x. x) hits"
  unfolding pages_through_def
proof (intro allI impI)
  fix c :: "nat option" and k :: nat assume "0 < k"
  then show "let off = (case c of None \<Rightarrow> 0 | Some x \<Rightarrow> x) in \<exists>n c'. sample_pages hits c k = Some (take n (drop off hits), c') \<and>
      n \<le> k \<and> (case c' of None \<Rightarrow> length hits \<le> off + n | Some x \<Rightarrow> x = off + n \<and> 0 < n \<and> off + n \<le> length hits)"
    unfolding sample_pages_def Let_def by (intro exI conjI; (rule refl)?) auto
qed

lemma scan_reads_ceiling_witness:
  "\<exists>left truncated. scan_loop (sample_pages [1, 2, 3, 4 :: nat]) 3 None [] = Some (Some ([1, 2, 3], left, truncated))"
  using scan_reads_ceiling [OF sample_pages_ok, of "[1, 2, 3, 4 :: nat]" 3] by auto

lemma chunks_partition_witness:
  "concat (chunk_query_ids (serialized_terms_fragment_size (\<lambda>_. []) ''solr'') 2 60 [''a'', ''b'', ''c'']) = [''a'', ''b'', ''c'']"
  using chunks_partition by blast

definition sample_event :: "string \<Rightarrow> ubi_event" where
  "sample_event k = \<lparr>ue_query_id = ''u'', ue_doc_id = ''d'', ue_event_type = k, ue_position = Some 1, ue_dwell_seconds = None\<rparr>"

lemma features_valid_witness:
  "fv_click_count (feature_of [] [sample_event ''impression'', sample_event ''click'']) = 1"
proof -
  have "\<forall>(p, es)\<in>set [((''u'', ''d''), [sample_event ''impression'', sample_event ''click''])]. length es < 2 ^ 53" by simp
  from features_valid [OF this, of "[]"] show ?thesis by (simp add: typed_def sample_event_def)
qed

definition sample_feature :: "nat \<Rightarrow> feature_vec" where
  "sample_feature n = \<lparr>fv_click_count = 0, fv_impression_count = n, fv_corrected_ctr = Fin 0, fv_dwell_mean_seconds = None,
     fv_conversion_rate = None, fv_refinement_rate = None\<rparr>"

lemma hybrid_partition_witness:
  "\<exists>ratings s'. hybrid_convert (ctr_convert (\<lambda>_. None))
     (\<lambda>ps s. (Inr (map (\<lambda>(q, doc, u). ((q, doc), 3)) ps) :: unit + (pair, int) pydict, s + 1))
     (\<lambda>_. ''text'') [((''q'', ''d''), sample_feature 50), ((''q'', ''e''), sample_feature 2)] [] (0 :: nat) = (Inr ratings, s') \<and>
     map_of ratings (''q'', ''e'') = Some 3"
proof -
  let ?fs = "[((''q'', ''d''), sample_feature 50), ((''q'', ''e''), sample_feature 2)]"
  let ?llm = "\<lambda>ps s. (Inr (map (\<lambda>(q :: string, doc :: string, u :: string). ((q, doc), 3)) ps) :: unit + (pair, int) pydict, s + 1 :: nat)"
  obtain r where run: "hybrid_convert (ctr_convert (\<lambda>_. None)) ?llm (\<lambda>_. ''text'') ?fs [] 0 = (Inr r, 1)"
    by (simp add: hybrid_convert_def obj_get_default_def HYBRID_LLM_FILL_THRESHOLD_DEFAULT_def int_conv_def
        sample_feature_def ctr_convert_def resolve_thresholds_def obj_get_def Let_def)
  have "dict_ok ?fs" by (simp add: dict_ok_def dict_keys_def)
  from hybrid_partition [OF run this] have "map_of r (''q'', ''e'') = Some 3"
    by (auto simp: obj_get_default_def HYBRID_LLM_FILL_THRESHOLD_DEFAULT_def int_conv_def sample_feature_def)
  with run show ?thesis by blast
qed

lemma mapping_by_text_witness:
  "map_of (fst (apply_mapping_strategy [(''u'', ''shoes''), (''v'', ''hats'')]
     [\<lparr>qr_id = ''1'', qr_query_text = ''shoes'', qr_created_at = 0\<rparr>] ''reject'')) ''u'' = Some ''1''"
proof -
  let ?r = "\<lparr>qr_id = ''1'', qr_query_text = ''shoes'', qr_created_at = 0\<rparr>"
  obtain m n where m: "apply_mapping_strategy [(''u'', ''shoes''), (''v'', ''hats'')] [?r] ''reject'' = (m, n)" by fastforce
  have "dict_ok [(''u'', ''shoes''), (''v'', ''hats'')]" by (simp add: dict_ok_def dict_keys_def)
  from mapping_by_text [OF m this] have "map_of m ''u'' = Some ''1''" by simp
  then show ?thesis by (simp add: m)
qed

end
