(* ===== verification/Judgments.thy ===== *)
theory Judgments
  imports Budget Ubi
begin

text \<open>
  Judgment lists: their two tables (\<open>backend/app/db/repo/judgment_list.py\<close>,
  \<open>judgment.py\<close>), the language model that rates (\<open>backend/app/llm/openai_judge.py\<close>), default
  parameters of a template (\<open>backend/app/domain/study/template_defaults.py\<close>), the judgment of one
  query (\<open>backend/app/services/judgment_generation.py\<close>), the worker that judges a list
  (\<open>backend/workers/judgments.py\<close>) and the sweeps that resume it
  (\<open>backend/workers/judgments_resume.py\<close>, the start of \<open>all.py\<close>). The model's answers, the
  search, the prompt templates and the settings are the environment \<open>judge_env\<close>.
\<close>

section \<open>The tables\<close>

datatype list_status = Generating | ListComplete | ListFailed

record judgment_list =
  jl_id :: string
  jl_query_set_id :: string
  jl_cluster_id :: string
  jl_target :: string
  jl_current_template_id :: "string option"
  jl_rubric :: string
  jl_status :: list_status
  jl_failed_reason :: "string option"
  jl_calibration :: "obj option"
  jl_generation_params :: "obj option"

record rating_row =
  jg_judgment_list_id :: string
  jg_query_id :: string
  jg_doc_id :: string
  jg_rating :: int
  jg_source :: string
  jg_rater_ref :: "string option"
  jg_notes :: "string option"

record tables =
  jt_lists :: "judgment_list list"
  jt_rows :: "rating_row list"

definition get_judgment_list :: "tables \<Rightarrow> string \<Rightarrow> judgment_list option" where
  "get_judgment_list d i = find (\<lambda>l. jl_id l = i) (jt_lists d)"

definition update_list :: "string \<Rightarrow> (judgment_list \<Rightarrow> judgment_list) \<Rightarrow> tables \<Rightarrow> tables" where
  "update_list i f d = d\<lparr>jt_lists := map (\<lambda>l. if jl_id l = i then (f l)\<lparr>jl_id := i\<rparr> else l) (jt_lists d)\<rparr>"

text \<open>\<open>None\<close> is the \<open>LookupError\<close>.\<close>

definition update_judgment_list_status ::
  "string \<Rightarrow> list_status \<Rightarrow> string option \<Rightarrow> tables \<Rightarrow> tables option" where
  "update_judgment_list_status i status failed_reason d =
     (case get_judgment_list d i of
        None \<Rightarrow> None
      | Some _ \<Rightarrow> Some (update_list i (\<lambda>l. l\<lparr>jl_status := status,
          jl_failed_reason := (if failed_reason \<noteq> None then failed_reason else jl_failed_reason l)\<rparr>) d))"

definition update_judgment_list_calibration :: "string \<Rightarrow> obj \<Rightarrow> tables \<Rightarrow> tables option" where
  "update_judgment_list_calibration i calibration d =
     (case get_judgment_list d i of
        None \<Rightarrow> None | Some _ \<Rightarrow> Some (update_list i (\<lambda>l. l\<lparr>jl_calibration := Some calibration\<rparr>) d))"

definition list_generating_judgment_list_ids :: "tables \<Rightarrow> string list" where
  "list_generating_judgment_list_ids d = map jl_id (filter (\<lambda>l. jl_status l = Generating) (jt_lists d))"

definition key_of :: "rating_row \<Rightarrow> string \<times> string \<times> string" where
  "key_of j = (jg_judgment_list_id j, jg_query_id j, jg_doc_id j)"

text \<open>\<open>ON CONFLICT DO NOTHING\<close>: a row whose key is there already is left out.\<close>

fun insert_missing :: "rating_row list \<Rightarrow> rating_row list \<Rightarrow> rating_row list" where
  "insert_missing [] rows = rows"
| "insert_missing (j # js) rows =
     insert_missing js (if key_of j \<in> key_of ` set rows then rows else rows @ [j])"

definition bulk_create_judgments :: "rating_row list \<Rightarrow> tables \<Rightarrow> nat \<times> tables" where
  "bulk_create_judgments js d =
     (let rows = insert_missing js (jt_rows d) in (length rows - length (jt_rows d), d\<lparr>jt_rows := rows\<rparr>))"

definition upsert_judgment_human_override ::
  "string \<Rightarrow> string \<Rightarrow> string \<Rightarrow> int \<Rightarrow> string \<Rightarrow> string option \<Rightarrow> tables \<Rightarrow> tables" where
  "upsert_judgment_human_override judgment_list_id query_id doc_id rating rater_ref notes d =
     (let row = \<lparr>jg_judgment_list_id = judgment_list_id, jg_query_id = query_id, jg_doc_id = doc_id, jg_rating = rating,
          jg_source = ''human'', jg_rater_ref = Some rater_ref, jg_notes = notes\<rparr>
      in if key_of row \<in> key_of ` set (jt_rows d)
         then d\<lparr>jt_rows := map (\<lambda>j. if key_of j = key_of row then row else j) (jt_rows d)\<rparr>
         else d\<lparr>jt_rows := jt_rows d @ [row]\<rparr>)"

definition count_judgments_for_list :: "tables \<Rightarrow> string \<Rightarrow> string option \<Rightarrow> nat" where
  "count_judgments_for_list d i src =
     length (filter (\<lambda>j. jg_judgment_list_id j = i \<and> (case src of None \<Rightarrow> True | Some s \<Rightarrow> jg_source j = s)) (jt_rows d))"

definition count_judgments_for_list_and_query :: "tables \<Rightarrow> string \<Rightarrow> string \<Rightarrow> nat" where
  "count_judgments_for_list_and_query d i q =
     length (filter (\<lambda>j. jg_judgment_list_id j = i \<and> jg_query_id j = q) (jt_rows d))"

definition list_doc_ids_for_list_and_query :: "tables \<Rightarrow> string \<Rightarrow> string \<Rightarrow> nat \<Rightarrow> string list" where
  "list_doc_ids_for_list_and_query d i q limit =
     take limit (sort (map jg_doc_id (filter (\<lambda>j. jg_judgment_list_id j = i \<and> jg_query_id j = q) (jt_rows d))))"

definition source_breakdown_for_list :: "tables \<Rightarrow> string \<Rightarrow> (string, nat) pydict" where
  "source_breakdown_for_list d i =
     map (\<lambda>s. (s, count_judgments_for_list d i (Some s))) [''llm'', ''human'', ''click'']"

section \<open>The judge\<close>

text \<open>
  One answer of the API: a transient failure (rate limit, timeout, connection, 5xx), a refusal
  that no later call would escape, another 4xx, or a message - \<open>None\<close> when it is no JSON - with
  the tokens it used.
\<close>

datatype api_answer =
    Transient
  | Misconfigured
  | ClientError
  | Message "pyval option" int int

datatype judge_error =
    CallFailed
  | ProviderMisconfigured
  | MalformedAnswer
  | UnhashableDocId
  | Pricing cost_error

record doc_rating =
  dr_doc_id :: string
  dr_rating :: int
  dr_rationale :: string

record judge_result =
  jr_ratings :: "doc_rating list"
  jr_cost_usd :: pyfloat
  jr_model :: string

text \<open>The ratings of a message that are usable; a list or object as document id does not hash.\<close>

fun validate_ratings :: "string set \<Rightarrow> pyval list \<Rightarrow> judge_error + doc_rating list" where
  "validate_ratings expected [] = Inr []"
| "validate_ratings expected (item # items) =
     (case item of
        PDict ob \<Rightarrow>
          (case obj_get ob ''doc_id'' of
             PList _ \<Rightarrow> Inl UnhashableDocId
           | PDict _ \<Rightarrow> Inl UnhashableDocId
           | PStr doc_id \<Rightarrow>
               (case validate_ratings expected items of
                  Inl e \<Rightarrow> Inl e
                | Inr rest \<Rightarrow>
                    (case (obj_get ob ''rationale'', int_of (obj_get ob ''rating'')) of
                       (PStr rationale, Some rating) \<Rightarrow>
                         if doc_id \<in> expected \<and> 0 \<le> rating \<and> rating \<le> 3
                         then Inr (\<lparr>dr_doc_id = doc_id, dr_rating = rating, dr_rationale = rationale\<rparr> # rest)
                         else Inr rest
                     | _ \<Rightarrow> Inr rest))
           | _ \<Rightarrow> validate_ratings expected items)
      | _ \<Rightarrow> validate_ratings expected items)"

text \<open>
  The attempts that are left; the last error is what the loop ends with. The number counts the
  calls made.
\<close>

fun rate_attempts ::
  "string \<Rightarrow> (nat \<Rightarrow> api_answer) \<Rightarrow> string set \<Rightarrow> nat \<Rightarrow> nat \<Rightarrow> judge_error \<Rightarrow> (judge_error + judge_result) \<times> nat" where
  "rate_attempts model answers expected attempt 0 last_exc = (Inl last_exc, attempt)"
| "rate_attempts model answers expected attempt (Suc k) last_exc =
     (case answers attempt of
        Transient \<Rightarrow> rate_attempts model answers expected (Suc attempt) k CallFailed
      | Misconfigured \<Rightarrow> (Inl ProviderMisconfigured, Suc attempt)
      | ClientError \<Rightarrow> (Inl CallFailed, Suc attempt)
      | Message content input_tokens output_tokens \<Rightarrow>
          (case content of
             Some (PDict parsed) \<Rightarrow>
               (case obj_get parsed ''ratings'' of
                  PList raw_ratings \<Rightarrow>
                    (case validate_ratings expected raw_ratings of
                       Inl e \<Rightarrow> (Inl e, Suc attempt)
                     | Inr validated \<Rightarrow>
                         (case compute_call_cost model input_tokens output_tokens of
                            Inl e \<Rightarrow> (Inl (Pricing e), Suc attempt)
                          | Inr cost \<Rightarrow> (Inr \<lparr>jr_ratings = validated, jr_cost_usd = cost, jr_model = model\<rparr>, Suc attempt)))
                | _ \<Rightarrow> rate_attempts model answers expected (Suc attempt) k MalformedAnswer)
           | _ \<Rightarrow> rate_attempts model answers expected (Suc attempt) k MalformedAnswer))"

definition MAX_RETRIES :: nat where "MAX_RETRIES = 3"

definition rate_query_batch ::
  "string \<Rightarrow> (nat \<Rightarrow> api_answer) \<Rightarrow> string set \<Rightarrow> (judge_error + judge_result) \<times> nat" where
  "rate_query_batch model answers expected = rate_attempts model answers expected 0 MAX_RETRIES CallFailed"

section \<open>Default parameters\<close>

definition SIMPLE_FORM_DEFAULTS :: obj where
  "SIMPLE_FORM_DEFAULTS =
     [(''int'', PInt 1), (''float'', PFloat (Fin 1)), (''bool'', PBool False), (''string'', PStr [])]"

text \<open>The default of one declared parameter: none, or the \<open>OverflowError\<close> of \<open>float\<close>.\<close>

definition default_of :: "pyval \<Rightarrow> conv_error + pyval option" where
  "default_of schema = (case schema of
       PStr kind \<Rightarrow> Inr (map_of SIMPLE_FORM_DEFAULTS kind)
     | PDict sc \<Rightarrow>
         (let kind = obj_get sc ''type''; lo = obj_get sc ''min''; hi = obj_get sc ''max'' in
          if kind = PStr ''int'' then
            (case (int_of lo, int_of hi) of (Some a, Some b) \<Rightarrow> Inr (Some (PInt ((a + b) div 2))) | _ \<Rightarrow> Inr None)
          else if kind = PStr ''float'' then
            (if num_of lo = None \<or> num_of hi = None then Inr None
             else (case (float_conv (\<lambda>_. None) lo, float_conv (\<lambda>_. None) hi) of
                 (Inr a, Inr b) \<Rightarrow> Inr (map_option PFloat (fdiv (fadd a b) (Fin 2)))
               | _ \<Rightarrow> Inl Overflow))
          else if kind = PStr ''bool'' then Inr (Some (PBool False))
          else if kind = PStr ''categorical'' then
            (case obj_get sc ''values'' of PList (v # vs) \<Rightarrow> Inr (Some v) | _ \<Rightarrow> Inr None)
          else Inr None)
     | _ \<Rightarrow> Inr None)"

fun compute_default_params :: "obj \<Rightarrow> conv_error + obj" where
  "compute_default_params [] = Inr []"
| "compute_default_params ((name, schema) # declared) =
     (case (if name = ''query_normalizer'' then Inr (Some (PStr DEFAULT_NORMALIZER)) else default_of schema) of
        Inl e \<Rightarrow> Inl e
      | Inr dflt \<Rightarrow>
          (case compute_default_params declared of
             Inl e \<Rightarrow> Inl e
           | Inr params \<Rightarrow> Inr ((case dflt of None \<Rightarrow> [] | Some v \<Rightarrow> [(name, v)]) @ params)))"

section \<open>Judging one query\<close>

record scored_hit =
  sh_doc_id :: string
  sh_source :: pyval

datatype judge_crash = Survives | DiesBeforeInsert | DiesAfterInsert

text \<open>
  What surrounds one query: the daily budget, Redis and the time; the search with the rendered
  template; the prompt and the answers to it; how the insert ends and where the process dies.
\<close>

record judge_env =
  je_model :: string
  je_budget_usd :: pyfloat
  je_now :: int
  je_redis_up :: bool
  je_redis_add :: "pyfloat \<Rightarrow> pyfloat \<Rightarrow> pyfloat"
  je_record_fault :: redis_fault
  je_declared_params :: obj
  je_search :: "obj \<Rightarrow> string \<Rightarrow> scored_hit list option"
  je_dumps :: "pyval \<Rightarrow> string"
  je_py_str :: "pyval \<Rightarrow> string"
  je_render_user_prompt :: "string \<Rightarrow> string \<Rightarrow> (string \<times> string) list \<Rightarrow> string"
  je_bundle_system :: string
  je_answers :: "string \<Rightarrow> string \<Rightarrow> nat \<Rightarrow> api_answer"
  je_insert_ok :: bool
  je_crash :: judge_crash

definition DOC_BODY_CHAR_LIMIT :: nat where "DOC_BODY_CHAR_LIMIT = 500"

definition body_of :: "judge_env \<Rightarrow> pyval \<Rightarrow> string" where
  "body_of env src =
     (let source = (if truthy src then src else PDict []);
          body_raw = (case source of PDict ob \<Rightarrow> obj_get ob ''body'' | _ \<Rightarrow> PNone)
      in take DOC_BODY_CHAR_LIMIT (if truthy body_raw then je_py_str env body_raw else je_dumps env source))"

definition build_doc_inputs :: "judge_env \<Rightarrow> scored_hit list \<Rightarrow> (string \<times> string) list" where
  "build_doc_inputs env hits = map (\<lambda>h. (sh_doc_id h, body_of env (sh_source h))) hits"

definition item_id :: "nat \<Rightarrow> string" where
  "item_id i = ''item-'' @ nat_str i"

text \<open>The exception that leaves the judgment of a query, or its result; \<open>JudgeDied\<close> is a dead process.\<close>

datatype query_end =
    Judged
  | Skipped
  | BudgetExceeded
  | UnknownPricing
  | Unexpected
  | JudgeDied

definition over_budget :: "judge_env \<Rightarrow> redis \<Rightarrow> query_end option" where
  "over_budget env r =
     (if \<not> flt (Fin 0) (je_budget_usd env) then None
      else if \<not> je_redis_up env then Some Unexpected
      else (case estimated_max_call_cost (je_model env) of
          Inl (UnknownModelPricing _) \<Rightarrow> Some UnknownPricing
        | Inl TokenOverflow \<Rightarrow> Some Unexpected
        | Inr est_max \<Rightarrow>
            if flt (je_budget_usd env) (fadd (peek_daily_total r (je_now env)) est_max) then Some BudgetExceeded else None))"

definition system_prompt :: "string \<Rightarrow> string \<Rightarrow> string" where
  "system_prompt bundle_system rubric_text =
     bundle_system @ [CHR 0x0A, CHR 0x0A] @ ''<rubric>'' @ [CHR 0x0A] @ rubric_text @ [CHR 0x0A] @ ''</rubric>''"

definition record_judge_cost :: "judge_env \<Rightarrow> redis \<Rightarrow> pyfloat \<Rightarrow> redis" where
  "record_judge_cost env r cost = snd (safe_record_cost (je_redis_add env) (je_record_fault env) r cost (je_now env))"

definition judgment_rows ::
  "string \<Rightarrow> string \<Rightarrow> (string, string) pydict \<Rightarrow> judge_result \<Rightarrow> rating_row list" where
  "judgment_rows judgment_list_id query_id prompt_id_to_real res =
     map (\<lambda>r. \<lparr>jg_judgment_list_id = judgment_list_id, jg_query_id = query_id,
       jg_doc_id = the (map_of prompt_id_to_real (dr_doc_id r)), jg_rating = dr_rating r, jg_source = ''llm'',
       jg_rater_ref = Some (''openai:'' @ jr_model res), jg_notes = Some (dr_rationale r)\<rparr>) (jr_ratings res)"

text \<open>The part after the answer of the model.\<close>

definition persist_ratings ::
  "judge_env \<Rightarrow> string \<Rightarrow> string \<Rightarrow> (string, string) pydict \<Rightarrow> judge_result \<Rightarrow> tables \<times> redis
   \<Rightarrow> query_end \<times> tables \<times> redis" where
  "persist_ratings env judgment_list_id query_id prompt_id_to_real res s =
     (let (d, r) = s; returned_ids = map dr_doc_id (jr_ratings res) in
      if set returned_ids \<noteq> set (dict_keys prompt_id_to_real) \<or> \<not> distinct returned_ids
      then (Skipped, d, record_judge_cost env r (jr_cost_usd res))
      else if je_crash env = DiesBeforeInsert then (JudgeDied, d, r)
      else if \<not> je_insert_ok env then (Unexpected, d, r)
      else (let d' = snd (bulk_create_judgments (judgment_rows judgment_list_id query_id prompt_id_to_real res) d) in
            if je_crash env = DiesAfterInsert then (JudgeDied, d', r)
            else (Judged, d', record_judge_cost env r (jr_cost_usd res))))"

definition process_judgment_query ::
  "judge_env \<Rightarrow> judgment_list \<Rightarrow> query_row \<Rightarrow> tables \<times> redis \<Rightarrow> query_end \<times> tables \<times> redis" where
  "process_judgment_query env jl query s =
     (let (d, r) = s in
      if 0 < count_judgments_for_list_and_query d (jl_id jl) (qr_id query) then (Judged, d, r)
      else (case over_budget env r of
          Some e \<Rightarrow> (e, d, r)
        | None \<Rightarrow> (case compute_default_params (je_declared_params env) of
            Inl _ \<Rightarrow> (Unexpected, d, r)
          | Inr default_params \<Rightarrow> (case je_search env default_params (qr_query_text query) of
              None \<Rightarrow> (Skipped, d, r)
            | Some hits \<Rightarrow>
              (if hits = [] then (Judged, d, r)
               else
                (let raw_docs = build_doc_inputs env hits;
                     prompt_docs = map (\<lambda>(i, doc). (item_id i, snd doc)) (enumerate 0 raw_docs);
                     prompt_id_to_real = map (\<lambda>(i, doc). (item_id i, fst doc)) (enumerate 0 raw_docs);
                     user_prompt = je_render_user_prompt env (jl_rubric jl) (qr_query_text query) prompt_docs
                 in case fst (rate_query_batch (je_model env)
                       (je_answers env (system_prompt (je_bundle_system env) (jl_rubric jl)) user_prompt)
                       (set (dict_keys prompt_id_to_real))) of
                      Inl ProviderMisconfigured \<Rightarrow> (Unexpected, d, r)
                    | Inl _ \<Rightarrow> (Skipped, d, r)
                    | Inr res \<Rightarrow> persist_ratings env (jl_id jl) (qr_id query) prompt_id_to_real res (d, r)))))))"

section \<open>The worker\<close>

record worker_env =
  wk_cluster :: "string \<Rightarrow> string option"
  wk_url_allowed :: "string \<Rightarrow> bool"
  wk_template_found :: "string \<Rightarrow> bool"
  wk_queries :: "string \<Rightarrow> query_row list"
  wk_api_key :: bool
  wk_model :: string
  wk_judge :: "string \<Rightarrow> judge_env"
  wk_error_text :: string

datatype worker_end = WorkerDone | WorkerDied

definition set_list_status :: "string \<Rightarrow> list_status \<Rightarrow> string option \<Rightarrow> tables \<Rightarrow> tables" where
  "set_list_status i status reason d =
     (case update_judgment_list_status i status reason d of None \<Rightarrow> d | Some d' \<Rightarrow> d')"

definition fail_judgment_list :: "string \<Rightarrow> string \<Rightarrow> tables \<Rightarrow> tables" where
  "fail_judgment_list i reason d = set_list_status i ListFailed (Some reason) d"

text \<open>The queries one after another, until an exception; the number counts the skipped ones.\<close>

fun judge_queries ::
  "(string \<Rightarrow> judge_env) \<Rightarrow> judgment_list \<Rightarrow> query_row list \<Rightarrow> nat \<Rightarrow> tables \<times> redis \<Rightarrow> query_end option \<times> nat \<times> tables \<times> redis" where
  "judge_queries envs jl [] skipped s = (None, skipped, s)"
| "judge_queries envs jl (q # qs) skipped s =
     (case process_judgment_query (envs (qr_id q)) jl q s of
        (Judged, s') \<Rightarrow> judge_queries envs jl qs skipped s'
      | (Skipped, s') \<Rightarrow> judge_queries envs jl qs (Suc skipped) s'
      | (e, s') \<Rightarrow> (Some e, skipped, s'))"

definition end_of_queries ::
  "worker_env \<Rightarrow> string \<Rightarrow> query_end option \<times> nat \<times> tables \<times> redis \<Rightarrow> worker_end \<times> tables \<times> redis" where
  "end_of_queries env i outcome = (case outcome of
       (Some BudgetExceeded, _, d, r) \<Rightarrow> (WorkerDone, fail_judgment_list i ''OPENAI_BUDGET_EXCEEDED'' d, r)
     | (Some UnknownPricing, _, d, r) \<Rightarrow> (WorkerDone, fail_judgment_list i ''UNKNOWN_MODEL_PRICING'' d, r)
     | (Some JudgeDied, _, d, r) \<Rightarrow> (WorkerDied, d, r)
     | (Some _, _, d, r) \<Rightarrow> (WorkerDone, fail_judgment_list i (''UNEXPECTED:'' @ wk_error_text env) d, r)
     | (None, skipped, d, r) \<Rightarrow>
         (WorkerDone, if 0 < skipped
            then fail_judgment_list i (''PARTIAL_LLM_FAILURE: '' @ nat_str skipped @ '' queries unrated'') d
            else set_list_status i ListComplete None d, r))"

definition generate_judgments_llm ::
  "worker_env \<Rightarrow> string \<Rightarrow> tables \<times> redis \<Rightarrow> worker_end \<times> tables \<times> redis" where
  "generate_judgments_llm env i s =
     (let (d, r) = s in
      case get_judgment_list d i of
        None \<Rightarrow> (WorkerDone, d, r)
      | Some jl \<Rightarrow>
        (if jl_status jl \<noteq> Generating then (WorkerDone, d, r)
         else (case wk_cluster env (jl_cluster_id jl) of
            None \<Rightarrow> (WorkerDone, fail_judgment_list i ''CLUSTER_NOT_FOUND'' d, r)
          | Some base_url \<Rightarrow>
            (if (case jl_current_template_id jl of None \<Rightarrow> True | Some t \<Rightarrow> \<not> wk_template_found env t)
             then (WorkerDone, fail_judgment_list i ''TEMPLATE_NOT_FOUND'' d, r)
             else if wk_queries env (jl_query_set_id jl) = [] then (WorkerDone, set_list_status i ListComplete None d, r)
             else if \<not> wk_api_key env then (WorkerDone, fail_judgment_list i ''OPENAI_NOT_CONFIGURED'' d, r)
             else (case estimated_max_call_cost (wk_model env) of
                Inl (UnknownModelPricing _) \<Rightarrow> (WorkerDone, fail_judgment_list i ''UNKNOWN_MODEL_PRICING'' d, r)
              | Inl _ \<Rightarrow> (WorkerDone, fail_judgment_list i (''UNEXPECTED:'' @ wk_error_text env) d, r)
              | Inr _ \<Rightarrow>
                (if \<not> wk_url_allowed env base_url
                 then (WorkerDone, fail_judgment_list i (''UNEXPECTED:'' @ wk_error_text env) d, r)
                 else end_of_queries env i
                   (judge_queries (wk_judge env) jl (wk_queries env (jl_query_set_id jl)) 0 (d, r))))))))"

section \<open>Resuming\<close>

text \<open>
  The counter of a list and a day in Redis. An increment starts from a live entry; a failing
  \<open>EXPIRE\<close> leaves the entry as it was, without an expiry when it is new.
\<close>

type_synonym counters = "int \<times> string \<rightharpoonup> nat \<times> int option"

definition resume_counter_key :: "int \<Rightarrow> string \<Rightarrow> int \<times> string" where
  "resume_counter_key now judgment_list_id = (now div 86400, judgment_list_id)"

definition live_count :: "counters \<Rightarrow> int \<Rightarrow> int \<times> string \<Rightarrow> nat" where
  "live_count c now key = (case c key of
       None \<Rightarrow> 0 | Some (n, None) \<Rightarrow> n | Some (n, Some expires) \<Rightarrow> if now < expires then n else 0)"

text \<open>\<open>None\<close> is an exception of Redis.\<close>

definition increment_and_check_cap ::
  "redis_fault \<Rightarrow> string \<Rightarrow> int \<Rightarrow> int \<Rightarrow> counters \<Rightarrow> bool option \<times> counters" where
  "increment_and_check_cap fault judgment_list_id cap now c =
     (let key = resume_counter_key now judgment_list_id; count = Suc (live_count c now key) in
      case fault of
        IncrFails \<Rightarrow> (None, c)
      | ExpireFails \<Rightarrow> (None, c(key \<mapsto> (count, if count = 1 then None else snd (the (c key)))))
      | NoFault \<Rightarrow> (Some (cap < int count), c(key \<mapsto> (count, Some (now + TTL_SECONDS)))))"

text \<open>The queue takes a job unless one with its id waits.\<close>

datatype judge_job = JudgeLLM string | JudgeUbi string

definition enqueue :: "judge_job \<Rightarrow> judge_job list \<Rightarrow> judge_job list" where
  "enqueue j queue = (if j \<in> set queue then queue else queue @ [j])"

datatype sweep_end = SweepEnqueued | SweepCapped | SweepErrored

record sweep_env =
  sw_now :: int
  sw_cap :: int
  sw_fault :: "string \<Rightarrow> redis_fault"
  sw_enqueue_fails :: "string \<Rightarrow> bool"

fun sweep_ids ::
  "sweep_env \<Rightarrow> string list \<Rightarrow> counters \<times> judge_job list \<Rightarrow> (string \<times> sweep_end) list \<times> counters \<times> judge_job list" where
  "sweep_ids env [] s = ([], s)"
| "sweep_ids env (jid # jids) (c, queue) =
     (let (capped, c') = increment_and_check_cap (sw_fault env jid) jid (sw_cap env) (sw_now env) c;
          (outcome, queue') = (case capped of
              None \<Rightarrow> (SweepErrored, queue)
            | Some True \<Rightarrow> (SweepCapped, queue)
            | Some False \<Rightarrow> if sw_enqueue_fails env jid then (SweepErrored, queue)
                else (SweepEnqueued, enqueue (JudgeLLM jid) queue));
          (outcomes, s') = sweep_ids env jids (c', queue')
      in ((jid, outcome) # outcomes, s'))"

definition resume_stuck_judgment_lists ::
  "sweep_env \<Rightarrow> tables \<Rightarrow> counters \<times> judge_job list \<Rightarrow> (string \<times> sweep_end) list \<times> counters \<times> judge_job list" where
  "resume_stuck_judgment_lists env d s = sweep_ids env (list_generating_judgment_list_ids d) s"

text \<open>The same at the start of a worker, which tells the two kinds of lists apart.\<close>

definition boot_sweep :: "tables \<Rightarrow> judge_job list \<Rightarrow> judge_job list" where
  "boot_sweep d queue =
     fold (\<lambda>jid. enqueue (case get_judgment_list d jid of
         Some l \<Rightarrow> if jl_generation_params l \<noteq> None then JudgeUbi jid else JudgeLLM jid
       | None \<Rightarrow> JudgeLLM jid)) (list_generating_judgment_list_ids d) queue"

section \<open>Lemmas on the tables\<close>

lemma insert_missing_spec:
  "\<exists>new. insert_missing js rows = rows @ new \<and> set new \<subseteq> set js \<and> distinct (map key_of new) \<and>
     (\<forall>j\<in>set new. key_of j \<notin> key_of ` set rows) \<and> key_of ` set (rows @ new) = key_of ` set rows \<union> key_of ` set js"
proof (induction js rows rule: insert_missing.induct)
  case (2 j js rows)
  show ?case
  proof (cases "key_of j \<in> key_of ` set rows")
    case True
    from "2.IH" True obtain new where "insert_missing js rows = rows @ new" "set new \<subseteq> set js" "distinct (map key_of new)"
      "\<forall>j\<in>set new. key_of j \<notin> key_of ` set rows" "key_of ` set (rows @ new) = key_of ` set rows \<union> key_of ` set js" by auto
    then show ?thesis using True by (intro exI [of _ new]) auto
  next
    case False
    from "2.IH" False obtain new where new: "insert_missing js (rows @ [j]) = (rows @ [j]) @ new" "set new \<subseteq> set js"
      "distinct (map key_of new)" "\<forall>k\<in>set new. key_of k \<notin> key_of ` set (rows @ [j])"
      "key_of ` set ((rows @ [j]) @ new) = key_of ` set (rows @ [j]) \<union> key_of ` set js" by auto
    then show ?thesis using False by (intro exI [of _ "j # new"]) auto
  qed
qed simp

text \<open>The constraints of the table: the key is unique and ratings are 0 to 3.\<close>

definition rows_ok :: "tables \<Rightarrow> bool" where
  "rows_ok d = (distinct (map key_of (jt_rows d)) \<and> (\<forall>j\<in>set (jt_rows d). 0 \<le> jg_rating j \<and> jg_rating j \<le> 3))"

lemma bulk_create_ok:
  assumes "rows_ok d" "\<forall>j\<in>set js. 0 \<le> jg_rating j \<and> jg_rating j \<le> 3"
  shows "rows_ok (snd (bulk_create_judgments js d))"
proof -
  obtain new where "insert_missing js (jt_rows d) = jt_rows d @ new" "set new \<subseteq> set js" "distinct (map key_of new)"
    "\<forall>j\<in>set new. key_of j \<notin> key_of ` set (jt_rows d)" using insert_missing_spec by metis
  then show ?thesis using assms by (auto simp: rows_ok_def bulk_create_judgments_def Let_def)
qed

lemma upsert_ok:
  assumes "rows_ok d" "0 \<le> rating" "rating \<le> 3"
  shows "rows_ok (upsert_judgment_human_override i q doc rating ref notes d)"
proof -
  let ?r = "\<lparr>jg_judgment_list_id = i, jg_query_id = q, jg_doc_id = doc, jg_rating = rating,
     jg_source = ''human'', jg_rater_ref = Some ref, jg_notes = notes\<rparr>"
  have "map key_of (map (\<lambda>j. if key_of j = key_of ?r then ?r else j) (jt_rows d)) = map key_of (jt_rows d)" by simp
  then show ?thesis
    using assms by (auto simp: rows_ok_def upsert_judgment_human_override_def Let_def simp del: map_map)
qed

lemma get_judgment_list_id: "get_judgment_list d i = Some l \<Longrightarrow> jl_id l = i"
  by (auto simp: get_judgment_list_def dest: find_Some_in)

lemma get_update_list [simp]:
  "get_judgment_list (update_list i f d) i = map_option (\<lambda>l. (f l)\<lparr>jl_id := i\<rparr>) (get_judgment_list d i)"
proof -
  have "find (\<lambda>l. jl_id l = i) (map (\<lambda>l. if jl_id l = i then (f l)\<lparr>jl_id := i\<rparr> else l) ls) =
      map_option (\<lambda>l. (f l)\<lparr>jl_id := i\<rparr>) (find (\<lambda>l. jl_id l = i) ls)" for ls
    by (induction ls) auto
  then show ?thesis by (simp add: get_judgment_list_def update_list_def)
qed

lemma set_list_status_frame [simp]:
  "jt_rows (set_list_status i st reason d) = jt_rows d"
  by (simp add: set_list_status_def update_judgment_list_status_def update_list_def split: option.splits)

lemma set_list_status_get:
  "get_judgment_list d i = Some l \<Longrightarrow> \<exists>l'. get_judgment_list (set_list_status i st reason d) i = Some l' \<and> jl_status l' = st"
  by (simp add: set_list_status_def update_judgment_list_status_def)

lemma get_with_rows [simp]: "get_judgment_list (d\<lparr>jt_rows := rs\<rparr>) = get_judgment_list d"
  by (simp add: get_judgment_list_def fun_eq_iff)

section \<open>Lemmas on the judge\<close>

lemma validate_ratings_in:
  "validate_ratings expected items = Inr rs \<Longrightarrow> r \<in> set rs \<Longrightarrow> dr_doc_id r \<in> expected \<and> 0 \<le> dr_rating r \<and> dr_rating r \<le> 3"
  by (induction expected items arbitrary: rs rule: validate_ratings.induct)
    (fastforce split: pyval.splits sum.splits option.splits if_splits)+

lemma rate_attempts_spec:
  "rate_attempts model answers expected attempt k e = (res, calls) \<Longrightarrow> calls \<le> attempt + k \<and>
     (\<forall>x. res = Inr x \<longrightarrow> jr_model x = model \<and>
       (\<forall>r\<in>set (jr_ratings x). dr_doc_id r \<in> expected \<and> 0 \<le> dr_rating r \<and> dr_rating r \<le> 3))"
proof (induction k arbitrary: attempt e)
  case (Suc k)
  show ?case
  proof (cases "answers attempt")
    case (Message content i ou)
    show ?thesis
    proof (cases "\<exists>parsed raws. content = Some (PDict parsed) \<and> obj_get parsed ''ratings'' = PList raws")
      case True
      then show ?thesis using Suc.prems Message
        by (auto split: sum.splits dest: validate_ratings_in)
    next
      case False
      then have "rate_attempts model answers expected (Suc attempt) k MalformedAnswer = (res, calls)"
        using Suc.prems Message by (auto split: option.splits pyval.splits)
      from Suc.IH [OF this] show ?thesis by simp
    qed
  next
    case Transient
    then have "rate_attempts model answers expected (Suc attempt) k CallFailed = (res, calls)" using Suc.prems by simp
    from Suc.IH [OF this] show ?thesis by simp
  next
    case Misconfigured
    then have "res = Inl ProviderMisconfigured" "calls = Suc attempt" using Suc.prems by auto
    then show ?thesis by simp
  next
    case ClientError
    then have "res = Inl CallFailed" "calls = Suc attempt" using Suc.prems by auto
    then show ?thesis by simp
  qed
qed auto

text \<open>The ordinal ids of a prompt are distinct.\<close>

declare nat_str.simps [simp del]

lemma nat_str_last: "nat_str n \<noteq> [] \<and> last (nat_str n) = char_of (48 + n mod 10)"
  by (subst (1 2) nat_str.simps) simp

lemma digit_inj: "a < 10 \<Longrightarrow> b < 10 \<Longrightarrow> (char_of (48 + a) :: char) = char_of (48 + b) \<Longrightarrow> a = (b :: nat)"
proof -
  assume "a < 10" "b < 10" "(char_of (48 + a) :: char) = char_of (48 + b)"
  then have "(of_char (char_of (48 + a) :: char) :: nat) = of_char (char_of (48 + b) :: char)" by simp
  then show ?thesis using \<open>a < 10\<close> \<open>b < 10\<close> by simp
qed

lemma nat_str_length: "nat_str n = nat_str m \<Longrightarrow> n = m"
proof (induction n arbitrary: m rule: nat_str.induct)
  case (1 n)
  have l: "last (nat_str n) = last (nat_str m)" using 1(2) by simp
  have mod: "n mod 10 = m mod 10"
    using l nat_str_last [of n] nat_str_last [of m] by (intro digit_inj) auto
  have e: "nat_str k = (if k < 10 then [] else nat_str (k div 10)) @ [char_of (48 + k mod 10)]" for k
    by (subst nat_str.simps) simp
  have parts: "(if n < 10 then [] else nat_str (n div 10)) = (if m < 10 then [] else nat_str (m div 10))"
    using 1(2) e [of n] e [of m] by simp
  show ?case
  proof (cases "n < 10")
    case True
    then have "m < 10" using parts nat_str_last [of "m div 10"] by (auto split: if_splits)
    then show ?thesis using True mod by simp
  next
    case False
    then have m: "\<not> m < 10" using parts nat_str_last [of "n div 10"] by (auto split: if_splits)
    then have "n div 10 = m div 10" using 1(1) [OF False] False parts by simp
    then show ?thesis using mod by (metis mult_div_mod_eq)
  qed
qed

lemma item_id_inj: "item_id i = item_id j \<longleftrightarrow> i = j"
  using nat_str_length by (auto simp: item_id_def)

lemma prompt_ids:
  assumes "ids = map (\<lambda>(i, doc). (item_id i, fst doc)) (enumerate 0 docs)"
  shows "dict_ok ids" "(\<lambda>k. the (map_of ids k)) ` set (dict_keys ids) = fst ` set docs"
proof -
  have "map fst ids = map item_id [0..<length docs]"
  proof -
    have "map fst ids = map item_id (map fst (enumerate 0 docs))" by (simp add: assms o_def case_prod_unfold del: map_fst_enumerate)
    then show ?thesis by simp
  qed
  then show ok: "dict_ok ids" by (simp add: dict_ok_def dict_keys_def distinct_map inj_on_def item_id_inj)
  have "the (map_of ids k) = v" if "(k, v) \<in> set ids" for k v
    using that ok by (simp add: dict_ok_def dict_keys_def)
  then have "(\<lambda>k. the (map_of ids k)) ` fst ` set ids = snd ` set ids" by force
  moreover have "map snd ids = map fst (map snd (enumerate 0 docs))"
    by (simp add: assms o_def case_prod_unfold del: map_snd_enumerate)
  then have "snd ` set ids = fst ` set docs" by (metis map_snd_enumerate list.set_map)
  ultimately show "(\<lambda>k. the (map_of ids k)) ` set (dict_keys ids) = fst ` set docs" by (simp add: dict_keys_def)
qed

section \<open>Lemmas on a query and a list\<close>

lemma persist_spec:
  assumes "persist_ratings env i q ids res (d, r) = (e, d', r')" and "dict_ok ids"
    and "\<forall>x\<in>set (jr_ratings res). 0 \<le> dr_rating x \<and> dr_rating x \<le> 3"
    and "count_judgments_for_list_and_query d i q = 0"
  shows "jt_lists d' = jt_lists d \<and> (d' = d \<and> e \<noteq> Judged \<or>
    (\<exists>new. jt_rows d' = jt_rows d @ new \<and> distinct (map key_of new) \<and>
      (\<forall>j\<in>set new. jg_judgment_list_id j = i \<and> jg_query_id j = q \<and> jg_source j = ''llm'' \<and> 0 \<le> jg_rating j \<and> jg_rating j \<le> 3) \<and>
      jg_doc_id ` set new = (\<lambda>k. the (map_of ids k)) ` set (dict_keys ids)))"
proof (cases "d' = d \<and> e \<noteq> Judged")
  case False
  let ?js = "judgment_rows i q ids res"
  have "\<not> (set (map dr_doc_id (jr_ratings res)) \<noteq> set (dict_keys ids) \<or> \<not> distinct (map dr_doc_id (jr_ratings res)))"
    and "je_insert_ok env" and d': "d' = snd (bulk_create_judgments ?js d)"
    using assms(1) False by (auto simp: persist_ratings_def Let_def split: if_splits)
  then have ids: "dr_doc_id ` set (jr_ratings res) = set (dict_keys ids)" by auto
  obtain new where new: "insert_missing ?js (jt_rows d) = jt_rows d @ new" "set new \<subseteq> set ?js" "distinct (map key_of new)"
    "key_of ` set (jt_rows d @ new) = key_of ` set (jt_rows d) \<union> key_of ` set ?js"
    using insert_missing_spec [of ?js "jt_rows d"] by blast
  have old: "key_of j \<notin> key_of ` set (jt_rows d)" if "j \<in> set ?js" for j
    using that assms(4) by (auto simp: judgment_rows_def key_of_def count_judgments_for_list_and_query_def filter_empty_conv)
  have js: "jg_judgment_list_id j = i \<and> jg_query_id j = q \<and> jg_source j = ''llm'' \<and> 0 \<le> jg_rating j \<and> jg_rating j \<le> 3"
    if "j \<in> set ?js" for j using that assms(3) by (auto simp: judgment_rows_def)
  have "key_of ` set new = key_of ` set ?js"
  proof -
    have "key_of ` set ?js \<subseteq> key_of ` set (jt_rows d) \<union> key_of ` set new" using new(4) by auto
    then show ?thesis using new(2) old by blast
  qed
  then have "(snd \<circ> snd) ` key_of ` set new = (snd \<circ> snd) ` key_of ` set ?js" by simp
  then have "jg_doc_id ` set new = jg_doc_id ` set ?js" by (simp add: image_image key_of_def)
  also have "\<dots> = (\<lambda>k. the (map_of ids k)) ` dr_doc_id ` set (jr_ratings res)"
    by (simp add: judgment_rows_def image_image)
  finally have docs: "jg_doc_id ` set new = (\<lambda>k. the (map_of ids k)) ` set (dict_keys ids)" by (simp only: ids)
  have "jt_rows d' = jt_rows d @ new" "jt_lists d' = jt_lists d"
    by (simp_all add: d' bulk_create_judgments_def Let_def new(1))
  then show ?thesis using new(2,3) js docs by blast
next
  case True
  then show ?thesis by simp
qed

text \<open>What one query adds: nothing, or a rating of every document that was found.\<close>

definition adds_batch :: "judge_env \<Rightarrow> judgment_list \<Rightarrow> query_row \<Rightarrow> rating_row list \<Rightarrow> rating_row list \<Rightarrow> bool" where
  "adds_batch env jl q rows new =
     (\<exists>params hits. je_search env params (qr_query_text q) = Some hits \<and> hits \<noteq> [] \<and>
        (\<forall>j\<in>set rows. \<not> (jg_judgment_list_id j = jl_id jl \<and> jg_query_id j = qr_id q)) \<and> distinct (map key_of new) \<and>
        (\<forall>j\<in>set new. jg_judgment_list_id j = jl_id jl \<and> jg_query_id j = qr_id q \<and> jg_source j = ''llm'' \<and>
           0 \<le> jg_rating j \<and> jg_rating j \<le> 3) \<and>
        jg_doc_id ` set new = sh_doc_id ` set hits)"

definition covered :: "judge_env \<Rightarrow> judgment_list \<Rightarrow> query_row \<Rightarrow> tables \<Rightarrow> bool" where
  "covered env jl q d = ((\<exists>params. je_search env params (qr_query_text q) = Some []) \<or>
     0 < count_judgments_for_list_and_query d (jl_id jl) (qr_id q))"

lemma process_spec:
  assumes "process_judgment_query env jl q (d, r) = (e, d', r')"
  shows "jt_lists d' = jt_lists d \<and> (jt_rows d' = jt_rows d \<or> (\<exists>new. jt_rows d' = jt_rows d @ new \<and> adds_batch env jl q (jt_rows d) new)) \<and>
    (e = Judged \<longrightarrow> covered env jl q d')"
proof (cases "0 < count_judgments_for_list_and_query d (jl_id jl) (qr_id q)")
  case True
  then show ?thesis using assms by (simp add: process_judgment_query_def covered_def)
next
  case False
  show ?thesis
  proof (cases "\<exists>ps hits. over_budget env r = None \<and> compute_default_params (je_declared_params env) = Inr ps \<and>
      je_search env ps (qr_query_text q) = Some hits")
    case none: False
    then have "d' = d \<and> e \<noteq> Judged" using assms False
      by (auto simp: process_judgment_query_def over_budget_def split: option.splits sum.splits if_splits cost_error.splits)
    then show ?thesis by simp
  next
    case True
    then obtain ps hits where ok: "over_budget env r = None" "compute_default_params (je_declared_params env) = Inr ps"
      "je_search env ps (qr_query_text q) = Some hits" by blast
    show ?thesis
    proof (cases "hits = []")
      case True
      then show ?thesis using assms ok False by (auto simp: process_judgment_query_def covered_def)
    next
      case hits: False
      let ?docs = "build_doc_inputs env hits"
      let ?ids = "map (\<lambda>(i, doc). (item_id i, fst doc)) (enumerate 0 ?docs)"
      let ?prompt = "je_render_user_prompt env (jl_rubric jl) (qr_query_text q) (map (\<lambda>(i, doc). (item_id i, snd doc)) (enumerate 0 ?docs))"
      obtain res calls where rate: "rate_query_batch (je_model env)
          (je_answers env (system_prompt (je_bundle_system env) (jl_rubric jl)) ?prompt) (set (dict_keys ?ids)) = (res, calls)"
        by fastforce
      have run: "process_judgment_query env jl q (d, r) = (case res of
          Inl ProviderMisconfigured \<Rightarrow> (Unexpected, d, r) | Inl _ \<Rightarrow> (Skipped, d, r)
        | Inr x \<Rightarrow> persist_ratings env (jl_id jl) (qr_id q) ?ids x (d, r))"
        using False ok hits rate by (simp add: process_judgment_query_def Let_def)
      show ?thesis
      proof (cases res)
        case (Inl f)
        then show ?thesis using assms run by (auto split: judge_error.splits)
      next
        case (Inr x)
        have range: "\<forall>y\<in>set (jr_ratings x). 0 \<le> dr_rating y \<and> dr_rating y \<le> 3"
          using rate_attempts_spec [OF rate [unfolded rate_query_batch_def]] Inr by blast
        have pers: "persist_ratings env (jl_id jl) (qr_id q) ?ids x (d, r) = (e, d', r')"
          using assms run Inr by simp
        have zero: "count_judgments_for_list_and_query d (jl_id jl) (qr_id q) = 0" using False by simp
        have docs: "fst ` set ?docs = sh_doc_id ` set hits" by (simp add: build_doc_inputs_def image_image)
        have p: "jt_lists d' = jt_lists d \<and> (d' = d \<and> e \<noteq> Judged \<or>
            (\<exists>new. jt_rows d' = jt_rows d @ new \<and> distinct (map key_of new) \<and>
              (\<forall>j\<in>set new. jg_judgment_list_id j = jl_id jl \<and> jg_query_id j = qr_id q \<and> jg_source j = ''llm'' \<and> 0 \<le> jg_rating j \<and> jg_rating j \<le> 3) \<and>
              jg_doc_id ` set new = sh_doc_id ` set hits))"
          using persist_spec [OF pers prompt_ids(1) [OF refl] range zero] unfolding prompt_ids(2) [OF refl, of ?docs] docs .
        have fresh: "\<forall>j\<in>set (jt_rows d). \<not> (jg_judgment_list_id j = jl_id jl \<and> jg_query_id j = qr_id q)"
          using zero by (auto simp: count_judgments_for_list_and_query_def filter_empty_conv)
        show ?thesis
        proof (cases "d' = d \<and> e \<noteq> Judged")
          case False
          then obtain new where new: "jt_rows d' = jt_rows d @ new" "distinct (map key_of new)"
            "\<forall>j\<in>set new. jg_judgment_list_id j = jl_id jl \<and> jg_query_id j = qr_id q \<and> jg_source j = ''llm'' \<and> 0 \<le> jg_rating j \<and> jg_rating j \<le> 3"
            "jg_doc_id ` set new = sh_doc_id ` set hits" using p by blast
          have "adds_batch env jl q (jt_rows d) new" unfolding adds_batch_def using ok(3) hits fresh new by blast
          moreover obtain j where "j \<in> set new" using new(4) hits by (cases new) auto
          then have "0 < count_judgments_for_list_and_query d' (jl_id jl) (qr_id q)"
            using new(1,3) by (auto simp: count_judgments_for_list_and_query_def filter_empty_conv)
          ultimately show ?thesis using p new(1) by (auto simp: covered_def)
        qed (use p in simp)
      qed
    qed
  qed
qed

lemma covered_mono: "covered env jl q d \<Longrightarrow> set (jt_rows d) \<subseteq> set (jt_rows d') \<Longrightarrow> covered env jl q d'"
  by (auto simp: covered_def count_judgments_for_list_and_query_def filter_empty_conv)

lemma judge_queries_spec:
  "judge_queries envs jl qs n (d, r) = (e, n', d', r') \<Longrightarrow>
     jt_lists d' = jt_lists d \<and> set (jt_rows d) \<subseteq> set (jt_rows d') \<and> n \<le> n' \<and>
     (e = None \<and> n' = n \<longrightarrow> (\<forall>q\<in>set qs. covered (envs (qr_id q)) jl q d'))"
proof (induction qs arbitrary: n d r)
  case (Cons q qs)
  obtain f d1 r1 where p: "process_judgment_query (envs (qr_id q)) jl q (d, r) = (f, d1, r1)"
    using prod_cases3 by blast
  note spec = process_spec [OF p]
  have grow: "set (jt_rows d) \<subseteq> set (jt_rows d1)" using spec by auto
  show ?case
  proof (cases "f = Judged \<or> f = Skipped")
    case True
    then have rec: "judge_queries envs jl qs (if f = Judged then n else Suc n) (d1, r1) = (e, n', d', r')"
      using Cons.prems p by auto
    from Cons.IH [OF rec] have IH: "jt_lists d' = jt_lists d1" "set (jt_rows d1) \<subseteq> set (jt_rows d')"
      "(if f = Judged then n else Suc n) \<le> n'"
      "e = None \<and> n' = (if f = Judged then n else Suc n) \<longrightarrow> (\<forall>q\<in>set qs. covered (envs (qr_id q)) jl q d')" by auto
    show ?thesis using IH spec grow True covered_mono [OF _ IH(2)] by (auto split: if_splits)
  next
    case False
    then have "e = Some f \<and> n' = n \<and> d' = d1" using Cons.prems p by (auto split: query_end.splits)
    then show ?thesis using spec grow by simp
  qed
qed auto

section \<open>Lemmas on the sweep\<close>

text \<open>The live count of a day's key never goes back within the day.\<close>

lemma increment_same_day:
  assumes "increment_and_check_cap fault j cap now c = (capped, c')" and "t div 86400 = now div 86400"
    and inv: "\<forall>u. u div 86400 = now div 86400 \<longrightarrow> live_count c u (now div 86400, i) = m"
    and keep: "\<forall>n x. c (now div 86400, i) = Some (n, Some x) \<longrightarrow> (now div 86400 + 1) * 86400 \<le> x"
  shows "(\<forall>u. u div 86400 = now div 86400 \<longrightarrow>
      live_count c' u (now div 86400, i) = (if i = j \<and> fault \<noteq> IncrFails then Suc m else m)) \<and>
    (\<forall>n x. c' (now div 86400, i) = Some (n, Some x) \<longrightarrow> (now div 86400 + 1) * 86400 \<le> x) \<and>
    (i = j \<and> capped = Some False \<longrightarrow> int (Suc m) \<le> cap \<and> fault = NoFault)"
proof -
  have day: "u < (now div 86400 + 1) * 86400" if "u div 86400 = now div 86400" for u
  proof -
    have "u = u div 86400 * 86400 + u mod 86400" "u mod 86400 < 86400" by simp_all
    then have "u < now div 86400 * 86400 + 86400" unfolding that by simp
    then show ?thesis by (simp only: distrib_right mult_1)
  qed
  have now_day: "(now div 86400 + 1) * 86400 \<le> now + 86400"
  proof -
    have "now = now div 86400 * 86400 + now mod 86400" "0 \<le> now mod 86400" by simp_all
    then have "now div 86400 * 86400 + 86400 \<le> now + 86400" by simp
    then show ?thesis by (simp only: distrib_right mult_1)
  qed
  have ttl: "(now div 86400 + 1) * 86400 \<le> now + TTL_SECONDS" using now_day unfolding TTL_SECONDS_def by linarith
  have m: "live_count c now (now div 86400, i) = m" using inv by simp
  show ?thesis
  proof (cases "i = j \<and> fault \<noteq> IncrFails")
    case False
    then show ?thesis using assms(1) inv keep
      by (auto simp: increment_and_check_cap_def resume_counter_key_def Let_def live_count_def split: redis_fault.splits)
  next
    case True
    show ?thesis
    proof (cases fault)
      case NoFault
      then have "c' = c((now div 86400, i) \<mapsto> (Suc m, Some (now + TTL_SECONDS)))" "capped = Some (cap < int (Suc m))"
        using assms(1) True m by (auto simp: increment_and_check_cap_def resume_counter_key_def Let_def)
      then show ?thesis using True NoFault day ttl by (auto simp: live_count_def intro: less_le_trans)
    next
      case ExpireFails
      then have c': "c' = c((now div 86400, i) \<mapsto> (Suc m, if Suc m = 1 then None else snd (the (c (now div 86400, i)))))" "capped = None"
        using assms(1) True m by (auto simp: increment_and_check_cap_def resume_counter_key_def Let_def)
      show ?thesis
      proof (cases "c (now div 86400, i)")
        case None
        then have "m = 0" using m by (simp add: live_count_def)
        then show ?thesis using c' True ExpireFails by (auto simp: live_count_def)
      next
        case (Some e)
        then show ?thesis using c' True ExpireFails keep day
          by (cases "snd e"; cases e) (auto simp: live_count_def intro: less_le_trans)
      qed
    qed (use True in simp)
  qed
qed

definition enqueued_of :: "string \<Rightarrow> (string \<times> sweep_end) list \<Rightarrow> nat" where
  "enqueued_of i outcomes = length (filter (\<lambda>x. x = (i, SweepEnqueued)) outcomes)"

lemma sweep_counts:
  "sweep_ids env ids (c, queue) = (outs, c', queue') \<Longrightarrow>
    (\<forall>u. u div 86400 = sw_now env div 86400 \<longrightarrow> live_count c u (sw_now env div 86400, i) = m) \<Longrightarrow>
    (\<forall>n x. c (sw_now env div 86400, i) = Some (n, Some x) \<longrightarrow> (sw_now env div 86400 + 1) * 86400 \<le> x) \<Longrightarrow>
    \<exists>m'. m \<le> m' \<and> (\<forall>u. u div 86400 = sw_now env div 86400 \<longrightarrow> live_count c' u (sw_now env div 86400, i) = m') \<and>
      (\<forall>n x. c' (sw_now env div 86400, i) = Some (n, Some x) \<longrightarrow> (sw_now env div 86400 + 1) * 86400 \<le> x) \<and>
      (\<forall>k. k \<le> m \<and> int k \<le> max 0 (sw_cap env) \<longrightarrow> k + enqueued_of i outs \<le> m' \<and> int (k + enqueued_of i outs) \<le> max 0 (sw_cap env))"
proof (induction ids arbitrary: c queue outs m)
  case Nil
  then show ?case by (intro exI [of _ m]) (simp add: enqueued_of_def)
next
  case (Cons j ids)
  obtain capped c1 where inc: "increment_and_check_cap (sw_fault env j) j (sw_cap env) (sw_now env) c = (capped, c1)" by fastforce
  note step = increment_same_day [OF inc refl Cons.prems(2,3)]
  let ?m1 = "if i = j \<and> sw_fault env j \<noteq> IncrFails then Suc m else m"
  obtain o1 q1 outs1 where parts: "outs = (j, o1) # outs1" "sweep_ids env ids (c1, q1) = (outs1, c', queue')"
    and o1: "o1 = SweepEnqueued \<longrightarrow> capped = Some False"
    using Cons.prems(1) inc by (auto simp: Let_def split: prod.splits option.splits bool.splits if_splits)
  from Cons.IH [OF parts(2), of ?m1] step obtain m' where m': "?m1 \<le> m'"
    "\<forall>u. u div 86400 = sw_now env div 86400 \<longrightarrow> live_count c' u (sw_now env div 86400, i) = m'"
    "\<forall>n x. c' (sw_now env div 86400, i) = Some (n, Some x) \<longrightarrow> (sw_now env div 86400 + 1) * 86400 \<le> x"
    "\<forall>k. k \<le> ?m1 \<and> int k \<le> max 0 (sw_cap env) \<longrightarrow>
       k + enqueued_of i outs1 \<le> m' \<and> int (k + enqueued_of i outs1) \<le> max 0 (sw_cap env)"
    by blast
  have "k + enqueued_of i outs \<le> m' \<and> int (k + enqueued_of i outs) \<le> max 0 (sw_cap env)"
    if k: "k \<le> m" "int k \<le> max 0 (sw_cap env)" for k
  proof (cases "i = j \<and> o1 = SweepEnqueued")
    case True
    then have c: "int (Suc m) \<le> sw_cap env" "sw_fault env j = NoFault" using step o1 by auto
    then have "Suc k \<le> ?m1 \<and> int (Suc k) \<le> max 0 (sw_cap env)" using k True by auto
    then have "Suc k + enqueued_of i outs1 \<le> m' \<and> int (Suc k + enqueued_of i outs1) \<le> max 0 (sw_cap env)"
      using m'(4) by blast
    then show ?thesis using True by (simp add: parts(1) enqueued_of_def)
  next
    case False
    then have "enqueued_of i outs = enqueued_of i outs1" by (auto simp: parts(1) enqueued_of_def)
    then show ?thesis using m'(4) k by auto
  qed
  then show ?case using m' by (intro exI [of _ m']) (auto split: if_splits)
qed

text \<open>The sweeps of a day, each with the tables it finds.\<close>

fun sweeps ::
  "(sweep_env \<times> tables) list \<Rightarrow> counters \<times> judge_job list \<Rightarrow> (string \<times> sweep_end) list \<times> counters \<times> judge_job list" where
  "sweeps [] s = ([], s)"
| "sweeps ((env, d) # ticks) s =
     (case resume_stuck_judgment_lists env d s of (outs, s1) \<Rightarrow>
        (case sweeps ticks s1 of (outs', s2) \<Rightarrow> (outs @ outs', s2)))"

lemma enqueued_append: "enqueued_of i (xs @ ys) = enqueued_of i xs + enqueued_of i ys"
  by (simp add: enqueued_of_def)

lemma sweeps_count:
  "sweeps ticks (c, queue) = (outs, s') \<Longrightarrow>
    \<forall>(env, d)\<in>set ticks. sw_now env div 86400 = day \<and> sw_cap env = cap \<Longrightarrow>
    (\<forall>u. u div 86400 = day \<longrightarrow> live_count c u (day, i) = m) \<Longrightarrow>
    (\<forall>n x. c (day, i) = Some (n, Some x) \<longrightarrow> (day + 1) * 86400 \<le> x) \<Longrightarrow>
    k \<le> m \<Longrightarrow> int k \<le> max 0 cap \<Longrightarrow> int (k + enqueued_of i outs) \<le> max 0 cap"
proof (induction ticks arbitrary: c queue outs m k s')
  case (Cons t ticks)
  obtain env d where t: "t = (env, d)" by (cases t)
  have env: "sw_now env div 86400 = day" "sw_cap env = cap" using Cons.prems(2) t by auto
  obtain o1 c1 q1 where one: "sweep_ids env (list_generating_judgment_list_ids d) (c, queue) = (o1, c1, q1)"
    using prod_cases3 by blast
  obtain o2 s2 where rest: "sweeps ticks (c1, q1) = (o2, s2)" by (cases "sweeps ticks (c1, q1)")
  have outs: "outs = o1 @ o2"
    using Cons.prems(1) one rest by (simp add: t resume_stuck_judgment_lists_def)
  from sweep_counts [OF one, of i m] Cons.prems(3,4) obtain m' where m':
    "\<forall>u. u div 86400 = day \<longrightarrow> live_count c1 u (day, i) = m'"
    "\<forall>n x. c1 (day, i) = Some (n, Some x) \<longrightarrow> (day + 1) * 86400 \<le> x"
    "k + enqueued_of i o1 \<le> m' \<and> int (k + enqueued_of i o1) \<le> max 0 cap"
    using Cons.prems(5,6) unfolding env by blast
  from Cons.IH [OF rest _ m'(1,2), of "k + enqueued_of i o1"] Cons.prems(2) m'(3)
  show ?case by (simp add: outs enqueued_append add.assoc)
qed (simp add: enqueued_of_def)

section \<open>What goes wrong\<close>

text \<open>
  The periodic sweep, unlike the one at the start, offers every list that is generating to the
  language model. A list from user behaviour has no template, so that worker fails it - also
  while its own worker is busy, because the two jobs have different ids.
\<close>

lemma sweep_fails_ubi_list:
  assumes "get_judgment_list d i = Some l" and "jl_status l = Generating" and "jl_generation_params l \<noteq> None"
    and "jl_current_template_id l = None" and "wk_cluster wenv (jl_cluster_id l) \<noteq> None"
  shows "snd (snd (sweep_ids \<lparr>sw_now = 0, sw_cap = 5, sw_fault = (\<lambda>_. NoFault), sw_enqueue_fails = (\<lambda>_. False)\<rparr>
      [i] (Map.empty, [JudgeUbi i]))) = [JudgeUbi i, JudgeLLM i]"
    and "\<exists>l' d'. generate_judgments_llm wenv i (d, r) = (WorkerDone, d', r) \<and> get_judgment_list d' i = Some l' \<and>
      jl_status l' = ListFailed \<and> jl_failed_reason l' = Some ''TEMPLATE_NOT_FOUND''"
proof -
  show "snd (snd (sweep_ids \<lparr>sw_now = 0, sw_cap = 5, sw_fault = (\<lambda>_. NoFault), sw_enqueue_fails = (\<lambda>_. False)\<rparr>
      [i] (Map.empty, [JudgeUbi i]))) = [JudgeUbi i, JudgeLLM i]"
    by (simp add: increment_and_check_cap_def Let_def live_count_def enqueue_def)
  obtain u where "wk_cluster wenv (jl_cluster_id l) = Some u" using assms(5) by auto
  then show "\<exists>l' d'. generate_judgments_llm wenv i (d, r) = (WorkerDone, d', r) \<and> get_judgment_list d' i = Some l' \<and>
      jl_status l' = ListFailed \<and> jl_failed_reason l' = Some ''TEMPLATE_NOT_FOUND''"
    using assms by (simp add: generate_judgments_llm_def fail_judgment_list_def set_list_status_def
        update_judgment_list_status_def)
qed

text \<open>The flip to complete does not look at the status before, and keeps the reason of a failure.\<close>

lemma completion_keeps_reason:
  "get_judgment_list d i = Some l \<Longrightarrow> \<exists>l'. get_judgment_list (set_list_status i ListComplete None
     (fail_judgment_list i reason d)) i = Some l' \<and> jl_status l' = ListComplete \<and> jl_failed_reason l' = Some reason"
  by (simp add: fail_judgment_list_def set_list_status_def update_judgment_list_status_def)

section \<open>Lemmas on what is scored\<close>

definition as_judgment_row :: "rating_row \<Rightarrow> judgment_row" where
  "as_judgment_row j = \<lparr>jd_judgment_list_id = jg_judgment_list_id j, jd_query_id = jg_query_id j,
     jd_doc_id = jg_doc_id j, jd_rating = jg_rating j\<rparr>"

definition nested :: "('a, ('b, 'v) pydict) pydict \<Rightarrow> 'a \<Rightarrow> 'b \<Rightarrow> 'v option" where
  "nested d k k' = (case map_of d k of None \<Rightarrow> None | Some inner \<Rightarrow> map_of inner k')"

lemma nested_set: "nested (set_nested k k' v d) a b = (if a = k \<and> b = k' then Some v else nested d a b)"
  by (auto simp: nested_def set_nested_def split: option.splits)

lemma nested_qrels:
  "nested (fold (\<lambda>j. set_nested (jd_query_id j) (jd_doc_id j) (jd_rating j)) js d) q doc =
     (case find (\<lambda>j. jd_query_id j = q \<and> jd_doc_id j = doc) (rev js) of None \<Rightarrow> nested d q doc | Some j \<Rightarrow> Some (jd_rating j))"
proof (induction js rule: rev_induct)
  case (snoc j js)
  then show ?case by (auto simp: nested_set split: option.splits)
qed simp

section \<open>A list with one query\<close>

definition demo_answers :: "nat \<Rightarrow> api_answer" where
  "demo_answers n = (if n = 0 then Transient else
     Message (Some (PDict [(''ratings'', PList [PDict [(''doc_id'', PStr ''item-0''), (''rating'', PInt 2), (''rationale'', PStr [])]])])) 1000 2000)"

definition demo_env :: judge_env where
  "demo_env = \<lparr>je_model = ''gpt-4o-2024-08-06'', je_budget_usd = Fin 0, je_now = 0, je_redis_up = True,
     je_redis_add = fadd, je_record_fault = NoFault, je_declared_params = [(''boost'', PStr ''int'')],
     je_search = (\<lambda>_ _. Some [\<lparr>sh_doc_id = ''sku-7'', sh_source = PDict [(''body'', PStr ''red shoe'')]\<rparr>]),
     je_dumps = (\<lambda>_. []), je_py_str = (\<lambda>_. []), je_render_user_prompt = (\<lambda>rubric text docs. text), je_bundle_system = [],
     je_answers = (\<lambda>_ _. demo_answers),
     je_insert_ok = True, je_crash = Survives\<rparr>"

definition demo_list :: judgment_list where
  "demo_list = \<lparr>jl_id = ''l1'', jl_query_set_id = ''qs'', jl_cluster_id = ''c1'', jl_target = ''idx'',
     jl_current_template_id = Some ''t1'', jl_rubric = [], jl_status = Generating, jl_failed_reason = None,
     jl_calibration = None, jl_generation_params = None\<rparr>"

definition demo_query :: query_row where
  "demo_query = \<lparr>qr_id = ''q1'', qr_query_text = ''shoe'', qr_created_at = 0\<rparr>"

definition demo_judgment :: rating_row where
  "demo_judgment = \<lparr>jg_judgment_list_id = ''l1'', jg_query_id = ''q1'', jg_doc_id = ''sku-7'', jg_rating = 2,
     jg_source = ''llm'', jg_rater_ref = Some ''openai:gpt-4o-2024-08-06'', jg_notes = Some []\<rparr>"


lemma item_0: "item_id 0 = ''item-0''" by (simp add: item_id_def nat_str.simps [of 0] char_of_def bit_iff_odd)

lemma demo_cost: "\<exists>c. compute_call_cost ''gpt-4o-2024-08-06'' 1000 2000 = Inr c"
  "\<exists>m. estimated_max_call_cost ''gpt-4o-2024-08-06'' = Inr m"
  by (simp_all add: estimated_max_call_cost_def INPUT_TOKEN_CEILING_def OUTPUT_TOKEN_CEILING_def compute_call_cost_def MODEL_USD_PER_1K_INPUT_def MODEL_USD_PER_1K_OUTPUT_def per_thousand_def)

lemma demo_params: "compute_default_params [(''boost'', PStr ''int'')] = Inr [(''boost'', PInt 1)]"
  by (simp add: default_of_def SIMPLE_FORM_DEFAULTS_def)

lemma demo_rate:
  "compute_call_cost ''gpt-4o-2024-08-06'' 1000 2000 = Inr c \<Longrightarrow>
   fst (rate_query_batch ''gpt-4o-2024-08-06'' demo_answers {''item-0''}) =
     Inr \<lparr>jr_ratings = [\<lparr>dr_doc_id = ''item-0'', dr_rating = 2, dr_rationale = []\<rparr>], jr_cost_usd = c, jr_model = ''gpt-4o-2024-08-06''\<rparr>"
  by (simp add: rate_query_batch_def MAX_RETRIES_def numeral_3_eq_3 demo_answers_def obj_get_def)

lemma demo_run:
  assumes "compute_call_cost ''gpt-4o-2024-08-06'' 1000 2000 = Inr c"
  shows "process_judgment_query demo_env demo_list demo_query (\<lparr>jt_lists = [demo_list], jt_rows = []\<rparr>, Map.empty)
   = (Judged, \<lparr>jt_lists = [demo_list], jt_rows = [demo_judgment]\<rparr>, record_judge_cost demo_env Map.empty c)"
proof -
  have "over_budget demo_env Map.empty = None" by (simp add: over_budget_def demo_env_def)
  moreover have "je_declared_params demo_env = [(''boost'', PStr ''int'')]" "je_model demo_env = ''gpt-4o-2024-08-06''"
    "\<And>s u. je_answers demo_env s u = demo_answers" "\<And>p t. je_search demo_env p t = Some [\<lparr>sh_doc_id = ''sku-7'', sh_source = PDict [(''body'', PStr ''red shoe'')]\<rparr>]"
    "je_crash demo_env = Survives" "je_insert_ok demo_env"
    by (simp_all add: demo_env_def)
  moreover have "count_judgments_for_list_and_query \<lparr>jt_lists = [demo_list], jt_rows = []\<rparr> i q = 0" for i q
    by (simp add: count_judgments_for_list_and_query_def)
  ultimately have "process_judgment_query demo_env demo_list demo_query (\<lparr>jt_lists = [demo_list], jt_rows = []\<rparr>, Map.empty) =
      persist_ratings demo_env (jl_id demo_list) (qr_id demo_query) [(''item-0'', ''sku-7'')]
        \<lparr>jr_ratings = [\<lparr>dr_doc_id = ''item-0'', dr_rating = 2, dr_rationale = []\<rparr>], jr_cost_usd = c, jr_model = ''gpt-4o-2024-08-06''\<rparr>
        (\<lparr>jt_lists = [demo_list], jt_rows = []\<rparr>, Map.empty)"
    unfolding process_judgment_query_def by (simp only: Let_def prod.case less_irrefl if_False option.case demo_params sum.case)
      (simp add: build_doc_inputs_def dict_keys_def item_0 demo_rate [OF assms])
  then show ?thesis
    by (simp add: persist_ratings_def judgment_rows_def demo_list_def demo_query_def demo_env_def dict_keys_def bulk_create_judgments_def demo_judgment_def)
qed

abbreviation "demo_tables \<equiv> \<lparr>jt_lists = [demo_list], jt_rows = []\<rparr>"

definition demo_worker :: worker_env where
  "demo_worker = \<lparr>wk_cluster = (\<lambda>_. Some ''http://es''), wk_url_allowed = (\<lambda>_. True), wk_template_found = (\<lambda>_. True),
     wk_queries = (\<lambda>_. [demo_query]), wk_api_key = True, wk_model = ''gpt-4o-2024-08-06'', wk_judge = (\<lambda>_. demo_env), wk_error_text = []\<rparr>"

lemma demo_generate: assumes "compute_call_cost ''gpt-4o-2024-08-06'' 1000 2000 = Inr c" "estimated_max_call_cost ''gpt-4o-2024-08-06'' = Inr m"
  shows "generate_judgments_llm demo_worker ''l1'' (demo_tables, Map.empty) =
    (WorkerDone, \<lparr>jt_lists = [demo_list\<lparr>jl_status := ListComplete\<rparr>], jt_rows = [demo_judgment]\<rparr>, record_judge_cost demo_env Map.empty c)"
proof -
  have jl: "get_judgment_list demo_tables ''l1'' = Some demo_list" "jl_status demo_list = Generating" "jl_current_template_id demo_list = Some ''t1''"
   by (simp_all add: get_judgment_list_def demo_list_def)
  have w: "\<And>i. wk_cluster demo_worker i = Some ''http://es''" "\<And>i. wk_url_allowed demo_worker i" "\<And>i. wk_template_found demo_worker i"
    "\<And>i. wk_queries demo_worker i = [demo_query]" "wk_api_key demo_worker" "wk_model demo_worker = ''gpt-4o-2024-08-06''" "\<And>i. wk_judge demo_worker i = demo_env"
    by (simp_all add: demo_worker_def)
  have "judge_queries (wk_judge demo_worker) demo_list [demo_query] 0 (demo_tables, Map.empty) =
     (None, 0, \<lparr>jt_lists = [demo_list], jt_rows = [demo_judgment]\<rparr>, record_judge_cost demo_env Map.empty c)"
    by (simp add: w demo_run [OF assms(1)])
  then have "generate_judgments_llm demo_worker ''l1'' (demo_tables, Map.empty) = end_of_queries demo_worker ''l1''
     (None, 0, \<lparr>jt_lists = [demo_list], jt_rows = [demo_judgment]\<rparr>, record_judge_cost demo_env Map.empty c)"
    by (simp add: generate_judgments_llm_def jl w assms(2))
  then show ?thesis
    by (simp add: end_of_queries_def set_list_status_def update_judgment_list_status_def update_list_def get_judgment_list_def demo_list_def)
qed

section \<open>Properties\<close>

text \<open>C17 A query is judged as a whole or not at all. Whatever the search, the model, the budget and Redis
  do, and wherever the process dies, the tables are left alone or gain one rating from 0 to 3 of
  each document that was found, for a query that had none; and when it is reported as judged, it
  has ratings or there was nothing to rate.\<close>

theorem query_all_or_nothing:
  assumes "process_judgment_query env jl q (d, r) = (e, d', r')"
  shows "jt_lists d' = jt_lists d \<and>
    (jt_rows d' = jt_rows d \<or> (\<exists>new. jt_rows d' = jt_rows d @ new \<and> adds_batch env jl q (jt_rows d) new)) \<and>
    (e = Judged \<longrightarrow> covered env jl q d')"
  by (rule process_spec [OF assms])

theorem query_all_or_nothing_witness:
  "\<exists>r d'. process_judgment_query demo_env demo_list demo_query (demo_tables, Map.empty) = (Judged, d', r) \<and>
     jt_rows d' = [demo_judgment] \<and> covered demo_env demo_list demo_query d'"
proof -
  obtain c where c: "compute_call_cost ''gpt-4o-2024-08-06'' 1000 2000 = Inr c" using demo_cost by blast
  from query_all_or_nothing [OF demo_run [OF c]] demo_run [OF c] show ?thesis by simp
qed



text \<open>The sweep of stuck lists offers a list to the queue at most as often on a day as the cap allows,
  however many ticks there are, whatever they find and whichever calls of Redis fail.\<close>

theorem resume_capped:
  assumes "sweeps ticks (c, queue) = (outcomes, s')"
    and "\<forall>(env, d)\<in>set ticks. sw_now env div 86400 = day \<and> sw_cap env = cap" and "c (day, i) = None"
  shows "int (enqueued_of i outcomes) \<le> max 0 cap"
  using sweeps_count [OF assms(1,2), of i 0 0] assms(3) by (simp add: live_count_def)

definition demo_sweep :: sweep_env where
  "demo_sweep = \<lparr>sw_now = 0, sw_cap = 1, sw_fault = (\<lambda>_. NoFault), sw_enqueue_fails = (\<lambda>_. False)\<rparr>"

theorem resume_capped_witness:
  "enqueued_of ''l1'' (fst (sweeps [(demo_sweep, demo_tables), (demo_sweep, demo_tables)] (Map.empty, []))) \<le> 1"
proof -
  obtain outs s' where "sweeps [(demo_sweep, demo_tables), (demo_sweep, demo_tables)] (Map.empty, []) = (outs, s')" by (meson surj_pair)
  from resume_capped [OF this, of 0 1 "''l1''"] this show ?thesis by (simp add: demo_sweep_def)
qed

text \<open>What is judged is what is scored. As long as rows are added in bulk, by the worker or by an
  operator with ratings from 0 to 3, the key stays unique; and then the judgments a trial loads
  hold, for each query and document, exactly the rating of the one row for them.\<close>

theorem scored_as_judged:
  assumes "rows_ok d"
  shows "(\<forall>js. (\<forall>j\<in>set js. 0 \<le> jg_rating j \<and> jg_rating j \<le> 3) \<longrightarrow> rows_ok (snd (bulk_create_judgments js d))) \<and>
    (\<forall>i q doc n ref notes. 0 \<le> n \<and> n \<le> 3 \<longrightarrow> rows_ok (upsert_judgment_human_override i q doc n ref notes d)) \<and>
    (\<forall>env jl q r e d' r'. process_judgment_query env jl q (d, r) = (e, d', r') \<longrightarrow> rows_ok d') \<and>
    (\<forall>i q doc n. nested (load_qrels (map as_judgment_row (jt_rows d)) i) q doc = Some n \<longleftrightarrow>
      (\<exists>j\<in>set (jt_rows d). key_of j = (i, q, doc) \<and> jg_rating j = n))"
proof (intro conjI allI impI)
  fix env jl q r e d' r' assume "process_judgment_query env jl q (d, r) = (e, d', r')"
  from process_spec [OF this] consider "jt_rows d' = jt_rows d"
    | new where "jt_rows d' = jt_rows d @ new" "adds_batch env jl q (jt_rows d) new" by blast
  then show "rows_ok d'" using assms by cases (fastforce simp: rows_ok_def adds_batch_def key_of_def)+
next
  fix i q doc n
  let ?js = "filter (\<lambda>j. jd_judgment_list_id j = i) (map as_judgment_row (jt_rows d))"
  have "nested (load_qrels (map as_judgment_row (jt_rows d)) i) q doc =
      (case find (\<lambda>j. jd_query_id j = q \<and> jd_doc_id j = doc) (rev ?js) of None \<Rightarrow> None | Some j \<Rightarrow> Some (jd_rating j))"
    unfolding load_qrels_def nested_qrels by (simp add: nested_def split: option.splits)
  note read = this
  have one: "j = k" if "j \<in> set (jt_rows d)" "k \<in> set (jt_rows d)" "key_of j = key_of k" for j k
    using assms that by (auto simp: rows_ok_def distinct_map dest: inj_onD)
  show "nested (load_qrels (map as_judgment_row (jt_rows d)) i) q doc = Some n \<longleftrightarrow>
      (\<exists>j\<in>set (jt_rows d). key_of j = (i, q, doc) \<and> jg_rating j = n)"
  proof (cases "find (\<lambda>j. jd_query_id j = q \<and> jd_doc_id j = doc) (rev ?js)")
    case None
    then have "\<not> (\<exists>j\<in>set (jt_rows d). key_of j = (i, q, doc))"
      by (auto simp: find_None_all as_judgment_row_def key_of_def)
    then show ?thesis by (auto simp: read None)
  next
    case (Some x)
    then obtain k where k: "k \<in> set (jt_rows d)" "x = as_judgment_row k" "key_of k = (i, q, doc)"
      by (auto simp: as_judgment_row_def key_of_def dest!: find_Some_in)
    then have "jg_rating j = jd_rating x" if "j \<in> set (jt_rows d)" "key_of j = (i, q, doc)" for j
      using one [OF that(1) k(1)] that by (simp add: as_judgment_row_def)
    moreover have "jg_rating k = jd_rating x" by (simp add: k as_judgment_row_def)
    ultimately show ?thesis using k by (auto simp: read Some)
  qed
qed (use assms bulk_create_ok upsert_ok in auto)

theorem scored_as_judged_witness:
  "nested (load_qrels [as_judgment_row demo_judgment] ''l1'') ''q1'' ''sku-7'' = Some 2"
proof -
  have "rows_ok \<lparr>jt_lists = [], jt_rows = [demo_judgment]\<rparr>" by (simp add: rows_ok_def demo_judgment_def)
  from scored_as_judged [OF this] show ?thesis by (auto simp: demo_judgment_def key_of_def)
qed

end
