(* ===== verification/Study_Views.thy ===== *)
theory Study_Views
  imports Confidence Judgments
begin

text \<open>
  What the pages of studies show beside their rows: the convergence of one study and of a whole page
  (\<open>backend/app/services/study_convergence.py\<close>), and the check of a pair of studies that are to be
  compared (\<open>backend/app/services/study_comparison.py\<close>). The classifier is that of \<open>Convergence\<close>, the
  batched queries those of \<open>Trial_Repo\<close>.
\<close>

section \<open>Convergence\<close>

definition in_flight :: "study_status \<Rightarrow> bool" where
  "in_flight s = (s = Queued \<or> s = Running)"

definition resolve_direction :: "obj \<Rightarrow> direction option" where
  "resolve_direction ob = (case obj_get ob ''direction'' of
       PNone \<Rightarrow> Some Maximize
     | PStr s \<Rightarrow> (if s = ''maximize'' then Some Maximize else if s = ''minimize'' then Some Minimize else None)
     | _ \<Rightarrow> None)"

definition fetch_study_convergence :: "db \<Rightarrow> study \<Rightarrow> study_convergence option" where
  "fetch_study_convergence d st =
     (if in_flight (st_status st) then None
      else (case resolve_direction (st_objective st) of
          None \<Rightarrow> None
        | Some dir \<Rightarrow> classify_convergence (list_complete_optuna_trials_for_study d (st_id st)) dir))"

text \<open>The first loop: the verdicts that need no trials, and the studies that do, with their direction.\<close>

fun cheap_gates ::
  "(string, trial_counts) pydict \<Rightarrow> study list \<Rightarrow> (string, convergence_verdict option) pydict \<Rightarrow> study list
   \<Rightarrow> (string, direction) pydict \<Rightarrow> (string, convergence_verdict option) pydict \<times> study list \<times> (string, direction) pydict" where
  "cheap_gates counts [] verdicts eligible directions = (verdicts, eligible, directions)"
| "cheap_gates counts (st # sts) verdicts eligible directions =
     (if in_flight (st_status st) then cheap_gates counts sts (dict_set (st_id st) None verdicts) eligible directions
      else (case resolve_direction (st_objective st) of
          None \<Rightarrow> cheap_gates counts sts (dict_set (st_id st) None verdicts) eligible directions
        | Some dir \<Rightarrow>
          (let complete = (case map_of counts (st_id st) of None \<Rightarrow> 0 | Some c \<Rightarrow> tc_complete c) in
           if complete < CONVERGENCE_FLAT_MIN_COMPLETE
           then cheap_gates counts sts (dict_set (st_id st) None verdicts) eligible directions
           else if complete < STUDIES_TPE_WARMUP_FLOOR
           then cheap_gates counts sts (dict_set (st_id st) (Some TooFewTrials) verdicts) eligible directions
           else cheap_gates counts sts verdicts (eligible @ [st]) (dict_set (st_id st) dir directions))))"

definition classify_eligible ::
  "(string, trial list) pydict \<Rightarrow> (string, direction) pydict \<Rightarrow> study list \<Rightarrow> (string, convergence_verdict option) pydict
   \<Rightarrow> (string, convergence_verdict option) pydict" where
  "classify_eligible trials_by_study directions eligible verdicts =
     fold (\<lambda>st v. dict_set (st_id st) (map_option sc_verdict
         (classify_convergence (case map_of trials_by_study (st_id st) of None \<Rightarrow> [] | Some ts \<Rightarrow> ts)
            (the (map_of directions (st_id st))))) v) eligible verdicts"

definition resolve_list_convergence_verdicts ::
  "db \<Rightarrow> study list \<Rightarrow> (string, trial_counts) pydict \<Rightarrow> (string, convergence_verdict option) pydict" where
  "resolve_list_convergence_verdicts d studies counts =
     (let (verdicts, eligible, directions) = cheap_gates counts studies [] [] []
      in if eligible = [] then verdicts
         else classify_eligible (list_complete_optuna_trials_for_studies d (map st_id eligible)) directions eligible verdicts)"

section \<open>Comparison\<close>

datatype compare_kind = KindLLM | KindUBI
datatype compare_warning = CROSS_CLUSTER | TARGET_MISMATCH | OBJECTIVE_MISMATCH
datatype compare_error =
    CompareStudyNotFound string
  | COMPARE_STUDY_NOT_COMPLETED
  | COMPARE_QUERY_SET_MISMATCH
  | COMPARE_NOT_LLM_UBI_PAIR

record compare_pairing =
  pr_a_study_id :: string
  pr_b_study_id :: string
  pr_a_kind :: compare_kind
  pr_b_kind :: compare_kind
  pr_query_set_id :: string
  pr_warnings :: "compare_warning list"

definition classify_judgment_kind :: "obj option \<Rightarrow> compare_kind" where
  "classify_judgment_kind params = (case params of
       Some p \<Rightarrow> if obj_get p ''generation_kind'' = PStr ''ubi'' then KindUBI else KindLLM
     | None \<Rightarrow> KindLLM)"

definition objective_key :: "obj \<Rightarrow> pyval \<times> pyval" where
  "objective_key ob = (obj_get ob ''metric'',
     if truthy (obj_get ob ''direction'') then obj_get ob ''direction'' else PStr ''maximize'')"

definition list_kind :: "tables \<Rightarrow> string \<Rightarrow> compare_kind" where
  "list_kind tb i = classify_judgment_kind (Option.bind (get_judgment_list tb i) jl_generation_params)"

definition validate_compare_pair :: "db \<Rightarrow> tables \<Rightarrow> string \<Rightarrow> string \<Rightarrow> compare_error + compare_pairing" where
  "validate_compare_pair d tb a_id b_id =
     (case get_study d a_id of
        None \<Rightarrow> Inl (CompareStudyNotFound a_id)
      | Some a \<Rightarrow> (case get_study d b_id of
        None \<Rightarrow> Inl (CompareStudyNotFound b_id)
      | Some b \<Rightarrow>
        (if st_status a \<noteq> Completed \<or> st_status b \<noteq> Completed then Inl COMPARE_STUDY_NOT_COMPLETED
         else if st_query_set_id a \<noteq> st_query_set_id b then Inl COMPARE_QUERY_SET_MISMATCH
         else (let a_kind = list_kind tb (st_judgment_list_id a); b_kind = list_kind tb (st_judgment_list_id b) in
           if {a_kind, b_kind} \<noteq> {KindLLM, KindUBI} then Inl COMPARE_NOT_LLM_UBI_PAIR
           else Inr \<lparr>pr_a_study_id = st_id a, pr_b_study_id = st_id b, pr_a_kind = a_kind, pr_b_kind = b_kind,
               pr_query_set_id = st_query_set_id a,
               pr_warnings = (if st_cluster_id a \<noteq> st_cluster_id b then [CROSS_CLUSTER] else [])
                 @ (if st_target a \<noteq> st_target b then [TARGET_MISMATCH] else [])
                 @ (if objective_key (st_objective a) \<noteq> objective_key (st_objective b) then [OBJECTIVE_MISMATCH] else [])\<rparr>))))"

section \<open>Lemmas\<close>

text \<open>What the count of the page says about the trials of one study.\<close>

lemma count_fold:
  "map_of (fold (\<lambda>s res. if map_of res s = None then dict_set s z res else res) ids res0) s =
     (case map_of res0 s of Some c \<Rightarrow> Some c | None \<Rightarrow> if s \<in> set ids then Some z else None)"
  by (induction ids arbitrary: res0) (auto split: option.splits)

lemma map_of_tabulate: "map_of (map (\<lambda>s. (s, f s)) xs) s = (if s \<in> set xs then Some (f s) else None)"
  by (induction xs) auto

lemma counted:
  assumes "s \<in> set ids"
  shows "\<exists>c. map_of (count_trials_for_studies d ids) s = Some c \<and>
    tc_complete c = length (filter (\<lambda>t. \<not> tr_is_baseline t \<and> tr_status t = Complete) (trials_of d s))"
proof (cases "s \<in> tr_study_id ` set (db_trials d)")
  case True
  then show ?thesis using assms
    by (auto simp: count_trials_for_studies_def Let_def count_fold map_of_tabulate)
next
  case False
  then have "trials_of d s = []" by (auto simp: trials_of_def filter_empty_conv)
  then show ?thesis using assms False
    by (auto simp: count_trials_for_studies_def Let_def count_fold map_of_tabulate)
qed

lemma usable_of_list:
  "length (usable_sorted (list_complete_optuna_trials_for_study d s)) = length (filter usable (trials_of d s))"
proof -
  have "filter usable (list_complete_optuna_trials_for_study d s) = sort_key tr_number (filter usable (trials_of d s))"
    by (simp add: list_complete_optuna_trials_for_study_def complete_optuna_usable filter_sort)
  then show ?thesis by (simp add: usable_sorted_def)
qed

text \<open>The three loops together: what each study of the page gets.\<close>

definition cheap_verdict :: "(string, trial_counts) pydict \<Rightarrow> study \<Rightarrow> convergence_verdict option option" where
  "cheap_verdict counts st =
     (if in_flight (st_status st) then Some None
      else (case resolve_direction (st_objective st) of
          None \<Rightarrow> Some None
        | Some dir \<Rightarrow>
          (let complete = (case map_of counts (st_id st) of None \<Rightarrow> 0 | Some c \<Rightarrow> tc_complete c) in
           if complete < CONVERGENCE_FLAT_MIN_COMPLETE then Some None
           else if complete < STUDIES_TPE_WARMUP_FLOOR then Some (Some TooFewTrials) else None)))"

lemma cheap_gates_spec:
  "cheap_gates counts sts v e dirs = (v', e', dirs') \<Longrightarrow> distinct (map st_id sts) \<Longrightarrow>
     e' = e @ filter (\<lambda>st. cheap_verdict counts st = None) sts \<and>
     (\<forall>i. i \<notin> st_id ` set sts \<longrightarrow> map_of v' i = map_of v i \<and> map_of dirs' i = map_of dirs i) \<and>
     (\<forall>st\<in>set sts. case cheap_verdict counts st of
         Some x \<Rightarrow> map_of v' (st_id st) = Some x
       | None \<Rightarrow> map_of dirs' (st_id st) = resolve_direction (st_objective st))"
proof (induction sts arbitrary: v e dirs)
  case (Cons st sts)
  define r where "r = (case cheap_verdict counts st of
      Some x \<Rightarrow> (dict_set (st_id st) x v, e, dirs)
    | None \<Rightarrow> (v, e @ [st], dict_set (st_id st) (the (resolve_direction (st_objective st))) dirs))"
  obtain v1 e1 d1 where r1: "r = (v1, e1, d1)" by (cases r)
  have step: "cheap_gates counts sts v1 e1 d1 = (v', e', dirs')"
    using Cons.prems(1) r1
    by (auto simp: r_def cheap_verdict_def Let_def split: if_splits option.splits)
  have fresh: "st_id st \<notin> st_id ` set sts" "distinct (map st_id sts)" using Cons.prems(2) by auto
  note IH = Cons.IH [OF step fresh(2)]
  have here: "map_of v' (st_id st) = map_of v1 (st_id st)" "map_of dirs' (st_id st) = map_of d1 (st_id st)"
    using IH fresh(1) by blast+
  have dir: "cheap_verdict counts st = None \<Longrightarrow> \<exists>dir. resolve_direction (st_objective st) = Some dir"
    by (auto simp: cheap_verdict_def split: if_splits option.splits)
  show ?case
  proof (cases "cheap_verdict counts st")
    case None
    then have "v1 = v" "e1 = e @ [st]" "d1 = dict_set (st_id st) (the (resolve_direction (st_objective st))) dirs"
      using r1 by (simp_all add: r_def)
    then show ?thesis using IH here None dir [OF None] by auto
  next
    case (Some x)
    then have "v1 = dict_set (st_id st) x v" "e1 = e" "d1 = dirs" using r1 by (simp_all add: r_def)
    then show ?thesis using IH here Some by auto
  qed
qed simp

lemma classify_eligible_spec:
  "distinct (map st_id el) \<Longrightarrow> map_of (classify_eligible tb dirs el v) i =
     (case find (\<lambda>st. st_id st = i) el of
        Some st \<Rightarrow> Some (map_option sc_verdict (classify_convergence (case map_of tb i of None \<Rightarrow> [] | Some ts \<Rightarrow> ts) (the (map_of dirs i))))
      | None \<Rightarrow> map_of v i)"
proof (induction el arbitrary: v)
  case (Cons st el)
  have "find (\<lambda>s. st_id s = st_id st) el = None"
  proof -
    have "\<forall>s\<in>set el. st_id s \<noteq> st_id st" using Cons.prems by (metis distinct.simps(2) image_eqI list.simps(9) list.set_map)
    then show ?thesis by (simp add: find_None_iff)
  qed
  then show ?case using Cons by (auto simp: classify_eligible_def split: option.splits)
qed (simp add: classify_eligible_def)

text \<open>A pair that is accepted one way is accepted the other way, with the same warnings.\<close>

lemma objective_key_sym: "(objective_key a \<noteq> objective_key b) = (objective_key b \<noteq> objective_key a)"
  by auto

lemma compare_symmetric:
  assumes "validate_compare_pair d tb a b = Inr p"
  shows "validate_compare_pair d tb b a = Inr \<lparr>pr_a_study_id = pr_b_study_id p, pr_b_study_id = pr_a_study_id p,
    pr_a_kind = pr_b_kind p, pr_b_kind = pr_a_kind p, pr_query_set_id = pr_query_set_id p, pr_warnings = pr_warnings p\<rparr>"
proof -
  obtain x y where xy: "get_study d a = Some x" "get_study d b = Some y"
    using assms by (auto simp: validate_compare_pair_def split: option.splits)
  then show ?thesis using assms
    by (auto simp: validate_compare_pair_def Let_def insert_commute split: if_splits)
qed

section \<open>Properties\<close>

text \<open>A verdict of the gates is the one the detail page computes.\<close>

lemma cheap_verdict_detail:
  assumes Some: "cheap_verdict counts st = Some x" and c: "map_of counts (st_id st) = Some c"
    and n: "tc_complete c = length (filter usable (trials_of d (st_id st)))"
  shows "x = map_option sc_verdict (fetch_study_convergence d st)"
proof (cases "in_flight (st_status st) \<or> resolve_direction (st_objective st) = None")
  case True
  then show ?thesis using Some by (auto simp: cheap_verdict_def fetch_study_convergence_def split: if_splits)
next
  case False
  then obtain dir where dir: "resolve_direction (st_objective st) = Some dir" by auto
  let ?ts = "list_complete_optuna_trials_for_study d (st_id st)"
  have x: "x = (if length (filter usable (trials_of d (st_id st))) < 5 then None else Some TooFewTrials)" "length (filter usable (trials_of d (st_id st))) < 50"
    using Some False dir c n
    by (auto simp: cheap_verdict_def Let_def CONVERGENCE_FLAT_MIN_COMPLETE_def STUDIES_TPE_WARMUP_FLOOR_def split: if_splits)
  have "map_option sc_verdict (classify_convergence ?ts dir) = (if length (filter usable (trials_of d (st_id st))) < 5 then None else Some TooFewTrials)"
    using classify_None [of ?ts dir] classify_fields(6) [of ?ts dir] x(2) usable_of_list [of d "st_id st"]
    by (cases "classify_convergence ?ts dir") auto
  then show ?thesis using x False dir by (simp add: fetch_study_convergence_def)
qed

text \<open>C22 The page of studies and the page of one study agree: with the counts of the same tables, the
  verdict listed for a study is the one its own page shows, whatever its status, objective and trials
  are, as long as its complete trials have a metric.\<close>

theorem list_verdict_is_detail_verdict:
  assumes "st \<in> set studies" and "distinct (map st_id studies)"
    and "\<forall>t\<in>set (trials_of d (st_id st)). tr_status t = Complete \<and> \<not> tr_is_baseline t \<longrightarrow> tr_primary_metric t \<noteq> None"
  shows "map_of (resolve_list_convergence_verdicts d studies (count_trials_for_studies d (map st_id studies))) (st_id st) =
    Some (map_option sc_verdict (fetch_study_convergence d st))"
proof -
  let ?counts = "count_trials_for_studies d (map st_id studies)"
  obtain v e dirs where g: "cheap_gates ?counts studies [] [] [] = (v, e, dirs)" by (cases "cheap_gates ?counts studies [] [] []")
  note spec = cheap_gates_spec [OF g assms(2)]
  have e: "e = filter (\<lambda>st. cheap_verdict ?counts st = None) studies" using spec by simp
  then have de: "distinct (map st_id e)" using assms(2) by (simp add: distinct_map_filter)
  obtain c where c: "map_of ?counts (st_id st) = Some c"
    "tc_complete c = length (filter (\<lambda>t. \<not> tr_is_baseline t \<and> tr_status t = Complete) (trials_of d (st_id st)))"
    using counted [of "st_id st" "map st_id studies" d] assms(1) by auto
  have "filter (\<lambda>t. \<not> tr_is_baseline t \<and> tr_status t = Complete) (trials_of d (st_id st)) = filter usable (trials_of d (st_id st))"
    using assms(3) by (intro filter_cong) (auto simp: usable_def)
  then have n: "tc_complete c = length (filter usable (trials_of d (st_id st)))" using c(2) by simp
  show ?thesis
  proof (cases "cheap_verdict ?counts st")
    case (Some x)
    have "x = map_option sc_verdict (fetch_study_convergence d st)" by (rule cheap_verdict_detail [OF Some c(1) n])
    moreover have "map_of v (st_id st) = Some x" using spec assms(1) Some by force
    moreover have "find (\<lambda>s. st_id s = st_id st) e = None"
    proof -
      have "s = st" if "s \<in> set studies" "st_id s = st_id st" for s
        using that assms(1,2) by (auto simp: distinct_map inj_on_def)
      then show ?thesis using Some by (auto simp: find_None_iff e)
    qed
    ultimately show ?thesis
      using g classify_eligible_spec [OF de] by (simp add: resolve_list_convergence_verdicts_def)
  next
    case None
    then obtain dir where dir: "resolve_direction (st_objective st) = Some dir" "\<not> in_flight (st_status st)"
      by (auto simp: cheap_verdict_def split: if_splits option.splits)
    have st: "st \<in> set e" using None assms(1) by (simp add: e)
    have found: "find (\<lambda>s. st_id s = st_id st) e \<noteq> None" using st by (auto simp: find_None_iff)
    have "map_of dirs (st_id st) = Some dir" using spec assms(1) None dir(1) by force
    moreover have "map_of (list_complete_optuna_trials_for_studies d (map st_id e)) (st_id st) =
        Some (list_complete_optuna_trials_for_study d (st_id st))"
      using batched_lookup [of "st_id st" "map st_id e" d] st by simp
    ultimately show ?thesis using g found st dir classify_eligible_spec [OF de]
      by (auto simp: resolve_list_convergence_verdicts_def fetch_study_convergence_def)
  qed
qed

theorem list_verdict_is_detail_verdict_witness:
  "\<exists>d st. map_of (resolve_list_convergence_verdicts d [st] (count_trials_for_studies d [''s''])) ''s'' =
     Some (map_option sc_verdict (fetch_study_convergence d st)) \<and> trials_of d ''s'' \<noteq> []"
proof -
  let ?st = "sample_study ''s'' None Completed"
  have t: "trials_of demo_conf_db ''s'' = db_trials demo_conf_db"
    by (simp add: trials_of_def demo_conf_db_def sample_trial_def)
  have id: "st_id ?st = ''s''" by (simp add: sample_study_def)
  have "\<forall>t\<in>set (trials_of demo_conf_db (st_id ?st)). tr_status t = Complete \<and> \<not> tr_is_baseline t \<longrightarrow> tr_primary_metric t \<noteq> None"
    unfolding id t by (simp add: demo_conf_db_def sample_trial_def)
  from list_verdict_is_detail_verdict [of ?st "[?st]", OF _ _ this] have
    "map_of (resolve_list_convergence_verdicts demo_conf_db [?st] (count_trials_for_studies demo_conf_db [''s''])) ''s'' =
      Some (map_option sc_verdict (fetch_study_convergence demo_conf_db ?st))" by (simp add: id)
  moreover have "trials_of demo_conf_db ''s'' \<noteq> []" by (simp only: t) (simp add: demo_conf_db_def)
  ultimately show ?thesis by blast
qed

end
