(* ===== verification/Template_Swap.thy ===== *)
theory Template_Swap
  imports Search_Space_Defaults "HOL-Library.Multiset"
begin

text \<open>
  Moving a search space to another query template
  (\<open>backend/app/domain/study/template_swap.py\<close>). Python iterates a \<open>set\<close> of strings in an
  order that changes from process to process: the order is the parameter \<open>iter\<close>, any
  permutation, and one of the properties is that the result does not depend on it.
\<close>

record remap_result =
  rm_search_space :: search_space
  rm_trusted :: "string list"
  rm_disjoint_fill :: "string list"
  rm_dropped_parent :: "string list"
  rm_ignored_llm :: "string list"

definition merged_params ::
  "(string list \<Rightarrow> string list) \<Rightarrow> (string, string) pydict \<Rightarrow> search_space \<Rightarrow> string list \<Rightarrow> string list
   \<Rightarrow> space_error + search_space" where
  "merged_params iter swap llm trusted disjoint_fill =
     (let merged = map (\<lambda>n. (n, the (map_of llm n))) (iter trusted)
      in if disjoint_fill = [] then Inr merged
         else (case build_starter_search_space (map (\<lambda>n. (n, the (map_of swap n))) (iter disjoint_fill)) of
             Inl e \<Rightarrow> Inl e
           | Inr starter \<Rightarrow> Inr (dict_update merged (sp_space starter))))"

definition sorted_dict :: "search_space \<Rightarrow> search_space" where
  "sorted_dict d = map (\<lambda>k. (k, the (map_of d k))) (sorted_set (dict_keys d))"

definition remap_search_space_for_swap_target ::
  "(string list \<Rightarrow> string list) \<Rightarrow> (string, string) pydict \<Rightarrow> (string, string) pydict \<Rightarrow> search_space
   \<Rightarrow> space_error + remap_result" where
  "remap_search_space_for_swap_target iter parent swap llm =
     (if swap = [] then Inl (InvalidSearchSpaceError ''swap_template target template declares no params'')
      else
        (let parent_names = dict_keys parent; swap_names = dict_keys swap; llm_names = dict_keys llm;
             trusted = filter (\<lambda>n. n \<in> set swap_names \<and> n \<in> set llm_names) parent_names;
             disjoint_fill = filter (\<lambda>n. \<not> (n \<in> set parent_names \<and> n \<in> set llm_names)) swap_names;
             dropped_parent = filter (\<lambda>n. n \<notin> set swap_names) parent_names;
             ignored_llm = filter (\<lambda>n. \<not> (n \<in> set parent_names \<and> n \<in> set swap_names)) llm_names
         in if trusted = []
            then Inl (InvalidSearchSpaceError ''swap_template has no shared parameters with parent template'')
            else (case merged_params iter swap llm trusted disjoint_fill of
                Inl e \<Rightarrow> Inl e
              | Inr merged \<Rightarrow> (case make_search_space (sorted_dict merged) of
                  Inl e \<Rightarrow> Inl (InvalidSearchSpaceError ''validation'')
                | Inr space \<Rightarrow> Inr \<lparr>rm_search_space = space, rm_trusted = sorted_set trusted,
                    rm_disjoint_fill = sorted_set disjoint_fill,
                    rm_dropped_parent = sorted_set dropped_parent,
                    rm_ignored_llm = sorted_set ignored_llm\<rparr>))))"

section \<open>Building from permuted declarations\<close>

lemma sorted_set_cong: "set xs = set ys \<Longrightarrow> sorted_set xs = sorted_set ys"
  by (metis distinct_sorted_set set_sorted_set sorted_distinct_set_unique sorted_sorted_set)

lemma fits_perm: "mset p = mset q \<Longrightarrow> fits p = fits q"
proof -
  assume m: "mset p = mset q"
  have "prod_list (map estimate_param_cardinality (map snd p)) = prod_list (map estimate_param_cardinality (map snd q))"
    by (metis m mset_map prod_mset_prod_list)
  then show ?thesis by (simp add: fits_def estimate_from_dict_prod dict_values_def)
qed

lemma converted_perm: "mset p = mset q \<Longrightarrow> mset (converted S p) = mset (converted S q)"
  by (simp add: converted_def)

lemma starter_params_perm: "mset d = mset e \<Longrightarrow> mset (starter_params d) = mset (starter_params e)"
  by (simp add: starter_params_def)

lemma fallback_order_perm: "mset d = mset e \<Longrightarrow> fallback_order d = fallback_order e"
proof -
  assume m: "mset d = mset e"
  then have s: "set d = set e" by (metis set_mset_mset)
  have p: "set (starter_params d) = set (starter_params e)"
    using starter_params_perm [OF m] by (metis set_mset_mset)
  have "float_names (starter_params d) f = float_names (starter_params e) f" for f
    unfolding float_names_def by (rule sorted_set_cong) (simp add: p)
  moreover have "set (map fst (filter (\<lambda>(n, t). snd (starter_spec n t)) d)) =
      set (map fst (filter (\<lambda>(n, t). snd (starter_spec n t)) e))" by (simp add: s)
  ultimately show ?thesis by (simp add: fallback_order_def Let_def)
qed

text \<open>The number of conversions is the least one that fits, or all of them.\<close>

lemma first_fit_unique:
  assumes "k = n \<or> P k" "\<forall>j<k. \<not> P j" "k' = n \<or> P k'" "\<forall>j<k'. \<not> P j" "k \<le> n" "k' \<le> (n :: nat)"
  shows "k = k'"
  using assms by (metis le_neq_implies_less linorder_neqE_nat)

lemma build_perm:
  assumes "mset d = mset e" "dict_ok d"
  shows "rel_sum (=) (\<lambda>r s. mset (sp_space r) = mset (sp_space s)) (build_starter_search_space d) (build_starter_search_space e)"
proof (cases "d = []")
  case True
  then show ?thesis using assms(1) by (simp add: build_starter_search_space_def)
next
  case False
  then have ne: "e \<noteq> []" using assms(1) by auto
  have ok: "dict_ok e" using assms by (metis dict_ok_def mset_eq_imp_distinct_iff mset_map)
  note fo = fallback_order_perm [OF assms(1)]
  have pp: "mset (converted S (starter_params d)) = mset (converted S (starter_params e))" for S
    by (rule converted_perm [OF starter_params_perm [OF assms(1)]])
  note ft = fits_perm [OF pp]
  obtain k where k: "k \<le> length (fallback_order e)"
    "k = length (fallback_order e) \<or> fits (converted (set (take k (fallback_order e))) (starter_params e))"
    "\<forall>j<k. \<not> fits (converted (set (take j (fallback_order e))) (starter_params e))"
    "build_starter_search_space d = (let params' = converted (set (take k (fallback_order e))) (starter_params d)
       in if fits params' then Inr \<lparr>sp_space = params', sp_fallback_names = take k (fallback_order e)\<rparr>
          else Inl (InvalidSearchSpaceError ''cap-aware fallback exhausted''))"
    using build_unfold [OF assms(2) False] unfolding fo ft by blast
  obtain k' where k': "k' \<le> length (fallback_order e)"
    "k' = length (fallback_order e) \<or> fits (converted (set (take k' (fallback_order e))) (starter_params e))"
    "\<forall>j<k'. \<not> fits (converted (set (take j (fallback_order e))) (starter_params e))"
    "build_starter_search_space e = (let params' = converted (set (take k' (fallback_order e))) (starter_params e)
       in if fits params' then Inr \<lparr>sp_space = params', sp_fallback_names = take k' (fallback_order e)\<rparr>
          else Inl (InvalidSearchSpaceError ''cap-aware fallback exhausted''))"
    using build_unfold [OF ok ne] by blast
  have "k = k'" by (rule first_fit_unique [OF k(2,3) k'(2,3) k(1) k'(1)])
  then show ?thesis using k(4) k'(4) pp ft by (simp add: Let_def)
qed

section \<open>The merge\<close>

definition permutes_lists :: "(string list \<Rightarrow> string list) \<Rightarrow> bool" where
  "permutes_lists iter = (\<forall>xs. mset (iter xs) = mset xs)"

lemma permutes_set: "permutes_lists iter \<Longrightarrow> set (iter xs) = set xs"
  unfolding permutes_lists_def by (metis set_mset_mset)

lemma permutes_distinct: "permutes_lists iter \<Longrightarrow> distinct xs \<Longrightarrow> distinct (iter xs)"
  unfolding permutes_lists_def by (metis mset_eq_imp_distinct_iff)

lemma map_of_map_key: "map_of (map (\<lambda>n. (n, f n)) xs) k = (if k \<in> set xs then Some (f k) else None)"
  by (induction xs) auto

lemma map_of_perm: "mset p = mset q \<Longrightarrow> distinct (map fst p) \<Longrightarrow> map_of p = map_of q"
proof
  fix k
  assume a: "mset p = mset q" "distinct (map fst p)"
  then have "set p = set q" "distinct (map fst q)"
    by (metis set_mset_mset, metis mset_eq_imp_distinct_iff mset_map)
  then have "map_of p k = Some v \<longleftrightarrow> map_of q k = Some v" for v
    using a(2) by (simp add: map_of_eq_Some_iff)
  then show "map_of p k = map_of q k" by (metis option.exhaust)
qed

lemma map_of_update: "dict_ok e \<Longrightarrow> map_of (dict_update d e) k = (case map_of e k of None \<Rightarrow> map_of d k | Some v \<Rightarrow> Some v)"
  using map_of_perm [of "rev e" e] by (simp add: dict_ok_def rev_map [symmetric])

lemma keys_of: "set (dict_keys d) = {k. map_of d k \<noteq> None}"
  by (auto simp: dict_keys_def map_of_eq_None_iff)

lemma sorted_dict_cong: "map_of p = map_of q \<Longrightarrow> sorted_dict p = sorted_dict q"
  using sorted_set_cong [of "dict_keys p" "dict_keys q"] by (simp add: sorted_dict_def keys_of)

lemma keys_sorted_dict [simp]: "dict_keys (sorted_dict d) = sorted_set (dict_keys d)"
  by (simp add: sorted_dict_def dict_keys_def comp_def)

lemma map_of_sorted_dict [simp]: "map_of (sorted_dict d) = map_of d"
  by (auto simp: fun_eq_iff sorted_dict_def map_of_map_key keys_of)

text \<open>What the merged dictionary holds: the starter's specs for the filled names, the trusted ones.\<close>

lemma merged_params_spec:
  assumes it: "permutes_lists iter" and d: "distinct disjoint_fill"
    and m: "merged_params iter swap llm trusted disjoint_fill = Inr merged"
  shows "\<exists>starter. (disjoint_fill \<noteq> [] \<longrightarrow> build_starter_search_space
        (map (\<lambda>n. (n, the (map_of swap n))) (iter disjoint_fill)) = Inr starter \<and>
        dict_keys (sp_space starter) = iter disjoint_fill) \<and>
      (\<forall>k. map_of merged k = (if k \<in> set disjoint_fill then map_of (sp_space starter) k
         else if k \<in> set trusted then Some (the (map_of llm k)) else None))"
proof (cases "disjoint_fill = []")
  case True
  then have "merged = map (\<lambda>n. (n, the (map_of llm n))) (iter trusted)"
    using m by (simp add: merged_params_def)
  then show ?thesis using True by (simp add: map_of_map_key permutes_set [OF it])
next
  case False
  let ?dd = "map (\<lambda>n. (n, the (map_of swap n))) (iter disjoint_fill)"
  obtain starter where st: "build_starter_search_space ?dd = Inr starter"
    "merged = dict_update (map (\<lambda>n. (n, the (map_of llm n))) (iter trusted)) (sp_space starter)"
    using m False by (auto simp: merged_params_def Let_def split: sum.splits)
  have "dict_ok ?dd" using permutes_distinct [OF it d] by (simp add: dict_ok_def comp_def)
  from starter_space_facts [OF this st(1)] have k: "dict_keys (sp_space starter) = iter disjoint_fill"
    by (simp add: dict_keys_def comp_def)
  then have ok: "dict_ok (sp_space starter)"
    using permutes_distinct [OF it d] by (simp add: dict_ok_def dict_keys_def)
  have "k \<in> set disjoint_fill \<longleftrightarrow> map_of (sp_space starter) k \<noteq> None" for k
    using keys_of [of "sp_space starter"] k permutes_set [OF it, of disjoint_fill] by auto
  then have "map_of merged k = (if k \<in> set disjoint_fill then map_of (sp_space starter) k
      else if k \<in> set trusted then Some (the (map_of llm k)) else None)" for k
    unfolding st(2) map_of_update [OF ok] map_of_map_key permutes_set [OF it] by (auto split: option.splits)
  then show ?thesis using st(1) k by blast
qed

lemma merged_params_perm:
  assumes i: "permutes_lists iter" "permutes_lists iter'" and d: "distinct disjoint_fill"
  shows "rel_sum (=) (\<lambda>p q. map_of p = map_of q) (merged_params iter swap llm trusted disjoint_fill)
    (merged_params iter' swap llm trusted disjoint_fill)"
proof (cases "disjoint_fill = []")
  case True
  then show ?thesis
    by (simp add: merged_params_def fun_eq_iff map_of_map_key permutes_set [OF i(1)] permutes_set [OF i(2)])
next
  case False
  let ?dd = "\<lambda>it. map (\<lambda>n. (n, the (map_of swap n))) (it disjoint_fill)"
  have "mset (?dd iter) = mset (?dd iter')" using i by (simp add: permutes_lists_def)
  moreover have ok: "dict_ok (?dd it)" if "permutes_lists it" for it
    using permutes_distinct [OF that d] by (simp add: dict_ok_def comp_def)
  ultimately have r: "rel_sum (=) (\<lambda>r s. mset (sp_space r) = mset (sp_space s))
      (build_starter_search_space (?dd iter)) (build_starter_search_space (?dd iter'))"
    by (intro build_perm) (simp_all add: i)
  show ?thesis
  proof (cases "build_starter_search_space (?dd iter)")
    case (Inl e)
    then show ?thesis using r False by (auto simp: merged_params_def elim: rel_sum.cases)
  next
    case (Inr s)
    then obtain s' where s': "build_starter_search_space (?dd iter') = Inr s'" "mset (sp_space s) = mset (sp_space s')"
      using r by (auto elim: rel_sum.cases)
    have ks: "dict_ok (sp_space s)" "dict_ok (sp_space s')"
      using starter_space_facts [OF ok [OF i(1)] Inr] starter_space_facts [OF ok [OF i(2)] s'(1)]
        ok [OF i(1)] ok [OF i(2)] by (simp_all add: dict_ok_def dict_keys_def)
    have "map_of (sp_space s) = map_of (sp_space s')"
      using map_of_perm [OF s'(2)] ks(1) by (simp add: dict_ok_def)
    then show ?thesis using False Inr s'(1)
      by (simp add: merged_params_def Let_def fun_eq_iff map_of_update ks map_of_map_key permutes_set [OF i(1)]
          permutes_set [OF i(2)] del: map_of_dict_update split: option.splits)
  qed
qed

section \<open>Properties\<close>

text \<open>The order in which Python happens to iterate its sets does not show: any two orders
  give the same result or the same error.\<close>

theorem remap_deterministic:
  assumes "permutes_lists iter" and "permutes_lists iter'" and "dict_ok swap"
  shows "remap_search_space_for_swap_target iter parent swap llm =
    remap_search_space_for_swap_target iter' parent swap llm"
proof -
  let ?t = "filter (\<lambda>n. n \<in> set (dict_keys swap) \<and> n \<in> set (dict_keys llm)) (dict_keys parent)"
  let ?d = "filter (\<lambda>n. \<not> (n \<in> set (dict_keys parent) \<and> n \<in> set (dict_keys llm))) (dict_keys swap)"
  have "distinct ?d" using assms(3) by (simp add: dict_ok_def dict_keys_def)
  from merged_params_perm [OF assms(1,2) this, of swap llm ?t]
  show ?thesis
  proof (cases rule: rel_sum.cases)
    case (1 e e')
    then show ?thesis unfolding remap_search_space_for_swap_target_def Let_def by simp
  next
    case (2 p q)
    then have "sorted_dict p = sorted_dict q" by (intro sorted_dict_cong)
    with 2 show ?thesis unfolding remap_search_space_for_swap_target_def Let_def by simp
  qed
qed

text \<open>A remapped space is valid and has exactly the target's parameters, sorted; the shared
  parameters keep the proposed bounds, every other one has its heuristic spec, or the small
  integer the fallback puts in place of a float; and the four reported name lists are the stated
  set algebra, sorted.\<close>

theorem remap_spec:
  assumes "permutes_lists iter" and "dict_ok swap"
    and "remap_search_space_for_swap_target iter parent swap llm = Inr r"
  shows "space_ok (rm_search_space r) \<and>
    dict_keys (rm_search_space r) = sorted_set (dict_keys swap) \<and>
    set (rm_trusted r) = set (dict_keys parent) \<inter> set (dict_keys swap) \<inter> set (dict_keys llm) \<and>
    rm_trusted r \<noteq> [] \<and>
    set (rm_disjoint_fill r) = set (dict_keys swap) - set (rm_trusted r) \<and>
    set (rm_dropped_parent r) = set (dict_keys parent) - set (dict_keys swap) \<and>
    set (rm_ignored_llm r) = set (dict_keys llm) - (set (dict_keys parent) \<inter> set (dict_keys swap)) \<and>
    (\<forall>n\<in>set (rm_trusted r). map_of (rm_search_space r) n = map_of llm n) \<and>
    (\<forall>n\<in>set (rm_disjoint_fill r). \<exists>spec. map_of (rm_search_space r) n = Some spec \<and>
       (spec = fst (starter_spec n (the (map_of swap n))) \<or>
        is_float (fst (starter_spec n (the (map_of swap n)))) \<and> spec = IntParam 0 5))"
proof -
  let ?t = "filter (\<lambda>n. n \<in> set (dict_keys swap) \<and> n \<in> set (dict_keys llm)) (dict_keys parent)"
  let ?d = "filter (\<lambda>n. \<not> (n \<in> set (dict_keys parent) \<and> n \<in> set (dict_keys llm))) (dict_keys swap)"
  obtain merged where m: "merged_params iter swap llm ?t ?d = Inr merged" and sp: "space_ok (sorted_dict merged)"
    and tne: "?t \<noteq> []" and r: "r = \<lparr>rm_search_space = sorted_dict merged, rm_trusted = sorted_set ?t,
       rm_disjoint_fill = sorted_set ?d,
       rm_dropped_parent = sorted_set (filter (\<lambda>n. n \<notin> set (dict_keys swap)) (dict_keys parent)),
       rm_ignored_llm = sorted_set (filter (\<lambda>n. \<not> (n \<in> set (dict_keys parent) \<and> n \<in> set (dict_keys swap)))
         (dict_keys llm))\<rparr>"
    using assms(3) by (auto simp: remap_search_space_for_swap_target_def Let_def make_search_space_ok
        split: if_splits sum.splits)
  have dd: "distinct ?d" using assms(2) by (simp add: dict_ok_def dict_keys_def)
  obtain st where st: "?d \<noteq> [] \<longrightarrow> build_starter_search_space (map (\<lambda>n. (n, the (map_of swap n))) (iter ?d)) = Inr st \<and>
      dict_keys (sp_space st) = iter ?d"
    and mk: "\<forall>k. map_of merged k = (if k \<in> set ?d then map_of (sp_space st) k
      else if k \<in> set ?t then Some (the (map_of llm k)) else None)"
    using merged_params_spec [OF assms(1) dd m] by blast
  have fill: "\<exists>spec. map_of merged n = Some spec \<and> (spec = fst (starter_spec n (the (map_of swap n))) \<or>
      is_float (fst (starter_spec n (the (map_of swap n)))) \<and> spec = IntParam 0 5)" if n: "n \<in> set ?d" for n
  proof -
    let ?dd = "map (\<lambda>n. (n, the (map_of swap n))) (iter ?d)"
    have ok: "dict_ok ?dd" using permutes_distinct [OF assms(1) dd] by (simp add: dict_ok_def comp_def)
    have "?d \<noteq> []" using n by (metis list.set(1) empty_iff)
    then have b: "build_starter_search_space ?dd = Inr st" using st by blast
    have "map_of ?dd n = Some (the (map_of swap n))"
      unfolding map_of_map_key permutes_set [OF assms(1)] using n by simp
    from starter_entry [OF ok b this] show ?thesis using mk n by simp
  qed
  have trusted: "map_of merged n = map_of llm n" if "n \<in> set ?t" for n
    using that mk keys_of [of llm] by auto
  have keys: "set (dict_keys merged) = set (dict_keys swap)"
  proof -
    have "n \<in> set (dict_keys merged) \<longleftrightarrow> n \<in> set ?d \<or> n \<in> set ?t" for n
      using fill [of n] mk keys_of [of merged] by auto
    then show ?thesis by auto
  qed
  have "\<forall>n\<in>set ?t. map_of (sorted_dict merged) n = map_of llm n" using trusted by simp
  moreover have "dict_keys (sorted_dict merged) = sorted_set (dict_keys swap)"
    using sorted_set_cong [OF keys] by simp
  moreover have "sorted_set ?t \<noteq> []" using tne by simp
  ultimately show ?thesis using sp fill by (simp add: r) blast
qed

section \<open>Concrete instances\<close>

definition sample_llm :: search_space where
  "sample_llm = [(''slop'', IntParam 1 3), (''other'', IntParam 0 1)]"

lemma remap_deterministic_witness:
  "remap_search_space_for_swap_target rev [(''slop'', ''int'')] [(''slop'', ''int'')] sample_llm =
   remap_search_space_for_swap_target id [(''slop'', ''int'')] [(''slop'', ''int'')] sample_llm"
  by (rule remap_deterministic) (simp_all add: permutes_lists_def dict_ok_def)

lemma remap_spec_witness:
  "\<exists>r. remap_search_space_for_swap_target id [(''slop'', ''int'')] [(''slop'', ''int'')] sample_llm = Inr r \<and>
     map_of (rm_search_space r) ''slop'' = Some (IntParam 1 3)"
proof -
  obtain r where r: "remap_search_space_for_swap_target id [(''slop'', ''int'')] [(''slop'', ''int'')] sample_llm = Inr r"
    by (simp add: remap_search_space_for_swap_target_def sample_llm_def dict_keys_def merged_params_def
        sorted_dict_def sorted_set_def make_search_space_def check_int_bounds_def dict_values_def
        check_cardinality_def estimate_cardinality_def)
  have "permutes_lists id" "dict_ok [(''slop'', ''int'')]" by (simp_all add: permutes_lists_def dict_ok_def)
  from remap_spec [OF this r] have "map_of (rm_search_space r) ''slop'' = map_of sample_llm ''slop''"
    by (auto simp: sample_llm_def dict_keys_def)
  then show ?thesis using r by (simp add: sample_llm_def)
qed

end
