(* ===== verification/Trial_Worker.thy ===== *)
theory Trial_Worker
  imports Trial_Repo Scoring Search_Space_Defaults
begin

text \<open>
  The worker that evaluates one trial (\<open>backend/workers/trials.py\<close>) and the factory of its
  Optuna study (\<open>backend/app/eval/optuna_runtime.py\<close>). Optuna's storage is the type \<open>'o\<close> with
  the operations the code calls, \<open>optuna_api\<close>; what they are relied on to do is the predicate
  \<open>optuna_ok\<close>. The record \<open>trial_env\<close> is the rest of the outside: the lookups of cluster,
  template, queries and judgments, the adapter's \<open>render\<close> and \<open>search_batch\<close>, the measures, the
  texts of exceptions, the clock, how the INSERT ends and where the process dies. Columns the
  store leaves out (the metric dictionaries and the duration) are left out here too; an error
  text is a list of characters.
\<close>

section \<open>The Optuna study\<close>

datatype trial_state = OptRunning | OptWaiting | OptComplete | OptFail | OptPruned

fun is_finished :: "trial_state \<Rightarrow> bool" where
  "is_finished OptRunning = False"
| "is_finished OptWaiting = False"
| "is_finished _ = True"

record frozen_trial =
  ft_state :: trial_state
  ft_params :: obj
  ft_value :: "pyfloat option"

datatype told = TellValue pyfloat | TellFail

record 'o optuna_api =
  oa_trials :: "'o \<Rightarrow> frozen_trial list"
  oa_tell :: "nat \<Rightarrow> told \<Rightarrow> 'o \<Rightarrow> 'o option"

definition told_trial :: "told \<Rightarrow> frozen_trial \<Rightarrow> frozen_trial" where
  "told_trial r t = (case r of
       TellValue v \<Rightarrow> t\<lparr>ft_state := OptComplete, ft_value := Some v\<rparr>
     | TellFail \<Rightarrow> t\<lparr>ft_state := OptFail, ft_value := None\<rparr>)"

text \<open>
  \<open>tell\<close> finishes an unfinished trial with a value that is a number, or as failed, and raises
  for a finished or an unknown one.
\<close>

definition optuna_ok :: "'o optuna_api \<Rightarrow> bool" where
  "optuna_ok api =
     (\<forall>s n r. r \<noteq> TellValue NaN \<longrightarrow>
        (if n < length (oa_trials api s) \<and> \<not> is_finished (ft_state (oa_trials api s ! n))
         then \<exists>s'. oa_tell api n r s = Some s' \<and>
           oa_trials api s' = (oa_trials api s)[n := told_trial r (oa_trials api s ! n)]
         else oa_tell api n r s = None))"

datatype sampler = TPESampler pyval | RandomSampler pyval

datatype pruner = NopPruner | MedianPruner nat

datatype runtime_error = UnsupportedSampler | UnsupportedPruner | MaxTrialsRequired

definition build_sampler :: "obj \<Rightarrow> pyval \<Rightarrow> runtime_error + sampler" where
  "build_sampler config seed =
     (let s = obj_get_default config ''sampler'' (PStr ''tpe'')
      in if s = PStr ''tpe'' then Inr (TPESampler seed)
         else if s = PStr ''random'' then Inr (RandomSampler seed)
         else Inl UnsupportedSampler)"

definition build_pruner :: "obj \<Rightarrow> runtime_error + pruner" where
  "build_pruner config =
     (case map_of config ''pruner'' of
        Some p \<Rightarrow> (if p = PStr ''median'' then Inr (MedianPruner 10)
                   else if p = PStr ''none'' then Inr NopPruner
                   else Inl UnsupportedPruner)
      | None \<Rightarrow> (case int_of (obj_get config ''max_trials'') of
            None \<Rightarrow> Inl MaxTrialsRequired
          | Some max_trials \<Rightarrow>
              if max_trials < int STUDIES_TPE_WARMUP_FLOOR then Inr NopPruner else Inr (MedianPruner 10)))"

section \<open>The environment\<close>

datatype trial_error =
    BadRuntime runtime_error
  | NoDirection
  | OpenFailed
  | BadObjective score_error
  | NoSuchTrial
  | ClusterMissing string
  | UrlRefused string
  | TemplateMissing string
  | BadTimeout
  | External string
  | ScoringFailed score_error
  | PrimaryMissing string
  | TellRefused
  | InsertRefused

text \<open>An exception of the evaluation: the database is unreachable, or anything else.\<close>

datatype trial_failure = Operational | Failure trial_error

datatype insert_end = InsertOk | InsertOperational | InsertOther

datatype crash = NoCrash | CrashBeforeExecute | CrashAfterTell

record trial_env =
  te_open :: "sampler \<Rightarrow> pruner \<Rightarrow> pyval \<Rightarrow> bool"
  te_cluster :: "string \<Rightarrow> string option"
  te_url_allowed :: "string \<Rightarrow> bool"
  te_template :: "string \<Rightarrow> pyval option"
  te_queries :: "string \<Rightarrow> (string \<times> string) list"
  te_judgments :: "judgment_row list"
  te_render :: "pyval \<Rightarrow> obj \<Rightarrow> string \<Rightarrow> trial_failure + pyval"
  te_search :: "string \<Rightarrow> string \<Rightarrow> (string \<times> pyval) list \<Rightarrow> int \<Rightarrow> pyfloat
    \<Rightarrow> trial_failure + (string, (string \<times> pyfloat) list) pydict"
  te_iter_calc :: "measure list \<Rightarrow> qrels \<Rightarrow> run \<Rightarrow> (string \<times> measure \<times> pyfloat) list option"
  te_set_order :: "string list \<Rightarrow> string list"
  te_str :: "pyval \<Rightarrow> string"
  te_float_of_str :: "string \<Rightarrow> pyfloat option"
  te_default_timeout :: int
  te_error_text :: "trial_error \<Rightarrow> string"
  te_trial_id :: string
  te_started :: int
  te_scored :: int
  te_now :: int
  te_insert :: "trial \<Rightarrow> insert_end"
  te_crash :: crash

section \<open>Evaluating parameters\<close>

definition DEFAULT_SECONDARY_METRICS :: "string list" where
  "DEFAULT_SECONDARY_METRICS = [''ndcg@10'', ''map@10'', ''mrr'']"

text \<open>The set of metrics, as a list in the order Python iterates it.\<close>

definition metrics_set :: "trial_env \<Rightarrow> string \<Rightarrow> obj \<Rightarrow> string list" where
  "metrics_set env objective_key config =
     te_set_order env (remdups (objective_key #
       (case map_of config ''secondary_metrics'' of
          None \<Rightarrow> DEFAULT_SECONDARY_METRICS
        | Some (PList secondaries) \<Rightarrow> map (te_str env) secondaries
        | Some _ \<Rightarrow> [])))"

definition top_k :: "obj \<Rightarrow> int" where
  "top_k ob = (case int_of (obj_get ob ''k'') of None \<Rightarrow> 100 | Some k \<Rightarrow> k)"

definition py_float :: "trial_env \<Rightarrow> pyval \<Rightarrow> pyfloat option" where
  "py_float env v = (case v of
       PInt n \<Rightarrow> float_of_int n
     | PBool b \<Rightarrow> Some (Fin (if b then 1 else 0))
     | PFloat x \<Rightarrow> Some x
     | PStr s \<Rightarrow> te_float_of_str env s
     | _ \<Rightarrow> None)"

definition trial_timeout :: "trial_env \<Rightarrow> obj \<Rightarrow> pyfloat option" where
  "trial_timeout env config =
     py_float env (let configured = obj_get config ''trial_timeout_s''
       in if configured \<noteq> PNone then configured else PInt (te_default_timeout env))"

fun render_all ::
  "trial_env \<Rightarrow> pyval \<Rightarrow> obj \<Rightarrow> (string \<times> string) list \<Rightarrow> trial_failure + (string \<times> pyval) list" where
  "render_all env template params [] = Inr []"
| "render_all env template params ((qid, text) # queries) =
     (case te_render env template params text of
        Inl e \<Rightarrow> Inl e
      | Inr body \<Rightarrow> (case render_all env template params queries of
            Inl e \<Rightarrow> Inl e | Inr rest \<Rightarrow> Inr ((qid, body) # rest)))"

definition run_dict :: "(string, (string \<times> pyfloat) list) pydict \<Rightarrow> run" where
  "run_dict hits = map (\<lambda>(qid, hit_list). (qid, fold (\<lambda>(doc, s). dict_set doc s) hit_list [])) hits"

text \<open>
  Steps G to K: everything between loading the trial and telling Optuna. With a failure comes whether
  \<open>started_at\<close> was set before it.
\<close>

definition execute_scored ::
  "trial_env \<Rightarrow> study \<Rightarrow> obj \<Rightarrow> string \<Rightarrow> bool \<times> trial_failure + score_result" where
  "execute_scored env study_row params objective_key =
     (case te_cluster env (st_cluster_id study_row) of
        None \<Rightarrow> Inl (False, Failure (ClusterMissing (st_cluster_id study_row)))
      | Some base_url \<Rightarrow>
        (if \<not> te_url_allowed env base_url then Inl (False, Failure (UrlRefused base_url))
         else (case te_template env (st_template_id study_row) of
            None \<Rightarrow> Inl (False, Failure (TemplateMissing (st_template_id study_row)))
          | Some template \<Rightarrow>
            (let qrels = load_qrels (te_judgments env) (st_judgment_list_id study_row)
             in case trial_timeout env (st_config study_row) of
                  None \<Rightarrow> Inl (False, Failure BadTimeout)
                | Some timeout \<Rightarrow>
                  (case render_all env template params (te_queries env (st_query_set_id study_row)) of
                     Inl e \<Rightarrow> Inl (True, e)
                   | Inr native_queries \<Rightarrow>
                     (case te_search env base_url (st_target study_row) native_queries
                         (top_k (st_objective study_row)) timeout of
                        Inl e \<Rightarrow> Inl (True, e)
                      | Inr hits \<Rightarrow>
                        (case score (te_iter_calc env) qrels (run_dict hits)
                            (metrics_set env objective_key (st_config study_row)) of
                           Inl e \<Rightarrow> Inl (True, Failure (ScoringFailed e))
                         | Inr scored \<Rightarrow>
                           (case map_of (sr_aggregate scored) objective_key of
                              None \<Rightarrow> Inl (True, Failure (PrimaryMissing objective_key))
                            | Some primary \<Rightarrow> Inr scored))))))))"

definition primary_of :: "string \<Rightarrow> score_result \<Rightarrow> pyfloat" where
  "primary_of objective_key scored = the (map_of (sr_aggregate scored) objective_key)"

text \<open>The value alone.\<close>

definition execute_trial ::
  "trial_env \<Rightarrow> study \<Rightarrow> obj \<Rightarrow> string \<Rightarrow> trial_failure + pyfloat" where
  "execute_trial env study_row params objective_key =
     map_sum snd (primary_of objective_key) (execute_scored env study_row params objective_key)"

section \<open>The rows it writes\<close>

definition trial_row ::
  "trial_env \<Rightarrow> string \<Rightarrow> nat \<Rightarrow> obj \<Rightarrow> pyfloat option \<Rightarrow> trial_status \<Rightarrow> string option \<Rightarrow> int option \<Rightarrow> trial" where
  "trial_row env study_id n params metric status error ended_at =
     \<lparr>tr_id = te_trial_id env, tr_study_id = study_id, tr_number = int n, tr_params = params,
      tr_primary_metric = metric, tr_metrics = [], tr_per_query_metrics = None, tr_duration_ms = None,
      tr_status = status, tr_error = error, tr_started_at = None, tr_ended_at = ended_at,
      tr_is_baseline = False\<rparr>"

text \<open>\<open>int(round((b - a).total_seconds() * 1000))\<close>, and the columns of what was measured.\<close>

definition elapsed_ms :: "int \<Rightarrow> int \<Rightarrow> int" where
  "elapsed_ms a b = (case fmul (rnd64 (of_int (b - a) / 1000000)) (Fin 1000) of Fin ms \<Rightarrow> round_half_even ms | _ \<Rightarrow> 0)"

definition scored_row :: "trial_env \<Rightarrow> score_result \<Rightarrow> trial \<Rightarrow> trial" where
  "scored_row env scored row =
     row\<lparr>tr_metrics := map (\<lambda>(m, x). (m, PFloat x)) (sr_aggregate scored), tr_per_query_metrics := Some (sr_per_query scored),
       tr_duration_ms := Some (elapsed_ms (te_started env) (te_scored env)), tr_started_at := Some (te_started env)\<rparr>"

definition failed_row :: "trial_env \<Rightarrow> bool \<Rightarrow> trial \<Rightarrow> trial" where
  "failed_row env started row =
     (if started then row\<lparr>tr_duration_ms := Some (elapsed_ms (te_started env) (te_now env)),
        tr_started_at := Some (te_started env)\<rparr> else row)"

definition add_trial :: "trial \<Rightarrow> db \<Rightarrow> db" where
  "add_trial row d = d\<lparr>db_trials := db_trials d @ [row]\<rparr>"

definition existing_terminal_app_row :: "db \<Rightarrow> string \<Rightarrow> nat \<Rightarrow> trial option" where
  "existing_terminal_app_row d study_id n =
     find (\<lambda>t. tr_study_id t = study_id \<and> tr_number t = int n) (db_trials d)"

datatype job_end = JobDone | JobRaised | JobCrashed

text \<open>
  The handler of an exception before \<open>tell\<close>: Optuna is told about the failure if its study was
  opened (an exception there is logged), and the failed row is written.
\<close>

definition fail_trial ::
  "'o optuna_api \<Rightarrow> trial_env \<Rightarrow> string \<Rightarrow> nat \<Rightarrow> bool \<Rightarrow> bool \<Rightarrow> obj \<Rightarrow> trial_error \<Rightarrow> 'o \<Rightarrow> db
   \<Rightarrow> job_end \<times> 'o \<times> db" where
  "fail_trial api env study_id n opened started params err opt d =
     (let opt' = (if opened then (case oa_tell api n TellFail opt of None \<Rightarrow> opt | Some s \<Rightarrow> s) else opt);
          row = failed_row env started (trial_row env study_id n params None TrialFailed
            (Some (take 500 (te_error_text env err))) (Some (te_now env)))
      in if te_insert env row = InsertOk then (JobDone, opt', add_trial row d)
         else (JobRaised, opt', d))"

definition reconstructed_row :: "trial_env \<Rightarrow> string \<Rightarrow> nat \<Rightarrow> string \<Rightarrow> frozen_trial \<Rightarrow> trial" where
  "reconstructed_row env study_id n objective_key snapshot =
     (case ft_state snapshot of
        OptFail \<Rightarrow> trial_row env study_id n (ft_params snapshot) None TrialFailed
          (Some ''reconstructed from Optuna FAIL state; original exception unavailable'') None
      | OptPruned \<Rightarrow> trial_row env study_id n (ft_params snapshot) (ft_value snapshot) Pruned None None
      | _ \<Rightarrow> (trial_row env study_id n (ft_params snapshot) (ft_value snapshot) Complete None None)
          \<lparr>tr_metrics := [(objective_key, case ft_value snapshot of None \<Rightarrow> PNone | Some x \<Rightarrow> PFloat x)]\<rparr>)"

definition reconstruct_from_optuna ::
  "'o optuna_api \<Rightarrow> trial_env \<Rightarrow> string \<Rightarrow> nat \<Rightarrow> string \<Rightarrow> frozen_trial \<Rightarrow> 'o \<Rightarrow> db \<Rightarrow> job_end \<times> 'o \<times> db" where
  "reconstruct_from_optuna api env study_id n objective_key snapshot opt d =
     (let row = reconstructed_row env study_id n objective_key snapshot
      in case te_insert env row of
           InsertOk \<Rightarrow> (JobDone, opt, add_trial row d)
         | InsertOperational \<Rightarrow> (JobRaised, opt, d)
         | InsertOther \<Rightarrow> fail_trial api env study_id n True False (ft_params snapshot) InsertRefused opt d)"

section \<open>The job\<close>

text \<open>Step D: the factory of the Optuna study.\<close>

definition open_optuna :: "trial_env \<Rightarrow> study \<Rightarrow> trial_error option" where
  "open_optuna env study_row =
     (case build_sampler (st_config study_row) (obj_get (st_config study_row) ''seed'') of
        Inl e \<Rightarrow> Some (BadRuntime e)
      | Inr sampler \<Rightarrow> (case build_pruner (st_config study_row) of
          Inl e \<Rightarrow> Some (BadRuntime e)
        | Inr pruner \<Rightarrow> (case map_of (st_objective study_row) ''direction'' of
            None \<Rightarrow> Some NoDirection
          | Some dir \<Rightarrow> if te_open env sampler pruner dir then None else Some OpenFailed)))"

text \<open>Steps G to N, for a trial Optuna still runs.\<close>

definition run_allocated ::
  "'o optuna_api \<Rightarrow> trial_env \<Rightarrow> study \<Rightarrow> nat \<Rightarrow> string \<Rightarrow> frozen_trial \<Rightarrow> 'o \<Rightarrow> db \<Rightarrow> job_end \<times> 'o \<times> db" where
  "run_allocated api env study_row n objective_key snapshot opt d =
     (if te_crash env = CrashBeforeExecute then (JobCrashed, opt, d)
      else (case execute_scored env study_row (ft_params snapshot) objective_key of
          Inl (started, Operational) \<Rightarrow> (JobRaised, opt, d)
        | Inl (started, Failure e) \<Rightarrow> fail_trial api env (st_id study_row) n True started (ft_params snapshot) e opt d
        | Inr scored \<Rightarrow> (case oa_tell api n (TellValue (primary_of objective_key scored)) opt of
            None \<Rightarrow> fail_trial api env (st_id study_row) n True True (ft_params snapshot) TellRefused opt d
          | Some opt' \<Rightarrow>
              (if te_crash env = CrashAfterTell then (JobCrashed, opt', d)
               else (let row = scored_row env scored (trial_row env (st_id study_row) n (ft_params snapshot)
                       (Some (primary_of objective_key scored)) Complete None (Some (te_now env)))
                     in if te_insert env row = InsertOk then (JobDone, opt', add_trial row d)
                        else (JobRaised, opt', d))))))"

definition run_trial ::
  "'o optuna_api \<Rightarrow> trial_env \<Rightarrow> string \<Rightarrow> nat \<Rightarrow> 'o \<Rightarrow> db \<Rightarrow> job_end \<times> 'o \<times> db" where
  "run_trial api env study_id n opt d =
     (case get_study d study_id of
        None \<Rightarrow> (JobDone, opt, d)
      | Some study_row \<Rightarrow>
        (if existing_terminal_app_row d study_id n \<noteq> None then (JobDone, opt, d)
         else (case open_optuna env study_row of
            Some e \<Rightarrow> fail_trial api env study_id n False False [] e opt d
          | None \<Rightarrow> (case objective_metric_key (st_objective study_row) of
              Inl e \<Rightarrow> fail_trial api env study_id n True False [] (BadObjective e) opt d
            | Inr objective_key \<Rightarrow>
                (if n < length (oa_trials api opt)
                 then (let snapshot = oa_trials api opt ! n
                   in if is_finished (ft_state snapshot)
                      then reconstruct_from_optuna api env study_id n objective_key snapshot opt d
                      else run_allocated api env study_row n objective_key snapshot opt d)
                 else fail_trial api env study_id n True False [] NoSuchTrial opt d)))))"

section \<open>Lemmas\<close>

text \<open>What a row of the application says of the Optuna trial with its number.\<close>

definition row_agrees :: "frozen_trial list \<Rightarrow> trial \<Rightarrow> bool" where
  "row_agrees ts t =
     (let known = 0 \<le> tr_number t \<and> nat (tr_number t) < length ts; ft = ts ! nat (tr_number t)
      in case tr_status t of
           Complete \<Rightarrow> known \<and> ft_state ft = OptComplete \<and> ft_value ft = tr_primary_metric t \<and> ft_params ft = tr_params t
         | Pruned \<Rightarrow> known \<and> ft_state ft = OptPruned \<and> ft_value ft = tr_primary_metric t \<and> ft_params ft = tr_params t
         | TrialFailed \<Rightarrow> tr_primary_metric t = None \<and>
             (known \<longrightarrow> ft_state ft \<noteq> OptComplete \<and> ft_state ft \<noteq> OptPruned))"

definition optuna_rows :: "db \<Rightarrow> string \<Rightarrow> trial list" where
  "optuna_rows d study_id = filter (\<lambda>t. tr_study_id t = study_id \<and> \<not> tr_is_baseline t) (db_trials d)"

text \<open>
  At most one row per trial, each in agreement with Optuna, and none for an unfinished trial
  but a failed one.
\<close>

definition trials_ok :: "'o optuna_api \<Rightarrow> string \<Rightarrow> 'o \<Rightarrow> db \<Rightarrow> bool" where
  "trials_ok api study_id opt d =
     (distinct (map tr_number (optuna_rows d study_id)) \<and>
      (\<forall>t\<in>set (optuna_rows d study_id). row_agrees (oa_trials api opt) t))"

text \<open>The database refuses no row (it may be unreachable).\<close>

definition env_ok :: "trial_env \<Rightarrow> bool" where
  "env_ok env = (\<forall>r. te_insert env r \<noteq> InsertOther)"

lemma tell_running:
  assumes "optuna_ok api" "n < length (oa_trials api opt)" "\<not> is_finished (ft_state (oa_trials api opt ! n))"
    and "r \<noteq> TellValue NaN"
  shows "\<exists>opt'. oa_tell api n r opt = Some opt' \<and>
    oa_trials api opt' = (oa_trials api opt)[n := told_trial r (oa_trials api opt ! n)]"
  using assms by (simp add: optuna_ok_def)

lemma tell_refused:
  assumes "optuna_ok api" "n < length (oa_trials api opt) \<Longrightarrow> is_finished (ft_state (oa_trials api opt ! n))"
    and "r \<noteq> TellValue NaN"
  shows "oa_tell api n r opt = None"
  using assms by (auto simp: optuna_ok_def)

lemma trial_row_simps [simp]:
  "tr_study_id (trial_row env s n ps m st e t) = s" "tr_number (trial_row env s n ps m st e t) = int n"
  "tr_status (trial_row env s n ps m st e t) = st" "tr_primary_metric (trial_row env s n ps m st e t) = m"
  "tr_params (trial_row env s n ps m st e t) = ps" "\<not> tr_is_baseline (trial_row env s n ps m st e t)"
  "tr_id (trial_row env s n ps m st e t) = te_trial_id env"
  by (simp_all add: trial_row_def)

lemma measured_row_simps [simp]:
  "tr_id (scored_row env sc r) = tr_id r" "tr_study_id (scored_row env sc r) = tr_study_id r"
  "tr_number (scored_row env sc r) = tr_number r" "tr_status (scored_row env sc r) = tr_status r"
  "tr_primary_metric (scored_row env sc r) = tr_primary_metric r" "tr_params (scored_row env sc r) = tr_params r"
  "tr_is_baseline (scored_row env sc r) = tr_is_baseline r"
  "tr_id (failed_row env b r) = tr_id r" "tr_study_id (failed_row env b r) = tr_study_id r"
  "tr_number (failed_row env b r) = tr_number r" "tr_status (failed_row env b r) = tr_status r"
  "tr_primary_metric (failed_row env b r) = tr_primary_metric r" "tr_params (failed_row env b r) = tr_params r"
  "tr_is_baseline (failed_row env b r) = tr_is_baseline r"
  by (simp_all add: scored_row_def failed_row_def)

lemma execute_value:
  "execute_trial env row ps key = Inl e \<longleftrightarrow> (\<exists>b. execute_scored env row ps key = Inl (b, e))"
  "execute_trial env row ps key = Inr v \<longleftrightarrow> (\<exists>r. execute_scored env row ps key = Inr r \<and> primary_of key r = v)"
  by (cases "execute_scored env row ps key"; force simp: execute_trial_def)+

lemma execute_scored_primary:
  "execute_scored env row ps key = Inr sc \<Longrightarrow> map_of (sr_aggregate sc) key \<noteq> None"
  by (auto simp: execute_scored_def split: option.splits sum.splits if_splits)

lemma optuna_rows_add [simp]:
  "optuna_rows (add_trial t d) study_id =
     optuna_rows d study_id @ (if tr_study_id t = study_id \<and> \<not> tr_is_baseline t then [t] else [])"
  by (simp add: optuna_rows_def add_trial_def)

lemma no_row:
  "existing_terminal_app_row d study_id n = None \<Longrightarrow> t \<in> set (optuna_rows d study_id) \<Longrightarrow> tr_number t \<noteq> int n"
  by (auto simp: existing_terminal_app_row_def optuna_rows_def find_None_all)

text \<open>Finishing an unfinished trial falsifies no row: rows of other trials do not see it.\<close>

lemma row_agrees_tell:
  "row_agrees ts t \<Longrightarrow> tr_number t \<noteq> int n \<Longrightarrow> row_agrees (ts[n := ft]) t"
  by (auto simp: row_agrees_def Let_def nth_list_update split: trial_status.splits)

lemma row_agrees_fail:
  "row_agrees ts t \<Longrightarrow> n < length ts \<Longrightarrow> \<not> is_finished (ft_state (ts ! n)) \<Longrightarrow>
     row_agrees (ts[n := told_trial TellFail (ts ! n)]) t"
  by (auto simp: row_agrees_def Let_def nth_list_update told_trial_def split: trial_status.splits)

lemma failed_tell_keeps:
  assumes "optuna_ok api" "trials_ok api sid opt d" "oa_tell api n TellFail opt = Some opt'"
  shows "trials_ok api sid opt' d" "n < length (oa_trials api opt')"
    "ft_state (oa_trials api opt' ! n) = OptFail"
proof -
  have run: "n < length (oa_trials api opt) \<and> \<not> is_finished (ft_state (oa_trials api opt ! n))"
    using tell_refused [OF assms(1), of n opt TellFail] assms(3) by auto
  then have ts: "oa_trials api opt' = (oa_trials api opt)[n := told_trial TellFail (oa_trials api opt ! n)]"
    using tell_running [OF assms(1), of n opt TellFail] assms(3) by auto
  show "trials_ok api sid opt' d"
    using assms(2) run by (auto simp: trials_ok_def ts row_agrees_fail)
  show "n < length (oa_trials api opt')" "ft_state (oa_trials api opt' ! n) = OptFail"
    using run by (simp_all add: ts told_trial_def)
qed

lemma add_row_ok:
  assumes "trials_ok api sid opt d" "existing_terminal_app_row d sid n = None"
    and "tr_number row = int n" "row_agrees (oa_trials api opt) row"
  shows "trials_ok api sid opt (add_trial row d)"
proof -
  have "int n \<notin> tr_number ` set (optuna_rows d sid)" using no_row [OF assms(2)] by fastforce
  then show ?thesis using assms(1,3,4) by (auto simp: trials_ok_def)
qed

lemma fail_trial_ok:
  assumes "optuna_ok api" "trials_ok api sid opt d" "existing_terminal_app_row d sid n = None"
    and "opened \<or> n \<ge> length (oa_trials api opt) \<or> \<not> is_finished (ft_state (oa_trials api opt ! n)) \<or>
      ft_state (oa_trials api opt ! n) = OptFail"
    and "n < length (oa_trials api opt) \<Longrightarrow>
      ft_state (oa_trials api opt ! n) \<noteq> OptComplete \<and> ft_state (oa_trials api opt ! n) \<noteq> OptPruned"
    and "fail_trial api env sid n opened started ps err opt d = (j, opt', d')"
  shows "trials_ok api sid opt' d'"
proof -
  define o1 where "o1 = (if opened then (case oa_tell api n TellFail opt of None \<Rightarrow> opt | Some s \<Rightarrow> s) else opt)"
  have ok: "trials_ok api sid o1 d" and st: "n < length (oa_trials api o1) \<Longrightarrow>
      ft_state (oa_trials api o1 ! n) \<noteq> OptComplete \<and> ft_state (oa_trials api o1 ! n) \<noteq> OptPruned"
    using assms(2,5) failed_tell_keeps [OF assms(1,2)] by (auto simp: o1_def split: option.splits)
  have "row_agrees (oa_trials api o1) (failed_row env started (trial_row env sid n ps None TrialFailed e t))" for e t
    using st by (simp add: row_agrees_def)
  then have "trials_ok api sid o1 (add_trial (failed_row env started (trial_row env sid n ps None TrialFailed e t)) d)" for e t
    by (intro add_row_ok [OF ok assms(3)]) auto
  with ok show ?thesis using assms(6) by (auto simp: fail_trial_def Let_def o1_def split: if_splits)
qed

lemma run_allocated_ok:
  assumes "optuna_ok api" "trials_ok api sid opt d" "existing_terminal_app_row d sid n = None" "env_ok env"
    and "st_id study_row = sid" "n < length (oa_trials api opt)" "\<not> is_finished (ft_state (oa_trials api opt ! n))"
    and nan: "\<And>ps. execute_trial env study_row ps key \<noteq> Inr NaN"
    and "run_allocated api env study_row n key (oa_trials api opt ! n) opt d = (j, opt', d')"
  shows "trials_ok api sid opt' d'"
proof -
  let ?ft = "oa_trials api opt ! n"
  have unfinished: "ft_state ?ft \<noteq> OptComplete \<and> ft_state ?ft \<noteq> OptPruned" using assms(7) by auto
  show ?thesis
  proof (cases "execute_trial env study_row (ft_params ?ft) key")
    case (Inl e)
    then show ?thesis
      using assms(2,5,9) fail_trial_ok [OF assms(1-3)] assms(7) unfinished
      by (auto simp: run_allocated_def execute_value split: if_splits trial_failure.splits)
  next
    case (Inr v)
    then have "v \<noteq> NaN" using nan by auto
    then obtain o1 where o1: "oa_tell api n (TellValue v) opt = Some o1"
      "oa_trials api o1 = (oa_trials api opt)[n := told_trial (TellValue v) ?ft]"
      using tell_running [OF assms(1,6,7), of "TellValue v"] by auto
    have ok: "trials_ok api sid o1 d"
      using assms(2) no_row [OF assms(3)] by (auto simp: trials_ok_def o1(2) row_agrees_tell)
    have "row_agrees (oa_trials api o1) (scored_row env sc (trial_row env sid n (ft_params ?ft) (Some v) Complete e t))" for sc e t
      using assms(6) by (simp add: row_agrees_def o1(2) told_trial_def)
    then have "trials_ok api sid o1 (add_trial (scored_row env sc (trial_row env sid n (ft_params ?ft) (Some v) Complete e t)) d)"
      for sc e t by (intro add_row_ok [OF ok assms(3)]) auto
    with ok show ?thesis
      using assms(2,5,9) Inr o1(1) by (auto simp: run_allocated_def execute_value Let_def split: if_splits)
  qed
qed

lemma reconstructed_agrees:
  "n < length ts \<Longrightarrow> is_finished (ft_state (ts ! n)) \<Longrightarrow> row_agrees ts (reconstructed_row env sid n key (ts ! n))"
  by (cases "ft_state (ts ! n)") (simp_all add: reconstructed_row_def row_agrees_def)

lemma reconstructed_simps [simp]:
  "tr_number (reconstructed_row env sid n key ft) = int n" "tr_study_id (reconstructed_row env sid n key ft) = sid"
  "\<not> tr_is_baseline (reconstructed_row env sid n key ft)" "tr_params (reconstructed_row env sid n key ft) = ft_params ft"
  by (simp_all add: reconstructed_row_def split: trial_state.splits)

text \<open>The study can be opened: its sampler, pruner and objective are valid; and no metric is NaN.\<close>

definition opens :: "trial_env \<Rightarrow> study \<Rightarrow> bool" where
  "opens env row = (open_optuna env row = None \<and> (\<exists>key. objective_metric_key (st_objective row) = Inr key \<and>
     (\<forall>ps. execute_trial env row ps key \<noteq> Inr NaN)))"

lemma run_trial_keeps:
  assumes ok: "optuna_ok api" "env_ok env" and inv: "trials_ok api sid opt d"
    and op: "\<And>row. get_study d sid = Some row \<Longrightarrow> opens env row"
    and run: "run_trial api env sid n opt d = (j, opt', d')"
  shows "trials_ok api sid opt' d'"
proof (cases "get_study d sid = None \<or> existing_terminal_app_row d sid n \<noteq> None")
  case True
  then show ?thesis using run inv by (auto simp: run_trial_def split: option.splits if_splits)
next
  case False
  then obtain row where row: "get_study d sid = Some row" and new: "existing_terminal_app_row d sid n = None"
    by auto
  have id: "st_id row = sid" using get_study_id [OF row] by simp
  from op [OF row] obtain key where key: "open_optuna env row = None" "objective_metric_key (st_objective row) = Inr key"
    "\<And>ps. execute_trial env row ps key \<noteq> Inr NaN"
    by (auto simp: opens_def)
  let ?ts = "oa_trials api opt"
  consider (unknown) "n \<ge> length ?ts" | (finished) "n < length ?ts" "is_finished (ft_state (?ts ! n))"
    | (running) "n < length ?ts" "\<not> is_finished (ft_state (?ts ! n))" by linarith
  then show ?thesis
  proof cases
    case unknown
    then have "fail_trial api env sid n True False [] NoSuchTrial opt d = (j, opt', d')"
      using run row new key by (simp add: run_trial_def)
    then show ?thesis using fail_trial_ok [OF ok(1) inv new] unknown by simp
  next
    case finished
    have "te_insert env r \<noteq> InsertOther" for r using ok(2) by (simp add: env_ok_def)
    then have "d' = d \<or> d' = add_trial (reconstructed_row env sid n key (?ts ! n)) d" "opt' = opt"
      using run row new key finished
      by (auto simp: run_trial_def reconstruct_from_optuna_def Let_def split: insert_end.splits)
    then show ?thesis
      using inv add_row_ok [OF inv new, of "reconstructed_row env sid n key (?ts ! n)"]
        reconstructed_agrees [OF finished] by auto
  next
    case running
    then have "run_allocated api env row n key (?ts ! n) opt d = (j, opt', d')"
      using run row new key by (simp add: run_trial_def)
    then show ?thesis using run_allocated_ok [OF ok(1) inv new ok(2) id running key(3)] by simp
  qed
qed

section \<open>Runs\<close>

text \<open>
  The trials of one study as the orchestrator allocates them and workers, delivered, retried
  and killed at any point, run them one after another. The study's row stays readable and is
  not edited; other rows change freely.
\<close>

inductive trial_step :: "'o optuna_api \<Rightarrow> string \<Rightarrow> 'o \<times> db \<Rightarrow> 'o \<times> db \<Rightarrow> bool" for api sid where
  step_run: "run_trial api env sid n opt d = (j, opt', d') \<Longrightarrow> env_ok env \<Longrightarrow>
      (\<And>row. get_study d sid = Some row \<Longrightarrow> opens env row) \<Longrightarrow> trial_step api sid (opt, d) (opt', d')"
| step_ask: "oa_trials api opt' = oa_trials api opt @ [ft] \<Longrightarrow> ft_state ft = OptRunning \<Longrightarrow>
      \<forall>t\<in>set (optuna_rows d sid). tr_number t < int (length (oa_trials api opt)) \<Longrightarrow>
      trial_step api sid (opt, d) (opt', d)"
| step_other: "optuna_rows d' sid = optuna_rows d sid \<Longrightarrow> trial_step api sid (opt, d) (opt, d')"

lemma trial_step_ok:
  assumes "trial_step api sid x y" "optuna_ok api"
  shows "trials_ok api sid (fst x) (snd x) \<Longrightarrow> trials_ok api sid (fst y) (snd y)"
  using assms(1)
proof cases
  case (step_run env n opt d j opt' d')
  then show "trials_ok api sid (fst x) (snd x) \<Longrightarrow> ?thesis"
    using run_trial_keeps [OF assms(2)] by simp
next
  case (step_ask opt' opt ft d)
  have "row_agrees (oa_trials api opt @ [ft]) t"
    if "row_agrees (oa_trials api opt) t" "tr_number t < int (length (oa_trials api opt))" for t
    using that by (auto simp: row_agrees_def Let_def nth_append split: trial_status.splits)
  then show "trials_ok api sid (fst x) (snd x) \<Longrightarrow> ?thesis"
    using step_ask by (auto simp: trials_ok_def)
next
  case (step_other d' d opt)
  then show "trials_ok api sid (fst x) (snd x) \<Longrightarrow> ?thesis" by (simp add: trials_ok_def)
qed

lemma existing_after_add:
  "tr_study_id row = sid \<Longrightarrow> tr_number row = int n \<Longrightarrow> existing_terminal_app_row (add_trial row d) sid n \<noteq> None"
  by (simp add: existing_terminal_app_row_def add_trial_def find_None_all)

lemma trial_row_new:
  "\<exists>r. tr_study_id r = s \<and> tr_number r = int n \<and> \<not> tr_is_baseline r \<and>
     add_trial (scored_row env sc (trial_row env s n ps m st e t)) d = add_trial r d"
  by (rule exI [of _ "scored_row env sc (trial_row env s n ps m st e t)"]) simp

lemma reconstructed_new:
  "\<exists>r. tr_study_id r = s \<and> tr_number r = int n \<and> \<not> tr_is_baseline r \<and>
     add_trial (reconstructed_row env s n key ft) d = add_trial r d"
  by (rule exI [of _ "reconstructed_row env s n key ft"]) simp

lemma fail_trial_done:
  "fail_trial api env sid n opened started ps e opt d = (JobDone, opt', d') \<Longrightarrow>
     \<exists>row. tr_study_id row = sid \<and> tr_number row = int n \<and> \<not> tr_is_baseline row \<and> d' = add_trial row d"
  by (auto simp: fail_trial_def Let_def split: if_splits intro!: exI)

lemma run_allocated_done:
  "run_allocated api env row n key ft opt d = (JobDone, opt', d') \<Longrightarrow>
     \<exists>r. tr_study_id r = st_id row \<and> tr_number r = int n \<and> \<not> tr_is_baseline r \<and> d' = add_trial r d"
  by (auto simp: run_allocated_def Let_def split: if_splits sum.splits trial_failure.splits option.splits
      dest!: fail_trial_done intro: trial_row_new)

lemma run_trial_done:
  assumes "run_trial api env sid n opt d = (JobDone, opt', d')" "get_study d sid = Some row"
    "existing_terminal_app_row d sid n = None"
  shows "\<exists>r. tr_study_id r = sid \<and> tr_number r = int n \<and> \<not> tr_is_baseline r \<and> d' = add_trial r d"
proof -
  have "st_id row = sid" using get_study_id [OF assms(2)] by simp
  then show ?thesis
    using assms(1) run_allocated_done [of api env row n]
    by (auto simp: run_trial_def assms(2,3) reconstruct_from_optuna_def Let_def
        split: option.splits sum.splits if_splits insert_end.splits dest!: fail_trial_done intro: reconstructed_new)
qed

lemma get_study_add [simp]: "get_study (add_trial r d) = get_study d"
  by (simp add: add_trial_def get_study_def fun_eq_iff)

section \<open>Properties\<close>



text \<open>A delivery is idempotent: once a run ended normally the trial has exactly one row, and every
  further delivery of the job changes neither the tables nor Optuna.\<close>

theorem trial_run_once:
  assumes "run_trial api env sid n opt d = (JobDone, opt', d')" and "get_study d sid = Some row"
    and "distinct (map tr_number (optuna_rows d sid))" and "\<forall>t\<in>set (db_trials d). tr_is_baseline t \<longrightarrow> tr_number t < 0"
  shows "(\<exists>t\<in>set (optuna_rows d' sid). tr_number t = int n) \<and> distinct (map tr_number (optuna_rows d' sid)) \<and>
    run_trial api env2 sid n opt' d' = (JobDone, opt', d')"
proof (cases "existing_terminal_app_row d sid n")
  case None
  from run_trial_done [OF assms(1,2) None] obtain r where
    r: "tr_study_id r = sid" "tr_number r = int n" "\<not> tr_is_baseline r" "d' = add_trial r d" by blast
  have "int n \<notin> tr_number ` set (optuna_rows d sid)" using no_row [OF None] by fastforce
  then show ?thesis
    using r assms(2,3) existing_after_add [OF r(1,2)] by (auto simp: run_trial_def)
next
  case (Some t)
  then have same: "opt' = opt" "d' = d" using assms(1,2) by (auto simp: run_trial_def)
  have "t \<in> set (db_trials d)" "tr_study_id t = sid" "tr_number t = int n"
    using find_Some_in [OF Some [unfolded existing_terminal_app_row_def]] by auto
  then have "t \<in> set (optuna_rows d sid)" using assms(4) by (force simp: optuna_rows_def)
  then show ?thesis using same assms(2,3) Some \<open>tr_number t = int n\<close> by (auto simp: run_trial_def)
qed

section \<open>What goes wrong\<close>

text \<open>
  Two deliveries at once: the second has loaded the trial before the first told Optuna. Its own
  \<open>tell\<close> is refused, and its handler adds a failed row beside the complete one.
\<close>

lemma concurrent_delivery:
  assumes "optuna_ok api" and "n < length (oa_trials api opt)" and "\<not> is_finished (ft_state (oa_trials api opt ! n))"
    and "execute_trial env row (ft_params (oa_trials api opt ! n)) key = Inr v" and "v \<noteq> NaN"
    and "te_crash env = NoCrash" and "\<And>r. te_insert env r = InsertOk"
  shows "\<exists>opt1 good bad. run_allocated api env row n key (oa_trials api opt ! n) opt d = (JobDone, opt1, add_trial good d) \<and>
    run_allocated api env row n key (oa_trials api opt ! n) opt1 (add_trial good d) =
      (JobDone, opt1, add_trial bad (add_trial good d)) \<and>
    tr_status good = Complete \<and> tr_status bad = TrialFailed \<and> tr_number bad = tr_number good"
proof -
  let ?ft = "oa_trials api opt ! n"
  obtain opt1 where o1: "oa_tell api n (TellValue v) opt = Some opt1"
    "oa_trials api opt1 = (oa_trials api opt)[n := told_trial (TellValue v) ?ft]"
    using tell_running [OF assms(1-3), of "TellValue v"] assms(5) by auto
  have fin: "is_finished (ft_state (oa_trials api opt1 ! n))" using assms(2) by (simp add: o1(2) told_trial_def)
  have "oa_tell api n (TellValue v) opt1 = None" "oa_tell api n TellFail opt1 = None"
    using tell_refused [OF assms(1), of n opt1] fin assms(5) by auto
  note refused = this
  obtain sc where sc: "execute_scored env row (ft_params ?ft) key = Inr sc" "primary_of key sc = v"
    using assms(4) by (auto simp: execute_value)
  let ?good = "scored_row env sc (trial_row env (st_id row) n (ft_params ?ft) (Some v) Complete None (Some (te_now env)))"
  let ?bad = "failed_row env True (trial_row env (st_id row) n (ft_params ?ft) None TrialFailed
    (Some (take 500 (te_error_text env TellRefused))) (Some (te_now env)))"
  show ?thesis
    using assms(6,7) o1(1) refused sc
    by (intro exI [of _ opt1] exI [of _ ?good] exI [of _ ?bad]) (simp add: run_allocated_def fail_trial_def)
qed

text \<open>A study with a time budget only, which the API admits, has no pruner.\<close>

lemma time_budget_study:
  "map_of config ''pruner'' = None \<Longrightarrow> map_of config ''max_trials'' = None \<Longrightarrow>
     build_pruner config = Inl MaxTrialsRequired"
  by (simp add: build_pruner_def obj_get_def)

section \<open>A concrete trial\<close>

definition list_optuna :: "frozen_trial list optuna_api" where
  "list_optuna = \<lparr>oa_trials = (\<lambda>s. s),
     oa_tell = (\<lambda>n r s. if n < length s \<and> \<not> is_finished (ft_state (s ! n))
       then Some (s[n := told_trial r (s ! n)]) else None)\<rparr>"

lemma list_optuna_ok: "optuna_ok list_optuna"
  by (auto simp: optuna_ok_def list_optuna_def)

definition sample_trial_study :: study where
  "sample_trial_study = (sample_study ''s'' None Running)
     \<lparr>st_config := [(''max_trials'', PInt 10), (''secondary_metrics'', PList []), (''trial_timeout_s'', PInt 5)],
      st_objective := [(''metric'', PStr ''mrr''), (''direction'', PStr ''maximize'')]\<rparr>"

definition sample_trial_env :: trial_env where
  "sample_trial_env = \<lparr>te_open = (\<lambda>_ _ _. True), te_cluster = (\<lambda>_. Some ''http''), te_url_allowed = (\<lambda>_. True),
     te_template = (\<lambda>_. Some PNone), te_queries = (\<lambda>_. [(''q'', ''text'')]),
     te_judgments = [\<lparr>jd_judgment_list_id = ''j'', jd_query_id = ''q'', jd_doc_id = ''d'', jd_rating = 1\<rparr>],
     te_render = (\<lambda>_ _ _. Inr PNone), te_search = (\<lambda>_ _ _ _ _. Inr [(''q'', [(''d'', Fin 2)])]),
     te_iter_calc = (\<lambda>_ _ _. Some [(''q'', RR, Fin 1)]), te_set_order = (\<lambda>xs. xs), te_str = (\<lambda>_. []),
     te_float_of_str = (\<lambda>_. None), te_default_timeout = 60, te_error_text = (\<lambda>_. ''error''),
     te_trial_id = ''t'', te_started = 1, te_scored = 2, te_now = 3, te_insert = (\<lambda>_. InsertOk), te_crash = NoCrash\<rparr>"

definition sample_allocated :: "frozen_trial list" where
  "sample_allocated = [\<lparr>ft_state = OptRunning, ft_params = [(''x'', PInt 1)], ft_value = None\<rparr>]"

definition sample_trial_tables :: db where
  "sample_trial_tables = \<lparr>db_studies = [sample_trial_study], db_trials = [], db_proposals = []\<rparr>"

lemma sample_scoring: "score (\<lambda>_ _ _. Some [(''q'', RR, Fin 1)]) [(''q'', [(''d'', 1)])] [(''q'', [(''d'', Fin 2)])] [''mrr''] =
    Inr \<lparr>sr_aggregate = [(''mrr'', Fin 1)], sr_per_query = [(''q'', [(''mrr'', Fin 1)])]\<rparr>"
proof -
  have "translate_all [''mrr''] = Inr [(''mrr'', RR)]" by code_simp
  then show ?thesis
    by (simp add: score_def dict_values_def valid_qids_def dict_keys_def set_nested_def aggregate_metrics_def
        float_mean_def float_sum_def List.map_filter_def)
qed

lemma sample_scored: "execute_scored sample_trial_env sample_trial_study ps ''mrr'' =
    Inr \<lparr>sr_aggregate = [(''mrr'', Fin 1)], sr_per_query = [(''q'', [(''mrr'', Fin 1)])]\<rparr>"
proof -
  have "load_qrels (te_judgments sample_trial_env) (st_judgment_list_id sample_trial_study) = [(''q'', [(''d'', 1)])]"
    "metrics_set sample_trial_env ''mrr'' (st_config sample_trial_study) = [''mrr'']"
    "trial_timeout sample_trial_env (st_config sample_trial_study) = Some (Fin 5)"
    "run_dict [(''q'', [(''d'', Fin 2)])] = [(''q'', [(''d'', Fin 2)])]"
    by (simp_all add: load_qrels_def sample_trial_env_def sample_trial_study_def sample_study_def set_nested_def
        metrics_set_def trial_timeout_def obj_get_def py_float_def float_of_int_def run_dict_def)
  then show ?thesis
    by (simp add: execute_scored_def sample_scoring) (simp add: sample_trial_env_def sample_scoring)
qed

lemma sample_execute: "execute_trial sample_trial_env sample_trial_study ps ''mrr'' = Inr (Fin 1)"
  by (simp add: execute_trial_def sample_scored primary_of_def)

lemma sample_key: "objective_metric_key (st_objective sample_trial_study) = Inr ''mrr''"
  by (simp add: sample_trial_study_def objective_metric_key_def obj_get_def SUPPORTED_METRICS_def K_NEVER_def)

lemma sample_opens: "opens sample_trial_env sample_trial_study"
proof -
  have "open_optuna sample_trial_env sample_trial_study = None"
    by (simp add: open_optuna_def sample_trial_study_def build_sampler_def obj_get_default_def build_pruner_def
        obj_get_def STUDIES_TPE_WARMUP_FLOOR_def sample_trial_env_def)
  then show ?thesis by (simp add: opens_def sample_key sample_execute)
qed

lemma sample_trial_row: "get_study sample_trial_tables ''s'' = Some sample_trial_study"
  "existing_terminal_app_row sample_trial_tables ''s'' n = None"
  by (simp_all add: get_study_def sample_trial_tables_def sample_trial_study_def sample_study_def
      existing_terminal_app_row_def)


lemma sample_trial_run:
  "\<exists>opt1 r. run_trial list_optuna sample_trial_env ''s'' 0 sample_allocated sample_trial_tables =
     (JobDone, opt1, add_trial r sample_trial_tables) \<and> oa_trials list_optuna opt1 =
     [\<lparr>ft_state = OptComplete, ft_params = [(''x'', PInt 1)], ft_value = Some (Fin 1)\<rparr>]"
  using sample_opens sample_scored
  by (auto simp: run_trial_def sample_trial_row opens_def sample_key run_allocated_def list_optuna_def sample_allocated_def
      told_trial_def primary_of_def Let_def) (simp_all add: sample_trial_env_def)

lemma trial_run_once_witness:
  "\<exists>opt1 d1. run_trial list_optuna sample_trial_env ''s'' 0 sample_allocated sample_trial_tables = (JobDone, opt1, d1) \<and>
     run_trial list_optuna sample_trial_env ''s'' 0 opt1 d1 = (JobDone, opt1, d1)"
proof -
  from sample_trial_run obtain opt1 r where
    run: "run_trial list_optuna sample_trial_env ''s'' 0 sample_allocated sample_trial_tables = (JobDone, opt1, add_trial r sample_trial_tables)"
    by blast
  from trial_run_once [OF run sample_trial_row(1), of sample_trial_env] run show ?thesis
    by (auto simp: sample_trial_tables_def optuna_rows_def)
qed


end
