(* ===== verification/Proposals.thy ===== *)
theory Proposals
  imports Study_State
begin

text \<open>
  The life of a proposal (\<open>backend/app/db/repo/proposal.py\<close>): the conditional updates the
  workers and the webhook use, the read-check-write transitions of the operator, the candidate
  query of the reconciler. A conditional UPDATE returns the row it changed, or \<open>None\<close>. Times
  are microseconds; \<open>now\<close> is the clock.
\<close>

section \<open>Conditional updates\<close>

text \<open>\<open>UPDATE proposals SET ... WHERE id = :id AND guard RETURNING *\<close>.\<close>

definition conditional_update ::
  "string \<Rightarrow> (proposal \<Rightarrow> bool) \<Rightarrow> (proposal \<Rightarrow> proposal) \<Rightarrow> db \<Rightarrow> proposal option \<times> db" where
  "conditional_update i guard f d =
     (case get_proposal d i of
        None \<Rightarrow> (None, d)
      | Some r \<Rightarrow>
          (if guard r then (Some (f r), update_proposals (\<lambda>x. pp_id x = i \<and> guard x) f d) else (None, d)))"

definition update_proposal_for_digest :: "string \<Rightarrow> obj \<Rightarrow> db \<Rightarrow> proposal option \<times> db" where
  "update_proposal_for_digest i config_diff = conditional_update i (\<lambda>r. pp_status r = Pending)
     (\<lambda>r. r\<lparr>pp_config_diff := config_diff\<rparr>)"

definition mark_proposal_pr_opened :: "string \<Rightarrow> string \<Rightarrow> db \<Rightarrow> proposal option \<times> db" where
  "mark_proposal_pr_opened i pr_url = conditional_update i (\<lambda>r. pp_status r = Pending)
     (\<lambda>r. r\<lparr>pp_pr_url := Some pr_url, pp_pr_state := Some PrOpen, pp_status := PrOpened,
            pp_pr_open_error := None\<rparr>)"

definition set_proposal_pr_open_error :: "string \<Rightarrow> string \<Rightarrow> db \<Rightarrow> proposal option \<times> db" where
  "set_proposal_pr_open_error i err = conditional_update i (\<lambda>r. pp_status r = Pending)
     (\<lambda>r. r\<lparr>pp_pr_open_error := Some err\<rparr>)"

definition mark_proposal_pr_merged :: "string \<Rightarrow> int \<Rightarrow> db \<Rightarrow> proposal option \<times> db" where
  "mark_proposal_pr_merged i pr_merged_at = conditional_update i
     (\<lambda>r. pp_status r = PrOpened \<and> pp_pr_state r = Some PrOpen)
     (\<lambda>r. r\<lparr>pp_status := PrMerged, pp_pr_state := Some PrStateMerged,
            pp_pr_merged_at := Some pr_merged_at\<rparr>)"

definition mark_proposal_pr_merged_from_closed :: "string \<Rightarrow> int \<Rightarrow> db \<Rightarrow> proposal option \<times> db" where
  "mark_proposal_pr_merged_from_closed i pr_merged_at = conditional_update i
     (\<lambda>r. pp_status r = PrOpened \<and> pp_pr_state r = Some PrClosed)
     (\<lambda>r. r\<lparr>pp_status := PrMerged, pp_pr_state := Some PrStateMerged,
            pp_pr_merged_at := Some pr_merged_at\<rparr>)"

definition mark_proposal_pr_closed :: "string \<Rightarrow> db \<Rightarrow> proposal option \<times> db" where
  "mark_proposal_pr_closed i = conditional_update i
     (\<lambda>r. pp_status r = PrOpened \<and> pp_pr_state r = Some PrOpen)
     (\<lambda>r. r\<lparr>pp_pr_state := Some PrClosed\<rparr>)"

definition mark_proposal_pr_reopened :: "string \<Rightarrow> db \<Rightarrow> proposal option \<times> db" where
  "mark_proposal_pr_reopened i = conditional_update i
     (\<lambda>r. pp_status r = PrOpened \<and> pp_pr_state r = Some PrClosed)
     (\<lambda>r. r\<lparr>pp_pr_state := Some PrOpen\<rparr>)"

definition stamp_proposal_last_polled_at :: "int \<Rightarrow> string \<Rightarrow> db \<Rightarrow> proposal option \<times> db" where
  "stamp_proposal_last_polled_at now i = conditional_update i
     (\<lambda>r. pp_status r = PrOpened \<and> pp_pr_state r = Some PrClosed)
     (\<lambda>r. r\<lparr>pp_last_polled_at := Some now\<rparr>)"

section \<open>The operator's transitions\<close>

text \<open>
  The row is loaded without a lock and tested in the session, and the flush updates it by its id alone:
  \<open>d0\<close> is the table when the row was loaded, \<open>d\<close> the one the flush writes. A row that is gone by then
  is the \<open>StaleDataError\<close> of the flush.
\<close>

datatype proposal_error = LookupError string | ProposalInvalidStateTransition string proposal_status | StaleData string

definition reject_proposal :: "string \<Rightarrow> string option \<Rightarrow> db \<Rightarrow> db \<Rightarrow> (proposal_error + proposal) \<times> db" where
  "reject_proposal i reason d0 d = (case get_proposal d0 i of
       None \<Rightarrow> (Inl (LookupError i), d)
     | Some r \<Rightarrow>
         (if pp_status r \<noteq> Pending then (Inl (ProposalInvalidStateTransition i (pp_status r)), d)
          else if get_proposal d i = None then (Inl (StaleData i), d)
          else (Inr (r\<lparr>pp_status := Rejected, pp_rejected_reason := reason\<rparr>),
                update_proposals (\<lambda>x. pp_id x = i)
                  (\<lambda>r. r\<lparr>pp_status := Rejected, pp_rejected_reason := reason\<rparr>) d)))"

definition reinstate_from_superseded :: "string \<Rightarrow> db \<Rightarrow> db \<Rightarrow> (proposal_error + proposal) \<times> db" where
  "reinstate_from_superseded i d0 d = (case get_proposal d0 i of
       None \<Rightarrow> (Inl (LookupError i), d)
     | Some r \<Rightarrow>
         (if pp_status r \<noteq> Superseded then (Inl (ProposalInvalidStateTransition i (pp_status r)), d)
          else if get_proposal d i = None then (Inl (StaleData i), d)
          else (Inr (r\<lparr>pp_status := Pending\<rparr>),
                update_proposals (\<lambda>x. pp_id x = i) (\<lambda>r. r\<lparr>pp_status := Pending\<rparr>) d)))"

text \<open>The ids RETURNING yields, in the order of the table.\<close>

definition bulk_mark_superseded :: "string list \<Rightarrow> db \<Rightarrow> string list \<times> db" where
  "bulk_mark_superseded losers d =
     (if losers = [] then ([], d)
      else (let hit = (\<lambda>r. pp_status r = Pending \<and> (case pp_study_id r of
                  None \<Rightarrow> False | Some s \<Rightarrow> s \<in> set losers))
            in (map pp_id (filter hit (db_proposals d)),
                update_proposals hit (\<lambda>r. r\<lparr>pp_status := Superseded\<rparr>) d)))"

definition hard_delete_proposal :: "string \<Rightarrow> db \<Rightarrow> bool \<times> db" where
  "hard_delete_proposal i d = (case get_proposal d i of
       None \<Rightarrow> (False, d)
     | Some _ \<Rightarrow> (True, d\<lparr>db_proposals := filter (\<lambda>r. pp_id r \<noteq> i) (db_proposals d)\<rparr>))"

section \<open>Queries\<close>

text \<open>\<open>scalar_one_or_none\<close> raises when more than one row has the URL.\<close>

definition lookup_proposal_by_pr_url :: "db \<Rightarrow> string \<Rightarrow> unit + proposal option" where
  "lookup_proposal_by_pr_url d pr_url =
     (case filter (\<lambda>r. pp_pr_url r = Some pr_url) (db_proposals d) of
        [] \<Rightarrow> Inr None | [r] \<Rightarrow> Inr (Some r) | _ \<Rightarrow> Inl ())"

definition days :: "int \<Rightarrow> int" where "days n = n * 86400000000"

definition hours :: "int \<Rightarrow> int" where "hours n = n * 3600000000"

definition reconcile_candidate :: "int \<Rightarrow> proposal \<Rightarrow> bool" where
  "reconcile_candidate now r =
     (pp_status r = PrOpened \<and> pp_pr_url r \<noteq> None \<and> pp_created_at r > now - days 90 \<and>
      \<not> (pp_pr_state r = Some PrClosed \<and>
         (case pp_last_polled_at r of None \<Rightarrow> False | Some t \<Rightarrow> t > now - hours 24)))"

definition list_pr_opened_proposals_for_reconcile :: "int \<Rightarrow> db \<Rightarrow> proposal list" where
  "list_pr_opened_proposals_for_reconcile now d =
     sort_key pp_created_at (filter (reconcile_candidate now) (db_proposals d))"

text \<open>\<open>digests\<close> are the ids of the studies that have one.\<close>

definition list_pending_proposals_for_boot_scan :: "string set \<Rightarrow> db \<Rightarrow> string list" where
  "list_pending_proposals_for_boot_scan digests d =
     List.map_filter pp_study_id (filter (\<lambda>r. pp_status r = Pending \<and>
       (\<exists>s. pp_study_id r = Some s \<and> s \<notin> digests)) (db_proposals d))"

section \<open>The proposal state machine\<close>

fun proposal_targets :: "proposal_status \<Rightarrow> proposal_status list" where
  "proposal_targets Pending = [PrOpened, Rejected, Superseded]"
| "proposal_targets PrOpened = [PrMerged]"
| "proposal_targets PrMerged = []"
| "proposal_targets Rejected = []"
| "proposal_targets Superseded = [Pending]"

definition proposal_final :: "proposal_status \<Rightarrow> bool" where
  "proposal_final s = (s = PrMerged \<or> s = Rejected)"

interpretation proposal_sm: status_machine proposal_targets proposal_final
  by unfold_locales (auto simp: proposal_final_def)

definition proposal_run :: "proposal_status \<Rightarrow> proposal_status \<Rightarrow> bool" where
  "proposal_run = (\<lambda>x y. y \<in> set (proposal_targets x))\<^sup>*\<^sup>*"

text \<open>
  A row is well formed when its pull request columns agree with its status: opened ones have a
  URL and an open or closed pull request, exactly the merged ones a merge time and state.
\<close>

definition proposal_wf :: "proposal \<Rightarrow> bool" where
  "proposal_wf r =
     ((pp_status r = PrOpened \<longrightarrow> pp_pr_url r \<noteq> None \<and> pp_pr_state r \<in> {Some PrOpen, Some PrClosed}) \<and>
      (pp_status r = PrMerged \<longleftrightarrow> pp_pr_state r = Some PrStateMerged) \<and>
      (pp_status r = PrMerged \<longleftrightarrow> pp_pr_merged_at r \<noteq> None) \<and>
      (pp_status r = PrMerged \<longrightarrow> pp_pr_url r \<noteq> None) \<and>
      (pp_status r \<in> {Pending, Rejected, Superseded} \<longrightarrow> pp_pr_state r = None))"

definition proposals_wf :: "db \<Rightarrow> bool" where
  "proposals_wf d = (\<forall>r\<in>set (db_proposals d). proposal_wf r)"

text \<open>What one operation may do to one row.\<close>

definition row_moves :: "proposal \<Rightarrow> proposal \<Rightarrow> bool" where
  "row_moves r r' = (pp_id r' = pp_id r \<and> proposal_run (pp_status r) (pp_status r') \<and>
     (proposal_wf r \<longrightarrow> proposal_wf r') \<and>
     (pp_status r = PrMerged \<longrightarrow> r' = r) \<and> pp_cluster_id r' = pp_cluster_id r)"

definition table_moves :: "db \<Rightarrow> db \<Rightarrow> bool" where
  "table_moves d e = (list_all2 row_moves (db_proposals d) (db_proposals e) \<and>
     db_studies e = db_studies d \<and> db_trials e = db_trials d)"

lemma proposal_run_refl [simp]: "proposal_run x x"
  by (simp add: proposal_run_def)

lemma proposal_run_step: "y \<in> set (proposal_targets x) \<Longrightarrow> proposal_run x y"
  by (simp add: proposal_run_def r_into_rtranclp)

lemma proposal_run_trans: "proposal_run x y \<Longrightarrow> proposal_run y z \<Longrightarrow> proposal_run x z"
  unfolding proposal_run_def by (rule rtranclp_trans)

lemma row_moves_refl [simp]: "row_moves r r"
  by (simp add: row_moves_def)

lemma row_moves_trans: "row_moves a b \<Longrightarrow> row_moves b c \<Longrightarrow> row_moves a c"
  by (auto simp: row_moves_def intro: proposal_run_trans)

lemma table_moves_refl [simp]: "table_moves d d"
  by (simp add: table_moves_def list.rel_refl)

lemma table_moves_trans: "table_moves a b \<Longrightarrow> table_moves b c \<Longrightarrow> table_moves a c"
  unfolding table_moves_def by (auto intro: list_all2_trans [OF row_moves_trans])

lemma table_moves_update:
  "(\<And>r. p r \<Longrightarrow> row_moves r ((f r)\<lparr>pp_id := pp_id r\<rparr>)) \<Longrightarrow> table_moves d (update_proposals p f d)"
  by (auto simp: table_moves_def update_proposals_def list_all2_map2 list_all2_same)

lemma table_moves_wf: "table_moves d e \<Longrightarrow> proposals_wf d \<Longrightarrow> proposals_wf e"
proof -
  assume a: "table_moves d e" "proposals_wf d"
  have "list_all2 row_moves xs ys \<Longrightarrow> \<forall>r\<in>set xs. proposal_wf r \<Longrightarrow> \<forall>r\<in>set ys. proposal_wf r" for xs ys
    by (induction rule: list_all2_induct) (auto simp: row_moves_def)
  with a show "proposals_wf e" by (auto simp: table_moves_def proposals_wf_def)
qed

lemma table_moves_get:
  assumes "table_moves d e" "get_proposal d i = Some r"
  shows "\<exists>r'. get_proposal e i = Some r' \<and> row_moves r r'"
proof -
  have "list_all2 row_moves xs ys \<Longrightarrow> find (\<lambda>x. pp_id x = i) xs = Some r \<Longrightarrow>
      \<exists>r'. find (\<lambda>x. pp_id x = i) ys = Some r' \<and> row_moves r r'" for xs ys
    by (induction rule: list_all2_induct) (auto simp: row_moves_def)
  with assms show ?thesis by (auto simp: table_moves_def get_proposal_def)
qed

section \<open>The contract of the conditional updates\<close>

text \<open>
  What every conditional update promises its callers: one row changes when its guard holds, and
  only by the stated effect; otherwise nothing changes and the caller learns it from \<open>None\<close>.
  The effect is a legal move of the row, and after a \<open>once\<close> update its guard is off.
\<close>

locale guarded_update =
  fixes op :: "string \<Rightarrow> db \<Rightarrow> proposal option \<times> db"
    and guard :: "proposal \<Rightarrow> bool"
    and eff :: "proposal \<Rightarrow> proposal"
  assumes op_shape: "op i d = conditional_update i guard eff d"
    and eff_moves: "guard r \<Longrightarrow> row_moves r (eff r)"
begin

lemma eff_id: "guard r \<Longrightarrow> pp_id (eff r) = pp_id r"
  using eff_moves [of r] by (simp add: row_moves_def)

lemma op_table_moves: "table_moves d (snd (op i d))"
proof -
  have "row_moves r ((eff r)\<lparr>pp_id := pp_id r\<rparr>)" if "pp_id r = i \<and> guard r" for r
    using eff_moves [of r] eff_id [of r] that by (metis (full_types) proposal.surjective proposal.update_convs(1))
  then show ?thesis
    by (auto simp: op_shape conditional_update_def split: option.splits intro!: table_moves_update)
qed

lemma op_None: "fst (op i d) = None \<Longrightarrow> snd (op i d) = d"
  by (auto simp: op_shape conditional_update_def split: option.splits if_splits)

lemma op_fst: "fst (op i d) = (case get_proposal d i of
     Some r \<Rightarrow> if guard r then Some (eff r) else None | None \<Rightarrow> None)"
  by (auto simp: op_shape conditional_update_def split: option.splits)

lemma op_get:
  "get_proposal (snd (op i d)) j = (if j = i then map_option (\<lambda>r. if guard r then eff r else r) (get_proposal d i)
     else get_proposal d j)"
proof (cases "fst (op i d)")
  case None
  have "get_proposal d i = Some r \<Longrightarrow> \<not> guard r" for r using None by (simp add: op_fst split: if_splits)
  then show ?thesis using op_None [OF None] by (cases "get_proposal d i") auto
next
  case (Some r')
  then obtain r where r: "get_proposal d i = Some r" "guard r"
    by (auto simp: op_fst split: option.splits if_splits)
  let ?g = "\<lambda>x. if pp_id x = i \<and> guard x then (eff x)\<lparr>pp_id := pp_id x\<rparr> else x"
  have same: "guard x \<Longrightarrow> (eff x)\<lparr>pp_id := pp_id x\<rparr> = eff x" for x using eff_id [of x] by simp
  have "get_proposal (snd (op i d)) j = map_option ?g (get_proposal d j)"
    using r by (simp add: op_shape conditional_update_def get_proposal_def update_proposals_def find_map_id)
  then show ?thesis using r same by (cases "get_proposal d j") (auto dest: get_proposal_id)
qed

lemma op_twice: "(\<And>r. guard r \<Longrightarrow> \<not> guard (eff r)) \<Longrightarrow> op i (snd (op i d)) = (None, snd (op i d))"
  by (auto simp: op_shape [of i "snd (op i d)"] conditional_update_def op_get split: option.splits if_splits)
end

interpretation digest_up: guarded_update "\<lambda>i. update_proposal_for_digest i cd" "\<lambda>r. pp_status r = Pending"
    "\<lambda>r. r\<lparr>pp_config_diff := cd\<rparr>" for cd
  by unfold_locales (auto simp: update_proposal_for_digest_def row_moves_def proposal_wf_def)

interpretation opened_up: guarded_update "\<lambda>i. mark_proposal_pr_opened i url" "\<lambda>r. pp_status r = Pending"
    "\<lambda>r. r\<lparr>pp_pr_url := Some url, pp_pr_state := Some PrOpen, pp_status := PrOpened, pp_pr_open_error := None\<rparr>"
    for url
  by unfold_locales (auto simp: mark_proposal_pr_opened_def row_moves_def proposal_wf_def intro: proposal_run_step)

interpretation open_error_up: guarded_update "\<lambda>i. set_proposal_pr_open_error i err" "\<lambda>r. pp_status r = Pending"
    "\<lambda>r. r\<lparr>pp_pr_open_error := Some err\<rparr>" for err
  by unfold_locales (auto simp: set_proposal_pr_open_error_def row_moves_def proposal_wf_def)

interpretation merged_up: guarded_update "\<lambda>i. mark_proposal_pr_merged i t"
    "\<lambda>r. pp_status r = PrOpened \<and> pp_pr_state r = Some PrOpen"
    "\<lambda>r. r\<lparr>pp_status := PrMerged, pp_pr_state := Some PrStateMerged, pp_pr_merged_at := Some t\<rparr>" for t
  by unfold_locales (auto simp: mark_proposal_pr_merged_def row_moves_def proposal_wf_def intro: proposal_run_step)

interpretation merged_closed_up: guarded_update "\<lambda>i. mark_proposal_pr_merged_from_closed i t"
    "\<lambda>r. pp_status r = PrOpened \<and> pp_pr_state r = Some PrClosed"
    "\<lambda>r. r\<lparr>pp_status := PrMerged, pp_pr_state := Some PrStateMerged, pp_pr_merged_at := Some t\<rparr>" for t
  by unfold_locales (auto simp: mark_proposal_pr_merged_from_closed_def row_moves_def proposal_wf_def
      intro: proposal_run_step)

interpretation closed_up: guarded_update mark_proposal_pr_closed
    "\<lambda>r. pp_status r = PrOpened \<and> pp_pr_state r = Some PrOpen" "\<lambda>r. r\<lparr>pp_pr_state := Some PrClosed\<rparr>"
  by unfold_locales (auto simp: mark_proposal_pr_closed_def row_moves_def proposal_wf_def)

interpretation reopened_up: guarded_update mark_proposal_pr_reopened
    "\<lambda>r. pp_status r = PrOpened \<and> pp_pr_state r = Some PrClosed" "\<lambda>r. r\<lparr>pp_pr_state := Some PrOpen\<rparr>"
  by unfold_locales (auto simp: mark_proposal_pr_reopened_def row_moves_def proposal_wf_def)

interpretation polled_up: guarded_update "stamp_proposal_last_polled_at now"
    "\<lambda>r. pp_status r = PrOpened \<and> pp_pr_state r = Some PrClosed" "\<lambda>r. r\<lparr>pp_last_polled_at := Some now\<rparr>" for now
  by unfold_locales (auto simp: stamp_proposal_last_polled_at_def row_moves_def proposal_wf_def)

section \<open>Everything that happens to proposals\<close>

text \<open>Between the load and the write of an operator's transition nobody changes the status it has tested.\<close>

definition undisturbed :: "string \<Rightarrow> db \<Rightarrow> db \<Rightarrow> bool" where
  "undisturbed i d0 d = (\<forall>r0 r. get_proposal d0 i = Some r0 \<longrightarrow> get_proposal d i = Some r \<longrightarrow> pp_status r = pp_status r0)"

lemma undisturbed_refl [simp]: "undisturbed i d d"
  by (simp add: undisturbed_def)

inductive proposal_step :: "db \<Rightarrow> db \<Rightarrow> bool" where
  digest: "proposal_step d (snd (update_proposal_for_digest i cd d))"
| opened: "proposal_step d (snd (mark_proposal_pr_opened i url d))"
| open_error: "proposal_step d (snd (set_proposal_pr_open_error i err d))"
| merged: "proposal_step d (snd (mark_proposal_pr_merged i t d))"
| merged_from_closed: "proposal_step d (snd (mark_proposal_pr_merged_from_closed i t d))"
| closed: "proposal_step d (snd (mark_proposal_pr_closed i d))"
| reopened: "proposal_step d (snd (mark_proposal_pr_reopened i d))"
| polled: "proposal_step d (snd (stamp_proposal_last_polled_at now i d))"
| rejected: "undisturbed i d0 d \<Longrightarrow> proposal_step d (snd (reject_proposal i reason d0 d))"
| reinstated: "undisturbed i d0 d \<Longrightarrow> proposal_step d (snd (reinstate_from_superseded i d0 d))"
| superseded: "proposal_step d (snd (bulk_mark_superseded losers d))"

text \<open>
  The whole life: updates, rows that are created with an id never used, and rows that are deleted by
  their id (the digest worker of a study whose parameters have all gone, and the endpoint for tests).
  \<open>used\<close> are the ids handed out, \<open>gone\<close> those deleted.
\<close>

inductive lifecycle_step :: "db \<times> string set \<times> string set \<Rightarrow> db \<times> string set \<times> string set \<Rightarrow> bool" where
  updated: "proposal_step d e \<Longrightarrow> lifecycle_step (d, used, gone) (e, used, gone)"
| created: "pp_id r \<notin> used \<Longrightarrow> pp_status r = Pending \<Longrightarrow> pp_pr_state r = None \<Longrightarrow> pp_pr_merged_at r = None \<Longrightarrow>
    lifecycle_step (d, used, gone) (d\<lparr>db_proposals := db_proposals d @ [r]\<rparr>, insert (pp_id r) used, gone)"
| deleted: "lifecycle_step (d, used, gone) (snd (hard_delete_proposal i d), used, insert i gone)"

text \<open>With unique keys a write by id reaches only the row whose status was tested.\<close>

lemma get_proposal_in: "db_ok d \<Longrightarrow> r \<in> set (db_proposals d) \<Longrightarrow> get_proposal d (pp_id r) = Some r"
proof -
  assume a: "db_ok d" "r \<in> set (db_proposals d)"
  have "distinct (map pp_id xs) \<Longrightarrow> r \<in> set xs \<Longrightarrow> find (\<lambda>x. pp_id x = pp_id r) xs = Some r" for xs
    by (induction xs) force+
  with a show ?thesis by (simp add: get_proposal_def db_ok_def)
qed

lemma table_moves_update_in:
  "(\<And>r. r \<in> set (db_proposals d) \<Longrightarrow> p r \<Longrightarrow> row_moves r ((f r)\<lparr>pp_id := pp_id r\<rparr>)) \<Longrightarrow>
     table_moves d (update_proposals p f d)"
  by (auto simp: table_moves_def update_proposals_def list_all2_map2 list_all2_same)

lemma tested_status:
  assumes "db_ok d" and "undisturbed i d0 d" and "get_proposal d0 i = Some r0" and "r \<in> set (db_proposals d)" and "pp_id r = i"
  shows "pp_status r = pp_status r0"
  using assms get_proposal_in [OF assms(1,4)] by (auto simp: undisturbed_def)

lemma reject_moves: "db_ok d \<Longrightarrow> undisturbed i d0 d \<Longrightarrow> table_moves d (snd (reject_proposal i reason d0 d))"
proof -
  assume a: "db_ok d" "undisturbed i d0 d"
  have "row_moves r ((r\<lparr>pp_status := Rejected, pp_rejected_reason := reason\<rparr>)\<lparr>pp_id := pp_id r\<rparr>)" if "pp_status r = Pending" for r
    using that by (auto simp: row_moves_def proposal_wf_def intro: proposal_run_step)
  note moves = table_moves_update_in [of d "\<lambda>x. pp_id x = i" "\<lambda>r. r\<lparr>pp_status := Rejected, pp_rejected_reason := reason\<rparr>", OF this]
  show ?thesis
  proof (cases "get_proposal d0 i")
    case (Some r0)
    note t = tested_status [OF a Some]
    show ?thesis
    proof (cases "pp_status r0 = Pending \<and> get_proposal d i \<noteq> None")
      case True
      then have "snd (reject_proposal i reason d0 d) = update_proposals (\<lambda>x. pp_id x = i)
          (\<lambda>r. r\<lparr>pp_status := Rejected, pp_rejected_reason := reason\<rparr>) d"
        by (auto simp: reject_proposal_def Some)
      then show ?thesis using moves t True by simp
    qed (auto simp: reject_proposal_def Some)
  qed (simp add: reject_proposal_def)
qed

lemma reinstate_moves: "db_ok d \<Longrightarrow> undisturbed i d0 d \<Longrightarrow> table_moves d (snd (reinstate_from_superseded i d0 d))"
proof -
  assume a: "db_ok d" "undisturbed i d0 d"
  have "row_moves r ((r\<lparr>pp_status := Pending\<rparr>)\<lparr>pp_id := pp_id r\<rparr>)" if "pp_status r = Superseded" for r
    using that by (auto simp: row_moves_def proposal_wf_def intro: proposal_run_step)
  note moves = table_moves_update_in [of d "\<lambda>x. pp_id x = i" "\<lambda>r. r\<lparr>pp_status := Pending\<rparr>", OF this]
  show ?thesis
  proof (cases "get_proposal d0 i")
    case (Some r0)
    note t = tested_status [OF a Some]
    show ?thesis
    proof (cases "pp_status r0 = Superseded \<and> get_proposal d i \<noteq> None")
      case True
      then have "snd (reinstate_from_superseded i d0 d) = update_proposals (\<lambda>x. pp_id x = i) (\<lambda>r. r\<lparr>pp_status := Pending\<rparr>) d"
        by (auto simp: reinstate_from_superseded_def Some)
      then show ?thesis using moves t True by simp
    qed (auto simp: reinstate_from_superseded_def Some)
  qed (simp add: reinstate_from_superseded_def)
qed

lemma supersede_moves: "table_moves d (snd (bulk_mark_superseded losers d))"
  by (auto simp: bulk_mark_superseded_def Let_def row_moves_def proposal_wf_def
      intro!: table_moves_update proposal_run_step)

lemma proposal_step_moves: "proposal_step d e \<Longrightarrow> db_ok d \<Longrightarrow> table_moves d e"
  by (induction rule: proposal_step.induct)
    (simp_all add: digest_up.op_table_moves opened_up.op_table_moves open_error_up.op_table_moves
      merged_up.op_table_moves merged_closed_up.op_table_moves closed_up.op_table_moves
      reopened_up.op_table_moves polled_up.op_table_moves reject_moves reinstate_moves supersede_moves)

lemma table_moves_db_ok: "table_moves d e \<Longrightarrow> db_ok d \<Longrightarrow> db_ok e"
proof -
  assume a: "table_moves d e" "db_ok d"
  have "map pp_id (db_proposals e) = map pp_id (db_proposals d)"
    using a(1) unfolding table_moves_def
    by (auto simp: list_all2_conv_all_nth row_moves_def intro!: nth_equalityI)
  with a show ?thesis by (simp add: db_ok_def table_moves_def)
qed

lemma get_proposal_append:
  "get_proposal (d\<lparr>db_proposals := db_proposals d @ [r]\<rparr>) i =
     (case get_proposal d i of None \<Rightarrow> if pp_id r = i then Some r else None | Some x \<Rightarrow> Some x)"
proof -
  have "find P (xs @ [r]) = (case find P xs of None \<Rightarrow> if P r then Some r else None | Some x \<Rightarrow> Some x)" for P and xs :: "proposal list"
    by (induction xs) auto
  then show ?thesis by (simp add: get_proposal_def split: option.splits)
qed

lemma get_proposal_deleted:
  "get_proposal (snd (hard_delete_proposal i d)) j = (if j = i then None else get_proposal d j)"
proof -
  have "find (\<lambda>r. pp_id r = j) (filter (\<lambda>r. pp_id r \<noteq> i) xs) = (if j = i then None else find (\<lambda>r. pp_id r = j) xs)" for xs
    by (induction xs) auto
  then show ?thesis by (auto simp: hard_delete_proposal_def get_proposal_def split: option.splits)
qed

text \<open>What the rows of the first table have become.\<close>

fun follows :: "db \<times> string set \<times> string set \<Rightarrow> db \<times> string set \<times> string set \<Rightarrow> bool" where
  "follows (d, u, g) (e, u', g') =
     (db_ok e \<and> proposals_wf e \<and> pp_id ` set (db_proposals e) \<subseteq> u' \<and> u \<subseteq> u' \<and>
      (\<forall>i r. get_proposal d i = Some r \<longrightarrow>
        (case get_proposal e i of None \<Rightarrow> i \<in> g' | Some r' \<Rightarrow> row_moves r r')))"

lemma followsD:
  assumes "follows (d, u, g) (e, u', g')"
  shows "db_ok e" "proposals_wf e" "pp_id ` set (db_proposals e) \<subseteq> u'" "u \<subseteq> u'"
    and "\<And>i r. get_proposal d i = Some r \<Longrightarrow> case get_proposal e i of None \<Rightarrow> i \<in> g' | Some r' \<Rightarrow> row_moves r r'"
  using assms unfolding follows.simps by blast+

lemma followsI:
  assumes "db_ok e" "proposals_wf e" "pp_id ` set (db_proposals e) \<subseteq> u'" "u \<subseteq> u'"
    and "\<And>i r. get_proposal d i = Some r \<Longrightarrow> case get_proposal e i of None \<Rightarrow> i \<in> g' | Some r' \<Rightarrow> row_moves r r'"
  shows "follows (d, u, g) (e, u', g')"
  using assms unfolding follows.simps by blast

declare follows.simps [simp del]

lemma follows_step:
  assumes "lifecycle_step y z" and "follows x y" and "pp_id ` set (db_proposals (fst x)) \<subseteq> fst (snd x)"
  shows "follows x z"
  using assms
proof (induction rule: lifecycle_step.induct)
  case (updated e f u' g')
  obtain d u g where x: "x = (d, u, g)" by (cases x)
  note old = followsD [OF updated.prems(1) [unfolded x]]
  have m: "table_moves e f" by (rule proposal_step_moves [OF updated.hyps old(1)])
  have "list_all2 row_moves xs ys \<Longrightarrow> pp_id ` set ys = pp_id ` set xs" for xs ys
    by (induction rule: list_all2_induct) (auto simp: row_moves_def)
  then have ids: "pp_id ` set (db_proposals f) = pp_id ` set (db_proposals e)" using m by (simp add: table_moves_def)
  have none: "get_proposal f i = None" if "get_proposal e i = None" for i
  proof -
    have "i \<notin> pp_id ` set (db_proposals e)" using that by (auto simp: get_proposal_def find_None_iff)
    then show ?thesis unfolding ids [symmetric] by (auto simp: get_proposal_def find_None_iff)
  qed
  have "case get_proposal f i of None \<Rightarrow> i \<in> g' | Some r' \<Rightarrow> row_moves r r'" if "get_proposal d i = Some r" for i r
  proof (cases "get_proposal e i")
    case None
    then show ?thesis using old(5) [OF that] none by simp
  next
    case (Some q)
    then obtain q' where q': "get_proposal f i = Some q'" "row_moves q q'" using table_moves_get [OF m Some] by blast
    have "row_moves r q" using old(5) [OF that] Some by simp
    then show ?thesis using q' row_moves_trans by simp
  qed
  then show ?case unfolding x
    using table_moves_db_ok [OF m old(1)] table_moves_wf [OF m old(2)] ids old(3,4) by (intro followsI) simp_all
next
  case (created r u' e g')
  obtain d u g where x: "x = (d, u, g)" by (cases x)
  note old = followsD [OF created.prems(1) [unfolded x]]
  let ?e = "e\<lparr>db_proposals := db_proposals e @ [r]\<rparr>"
  have "pp_id r \<notin> pp_id ` set (db_proposals e)" using old(3) created.hyps(1) by blast
  then have "db_ok ?e" using old(1) by (simp add: db_ok_def)
  moreover have "proposal_wf r" using created.hyps(2-4) by (simp add: proposal_wf_def)
  then have "proposals_wf ?e" using old(2) by (simp add: proposals_wf_def)
  moreover have "case get_proposal ?e i of None \<Rightarrow> i \<in> g' | Some r' \<Rightarrow> row_moves q r'" if "get_proposal d i = Some q" for i q
  proof -
    have "pp_id ` set (db_proposals d) \<subseteq> u" using created.prems(2) by (simp add: x)
    moreover have "i \<in> pp_id ` set (db_proposals d)" using get_proposal_id [OF that] by (metis imageI)
    ultimately have "i \<in> u'" using old(4) by (metis subsetD)
    with created.hyps(1) have "pp_id r \<noteq> i" by metis
    then have "get_proposal ?e i = get_proposal e i"
      unfolding get_proposal_append by (cases "get_proposal e i") simp_all
    then show ?thesis using old(5) [OF that] by (simp only:)
  qed
  ultimately show ?case unfolding x using old(3,4) by (intro followsI) auto
next
  case (deleted e u' g' i)
  obtain d u g where x: "x = (d, u, g)" by (cases x)
  note old = followsD [OF deleted.prems(1) [unfolded x]]
  let ?e = "snd (hard_delete_proposal i e)"
  have rows: "db_proposals ?e = filter (\<lambda>r. pp_id r \<noteq> i) (db_proposals e)"
  proof (cases "get_proposal e i")
    case None
    then have "\<forall>r\<in>set (db_proposals e). pp_id r \<noteq> i" by (auto simp: get_proposal_def find_None_iff)
    then show ?thesis using None by (simp add: hard_delete_proposal_def)
  qed (simp add: hard_delete_proposal_def)
  have "db_studies ?e = db_studies e" "db_trials ?e = db_trials e"
    by (simp_all add: hard_delete_proposal_def split: option.splits)
  then have "db_ok ?e" using old(1) by (simp add: db_ok_def rows distinct_map_filter)
  moreover have "proposals_wf ?e" "pp_id ` set (db_proposals ?e) \<subseteq> u'" using old(2,3) by (auto simp: proposals_wf_def rows)
  moreover have "case get_proposal ?e j of None \<Rightarrow> j \<in> insert i g' | Some r' \<Rightarrow> row_moves q r'" if "get_proposal d j = Some q" for j q
    using old(5) [OF that] unfolding get_proposal_deleted by (cases "get_proposal e j") auto
  ultimately show ?case unfolding x using old(4) by (intro followsI)
qed

lemma follows_run:
  assumes "lifecycle_step\<^sup>*\<^sup>* x y" and "follows x x" and "pp_id ` set (db_proposals (fst x)) \<subseteq> fst (snd x)"
  shows "follows x y"
  using assms by (induction rule: rtranclp_induct) (auto intro: follows_step)

section \<open>Properties\<close>


definition sample_proposals :: db where
  "sample_proposals = \<lparr>db_studies = [], db_trials = [], db_proposals = [sample_proposal ''p'' None Pending]\<rparr>"

text \<open>
  Rejecting a proposal while its pull request is being opened: the row was pending when it was loaded,
  and is rejected with an open pull request.
\<close>

lemma rejected_while_opening:
  "map (\<lambda>r. (pp_status r, pp_pr_state r)) (db_proposals (snd (reject_proposal ''p'' None sample_proposals
     (snd (mark_proposal_pr_opened ''p'' ''u'' sample_proposals))))) = [(Rejected, Some PrOpen)]"
  by code_simp


end
