(* ===== verification/Git_Names.thy ===== *)
theory Git_Names
  imports Values
begin

text \<open>
  Names and signatures on the GitHub side (\<open>backend/app/domain/git/validation.py\<close>,
  \<open>repository_name.py\<close>, \<open>webhook_signature.py\<close> and \<open>_parse_pr_url\<close> of
  \<open>backend/workers/pr_reconcile.py\<close>): the repository URL, the short form of a payload, the
  config path, the pull request URL and the HMAC header. The regular expressions are written
  out; \<open>$\<close> matches at the end and before a final newline (\<open>line_ends\<close>). \<open>str.lower\<close>,
  \<open>str.strip\<close> and the HMAC are parameters.
\<close>

section \<open>Character classes\<close>

definition nl :: char where "nl = CHR 0x0A"

definition between :: "char \<Rightarrow> char \<Rightarrow> char \<Rightarrow> bool" where
  "between a b c = ((of_char a :: nat) \<le> of_char c \<and> (of_char c :: nat) \<le> of_char b)"

definition lower_alnum :: "char \<Rightarrow> bool" where
  "lower_alnum c = (between (CHR ''a'') (CHR ''z'') c \<or> between (CHR ''0'') (CHR ''9'') c)"

definition name_char :: "char \<Rightarrow> bool" where
  "name_char c = (lower_alnum c \<or> between (CHR ''A'') (CHR ''Z'') c \<or> c \<in> set ''._-'')"

definition digit :: "char \<Rightarrow> bool" where
  "digit c = between (CHR ''0'') (CHR ''9'') c"

text \<open>What may follow the last character a pattern ending in \<open>$\<close> consumes.\<close>

definition line_ends :: "string list" where
  "line_ends = [[], [nl]]"

definition has_prefix :: "string \<Rightarrow> string \<Rightarrow> bool" where
  "has_prefix p s = (take (length p) s = p)"

definition has_suffix :: "string \<Rightarrow> string \<Rightarrow> bool" where
  "has_suffix p s = (length p \<le> length s \<and> drop (length s - length p) s = p)"

fun split_slash :: "string \<Rightarrow> string list" where
  "split_slash [] = [[]]"
| "split_slash (c # cs) =
     (if c = CHR ''/'' then [] # split_slash cs
      else (c # hd (split_slash cs)) # tl (split_slash cs))"

section \<open>The validators\<close>

definition github_prefix :: string where
  "github_prefix = ''https://github.com/''"

text \<open>The owner up to the first slash, then the shortest repository name that can end the URL.\<close>

definition repo_tail :: "string \<Rightarrow> string option" where
  "repo_tail s = map_option (\<lambda>n. take n s)
     (find (\<lambda>n. list_all name_char (take n s) \<and>
        drop n s \<in> set line_ends \<union> (\<lambda>e. ''.git'' @ e) ` set line_ends) [1..<Suc (length s)])"

definition validate_repo_url :: "string \<Rightarrow> (string \<times> string) option" where
  "validate_repo_url url =
     (if \<not> has_prefix github_prefix url then None
      else (let rest = drop (length github_prefix) url;
                owner = takeWhile (\<lambda>c. c \<noteq> CHR ''/'') rest
            in if owner = [] \<or> \<not> list_all name_char owner \<or> length owner = length rest then None
               else map_option (Pair owner) (repo_tail (drop (length owner + 1) rest))))"

definition path_char :: "char \<Rightarrow> bool" where
  "path_char c = (name_char c \<or> c = CHR ''/'')"

text \<open>\<open>True\<close> is returning without an exception.\<close>

definition validate_config_path :: "string \<Rightarrow> bool" where
  "validate_config_path path =
     (path \<noteq> [] \<and>
      (\<exists>e\<in>set line_ends. has_suffix e path \<and> length e < length path \<and>
         list_all path_char (take (length path - length e) path)) \<and>
      ''..'' \<notin> set (split_slash path))"

definition owner_ok :: "string \<Rightarrow> bool" where
  "owner_ok o' = (o' \<noteq> [] \<and> lower_alnum (hd o') \<and> lower_alnum (last o') \<and>
     list_all (\<lambda>c. lower_alnum c \<or> c = CHR ''-'') o')"

definition parse_repository_full_name ::
  "(string \<Rightarrow> string) \<Rightarrow> (string \<Rightarrow> string) \<Rightarrow> string \<Rightarrow> (string \<times> string) option" where
  "parse_repository_full_name lower strip value =
     (if value = [] then None
      else (let c0 = lower (strip value)
        in if CHR '':'' \<in> set c0 then None
           else (let candidate = (if has_suffix ''.git'' c0 then take (length c0 - 4) c0 else c0);
                     owner = takeWhile (\<lambda>c. c \<noteq> CHR ''/'') candidate;
                     rest = drop (length owner + 1) candidate
                 in if length owner = length candidate \<or> \<not> owner_ok owner then None
                    else (case find (\<lambda>e. has_suffix e rest \<and> length e < length rest \<and>
                             list_all (\<lambda>c. lower_alnum c \<or> c \<in> set ''._-'') (take (length rest - length e) rest))
                             line_ends of
                        None \<Rightarrow> None
                      | Some e \<Rightarrow> if CHR ''.'' \<in> set owner then None
                          else Some (owner, take (length rest - length e) rest)))))"

fun digits_value :: "string \<Rightarrow> int \<Rightarrow> int" where
  "digits_value [] n = n"
| "digits_value (c # cs) n = digits_value cs (10 * n + (of_char c - 48))"

text \<open>\<open>\d\<close> restricted to the ASCII digits.\<close>

definition parse_pr_url :: "string \<Rightarrow> (string \<times> string \<times> int) option" where
  "parse_pr_url pr_url =
     (if \<not> has_prefix github_prefix pr_url then None
      else (case split_slash (drop (length github_prefix) pr_url) of
          [owner, rp, pull, number] \<Rightarrow>
            (if owner \<noteq> [] \<and> list_all name_char owner \<and> rp \<noteq> [] \<and> list_all name_char rp \<and> pull = ''pull''
             then (case find (\<lambda>e. has_suffix e number \<and> length e < length number \<and>
                       list_all digit (take (length number - length e) number)) line_ends of
                 None \<Rightarrow> None
               | Some e \<Rightarrow> Some (owner, rp, digits_value (take (length number - length e) number) 0))
             else None)
        | _ \<Rightarrow> None))"

definition verify_webhook_signature ::
  "(string \<Rightarrow> string \<Rightarrow> string) \<Rightarrow> string \<Rightarrow> string option \<Rightarrow> string \<Rightarrow> bool" where
  "verify_webhook_signature hmac_hex body signature_header secret =
     (case signature_header of
        None \<Rightarrow> False
      | Some h \<Rightarrow>
          (if secret = [] then False
           else if \<not> has_prefix ''sha256='' h then False
           else (let provided_hex = drop (length ''sha256='') h
                 in if provided_hex = [] then False else provided_hex = hmac_hex secret body)))"

section \<open>Lemmas\<close>

lemma split_slash_not_Nil [simp]: "split_slash s \<noteq> []"
  by (induction s) auto

lemma split_slash_plain: "CHR ''/'' \<notin> set s \<Longrightarrow> split_slash s = [s]"
  by (induction s) auto

lemma split_slash_append: "CHR ''/'' \<notin> set s \<Longrightarrow> split_slash (s @ CHR ''/'' # t) = s # split_slash t"
  by (induction s) auto

lemma name_char_slash [simp]: "\<not> name_char (CHR ''/'')" "\<not> name_char nl"
  by (simp_all add: name_char_def lower_alnum_def between_def nl_def)

lemma name_no_slash: "list_all name_char s \<Longrightarrow> CHR ''/'' \<notin> set s"
  using name_char_slash(1) by (auto simp: list_all_iff)

lemma has_prefix_append [simp]: "has_prefix p (p @ s)"
  by (simp add: has_prefix_def)

lemma find_upt_least:
  "n0 \<le> n \<Longrightarrow> n < m \<Longrightarrow> P n \<Longrightarrow> \<forall>k. n0 \<le> k \<and> k < n \<longrightarrow> \<not> P k \<Longrightarrow> find P [n0..<m] = Some n"
proof (induction "n - n0" arbitrary: n0)
  case 0
  then show ?case by (simp add: upt_conv_Cons)
next
  case (Suc d)
  then have "\<not> P n0" "find P [Suc n0..<m] = Some n" by auto
  then show ?case using Suc.prems by (simp add: upt_conv_Cons)
qed

lemma repo_tail_name:
  assumes "r \<noteq> []" "list_all name_char r" "suffix = [] \<or> suffix = ''.git''"
    and "\<forall>n<length r. 0 < n \<longrightarrow> drop n r @ suffix \<noteq> ''.git'' \<and> drop n r @ suffix \<noteq> []"
  shows "repo_tail (r @ suffix) = Some r"
proof -
  let ?P = "\<lambda>n. list_all name_char (take n (r @ suffix)) \<and>
      drop n (r @ suffix) \<in> set line_ends \<union> (\<lambda>e. ''.git'' @ e) ` set line_ends"
  have chars: "nl \<notin> set (drop n (r @ suffix))" for n
  proof -
    have "nl \<notin> set (r @ suffix)"
      using assms(2,3) name_char_slash(2) by (auto simp: list_all_iff nl_def)
    then show ?thesis by (meson in_set_dropD)
  qed
  have "\<not> ?P k" if "1 \<le> k" "k < length r" for k
  proof
    assume "?P k"
    then have "drop k (r @ suffix) \<in> {[], [nl], ''.git'', ''.git'' @ [nl]}"
      by (auto simp: line_ends_def simp del: drop_append)
    moreover have "nl \<in> set [nl]" "nl \<in> set (''.git'' @ [nl])" by simp_all
    ultimately have "drop k (r @ suffix) = [] \<or> drop k (r @ suffix) = ''.git''"
      using chars [of k] by (metis empty_iff insertE)
    then show False using assms(4) that by auto
  qed
  moreover have "?P (length r)" using assms(2,3) by (auto simp: line_ends_def)
  moreover have "1 \<le> length r" using assms(1) by (cases r) auto
  ultimately have "find ?P [1..<Suc (length (r @ suffix))] = Some (length r)"
    by (intro find_upt_least) auto
  then show ?thesis by (simp add: repo_tail_def)
qed

section \<open>Properties\<close>

text \<open>A GitHub URL gives back the owner and the repository it was written with, with or
  without \<open>.git\<close>, and a pull request URL its owner, repository and number.\<close>

theorem github_urls_roundtrip:
  assumes "ow \<noteq> []" and "list_all name_char ow" and "rp \<noteq> []" and "list_all name_char rp"
    and "\<not> has_suffix ''.git'' rp" and "num \<noteq> []" and "list_all digit num"
  shows "validate_repo_url (github_prefix @ ow @ ''/'' @ rp) = Some (ow, rp) \<and>
    validate_repo_url (github_prefix @ ow @ ''/'' @ rp @ ''.git'') = Some (ow, rp) \<and>
    parse_pr_url (github_prefix @ ow @ ''/'' @ rp @ ''/pull/'' @ num) = Some (ow, rp, digits_value num 0)"
proof (intro conjI)
  have ow: "takeWhile (\<lambda>c. c \<noteq> CHR ''/'') (ow @ CHR ''/'' # s) = ow" for s
    using name_no_slash [OF assms(2)] by (induction ow) auto
  have git: "drop n rp \<noteq> ''.git''" for n
  proof
    assume a: "drop n rp = ''.git''"
    then have "length (drop n rp) = 4" by (simp only: a) simp
    then have "n = length rp - 4" "4 \<le> length rp" by auto
    then show False using assms(5) a by (simp add: has_suffix_def eval_nat_numeral)
  qed
  have tail: "repo_tail (rp @ s) = Some rp" if "s = [] \<or> s = ''.git''" for s
    by (rule repo_tail_name [OF assms(3,4) that]) (use git that in \<open>auto simp: append_eq_Cons_conv\<close>)
  show "validate_repo_url (github_prefix @ ow @ ''/'' @ rp) = Some (ow, rp)"
    using assms(1,2) tail [of "[]"] by (simp add: validate_repo_url_def ow Let_def)
  show "validate_repo_url (github_prefix @ ow @ ''/'' @ rp @ ''.git'') = Some (ow, rp)"
    using assms(1,2) tail [of "''.git''"] by (simp add: validate_repo_url_def ow Let_def)
  have nums: "CHR ''/'' \<notin> set num" "nl \<notin> set num"
    using assms(7) by (auto simp: list_all_iff digit_def between_def nl_def)
  have "split_slash (ow @ CHR ''/'' # rp @ CHR ''/'' # ''pull'' @ CHR ''/'' # num) = [ow, rp, ''pull'', num]"
    using split_slash_append [OF name_no_slash [OF assms(2)]] split_slash_append [OF name_no_slash [OF assms(4)]]
      split_slash_append [of "''pull''" num] split_slash_plain [OF nums(1)] by simp
  then show "parse_pr_url (github_prefix @ ow @ ''/'' @ rp @ ''/pull/'' @ num) = Some (ow, rp, digits_value num 0)"
    using assms by (simp add: parse_pr_url_def line_ends_def has_suffix_def)
qed

lemma github_urls_roundtrip_witness:
  "validate_repo_url ''https://github.com/acme/search.config.git'' = Some (''acme'', ''search.config'')"
  using github_urls_roundtrip [of "''acme''" "''search.config''" "''17''"]
  by (simp add: github_prefix_def name_char_def lower_alnum_def between_def digit_def has_suffix_def)

text \<open>An accepted config path has no \<open>..\<close> segment and, up to one final newline, only
  letters, digits and \<open>_ . / -\<close>; and the final newline is indeed accepted.\<close>

theorem config_path_accepts:
  "(validate_config_path path \<longleftrightarrow> path \<noteq> [] \<and> ''..'' \<notin> set (split_slash path) \<and>
      (\<exists>body e. path = body @ e \<and> body \<noteq> [] \<and> (e = [] \<or> e = [nl]) \<and> list_all path_char body)) \<and>
   validate_config_path (''conf'' @ [nl])"
proof
  show "validate_config_path path \<longleftrightarrow> path \<noteq> [] \<and> ''..'' \<notin> set (split_slash path) \<and>
      (\<exists>body e. path = body @ e \<and> body \<noteq> [] \<and> (e = [] \<or> e = [nl]) \<and> list_all path_char body)"
    (is "?l \<longleftrightarrow> ?r")
  proof
    assume ?l
    then obtain e where e: "e \<in> set line_ends" "has_suffix e path" "length e < length path"
      "list_all path_char (take (length path - length e) path)" "path \<noteq> []" "''..'' \<notin> set (split_slash path)"
      by (auto simp: validate_config_path_def)
    have "path = take (length path - length e) path @ e"
      using e(2) by (metis append_take_drop_id has_suffix_def)
    moreover have "take (length path - length e) path \<noteq> []" using e(3) by auto
    moreover have "e = [] \<or> e = [nl]" using e(1) by (auto simp: line_ends_def)
    ultimately show ?r using e(4-6) by blast
  next
    assume ?r
    then obtain body e where b: "path = body @ e" "body \<noteq> []" "e = [] \<or> e = [nl]" "list_all path_char body"
      "''..'' \<notin> set (split_slash path)" by blast
    then have "e \<in> set line_ends" "has_suffix e path" "length e < length path"
      by (auto simp: line_ends_def has_suffix_def)
    with b show ?l unfolding validate_config_path_def by (intro conjI bexI [of _ e]) auto
  qed
  show "validate_config_path (''conf'' @ [nl])"
    by (simp add: validate_config_path_def line_ends_def has_suffix_def path_char_def name_char_def
        lower_alnum_def between_def nl_def)
qed

end
