(* ===== verification/Webhook.thy ===== *)
theory Webhook
  imports Proposals Git_Names
begin

text \<open>
  Pull request events (\<open>backend/app/domain/git/webhook_dispatch.py\<close>, the receiver
  \<open>backend/app/api/webhooks/github.py\<close>, the polling reconciler
  \<open>backend/workers/pr_reconcile.py\<close>, and the pointer to the live proposal of
  \<open>backend/app/db/repo/config_repo.py\<close>). Parameters: \<open>json.loads\<close>, \<open>datetime.fromisoformat\<close>,
  the mounted secrets, the HMAC and GitHub's answers. The reconciler works on rows it read
  earlier; other steps may have run since.
\<close>

section \<open>The dispatcher\<close>

datatype webhook_action = Applied | Noop | UnknownPr | Ping

datatype webhook_mutation = MutMerged | MutClosed | MutReopened | MutNone

record webhook_decision =
  wd_action :: webhook_action
  wd_pr_url :: "string option"
  wd_pr_merged_at :: "int option"
  wd_mutation :: webhook_mutation

definition noop_decision :: webhook_decision where
  "noop_decision = \<lparr>wd_action = Noop, wd_pr_url = None, wd_pr_merged_at = None, wd_mutation = MutNone\<rparr>"

definition ping_decision :: webhook_decision where
  "ping_decision = \<lparr>wd_action = Ping, wd_pr_url = None, wd_pr_merged_at = None, wd_mutation = MutNone\<rparr>"

definition replace_z :: "string \<Rightarrow> string" where
  "replace_z s = concat (map (\<lambda>c. if c = CHR ''Z'' then ''+00:00'' else [c]) s)"

definition parse_merged_at :: "(string \<Rightarrow> int option) \<Rightarrow> pyval \<Rightarrow> int option" where
  "parse_merged_at fromisoformat raw = (case raw of
       PStr s \<Rightarrow> if s = [] then None else fromisoformat (replace_z s) | _ \<Rightarrow> None)"

definition dispatch_event :: "(string \<Rightarrow> int option) \<Rightarrow> string \<Rightarrow> obj \<Rightarrow> webhook_decision" where
  "dispatch_event fromisoformat event_type payload =
     (if event_type = ''ping'' then ping_decision
      else if event_type \<noteq> ''pull_request'' then noop_decision
      else (let action = obj_get payload ''action'';
                raw = obj_get payload ''pull_request'';
                pull_request = (if truthy raw then raw else PDict [])
            in case pull_request of
                 PDict pr \<Rightarrow> (case obj_get pr ''html_url'' of
                     PStr pr_url \<Rightarrow>
                       (if pr_url = [] then noop_decision
                        else if action = PStr ''closed'' then
                          (if obj_get pr ''merged'' = PBool True then
                             \<lparr>wd_action = Applied, wd_pr_url = Some pr_url,
                              wd_pr_merged_at = parse_merged_at fromisoformat (obj_get pr ''merged_at''),
                              wd_mutation = MutMerged\<rparr>
                           else \<lparr>wd_action = Applied, wd_pr_url = Some pr_url,
                                 wd_pr_merged_at = None, wd_mutation = MutClosed\<rparr>)
                        else if action = PStr ''reopened'' then
                          \<lparr>wd_action = Applied, wd_pr_url = Some pr_url,
                           wd_pr_merged_at = None, wd_mutation = MutReopened\<rparr>
                        else noop_decision)
                   | _ \<Rightarrow> noop_decision)
               | _ \<Rightarrow> noop_decision))"

section \<open>Config repositories\<close>

record config_repo =
  cr_id :: string
  cr_repo_url :: string
  cr_auth_ref :: string
  cr_webhook_secret_ref :: "string option"
  cr_last_merged_proposal_id :: "string option"

text \<open>\<open>gs_clusters\<close> maps a cluster's id to its \<open>config_repo_id\<close>.\<close>

record git_store =
  gs_db :: db
  gs_clusters :: "(string, string option) pydict"
  gs_repos :: "config_repo list"

definition lookup_config_repo_by_owner_repo ::
  "(string \<Rightarrow> string) \<Rightarrow> config_repo list \<Rightarrow> string \<Rightarrow> string \<Rightarrow> config_repo option" where
  "lookup_config_repo_by_owner_repo lower repos owner rp =
     find (\<lambda>row. case validate_repo_url (cr_repo_url row) of
         None \<Rightarrow> False | Some (o', r') \<Rightarrow> (lower o', lower r') = (lower owner, lower rp)) repos"

definition find_repo :: "git_store \<Rightarrow> string \<Rightarrow> config_repo option" where
  "find_repo st c = find (\<lambda>row. cr_id row = c) (gs_repos st)"

definition set_pointer :: "string \<Rightarrow> string \<Rightarrow> git_store \<Rightarrow> git_store" where
  "set_pointer c p st = st\<lparr>gs_repos := map (\<lambda>row. if cr_id row = c
     then row\<lparr>cr_last_merged_proposal_id := Some p\<rparr> else row) (gs_repos st)\<rparr>"

text \<open>
  \<open>held\<close> are the \<open>ConfigRepo\<close> objects the session has loaded before: \<open>SELECT FOR UPDATE\<close> without
  \<open>populate_existing\<close> locks the row but returns the object as it was loaded. A fresh session holds none.
\<close>

definition update_config_repo_last_merged_pointer ::
  "config_repo list \<Rightarrow> string \<Rightarrow> string \<Rightarrow> int \<Rightarrow> git_store \<Rightarrow> bool \<times> git_store" where
  "update_config_repo_last_merged_pointer held config_repo_id proposal_id pr_merged_at st =
     (case find_repo st config_repo_id of
        None \<Rightarrow> (False, st)
      | Some locked \<Rightarrow>
          (let row = (case find (\<lambda>h. cr_id h = config_repo_id) held of None \<Rightarrow> locked | Some h \<Rightarrow> h);
               should_write = (case cr_last_merged_proposal_id row of
               None \<Rightarrow> True
             | Some previous \<Rightarrow> (case get_proposal (gs_db st) previous of
                 None \<Rightarrow> True
               | Some p \<Rightarrow> (case pp_pr_merged_at p of None \<Rightarrow> True | Some t \<Rightarrow> pr_merged_at > t)))
           in if should_write then (True, set_pointer config_repo_id proposal_id st) else (False, st)))"

definition find_currently_live_proposal_ids :: "git_store \<Rightarrow> string list \<Rightarrow> string set" where
  "find_currently_live_proposal_ids st proposal_ids =
     {p \<in> set proposal_ids. \<exists>row\<in>set (gs_repos st). cr_last_merged_proposal_id row = Some p}"

text \<open>What follows a merge that was recorded: the pointer of the cluster's repository, if any.\<close>

definition point_after_merge :: "config_repo list \<Rightarrow> string \<Rightarrow> string \<Rightarrow> int \<Rightarrow> git_store \<Rightarrow> git_store" where
  "point_after_merge held cluster proposal_id merged_at st =
     (case map_of (gs_clusters st) cluster of
        Some (Some c) \<Rightarrow> snd (update_config_repo_last_merged_pointer held c proposal_id merged_at st)
      | _ \<Rightarrow> st)"

section \<open>The receiver\<close>

datatype webhook_error = INVALID_SIGNATURE | InternalError

record webhook_env =
  we_json :: "string \<Rightarrow> pyval option"
  we_fromisoformat :: "string \<Rightarrow> int option"
  we_lower :: "string \<Rightarrow> string"
  we_strip :: "string \<Rightarrow> string"
  we_secret :: "string \<Rightarrow> string option"
  we_hmac :: "string \<Rightarrow> string \<Rightarrow> string"

definition full_name_of :: "obj \<Rightarrow> string" where
  "full_name_of payload = (case obj_get payload ''repository'' of
       PDict d \<Rightarrow> (case obj_get d ''full_name'' of PStr s \<Rightarrow> s | _ \<Rightarrow> []) | _ \<Rightarrow> [])"

text \<open>
  Steps 1 to 5: the parsed payload of a delivery whose signature verifies, and the repository row the
  session has loaded for it.
\<close>

definition verified_payload ::
  "webhook_env \<Rightarrow> git_store \<Rightarrow> string \<Rightarrow> string option \<Rightarrow> (obj \<times> config_repo) option" where
  "verified_payload env st body signature_header =
     (case (if body = [] then Some (PDict []) else we_json env body) of
        Some (PDict payload) \<Rightarrow>
          (let full_name = full_name_of payload;
               owner_repo = (if full_name = [] then None
                  else parse_repository_full_name (we_lower env) (we_strip env) full_name)
           in case owner_repo of
                None \<Rightarrow> None
              | Some (owner, rp) \<Rightarrow>
                  (case lookup_config_repo_by_owner_repo (we_lower env) (gs_repos st) owner rp of
                     None \<Rightarrow> None
                   | Some row \<Rightarrow> (case cr_webhook_secret_ref row of
                       None \<Rightarrow> None
                     | Some ref \<Rightarrow>
                         (if ref = [] then None
                          else (case we_secret env ref of
                              None \<Rightarrow> None
                            | Some secret \<Rightarrow>
                                (if secret = [] then None
                                 else if verify_webhook_signature (we_hmac env) body signature_header secret
                                 then Some (payload, row) else None))))))
      | _ \<Rightarrow> None)"

definition apply_decision ::
  "config_repo list \<Rightarrow> webhook_decision \<Rightarrow> git_store \<Rightarrow> (webhook_error + webhook_action) \<times> git_store" where
  "apply_decision held decision st =
     (case wd_pr_url decision of
        None \<Rightarrow> if wd_mutation decision = MutNone then (Inr (wd_action decision), st)
                else (Inl InternalError, st)
      | Some pr_url \<Rightarrow>
          if wd_mutation decision = MutNone then (Inr (wd_action decision), st)
          else (case lookup_proposal_by_pr_url (gs_db st) pr_url of
            Inl _ \<Rightarrow> (Inl InternalError, st)
          | Inr None \<Rightarrow> (Inr UnknownPr, st)
          | Inr (Some r) \<Rightarrow>
              (Inr (wd_action decision),
               (case wd_mutation decision of
                  MutMerged \<Rightarrow> (case wd_pr_merged_at decision of
                      None \<Rightarrow> st\<lparr>gs_db := snd (mark_proposal_pr_closed (pp_id r) (gs_db st))\<rparr>
                    | Some t \<Rightarrow> (case mark_proposal_pr_merged (pp_id r) t (gs_db st) of
                        (None, d) \<Rightarrow> st\<lparr>gs_db := d\<rparr>
                      | (Some u, d) \<Rightarrow> point_after_merge held (pp_cluster_id u) (pp_id r) t (st\<lparr>gs_db := d\<rparr>)))
                | MutClosed \<Rightarrow> st\<lparr>gs_db := snd (mark_proposal_pr_closed (pp_id r) (gs_db st))\<rparr>
                | MutReopened \<Rightarrow> st\<lparr>gs_db := snd (mark_proposal_pr_reopened (pp_id r) (gs_db st))\<rparr>
                | MutNone \<Rightarrow> st))))"

text \<open>What is left of a delivery after the checks; other sessions may have committed in between.\<close>

definition finish_delivery ::
  "webhook_env \<Rightarrow> string \<Rightarrow> obj \<times> config_repo \<Rightarrow> git_store \<Rightarrow> (webhook_error + webhook_action) \<times> git_store" where
  "finish_delivery env event_type checked st =
     apply_decision [snd checked] (dispatch_event (we_fromisoformat env) event_type (fst checked)) st"

definition github_webhook ::
  "webhook_env \<Rightarrow> string \<Rightarrow> string option \<Rightarrow> string \<Rightarrow> git_store
   \<Rightarrow> (webhook_error + webhook_action) \<times> git_store" where
  "github_webhook env event_type signature_header body st =
     (case verified_payload env st body signature_header of
        None \<Rightarrow> (Inl INVALID_SIGNATURE, st)
      | Some checked \<Rightarrow> finish_delivery env event_type checked st)"

section \<open>The reconciler\<close>

datatype github_answer = RequestError | Response int obj

record reconcile_summary =
  rs_candidates :: nat
  rs_reconciled :: nat
  rs_unchanged :: nat
  rs_errored :: nat
  rs_rate_limited :: nat

text \<open>How a candidate ends: counted, or the rate limit that stops the tick.\<close>

datatype reconcile_outcome = Reconciled | Unchanged | Errored | RateLimited

definition reconcile_answer ::
  "(string \<Rightarrow> int option) \<Rightarrow> int \<Rightarrow> proposal \<Rightarrow> obj \<Rightarrow> git_store \<Rightarrow> reconcile_outcome \<times> git_store" where
  "reconcile_answer fromisoformat now proposal payload st =
     (let merged = truthy (obj_get payload ''merged'');
          merged_at = parse_merged_at fromisoformat (obj_get payload ''merged_at'')
      in case (if merged then merged_at else None) of
           Some t \<Rightarrow>
             (case (if pp_pr_state proposal = Some PrClosed
                    then mark_proposal_pr_merged_from_closed (pp_id proposal) t (gs_db st)
                    else mark_proposal_pr_merged (pp_id proposal) t (gs_db st)) of
                (None, d) \<Rightarrow> (Unchanged, st\<lparr>gs_db := d\<rparr>)
              | (Some u, d) \<Rightarrow>
                  (Reconciled, point_after_merge [] (pp_cluster_id proposal) (pp_id proposal) t (st\<lparr>gs_db := d\<rparr>)))
         | None \<Rightarrow>
             (if obj_get payload ''state'' = PStr ''closed'' then
                (if pp_pr_state proposal = Some PrClosed then
                   (Unchanged, st\<lparr>gs_db := snd (stamp_proposal_last_polled_at now (pp_id proposal) (gs_db st))\<rparr>)
                 else (case mark_proposal_pr_closed (pp_id proposal) (gs_db st) of
                     (None, d) \<Rightarrow> (Unchanged, st\<lparr>gs_db := d\<rparr>)
                   | (Some u, d) \<Rightarrow> (Reconciled, st\<lparr>gs_db := d\<rparr>)))
              else (Unchanged, st)))"

definition reconcile_one ::
  "webhook_env \<Rightarrow> (string \<times> string \<times> int \<Rightarrow> github_answer) \<Rightarrow> int \<Rightarrow> proposal \<Rightarrow> git_store
   \<Rightarrow> reconcile_outcome \<times> git_store" where
  "reconcile_one env github now proposal st =
     (case (case pp_pr_url proposal of None \<Rightarrow> None
            | Some url \<Rightarrow> if url = [] then None else parse_pr_url url) of
        None \<Rightarrow> (Errored, st)
      | Some (owner, rp, number) \<Rightarrow>
          (case lookup_config_repo_by_owner_repo (we_lower env) (gs_repos st) owner rp of
             None \<Rightarrow> (Errored, st)
           | Some row \<Rightarrow> (case we_secret env (cr_auth_ref row) of
               None \<Rightarrow> (Errored, st)
             | Some token \<Rightarrow> (case github (owner, rp, number) of
                 RequestError \<Rightarrow> (Errored, st)
               | Response code payload \<Rightarrow>
                   (if code = 429 then (RateLimited, st)
                    else if code \<noteq> 200 then (Errored, st)
                    else reconcile_answer (we_fromisoformat env) now proposal payload st)))))"

definition count_outcome :: "reconcile_outcome \<Rightarrow> reconcile_summary \<Rightarrow> reconcile_summary" where
  "count_outcome out s = (case out of
       Reconciled \<Rightarrow> s\<lparr>rs_reconciled := rs_reconciled s + 1\<rparr>
     | Unchanged \<Rightarrow> s\<lparr>rs_unchanged := rs_unchanged s + 1\<rparr>
     | Errored \<Rightarrow> s\<lparr>rs_errored := rs_errored s + 1\<rparr>
     | RateLimited \<Rightarrow> s\<lparr>rs_rate_limited := rs_rate_limited s + 1\<rparr>)"

fun reconcile_loop ::
  "webhook_env \<Rightarrow> (string \<times> string \<times> int \<Rightarrow> github_answer) \<Rightarrow> int \<Rightarrow> proposal list
   \<Rightarrow> reconcile_summary \<Rightarrow> git_store \<Rightarrow> reconcile_summary \<times> git_store" where
  "reconcile_loop env github now [] s st = (s, st)"
| "reconcile_loop env github now (p # ps) s st =
     (let (out, st') = reconcile_one env github now p st; s' = count_outcome out s
      in if out = RateLimited then (s', st') else reconcile_loop env github now ps s' st')"

definition reconcile_pr_state ::
  "webhook_env \<Rightarrow> (string \<times> string \<times> int \<Rightarrow> github_answer) \<Rightarrow> int \<Rightarrow> git_store
   \<Rightarrow> reconcile_summary \<times> git_store" where
  "reconcile_pr_state env github now st =
     (let candidates = list_pr_opened_proposals_for_reconcile now (gs_db st);
          s = \<lparr>rs_candidates = length candidates, rs_reconciled = 0, rs_unchanged = 0, rs_errored = 0,
               rs_rate_limited = 0\<rparr>
      in reconcile_loop env github now candidates s st)"

section \<open>The polling cadence\<close>

definition SUPPORTED_POLL_MINUTES :: "nat list" where
  "SUPPORTED_POLL_MINUTES = [1, 2, 3, 4, 5, 6, 10, 12, 15, 20, 30, 60, 120, 180, 240, 360, 720, 1440]"

definition FALLBACK_POLL_MINUTES :: nat where "FALLBACK_POLL_MINUTES = 15"

text \<open>\<open>range(0, stop, n)\<close> as a set.\<close>

definition py_range_set :: "nat \<Rightarrow> nat \<Rightarrow> nat set" where
  "py_range_set stop n = set (filter (\<lambda>k. k mod n = 0) [0..<stop])"

text \<open>The minutes and the hours of the cron entry; no hours means every hour.\<close>

definition poll_cron_kwargs :: "nat \<Rightarrow> nat set \<times> nat set option" where
  "poll_cron_kwargs configured =
     (let n = (if configured \<notin> set SUPPORTED_POLL_MINUTES then FALLBACK_POLL_MINUTES else configured)
      in if n \<le> 60 then (py_range_set 60 n, None) else ({0}, Some (py_range_set 24 (n div 60))))"

section \<open>Lemmas on the pointer\<close>

text \<open>A merged proposal of a repository, by way of its cluster.\<close>

definition merged_in :: "git_store \<Rightarrow> string \<Rightarrow> proposal \<Rightarrow> int \<Rightarrow> bool" where
  "merged_in st c r t = (r \<in> set (db_proposals (gs_db st)) \<and> pp_pr_merged_at r = Some t \<and>
     map_of (gs_clusters st) (pp_cluster_id r) = Some (Some c))"

text \<open>The pointer of a repository is its latest merge; none means that nothing was merged.\<close>

definition pointer_latest :: "git_store \<Rightarrow> config_repo \<Rightarrow> bool" where
  "pointer_latest st row = (case cr_last_merged_proposal_id row of
       None \<Rightarrow> (\<forall>r t. \<not> merged_in st (cr_id row) r t)
     | Some p \<Rightarrow> (\<exists>q t. merged_in st (cr_id row) q t \<and> pp_id q = p \<and>
         (\<forall>r t'. merged_in st (cr_id row) r t' \<longrightarrow> t' \<le> t)))"

definition git_ok :: "git_store \<Rightarrow> bool" where
  "git_ok st = (db_ok (gs_db st) \<and> proposals_wf (gs_db st) \<and> distinct (map cr_id (gs_repos st)) \<and>
     (\<forall>row\<in>set (gs_repos st). pointer_latest st row))"

lemma merged_in_db: "merged_in (st\<lparr>gs_repos := rs\<rparr>) = merged_in st"
  by (simp add: merged_in_def fun_eq_iff)

text \<open>Moves that merge nothing keep every pointer.\<close>

lemma list_all2_in1: "list_all2 P xs ys \<Longrightarrow> x \<in> set xs \<Longrightarrow> \<exists>y\<in>set ys. P x y"
  by (induction rule: list_all2_induct) auto

lemma list_all2_in2: "list_all2 P xs ys \<Longrightarrow> y \<in> set ys \<Longrightarrow> \<exists>x\<in>set xs. P x y"
  by (induction rule: list_all2_induct) auto

lemma merged_in_kept:
  assumes "table_moves (gs_db st) d" "proposals_wf (gs_db st)" "merged_in st c r t"
  shows "merged_in (st\<lparr>gs_db := d\<rparr>) c r t"
proof -
  have r: "r \<in> set (db_proposals (gs_db st))" "pp_pr_merged_at r = Some t" using assms(3) by (auto simp: merged_in_def)
  then have "pp_status r = PrMerged" using assms(2) by (auto simp: proposals_wf_def proposal_wf_def)
  moreover have l: "list_all2 row_moves (db_proposals (gs_db st)) (db_proposals d)"
    using assms(1) by (simp add: table_moves_def)
  moreover obtain r' where "r' \<in> set (db_proposals d)" "row_moves r r'"
    using list_all2_in1 [OF l r(1)] by auto
  ultimately have "r \<in> set (db_proposals d)" by (auto simp: row_moves_def)
  then show ?thesis using assms(3) by (simp add: merged_in_def)
qed

text \<open>The rows merged by a step: none, or the row with the key of the update.\<close>

lemma pointers_same:
  assumes m: "table_moves (gs_db st) d" and wf: "proposals_wf (gs_db st)"
    and new: "\<And>c r t. merged_in (st\<lparr>gs_db := d\<rparr>) c r t \<Longrightarrow> merged_in st c r t"
    and p: "pointer_latest st row"
  shows "pointer_latest (st\<lparr>gs_db := d\<rparr>) row"
proof -
  have "merged_in (st\<lparr>gs_db := d\<rparr>) = merged_in st"
    using new merged_in_kept [OF m wf] by (intro ext) blast
  then show ?thesis using p unfolding pointer_latest_def by (simp only:)
qed

text \<open>With unique keys a merged proposal is found by its id.\<close>

lemma merged_in_get:
  "db_ok (gs_db st) \<Longrightarrow> merged_in st c r t \<longleftrightarrow> get_proposal (gs_db st) (pp_id r) = Some r \<and>
     pp_pr_merged_at r = Some t \<and> map_of (gs_clusters st) (pp_cluster_id r) = Some (Some c)"
  by (auto simp: merged_in_def get_proposal_in dest: get_proposal_id)

context guarded_update
begin

text \<open>An update that keeps the merge columns merges nothing.\<close>

lemma op_no_merge:
  assumes opened: "\<And>r. guard r \<Longrightarrow> pp_status r \<noteq> PrMerged"
    and eff_at: "\<And>r. pp_pr_merged_at (eff r) = pp_pr_merged_at r"
    and ok: "git_ok st"
  shows "git_ok (st\<lparr>gs_db := snd (op i (gs_db st))\<rparr>)"
proof -
  let ?d = "snd (op i (gs_db st))"
  have m: "table_moves (gs_db st) ?d" by (rule op_table_moves)
  have wf: "proposals_wf (gs_db st)" and db: "db_ok (gs_db st)" using ok by (auto simp: git_ok_def)
  have db': "db_ok ?d" by (rule table_moves_db_ok [OF m db])
  have new: "merged_in st c r t" if a: "merged_in (st\<lparr>gs_db := ?d\<rparr>) c r t" for c r t
  proof -
    have r: "get_proposal ?d (pp_id r) = Some r" "pp_pr_merged_at r = Some t"
      using a db' by (auto simp: merged_in_get)
    have "get_proposal (gs_db st) (pp_id r) = Some r"
    proof (cases "pp_id r = i")
      case True
      then obtain q where q: "get_proposal (gs_db st) i = Some q" "r = (if guard q then eff q else q)"
        using r(1) by (auto simp: op_get)
      have "\<not> guard q"
      proof
        assume g: "guard q"
        then have "pp_pr_merged_at q = Some t" using q(2) r(2) eff_at [of q] by simp
        then have "pp_status q = PrMerged"
          using wf get_proposal_id [OF q(1)] by (auto simp: proposals_wf_def proposal_wf_def)
        then show False using opened [OF g] by simp
      qed
      then show ?thesis using q True by simp
    qed (use r in \<open>simp add: op_get\<close>)
    then show ?thesis using a r db db' by (simp add: merged_in_get)
  qed
  show ?thesis
    using ok table_moves_db_ok [OF m db] table_moves_wf [OF m wf] pointers_same [OF m wf new]
    by (simp add: git_ok_def)
qed

end

text \<open>The updates that record a merge share a stronger contract.\<close>

locale merge_update = guarded_update +
  fixes mtime :: int
  assumes eff_at: "pp_pr_merged_at (eff r) = Some mtime"
    and guard_opened: "guard r \<Longrightarrow> pp_status r = PrOpened"
begin

lemma op_merged_in:
  assumes ok: "git_ok st" and u: "fst (op i (gs_db st)) = Some u"
  shows "merged_in (st\<lparr>gs_db := snd (op i (gs_db st))\<rparr>) c r t \<longleftrightarrow>
    merged_in st c r t \<or> r = u \<and> t = mtime \<and> map_of (gs_clusters st) (pp_cluster_id u) = Some (Some c)"
    and "pp_id u = i"
proof -
  obtain q where q: "get_proposal (gs_db st) i = Some q" "guard q" "u = eff q"
    using u by (auto simp: op_fst split: option.splits if_splits)
  have iu: "pp_id u = i" using q eff_id [OF q(2)] by (auto dest: get_proposal_id)
  have wf: "proposals_wf (gs_db st)" and db: "db_ok (gs_db st)" using ok by (auto simp: git_ok_def)
  have db': "db_ok (snd (op i (gs_db st)))" by (rule table_moves_db_ok [OF op_table_moves db])
  have "pp_pr_merged_at q = None"
    using wf get_proposal_id [OF q(1)] guard_opened [OF q(2)] by (auto simp: proposals_wf_def proposal_wf_def)
  then show "merged_in (st\<lparr>gs_db := snd (op i (gs_db st))\<rparr>) c r t \<longleftrightarrow>
      merged_in st c r t \<or> r = u \<and> t = mtime \<and> map_of (gs_clusters st) (pp_cluster_id u) = Some (Some c)"
    using q iu db db' eff_at [of q] by (cases "pp_id r = i") (auto simp: merged_in_get op_get)
  show "pp_id u = i" by (rule iu)
qed

end

interpretation merged_at: merge_update "\<lambda>i. mark_proposal_pr_merged i t"
    "\<lambda>r. pp_status r = PrOpened \<and> pp_pr_state r = Some PrOpen"
    "\<lambda>r. r\<lparr>pp_status := PrMerged, pp_pr_state := Some PrStateMerged, pp_pr_merged_at := Some t\<rparr>" t for t
  by unfold_locales auto

interpretation merged_closed_at: merge_update "\<lambda>i. mark_proposal_pr_merged_from_closed i t"
    "\<lambda>r. pp_status r = PrOpened \<and> pp_pr_state r = Some PrClosed"
    "\<lambda>r. r\<lparr>pp_status := PrMerged, pp_pr_state := Some PrStateMerged, pp_pr_merged_at := Some t\<rparr>" t for t
  by unfold_locales auto

section \<open>The pointer after a merge\<close>

lemma find_repo_in:
  "distinct (map cr_id (gs_repos st)) \<Longrightarrow> row \<in> set (gs_repos st) \<Longrightarrow> find_repo st (cr_id row) = Some row"
proof -
  have "distinct (map cr_id xs) \<Longrightarrow> row \<in> set xs \<Longrightarrow> find (\<lambda>x. cr_id x = cr_id row) xs = Some row" for xs
    by (induction xs) force+
  then show "distinct (map cr_id (gs_repos st)) \<Longrightarrow> row \<in> set (gs_repos st) \<Longrightarrow> find_repo st (cr_id row) = Some row"
    by (simp add: find_repo_def)
qed

lemma set_pointer_frame [simp]:
  "gs_db (set_pointer c p st) = gs_db st" "gs_clusters (set_pointer c p st) = gs_clusters st"
  "map cr_id (gs_repos (set_pointer c p st)) = map cr_id (gs_repos st)"
  by (simp_all add: set_pointer_def)

lemma pointer_update_frame [simp]:
  "gs_db (snd (update_config_repo_last_merged_pointer held c p t st)) = gs_db st"
  "gs_clusters (snd (update_config_repo_last_merged_pointer held c p t st)) = gs_clusters st"
  "map cr_id (gs_repos (snd (update_config_repo_last_merged_pointer held c p t st))) = map cr_id (gs_repos st)"
  by (simp_all add: update_config_repo_last_merged_pointer_def Let_def split: option.splits)

lemma point_after_merge_frame [simp]:
  "gs_db (point_after_merge held k p t st) = gs_db st"
  "gs_clusters (point_after_merge held k p t st) = gs_clusters st"
  "map cr_id (gs_repos (point_after_merge held k p t st)) = map cr_id (gs_repos st)"
  by (simp_all add: point_after_merge_def split: option.splits)

lemma merged_in_frame:
  "gs_db a = gs_db b \<Longrightarrow> gs_clusters a = gs_clusters b \<Longrightarrow> merged_in a = merged_in b"
  by (simp add: merged_in_def fun_eq_iff)

text \<open>A repository to which nothing was merged keeps its pointer.\<close>

lemma pointer_latest_cong:
  "(\<And>r t. merged_in b (cr_id row) r t = merged_in a (cr_id row) r t) \<Longrightarrow>
     pointer_latest b row = pointer_latest a row"
  unfolding pointer_latest_def by (simp only:)

text \<open>What the pointer says: \<open>p\<close> was merged at \<open>t\<close>, and nothing later.\<close>

definition latest_merge :: "git_store \<Rightarrow> string \<Rightarrow> string \<Rightarrow> int \<Rightarrow> bool" where
  "latest_merge st c p t = ((\<exists>q. merged_in st c q t \<and> pp_id q = p) \<and>
     (\<forall>r t'. merged_in st c r t' \<longrightarrow> t' \<le> t))"

lemma pointer_latest_cases:
  "pointer_latest st row \<longleftrightarrow>
     (cr_last_merged_proposal_id row = None \<and> (\<forall>r t. \<not> merged_in st (cr_id row) r t)) \<or>
     (\<exists>p t. cr_last_merged_proposal_id row = Some p \<and> latest_merge st (cr_id row) p t)"
  by (auto simp: pointer_latest_def latest_merge_def split: option.splits)

text \<open>The update replaces the pointer exactly when the new merge is later than the recorded one.\<close>

lemma update_pointer_None:
  "find_repo st c = Some row \<Longrightarrow> cr_last_merged_proposal_id row = None \<Longrightarrow>
     update_config_repo_last_merged_pointer [] c i t st = (True, set_pointer c i st)"
  by (simp add: update_config_repo_last_merged_pointer_def)

lemma update_pointer_Some:
  assumes "find_repo st c = Some row" "cr_last_merged_proposal_id row = Some p" "db_ok (gs_db st)"
    and "merged_in st c q tp" "pp_id q = p"
  shows "update_config_repo_last_merged_pointer [] c i t st = (if t > tp then (True, set_pointer c i st) else (False, st))"
  using assms by (auto simp: update_config_repo_last_merged_pointer_def merged_in_get)

text \<open>The store \<open>b\<close> is \<open>a\<close> with one more merge, of \<open>u\<close> at \<open>t\<close>.\<close>

definition one_more_merge :: "git_store \<Rightarrow> git_store \<Rightarrow> string \<Rightarrow> proposal \<Rightarrow> int \<Rightarrow> bool" where
  "one_more_merge a b cu u t =
     ((\<forall>c r s. merged_in b c r s \<longleftrightarrow> merged_in a c r s \<or> r = u \<and> s = t \<and> c = cu) \<and>
      gs_repos b = gs_repos a \<and> db_ok (gs_db b))"

lemma pointer_other_repo:
  "one_more_merge a b cu u t \<Longrightarrow> cr_id row \<noteq> cu \<Longrightarrow> pointer_latest b row = pointer_latest a row"
  by (rule pointer_latest_cong) (auto simp: one_more_merge_def)

lemma latest_merge_new:
  "one_more_merge a b cu u t \<Longrightarrow> (\<And>r s. merged_in a cu r s \<Longrightarrow> s \<le> t) \<Longrightarrow> latest_merge b cu (pp_id u) t"
  by (auto simp: one_more_merge_def latest_merge_def)

lemma latest_merge_old:
  "one_more_merge a b cu u t \<Longrightarrow> latest_merge a cu p s \<Longrightarrow> t \<le> s \<Longrightarrow> latest_merge b cu p s"
  by (auto simp: one_more_merge_def latest_merge_def)

lemma in_set_pointer:
  "row' \<in> set (gs_repos (set_pointer c p st)) \<Longrightarrow> \<exists>row\<in>set (gs_repos st).
     row' = (if cr_id row = c then row\<lparr>cr_last_merged_proposal_id := Some p\<rparr> else row)"
  by (auto simp: set_pointer_def)

lemma pointer_set:
  assumes "one_more_merge a b cu u t" and "latest_merge b cu (pp_id u) t"
    and "\<forall>row\<in>set (gs_repos a). pointer_latest a row"
    and "row' \<in> set (gs_repos (set_pointer cu (pp_id u) b))"
  shows "pointer_latest b row'"
proof -
  obtain row where row: "row \<in> set (gs_repos a)"
    "row' = (if cr_id row = cu then row\<lparr>cr_last_merged_proposal_id := Some (pp_id u)\<rparr> else row)"
    using in_set_pointer [OF assms(4)] assms(1) by (auto simp: one_more_merge_def)
  show ?thesis
  proof (cases "cr_id row = cu")
    case True
    then show ?thesis using row assms(2) by (auto simp: pointer_latest_cases)
  next
    case False
    then show ?thesis using row assms(3) pointer_other_repo [OF assms(1) False] by simp
  qed
qed

lemma pointer_kept:
  assumes dist: "distinct (map cr_id (gs_repos a))" and new: "one_more_merge a b cu u t"
    and old: "\<forall>row\<in>set (gs_repos a). pointer_latest a row"
    and row: "row \<in> set (gs_repos a)" "cr_id row = cu"
    and p: "cr_last_merged_proposal_id row = Some p" "latest_merge a cu p s"
    and late: "\<not> t > s" and row': "row' \<in> set (gs_repos a)"
  shows "pointer_latest b row'"
proof (cases "cr_id row' = cu")
  case True
  then have "row' = row" using row' row find_repo_in [OF dist row'] find_repo_in [OF dist row(1)] by simp
  then show ?thesis using p late latest_merge_old [OF new p(2)] row by (auto simp: pointer_latest_cases)
qed (use row' old pointer_other_repo [OF new] in auto)

lemma pointer_after_merge:
  assumes dist: "distinct (map cr_id (gs_repos a))" and new: "one_more_merge a b cu u t"
    and old: "\<forall>row\<in>set (gs_repos a). pointer_latest a row"
    and row': "row' \<in> set (gs_repos (snd (update_config_repo_last_merged_pointer [] cu (pp_id u) t b)))"
  shows "pointer_latest b row'"
proof (cases "find_repo b cu")
  case None
  then have row: "row' \<in> set (gs_repos b)" using row' by (simp add: update_config_repo_last_merged_pointer_def)
  then have "cr_id row' \<noteq> cu" using None by (auto simp: find_repo_def find_None_iff)
  then show ?thesis using old row pointer_other_repo [OF new] new by (auto simp: one_more_merge_def)
next
  case (Some row)
  have row: "row \<in> set (gs_repos a)" "cr_id row = cu" and db: "db_ok (gs_db b)" and repos: "gs_repos b = gs_repos a"
    using Some new by (auto simp: find_repo_def one_more_merge_def dest: find_Some_in)
  have "pointer_latest a row" using old row(1) by blast
  then consider "cr_last_merged_proposal_id row = None" "\<forall>r s. \<not> merged_in a cu r s"
    | p s where "cr_last_merged_proposal_id row = Some p" "latest_merge a cu p s"
    using row(2) by (auto simp: pointer_latest_cases)
  then show ?thesis
  proof cases
    case 1
    then show ?thesis
      using row' update_pointer_None [OF Some] pointer_set [OF new latest_merge_new [OF new] old] by simp
  next
    case (2 p s)
    then obtain q where q: "merged_in b cu q s" "pp_id q = p"
      using new by (auto simp: latest_merge_def one_more_merge_def)
    have upd: "update_config_repo_last_merged_pointer [] cu (pp_id u) t b =
      (if t > s then (True, set_pointer cu (pp_id u) b) else (False, b))"
      by (rule update_pointer_Some [OF Some 2(1) db q])
    show ?thesis
    proof (cases "t > s")
      case True
      then have "latest_merge b cu (pp_id u) t" using 2(2) by (intro latest_merge_new [OF new]) (force simp: latest_merge_def)
      then show ?thesis using row' upd True pointer_set [OF new _ old] by simp
    next
      case False
      then have "row' \<in> set (gs_repos a)" using row' upd repos by simp
      then show ?thesis using False 2 pointer_kept [OF dist new old row 2] by simp
    qed
  qed
qed

section \<open>Every step keeps the pointers\<close>

context merge_update
begin

lemma op_point_after_merge:
  assumes ok: "git_ok st" and u: "op i (gs_db st) = (Some u, d)"
  shows "git_ok (point_after_merge [] (pp_cluster_id u) i mtime (st\<lparr>gs_db := d\<rparr>))"
proof -
  let ?b = "st\<lparr>gs_db := d\<rparr>"
  have d: "snd (op i (gs_db st)) = d" and f: "fst (op i (gs_db st)) = Some u" using u by simp_all
  have m: "table_moves (gs_db st) d" using op_table_moves [of "gs_db st" i] d by simp
  have db: "db_ok d" and wf: "proposals_wf d"
    using table_moves_db_ok [OF m] table_moves_wf [OF m] ok by (auto simp: git_ok_def)
  have iu: "pp_id u = i" by (rule op_merged_in(2) [OF ok f])
  have mi: "merged_in ?b c r t \<longleftrightarrow> merged_in st c r t \<or>
      r = u \<and> t = mtime \<and> map_of (gs_clusters st) (pp_cluster_id u) = Some (Some c)" for c r t
    using op_merged_in(1) [OF ok f] d by simp
  have dist: "distinct (map cr_id (gs_repos st))" and old: "\<forall>row\<in>set (gs_repos st). pointer_latest st row"
    using ok by (auto simp: git_ok_def)
  have "\<forall>row\<in>set (gs_repos (point_after_merge [] (pp_cluster_id u) i mtime ?b)). pointer_latest ?b row"
  proof (cases "\<exists>c. map_of (gs_clusters st) (pp_cluster_id u) = Some (Some c)")
    case True
    then obtain c where c: "map_of (gs_clusters st) (pp_cluster_id u) = Some (Some c)" by blast
    then have "one_more_merge st ?b c u mtime" using mi db by (auto simp: one_more_merge_def)
    then show ?thesis using pointer_after_merge [OF dist _ old] c iu by (simp add: point_after_merge_def)
  next
    case False
    then have "pointer_latest ?b row = pointer_latest st row" for row
      using mi by (intro pointer_latest_cong) auto
    then show ?thesis using False old by (auto simp: point_after_merge_def split: option.splits)
  qed
  moreover have "pointer_latest (point_after_merge [] (pp_cluster_id u) i mtime ?b) = pointer_latest ?b"
    by (intro ext pointer_latest_cong) (simp add: merged_in_def)
  ultimately show ?thesis using dist db wf by (simp add: git_ok_def)
qed

end

lemmas no_merge_ok = digest_up.op_no_merge opened_up.op_no_merge open_error_up.op_no_merge
  closed_up.op_no_merge reopened_up.op_no_merge polled_up.op_no_merge

lemma git_ok_steps:
  assumes "git_ok st"
  shows "git_ok (st\<lparr>gs_db := snd (update_proposal_for_digest i cd (gs_db st))\<rparr>)"
    "git_ok (st\<lparr>gs_db := snd (mark_proposal_pr_opened i url (gs_db st))\<rparr>)"
    "git_ok (st\<lparr>gs_db := snd (set_proposal_pr_open_error i err (gs_db st))\<rparr>)"
    "git_ok (st\<lparr>gs_db := snd (mark_proposal_pr_closed i (gs_db st))\<rparr>)"
    "git_ok (st\<lparr>gs_db := snd (mark_proposal_pr_reopened i (gs_db st))\<rparr>)"
    "git_ok (st\<lparr>gs_db := snd (stamp_proposal_last_polled_at now i (gs_db st))\<rparr>)"
  using assms by (auto intro!: no_merge_ok)

lemma git_ok_unchanged: "git_ok st \<Longrightarrow> d = gs_db st \<Longrightarrow> git_ok (st\<lparr>gs_db := d\<rparr>)"
  by simp

lemma mark_merged_None:
  "mark_proposal_pr_merged i t d = (None, e) \<Longrightarrow> e = d"
  "mark_proposal_pr_merged_from_closed i t d = (None, e) \<Longrightarrow> e = d"
  "mark_proposal_pr_closed i d = (None, e) \<Longrightarrow> e = d"
  using merged_up.op_None [of i t d] merged_closed_up.op_None [of i t d] closed_up.op_None [of i d] by auto

lemma mark_merged_Some:
  "mark_proposal_pr_merged i t d = (Some u, e) \<Longrightarrow>
     \<exists>q. get_proposal d i = Some q \<and> pp_cluster_id u = pp_cluster_id q"
  "mark_proposal_pr_merged_from_closed i t d = (Some u, e) \<Longrightarrow>
     \<exists>q. get_proposal d i = Some q \<and> pp_cluster_id u = pp_cluster_id q"
  by (auto simp: mark_proposal_pr_merged_def mark_proposal_pr_merged_from_closed_def conditional_update_def
      split: option.splits if_splits)

lemma closed_ok: "git_ok st \<Longrightarrow> mark_proposal_pr_closed i (gs_db st) = (w, e) \<Longrightarrow> git_ok (st\<lparr>gs_db := e\<rparr>)"
  using git_ok_steps(4) [of st i] by simp

text \<open>The objects a session holds still have the pointers of their rows.\<close>

definition held_current :: "config_repo list \<Rightarrow> git_store \<Rightarrow> bool" where
  "held_current held st = (\<forall>h\<in>set held. \<forall>row. find_repo st (cr_id h) = Some row \<longrightarrow>
     cr_last_merged_proposal_id row = cr_last_merged_proposal_id h)"

lemma held_current_db [simp]: "held_current held (st\<lparr>gs_db := d\<rparr>) = held_current held st"
  by (simp add: held_current_def find_repo_def)

lemma held_pointer: "held_current held st \<Longrightarrow>
  update_config_repo_last_merged_pointer held c p t st = update_config_repo_last_merged_pointer [] c p t st"
proof -
  assume cur: "held_current held st"
  have "cr_last_merged_proposal_id h = cr_last_merged_proposal_id row"
    if "find (\<lambda>h. cr_id h = c) held = Some h" "find_repo st c = Some row" for h row
    using find_Some_in [OF that(1)] cur that(2) by (auto simp: held_current_def)
  then show ?thesis by (auto simp: update_config_repo_last_merged_pointer_def Let_def split: option.splits)
qed

lemma held_apply: "held_current held st \<Longrightarrow> apply_decision held dec st = apply_decision [] dec st"
proof -
  assume "held_current held st"
  then have "point_after_merge held k p t (st\<lparr>gs_db := d\<rparr>) = point_after_merge [] k p t (st\<lparr>gs_db := d\<rparr>)" for k p t d
    by (simp add: point_after_merge_def held_pointer split: option.splits)
  then show ?thesis unfolding apply_decision_def by (simp only:)
qed

lemma apply_decision_ok: "git_ok st \<Longrightarrow> git_ok (snd (apply_decision [] dec st))"
  by (auto simp: apply_decision_def git_ok_steps dest: mark_merged_None merged_at.op_point_after_merge
      split: option.splits webhook_mutation.splits sum.splits prod.splits)

lemma verified_row: "verified_payload env st body sig = Some checked \<Longrightarrow> snd checked \<in> set (gs_repos st)"
  unfolding verified_payload_def Let_def lookup_config_repo_by_owner_repo_def
  by (auto split: option.splits pyval.splits if_splits prod.splits dest: find_Some_in)

lemma github_webhook_ok: "git_ok st \<Longrightarrow> git_ok (snd (github_webhook env ev sig body st))"
proof -
  assume ok: "git_ok st"
  have "held_current [row] st" if "row \<in> set (gs_repos st)" for row
    using that ok find_repo_in [of st row] by (auto simp: held_current_def git_ok_def)
  then have "git_ok (snd (finish_delivery env ev checked st))" if "snd checked \<in> set (gs_repos st)" for checked
    using that apply_decision_ok [OF ok] held_apply by (simp add: finish_delivery_def)
  then show ?thesis using ok by (auto simp: github_webhook_def dest: verified_row split: option.splits)
qed

text \<open>The operator's transitions and the bulk update of a chain merge nothing either.\<close>

lemma no_new_merge_ok:
  assumes ok: "git_ok st" and m: "table_moves (gs_db st) d"
    and new: "\<And>r. r \<in> set (db_proposals d) \<Longrightarrow> pp_status r = PrMerged \<Longrightarrow> r \<in> set (db_proposals (gs_db st))"
  shows "git_ok (st\<lparr>gs_db := d\<rparr>)"
proof -
  have wf: "proposals_wf (gs_db st)" and db: "db_ok (gs_db st)" using ok by (auto simp: git_ok_def)
  have wf': "proposals_wf d" by (rule table_moves_wf [OF m wf])
  have "merged_in st c r t" if "merged_in (st\<lparr>gs_db := d\<rparr>) c r t" for c r t
    using that wf' new [of r] by (auto simp: merged_in_def proposals_wf_def proposal_wf_def)
  from pointers_same [OF m wf this] show ?thesis
    using ok table_moves_db_ok [OF m db] wf' by (simp add: git_ok_def)
qed

lemma updated_no_merge:
  assumes "r \<in> set (db_proposals (update_proposals p f d))" and "pp_status r = PrMerged"
    and "\<And>x. pp_status ((f x)\<lparr>pp_id := pp_id x\<rparr>) \<noteq> PrMerged"
  shows "r \<in> set (db_proposals d)"
  using assms by (auto simp: update_proposals_def split: if_splits)

lemma operator_ok:
  assumes "git_ok st"
  shows "undisturbed i d0 (gs_db st) \<Longrightarrow> git_ok (st\<lparr>gs_db := snd (reject_proposal i reason d0 (gs_db st))\<rparr>)"
    and "undisturbed i d0 (gs_db st) \<Longrightarrow> git_ok (st\<lparr>gs_db := snd (reinstate_from_superseded i d0 (gs_db st))\<rparr>)"
    and "git_ok (st\<lparr>gs_db := snd (bulk_mark_superseded losers (gs_db st))\<rparr>)"
proof -
  have db: "db_ok (gs_db st)" using assms by (simp add: git_ok_def)
  have new: "r \<in> set (db_proposals (gs_db st))" if "pp_status r = PrMerged"
    "r \<in> set (db_proposals (snd (reject_proposal i reason d0 (gs_db st)))) \<or>
     r \<in> set (db_proposals (snd (reinstate_from_superseded i d0 (gs_db st)))) \<or>
     r \<in> set (db_proposals (snd (bulk_mark_superseded losers (gs_db st))))" for r
    using that by (auto simp: reject_proposal_def reinstate_from_superseded_def bulk_mark_superseded_def Let_def
        split: option.splits if_splits dest: updated_no_merge)
  show "undisturbed i d0 (gs_db st) \<Longrightarrow> git_ok (st\<lparr>gs_db := snd (reject_proposal i reason d0 (gs_db st))\<rparr>)"
    using no_new_merge_ok [OF assms reject_moves [OF db]] new by blast
  show "undisturbed i d0 (gs_db st) \<Longrightarrow> git_ok (st\<lparr>gs_db := snd (reinstate_from_superseded i d0 (gs_db st))\<rparr>)"
    using no_new_merge_ok [OF assms reinstate_moves [OF db]] new by blast
  show "git_ok (st\<lparr>gs_db := snd (bulk_mark_superseded losers (gs_db st))\<rparr>)"
    using no_new_merge_ok [OF assms supersede_moves] new by blast
qed

text \<open>A row read earlier: its cluster is still the row's, whatever else changed.\<close>

definition snapshot_of :: "db \<Rightarrow> proposal \<Rightarrow> bool" where
  "snapshot_of d p = (\<forall>q. get_proposal d (pp_id p) = Some q \<longrightarrow> pp_cluster_id q = pp_cluster_id p)"

lemma reconcile_answer_ok:
  assumes ok: "git_ok st" and p: "snapshot_of (gs_db st) p"
  shows "git_ok (snd (reconcile_answer fromiso now p payload st))"
proof (cases "if truthy (obj_get payload ''merged'') then parse_merged_at fromiso (obj_get payload ''merged_at'') else None")
  case None
  then show ?thesis
    using ok closed_ok [OF ok] by (auto simp: reconcile_answer_def git_ok_steps split: option.splits prod.splits)
next
  case (Some t)
  let ?m = "if pp_pr_state p = Some PrClosed
    then mark_proposal_pr_merged_from_closed (pp_id p) t (gs_db st) else mark_proposal_pr_merged (pp_id p) t (gs_db st)"
  obtain w d where m: "?m = (w, d)" by (cases ?m)
  show ?thesis
  proof (cases w)
    case None
    then have "d = gs_db st" using m by (auto dest: mark_merged_None split: if_splits)
    then show ?thesis using Some m None ok by (simp add: reconcile_answer_def)
  next
    case (Some u)
    then have "pp_cluster_id u = pp_cluster_id p"
      using m p by (auto simp: snapshot_of_def dest: mark_merged_Some split: if_splits)
    moreover have "git_ok (point_after_merge [] (pp_cluster_id u) (pp_id p) t (st\<lparr>gs_db := d\<rparr>))"
      using m Some merged_at.op_point_after_merge [OF ok] merged_closed_at.op_point_after_merge [OF ok]
      by (auto split: if_splits)
    ultimately show ?thesis
      using Some m \<open>(if _ then _ else _) = Some t\<close> by (simp add: reconcile_answer_def)
  qed
qed

lemma reconcile_one_ok:
  "git_ok st \<Longrightarrow> snapshot_of (gs_db st) p \<Longrightarrow> git_ok (snd (reconcile_one env github now p st))"
  by (auto simp: reconcile_one_def reconcile_answer_ok split: option.splits github_answer.splits prod.splits)

section \<open>A whole tick\<close>

definition git_moves :: "git_store \<Rightarrow> git_store \<Rightarrow> bool" where
  "git_moves a b = (table_moves (gs_db a) (gs_db b) \<and> gs_clusters b = gs_clusters a)"

lemma git_moves_refl [simp]: "git_moves a a"
  by (simp add: git_moves_def)

lemma git_moves_trans: "git_moves a b \<Longrightarrow> git_moves b c \<Longrightarrow> git_moves a c"
  by (auto simp: git_moves_def intro: table_moves_trans)

lemmas mark_moves =
  merged_up.op_table_moves merged_closed_up.op_table_moves closed_up.op_table_moves polled_up.op_table_moves

lemma mark_moves_eq:
  "mark_proposal_pr_merged i t d = (w, e) \<Longrightarrow> table_moves d e"
  "mark_proposal_pr_merged_from_closed i t d = (w, e) \<Longrightarrow> table_moves d e"
  "mark_proposal_pr_closed i d = (w, e) \<Longrightarrow> table_moves d e"
  using merged_up.op_table_moves [of d i t] merged_closed_up.op_table_moves [of d i t]
    closed_up.op_table_moves [of d i] by auto

lemma reconcile_answer_moves: "git_moves st (snd (reconcile_answer fromiso now p payload st))"
  by (auto simp: reconcile_answer_def git_moves_def mark_moves dest: mark_moves_eq
      split: option.splits prod.splits if_splits)

lemma reconcile_one_moves: "git_moves st (snd (reconcile_one env github now p st))"
  by (auto simp: reconcile_one_def reconcile_answer_moves split: option.splits github_answer.splits prod.splits)

lemma snapshot_of_moves: "table_moves d e \<Longrightarrow> snapshot_of d p \<Longrightarrow> snapshot_of e p"
proof -
  assume a: "table_moves d e" "snapshot_of d p"
  have "list_all2 row_moves xs ys \<Longrightarrow> find (\<lambda>x. pp_id x = i) ys = Some q \<Longrightarrow>
      \<exists>r. find (\<lambda>x. pp_id x = i) xs = Some r \<and> pp_cluster_id q = pp_cluster_id r" for xs ys i q
    by (induction rule: list_all2_induct) (auto simp: row_moves_def split: if_splits)
  note found = this
  show ?thesis
    unfolding snapshot_of_def
  proof (intro allI impI)
    fix q assume "get_proposal e (pp_id p) = Some q"
    then obtain r where "get_proposal d (pp_id p) = Some r" "pp_cluster_id q = pp_cluster_id r"
      using found a(1) unfolding table_moves_def get_proposal_def by blast
    then show "pp_cluster_id q = pp_cluster_id p" using a(2) by (simp add: snapshot_of_def)
  qed
qed

lemma reconcile_loop_ok:
  "git_ok st \<Longrightarrow> \<forall>p\<in>set ps. snapshot_of (gs_db st) p \<Longrightarrow> git_ok (snd (reconcile_loop env github now ps s st))"
proof (induction ps arbitrary: s st)
  case (Cons p ps)
  obtain out st' where o: "reconcile_one env github now p st = (out, st')" by (cases "reconcile_one env github now p st")
  have ok: "git_ok st'" using reconcile_one_ok [OF Cons.prems(1), of p env github now] Cons.prems(2) o by simp
  have "\<forall>q\<in>set ps. snapshot_of (gs_db st') q"
    using reconcile_one_moves [of st env github now p] o Cons.prems(2)
    by (auto simp: git_moves_def intro: snapshot_of_moves)
  then show ?case using ok o Cons.IH [OF ok] by (simp add: Let_def)
qed simp

lemma candidates_in: "set (list_pr_opened_proposals_for_reconcile now d) = {r \<in> set (db_proposals d). reconcile_candidate now r}"
  by (auto simp: list_pr_opened_proposals_for_reconcile_def)

lemma candidate_snapshot:
  "db_ok d \<Longrightarrow> p \<in> set (list_pr_opened_proposals_for_reconcile now d) \<Longrightarrow> snapshot_of d p"
  by (auto simp: candidates_in snapshot_of_def get_proposal_in)

lemma reconcile_pr_state_ok: "git_ok st \<Longrightarrow> git_ok (snd (reconcile_pr_state env github now st))"
  using reconcile_loop_ok candidate_snapshot by (simp add: reconcile_pr_state_def Let_def git_ok_def)

text \<open>
  Everything that updates the pointers or a proposal. A delivery is one step, or its checks ran on an
  earlier store; then no merge has moved the pointer of the repository it loaded since.
\<close>

inductive git_step :: "git_store \<Rightarrow> git_store \<Rightarrow> bool" where
  delivery: "git_step st (snd (github_webhook env ev sig body st))"
| late: "verified_payload env st0 body sig = Some checked \<Longrightarrow> held_current [snd checked] st \<Longrightarrow>
    git_step st (snd (finish_delivery env ev checked st))"
| tick: "git_step st (snd (reconcile_pr_state env github now st))"
| stale: "snapshot_of (gs_db st) p \<Longrightarrow> git_step st (snd (reconcile_one env github now p st))"
| digest: "git_step st (st\<lparr>gs_db := snd (update_proposal_for_digest i cd (gs_db st))\<rparr>)"
| opened: "git_step st (st\<lparr>gs_db := snd (mark_proposal_pr_opened i url (gs_db st))\<rparr>)"
| open_error: "git_step st (st\<lparr>gs_db := snd (set_proposal_pr_open_error i err (gs_db st))\<rparr>)"
| rejected: "undisturbed i d0 (gs_db st) \<Longrightarrow> git_step st (st\<lparr>gs_db := snd (reject_proposal i reason d0 (gs_db st))\<rparr>)"
| reinstated: "undisturbed i d0 (gs_db st) \<Longrightarrow> git_step st (st\<lparr>gs_db := snd (reinstate_from_superseded i d0 (gs_db st))\<rparr>)"
| superseded: "git_step st (st\<lparr>gs_db := snd (bulk_mark_superseded losers (gs_db st))\<rparr>)"

lemma git_step_ok: "git_step st st' \<Longrightarrow> git_ok st \<Longrightarrow> git_ok st'"
  by (induction rule: git_step.induct)
    (simp_all only: finish_delivery_def held_apply apply_decision_ok operator_ok github_webhook_ok reconcile_pr_state_ok reconcile_one_ok git_ok_steps)

lemma git_run_ok: "git_step\<^sup>*\<^sup>* st st' \<Longrightarrow> git_ok st \<Longrightarrow> git_ok st'"
  by (induction rule: rtranclp_induct) (auto intro: git_step_ok)

section \<open>Redelivery\<close>

text \<open>The columns of a repository the receiver reads; the pointer is not one of them.\<close>

definition repo_key :: "config_repo \<Rightarrow> config_repo" where
  "repo_key row = row\<lparr>cr_last_merged_proposal_id := None\<rparr>"

lemma repo_key_columns [simp]:
  "cr_id (repo_key row) = cr_id row" "cr_repo_url (repo_key row) = cr_repo_url row"
  "cr_auth_ref (repo_key row) = cr_auth_ref row" "cr_webhook_secret_ref (repo_key row) = cr_webhook_secret_ref row"
  "repo_key (row\<lparr>cr_last_merged_proposal_id := x\<rparr>) = repo_key row"
  by (simp_all add: repo_key_def)

definition same_repos :: "git_store \<Rightarrow> git_store \<Rightarrow> bool" where
  "same_repos a b = (map repo_key (gs_repos b) = map repo_key (gs_repos a))"

lemma same_repos_refl [simp]: "same_repos a a"
  by (simp add: same_repos_def)

lemma same_repos_trans: "same_repos a b \<Longrightarrow> same_repos b c \<Longrightarrow> same_repos a c"
  by (simp add: same_repos_def)

lemma same_repos_set_pointer [simp]: "same_repos st (set_pointer c p st)"
  by (simp add: same_repos_def set_pointer_def)

lemma same_repos_point [simp]: "same_repos a (point_after_merge held k p t b) = same_repos a b"
  using same_repos_set_pointer
  by (auto simp: point_after_merge_def update_config_repo_last_merged_pointer_def Let_def same_repos_def split: option.splits)

lemma same_repos_db [simp]: "same_repos a (b\<lparr>gs_db := d\<rparr>) = same_repos a b"
  by (simp add: same_repos_def)

lemma lookup_repo_key:
  "map_option repo_key (lookup_config_repo_by_owner_repo lower repos owner rp) =
     lookup_config_repo_by_owner_repo lower (map repo_key repos) owner rp"
  by (induction repos) (auto simp: lookup_config_repo_by_owner_repo_def)

lemma same_repos_lookup:
  assumes "same_repos a b"
  shows "map_option repo_key (lookup_config_repo_by_owner_repo lower (gs_repos b) owner rp) =
    map_option repo_key (lookup_config_repo_by_owner_repo lower (gs_repos a) owner rp)"
  using assms by (simp add: lookup_repo_key same_repos_def)

lemma map_option_eq_cases:
  "map_option f x = map_option f y \<Longrightarrow> (x = None \<and> y = None) \<or> (\<exists>a b. x = Some a \<and> y = Some b \<and> f a = f b)"
  by (cases x; cases y) auto

lemma repo_key_eq:
  "repo_key a = repo_key b \<Longrightarrow> cr_webhook_secret_ref a = cr_webhook_secret_ref b \<and> cr_auth_ref a = cr_auth_ref b"
  by (metis repo_key_columns)

lemma same_repos_verified:
  assumes s: "same_repos a b"
  shows "map_option fst (verified_payload env b body sig) = map_option fst (verified_payload env a body sig)"
proof -
  have row: "(lookup_config_repo_by_owner_repo l (gs_repos b) ow rp = None \<and> lookup_config_repo_by_owner_repo l (gs_repos a) ow rp = None) \<or>
      (\<exists>x y. lookup_config_repo_by_owner_repo l (gs_repos b) ow rp = Some x \<and> lookup_config_repo_by_owner_repo l (gs_repos a) ow rp = Some y \<and>
         cr_webhook_secret_ref x = cr_webhook_secret_ref y)" for l ow rp
    using map_option_eq_cases [OF same_repos_lookup [OF s, of l ow rp]] by (auto dest!: repo_key_eq)
  show ?thesis
  proof (cases "if body = [] then Some (PDict []) else we_json env body")
    case (Some v)
    show ?thesis
    proof (cases v)
      case (PDict payload)
      let ?o = "if full_name_of payload = [] then None
                else parse_repository_full_name (we_lower env) (we_strip env) (full_name_of payload)"
      show ?thesis
      proof (cases ?o)
        case None
        then show ?thesis using Some PDict by (simp add: verified_payload_def)
      next
        case (Some p)
        obtain ow rp where "p = (ow, rp)" by (cases p)
        then show ?thesis using \<open>_ = Some v\<close> PDict Some row [of "we_lower env" ow rp]
          by (auto simp: verified_payload_def Let_def split: option.splits)
      qed
    qed (use Some in \<open>simp_all add: verified_payload_def\<close>)
  qed (simp add: verified_payload_def)
qed

lemma lookup_update:
  assumes "lookup_proposal_by_pr_url d url = Inr (Some r)" and "\<And>r. p r \<Longrightarrow> pp_pr_url (f r) = pp_pr_url r"
  shows "\<exists>r'. lookup_proposal_by_pr_url (update_proposals p f d) url = Inr (Some r') \<and> pp_id r' = pp_id r"
proof -
  let ?g = "\<lambda>r. if p r then (f r)\<lparr>pp_id := pp_id r\<rparr> else r"
  have "filter (\<lambda>r. pp_pr_url r = Some url) (map ?g xs) = map ?g (filter (\<lambda>r. pp_pr_url r = Some url) xs)" for xs
    by (induction xs) (auto simp: assms(2))
  moreover have "filter (\<lambda>r. pp_pr_url r = Some url) (db_proposals d) = [r]"
    using assms(1) by (auto simp: lookup_proposal_by_pr_url_def split: list.splits)
  ultimately show ?thesis by (simp add: lookup_proposal_by_pr_url_def update_proposals_def)
qed

context guarded_update
begin

lemma op_lookup:
  assumes "lookup_proposal_by_pr_url d url = Inr (Some r)" and "\<And>r. pp_pr_url (eff r) = pp_pr_url r"
  shows "\<exists>r'. lookup_proposal_by_pr_url (snd (op i d)) url = Inr (Some r') \<and> pp_id r' = pp_id r"
  using lookup_update [OF assms(1), of "\<lambda>x. pp_id x = i \<and> guard x" eff] assms
  by (auto simp: op_shape conditional_update_def split: option.splits)

end

lemma mark_twice:
  "mark_proposal_pr_merged i t (snd (mark_proposal_pr_merged i t d)) = (None, snd (mark_proposal_pr_merged i t d))"
  "mark_proposal_pr_closed i (snd (mark_proposal_pr_closed i d)) = (None, snd (mark_proposal_pr_closed i d))"
  "mark_proposal_pr_reopened i (snd (mark_proposal_pr_reopened i d)) = (None, snd (mark_proposal_pr_reopened i d))"
  by (rule merged_up.op_twice closed_up.op_twice reopened_up.op_twice; simp)+

lemma apply_decision_twice:
  "snd (apply_decision held' dec (snd (apply_decision held dec st))) = snd (apply_decision held dec st)"
proof (cases "\<exists>url r. wd_pr_url dec = Some url \<and> lookup_proposal_by_pr_url (gs_db st) url = Inr (Some r)")
  case False
  then have "snd (apply_decision h dec st) = st" for h by (auto simp: apply_decision_def split: option.splits sum.splits)
  then show ?thesis by simp
next
  case True
  then obtain url r where u: "wd_pr_url dec = Some url" and l: "lookup_proposal_by_pr_url (gs_db st) url = Inr (Some r)"
    by blast
  obtain rc where rc: "lookup_proposal_by_pr_url (snd (mark_proposal_pr_closed (pp_id r) (gs_db st))) url = Inr (Some rc)"
    "pp_id rc = pp_id r" using closed_up.op_lookup [OF l] by auto
  obtain ro where ro: "lookup_proposal_by_pr_url (snd (mark_proposal_pr_reopened (pp_id r) (gs_db st))) url = Inr (Some ro)"
    "pp_id ro = pp_id r" using reopened_up.op_lookup [OF l] by auto
  show ?thesis
  proof (cases "wd_mutation dec")
    case MutMerged
    show ?thesis
    proof (cases "wd_pr_merged_at dec")
      case (Some t)
      obtain w d where m: "mark_proposal_pr_merged (pp_id r) t (gs_db st) = (w, d)"
        by (cases "mark_proposal_pr_merged (pp_id r) t (gs_db st)")
      obtain rm where rm: "lookup_proposal_by_pr_url d url = Inr (Some rm)" "pp_id rm = pp_id r"
        using merged_up.op_lookup [OF l, of t "pp_id r"] m by auto
      have "mark_proposal_pr_merged (pp_id r) t d = (None, d)" using mark_twice(1) [of "pp_id r" t "gs_db st"] m by simp
      then show ?thesis using u l m rm MutMerged Some by (cases w) (simp_all add: apply_decision_def)
    qed (use u l rc MutMerged mark_twice(2) in \<open>simp add: apply_decision_def\<close>)
  qed (use u l rc ro mark_twice in \<open>simp_all add: apply_decision_def\<close>)
qed

lemma apply_decision_repos: "same_repos st (snd (apply_decision held dec st))"
  by (auto simp: apply_decision_def split: option.splits webhook_mutation.splits sum.splits prod.splits)

section \<open>Catching up with GitHub\<close>

text \<open>GitHub reports the pull request of \<open>p\<close> merged at \<open>t\<close>, and the reconciler can ask.\<close>

definition merged_upstream ::
  "webhook_env \<Rightarrow> (string \<times> string \<times> int \<Rightarrow> github_answer) \<Rightarrow> git_store \<Rightarrow> proposal \<Rightarrow> int \<Rightarrow> bool" where
  "merged_upstream env github st p t = (\<exists>url owner rp n row token payload.
     pp_pr_url p = Some url \<and> url \<noteq> [] \<and> parse_pr_url url = Some (owner, rp, n) \<and>
     lookup_config_repo_by_owner_repo (we_lower env) (gs_repos st) owner rp = Some row \<and>
     we_secret env (cr_auth_ref row) = Some token \<and> github (owner, rp, n) = Response 200 payload \<and>
     truthy (obj_get payload ''merged'') \<and>
     parse_merged_at (we_fromisoformat env) (obj_get payload ''merged_at'') = Some t)"

lemma merged_upstream_repos:
  assumes "same_repos a b" "merged_upstream env github a p t"
  shows "merged_upstream env github b p t"
proof -
  obtain url owner rp n row token payload where u: "pp_pr_url p = Some url" "url \<noteq> []"
    "parse_pr_url url = Some (owner, rp, n)"
    "lookup_config_repo_by_owner_repo (we_lower env) (gs_repos a) owner rp = Some row"
    "we_secret env (cr_auth_ref row) = Some token" "github (owner, rp, n) = Response 200 payload"
    "truthy (obj_get payload ''merged'')"
    "parse_merged_at (we_fromisoformat env) (obj_get payload ''merged_at'') = Some t"
    using assms(2) unfolding merged_upstream_def by blast
  obtain row' where r: "lookup_config_repo_by_owner_repo (we_lower env) (gs_repos b) owner rp = Some row'"
    "cr_auth_ref row' = cr_auth_ref row"
    using map_option_eq_cases [OF same_repos_lookup [OF assms(1), of "we_lower env" owner rp]] u(4)
    by (auto dest!: repo_key_eq)
  show ?thesis unfolding merged_upstream_def
    by (rule exI [of _ url], rule exI [of _ owner], rule exI [of _ rp], rule exI [of _ n], rule exI [of _ row'])
      (use u r in auto)
qed

lemma reconcile_one_merged:
  "merged_upstream env github st p t \<Longrightarrow>
     reconcile_one env github now p st =
       (case (if pp_pr_state p = Some PrClosed
              then mark_proposal_pr_merged_from_closed (pp_id p) t (gs_db st)
              else mark_proposal_pr_merged (pp_id p) t (gs_db st)) of
          (None, d) \<Rightarrow> (Unchanged, st\<lparr>gs_db := d\<rparr>)
        | (Some u, d) \<Rightarrow>
            (Reconciled, point_after_merge [] (pp_cluster_id p) (pp_id p) t (st\<lparr>gs_db := d\<rparr>)))"
  by (auto simp: merged_upstream_def reconcile_one_def reconcile_answer_def)

lemma reconcile_one_repos: "same_repos st (snd (reconcile_one env github now p st))"
  by (auto simp: reconcile_one_def reconcile_answer_def Let_def
      split: option.splits github_answer.splits prod.splits)

lemma mark_get_other:
  "j \<noteq> i \<Longrightarrow> mark_proposal_pr_merged i t d = (w, e) \<Longrightarrow> get_proposal e j = get_proposal d j"
  "j \<noteq> i \<Longrightarrow> mark_proposal_pr_merged_from_closed i t d = (w, e) \<Longrightarrow> get_proposal e j = get_proposal d j"
  "j \<noteq> i \<Longrightarrow> mark_proposal_pr_closed i d = (w, e) \<Longrightarrow> get_proposal e j = get_proposal d j"
  using merged_up.op_get [where i = i and d = d and j = j and t = t]
    merged_closed_up.op_get [where i = i and d = d and j = j and t = t] closed_up.op_get [of i d j] by auto

lemma reconcile_answer_other:
  assumes "j \<noteq> pp_id p"
  shows "get_proposal (gs_db (snd (reconcile_answer fromiso now p payload st))) j = get_proposal (gs_db st) j"
  using assms by (auto simp: reconcile_answer_def polled_up.op_get dest: mark_get_other [OF assms]
      split: option.splits prod.splits if_splits)

lemma reconcile_one_other:
  "j \<noteq> pp_id p \<Longrightarrow> get_proposal (gs_db (snd (reconcile_one env github now p st))) j = get_proposal (gs_db st) j"
  by (auto simp: reconcile_one_def reconcile_answer_other split: option.splits github_answer.splits prod.splits)

lemma reconcile_one_merges:
  assumes "merged_upstream env github st p t" and "get_proposal (gs_db st) (pp_id p) = Some p"
    and "pp_status p = PrOpened" and "proposal_wf p"
  shows "fst (reconcile_one env github now p st) = Reconciled \<and>
    (\<exists>r. get_proposal (gs_db (snd (reconcile_one env github now p st))) (pp_id p) = Some r \<and>
         pp_status r = PrMerged \<and> pp_pr_merged_at r = Some t)"
proof (cases "pp_pr_state p = Some PrClosed")
  case True
  have f: "fst (mark_proposal_pr_merged_from_closed (pp_id p) t (gs_db st)) \<noteq> None"
    using assms True by (simp add: merged_closed_up.op_fst)
  show ?thesis
    using assms True f merged_closed_up.op_get [where i = "pp_id p" and d = "gs_db st" and j = "pp_id p" and t = t]
    by (auto simp: reconcile_one_merged split: prod.splits option.splits)
next
  case False
  then have s: "pp_pr_state p = Some PrOpen" using assms by (auto simp: proposal_wf_def)
  have f: "fst (mark_proposal_pr_merged (pp_id p) t (gs_db st)) \<noteq> None"
    using assms s by (simp add: merged_up.op_fst)
  show ?thesis
    using assms s f merged_up.op_get [where i = "pp_id p" and d = "gs_db st" and j = "pp_id p" and t = t]
    by (auto simp: reconcile_one_merged split: prod.splits option.splits)
qed

text \<open>A merged row stays as it is for the rest of the tick.\<close>

lemma reconcile_loop_moves: "git_moves st (snd (reconcile_loop env github now ps s st))"
proof (induction ps arbitrary: s st)
  case (Cons p ps)
  obtain out st' where o: "reconcile_one env github now p st = (out, st')" by (cases "reconcile_one env github now p st")
  have "git_moves st st'" using reconcile_one_moves [of st env github now p] o by simp
  then show ?case using o Cons.IH [of st'] by (auto simp: Let_def intro: git_moves_trans)
qed simp

lemma merged_stays:
  "table_moves d e \<Longrightarrow> get_proposal d i = Some r \<Longrightarrow> pp_status r = PrMerged \<Longrightarrow> get_proposal e i = Some r"
  using table_moves_get [of d e i r] by (auto simp: row_moves_def)

lemma not_rate_limited:
  "\<forall>k payload. github k \<noteq> Response 429 payload \<Longrightarrow> fst (reconcile_one env github now p st) \<noteq> RateLimited"
  by (auto simp: reconcile_one_def reconcile_answer_def Let_def
      split: option.splits github_answer.splits prod.splits)

lemma reconcile_loop_merges:
  assumes lim: "\<forall>k payload. github k \<noteq> Response 429 payload"
  shows "distinct (map pp_id ps) \<Longrightarrow> p \<in> set ps \<Longrightarrow> merged_upstream env github st p t \<Longrightarrow>
    get_proposal (gs_db st) (pp_id p) = Some p \<Longrightarrow> pp_status p = PrOpened \<Longrightarrow> proposal_wf p \<Longrightarrow>
    \<exists>r. get_proposal (gs_db (snd (reconcile_loop env github now ps s st))) (pp_id p) = Some r \<and>
         pp_status r = PrMerged \<and> pp_pr_merged_at r = Some t"
proof (induction ps arbitrary: s st)
  case (Cons q ps)
  obtain out st' where o: "reconcile_one env github now q st = (out, st')" by (cases "reconcile_one env github now q st")
  have nl: "out \<noteq> RateLimited" using not_rate_limited [OF lim, where env = env and now = now and p = q and st = st] o by simp
  show ?case
  proof (cases "q = p")
    case True
    then obtain r where r: "get_proposal (gs_db st') (pp_id p) = Some r" "pp_status r = PrMerged" "pp_pr_merged_at r = Some t"
      using reconcile_one_merges [OF Cons.prems(3,4,5,6), where now = now] o by auto
    have "table_moves (gs_db st') (gs_db (snd (reconcile_loop env github now ps (count_outcome out s) st')))"
      using reconcile_loop_moves by (simp add: git_moves_def)
    from merged_stays [OF this r(1,2)] show ?thesis using o nl r by (simp add: Let_def)
  next
    case False
    then have p: "p \<in> set ps" "pp_id p \<noteq> pp_id q" using Cons.prems(1,2) by (auto simp: image_iff)
    have "merged_upstream env github st' p t"
      using merged_upstream_repos [OF _ Cons.prems(3)] reconcile_one_repos [of st env github now q] o by simp
    moreover have "get_proposal (gs_db st') (pp_id p) = Some p"
      using reconcile_one_other [OF p(2), of env github now st] o Cons.prems(4) by simp
    ultimately show ?thesis using Cons.IH p Cons.prems o nl by (simp add: Let_def)
  qed
qed simp

lemma has_prefix_split: "has_prefix p s \<Longrightarrow> s = p @ drop (length p) s"
  by (metis append_take_drop_id has_prefix_def)

lemma verified_header:
  assumes "verify_webhook_signature h b s k"
  shows "s = Some (''sha256='' @ h k b)"
proof -
  obtain x where x: "s = Some x" "has_prefix ''sha256='' x" "drop (length ''sha256='') x = h k b"
    using assms unfolding verify_webhook_signature_def Let_def
    by (cases s) (simp_all split: if_splits)
  then show ?thesis using has_prefix_split [OF x(2)] by (simp only:)
qed

lemma verified_payload_Some:
  assumes "verified_payload env st body sig = Some (payload, row)"
  obtains d full_name owner rp ref secret where "we_json env body = Some (PDict payload)"
    "obj_get payload ''repository'' = PDict d" "obj_get d ''full_name'' = PStr full_name" "body \<noteq> []"
    "parse_repository_full_name (we_lower env) (we_strip env) full_name = Some (owner, rp)"
    "lookup_config_repo_by_owner_repo (we_lower env) (gs_repos st) owner rp = Some row"
    "cr_webhook_secret_ref row = Some ref" "we_secret env ref = Some secret" "secret \<noteq> []"
    "verify_webhook_signature (we_hmac env) body sig secret"
proof -
  have parts: "(if body = [] then Some (PDict []) else we_json env body) = Some (PDict payload)" "full_name_of payload \<noteq> []"
    and rest: "\<exists>owner rp ref secret. parse_repository_full_name (we_lower env) (we_strip env) (full_name_of payload) = Some (owner, rp) \<and>
      lookup_config_repo_by_owner_repo (we_lower env) (gs_repos st) owner rp = Some row \<and>
      cr_webhook_secret_ref row = Some ref \<and> we_secret env ref = Some secret \<and> secret \<noteq> [] \<and>
      verify_webhook_signature (we_hmac env) body sig secret"
    using assms unfolding verified_payload_def Let_def
    by (auto split: option.splits pyval.splits if_splits prod.splits)
  obtain d full_name where "obj_get payload ''repository'' = PDict d" "obj_get d ''full_name'' = PStr full_name"
    "full_name_of payload = full_name"
    using parts(2) by (auto simp: full_name_of_def split: pyval.splits)
  moreover have "body \<noteq> []" using parts by (auto simp: full_name_of_def obj_get_def)
  ultimately show thesis using that parts(1) rest by auto
qed

section \<open>A sample store\<close>

definition sample_event :: obj where
  "sample_event = [(''action'', PStr ''closed''), (''repository'', PDict [(''full_name'', PStr ''o/r'')]),
     (''pull_request'', PDict [(''html_url'', PStr ''https://github.com/o/r/pull/1''),
        (''merged'', PBool True), (''merged_at'', PStr ''2026'')])]"

definition sample_env :: webhook_env where
  "sample_env = \<lparr>we_json = (\<lambda>_. Some (PDict sample_event)), we_fromisoformat = (\<lambda>s. Some 7), we_lower = (\<lambda>s. s),
     we_strip = (\<lambda>s. s), we_secret = (\<lambda>r. Some ''s''), we_hmac = (\<lambda>k m. m)\<rparr>"

definition sample_open :: proposal where
  "sample_open = (sample_proposal ''p'' None PrOpened)
     \<lparr>pp_pr_url := Some ''https://github.com/o/r/pull/1'', pp_pr_state := Some PrOpen, pp_created_at := 1\<rparr>"

definition sample_git :: git_store where
  "sample_git = \<lparr>gs_db = \<lparr>db_studies = [], db_trials = [], db_proposals = [sample_open]\<rparr>,
     gs_clusters = [(''c'', Some ''g'')],
     gs_repos = [\<lparr>cr_id = ''g'', cr_repo_url = ''https://github.com/o/r'', cr_auth_ref = ''a'',
       cr_webhook_secret_ref = Some ''w'', cr_last_merged_proposal_id = None\<rparr>]\<rparr>"

definition sample_payload :: obj where
  "sample_payload = [(''merged'', PBool True), (''merged_at'', PStr ''2026''), (''state'', PStr ''closed'')]"

definition sample_github :: "string \<times> string \<times> int \<Rightarrow> github_answer" where
  "sample_github k = Response 200 sample_payload"

lemma sample_git_ok: "git_ok sample_git"
  by (auto simp: git_ok_def sample_git_def sample_open_def sample_proposal_def db_ok_def proposals_wf_def
      proposal_wf_def pointer_latest_def merged_in_def)

lemma sample_delivery:
  "map pp_status (db_proposals (gs_db (snd (github_webhook sample_env ''pull_request''
     (Some ''sha256=b'') ''b'' sample_git)))) = [PrMerged]"
  by code_simp

lemma sample_status: "map pp_status (db_proposals (gs_db sample_git)) = [PrOpened]"
  by code_simp

lemma sample_upstream: "merged_upstream sample_env sample_github sample_git sample_open 7"
proof -
  have "parse_pr_url ''https://github.com/o/r/pull/1'' = Some (''o'', ''r'', 1)"
    "validate_repo_url ''https://github.com/o/r'' = Some (''o'', ''r'')"
    by code_simp+
  then show ?thesis
    by (simp add: merged_upstream_def sample_open_def sample_git_def sample_env_def sample_github_def
      sample_payload_def lookup_config_repo_by_owner_repo_def obj_get_def parse_merged_at_def)
qed

section \<open>Properties\<close>



text \<open>C39 A delivery changes the store only when its body decodes to a JSON object whose repository field
  names a registered repository with a secret, and it carries the HMAC of exactly this body under that
  repository's secret, which is not empty; and then only by the decision of the dispatcher on that object.\<close>

theorem delivery_authenticated:
  assumes "snd (github_webhook env ev sig body st) \<noteq> st"
  shows "\<exists>payload d full_name owner rp row ref secret.
    we_json env body = Some (PDict payload) \<and> body \<noteq> [] \<and>
    obj_get payload ''repository'' = PDict d \<and> obj_get d ''full_name'' = PStr full_name \<and>
    parse_repository_full_name (we_lower env) (we_strip env) full_name = Some (owner, rp) \<and>
    row \<in> set (gs_repos st) \<and>
    (\<exists>o' r'. validate_repo_url (cr_repo_url row) = Some (o', r') \<and>
       we_lower env o' = we_lower env owner \<and> we_lower env r' = we_lower env rp) \<and>
    cr_webhook_secret_ref row = Some ref \<and> we_secret env ref = Some secret \<and> secret \<noteq> [] \<and>
    sig = Some (''sha256='' @ we_hmac env secret body) \<and>
    snd (github_webhook env ev sig body st) =
      snd (apply_decision [row] (dispatch_event (we_fromisoformat env) ev payload) st)"
proof -
  obtain payload row where p: "verified_payload env st body sig = Some (payload, row)"
    using assms by (auto simp: github_webhook_def split: option.splits)
  obtain d full_name owner rp ref secret where v: "we_json env body = Some (PDict payload)"
    "obj_get payload ''repository'' = PDict d" "obj_get d ''full_name'' = PStr full_name" "body \<noteq> []"
    "parse_repository_full_name (we_lower env) (we_strip env) full_name = Some (owner, rp)"
    "lookup_config_repo_by_owner_repo (we_lower env) (gs_repos st) owner rp = Some row"
    "cr_webhook_secret_ref row = Some ref" "we_secret env ref = Some secret" "secret \<noteq> []"
    "verify_webhook_signature (we_hmac env) body sig secret"
    by (rule verified_payload_Some [OF p])
  have row: "row \<in> set (gs_repos st)" "\<exists>o' r'. validate_repo_url (cr_repo_url row) = Some (o', r') \<and>
       we_lower env o' = we_lower env owner \<and> we_lower env r' = we_lower env rp"
    using find_Some_in [OF v(6) [unfolded lookup_config_repo_by_owner_repo_def]] by (auto split: option.splits)
  have "snd (github_webhook env ev sig body st) =
      snd (apply_decision [row] (dispatch_event (we_fromisoformat env) ev payload) st)"
    using p by (simp add: github_webhook_def finish_delivery_def)
  with v(1-5,7-9) row verified_header [OF v(10)] show ?thesis
    by (intro exI [of _ payload] exI [of _ d] exI [of _ full_name] exI [of _ owner] exI [of _ rp] exI [of _ row]
        exI [of _ ref] exI [of _ secret]) (simp only: simp_thms)
qed

lemma delivery_authenticated_witness:
  "\<exists>payload secret. we_json sample_env ''b'' = Some (PDict payload) \<and> secret \<noteq> [] \<and>
     Some ''sha256=b'' = Some (''sha256='' @ we_hmac sample_env secret ''b'')"
proof -
  have "snd (github_webhook sample_env ''pull_request'' (Some ''sha256=b'') ''b'' sample_git) \<noteq> sample_git"
    using sample_delivery sample_status by auto
  from delivery_authenticated [OF this] show ?thesis by blast
qed

text \<open>
  Two deliveries that overlap: both have loaded the repository while nothing was merged; the later
  merge (of \<open>p\<close>, at 7) is recorded first, and then the older one (of \<open>q\<close>, at 3) still sees no pointer
  and takes it.
\<close>

definition racing_git :: git_store where
  "racing_git = sample_git\<lparr>gs_db := \<lparr>db_studies = [], db_trials = [], db_proposals =
     [sample_open, sample_open\<lparr>pp_id := ''q'', pp_pr_url := Some ''https://github.com/o/r/pull/2''\<rparr>]\<rparr>\<rparr>"

definition racing_event :: "string \<Rightarrow> obj" where
  "racing_event n = [(''action'', PStr ''closed''), (''repository'', PDict [(''full_name'', PStr ''o/r'')]),
     (''pull_request'', PDict [(''html_url'', PStr (''https://github.com/o/r/pull/'' @ n)),
        (''merged'', PBool True), (''merged_at'', PStr n)])]"

definition racing_env :: webhook_env where
  "racing_env = sample_env\<lparr>we_json := (\<lambda>b. Some (PDict (racing_event b))),
     we_fromisoformat := (\<lambda>s. Some (if s = ''1'' then 7 else 3))\<rparr>"

lemma stale_pointer_wins:
  "(case (verified_payload racing_env racing_git ''1'' (Some ''sha256=1''), verified_payload racing_env racing_git ''2'' (Some ''sha256=2'')) of
      (Some first, Some second) \<Rightarrow>
        map cr_last_merged_proposal_id (gs_repos (snd (finish_delivery racing_env ''pull_request'' second
          (snd (finish_delivery racing_env ''pull_request'' first racing_git)))))
    | _ \<Rightarrow> []) = [Some ''q'']"
  "map cr_last_merged_proposal_id (gs_repos (snd (github_webhook racing_env ''pull_request'' (Some ''sha256=2'') ''2''
     (snd (github_webhook racing_env ''pull_request'' (Some ''sha256=1'') ''1'' racing_git))))) = [Some ''p'']"
  by code_simp+

text \<open>The signing repository need not be the pull request's: a delivery signed with the secret of
  one registered repository records a merge of a pull request of another.\<close>

definition foreign_git :: git_store where
  "foreign_git = sample_git\<lparr>gs_repos := [\<lparr>cr_id = ''g'', cr_repo_url = ''https://github.com/o/r'',
     cr_auth_ref = ''a'', cr_webhook_secret_ref = None, cr_last_merged_proposal_id = None\<rparr>,
     \<lparr>cr_id = ''h'', cr_repo_url = ''https://github.com/x/y'', cr_auth_ref = ''b'',
      cr_webhook_secret_ref = Some ''w'', cr_last_merged_proposal_id = None\<rparr>]\<rparr>"

definition foreign_event :: obj where
  "foreign_event = [(''action'', PStr ''closed''), (''repository'', PDict [(''full_name'', PStr ''x/y'')]),
     (''pull_request'', PDict [(''html_url'', PStr ''https://github.com/o/r/pull/1''),
        (''merged'', PBool True), (''merged_at'', PStr ''2026'')])]"

lemma foreign_repository_merges:
  "map pp_status (db_proposals (gs_db (snd (github_webhook
     (sample_env\<lparr>we_json := (\<lambda>_. Some (PDict foreign_event))\<rparr>) ''pull_request''
     (Some ''sha256=b'') ''b'' foreign_git)))) = [PrMerged]"
  by code_simp

text \<open>Delivering the same webhook again changes nothing more.\<close>

theorem redelivery_idempotent:
  "snd (github_webhook env ev sig body (snd (github_webhook env ev sig body st))) =
     snd (github_webhook env ev sig body st)"
proof (cases "verified_payload env st body sig")
  case (Some checked)
  let ?dec = "dispatch_event (we_fromisoformat env) ev (fst checked)"
  have "map_option fst (verified_payload env (snd (apply_decision [snd checked] ?dec st)) body sig) = Some (fst checked)"
    using same_repos_verified [OF apply_decision_repos] Some by simp
  then show ?thesis using Some by (auto simp: github_webhook_def finish_delivery_def apply_decision_twice)
qed (simp add: github_webhook_def)

text \<open>After one tick that hits no rate limit, every candidate whose pull request GitHub
  reports merged is recorded merged at that time, also when a webhook was missed and the row
  was closed before.\<close>

theorem tick_catches_up:
  assumes "git_ok st" and "p \<in> set (list_pr_opened_proposals_for_reconcile now (gs_db st))"
    and "merged_upstream env github st p t" and "\<forall>k payload. github k \<noteq> Response 429 payload"
  shows "\<exists>r. get_proposal (gs_db (snd (reconcile_pr_state env github now st))) (pp_id p) = Some r \<and>
    pp_status r = PrMerged \<and> pp_pr_merged_at r = Some t"
proof -
  let ?ps = "list_pr_opened_proposals_for_reconcile now (gs_db st)"
  have db: "db_ok (gs_db st)" and wf: "proposals_wf (gs_db st)" using assms(1) by (auto simp: git_ok_def)
  have p: "p \<in> set (db_proposals (gs_db st))" "pp_status p = PrOpened"
    using assms(2) by (auto simp: candidates_in reconcile_candidate_def)
  have "distinct (map pp_id ?ps)"
    using db by (auto simp: list_pr_opened_proposals_for_reconcile_def db_ok_def distinct_map
        intro: inj_on_subset)
  from reconcile_loop_merges [OF assms(4) this assms(2,3) get_proposal_in [OF db p(1)] p(2)]
  show ?thesis using wf p(1) by (simp add: reconcile_pr_state_def Let_def proposals_wf_def)
qed

lemma tick_catches_up_witness:
  "\<exists>r. get_proposal (gs_db (snd (reconcile_pr_state sample_env sample_github 5 sample_git))) ''p'' = Some r \<and>
     pp_status r = PrMerged \<and> pp_pr_merged_at r = Some 7"
proof -
  have "sample_open \<in> set (list_pr_opened_proposals_for_reconcile 5 (gs_db sample_git))"
    by (simp add: candidates_in sample_git_def sample_open_def sample_proposal_def reconcile_candidate_def days_def)
  from tick_catches_up [OF sample_git_ok this sample_upstream] show ?thesis
    by (simp add: sample_github_def sample_open_def sample_proposal_def)
qed

text \<open>The cron entry's firing times, as minutes of a day.\<close>

definition fires_at :: "nat set \<times> nat set option \<Rightarrow> nat \<Rightarrow> bool" where
  "fires_at kw m = (m < 1440 \<and> m mod 60 \<in> fst kw \<and>
     (case snd kw of None \<Rightarrow> True | Some hs \<Rightarrow> m div 60 \<in> hs))"

lemma py_range_set_mem: "x \<in> py_range_set k n \<longleftrightarrow> x < k \<and> n dvd x"
  by (auto simp: py_range_set_def dvd_eq_mod_eq_0)

lemma fires_minutes:
  assumes "n dvd 60" "n > 0"
  shows "fires_at (py_range_set 60 n, None) m \<longleftrightarrow> m < 1440 \<and> n dvd m"
  using assms by (simp add: fires_at_def py_range_set_mem dvd_mod_iff)

lemma fires_hours: "h > 0 \<Longrightarrow> fires_at ({0}, Some (py_range_set 24 h)) m \<longleftrightarrow> m < 1440 \<and> 60 * h dvd m"
proof -
  have "m mod 60 = 0 \<and> h dvd m div 60 \<longleftrightarrow> 60 * h dvd m"
    by (metis dvd_div_iff_mult dvd_eq_mod_eq_0 dvd_mult_left mult.commute zero_neq_numeral)
  then show ?thesis by (auto simp: fires_at_def py_range_set_mem)
qed

lemma supported_shape: "n \<in> set SUPPORTED_POLL_MINUTES \<Longrightarrow>
   n > 0 \<and> (if n \<le> 60 then n dvd 60 else n = 60 * (n div 60) \<and> n div 60 > 0)"
  by (auto simp: SUPPORTED_POLL_MINUTES_def dvd_eq_mod_eq_0)

text \<open>The polling job fires exactly at the minutes of the day that are multiples of the
  configured cadence, and every 15 minutes when that is not a supported one.\<close>

theorem poll_cadence:
  "{m. fires_at (poll_cron_kwargs n) m} =
     {m. m < 1440 \<and> (if n \<in> set SUPPORTED_POLL_MINUTES then n else FALLBACK_POLL_MINUTES) dvd m}"
proof -
  let ?n = "if n \<in> set SUPPORTED_POLL_MINUTES then n else FALLBACK_POLL_MINUTES"
  have s: "?n \<in> set SUPPORTED_POLL_MINUTES" by (simp add: SUPPORTED_POLL_MINUTES_def FALLBACK_POLL_MINUTES_def)
  have k: "poll_cron_kwargs n = (if ?n \<le> 60 then (py_range_set 60 ?n, None) else ({0}, Some (py_range_set 24 (?n div 60))))"
    by (simp add: poll_cron_kwargs_def Let_def)
  show ?thesis
  proof (cases "?n \<le> 60")
    case True
    then show ?thesis using k supported_shape [OF s] fires_minutes [of ?n] by (simp only: if_True)
  next
    case False
    then have "60 * (?n div 60) = ?n" "?n div 60 > 0" using supported_shape [OF s] by auto
    then show ?thesis using k False fires_hours [of "?n div 60"] by (simp only: if_False)
  qed
qed

end
