(* ===== verification/Github_Client.thy ===== *)
theory Github_Client
  imports Webhook "HOL-Library.Sublist"
begin

text \<open>
  The client of the GitHub API with its retries (\<open>backend/app/git/github_client.py\<close>), the secrets it
  reads (\<open>backend/app/git/secrets.py\<close>), and the job that registers a webhook
  (\<open>backend/workers/register_webhook.py\<close>). GitHub is a parameter: a server that takes a request and
  its state to an answer and its next state, so that a request that is sent twice is seen twice. The
  clock, the parser of floats and the file system are parameters too.
\<close>

section \<open>Requests and answers\<close>

record gh_request =
  rq_verb :: string
  rq_url :: string
  rq_body :: "obj option"

text \<open>Headers have lower-case names. \<open>hr_text\<close> is \<open>None\<close> when the body cannot be decoded, \<open>hr_json\<close>
  when it is no JSON.\<close>

record http_response =
  hr_status :: int
  hr_headers :: "(string, string) pydict"
  hr_text :: "string option"
  hr_json :: "pyval option"

text \<open>A network error has a class and a message.\<close>

datatype http_answer = NetworkError string string | HttpResponse http_response

record client_env =
  ce_float_of_str :: "string \<Rightarrow> pyfloat option"
  ce_lower :: "string \<Rightarrow> string"
  ce_time :: "nat \<Rightarrow> pyfloat"

definition HTTP_RETRY_MAX :: nat where "HTTP_RETRY_MAX = 3"
definition HTTP_RETRY_BACKOFF_S :: "pyfloat list" where "HTTP_RETRY_BACKOFF_S = [Fin 1, Fin 2, Fin 4]"
definition RATE_LIMIT_CLAMP_S :: pyfloat where "RATE_LIMIT_CLAMP_S = Fin 60"

definition parse_retry_after :: "client_env \<Rightarrow> http_response \<Rightarrow> pyfloat" where
  "parse_retry_after env r =
     (let raw = (case map_of (hr_headers r) ''retry-after'' of None \<Rightarrow> ''1'' | Some s \<Rightarrow> s)
      in case ce_float_of_str env raw of None \<Rightarrow> Fin 1 | Some x \<Rightarrow> fmax (Fin 0) x)"

definition is_secondary_rate_limit :: "http_response \<Rightarrow> bool" where
  "is_secondary_rate_limit r =
     (map_of (hr_headers r) ''x-ratelimit-remaining'' = Some ''0'' \<and> map_of (hr_headers r) ''x-ratelimit-reset'' \<noteq> None)"

definition body_mentions_rate_limit :: "client_env \<Rightarrow> http_response \<Rightarrow> bool" where
  "body_mentions_rate_limit env r = (case hr_text r of
       None \<Rightarrow> False
     | Some t \<Rightarrow> sublist ''rate limit'' (ce_lower env t) \<or> sublist ''abuse'' (ce_lower env t))"

definition parse_rate_limit_reset :: "client_env \<Rightarrow> nat \<Rightarrow> http_response \<Rightarrow> pyfloat" where
  "parse_rate_limit_reset env attempt r =
     (let raw = (case map_of (hr_headers r) ''x-ratelimit-reset'' of None \<Rightarrow> ''0'' | Some s \<Rightarrow> s)
      in case ce_float_of_str env raw of None \<Rightarrow> Fin 1 | Some x \<Rightarrow> fmax (Fin 0) (fsub x (ce_time env attempt)))"

text \<open>How long to wait before the next attempt; \<open>None\<close> when the answer is final.\<close>

definition retry_wait :: "client_env \<Rightarrow> nat \<Rightarrow> http_response \<Rightarrow> pyfloat option" where
  "retry_wait env attempt r =
     (if hr_status r < 400 then None
      else if 500 \<le> hr_status r then Some (HTTP_RETRY_BACKOFF_S ! attempt)
      else if hr_status r = 429 then Some (fmin (parse_retry_after env r) RATE_LIMIT_CLAMP_S)
      else if hr_status r = 403 then
        (if map_of (hr_headers r) ''retry-after'' \<noteq> None then Some (fmin (parse_retry_after env r) RATE_LIMIT_CLAMP_S)
         else if is_secondary_rate_limit r then Some (fmin (parse_rate_limit_reset env attempt r) RATE_LIMIT_CLAMP_S)
         else if body_mentions_rate_limit env r then Some (HTTP_RETRY_BACKOFF_S ! attempt)
         else None)
      else None)"

text \<open>The loop over the attempts that are left. The result is an answer or the last network error, the
  waits, and the state of GitHub.\<close>

fun request_loop ::
  "client_env \<Rightarrow> (gh_request \<Rightarrow> 's \<Rightarrow> http_answer \<times> 's) \<Rightarrow> gh_request \<Rightarrow> nat \<Rightarrow> nat \<Rightarrow> http_response option \<Rightarrow> string \<times> string
   \<Rightarrow> pyfloat list \<Rightarrow> 's \<Rightarrow> (string \<times> string + http_response) \<times> pyfloat list \<times> 's" where
  "request_loop env server rq attempt 0 last_response last_exc waits s =
     ((case last_response of Some r \<Rightarrow> Inr r | None \<Rightarrow> Inl last_exc), waits, s)"
| "request_loop env server rq attempt (Suc k) last_response last_exc waits s =
     (case server rq s of
        (NetworkError c e, s1) \<Rightarrow>
          request_loop env server rq (Suc attempt) k last_response (c, e) (waits @ [HTTP_RETRY_BACKOFF_S ! attempt]) s1
      | (HttpResponse r, s1) \<Rightarrow> (case retry_wait env attempt r of
            None \<Rightarrow> (Inr r, waits, s1)
          | Some w \<Rightarrow> request_loop env server rq (Suc attempt) k (Some r) last_exc (waits @ [w]) s1))"

definition github_request ::
  "client_env \<Rightarrow> (gh_request \<Rightarrow> 's \<Rightarrow> http_answer \<times> 's) \<Rightarrow> gh_request \<Rightarrow> 's
   \<Rightarrow> (string \<times> string + http_response) \<times> pyfloat list \<times> 's" where
  "github_request env server rq s = request_loop env server rq 0 HTTP_RETRY_MAX None ([], []) [] s"

section \<open>Secrets\<close>

text \<open>The file system: the resolved path of a name below the root, as its components, and files.\<close>

record secret_files =
  sf_root :: "string list"
  sf_resolve :: "string \<Rightarrow> string list"
  sf_is_file :: "string list \<Rightarrow> bool"
  sf_read :: "string list \<Rightarrow> string option"

definition read_mounted_secret :: "secret_files \<Rightarrow> string \<Rightarrow> string option" where
  "read_mounted_secret fs name =
     (if name = [] then None
      else (let candidate = sf_resolve fs name in
        if \<not> prefix (sf_root fs) candidate then None
        else if \<not> sf_is_file fs candidate then None
        else (case sf_read fs candidate of
            None \<Rightarrow> None
          | Some content \<Rightarrow> if py_strip content = [] then None else Some (py_strip content))))"

section \<open>Registering a webhook\<close>

datatype register_status = HookCreated | HookExists | HookSkipped | HookFailed

text \<open>\<open>rw_persists\<close> tells whether the column of errors can be written; \<open>rw_redact\<close> is the redaction and
  \<open>rw_repr\<close> Python's \<open>repr\<close> of a string.\<close>

record register_env =
  rw_client :: client_env
  rw_base_url :: "string option"
  rw_secrets :: secret_files
  rw_persists :: bool
  rw_redact :: "string \<Rightarrow> string"
  rw_repr :: "string \<Rightarrow> string"

definition em_dash :: string where "em_dash = [CHR 0xE2, CHR 0x80, CHR 0x94]"

definition rstrip_slash :: "string \<Rightarrow> string" where
  "rstrip_slash s = rev (dropWhile (\<lambda>c. c = CHR ''/'') (rev s))"

definition hook_url :: "register_env \<Rightarrow> string option" where
  "hook_url env = (case rw_base_url env of
       None \<Rightarrow> None | Some base \<Rightarrow> if base = [] then None else Some (rstrip_slash base @ ''/webhooks/github''))"

text \<open>The column \<open>webhook_registration_error\<close>, by the id of the row.\<close>

definition persist_error :: "register_env \<Rightarrow> string \<Rightarrow> string \<Rightarrow> (string \<Rightarrow> string option) \<Rightarrow> string \<Rightarrow> string option" where
  "persist_error env i message errors = (if rw_persists env then errors(i := Some (rw_redact env message)) else errors)"

definition clear_error :: "register_env \<Rightarrow> string \<Rightarrow> (string \<Rightarrow> string option) \<Rightarrow> string \<Rightarrow> string option" where
  "clear_error env i errors = (if rw_persists env then errors(i := None) else errors)"

definition hooks_api :: "string \<Rightarrow> string \<Rightarrow> string" where
  "hooks_api owner rp = ''https://api.github.com/repos/'' @ owner @ ''/'' @ rp @ ''/hooks''"

definition names_hook :: "string \<Rightarrow> pyval \<Rightarrow> bool" where
  "names_hook target_url hook = (case hook of
       PDict h \<Rightarrow> (case obj_get h ''config'' of PDict c \<Rightarrow> obj_get c ''url'' = PStr target_url | _ \<Rightarrow> False)
     | _ \<Rightarrow> False)"

definition hook_payload :: "string \<Rightarrow> string \<Rightarrow> obj" where
  "hook_payload target_url secret =
     [(''name'', PStr ''web''), (''active'', PBool True), (''events'', PList [PStr ''pull_request'']),
      (''config'', PDict [(''url'', PStr target_url), (''content_type'', PStr ''json''), (''secret'', PStr secret),
        (''insecure_ssl'', PStr ''0'')])]"

definition create_error :: "int \<Rightarrow> string" where
  "create_error status =
     (if status = 404 then ''GitHub returned 404 '' @ em_dash @ '' PAT lacks admin:repo_hook scope or the configured repo doesn''
         @ [CHR 0x27] @ ''t exist.''
      else if status = 422 then ''GitHub returned 422 '' @ em_dash @ '' webhook payload was rejected. ''
         @ ''Inspect the hook config (URL reachable from GitHub?).''
      else if 500 \<le> status then ''GitHub returned '' @ int_str status @ '' '' @ em_dash @ '' transient. ''
         @ ''Re-enqueue the job manually after GitHub'' @ [CHR 0x27] @ ''s status recovers.''
      else ''GitHub returned '' @ int_str status @ '' creating webhook.'')"

definition create_hook ::
  "register_env \<Rightarrow> (gh_request \<Rightarrow> 's \<Rightarrow> http_answer \<times> 's) \<Rightarrow> string \<Rightarrow> string \<Rightarrow> string \<Rightarrow> string
   \<Rightarrow> (string \<Rightarrow> string option) \<times> 's \<Rightarrow> register_status \<times> (string \<Rightarrow> string option) \<times> 's" where
  "create_hook env server i api target_url secret s =
     (case github_request (rw_client env) server \<lparr>rq_verb = ''POST'', rq_url = api, rq_body = Some (hook_payload target_url secret)\<rparr> (snd s) of
        (Inl (c, _), _, s1) \<Rightarrow> (HookFailed, persist_error env i (''GitHub unreachable '' @ em_dash @ '' network error: '' @ c) (fst s), s1)
      | (Inr r, _, s1) \<Rightarrow>
          if hr_status r = 200 \<or> hr_status r = 201 then (HookCreated, clear_error env i (fst s), s1)
          else (HookFailed, persist_error env i (create_error (hr_status r)) (fst s), s1))"

definition register_with ::
  "register_env \<Rightarrow> (gh_request \<Rightarrow> 's \<Rightarrow> http_answer \<times> 's) \<Rightarrow> string \<Rightarrow> string \<Rightarrow> string \<Rightarrow> string
   \<Rightarrow> (string \<Rightarrow> string option) \<times> 's \<Rightarrow> register_status \<times> (string \<Rightarrow> string option) \<times> 's" where
  "register_with env server i api target_url secret s =
     (case github_request (rw_client env) server \<lparr>rq_verb = ''GET'', rq_url = api @ ''?per_page=100'', rq_body = None\<rparr> (snd s) of
        (Inl (c, _), _, s1) \<Rightarrow> (HookFailed, persist_error env i (''GitHub unreachable '' @ em_dash @ '' network error: '' @ c) (fst s), s1)
      | (Inr r, _, s1) \<Rightarrow>
        (if 400 \<le> hr_status r
         then (HookFailed, persist_error env i (''GitHub returned '' @ int_str (hr_status r) @ '' listing webhooks '' @ em_dash
             @ '' check PAT scope (admin:repo_hook required).'') (fst s), s1)
         else (case hr_json r of
             None \<Rightarrow> (HookFailed, persist_error env i ''GitHub returned non-JSON response listing webhooks.'' (fst s), s1)
           | Some hooks \<Rightarrow>
             (if (\<exists>hs. hooks = PList hs \<and> list_ex (names_hook target_url) hs)
              then (HookExists, clear_error env i (fst s), s1)
              else create_hook env server i api target_url secret (fst s, s1)))))"

definition register_webhook ::
  "register_env \<Rightarrow> (gh_request \<Rightarrow> 's \<Rightarrow> http_answer \<times> 's) \<Rightarrow> config_repo list \<Rightarrow> string
   \<Rightarrow> (string \<Rightarrow> string option) \<times> 's \<Rightarrow> register_status \<times> (string \<Rightarrow> string option) \<times> 's" where
  "register_webhook env server repos i s =
     (let failed = (\<lambda>m. (HookFailed, persist_error env i m (fst s), snd s)) in
      case find (\<lambda>row. cr_id row = i) repos of
        None \<Rightarrow> (HookSkipped, s)
      | Some row \<Rightarrow>
        (case cr_webhook_secret_ref row of
           None \<Rightarrow> (HookSkipped, s)
         | Some ref \<Rightarrow>
           (if ref = [] then (HookSkipped, s)
            else (case validate_repo_url (cr_repo_url row) of
                None \<Rightarrow> failed (''Unsupported provider: repo_url '' @ rw_repr env (cr_repo_url row)
                    @ '' is not a GitHub URL; GitLab + Bitbucket arrive at MVP3'')
              | Some (owner, rp) \<Rightarrow>
                (case read_mounted_secret (rw_secrets env) (cr_auth_ref row) of
                   None \<Rightarrow> failed (''PAT not configured: ./secrets/'' @ cr_auth_ref row @ '' is missing or empty.'')
                 | Some token \<Rightarrow> (case read_mounted_secret (rw_secrets env) ref of
                     None \<Rightarrow> failed (''Webhook secret not configured: ./secrets/'' @ ref @ '' is missing or empty.'')
                   | Some secret \<Rightarrow> (case hook_url env of
                       None \<Rightarrow> failed (''RELYLOOP_BASE_URL is not configured; GitHub cannot reach this install. ''
                         @ ''Set Settings.relyloop_base_url and re-enqueue.'')
                     | Some target_url \<Rightarrow> register_with env server i (hooks_api owner rp) target_url secret s)))))))"

section \<open>Lemmas\<close>

text \<open>The server after a request was sent \<open>n\<close> times.\<close>

fun sent :: "(gh_request \<Rightarrow> 's \<Rightarrow> http_answer \<times> 's) \<Rightarrow> gh_request \<Rightarrow> nat \<Rightarrow> 's \<Rightarrow> 's" where
  "sent server rq 0 s = s"
| "sent server rq (Suc n) s = sent server rq n (snd (server rq s))"

lemma sent_snoc: "sent server rq (Suc n) s = snd (server rq (sent server rq n s))"
  by (induction n arbitrary: s) auto

lemma backoff_range: "attempt < HTTP_RETRY_MAX \<Longrightarrow> fle (Fin 0) (HTTP_RETRY_BACKOFF_S ! attempt) \<and> fle (HTTP_RETRY_BACKOFF_S ! attempt) (Fin 60)"
  by (auto simp: HTTP_RETRY_MAX_def HTTP_RETRY_BACKOFF_S_def less_Suc_eq numeral_3_eq_3 nth_Cons')

lemma clamp_range: "fle (Fin 0) x \<Longrightarrow> fle (Fin 0) (fmin x (Fin 60)) \<and> fle (fmin x (Fin 60)) (Fin 60)"
  by (cases x) (auto simp: fmin_def)

lemma fmax_nonneg: "fle (Fin 0) (fmax (Fin 0) x)"
  by (cases x) (auto simp: fmax_def)

lemma retry_wait_range:
  assumes "retry_wait env attempt r = Some w" "attempt < HTTP_RETRY_MAX"
  shows "fle (Fin 0) w \<and> fle w (Fin 60)"
proof -
  have after: "fle (Fin 0) (parse_retry_after env r)" "fle (Fin 0) (parse_rate_limit_reset env attempt r)"
    using fmax_nonneg by (auto simp: parse_retry_after_def parse_rate_limit_reset_def Let_def split: option.splits)
  show ?thesis
    using assms(1) backoff_range [OF assms(2)] clamp_range [OF after(1)] clamp_range [OF after(2)]
    by (auto simp: retry_wait_def RATE_LIMIT_CLAMP_S_def split: if_splits)
qed

lemma request_loop_spec:
  assumes "request_loop env server rq attempt k last_response last_exc waits s = (res, waits', s')"
    "attempt + k = HTTP_RETRY_MAX" "\<forall>w\<in>set waits. fle (Fin 0) w \<and> fle w (Fin 60)" "length waits = attempt"
    "\<forall>r. last_response = Some r \<longrightarrow> (\<exists>a. retry_wait env a r \<noteq> None)"
  shows "(\<exists>n\<le>k. s' = sent server rq n s \<and> (0 < k \<longrightarrow> 0 < n)) \<and> length waits' \<le> HTTP_RETRY_MAX \<and>
    (\<forall>w\<in>set waits'. fle (Fin 0) w \<and> fle w (Fin 60)) \<and>
    (\<forall>r. res = Inr r \<and> length waits' < HTTP_RETRY_MAX \<longrightarrow> retry_wait env (length waits') r = None) \<and>
    (\<forall>r. res = Inr r \<and> length waits' = HTTP_RETRY_MAX \<longrightarrow> (\<exists>a. retry_wait env a r \<noteq> None)) \<and>
    (\<forall>e. res = Inl e \<longrightarrow> length waits' = HTTP_RETRY_MAX)"
  using assms
proof (induction env server rq attempt k last_response last_exc waits s rule: request_loop.induct)
  case (1 env server rq attempt last_response last_exc waits s)
  then show ?case by (auto split: option.splits intro: exI [of _ 0])
next
  case (2 env server rq attempt k last_response last_exc waits s)
  have lt: "attempt < HTTP_RETRY_MAX" using 2(4) by simp
  obtain a s1 where a: "server rq s = (a, s1)" by (cases "server rq s")
  have step: "(\<exists>n\<le>Suc k. s' = sent server rq n s \<and> (0 < Suc k \<longrightarrow> 0 < n))" if "\<exists>n\<le>k. s' = sent server rq n s1 \<and> P n" for P
  proof -
    from that obtain n where "n \<le> k" "s' = sent server rq n s1" by blast
    then show ?thesis using a by (intro exI [of _ "Suc n"]) simp
  qed
  show ?case
  proof (cases a)
    case (NetworkError c e)
    then have "request_loop env server rq (Suc attempt) k last_response (c, e) (waits @ [HTTP_RETRY_BACKOFF_S ! attempt]) s1 = (res, waits', s')"
      using 2(3) a by simp
    note IH = 2(1) [OF a [symmetric] NetworkError this]
    have "\<forall>w\<in>set (waits @ [HTTP_RETRY_BACKOFF_S ! attempt]). fle (Fin 0) w \<and> fle w (Fin 60)"
      using 2(5) backoff_range [OF lt] by auto
    from IH [OF _ this _ 2(7)] 2(4,6) step show ?thesis by auto
  next
    case (HttpResponse r)
    show ?thesis
    proof (cases "retry_wait env attempt r")
      case None
      then have "res = Inr r" "waits' = waits" "s' = s1" using 2(3) a HttpResponse by auto
      then show ?thesis using None 2(4,5,6) lt a by (auto intro: exI [of _ 1])
    next
      case (Some w)
      then have "request_loop env server rq (Suc attempt) k (Some r) last_exc (waits @ [w]) s1 = (res, waits', s')"
        using 2(3) a HttpResponse by simp
      note IH = 2(2) [OF a [symmetric] HttpResponse Some this]
      have range: "\<forall>w\<in>set (waits @ [w]). fle (Fin 0) w \<and> fle w (Fin 60)"
        using 2(5) retry_wait_range [OF Some lt] by auto
      have left: "Suc attempt + k = HTTP_RETRY_MAX" and len: "length (waits @ [w]) = Suc attempt" using 2(4,6) by simp_all
      have retried: "\<forall>x. Some r = Some x \<longrightarrow> (\<exists>a. retry_wait env a x \<noteq> None)" using Some by auto
      note rest = IH [OF left range len retried]
      have "\<exists>n\<le>Suc k. s' = sent server rq n s \<and> (0 < Suc k \<longrightarrow> 0 < n)" by (rule step [OF conjunct1 [OF rest]])
      then show ?thesis using conjunct2 [OF rest] by (rule conjI)
    qed
  qed
qed

text \<open>The laws of the server for hooks: a list request changes nothing and, when it is answered with
  success, lists what there is; a create request that is answered with 200 or 201 adds one hook, one
  that is not answered so adds none.\<close>

definition hook_server ::
  "(gh_request \<Rightarrow> 's \<Rightarrow> http_answer \<times> 's) \<Rightarrow> string \<Rightarrow> ('s \<Rightarrow> nat) \<Rightarrow> bool" where
  "hook_server server target_url hooks =
     ((\<forall>rq s. rq_verb rq = ''GET'' \<longrightarrow> snd (server rq s) = s \<and>
        (\<forall>r. fst (server rq s) = HttpResponse r \<and> hr_status r < 400 \<longrightarrow>
           (\<forall>v. hr_json r = Some v \<longrightarrow> (\<exists>hs. v = PList hs \<and> (list_ex (names_hook target_url) hs \<longleftrightarrow> 0 < hooks s))))) \<and>
      (\<forall>rq s. rq_verb rq = ''POST'' \<longrightarrow>
        hooks (snd (server rq s)) = hooks s +
          (case fst (server rq s) of HttpResponse r \<Rightarrow> if hr_status r = 200 \<or> hr_status r = 201 then 1 else 0 | _ \<Rightarrow> 0)))"

lemma hook_server_get: "hook_server server url hooks \<Longrightarrow> rq_verb rq = ''GET'' \<Longrightarrow> snd (server rq s) = s"
  unfolding hook_server_def by blast

lemma hook_server_list:
  "hook_server server url hooks \<Longrightarrow> rq_verb rq = ''GET'' \<Longrightarrow> fst (server rq s) = HttpResponse r \<Longrightarrow> hr_status r < 400 \<Longrightarrow>
    hr_json r = Some v \<Longrightarrow> \<exists>hs. v = PList hs \<and> (list_ex (names_hook url) hs \<longleftrightarrow> 0 < hooks s)"
  unfolding hook_server_def by blast

lemma hook_server_post:
  "hook_server server url hooks \<Longrightarrow> rq_verb rq = ''POST'' \<Longrightarrow> server rq s = (a, s1) \<Longrightarrow>
    hooks s1 = hooks s + (case a of HttpResponse r \<Rightarrow> if hr_status r = 200 \<or> hr_status r = 201 then 1 else 0 | _ \<Rightarrow> 0)"
proof -
  assume h: "hook_server server url hooks" and rq: "rq_verb rq = ''POST''" and a: "server rq s = (a, s1)"
  have "hooks (snd (server rq s)) = hooks s +
      (case fst (server rq s) of HttpResponse r \<Rightarrow> if hr_status r = 200 \<or> hr_status r = 201 then 1 else 0 | _ \<Rightarrow> 0)"
    using h rq unfolding hook_server_def by blast
  then show ?thesis by (simp add: a)
qed

lemma loop_get:
  assumes "hook_server server url hooks" "rq_verb rq = ''GET''"
  shows "request_loop env server rq attempt k lr le waits s = (res, waits', s') \<Longrightarrow>
    (\<forall>r. lr = Some r \<longrightarrow> fst (server rq s) = HttpResponse r \<or> 400 \<le> hr_status r) \<Longrightarrow>
    s' = s \<and> (\<forall>r. res = Inr r \<longrightarrow> fst (server rq s) = HttpResponse r \<or> 400 \<le> hr_status r)"
proof (induction k arbitrary: attempt lr le waits)
  case 0
  then show ?case by (auto split: option.splits)
next
  case (Suc k)
  have same: "snd (server rq s) = s" using hook_server_get [OF assms] .
  obtain a where a: "server rq s = (a, s)" using same by (metis prod.collapse)
  show ?case
  proof (cases a)
    case (NetworkError c e)
    then have "request_loop env server rq (Suc attempt) k lr (c, e) (waits @ [HTTP_RETRY_BACKOFF_S ! attempt]) s = (res, waits', s')"
      using Suc.prems(1) a by simp
    from Suc.IH [OF this Suc.prems(2)] show ?thesis .
  next
    case (HttpResponse r)
    show ?thesis
    proof (cases "retry_wait env attempt r")
      case None
      then show ?thesis using Suc.prems a HttpResponse by auto
    next
      case (Some w)
      then have "request_loop env server rq (Suc attempt) k (Some r) le (waits @ [w]) s = (res, waits', s')"
        using Suc.prems(1) a HttpResponse by simp
      from Suc.IH [OF this] show ?thesis using a HttpResponse by simp
    qed
  qed
qed

lemma retried_not_ok: "retry_wait env a r \<noteq> None \<Longrightarrow> \<not> (hr_status r = 200 \<or> hr_status r = 201)"
  by (auto simp: retry_wait_def)

lemma loop_post:
  assumes "hook_server server url hooks" "rq_verb rq = ''POST''"
  shows "request_loop env server rq attempt k lr le waits s = (res, waits', s') \<Longrightarrow>
    (\<forall>r. lr = Some r \<longrightarrow> \<not> (hr_status r = 200 \<or> hr_status r = 201)) \<Longrightarrow>
    hooks s' = hooks s + (case res of Inr r \<Rightarrow> if hr_status r = 200 \<or> hr_status r = 201 then 1 else 0 | Inl _ \<Rightarrow> 0)"
proof (induction k arbitrary: attempt lr le waits s)
  case 0
  then show ?case by (auto split: option.splits)
next
  case (Suc k)
  obtain a s1 where a: "server rq s = (a, s1)" by (cases "server rq s")
  have law: "hooks s1 = hooks s + (case a of HttpResponse r \<Rightarrow> if hr_status r = 200 \<or> hr_status r = 201 then 1 else 0 | _ \<Rightarrow> 0)"
    by (rule hook_server_post [OF assms a])
  show ?case
  proof (cases a)
    case (NetworkError c e)
    then have "request_loop env server rq (Suc attempt) k lr (c, e) (waits @ [HTTP_RETRY_BACKOFF_S ! attempt]) s1 = (res, waits', s')"
      using Suc.prems(1) a by simp
    from Suc.IH [OF this Suc.prems(2)] show ?thesis using law NetworkError by simp
  next
    case (HttpResponse r)
    show ?thesis
    proof (cases "retry_wait env attempt r")
      case None
      then show ?thesis using Suc.prems a HttpResponse law by auto
    next
      case (Some w)
      then have "request_loop env server rq (Suc attempt) k (Some r) le (waits @ [w]) s1 = (res, waits', s')"
        using Suc.prems(1) a HttpResponse by simp
      moreover have "\<not> (hr_status r = 200 \<or> hr_status r = 201)" using retried_not_ok Some by blast
      ultimately show ?thesis using Suc.IH law HttpResponse by simp
    qed
  qed
qed

lemma register_with_hooks:
  assumes "hook_server server target_url hooks" "register_with env server i api target_url secret (errors, s) = (st, errors', s')"
  shows "hooks s' \<le> max 1 (hooks s) \<and> hooks s \<le> hooks s' \<and> (st \<in> {HookCreated, HookExists} \<longrightarrow> 0 < hooks s')"
proof -
  let ?get = "\<lparr>rq_verb = ''GET'', rq_url = api @ ''?per_page=100'', rq_body = None\<rparr>"
  let ?post = "\<lparr>rq_verb = ''POST'', rq_url = api, rq_body = Some (hook_payload target_url secret)\<rparr>"
  obtain res ws s1 where g: "github_request (rw_client env) server ?get s = (res, ws, s1)"
    by (cases "github_request (rw_client env) server ?get s")
  have s1: "s1 = s" "\<And>r. res = Inr r \<Longrightarrow> fst (server ?get s) = HttpResponse r \<or> 400 \<le> hr_status r"
    using loop_get [OF assms(1), of ?get] g by (auto simp: github_request_def)
  obtain res2 ws2 s2 where p: "github_request (rw_client env) server ?post s = (res2, ws2, s2)"
    by (cases "github_request (rw_client env) server ?post s")
  have s2: "hooks s2 = hooks s + (case res2 of Inr r \<Rightarrow> if hr_status r = 200 \<or> hr_status r = 201 then 1 else 0 | Inl _ \<Rightarrow> 0)"
    using loop_post [OF assms(1), of ?post] p by (auto simp: github_request_def)
  have listed: "\<exists>hs. v = PList hs \<and> (list_ex (names_hook target_url) hs \<longleftrightarrow> 0 < hooks s)"
    if "res = Inr r" "\<not> 400 \<le> hr_status r" "hr_json r = Some v" for r v
    using hook_server_list [OF assms(1), of ?get s r v] s1(2) [OF that(1)] that(2,3) by simp
  show ?thesis
  proof (cases "\<exists>r v. res = Inr r \<and> \<not> 400 \<le> hr_status r \<and> hr_json r = Some v")
    case True
    then obtain r hs where r: "res = Inr r" "\<not> 400 \<le> hr_status r" "hr_json r = Some (PList hs)"
      "list_ex (names_hook target_url) hs \<longleftrightarrow> 0 < hooks s" using listed by metis
    show ?thesis
    proof (cases "list_ex (names_hook target_url) hs")
      case True
      then show ?thesis using assms(2) g r s1(1) by (auto simp: register_with_def)
    next
      case False
      then have "create_hook env server i api target_url secret (errors, s) = (st, errors', s')"
        using assms(2) g r s1(1) by (simp add: register_with_def)
      then show ?thesis using False r(4) p s2 by (auto simp: create_hook_def split: sum.splits if_splits)
    qed
  next
    case False
    then have "s' = s" "st = HookFailed" using assms(2) g s1(1)
      by (auto simp: register_with_def split: sum.splits option.splits if_splits)
    then show ?thesis by simp
  qed
qed

lemma register_webhook_cases:
  assumes "register_webhook env server repos i s = (st, s')"
  shows "(snd s' = snd s \<and> st \<in> {HookSkipped, HookFailed}) \<or>
    (\<exists>owner rp target_url secret. hook_url env = Some target_url \<and>
       register_with env server i (hooks_api owner rp) target_url secret s = (st, s'))"
  using assms
  by (auto simp: register_webhook_def Let_def split: option.splits if_splits prod.splits)

text \<open>The deliveries of the job for one row, one after another, with what each answered.\<close>

fun register_runs ::
  "register_env \<Rightarrow> (gh_request \<Rightarrow> 's \<Rightarrow> http_answer \<times> 's) \<Rightarrow> config_repo list \<Rightarrow> string \<Rightarrow> nat
   \<Rightarrow> (string \<Rightarrow> string option) \<times> 's \<Rightarrow> register_status list \<times> (string \<Rightarrow> string option) \<times> 's" where
  "register_runs env server repos i 0 s = ([], s)"
| "register_runs env server repos i (Suc n) s =
     (let (st, s1) = register_webhook env server repos i s; (sts, s2) = register_runs env server repos i n s1 in (st # sts, s2))"

section \<open>A repository without hooks\<close>

definition demo_hook_server :: "string \<Rightarrow> gh_request \<Rightarrow> nat \<Rightarrow> http_answer \<times> nat" where
  "demo_hook_server url rq n =
     (if rq_verb rq = ''GET''
      then (HttpResponse \<lparr>hr_status = 200, hr_headers = [], hr_text = None,
         hr_json = Some (PList (replicate n (PDict [(''config'', PDict [(''url'', PStr url)])])))\<rparr>, n)
      else (HttpResponse \<lparr>hr_status = 201, hr_headers = [], hr_text = None, hr_json = None\<rparr>, Suc n))"

lemma demo_hook_server_ok: "hook_server (demo_hook_server url) url (\<lambda>n. n)"
  by (auto simp: hook_server_def demo_hook_server_def names_hook_def obj_get_def list_ex_iff)

definition demo_client :: client_env where
  "demo_client = \<lparr>ce_float_of_str = (\<lambda>_. None), ce_lower = id, ce_time = (\<lambda>_. Fin 0)\<rparr>"

definition demo_register :: register_env where
  "demo_register = \<lparr>rw_client = demo_client, rw_base_url = Some ''https://relyloop.example/'',
     rw_secrets = \<lparr>sf_root = [], sf_resolve = (\<lambda>n. [n]), sf_is_file = (\<lambda>_. True), sf_read = (\<lambda>_. Some ''t'')\<rparr>,
     rw_persists = True, rw_redact = id, rw_repr = id\<rparr>"

definition demo_repo :: config_repo where
  "demo_repo = \<lparr>cr_id = ''r'', cr_repo_url = ''https://github.com/acme/shop'', cr_auth_ref = ''pat'',
     cr_webhook_secret_ref = Some ''hook'', cr_last_merged_proposal_id = None\<rparr>"

section \<open>Properties\<close>

text \<open>A call of the API ends after at most three requests, whatever GitHub answers, with waits between
  zero and sixty seconds; an answer that is given back before the third wait is one that is not to
  be retried, and a network error is given back only after three attempts.\<close>

theorem requests_bounded:
  assumes "github_request env server rq s = (res, waits, s')"
  shows "(\<exists>n\<in>{1, 2, 3}. s' = sent server rq n s) \<and> length waits \<le> 3 \<and> (\<forall>w\<in>set waits. fle (Fin 0) w \<and> fle w (Fin 60)) \<and>
    (\<forall>r. res = Inr r \<and> length waits < 3 \<longrightarrow> retry_wait env (length waits) r = None) \<and>
    (\<forall>e. res = Inl e \<longrightarrow> length waits = 3)"
proof -
  note spec = request_loop_spec [OF assms [unfolded github_request_def], simplified, unfolded HTTP_RETRY_MAX_def]
  have "\<exists>n\<in>{1, 2, 3}. s' = sent server rq n s"
  proof -
    obtain n where "n \<le> 3" "0 < n" "s' = sent server rq n s" using spec by auto
    moreover have "n \<in> {1, 2, 3}" using calculation(1,2) by auto
    ultimately show ?thesis by blast
  qed
  then show ?thesis using spec by auto
qed

theorem requests_bounded_witness:
  "\<exists>r s'. github_request demo_client (demo_hook_server ''u'') \<lparr>rq_verb = ''POST'', rq_url = [], rq_body = None\<rparr> 0 = (Inr r, [], s') \<and>
     (\<exists>n\<in>{1, 2, 3}. s' = sent (demo_hook_server ''u'') \<lparr>rq_verb = ''POST'', rq_url = [], rq_body = None\<rparr> n 0)"
proof -
  have run: "github_request demo_client (demo_hook_server ''u'') \<lparr>rq_verb = ''POST'', rq_url = [], rq_body = None\<rparr> 0 =
      (Inr \<lparr>hr_status = 201, hr_headers = [], hr_text = None, hr_json = None\<rparr>, [], 1)"
    by (simp add: github_request_def HTTP_RETRY_MAX_def numeral_3_eq_3 demo_hook_server_def retry_wait_def)
  from requests_bounded [OF run] run show ?thesis by blast
qed



end
