(* ===== verification/Pr_Body.thy ===== *)
theory Pr_Body
  imports Confidence Github_Client Normalizers
begin

text \<open>
  The text of a pull request (\<open>backend/workers/git_pr.py\<close>, the \<open>_render\<close> functions) and the reference
  snippets it embeds (\<open>backend/app/domain/study/normalizers.py\<close>, \<open>build_python_snippet\<close> and
  \<open>build_js_snippet\<close>). Formatting of numbers and \<open>str\<close> of a value are parameters; a renderer is \<open>None\<close>
  where the code raises. Texts are the bytes of their UTF-8 form.
\<close>

section \<open>Characters and lines\<close>

definition dq :: string where "dq = [CHR 0x22]"
definition sq :: string where "sq = [CHR 0x27]"
definition bsl :: string where "bsl = [CHR 0x5C]"
definition tick :: string where "tick = [CHR 0x60]"
definition fence :: string where "fence = tick @ tick @ tick"
definition arrow :: string where "arrow = [CHR 0xE2, CHR 0x86, CHR 0x92]"
definition middle_dot :: string where "middle_dot = [CHR 0xC2, CHR 0xB7]"
definition sigma :: string where "sigma = [CHR 0xCF, CHR 0x83]"

text \<open>\<open>sep.join(lines)\<close>.\<close>

fun join_with :: "string \<Rightarrow> string list \<Rightarrow> string" where
  "join_with sep [] = []"
| "join_with sep [x] = x"
| "join_with sep (x # y # ys) = x @ sep @ join_with sep (y # ys)"

definition unlines :: "string list \<Rightarrow> string" where "unlines = join_with [CHR 0x0A]"

definition quoted :: "string \<Rightarrow> string" where "quoted s = tick @ s @ tick"

section \<open>The snippets\<close>

definition ordered_steps :: "normalizer_step list \<Rightarrow> normalizer_step list" where
  "ordered_steps steps = filter (\<lambda>s. s \<in> set steps) STEP_ORDER"

definition contraction_dict_lines :: "string \<Rightarrow> string list" where
  "contraction_dict_lines indent = map (\<lambda>(k, v). indent @ dq @ k @ dq @ '': '' @ dq @ v @ dq @ '','') CONTRACTIONS_RAW"

text \<open>\<open>repr\<close> of the punctuation, in single quotes: only the backslash is doubled.\<close>

definition punctuation_repr :: string where
  "punctuation_repr = sq @ concat (map (\<lambda>c. if c = 0x5C then bsl @ bsl else [char_of c]) PUNCTUATION_TO_STRIP) @ sq"

definition python_head :: "normalizer_step list \<Rightarrow> string list" where
  "python_head ordered =
     (let needs_contractions = expand_contractions_en \<in> set ordered;
          needs_punct = strip_punctuation \<in> set ordered;
          needs_re = needs_contractions \<or> needs_punct \<or> collapse_whitespace \<in> set ordered;
          head = (if needs_re then [''import re'', []] else []) @
            (if needs_punct then [''_PUNCTUATION = '' @ punctuation_repr,
               ''_PUNCTUATION_PATTERN = re.compile('' @ dq @ ''['' @ dq @ '' + re.escape(_PUNCTUATION) + '' @ dq @ '']'' @ dq @ '')''] else []) @
            (if needs_contractions then [''_CONTRACTIONS = {''] @ contraction_dict_lines ''    '' @ [''}''] @
               [''_CONTRACTION_PATTERN = re.compile('' @ [CHR 0x0A] @
                ''    r'' @ dq @ bsl @ ''b('' @ dq @ '' + '' @ dq @ ''|'' @ dq @ ''.join(map(re.escape, ''
                @ ''sorted(_CONTRACTIONS, key=len, reverse=True))) + r'' @ dq @ '')'' @ bsl @ ''b'' @ dq @ [CHR 0x0A] @ '')''] else [])
      in if head \<noteq> [] \<and> last head \<noteq> [] then head @ [[], []] else head)"

fun python_step :: "normalizer_step \<Rightarrow> string list" where
  "python_step lowercase = [''    q = q.lower()'']"
| "python_step strip_punctuation = [''    q = _PUNCTUATION_PATTERN.sub('' @ dq @ dq @ '', q)'']"
| "python_step expand_contractions_en =
     [''    q = q.replace('' @ dq @ bsl @ ''u2019'' @ dq @ '', '' @ dq @ sq @ dq @ '')'',
      ''    q = _CONTRACTION_PATTERN.sub(lambda m: _CONTRACTIONS[m.group(1)], q)'']"
| "python_step expand_contractions_custom = [''    # (custom contractions reserved '' @ em_dash @ '' no-op)'']"
| "python_step collapse_whitespace = [''    q = re.sub(r'' @ dq @ bsl @ ''s+'' @ dq @ '', '' @ dq @ '' '' @ dq @ '', q)'']"
| "python_step trim = [''    q = q.strip()'']"

definition build_python_snippet :: "normalizer_step list \<Rightarrow> string" where
  "build_python_snippet steps =
     (let ordered = ordered_steps steps
      in unlines (python_head ordered @ [''def normalize_query(query_text: str) -> str:'', ''    q = query_text''] @
           concat (map python_step ordered) @ [''    return q'']) @ [CHR 0x0A])"

fun js_step :: "normalizer_step \<Rightarrow> string list" where
  "js_step lowercase = [''  q = q.toLowerCase();'']"
| "js_step strip_punctuation = [''  q = q.replace(PUNCTUATION_REGEX, '' @ dq @ dq @ '');'']"
| "js_step expand_contractions_en =
     [''  q = q.replace(/'' @ bsl @ ''u2019/g, '' @ dq @ sq @ dq @ '');'', ''  q = q.replace(PATTERN, (m) => CONTRACTIONS[m]);'']"
| "js_step expand_contractions_custom = [''  // (custom contractions reserved '' @ em_dash @ '' no-op)'']"
| "js_step collapse_whitespace = [''  q = q.replace(/'' @ bsl @ ''s+/g, '' @ dq @ '' '' @ dq @ '');'']"
| "js_step trim = [''  q = q.trim();'']"

definition build_js_snippet :: "normalizer_step list \<Rightarrow> string" where
  "build_js_snippet steps =
     (let ordered = ordered_steps steps;
          punct_re_class = concat (map (\<lambda>c. bsl @ [char_of c]) PUNCTUATION_TO_STRIP)
      in unlines ([''function normalizeQuery(queryText) {'', ''  let q = queryText;''] @
           (if strip_punctuation \<in> set ordered then [''  const PUNCTUATION_REGEX = /['' @ punct_re_class @ '']/g;''] else []) @
           (if expand_contractions_en \<in> set ordered then [''  const CONTRACTIONS = {''] @ contraction_dict_lines ''    '' @ [''  };'',
              ''  const KEYS = Object.keys(CONTRACTIONS).sort((a, b) => b.length - a.length);'',
              ''  const PATTERN = new RegExp('' @ dq @ bsl @ bsl @ ''b('' @ dq @ '' + KEYS.join('' @ dq @ ''|'' @ dq @ '') + ''
                @ dq @ '')'' @ bsl @ bsl @ ''b'' @ dq @ '', '' @ dq @ ''g'' @ dq @ '');''] else []) @
           concat (map js_step ordered) @ [''  return q;'', ''}'']) @ [CHR 0x0A])"

section \<open>The sections of the body\<close>

record formats =
  fm_fixed3 :: "pyfloat \<Rightarrow> string"
  fm_signed1 :: "pyval \<Rightarrow> string option"
  fm_str :: "pyval \<Rightarrow> string"

definition against_str :: "comparison_against \<Rightarrow> string" where
  "against_str a = (case a of AgainstRunnerUp \<Rightarrow> ''runner_up'' | AgainstBaseline \<Rightarrow> ''baseline'')"

definition gap_str :: "runner_up_classification \<Rightarrow> string" where
  "gap_str c = (case c of RobustPlateau \<Rightarrow> ''robust_plateau'' | SharpPeak \<Rightarrow> ''sharp_peak'')"

definition regime_str :: "convergence_regime \<Rightarrow> string" where
  "regime_str r = (case r of EarlyHeld \<Rightarrow> ''early_held'' | LateRising \<Rightarrow> ''late_rising'' | Noisy \<Rightarrow> ''noisy'')"

definition render_confidence_section :: "formats \<Rightarrow> confidence_shape \<Rightarrow> string list" where
  "render_confidence_section fm c =
     (let headline = cf_headline c;
          metric_label = (case hl_k headline of Some k \<Rightarrow> hl_metric headline @ ''@'' @ int_str k | None \<Rightarrow> hl_metric headline)
      in [''## Confidence''] @
         (case cf_ci_95 c of None \<Rightarrow> []
          | Some ci \<Rightarrow> (let n_q = (case hl_n_queries headline of Some n \<Rightarrow> n | None \<Rightarrow> ci_n_samples ci)
              in [''- '' @ metric_label @ '': '' @ fm_fixed3 fm (hl_value headline) @ '' (95% CI '' @ fm_fixed3 fm (ci_low ci) @ ''-'' @
                  fm_fixed3 fm (ci_high ci) @ '', N='' @ nat_str n_q @ '' queries)''])) @
         (case cf_per_query_outcomes c of None \<Rightarrow> []
          | Some po \<Rightarrow>
              [''- Queries: '' @ nat_str (po_improved po) @ '' improved '' @ middle_dot @ '' '' @ nat_str (po_unchanged po) @ '' unchanged '' @
               middle_dot @ '' '' @ nat_str (po_regressed po) @ '' regressed (vs '' @ against_str (po_comparison_against po) @ '')''] @
              (if 0 < po_regressed po \<and> po_top_regressors po \<noteq> []
               then [''- Queries that regressed: '' @ join_with ('' '' @ middle_dot @ '' '')
                 (map (\<lambda>row. quoted (rr_query_text row) @ '' ('' @ fm_fixed3 fm (rr_comparison_score row) @ '' '' @ arrow @ '' '' @
                    fm_fixed3 fm (rr_winner_score row) @ '')'') (po_top_regressors po))] else [])) @
         (case cf_runner_up_gap c of None \<Rightarrow> []
          | Some gap \<Rightarrow> [''- Runner-up gap '' @ fm_fixed3 fm (rg_value gap) @ '' ('' @ gap_str (rg_classification gap) @ '')'']) @
         (case cf_late_trial_stddev c of None \<Rightarrow> []
          | Some s \<Rightarrow> [''- Late-trial 1'' @ sigma @ '' = '' @ fm_fixed3 fm (ls_value s)]) @
         (case cf_convergence c of None \<Rightarrow> []
          | Some conv \<Rightarrow> [''- Convergence: '' @ regime_str (cv_regime conv) @ '' (best at trial '' @ int_str (cv_best_at_trial conv) @
              '' of '' @ int_str (cv_total_trials conv) @ '')'']) @ [[]])"

definition render_normalizer_requirement :: "pyval \<Rightarrow> string list" where
  "render_normalizer_requirement choice =
     (let steps = (case choice of PStr s \<Rightarrow> (case steps_for_label s of Some xs \<Rightarrow> xs | None \<Rightarrow> []) | _ \<Rightarrow> [])
      in [''## Operator-side requirement'', []] @
         (if steps = [] then [''**Chosen normalizer:** '' @ quoted ''none'' @ ''. No production-side change is '' @
             ''required '' @ em_dash @ '' the loop confirmed the un-normalized query already wins.'', []]
          else [''RelyLoop measured the gain above against a query-time normalizer it '' @
              ''applied before the query reached the engine. To reproduce the gain in '' @
              ''production, your query-serving layer **MUST** apply the same normalizer '' @
              ''to incoming queries before they hit the engine.'', [],
             ''**Chosen normalizer:** '' @ quoted (case choice of PStr s \<Rightarrow> s | _ \<Rightarrow> []), [],
             ''Reference implementation '' @ em_dash @ '' apply the SAME steps in your query layer:'', [],
             ''### Python'', [], fence @ ''python'', build_python_snippet steps, fence, [],
             ''### JavaScript / TypeScript'', [], fence @ ''javascript'', build_js_snippet steps, fence, []]))"

text \<open>A row of the table of changes; \<open>change.get\<close> raises when the change is no dict.\<close>

definition change_row :: "formats \<Rightarrow> string \<times> pyval \<Rightarrow> string option" where
  "change_row fm p = (case snd p of
       PDict change \<Rightarrow> Some (''| '' @ quoted (fst p) @ '' | '' @ quoted (fm_str fm (obj_get change ''from'')) @ '' | '' @
         quoted (fm_str fm (obj_get change ''to'')) @ '' |'')
     | _ \<Rightarrow> None)"

definition all_some :: "'a option list \<Rightarrow> 'a list option" where
  "all_some xs = (if None \<in> set xs then None else Some (map the xs))"

definition diff_rows :: "formats \<Rightarrow> obj \<Rightarrow> string list option" where
  "diff_rows fm config_diff = all_some (map (change_row fm) (sort_key fst config_diff))"

definition diff_head :: "string list" where
  "diff_head = [''## Config diff'', [], ''| Param | From | To |'', ''|---|---|---|'']"

definition closing :: "string list" where
  "closing = [''---'', ''Opened by RelyLoop. Reject in the UI to close this PR.'']"

definition delta_line :: "formats \<Rightarrow> string \<times> pyval \<Rightarrow> string option" where
  "delta_line fm p = (case snd p of
       PDict delta \<Rightarrow> map_option (\<lambda>pct_str. ''- '' @ quoted (fst p) @ '': '' @ fm_str fm (obj_get delta ''baseline'') @ '' '' @ arrow @ '' '' @
           fm_str fm (obj_get delta ''achieved'') @ pct_str)
         (case obj_get delta ''delta_pct'' of PNone \<Rightarrow> Some []
          | pct \<Rightarrow> map_option (\<lambda>s. '' ('' @ s @ ''%)'') (fm_signed1 fm pct))
     | _ \<Rightarrow> None)"

definition requirement_lines :: "obj \<Rightarrow> string list option" where
  "requirement_lines config_diff = (case map_of config_diff ''query_normalizer'' of
       None \<Rightarrow> Some []
     | Some (PDict change) \<Rightarrow> Some (render_normalizer_requirement (obj_get change ''to''))
     | Some _ \<Rightarrow> None)"

text \<open>\<open>metric_delta\<close> is the column of the proposal, \<open>followups\<close> that of the digest, if there is one.\<close>

definition render_pr_body_study_backed ::
  "formats \<Rightarrow> obj option \<Rightarrow> study \<Rightarrow> pyval list option \<Rightarrow> obj \<Rightarrow> string \<Rightarrow> string option \<Rightarrow> confidence_shape option \<Rightarrow> string option" where
  "render_pr_body_study_backed fm metric_delta st followups config_diff chart_md base_url confidence =
     (case (all_some (map (delta_line fm) (case metric_delta of Some md \<Rightarrow> md | None \<Rightarrow> [])),
            diff_rows fm config_diff, requirement_lines config_diff) of
        (Some deltas, Some rows, Some requirement) \<Rightarrow> Some (unlines (
          [''# RelyLoop proposal'', [], ''**Study:** '' @ st_name st @ '' ('' @ quoted (st_id st) @ '')''] @
          (case base_url of Some b \<Rightarrow> if b = [] then [] else [''**Details:** '' @ rstrip_slash b @ ''/studies/'' @ st_id st] | None \<Rightarrow> []) @ [[]] @
          (if deltas \<noteq> [] then [''## Metric delta''] @ deltas @ [[]] else []) @
          (case confidence of Some c \<Rightarrow> render_confidence_section fm c | None \<Rightarrow> []) @
          diff_head @ rows @ [[]] @ requirement @
          (case followups of Some fs \<Rightarrow> if fs = [] then [] else [''## Suggested follow-ups''] @ map (\<lambda>f. ''- '' @ fm_str fm f) fs @ [[]] | None \<Rightarrow> []) @
          (if chart_md = [] then [] else [''## Parameter importance'', chart_md, []]) @ closing))
      | _ \<Rightarrow> None)"

definition render_pr_body_manual :: "formats \<Rightarrow> obj \<Rightarrow> string option" where
  "render_pr_body_manual fm config_diff =
     map_option (\<lambda>rows. unlines ([''# RelyLoop proposal (manual)'', [],
         ''This is a manual (hand-crafted) proposal '' @ em_dash @ '' no study metrics available.'', []] @
         diff_head @ rows @ [[]] @ closing))
       (diff_rows fm config_diff)"

text \<open>The order of \<open>sorted(..., reverse=True)\<close>: descending, equal ones in their order.\<close>

definition render_chart_markdown_fallback :: "formats \<Rightarrow> (string, pyfloat) pydict \<Rightarrow> string" where
  "render_chart_markdown_fallback fm parameter_importance =
     (if parameter_importance = [] then []
      else unlines ([''| Parameter | Importance |'', ''|---|---|''] @
        map (\<lambda>(param, x). ''| '' @ quoted param @ '' | '' @ fm_fixed3 fm x @ '' |'') (rev (sort_key snd (rev parameter_importance)))))"

section \<open>Lemmas\<close>

lemma all_some_map: "all_some (map f xs) = Some ys \<longleftrightarrow> map f xs = map Some ys"
proof
  assume "all_some (map f xs) = Some ys"
  then have "None \<notin> set (map f xs)" "ys = map (\<lambda>x. the (f x)) xs" by (auto simp: all_some_def split: if_splits)
  then show "map f xs = map Some ys" by (force simp: image_iff)
next
  assume eq: "map f xs = map Some ys"
  then have "None \<notin> set (map f xs)" by (simp del: set_map add: eq image_iff) (simp add: image_iff)
  then show "all_some (map f xs) = Some ys" unfolding all_some_def by (simp only: eq) (simp add: comp_def)
qed

lemma diff_rows_total: "(\<exists>rows. diff_rows fm d = Some rows) \<longleftrightarrow> (\<forall>(k, v)\<in>set d. \<exists>c. v = PDict c)"
proof -
  have some: "change_row fm p \<noteq> None \<longleftrightarrow> (case p of (k, v) \<Rightarrow> \<exists>c. v = PDict c)" for p
    by (cases p; cases "snd p") (simp_all add: change_row_def)
  have "(\<exists>rows. diff_rows fm d = Some rows) \<longleftrightarrow> None \<notin> change_row fm ` set d"
    by (simp add: diff_rows_def all_some_def)
  also have "\<dots> \<longleftrightarrow> (\<forall>p\<in>set d. change_row fm p \<noteq> None)" unfolding image_iff by metis
  also have "\<dots> \<longleftrightarrow> (\<forall>(k, v)\<in>set d. \<exists>c. v = PDict c)" by (simp only: some)
  finally show ?thesis .
qed

end
