(* ===== verification/Digest.thy ===== *)
theory Digest
  imports Followup_Worker Study_Views Template_Swap Trial_Worker Pr_Body
begin

text \<open>
  The worker that writes the digest of a completed study (\<open>backend/workers/digest.py\<close>, with
  \<open>backend/app/db/repo/digest.py\<close>): its checks in order, the recommended configuration, the prompt
  and the answer of the language model, the suggestions it keeps, and the transaction that writes
  the digest and the proposal. The rest of the world is the record \<open>digest_env\<close>; what other sessions
  commit is \<open>dv_meanwhile\<close>, before the job has its lock, and \<open>dv_during\<close>, while it waits for the model.
  A run that raises or stops leaves the store to them: the job's session is rolled back. The
  outcome tells which of its closing events the job logged; other log calls are left out.
\<close>

section \<open>Rows and environment\<close>

record template_info =
  ti_id :: string
  ti_name :: string
  ti_version :: int
  ti_engine_type :: string
  ti_declared_params :: "(string, string) pydict"
  ti_created_at :: int

record digest_entry =
  de_id :: string
  de_study_id :: string
  de_narrative :: string
  de_parameter_importance :: "(string, pyfloat) pydict"
  de_recommended_config :: obj
  de_suggested_followups :: "pyval list"
  de_generated_by :: string

text \<open>The store: the tables, the column \<open>metric_delta\<close> by proposal, the counter of costs and the jobs queued.\<close>

record digest_store =
  dt_db :: db
  dt_digests :: "digest_entry list"
  dt_metric_delta :: "string \<rightharpoonup> obj"
  dt_redis :: redis
  dt_followup_jobs :: "string list"

record prompt_input =
  pi_study_name :: string
  pi_cluster_name :: string
  pi_target :: string
  pi_query_set_name :: string
  pi_query_count :: nat
  pi_judgment_list_name :: string
  pi_rubric_summary :: string
  pi_baseline_metric :: "pyfloat option"
  pi_achieved_metric :: "pyfloat option"
  pi_top_trials :: "(int \<times> obj \<times> pyfloat option) list"
  pi_parameter_importance :: "(string, pyfloat) pydict"
  pi_recommended_config :: obj
  pi_dropped_template_params :: "string list"
  pi_include_recommendation :: bool
  pi_confidence :: "confidence_shape option"
  pi_convergence :: "study_convergence option"
  pi_parent_search_space :: pyval
  pi_parent_declared_params :: "(string, string) pydict"
  pi_available_templates :: "(string \<times> string \<times> int \<times> (string, string) pydict) list option"

text \<open>An answer of the model: its content, if any, and the tokens it reports, if it does.\<close>

datatype llm_reply = LlmFailed | LlmReply "string option" "(int \<times> int) option"

datatype arq_pool = PoolMissing | PoolRaises | PoolAccepts

record digest_env =
  dv_got_lock :: bool
  dv_api_key :: string
  dv_model :: string
  dv_capability :: "(string \<times> string) option"
  dv_budget :: pyfloat
  dv_peek_fails :: bool
  dv_redis_add :: "pyfloat \<Rightarrow> pyfloat \<Rightarrow> pyfloat"
  dv_redis_fault :: redis_fault
  dv_now :: int
  dv_open_optuna :: "sampler \<Rightarrow> pruner \<Rightarrow> string \<Rightarrow> pyval \<Rightarrow> bool"
  dv_importance :: "string \<Rightarrow> (string, pyfloat) pydict option"
  dv_templates :: "template_info list"
  dv_clusters :: "string \<Rightarrow> (string \<times> string) option"
  dv_query_sets :: "string \<Rightarrow> (string \<times> nat) option"
  dv_judgment_lists :: "string \<Rightarrow> (string \<times> string) option"
  dv_numpy :: numpy
  dv_column :: "string \<Rightarrow> per_query option"
  dv_queries :: "(string \<times> string) list"
  dv_render :: "prompt_input \<Rightarrow> string option"
  dv_llm :: "string \<Rightarrow> bool \<Rightarrow> llm_reply"
  dv_loads :: "string \<Rightarrow> pyval option"
  dv_strip :: "string \<Rightarrow> string"
  dv_validate :: "obj \<Rightarrow> string + followup"
  dv_repr :: "pyval \<Rightarrow> string"
  dv_str :: "pyval \<Rightarrow> string"
  dv_set_order :: "string list \<Rightarrow> string list"
  dv_error_text :: "space_error \<Rightarrow> string"
  dv_round1 :: "pyfloat \<Rightarrow> pyfloat"
  dv_proposal_id :: string
  dv_digest_id :: string
  dv_pool :: arq_pool
  dv_meanwhile :: "digest_store \<Rightarrow> digest_store"
  dv_during :: "digest_store \<Rightarrow> digest_store"

datatype digest_outcome = DigestStopped | DigestRaised | ZeroTrialsDigest | DigestComplete

definition TOP_K_TRIALS :: nat where "TOP_K_TRIALS = 10"

definition FAILURE_NARRATIVE :: string where
  "FAILURE_NARRATIVE = ''No successful trials in this study. Diagnose using the worker logs.''"

section \<open>The tables\<close>

definition get_digest_for_study :: "digest_store \<Rightarrow> string \<Rightarrow> digest_entry option" where
  "get_digest_for_study s i = find (\<lambda>e. de_study_id e = i) (dt_digests s)"

text \<open>\<open>None\<close> is the \<open>IntegrityError\<close>: the study has a digest already, the id is taken, or the study is gone.\<close>

definition create_digest :: "digest_entry \<Rightarrow> digest_store \<Rightarrow> digest_store option" where
  "create_digest e s =
     (if get_digest_for_study s (de_study_id e) \<noteq> None \<or> de_id e \<in> de_id ` set (dt_digests s) \<or>
         get_study (dt_db s) (de_study_id e) = None then None
      else Some (s\<lparr>dt_digests := dt_digests s @ [e]\<rparr>))"

definition get_query_template :: "template_info list \<Rightarrow> string \<Rightarrow> template_info option" where
  "get_query_template ts i = find (\<lambda>t. ti_id t = i) ts"

text \<open>\<open>list_query_templates\<close> with an engine and the default sort, the newest first, of equal times the greatest id.\<close>

definition list_query_templates :: "string \<Rightarrow> nat \<Rightarrow> template_info list \<Rightarrow> template_info list" where
  "list_query_templates engine n ts =
     take n (rev (sort_key ti_created_at (sort_key ti_id (filter (\<lambda>t. ti_engine_type t = engine) ts))))"

definition pending_row :: "digest_env \<Rightarrow> study \<Rightarrow> proposal" where
  "pending_row env st =
     \<lparr>pp_id = dv_proposal_id env, pp_study_id = Some (st_id st), pp_study_trial_id = st_best_trial_id st,
      pp_cluster_id = st_cluster_id st, pp_template_id = st_template_id st, pp_config_diff = [],
      pp_status = Pending, pp_pr_url = None, pp_pr_state = None, pp_pr_merged_at = None,
      pp_pr_open_error = None, pp_last_polled_at = None, pp_rejected_reason = None,
      pp_created_at = dv_now env\<rparr>"

text \<open>
  The pending proposal of the study, and the row the session has inserted for want of one. \<open>None\<close> is the
  \<open>IntegrityError\<close> of a taken id or of a study or trial that is gone, which nobody catches.
\<close>

definition ensure_pending_proposal :: "digest_env \<Rightarrow> study \<Rightarrow> db \<Rightarrow> (proposal \<times> proposal list) option" where
  "ensure_pending_proposal env st d =
     (case find (\<lambda>p. pp_study_id p = Some (st_id st) \<and> pp_status p = Pending) (db_proposals d) of
        Some p \<Rightarrow> Some (p, [])
      | None \<Rightarrow>
        (if get_proposal d (dv_proposal_id env) \<noteq> None \<or> get_study d (st_id st) = None \<or>
            (case st_best_trial_id st of None \<Rightarrow> False | Some t \<Rightarrow> get_trial d t = None)
         then None else Some (pending_row env st, [pending_row env st])))"

definition add_proposals :: "proposal list \<Rightarrow> digest_store \<Rightarrow> digest_store" where
  "add_proposals ps s = s\<lparr>dt_db := (dt_db s)\<lparr>db_proposals := db_proposals (dt_db s) @ ps\<rparr>\<rparr>"

text \<open>\<open>DELETE FROM proposals WHERE id = :id\<close>, refused while a study names the row as its parent.\<close>

definition delete_proposal :: "string \<Rightarrow> digest_store \<Rightarrow> digest_store option" where
  "delete_proposal i s =
     (if \<exists>st\<in>set (db_studies (dt_db s)). st_parent_proposal_id st = Some i then None
      else Some (s\<lparr>dt_db := (dt_db s)\<lparr>db_proposals := filter (\<lambda>p. pp_id p \<noteq> i) (db_proposals (dt_db s))\<rparr>\<rparr>))"

section \<open>Suggestions\<close>

definition SWAP_DOWNGRADE_PREFIXES :: "(string, string) pydict" where
  "SWAP_DOWNGRADE_PREFIXES =
    [(''not_found'', ''swap_template target template not found''),
     (''same_as_parent'', ''swap_template target is the same as the parent template''),
     (''engine_type_mismatch'', ''swap_template target engine_type differs from parent cluster''),
     (''remap_invalid_search_space'', ''swap_template remap produced an invalid search_space'')]"

definition downgrade_swap_template_to_text :: "string \<Rightarrow> string \<Rightarrow> string \<Rightarrow> string \<Rightarrow> followup" where
  "downgrade_swap_template_to_text rationale template_id reason validation_error =
     (let prefix_core = (case map_of SWAP_DOWNGRADE_PREFIXES reason of
            Some p \<Rightarrow> p | None \<Rightarrow> ''swap_template downgrade: '' @ reason);
          body = ''[validation failed: '' @ prefix_core @ '': '' @ template_id @ '']'';
          body' = (if validation_error \<noteq> []
            then body @ '' ('' @ truncate_validation_error validation_error @ '')'' else body)
      in TextFollowup (body' @ '' '' @ rationale))"

text \<open>One swap item with its target looked up: the reasons to refuse it in their order, then the remapped space.\<close>

definition resolve_swap ::
  "digest_env \<Rightarrow> study \<Rightarrow> (string, string) pydict \<Rightarrow> string \<Rightarrow> string \<Rightarrow> string \<Rightarrow> search_space \<Rightarrow> template_info option \<Rightarrow> followup" where
  "resolve_swap env st parent_params parent_engine rationale template_id space target =
     (case target of
        None \<Rightarrow> downgrade_swap_template_to_text rationale template_id ''not_found'' []
      | Some t \<Rightarrow>
        (if ti_id t = st_template_id st
         then downgrade_swap_template_to_text rationale template_id ''same_as_parent'' []
         else if ti_engine_type t \<noteq> parent_engine
         then downgrade_swap_template_to_text rationale template_id ''engine_type_mismatch'' []
         else (case remap_search_space_for_swap_target (dv_set_order env) parent_params (ti_declared_params t) space of
             Inl e \<Rightarrow> downgrade_swap_template_to_text rationale template_id ''remap_invalid_search_space'' (dv_error_text env e)
           | Inr r \<Rightarrow> SwapTemplateFollowup rationale template_id (rm_search_space r))))"

text \<open>The loop, with the cache of the targets it has looked up.\<close>

fun apply_swap_template_remap ::
  "digest_env \<Rightarrow> study \<Rightarrow> (string, string) pydict \<Rightarrow> string \<Rightarrow> (string, template_info option) pydict \<Rightarrow> followup list
   \<Rightarrow> followup list" where
  "apply_swap_template_remap env st params engine cache [] = []"
| "apply_swap_template_remap env st params engine cache (SwapTemplateFollowup rationale tid space # items) =
     (let target = (case map_of cache tid of Some t \<Rightarrow> t | None \<Rightarrow> get_query_template (dv_templates env) tid);
          cache' = (case map_of cache tid of Some _ \<Rightarrow> cache | None \<Rightarrow> dict_set tid target cache)
      in resolve_swap env st params engine rationale tid space target #
           apply_swap_template_remap env st params engine cache' items)"
| "apply_swap_template_remap env st params engine cache (item # items) =
     item # apply_swap_template_remap env st params engine cache items"

text \<open>What the model sends, in the shape the parser wants; \<open>text\<close> and unknown kinds lose their space.\<close>

definition decode_space :: "(string \<Rightarrow> pyval option) \<Rightarrow> pyval \<Rightarrow> pyval" where
  "decode_space loads ss_json = (case ss_json of
       PStr s \<Rightarrow> (if s = [] then PNone else (case loads s of None \<Rightarrow> PNone | Some v \<Rightarrow> v))
     | _ \<Rightarrow> PNone)"

definition translate_item :: "(string \<Rightarrow> pyval option) \<Rightarrow> pyval \<Rightarrow> pyval" where
  "translate_item loads raw = (case raw of
       PDict d \<Rightarrow>
         (let kind = obj_get d ''kind''; rationale = obj_get d ''rationale'';
              ss_json = obj_get_default d ''search_space_json'' (PStr []);
              template_id_raw = obj_get_default d ''template_id'' (PStr []);
              named = (if template_id_raw = PStr [] then [] else [(''template_id'', template_id_raw)])
          in if kind \<in> {PStr ''narrow'', PStr ''widen'', PStr ''swap_template''}
             then PDict ([(''kind'', kind), (''rationale'', rationale), (''search_space'', decode_space loads ss_json)] @
                (if kind = PStr ''swap_template'' then [(''template_id'', template_id_raw)] else named))
             else PDict ([(''kind'', kind), (''rationale'', rationale), (''search_space'', PNone)] @ named))
     | _ \<Rightarrow> raw)"

definition text_item :: "string \<Rightarrow> pyval" where
  "text_item rationale = PDict [(''kind'', PStr ''text''), (''rationale'', PStr rationale), (''search_space'', PNone)]"

definition drift_item :: "digest_env \<Rightarrow> bool \<Rightarrow> string list \<Rightarrow> pyval list" where
  "drift_item env all_dropped dropped =
     (if all_dropped then
        [text_item (''Best trial used '' @ nat_str (length dropped) @ '' params no longer declared on the template ('' @
           join_with '', '' (take 5 dropped) @ (if 5 < length dropped then ''...'' else []) @
           ''). The recommendation is empty. Re-add the dropped params to the template or treat this study as stale.'')]
      else if dropped \<noteq> [] then
        [text_item (''Best trial used params no longer declared on the template: '' @ dv_repr env (PList (map PStr dropped)) @
           ''. Re-establish them or accept the filtered config.'')]
      else [])"

definition merge_followups :: "digest_env \<Rightarrow> bool \<Rightarrow> bool \<Rightarrow> string list \<Rightarrow> pyval list \<Rightarrow> pyval list" where
  "merge_followups env structured all_dropped dropped raw =
     (if structured then drift_item env all_dropped dropped @ map (translate_item (dv_loads env)) raw else [])"

text \<open>\<open>serialize_followup_list\<close>\<close>

fun dump_followup :: "followup \<Rightarrow> pyval" where
  "dump_followup (NarrowFollowup r space) =
     PDict [(''kind'', PStr ''narrow''), (''rationale'', PStr r), (''search_space'', dump_space space)]"
| "dump_followup (WidenFollowup r space) =
     PDict [(''kind'', PStr ''widen''), (''rationale'', PStr r), (''search_space'', dump_space space)]"
| "dump_followup (TextFollowup r) =
     PDict [(''kind'', PStr ''text''), (''rationale'', PStr r), (''search_space'', PNone)]"
| "dump_followup (SwapTemplateFollowup r tid space) =
     PDict [(''kind'', PStr ''swap_template''), (''rationale'', PStr r), (''template_id'', PStr tid), (''search_space'', dump_space space)]"

definition digest_followups ::
  "digest_env \<Rightarrow> study \<Rightarrow> (string, string) pydict \<Rightarrow> pyval list \<Rightarrow> followup list" where
  "digest_followups env st params items =
     (let parsed = take 5 (fst (parse_followup_list (dv_validate env) (dv_repr env) (PList items)))
      in case dv_clusters env (st_cluster_id st) of
           None \<Rightarrow> parsed
         | Some (_, engine) \<Rightarrow> apply_swap_template_remap env st params engine [] parsed)"

section \<open>The recommendation\<close>

definition recommended_config_of :: "obj \<Rightarrow> (string, string) pydict \<Rightarrow> obj" where
  "recommended_config_of best_params declared = filter (\<lambda>(p, v). p \<in> set (dict_keys declared)) best_params"

definition dropped_params :: "obj \<Rightarrow> (string, string) pydict \<Rightarrow> string list" where
  "dropped_params best_params declared = sorted_set (filter (\<lambda>p. p \<notin> set (dict_keys declared)) (dict_keys best_params))"

definition digest_config_diff :: "obj \<Rightarrow> obj \<Rightarrow> obj" where
  "digest_config_diff template_defaults recommended =
     map (\<lambda>(p, v). (p, PDict [(''from'', obj_get template_defaults p), (''to'', v)])) recommended"

definition digest_metric_key :: "(pyval \<Rightarrow> string) \<Rightarrow> obj \<Rightarrow> string" where
  "digest_metric_key py_str ob =
     (let metric = py_str (obj_get_default ob ''metric'' (PStr ''primary''))
      in case obj_get ob ''k'' of
           PInt n \<Rightarrow> (if 0 < n then metric @ ''@'' @ int_str n else metric)
         | PBool True \<Rightarrow> metric @ ''@True''
         | _ \<Rightarrow> metric)"

definition opt_float :: "pyfloat option \<Rightarrow> pyval" where
  "opt_float x = (case x of None \<Rightarrow> PNone | Some v \<Rightarrow> PFloat v)"

definition compute_metric_delta :: "digest_env \<Rightarrow> study \<Rightarrow> pyfloat \<Rightarrow> obj" where
  "compute_metric_delta env st achieved =
     (let delta_pct = (case st_baseline_metric st of
            None \<Rightarrow> PNone
          | Some b \<Rightarrow> (if feq b (Fin 0) then PNone
              else (case fdiv (fsub achieved b) b of
                  None \<Rightarrow> PNone | Some q \<Rightarrow> PFloat (dv_round1 env (fmul q (Fin 100))))))
      in [(digest_metric_key (dv_str env) (st_objective st),
           PDict [(''baseline'', opt_float (st_baseline_metric st)), (''achieved'', PFloat achieved), (''delta_pct'', delta_pct)])])"

text \<open>\<open>ORDER BY primary_metric DESC LIMIT 10\<close>; a missing metric comes first.\<close>

definition select_top_trials :: "db \<Rightarrow> string \<Rightarrow> trial list" where
  "select_top_trials d i =
     (let ts = confidence_trials d i
      in take TOP_K_TRIALS (filter (\<lambda>t. tr_primary_metric t = None) ts @
           rev (sort_key (\<lambda>t. the (tr_primary_metric t)) (rev (filter (\<lambda>t. tr_primary_metric t \<noteq> None) ts)))))"

definition compute_top_trials :: "trial list \<Rightarrow> (int \<times> obj \<times> pyfloat option) list" where
  "compute_top_trials ts = map (\<lambda>t. (tr_number t, tr_params t, tr_primary_metric t)) ts"

section \<open>Prompt and answer\<close>

definition rubric_summary_of :: "string \<Rightarrow> string" where
  "rubric_summary_of rubric =
     (let s = take 280 rubric @ (if 280 < length rubric then ''...'' else [])
      in if s = [] then ''(see judgment list rubric)'' else s)"

text \<open>The other templates of the engine, none when there are no others or no cluster.\<close>

definition catalogue_of :: "digest_env \<Rightarrow> study \<Rightarrow> (string \<times> string \<times> int \<times> (string, string) pydict) list option" where
  "catalogue_of env st = (case dv_clusters env (st_cluster_id st) of
       None \<Rightarrow> None
     | Some (_, engine) \<Rightarrow>
       (let payload = map (\<lambda>t. (ti_id t, ti_name t, ti_version t, ti_declared_params t))
              (filter (\<lambda>t. ti_id t \<noteq> st_template_id st) (list_query_templates engine 200 (dv_templates env)))
        in if payload = [] then None else Some payload))"

definition digest_prompt ::
  "digest_env \<Rightarrow> db \<Rightarrow> study \<Rightarrow> bool \<Rightarrow> (string, pyfloat) pydict \<Rightarrow> template_info \<Rightarrow> obj \<Rightarrow> prompt_input" where
  "digest_prompt env d st include_recommendation importance tpl best_params =
     \<lparr>pi_study_name = st_name st,
      pi_cluster_name = (case dv_clusters env (st_cluster_id st) of None \<Rightarrow> st_cluster_id st | Some (n, _) \<Rightarrow> n),
      pi_target = st_target st,
      pi_query_set_name = (case dv_query_sets env (st_query_set_id st) of None \<Rightarrow> st_query_set_id st | Some (n, _) \<Rightarrow> n),
      pi_query_count = (case dv_query_sets env (st_query_set_id st) of None \<Rightarrow> 0 | Some (_, k) \<Rightarrow> k),
      pi_judgment_list_name = (case dv_judgment_lists env (st_judgment_list_id st) of None \<Rightarrow> st_judgment_list_id st | Some (n, _) \<Rightarrow> n),
      pi_rubric_summary = rubric_summary_of (case dv_judgment_lists env (st_judgment_list_id st) of None \<Rightarrow> [] | Some (_, r) \<Rightarrow> r),
      pi_baseline_metric = st_baseline_metric st, pi_achieved_metric = st_best_metric st,
      pi_top_trials = compute_top_trials (select_top_trials d (st_id st)), pi_parameter_importance = importance,
      pi_recommended_config = recommended_config_of best_params (ti_declared_params tpl),
      pi_dropped_template_params = dropped_params best_params (ti_declared_params tpl),
      pi_include_recommendation = include_recommendation,
      pi_confidence = fetch_study_confidence (dv_numpy env) (dv_column env) (dv_queries env) d st,
      pi_convergence = fetch_study_convergence d st,
      pi_parent_search_space = st_search_space st, pi_parent_declared_params = ti_declared_params tpl,
      pi_available_templates = catalogue_of env st\<rparr>"

text \<open>The narrative, the suggestions and the tokens; \<open>None\<close> is any error of the call or of its answer, which ends the job.\<close>

definition call_openai_for_digest :: "digest_env \<Rightarrow> string \<Rightarrow> bool \<Rightarrow> (string \<times> pyval list \<times> int \<times> int) option" where
  "call_openai_for_digest env prompt structured = (case dv_llm env prompt structured of
       LlmFailed \<Rightarrow> None
     | LlmReply reply usage \<Rightarrow>
       (let content = (case reply of None \<Rightarrow> [] | Some c \<Rightarrow> c);
            (input_tokens, output_tokens) = (case usage of None \<Rightarrow> (0, 0) | Some u \<Rightarrow> u)
        in if structured then
             (case dv_loads env content of
                Some (PDict parsed) \<Rightarrow>
                  (case (obj_get parsed ''narrative'', obj_get_default parsed ''suggested_followups'' (PList [])) of
                     (PStr narrative, PList followups) \<Rightarrow> Some (narrative, followups, input_tokens, output_tokens)
                   | _ \<Rightarrow> None)
              | _ \<Rightarrow> None)
           else Some (dv_strip env content, [], input_tokens, output_tokens)))"

section \<open>The checks before the call\<close>

definition structured_output_enabled :: "digest_env \<Rightarrow> bool" where
  "structured_output_enabled env = (case dv_capability env of
       None \<Rightarrow> False | Some (structured_output, model) \<Rightarrow> structured_output = ''ok'' \<and> model = dv_model env)"

text \<open>Steps 6 to 9: \<open>None\<close> lets the job go on.\<close>

definition digest_preflight :: "digest_env \<Rightarrow> digest_store \<Rightarrow> digest_outcome option" where
  "digest_preflight env s =
     (if dv_api_key env = [] then Some DigestStopped
      else if dv_model env \<notin> known_models then Some DigestStopped
      else if flt (Fin 0) (dv_budget env) then
        (if dv_peek_fails env then Some DigestStopped
         else (case estimated_max_call_cost (dv_model env) of
             Inl _ \<Rightarrow> Some DigestRaised
           | Inr est_max \<Rightarrow>
               if flt (dv_budget env) (fadd (peek_daily_total (dt_redis s) (dv_now env)) est_max)
               then Some DigestStopped else None))
      else None)"

text \<open>Step 10: \<open>None\<close> is an exception of the sampler, the pruner or the storage; of the importance none gets out.\<close>

definition compute_param_importance :: "digest_env \<Rightarrow> study \<Rightarrow> (string, pyfloat) pydict" where
  "compute_param_importance env st =
     (case dv_importance env (st_optuna_study_name st) of None \<Rightarrow> [] | Some m \<Rightarrow> m)"

definition load_importance :: "digest_env \<Rightarrow> study \<Rightarrow> (string, pyfloat) pydict option" where
  "load_importance env st =
     (case (build_sampler (st_config st) (obj_get (st_config st) ''seed''), build_pruner (st_config st)) of
        (Inr sampler, Inr pruner) \<Rightarrow>
          if dv_open_optuna env sampler pruner (st_optuna_study_name st) (obj_get_default (st_objective st) ''direction'' (PStr ''maximize''))
          then Some (compute_param_importance env st) else None
      | _ \<Rightarrow> None)"

section \<open>The job\<close>

definition zero_trials_row :: "digest_env \<Rightarrow> study \<Rightarrow> digest_entry" where
  "zero_trials_row env st =
     \<lparr>de_id = dv_digest_id env, de_study_id = st_id st, de_narrative = FAILURE_NARRATIVE, de_parameter_importance = [],
      de_recommended_config = [], de_suggested_followups = [], de_generated_by = ''local:zero_trials''\<rparr>"

definition persist_zero_trials_digest :: "digest_env \<Rightarrow> study \<Rightarrow> digest_store \<Rightarrow> digest_outcome \<times> digest_store" where
  "persist_zero_trials_digest env st s =
     (case ensure_pending_proposal env st (dt_db s) of
        None \<Rightarrow> (DigestRaised, s)
      | Some (p, inserted) \<Rightarrow>
        (case create_digest (zero_trials_row env st) (add_proposals inserted s) of
           None \<Rightarrow> (DigestStopped, s)
         | Some s1 \<Rightarrow> (case delete_proposal (pp_id p) s1 of
               None \<Rightarrow> (DigestRaised, s) | Some s2 \<Rightarrow> (ZeroTrialsDigest, s2))))"

text \<open>The proposal after the digest: left alone, deleted, or updated if it is still pending.\<close>

definition settle_proposal :: "bool \<Rightarrow> bool \<Rightarrow> string \<Rightarrow> obj \<Rightarrow> obj \<Rightarrow> digest_store \<Rightarrow> digest_store option" where
  "settle_proposal structured all_dropped i config_diff metric_delta s =
     (if \<not> structured then Some s
      else if all_dropped then delete_proposal i s
      else (case update_proposal_for_digest i config_diff (dt_db s) of
          (None, _) \<Rightarrow> Some s
        | (Some _, d) \<Rightarrow> Some (s\<lparr>dt_db := d, dt_metric_delta := (dt_metric_delta s)(i \<mapsto> metric_delta)\<rparr>)))"

text \<open>After the commit: the cost is recorded, and the next link of a chain is queued under an id that drops duplicates.\<close>

definition after_commit :: "digest_env \<Rightarrow> study \<Rightarrow> pyfloat \<Rightarrow> digest_store \<Rightarrow> digest_store" where
  "after_commit env st cost_usd s =
     (let s1 = s\<lparr>dt_redis := snd (safe_record_cost (dv_redis_add env) (dv_redis_fault env) (dt_redis s) cost_usd (dv_now env))\<rparr>
      in if obj_get (st_config st) depth_key \<noteq> PNone \<and> dv_pool env = PoolAccepts \<and> st_id st \<notin> set (dt_followup_jobs s1)
         then s1\<lparr>dt_followup_jobs := dt_followup_jobs s1 @ [st_id st]\<rparr> else s1)"

text \<open>
  Steps 13 to 15, once the model has answered: \<open>s\<close> is the store as the other sessions have left it, \<open>p\<close>
  and \<open>inserted\<close> are the proposal found before the call and the row the session holds for it.
\<close>

definition persist_digest ::
  "digest_env \<Rightarrow> study \<Rightarrow> pyfloat \<Rightarrow> obj \<Rightarrow> (string, pyfloat) pydict \<Rightarrow> template_info \<Rightarrow> proposal \<Rightarrow> proposal list
   \<Rightarrow> string \<times> pyval list \<times> int \<times> int \<Rightarrow> digest_store \<Rightarrow> digest_outcome \<times> digest_store" where
  "persist_digest env st achieved best_params importance tpl p inserted answer s =
     (let (narrative, raw, input_tokens, output_tokens) = answer;
          structured = structured_output_enabled env;
          recommended = recommended_config_of best_params (ti_declared_params tpl);
          dropped = dropped_params best_params (ti_declared_params tpl);
          all_dropped = (best_params \<noteq> [] \<and> recommended = [])
      in case (compute_call_cost (dv_model env) input_tokens output_tokens,
               compute_default_params (map (\<lambda>(n, t). (n, PStr t)) (ti_declared_params tpl))) of
           (Inr cost_usd, Inr template_defaults) \<Rightarrow>
             (let followups = digest_followups env st (ti_declared_params tpl) (merge_followups env structured all_dropped dropped raw);
                  kept = (if structured \<and> \<not> all_dropped then recommended else []);
                  row = \<lparr>de_id = dv_digest_id env, de_study_id = st_id st, de_narrative = narrative,
                     de_parameter_importance = importance, de_recommended_config = kept,
                     de_suggested_followups = map dump_followup followups, de_generated_by = ''openai:'' @ dv_model env\<rparr>
              in case create_digest row (add_proposals inserted s) of
                   None \<Rightarrow> (DigestStopped, s)
                 | Some s1 \<Rightarrow>
                   (case settle_proposal structured all_dropped (pp_id p) (digest_config_diff template_defaults kept)
                       (compute_metric_delta env st achieved) s1 of
                      None \<Rightarrow> (DigestRaised, s)
                    | Some s2 \<Rightarrow> (DigestComplete, after_commit env st cost_usd s2)))
         | _ \<Rightarrow> (DigestRaised, s))"

text \<open>From the best trial to the answer; \<open>s\<close> is the store under the lock.\<close>

definition narrate ::
  "digest_env \<Rightarrow> study \<Rightarrow> pyfloat \<Rightarrow> (string, pyfloat) pydict \<Rightarrow> trial \<Rightarrow> digest_store \<Rightarrow> digest_outcome \<times> digest_store" where
  "narrate env st achieved importance best s =
     (case ensure_pending_proposal env st (dt_db s) of
        None \<Rightarrow> (DigestRaised, s)
      | Some (p, inserted) \<Rightarrow>
        (case get_query_template (dv_templates env) (st_template_id st) of
           None \<Rightarrow> (DigestStopped, s)
         | Some tpl \<Rightarrow>
           (let flag = (structured_output_enabled env \<and>
                  \<not> (tr_params best \<noteq> [] \<and> recommended_config_of (tr_params best) (ti_declared_params tpl) = []))
            in case dv_render env (digest_prompt env (dt_db s) st flag importance tpl (tr_params best)) of
                 None \<Rightarrow> (DigestRaised, s)
               | Some prompt \<Rightarrow> (case call_openai_for_digest env prompt flag of
                   None \<Rightarrow> (DigestStopped, dv_during env s)
                 | Some answer \<Rightarrow>
                     persist_digest env st achieved (tr_params best) importance tpl p inserted answer (dv_during env s)))))"

definition digest_under_lock :: "digest_env \<Rightarrow> study \<Rightarrow> digest_store \<Rightarrow> digest_outcome \<times> digest_store" where
  "digest_under_lock env st s =
     (if get_digest_for_study s (st_id st) \<noteq> None then (DigestStopped, s)
      else (case st_best_metric st of
          None \<Rightarrow> persist_zero_trials_digest env st s
        | Some achieved \<Rightarrow>
          (case digest_preflight env s of
             Some out \<Rightarrow> (out, s)
           | None \<Rightarrow> (case load_importance env st of
               None \<Rightarrow> (DigestRaised, s)
             | Some importance \<Rightarrow>
               (case find (\<lambda>t. tr_study_id t = st_id st \<and> Some (tr_id t) = st_best_trial_id st) (db_trials (dt_db s)) of
                  None \<Rightarrow> persist_zero_trials_digest env st s
                | Some best \<Rightarrow> narrate env st achieved importance best s)))))"

definition generate_digest :: "digest_env \<Rightarrow> string \<Rightarrow> digest_store \<Rightarrow> digest_outcome \<times> digest_store" where
  "generate_digest env study_id s =
     (case get_study (dt_db s) study_id of
        None \<Rightarrow> (DigestStopped, s)
      | Some st \<Rightarrow>
        (if st_status st \<noteq> Completed then (DigestStopped, s)
         else if get_digest_for_study s study_id \<noteq> None then (DigestStopped, s)
         else if \<not> dv_got_lock env then (DigestStopped, dv_meanwhile env s)
         else digest_under_lock env st (dv_meanwhile env s)))"

text \<open>Deliveries and other sessions, in any order.\<close>

datatype digest_event = DigestDelivery digest_env string | OtherSession "digest_store \<Rightarrow> digest_store"

fun digest_step :: "digest_event \<Rightarrow> digest_store \<Rightarrow> digest_store" where
  "digest_step (DigestDelivery env i) s = snd (generate_digest env i s)"
| "digest_step (OtherSession f) s = f s"

section \<open>One digest for a study\<close>

text \<open>An insert that a unique key guards.\<close>

locale unique_insert =
  fixes rows :: "'s \<Rightarrow> 'r list"
    and key_of :: "'r \<Rightarrow> 'k"
    and insert_row :: "'r \<Rightarrow> 's \<Rightarrow> 's option"
  assumes inserted: "insert_row r s = Some s' \<Longrightarrow> rows s' = rows s @ [r] \<and> key_of r \<notin> key_of ` set (rows s)"
begin

definition grew :: "'s \<Rightarrow> 's \<Rightarrow> bool" where
  "grew s s' = (rows s' = rows s \<or> (\<exists>r. rows s' = rows s @ [r] \<and> key_of r \<notin> key_of ` set (rows s)))"

lemma grew_refl [simp]: "grew s s"
  by (simp add: grew_def)

lemma grew_insert: "insert_row r s = Some s' \<Longrightarrow> rows s'' = rows s' \<Longrightarrow> grew s s''"
  by (auto simp: grew_def dest: inserted)

lemma grew_keeps: "grew s s' \<Longrightarrow> distinct (map key_of (rows s)) \<Longrightarrow>
    distinct (map key_of (rows s')) \<and> set (rows s) \<subseteq> set (rows s')"
  by (auto simp: grew_def)

lemma refused: "key_of r \<in> key_of ` set (rows s) \<Longrightarrow> insert_row r s = None"
  by (cases "insert_row r s") (auto dest: inserted)

end

lemma no_digest: "get_digest_for_study s i = None \<longleftrightarrow> i \<notin> de_study_id ` set (dt_digests s)"
  by (auto simp: get_digest_for_study_def find_None_iff)

interpretation digests: unique_insert dt_digests de_study_id create_digest
  by unfold_locales (auto simp: create_digest_def no_digest split: if_splits)

interpretation studies: unique_insert db_studies st_id create_study
  by unfold_locales (auto simp: create_study_def study_ids_def split: if_splits)

lemma side_digests [simp, frame_simps]:
  "dt_digests (add_proposals ps s) = dt_digests s"
  "delete_proposal i s = Some s1 \<Longrightarrow> dt_digests s1 = dt_digests s"
  "settle_proposal x y i diff delta s = Some s1 \<Longrightarrow> dt_digests s1 = dt_digests s"
  "dt_digests (after_commit env st cost s) = dt_digests s"
  by (auto simp: add_proposals_def delete_proposal_def settle_proposal_def after_commit_def Let_def
      split: if_splits prod.splits option.splits)

lemma grew_zero: "digests.grew s (snd (persist_zero_trials_digest env st s))"
proof -
  have "digests.grew s s2" if "create_digest r (add_proposals ps s) = Some s1" "delete_proposal i s1 = Some s2" for r ps i s1 s2
    using digests.grew_insert [OF that(1), of s2] that(2) by (auto simp: digests.grew_def)
  then show ?thesis by (auto simp: persist_zero_trials_digest_def split: option.splits)
qed

lemma grew_persist: "digests.grew s (snd (persist_digest env st a best m tpl p ps answer s))"
proof -
  have "digests.grew s (after_commit env st c s2)"
    if "create_digest r (add_proposals ps s) = Some s1" "settle_proposal x y i diff delta s1 = Some s2" for r s1 s2 x y i diff delta c
    using digests.grew_insert [OF that(1), of "after_commit env st c s2"] that(2) by (auto simp: digests.grew_def)
  then show ?thesis by (auto simp: persist_digest_def Let_def split: prod.splits option.splits sum.splits)
qed

lemma grew_narrate:
  "digests.grew s (snd (narrate env st a m best s)) \<or> digests.grew (dv_during env s) (snd (narrate env st a m best s))"
  by (auto simp: narrate_def Let_def grew_persist split: option.splits)

lemma grew_under_lock:
  "digests.grew s (snd (digest_under_lock env st s)) \<or> digests.grew (dv_during env s) (snd (digest_under_lock env st s))"
  using grew_zero [of s env st] grew_narrate [of s env st]
  by (auto simp: digest_under_lock_def split: option.splits)

text \<open>What the other sessions may do to digests: add them for studies without one.\<close>

definition one_digest_each :: "digest_store \<Rightarrow> bool" where
  "one_digest_each s = distinct (map de_study_id (dt_digests s))"

definition keeps_digests :: "(digest_store \<Rightarrow> digest_store) \<Rightarrow> bool" where
  "keeps_digests f = (\<forall>s. one_digest_each s \<longrightarrow> one_digest_each (f s) \<and> set (dt_digests s) \<subseteq> set (dt_digests (f s)))"

fun event_keeps :: "digest_event \<Rightarrow> bool" where
  "event_keeps (DigestDelivery env i) = (keeps_digests (dv_meanwhile env) \<and> keeps_digests (dv_during env))"
| "event_keeps (OtherSession f) = keeps_digests f"

lemma keeps_id [simp]: "keeps_digests (\<lambda>s. s)"
  by (simp add: keeps_digests_def)

lemma keeps_comp: "keeps_digests f \<Longrightarrow> keeps_digests g \<Longrightarrow> keeps_digests (\<lambda>s. g (f s))"
  unfolding keeps_digests_def by blast

lemma keeps_grew: "keeps_digests f \<Longrightarrow> (\<And>s. digests.grew (f s) (g s)) \<Longrightarrow> keeps_digests g"
  unfolding keeps_digests_def one_digest_each_def using digests.grew_keeps by blast

lemma digest_step_keeps: "event_keeps ev \<Longrightarrow> keeps_digests (digest_step ev)"
proof (cases ev)
  case (DigestDelivery env i)
  assume "event_keeps ev"
  with DigestDelivery have mw: "keeps_digests (dv_meanwhile env)" and du: "keeps_digests (\<lambda>s. dv_during env (dv_meanwhile env s))"
    by (simp_all add: keeps_comp)
  have "\<exists>f. keeps_digests f \<and> digests.grew (f s) (digest_step ev s)" for s
  proof -
    let ?x = "digest_step ev s" and ?m = "dv_meanwhile env s"
    have "digests.grew s ?x \<or> digests.grew ?m ?x \<or> digests.grew (dv_during env ?m) ?x"
      using grew_under_lock [of ?m env] DigestDelivery by (auto simp: generate_digest_def split: option.splits)
    then show ?thesis using mw du keeps_id by blast
  qed
  then show ?thesis unfolding keeps_digests_def one_digest_each_def using digests.grew_keeps by blast
qed (simp add: keeps_digests_def)

lemma digests_only_grow: "list_all event_keeps events \<Longrightarrow> keeps_digests (fold digest_step events)"
proof (induction events)
  case (Cons ev events)
  then show ?case using keeps_comp [OF digest_step_keeps [of ev] Cons.IH] by (simp add: comp_def)
qed (simp add: id_def)

lemma second_delivery_stops:
  assumes "i \<in> de_study_id ` set (dt_digests s)"
  shows "generate_digest env i s = (DigestStopped, s)"
  using assms by (auto simp: generate_digest_def no_digest split: option.splits)

section \<open>A completed run\<close>

lemma preflight_not_complete [simp]:
  "digest_preflight env s \<noteq> Some DigestComplete" "digest_preflight env s \<noteq> Some ZeroTrialsDigest"
  by (auto simp: digest_preflight_def split: sum.splits)

lemma zero_not_complete [simp]: "persist_zero_trials_digest env st s \<noteq> (DigestComplete, s')"
  by (auto simp: persist_zero_trials_digest_def split: option.splits)

lemma complete_run:
  assumes "generate_digest env i s = (DigestComplete, s')"
  obtains st best achieved importance tpl p ps answer where
    "get_study (dt_db s) i = Some st" "st_status st = Completed" "st_best_metric st = Some achieved"
    "best \<in> set (db_trials (dt_db (dv_meanwhile env s)))" "tr_study_id best = i" "st_best_trial_id st = Some (tr_id best)"
    "ensure_pending_proposal env st (dt_db (dv_meanwhile env s)) = Some (p, ps)"
    "get_query_template (dv_templates env) (st_template_id st) = Some tpl"
    "persist_digest env st achieved (tr_params best) importance tpl p ps answer (dv_during env (dv_meanwhile env s)) =
       (DigestComplete, s')"
proof -
  let ?m = "dv_meanwhile env s"
  obtain st where st: "get_study (dt_db s) i = Some st" "st_status st = Completed"
    and lock: "digest_under_lock env st ?m = (DigestComplete, s')"
    using assms by (auto simp: generate_digest_def split: option.splits if_splits)
  obtain achieved importance best where a: "st_best_metric st = Some achieved"
    and best: "find (\<lambda>t. tr_study_id t = st_id st \<and> Some (tr_id t) = st_best_trial_id st) (db_trials (dt_db ?m)) = Some best"
    and n: "narrate env st achieved importance best ?m = (DigestComplete, s')"
    using lock by (auto simp: digest_under_lock_def split: option.splits if_splits)
  obtain p ps tpl answer where "ensure_pending_proposal env st (dt_db ?m) = Some (p, ps)"
    "get_query_template (dv_templates env) (st_template_id st) = Some tpl"
    "persist_digest env st achieved (tr_params best) importance tpl p ps answer (dv_during env ?m) = (DigestComplete, s')"
    using n by (auto simp: narrate_def Let_def split: option.splits)
  moreover have "best \<in> set (db_trials (dt_db ?m))" "tr_study_id best = i" "st_best_trial_id st = Some (tr_id best)"
    using find_Some_in [OF best] get_study_id [OF st(1)] by auto
  ultimately show thesis using that st a by blast
qed

text \<open>What it has written: \<open>kept\<close> is the recommendation in the digest, \<open>gone\<close> says that nothing was left of it.\<close>

lemma persist_complete:
  assumes "persist_digest env st achieved best_params importance tpl p ps answer s = (DigestComplete, s')"
  obtains defaults cost kept gone followups e s1 where
    "compute_default_params (map (\<lambda>(n, t). (n, PStr t)) (ti_declared_params tpl)) = Inr defaults"
    "gone \<longleftrightarrow> best_params \<noteq> [] \<and> recommended_config_of best_params (ti_declared_params tpl) = []"
    "kept = (if structured_output_enabled env \<and> \<not> gone then recommended_config_of best_params (ti_declared_params tpl) else [])"
    "followups = digest_followups env st (ti_declared_params tpl)
       (merge_followups env (structured_output_enabled env) gone (dropped_params best_params (ti_declared_params tpl)) (fst (snd answer)))"
    "de_study_id e = st_id st" "de_recommended_config e = kept" "de_suggested_followups e = map dump_followup followups"
    "create_digest e (add_proposals ps s) = Some s1"
    "\<exists>s2. settle_proposal (structured_output_enabled env) gone (pp_id p) (digest_config_diff defaults kept)
       (compute_metric_delta env st achieved) s1 = Some s2 \<and> s' = after_commit env st cost s2"
proof -
  obtain narrative raw it ot where ans: "answer = (narrative, raw, it, ot)" by (cases answer)
  obtain cost defaults where cd: "compute_call_cost (dv_model env) it ot = Inr cost"
      "compute_default_params (map (\<lambda>(n, t). (n, PStr t)) (ti_declared_params tpl)) = Inr defaults"
    using assms by (auto simp: persist_digest_def ans Let_def split: sum.splits)
  let ?recommended = "recommended_config_of best_params (ti_declared_params tpl)"
  define gone where "gone = (best_params \<noteq> [] \<and> ?recommended = [])"
  define kept where "kept = (if structured_output_enabled env \<and> \<not> gone then ?recommended else [])"
  define followups where "followups = digest_followups env st (ti_declared_params tpl)
       (merge_followups env (structured_output_enabled env) gone (dropped_params best_params (ti_declared_params tpl)) raw)"
  define e where "e = \<lparr>de_id = dv_digest_id env, de_study_id = st_id st, de_narrative = narrative,
     de_parameter_importance = importance, de_recommended_config = kept,
     de_suggested_followups = map dump_followup followups, de_generated_by = ''openai:'' @ dv_model env\<rparr>"
  obtain s1 s2 where "create_digest e (add_proposals ps s) = Some s1"
    "settle_proposal (structured_output_enabled env) gone (pp_id p) (digest_config_diff defaults kept)
       (compute_metric_delta env st achieved) s1 = Some s2" "s' = after_commit env st cost s2"
    using assms unfolding persist_digest_def ans cd Let_def prod.case sum.case
      gone_def [symmetric] kept_def [symmetric] followups_def [symmetric] e_def [symmetric]
    by (auto split: option.splits)
  with cd show thesis
    by (intro that [of defaults gone kept followups e s1 cost]) (auto simp: gone_def kept_def followups_def e_def ans)
qed

section \<open>The proposal after the digest\<close>

lemma create_digest_db: "create_digest e s = Some s' \<Longrightarrow> dt_db s' = dt_db s"
  by (auto simp: create_digest_def split: if_splits)

lemma after_commit_db [simp, frame_simps]: "dt_db (after_commit env st cost s) = dt_db s"
  by (simp add: after_commit_def Let_def)

lemma settled:
  assumes "settle_proposal structured gone i diff delta s = Some s'"
    and "still \<longleftrightarrow> (\<exists>r. find (\<lambda>r. pp_id r = i) (db_proposals (dt_db s)) = Some r \<and> pp_status r = Pending)"
  shows "dt_digests s' = dt_digests s"
    and "db_proposals (dt_db s') =
      (if \<not> structured \<or> \<not> gone \<and> \<not> still then db_proposals (dt_db s)
       else if gone then filter (\<lambda>r. pp_id r \<noteq> i) (db_proposals (dt_db s))
       else map (\<lambda>r. if pp_id r = i \<and> pp_status r = Pending then r\<lparr>pp_config_diff := diff\<rparr> else r) (db_proposals (dt_db s)))"
    and "dt_metric_delta s' =
      (if structured \<and> \<not> gone \<and> still then (dt_metric_delta s)(i \<mapsto> delta) else dt_metric_delta s)"
proof -
  let ?f = "find (\<lambda>r. pp_id r = i) (db_proposals (dt_db s))"
  let ?up = "map (\<lambda>r. if pp_id r = i \<and> pp_status r = Pending then r\<lparr>pp_config_diff := diff\<rparr> else r) (db_proposals (dt_db s))"
  have id: "r\<lparr>pp_config_diff := diff, pp_id := pp_id r\<rparr> = r\<lparr>pp_config_diff := diff\<rparr>" for r :: proposal by simp
  have up: "db_proposals (update_proposals (\<lambda>x. pp_id x = i \<and> pp_status x = Pending) (\<lambda>r. r\<lparr>pp_config_diff := diff\<rparr>) (dt_db s)) = ?up"
    by (simp add: update_proposals_def id)
  consider "\<not> structured" | "structured" "gone" | "structured" "\<not> gone" "?f = None"
    | r where "structured" "\<not> gone" "?f = Some r" by (cases ?f) auto
  then have "dt_digests s' = dt_digests s \<and> db_proposals (dt_db s') =
      (if \<not> structured \<or> \<not> gone \<and> \<not> still then db_proposals (dt_db s)
       else if gone then filter (\<lambda>r. pp_id r \<noteq> i) (db_proposals (dt_db s)) else ?up) \<and>
      dt_metric_delta s' = (if structured \<and> \<not> gone \<and> still then (dt_metric_delta s)(i \<mapsto> delta) else dt_metric_delta s)"
  proof cases
    case 2
    have "s' = s\<lparr>dt_db := (dt_db s)\<lparr>db_proposals := filter (\<lambda>p. pp_id p \<noteq> i) (db_proposals (dt_db s))\<rparr>\<rparr>"
      using assms(1) 2 by (simp add: settle_proposal_def delete_proposal_def split: if_split_asm)
    then show ?thesis using 2 by simp
  next
    case (4 r)
    have u: "update_proposal_for_digest i diff (dt_db s) =
        (if pp_status r = Pending
         then (Some (r\<lparr>pp_config_diff := diff\<rparr>),
               update_proposals (\<lambda>x. pp_id x = i \<and> pp_status x = Pending) (\<lambda>r. r\<lparr>pp_config_diff := diff\<rparr>) (dt_db s))
         else (None, dt_db s))"
      by (simp add: update_proposal_for_digest_def conditional_update_def get_proposal_def 4(3))
    have still: "still \<longleftrightarrow> pp_status r = Pending" using assms(2) 4(3) by simp
    have "s' = (if still then s\<lparr>dt_db := update_proposals (\<lambda>x. pp_id x = i \<and> pp_status x = Pending) (\<lambda>r. r\<lparr>pp_config_diff := diff\<rparr>) (dt_db s),
          dt_metric_delta := (dt_metric_delta s)(i \<mapsto> delta)\<rparr> else s)"
      using assms(1) 4(1,2) unfolding settle_proposal_def u still by (cases "pp_status r = Pending") simp_all
    then show ?thesis using 4(1,2) up by simp
  next
    case 1
    then have "s' = s" using assms(1) by (simp add: settle_proposal_def)
    then show ?thesis using 1 by simp
  next
    case 3
    then have "\<not> still" "s' = s" using assms
      by (simp_all add: settle_proposal_def update_proposal_for_digest_def conditional_update_def get_proposal_def)
    then show ?thesis using 3 by simp
  qed
  then show "dt_digests s' = dt_digests s"
    and "db_proposals (dt_db s') =
      (if \<not> structured \<or> \<not> gone \<and> \<not> still then db_proposals (dt_db s)
       else if gone then filter (\<lambda>r. pp_id r \<noteq> i) (db_proposals (dt_db s)) else ?up)"
    and "dt_metric_delta s' =
      (if structured \<and> \<not> gone \<and> still then (dt_metric_delta s)(i \<mapsto> delta) else dt_metric_delta s)" by blast+
qed

lemma ensured:
  assumes "ensure_pending_proposal env st d = Some (p, ps)"
  shows "case find (\<lambda>p. pp_study_id p = Some (st_id st) \<and> pp_status p = Pending) (db_proposals d) of
      Some q \<Rightarrow> p = q \<and> ps = [] | None \<Rightarrow> p = pending_row env st \<and> ps = [p]"
  using assms by (auto simp: ensure_pending_proposal_def split: option.splits if_splits)

section \<open>The suggestions that are kept\<close>

text \<open>The loop without its cache.\<close>

definition remap_item :: "digest_env \<Rightarrow> study \<Rightarrow> (string, string) pydict \<Rightarrow> string \<Rightarrow> followup \<Rightarrow> followup" where
  "remap_item env st params engine item = (case item of
       SwapTemplateFollowup rationale tid space \<Rightarrow>
         resolve_swap env st params engine rationale tid space (get_query_template (dv_templates env) tid)
     | _ \<Rightarrow> item)"

lemma remap_cached:
  "\<forall>tid t. map_of cache tid = Some t \<longrightarrow> t = get_query_template (dv_templates env) tid \<Longrightarrow>
   apply_swap_template_remap env st params engine cache items = map (remap_item env st params engine) items"
proof (induction items arbitrary: cache)
  case (Cons item items)
  then show ?case
    by (cases item) (auto simp: remap_item_def Let_def intro!: Cons.IH split: option.splits)
qed simp

lemma resolved_swap:
  assumes "resolve_swap env st params engine rationale tid space (get_query_template ts tid) = SwapTemplateFollowup r tid' space'"
    and "permutes_lists (dv_set_order env)" and "\<forall>t\<in>set ts. dict_ok (ti_declared_params t)"
  shows "\<exists>t\<in>set ts. ti_id t = tid' \<and> tid' \<noteq> st_template_id st \<and> ti_engine_type t = engine \<and> space_ok space' \<and>
    dict_keys space' = sorted_set (dict_keys (ti_declared_params t))"
proof -
  obtain t rr where t: "get_query_template ts tid = Some t"
    and ne: "ti_id t \<noteq> st_template_id st" "ti_engine_type t = engine"
    and rr: "remap_search_space_for_swap_target (dv_set_order env) params (ti_declared_params t) space = Inr rr"
      "tid' = tid" "space' = rm_search_space rr"
    using assms(1) by (auto simp: resolve_swap_def downgrade_swap_template_to_text_def Let_def split: option.splits if_splits sum.splits)
  have "t \<in> set ts" "ti_id t = tid" using find_Some_in [OF t [unfolded get_query_template_def]] by auto
  moreover have "dict_ok (ti_declared_params t)" using \<open>t \<in> set ts\<close> assms(3) by blast
  ultimately show ?thesis using remap_spec [OF assms(2) _ rr(1)] ne rr(2,3) by auto
qed

lemma kept_followups:
  assumes "dv_clusters env (st_cluster_id st) = Some (name, engine)" and "permutes_lists (dv_set_order env)"
    and "\<forall>t\<in>set (dv_templates env). dict_ok (ti_declared_params t)"
    and "SwapTemplateFollowup r tid space \<in> set (digest_followups env st params items)"
  shows "\<exists>t\<in>set (dv_templates env). ti_id t = tid \<and> tid \<noteq> st_template_id st \<and> ti_engine_type t = engine \<and> space_ok space \<and>
    dict_keys space = sorted_set (dict_keys (ti_declared_params t))"
proof -
  obtain item where "SwapTemplateFollowup r tid space = remap_item env st params engine item"
    using assms(1,4) remap_cached [of "[]" env st params engine]
    by (auto simp: digest_followups_def Let_def)
  then obtain rationale tid0 space0 where
    "resolve_swap env st params engine rationale tid0 space0 (get_query_template (dv_templates env) tid0) = SwapTemplateFollowup r tid space \<or>
     item = SwapTemplateFollowup rationale tid0 space0"
    by (cases item) (auto simp: remap_item_def)
  with \<open>_ = remap_item env st params engine item\<close> have
    "resolve_swap env st params engine rationale tid0 space0 (get_query_template (dv_templates env) tid0) = SwapTemplateFollowup r tid space"
    by (cases item) (auto simp: remap_item_def)
  from resolved_swap [OF this assms(2,3)] show ?thesis .
qed

lemma kept_at_most_five: "length (digest_followups env st params items) \<le> 5"
  using remap_cached [of "[]" env st params] by (auto simp: digest_followups_def Let_def split: option.splits)

text \<open>Stored suggestions are read back as they were.\<close>

lemma stored_followups_parse:
  assumes "\<forall>f\<in>set fs. \<forall>d. dump_followup f = PDict d \<longrightarrow> validate d = Inr f"
  shows "parse_followup_list validate py_repr (PList (map dump_followup fs)) = (fs, [])"
proof -
  have item: "parse_item validate py_repr (dump_followup f) = (Some f, None)" if "f \<in> set fs" for f
    using assms that by (cases f) (auto simp: parse_item_def)
  have "fold (\<lambda>item (result, events). (let (f, ev) = parse_item validate py_repr item
            in (result @ (case f of None \<Rightarrow> [] | Some x \<Rightarrow> [x]),
                events @ (case ev of None \<Rightarrow> [] | Some x \<Rightarrow> [x])))) (map dump_followup gs) (acc, evs) = (acc @ gs, evs)"
    if "set gs \<subseteq> set fs" for gs acc evs
    using that by (induction gs arbitrary: acc) (auto simp: item)
  from this [of fs "[]" "[]"] show ?thesis by (simp add: parse_followup_list_def)
qed

section \<open>Properties\<close>

text \<open>C25 A study never has two digests and a digest is never replaced, however often the job is
  delivered and whatever other sessions add meanwhile; and a delivery for a study that has a digest
  changes nothing, so it pays for no second call.\<close>

theorem one_digest_per_study:
  assumes "one_digest_each s" and "list_all event_keeps events" and "s' = fold digest_step events s"
  shows "one_digest_each s' \<and> set (dt_digests s) \<subseteq> set (dt_digests s') \<and>
    (\<forall>env. \<forall>e\<in>set (dt_digests s'). generate_digest env (de_study_id e) s' = (DigestStopped, s'))"
  using digests_only_grow [OF assms(2)] assms(1,3) by (auto simp: keeps_digests_def intro: second_delivery_stops)

text \<open>C26 A completed run adds one digest, for a completed study. With structured output (a capability
  recorded as ok for the configured model) it recommends exactly the best trial's parameters that the
  template still declares, without it nothing. The study's pending proposal, or the row inserted for want
  of one, then holds the change from the template's defaults to those values, with the metrics before and
  after, if it is still pending; it is deleted when every parameter of the best trial has gone; without
  structured output it stays. All other rows stay as the other sessions left them.\<close>

theorem digest_recommends:
  assumes "generate_digest env i s = (DigestComplete, s')" and "others = dv_during env (dv_meanwhile env s)"
  shows "\<exists>st best achieved tpl defaults e p ps. get_study (dt_db s) i = Some st \<and> st_status st = Completed \<and>
    best \<in> set (db_trials (dt_db (dv_meanwhile env s))) \<and> tr_study_id best = i \<and>
    st_best_trial_id st = Some (tr_id best) \<and> st_best_metric st = Some achieved \<and>
    get_query_template (dv_templates env) (st_template_id st) = Some tpl \<and>
    compute_default_params (map (\<lambda>(n, t). (n, PStr t)) (ti_declared_params tpl)) = Inr defaults \<and>
    (case find (\<lambda>p. pp_study_id p = Some i \<and> pp_status p = Pending) (db_proposals (dt_db (dv_meanwhile env s))) of
       Some q \<Rightarrow> p = q \<and> ps = [] | None \<Rightarrow> p = pending_row env st \<and> ps = [p]) \<and>
    dt_digests s' = dt_digests others @ [e] \<and> de_study_id e = i \<and>
    (let structured = (dv_capability env = Some (''ok'', dv_model env));
         left = filter (\<lambda>(n, v). n \<in> set (dict_keys (ti_declared_params tpl))) (tr_params best);
         gone = (tr_params best \<noteq> [] \<and> left = []);
         rows = db_proposals (dt_db others) @ ps;
         still = (\<exists>r. find (\<lambda>r. pp_id r = pp_id p) rows = Some r \<and> pp_status r = Pending);
         diff = map (\<lambda>(n, v). (n, PDict [(''from'', obj_get defaults n), (''to'', v)])) left;
         delta = [(digest_metric_key (dv_str env) (st_objective st),
           PDict [(''baseline'', opt_float (st_baseline_metric st)), (''achieved'', PFloat achieved),
             (''delta_pct'', case st_baseline_metric st of None \<Rightarrow> PNone
               | Some b \<Rightarrow> if feq b (Fin 0) then PNone else (case fdiv (fsub achieved b) b of
                   None \<Rightarrow> PNone | Some q \<Rightarrow> PFloat (dv_round1 env (fmul q (Fin 100)))))])]
     in de_recommended_config e = (if structured then left else []) \<and>
       db_proposals (dt_db s') =
         (if \<not> structured \<or> \<not> gone \<and> \<not> still then rows
          else if gone then filter (\<lambda>r. pp_id r \<noteq> pp_id p) rows
          else map (\<lambda>r. if pp_id r = pp_id p \<and> pp_status r = Pending then r\<lparr>pp_config_diff := diff\<rparr> else r) rows) \<and>
       dt_metric_delta s' =
         (if structured \<and> \<not> gone \<and> still then (dt_metric_delta others)(pp_id p \<mapsto> delta) else dt_metric_delta others))"
proof -
  obtain st best achieved importance tpl p ps answer where
    st: "get_study (dt_db s) i = Some st" "st_status st = Completed" "st_best_metric st = Some achieved"
      "best \<in> set (db_trials (dt_db (dv_meanwhile env s)))" "tr_study_id best = i" "st_best_trial_id st = Some (tr_id best)"
    and ps: "ensure_pending_proposal env st (dt_db (dv_meanwhile env s)) = Some (p, ps)"
    and tpl: "get_query_template (dv_templates env) (st_template_id st) = Some tpl"
    and run: "persist_digest env st achieved (tr_params best) importance tpl p ps answer others = (DigestComplete, s')"
    using complete_run [OF assms(1)] assms(2) by metis
  from run obtain defaults cost kept gone followups e s1 s2 where
    d: "compute_default_params (map (\<lambda>(n, t). (n, PStr t)) (ti_declared_params tpl)) = Inr defaults"
    and gone: "gone \<longleftrightarrow> tr_params best \<noteq> [] \<and> recommended_config_of (tr_params best) (ti_declared_params tpl) = []"
    and kept: "kept = (if structured_output_enabled env \<and> \<not> gone then recommended_config_of (tr_params best) (ti_declared_params tpl) else [])"
    and e: "de_study_id e = st_id st" "de_recommended_config e = kept"
    and s1: "create_digest e (add_proposals ps others) = Some s1"
    and s2: "settle_proposal (structured_output_enabled env) gone (pp_id p) (digest_config_diff defaults kept)
       (compute_metric_delta env st achieved) s1 = Some s2" "s' = after_commit env st cost s2"
    by (elim persist_complete) blast
  have s1_parts: "db_proposals (dt_db s1) = db_proposals (dt_db others) @ ps" "dt_metric_delta s1 = dt_metric_delta others"
    "dt_digests s1 = dt_digests others @ [e]"
    using s1 by (auto simp: create_digest_def add_proposals_def split: if_splits)
  have structured: "structured_output_enabled env \<longleftrightarrow> dv_capability env = Some (''ok'', dv_model env)"
    by (auto simp: structured_output_enabled_def split: option.splits)
  note fin = settled [OF s2(1) refl, unfolded s1_parts structured digest_config_diff_def compute_metric_delta_def Let_def]
  have "dt_digests s' = dt_digests others @ [e]" "dt_metric_delta s' = dt_metric_delta s2"
    "db_proposals (dt_db s') = db_proposals (dt_db s2)"
    using fin(1) s2(2) by (simp_all add: after_commit_def Let_def)
  with st tpl d e ensured [OF ps] get_study_id [OF st(1)] fin(2,3) show ?thesis
    unfolding Let_def gone kept structured recommended_config_of_def
    by (intro exI [of _ st] exI [of _ best] exI [of _ achieved] exI [of _ tpl] exI [of _ defaults] exI [of _ e]
        exI [of _ p] exI [of _ ps]) (simp, auto)
qed

text \<open>A completed run stores at most five suggestions. One to swap the template names another
  template, of the engine of the study's cluster, with a valid space over exactly the parameters that
  template declares; and the worker that extends the chain reads the suggestions back as they were.\<close>

theorem digest_suggestions:
  assumes "generate_digest env i s = (DigestComplete, s')" and "others = dv_during env (dv_meanwhile env s)"
    and "get_study (dt_db s) i = Some st" and "dv_clusters env (st_cluster_id st) = Some (name, engine)"
    and "permutes_lists (dv_set_order env)" and "\<forall>t\<in>set (dv_templates env). dict_ok (ti_declared_params t)"
  shows "\<exists>fs e. dt_digests s' = dt_digests others @ [e] \<and> de_suggested_followups e = map dump_followup fs \<and> length fs \<le> 5 \<and>
    (\<forall>r tid space. SwapTemplateFollowup r tid space \<in> set fs \<longrightarrow>
       (\<exists>t\<in>set (dv_templates env). ti_id t = tid \<and> tid \<noteq> st_template_id st \<and> ti_engine_type t = engine \<and>
          space_ok space \<and> dict_keys space = sorted_set (dict_keys (ti_declared_params t)))) \<and>
    ((\<forall>f\<in>set fs. \<forall>d. dump_followup f = PDict d \<longrightarrow> dv_validate env d = Inr f) \<longrightarrow>
       parse_followup_list (dv_validate env) (dv_repr env) (PList (de_suggested_followups e)) = (fs, []))"
proof -
  obtain st' and best :: trial and achieved importance tpl p ps answer where "get_study (dt_db s) i = Some st'"
    and run: "persist_digest env st' achieved (tr_params best) importance tpl p ps answer others = (DigestComplete, s')"
    by (rule complete_run [OF assms(1), folded assms(2)]) blast
  then have "st' = st" using assms(3) by simp
  with run obtain cost gone items e s1 s2 x i' diff delta where
    e: "de_suggested_followups e = map dump_followup (digest_followups env st (ti_declared_params tpl) items)"
    and s1: "create_digest e (add_proposals ps others) = Some s1"
    and s2: "settle_proposal x gone i' diff delta s1 = Some s2" "s' = after_commit env st cost s2"
    by (elim persist_complete) blast
  have "dt_digests s' = dt_digests others @ [e]" using digests.inserted [OF s1] s2 by simp
  with e kept_at_most_five [of env st "ti_declared_params tpl" items] kept_followups [OF assms(4-6)] show ?thesis
    by (intro exI [of _ "digest_followups env st (ti_declared_params tpl) items"] exI [of _ e])
      (auto intro: stored_followups_parse)
qed

lemma persist_completes:
  assumes "compute_call_cost (dv_model env) it ot = Inr cost"
    and "compute_default_params (map (\<lambda>(n, t). (n, PStr t)) (ti_declared_params tpl)) = Inr defaults"
    and "structured_output_enabled env" and "recommended_config_of best_params (ti_declared_params tpl) = kept" and "kept \<noteq> []"
    and "digest_followups env st (ti_declared_params tpl)
       (merge_followups env True False (dropped_params best_params (ti_declared_params tpl)) raw) = followups"
    and "create_digest \<lparr>de_id = dv_digest_id env, de_study_id = st_id st, de_narrative = narrative,
       de_parameter_importance = importance, de_recommended_config = kept,
       de_suggested_followups = map dump_followup followups, de_generated_by = ''openai:'' @ dv_model env\<rparr> (add_proposals ps s) = Some s1"
    and "settle_proposal True False (pp_id p) (digest_config_diff defaults kept) (compute_metric_delta env st achieved) s1 = Some s2"
  shows "persist_digest env st achieved best_params importance tpl p ps (narrative, raw, it, ot) s = (DigestComplete, after_commit env st cost s2)"
  unfolding persist_digest_def Let_def prod.case using assms by simp

section \<open>A concrete run\<close>

definition demo_templates :: "template_info list" where
  "demo_templates =
    [\<lparr>ti_id = ''tpl'', ti_name = ''a'', ti_version = 1, ti_engine_type = ''solr'', ti_declared_params = [(''x'', ''int'')], ti_created_at = 0\<rparr>,
     \<lparr>ti_id = ''other'', ti_name = ''b'', ti_version = 1, ti_engine_type = ''solr'', ti_declared_params = [(''x'', ''int'')], ti_created_at = 1\<rparr>]"

definition demo_swap_item :: pyval where
  "demo_swap_item = PDict [(''kind'', PStr ''swap_template''), (''rationale'', PStr ''why''), (''search_space_json'', PStr ''{}''),
     (''template_id'', PStr ''other'')]"

definition demo_validate :: "obj \<Rightarrow> string + followup" where
  "demo_validate d = (case (obj_get d ''rationale'', obj_get d ''template_id'') of
       (PStr r, PStr t) \<Rightarrow> Inr (SwapTemplateFollowup r t sample_space_x)
     | (PStr r, _) \<Rightarrow> Inr (TextFollowup r)
     | _ \<Rightarrow> Inl ''bad'')"

definition demo_digest_env :: digest_env where
  "demo_digest_env = \<lparr>dv_got_lock = True, dv_api_key = ''k'', dv_model = ''gpt-4o-2024-08-06'', dv_capability = Some (''ok'', ''gpt-4o-2024-08-06''),
     dv_budget = Fin 0, dv_peek_fails = False, dv_redis_add = (\<lambda>x y. x), dv_redis_fault = IncrFails, dv_now = 7,
     dv_open_optuna = (\<lambda>_ _ _ _. True), dv_importance = (\<lambda>_. None), dv_templates = demo_templates,
     dv_clusters = (\<lambda>_. Some (''c'', ''solr'')), dv_query_sets = (\<lambda>_. None), dv_judgment_lists = (\<lambda>_. None),
     dv_numpy = demo_numpy, dv_column = (\<lambda>_. None), dv_queries = [], dv_render = (\<lambda>_. Some ''prompt''),
     dv_llm = (\<lambda>_ _. LlmReply (Some ''{}'') (Some (1000, 2000))),
     dv_loads = (\<lambda>_. Some (PDict [(''narrative'', PStr ''n''), (''suggested_followups'', PList [demo_swap_item])])),
     dv_strip = (\<lambda>x. x), dv_validate = demo_validate, dv_repr = (\<lambda>_. ''['' @ '']''), dv_str = (\<lambda>_. ''mrr''), dv_set_order = (\<lambda>x. x),
     dv_error_text = (\<lambda>_. ''e''), dv_round1 = (\<lambda>x. x), dv_proposal_id = ''pp'', dv_digest_id = ''d'', dv_pool = PoolAccepts,
     dv_meanwhile = (\<lambda>s. s), dv_during = (\<lambda>s. s)\<rparr>"

definition demo_digest_study :: study where
  "demo_digest_study = (sample_study ''s'' None Completed)\<lparr>st_template_id := ''tpl'', st_objective := [(''metric'', PStr ''mrr'')],
     st_config := [(''max_trials'', PInt 10), (depth_key, PInt 1)],
     st_best_trial_id := Some ''t'', st_best_metric := Some (Fin 1), st_baseline_metric := None\<rparr>"

definition demo_digest_store :: digest_store where
  "demo_digest_store = \<lparr>dt_db = \<lparr>db_studies = [demo_digest_study],
       db_trials = [(sample_trial ''t'' ''s'' 1 Complete (Some (Fin 1)))\<lparr>tr_params := [(''x'', PInt 2), (''gone'', PInt 1)]\<rparr>],
       db_proposals = [sample_proposal ''p'' (Some ''s'') Pending]\<rparr>,
     dt_digests = [], dt_metric_delta = (\<lambda>_. None), dt_redis = (\<lambda>_. None), dt_followup_jobs = []\<rparr>"

lemma demo_recommended: "recommended_config_of [(''x'', PInt 2), (''gone'', PInt 1)] [(''x'', ''int'')] = [(''x'', PInt 2)]"
  by code_simp

definition demo_suggestions :: "followup list" where
  "demo_suggestions =
     [TextFollowup ''Best trial used params no longer declared on the template: []. Re-establish them or accept the filtered config.'',
      SwapTemplateFollowup ''why'' ''other'' sample_space_x]"

lemma demo_followups:
  "digest_followups demo_digest_env demo_digest_study [(''x'', ''int'')]
     (merge_followups demo_digest_env True False (dropped_params [(''x'', PInt 2), (''gone'', PInt 1)] [(''x'', ''int'')]) [demo_swap_item]) =
   demo_suggestions"
  by code_simp

definition demo_digest_row :: digest_entry where
  "demo_digest_row = \<lparr>de_id = ''d'', de_study_id = ''s'', de_narrative = ''n'', de_parameter_importance = [],
     de_recommended_config = [(''x'', PInt 2)], de_suggested_followups = map dump_followup demo_suggestions,
     de_generated_by = ''openai:gpt-4o-2024-08-06''\<rparr>"

definition demo_best :: trial where
  "demo_best = (sample_trial ''t'' ''s'' 1 Complete (Some (Fin 1)))\<lparr>tr_params := [(''x'', PInt 2), (''gone'', PInt 1)]\<rparr>"

definition demo_proposal_row :: proposal where
  "demo_proposal_row = sample_proposal ''p'' (Some ''s'') Pending"

lemma demo_pieces:
  "ensure_pending_proposal demo_digest_env demo_digest_study (dt_db demo_digest_store) = Some (demo_proposal_row, [])"
  "get_query_template (dv_templates demo_digest_env) (st_template_id demo_digest_study) = Some (hd demo_templates)"
  "structured_output_enabled demo_digest_env"
  "recommended_config_of (tr_params demo_best) (ti_declared_params (hd demo_templates)) = [(''x'', PInt 2)]"
  "tr_params demo_best = [(''x'', PInt 2), (''gone'', PInt 1)]"
  "ti_declared_params (hd demo_templates) = [(''x'', ''int'')]"
  "compute_default_params [(''x'', PStr ''int'')] = Inr [(''x'', PInt 1)]"
  "call_openai_for_digest demo_digest_env prompt True = Some (''n'', [demo_swap_item], 1000, 2000)"
  "dv_render demo_digest_env pin = Some ''prompt''" "dv_model demo_digest_env = ''gpt-4o-2024-08-06''"
  "dv_during demo_digest_env = (\<lambda>s. s)" "dv_meanwhile demo_digest_env = (\<lambda>s. s)" "dv_digest_id demo_digest_env = ''d''"
  by (code_simp, code_simp, code_simp, code_simp, code_simp, code_simp, code_simp,
      simp_all add: call_openai_for_digest_def demo_digest_env_def obj_get_def obj_get_default_def)

lemma demo_tables:
  "dt_digests demo_digest_store = []" "st_id demo_digest_study = ''s''" "get_study (dt_db demo_digest_store) ''s'' = Some demo_digest_study"
  "db_proposals (dt_db demo_digest_store) = [demo_proposal_row]" "pp_id demo_proposal_row = ''p''" "pp_status demo_proposal_row = Pending"
  "get_study (dt_db demo_digest_store\<lparr>db_proposals := ps\<rparr>) ''s'' = Some demo_digest_study"
  by (simp_all add: demo_digest_store_def demo_digest_study_def get_study_def sample_study_def demo_proposal_row_def sample_proposal_def)

lemma demo_row:
  "\<lparr>de_id = dv_digest_id demo_digest_env, de_study_id = st_id demo_digest_study, de_narrative = ''n'',
     de_parameter_importance = [], de_recommended_config = [(''x'', PInt 2)],
     de_suggested_followups = map dump_followup demo_suggestions,
     de_generated_by = ''openai:'' @ dv_model demo_digest_env\<rparr> = demo_digest_row"
  by (simp add: demo_digest_row_def demo_pieces demo_tables)

lemma demo_created:
  "create_digest \<lparr>de_id = dv_digest_id demo_digest_env, de_study_id = st_id demo_digest_study, de_narrative = ''n'',
     de_parameter_importance = [], de_recommended_config = [(''x'', PInt 2)],
     de_suggested_followups = map dump_followup demo_suggestions,
     de_generated_by = ''openai:'' @ dv_model demo_digest_env\<rparr> (add_proposals [] demo_digest_store) =
   Some (demo_digest_store\<lparr>dt_digests := [demo_digest_row]\<rparr>)"
  unfolding demo_row
  by (simp add: create_digest_def get_digest_for_study_def add_proposals_def demo_tables demo_digest_row_def)

definition demo_diff :: obj where
  "demo_diff = [(''x'', PDict [(''from'', PInt 1), (''to'', PInt 2)])]"

lemma settle_single:
  assumes "db_proposals (dt_db s) = [r]" and "pp_status r = Pending"
  shows "\<exists>s2. settle_proposal True False (pp_id r) diff delta s = Some s2 \<and> dt_digests s2 = dt_digests s \<and>
     db_proposals (dt_db s2) = [r\<lparr>pp_config_diff := diff\<rparr>]"
proof -
  let ?d = "update_proposals (\<lambda>x. pp_id x = pp_id r \<and> pp_status x = Pending) (\<lambda>r. r\<lparr>pp_config_diff := diff\<rparr>) (dt_db s)"
  have g: "get_proposal (dt_db s) (pp_id r) = Some r" by (simp add: get_proposal_def assms)
  have u: "update_proposal_for_digest (pp_id r) diff (dt_db s) = (Some (r\<lparr>pp_config_diff := diff\<rparr>), ?d)"
    by (simp add: update_proposal_for_digest_def conditional_update_def g assms(2))
  have "db_proposals ?d = [r\<lparr>pp_config_diff := diff\<rparr>]" by (simp add: update_proposals_def assms)
  then show ?thesis unfolding settle_proposal_def u by simp
qed

lemma demo_narrate:
  "\<exists>s'. narrate demo_digest_env demo_digest_study (Fin 1) [] demo_best demo_digest_store = (DigestComplete, s') \<and>
     dt_digests s' = [demo_digest_row] \<and> db_proposals (dt_db s') = [demo_proposal_row\<lparr>pp_config_diff := demo_diff\<rparr>]"
proof -
  obtain c where c: "compute_call_cost (dv_model demo_digest_env) 1000 2000 = Inr c" using demo_cost demo_pieces(10) by metis
  have diff: "digest_config_diff [(''x'', PInt 1)] [(''x'', PInt 2)] = demo_diff" by code_simp
  obtain s2 where s2: "settle_proposal True False (pp_id demo_proposal_row) (digest_config_diff [(''x'', PInt 1)] [(''x'', PInt 2)])
      (compute_metric_delta demo_digest_env demo_digest_study (Fin 1)) (demo_digest_store\<lparr>dt_digests := [demo_digest_row]\<rparr>) = Some s2"
    "dt_digests s2 = [demo_digest_row]" "db_proposals (dt_db s2) = [demo_proposal_row\<lparr>pp_config_diff := demo_diff\<rparr>]"
  proof -
    have one: "db_proposals (dt_db (demo_digest_store\<lparr>dt_digests := [demo_digest_row]\<rparr>)) = [demo_proposal_row]"
      by (simp add: demo_tables)
    from settle_single [OF one demo_tables(6), of demo_diff "compute_metric_delta demo_digest_env demo_digest_study (Fin 1)"] that
    show thesis unfolding diff by auto
  qed
  have "compute_default_params (map (\<lambda>(n, t). (n, PStr t)) (ti_declared_params (hd demo_templates))) = Inr [(''x'', PInt 1)]"
    using demo_pieces(6,7) by simp
  from persist_completes [OF c this demo_pieces(3,4) _ demo_followups [folded demo_pieces(5) demo_pieces(6)]
      demo_created s2(1)] s2(2,3)
  have "\<exists>s'. persist_digest demo_digest_env demo_digest_study (Fin 1) (tr_params demo_best) [] (hd demo_templates)
      demo_proposal_row [] (''n'', [demo_swap_item], 1000, 2000) demo_digest_store = (DigestComplete, s') \<and>
     dt_digests s' = [demo_digest_row] \<and> db_proposals (dt_db s') = [demo_proposal_row\<lparr>pp_config_diff := demo_diff\<rparr>]"
    by simp
  then show ?thesis by (simp add: narrate_def demo_pieces(1-4,8-11) Let_def)
qed


lemma demo_digest_run:
  "\<exists>s'. generate_digest demo_digest_env ''s'' demo_digest_store = (DigestComplete, s') \<and> dt_digests s' = [demo_digest_row] \<and>
     db_proposals (dt_db s') = [demo_proposal_row\<lparr>pp_config_diff := demo_diff\<rparr>]"
proof -
  have "st_status demo_digest_study = Completed" "st_best_metric demo_digest_study = Some (Fin 1)" "dv_got_lock demo_digest_env"
    "load_importance demo_digest_env demo_digest_study = Some []" "get_digest_for_study demo_digest_store ''s'' = None"
    "find (\<lambda>t. tr_study_id t = ''s'' \<and> Some (tr_id t) = st_best_trial_id demo_digest_study) (db_trials (dt_db demo_digest_store)) = Some demo_best"
    by code_simp+
  moreover have "digest_preflight demo_digest_env demo_digest_store = None"
    by (simp add: digest_preflight_def demo_digest_env_def known_models_def MODEL_USD_PER_1K_INPUT_def MODEL_USD_PER_1K_OUTPUT_def dict_keys_def)
  ultimately show ?thesis using demo_narrate
    by (simp add: generate_digest_def digest_under_lock_def demo_tables demo_pieces(11,12))
qed

lemma one_digest_per_study_witness:
  "one_digest_each (fold digest_step [DigestDelivery demo_digest_env ''s'', DigestDelivery demo_digest_env ''s''] demo_digest_store)"
  using one_digest_per_study [OF _ _ refl, of demo_digest_store "[DigestDelivery demo_digest_env ''s'', DigestDelivery demo_digest_env ''s'']"]
  by (simp add: one_digest_each_def demo_tables demo_pieces(11,12))

lemma digest_recommends_witness:
  "\<exists>s' e. generate_digest demo_digest_env ''s'' demo_digest_store = (DigestComplete, s') \<and>
     dt_digests s' = dt_digests demo_digest_store @ [e] \<and> de_study_id e = ''s''"
proof -
  obtain s' where s': "generate_digest demo_digest_env ''s'' demo_digest_store = (DigestComplete, s')" using demo_digest_run by blast
  from digest_recommends [OF s', of demo_digest_store] show ?thesis using s' by (auto simp: demo_pieces(11,12))
qed

lemma digest_suggestions_witness:
  "\<exists>s' e. generate_digest demo_digest_env ''s'' demo_digest_store = (DigestComplete, s') \<and>
     dt_digests s' = dt_digests demo_digest_store @ [e] \<and> length (de_suggested_followups e) \<le> 5"
proof -
  obtain s' where s': "generate_digest demo_digest_env ''s'' demo_digest_store = (DigestComplete, s')" using demo_digest_run by blast
  have "dv_clusters demo_digest_env (st_cluster_id demo_digest_study) = Some (''c'', ''solr'')" "permutes_lists (dv_set_order demo_digest_env)"
    "\<forall>t\<in>set (dv_templates demo_digest_env). dict_ok (ti_declared_params t)"
    by (simp_all add: demo_digest_env_def demo_templates_def permutes_lists_def dict_ok_def dict_keys_def)
  from digest_suggestions [OF s', of demo_digest_store, OF _ demo_tables(3) this] show ?thesis
    using s' by (auto simp: demo_pieces(11,12))
qed

end
