(* ===== verification/Open_Pr.thy ===== *)
theory Open_Pr
  imports Pr_Body Proposals
begin

text \<open>
  The job that opens a pull request (\<open>backend/workers/git_pr.py\<close>). The clone, the git executable, the
  file system, the plotting library and GitHub are a parameter: a \<open>world\<close>, whose operations take its
  state to an answer and the next state. A path is the list of its components. \<open>oe_meanwhile\<close> and
  \<open>oe_during\<close> are what other sessions commit between the first read of the proposal and the lock, and
  while the lock is held. Logging and the measured duration are left out.
\<close>

section \<open>The world\<close>

type_synonym path = "string list"

text \<open>Reading a text: an \<open>OSError\<close> has a class; bytes that are no text raise another exception.\<close>

datatype read_answer = FileText string | OsError string | NotText

record 'w world =
  w_git :: "path option \<Rightarrow> (string, string) pydict \<Rightarrow> string list \<Rightarrow> 'w \<Rightarrow> (int \<times> string \<times> string) \<times> 'w"
  w_http :: "gh_request \<Rightarrow> 'w \<Rightarrow> http_answer \<times> 'w"
  w_exists :: "path \<Rightarrow> 'w \<Rightarrow> bool"
  w_is_dir :: "path \<Rightarrow> 'w \<Rightarrow> bool"
  w_is_file :: "path \<Rightarrow> 'w \<Rightarrow> bool"
  w_resolve :: "path \<Rightarrow> 'w \<Rightarrow> path"
  w_read_text :: "path \<Rightarrow> 'w \<Rightarrow> read_answer"
  w_write_text :: "path \<Rightarrow> string \<Rightarrow> 'w \<Rightarrow> 'w"
  w_mkdir :: "path \<Rightarrow> 'w \<Rightarrow> 'w"
  w_rmtree :: "path \<Rightarrow> 'w \<Rightarrow> 'w"
  w_unlink :: "path \<Rightarrow> 'w \<Rightarrow> 'w"
  w_chart :: "(string, pyfloat) pydict \<Rightarrow> path \<Rightarrow> 'w \<Rightarrow> bool \<times> 'w"

record pr_repo = config_repo +
  cr_pr_base_branch :: string

record cluster_row =
  cl_id :: string
  cl_name :: string
  cl_config_repo_id :: "string option"
  cl_config_path :: "string option"

record template_row =
  tp_id :: string
  tp_name :: string
  tp_declared_params :: obj

record digest_row =
  dg_parameter_importance :: "(string, pyfloat) pydict"
  dg_suggested_followups :: "pyval list"

record open_env =
  oe_clusters :: "cluster_row list"
  oe_repos :: "pr_repo list"
  oe_templates :: "template_row list"
  oe_digests :: "string \<Rightarrow> digest_row option"
  oe_metric_delta :: "string \<Rightarrow> obj option"
  oe_numpy :: numpy
  oe_column :: "string \<Rightarrow> per_query option"
  oe_queries :: "(string \<times> string) list"
  oe_secrets :: secret_files
  oe_base_url :: "string option"
  oe_author_name :: string
  oe_author_email :: string
  oe_clone_root :: path
  oe_client :: client_env
  oe_formats :: formats
  oe_redact :: "string \<Rightarrow> string"
  oe_repr :: "string \<Rightarrow> string"
  oe_lower :: "string \<Rightarrow> string"
  oe_loads :: "string \<Rightarrow> string + pyval"
  oe_dumps :: "obj \<Rightarrow> string"
  oe_error_written :: bool
  oe_lock_free :: bool
  oe_meanwhile :: "db \<Rightarrow> db"
  oe_during :: "db \<Rightarrow> db"

section \<open>Helpers\<close>

text \<open>\<open>_read_pat\<close> repeats \<open>read_mounted_secret\<close> with a log line.\<close>

definition read_pat :: "secret_files \<Rightarrow> string \<Rightarrow> string option" where
  "read_pat fs auth_ref = read_mounted_secret fs auth_ref"

definition safe_set_pr_open_error :: "open_env \<Rightarrow> string \<Rightarrow> string \<Rightarrow> db \<Rightarrow> db" where
  "safe_set_pr_open_error env proposal_id error_msg d =
     (if oe_error_written env then snd (set_proposal_pr_open_error proposal_id (oe_redact env error_msg) d) else d)"

definition git_env :: "string \<Rightarrow> (string, string) pydict" where
  "git_env token = [(''GIT_CONFIG_COUNT'', ''1''), (''GIT_CONFIG_KEY_0'', ''http.https://github.com/.extraheader''),
     (''GIT_CONFIG_VALUE_0'', ''AUTHORIZATION: Bearer '' @ token)]"

definition commit_env :: "open_env \<Rightarrow> string \<Rightarrow> (string, string) pydict" where
  "commit_env env token = git_env token @
     [(''GIT_AUTHOR_NAME'', oe_author_name env), (''GIT_AUTHOR_EMAIL'', oe_author_email env),
      (''GIT_COMMITTER_NAME'', oe_author_name env), (''GIT_COMMITTER_EMAIL'', oe_author_email env)]"

text \<open>Why a step does not end: a message for the operator, or an exception no handler catches.\<close>

datatype pr_stop = Stop string | Crash

definition redact_subprocess_error :: "open_env \<Rightarrow> int \<times> string \<times> string \<Rightarrow> string" where
  "redact_subprocess_error env r = (case r of (code, out, err) \<Rightarrow>
     join_with '': '' ([''git exited '' @ int_str code] @
       (if err \<noteq> [] then [oe_redact env (py_strip err)] else if out \<noteq> [] then [oe_redact env (py_strip out)] else [])))"

text \<open>\<open>check=True\<close>: a return code that is not zero raises. \<open>prefix\<close> is what the handler of the caller puts
  before the message.\<close>

definition git_subprocess ::
  "open_env \<Rightarrow> 'w world \<Rightarrow> string \<Rightarrow> path option \<Rightarrow> (string, string) pydict \<Rightarrow> string list \<Rightarrow> 'w \<Rightarrow> (pr_stop + string) \<times> 'w" where
  "git_subprocess env w pre cwd vars args s =
     (case w_git w cwd vars args s of ((code, out, err), s1) \<Rightarrow>
        (if code = 0 then Inr out else Inl (Stop (pre @ redact_subprocess_error env (code, out, err))), s1))"

fun git_sequence ::
  "open_env \<Rightarrow> 'w world \<Rightarrow> string \<Rightarrow> path \<Rightarrow> string \<Rightarrow> string list list \<Rightarrow> 'w \<Rightarrow> (pr_stop + unit) \<times> 'w" where
  "git_sequence env w pre clone_dir token [] s = (Inr (), s)"
| "git_sequence env w pre clone_dir token (args # rest) s =
     (case git_subprocess env w pre (Some clone_dir) (git_env token) args s of
        (Inl e, s1) \<Rightarrow> (Inl e, s1)
      | (Inr _, s1) \<Rightarrow> git_sequence env w pre clone_dir token rest s1)"

definition branch_name :: "string \<Rightarrow> string option \<Rightarrow> string" where
  "branch_name proposal_id study_id = (case study_id of
       Some sid \<Rightarrow> if sid = [] then ''relyloop/proposal-'' @ proposal_id else ''relyloop/study-'' @ sid
     | None \<Rightarrow> ''relyloop/proposal-'' @ proposal_id)"

definition chart_raw_url :: "string \<Rightarrow> string \<Rightarrow> string \<Rightarrow> string \<Rightarrow> string" where
  "chart_raw_url owner rp branch study_id =
     ''https://github.com/'' @ owner @ ''/'' @ rp @ ''/raw/refs/heads/'' @ branch @ ''/.relyloop/digest-charts/'' @ study_id @ ''.png''"

text \<open>\<open>str\<close> of an absolute path, and \<open>base / text\<close>: an absolute text replaces the base, empty components and
  single dots vanish.\<close>

definition path_str :: "path \<Rightarrow> string" where
  "path_str p = (if p = [] then ''/'' else concat (map (\<lambda>c. ''/'' @ c) p))"

definition path_join :: "path \<Rightarrow> string \<Rightarrow> path" where
  "path_join p t = (let parts = filter (\<lambda>c. c \<noteq> [] \<and> c \<noteq> ''.'') (split_slash t)
     in if has_prefix ''/'' t then parts else p @ parts)"

section \<open>The clone and the branch\<close>

definition ensure_clone :: "open_env \<Rightarrow> 'w world \<Rightarrow> path \<Rightarrow> string \<Rightarrow> string \<Rightarrow> 'w \<Rightarrow> (pr_stop + unit) \<times> 'w" where
  "ensure_clone env w clone_dir repo_url token s =
     (let s1 = w_mkdir w (butlast clone_dir) s
      in if w_is_dir w (clone_dir @ [''.git'']) s1 then (Inr (), s1)
         else (let s2 = (if w_exists w clone_dir s1 then w_rmtree w clone_dir s1 else s1)
           in case git_subprocess env w ''CLONE_FAILED: '' None (git_env token) [''git'', ''clone'', repo_url, path_str clone_dir] s2 of
                (Inl e, s3) \<Rightarrow> (Inl e, s3)
              | (Inr _, s3) \<Rightarrow> (Inr (), s3)))"

definition prepare_commands :: "string \<Rightarrow> string \<Rightarrow> string list list" where
  "prepare_commands pr_base_branch new_branch =
     [[''git'', ''fetch'', ''origin'', pr_base_branch], [''git'', ''reset'', ''--hard'', ''origin/'' @ pr_base_branch],
      [''git'', ''clean'', ''-fdx''], [''git'', ''checkout'', ''-B'', new_branch, ''origin/'' @ pr_base_branch]]"

definition prepare_branch ::
  "open_env \<Rightarrow> 'w world \<Rightarrow> path \<Rightarrow> string \<Rightarrow> string \<Rightarrow> string \<Rightarrow> 'w \<Rightarrow> (pr_stop + unit) \<times> 'w" where
  "prepare_branch env w clone_dir pr_base_branch new_branch token =
     git_sequence env w ''git prepare failed: '' clone_dir token (prepare_commands pr_base_branch new_branch)"

definition branch_exists_on_remote ::
  "open_env \<Rightarrow> 'w world \<Rightarrow> path \<Rightarrow> string \<Rightarrow> string \<Rightarrow> 'w \<Rightarrow> (pr_stop + bool) \<times> 'w" where
  "branch_exists_on_remote env w clone_dir branch token s =
     (case git_subprocess env w ''git prepare failed: '' (Some clone_dir) (git_env token) [''git'', ''ls-remote'', ''--heads'', ''origin'', branch] s of
        (Inl e, s1) \<Rightarrow> (Inl e, s1)
      | (Inr out, s1) \<Rightarrow> (Inr (py_strip out \<noteq> []), s1))"

section \<open>The parameters file\<close>

definition config_path_error :: "open_env \<Rightarrow> string \<Rightarrow> string" where
  "config_path_error env p =
     ''config_path '' @ oe_repr env p @
     (if p \<noteq> [] \<and> (\<exists>e\<in>set line_ends. has_suffix e p \<and> length e < length p \<and> list_all path_char (take (length p - length e) p))
      then '' contains '' @ sq @ ''..'' @ sq @ '' traversal segment''
      else '' contains disallowed characters; allowed: alphanumerics, underscore, dot, slash, hyphen'')"

definition validate_params_path :: "open_env \<Rightarrow> 'w world \<Rightarrow> path \<Rightarrow> string \<Rightarrow> string \<Rightarrow> 'w \<Rightarrow> pr_stop + path" where
  "validate_params_path env w clone_dir config_path template_name s =
     (if \<not> validate_config_path config_path then Inl (Stop (''config_path traversal blocked: '' @ config_path_error env config_path))
      else (let candidate = w_resolve w (path_join (path_join clone_dir config_path) (template_name @ ''.params.json'')) s
        in if \<not> prefix (w_resolve w clone_dir s) candidate
           then Inl (Stop (''config_path traversal blocked: params path '' @ path_str candidate @ '' escapes the clone root''))
           else Inr candidate))"

definition NUMERIC_PARAM_TYPES :: "string list" where "NUMERIC_PARAM_TYPES = [''float'', ''number'', ''double'']"
definition INT_PARAM_TYPES :: "string list" where "INT_PARAM_TYPES = [''int'', ''integer'']"
definition BOOL_PARAM_TYPES :: "string list" where "BOOL_PARAM_TYPES = [''bool'', ''boolean'']"

fun type_name :: "pyval \<Rightarrow> string" where
  "type_name PNone = ''NoneType''"
| "type_name (PBool _) = ''bool''"
| "type_name (PInt _) = ''int''"
| "type_name (PFloat _) = ''float''"
| "type_name (PStr _) = ''str''"
| "type_name (PList _) = ''list''"
| "type_name (PDict _) = ''dict''"

fun is_float :: "pyval \<Rightarrow> bool" where
  "is_float (PFloat _) = True"
| "is_float _ = False"

text \<open>Subclasses share their handler: \<open>_ParamValueInvalidError\<close> is a \<open>_ParamNotInTemplateError\<close>.\<close>

datatype diff_error = ParamNotInTemplate string | ParamsFileNotFound string | Undecodable

definition unwrap_type :: "pyval \<Rightarrow> pyval" where
  "unwrap_type declared_type = (case declared_type of PDict t \<Rightarrow> obj_get t ''type'' | t \<Rightarrow> t)"

definition validate_config_value_type :: "open_env \<Rightarrow> string \<Rightarrow> pyval \<Rightarrow> pyval \<Rightarrow> diff_error option" where
  "validate_config_value_type env k v declared_type =
     (case unwrap_type declared_type of
        PStr dt \<Rightarrow>
          (let t = oe_lower env (py_strip dt);
               wrong = (\<lambda>kind. Some (ParamNotInTemplate (''config_diff['' @ oe_repr env k @ ''] value must be '' @ kind @
                 '' for declared type '' @ oe_repr env dt @ '', got '' @ type_name v)))
           in if t \<in> set NUMERIC_PARAM_TYPES then (if is_bool v \<or> \<not> (is_int v \<or> is_float v) then wrong ''numeric'' else None)
              else if t \<in> set INT_PARAM_TYPES then (if is_bool v \<or> \<not> is_int v then wrong ''an integer'' else None)
              else if t \<in> set BOOL_PARAM_TYPES then (if \<not> is_bool v then wrong ''a boolean'' else None)
              else None)
      | _ \<Rightarrow> None)"

fun merge_diff :: "open_env \<Rightarrow> obj \<Rightarrow> obj \<Rightarrow> obj \<Rightarrow> diff_error + obj" where
  "merge_diff env declared_params [] current = Inr current"
| "merge_diff env declared_params ((k, change) # rest) current =
     (case change of
        PDict c \<Rightarrow> (case map_of c ''to'' of
            None \<Rightarrow> Inl (ParamNotInTemplate (''config_diff['' @ oe_repr env k @ ''] missing '' @ sq @ ''to'' @ sq @ '' value''))
          | Some v \<Rightarrow> (case validate_config_value_type env k v (obj_get declared_params k) of
              Some e \<Rightarrow> Inl e
            | None \<Rightarrow> merge_diff env declared_params rest (dict_set k v current)))
      | _ \<Rightarrow> Inl (ParamNotInTemplate (''config_diff['' @ oe_repr env k @ ''] missing '' @ sq @ ''to'' @ sq @ '' value'')))"

definition apply_config_diff ::
  "open_env \<Rightarrow> 'w world \<Rightarrow> path \<Rightarrow> obj \<Rightarrow> obj \<Rightarrow> 'w \<Rightarrow> (diff_error + obj) \<times> 'w" where
  "apply_config_diff env w params_path config_diff declared_params s =
     (let drifted = filter (\<lambda>k. k \<notin> set (dict_keys declared_params)) (dict_keys config_diff);
          missing = (\<lambda>m. (Inl (ParamsFileNotFound (''params file '' @ last params_path @ m)), s))
      in if drifted \<noteq> [] then (Inl (ParamNotInTemplate (''config_diff contains params no longer declared on the template: ['' @
           join_with '', '' (map (oe_repr env) drifted) @ '']'')), s)
         else if \<not> w_is_file w params_path s then missing ('' not found at '' @ path_str (butlast params_path))
         else (case w_read_text w params_path s of
             OsError c \<Rightarrow> missing ('' unreadable: '' @ c)
           | NotText \<Rightarrow> (Inl Undecodable, s)
           | FileText raw \<Rightarrow> (case oe_loads env (if raw = [] then ''{}'' else raw) of
               Inl msg \<Rightarrow> missing ('' contains malformed JSON: '' @ msg)
             | Inr (PDict current) \<Rightarrow> (case merge_diff env declared_params config_diff current of
                 Inl e \<Rightarrow> (Inl e, s)
               | Inr merged \<Rightarrow> (Inr merged, w_write_text w params_path (oe_dumps env merged @ [CHR 0x0A]) s))
             | Inr _ \<Rightarrow> missing '' is not a JSON object'')))"

section \<open>The commit and the push\<close>

definition render_chart :: "open_env \<Rightarrow> 'w world \<Rightarrow> path \<Rightarrow> string option \<Rightarrow> 'w \<Rightarrow> (digest_row option \<times> path option \<times> bool) \<times> 'w" where
  "render_chart env w clone_dir study_id s = (case study_id of
       None \<Rightarrow> ((None, None, False), s)
     | Some sid \<Rightarrow> (case oe_digests env sid of
         None \<Rightarrow> ((None, None, False), s)
       | Some dg \<Rightarrow>
         (if dg_parameter_importance dg = [] then ((Some dg, None, False), s)
          else (let chart_path = clone_dir @ [''.relyloop'', ''digest-charts'', sid @ ''.png'']
            in case w_chart w (dg_parameter_importance dg) chart_path s of (drawn, s1) \<Rightarrow>
              ((Some dg, if drawn then Some chart_path else None, \<not> drawn), s1)))))"

text \<open>\<open>relative_to\<close> raises when the file does not lie below the clone. The message file is removed whether or
  not the commit succeeds.\<close>

definition git_commit_file ::
  "open_env \<Rightarrow> 'w world \<Rightarrow> path \<Rightarrow> path \<Rightarrow> string \<Rightarrow> string \<Rightarrow> 'w \<Rightarrow> (pr_stop + unit) \<times> 'w" where
  "git_commit_file env w clone_dir file_path message token s =
     (if \<not> prefix clone_dir file_path then (Inl Crash, s)
      else (let rel = drop (length clone_dir) file_path;
                msg_file = clone_dir @ [''.git'', ''RELYLOOP_COMMIT_MSG'']
        in case git_subprocess env w ''git push failed: '' (Some clone_dir) (git_env token)
               [''git'', ''add'', ''--'', join_with ''/'' rel] s of
             (Inl e, s1) \<Rightarrow> (Inl e, s1)
           | (Inr _, s1) \<Rightarrow>
             (case git_subprocess env w ''git push failed: '' (Some clone_dir) (commit_env env token)
                 [''git'', ''commit'', ''-F'', path_str msg_file] (w_write_text w msg_file (message @ [CHR 0x0A]) s1) of
                (Inl e, s2) \<Rightarrow> (Inl e, w_unlink w msg_file s2)
              | (Inr _, s2) \<Rightarrow> (Inr (), w_unlink w msg_file s2))))"

definition push_args :: "string \<Rightarrow> string list" where
  "push_args branch = [''git'', ''push'', ''--set-upstream'', ''origin'', branch]"

definition commit_chart ::
  "open_env \<Rightarrow> 'w world \<Rightarrow> path \<Rightarrow> path option \<Rightarrow> string \<Rightarrow> string \<Rightarrow> 'w \<Rightarrow> (pr_stop + unit) \<times> 'w" where
  "commit_chart env w clone_dir chart_path proposal_id token s = (case chart_path of
       None \<Rightarrow> (Inr (), s)
     | Some p \<Rightarrow> if w_exists w p s
         then git_commit_file env w clone_dir p (oe_redact env (''RelyLoop chart for proposal '' @ proposal_id)) token s
         else (Inr (), s))"

definition commit_and_push ::
  "open_env \<Rightarrow> 'w world \<Rightarrow> path \<Rightarrow> path \<Rightarrow> path option \<Rightarrow> string \<Rightarrow> string \<Rightarrow> string \<Rightarrow> string \<Rightarrow> 'w \<Rightarrow> (pr_stop + unit) \<times> 'w" where
  "commit_and_push env w clone_dir params_path chart_path names proposal_id branch token s =
     (case git_commit_file env w clone_dir params_path
         (oe_redact env (''RelyLoop proposal '' @ proposal_id @ [CHR 0x0A, CHR 0x0A] @ names)) token s of
        (Inl e, s1) \<Rightarrow> (Inl e, s1)
      | (Inr _, s1) \<Rightarrow> (case commit_chart env w clone_dir chart_path proposal_id token s1 of
          (Inl e, s2) \<Rightarrow> (Inl e, s2)
        | (Inr _, s2) \<Rightarrow> (case git_subprocess env w ''git push failed: '' (Some clone_dir) (git_env token) (push_args branch) s2 of
            (Inl e, s3) \<Rightarrow> (Inl e, s3)
          | (Inr _, s3) \<Rightarrow> (Inr (), s3))))"

section \<open>The pull request\<close>

text \<open>The title and the body; the attributes of a study that is gone raise.\<close>

definition pull_request_text :: "open_env \<Rightarrow> db \<Rightarrow> proposal \<Rightarrow> digest_row option \<Rightarrow> bool \<Rightarrow> (string \<times> string) option" where
  "pull_request_text env d p dg chart_render_failed =
     (case pp_study_id p of
        None \<Rightarrow> map_option (\<lambda>body. (''RelyLoop manual proposal '' @ take 8 (pp_id p), body))
          (render_pr_body_manual (oe_formats env) (pp_config_diff p))
      | Some sid \<Rightarrow> (case get_study d sid of
          None \<Rightarrow> None
        | Some st \<Rightarrow> map_option (\<lambda>body. (''RelyLoop: '' @ st_name st, body))
            (render_pr_body_study_backed (oe_formats env) (oe_metric_delta env (pp_id p)) st
              (map_option dg_suggested_followups dg) (pp_config_diff p)
              (case dg of Some g \<Rightarrow> if chart_render_failed then render_chart_markdown_fallback (oe_formats env) (dg_parameter_importance g) else []
               | None \<Rightarrow> [])
              (oe_base_url env) (fetch_study_confidence (oe_numpy env) (oe_column env) (oe_queries env) d st))))"

definition repo_api :: "string \<Rightarrow> string \<Rightarrow> string" where
  "repo_api owner rp = ''https://api.github.com/repos/'' @ owner @ ''/'' @ rp"

definition pull_request :: "open_env \<Rightarrow> string \<Rightarrow> string \<times> string \<Rightarrow> string \<Rightarrow> string \<Rightarrow> gh_request" where
  "pull_request env api tb branch base =
     \<lparr>rq_verb = ''POST'', rq_url = api @ ''/pulls'',
      rq_body = Some [(''title'', PStr (oe_redact env (fst tb))), (''body'', PStr (oe_redact env (snd tb))),
        (''head'', PStr branch), (''base'', PStr base)]\<rparr>"

definition chart_comment :: "open_env \<Rightarrow> string \<Rightarrow> string \<Rightarrow> pyval \<Rightarrow> gh_request" where
  "chart_comment env api chart_url pr_number =
     \<lparr>rq_verb = ''POST'', rq_url = api @ ''/issues/'' @ fm_str (oe_formats env) pr_number @ ''/comments'',
      rq_body = Some [(''body'', PStr (''![Parameter importance]('' @ chart_url @ '')''))]\<rparr>"

definition read_answer_of :: "open_env \<Rightarrow> http_response \<Rightarrow> pr_stop + pyval \<times> pyval" where
  "read_answer_of env r =
     (if 400 \<le> hr_status r
      then Inl (case hr_text r of None \<Rightarrow> Crash
        | Some t \<Rightarrow> Stop (''GITHUB_API_FAILED: '' @ int_str (hr_status r) @ '': '' @ oe_redact env t))
      else (case hr_json r of
          Some (PDict payload) \<Rightarrow>
            (if \<not> truthy (obj_get payload ''html_url'') \<or> obj_get payload ''number'' = PNone
             then Inl (Stop ''GitHub API returned 2xx but missing html_url or number'')
             else Inr (obj_get payload ''html_url'', obj_get payload ''number''))
        | _ \<Rightarrow> Inl Crash))"

definition post_pull_request ::
  "open_env \<Rightarrow> 'w world \<Rightarrow> string \<Rightarrow> string \<times> string \<Rightarrow> string \<Rightarrow> string \<Rightarrow> string option \<Rightarrow> 'w \<Rightarrow> (pr_stop + pyval) \<times> 'w" where
  "post_pull_request env w api tb branch base chart_url s =
     (case github_request (oe_client env) (w_http w) (pull_request env api tb branch base) s of
        (Inl (c, e), _, s1) \<Rightarrow> (Inl (Stop (''GITHUB_API_FAILED: unreachable: '' @ oe_redact env e)), s1)
      | (Inr r, _, s1) \<Rightarrow> (case read_answer_of env r of
          Inl e \<Rightarrow> (Inl e, s1)
        | Inr (pr_url, pr_number) \<Rightarrow>
            (Inr pr_url, (case chart_url of None \<Rightarrow> s1
              | Some u \<Rightarrow> snd (snd (github_request (oe_client env) (w_http w) (chart_comment env api u pr_number) s1))))))"

section \<open>The job\<close>

text \<open>Steps in a row; the first that does not end stops the rest.\<close>

definition and_then :: "('w \<Rightarrow> ('e + 'a) \<times> 'w) \<Rightarrow> ('a \<Rightarrow> 'w \<Rightarrow> ('e + 'b) \<times> 'w) \<Rightarrow> 'w \<Rightarrow> ('e + 'b) \<times> 'w" where
  "and_then f g s = (case f s of (Inl e, s1) \<Rightarrow> (Inl e, s1) | (Inr x, s1) \<Rightarrow> g x s1)"

definition fresh_branch :: "open_env \<Rightarrow> 'w world \<Rightarrow> path \<Rightarrow> string \<Rightarrow> string \<Rightarrow> 'w \<Rightarrow> (pr_stop + unit) \<times> 'w" where
  "fresh_branch env w clone_dir branch token =
     and_then (branch_exists_on_remote env w clone_dir branch token)
       (\<lambda>found s. (if found then Inl (Stop (''BRANCH_EXISTS: branch '' @ oe_repr env branch @ '' already exists on origin (no force-push)''))
         else Inr (), s))"

definition write_params ::
  "open_env \<Rightarrow> 'w world \<Rightarrow> path \<Rightarrow> cluster_row \<Rightarrow> template_row \<Rightarrow> obj \<Rightarrow> 'w \<Rightarrow> (pr_stop + path) \<times> 'w" where
  "write_params env w clone_dir cluster template config_diff s =
     (case cl_config_path cluster of
        None \<Rightarrow> (Inl (Stop ''cluster.config_path is unset''), s)
      | Some config_path \<Rightarrow>
        (if config_path = [] then (Inl (Stop ''cluster.config_path is unset''), s)
         else (case validate_params_path env w clone_dir config_path (tp_name template) s of
             Inl e \<Rightarrow> (Inl e, s)
           | Inr params_path \<Rightarrow> (case apply_config_diff env w params_path config_diff (tp_declared_params template) s of
               (Inl (ParamNotInTemplate m), s1) \<Rightarrow> (Inl (Stop (''PARAM_NOT_IN_TEMPLATE: '' @ m)), s1)
             | (Inl (ParamsFileNotFound m), s1) \<Rightarrow> (Inl (Stop (''PARAMS_FILE_NOT_FOUND: '' @ m)), s1)
             | (Inl Undecodable, s1) \<Rightarrow> (Inl Crash, s1)
             | (Inr _, s1) \<Rightarrow> (Inr params_path, s1)))))"

definition publish ::
  "open_env \<Rightarrow> 'w world \<Rightarrow> db \<Rightarrow> path \<Rightarrow> cluster_row \<Rightarrow> pr_repo \<Rightarrow> template_row \<Rightarrow> string \<Rightarrow> string \<times> string \<Rightarrow> proposal \<Rightarrow> string \<Rightarrow> path
   \<Rightarrow> 'w \<Rightarrow> (pr_stop + pyval) \<times> 'w" where
  "publish env w d clone_dir cluster rp template token names p branch params_path s =
     (case render_chart env w clone_dir (pp_study_id p) s of ((dg, chart_path, chart_failed), s1) \<Rightarrow>
       and_then (commit_and_push env w clone_dir params_path chart_path
           (''cluster='' @ cl_name cluster @ '' template='' @ tp_name template) (pp_id p) branch token)
         (\<lambda>_ s2. case pull_request_text env d p dg chart_failed of
            None \<Rightarrow> (Inl Crash, s2)
          | Some tb \<Rightarrow> post_pull_request env w (repo_api (fst names) (snd names)) tb branch (cr_pr_base_branch rp)
              (case (pp_study_id p, chart_path) of
                 (Some sid, Some _) \<Rightarrow> Some (chart_raw_url (fst names) (snd names) branch sid) | _ \<Rightarrow> None) s2) s1)"

text \<open>The steps under the lock up to the write of the row: the value of \<open>html_url\<close>, or why there is none.\<close>

definition do_open_pr ::
  "open_env \<Rightarrow> 'w world \<Rightarrow> db \<Rightarrow> cluster_row \<Rightarrow> pr_repo \<Rightarrow> template_row \<Rightarrow> string \<Rightarrow> string \<times> string \<Rightarrow> proposal \<Rightarrow> 'w \<Rightarrow> (pr_stop + pyval) \<times> 'w" where
  "do_open_pr env w d cluster rp template token names p =
     (let branch = branch_name (pp_id p) (pp_study_id p); clone_dir = oe_clone_root env @ [cr_id rp] in
      and_then (ensure_clone env w clone_dir (cr_repo_url rp) token) (\<lambda>_.
      and_then (prepare_branch env w clone_dir (cr_pr_base_branch rp) branch token) (\<lambda>_.
      and_then (fresh_branch env w clone_dir branch token) (\<lambda>_.
      and_then (write_params env w clone_dir cluster template (pp_config_diff p))
        (publish env w d clone_dir cluster rp template token names p branch)))))"

datatype pr_job = PrReturned | PrRetry nat | PrCrashed

definition RETRY_DEFER_S :: nat where "RETRY_DEFER_S = 5"

text \<open>The last write: conditional on the row still being pending; a URL that is no text cannot be written.\<close>

definition settle :: "open_env \<Rightarrow> string \<Rightarrow> pr_stop + pyval \<Rightarrow> db \<Rightarrow> pr_job \<times> db" where
  "settle env proposal_id res d = (case res of
       Inl (Stop m) \<Rightarrow> (PrReturned, safe_set_pr_open_error env proposal_id m d)
     | Inl Crash \<Rightarrow> (PrCrashed, d)
     | Inr (PStr pr_url) \<Rightarrow> (PrReturned, snd (mark_proposal_pr_opened proposal_id pr_url d))
     | Inr _ \<Rightarrow> (PrCrashed, d))"

definition under_lock ::
  "open_env \<Rightarrow> 'w world \<Rightarrow> string \<Rightarrow> cluster_row \<Rightarrow> pr_repo \<Rightarrow> template_row \<Rightarrow> string \<Rightarrow> string \<times> string \<Rightarrow> db \<Rightarrow> 'w \<Rightarrow> pr_job \<times> db \<times> 'w" where
  "under_lock env w proposal_id cluster rp template token names d s =
     (if \<not> oe_lock_free env then (PrRetry RETRY_DEFER_S, d, s)
      else (case get_proposal d proposal_id of
          None \<Rightarrow> (PrReturned, d, s)
        | Some p \<Rightarrow>
          (if pp_status p \<noteq> Pending then (PrReturned, d, s)
           else (case do_open_pr env w d cluster rp template token names p s of (res, s1) \<Rightarrow>
             (case settle env proposal_id res (oe_during env d) of (job, d1) \<Rightarrow> (job, d1, s1))))))"

definition open_pr :: "open_env \<Rightarrow> 'w world \<Rightarrow> string \<Rightarrow> db \<Rightarrow> 'w \<Rightarrow> pr_job \<times> db \<times> 'w" where
  "open_pr env w proposal_id d s =
     (let failed = (\<lambda>m. (PrReturned, safe_set_pr_open_error env proposal_id m d, s)) in
      case get_proposal d proposal_id of
        None \<Rightarrow> (PrReturned, d, s)
      | Some p \<Rightarrow>
        (if pp_status p \<noteq> Pending then (PrReturned, d, s)
         else (case Option.bind (find (\<lambda>c. cl_id c = pp_cluster_id p) (oe_clusters env)) (\<lambda>c. map_option (Pair c) (cl_config_repo_id c)) of
             None \<Rightarrow> failed ''cluster has no config_repo wired in''
           | Some (cluster, repo_id) \<Rightarrow> (case find (\<lambda>r. cr_id r = repo_id) (oe_repos env) of
               None \<Rightarrow> failed ''config_repo not found''
             | Some rp \<Rightarrow> (case find (\<lambda>t. tp_id t = pp_template_id p) (oe_templates env) of
                 None \<Rightarrow> failed ''query_template not found''
               | Some template \<Rightarrow> (case read_pat (oe_secrets env) (cr_auth_ref rp) of
                   None \<Rightarrow> failed (''GitHub PAT not configured for auth_ref='' @ oe_repr env (cr_auth_ref rp))
                 | Some token \<Rightarrow> (case validate_repo_url (cr_repo_url rp) of
                     None \<Rightarrow> failed (''repo_url '' @ oe_repr env (cr_repo_url rp) @ '' is not a GitHub URL; GitLab + Bitbucket arrive at MVP3'')
                   | Some names \<Rightarrow> under_lock env w proposal_id cluster rp template token names (oe_meanwhile env d) s)))))))"

text \<open>Deliveries of the job, one after the other, each with what its environment is then.\<close>

fun open_runs :: "'w world \<Rightarrow> (open_env \<times> string) list \<Rightarrow> db \<times> 'w \<Rightarrow> db \<times> 'w" where
  "open_runs w [] ds = ds"
| "open_runs w ((env, i) # rest) ds = open_runs w rest (snd (open_pr env w i (fst ds) (snd ds)))"

section \<open>Lemmas\<close>

text \<open>What the branches of the remote are told by git: only a push changes them, and only the branch it
  names, which then exists; an empty answer of \<open>ls-remote\<close> says that the branch does not exist. The file
  system and the API of GitHub leave them alone.\<close>

definition git_remote :: "'w world \<Rightarrow> ('w \<Rightarrow> string \<Rightarrow> 'c option) \<Rightarrow> bool" where
  "git_remote w remote =
     ((\<forall>cwd vars args s. take 2 args \<noteq> [''git'', ''push''] \<longrightarrow> remote (snd (w_git w cwd vars args s)) = remote s) \<and>
      (\<forall>cwd vars b s b'. b' \<noteq> b \<longrightarrow> remote (snd (w_git w cwd vars (push_args b) s)) b' = remote s b') \<and>
      (\<forall>cwd vars b s. fst (fst (w_git w cwd vars (push_args b) s)) = 0 \<longrightarrow> remote (snd (w_git w cwd vars (push_args b) s)) b \<noteq> None) \<and>
      (\<forall>cwd vars b s out err s1. w_git w cwd vars [''git'', ''ls-remote'', ''--heads'', ''origin'', b] s = ((0, out, err), s1) \<longrightarrow>
         py_strip out = [] \<longrightarrow> remote s b = None) \<and>
      (\<forall>rq s. remote (snd (w_http w rq s)) = remote s) \<and>
      (\<forall>p t s. remote (w_write_text w p t s) = remote s) \<and> (\<forall>p s. remote (w_mkdir w p s) = remote s) \<and>
      (\<forall>p s. remote (w_rmtree w p s) = remote s) \<and> (\<forall>p s. remote (w_unlink w p s) = remote s) \<and>
      (\<forall>x p s. remote (snd (w_chart w x p s)) = remote s))"

lemma git_remote_other:
  "git_remote w remote \<Longrightarrow> take 2 args \<noteq> [''git'', ''push''] \<Longrightarrow> remote (snd (w_git w cwd vars args s)) = remote s"
  unfolding git_remote_def by (elim conjE) simp

lemma git_remote_files:
  assumes "git_remote w remote"
  shows "remote (w_write_text w p t s) = remote s" "remote (w_mkdir w p s) = remote s" "remote (w_rmtree w p s) = remote s"
    "remote (w_unlink w p s) = remote s" "remote (snd (w_chart w x p s)) = remote s" "remote (snd (w_http w rq s)) = remote s"
  using assms unfolding git_remote_def by simp_all

lemma git_remote_push:
  assumes "git_remote w remote"
  shows "b' \<noteq> b \<Longrightarrow> remote (snd (w_git w cwd vars (push_args b) s)) b' = remote s b'"
    "fst (fst (w_git w cwd vars (push_args b) s)) = 0 \<Longrightarrow> remote (snd (w_git w cwd vars (push_args b) s)) b \<noteq> None"
  using assms unfolding git_remote_def by simp_all

lemma git_remote_listed:
  "git_remote w remote \<Longrightarrow> w_git w cwd vars [''git'', ''ls-remote'', ''--heads'', ''origin'', b] s = ((0, out, err), s1) \<Longrightarrow>
    py_strip out = [] \<Longrightarrow> remote s b = None"
proof -
  assume "git_remote w remote"
  then have "\<forall>cwd vars b s out err s1. w_git w cwd vars [''git'', ''ls-remote'', ''--heads'', ''origin'', b] s = ((0, out, err), s1) \<longrightarrow>
         py_strip out = [] \<longrightarrow> remote s b = None"
    unfolding git_remote_def by (elim conjE)
  then show "w_git w cwd vars [''git'', ''ls-remote'', ''--heads'', ''origin'', b] s = ((0, out, err), s1) \<Longrightarrow>
    py_strip out = [] \<Longrightarrow> remote s b = None" by (elim allE impE)
qed

text \<open>A step that leaves the remote alone.\<close>

definition keeps :: "('w \<Rightarrow> 'r) \<Rightarrow> ('w \<Rightarrow> 'a \<times> 'w) \<Rightarrow> bool" where
  "keeps remote f = (\<forall>s. remote (snd (f s)) = remote s)"

lemma keepsD: "keeps remote f \<Longrightarrow> f s = (r, s1) \<Longrightarrow> remote s1 = remote s"
  by (metis keeps_def snd_conv)

lemma keeps_and_then: "keeps remote f \<Longrightarrow> (\<And>x. keeps remote (g x)) \<Longrightarrow> keeps remote (and_then f g)"
  by (simp add: keeps_def and_then_def split: prod.splits sum.splits) (metis snd_conv)

lemma keeps_git:
  "git_remote w remote \<Longrightarrow> take 2 args \<noteq> [''git'', ''push''] \<Longrightarrow> keeps remote (git_subprocess env w pre cwd vars args)"
  using git_remote_other [of w remote args cwd vars]
  by (simp add: keeps_def git_subprocess_def split: prod.splits) (metis snd_conv)

lemma keeps_sequence:
  "git_remote w remote \<Longrightarrow> \<forall>args\<in>set cmds. take 2 args \<noteq> [''git'', ''push''] \<Longrightarrow> keeps remote (git_sequence env w pre clone_dir token cmds)"
proof (induction cmds)
  case (Cons args rest)
  have one: "keeps remote (git_subprocess env w pre (Some clone_dir) (git_env token) args)"
    using Cons.prems by (intro keeps_git) auto
  have rest: "keeps remote (git_sequence env w pre clone_dir token rest)" using Cons by simp
  show ?case
    unfolding keeps_def
  proof
    fix s
    obtain r s1 where r: "git_subprocess env w pre (Some clone_dir) (git_env token) args s = (r, s1)"
      by (cases "git_subprocess env w pre (Some clone_dir) (git_env token) args s")
    then have "remote s1 = remote s" by (rule keepsD [OF one])
    then show "remote (snd (git_sequence env w pre clone_dir token (args # rest) s)) = remote s"
      using rest r by (cases r) (simp_all add: keeps_def)
  qed
qed (simp add: keeps_def)

lemma keeps_prepare: "git_remote w remote \<Longrightarrow> keeps remote (prepare_branch env w clone_dir base branch token)"
  unfolding prepare_branch_def by (intro keeps_sequence) (auto simp: prepare_commands_def)

lemma keeps_clone:
  assumes "git_remote w remote"
  shows "keeps remote (ensure_clone env w clone_dir url token)"
  unfolding keeps_def
proof
  fix s
  define s2 where "s2 = (let s1 = w_mkdir w (butlast clone_dir) s in if w_exists w clone_dir s1 then w_rmtree w clone_dir s1 else s1)"
  have s2: "remote s2 = remote s" using git_remote_files [OF assms] by (simp add: s2_def Let_def)
  have git: "keeps remote (git_subprocess env w ''CLONE_FAILED: '' None (git_env token) [''git'', ''clone'', url, path_str clone_dir])"
    by (rule keeps_git [OF assms]) simp
  obtain r s3 where r: "git_subprocess env w ''CLONE_FAILED: '' None (git_env token) [''git'', ''clone'', url, path_str clone_dir] s2 = (r, s3)"
    by (cases "git_subprocess env w ''CLONE_FAILED: '' None (git_env token) [''git'', ''clone'', url, path_str clone_dir] s2")
  have "ensure_clone env w clone_dir url token s = (if w_is_dir w (clone_dir @ [''.git'']) (w_mkdir w (butlast clone_dir) s)
      then (Inr (), w_mkdir w (butlast clone_dir) s) else (case r of Inl e \<Rightarrow> (Inl e, s3) | Inr _ \<Rightarrow> (Inr (), s3)))"
    using r by (simp add: ensure_clone_def s2_def Let_def split: sum.splits)
  then show "remote (snd (ensure_clone env w clone_dir url token s)) = remote s"
    using keepsD [OF git r] s2 git_remote_files [OF assms] by (cases r) simp_all
qed

lemma fresh_branch_remote:
  assumes "git_remote w remote" "fresh_branch env w clone_dir branch token s = (r, s1)"
  shows "remote s1 = remote s" "r = Inr () \<Longrightarrow> remote s branch = None"
proof -
  let ?args = "[''git'', ''ls-remote'', ''--heads'', ''origin'', branch]"
  obtain code out err s2 where g: "w_git w (Some clone_dir) (git_env token) ?args s = ((code, out, err), s2)"
    by (metis prod.exhaust)
  have "remote s2 = remote s" using git_remote_other [OF assms(1), of ?args "Some clone_dir" "git_env token" s] g by simp
  then show "remote s1 = remote s"
    using assms(2) g by (auto simp: fresh_branch_def and_then_def branch_exists_on_remote_def git_subprocess_def split: if_splits)
  assume "r = Inr ()"
  then have "code = 0" "py_strip out = []"
    using assms(2) g by (auto simp: fresh_branch_def and_then_def branch_exists_on_remote_def git_subprocess_def split: if_splits)
  then show "remote s branch = None" using git_remote_listed [OF assms(1)] g by blast
qed

lemma keeps_write_params: 
  assumes "git_remote w remote"
  shows "keeps remote (write_params env w clone_dir cluster template diff)"
proof -
  have apply_diff: "remote s1 = remote s" if "apply_config_diff env w p diff decl s = (r, s1)" for p decl s r s1
    using that git_remote_files(1) [OF assms]
    by (auto simp: apply_config_diff_def Let_def split: if_splits read_answer.splits sum.splits pyval.splits)
  show ?thesis
    using apply_diff by (auto simp: keeps_def write_params_def split: option.splits sum.splits prod.splits diff_error.splits)
qed

lemma keeps_commit_file:
  assumes "git_remote w remote"
  shows "keeps remote (git_commit_file env w clone_dir file_path message token)"
  unfolding keeps_def
proof
  fix s
  let ?add = "git_subprocess env w ''git push failed: '' (Some clone_dir) (git_env token) [''git'', ''add'', ''--'', join_with ''/'' (drop (length clone_dir) file_path)]"
  let ?msg = "clone_dir @ [''.git'', ''RELYLOOP_COMMIT_MSG'']"
  let ?commit = "git_subprocess env w ''git push failed: '' (Some clone_dir) (commit_env env token) [''git'', ''commit'', ''-F'', path_str ?msg]"
  have kept: "keeps remote ?add" "keeps remote ?commit" by (rule keeps_git [OF assms], simp)+
  obtain r s1 where r: "?add s = (r, s1)" by (cases "?add s")
  obtain r2 s2 where r2: "?commit (w_write_text w ?msg (message @ [CHR 0x0A]) s1) = (r2, s2)"
    by (cases "?commit (w_write_text w ?msg (message @ [CHR 0x0A]) s1)")
  show "remote (snd (git_commit_file env w clone_dir file_path message token s)) = remote s"
    using keepsD [OF kept(1) r] keepsD [OF kept(2) r2] r r2 git_remote_files [OF assms]
    by (auto simp: git_commit_file_def Let_def split: sum.splits)
qed

lemma keeps_commit_chart: "git_remote w remote \<Longrightarrow> keeps remote (commit_chart env w clone_dir chart_path i token)"
proof -
  assume "git_remote w remote"
  note one = keeps_commit_file [OF this, unfolded keeps_def, rule_format]
  show ?thesis by (simp add: commit_chart_def keeps_def one split: option.splits)
qed

lemma commit_and_push_remote:
  assumes "git_remote w remote" "commit_and_push env w clone_dir params_path chart_path names i branch token s = (r, s1)"
  shows "b \<noteq> branch \<Longrightarrow> remote s1 b = remote s b" "r = Inr () \<Longrightarrow> remote s1 branch \<noteq> None"
proof -
  let ?first = "git_commit_file env w clone_dir params_path (oe_redact env (''RelyLoop proposal '' @ i @ [CHR 0x0A, CHR 0x0A] @ names)) token"
  obtain r2 s2 where r2: "?first s = (r2, s2)" by (cases "?first s")
  obtain r3 s3 where r3: "commit_chart env w clone_dir chart_path i token s2 = (r3, s3)"
    by (cases "commit_chart env w clone_dir chart_path i token s2")
  obtain code out err s4 where g: "w_git w (Some clone_dir) (git_env token) (push_args branch) s3 = ((code, out, err), s4)"
    by (metis prod.exhaust)
  have s2: "remote s2 = remote s" by (rule keepsD [OF keeps_commit_file [OF assms(1)] r2])
  have s3: "remote s3 = remote s2" by (rule keepsD [OF keeps_commit_chart [OF assms(1)] r3])
  have push: "b' \<noteq> branch \<Longrightarrow> remote s4 b' = remote s3 b'" "code = 0 \<Longrightarrow> remote s4 branch \<noteq> None" for b'
    using git_remote_push(1) [OF assms(1), of b' branch "Some clone_dir" "git_env token" s3]
      git_remote_push(2) [OF assms(1), of "Some clone_dir" "git_env token" branch s3] g by auto
  have "(r, s1) = (case r2 of Inl e \<Rightarrow> (Inl e, s2) | Inr _ \<Rightarrow> (case r3 of Inl e \<Rightarrow> (Inl e, s3) | Inr _ \<Rightarrow>
      (if code = 0 then Inr () else Inl (Stop (''git push failed: '' @ redact_subprocess_error env (code, out, err))), s4)))"
    using assms(2) r2 r3 g by (auto simp: commit_and_push_def git_subprocess_def split: sum.splits)
  then show "b \<noteq> branch \<Longrightarrow> remote s1 b = remote s b" "r = Inr () \<Longrightarrow> remote s1 branch \<noteq> None"
    using s2 s3 push by (auto split: sum.splits if_splits)
qed

text \<open>An answer of the client was given by the server.\<close>

lemma request_loop_answered:
  "request_loop env server rq attempt k lr le waits s = (Inr r, waits', s') \<Longrightarrow>
    lr = Some r \<or> (\<exists>s1. fst (server rq s1) = HttpResponse r)"
proof (induction env server rq attempt k lr le waits s rule: request_loop.induct)
  case (1 env server rq attempt lr le waits s)
  then show ?case by (auto split: option.splits)
next
  case (2 env server rq attempt k lr le waits s)
  obtain a s1 where a: "server rq s = (a, s1)" by (cases "server rq s")
  show ?case
  proof (cases a)
    case (NetworkError c e)
    then show ?thesis using 2(1) [OF a [symmetric] NetworkError] 2(3) a by auto
  next
    case (HttpResponse x)
    have answered: "fst (server rq s) = HttpResponse x" using a HttpResponse by simp
    show ?thesis
    proof (cases "retry_wait env attempt x")
      case None
      then have "x = r" using 2(3) a HttpResponse by simp
      then show ?thesis using answered by blast
    next
      case (Some w)
      then have "Some x = Some r \<or> (\<exists>s1. fst (server rq s1) = HttpResponse r)"
        using 2(2) [OF a [symmetric] HttpResponse Some] 2(3) a HttpResponse by simp
      then show ?thesis using answered by blast
    qed
  qed
qed

lemma request_loop_keeps:
  "request_loop env server rq attempt k lr le waits s = (res, waits', s') \<Longrightarrow>
    (\<And>rq s. remote (snd (server rq s)) = remote s) \<Longrightarrow> remote s' = remote s"
proof (induction env server rq attempt k lr le waits s rule: request_loop.induct)
  case (2 env server rq attempt k lr le waits s)
  obtain a s1 where a: "server rq s = (a, s1)" by (cases "server rq s")
  have kept: "remote s1 = remote s" using 2(4) [of rq s] a by simp
  show ?case
  proof (cases a)
    case (NetworkError c e)
    then show ?thesis using 2(1) [OF a [symmetric] NetworkError _ 2(4)] 2(3) a kept by simp
  next
    case (HttpResponse r)
    then show ?thesis using 2(2) [OF a [symmetric] HttpResponse _ _ 2(4)] 2(3) a kept by (cases "retry_wait env attempt r") auto
  qed
qed simp

definition answered_with :: "open_env \<Rightarrow> 'w world \<Rightarrow> string \<Rightarrow> pyval \<Rightarrow> bool" where
  "answered_with env w branch u = (\<exists>api tb base s x payload.
     fst (w_http w (pull_request env api tb branch base) s) = HttpResponse x \<and> hr_status x < 400 \<and>
     hr_json x = Some (PDict payload) \<and> obj_get payload ''html_url'' = u)"

lemma post_pull_request_spec:
  assumes "post_pull_request env w api tb branch base chart_url s = (r, s1)"
  shows "git_remote w remote \<Longrightarrow> remote s1 = remote s" "r = Inr u \<Longrightarrow> answered_with env w branch u"
proof -
  let ?rq = "pull_request env api tb branch base"
  obtain a ws s2 where a: "github_request (oe_client env) (w_http w) ?rq s = (a, ws, s2)"
    by (cases "github_request (oe_client env) (w_http w) ?rq s")
  {
    assume laws: "git_remote w remote"
    note kept = git_remote_files(6) [OF laws]
    have "remote s2 = remote s" by (rule request_loop_keeps [OF a [unfolded github_request_def] kept])
    moreover have "remote (snd (snd (github_request (oe_client env) (w_http w) x s2))) = remote s2" for x
    proof -
      obtain a' ws' s3 where "github_request (oe_client env) (w_http w) x s2 = (a', ws', s3)"
        by (cases "github_request (oe_client env) (w_http w) x s2")
      then show ?thesis using request_loop_keeps [of "oe_client env" "w_http w" x 0 HTTP_RETRY_MAX None "([], [])" "[]" s2 a' ws' s3 remote] kept
        by (simp add: github_request_def)
    qed
    ultimately show "remote s1 = remote s"
      using assms a by (auto simp: post_pull_request_def split: sum.splits prod.splits option.splits)
  }
  assume "r = Inr u"
  then obtain x n where x: "a = Inr x" "read_answer_of env x = Inr (u, n)"
    using assms a by (auto simp: post_pull_request_def split: sum.splits prod.splits)
  then have "request_loop (oe_client env) (w_http w) ?rq 0 HTTP_RETRY_MAX None ([], []) [] s = (Inr x, ws, s2)"
    using a by (simp add: github_request_def)
  from request_loop_answered [OF this] have "\<exists>s1. fst (w_http w ?rq s1) = HttpResponse x" by simp
  moreover have "hr_status x < 400 \<and> (\<exists>payload. hr_json x = Some (PDict payload) \<and> obj_get payload ''html_url'' = u)"
    using x(2) by (auto simp: read_answer_of_def split: if_splits option.splits pyval.splits)
  ultimately show "answered_with env w branch u" unfolding answered_with_def by blast
qed

lemma and_then_cases:
  assumes "and_then f g s = (r, s')"
  obtains e where "f s = (Inl e, s')" "r = Inl e" | x s1 where "f s = (Inr x, s1)" "g x s1 = (r, s')"
  using assms by (auto simp: and_then_def split: prod.splits sum.splits)

lemma publish_spec:
  assumes laws: "git_remote w remote"
    and run: "publish env w d clone_dir cluster rp template token names p branch params_path s = (r, s1)"
  shows "b \<noteq> branch \<Longrightarrow> remote s1 b = remote s b" "r = Inr u \<Longrightarrow> remote s1 branch \<noteq> None \<and> answered_with env w branch u"
proof -
  obtain dg chart_path chart_failed s2 where c: "render_chart env w clone_dir (pp_study_id p) s = ((dg, chart_path, chart_failed), s2)"
    by (metis prod.exhaust)
  have drawn: "remote s3 = remote s" if "w_chart w x q s = (ok, s3)" for x q ok s3
    using git_remote_files(5) [OF laws, of x q s] that by simp
  have s2: "remote s2 = remote s"
    using c by (auto simp: render_chart_def Let_def drawn split: option.splits if_splits prod.splits)
  let ?push = "commit_and_push env w clone_dir params_path chart_path (''cluster='' @ cl_name cluster @ '' template='' @ tp_name template) (pp_id p) branch token"
  have "(\<forall>b. b \<noteq> branch \<longrightarrow> remote s1 b = remote s b) \<and> (r = Inr u \<longrightarrow> remote s1 branch \<noteq> None \<and> answered_with env w branch u)"
    using run unfolding publish_def c prod.case
  proof (cases rule: and_then_cases)
    case (1 e)
    then show ?thesis using commit_and_push_remote(1) [OF laws 1(1)] s2 by simp
  next
    case (2 x s3)
    have push: "remote s3 b = remote s2 b" if "b \<noteq> branch" for b using commit_and_push_remote(1) [OF laws 2(1)] that by simp
    have there: "remote s3 branch \<noteq> None" using commit_and_push_remote(2) [OF laws 2(1)] by simp
    show ?thesis
    proof (cases "pull_request_text env d p dg chart_failed")
      case None
      then show ?thesis using 2(2) push s2 by auto
    next
      case (Some tb)
      let ?url = "case (pp_study_id p, chart_path) of (Some sid, Some _) \<Rightarrow> Some (chart_raw_url (fst names) (snd names) branch sid) | _ \<Rightarrow> None"
      have post: "post_pull_request env w (repo_api (fst names) (snd names)) tb branch (cr_pr_base_branch rp) ?url s3 = (r, s1)"
        using 2(2) Some by simp
      show ?thesis using post_pull_request_spec(1) [OF post laws] post_pull_request_spec(2) [OF post] push there s2 by auto
    qed
  qed
  then show "b \<noteq> branch \<Longrightarrow> remote s1 b = remote s b" "r = Inr u \<Longrightarrow> remote s1 branch \<noteq> None \<and> answered_with env w branch u"
    by blast+
qed

lemma do_open_pr_spec:
  assumes laws: "git_remote w remote"
    and run: "do_open_pr env w d cluster rp template token names p s = (r, s')"
    and branch: "branch = branch_name (pp_id p) (pp_study_id p)"
  shows "(\<forall>b. b \<noteq> branch \<longrightarrow> remote s' b = remote s b) \<and> (remote s branch \<noteq> None \<longrightarrow> remote s' = remote s \<and> (\<exists>e. r = Inl e)) \<and>
    (\<forall>u. r = Inr u \<longrightarrow> remote s' branch \<noteq> None \<and> answered_with env w branch u)"
proof -
  let ?dir = "oe_clone_root env @ [cr_id rp]"
  from run show ?thesis
    unfolding do_open_pr_def Let_def branch [symmetric]
  proof (cases rule: and_then_cases)
    case (1 e)
    then show ?thesis using keepsD [OF keeps_clone [OF laws] 1(1)] by simp
  next
    case (2 x1 s1)
    have s1: "remote s1 = remote s" by (rule keepsD [OF keeps_clone [OF laws] 2(1)])
    from 2(2) show ?thesis
    proof (cases rule: and_then_cases)
      case (1 e)
      then show ?thesis using keepsD [OF keeps_prepare [OF laws] 1(1)] s1 by simp
    next
      case (2 x2 s2)
      have s2: "remote s2 = remote s" using keepsD [OF keeps_prepare [OF laws] 2(1)] s1 by simp
      from 2(2) show ?thesis
      proof (cases rule: and_then_cases)
        case (1 e)
        then show ?thesis using fresh_branch_remote(1) [OF laws 1(1)] s2 by simp
      next
        case (2 x3 s3)
        have s3: "remote s3 = remote s" using fresh_branch_remote(1) [OF laws 2(1)] s2 by simp
        have none: "remote s branch = None" using fresh_branch_remote(2) [OF laws 2(1)] s2 by simp
        from 2(2) show ?thesis
        proof (cases rule: and_then_cases)
          case (1 e)
          then show ?thesis using keepsD [OF keeps_write_params [OF laws] 1(1)] s3 none by simp
        next
          case (2 params_path s4)
          have s4: "remote s4 = remote s" using keepsD [OF keeps_write_params [OF laws] 2(1)] s3 by simp
          show ?thesis using publish_spec [OF laws 2(2)] s4 none by auto
        qed
      qed
    qed
  qed
qed

lemma under_lock_cases:
  "under_lock env w i cluster rp template token names d s = (job, d', s') \<Longrightarrow>
     (s' = s \<and> d' = d) \<or>
     (\<exists>p res. get_proposal d i = Some p \<and> pp_status p = Pending \<and> do_open_pr env w d cluster rp template token names p s = (res, s') \<and>
        d' = snd (settle env i res (oe_during env d)))"
  by (auto simp: under_lock_def split: option.splits if_splits prod.splits)

lemma open_pr_locked:
  assumes "open_pr env w i d s = (job, d', s')"
  shows "(s' = s \<and> (d' = d \<or> (\<exists>m. d' = safe_set_pr_open_error env i m d))) \<or>
     (\<exists>cluster rp template token names. under_lock env w i cluster rp template token names (oe_meanwhile env d) s = (job, d', s'))"
  using assms unfolding open_pr_def Let_def
  by (auto simp del: split_paired_Ex split: option.splits if_splits)

lemma open_pr_cases:
  assumes "open_pr env w i d s = (job, d', s')"
  obtains "s' = s" "d' = d \<or> d' = oe_meanwhile env d \<or> (\<exists>m. d' = safe_set_pr_open_error env i m d)"
  | cluster rp template token names p res where
      "get_proposal (oe_meanwhile env d) i = Some p" "pp_status p = Pending"
      "do_open_pr env w (oe_meanwhile env d) cluster rp template token names p s = (res, s')"
      "d' = snd (settle env i res (oe_during env (oe_meanwhile env d)))"
  using open_pr_locked [OF assms] under_lock_cases [of env w i _ _ _ _ _ "oe_meanwhile env d" s job d' s'] that by metis

lemma open_pr_remote:
  assumes "git_remote w remote" "open_pr env w i d s = (job, d', s')"
  shows "(remote s b \<noteq> None \<longrightarrow> remote s' b = remote s b) \<and> (remote s' b \<noteq> remote s b \<longrightarrow> has_prefix ''relyloop/'' b)"
  using assms(2)
proof (cases rule: open_pr_cases)
  case (2 cluster rp template token names p res)
  have "has_prefix ''relyloop/'' (branch_name (pp_id p) (pp_study_id p))"
    by (simp add: has_prefix_def branch_name_def split: option.splits)
  with do_open_pr_spec [OF assms(1) 2(3) refl] show ?thesis
    by (cases "b = branch_name (pp_id p) (pp_study_id p)") auto
qed auto

section \<open>Properties\<close>

text \<open>C8 Whatever proposals the job is delivered for, in whatever order and however often, and whatever fails on
  the way: a branch the remote has is never moved, and every branch that appears is one of ours.\<close>

theorem branches_never_moved:
  assumes "git_remote w remote" and "open_runs w jobs (d, s) = (d', s')"
  shows "(remote s b \<noteq> None \<longrightarrow> remote s' b = remote s b) \<and> (remote s' b \<noteq> remote s b \<longrightarrow> has_prefix ''relyloop/'' b)"
  using assms(2)
proof (induction jobs arbitrary: d s)
  case (Cons j jobs)
  obtain env i where j: "j = (env, i)" by (cases j)
  obtain job d1 s1 where one: "open_pr env w i d s = (job, d1, s1)" by (cases "open_pr env w i d s")
  have "open_runs w jobs (d1, s1) = (d', s')" using Cons.prems j one by simp
  from Cons.IH [OF this] open_pr_remote [OF assms(1) one, of b] show ?case by metis
qed simp

text \<open>The demonstration: a remote that is a list of branches, a directory that is a clone, GitHub that opens
  every pull request.\<close>

definition demo_git :: "path option \<Rightarrow> (string, string) pydict \<Rightarrow> string list \<Rightarrow> string list \<Rightarrow> (int \<times> string \<times> string) \<times> string list" where
  "demo_git cwd vars args s =
     (if take 2 args = [''git'', ''push''] then ((0, [], []), last args # s)
      else if take 2 args = [''git'', ''ls-remote''] then ((0, if last args \<in> set s then ''sha'' else [], []), s)
      else ((0, [], []), s))"

definition demo_world :: "string list world" where
  "demo_world = \<lparr>w_git = demo_git,
     w_http = (\<lambda>rq s. (HttpResponse \<lparr>hr_status = 201, hr_headers = [], hr_text = Some [],
       hr_json = Some (PDict [(''html_url'', PStr ''u''), (''number'', PInt 7)])\<rparr>, s)),
     w_exists = (\<lambda>p s. True), w_is_dir = (\<lambda>p s. True), w_is_file = (\<lambda>p s. True), w_resolve = (\<lambda>p s. p),
     w_read_text = (\<lambda>p s. FileText []), w_write_text = (\<lambda>p t s. s), w_mkdir = (\<lambda>p s. s), w_rmtree = (\<lambda>p s. s),
     w_unlink = (\<lambda>p s. s), w_chart = (\<lambda>x p s. (True, s))\<rparr>"

definition demo_remote :: "string list \<Rightarrow> string \<Rightarrow> unit option" where
  "demo_remote s b = (if b \<in> set s then Some () else None)"

definition demo_open :: open_env where
  "demo_open = \<lparr>oe_clusters = [\<lparr>cl_id = ''c'', cl_name = ''c'', cl_config_repo_id = Some ''r'', cl_config_path = Some ''conf''\<rparr>],
     oe_repos = [\<lparr>cr_id = ''r'', cr_repo_url = ''https://github.com/acme/conf'', cr_auth_ref = ''pat'',
       cr_webhook_secret_ref = None, cr_last_merged_proposal_id = None, cr_pr_base_branch = ''main''\<rparr>],
     oe_templates = [\<lparr>tp_id = ''tpl'', tp_name = ''t'', tp_declared_params = [(''boost'', PStr ''float'')]\<rparr>],
     oe_digests = (\<lambda>_. None), oe_metric_delta = (\<lambda>_. None), oe_numpy = demo_numpy, oe_column = (\<lambda>_. None), oe_queries = [],
     oe_secrets = \<lparr>sf_root = [''s''], sf_resolve = (\<lambda>n. [''s'', n]), sf_is_file = (\<lambda>_. True), sf_read = (\<lambda>_. Some ''token'')\<rparr>,
     oe_base_url = None, oe_author_name = ''bot'', oe_author_email = ''bot'', oe_clone_root = [''clones''],
     oe_client = demo_client, oe_formats = \<lparr>fm_fixed3 = (\<lambda>_. ''0''), fm_signed1 = (\<lambda>_. Some ''0''), fm_str = (\<lambda>_. ''x'')\<rparr>,
     oe_redact = (\<lambda>x. x), oe_repr = (\<lambda>x. x), oe_lower = (\<lambda>x. x), oe_loads = (\<lambda>_. Inr (PDict [])), oe_dumps = (\<lambda>_. ''{}''),
     oe_error_written = True, oe_lock_free = True, oe_meanwhile = (\<lambda>d. d), oe_during = (\<lambda>d. d)\<rparr>"

definition demo_pr_db :: db where
  "demo_pr_db = \<lparr>db_studies = [], db_trials = [], db_proposals =
     [(sample_proposal ''p'' None Pending)\<lparr>pp_config_diff := [(''boost'', PDict [(''from'', PInt 1), (''to'', PInt 2)])]\<rparr>]\<rparr>"

lemma demo_remote_laws: "git_remote demo_world demo_remote"
  unfolding git_remote_def by (simp add: demo_world_def demo_git_def demo_remote_def push_args_def py_strip_def ascii_space_def fun_eq_iff)

lemma demo_open_run: "open_pr demo_open demo_world ''p'' demo_pr_db [''main''] =
  (PrReturned, snd (mark_proposal_pr_opened ''p'' ''u'' demo_pr_db), [''relyloop/proposal-p'', ''main''])"
  by code_simp

lemma conditional_update_get:
  "get_proposal (snd (conditional_update i guard f d)) j =
     (if j = i then map_option (\<lambda>r. if guard r then (f r)\<lparr>pp_id := i\<rparr> else r) (get_proposal d i) else get_proposal d j)"
proof (cases "get_proposal d i")
  case (Some r)
  have upd: "get_proposal (update_proposals (\<lambda>x. pp_id x = i \<and> guard x) f d) j =
      map_option (\<lambda>r. if pp_id r = i \<and> guard r then (f r)\<lparr>pp_id := pp_id r\<rparr> else r) (get_proposal d j)"
    unfolding get_proposal_def update_proposals_def by (simp add: find_map_id)
  show ?thesis
  proof (cases "guard r")
    case True
    then have eq: "snd (conditional_update i guard f d) = update_proposals (\<lambda>x. pp_id x = i \<and> guard x) f d"
      using Some by (simp add: conditional_update_def)
    show ?thesis
    proof (cases "get_proposal d j")
      case None
      then show ?thesis using upd Some eq by (auto simp del: option.map_sel)
    next
      case (Some q)
      then have "pp_id q = j" using get_proposal_id by blast
      then show ?thesis using upd Some eq \<open>get_proposal d i = Some r\<close> True by (cases "j = i") auto
    qed
  qed (use Some in \<open>simp add: conditional_update_def\<close>)
qed (simp add: conditional_update_def)

lemma conditional_update_other: "j \<noteq> i \<Longrightarrow> get_proposal (snd (conditional_update i guard f d)) j = get_proposal d j"
  by (simp add: conditional_update_get)

lemma status_after_error_option:
  "map_option pp_status (get_proposal (safe_set_pr_open_error env i m d) i) = map_option pp_status (get_proposal d i)"
  by (cases "get_proposal d i") (auto simp: safe_set_pr_open_error_def set_proposal_pr_open_error_def conditional_update_get)

lemma status_after_error:
  "get_proposal (safe_set_pr_open_error env i m d) i = Some p \<Longrightarrow> \<exists>q. get_proposal d i = Some q \<and> pp_status q = pp_status p"
  using status_after_error_option [of env i m d] by (cases "get_proposal d i") auto

lemma marked_opened:
  "get_proposal (snd (mark_proposal_pr_opened i u d)) i = Some p \<Longrightarrow> snd (mark_proposal_pr_opened i u d) \<noteq> d \<Longrightarrow>
    \<exists>q. get_proposal d i = Some q \<and> pp_status q = Pending \<and> pp_pr_url p = Some u \<and> pp_pr_state p = Some PrOpen"
proof -
  assume p: "get_proposal (snd (mark_proposal_pr_opened i u d)) i = Some p" and change: "snd (mark_proposal_pr_opened i u d) \<noteq> d"
  from change obtain q where q: "get_proposal d i = Some q" "pp_status q = Pending"
    by (auto simp: mark_proposal_pr_opened_def conditional_update_def split: option.splits if_splits)
  with p show ?thesis by (auto simp: mark_proposal_pr_opened_def conditional_update_get)
qed

text \<open>A value fits a declared type: the keywords of numbers, integers and booleans are enforced, any other
  declaration admits every value.\<close>

definition type_conforms :: "open_env \<Rightarrow> pyval \<Rightarrow> pyval \<Rightarrow> bool" where
  "type_conforms env declared v = (\<forall>dt. unwrap_type declared = PStr dt \<longrightarrow>
     (oe_lower env (py_strip dt) \<in> {''float'', ''number'', ''double''} \<longrightarrow> (\<exists>n. v = PInt n) \<or> (\<exists>x. v = PFloat x)) \<and>
     (oe_lower env (py_strip dt) \<in> {''int'', ''integer''} \<longrightarrow> (\<exists>n. v = PInt n)) \<and>
     (oe_lower env (py_strip dt) \<in> {''bool'', ''boolean''} \<longrightarrow> (\<exists>b. v = PBool b)))"

lemma is_bool_iff: "is_bool v \<longleftrightarrow> (\<exists>b. v = PBool b)" by (cases v) auto
lemma is_int_iff: "is_int v \<and> \<not> is_bool v \<longleftrightarrow> (\<exists>n. v = PInt n)" by (cases v) auto
lemma is_num_iff: "(is_int v \<or> is_float v) \<and> \<not> is_bool v \<longleftrightarrow> (\<exists>n. v = PInt n) \<or> (\<exists>x. v = PFloat x)" by (cases v) auto

lemma value_type_conforms: "validate_config_value_type env k v declared = None \<Longrightarrow> type_conforms env declared v"
  unfolding type_conforms_def
proof (intro allI impI)
  fix dt
  assume ok: "validate_config_value_type env k v declared = None" and dt: "unwrap_type declared = PStr dt"
  let ?t = "oe_lower env (py_strip dt)"
  have num: "(is_int v \<or> is_float v) \<and> \<not> is_bool v" if "?t \<in> set NUMERIC_PARAM_TYPES"
    using ok that by (auto simp: validate_config_value_type_def dt Let_def split: if_splits)
  have int: "is_int v \<and> \<not> is_bool v" if "?t \<in> set INT_PARAM_TYPES" "?t \<notin> set NUMERIC_PARAM_TYPES"
    using ok that by (auto simp: validate_config_value_type_def dt Let_def split: if_splits)
  have bool: "is_bool v" if "?t \<in> set BOOL_PARAM_TYPES" "?t \<notin> set INT_PARAM_TYPES" "?t \<notin> set NUMERIC_PARAM_TYPES"
    using ok that by (auto simp: validate_config_value_type_def dt Let_def split: if_splits)
  have sets: "set NUMERIC_PARAM_TYPES = {''float'', ''number'', ''double''}" "set INT_PARAM_TYPES = {''int'', ''integer''}"
    "set BOOL_PARAM_TYPES = {''bool'', ''boolean''}"
    by (simp_all add: NUMERIC_PARAM_TYPES_def INT_PARAM_TYPES_def BOOL_PARAM_TYPES_def)
  show "(?t \<in> {''float'', ''number'', ''double''} \<longrightarrow> (\<exists>n. v = PInt n) \<or> (\<exists>x. v = PFloat x)) \<and>
     (?t \<in> {''int'', ''integer''} \<longrightarrow> (\<exists>n. v = PInt n)) \<and> (?t \<in> {''bool'', ''boolean''} \<longrightarrow> (\<exists>b. v = PBool b))"
  proof (intro conjI impI)
    show "(\<exists>n. v = PInt n) \<or> (\<exists>x. v = PFloat x)" if "?t \<in> {''float'', ''number'', ''double''}"
      using num that is_num_iff unfolding sets by blast
    show "\<exists>n. v = PInt n" if "?t \<in> {''int'', ''integer''}"
    proof -
      have "?t \<notin> set NUMERIC_PARAM_TYPES" using that unfolding sets by auto
      then show ?thesis using int that is_int_iff unfolding sets by blast
    qed
    show "\<exists>b. v = PBool b" if "?t \<in> {''bool'', ''boolean''}"
    proof -
      have "?t \<notin> set NUMERIC_PARAM_TYPES" "?t \<notin> set INT_PARAM_TYPES" using that unfolding sets by auto
      then show ?thesis using bool that is_bool_iff unfolding sets by blast
    qed
  qed
qed

text \<open>The value a change sets.\<close>

definition to_value :: "pyval \<Rightarrow> pyval option" where
  "to_value change = (case change of PDict c \<Rightarrow> map_of c ''to'' | _ \<Rightarrow> None)"

lemma merge_diff_spec:
  "merge_diff env declared diff current = Inr merged \<Longrightarrow> distinct (map fst diff) \<Longrightarrow>
    (\<forall>k. map_of merged k = (case map_of diff k of None \<Rightarrow> map_of current k | Some c \<Rightarrow> to_value c)) \<and>
    (\<forall>(k, c)\<in>set diff. \<exists>v. to_value c = Some v \<and> type_conforms env (obj_get declared k) v)"
proof (induction env declared diff current rule: merge_diff.induct)
  case (2 env declared k change rest current)
  from 2(2) obtain c v where c: "change = PDict c" "map_of c ''to'' = Some v"
    "validate_config_value_type env k v (obj_get declared k) = None"
    "merge_diff env declared rest (dict_set k v current) = Inr merged"
    by (auto split: pyval.splits option.splits)
  have IH: "(\<forall>k'. map_of merged k' = (case map_of rest k' of None \<Rightarrow> map_of (dict_set k v current) k' | Some c \<Rightarrow> to_value c)) \<and>
      (\<forall>(k, c)\<in>set rest. \<exists>v. to_value c = Some v \<and> type_conforms env (obj_get declared k) v)"
    using 2(1) [OF c(1) c(2) c(3) c(4)] 2(3) by simp
  have fresh: "map_of rest k = None" using 2(3) by (simp add: map_of_eq_None_iff)
  show ?case using IH fresh value_type_conforms [OF c(3)] c(1,2) by (auto simp: to_value_def split: option.splits)
qed simp

text \<open>C35 The parameters file: it is written only when every change of the proposal is declared by the template,
  names a value and fits the declared type, and then holds the old content with exactly these values set;
  otherwise nothing is written.\<close>

theorem params_file_is_diff:
  assumes "apply_config_diff env w params_path diff declared s = (res, s')" and "dict_ok diff"
  shows "(\<forall>e. res = Inl e \<longrightarrow> s' = s) \<and>
    (\<forall>merged. res = Inr merged \<longrightarrow>
       s' = w_write_text w params_path (oe_dumps env merged @ [CHR 0x0A]) s \<and>
       (\<exists>raw current. w_read_text w params_path s = FileText raw \<and> oe_loads env (if raw = [] then ''{}'' else raw) = Inr (PDict current) \<and>
          (\<forall>k. map_of merged k = (case map_of diff k of None \<Rightarrow> map_of current k | Some c \<Rightarrow> to_value c))) \<and>
       (\<forall>(k, c)\<in>set diff. map_of declared k \<noteq> None \<and> (\<exists>v. to_value c = Some v \<and> type_conforms env (obj_get declared k) v)))"
proof (intro conjI allI impI)
  show "s' = s" if "res = Inl e" for e
    using assms(1) that
    by (auto simp: apply_config_diff_def Let_def split: if_splits read_answer.splits sum.splits pyval.splits)
next
  fix merged
  assume res: "res = Inr merged"
  obtain raw current where ok: "filter (\<lambda>k. k \<notin> set (dict_keys declared)) (dict_keys diff) = []"
      "w_read_text w params_path s = FileText raw" "oe_loads env (if raw = [] then ''{}'' else raw) = Inr (PDict current)"
      "merge_diff env declared diff current = Inr merged" "s' = w_write_text w params_path (oe_dumps env merged @ [CHR 0x0A]) s"
    using assms(1) res
    by (auto simp: apply_config_diff_def Let_def split: if_splits read_answer.splits sum.splits pyval.splits)
  note spec = merge_diff_spec [OF ok(4) assms(2) [unfolded dict_ok_def]]
  show "s' = w_write_text w params_path (oe_dumps env merged @ [CHR 0x0A]) s" by (rule ok(5))
  show "\<exists>raw current. w_read_text w params_path s = FileText raw \<and> oe_loads env (if raw = [] then ''{}'' else raw) = Inr (PDict current) \<and>
          (\<forall>k. map_of merged k = (case map_of diff k of None \<Rightarrow> map_of current k | Some c \<Rightarrow> to_value c))"
    using ok(2,3) conjunct1 [OF spec] by blast
  have declared: "map_of declared k \<noteq> None" if "(k, c) \<in> set diff" for k c
  proof -
    have "k \<in> set (dict_keys diff)" using that by (force simp: dict_keys_def)
    then have "k \<in> set (dict_keys declared)" using ok(1) unfolding filter_empty_conv by blast
    then show ?thesis by (simp add: dict_keys_def map_of_eq_None_iff)
  qed
  show "\<forall>(k, c)\<in>set diff. map_of declared k \<noteq> None \<and> (\<exists>v. to_value c = Some v \<and> type_conforms env (obj_get declared k) v)"
    using declared conjunct2 [OF spec] by blast
qed

theorem params_file_is_diff_witness:
  "\<exists>merged. apply_config_diff demo_open demo_world [''f''] [(''boost'', PDict [(''to'', PInt 2)])] [(''boost'', PStr ''float'')] [] = (Inr merged, []) \<and>
     map_of merged ''boost'' = Some (PInt 2)"
proof -
  have run: "apply_config_diff demo_open demo_world [''f''] [(''boost'', PDict [(''to'', PInt 2)])] [(''boost'', PStr ''float'')] [] =
      (Inr [(''boost'', PInt 2)], [])"
    by code_simp
  have "dict_ok [(''boost'', PDict [(''to'', PInt 2)])]" by (simp add: dict_ok_def)
  from conjunct2 [OF params_file_is_diff [OF run this], rule_format, OF refl]
  obtain current where "\<forall>k. map_of [(''boost'', PInt 2)] k = (case map_of [(''boost'', PDict [(''to'', PInt 2)])] k of
      None \<Rightarrow> map_of current k | Some c \<Rightarrow> to_value c)" by blast
  then have "map_of [(''boost'', PInt 2)] ''boost'' = to_value (PDict [(''to'', PInt 2)])" by (elim allE [of _ "''boost''"]) simp
  with run show ?thesis by (intro exI [of _ "[(''boost'', PInt 2)]"]) (simp add: to_value_def)
qed

theorem branches_never_moved_witness:
  "\<exists>d' s'. open_runs demo_world [(demo_open, ''p''), (demo_open, ''p'')] (demo_pr_db, [''main'']) = (d', s') \<and> demo_remote s' ''main'' = Some ()"
proof -
  obtain d' s' where run: "open_runs demo_world [(demo_open, ''p''), (demo_open, ''p'')] (demo_pr_db, [''main'']) = (d', s')"
    by (cases "open_runs demo_world [(demo_open, ''p''), (demo_open, ''p'')] (demo_pr_db, [''main''])")
  have "demo_remote [''main''] ''main'' = Some ()" by (simp add: demo_remote_def)
  with branches_never_moved [OF demo_remote_laws run, of "''main''"] run show ?thesis by auto
qed

lemma settle_others: "j \<noteq> i \<Longrightarrow> get_proposal (snd (settle env i res d)) j = get_proposal d j"
  by (auto simp: settle_def safe_set_pr_open_error_def set_proposal_pr_open_error_def mark_proposal_pr_opened_def conditional_update_other
      split: sum.splits pr_stop.splits pyval.splits)

text \<open>C9 What the rows are after a delivery: only the row of the proposal is touched, and it reads \<open>pr_opened\<close>
  only if GitHub answered the request for a pull request of its branch with success and this URL, the branch
  was not there before and is there now, and the proposal was still pending when the row was written.\<close>

theorem opened_pull_request_exists:
  assumes "git_remote w remote" and "open_pr env w i d s = (job, d', s')"
    and "d1 = oe_meanwhile env d" and "d2 = oe_during env d1"
    and "get_proposal d' i = Some p'" and "pp_status p' = PrOpened"
    and "\<forall>e\<in>{d, d1, d2}. \<forall>p. get_proposal e i = Some p \<longrightarrow> pp_status p \<noteq> PrOpened"
  shows "\<exists>p branch u. get_proposal d1 i = Some p \<and> pp_status p = Pending \<and> branch = branch_name i (pp_study_id p) \<and>
    remote s branch = None \<and> remote s' branch \<noteq> None \<and> answered_with env w branch (PStr u) \<and>
    pp_pr_url p' = Some u \<and> pp_pr_state p' = Some PrOpen \<and> (\<exists>q. get_proposal d2 i = Some q \<and> pp_status q = Pending) \<and>
    (\<forall>j. j \<noteq> i \<longrightarrow> get_proposal d' j = get_proposal d2 j)"
  using assms(2)
proof (cases rule: open_pr_cases)
  case 1
  have "\<exists>p. get_proposal d i = Some p \<and> pp_status p = PrOpened" if "d' = safe_set_pr_open_error env i m d" for m
    using assms(5,6) that status_after_error [of env i m d p'] by simp
  with 1(2) have "(\<exists>p. get_proposal d i = Some p \<and> pp_status p = PrOpened) \<or> (\<exists>p. get_proposal d1 i = Some p \<and> pp_status p = PrOpened)"
    using assms(3,5,6) by metis
  then have False using assms(7) by auto
  then show ?thesis ..
next
  case (2 cluster rp template token names p res)
  have d': "d' = snd (settle env i res d2)" using 2(4) assms(3,4) by simp
  have pid: "pp_id p = i" using get_proposal_id [OF 2(1)] by simp
  have no_error: False if "d' = safe_set_pr_open_error env i m d2" for m
  proof -
    have "\<exists>p. get_proposal d2 i = Some p \<and> pp_status p = PrOpened" using assms(5,6) that status_after_error [of env i m d2 p'] by simp
    then show False using assms(7) by auto
  qed
  have unchanged: False if "d' = d2" using that assms(5,6,7) by auto
  obtain u where u: "res = Inr (PStr u)"
    using d' no_error unchanged by (cases res) (auto simp: settle_def split: pr_stop.splits pyval.splits)
  have opened: "d' = snd (mark_proposal_pr_opened i u d2)" using d' u by (simp add: settle_def)
  obtain q where q: "get_proposal d2 i = Some q" "pp_status q = Pending" "pp_pr_url p' = Some u" "pp_pr_state p' = Some PrOpen"
    using marked_opened [of i u d2 p'] opened unchanged assms(5) by auto
  note spec = do_open_pr_spec [OF assms(1) 2(3) refl, unfolded pid u]
  have "remote s (branch_name i (pp_study_id p)) = None" "remote s' (branch_name i (pp_study_id p)) \<noteq> None"
    "answered_with env w (branch_name i (pp_study_id p)) (PStr u)"
    using spec by auto
  then show ?thesis using 2(1,2) q settle_others [of _ i env res d2] d' assms(3) by blast
qed

theorem opened_pull_request_exists_witness:
  "\<exists>p' s'. open_pr demo_open demo_world ''p'' demo_pr_db [''main''] = (PrReturned, snd (mark_proposal_pr_opened ''p'' ''u'' demo_pr_db), s') \<and>
     get_proposal (snd (mark_proposal_pr_opened ''p'' ''u'' demo_pr_db)) ''p'' = Some p' \<and> (\<exists>u. pp_pr_url p' = Some u \<and> demo_remote s' ''relyloop/proposal-p'' \<noteq> None)"
proof -
  obtain p' where p': "get_proposal (snd (mark_proposal_pr_opened ''p'' ''u'' demo_pr_db)) ''p'' = Some p'" "pp_status p' = PrOpened"
    by (simp add: get_proposal_def mark_proposal_pr_opened_def conditional_update_def demo_pr_db_def sample_proposal_def update_proposals_def)
  have before: "\<forall>e\<in>{demo_pr_db, oe_meanwhile demo_open demo_pr_db, oe_during demo_open (oe_meanwhile demo_open demo_pr_db)}.
      \<forall>p. get_proposal e ''p'' = Some p \<longrightarrow> pp_status p \<noteq> PrOpened"
    by (simp add: get_proposal_def demo_pr_db_def sample_proposal_def demo_open_def)
  from opened_pull_request_exists [OF demo_remote_laws demo_open_run refl refl p' before]
  obtain p branch u where x: "get_proposal (oe_meanwhile demo_open demo_pr_db) ''p'' = Some p" "branch = branch_name ''p'' (pp_study_id p)"
    "demo_remote [''relyloop/proposal-p'', ''main''] branch \<noteq> None" "pp_pr_url p' = Some u" by blast
  have "pp_study_id p = None" using x(1) by (auto simp: get_proposal_def demo_pr_db_def sample_proposal_def demo_open_def)
  then have "branch = ''relyloop/proposal-p''" using x(2) by (simp add: branch_name_def)
  then show ?thesis using demo_open_run p'(1) x(3,4) by auto
qed

text \<open>A branch that was pushed without a pull request after it (the API failed, or the worker was killed) is
  found by every later delivery, which ends with \<open>BRANCH_EXISTS\<close>: the proposal stays pending.\<close>

lemma pushed_branch_blocks:
  assumes "git_remote w remote" "open_pr env w i d s = (job, d', s')" "get_proposal (oe_meanwhile env d) i = Some p"
    "remote s (branch_name i (pp_study_id p)) \<noteq> None" "oe_meanwhile env d = d" "oe_during env d = d"
  shows "remote s' = remote s \<and> map_option pp_status (get_proposal d' i) = map_option pp_status (get_proposal d i)"
  using assms(2)
proof (cases rule: open_pr_cases)
  case 1
  then show ?thesis using assms(5) status_after_error_option by auto
next
  case (2 cluster rp template token names p' res)
  have p': "p' = p" "pp_id p = i" using 2(1) assms(3) get_proposal_id [OF assms(3)] by auto
  from do_open_pr_spec [OF assms(1) 2(3) refl] assms(4) p' obtain e where "remote s' = remote s" "res = Inl e" by auto
  then show ?thesis using 2(4) assms(5,6) status_after_error_option by (cases e) (auto simp: settle_def)
qed

end
