(* ===== verification/Baseline.thy ===== *)
theory Baseline
  imports Study_Cascade Trial_Worker
begin

text \<open>
  The baseline trial of a study: how its parameters are chosen
  (\<open>backend/app/domain/study/baseline_resolver.py\<close> and
  \<open>backend/app/services/baseline_resolver.py\<close>) and the job that evaluates them
  (\<open>backend/workers/baseline.py\<close>). Pydantic's reading of the stored search space is the
  parameter \<open>model_validate\<close>, \<open>math.sqrt\<close> the parameter \<open>py_sqrt\<close>; the rest of the outside is
  the \<open>trial_env\<close> of \<open>Trial_Worker\<close>.
\<close>

section \<open>Choosing the parameters\<close>

text \<open>\<open>None\<close> is an exception: the square root of a negative number.\<close>

fun midpoint :: "(pyfloat \<Rightarrow> pyfloat option) \<Rightarrow> param_spec \<Rightarrow> pyval option" where
  "midpoint py_sqrt (NormalizerPipelineParam steps) = Some (PStr DEFAULT_NORMALIZER)"
| "midpoint py_sqrt (FloatParam low high is_log) =
     (if is_log then map_option PFloat (py_sqrt (fmul low high))
      else map_option PFloat (fdiv (fadd low high) (Fin 2)))"
| "midpoint py_sqrt (IntParam low high) = Some (PInt ((low + high) div 2))"
| "midpoint py_sqrt (CategoricalParam choices) = Some (choices ! ((length choices - 1) div 2))"

fun midpoints :: "(pyfloat \<Rightarrow> pyfloat option) \<Rightarrow> search_space \<Rightarrow> obj option" where
  "midpoints py_sqrt [] = Some []"
| "midpoints py_sqrt ((name, param) # rest) =
     (case (midpoint py_sqrt param, midpoints py_sqrt rest) of
        (Some v, Some vs) \<Rightarrow> Some ((name, v) # vs) | _ \<Rightarrow> None)"

text \<open>The outer option is an exception, the inner one Python's \<open>None\<close>.\<close>

definition resolve_from_template_defaults ::
  "(pyval \<Rightarrow> search_space option) \<Rightarrow> (pyfloat \<Rightarrow> pyfloat option) \<Rightarrow> study \<Rightarrow> obj option option" where
  "resolve_from_template_defaults model_validate py_sqrt study_row =
     (case model_validate (st_search_space study_row) of
        None \<Rightarrow> None
      | Some space \<Rightarrow> if space = [] then Some None else map_option Some (midpoints py_sqrt space))"

definition resolve_from_operator_supplied :: "study \<Rightarrow> obj option" where
  "resolve_from_operator_supplied study_row =
     (case obj_get (st_config study_row) ''baseline_params'' of
        PDict params \<Rightarrow> if params = [] then None else Some params
      | _ \<Rightarrow> None)"

definition resolve_baseline_params_from_candidates ::
  "(pyval \<Rightarrow> search_space option) \<Rightarrow> (pyfloat \<Rightarrow> pyfloat option) \<Rightarrow> study \<Rightarrow> obj option \<Rightarrow> obj option
   \<Rightarrow> obj option option" where
  "resolve_baseline_params_from_candidates model_validate py_sqrt study_row proposal_params study_params =
     (case proposal_params of
        Some (p # ps) \<Rightarrow> Some (Some (p # ps))
      | _ \<Rightarrow> (case study_params of
          Some (p # ps) \<Rightarrow> Some (Some (p # ps))
        | _ \<Rightarrow> (case resolve_from_operator_supplied study_row of
            Some params \<Rightarrow> Some (Some params)
          | None \<Rightarrow> resolve_from_template_defaults model_validate py_sqrt study_row)))"

text \<open>The parameters of a trial, if it exists and has any.\<close>

definition params_of_trial :: "db \<Rightarrow> string option \<Rightarrow> obj option" where
  "params_of_trial d trial_id = (case trial_id of
       None \<Rightarrow> None
     | Some i \<Rightarrow> (case get_trial d i of
         None \<Rightarrow> None | Some t \<Rightarrow> if tr_params t = [] then None else Some (tr_params t)))"

definition resolve_from_parent_proposal :: "db \<Rightarrow> string \<Rightarrow> obj option" where
  "resolve_from_parent_proposal d parent_proposal_id =
     (case get_proposal d parent_proposal_id of
        None \<Rightarrow> None | Some p \<Rightarrow> params_of_trial d (pp_study_trial_id p))"

definition resolve_from_parent_study :: "db \<Rightarrow> string \<Rightarrow> obj option" where
  "resolve_from_parent_study d parent_study_id =
     (case get_study d parent_study_id of
        None \<Rightarrow> None | Some parent \<Rightarrow> params_of_trial d (st_best_trial_id parent))"

definition resolve_baseline_params ::
  "(pyval \<Rightarrow> search_space option) \<Rightarrow> (pyfloat \<Rightarrow> pyfloat option) \<Rightarrow> db \<Rightarrow> study \<Rightarrow> obj option option" where
  "resolve_baseline_params model_validate py_sqrt d study_row =
     (let proposal_params = (case st_parent_proposal_id study_row of
            None \<Rightarrow> None | Some i \<Rightarrow> resolve_from_parent_proposal d i);
          study_params = (if proposal_params = None
            then (case st_parent_study_id study_row of None \<Rightarrow> None | Some i \<Rightarrow> resolve_from_parent_study d i)
            else None)
      in resolve_baseline_params_from_candidates model_validate py_sqrt study_row proposal_params study_params)"

section \<open>Transactions\<close>

text \<open>A fresh session around an operation: committed, or rolled back when it raises.\<close>

definition transact :: "(session \<Rightarrow> (state_error + 'a) \<times> session) \<Rightarrow> db \<Rightarrow> (state_error + 'a) \<times> db" where
  "transact f d = (case f (fresh_session d) of
       (Inl e, _) \<Rightarrow> (Inl e, d)
     | (Inr x, s) \<Rightarrow> (case commit s of
         (Inl e, _) \<Rightarrow> (Inl e, d) | (Inr _, s') \<Rightarrow> (Inr x, ss_committed s')))"

definition stamp :: "string \<Rightarrow> string \<Rightarrow> pyfloat \<Rightarrow> db \<Rightarrow> db" where
  "stamp study_id trial_id metric d = snd (transact (stamp_baseline_trial study_id trial_id metric) d)"

section \<open>The job\<close>

definition BASELINE_OPTUNA_TRIAL_NUMBER :: int where
  "BASELINE_OPTUNA_TRIAL_NUMBER = - 1"

text \<open>
  The evaluation is that of \<open>run_trial\<close>, except that the objective is read after the cluster and
  the template were found.
\<close>

definition execute_baseline :: "trial_env \<Rightarrow> study \<Rightarrow> obj \<Rightarrow> bool \<times> trial_failure + pyfloat \<times> score_result" where
  "execute_baseline env study_row params =
     (case objective_metric_key (st_objective study_row) of
        Inr objective_key \<Rightarrow>
          map_sum id (\<lambda>scored. (primary_of objective_key scored, scored)) (execute_scored env study_row params objective_key)
      | Inl e \<Rightarrow>
        (case te_cluster env (st_cluster_id study_row) of
           None \<Rightarrow> Inl (False, Failure (ClusterMissing (st_cluster_id study_row)))
         | Some base_url \<Rightarrow>
           (if \<not> te_url_allowed env base_url then Inl (False, Failure (UrlRefused base_url))
            else if te_template env (st_template_id study_row) = None
            then Inl (False, Failure (TemplateMissing (st_template_id study_row)))
            else Inl (False, Failure (BadObjective e)))))"

definition baseline_row ::
  "trial_env \<Rightarrow> string \<Rightarrow> string \<Rightarrow> obj \<Rightarrow> pyfloat option \<Rightarrow> trial_status \<Rightarrow> string option \<Rightarrow> trial" where
  "baseline_row env study_id trial_id params metric status error =
     \<lparr>tr_id = trial_id, tr_study_id = study_id, tr_number = BASELINE_OPTUNA_TRIAL_NUMBER, tr_params = params,
      tr_primary_metric = metric, tr_metrics = [], tr_per_query_metrics = None, tr_duration_ms = None,
      tr_status = status, tr_error = error, tr_started_at = None, tr_ended_at = Some (te_now env),
      tr_is_baseline = True\<rparr>"

text \<open>
  The constraints an INSERT of a baseline row can violate: the primary key and the partial
  unique index \<open>uq_trials_study_baseline_complete\<close>.
\<close>

definition is_complete_baseline :: "string \<Rightarrow> trial \<Rightarrow> bool" where
  "is_complete_baseline study_id t = (tr_study_id t = study_id \<and> tr_is_baseline t \<and> tr_status t = Complete)"

definition violates_unique :: "trial \<Rightarrow> db \<Rightarrow> bool" where
  "violates_unique row d =
     (tr_id row \<in> tr_id ` set (db_trials d) \<or>
      (is_complete_baseline (tr_study_id row) row \<and> (\<exists>t\<in>set (db_trials d). is_complete_baseline (tr_study_id row) t)))"

definition fail_baseline ::
  "trial_env \<Rightarrow> string \<Rightarrow> string \<Rightarrow> bool \<Rightarrow> obj \<Rightarrow> trial_error \<Rightarrow> db \<Rightarrow> job_end \<times> db" where
  "fail_baseline env study_id trial_id started params err d =
     (let row = failed_row env started
            (baseline_row env study_id trial_id params None TrialFailed (Some (take 500 (te_error_text env err))))
      in if te_insert env row \<noteq> InsertOk then (JobRaised, d)
         else if violates_unique row d then (JobDone, d)
         else (JobDone, add_trial row d))"

text \<open>The flag says that the process dies after the row is committed, before the stamp.\<close>

definition run_baseline_trial ::
  "trial_env \<Rightarrow> bool \<Rightarrow> string \<Rightarrow> string \<Rightarrow> obj \<Rightarrow> db \<Rightarrow> job_end \<times> db" where
  "run_baseline_trial env dies study_id trial_id params d =
     (case get_trial d trial_id of
        Some existing \<Rightarrow>
          (case tr_primary_metric existing of
             Some m \<Rightarrow> if tr_status existing = Complete then (JobDone, stamp study_id trial_id m d) else (JobDone, d)
           | None \<Rightarrow> (JobDone, d))
      | None \<Rightarrow>
          (case get_study d study_id of
             None \<Rightarrow> (JobDone, d)
           | Some study_row \<Rightarrow>
             (case execute_baseline env study_row params of
                Inl (started, Operational) \<Rightarrow> (JobRaised, d)
              | Inl (started, Failure e) \<Rightarrow> fail_baseline env study_id trial_id started params e d
              | Inr (primary, scored) \<Rightarrow>
                (let row = scored_row env scored (baseline_row env study_id trial_id params (Some primary) Complete None)
                 in case te_insert env row of
                      InsertOperational \<Rightarrow> (JobRaised, d)
                    | InsertOther \<Rightarrow> fail_baseline env study_id trial_id True params InsertRefused d
                    | InsertOk \<Rightarrow>
                        (if violates_unique row d then (JobDone, d)
                         else if dies then (JobCrashed, add_trial row d)
                         else (JobDone, stamp study_id trial_id primary (add_trial row d)))))))"

section \<open>Lemmas on the parameters\<close>

text \<open>A binary64 number whose double is one, too.\<close>

definition half_double :: "pyfloat \<Rightarrow> bool" where
  "half_double x = (\<exists>m u. x = Fin (of_int m * pow2 u) \<and> \<bar>m\<bar> < 2 ^ 53 \<and> - 1074 \<le> u \<and> u \<le> 970)"

lemma half_double_exact:
  assumes "half_double (Fin q)"
  shows "rnd64 q = Fin q" "rnd64 (2 * q) = Fin (2 * q)"
proof -
  from assms obtain m u where q: "q = of_int m * pow2 u" "\<bar>m\<bar> < 2 ^ 53" "- 1074 \<le> u" "u \<le> 970"
    by (auto simp: half_double_def)
  show "rnd64 q = Fin q" using q by (intro rnd64_exact [of _ m u]) auto
  have "pow2 (u + 1) = 2 * pow2 u" by (simp add: pow2_add) (simp add: pow2_def)
  then show "rnd64 (2 * q) = Fin (2 * q)" using q by (intro rnd64_exact [of _ m "u + 1"]) auto
qed

lemma mean_between:
  assumes "half_double low" "half_double high" "flt low high"
  shows "\<exists>x. fdiv (fadd low high) (Fin 2) = Some x \<and> fle low x \<and> fle x high"
proof -
  obtain a b where ab: "low = Fin a" "high = Fin b" using assms by (auto simp: half_double_def)
  note ea = half_double_exact [OF assms(1) [unfolded ab]] and eb = half_double_exact [OF assms(2) [unfolded ab]]
  have lt: "a < b" using assms(3) ab by simp
  have "fle (Fin (2 * a)) (rnd64 (a + b))" "fle (rnd64 (a + b)) (Fin (2 * b))"
    using rnd64_mono [of "2 * a" "a + b"] rnd64_mono [of "a + b" "2 * b"] ea eb lt by simp_all
  then obtain s where s: "rnd64 (a + b) = Fin s" "2 * a \<le> s" "s \<le> 2 * b" by (cases "rnd64 (a + b)") auto
  then have "a \<le> s / 2" "s / 2 \<le> b" by simp_all
  then have "fle (Fin a) (rnd64 (s / 2))" "fle (rnd64 (s / 2)) (Fin b)"
    using rnd64_mono [of a "s / 2"] rnd64_mono [of "s / 2" b] ea eb by simp_all
  then show ?thesis by (simp add: ab s)
qed

lemma none_label: "steps_for_label ''none'' = Some []"
  by (simp add: steps_for_label_def)

lemma midpoint_in_spec:
  assumes "param_ok spec" "\<And>low high is_log. spec = FloatParam low high is_log \<Longrightarrow>
      \<not> is_log \<and> half_double low \<and> half_double high"
  shows "\<exists>v. midpoint py_sqrt spec = Some v \<and> in_spec spec v"
proof (cases spec)
  case (FloatParam low high is_log)
  then have "\<not> fle high low" "half_double low" "half_double high" "\<not> is_log"
    using assms by (auto simp: param_ok_def)
  moreover from this have "flt low high"
    by (auto simp: half_double_def)
  ultimately show ?thesis using mean_between [of low high] FloatParam by auto
next
  case (IntParam low high)
  then have "low \<le> high" using assms(1) by (simp add: param_ok_def)
  then have "low \<le> (low + high) div 2" "(low + high) div 2 \<le> high" by auto
  then show ?thesis using IntParam by simp
next
  case (CategoricalParam choices)
  then have "choices \<noteq> []" using assms(1) by (simp add: param_ok_def)
  then have "(length choices - 1) div 2 < length choices"
    by (metis diff_less div_le_dividend le_less_trans length_greater_0_conv zero_less_one)
  then show ?thesis using CategoricalParam by simp
next
  case (NormalizerPipelineParam steps)
  then show ?thesis by (auto simp: DEFAULT_NORMALIZER_def none_label)
qed

section \<open>Lemmas on the rows\<close>

text \<open>Stamping, without the session.\<close>

definition stampable :: "string \<Rightarrow> string \<Rightarrow> db \<Rightarrow> bool" where
  "stampable study_id trial_id d =
     ((\<exists>t. get_trial d trial_id = Some t \<and> is_complete_baseline study_id t) \<and>
      (\<exists>r. get_study d study_id = Some r \<and> st_baseline_trial_id r = None))"

lemma stamp_eq:
  "stamp study_id trial_id m d =
     (if stampable study_id trial_id d
      then update_study study_id (\<lambda>x. x\<lparr>st_baseline_trial_id := Some trial_id, st_baseline_metric := Some m\<rparr>) d
      else d)"
  by (auto simp: stamp_def transact_def stamp_baseline_trial_def fresh_session_def commit_def flush_def
      study_state_guard_def write_objects_def stampable_def is_complete_baseline_def split: option.splits)

lemma stamp_trials [simp]: "db_trials (stamp s t m d) = db_trials d"
  by (simp add: stamp_eq)

lemma stamp_twice: "stamp s t m (stamp s t m d) = stamp s t m d"
  by (auto simp: stamp_eq stampable_def)

text \<open>
  Rows have their own ids, a study has at most one complete baseline, which has a metric, and
  a stamp names it and its metric.
\<close>

definition baseline_ok :: "db \<Rightarrow> bool" where
  "baseline_ok d =
     (distinct (map tr_id (db_trials d)) \<and>
      (\<forall>s. \<forall>t\<in>set (db_trials d). \<forall>u\<in>set (db_trials d).
         is_complete_baseline s t \<longrightarrow> is_complete_baseline s u \<longrightarrow> t = u) \<and>
      (\<forall>t\<in>set (db_trials d). \<forall>s. is_complete_baseline s t \<longrightarrow> tr_primary_metric t \<noteq> None) \<and>
      (\<forall>r\<in>set (db_studies d). \<forall>i. st_baseline_trial_id r = Some i \<longrightarrow>
         (\<exists>t\<in>set (db_trials d). tr_id t = i \<and> is_complete_baseline (st_id r) t \<and>
            st_baseline_metric r = tr_primary_metric t)))"

lemma baseline_row_simps [simp]:
  "tr_id (baseline_row env s i ps m st e) = i" "tr_study_id (baseline_row env s i ps m st e) = s"
  "tr_status (baseline_row env s i ps m st e) = st" "tr_is_baseline (baseline_row env s i ps m st e)"
  "tr_primary_metric (baseline_row env s i ps m st e) = m"
  by (simp_all add: baseline_row_def)

lemma in_update_study:
  "r \<in> set (db_studies (update_study i f d)) \<Longrightarrow>
     \<exists>q\<in>set (db_studies d). r = (if st_id q = i then (f q)\<lparr>st_id := i\<rparr> else q)"
  by (auto simp: update_study_def)

lemma baseline_ok_stamp:
  assumes "baseline_ok d" "get_trial d i = Some t" "tr_primary_metric t = Some m"
  shows "baseline_ok (stamp s i m d)"
proof (cases "stampable s i d")
  case True
  then have t: "is_complete_baseline s t" "t \<in> set (db_trials d)" "tr_id t = i"
    using assms(2) get_trial_id [OF assms(2)] by (auto simp: stampable_def)
  have "\<exists>t\<in>set (db_trials d). tr_id t = j \<and> is_complete_baseline (st_id r) t \<and> st_baseline_metric r = tr_primary_metric t"
    if r: "r \<in> set (db_studies (stamp s i m d))" "st_baseline_trial_id r = Some j" for r j
  proof -
    from r(1) True obtain q where q: "q \<in> set (db_studies d)"
      "r = (if st_id q = s then q\<lparr>st_baseline_trial_id := Some i, st_baseline_metric := Some m, st_id := s\<rparr> else q)"
      using in_update_study by (fastforce simp: stamp_eq)
    show ?thesis
    proof (cases "st_id q = s")
      case True
      then show ?thesis using q r(2) t assms(3) by auto
    next
      case False
      then show ?thesis using q r(2) assms(1) by (auto simp: baseline_ok_def)
    qed
  qed
  then show ?thesis using assms(1) unfolding baseline_ok_def by simp
qed (use assms(1) in \<open>simp add: stamp_eq\<close>)

lemma baseline_ok_add:
  assumes "baseline_ok d" "\<not> violates_unique row d" "tr_is_baseline row"
    and "tr_status row = Complete \<longrightarrow> tr_primary_metric row \<noteq> None"
  shows "baseline_ok (add_trial row d)"
proof -
  have "is_complete_baseline s row \<Longrightarrow> \<not> (\<exists>t\<in>set (db_trials d). is_complete_baseline s t)" for s
    using assms(2) by (auto simp: violates_unique_def is_complete_baseline_def)
  moreover have "tr_id row \<notin> tr_id ` set (db_trials d)" using assms(2) by (auto simp: violates_unique_def)
  moreover have "is_complete_baseline s row \<Longrightarrow> tr_primary_metric row \<noteq> None" for s
    using assms(4) by (simp add: is_complete_baseline_def)
  ultimately show ?thesis using assms(1) unfolding baseline_ok_def add_trial_def by auto
qed

lemma find_append:
  "\<forall>x\<in>set xs. \<not> p x \<Longrightarrow> find p (xs @ ys) = find p ys"
  by (induction xs) auto

lemma get_trial_added:
  assumes "tr_id row \<notin> tr_id ` set (db_trials d)"
  shows "get_trial (add_trial row d) (tr_id row) = Some row"
proof -
  have "\<forall>x\<in>set (db_trials d). tr_id x \<noteq> tr_id row" using assms by (metis imageI)
  then show ?thesis by (simp add: get_trial_def add_trial_def find_append)
qed

lemma baseline_ok_fail:
  "baseline_ok d \<Longrightarrow> fail_baseline env s i b ps e d = (j, d') \<Longrightarrow> baseline_ok d'"
  by (auto simp: fail_baseline_def Let_def baseline_ok_add split: if_splits)

lemma run_baseline_ok:
  assumes "baseline_ok d" "run_baseline_trial env dies s i ps d = (j, d')"
  shows "baseline_ok d'"
proof (cases "get_trial d i")
  case (Some t)
  then show ?thesis using assms baseline_ok_stamp [OF assms(1) Some]
    by (auto simp: run_baseline_trial_def split: option.splits if_splits)
next
  case None
  have added: "baseline_ok (add_trial r d)" "baseline_ok (stamp s i m (add_trial r d))"
    if "\<not> violates_unique r d" "r = scored_row env sc (baseline_row env s i ps (Some m) Complete None)" for r m sc
  proof -
    show a: "baseline_ok (add_trial r d)" using baseline_ok_add [OF assms(1) that(1)] that(2) by simp
    have "get_trial (add_trial r d) i = Some r"
      using get_trial_added [of r d] that by (simp add: violates_unique_def)
    from baseline_ok_stamp [OF a this, of m s] that(2) show "baseline_ok (stamp s i m (add_trial r d))" by simp
  qed
  show ?thesis using assms None added
    by (auto simp: run_baseline_trial_def Let_def dest: baseline_ok_fail
        split: option.splits if_splits sum.splits trial_failure.splits insert_end.splits)
qed

section \<open>Runs\<close>

text \<open>
  Deliveries of the job, stamps by the orchestrator with the metric of the row, and anything
  else that leaves the baseline rows and the baseline columns alone.
\<close>

inductive baseline_step :: "db \<Rightarrow> db \<Rightarrow> bool" where
  bs_run: "run_baseline_trial env dies s i ps d = (j, d') \<Longrightarrow> baseline_step d d'"
| bs_stamp: "get_trial d i = Some t \<Longrightarrow> tr_primary_metric t = Some m \<Longrightarrow> baseline_step d (stamp s i m d)"
| bs_other: "filter tr_is_baseline (db_trials d') = filter tr_is_baseline (db_trials d) \<Longrightarrow>
    distinct (map tr_id (db_trials d')) \<Longrightarrow>
    \<forall>r\<in>set (db_studies d'). st_baseline_trial_id r = None \<or>
      (\<exists>q\<in>set (db_studies d). st_id q = st_id r \<and> st_baseline_trial_id q = st_baseline_trial_id r \<and>
         st_baseline_metric q = st_baseline_metric r) \<Longrightarrow> baseline_step d d'"

lemma baseline_step_ok: "baseline_step d d' \<Longrightarrow> baseline_ok d \<Longrightarrow> baseline_ok d'"
proof (induction rule: baseline_step.induct)
  case (bs_other d' d)
  have same: "(t \<in> set (db_trials d') \<and> is_complete_baseline s t) = (t \<in> set (db_trials d) \<and> is_complete_baseline s t)" for t s
  proof -
    have "set (filter tr_is_baseline (db_trials d')) = set (filter tr_is_baseline (db_trials d))"
      by (simp only: bs_other.hyps(1))
    then show ?thesis by (auto simp: is_complete_baseline_def)
  qed
  have "\<exists>t. t \<in> set (db_trials d) \<and> is_complete_baseline (st_id r) t \<and> tr_id t = i \<and> st_baseline_metric r = tr_primary_metric t"
    if r: "r \<in> set (db_studies d')" "st_baseline_trial_id r = Some i" for r i
  proof -
    from bs_other.hyps(3) r obtain q where "q \<in> set (db_studies d)" "st_id q = st_id r"
      "st_baseline_trial_id q = Some i" "st_baseline_metric q = st_baseline_metric r" by fastforce
    then show ?thesis using bs_other.prems unfolding baseline_ok_def by metis
  qed
  then show ?case using bs_other.prems bs_other.hyps(2) same unfolding baseline_ok_def by blast
qed (auto intro: run_baseline_ok baseline_ok_stamp)

section \<open>Properties\<close>

text \<open>A study's baseline is one trial and stays it. Whatever deliveries, crashes and stamps happen in
  whatever order, no study has two complete baseline rows, and a stamped study names a
  complete baseline row of its own and that row's metric.\<close>

theorem baseline_consistent:
  assumes "baseline_step\<^sup>*\<^sup>* d d'" and "baseline_ok d"
  shows "(\<forall>s. \<forall>t\<in>set (db_trials d'). \<forall>u\<in>set (db_trials d').
       is_complete_baseline s t \<and> is_complete_baseline s u \<longrightarrow> t = u) \<and>
    (\<forall>r\<in>set (db_studies d'). \<forall>i. st_baseline_trial_id r = Some i \<longrightarrow>
       (\<exists>t\<in>set (db_trials d'). tr_id t = i \<and> is_complete_baseline (st_id r) t \<and>
          st_baseline_metric r = tr_primary_metric t))"
proof -
  have "baseline_ok d'" using assms by (induction rule: rtranclp_induct) (auto intro: baseline_step_ok)
  then show ?thesis unfolding baseline_ok_def by blast
qed

text \<open>A worker killed between the row and the stamp loses nothing: the redelivered job, whatever it
  would now measure, ends with the tables of the run that was not killed.\<close>

theorem baseline_redelivered:
  assumes "run_baseline_trial env True s i ps d = (JobCrashed, d1)"
  shows "run_baseline_trial env2 dies s i ps d1 = run_baseline_trial env False s i ps d \<and>
    fst (run_baseline_trial env False s i ps d) = JobDone"
proof -
  have none: "get_trial d i = None" using assms
    by (auto simp: run_baseline_trial_def split: option.splits if_splits)
  from assms none obtain row m sc where row: "get_study d s = Some row" "execute_baseline env row ps = Inr (m, sc)"
    "te_insert env (scored_row env sc (baseline_row env s i ps (Some m) Complete None)) = InsertOk"
    "\<not> violates_unique (scored_row env sc (baseline_row env s i ps (Some m) Complete None)) d"
    "d1 = add_trial (scored_row env sc (baseline_row env s i ps (Some m) Complete None)) d"
    by (auto simp: run_baseline_trial_def fail_baseline_def Let_def
        split: option.splits if_splits sum.splits trial_failure.splits insert_end.splits)
  have "get_trial d1 i = Some (scored_row env sc (baseline_row env s i ps (Some m) Complete None))"
    using get_trial_added [of "scored_row env sc (baseline_row env s i ps (Some m) Complete None)" d] row(4,5)
    by (simp add: violates_unique_def)
  then show ?thesis using none row by (simp add: run_baseline_trial_def)
qed

text \<open>Where a baseline's parameters come from: the trial of the proposal the study follows up, else
  the winner of its parent, else what the operator gave, each when there is any; else the
  middle of the search space, which lies in the space parameter by parameter.\<close>

theorem baseline_params_source:
  assumes "model_validate (st_search_space row) = Some space" and "space_ok space"
    and "\<forall>low high is_log. FloatParam low high is_log \<in> set (dict_values space) \<longrightarrow>
      \<not> is_log \<and> half_double low \<and> half_double high"
  shows "\<exists>params. resolve_baseline_params model_validate py_sqrt d row = Some (Some params) \<and> params \<noteq> [] \<and>
    (let proposal = (case st_parent_proposal_id row of None \<Rightarrow> None | Some i \<Rightarrow> resolve_from_parent_proposal d i);
         parent = (case st_parent_study_id row of None \<Rightarrow> None | Some i \<Rightarrow> resolve_from_parent_study d i)
     in (case proposal of Some ps \<Rightarrow> params = ps | None \<Rightarrow>
          (case parent of Some ps \<Rightarrow> params = ps | None \<Rightarrow>
            (case resolve_from_operator_supplied row of Some ps \<Rightarrow> params = ps | None \<Rightarrow>
              list_all2 (\<lambda>(n, spec) (m, v). m = n \<and> in_spec spec v) space params))))"
proof -
  have mids: "\<exists>vs. midpoints py_sqrt sp = Some vs \<and> list_all2 (\<lambda>(n, spec) (m, v). m = n \<and> in_spec spec v) sp vs"
    if "\<forall>spec\<in>set (dict_values sp). param_ok spec"
      "\<forall>low high is_log. FloatParam low high is_log \<in> set (dict_values sp) \<longrightarrow> \<not> is_log \<and> half_double low \<and> half_double high"
    for sp using that
  proof (induction sp)
    case (Cons p sp)
    obtain n spec where p: "p = (n, spec)" by (cases p)
    have "\<exists>v. midpoint py_sqrt spec = Some v \<and> in_spec spec v"
      using Cons.prems by (intro midpoint_in_spec) (auto simp: p dict_values_def)
    moreover have "\<exists>vs. midpoints py_sqrt sp = Some vs \<and> list_all2 (\<lambda>(n, spec) (m, v). m = n \<and> in_spec spec v) sp vs"
      using Cons.prems by (intro Cons.IH) (auto simp: dict_values_def)
    ultimately show ?case by (auto simp: p)
  qed simp
  have "space \<noteq> []" "\<forall>spec\<in>set (dict_values space). param_ok spec" using assms(2) by (auto simp: space_ok_def)
  with mids [OF this(2) assms(3)] obtain vs where vs: "midpoints py_sqrt space = Some vs" "vs \<noteq> []"
    "list_all2 (\<lambda>(n, spec) (m, v). m = n \<and> in_spec spec v) space vs" by fastforce
  have pt: "params_of_trial d i = Some ps \<Longrightarrow> ps \<noteq> []" for i ps
    by (auto simp: params_of_trial_def split: option.splits if_splits)
  then have pp: "resolve_from_parent_proposal d i = Some ps \<Longrightarrow> ps \<noteq> []"
    and ps: "resolve_from_parent_study d i = Some ps \<Longrightarrow> ps \<noteq> []" for i ps
    by (auto simp: resolve_from_parent_proposal_def resolve_from_parent_study_def split: option.splits)
  have op: "resolve_from_operator_supplied row = Some ps \<Longrightarrow> ps \<noteq> []" for ps
    by (auto simp: resolve_from_operator_supplied_def split: pyval.splits if_splits)
  have last_tier: "resolve_from_template_defaults model_validate py_sqrt row = Some (Some vs)"
    using assms(1) vs \<open>space \<noteq> []\<close> by (simp add: resolve_from_template_defaults_def)
  have ne: "resolve_from_parent_proposal d i \<noteq> Some []" "resolve_from_parent_study d i \<noteq> Some []" for i
    using pp ps by blast+
  show ?thesis
    unfolding resolve_baseline_params_def resolve_baseline_params_from_candidates_def Let_def
    using op last_tier vs(2,3)
    by (auto simp: ne split: option.splits list.splits)
qed

section \<open>Concrete instances\<close>

abbreviation sample_baseline_row :: trial where
  "sample_baseline_row \<equiv> scored_row sample_trial_env
     \<lparr>sr_aggregate = [(''mrr'', Fin 1)], sr_per_query = [(''q'', [(''mrr'', Fin 1)])]\<rparr>
     (baseline_row sample_trial_env ''s'' ''b'' [] (Some (Fin 1)) Complete None)"

definition sample_baseline_tables :: "db" where
  "sample_baseline_tables = \<lparr>db_studies = [sample_trial_study], db_trials = [], db_proposals = []\<rparr>"

lemma sample_baseline_insert:
  "get_study sample_baseline_tables ''s'' = Some sample_trial_study"
  "get_trial sample_baseline_tables i = None"
  "execute_baseline sample_trial_env sample_trial_study ps =
     Inr (Fin 1, \<lparr>sr_aggregate = [(''mrr'', Fin 1)], sr_per_query = [(''q'', [(''mrr'', Fin 1)])]\<rparr>)"
  "te_insert sample_trial_env r = InsertOk" "\<not> violates_unique r sample_baseline_tables"
  by (simp_all add: get_study_def get_trial_def sample_baseline_tables_def sample_trial_study_def [THEN arg_cong, of st_id]
      sample_study_def execute_baseline_def sample_key sample_scored violates_unique_def primary_of_def)
    (simp add: sample_trial_env_def)

lemma sample_baseline_crash:
  "run_baseline_trial sample_trial_env True ''s'' ''b'' [] sample_baseline_tables =
     (JobCrashed, add_trial sample_baseline_row sample_baseline_tables)"
  by (simp add: run_baseline_trial_def sample_baseline_insert)

lemma baseline_redelivered_witness:
  "run_baseline_trial sample_trial_env False ''s'' ''b'' []
     (add_trial sample_baseline_row sample_baseline_tables) =
   run_baseline_trial sample_trial_env False ''s'' ''b'' [] sample_baseline_tables \<and>
   fst (run_baseline_trial sample_trial_env False ''s'' ''b'' [] sample_baseline_tables) = JobDone"
  using baseline_redelivered [OF sample_baseline_crash] by blast

lemma baseline_consistent_witness:
  "set (map st_baseline_trial_id (db_studies (snd (run_baseline_trial sample_trial_env False ''s'' ''b'' []
     sample_baseline_tables)))) \<subseteq> {None, Some ''b''}"
proof -
  obtain j d' where run: "run_baseline_trial sample_trial_env False ''s'' ''b'' [] sample_baseline_tables = (j, d')"
    by (cases "run_baseline_trial sample_trial_env False ''s'' ''b'' [] sample_baseline_tables") auto
  have "baseline_ok sample_baseline_tables"
    by (simp add: baseline_ok_def sample_baseline_tables_def sample_trial_study_def sample_study_def)
  from baseline_consistent [OF r_into_rtranclp [of baseline_step, OF bs_run [OF run]] this]
  have "\<forall>r\<in>set (db_studies d'). \<forall>i. st_baseline_trial_id r = Some i \<longrightarrow> (\<exists>t\<in>set (db_trials d'). tr_id t = i)"
    by blast
  moreover have "\<forall>t\<in>set (db_trials d'). tr_id t = ''b''"
  proof -
    have "d' = stamp ''s'' ''b'' (Fin 1) (add_trial sample_baseline_row
        sample_baseline_tables)"
      using run by (simp add: run_baseline_trial_def sample_baseline_insert)
    then show ?thesis by (simp add: add_trial_def) (simp add: sample_baseline_tables_def)
  qed
  ultimately have "st_baseline_trial_id r \<in> {None, Some ''b''}" if "r \<in> set (db_studies d')" for r
    using that by (cases "st_baseline_trial_id r") auto
  then have "set (map st_baseline_trial_id (db_studies d')) \<subseteq> {None, Some ''b''}"
    unfolding set_map by (rule image_subsetI)
  then show ?thesis using run by simp
qed

lemma baseline_params_source_witness:
  "\<exists>params. resolve_baseline_params (\<lambda>_. Some [(''slop'', IntParam 0 5)]) (\<lambda>_. None) sample_baseline_tables sample_trial_study =
     Some (Some params) \<and> params \<noteq> []"
proof -
  have "space_ok [(''slop'', IntParam 0 5)]"
    by (simp add: space_ok_def dict_values_def param_ok_def estimate_cardinality_def)
  from baseline_params_source [of "\<lambda>_. Some [(''slop'', IntParam 0 5)]" sample_trial_study, OF _ this]
  show ?thesis by (fastforce simp: dict_values_def)
qed

end
