(* ===== verification/Chain_Summary.thy ===== *)
theory Chain_Summary
  imports Chain_Gate
begin

text \<open>
  The rolled-up summary of a chain of studies
  (\<open>backend/app/domain/study/chain_summary.py\<close>): why the chain stopped, its best link, its
  cumulative lift. \<open>links\<close> is ordered with the anchor first; the functions index it without
  a test where the source does, and raise on an empty list there (\<open>None\<close>).
\<close>

section \<open>The code\<close>

definition CHAIN_LIFT_EPSILON :: pyfloat where
  "CHAIN_LIFT_EPSILON = AUTO_FOLLOWUP_LIFT_EPSILON"

datatype chain_stop_reason =
  DepthExhausted | NoLift | Budget | ParentFailed | ChainCancelled | InFlight

definition CHAIN_STOP_REASONS :: "chain_stop_reason set" where
  "CHAIN_STOP_REASONS = {DepthExhausted, NoLift, Budget, ParentFailed, ChainCancelled, InFlight}"

definition direction_of :: "study \<Rightarrow> direction" where
  "direction_of link =
     (if obj_get_default (st_objective link) ''direction'' (PStr ''maximize'') = PStr ''minimize''
      then Minimize else Maximize)"

definition tail_baseline :: "study \<Rightarrow> trial list \<Rightarrow> pyfloat option" where
  "tail_baseline tail anchor_trials = (case st_baseline_metric tail of
       Some b \<Rightarrow> Some b
     | None \<Rightarrow> if anchor_trials \<noteq> [] then compute_first_decile_max anchor_trials (direction_of tail)
               else None)"

definition derive_chain_stop_reason :: "study list \<Rightarrow> trial list \<Rightarrow> chain_stop_reason option" where
  "derive_chain_stop_reason links anchor_trials =
     (if \<exists>link\<in>set links. st_status link = Queued \<or> st_status link = Running then Some InFlight
      else if links = [] then None
      else let tail = last links in Some
       (if st_status tail = Cancelled then ChainCancelled
        else if st_status tail = Failed then ParentFailed
        else if st_status tail \<noteq> Completed then DepthExhausted
        else if depth_exhausted tail then DepthExhausted
        else (case st_best_metric tail of
            None \<Rightarrow> NoLift
          | Some best \<Rightarrow> (case tail_baseline tail anchor_trials of
              None \<Rightarrow> NoLift
            | Some base \<Rightarrow>
                (if fle (direction_normalized_lift best base (direction_of tail)) CHAIN_LIFT_EPSILON
                 then NoLift else Budget)))))"

text \<open>
  The order of the tuples \<open>(best_metric, created_at, id)\<close>, and \<open>min\<close> by a key: the first of
  the least elements.
\<close>

definition link_key_less :: "study \<Rightarrow> study \<Rightarrow> bool" where
  "link_key_less a b =
     (st_created_at a < st_created_at b \<or> st_created_at a = st_created_at b \<and> st_id a < st_id b)"

definition metric_key_less :: "(study \<times> pyfloat) \<Rightarrow> (study \<times> pyfloat) \<Rightarrow> bool" where
  "metric_key_less a b =
     (if feq (snd a) (snd b) then link_key_less (fst a) (fst b) else flt (snd a) (snd b))"

fun min_by :: "('a \<Rightarrow> 'a \<Rightarrow> bool) \<Rightarrow> 'a list \<Rightarrow> 'a option" where
  "min_by lt [] = None"
| "min_by lt (x # xs) = Some (fold (\<lambda>y m. if lt y m then y else m) xs x)"

definition completed_links :: "study list \<Rightarrow> (study \<times> pyfloat) list" where
  "completed_links links = List.map_filter
     (\<lambda>link. if st_status link = Completed then map_option (Pair link) (st_best_metric link) else None)
     links"

definition select_best_link :: "study list \<Rightarrow> string option" where
  "select_best_link links =
     (let completed = completed_links links
      in if completed = [] then None
         else if direction_of (hd links) = Minimize then
           map_option (\<lambda>p. st_id (fst p)) (min_by metric_key_less completed)
         else (case fmax_list (map snd completed) of
             None \<Rightarrow> None
           | Some max_metric \<Rightarrow> map_option (\<lambda>p. st_id (fst p))
               (min_by (\<lambda>a b. link_key_less (fst a) (fst b))
                 (filter (\<lambda>p. feq (snd p) max_metric) completed))))"

definition compute_cumulative_lift :: "study list \<Rightarrow> trial list \<Rightarrow> pyfloat option" where
  "compute_cumulative_lift links anchor_trials =
     (case select_best_link links of
        None \<Rightarrow> None
      | Some best_id \<Rightarrow> (case find (\<lambda>link. st_id link = best_id) links of
          None \<Rightarrow> None
        | Some best_link \<Rightarrow> (case st_best_metric best_link of
            None \<Rightarrow> None
          | Some best \<Rightarrow>
             (let anchor = hd links; d = direction_of anchor;
                anchor_baseline = (case st_baseline_metric anchor of
                    Some b \<Rightarrow> Some b
                  | None \<Rightarrow> if anchor_trials \<noteq> [] then compute_first_decile_max anchor_trials d
                            else None)
              in map_option (\<lambda>base. direction_normalized_lift best base d) anchor_baseline))))"

definition direction_normalized_delta_from_prev ::
  "pyfloat option \<Rightarrow> pyfloat option \<Rightarrow> direction \<Rightarrow> pyfloat option" where
  "direction_normalized_delta_from_prev this_metric prev_metric d =
     (case (this_metric, prev_metric) of
        (Some a, Some b) \<Rightarrow> Some (direction_normalized_lift a b d) | _ \<Rightarrow> None)"

section \<open>Lemmas\<close>

text \<open>A strict order that is total on the elements at hand has a least element among them.\<close>

locale total_less =
  fixes lt :: "'a \<Rightarrow> 'a \<Rightarrow> bool" and on :: "'a \<Rightarrow> bool" and same :: "'a \<Rightarrow> 'a \<Rightarrow> bool"
  assumes less_trans: "on a \<Longrightarrow> on b \<Longrightarrow> on c \<Longrightarrow> lt a b \<Longrightarrow> lt b c \<Longrightarrow> lt a c"
    and less_irrefl: "\<not> lt a a"
    and less_total: "on a \<Longrightarrow> on b \<Longrightarrow> lt a b \<or> lt b a \<or> same a b"
    and same_less: "on a \<Longrightarrow> on b \<Longrightarrow> on c \<Longrightarrow> same a b \<Longrightarrow> lt b c \<Longrightarrow> lt a c"
    and less_same: "on a \<Longrightarrow> on b \<Longrightarrow> on c \<Longrightarrow> lt a b \<Longrightarrow> same b c \<Longrightarrow> lt a c"
begin

lemma not_less_step: "on a \<Longrightarrow> on b \<Longrightarrow> on c \<Longrightarrow> lt b a \<Longrightarrow> \<not> lt c a \<Longrightarrow> \<not> lt c b"
  using less_trans [of c b a] by blast

lemma fold_min:
  "on x \<Longrightarrow> \<forall>y\<in>set xs. on y \<Longrightarrow>
     fold (\<lambda>y m. if lt y m then y else m) xs x \<in> insert x (set xs) \<and>
     (\<forall>y\<in>insert x (set xs). \<not> lt y (fold (\<lambda>y m. if lt y m then y else m) xs x))"
proof (induction xs arbitrary: x)
  case (Cons a xs)
  let ?x = "if lt a x then a else x"
  let ?m = "fold (\<lambda>y m. if lt y m then y else m) xs ?x"
  have IH: "?m \<in> insert ?x (set xs)" "\<forall>y\<in>insert ?x (set xs). \<not> lt y ?m"
    using Cons.IH [of ?x] Cons.prems by auto
  have dm: "on ?m" "on a" "on x" "on ?x" using IH(1) Cons.prems by (auto split: if_splits)
  have nx: "\<not> lt ?x ?m" using IH(2) by simp
  have "\<not> lt x ?m \<and> \<not> lt a ?m"
  proof (cases "lt a x")
    case True
    then show ?thesis using nx less_trans [of a x ?m] dm by auto
  next
    case False
    have "\<not> lt a ?m"
    proof
      assume l: "lt a ?m"
      have "lt x a \<or> same x a" using False less_total [of a x] less_total [of x a] dm by blast
      then show False
        using nx l False less_trans [of x a ?m] same_less [of x a ?m] dm by auto
    qed
    then show ?thesis using False nx by simp
  qed
  then show ?case using IH by (auto split: if_splits)
qed (simp add: less_irrefl)

lemma min_by_least:
  "min_by lt xs = Some m \<Longrightarrow> \<forall>y\<in>set xs. on y \<Longrightarrow> m \<in> set xs \<and> (\<forall>y\<in>set xs. \<not> lt y m)"
  by (cases xs) (use fold_min in force)+
end

lemma link_key_less_trans: "link_key_less a b \<Longrightarrow> link_key_less b c \<Longrightarrow> link_key_less a c"
  by (auto simp: link_key_less_def)

interpretation link_order: total_less link_key_less "\<lambda>_. True"
    "\<lambda>a b. st_created_at a = st_created_at b \<and> st_id a = st_id b"
  by unfold_locales (auto simp: link_key_less_def)

interpretation metric_order: total_less metric_key_less "\<lambda>p. snd p \<noteq> NaN"
    "\<lambda>a b. snd a = snd b \<and> st_created_at (fst a) = st_created_at (fst b) \<and> st_id (fst a) = st_id (fst b)"
proof unfold_locales
  fix a b c :: "study \<times> pyfloat"
  assume n: "snd a \<noteq> NaN" "snd b \<noteq> NaN"
  show "metric_key_less a b \<or> metric_key_less b a \<or> snd a = snd b \<and>
      st_created_at (fst a) = st_created_at (fst b) \<and> st_id (fst a) = st_id (fst b)"
    using flt_total [OF n] link_order.less_total [of "fst a" "fst b"]
    by (auto simp: metric_key_less_def feq_iff)
qed (auto simp: metric_key_less_def link_key_less_def feq_iff dest: flt_trans split: if_splits)

lemma completed_links_Cons [simp]:
  "completed_links [] = []"
  "completed_links (l # ls) = (case st_best_metric l of
     Some m \<Rightarrow> if st_status l = Completed then (l, m) # completed_links ls else completed_links ls
   | None \<Rightarrow> completed_links ls)"
  by (auto simp: completed_links_def map_filter_def split: option.splits)

lemma in_completed_links:
  "(l, m) \<in> set (completed_links links) \<longleftrightarrow>
     l \<in> set links \<and> st_status l = Completed \<and> st_best_metric l = Some m"
  by (induction links) (auto split: option.splits)

text \<open>The link the selection returns, with its metric.\<close>

definition best_link_of :: "study list \<Rightarrow> (study \<times> pyfloat) option" where
  "best_link_of links =
     (let completed = completed_links links
      in if completed = [] then None
         else if direction_of (hd links) = Minimize then min_by metric_key_less completed
         else (case fmax_list (map snd completed) of None \<Rightarrow> None
           | Some m \<Rightarrow> min_by (\<lambda>a b. link_key_less (fst a) (fst b)) (filter (\<lambda>p. feq (snd p) m) completed)))"

lemma select_best_link_eq: "select_best_link links = map_option (\<lambda>p. st_id (fst p)) (best_link_of links)"
  by (auto simp: select_best_link_def best_link_of_def Let_def split: option.splits)

lemma min_by_None [simp]: "min_by lt xs = None \<longleftrightarrow> xs = []"
  by (cases xs) auto

lemma best_link_spec:
  assumes nan: "NaN \<notin> snd ` set (completed_links links)" and b: "best_link_of links = Some (l, m)"
  shows "(l, m) \<in> set (completed_links links) \<and>
    (\<forall>(l', m')\<in>set (completed_links links). \<not> better (direction_of (hd links)) m' m \<and>
       (m' = m \<longrightarrow> \<not> link_key_less l' l))"
proof (cases "direction_of (hd links)")
  case Minimize
  then have "min_by metric_key_less (completed_links links) = Some (l, m)"
    using b by (auto simp: best_link_of_def Let_def split: if_splits)
  from metric_order.min_by_least [OF this] nan
  have *: "(l, m) \<in> set (completed_links links)" "\<forall>p\<in>set (completed_links links). \<not> metric_key_less p (l, m)"
    by force+
  have "\<not> flt m' m \<and> (m' = m \<longrightarrow> \<not> link_key_less l' l)" if "(l', m') \<in> set (completed_links links)" for l' m'
    using *(2) [rule_format, OF that] nan that *(1)
    by (force simp: metric_key_less_def feq_iff split: if_splits)
  then show ?thesis using * Minimize by auto
next
  case Maximize
  let ?c = "completed_links links" and ?less = "\<lambda>a b. link_key_less (fst a) (fst b)"
  obtain M where M: "fmax_list (map snd ?c) = Some M" and mb: "min_by ?less (filter (\<lambda>p. feq (snd p) M) ?c) = Some (l, m)"
    using b Maximize by (auto simp: best_link_of_def Let_def split: if_splits option.splits)
  have top: "M \<in> snd ` set ?c" "\<forall>y\<in>snd ` set ?c. fle y M"
    using fmax_list_max [OF M] nan by auto
  have tot: "total_less ?less (\<lambda>_. True)
      (\<lambda>a b. st_created_at (fst a) = st_created_at (fst b) \<and> st_id (fst a) = st_id (fst b))"
    by unfold_locales (auto simp: link_key_less_def)
  have "(l, m) \<in> set (filter (\<lambda>p. feq (snd p) M) ?c) \<and>
      (\<forall>y\<in>set (filter (\<lambda>p. feq (snd p) M) ?c). \<not> ?less y (l, m))"
    using total_less.min_by_least [OF tot mb] by simp
  then have *: "(l, m) \<in> set ?c" "m = M" "\<forall>y\<in>set ?c. snd y = M \<longrightarrow> \<not> link_key_less (fst y) l"
    using top nan by (force simp: feq_iff)+
  have "\<not> flt m m'" if "(l', m') \<in> set ?c" for l' m'
    using top(2) that *(2) nan not_flt [of m m'] by force
  then show ?thesis using * Maximize by force
qed

lemma best_link_None:
  assumes "NaN \<notin> snd ` set (completed_links links)"
  shows "best_link_of links = None \<longleftrightarrow> completed_links links = []"
proof -
  have "filter (\<lambda>p. feq (snd p) M) (completed_links links) \<noteq> []"
    if "fmax_list (map snd (completed_links links)) = Some M" for M
    using fmax_list_max [OF that] assms by (auto simp: filter_empty_conv feq_iff)
  then show ?thesis
    by (auto simp: best_link_of_def Let_def simp del: not_None_eq split: option.splits)
qed

lemma completed_links_Nil:
  "completed_links links = [] \<longleftrightarrow> (\<forall>l\<in>set links. st_status l = Completed \<longrightarrow> st_best_metric l = None)"
proof
  assume e: "completed_links links = []"
  show "\<forall>l\<in>set links. st_status l = Completed \<longrightarrow> st_best_metric l = None"
  proof (intro ballI impI)
    fix l assume "l \<in> set links" "st_status l = Completed"
    then show "st_best_metric l = None"
      using e in_completed_links [of l _ links] by (cases "st_best_metric l") auto
  qed
next
  assume a: "\<forall>l\<in>set links. st_status l = Completed \<longrightarrow> st_best_metric l = None"
  have "x \<notin> set (completed_links links)" for x
    using a in_completed_links [of "fst x" "snd x" links] by auto
  then show "completed_links links = []" by (metis list.set_intros(1) neq_Nil_conv)
qed

section \<open>Properties\<close>

text \<open>The best link of a chain exists exactly when some link completed with a metric; then
  no such link has a better metric in the anchor's direction, and among those with an equal one
  none was created earlier (or at the same time with a lower id).\<close>

theorem best_link_is_best:
  assumes "NaN \<notin> snd ` set (completed_links links)"
  shows "(select_best_link links = None \<longleftrightarrow>
      (\<forall>l\<in>set links. st_status l = Completed \<longrightarrow> st_best_metric l = None)) \<and>
    (\<forall>i. select_best_link links = Some i \<longrightarrow>
      (\<exists>l m. l \<in> set links \<and> st_id l = i \<and> st_status l = Completed \<and> st_best_metric l = Some m \<and>
        (\<forall>l'\<in>set links. \<forall>m'. st_status l' = Completed \<and> st_best_metric l' = Some m' \<longrightarrow>
          \<not> better (direction_of (hd links)) m' m \<and> (m' = m \<longrightarrow> \<not> link_key_less l' l))))"
proof (intro conjI allI impI)
  show "select_best_link links = None \<longleftrightarrow>
      (\<forall>l\<in>set links. st_status l = Completed \<longrightarrow> st_best_metric l = None)"
    using best_link_None [OF assms] by (simp add: select_best_link_eq completed_links_Nil)
next
  fix i assume "select_best_link links = Some i"
  then obtain l m where lm: "best_link_of links = Some (l, m)" "st_id l = i"
    by (auto simp: select_best_link_eq)
  note sp = best_link_spec [OF assms lm(1)]
  then have "l \<in> set links" "st_status l = Completed" "st_best_metric l = Some m"
    by (auto simp: in_completed_links)
  moreover have "\<not> better (direction_of (hd links)) m' m \<and> (m' = m \<longrightarrow> \<not> link_key_less l' l)"
    if "l' \<in> set links" "st_status l' = Completed" "st_best_metric l' = Some m'" for l' m'
    using sp that in_completed_links [of l' m' links] by auto
  ultimately show "\<exists>l m. l \<in> set links \<and> st_id l = i \<and> st_status l = Completed \<and> st_best_metric l = Some m \<and>
      (\<forall>l'\<in>set links. \<forall>m'. st_status l' = Completed \<and> st_best_metric l' = Some m' \<longrightarrow>
        \<not> better (direction_of (hd links)) m' m \<and> (m' = m \<longrightarrow> \<not> link_key_less l' l))"
    using lm(2) by blast
qed

lemma tail_baseline_gate: "tail_baseline l ts = gate_baseline l ts (direction_of l)"
  by (auto simp: tail_baseline_def gate_baseline_def first_decile_max_extremum first_decile_def
      split: option.splits)

lemma gate_decision:
  "cg_decision (evaluate_chain_gate parent ts epsilon d) =
     (if st_status parent = Failed \<or> st_status parent = Cancelled then SKIP_PARENT_FAILED
      else if depth_exhausted parent then SKIP_DEPTH_EXHAUSTED
      else (case (st_best_metric parent, gate_baseline parent ts d) of
        (Some best, Some base) \<Rightarrow>
          if flt epsilon (direction_normalized_lift best base d) then ENQUEUE else SKIP_NO_LIFT
      | _ \<Rightarrow> SKIP_NO_LIFT))"
  by (auto simp: evaluate_chain_gate_def gate_baseline_def Let_def split: option.splits)

text \<open>C23 The derived stop reason never drifts from the gate: for a chain that is not in
  flight it is the gate's decision about the last link, on the same trials and in the link's
  own direction, with \<open>budget\<close> where the gate would have enqueued (the lift being a number).\<close>

theorem stop_reason_matches_gate:
  assumes "links \<noteq> []" and "\<forall>link\<in>set links. st_status link \<notin> {Queued, Running}"
    and "\<forall>best base. st_best_metric (last links) = Some best \<and>
      gate_baseline (last links) ts (direction_of (last links)) = Some base \<longrightarrow>
      direction_normalized_lift best base (direction_of (last links)) \<noteq> NaN"
  shows "derive_chain_stop_reason links ts = Some
    (case cg_decision (evaluate_chain_gate (last links) ts AUTO_FOLLOWUP_LIFT_EPSILON
            (direction_of (last links))) of
       ENQUEUE \<Rightarrow> Budget | SKIP_NO_LIFT \<Rightarrow> NoLift | SKIP_DEPTH_EXHAUSTED \<Rightarrow> DepthExhausted
     | SKIP_PARENT_FAILED \<Rightarrow>
         if st_status (last links) = Cancelled then ChainCancelled else ParentFailed)"
proof -
  let ?t = "last links" and ?d = "direction_of (last links)"
  have st: "st_status ?t \<notin> {Queued, Running}" using assms(1,2) by auto
  then have c: "st_status ?t \<noteq> Cancelled \<Longrightarrow> st_status ?t \<noteq> Failed \<Longrightarrow> st_status ?t = Completed"
    by (cases "st_status ?t") auto
  have eps: "AUTO_FOLLOWUP_LIFT_EPSILON \<noteq> NaN" by (simp add: AUTO_FOLLOWUP_LIFT_EPSILON_def)
  have "fle (direction_normalized_lift best base ?d) AUTO_FOLLOWUP_LIFT_EPSILON \<longleftrightarrow>
      \<not> flt AUTO_FOLLOWUP_LIFT_EPSILON (direction_normalized_lift best base ?d)"
    if "st_best_metric ?t = Some best" "gate_baseline ?t ts ?d = Some base" for best base
    using assms(3) that not_flt [OF eps] by blast
  then show ?thesis
    using assms(1,2) c
    by (auto simp: derive_chain_stop_reason_def gate_decision tail_baseline_gate Let_def
        CHAIN_LIFT_EPSILON_def split: option.splits)
qed

definition anchor_baseline :: "study list \<Rightarrow> trial list \<Rightarrow> pyfloat option" where
  "anchor_baseline links ts = gate_baseline (hd links) ts (direction_of (hd links))"

lemma cumulative_lift_eq:
  assumes "distinct (map st_id links)" "best_link_of links = Some (l, m)"
    "NaN \<notin> snd ` set (completed_links links)"
  shows "compute_cumulative_lift links ts =
    map_option (\<lambda>base. direction_normalized_lift m base (direction_of (hd links)))
      (anchor_baseline links ts)"
proof -
  have "l \<in> set links" "st_best_metric l = Some m"
    using best_link_spec [OF assms(3,2)] by (auto simp: in_completed_links)
  moreover have "find (\<lambda>x. st_id x = st_id l) links = Some l"
    using assms(1) \<open>l \<in> set links\<close> by (induction links) force+
  ultimately show ?thesis
    using assms(2)
    by (auto simp: compute_cumulative_lift_def select_best_link_eq anchor_baseline_def Let_def
        gate_baseline_def first_decile_max_extremum first_decile_def split: option.splits)
qed

text \<open>The cumulative lift is the best one: with finite metrics it is at least the lift of
  every completed link over the anchor's baseline, and when it is positive the best link is
  strictly better than that baseline.\<close>

theorem cumulative_lift_dominates:
  assumes "distinct (map st_id links)"
    and "\<forall>m\<in>snd ` set (completed_links links). \<exists>q. m = Fin q"
    and "anchor_baseline links ts = Some (Fin base)"
    and "compute_cumulative_lift links ts = Some c"
    and "l \<in> set links" and "st_status l = Completed" and "st_best_metric l = Some m"
  shows "fle (direction_normalized_lift m (Fin base) (direction_of (hd links))) c \<and>
    (flt (Fin 0) c \<longrightarrow> (\<exists>l m. l \<in> set links \<and> select_best_link links = Some (st_id l) \<and>
       st_best_metric l = Some m \<and> better (direction_of (hd links)) m (Fin base)))"
proof -
  have nan: "NaN \<notin> snd ` set (completed_links links)" using assms(2) by blast
  have lm: "(l, m) \<in> set (completed_links links)"
    using assms(5-7) by (simp add: in_completed_links)
  then obtain l' m' where b: "best_link_of links = Some (l', m')"
    using best_link_None [OF nan] by (cases "best_link_of links") auto
  have c: "c = direction_normalized_lift m' (Fin base) (direction_of (hd links))"
    using cumulative_lift_eq [OF assms(1) b nan, of ts] assms(3,4) by simp
  note sp = best_link_spec [OF nan b]
  obtain p q where pq: "m = Fin p" "m' = Fin q" using assms(2) lm sp by fastforce
  have "\<not> better (direction_of (hd links)) m m'" using sp lm by auto
  then have "fle (direction_normalized_lift m (Fin base) (direction_of (hd links))) c"
    unfolding c pq by (cases "direction_of (hd links)")
      (auto simp: direction_normalized_lift_def intro: fsub_mono_left fsub_mono_right)
  moreover have "better (direction_of (hd links)) m' (Fin base)" if "flt (Fin 0) c"
    using obj.lift_pos that c by blast
  ultimately show ?thesis
    using sp b by (auto simp: select_best_link_eq in_completed_links)
qed

section \<open>Concrete instances\<close>

definition sample_links :: "study list" where
  "sample_links =
     [(sample_study ''a'' None Completed)\<lparr>st_best_metric := Some (Fin (1 / 2)),
        st_baseline_metric := Some (Fin (1 / 4))\<rparr>,
      (sample_study ''b'' (Some ''a'') Completed)\<lparr>st_best_metric := Some (Fin (3 / 4)),
        st_config := [(''auto_followup_depth'', PInt 1)]\<rparr>]"

lemmas sample_links_simps = sample_links_def sample_study_def direction_of_def obj_get_default_def
  best_link_of_def select_best_link_eq Let_def

lemma best_link_is_best_witness: "select_best_link sample_links = Some ''b'' \<and>
    (\<exists>l m. l \<in> set sample_links \<and> st_id l = ''b'' \<and> st_best_metric l = Some m \<and> \<not> flt m (Fin (1 / 2)))"
proof -
  have s: "select_best_link sample_links = Some ''b''"
    by (simp add: sample_links_simps fmax_def)
  have n: "NaN \<notin> snd ` set (completed_links sample_links)"
    by (simp add: sample_links_def sample_study_def)
  from best_link_is_best [OF n] s obtain l m where l: "l \<in> set sample_links" "st_id l = ''b''"
    "st_best_metric l = Some m" "\<forall>l'\<in>set sample_links. \<forall>m'. st_status l' = Completed \<and>
      st_best_metric l' = Some m' \<longrightarrow> \<not> better (direction_of (hd sample_links)) m' m" by blast
  then show ?thesis using s
    by (auto simp: sample_links_def sample_study_def direction_of_def obj_get_default_def)
qed

lemma stop_reason_matches_gate_witness:
  "derive_chain_stop_reason sample_links sample_trials = Some Budget"
proof -
  have d: "direction_of (last sample_links) = Maximize"
    by (simp add: sample_links_simps)
  have g: "gate_baseline (last sample_links) sample_trials Maximize = Some (Fin (1 / 2))"
    by (simp add: sample_links_simps gate_baseline_def compute_first_decile_max_def sample_gate sample_trial_def)
  have "cg_decision (evaluate_chain_gate (last sample_links) sample_trials AUTO_FOLLOWUP_LIFT_EPSILON Maximize) = ENQUEUE"
    unfolding gate_decision g epsilon_value
    by (simp add: sample_links_simps depth_exhausted_def obj_get_def direction_normalized_lift_def fsub_def)
  then show ?thesis
    using stop_reason_matches_gate [of sample_links sample_trials] g d
    by (simp add: sample_links_simps direction_normalized_lift_def fsub_def)
qed

lemma cumulative_lift_dominates_witness:
  "\<exists>c. compute_cumulative_lift sample_links [] = Some c \<and>
     fle (direction_normalized_lift (Fin (1 / 2)) (Fin (1 / 4)) Maximize) c"
proof -
  have d: "direction_of (hd sample_links) = Maximize" by (simp add: sample_links_simps)
  have a: "anchor_baseline sample_links [] = Some (Fin (1 / 4))"
    by (simp add: anchor_baseline_def gate_baseline_def sample_links_def sample_study_def)
  have b: "best_link_of sample_links = Some (sample_links ! 1, Fin (3 / 4))"
    by (simp add: sample_links_simps fmax_def)
  have "distinct (map st_id sample_links)" "NaN \<notin> snd ` set (completed_links sample_links)"
    by (simp_all add: sample_links_def sample_study_def)
  then have "compute_cumulative_lift sample_links [] =
      Some (direction_normalized_lift (Fin (3 / 4)) (Fin (1 / 4)) Maximize)"
    using cumulative_lift_eq [OF _ b] by (simp add: d a)
  moreover have "hd sample_links \<in> set sample_links" "st_status (hd sample_links) = Completed"
    "st_best_metric (hd sample_links) = Some (Fin (1 / 2))" "distinct (map st_id sample_links)"
    "snd ` set (completed_links sample_links) = {Fin (1 / 2), Fin (3 / 4)}"
    by (simp_all add: sample_links_def sample_study_def)
  moreover from this(5) have "\<forall>m\<in>snd ` set (completed_links sample_links). \<exists>q. m = Fin q" by blast
  ultimately show ?thesis
    using cumulative_lift_dominates [of sample_links "[]" "1 / 4", OF _ _ a] d by metis
qed

end
