(* ===== verification/Chain_Repo.thy ===== *)
theory Chain_Repo
  imports Chain_Summary Proposals
begin

text \<open>
  Chains in the database: the traversal and the list of recent chains of
  \<open>backend/app/db/repo/study.py\<close>, and the rollup of a finished chain
  (\<open>backend/app/services/chain_rollup.py\<close>). One call reads one snapshot. \<open>anchor_trials\<close> is
  the empty list where the source has \<open>None\<close>: every reader treats the two alike.
\<close>

section \<open>The traversal\<close>

definition CHAIN_UPWARD_HOP_CAP :: nat where "CHAIN_UPWARD_HOP_CAP = 10"

definition CHAIN_MAX_DESCENDANTS :: nat where "CHAIN_MAX_DESCENDANTS = 5"

record chain_traversal =
  ct_anchor_id :: string
  ct_links :: "study list"
  ct_proposal_id_by_link_id :: "(string, string) pydict"
  ct_anchor_trials :: "trial list"

text \<open>The walk up from \<open>anchor_id\<close>; \<open>fuel\<close> is what is left of the hop cap.\<close>

fun walk_up :: "nat \<Rightarrow> db \<Rightarrow> string set \<Rightarrow> string \<Rightarrow> string option \<Rightarrow> string" where
  "walk_up fuel d visited anchor_id None = anchor_id"
| "walk_up 0 d visited anchor_id (Some parent_id) = anchor_id"
| "walk_up (Suc fuel) d visited anchor_id (Some parent_id) =
     (if parent_id \<in> visited then anchor_id
      else (case get_study d parent_id of
          None \<Rightarrow> anchor_id
        | Some row \<Rightarrow> walk_up fuel d (insert (st_id row) visited) (st_id row) (st_parent_study_id row)))"

text \<open>The walk down: the first child by \<open>(created_at, id)\<close>, at most \<open>fuel\<close> times.\<close>

fun walk_down :: "nat \<Rightarrow> db \<Rightarrow> string set \<Rightarrow> string \<Rightarrow> string list" where
  "walk_down 0 d visited cur = []"
| "walk_down (Suc fuel) d visited cur = (case list_children_of_study d cur of
       [] \<Rightarrow> []
     | c # _ \<Rightarrow> if st_id c \<in> visited then []
                 else st_id c # walk_down fuel d (insert (st_id c) visited) (st_id c))"

definition by_created :: "study list \<Rightarrow> study list" where
  "by_created rows = sort_key st_created_at (sort_key st_id rows)"

text \<open>\<open>DISTINCT ON (study_id)\<close> after \<open>created_at DESC, id DESC\<close>: the newest proposal of a link.\<close>

definition newest_proposal :: "db \<Rightarrow> string \<Rightarrow> proposal option" where
  "newest_proposal d link_id =
     (case rev (sort_key pp_created_at (sort_key pp_id (filter (\<lambda>p. pp_study_id p = Some link_id \<and>
         pp_status p \<notin> {Rejected, Superseded}) (db_proposals d)))) of
        [] \<Rightarrow> None | p # _ \<Rightarrow> Some p)"

definition get_chain_for_study :: "db \<Rightarrow> string \<Rightarrow> chain_traversal option" where
  "get_chain_for_study d study_id = (case get_study d study_id of
       None \<Rightarrow> None
     | Some head \<Rightarrow>
         (let anchor_id = walk_up CHAIN_UPWARD_HOP_CAP d {st_id head} (st_id head) (st_parent_study_id head);
              link_ids = anchor_id # walk_down CHAIN_MAX_DESCENDANTS d {anchor_id} anchor_id;
              rows = filter (\<lambda>s. st_id s \<in> set link_ids) (db_studies d)
          in if rows = [] then None
             else (let links = by_created rows; anchor = hd links;
                  proposals = List.map_filter (\<lambda>i. map_option (\<lambda>p. (i, pp_id p)) (newest_proposal d i)) (sort link_ids)
                in Some \<lparr>ct_anchor_id = st_id anchor, ct_links = links, ct_proposal_id_by_link_id = proposals,
                     ct_anchor_trials = (if st_baseline_metric anchor = None
                       then filter (\<lambda>t. tr_study_id t = st_id anchor \<and> tr_status t = Complete) (db_trials d)
                       else [])\<rparr>)))"

section \<open>Recent chains\<close>

definition recent_candidates :: "db \<Rightarrow> int option \<Rightarrow> nat \<Rightarrow> string list" where
  "recent_candidates d since limit =
     (let rows = filter (\<lambda>s. st_parent_study_id s \<noteq> None \<and>
             st_status s \<in> {Completed, Cancelled, Failed} \<and>
             (case st_completed_at s of None \<Rightarrow> False
              | Some t \<Rightarrow> (case since of None \<Rightarrow> True | Some cutoff \<Rightarrow> cutoff \<le> t))) (db_studies d)
      in map st_id (take (max 1 (limit * CHAIN_MAX_DESCENDANTS))
           (rev (sort_key (\<lambda>s. the (st_completed_at s)) (sort_key st_id rows)))))"

text \<open>The loop over the candidates; \<open>by_anchor\<close> is the ordered dict of the chains found.\<close>

fun recent_loop ::
  "db \<Rightarrow> nat \<Rightarrow> string list \<Rightarrow> string set \<Rightarrow> (string, chain_traversal) pydict \<Rightarrow> (string, chain_traversal) pydict" where
  "recent_loop d limit [] seen by_anchor = by_anchor"
| "recent_loop d limit (c # cs) seen by_anchor =
     (if limit \<le> length by_anchor then by_anchor
      else if c \<in> seen then recent_loop d limit cs seen by_anchor
      else (case get_chain_for_study d c of
          None \<Rightarrow> recent_loop d limit cs seen by_anchor
        | Some tr \<Rightarrow>
            (let seen' = seen \<union> set (map st_id (ct_links tr))
             in if map_of by_anchor (ct_anchor_id tr) \<noteq> None \<or> length (ct_links tr) < 2 \<or>
                   derive_chain_stop_reason (ct_links tr) (ct_anchor_trials tr) = Some InFlight
                then recent_loop d limit cs seen' by_anchor
                else recent_loop d limit cs seen' (dict_set (ct_anchor_id tr) tr by_anchor))))"

definition list_recent_completed_chains :: "db \<Rightarrow> int option \<Rightarrow> nat \<Rightarrow> chain_traversal list" where
  "list_recent_completed_chains d since limit =
     dict_values (recent_loop d limit (recent_candidates d since limit) {} [])"

section \<open>The rollup\<close>

definition mark_non_winning_chain_proposals_superseded ::
  "string \<Rightarrow> chain_traversal option \<Rightarrow> db \<Rightarrow> (nat \<times> string list) \<times> db" where
  "mark_non_winning_chain_proposals_superseded study_id traversal d =
     (case (case traversal of None \<Rightarrow> get_chain_for_study d study_id | Some t \<Rightarrow> Some t) of
        None \<Rightarrow> ((0, []), d)
      | Some t \<Rightarrow>
          (if length (ct_links t) < 2 then ((0, []), d)
           else if derive_chain_stop_reason (ct_links t) (ct_anchor_trials t) = Some InFlight then ((0, []), d)
           else (case select_best_link (ct_links t) of
               None \<Rightarrow> ((0, []), d)
             | Some best \<Rightarrow>
                 (let losers = map st_id (filter (\<lambda>l. st_id l \<noteq> best) (ct_links t));
                      (ids, d') = bulk_mark_superseded losers d
                  in ((length ids, ids), d')))))"

section \<open>A healthy chain\<close>

text \<open>
  What the worker builds: each link has one child, the next one, and is older than it; the first
  has no parent.
\<close>

definition linear_chain :: "db \<Rightarrow> study list \<Rightarrow> bool" where
  "linear_chain d xs = (xs \<noteq> [] \<and> length xs \<le> Suc CHAIN_MAX_DESCENDANTS \<and>
     set xs \<subseteq> set (db_studies d) \<and> st_parent_study_id (hd xs) = None \<and>
     (\<forall>k. Suc k < length xs \<longrightarrow> st_parent_study_id (xs ! Suc k) = Some (st_id (xs ! k)) \<and>
        list_children_of_study d (st_id (xs ! k)) = [xs ! Suc k]) \<and>
     list_children_of_study d (st_id (last xs)) = [] \<and>
     sorted_wrt (\<lambda>a b. st_created_at a < st_created_at b) xs)"

lemma by_created_set [simp]: "set (by_created rows) = set rows" "length (by_created rows) = length rows"
  by (simp_all add: by_created_def)

lemma linear_distinct: "linear_chain d xs \<Longrightarrow> distinct xs"
  by (auto simp: linear_chain_def distinct_conv_nth dest: sorted_wrt_nth_less) (metis less_irrefl linorder_neqE_nat sorted_wrt_nth_less)

lemma strictly_sorted_unique:
  "sorted_wrt (\<lambda>a b. f a < f b) xs \<Longrightarrow> sorted (map f ys) \<Longrightarrow> set ys = set xs \<Longrightarrow> distinct ys \<Longrightarrow>
     ys = xs" for f :: "'a \<Rightarrow> 'b::linorder"
proof -
  assume a: "sorted_wrt (\<lambda>a b. f a < f b) xs" "sorted (map f ys)" "set ys = set xs" "distinct ys"
  have inj: "inj_on f (set xs)" using a(1) by (auto simp: inj_on_def in_set_conv_nth) (metis less_irrefl linorder_neqE_nat sorted_wrt_nth_less)
  have "sorted_wrt (<) (map f xs)" using a(1) by (simp add: sorted_wrt_map)
  moreover have "sorted_wrt (<) (map f ys)" using a inj by (simp add: strict_sorted_iff distinct_map)
  ultimately have "map f ys = map f xs" using a(3) by (intro strict_sorted_equal) auto
  then show "ys = xs" using inj a(3) inj_on_map_eq_map [of f ys xs] by simp
qed

lemma linear_ids: "db_ok d \<Longrightarrow> linear_chain d xs \<Longrightarrow> distinct (map st_id xs)"
proof -
  assume a: "db_ok d" "linear_chain d xs"
  then have "inj_on st_id (set (db_studies d))" "set xs \<subseteq> set (db_studies d)"
    by (auto simp: db_ok_def distinct_map linear_chain_def)
  then show ?thesis using linear_distinct [OF a(2)] by (auto simp: distinct_map intro: inj_on_subset)
qed

lemma linear_get: "db_ok d \<Longrightarrow> linear_chain d xs \<Longrightarrow> k < length xs \<Longrightarrow> get_study d (st_id (xs ! k)) = Some (xs ! k)"
  by (intro get_study_in) (auto simp: db_ok_def study_ids_def linear_chain_def)

lemma linear_walk_up:
  assumes "db_ok d" "linear_chain d xs"
  shows "k < length xs \<Longrightarrow> k \<le> fuel \<Longrightarrow> (\<forall>j<k. st_id (xs ! j) \<notin> visited) \<Longrightarrow>
    walk_up fuel d visited (st_id (xs ! k)) (st_parent_study_id (xs ! k)) = st_id (hd xs)"
proof (induction k arbitrary: fuel visited)
  case 0
  then have "st_parent_study_id (xs ! 0) = None" "xs ! 0 = hd xs"
    using assms(2) by (auto simp: linear_chain_def hd_conv_nth)
  then show ?case by (cases fuel) simp_all
next
  case (Suc k)
  obtain f where f: "fuel = Suc f" using Suc.prems(2) by (cases fuel) auto
  have p: "st_parent_study_id (xs ! Suc k) = Some (st_id (xs ! k))"
    using assms(2) Suc.prems(1) by (simp add: linear_chain_def)
  have "\<forall>j<k. st_id (xs ! j) \<notin> insert (st_id (xs ! k)) visited"
    using Suc.prems linear_ids [OF assms] by (auto simp: distinct_conv_nth)
  then show ?case
    using Suc.IH [of f] Suc.prems f p linear_get [OF assms, of k] by simp
qed

lemma linear_walk_down:
  assumes "db_ok d" "linear_chain d xs"
  shows "k < length xs \<Longrightarrow> length xs \<le> Suc (k + fuel) \<Longrightarrow> (\<forall>j. k < j \<longrightarrow> j < length xs \<longrightarrow> st_id (xs ! j) \<notin> visited) \<Longrightarrow>
    walk_down fuel d visited (st_id (xs ! k)) = map st_id (drop (Suc k) xs)"
proof (induction fuel arbitrary: k visited)
  case (Suc fuel)
  show ?case
  proof (cases "Suc k < length xs")
    case True
    then have c: "list_children_of_study d (st_id (xs ! k)) = [xs ! Suc k]" using assms(2) by (simp add: linear_chain_def)
    have v: "\<forall>j. Suc k < j \<longrightarrow> j < length xs \<longrightarrow> st_id (xs ! j) \<notin> insert (st_id (xs ! Suc k)) visited"
      using Suc.prems(3) linear_ids [OF assms] by (auto simp: distinct_conv_nth)
    have "st_id (xs ! Suc k) \<notin> visited" using Suc.prems(3) True by simp
    then have "walk_down (Suc fuel) d visited (st_id (xs ! k)) = st_id (xs ! Suc k) # map st_id (drop (Suc (Suc k)) xs)"
      using c Suc.IH [OF True _ v] Suc.prems(2) by simp
    then show ?thesis using True by (metis Cons_nth_drop_Suc list.simps(9))
  next
    case False
    then have "k = length xs - 1" "xs \<noteq> []" using Suc.prems(1) by auto
    then have "xs ! k = last xs" by (simp add: last_conv_nth)
    then show ?thesis using assms(2) False by (simp add: linear_chain_def)
  qed
qed simp

lemma linear_rows:
  assumes "db_ok d" "linear_chain d xs"
  shows "by_created (filter (\<lambda>s. st_id s \<in> set (map st_id xs)) (db_studies d)) = xs"
proof (rule strictly_sorted_unique [where f = st_created_at])
  show "sorted_wrt (\<lambda>a b. st_created_at a < st_created_at b) xs" using assms(2) by (simp add: linear_chain_def)
  show "sorted (map st_created_at (by_created (filter (\<lambda>s. st_id s \<in> set (map st_id xs)) (db_studies d))))"
    by (simp add: by_created_def)
  have "inj_on st_id (set (db_studies d))" "set xs \<subseteq> set (db_studies d)"
    using assms by (auto simp: db_ok_def distinct_map linear_chain_def)
  then show "set (by_created (filter (\<lambda>s. st_id s \<in> set (map st_id xs)) (db_studies d))) = set xs"
    by (auto simp: inj_on_def)
  show "distinct (by_created (filter (\<lambda>s. st_id s \<in> set (map st_id xs)) (db_studies d)))"
    using assms(1) by (simp add: by_created_def db_ok_def distinct_map)
qed

lemma linear_link_ids:
  assumes "db_ok d" "linear_chain d xs" "k < length xs"
  shows "walk_up CHAIN_UPWARD_HOP_CAP d {st_id (xs ! k)} (st_id (xs ! k)) (st_parent_study_id (xs ! k)) = st_id (hd xs)"
    and "st_id (hd xs) # walk_down CHAIN_MAX_DESCENDANTS d {st_id (hd xs)} (st_id (hd xs)) = map st_id xs"
proof -
  have len: "length xs \<le> Suc CHAIN_MAX_DESCENDANTS" "xs \<noteq> []" using assms(2) by (auto simp: linear_chain_def)
  have h: "hd xs = xs ! 0" using len by (simp add: hd_conv_nth)
  show "walk_up CHAIN_UPWARD_HOP_CAP d {st_id (xs ! k)} (st_id (xs ! k)) (st_parent_study_id (xs ! k)) = st_id (hd xs)"
    using linear_ids [OF assms(1,2)] assms(3) len
    by (intro linear_walk_up [OF assms(1,2,3)]) (auto simp: distinct_conv_nth CHAIN_UPWARD_HOP_CAP_def CHAIN_MAX_DESCENDANTS_def)
  have "walk_down CHAIN_MAX_DESCENDANTS d {st_id (xs ! 0)} (st_id (xs ! 0)) = map st_id (drop (Suc 0) xs)"
    using linear_ids [OF assms(1,2)] len by (intro linear_walk_down [OF assms(1,2)]) (auto simp: distinct_conv_nth)
  then show "st_id (hd xs) # walk_down CHAIN_MAX_DESCENDANTS d {st_id (hd xs)} (st_id (hd xs)) = map st_id xs"
    using h len by (metis Cons_nth_drop_Suc drop0 length_greater_0_conv list.simps(9))
qed

lemma linear_traversal:
  assumes "db_ok d" "linear_chain d xs" "s \<in> set xs"
  shows "\<exists>t. get_chain_for_study d (st_id s) = Some t \<and> ct_links t = xs \<and> ct_anchor_id t = st_id (hd xs)"
proof -
  obtain k where k: "k < length xs" "s = xs ! k" using assms(3) by (auto simp: in_set_conv_nth)
  have ids: "set (st_id (hd xs) # walk_down CHAIN_MAX_DESCENDANTS d {st_id (hd xs)} (st_id (hd xs))) = set (map st_id xs)"
    by (simp only: linear_link_ids [OF assms(1,2) k(1)])
  have rows: "by_created (filter (\<lambda>x. st_id x \<in> set (map st_id xs)) (db_studies d)) = xs"
    by (rule linear_rows [OF assms(1,2)])
  then have "filter (\<lambda>x. st_id x \<in> set (map st_id xs)) (db_studies d) \<noteq> []"
    using assms(3) by (metis by_created_set(2) length_0_conv length_pos_if_in_set less_numeral_extra(3))
  then show ?thesis
    unfolding get_chain_for_study_def k(2) linear_get [OF assms(1,2) k(1)] option.case Let_def
      linear_link_ids(1) [OF assms(1,2) k(1)] ids
    using rows by (simp only: if_False) (rule exI, rule conjI, rule refl, simp)
qed

lemma linear_chain_cong: "db_studies e = db_studies d \<Longrightarrow> linear_chain e xs = linear_chain d xs"
  by (simp add: linear_chain_def list_children_of_study_def)

lemma length_walk_down: "length (walk_down fuel d visited cur) \<le> fuel"
  by (induction fuel d visited cur rule: walk_down.induct) (auto split: list.splits)

lemma walk_up_exists: "get_study d anchor \<noteq> None \<Longrightarrow> get_study d (walk_up fuel d visited anchor parent) \<noteq> None"
  by (induction fuel d visited anchor parent rule: walk_up.induct) (auto split: option.splits dest: get_study_id)

lemma length_filter_ids:
  assumes "distinct (map st_id rows)"
  shows "length (filter (\<lambda>s. st_id s \<in> set is) rows) \<le> length is"
proof -
  have "length (filter (\<lambda>s. st_id s \<in> set is) rows) = card (st_id ` set (filter (\<lambda>s. st_id s \<in> set is) rows))"
    using assms by (metis distinct_card distinct_map_filter length_map list.set_map)
  also have "\<dots> \<le> card (set is)" by (intro card_mono) auto
  also have "\<dots> \<le> length is" by (rule card_length)
  finally show ?thesis .
qed

text \<open>What every traversal returns, healthy or not: one to six links, the anchor first.\<close>

lemma traversal_bounds:
  assumes "db_ok d" and "get_chain_for_study d i = Some t"
  shows "1 \<le> length (ct_links t) \<and> length (ct_links t) \<le> Suc CHAIN_MAX_DESCENDANTS \<and>
    ct_anchor_id t = st_id (hd (ct_links t)) \<and> set (ct_links t) \<subseteq> set (db_studies d)"
proof -
  obtain anchor ids where t: "ct_links t = by_created (filter (\<lambda>s. st_id s \<in> set ids) (db_studies d))"
    "ids = anchor # walk_down CHAIN_MAX_DESCENDANTS d {anchor} anchor" "filter (\<lambda>s. st_id s \<in> set ids) (db_studies d) \<noteq> []"
    "ct_anchor_id t = st_id (hd (ct_links t))"
    using assms(2) unfolding get_chain_for_study_def Let_def
    by (auto split: option.splits if_splits)
  have "length (filter (\<lambda>s. st_id s \<in> set ids) (db_studies d)) \<le> length ids"
    using assms(1) by (intro length_filter_ids) (simp add: db_ok_def)
  then show ?thesis using t length_walk_down [of CHAIN_MAX_DESCENDANTS d "{anchor}" anchor]
    by (auto simp: Suc_le_eq)
qed

section \<open>Recent chains and the rollup\<close>

definition listed_chain :: "db \<Rightarrow> chain_traversal \<Rightarrow> bool" where
  "listed_chain d t = (2 \<le> length (ct_links t) \<and> (\<exists>c. get_chain_for_study d c = Some t) \<and>
     (\<forall>l\<in>set (ct_links t). st_status l \<noteq> Queued \<and> st_status l \<noteq> Running))"

lemma not_in_flight: "derive_chain_stop_reason links ts \<noteq> Some InFlight \<longleftrightarrow>
    (\<forall>l\<in>set links. st_status l \<noteq> Queued \<and> st_status l \<noteq> Running)"
  by (auto simp: derive_chain_stop_reason_def Let_def split: option.splits)

lemma dict_set_new: "map_of g k = None \<Longrightarrow> dict_set k v g = g @ [(k, v)]"
  by (induction g) (auto split: if_splits)

definition recent_inv :: "db \<Rightarrow> nat \<Rightarrow> (string, chain_traversal) pydict \<Rightarrow> bool" where
  "recent_inv d limit g = ((\<forall>(a, t)\<in>set g. a = ct_anchor_id t \<and> listed_chain d t) \<and> distinct (map fst g) \<and> length g \<le> limit)"

lemma recent_inv_add:
  "recent_inv d limit g \<Longrightarrow> length g < limit \<Longrightarrow> map_of g (ct_anchor_id t) = None \<Longrightarrow> listed_chain d t \<Longrightarrow>
     recent_inv d limit (dict_set (ct_anchor_id t) t g)"
  by (auto simp: recent_inv_def dict_set_new map_of_eq_None_iff)

lemma recent_loop_inv: "recent_inv d limit g \<Longrightarrow> recent_inv d limit (recent_loop d limit cs seen g)"
proof (induction cs arbitrary: seen g)
  case (Cons c cs)
  show ?case
  proof (cases "get_chain_for_study d c")
    case (Some t)
    have "recent_inv d limit (dict_set (ct_anchor_id t) t g)"
      if "length g < limit" "map_of g (ct_anchor_id t) = None" "2 \<le> length (ct_links t)"
        "derive_chain_stop_reason (ct_links t) (ct_anchor_trials t) \<noteq> Some InFlight"
      using that Some Cons.prems by (intro recent_inv_add) (auto simp: listed_chain_def not_in_flight)
    then show ?thesis using Some Cons by (simp add: Let_def not_less)
  qed (use Cons in simp)
qed simp

text \<open>Each chain once, at most \<open>limit\<close> of them, finished, with a follow-up.\<close>

lemma recent_chains:
  "distinct (map ct_anchor_id (list_recent_completed_chains d since limit)) \<and>
   length (list_recent_completed_chains d since limit) \<le> limit \<and>
   (\<forall>t\<in>set (list_recent_completed_chains d since limit). listed_chain d t)"
proof -
  let ?g = "recent_loop d limit (recent_candidates d since limit) {} []"
  have g: "recent_inv d limit ?g" by (rule recent_loop_inv) (simp add: recent_inv_def)
  then have "map ct_anchor_id (map snd ?g) = map fst ?g" by (auto simp: recent_inv_def)
  moreover have "list_recent_completed_chains d since limit = map snd ?g"
    by (simp add: list_recent_completed_chains_def dict_values_def)
  ultimately show ?thesis using g by (auto simp: recent_inv_def simp del: map_map)
qed

definition rollup_hits :: "study list \<Rightarrow> proposal \<Rightarrow> bool" where
  "rollup_hits xs p = (2 \<le> length xs \<and> (\<forall>l\<in>set xs. st_status l \<noteq> Queued \<and> st_status l \<noteq> Running) \<and>
     pp_status p = Pending \<and>
     (\<exists>best. select_best_link xs = Some best \<and> (\<exists>l\<in>set xs. st_id l \<noteq> best \<and> pp_study_id p = Some (st_id l))))"

lemma update_proposals_none: "\<forall>r\<in>set (db_proposals d). \<not> p r \<Longrightarrow> update_proposals p f d = d"
  by (auto simp: update_proposals_def intro!: db.equality map_idI)

lemma update_proposals_cong:
  "(\<And>r. r \<in> set (db_proposals d) \<Longrightarrow> p r = q r) \<Longrightarrow> update_proposals p f d = update_proposals q f d"
  by (auto simp: update_proposals_def intro!: map_cong)

lemma bulk_supersede:
  "bulk_mark_superseded losers d =
     (map pp_id (filter (\<lambda>r. pp_status r = Pending \<and> (\<exists>s\<in>set losers. pp_study_id r = Some s)) (db_proposals d)),
      update_proposals (\<lambda>r. pp_status r = Pending \<and> (\<exists>s\<in>set losers. pp_study_id r = Some s)) (\<lambda>r. r\<lparr>pp_status := Superseded\<rparr>) d)"
proof -
  have e: "(\<lambda>r. pp_status r = Pending \<and> (case pp_study_id r of None \<Rightarrow> False | Some s \<Rightarrow> s \<in> set losers)) =
      (\<lambda>r. pp_status r = Pending \<and> (\<exists>s\<in>set losers. pp_study_id r = Some s))"
    by (auto simp: fun_eq_iff split: option.splits)
  show ?thesis unfolding bulk_mark_superseded_def e Let_def by (simp add: update_proposals_none)
qed

lemma rollup_outcome:
  assumes "db_ok d" "linear_chain d xs" "s \<in> set xs"
  shows "mark_non_winning_chain_proposals_superseded (st_id s) None d =
    ((length (filter (rollup_hits xs) (db_proposals d)), map pp_id (filter (rollup_hits xs) (db_proposals d))),
     update_proposals (rollup_hits xs) (\<lambda>r. r\<lparr>pp_status := Superseded\<rparr>) d)"
proof -
  obtain t where t: "get_chain_for_study d (st_id s) = Some t" "ct_links t = xs"
    using linear_traversal [OF assms] by blast
  show ?thesis
  proof (cases "2 \<le> length xs \<and> derive_chain_stop_reason xs (ct_anchor_trials t) \<noteq> Some InFlight \<and> select_best_link xs \<noteq> None")
    case False
    then have "\<not> rollup_hits xs p" for p by (auto simp: rollup_hits_def not_in_flight)
    then show ?thesis
      using False t by (auto simp: mark_non_winning_chain_proposals_superseded_def update_proposals_none split: option.splits)
  next
    case True
    then obtain best where best: "select_best_link xs = Some best" by auto
    let ?losers = "map st_id (filter (\<lambda>l. st_id l \<noteq> best) xs)"
    have "(\<lambda>r. pp_status r = Pending \<and> (\<exists>s\<in>set ?losers. pp_study_id r = Some s)) = rollup_hits xs"
      using True best by (auto simp: fun_eq_iff rollup_hits_def not_in_flight)
    then show ?thesis
      using True t best unfolding mark_non_winning_chain_proposals_superseded_def bulk_supersede by (simp add: Let_def)
  qed
qed

section \<open>Properties\<close>

text \<open>Every member of a chain the worker builds leads to the same traversal: all links, the
  anchor first. And whatever the table holds, a traversal ends with one to six links.\<close>

theorem chain_same_for_members:
  assumes "db_ok d"
  shows "(linear_chain d xs \<longrightarrow> (\<forall>s\<in>set xs. \<exists>t. get_chain_for_study d (st_id s) = Some t \<and> ct_links t = xs \<and>
      ct_anchor_id t = st_id (hd xs))) \<and>
    (\<forall>t. get_chain_for_study d i = Some t \<longrightarrow> 1 \<le> length (ct_links t) \<and> length (ct_links t) \<le> 6 \<and>
      ct_anchor_id t = st_id (hd (ct_links t)) \<and> set (ct_links t) \<subseteq> set (db_studies d))"
proof (intro conjI impI allI ballI)
  fix s assume "linear_chain d xs" "s \<in> set xs"
  then show "\<exists>t. get_chain_for_study d (st_id s) = Some t \<and> ct_links t = xs \<and> ct_anchor_id t = st_id (hd xs)"
    by (intro linear_traversal assms)
next
  fix t assume "get_chain_for_study d i = Some t"
  note b = traversal_bounds [OF assms this]
  show "1 \<le> length (ct_links t)" "length (ct_links t) \<le> 6" "ct_anchor_id t = st_id (hd (ct_links t))"
    "set (ct_links t) \<subseteq> set (db_studies d)"
    using b by (auto simp: CHAIN_MAX_DESCENDANTS_def)
qed

text \<open>C24 The rollup of a finished chain with a winner supersedes exactly the pending proposals of
  the other links and touches nothing else, whichever member it is called for; called again it
  does nothing.\<close>

theorem rollup_supersedes_losers:
  assumes "db_ok d" and "linear_chain d xs" and "s \<in> set xs"
  shows "let ((n, ids), e) = mark_non_winning_chain_proposals_superseded (st_id s) None d in
     ids = map pp_id (filter (rollup_hits xs) (db_proposals d)) \<and> n = length ids \<and>
     db_proposals e = map (\<lambda>p. if rollup_hits xs p then p\<lparr>pp_status := Superseded\<rparr> else p) (db_proposals d) \<and>
     db_studies e = db_studies d \<and> db_trials e = db_trials d \<and>
     mark_non_winning_chain_proposals_superseded (st_id s) None e = ((0, []), e)"
proof -
  let ?e = "update_proposals (rollup_hits xs) (\<lambda>r. r\<lparr>pp_status := Superseded\<rparr>) d"
  have rows: "db_proposals ?e = map (\<lambda>p. if rollup_hits xs p then p\<lparr>pp_status := Superseded\<rparr> else p) (db_proposals d)"
    by (auto simp: update_proposals_def)
  have none: "\<forall>r\<in>set (db_proposals ?e). \<not> rollup_hits xs r"
    unfolding rows by (auto simp: rollup_hits_def)
  have lin: "linear_chain ?e xs" "db_ok ?e"
    using assms(1,2) linear_chain_cong [of ?e d xs] by auto
  have "mark_non_winning_chain_proposals_superseded (st_id s) None ?e = ((0, []), ?e)"
    unfolding rollup_outcome [OF lin(2,1) assms(3)] update_proposals_none [OF none] using none
    by (simp add: filter_empty_conv)
  then show ?thesis
    unfolding rollup_outcome [OF assms] using rows by simp
qed

text \<open>Two finished links, the second the better one, and a pending proposal of each.\<close>

definition sample_links :: "study list" where
  "sample_links = [(sample_study ''a'' None Completed)\<lparr>st_best_metric := Some (Fin 1), st_created_at := 1\<rparr>,
     (sample_study ''b'' (Some ''a'') Completed)\<lparr>st_best_metric := Some (Fin 2), st_created_at := 2\<rparr>]"

definition sample_chain_db :: db where
  "sample_chain_db = \<lparr>db_studies = sample_links, db_trials = [],
     db_proposals = [sample_proposal ''p'' (Some ''a'') Pending, sample_proposal ''q'' (Some ''b'') Pending]\<rparr>"

lemma sample_chain_linear: "linear_chain sample_chain_db sample_links" "db_ok sample_chain_db"
  by (auto simp: linear_chain_def sample_links_def sample_chain_db_def sample_study_def sample_proposal_def
      CHAIN_MAX_DESCENDANTS_def list_children_of_study_def db_ok_def less_Suc_eq)

lemma chain_same_for_members_witness:
  "get_chain_for_study sample_chain_db ''a'' \<noteq> None \<and>
     map_option ct_links (get_chain_for_study sample_chain_db ''a'') = map_option ct_links (get_chain_for_study sample_chain_db ''b'')"
proof -
  have "\<forall>s\<in>set sample_links. \<exists>t. get_chain_for_study sample_chain_db (st_id s) = Some t \<and> ct_links t = sample_links"
    using chain_same_for_members [OF sample_chain_linear(2), of sample_links] sample_chain_linear(1) by blast
  then show ?thesis by (auto simp: sample_links_def sample_study_def)
qed

lemma rollup_supersedes_losers_witness:
  "map pp_status (db_proposals (snd (mark_non_winning_chain_proposals_superseded ''a'' None sample_chain_db))) = [Superseded, Pending]"
proof -
  have s: "(sample_study ''a'' None Completed)\<lparr>st_best_metric := Some (Fin 1), st_created_at := 1\<rparr> \<in> set sample_links"
    by (simp add: sample_links_def)
  have "select_best_link sample_links = Some ''b''"
    by (simp add: sample_links_def sample_study_def select_best_link_def completed_links_def map_filter_simps
      direction_of_def obj_get_default_def fmax_def)
  then show ?thesis
    using rollup_supersedes_losers [OF sample_chain_linear(2,1) s]
    by (auto simp: sample_chain_db_def rollup_hits_def sample_links_def sample_study_def sample_proposal_def
      split: prod.splits)
qed

end
