(* ===== verification/Orchestrator.thy ===== *)
theory Orchestrator
  imports Baseline Chain_Repo
begin

text \<open>
  The orchestrator of a study (\<open>backend/workers/orchestrator.py\<close>): the entry transition, the
  baseline phase, and the polling loop, one tick at a time - the fresh status, the two streak
  detectors, the stop conditions, the atomic stop and the replenishment under the advisory
  lock. \<open>orch_env\<close> is the outside of one tick: the settings, the clock, \<open>timedelta\<close>, the lock,
  fresh ids, how far the queue takes jobs. \<open>ask\<close> is Optuna's \<open>ask\<close> followed by the sampling of
  the search space.
\<close>

section \<open>The streak detectors\<close>

definition CONSECUTIVE_FAILURE_THRESHOLD :: nat where "CONSECUTIVE_FAILURE_THRESHOLD = 5"

definition ZERO_STREAK_THRESHOLD :: nat where "ZERO_STREAK_THRESHOLD = 20"

text \<open>The latest rows, by trial number, without the baseline.\<close>

definition latest_trials :: "db \<Rightarrow> string \<Rightarrow> nat \<Rightarrow> trial list" where
  "latest_trials d study_id n = take n (sort_key (\<lambda>t. - tr_number t) (optuna_rows d study_id))"

definition last_n_all_failed :: "db \<Rightarrow> string \<Rightarrow> nat \<Rightarrow> bool" where
  "last_n_all_failed d study_id n =
     (let rows = latest_trials d study_id n
      in if length rows < n then False else list_all (\<lambda>t. tr_status t = TrialFailed) rows)"

definition is_zero_trial :: "trial \<Rightarrow> bool" where
  "is_zero_trial t = (tr_status t = Complete \<and>
     (case tr_primary_metric t of None \<Rightarrow> False | Some m \<Rightarrow> feq m (Fin 0)))"

definition last_n_all_zero :: "db \<Rightarrow> string \<Rightarrow> nat \<Rightarrow> bool" where
  "last_n_all_zero d study_id n =
     (let rows = latest_trials d study_id n
      in if length rows < n then False else list_all is_zero_trial rows)"

section \<open>Stopping\<close>

record orch_env =
  oe_now :: int
  oe_clock :: "string \<Rightarrow> int"
  oe_started_floor :: int
  oe_default_parallelism :: int
  oe_minutes :: "pyfloat \<Rightarrow> int"
  oe_proposal_id :: string
  oe_got_lock :: bool
  oe_enqueue_fails_at :: "nat option"

definition pending_proposal :: "orch_env \<Rightarrow> study \<Rightarrow> trials_summary \<Rightarrow> proposal" where
  "pending_proposal env st summary =
     \<lparr>pp_id = oe_proposal_id env, pp_study_id = Some (st_id st), pp_study_trial_id = ts_best_trial_id summary,
      pp_cluster_id = st_cluster_id st, pp_template_id = st_template_id st, pp_config_diff = [],
      pp_status = Pending, pp_pr_url = None, pp_pr_state = None, pp_pr_merged_at = None,
      pp_pr_open_error = None, pp_last_polled_at = None, pp_rejected_reason = None,
      pp_created_at = oe_now env\<rparr>"

definition could_be_in_chain :: "study \<Rightarrow> bool" where
  "could_be_in_chain st =
     (let config_depth = obj_get (st_config st) depth_key
      in st_parent_study_id st \<noteq> None \<or>
         (config_depth \<noteq> PNone \<and> (case num_of config_depth of None \<Rightarrow> True | Some n \<Rightarrow> \<not> feq n (Fin 0))))"

definition rollup_in_session :: "study \<Rightarrow> string \<Rightarrow> session \<Rightarrow> session" where
  "rollup_in_session st study_id s =
     (if could_be_in_chain st
      then s\<lparr>ss_db := snd (mark_non_winning_chain_proposals_superseded study_id
        (get_chain_for_study (ss_db s) study_id) (ss_db s))\<rparr>
      else s)"

text \<open>The body of the transaction: completion, proposal and rollup.\<close>

definition stop_in_session ::
  "orch_env \<Rightarrow> string \<Rightarrow> trials_summary \<Rightarrow> session \<Rightarrow> (state_error + unit) \<times> session" where
  "stop_in_session env study_id summary s =
     (case complete_study (oe_clock env) study_id (ts_best_primary_metric summary) (ts_best_trial_id summary) s of
        (Inl e, s1) \<Rightarrow> (Inl e, s1)
      | (Inr _, s1) \<Rightarrow>
          (case get_study (ss_db s1) study_id of
             None \<Rightarrow> (Inr (), s1)
           | Some st \<Rightarrow>
               (let s2 = s1\<lparr>ss_db := (ss_db s1)\<lparr>db_proposals := db_proposals (ss_db s1) @ [pending_proposal env st summary]\<rparr>\<rparr>
                in (Inr (), rollup_in_session st study_id s2))))"

definition stop_study :: "orch_env \<Rightarrow> string \<Rightarrow> trials_summary \<Rightarrow> db \<Rightarrow> (state_error + unit) \<times> db" where
  "stop_study env study_id summary d = transact (stop_in_session env study_id summary) d"

definition fail_in_transaction :: "orch_env \<Rightarrow> string \<Rightarrow> string \<Rightarrow> db \<Rightarrow> (state_error + study) \<times> db" where
  "fail_in_transaction env study_id reason d = transact (fail_study (oe_clock env) study_id reason) d"

section \<open>Replenishing\<close>

definition count_in_flight :: "frozen_trial list \<Rightarrow> nat" where
  "count_in_flight ts = length (filter (\<lambda>t. ft_state t = OptRunning) ts) + length (filter (\<lambda>t. ft_state t = OptWaiting) ts)"

text \<open>
  \<open>range(max(0, slots_open))\<close> times: ask, sample, enqueue. The queue may refuse a job: the
  exception leaves the loop with the trial asked for.
\<close>

fun allocate :: "('o \<Rightarrow> 'o) \<Rightarrow> ('o \<Rightarrow> nat) \<Rightarrow> nat option \<Rightarrow> nat \<Rightarrow> 'o \<Rightarrow> nat list \<Rightarrow> bool \<times> 'o \<times> nat list" where
  "allocate ask next fails_at 0 opt jobs = (True, opt, jobs)"
| "allocate ask next fails_at (Suc k) opt jobs =
     (let number = next opt; opt' = ask opt
      in case fails_at of
           Some 0 \<Rightarrow> (False, opt', jobs)
         | Some (Suc f) \<Rightarrow> allocate ask next (Some f) k opt' (jobs @ [number])
         | None \<Rightarrow> allocate ask next None k opt' (jobs @ [number]))"

definition slots_open :: "int \<Rightarrow> int option \<Rightarrow> frozen_trial list \<Rightarrow> int" where
  "slots_open parallelism max_trials ts =
     (let slots = parallelism - int (count_in_flight ts)
      in case max_trials of None \<Rightarrow> slots | Some m \<Rightarrow> min slots (m - int (length ts)))"

definition replenish ::
  "'o optuna_api \<Rightarrow> ('o \<Rightarrow> 'o) \<Rightarrow> orch_env \<Rightarrow> int \<Rightarrow> int option \<Rightarrow> 'o \<Rightarrow> nat list \<Rightarrow> bool \<times> 'o \<times> nat list" where
  "replenish api ask env parallelism max_trials opt jobs =
     (if oe_got_lock env
      then allocate ask (\<lambda>s. length (oa_trials api s)) (oe_enqueue_fails_at env)
        (nat (slots_open parallelism max_trials (oa_trials api opt))) opt jobs
      else (True, opt, jobs))"

section \<open>One tick\<close>

datatype tick_end =
    TickExit | TickFailedStreak | TickNoSignal | TickStopped | TickContinues | TickRaised

record 'o loop_state =
  ls_optuna :: 'o
  ls_db :: db
  ls_jobs :: "nat list"

text \<open>
  The limits of the loop, read once from the configuration the entry transition returned; a
  value that does not compare with a number is \<open>None\<close> at its place.
\<close>

record loop_limits =
  ll_parallelism :: int
  ll_max_trials :: "int option"
  ll_time_budget_min :: "pyfloat option"

definition read_limits :: "orch_env \<Rightarrow> obj \<Rightarrow> loop_limits option" where
  "read_limits env config =
     (case int_of (obj_get_default config ''parallelism'' (PInt (oe_default_parallelism env))) of
        None \<Rightarrow> None
      | Some p \<Rightarrow>
        (let m = obj_get config ''max_trials''; b = obj_get config ''time_budget_min''
         in if m \<noteq> PNone \<and> int_of m = None \<or> b \<noteq> PNone \<and> num_of b = None then None
            else Some \<lparr>ll_parallelism = p, ll_max_trials = int_of m, ll_time_budget_min = num_of b\<rparr>))"

definition no_signal_reason :: string where
  "no_signal_reason = ''no signal: 20 consecutive trials scored 0.0 '' @ [CHR 0xE2, CHR 0x80, CHR 0x94] @
     '' judgment overlap likely lost mid-study''"

definition tick ::
  "'o optuna_api \<Rightarrow> ('o \<Rightarrow> 'o) \<Rightarrow> orch_env \<Rightarrow> string \<Rightarrow> loop_limits \<Rightarrow> 'o loop_state \<Rightarrow> tick_end \<times> 'o loop_state" where
  "tick api ask env study_id limits s =
     (let d = ls_db s in
      if (case get_study d study_id of None \<Rightarrow> True | Some st \<Rightarrow> st_status st \<noteq> Running) then (TickExit, s)
      else
       (let summary = aggregate_trials_summary d study_id;
            finished = ts_complete summary + ts_failed summary + ts_pruned summary
        in if last_n_all_failed d study_id CONSECUTIVE_FAILURE_THRESHOLD then
             (TickFailedStreak, s\<lparr>ls_db := snd (fail_in_transaction env study_id ''5 consecutive trial failures'' d)\<rparr>)
           else if last_n_all_zero d study_id ZERO_STREAK_THRESHOLD then
             (TickNoSignal, s\<lparr>ls_db := snd (fail_in_transaction env study_id no_signal_reason d)\<rparr>)
           else if (case ll_max_trials limits of None \<Rightarrow> False | Some m \<Rightarrow> m \<le> int finished) then
             (TickStopped, s\<lparr>ls_db := snd (stop_study env study_id summary d)\<rparr>)
           else if (case ll_time_budget_min limits of None \<Rightarrow> False
               | Some b \<Rightarrow> oe_minutes env b \<le> oe_now env - oe_started_floor env) then
             (TickStopped, s\<lparr>ls_db := snd (stop_study env study_id summary d)\<rparr>)
           else
             (let (fine, opt', jobs') = replenish api ask env (ll_parallelism limits) (ll_max_trials limits)
                (ls_optuna s) (ls_jobs s)
              in (if fine then TickContinues else TickRaised, s\<lparr>ls_optuna := opt', ls_jobs := jobs'\<rparr>))))"

section \<open>The entry\<close>

datatype entry_end = EntryLost "study_status option" | EntryDeleted | EntryRuns study | EntryRaised trial_error

text \<open>
  The entry transition, the Optuna study and the search space. \<open>None\<close> of \<open>model_validate\<close> is the
  validation error of a malformed search space.
\<close>

definition enter_study ::
  "trial_env \<Rightarrow> (pyval \<Rightarrow> search_space option) \<Rightarrow> orch_env \<Rightarrow> string \<Rightarrow> db \<Rightarrow> entry_end \<times> db" where
  "enter_study tenv model_validate env study_id d =
     (case transact (Study_State.start_study (oe_clock env) study_id) d of
        (Inl (StudyNotFound _), _) \<Rightarrow> (EntryDeleted, d)
      | (Inl _, _) \<Rightarrow> (EntryLost (map_option st_status (get_study d study_id)), d)
      | (Inr st, d1) \<Rightarrow>
          (case open_optuna tenv st of
             Some e \<Rightarrow> (EntryRaised e, d1)
           | None \<Rightarrow> (case model_validate (st_search_space st) of
               None \<Rightarrow> (EntryRaised (External ''search_space''), d1)
             | Some _ \<Rightarrow> (EntryRuns st, d1))))"

section \<open>The baseline phase\<close>

datatype baseline_enqueue = BaselineSkipped | BaselineEnqueued string | BaselineDeduped

definition compute_baseline_wait_s :: "(pyval \<Rightarrow> pyfloat) \<Rightarrow> pyval \<Rightarrow> study \<Rightarrow> pyfloat" where
  "compute_baseline_wait_s to_float default_timeout st =
     (let configured = obj_get (st_config st) ''trial_timeout_s'';
          timeout = (if truthy configured then configured else default_timeout)
      in fmin (Fin 600) (fmax (Fin 60) (fadd (to_float timeout) (Fin 30))))"

definition find_terminal_baseline_row :: "db \<Rightarrow> string \<Rightarrow> trial option" where
  "find_terminal_baseline_row d study_id = find (\<lambda>t. tr_study_id t = study_id \<and> tr_is_baseline t) (db_trials d)"

text \<open>\<open>float(primary_metric or 0.0)\<close>\<close>

definition metric_or_zero :: "trial \<Rightarrow> pyfloat" where
  "metric_or_zero t = (case tr_primary_metric t of None \<Rightarrow> Fin 0 | Some m \<Rightarrow> m)"

text \<open>
  Resolving the parameters and offering the job to the queue, which answers without a job when
  one with the same id is there already. The outer \<open>None\<close> is an exception of the resolver.
\<close>

definition resolve_and_enqueue_baseline ::
  "(pyval \<Rightarrow> search_space option) \<Rightarrow> (pyfloat \<Rightarrow> pyfloat option) \<Rightarrow> string \<Rightarrow> bool \<Rightarrow> db \<Rightarrow> study
   \<Rightarrow> (baseline_enqueue \<times> obj) option" where
  "resolve_and_enqueue_baseline model_validate py_sqrt fresh_id duplicate d st =
     (case resolve_baseline_params model_validate py_sqrt d st of
        None \<Rightarrow> None
      | Some None \<Rightarrow> Some (BaselineSkipped, [])
      | Some (Some ps) \<Rightarrow> Some (if duplicate then BaselineDeduped else BaselineEnqueued fresh_id, ps))"

text \<open>The first part of the phase: nothing to do, a stamp left over by a crash, or a job.\<close>

definition begin_baseline ::
  "(pyval \<Rightarrow> search_space option) \<Rightarrow> (pyfloat \<Rightarrow> pyfloat option) \<Rightarrow> string \<Rightarrow> bool \<Rightarrow> string \<Rightarrow> db
   \<Rightarrow> (baseline_enqueue \<times> obj) option \<times> db" where
  "begin_baseline model_validate py_sqrt fresh_id duplicate study_id d =
     (case get_study d study_id of
        None \<Rightarrow> (Some (BaselineSkipped, []), d)
      | Some st \<Rightarrow>
        (if st_baseline_trial_id st \<noteq> None then (Some (BaselineSkipped, []), d)
         else (case map_option (\<lambda>t. (t, tr_status t)) (find_terminal_baseline_row d study_id) of
            Some (existing, Complete) \<Rightarrow>
              (Some (BaselineSkipped, []), stamp study_id (tr_id existing) (metric_or_zero existing) d)
          | Some (existing, TrialFailed) \<Rightarrow> (Some (BaselineSkipped, []), d)
          | _ \<Rightarrow> (resolve_and_enqueue_baseline model_validate py_sqrt fresh_id duplicate d st, d))))"

text \<open>The row the wait looks for at one poll, and what the phase does with it at the end.\<close>

definition awaited_row :: "baseline_enqueue \<Rightarrow> string \<Rightarrow> db \<Rightarrow> trial option" where
  "awaited_row b study_id d = (case b of
       BaselineSkipped \<Rightarrow> None
     | BaselineEnqueued i \<Rightarrow> get_trial d i
     | BaselineDeduped \<Rightarrow> find_terminal_baseline_row d study_id)"

text \<open>
  The wait over the states of the tables its polls see, with the time of each: the row, or
  nothing when the study stops running or the deadline has passed.
\<close>

fun wait_for_baseline :: "baseline_enqueue \<Rightarrow> string \<Rightarrow> pyfloat \<Rightarrow> (pyfloat \<times> db) list \<Rightarrow> trial option" where
  "wait_for_baseline b study_id deadline [] = None"
| "wait_for_baseline b study_id deadline ((now, d) # polls) =
     (case awaited_row b study_id d of
        Some t \<Rightarrow> Some t
      | None \<Rightarrow>
          if (case get_study d study_id of None \<Rightarrow> True | Some st \<Rightarrow> st_status st \<noteq> Running) then None
          else if fle deadline now then None
          else wait_for_baseline b study_id deadline polls)"

definition end_baseline :: "string \<Rightarrow> trial option \<Rightarrow> db \<Rightarrow> db" where
  "end_baseline study_id row d = (case row of
       None \<Rightarrow> d
     | Some t \<Rightarrow> if tr_status t = Complete then stamp study_id (tr_id t) (metric_or_zero t) d else d)"

section \<open>Draining\<close>

text \<open>
  The drain after a cancellation: over the states of Optuna its polls see, whether all trials
  that were in flight at the start have ended, or the time ran out.
\<close>

definition DRAIN_TIMEOUT_S :: pyfloat where "DRAIN_TIMEOUT_S = Fin 30"

definition in_flight_numbers :: "frozen_trial list \<Rightarrow> nat set" where
  "in_flight_numbers ts = {n. n < length ts \<and> ft_state (ts ! n) \<in> {OptRunning, OptWaiting}}"

fun drain :: "nat set \<Rightarrow> pyfloat \<Rightarrow> (pyfloat \<times> frozen_trial list) list \<Rightarrow> bool" where
  "drain snapshot deadline [] = False"
| "drain snapshot deadline ((now, ts) # polls) =
     (if snapshot \<subseteq> {n \<in> snapshot. n < length ts \<and> is_finished (ft_state (ts ! n))} then True
      else if fle deadline now then False
      else drain snapshot deadline polls)"

definition drain_in_flight :: "frozen_trial list \<Rightarrow> pyfloat \<Rightarrow> (pyfloat \<times> frozen_trial list) list \<Rightarrow> bool" where
  "drain_in_flight ts now polls =
     (let snapshot = in_flight_numbers ts
      in if snapshot = {} then True else drain snapshot (fadd now DRAIN_TIMEOUT_S) polls)"

section \<open>The transactions\<close>

lemma fresh_flush [simp]: "flush (fresh_session d) = (Inr (), fresh_session d)"
  by (simp add: fresh_session_def flush_def study_state_guard_def write_objects_def)

lemma fresh_db [simp]: "ss_db (fresh_session d) = d"
  by (simp add: fresh_session_def)

lemma fresh_load: "load_for_update i (fresh_session d) =
    (case get_study d i of None \<Rightarrow> (Inl (StudyNotFound i), fresh_session d) | Some st \<Rightarrow> (Inr st, fresh_session d))"
  by (simp add: load_for_update_def split: option.splits)

lemma fresh_authorize:
  "authorize_status_mutation st f (fresh_session d) =
     (Inr (f st), (fresh_session d)\<lparr>ss_db := update_study (st_id (f st)) (\<lambda>_. f st) d\<rparr>)"
  by (simp add: authorize_status_mutation_def set_object_def fresh_session_def flush_def study_state_guard_def
      write_objects_def)

lemma commit_db: "ss_dirty s = [] \<Longrightarrow> \<not> ss_authorized s \<Longrightarrow> commit s = (Inr (), s\<lparr>ss_committed := ss_db s\<rparr>)"
  by (simp add: commit_def flush_def study_state_guard_def write_objects_def)

lemma commit_fresh [simp]: "commit ((fresh_session d)\<lparr>ss_db := e\<rparr>) =
    (Inr (), (fresh_session d)\<lparr>ss_db := e, ss_committed := e\<rparr>)"
  by (simp add: commit_db fresh_session_def)

lemma fail_in_transaction_eq:
  "get_study d i = Some st \<Longrightarrow> fail_in_transaction env i reason d =
     (if st_status st = Running then
        (Inr (st\<lparr>st_status := Failed, st_completed_at := Some (oe_clock env i), st_failed_reason := Some reason\<rparr>),
         update_study i (\<lambda>_. st\<lparr>st_status := Failed, st_completed_at := Some (oe_clock env i),
           st_failed_reason := Some reason\<rparr>) d)
      else (Inl (InvalidStateTransition (st_status st) Failed), d))"
  using get_study_id [of d i st]
  by (cases "st_status st")
    (simp_all add: fail_in_transaction_def transact_def fail_study_def fresh_load ensure_legal_def fresh_authorize)

definition completed_row :: "orch_env \<Rightarrow> trials_summary \<Rightarrow> study \<Rightarrow> study" where
  "completed_row env summary st =
     st\<lparr>st_status := Completed, st_completed_at := Some (oe_clock env (st_id st)),
        st_best_metric := ts_best_primary_metric summary, st_best_trial_id := ts_best_trial_id summary\<rparr>"

lemma completed_row_id [simp]: "st_id (completed_row env summary st) = st_id st"
  by (simp add: completed_row_def)

text \<open>The tables after the stop, before the rollup.\<close>

definition stopped_db :: "orch_env \<Rightarrow> trials_summary \<Rightarrow> study \<Rightarrow> db \<Rightarrow> db" where
  "stopped_db env summary st d =
     (let row = completed_row env summary st; d1 = update_study (st_id st) (\<lambda>_. row) d
      in d1\<lparr>db_proposals := db_proposals d1 @ [pending_proposal env row summary]\<rparr>)"

lemma stop_study_eq:
  assumes "get_study d i = Some st"
  shows "stop_study env i summary d =
     (if st_status st = Running then
        (Inr (), let d2 = stopped_db env summary st d
           in if could_be_in_chain (completed_row env summary st)
              then snd (mark_non_winning_chain_proposals_superseded i (get_chain_for_study d2 i) d2) else d2)
      else (Inl (InvalidStateTransition (st_status st) Completed), d))"
proof -
  have id: "st_id st = i" using get_study_id [OF assms] by simp
  have g: "get_study (update_study i (\<lambda>_. completed_row env summary st) d) i = Some (completed_row env summary st)"
    using assms id by simp
  have eq: "st\<lparr>st_status := Completed, st_completed_at := Some (oe_clock env i),
      st_best_metric := ts_best_primary_metric summary, st_best_trial_id := ts_best_trial_id summary\<rparr> = completed_row env summary st"
    by (simp add: completed_row_def id)
  have same: "(completed_row env summary st)\<lparr>st_id := i\<rparr> = completed_row env summary st"
    using id by (cases st) (simp add: completed_row_def)
  show ?thesis
    using assms id
    by (cases "st_status st")
      (simp_all add: same stop_study_def transact_def stop_in_session_def complete_study_def fresh_load ensure_legal_def
        fresh_authorize eq g stopped_db_def rollup_in_session_def Let_def)
qed

text \<open>The rollup only changes the status of proposals.\<close>

lemma rollup_frame:
  "\<exists>hit. snd (mark_non_winning_chain_proposals_superseded i t d) =
     update_proposals hit (\<lambda>r. r\<lparr>pp_status := Superseded\<rparr>) d \<and> (\<forall>r. hit r \<longrightarrow> pp_status r = Pending)"
proof -
  have none: "d = update_proposals (\<lambda>_. False) (\<lambda>r. r\<lparr>pp_status := Superseded\<rparr>) d"
    by (simp add: update_proposals_none)
  obtain u where u: "u = (case t of None \<Rightarrow> get_chain_for_study d i | Some t \<Rightarrow> Some t)" by simp
  show ?thesis
  proof (cases "u = None \<or> length (ct_links (the u)) < 2 \<or>
      derive_chain_stop_reason (ct_links (the u)) (ct_anchor_trials (the u)) = Some InFlight \<or>
      select_best_link (ct_links (the u)) = None")
    case True
    then have "snd (mark_non_winning_chain_proposals_superseded i t d) = d"
      unfolding mark_non_winning_chain_proposals_superseded_def u [symmetric] by (auto split: option.splits)
    with none show ?thesis by metis
  next
    case False
    then obtain v best where v: "u = Some v" "select_best_link (ct_links v) = Some best" by auto
    have "snd (mark_non_winning_chain_proposals_superseded i t d) =
        snd (bulk_mark_superseded (map st_id (filter (\<lambda>l. st_id l \<noteq> best) (ct_links v))) d)"
      unfolding mark_non_winning_chain_proposals_superseded_def u [symmetric]
      using False v by (simp add: Let_def split: prod.splits)
    then show ?thesis unfolding bulk_supersede by fastforce
  qed
qed

lemma rollup_session_frame:
  "\<exists>hit. (if c then snd (mark_non_winning_chain_proposals_superseded i t d) else d) =
     update_proposals hit (\<lambda>r. r\<lparr>pp_status := Superseded\<rparr>) d \<and> (\<forall>r. hit r \<longrightarrow> pp_status r = Pending)"
proof (cases c)
  case False
  have "d = update_proposals (\<lambda>_. False) (\<lambda>r. r\<lparr>pp_status := Superseded\<rparr>) d" by (simp add: update_proposals_none)
  with False show ?thesis by metis
qed (simp add: rollup_frame)

text \<open>A study that ends keeps its other columns, and the trials stay.\<close>

lemma tick_ends:
  assumes "get_study d i = Some st" "st_status st = Running"
  shows "\<exists>row. get_study (snd (fail_in_transaction env i reason d)) i = Some row \<and> st_status row = Failed"
    "\<exists>row. get_study (snd (stop_study env i summary d)) i = Some row \<and> st_status row = Completed"
    "db_trials (snd (fail_in_transaction env i reason d)) = db_trials d"
    "db_trials (snd (stop_study env i summary d)) = db_trials d"
proof -
  have id: "st_id st = i" using get_study_id [OF assms(1)] by simp
  show "\<exists>row. get_study (snd (fail_in_transaction env i reason d)) i = Some row \<and> st_status row = Failed"
    "db_trials (snd (fail_in_transaction env i reason d)) = db_trials d"
    using assms by (simp_all add: fail_in_transaction_eq)
  let ?e = "stopped_db env summary st d"
  obtain hit where e: "snd (stop_study env i summary d) = update_proposals hit (\<lambda>r. r\<lparr>pp_status := Superseded\<rparr>) ?e"
    using rollup_session_frame [of "could_be_in_chain (completed_row env summary st)" i "get_chain_for_study ?e i" ?e]
    by (auto simp: stop_study_eq [OF assms(1)] assms(2) Let_def)
  have "get_study (snd (stop_study env i summary d)) i = get_study ?e i"
    by (simp add: e get_study_def update_proposals_def)
  also have "\<dots> = map_option (\<lambda>s. (completed_row env summary st)\<lparr>st_id := i\<rparr>) (get_study d i)"
    using get_study_update [of i "\<lambda>_. completed_row env summary st" d i]
    by (simp add: stopped_db_def id Let_def get_study_def)
  finally show "\<exists>row. get_study (snd (stop_study env i summary d)) i = Some row \<and> st_status row = Completed"
    using assms(1) by (simp add: completed_row_def)
  show "db_trials (snd (stop_study env i summary d)) = db_trials d"
    by (simp add: e stopped_db_def Let_def)
qed

section \<open>Trials in flight\<close>

lemma count_in_flight: "count_in_flight ts = length (filter (\<lambda>t. \<not> is_finished (ft_state t)) ts)"
proof (induction ts)
  case (Cons t ts)
  then show ?case by (cases "ft_state t") (auto simp: count_in_flight_def)
qed (simp add: count_in_flight_def)

lemma count_in_flight_append [simp]: "count_in_flight (xs @ ys) = count_in_flight xs + count_in_flight ys"
  by (simp add: count_in_flight)

lemma count_in_flight_finish:
  "is_finished (ft_state t) \<Longrightarrow> count_in_flight (ts[n := t]) \<le> count_in_flight ts"
proof (induction ts arbitrary: n)
  case (Cons a ts)
  then show ?case by (cases n) (force simp: count_in_flight)+
qed simp

text \<open>\<open>ask\<close> adds one running trial at the end.\<close>

definition ask_ok :: "'o optuna_api \<Rightarrow> ('o \<Rightarrow> 'o) \<Rightarrow> bool" where
  "ask_ok api ask = (\<forall>s. \<exists>ft. oa_trials api (ask s) = oa_trials api s @ [ft] \<and> ft_state ft = OptRunning)"

text \<open>What an allocation does: so many running trials more, and a job of each but one refused.\<close>

lemma allocate_outcome:
  assumes "ask_ok api ask" and "allocate ask (\<lambda>s. length (oa_trials api s)) fails k opt jobs = (fine, opt', jobs')"
  shows "\<exists>new. oa_trials api opt' = oa_trials api opt @ new \<and> list_all (\<lambda>t. ft_state t = OptRunning) new \<and>
    length new \<le> k \<and> (fails = None \<longrightarrow> length new = k \<and>
      jobs' = jobs @ [length (oa_trials api opt) ..< length (oa_trials api opt')])"
  using assms(2)
proof (induction k arbitrary: fails opt jobs)
  case (Suc k)
  obtain ft where ft: "oa_trials api (ask opt) = oa_trials api opt @ [ft]" "ft_state ft = OptRunning"
    using assms(1) unfolding ask_ok_def by blast
  show ?case
  proof (cases "fails = Some 0")
    case True
    then show ?thesis using Suc.prems ft by (intro exI [of _ "[ft]"]) (simp add: Let_def)
  next
    case False
    define fails' where "fails' = map_option (\<lambda>f. f - 1) fails"
    have "allocate ask (\<lambda>s. length (oa_trials api s)) fails' k (ask opt) (jobs @ [length (oa_trials api opt)]) = (fine, opt', jobs')"
      using Suc.prems False by (auto simp: Let_def fails'_def split: option.splits nat.splits)
    from Suc.IH [OF this] obtain new where
      new: "oa_trials api opt' = oa_trials api (ask opt) @ new" "list_all (\<lambda>t. ft_state t = OptRunning) new" "length new \<le> k"
      "fails' = None \<longrightarrow> length new = k \<and>
        jobs' = (jobs @ [length (oa_trials api opt)]) @ [length (oa_trials api (ask opt)) ..< length (oa_trials api opt')]"
      by auto
    show ?thesis
    proof (intro exI [of _ "ft # new"] conjI impI)
      assume "fails = None"
      then have "length new = k" "jobs' = jobs @ (length (oa_trials api opt) # [Suc (length (oa_trials api opt)) ..< length (oa_trials api opt')])"
        using new(4) ft(1) by (simp_all add: fails'_def)
      then show "length (ft # new) = Suc k" "jobs' = jobs @ [length (oa_trials api opt) ..< length (oa_trials api opt')]"
        using new(1) ft(1) by (simp_all add: upt_conv_Cons)
    qed (use new ft in simp_all)
  qed
qed simp

text \<open>Within the limits: nothing above the parallelism in flight, nothing above the budget asked for.\<close>

definition within_limits :: "'o optuna_api \<Rightarrow> loop_limits \<Rightarrow> 'o \<Rightarrow> bool" where
  "within_limits api limits opt =
     (int (count_in_flight (oa_trials api opt)) \<le> max 0 (ll_parallelism limits) \<and>
      (case ll_max_trials limits of None \<Rightarrow> True | Some m \<Rightarrow> int (length (oa_trials api opt)) \<le> max 0 m))"

lemma all_running_in_flight: "list_all (\<lambda>t. ft_state t = OptRunning) ts \<Longrightarrow> count_in_flight ts = length ts"
  by (induction ts) (simp_all add: count_in_flight)

lemma replenish_within:
  assumes "ask_ok api ask" and "within_limits api limits opt"
    and "replenish api ask env (ll_parallelism limits) (ll_max_trials limits) opt jobs = (fine, opt', jobs')"
  shows "within_limits api limits opt'"
proof (cases "oe_got_lock env")
  case True
  let ?k = "nat (slots_open (ll_parallelism limits) (ll_max_trials limits) (oa_trials api opt))"
  have "allocate ask (\<lambda>s. length (oa_trials api s)) (oe_enqueue_fails_at env) ?k opt jobs = (fine, opt', jobs')"
    using assms(3) True by (simp add: replenish_def)
  from allocate_outcome [OF assms(1) this] obtain new where
    new: "oa_trials api opt' = oa_trials api opt @ new" "count_in_flight new = length new" "length new \<le> ?k"
    using all_running_in_flight by blast
  show ?thesis
  proof (cases "length new = 0")
    case False
    then have "int (length new) \<le> slots_open (ll_parallelism limits) (ll_max_trials limits) (oa_trials api opt)"
      using new(3) by linarith
    then show ?thesis
      using new(1,2) by (auto simp: within_limits_def slots_open_def Let_def split: option.splits)
  qed (use assms(2) new(1) in \<open>auto simp: within_limits_def split: option.splits\<close>)
qed (use assms in \<open>simp add: replenish_def\<close>)

lemma tick_within:
  assumes "ask_ok api ask" and "within_limits api limits (ls_optuna s)" and "tick api ask env i limits s = (e, s')"
  shows "within_limits api limits (ls_optuna s')"
  using assms replenish_within [OF assms(1,2)]
  by (fastforce simp: tick_def Let_def split: if_splits prod.splits)

text \<open>A job of a worker finishes trials and adds none.\<close>

lemma tell_shape:
  assumes "optuna_ok api" "r \<noteq> TellValue NaN" "oa_tell api n r opt = Some opt'"
  shows "\<exists>ft. oa_trials api opt' = (oa_trials api opt)[n := ft] \<and> is_finished (ft_state ft)"
proof -
  have "n < length (oa_trials api opt) \<and> \<not> is_finished (ft_state (oa_trials api opt ! n))"
    using tell_refused [OF assms(1) _ assms(2), of n opt] assms(3) by auto
  then have "oa_trials api opt' = (oa_trials api opt)[n := told_trial r (oa_trials api opt ! n)]"
    using tell_running [OF assms(1) _ _ assms(2), of n opt] assms(3) by auto
  then show ?thesis by (auto simp: told_trial_def split: told.splits)
qed

lemma fail_trial_shape:
  assumes "optuna_ok api" "fail_trial api env sid n opened started ps e opt d = (j, opt', d')"
  shows "opt' = opt \<or> (\<exists>ft. oa_trials api opt' = (oa_trials api opt)[n := ft] \<and> is_finished (ft_state ft))"
  using assms(2) tell_shape [OF assms(1), of TellFail n opt]
  by (auto simp: fail_trial_def Let_def split: if_splits option.splits)

lemma run_trial_shape:
  assumes "optuna_ok api" "run_trial api env sid n opt d = (j, opt', d')"
    and "\<And>row. get_study d sid = Some row \<Longrightarrow> opens env row"
  shows "opt' = opt \<or> (\<exists>ft. oa_trials api opt' = (oa_trials api opt)[n := ft] \<and> is_finished (ft_state ft))"
proof (cases "get_study d sid")
  case (Some row)
  from assms(3) [OF Some] obtain key where key: "objective_metric_key (st_objective row) = Inr key"
    "open_optuna env row = None" "\<And>ps. execute_trial env row ps key \<noteq> Inr NaN"
    by (auto simp: opens_def)
  have alloc: "run_allocated api env row n key ft opt d = (j, opt', d') \<Longrightarrow> ?thesis" for ft
  proof (cases "execute_trial env row (ft_params ft) key")
    case (Inl f)
    assume "run_allocated api env row n key ft opt d = (j, opt', d')"
    then show ?thesis using Inl fail_trial_shape [OF assms(1)]
      by (auto simp: run_allocated_def execute_value split: if_splits trial_failure.splits)
  next
    case (Inr v)
    then have "v \<noteq> NaN" using key(3) by auto
    moreover assume "run_allocated api env row n key ft opt d = (j, opt', d')"
    ultimately show ?thesis using Inr fail_trial_shape [OF assms(1)] tell_shape [OF assms(1), of "TellValue v" n opt]
      by (auto simp: run_allocated_def execute_value Let_def split: if_splits option.splits)
  qed
  show ?thesis
    using assms(2) alloc fail_trial_shape [OF assms(1)]
    by (auto simp: run_trial_def Some key reconstruct_from_optuna_def Let_def split: if_splits insert_end.splits)
qed (use assms(2) in \<open>simp add: run_trial_def\<close>)

lemma finish_within:
  "within_limits api limits opt \<Longrightarrow> oa_trials api opt' = (oa_trials api opt)[n := ft] \<Longrightarrow> is_finished (ft_state ft) \<Longrightarrow>
     within_limits api limits opt'"
  using count_in_flight_finish [of ft "oa_trials api opt" n]
  by (auto simp: within_limits_def split: option.splits)

section \<open>Rounds\<close>

text \<open>
  Ticks of any orchestrators of the study (the lock makes each replenishment atomic), jobs
  delivered in any order and any number of times, and anything else that happens to the tables.
\<close>

inductive orch_step :: "'o optuna_api \<Rightarrow> ('o \<Rightarrow> 'o) \<Rightarrow> string \<Rightarrow> loop_limits \<Rightarrow> 'o loop_state \<Rightarrow> 'o loop_state \<Rightarrow> bool"
  for api ask i limits where
  orch_tick: "tick api ask env i limits s = (e, s') \<Longrightarrow> orch_step api ask i limits s s'"
| orch_job: "run_trial api env i n (ls_optuna s) (ls_db s) = (j, opt', d') \<Longrightarrow>
    (\<And>row. get_study (ls_db s) i = Some row \<Longrightarrow> opens env row) \<Longrightarrow>
    orch_step api ask i limits s (s\<lparr>ls_optuna := opt', ls_db := d', ls_jobs := jobs'\<rparr>)"
| orch_other: "orch_step api ask i limits s (s\<lparr>ls_db := d'\<rparr>)"

lemma orch_step_within:
  assumes "optuna_ok api" "ask_ok api ask" "orch_step api ask i limits s s'" "within_limits api limits (ls_optuna s)"
  shows "within_limits api limits (ls_optuna s')"
  using assms(3)
proof cases
  case (orch_tick env e)
  then show ?thesis using tick_within [OF assms(2,4)] by blast
next
  case (orch_job env n j opt' d' jobs')
  then show ?thesis using run_trial_shape [OF assms(1) orch_job(2,3)] assms(4) finish_within [OF assms(4)] by auto
next
  case (orch_other d')
  then show ?thesis using assms(4) by simp
qed

text \<open>The jobs of a tick, delivered in order.\<close>

fun deliver ::
  "'o optuna_api \<Rightarrow> (nat \<Rightarrow> trial_env) \<Rightarrow> string \<Rightarrow> nat list \<Rightarrow> 'o \<Rightarrow> db \<Rightarrow> 'o \<times> db" where
  "deliver api envs i [] opt d = (opt, d)"
| "deliver api envs i (n # ns) opt d =
     (case run_trial api (envs n) i n opt d of (_, opt', d') \<Rightarrow> deliver api envs i ns opt' d')"

definition one_round ::
  "'o optuna_api \<Rightarrow> ('o \<Rightarrow> 'o) \<Rightarrow> orch_env \<Rightarrow> (nat \<Rightarrow> trial_env) \<Rightarrow> string \<Rightarrow> loop_limits \<Rightarrow> 'o loop_state \<Rightarrow> 'o loop_state" where
  "one_round api ask env envs i limits s =
     (case tick api ask env i limits s of (_, s1) \<Rightarrow>
        (case deliver api envs i (ls_jobs s1) (ls_optuna s1) (ls_db s1) of (opt', d') \<Rightarrow>
           \<lparr>ls_optuna = opt', ls_db = d', ls_jobs = []\<rparr>))"

fun rounds ::
  "'o optuna_api \<Rightarrow> ('o \<Rightarrow> 'o) \<Rightarrow> (nat \<Rightarrow> orch_env) \<Rightarrow> (nat \<Rightarrow> nat \<Rightarrow> trial_env) \<Rightarrow> string \<Rightarrow> loop_limits
   \<Rightarrow> nat \<Rightarrow> 'o loop_state \<Rightarrow> 'o loop_state" where
  "rounds api ask oes envs i limits 0 s = s"
| "rounds api ask oes envs i limits (Suc k) s =
     one_round api ask (oes k) (envs k) i limits (rounds api ask oes envs i limits k s)"

text \<open>An undisturbed tick and an undisturbed job: the lock is free, no process dies.\<close>

definition calm_tick :: "orch_env \<Rightarrow> bool" where
  "calm_tick env = (oe_got_lock env \<and> oe_enqueue_fails_at env = None)"

definition calm_job :: "trial_env \<Rightarrow> study \<Rightarrow> bool" where
  "calm_job env row = (opens env row \<and> te_crash env = NoCrash \<and> (\<forall>r. te_insert env r = InsertOk) \<and>
     (\<forall>ps key. objective_metric_key (st_objective row) = Inr key \<longrightarrow> execute_trial env row ps key \<noteq> Inl Operational))"

text \<open>The trials below \<open>m\<close> have their rows, those from \<open>m\<close> on run.\<close>

definition progress :: "'o optuna_api \<Rightarrow> string \<Rightarrow> nat \<Rightarrow> 'o \<Rightarrow> db \<Rightarrow> bool" where
  "progress api i m opt d =
     (m \<le> length (oa_trials api opt) \<and> (\<forall>n<length (oa_trials api opt). is_finished (ft_state (oa_trials api opt ! n)) = (n < m)) \<and>
      (\<forall>t\<in>set (trials_of d i). tr_number t < int m) \<and> length (optuna_rows d i) = m)"

lemma calm_job_run:
  assumes "optuna_ok api" "get_study d i = Some row" "calm_job env row" "progress api i m opt d" "m < length (oa_trials api opt)"
  shows "\<exists>j opt' d'. run_trial api env i m opt d = (j, opt', d') \<and> progress api i (Suc m) opt' d' \<and>
    length (oa_trials api opt') = length (oa_trials api opt) \<and> get_study d' i = Some row"
proof -
  have id: "st_id row = i" using get_study_id [OF assms(2)] by simp
  obtain key where key: "objective_metric_key (st_objective row) = Inr key" "open_optuna env row = None"
    "\<And>ps. execute_trial env row ps key \<noteq> Inr NaN"
    using assms(3) by (auto simp: calm_job_def opens_def)
  have run: "\<not> is_finished (ft_state (oa_trials api opt ! m))" using assms(4,5) by (auto simp: progress_def)
  have none: "existing_terminal_app_row d i m = None"
    using assms(4) by (force simp: existing_terminal_app_row_def progress_def trials_of_def find_None_all)
  let ?ft = "oa_trials api opt ! m"
  have "\<exists>opt' r t. run_allocated api env row m key ?ft opt d = (JobDone, opt', add_trial r d) \<and>
      oa_trials api opt' = (oa_trials api opt)[m := t] \<and> is_finished (ft_state t)"
  proof (cases "execute_trial env row (ft_params ?ft) key")
    case (Inl f)
    then obtain e where f: "f = Failure e" using assms(3) key(1) by (cases f) (auto simp: calm_job_def)
    obtain opt' where "oa_tell api m TellFail opt = Some opt'"
      "oa_trials api opt' = (oa_trials api opt)[m := told_trial TellFail ?ft]"
      using tell_running [OF assms(1,5) run, of TellFail] by auto
    moreover obtain b where "execute_scored env row (ft_params ?ft) key = Inl (b, Failure e)"
      using Inl f by (auto simp: execute_value)
    ultimately show ?thesis using assms(3)
      by (intro exI [of _ opt'] exI [of _ "failed_row env b (trial_row env (st_id row) m (ft_params ?ft) None TrialFailed
          (Some (take 500 (te_error_text env e))) (Some (te_now env)))"] exI [of _ "told_trial TellFail ?ft"])
        (simp add: run_allocated_def fail_trial_def calm_job_def told_trial_def)
  next
    case (Inr v)
    obtain opt' where "oa_tell api m (TellValue v) opt = Some opt'"
      "oa_trials api opt' = (oa_trials api opt)[m := told_trial (TellValue v) ?ft]"
      using tell_running [OF assms(1,5) run, of "TellValue v"] Inr key(3) by auto
    moreover obtain sc where "execute_scored env row (ft_params ?ft) key = Inr sc" "primary_of key sc = v"
      using Inr by (auto simp: execute_value)
    ultimately show ?thesis using assms(3)
      by (intro exI [of _ opt'] exI [of _ "scored_row env sc (trial_row env (st_id row) m (ft_params ?ft) (Some v) Complete
          None (Some (te_now env)))"] exI [of _ "told_trial (TellValue v) ?ft"])
        (simp add: run_allocated_def calm_job_def told_trial_def)
  qed
  then obtain opt' d' t where ran: "run_trial api env i m opt d = (JobDone, opt', d')"
    "oa_trials api opt' = (oa_trials api opt)[m := t]" "is_finished (ft_state t)"
    using assms(2,5) none key run by (auto simp: run_trial_def)
  from run_trial_done [OF ran(1) assms(2) none] obtain r where
    r: "tr_study_id r = i" "tr_number r = int m" "\<not> tr_is_baseline r" "d' = add_trial r d" by blast
  have "trials_of d' i = trials_of d i @ [r]" using r(1,4) by (simp add: trials_of_def add_trial_def)
  then have "progress api i (Suc m) opt' d'"
    using assms(4,5) ran(2,3) r by (auto simp: progress_def nth_list_update less_Suc_eq)
  then show ?thesis using ran(1,2) r(4) assms(2) by auto
qed

lemma calm_deliver:
  assumes "optuna_ok api" "\<And>n. calm_job (envs n) row"
  shows "progress api i m opt d \<Longrightarrow> get_study d i = Some row \<Longrightarrow> L = length (oa_trials api opt) \<Longrightarrow>
    \<exists>opt' d'. deliver api envs i [m..<L] opt d = (opt', d') \<and> progress api i L opt' d' \<and>
      length (oa_trials api opt') = L \<and> get_study d' i = Some row"
proof (induction "L - m" arbitrary: m opt d)
  case 0
  then have "m = L" by (simp add: progress_def)
  with 0 show ?case by simp
next
  case (Suc k)
  then have m: "m < length (oa_trials api opt)" by simp
  from calm_job_run [OF assms(1) Suc.prems(2) assms(2) Suc.prems(1) m, of m] obtain j opt' d' where
    run: "run_trial api (envs m) i m opt d = (j, opt', d')" "progress api i (Suc m) opt' d'"
    "length (oa_trials api opt') = length (oa_trials api opt)" "get_study d' i = Some row" by blast
  have "k = L - Suc m" using Suc.hyps(2) by simp
  from Suc.hyps(1) [OF this run(2,4)] run(1,3) Suc.prems(3) m show ?case
    by (simp add: upt_conv_Cons)
qed

text \<open>Between two rounds of a running study: all jobs done, all rows written.\<close>

definition caught_up :: "'o optuna_api \<Rightarrow> string \<Rightarrow> study \<Rightarrow> 'o loop_state \<Rightarrow> bool" where
  "caught_up api i row s = (ls_jobs s = [] \<and> progress api i (length (oa_trials api (ls_optuna s))) (ls_optuna s) (ls_db s) \<and>
     get_study (ls_db s) i = Some row)"

lemma summary_rows:
  "ts_complete (aggregate_trials_summary d i) + ts_failed (aggregate_trials_summary d i) +
     ts_pruned (aggregate_trials_summary d i) = length (optuna_rows d i)"
proof -
  have "optuna_rows d i = filter (\<lambda>t. \<not> tr_is_baseline t) (trials_of d i)"
    by (simp add: optuna_rows_def trials_of_def conj_commute)
  then show ?thesis
    using three_statuses [of "optuna_rows d i"] by (simp add: aggregate_trials_summary_def Let_def)
qed

definition ended :: "string \<Rightarrow> db \<Rightarrow> bool" where
  "ended i d = (\<exists>row. get_study d i = Some row \<and> st_status row \<in> {Completed, Failed})"

text \<open>A tick of a running study ends it, or allocates.\<close>

lemma tick_running:
  assumes "get_study (ls_db s) i = Some row" "st_status row = Running" "tick api ask env i limits s = (e, s')"
  shows "ended i (ls_db s') \<and> ls_jobs s' = ls_jobs s \<or>
    (case ll_max_trials limits of None \<Rightarrow> True | Some m \<Rightarrow> int (length (optuna_rows (ls_db s) i)) < m) \<and>
    (\<exists>fine. replenish api ask env (ll_parallelism limits) (ll_max_trials limits) (ls_optuna s) (ls_jobs s) =
      (fine, ls_optuna s', ls_jobs s') \<and> ls_db s' = ls_db s)"
proof -
  let ?d = "ls_db s"
  have stops: "ended i (snd (fail_in_transaction env i reason ?d))" "ended i (snd (stop_study env i summary ?d))"
    for reason summary
    using tick_ends(1,2) [OF assms(1,2)] unfolding ended_def insert_iff by blast+
  consider (streak) "last_n_all_failed ?d i CONSECUTIVE_FAILURE_THRESHOLD \<or> last_n_all_zero ?d i ZERO_STREAK_THRESHOLD"
    | (limit) "\<not> (last_n_all_failed ?d i CONSECUTIVE_FAILURE_THRESHOLD \<or> last_n_all_zero ?d i ZERO_STREAK_THRESHOLD)"
      "(case ll_max_trials limits of None \<Rightarrow> False | Some m \<Rightarrow> m \<le> int (length (optuna_rows ?d i))) \<or>
       (case ll_time_budget_min limits of None \<Rightarrow> False | Some b \<Rightarrow> oe_minutes env b \<le> oe_now env - oe_started_floor env)"
    | (go) "\<not> (last_n_all_failed ?d i CONSECUTIVE_FAILURE_THRESHOLD \<or> last_n_all_zero ?d i ZERO_STREAK_THRESHOLD)"
      "\<not> ((case ll_max_trials limits of None \<Rightarrow> False | Some m \<Rightarrow> m \<le> int (length (optuna_rows ?d i))) \<or>
       (case ll_time_budget_min limits of None \<Rightarrow> False | Some b \<Rightarrow> oe_minutes env b \<le> oe_now env - oe_started_floor env))"
    by blast
  then show ?thesis
  proof cases
    case streak
    then show ?thesis using assms stops by (auto simp: tick_def Let_def split: if_splits)
  next
    case limit
    then have "s' = s\<lparr>ls_db := snd (stop_study env i (aggregate_trials_summary ?d i) ?d)\<rparr>"
      using assms unfolding tick_def Let_def summary_rows by (auto split: if_splits)
    then show ?thesis using stops by simp
  next
    case go
    then obtain fine where
      "replenish api ask env (ll_parallelism limits) (ll_max_trials limits) (ls_optuna s) (ls_jobs s) = (fine, ls_optuna s', ls_jobs s')"
      "ls_db s' = ls_db s"
      using assms unfolding tick_def Let_def summary_rows by (auto split: if_splits prod.splits)
    then show ?thesis using go(2) by (auto split: option.splits)
  qed
qed

lemma round_progress:
  assumes ok: "optuna_ok api" "ask_ok api ask" and now: "caught_up api i row s" "st_status row = Running"
    and "ll_max_trials limits = Some m" "1 \<le> ll_parallelism limits" "calm_tick env" "\<And>n. calm_job (envs n) row"
  shows "ended i (ls_db (one_round api ask env envs i limits s)) \<or>
    caught_up api i row (one_round api ask env envs i limits s) \<and>
    int (length (oa_trials api (ls_optuna s))) < m \<and>
    length (oa_trials api (ls_optuna s)) < length (oa_trials api (ls_optuna (one_round api ask env envs i limits s)))"
proof -
  obtain e s1 where tick: "tick api ask env i limits s = (e, s1)" by fastforce
  have d: "get_study (ls_db s) i = Some row" "ls_jobs s = []" and
    pr: "progress api i (length (oa_trials api (ls_optuna s))) (ls_optuna s) (ls_db s)"
    using now(1) by (simp_all add: caught_up_def)
  let ?n = "length (oa_trials api (ls_optuna s))"
  have rows: "length (optuna_rows (ls_db s) i) = ?n" using pr by (simp add: progress_def)
  have idle: "count_in_flight (oa_trials api (ls_optuna s)) = 0"
    using pr by (auto simp: progress_def count_in_flight filter_empty_conv in_set_conv_nth)
  show ?thesis
  proof (cases "ended i (ls_db s1) \<and> ls_jobs s1 = ls_jobs s")
    case True
    then show ?thesis using d(2) tick by (simp add: one_round_def)
  next
    case False
    from tick_running [OF d(1) now(2) tick] False rows assms(5) obtain fine where
      less: "int ?n < m" and db: "ls_db s1 = ls_db s" and
      rep: "replenish api ask env (ll_parallelism limits) (Some m) (ls_optuna s) [] = (fine, ls_optuna s1, ls_jobs s1)"
      using d(2) by auto
    let ?k = "nat (slots_open (ll_parallelism limits) (Some m) (oa_trials api (ls_optuna s)))"
    have k: "0 < ?k" using less assms(6) by (simp add: slots_open_def idle Let_def)
    have "allocate ask (\<lambda>s. length (oa_trials api s)) None ?k (ls_optuna s) [] = (fine, ls_optuna s1, ls_jobs s1)"
      using rep assms(7) by (simp add: replenish_def calm_tick_def)
    from allocate_outcome [OF ok(2) this] obtain new where
      new: "oa_trials api (ls_optuna s1) = oa_trials api (ls_optuna s) @ new" "list_all (\<lambda>t. ft_state t = OptRunning) new"
      "length new = ?k" "ls_jobs s1 = [?n..<length (oa_trials api (ls_optuna s1))]" by auto
    have run: "\<not> is_finished (ft_state (new ! j))" if "j < length new" for j
      using new(2) that by (simp add: list_all_length)
    have "progress api i ?n (ls_optuna s1) (ls_db s1)"
      using pr run unfolding progress_def db new(1) by (auto simp: nth_append)
    from calm_deliver [where envs = envs, OF ok(1) assms(8) this _ refl] d(1) obtain opt' d' where
      "deliver api envs i (ls_jobs s1) (ls_optuna s1) (ls_db s1) = (opt', d')"
      "progress api i (length (oa_trials api (ls_optuna s1))) opt' d'"
      "length (oa_trials api opt') = length (oa_trials api (ls_optuna s1))" "get_study d' i = Some row"
      unfolding new(4) db by blast
    then show ?thesis using less k new(1,3) by (simp add: one_round_def tick caught_up_def)
  qed
qed

lemma rounds_progress:
  assumes "optuna_ok api" "ask_ok api ask" "caught_up api i row s" "st_status row = Running"
    "ll_max_trials limits = Some m" "1 \<le> ll_parallelism limits" "\<And>k. calm_tick (oes k)" "\<And>k n. calm_job (envs k n) row"
  shows "(\<exists>j\<le>k. ended i (ls_db (rounds api ask oes envs i limits j s))) \<or>
    caught_up api i row (rounds api ask oes envs i limits k s) \<and>
    (k = 0 \<or> int (length (oa_trials api (ls_optuna s)) + k) \<le> m) \<and>
    length (oa_trials api (ls_optuna s)) + k \<le> length (oa_trials api (ls_optuna (rounds api ask oes envs i limits k s)))"
proof (induction k)
  case (Suc k)
  let ?s = "rounds api ask oes envs i limits k s"
  show ?case
  proof (cases "\<exists>j\<le>k. ended i (ls_db (rounds api ask oes envs i limits j s))")
    case False
    with Suc have "caught_up api i row ?s" and
      len: "length (oa_trials api (ls_optuna s)) + k \<le> length (oa_trials api (ls_optuna ?s))" by auto
    from round_progress [where env = "oes k" and envs = "envs k", OF assms(1,2) this(1) assms(4,5,6,7,8)] len
    show ?thesis by (auto simp: ended_def intro!: exI [of _ "Suc k"])
  qed (use le_SucI in blast)
qed (use assms(3) in simp)

section \<open>What goes wrong\<close>

text \<open>
  The queue refuses a job after the trial was asked for: the exception leaves the trial running
  in Optuna, with no job that could ever finish it.
\<close>

lemma refused_job:
  assumes "ask_ok api ask" and "oe_got_lock env" and "oe_enqueue_fails_at env = Some 0"
    and "0 < slots_open p m (oa_trials api opt)"
  shows "\<exists>ft. replenish api ask env p m opt jobs = (False, ask opt, jobs) \<and>
    oa_trials api (ask opt) = oa_trials api opt @ [ft] \<and> ft_state ft = OptRunning"
proof -
  obtain k where k: "nat (slots_open p m (oa_trials api opt)) = Suc k" using assms(4) by (cases "nat (slots_open p m (oa_trials api opt))") auto
  have "replenish api ask env p m opt jobs = (False, ask opt, jobs)"
    using assms(2,3) by (simp add: replenish_def k Let_def)
  moreover obtain ft where "oa_trials api (ask opt) = oa_trials api opt @ [ft]" "ft_state ft = OptRunning"
    using assms(1) unfolding ask_ok_def by blast
  ultimately show ?thesis by blast
qed

text \<open>
  From then on the budget of trials is asked for but never finished: without a time budget
  every tick - of a resumed orchestrator too - only continues.
\<close>

lemma stalled_tick:
  assumes "get_study (ls_db s) i = Some row" and "st_status row = Running" and "ll_max_trials limits = Some m"
    and "ll_time_budget_min limits = None" and "int (length (optuna_rows (ls_db s) i)) < m"
    and "m \<le> int (length (oa_trials api (ls_optuna s)))"
    and "\<not> last_n_all_failed (ls_db s) i CONSECUTIVE_FAILURE_THRESHOLD" "\<not> last_n_all_zero (ls_db s) i ZERO_STREAK_THRESHOLD"
  shows "tick api ask env i limits s = (TickContinues, s)"
proof -
  have "slots_open (ll_parallelism limits) (Some m) (oa_trials api (ls_optuna s)) \<le> 0"
    using assms(6) by (simp add: slots_open_def Let_def)
  then have r: "replenish api ask env (ll_parallelism limits) (Some m) (ls_optuna s) (ls_jobs s) = (True, ls_optuna s, ls_jobs s)"
    by (simp add: replenish_def)
  show ?thesis using assms(1-5,7,8) unfolding tick_def Let_def summary_rows by (simp add: r)
qed

section \<open>Properties\<close>

text \<open>C5 The stop is one step. A study that no longer runs is refused and nothing is written;
  otherwise the study is completed with the winner of the summary, exactly one proposal is
  added - pending, or superseded at once by the rollup of its chain - and of the other
  proposals only pending ones can change, to superseded.\<close>

theorem stop_hands_over:
  assumes "get_study d i = Some st"
  shows "(st_status st \<noteq> Running \<longrightarrow> stop_study env i summary d = (Inl (InvalidStateTransition (st_status st) Completed), d)) \<and>
    (st_status st = Running \<longrightarrow> (\<exists>e hit row p. stop_study env i summary d = (Inr (), e) \<and>
      get_study e i = Some row \<and> st_status row = Completed \<and>
      st_best_metric row = ts_best_primary_metric summary \<and> st_best_trial_id row = ts_best_trial_id summary \<and>
      db_trials e = db_trials d \<and>
      db_proposals e = map (\<lambda>q. if hit q then q\<lparr>pp_status := Superseded\<rparr> else q) (db_proposals d) @ [p] \<and>
      (\<forall>q. hit q \<longrightarrow> pp_status q = Pending) \<and>
      pp_study_id p = Some i \<and> pp_study_trial_id p = ts_best_trial_id summary \<and> pp_status p \<in> {Pending, Superseded}))"
proof (intro conjI impI)
  assume "st_status st \<noteq> Running"
  then show "stop_study env i summary d = (Inl (InvalidStateTransition (st_status st) Completed), d)"
    by (simp add: stop_study_eq [OF assms])
next
  assume run: "st_status st = Running"
  have id: "st_id st = i" using get_study_id [OF assms] by simp
  let ?e = "stopped_db env summary st d" and ?p = "pending_proposal env (completed_row env summary st) summary"
  obtain hit where e: "stop_study env i summary d = (Inr (), update_proposals hit (\<lambda>r. r\<lparr>pp_status := Superseded\<rparr>) ?e)"
    and hit: "\<forall>r. hit r \<longrightarrow> pp_status r = Pending"
    using rollup_session_frame [of "could_be_in_chain (completed_row env summary st)" i "get_chain_for_study ?e i" ?e]
    by (auto simp: stop_study_eq [OF assms] run Let_def)
  have p: "db_proposals ?e = db_proposals d @ [?p]" by (simp add: stopped_db_def Let_def)
  have "get_study (update_proposals hit (\<lambda>r. r\<lparr>pp_status := Superseded\<rparr>) ?e) i =
      get_study (update_study i (\<lambda>_. completed_row env summary st) d) i"
    by (simp add: get_study_def update_proposals_def stopped_db_def Let_def id)
  also have "\<dots> = Some ((completed_row env summary st)\<lparr>st_id := i\<rparr>)" using assms by simp
  finally show "\<exists>e hit row p. stop_study env i summary d = (Inr (), e) \<and>
      get_study e i = Some row \<and> st_status row = Completed \<and>
      st_best_metric row = ts_best_primary_metric summary \<and> st_best_trial_id row = ts_best_trial_id summary \<and>
      db_trials e = db_trials d \<and>
      db_proposals e = map (\<lambda>q. if hit q then q\<lparr>pp_status := Superseded\<rparr> else q) (db_proposals d) @ [p] \<and>
      (\<forall>q. hit q \<longrightarrow> pp_status q = Pending) \<and>
      pp_study_id p = Some i \<and> pp_study_trial_id p = ts_best_trial_id summary \<and> pp_status p \<in> {Pending, Superseded}"
    using e hit
    by (intro exI [of _ "update_proposals hit (\<lambda>r. r\<lparr>pp_status := Superseded\<rparr>) ?e"] exI [of _ hit]
        exI [of _ "(completed_row env summary st)\<lparr>st_id := i\<rparr>"]
        exI [of _ "if hit ?p then ?p\<lparr>pp_status := Superseded\<rparr> else ?p"])
      (auto simp: completed_row_def pending_proposal_def update_proposals_def p id stopped_db_def Let_def)
qed

text \<open>C4 However many orchestrators tick, and however often and in whatever order jobs are delivered,
  a study never has more trials in flight than its parallelism, nor more trials in all than
  its budget.\<close>

theorem allocation_bounded:
  assumes "optuna_ok api" and "ask_ok api ask" and "(orch_step api ask i limits)\<^sup>*\<^sup>* s s'"
    and "within_limits api limits (ls_optuna s)"
  shows "within_limits api limits (ls_optuna s')"
  using assms(3)
proof (induction rule: rtranclp_induct)
  case (step y z)
  then show ?case using orch_step_within [OF assms(1,2)] by blast
qed (use assms(4) in simp)

text \<open>C3 A study ends. With a budget of \<open>m\<close> trials and a parallelism of at least one, undisturbed ticks
  and jobs - with whatever scores and failures - end it after at most as many rounds as
  trials are left, and one more.\<close>

theorem study_finishes:
  assumes "optuna_ok api" and "ask_ok api ask" and "caught_up api i row s" and "st_status row = Running"
    and "ll_max_trials limits = Some m" and "1 \<le> ll_parallelism limits"
    and "\<And>k. calm_tick (oes k)" and "\<And>k n. calm_job (envs k n) row"
  shows "\<exists>k \<le> Suc (nat (m - int (length (oa_trials api (ls_optuna s))))).
    ended i (ls_db (rounds api ask oes envs i limits k s))"
proof (rule ccontr)
  let ?K = "Suc (nat (m - int (length (oa_trials api (ls_optuna s)))))"
  assume "\<not> ?thesis"
  with rounds_progress [where oes = oes and envs = envs and k = ?K, OF assms]
  have "int (length (oa_trials api (ls_optuna s)) + ?K) \<le> m" by auto
  then show False by linarith
qed

section \<open>A concrete study\<close>

definition sample_orch_env :: orch_env where
  "sample_orch_env = \<lparr>oe_now = 5, oe_clock = (\<lambda>_. 5), oe_started_floor = 0, oe_default_parallelism = 4,
     oe_minutes = (\<lambda>_. 60), oe_proposal_id = ''p'', oe_got_lock = True, oe_enqueue_fails_at = None\<rparr>"

definition sample_ask :: "frozen_trial list \<Rightarrow> frozen_trial list" where
  "sample_ask s = s @ [\<lparr>ft_state = OptRunning, ft_params = [(''x'', PInt 1)], ft_value = None\<rparr>]"

lemma sample_ask_ok: "ask_ok list_optuna sample_ask"
  by (simp add: ask_ok_def list_optuna_def sample_ask_def)

definition sample_limits :: loop_limits where
  "sample_limits = \<lparr>ll_parallelism = 2, ll_max_trials = Some 2, ll_time_budget_min = None\<rparr>"

definition sample_loop :: "frozen_trial list loop_state" where
  "sample_loop = \<lparr>ls_optuna = [], ls_db = sample_trial_tables, ls_jobs = []\<rparr>"

lemma stop_hands_over_witness:
  "\<exists>e row. stop_study sample_orch_env ''s'' (aggregate_trials_summary sample_trial_tables ''s'') sample_trial_tables = (Inr (), e) \<and>
     get_study e ''s'' = Some row \<and> st_status row = Completed \<and> length (db_proposals e) = 1"
  using stop_hands_over [OF sample_trial_row(1), of sample_orch_env "aggregate_trials_summary sample_trial_tables ''s''"]
  by (auto simp: sample_trial_study_def sample_study_def) (auto simp: sample_trial_tables_def)

lemma allocation_bounded_witness:
  "\<exists>s'. tick list_optuna sample_ask sample_orch_env ''s'' sample_limits sample_loop = (TickContinues, s') \<and>
     within_limits list_optuna sample_limits (ls_optuna s')"
proof -
  let ?r = "tick list_optuna sample_ask sample_orch_env ''s'' sample_limits sample_loop"
  have s: "fst ?r = TickContinues"
    by (simp add: tick_def sample_loop_def sample_trial_row sample_trial_study_def sample_study_def Let_def
        last_n_all_failed_def last_n_all_zero_def latest_trials_def optuna_rows_def sample_trial_tables_def
        CONSECUTIVE_FAILURE_THRESHOLD_def ZERO_STREAK_THRESHOLD_def sample_limits_def aggregate_trials_summary_def
        trials_of_def get_study_def replenish_def sample_orch_env_def slots_open_def count_in_flight list_optuna_def
        numeral_2_eq_2)
  have "orch_step list_optuna sample_ask ''s'' sample_limits sample_loop (snd ?r)"
    by (rule orch_tick [of _ _ sample_orch_env _ _ _ "fst ?r"]) simp
  then have "(orch_step list_optuna sample_ask ''s'' sample_limits)\<^sup>*\<^sup>* sample_loop (snd ?r)" by (rule r_into_rtranclp)
  from allocation_bounded [OF list_optuna_ok sample_ask_ok this]
  have "within_limits list_optuna sample_limits (ls_optuna (snd ?r))"
    by (simp add: within_limits_def sample_loop_def list_optuna_def count_in_flight sample_limits_def)
  then show ?thesis using s by (intro exI [of _ "snd ?r"]) (metis prod.collapse)
qed

lemma study_finishes_witness:
  "\<exists>k \<le> 3. ended ''s'' (ls_db (rounds list_optuna sample_ask (\<lambda>_. sample_orch_env) (\<lambda>_ _. sample_trial_env) ''s''
     sample_limits k sample_loop))"
proof -
  have c: "caught_up list_optuna ''s'' sample_trial_study sample_loop"
    by (simp add: caught_up_def sample_loop_def progress_def list_optuna_def sample_trial_row trials_of_def
        optuna_rows_def) (simp add: sample_trial_tables_def)
  have j: "calm_job sample_trial_env sample_trial_study"
  proof -
    have "te_crash sample_trial_env = NoCrash" "\<And>r. te_insert sample_trial_env r = InsertOk"
      by (simp_all add: sample_trial_env_def)
    then show ?thesis by (simp add: calm_job_def sample_opens sample_key sample_execute)
  qed
  show ?thesis
    using study_finishes [OF list_optuna_ok sample_ask_ok c _ _ _ _ j, of sample_limits 2 "\<lambda>_. sample_orch_env"]
    by (simp add: sample_trial_study_def sample_study_def sample_limits_def calm_tick_def sample_orch_env_def
        sample_loop_def list_optuna_def numeral_3_eq_3 numeral_2_eq_2)
qed

end
