(* ===== verification/Redaction.thy ===== *)
theory Redaction
  imports Normalizers Values "HOL-Library.Sublist"
begin

text \<open>
  The redaction of secrets (\<open>backend/app/domain/git/redaction.py\<close>): three regular expressions that
  replace GitHub tokens, OpenAI keys and the passwords of URLs, and the log processor that applies
  them to every string of an event. Text is a list of code points, as in \<open>Normalizers\<close>; what Unicode
  says of white space and word characters comes from its tables, a parameter. None of the patterns
  can backtrack into another match: the classes that repeat exclude the character that must follow.
\<close>

section \<open>Substitution\<close>

text \<open>\<open>pattern.sub\<close>: \<open>m\<close> tells the length of a match at a position, which is never empty, and its
  replacement; it sees the character before.\<close>

function sub_all :: "(nat option \<Rightarrow> qtext \<Rightarrow> (nat \<times> qtext) option) \<Rightarrow> nat option \<Rightarrow> qtext \<Rightarrow> qtext" where
  "sub_all m prev [] = []"
| "sub_all m prev (c # cs) = (case m prev (c # cs) of
       None \<Rightarrow> c # sub_all m (Some c) cs
     | Some (n, rep) \<Rightarrow> rep @ sub_all m (Some ((c # cs) ! (n - 1))) (drop (n - 1) cs))"
  by pat_completeness auto
termination by (relation "measure (\<lambda>(m, prev, t). length t)") auto

section \<open>The patterns\<close>

definition in_range :: "nat \<Rightarrow> nat \<Rightarrow> nat \<Rightarrow> bool" where
  "in_range a b c = (a \<le> c \<and> c \<le> b)"

text \<open>\<open>[A-Za-z0-9_]\<close>\<close>

definition gh_char :: "nat \<Rightarrow> bool" where
  "gh_char c = (in_range 65 90 c \<or> in_range 97 122 c \<or> in_range 48 57 c \<or> c = 95)"

definition REDACTED_PLACEHOLDER :: qtext where "REDACTED_PLACEHOLDER = codes ''[REDACTED-GH-TOKEN]''"
definition REDACTED_OPENAI_PLACEHOLDER :: qtext where "REDACTED_OPENAI_PLACEHOLDER = codes ''[REDACTED-OPENAI-KEY]''"
definition REDACTED_DSN_PLACEHOLDER :: qtext where "REDACTED_DSN_PLACEHOLDER = codes ''[REDACTED-URL-PASSWORD]''"

definition GITHUB_PAT :: qtext where "GITHUB_PAT = codes ''github_pat_''"

definition GH_TOKEN_PATTERN :: "nat option \<Rightarrow> qtext \<Rightarrow> (nat \<times> qtext) option" where
  "GH_TOKEN_PATTERN prev t =
     (let body = length (takeWhile gh_char (drop 11 t)); short = length (takeWhile gh_char (drop 4 t)) in
      if take 11 t = GITHUB_PAT \<and> 20 \<le> body then Some (11 + body, REDACTED_PLACEHOLDER)
      else if take 2 t = codes ''gh'' \<and> 4 \<le> length t \<and> in_range 97 122 (t ! 2) \<and> t ! 3 = 95 \<and> 36 \<le> short
      then Some (4 + short, REDACTED_PLACEHOLDER)
      else None)"

definition OPENAI_KEY_PATTERN :: "unicode \<Rightarrow> nat option \<Rightarrow> qtext \<Rightarrow> (nat \<times> qtext) option" where
  "OPENAI_KEY_PATTERN u prev t =
     (let body = length (takeWhile (\<lambda>c. gh_char c \<or> c = 45) (drop 3 t)) in
      if boundary u prev (head_opt t) \<and> take 3 t = codes ''sk-'' \<and> 20 \<le> body
      then Some (3 + body, REDACTED_OPENAI_PLACEHOLDER) else None)"

text \<open>With \<open>IGNORECASE\<close>, \<open>[a-z]\<close> also matches the four letters that fold to an ASCII one.\<close>

definition scheme_first :: "nat \<Rightarrow> bool" where
  "scheme_first c = (in_range 65 90 c \<or> in_range 97 122 c \<or> c \<in> {0x130, 0x131, 0x17F, 0x212A})"

definition scheme_char :: "nat \<Rightarrow> bool" where
  "scheme_char c = (scheme_first c \<or> in_range 48 57 c \<or> c \<in> {43, 45, 46})"

definition dsn_group :: "unicode \<Rightarrow> qtext \<Rightarrow> nat option" where
  "dsn_group u t =
     (case t of [] \<Rightarrow> None
      | c # cs \<Rightarrow>
        (if \<not> scheme_first c then None
         else (let scheme = 1 + length (takeWhile scheme_char cs);
                   user = length (takeWhile (\<lambda>c. \<not> uc_space u c \<and> c \<notin> {58, 47, 64}) (drop (scheme + 3) t)) in
           if take 3 (drop scheme t) = codes ''://'' \<and> take 1 (drop (scheme + 3 + user) t) = codes '':''
           then Some (scheme + 3 + user + 1) else None)))"

definition DSN_PASSWORD_PATTERN :: "unicode \<Rightarrow> nat option \<Rightarrow> qtext \<Rightarrow> (nat \<times> qtext) option" where
  "DSN_PASSWORD_PATTERN u prev t =
     (case dsn_group u t of
        None \<Rightarrow> None
      | Some kept \<Rightarrow>
        (let pw = length (takeWhile (\<lambda>c. \<not> uc_space u c \<and> c \<notin> {64, 47, 93}) (drop kept t)) in
         if pw = 0 \<or> take 1 (drop (kept + pw) t) \<noteq> codes ''@'' then None
         else Some (kept + pw + 1, take kept t @ REDACTED_DSN_PLACEHOLDER @ codes ''@'')))"

definition redact_token :: "unicode \<Rightarrow> qtext \<Rightarrow> qtext" where
  "redact_token u t =
     sub_all (DSN_PASSWORD_PATTERN u) None (sub_all (OPENAI_KEY_PATTERN u) None (sub_all GH_TOKEN_PATTERN None t))"

text \<open>The log processor: every string inside an event, with \<open>r\<close> for the redaction of a string. Keys
  are left as they are.\<close>

fun redact_value :: "(string \<Rightarrow> string) \<Rightarrow> pyval \<Rightarrow> pyval" where
  "redact_value r (PStr s) = PStr (r s)"
| "redact_value r (PDict d) = PDict (map (\<lambda>(k, v). (k, redact_value r v)) d)"
| "redact_value r (PList vs) = PList (map (redact_value r) vs)"
| "redact_value r v = v"

definition redact_event :: "(string \<Rightarrow> string) \<Rightarrow> obj \<Rightarrow> obj" where
  "redact_event r event = map (\<lambda>(k, v). (k, redact_value r v)) event"

section \<open>Lemmas\<close>

text \<open>A secret of GitHub, by its documented shapes.\<close>

definition github_token :: "qtext \<Rightarrow> bool" where
  "github_token tok =
     ((\<exists>body. tok = GITHUB_PAT @ body \<and> length body = 20 \<and> (\<forall>c\<in>set body. gh_char c)) \<or>
      (\<exists>x body. tok = codes ''gh'' @ [x, 95] @ body \<and> in_range 97 122 x \<and> length body = 36 \<and> (\<forall>c\<in>set body. gh_char c)))"

lemma github_token_chars:
  assumes "github_token tok"
  shows "\<forall>c\<in>set tok. gh_char c" "\<exists>rest. tok = 103 # rest"
  using assms by (auto simp: github_token_def GITHUB_PAT_def codes_def gh_char_def in_range_def)

lemma takeWhile_len: "(\<forall>c\<in>set xs. P c) \<Longrightarrow> length xs \<le> length (takeWhile P (xs @ ys))"
  by (induction xs) auto

lemma token_matches:
  assumes "github_token tok"
  shows "GH_TOKEN_PATTERN prev (tok @ suf) \<noteq> None"
proof -
  from assms consider
    (pat) body where "tok = GITHUB_PAT @ body" "length body = 20" "\<forall>c\<in>set body. gh_char c"
  | (short) x body where "tok = codes ''gh'' @ [x, 95] @ body" "in_range 97 122 x" "length body = 36" "\<forall>c\<in>set body. gh_char c"
    unfolding github_token_def by blast
  then show ?thesis
  proof cases
    case pat
    have "20 \<le> length (takeWhile gh_char (body @ suf))" using takeWhile_len [of body gh_char suf] pat by simp
    then show ?thesis using pat(1) by (simp add: GH_TOKEN_PATTERN_def GITHUB_PAT_def codes_def Let_def)
  next
    case short
    have "36 \<le> length (takeWhile gh_char (body @ suf))" using takeWhile_len [of body gh_char suf] short by simp
    then show ?thesis using short(1,2) by (simp add: GH_TOKEN_PATTERN_def codes_def Let_def)
  qed
qed

text \<open>What the three substitutions have in common: a match keeps a part of itself, then puts a text
  that begins with a bracket and has no small g.\<close>

definition bracketed :: "(nat option \<Rightarrow> qtext \<Rightarrow> (nat \<times> qtext) option) \<Rightarrow> bool" where
  "bracketed m = (\<forall>prev t n rep. m prev t = Some (n, rep) \<longrightarrow>
     0 < n \<and> n \<le> length t \<and> (\<exists>k ph. k \<le> n \<and> rep = take k t @ 91 # ph \<and> 103 \<notin> set ph))"

lemma gh_bracketed: "bracketed GH_TOKEN_PATTERN"
proof -
  have "length (takeWhile gh_char (drop k t)) \<le> length t - k" for k t
    using length_takeWhile_le [of gh_char "drop k t"] by simp
  then have le: "k \<le> length t \<Longrightarrow> k + length (takeWhile gh_char (drop k t)) \<le> length t" for k t
    by (metis Nat.le_diff_conv2 add.commute)
  have "take 11 t = GITHUB_PAT \<Longrightarrow> 11 \<le> length t" for t
    by (drule arg_cong [of _ _ length]) (simp add: GITHUB_PAT_def codes_def)
  then show ?thesis using le
    by (auto simp: bracketed_def GH_TOKEN_PATTERN_def Let_def REDACTED_PLACEHOLDER_def codes_def split: if_splits
        intro!: exI [of _ 0])
qed

lemma openai_bracketed: "bracketed (OPENAI_KEY_PATTERN u)"
proof -
  have le: "3 + length (takeWhile P (drop 3 t)) \<le> length t" if "20 \<le> length (takeWhile P (drop 3 t))" for P and t :: qtext
    using length_takeWhile_le [of P "drop 3 t"] that by simp
  show ?thesis
    by (auto simp: bracketed_def OPENAI_KEY_PATTERN_def Let_def REDACTED_OPENAI_PLACEHOLDER_def codes_def le split: if_splits
        intro!: exI [of _ 0])
qed

lemma dsn_bracketed: "bracketed (DSN_PASSWORD_PATTERN u)"
  unfolding bracketed_def
proof (intro allI impI)
  fix prev t n rep assume "DSN_PASSWORD_PATTERN u prev t = Some (n, rep)"
  then obtain kept pw where r: "n = kept + pw + 1" "rep = take kept t @ REDACTED_DSN_PLACEHOLDER @ codes ''@''"
    "take 1 (drop (kept + pw) t) = codes ''@''"
    by (auto simp: DSN_PASSWORD_PATTERN_def Let_def split: option.splits if_splits)
  have "length (take 1 (drop (kept + pw) t)) = 1" unfolding r(3) by (simp add: codes_def)
  then have "n \<le> length t" by (simp add: r(1) min_def split: if_splits)
  then show "0 < n \<and> n \<le> length t \<and> (\<exists>k ph. k \<le> n \<and> rep = take k t @ 91 # ph \<and> 103 \<notin> set ph)"
    using r(1,2) by (auto simp: REDACTED_DSN_PLACEHOLDER_def codes_def intro!: exI [of _ kept])
qed

text \<open>Text without brackets that a substitution leaves was there before.\<close>

lemma prefix_inside:
  fixes tok :: qtext
  assumes "prefix tok (xs @ 91 # ys)" "91 \<notin> set tok"
  shows "prefix tok xs"
proof -
  from assms(1) obtain zs where z: "xs @ 91 # ys = tok @ zs" by (auto simp: prefix_def)
  then consider us where "xs = tok @ us" | us where "us \<noteq> []" "xs @ us = tok" "91 # ys = us @ zs"
    by (fastforce simp: append_eq_append_conv2 append_eq_Cons_conv)
  then show ?thesis
  proof cases
    case 1
    then show ?thesis by simp
  next
    case 2
    then have "91 \<in> set us" by (cases us) auto
    then show ?thesis using assms(2) 2(2) by auto
  qed
qed

lemma sublist_inside:
  fixes tok :: qtext
  assumes "sublist (103 # tok) (xs @ 91 # ph @ z)" "91 \<notin> set tok" "103 \<notin> set ph"
  shows "sublist (103 # tok) xs \<or> sublist (103 # tok) z"
  using assms
proof (induction xs)
  case Nil
  have skip: "sublist (103 # tok) z" if "sublist (103 # tok) (qs @ z)" "103 \<notin> set qs" for qs
    using that by (induction qs) (auto simp: sublist_Cons_right)
  show ?case using skip [of "91 # ph"] Nil by simp
next
  case (Cons x xs)
  show ?case
  proof (cases "prefix (103 # tok) ((x # xs) @ 91 # ph @ z)")
    case True
    then have "prefix (103 # tok) (x # xs)" using prefix_inside [of "103 # tok" "x # xs" "ph @ z"] Cons.prems(2) by simp
    then show ?thesis using prefix_imp_sublist by blast
  next
    case False
    then have "sublist (103 # tok) (xs @ 91 # ph @ z)" using Cons.prems(1) by (auto simp: sublist_Cons_right)
    from Cons.IH [OF this Cons.prems(2,3)] show ?thesis by (auto simp: sublist_Cons_right)
  qed
qed

lemma sub_step:
  assumes "bracketed m" "m prev (c # cs) = Some (n, rep)"
  obtains k ph where "sub_all m prev (c # cs) = take k (c # cs) @ 91 # ph @ sub_all m (Some ((c # cs) ! (n - 1))) (drop (n - 1) cs)"
    "103 \<notin> set ph"
  using assms by (force simp: bracketed_def)

lemma sub_all_prefix:
  "bracketed m \<Longrightarrow> prefix tok (sub_all m prev t) \<Longrightarrow> 91 \<notin> set tok \<Longrightarrow> prefix tok t"
proof (induction m prev t arbitrary: tok rule: sub_all.induct)
  case (2 m prev c cs)
  show ?case
  proof (cases "m prev (c # cs)")
    case None
    show ?thesis
    proof (cases tok)
      case (Cons x tok')
      then have "prefix tok' (sub_all m (Some c) cs)" "x = c" "91 \<notin> set tok'" using 2(4,5) None by auto
      then show ?thesis using 2(1) [OF None 2(3)] Cons by simp
    qed simp
  next
    case (Some nr)
    obtain n rep where nr: "nr = (n, rep)" by (cases nr)
    obtain k ph where "sub_all m prev (c # cs) = take k (c # cs) @ 91 # ph @ sub_all m (Some ((c # cs) ! (n - 1))) (drop (n - 1) cs)"
      by (rule sub_step [OF 2(3) Some [unfolded nr]])
    then have "prefix tok (take k (c # cs))" using 2(4,5) prefix_inside by metis
    then show ?thesis using take_is_prefix prefix_order.trans by blast
  qed
qed simp

lemma sub_all_sublist:
  "bracketed m \<Longrightarrow> sublist (103 # tok) (sub_all m prev t) \<Longrightarrow> 91 \<notin> set tok \<Longrightarrow> sublist (103 # tok) t"
proof (induction m prev t rule: sub_all.induct)
  case (2 m prev c cs)
  show ?case
  proof (cases "m prev (c # cs)")
    case None
    then consider "prefix (103 # tok) (sub_all m prev (c # cs))" | "sublist (103 # tok) (sub_all m (Some c) cs)"
      using 2(4) by (auto simp: sublist_Cons_right)
    then show ?thesis
    proof cases
      case 1
      then have "prefix (103 # tok) (c # cs)" by (rule sub_all_prefix [OF 2(3)]) (use 2(5) in simp)
      then show ?thesis by (rule prefix_imp_sublist)
    next
      case 2
      then show ?thesis using "2.IH"(1) [OF None "2.prems"(1) _ "2.prems"(3)] by (simp add: sublist_Cons_right)
    qed
  next
    case (Some nr)
    obtain n rep where nr: "nr = (n, rep)" by (cases nr)
    let ?z = "sub_all m (Some ((c # cs) ! (n - 1))) (drop (n - 1) cs)"
    obtain k ph where r: "sub_all m prev (c # cs) = take k (c # cs) @ 91 # ph @ ?z" "103 \<notin> set ph"
      by (rule sub_step [OF 2(3) Some [unfolded nr]])
    from sublist_inside [OF 2(4) [unfolded r(1)] 2(5) r(2)] show ?thesis
    proof
      assume "sublist (103 # tok) (take k (c # cs))"
      then show ?thesis using sublist_take sublist_order.order_trans by blast
    next
      assume "sublist (103 # tok) ?z"
      then have "sublist (103 # tok) (drop (n - 1) cs)" using 2(2) [OF Some nr [symmetric] 2(3) _ 2(5)] by simp
      then have "sublist (103 # tok) cs" using sublist_drop sublist_order.order_trans by blast
      then show ?thesis by (simp add: sublist_Cons_right)
    qed
  qed
qed simp

lemma no_bracket: "\<forall>c\<in>set tok. gh_char c \<Longrightarrow> 91 \<notin> set tok"
  by (auto simp: gh_char_def in_range_def)

text \<open>The first substitution leaves no token.\<close>

lemma gh_stage_clean: "github_token tok \<Longrightarrow> \<not> sublist tok (sub_all GH_TOKEN_PATTERN prev t)"
proof (induction GH_TOKEN_PATTERN prev t rule: sub_all.induct)
  case 1
  then show ?case using github_token_chars(2) by auto
next
  case (2 prev c cs)
  obtain rest where rest: "tok = 103 # rest" using github_token_chars(2) [OF 2(3)] by blast
  have nb: "91 \<notin> set tok" using no_bracket github_token_chars(1) [OF 2(3)] by blast
  show ?case
  proof (cases "GH_TOKEN_PATTERN prev (c # cs)")
    case None
    have "\<not> prefix tok (c # cs)" using token_matches [OF 2(3)] None unfolding prefix_def by metis
    then have "\<not> prefix tok (sub_all GH_TOKEN_PATTERN prev (c # cs))" using sub_all_prefix [OF gh_bracketed _ nb] by blast
    then show ?thesis using 2(1) [OF None 2(3)] None rest by (auto simp: sublist_Cons_right)
  next
    case (Some nr)
    obtain n rep where nr: "nr = (n, rep)" by (cases nr)
    let ?z = "sub_all GH_TOKEN_PATTERN (Some ((c # cs) ! (n - 1))) (drop (n - 1) cs)"
    have rep: "rep = REDACTED_PLACEHOLDER" using Some nr by (auto simp: GH_TOKEN_PATTERN_def Let_def split: if_splits)
    obtain ph where ph: "REDACTED_PLACEHOLDER = 91 # ph" "103 \<notin> set ph" by (simp add: REDACTED_PLACEHOLDER_def codes_def)
    have "\<not> sublist tok ?z" using 2(2) [OF Some nr [symmetric] 2(3)] by simp
    then have "\<not> sublist tok ([] @ 91 # ph @ ?z)" using sublist_inside [of rest "[]" ph ?z] nb ph(2) rest by auto
    then show ?thesis using Some nr by (simp add: rep ph(1))
  qed
qed

section \<open>Properties\<close>

text \<open>C36 No GitHub token survives a redaction: whatever the text and wherever it stands in it, what goes
  to a log, a commit message or a pull request contains none. The later substitutions
  cannot bring one back.\<close>

theorem no_token_survives:
  assumes "github_token tok"
  shows "\<not> sublist tok (redact_token u t)"
proof
  assume s: "sublist tok (redact_token u t)"
  obtain rest where rest: "tok = 103 # rest" using github_token_chars(2) [OF assms] by blast
  have nb: "91 \<notin> set rest" using no_bracket github_token_chars(1) [OF assms] rest by auto
  have "sublist tok (sub_all (OPENAI_KEY_PATTERN u) None (sub_all GH_TOKEN_PATTERN None t))"
    using sub_all_sublist [OF dsn_bracketed _ nb] s rest by (simp add: redact_token_def)
  then have "sublist tok (sub_all GH_TOKEN_PATTERN None t)" using sub_all_sublist [OF openai_bracketed _ nb] rest by simp
  then show False using gh_stage_clean [OF assms] by blast
qed

theorem no_token_survives_witness:
  "github_token (codes ''ghp_'' @ replicate 36 97) \<and>
   \<not> sublist (codes ''ghp_'' @ replicate 36 97) (redact_token
     \<lparr>uc_lower = (\<lambda>t. t), uc_space = (\<lambda>c. c = 32), uc_word = gh_char\<rparr> (codes ''push ghp_'' @ replicate 36 97))"
proof -
  have "codes ''ghp_'' @ replicate 36 97 = codes ''gh'' @ [112, 95] @ replicate 36 97" by (simp add: codes_def)
  then have "github_token (codes ''ghp_'' @ replicate 36 97)"
    unfolding github_token_def by (intro disjI2 exI [of _ 112] exI [of _ "replicate 36 97"]) (auto simp: in_range_def gh_char_def)
  then show ?thesis using no_token_survives by blast
qed

end
