(* ===== verification/Search.thy ===== *)
theory Search
  imports Clusters Normalizers
begin

text \<open>
  From a template to the hits of a batch of queries: the hook both adapters share
  (\<open>backend/app/adapters/render.py\<close>, \<open>backend/app/domain/query/render.py\<close>), the translation of a rendered
  template into the request parameters of Solr, \<open>render\<close> and \<open>search_batch\<close> of \<open>elastic.py\<close> and \<open>solr.py\<close>,
  and the query of an operator (\<open>acquire_adapter\<close> and \<open>dispatch_run_query\<close> of
  \<open>backend/app/services/cluster.py\<close>, \<open>run_query\<close> of \<open>backend/app/api/v1/clusters.py\<close>). Jinja2, the engines,
  \<open>repr\<close> of a float and \<open>float\<close> of a text are the environment. The text of a query is a list of code points,
  and a query parameter of that name never reaches the context beside it.
\<close>

section \<open>Environment\<close>

record native_query =
  nq_query_id :: string
  nq_body :: obj

record scored_hit =
  sh_doc_id :: string
  sh_score :: pyfloat
  sh_source :: pyval

record query_template =
  qt_name :: string
  qt_body :: string
  qt_declared_params :: "(string, string) pydict"

datatype search_error =
    RenderValueError
  | InvalidQueryDSL
  | LtrModelNotFound
  | TargetNotFound
  | QueryTimeout
  | Unreached
  | SearchRaised

record search_env =
  se_cluster :: cluster_env
  se_unicode :: unicode
  se_jinja :: "string \<Rightarrow> obj \<Rightarrow> qtext \<Rightarrow> search_error + pyval"
  se_repr :: "pyfloat \<Rightarrow> string"
  se_float :: "string \<Rightarrow> pyfloat option"
  se_msearch :: "adapter \<Rightarrow> (string \<times> obj) list \<Rightarrow> nat \<Rightarrow> engine_answer"
  se_select :: "adapter \<Rightarrow> string \<Rightarrow> obj \<Rightarrow> nat \<Rightarrow> engine_answer"
  se_late :: bool

section \<open>Rendering\<close>

text \<open>\<open>render_template\<close> wants an object.\<close>

definition render_template :: "search_env \<Rightarrow> string \<Rightarrow> obj \<Rightarrow> qtext \<Rightarrow> search_error + obj" where
  "render_template env body context query_text = (case se_jinja env body context query_text of
       Inl e \<Rightarrow> Inl e
     | Inr (PDict parsed) \<Rightarrow> Inr parsed
     | Inr _ \<Rightarrow> Inl RenderValueError)"

definition render_template_to_dict :: "search_env \<Rightarrow> query_template \<Rightarrow> obj \<Rightarrow> qtext \<Rightarrow> search_error + obj" where
  "render_template_to_dict env template params query_text =
     (let local_params = dict_pop ''query_normalizer'' params
      in case obj_get_default params ''query_normalizer'' (PStr DEFAULT_NORMALIZER) of
           PStr choice \<Rightarrow> (case steps_for_label choice of
               None \<Rightarrow> Inl RenderValueError
             | Some steps \<Rightarrow>
               (let normalized = normalize_pipeline (se_unicode env) query_text steps;
                    missing = filter (\<lambda>p. p \<notin> set (dict_keys local_params) \<and> p \<noteq> ''query_normalizer'')
                      (dict_keys (qt_declared_params template))
                in if missing \<noteq> [] then Inl RenderValueError
                   else render_template env (qt_body template) (dict_pop ''query_text'' local_params) normalized))
         | _ \<Rightarrow> Inl RenderValueError)"

definition elastic_render :: "search_env \<Rightarrow> query_template \<Rightarrow> obj \<Rightarrow> qtext \<Rightarrow> search_error + native_query" where
  "elastic_render env template params query_text = (case render_template_to_dict env template params query_text of
       Inl e \<Rightarrow> Inl e
     | Inr body \<Rightarrow> Inr \<lparr>nq_query_id = qt_name template, nq_body = body\<rparr>)"

section \<open>Parameters of Solr\<close>

text \<open>\<open>None\<close> is the \<open>InvalidQueryDSLError\<close>.\<close>

definition format_number :: "search_env \<Rightarrow> pyval \<Rightarrow> string option" where
  "format_number env v = (case v of
       PBool b \<Rightarrow> Some (if b then ''true'' else ''false'')
     | PInt n \<Rightarrow> Some (int_str n)
     | PFloat x \<Rightarrow> Some (se_repr env x)
     | _ \<Rightarrow> None)"

fun boost_parts :: "search_env \<Rightarrow> obj \<Rightarrow> string list option" where
  "boost_parts env [] = Some []"
| "boost_parts env ((field, boost) # d) =
     (if is_bool boost then None
      else (case (format_number env boost, boost_parts env d) of
          (Some n, Some parts) \<Rightarrow> Some ((field @ ''^'' @ n) # parts)
        | _ \<Rightarrow> None))"

definition join_field_boosts :: "search_env \<Rightarrow> obj \<Rightarrow> string option" where
  "join_field_boosts env d = map_option (\<lambda>parts. case parts of
       [] \<Rightarrow> [] | p # ps \<Rightarrow> p @ concat (map (\<lambda>q. CHR '' '' # q) ps)) (boost_parts env d)"

definition render_qf :: "search_env \<Rightarrow> pyval \<Rightarrow> (string \<times> pyval) option" where
  "render_qf env v = (case v of
       PDict d \<Rightarrow> map_option (\<lambda>s. (''qf'', PStr s)) (join_field_boosts env d) | _ \<Rightarrow> None)"

definition render_pf :: "search_env \<Rightarrow> pyval \<Rightarrow> (string \<times> pyval) option" where
  "render_pf env v = (case v of
       PDict d \<Rightarrow> map_option (\<lambda>s. (''pf'', PStr s)) (join_field_boosts env d) | _ \<Rightarrow> None)"

definition render_tie :: "search_env \<Rightarrow> pyval \<Rightarrow> (string \<times> pyval) option" where
  "render_tie env v = map_option (\<lambda>s. (''tie'', PStr s)) (format_number env v)"

definition render_mm :: "search_env \<Rightarrow> pyval \<Rightarrow> (string \<times> pyval) option" where
  "render_mm env v = (case v of
       PStr s \<Rightarrow> Some (''mm'', PStr s)
     | _ \<Rightarrow> map_option (\<lambda>s. (''mm'', PStr s)) (format_number env v))"

text \<open>\<open>str\<close> of an \<open>int\<close>, a \<open>bool\<close> among them.\<close>

definition str_of_int :: "pyval \<Rightarrow> string option" where
  "str_of_int v = (case v of
       PInt n \<Rightarrow> Some (int_str n) | PBool b \<Rightarrow> Some (if b then ''True'' else ''False'') | _ \<Rightarrow> None)"

definition render_ps :: "pyval \<Rightarrow> (string \<times> pyval) option" where
  "render_ps v = map_option (\<lambda>s. (''ps'', PStr s)) (str_of_int v)"

definition render_boost_fn :: "pyval \<Rightarrow> (string \<times> pyval) option" where
  "render_boost_fn v = (case v of
       PDict d \<Rightarrow> (case nonempty_str (obj_get d ''expr'') of
           None \<Rightarrow> None
         | Some expr \<Rightarrow>
           (if obj_get d ''combine'' = PStr ''add'' then Some (''bf'', PStr expr)
            else if obj_get d ''combine'' = PStr ''multiply'' then Some (''boost'', PStr expr)
            else None))
     | _ \<Rightarrow> None)"

definition render_rerank_model :: "pyval \<Rightarrow> (string \<times> pyval) option" where
  "render_rerank_model v = (case v of
       PDict d \<Rightarrow> (case (nonempty_str (obj_get d ''id''), int_of (obj_get d ''top_k''), str_of_int (obj_get d ''top_k'')) of
           (Some model_id, Some n, Some k) \<Rightarrow>
             if 0 < n then Some (''rq'', PStr (''{!ltr model='' @ model_id @ '' reRankDocs='' @ k @ ''}'')) else None
         | _ \<Rightarrow> None)
     | _ \<Rightarrow> None)"

definition PARAM_PIVOTS :: "(string, search_env \<Rightarrow> pyval \<Rightarrow> (string \<times> pyval) option) pydict" where
  "PARAM_PIVOTS =
     [(''field_boosts'', render_qf), (''phrase_field_boosts'', render_pf), (''tie_breaker'', render_tie),
      (''min_should_match'', render_mm), (''slop'', \<lambda>_. render_ps), (''boost_fn'', \<lambda>_. render_boost_fn),
      (''rerank_model'', \<lambda>_. render_rerank_model)]"

definition SOLR_NATIVE_PARAMS :: "string list" where
  "SOLR_NATIVE_PARAMS =
     [''defType'', ''q'', ''qf'', ''pf'', ''pf2'', ''pf3'', ''tie'', ''mm'', ''ps'', ''qs'', ''bf'', ''boost'', ''rq'', ''fl'',
      ''rows'', ''start'', ''sort'', ''fq'', ''debugQuery'', ''debug'', ''wt'']"

fun coerce_to_solr_param_value :: "search_env \<Rightarrow> pyval \<Rightarrow> pyval" where
  "coerce_to_solr_param_value env (PList vs) = PList (map (coerce_to_solr_param_value env) vs)"
| "coerce_to_solr_param_value env v = (case format_number env v of Some s \<Rightarrow> PStr s | None \<Rightarrow> v)"

text \<open>One rendered key: its pivot, or itself if Solr knows it.\<close>

definition pivot_entry :: "search_env \<Rightarrow> string \<Rightarrow> pyval \<Rightarrow> (string \<times> pyval) option" where
  "pivot_entry env key v = (case map_of PARAM_PIVOTS key of
       Some pivot \<Rightarrow> pivot env v
     | None \<Rightarrow> if key \<in> set SOLR_NATIVE_PARAMS then Some (key, coerce_to_solr_param_value env v) else None)"

fun pivot_loop :: "search_env \<Rightarrow> obj \<Rightarrow> obj \<Rightarrow> obj option" where
  "pivot_loop env [] out = Some out"
| "pivot_loop env ((key, v) # rendered) out = (case pivot_entry env key v of
       None \<Rightarrow> None
     | Some (solr_key, solr_value) \<Rightarrow> pivot_loop env rendered (dict_set solr_key solr_value out))"

definition pivot_to_solr_params :: "search_env \<Rightarrow> obj \<Rightarrow> obj option" where
  "pivot_to_solr_params env rendered = pivot_loop env rendered []"

text \<open>A text that opens a block of local parameters, and the escape of one that would.\<close>

definition opens_local_params :: "unicode \<Rightarrow> qtext \<Rightarrow> bool" where
  "opens_local_params u q = (take 2 (dropWhile (uc_space u) q) = [0x7B, 0x21])"

definition neutralize_leading_local_params :: "unicode \<Rightarrow> qtext \<Rightarrow> qtext" where
  "neutralize_leading_local_params u q =
     (let stripped = dropWhile (uc_space u) q; idx = length q - length stripped
      in if opens_local_params u q then take idx q @ [0x5C] @ drop idx q else q)"

text \<open>Whether \<open>_check_ltr_model_available\<close> raises.\<close>

definition ltr_model_missing :: "adapter \<Rightarrow> obj \<Rightarrow> bool" where
  "ltr_model_missing ad rerank = (case obj_get (ad_engine_config ad) ''ltr_models'' of
       PList available \<Rightarrow> available \<noteq> [] \<and>
         (case nonempty_str (obj_get rerank ''id'') of None \<Rightarrow> False | Some m \<Rightarrow> PStr m \<notin> set available)
     | _ \<Rightarrow> False)"

definition solr_render :: "search_env \<Rightarrow> adapter \<Rightarrow> query_template \<Rightarrow> obj \<Rightarrow> qtext \<Rightarrow> search_error + native_query" where
  "solr_render env ad template params query_text =
     (case render_template_to_dict env template params (neutralize_leading_local_params (se_unicode env) query_text) of
        Inl e \<Rightarrow> Inl e
      | Inr rendered \<Rightarrow>
        (if (case obj_get rendered ''rerank_model'' of PDict r \<Rightarrow> ltr_model_missing ad r | _ \<Rightarrow> False) then Inl LtrModelNotFound
         else (case pivot_to_solr_params env rendered of
             None \<Rightarrow> Inl InvalidQueryDSL
           | Some body \<Rightarrow> Inr \<lparr>nq_query_id = qt_name template, nq_body = body\<rparr>)))"

section \<open>The batch of Elasticsearch\<close>

text \<open>\<open>float\<close> of a value; \<open>None\<close> is the exception.\<close>

definition py_float :: "search_env \<Rightarrow> pyval \<Rightarrow> pyfloat option" where
  "py_float env v = (case v of
       PStr s \<Rightarrow> se_float env s
     | PInt n \<Rightarrow> (case rnd64 (of_int n) of Fin x \<Rightarrow> Some (Fin x) | _ \<Rightarrow> None)
     | _ \<Rightarrow> num_of v)"

text \<open>A source is a \<open>dict\<close> or absent, or the model of a hit refuses it.\<close>

definition source_ok :: "pyval \<Rightarrow> bool" where
  "source_ok v = (case v of PDict _ \<Rightarrow> True | PNone \<Rightarrow> True | _ \<Rightarrow> False)"

definition elastic_hit :: "search_env \<Rightarrow> pyval \<Rightarrow> scored_hit option" where
  "elastic_hit env h = (case h of
       PDict d \<Rightarrow>
         (case (obj_get d ''_id'', (if truthy (obj_get d ''_score'') then py_float env (obj_get d ''_score'') else Some (Fin 0))) of
            (PStr i, Some score) \<Rightarrow>
              if source_ok (obj_get d ''_source'')
              then Some \<lparr>sh_doc_id = i, sh_score = score, sh_source = obj_get d ''_source''\<rparr> else None
          | _ \<Rightarrow> None)
     | _ \<Rightarrow> None)"

fun all_some :: "'a option list \<Rightarrow> 'a list option" where
  "all_some [] = Some []"
| "all_some (None # _) = None"
| "all_some (Some x # xs) = map_option (Cons x) (all_some xs)"

definition PARSE_ERRORS :: "string list" where
  "PARSE_ERRORS = [''parsing_exception'', ''x_content_parse_exception'', ''json_parse_exception'']"

text \<open>The answer to one query of the batch.\<close>

definition elastic_item :: "search_env \<Rightarrow> bool \<Rightarrow> pyval \<Rightarrow> search_error + scored_hit list" where
  "elastic_item env strict_errors item = (case item of
       PDict d \<Rightarrow>
         (if ''error'' \<in> set (dict_keys d) then
            (if strict_errors then
               Inl (if (case obj_get d ''error'' of PDict e \<Rightarrow> (case obj_get e ''type'' of PStr t \<Rightarrow> t \<in> set PARSE_ERRORS | _ \<Rightarrow> False)
                        | _ \<Rightarrow> False) then InvalidQueryDSL else Unreached)
             else Inr [])
          else (case obj_get_default d ''hits'' (PDict []) of
              PDict found \<Rightarrow> (case obj_get_default found ''hits'' (PList []) of
                  PList hs \<Rightarrow> (case all_some (map (elastic_hit env) hs) of None \<Rightarrow> Inl SearchRaised | Some hits \<Rightarrow> Inr hits)
                | PDict [] \<Rightarrow> Inr []
                | PStr [] \<Rightarrow> Inr []
                | _ \<Rightarrow> Inl SearchRaised)
            | _ \<Rightarrow> Inl SearchRaised))
     | _ \<Rightarrow> Inl SearchRaised)"

text \<open>\<open>zip(queries, items, strict=True)\<close>\<close>

fun consume_items ::
  "('i \<Rightarrow> search_error + scored_hit list) \<Rightarrow> native_query list \<Rightarrow> 'i list \<Rightarrow> (string, scored_hit list) pydict
   \<Rightarrow> search_error + (string, scored_hit list) pydict" where
  "consume_items f [] [] out = Inr out"
| "consume_items f (q # qs) (item # items) out = (case f item of
       Inl e \<Rightarrow> Inl e
     | Inr hits \<Rightarrow> consume_items f qs items (dict_set (nq_query_id q) hits out))"
| "consume_items f _ _ out = Inl SearchRaised"

text \<open>\<open>body.setdefault("size", top_k)\<close>; the size of every line is the body's own or \<open>top_k\<close>.\<close>

definition msearch_lines :: "string \<Rightarrow> nat \<Rightarrow> native_query list \<Rightarrow> (string \<times> obj) list" where
  "msearch_lines target top_k queries = map (\<lambda>q. (target,
     if ''size'' \<in> set (dict_keys (nq_body q)) then nq_body q else dict_set ''size'' (PInt (int top_k)) (nq_body q))) queries"

definition elastic_search_batch ::
  "search_env \<Rightarrow> adapter \<Rightarrow> string \<Rightarrow> native_query list \<Rightarrow> nat \<Rightarrow> bool \<Rightarrow> search_error + (string, scored_hit list) pydict" where
  "elastic_search_batch env ad target queries top_k strict_errors =
     (if queries = [] then Inr []
      else (case request_with_retry ClusterUnreachableError False (se_msearch env ad (msearch_lines target top_k queries)) of
          Inl (RawReadTimeout _) \<Rightarrow> Inl (if strict_errors then QueryTimeout else Unreached)
        | Inl (RawConnectError _) \<Rightarrow> Inl Unreached
        | Inl (ClusterUnreachableError _) \<Rightarrow> Inl Unreached
        | Inl _ \<Rightarrow> Inl SearchRaised
        | Inr (status, body) \<Rightarrow>
          (if status \<in> {401, 403} \<or> 500 \<le> status then Inl Unreached
           else if status = 400 then Inl (if strict_errors then InvalidQueryDSL else Unreached)
           else if status < 200 \<or> 300 \<le> status then Inl SearchRaised
           else (case body of
               Some (PDict payload) \<Rightarrow> (case obj_get_default payload ''responses'' (PList []) of
                   PList items \<Rightarrow> consume_items (elastic_item env strict_errors) queries items []
                 | _ \<Rightarrow> Inl SearchRaised)
             | _ \<Rightarrow> Inl SearchRaised))))"

section \<open>The batch of Solr\<close>

fun is_scalar :: "pyval \<Rightarrow> bool" where
  "is_scalar (PStr _) = True"
| "is_scalar (PInt _) = True"
| "is_scalar (PFloat _) = True"
| "is_scalar (PBool _) = True"
| "is_scalar _ = False"

definition solr_param_ok :: "pyval \<Rightarrow> bool" where
  "solr_param_ok v = (is_scalar v \<or> (case v of PList vs \<Rightarrow> list_all is_scalar vs | _ \<Rightarrow> False))"

fun split_commas :: "string \<Rightarrow> string list" where
  "split_commas [] = [[]]"
| "split_commas (c # cs) =
     (if c = CHR '','' then [] # split_commas cs
      else (case split_commas cs of [] \<Rightarrow> [[c]] | p # ps \<Rightarrow> (c # p) # ps))"

definition join_commas :: "string list \<Rightarrow> string" where
  "join_commas ps = (case ps of [] \<Rightarrow> [] | p # qs \<Rightarrow> p @ concat (map (\<lambda>q. CHR '','' # q) qs))"

definition normalize_fl :: "search_env \<Rightarrow> pyval \<Rightarrow> string \<Rightarrow> string" where
  "normalize_fl env existing unique_key =
     (if existing = PNone \<or> existing = PStr [] then ''*,score''
      else (let raw = (case existing of
               PList xs \<Rightarrow> join_commas (map (str_of (se_cluster env)) xs)
             | PStr s \<Rightarrow> s
             | v \<Rightarrow> ke_str (se_cluster env) v);
             fields = filter (\<lambda>f. f \<noteq> []) (map py_strip (split_commas raw))
        in if ''*'' \<in> set fields then join_commas (if ''score'' \<in> set fields then fields else fields @ [''score''])
           else join_commas ((if ''score'' \<in> set fields then [] else [''score'']) @
                (if unique_key \<in> set fields then [] else [unique_key]) @ fields)))"

definition build_select_request :: "search_env \<Rightarrow> native_query \<Rightarrow> nat \<Rightarrow> string \<Rightarrow> obj option" where
  "build_select_request env query top_k unique_key =
     (let params = nq_body query
      in if \<not> list_all solr_param_ok (dict_values params) then None
         else (let with_rows = (if ''rows'' \<in> set (dict_keys params) then params else dict_set ''rows'' (PStr (nat_str top_k)) params)
           in Some (dict_set ''fl'' (PStr (normalize_fl env (obj_get with_rows ''fl'') unique_key)) with_rows)))"

text \<open>The names the probe has recorded are texts; \<open>None\<close> is a body that is no JSON object.\<close>

definition resolve_unique_key :: "search_env \<Rightarrow> adapter \<Rightarrow> string \<Rightarrow> string option" where
  "resolve_unique_key env ad target =
     (case (case obj_get (ad_engine_config ad) ''unique_key_per_target'' of PDict m \<Rightarrow> obj_get m target | _ \<Rightarrow> PNone) of
        PStr k \<Rightarrow> Some k
      | _ \<Rightarrow> map_option (\<lambda>found. case found of None \<Rightarrow> ''id'' | Some k \<Rightarrow> k) (fetch_unique_key (se_cluster env) ad target))"

text \<open>A document without its key or its score is skipped.\<close>

fun solr_hits :: "search_env \<Rightarrow> string \<Rightarrow> pyval list \<Rightarrow> scored_hit list option" where
  "solr_hits env unique_key [] = Some []"
| "solr_hits env unique_key (PDict doc # docs) =
     (if obj_get doc unique_key = PNone \<or> obj_get doc ''score'' = PNone then solr_hits env unique_key docs
      else (case (py_float env (obj_get doc ''score''), solr_hits env unique_key docs) of
          (Some score, Some hits) \<Rightarrow>
            Some (\<lparr>sh_doc_id = str_of (se_cluster env) (obj_get doc unique_key), sh_score = score, sh_source = PDict doc\<rparr> # hits)
        | _ \<Rightarrow> None))"
| "solr_hits env unique_key (_ # docs) = solr_hits env unique_key docs"

definition lenient :: "bool \<Rightarrow> search_error \<Rightarrow> search_error + scored_hit list" where
  "lenient strict_errors e = (if strict_errors then Inl e else Inr [])"

text \<open>\<open>_consume_search_result\<close>\<close>

definition consume_search_result ::
  "search_env \<Rightarrow> string \<Rightarrow> bool \<Rightarrow> engine_error + (int \<times> pyval option) \<Rightarrow> search_error + scored_hit list" where
  "consume_search_result env unique_key strict_errors result = (case result of
       Inl (QueryTimeoutError _) \<Rightarrow> lenient strict_errors QueryTimeout
     | Inl (RawReadTimeout _) \<Rightarrow> lenient strict_errors QueryTimeout
     | Inl _ \<Rightarrow> lenient strict_errors Unreached
     | Inr (status, body) \<Rightarrow>
       (if status = 404 then Inl TargetNotFound
        else if status = 400 then lenient strict_errors InvalidQueryDSL
        else if status \<noteq> 200 then lenient strict_errors Unreached
        else (case body of
            Some (PDict b) \<Rightarrow> (case block_of b ''response'' of
                None \<Rightarrow> Inl SearchRaised
              | Some response \<Rightarrow> (case obj_get response ''docs'' of
                  PList docs \<Rightarrow> (case solr_hits env unique_key docs of None \<Rightarrow> Inl SearchRaised | Some hits \<Rightarrow> Inr hits)
                | PDict _ \<Rightarrow> Inr []
                | PStr _ \<Rightarrow> Inr []
                | v \<Rightarrow> if truthy v then Inl SearchRaised else Inr []))
          | _ \<Rightarrow> Inl SearchRaised)))"

definition solr_search_batch ::
  "search_env \<Rightarrow> adapter \<Rightarrow> string \<Rightarrow> native_query list \<Rightarrow> nat \<Rightarrow> bool \<Rightarrow> search_error + (string, scored_hit list) pydict" where
  "solr_search_batch env ad target queries top_k strict_errors =
     (if queries = [] then Inr []
      else (case resolve_unique_key env ad target of
          None \<Rightarrow> Inl SearchRaised
        | Some unique_key \<Rightarrow> (case all_some (map (\<lambda>q. build_select_request env q top_k unique_key) queries) of
            None \<Rightarrow> Inl InvalidQueryDSL
          | Some urls_params \<Rightarrow>
              consume_items (consume_search_result env unique_key strict_errors) queries
                (map (\<lambda>params. request_with_retry QueryTimeoutError False (se_select env ad target params)) urls_params) [])))"

definition search_batch ::
  "search_env \<Rightarrow> adapter \<Rightarrow> string \<Rightarrow> native_query list \<Rightarrow> nat \<Rightarrow> bool \<Rightarrow> search_error + (string, scored_hit list) pydict" where
  "search_batch env ad = (if ad_engine_type ad = ''solr'' then solr_search_batch env ad else elastic_search_batch env ad)"

section \<open>The query of an operator\<close>

definition dispatch_run_query ::
  "search_env \<Rightarrow> adapter \<Rightarrow> string \<Rightarrow> obj \<Rightarrow> nat \<Rightarrow> search_error + scored_hit list" where
  "dispatch_run_query env ad target query_dsl top_k =
     (let query = \<lparr>nq_query_id = ''run_query'',
            nq_body = (if ad_engine_type ad = ''solr'' then query_dsl
              else [(''query'', PDict query_dsl), (''size'', PInt (int top_k))])\<rparr>
      in if se_late env then Inl QueryTimeout
         else (case search_batch env ad target [query] top_k True of
             Inl e \<Rightarrow> Inl e
           | Inr out \<Rightarrow> Inr (case map_of out ''run_query'' of None \<Rightarrow> [] | Some hits \<Rightarrow> hits)))"

fun run_query_code :: "search_error \<Rightarrow> nat \<times> string" where
  "run_query_code LtrModelNotFound = (400, ''LTR_MODEL_NOT_FOUND'')"
| "run_query_code InvalidQueryDSL = (400, ''INVALID_QUERY_DSL'')"
| "run_query_code QueryTimeout = (504, ''QUERY_TIMEOUT'')"
| "run_query_code Unreached = (503, ''CLUSTER_UNREACHABLE'')"
| "run_query_code _ = (500, ''INTERNAL_ERROR'')"

definition run_query ::
  "search_env \<Rightarrow> cluster_rec list \<Rightarrow> string \<Rightarrow> string \<Rightarrow> obj \<Rightarrow> nat \<Rightarrow> (nat \<times> string) + scored_hit list" where
  "run_query env rows cluster_id target query_dsl top_k = (case get_cluster rows cluster_id of
       None \<Rightarrow> Inl (404, ''CLUSTER_NOT_FOUND'')
     | Some c \<Rightarrow> (case cluster_adapter (se_cluster env) c of
         Inl ClusterUnreachable \<Rightarrow> Inl (503, ''CLUSTER_UNREACHABLE'')
       | Inl _ \<Rightarrow> Inl (500, ''INTERNAL_ERROR'')
       | Inr ad \<Rightarrow> map_sum run_query_code (\<lambda>hits. hits) (dispatch_run_query env ad target query_dsl top_k)))"

section \<open>A batch is its queries\<close>

lemma consume_items_iff:
  "consume_items f qs items out = Inr out' \<longleftrightarrow> length items = length qs \<and>
     (\<exists>answers. map f items = map Inr answers \<and> out' = fold (\<lambda>(q, hits). dict_set (nq_query_id q) hits) (zip qs answers) out)"
proof (induction f qs items out rule: consume_items.induct)
  case (2 f q qs item items out)
  show ?case
  proof (cases "f item")
    case (Inr hits)
    have "(\<exists>answers. f item # map f items = map Inr answers \<and> P answers) \<longleftrightarrow>
        (\<exists>as. map f items = map Inr as \<and> P (hits # as))" for P
      unfolding Inr by (auto simp: Cons_eq_map_conv)
    then show ?thesis using 2 [OF Inr] Inr by simp
  qed (simp add: Cons_eq_map_conv)
qed auto

lemma fold_fresh:
  "distinct (map fst kvs) \<Longrightarrow> fst ` set kvs \<inter> fst ` set d = {} \<Longrightarrow> fold (\<lambda>(k, v). dict_set k v) kvs d = d @ kvs"
proof (induction kvs arbitrary: d)
  case (Cons kv kvs)
  obtain k v where kv: "kv = (k, v)" by (cases kv)
  have "dict_set k v d = d @ [(k, v)]" if "k \<notin> fst ` set d" for d :: "('a, 'b) pydict" using that by (induction d) auto
  then have "dict_set k v d = d @ [(k, v)]" using Cons.prems kv by auto
  then show ?case using Cons kv by auto
qed simp

lemma consume_items_zip:
  assumes "distinct (map nq_query_id qs)"
  shows "consume_items f qs items [] = Inr out \<longleftrightarrow>
    length items = length qs \<and> (\<exists>answers. map f items = map Inr answers \<and> out = zip (map nq_query_id qs) answers)"
proof -
  have "fold (\<lambda>(q, hits). dict_set (nq_query_id q) hits) (zip qs answers) [] = zip (map nq_query_id qs) answers"
    if "length answers = length qs" for answers :: "scored_hit list list"
  proof -
    have "fold (\<lambda>(q, hits). dict_set (nq_query_id q) hits) (zip qs answers) d =
        fold (\<lambda>(k, hits). dict_set k hits) (zip (map nq_query_id qs) answers) d" for d
      using that by (induction qs answers arbitrary: d rule: list_induct2') auto
    moreover have "map fst (zip (map nq_query_id qs) answers) = map nq_query_id qs" using that by simp
    ultimately show ?thesis using assms fold_fresh [of "zip (map nq_query_id qs) answers" "[]"] by simp
  qed
  moreover have "length answers = length qs" if "length items = length qs" "map f items = map Inr answers" for answers
    using that by (metis length_map)
  ultimately show ?thesis unfolding consume_items_iff by fastforce
qed

lemma all_some_iff: "all_some xs = Some ys \<longleftrightarrow> xs = map Some ys"
  by (induction xs arbitrary: ys rule: all_some.induct) (auto simp: map_eq_Cons_conv Cons_eq_map_conv)

lemma batch_answers:
  assumes "search_batch env ad target queries top_k strict = Inr out" and "distinct (map nq_query_id queries)"
  shows "\<exists>answers. length answers = length queries \<and> out = zip (map nq_query_id queries) answers"
proof (cases "queries = []")
  case True
  then show ?thesis using assms by (auto simp: search_batch_def solr_search_batch_def elastic_search_batch_def split: if_splits)
next
  case False
  have answers: "\<exists>answers. length answers = length queries \<and> out = zip (map nq_query_id queries) answers"
    if "consume_items f queries items [] = Inr out" for f and items :: "'i list"
    using that unfolding consume_items_zip [OF assms(2)] by (metis length_map)
  show ?thesis
  proof (cases "ad_engine_type ad = ''solr''")
    case True
    then show ?thesis using assms(1) False
      by (auto simp: search_batch_def solr_search_batch_def intro: answers split: option.splits)
  next
    case no_solr: False
    have "elastic_search_batch env ad target queries top_k strict = Inr out" using no_solr assms(1) by (simp add: search_batch_def)
    then obtain items where "consume_items (elastic_item env strict) queries items [] = Inr out"
      using False by (auto simp: elastic_search_batch_def
        split: if_splits option.splits sum.splits prod.splits engine_error.splits pyval.splits)
    then show ?thesis by (rule answers)
  qed
qed

lemma solr_answers:
  assumes "solr_search_batch env ad target queries top_k strict = Inr out" and "distinct (map nq_query_id queries)" and "q \<in> set queries"
  shows "\<exists>hits. (nq_query_id q, hits) \<in> set out \<and> solr_search_batch env ad target [q] top_k strict = Inr [(nq_query_id q, hits)]"
proof -
  obtain unique_key reqs where k: "resolve_unique_key env ad target = Some unique_key"
    and reqs: "map (\<lambda>q. build_select_request env q top_k unique_key) queries = map Some reqs"
    and run: "consume_items (consume_search_result env unique_key strict) queries
      (map (\<lambda>params. request_with_retry QueryTimeoutError False (se_select env ad target params)) reqs) [] = Inr out"
    using assms(1,3) by (auto simp: solr_search_batch_def all_some_iff split: if_splits option.splits)
  let ?f = "\<lambda>params. consume_search_result env unique_key strict (request_with_retry QueryTimeoutError False (se_select env ad target params))"
  obtain answers where answers: "map ?f reqs = map Inr answers" "out = zip (map nq_query_id queries) answers"
    using run unfolding consume_items_zip [OF assms(2)] by (auto simp: comp_def)
  obtain n where n: "n < length queries" "q = queries ! n" using assms(3) by (metis in_set_conv_nth)
  have len: "length reqs = length queries" "length answers = length queries"
    using reqs answers(1) by (metis length_map)+
  have req: "build_select_request env q top_k unique_key = Some (reqs ! n)" "?f (reqs ! n) = Inr (answers ! n)"
    using arg_cong [OF reqs, of "\<lambda>xs. xs ! n"] arg_cong [OF answers(1), of "\<lambda>xs. xs ! n"] n len by simp_all
  have "(nq_query_id q, answers ! n) \<in> set out" using n len answers(2) by (auto simp: set_zip intro!: exI [of _ n])
  moreover have "solr_search_batch env ad target [q] top_k strict = Inr [(nq_query_id q, answers ! n)]"
    using k req by (simp add: solr_search_batch_def)
  ultimately show ?thesis by (intro exI conjI)
qed

text \<open>A parameter Solr cannot take ends the batch, also where failures of single queries are tolerated.\<close>

lemma lenient_batch_raises:
  assumes "q \<in> set queries" and "\<not> list_all solr_param_ok (dict_values (nq_body q))" and "resolve_unique_key env ad target \<noteq> None"
  shows "solr_search_batch env ad target queries top_k False = Inl InvalidQueryDSL"
proof -
  obtain unique_key where k: "resolve_unique_key env ad target = Some unique_key" using assms(3) by blast
  let ?reqs = "map (\<lambda>q. build_select_request env q top_k unique_key) queries"
  have "build_select_request env q top_k unique_key = None" using assms(2) by (simp add: build_select_request_def Let_def)
  then have "None \<in> set ?reqs" using assms(1) by (metis image_eqI set_map)
  moreover have "?reqs \<noteq> map Some ys" if "None \<in> set ?reqs" for ys using that by (metis ex_map_conv option.distinct(1))
  ultimately have "all_some ?reqs = None" using all_some_iff [of ?reqs] by (metis not_None_eq)
  then show ?thesis using k assms(1) by (auto simp: solr_search_batch_def)
qed

section \<open>Query text opens no local parameters\<close>

text \<open>
  What is relied on of \<open>str\<close>: its white space within ASCII, and that \<open>lower\<close> goes character by
  character, in ASCII by the table, elsewhere to letters or to what is not ASCII, and leaves white space.
\<close>

definition plain_lower :: "nat \<Rightarrow> nat" where
  "plain_lower c = (if 65 \<le> c \<and> c \<le> 90 then c + 32 else c)"

definition lower_image :: "unicode \<Rightarrow> nat \<Rightarrow> qtext \<Rightarrow> bool" where
  "lower_image u c b =
     (if c < 128 then b = [plain_lower c]
      else if uc_space u c then b = [c]
      else b \<noteq> [] \<and> (\<forall>x\<in>set b. \<not> uc_space u x \<and> (128 \<le> x \<or> 97 \<le> x \<and> x \<le> 122)))"

definition unicode_ok :: "unicode \<Rightarrow> bool" where
  "unicode_ok u = ((\<forall>c<128. uc_space u c \<longleftrightarrow> 9 \<le> c \<and> c \<le> 13 \<or> 28 \<le> c \<and> c \<le> 32) \<and> \<not> uc_space u SMART_APOSTROPHE \<and>
     (\<forall>t. \<exists>bs. list_all2 (lower_image u) t bs \<and> uc_lower u t = concat bs))"

lemma ascii_spaces: "unicode_ok u \<Longrightarrow> c < 128 \<Longrightarrow> uc_space u c \<longleftrightarrow> 9 \<le> c \<and> c \<le> 13 \<or> 28 \<le> c \<and> c \<le> 32"
  by (simp add: unicode_ok_def)

lemma opens_Nil [simp]: "\<not> opens_local_params u []"
  by (simp add: opens_local_params_def)

lemma opens_Cons: "opens_local_params u (c # t) \<longleftrightarrow>
    (if uc_space u c then opens_local_params u t else c = 0x7B \<and> t \<noteq> [] \<and> hd t = 0x21)"
  by (cases t) (auto simp: opens_local_params_def)

lemma neutralized_opens_none:
  assumes "unicode_ok u"
  shows "\<not> opens_local_params u (neutralize_leading_local_params u q)"
proof (cases "opens_local_params u q")
  case True
  let ?ws = "takeWhile (uc_space u) q" and ?rest = "dropWhile (uc_space u) q"
  have "length q - length ?rest = length ?ws" by (metis add_diff_cancel_right' length_append takeWhile_dropWhile_id)
  then have "neutralize_leading_local_params u q = ?ws @ [0x5C] @ ?rest"
    using True by (simp add: neutralize_leading_local_params_def Let_def takeWhile_eq_take [symmetric] dropWhile_eq_drop [symmetric])
  moreover have "\<not> opens_local_params u (ws @ [0x5C] @ t)" if "\<forall>c\<in>set ws. uc_space u c" for ws t
    using that ascii_spaces [OF assms, of "0x5C"] by (induction ws) (auto simp: opens_Cons)
  ultimately show ?thesis by (auto dest: set_takeWhileD)
qed (simp add: neutralize_leading_local_params_def Let_def)

lemma lower_head:
  assumes "lower_image u c b" and "x \<in> set b" and "x < 97"
  shows "b = [plain_lower c] \<and> x = plain_lower c \<or> b = [c] \<and> 128 \<le> c"
  using assms by (auto simp: lower_image_def split: if_splits)

lemma lower_opens:
  assumes u: "unicode_ok u" and "list_all2 (lower_image u) t bs" and "opens_local_params u (concat bs)"
  shows "opens_local_params u t"
  using assms(2,3)
proof (induction t bs rule: list_all2_induct)
  case (Cons c t b bs)
  consider "c < 128" "b = [plain_lower c]" | "128 \<le> c" "uc_space u c" "b = [c]"
    | "128 \<le> c" "b \<noteq> []" "\<not> uc_space u (hd b)" "hd b \<noteq> 0x7B"
    using Cons.hyps(1) by (cases b) (auto simp: lower_image_def split: if_splits)
  then show ?case
  proof cases
    case 1
    have sp: "uc_space u (plain_lower c) \<longleftrightarrow> uc_space u c" using 1(1) ascii_spaces [OF u, of c] ascii_spaces [OF u, of "plain_lower c"]
      by (auto simp: plain_lower_def)
    have "plain_lower c = 0x7B \<longleftrightarrow> c = 0x7B" by (auto simp: plain_lower_def)
    moreover have "t \<noteq> [] \<and> hd t = 0x21" if "concat bs \<noteq> []" "hd (concat bs) = 0x21"
    proof (cases bs)
      case (Cons b' bs')
      then obtain d t' where d: "t = d # t'" "lower_image u d b'" using \<open>list_all2 (lower_image u) t bs\<close> by (auto simp: list_all2_Cons2)
      then have "b' \<noteq> []" by (auto simp: lower_image_def split: if_splits)
      then have "hd b' = 0x21" using Cons that by simp
      then have "d = 0x21" using d(2) \<open>b' \<noteq> []\<close> by (cases b') (auto simp: lower_image_def plain_lower_def split: if_splits)
      then show ?thesis using d by simp
    qed (use that in simp)
    ultimately show ?thesis using Cons.prems Cons.IH sp 1 by (auto simp: opens_Cons split: if_splits)
  next
    case 2
    then show ?thesis using Cons.prems Cons.IH by (simp add: opens_Cons)
  next
    case 3
    then have False using Cons.prems by (cases b) (auto simp: opens_Cons)
    then show ?thesis ..
  qed
qed simp

lemma apostrophe_opens:
  assumes u: "unicode_ok u" and "opens_local_params u (map (\<lambda>c. if c = SMART_APOSTROPHE then 0x27 else c) t)"
  shows "opens_local_params u t"
  using assms(2)
proof (induction t)
  case (Cons c t)
  let ?f = "\<lambda>c. if c = SMART_APOSTROPHE then 0x27 else c"
  have sp: "\<not> uc_space u 0x27" "\<not> uc_space u SMART_APOSTROPHE"
    using u ascii_spaces [OF u, of "0x27"] by (simp_all add: unicode_ok_def)
  have spf: "uc_space u (?f c) = uc_space u c" using sp by simp
  have eqs: "?f d = 0x7B \<longleftrightarrow> d = 0x7B" "?f d = 0x21 \<longleftrightarrow> d = 0x21" for d by (simp_all add: SMART_APOSTROPHE_def)
  have opened: "opens_local_params u (?f c # map ?f t)" using Cons.prems by simp
  show ?case
  proof (cases "uc_space u c")
    case True
    then have "opens_local_params u (map ?f t)" using opened spf unfolding opens_Cons by metis
    then show ?thesis using True Cons.IH unfolding opens_Cons by metis
  next
    case False
    then have "?f c = 0x7B" "map ?f t \<noteq> []" "hd (map ?f t) = 0x21" using opened spf unfolding opens_Cons by metis+
    moreover from this have "hd (map ?f t) = ?f (hd t)" by (simp add: hd_map)
    ultimately show ?thesis using False eqs unfolding opens_Cons by (metis map_is_Nil_conv)
  qed
qed simp

lemma contraction_heads: "(k, v) \<in> set CONTRACTION_KEYS \<Longrightarrow> v \<noteq> [] \<and> 97 \<le> hd v \<and> hd v \<le> 122"
proof -
  have "list_all (\<lambda>(k, v). v \<noteq> [] \<and> 97 \<le> hd v \<and> hd v \<le> 122) (map (\<lambda>(k, v). (codes k, codes v)) CONTRACTIONS_RAW)" by code_simp
  then show "(k, v) \<in> set CONTRACTION_KEYS \<Longrightarrow> v \<noteq> [] \<and> 97 \<le> hd v \<and> hd v \<le> 122"
    by (auto simp: CONTRACTION_KEYS_def list_all_iff)
qed

lemma match_heads: "match_here u prev t = Some (k, v) \<Longrightarrow> v \<noteq> [] \<and> 97 \<le> hd v \<and> hd v \<le> 122"
  by (auto simp: match_here_def dest!: find_Some_in contraction_heads split: if_splits)

lemma expand_hd:
  assumes "expand_from u prev t \<noteq> []" and "hd (expand_from u prev t) < 97"
  shows "t \<noteq> [] \<and> hd t = hd (expand_from u prev t)"
  using assms by (cases t) (auto split: option.splits dest: match_heads)

lemma expand_opens:
  "unicode_ok u \<Longrightarrow> opens_local_params u (expand_from u prev t) \<Longrightarrow> opens_local_params u t"
proof (induction u prev t rule: expand_from.induct)
  case (2 u prev c cs)
  show ?case
  proof (cases "match_here u prev (c # cs)")
    case None
    then have "opens_local_params u (c # expand_from u (Some c) cs)" using 2(4) by simp
    then show ?thesis using 2(1) [OF None 2(3)] expand_hd [of u "Some c" cs] by (auto simp: opens_Cons split: if_splits)
  next
    case (Some kv)
    obtain k v where kv: "kv = (k, v)" by (cases kv)
    have v: "v \<noteq> []" "97 \<le> hd v" "hd v \<le> 122" using match_heads Some kv by blast+
    then have "\<not> uc_space u (hd v)" using ascii_spaces [OF 2(3), of "hd v"] by auto
    then have "\<not> opens_local_params u (v @ t')" for t' using v by (cases v) (auto simp: opens_Cons)
    then show ?thesis using 2(4) Some kv by simp
  qed
qed simp

lemma collapse_run_hd:
  assumes "unicode_ok u" and "t \<noteq> []"
  shows "collapse u t \<noteq> [] \<and> (if uc_space u (hd t) then hd (collapse u t) = 32 else hd (collapse u t) = hd t)"
  using assms(2)
proof (induction u t rule: collapse.induct)
  case (2 u c cs)
  then show ?case by (cases cs) auto
qed simp

lemma collapse_opens:
  assumes u: "unicode_ok u"
  shows "opens_local_params u (collapse u t) \<Longrightarrow> opens_local_params u t"
proof (induction t)
  case (Cons c cs)
  have sp: "uc_space u 32" "\<not> uc_space u 0x21" using ascii_spaces [OF u, of 32] ascii_spaces [OF u, of "0x21"] by simp_all
  show ?case
  proof (cases "uc_space u c")
    case True
    then have "opens_local_params u (collapse u cs)" using Cons.prems sp by (cases cs) (auto simp: opens_Cons split: if_splits)
    then show ?thesis using True Cons.IH by (simp add: opens_Cons)
  next
    case False
    then have "c = 0x7B" "collapse u cs \<noteq> []" "hd (collapse u cs) = 0x21" using Cons.prems by (auto simp: opens_Cons)
    moreover from this have "cs \<noteq> []" by auto
    ultimately show ?thesis using False collapse_run_hd [OF u, of cs] sp by (auto simp: opens_Cons split: if_splits)
  qed
qed simp

lemma strip_opens: "opens_local_params u (strip u t) \<Longrightarrow> opens_local_params u t"
proof -
  let ?d = "dropWhile (uc_space u) t"
  obtain r where pre: "?d = strip u t @ r"
    unfolding strip_def by (metis rev_append rev_rev_ident takeWhile_dropWhile_id)
  assume o: "opens_local_params u (strip u t)"
  then have "strip u t \<noteq> []" by auto
  then have hd: "hd (strip u t) = hd ?d" "?d \<noteq> []" using pre by (metis hd_append2, metis append_is_Nil_conv)
  then have "\<not> uc_space u (hd (strip u t))" using hd_dropWhile [of "uc_space u" t] by simp
  then have "take 2 (strip u t) = [0x7B, 0x21]" using o \<open>strip u t \<noteq> []\<close> unfolding opens_local_params_def
    by (cases "strip u t") auto
  then have "take 2 (strip u t @ r) = [0x7B, 0x21]" for r by (cases "strip u t"; cases "List.tl (strip u t)") auto
  then show ?thesis by (simp add: opens_local_params_def pre)
qed

lemma punctuation_opens: "opens_local_params u (filter (\<lambda>c. c \<notin> set PUNCTUATION_TO_STRIP) t) \<Longrightarrow> opens_local_params u t"
proof -
  have "0x7B \<in> set PUNCTUATION_TO_STRIP" by (simp add: PUNCTUATION_TO_STRIP_def)
  moreover have "0x7B \<in> set t'" if "opens_local_params u t'" for t'
    using that by (auto simp: opens_local_params_def dest!: arg_cong [of _ _ set] dest: in_set_takeD [THEN set_dropWhileD])
  ultimately show "opens_local_params u (filter (\<lambda>c. c \<notin> set PUNCTUATION_TO_STRIP) t) \<Longrightarrow> opens_local_params u t" by force
qed

lemma step_opens:
  assumes u: "unicode_ok u" and o: "opens_local_params u (apply_step u t step)"
  shows "opens_local_params u t"
proof (cases step)
  case lowercase
  obtain bs where "list_all2 (lower_image u) t bs" "uc_lower u t = concat bs" using u by (auto simp: unicode_ok_def)
  then show ?thesis using lower_opens [OF u] o lowercase by simp
next
  case trim
  then show ?thesis using o strip_opens by simp
next
  case collapse_whitespace
  then show ?thesis using o collapse_opens [OF u] by simp
next
  case strip_punctuation
  then show ?thesis using o punctuation_opens by simp
next
  case expand_contractions_en
  then show ?thesis using o apostrophe_opens [OF u expand_opens [OF u]] by simp
next
  case expand_contractions_custom
  then show ?thesis using o by simp
qed

lemma pipeline_opens: "unicode_ok u \<Longrightarrow> opens_local_params u (normalize_pipeline u t steps) \<Longrightarrow> opens_local_params u t"
proof -
  assume u: "unicode_ok u"
  have "opens_local_params u (fold (\<lambda>step r. if step \<in> set steps then apply_step u r step else r) ss t) \<Longrightarrow> opens_local_params u t" for ss t
    by (induction ss arbitrary: t) (auto dest: step_opens [OF u] split: if_splits)
  then show "opens_local_params u (normalize_pipeline u t steps) \<Longrightarrow> opens_local_params u t"
    unfolding normalize_pipeline_def by blast
qed

section \<open>What Solr is sent\<close>

text \<open>A renderer that refuses texts which open a block.\<close>

definition guarded :: "search_env \<Rightarrow> search_env" where
  "guarded env = env\<lparr>se_jinja := \<lambda>body context t.
     if opens_local_params (se_unicode env) t then Inl SearchRaised else se_jinja env body context t\<rparr>"

lemma guarded_fields [simp]:
  "se_unicode (guarded env) = se_unicode env" "se_repr (guarded env) = se_repr env"
  "se_cluster (guarded env) = se_cluster env" "se_float (guarded env) = se_float env"
  by (simp_all add: guarded_def)

lemma guarded_rendering:
  assumes "unicode_ok (se_unicode env)" and "\<not> opens_local_params (se_unicode env) t"
  shows "render_template_to_dict (guarded env) template params t = render_template_to_dict env template params t"
  using assms pipeline_opens
  by (auto simp: render_template_to_dict_def render_template_def guarded_def Let_def split: pyval.splits option.splits)

lemma guarded_pivot: "pivot_to_solr_params (guarded env) rendered = pivot_to_solr_params env rendered"
proof -
  have n: "format_number (guarded env) v = format_number env v" for env v by (simp add: format_number_def split: pyval.splits)
  have "boost_parts (guarded env) d = boost_parts env d" for d by (induction d) (auto simp: n)
  then have j: "join_field_boosts (guarded env) d = join_field_boosts env d" for d by (simp add: join_field_boosts_def)
  have c: "coerce_to_solr_param_value (guarded env) v = coerce_to_solr_param_value env v" for v
    by (induction v rule: coerce_to_solr_param_value.induct) (auto simp: n)
  have "pivot_entry (guarded env) key v = pivot_entry env key v" for key v
    by (auto simp: pivot_entry_def PARAM_PIVOTS_def render_qf_def render_pf_def render_tie_def render_mm_def n j c split: pyval.splits)
  then have "pivot_loop (guarded env) r out = pivot_loop env r out" for r out by (induction r arbitrary: out) (auto split: option.splits)
  then show ?thesis by (simp add: pivot_to_solr_params_def)
qed

lemma pivot_targets: "pivot_entry env key v = Some (k, w) \<Longrightarrow> k \<in> set SOLR_NATIVE_PARAMS"
  by (auto simp: pivot_entry_def PARAM_PIVOTS_def render_qf_def render_pf_def render_tie_def render_mm_def render_ps_def
      render_boost_fn_def render_rerank_model_def SOLR_NATIVE_PARAMS_def split: pyval.splits option.splits prod.splits if_splits)

lemma pivot_keys:
  "pivot_loop env rendered out = Some body \<Longrightarrow> dict_ok out \<Longrightarrow> set (dict_keys out) \<subseteq> set SOLR_NATIVE_PARAMS \<Longrightarrow>
   dict_ok body \<and> set (dict_keys body) \<subseteq> set SOLR_NATIVE_PARAMS"
proof (induction env rendered out rule: pivot_loop.induct)
  case (2 env key v rendered out)
  obtain k w where e: "pivot_entry env key v = Some (k, w)" using 2(2) by (auto split: option.splits)
  have "set (dict_keys (dict_set k w out)) \<subseteq> set SOLR_NATIVE_PARAMS" using 2(4) pivot_targets [OF e] by (simp add: dict_keys_def)
  then show ?case using 2 e by simp
qed simp

section \<open>Instances\<close>

definition demo_unicode :: unicode where
  "demo_unicode = \<lparr>uc_lower = map plain_lower, uc_space = (\<lambda>c. 9 \<le> c \<and> c \<le> 13 \<or> 28 \<le> c \<and> c \<le> 32),
     uc_word = (\<lambda>c. 97 \<le> c \<and> c \<le> 122)\<rparr>"

lemma demo_unicode_ok: "unicode_ok demo_unicode"
proof -
  have "list_all2 (lower_image demo_unicode) t (map (\<lambda>c. [plain_lower c]) t)" for t
    by (induction t) (auto simp: lower_image_def demo_unicode_def plain_lower_def)
  moreover have "uc_lower demo_unicode t = concat (map (\<lambda>c. [plain_lower c]) t)" for t
    by (simp add: demo_unicode_def)
  ultimately have "\<exists>bs. list_all2 (lower_image demo_unicode) t bs \<and> uc_lower demo_unicode t = concat bs" for t by blast
  moreover have "(uc_space demo_unicode c \<longleftrightarrow> 9 \<le> c \<and> c \<le> 13 \<or> 28 \<le> c \<and> c \<le> 32) \<and> \<not> uc_space demo_unicode SMART_APOSTROPHE" for c
    by (simp add: demo_unicode_def SMART_APOSTROPHE_def)
  ultimately show ?thesis unfolding unicode_ok_def by blast
qed

text \<open>A template that passes the text on as \<open>q\<close>, with a boost, rendered for the text \<open>{!func}\<close>.\<close>

definition demo_search_env :: search_env where
  "demo_search_env =
     \<lparr>se_cluster = demo_cluster_env, se_unicode = demo_unicode,
      se_jinja = (\<lambda>_ _ t. Inr (PDict [(''q'', PStr (map char_of t)), (''field_boosts'', PDict [(''title'', PInt 3)])])),
      se_repr = (\<lambda>_. ''0.5''), se_float = (\<lambda>_. None), se_msearch = (\<lambda>_ _ _. ConnectFailed []),
      se_select = (\<lambda>_ _ params _. EngineResponse 200 (Some (PDict [(''response'', PDict [(''docs'',
         PList [PDict [(''id'', PStr ''d1''), (''score'', PFloat (Fin 1))]])])]))),
      se_late = False\<rparr>"

definition demo_template :: query_template where
  "demo_template = \<lparr>qt_name = ''t'', qt_body = [], qt_declared_params = []\<rparr>"

definition demo_solr_adapter :: adapter where
  "demo_solr_adapter = \<lparr>ad_engine_type = ''solr'', ad_base_url = ''dns'', ad_auth_headers = [],
     ad_engine_config = [(''unique_key_per_target'', PDict [(''products'', PStr ''id'')])]\<rparr>"

lemma demo_rendered:
  "solr_render demo_search_env demo_solr_adapter demo_template [] (codes ''{!func}'') =
     Inr \<lparr>nq_query_id = ''t'', nq_body = [(''q'', PStr ([CHR 0x5C] @ ''{!func}'')), (''qf'', PStr ''title^3'')]\<rparr>"
proof -
  have t: "neutralize_leading_local_params (se_unicode demo_search_env) (codes ''{!func}'') = 0x5C # codes ''{!func}''"
    by (simp add: neutralize_leading_local_params_def opens_local_params_def demo_search_env_def demo_unicode_def codes_def)
  have n: "normalize_pipeline u q [] = q" for u q by (simp add: normalize_pipeline_def STEP_ORDER_def)
  have i: "int_str 3 = ''3''" by code_simp
  have c: "map char_of (codes s) = s" for s by (simp add: codes_def comp_def)
  have e: "char_of (92 :: nat) = CHR 0x5C" by code_simp
  show ?thesis unfolding solr_render_def t
    by (simp add: render_template_to_dict_def render_template_def demo_search_env_def demo_template_def obj_get_default_def
        DEFAULT_NORMALIZER_def steps_for_label_def n dict_pop_def obj_get_def pivot_to_solr_params_def pivot_entry_def
        PARAM_PIVOTS_def SOLR_NATIVE_PARAMS_def render_qf_def join_field_boosts_def format_number_def i c e dict_keys_def)
qed

lemma demo_hits:
  "solr_search_batch demo_search_env demo_solr_adapter ''products'' [\<lparr>nq_query_id = ''a'', nq_body = [(''q'', PStr ''x'')]\<rparr>,
     \<lparr>nq_query_id = ''b'', nq_body = [(''q'', PStr ''y'')]\<rparr>] 10 True =
   Inr [(''a'', [\<lparr>sh_doc_id = ''d1'', sh_score = Fin 1, sh_source = PDict [(''id'', PStr ''d1''), (''score'', PFloat (Fin 1))]\<rparr>]),
        (''b'', [\<lparr>sh_doc_id = ''d1'', sh_score = Fin 1, sh_source = PDict [(''id'', PStr ''d1''), (''score'', PFloat (Fin 1))]\<rparr>])]"
proof -
  have k: "resolve_unique_key demo_search_env demo_solr_adapter ''products'' = Some ''id''"
    by (simp add: resolve_unique_key_def demo_solr_adapter_def obj_get_def)
  have r: "se_select demo_search_env ad t p n = EngineResponse 200 (Some (PDict [(''response'', PDict [(''docs'',
         PList [PDict [(''id'', PStr ''d1''), (''score'', PFloat (Fin 1))]])])]))" for ad t p n
    by (simp add: demo_search_env_def)
  show ?thesis
    by (simp add: solr_search_batch_def k build_select_request_def dict_values_def solr_param_ok_def dict_keys_def
        request_with_retry_def r consume_search_result_def block_of_def obj_get_def py_float_def str_of_def)
qed

section \<open>Properties\<close>

text \<open>C32 Whatever an end user types, and whichever normalizer is chosen, the text a template of Solr is
  rendered with opens no block of local parameters, although the escape comes before the normalizer:
  rendering never needs a text that does. And the request has only parameters Solr knows, each once.\<close>

theorem solr_query_text_inert:
  assumes "unicode_ok (se_unicode env)"
  shows "solr_render env ad template params query_text = solr_render (guarded env) ad template params query_text \<and>
    (\<forall>nq. solr_render env ad template params query_text = Inr nq \<longrightarrow>
       dict_ok (nq_body nq) \<and> set (dict_keys (nq_body nq)) \<subseteq> set SOLR_NATIVE_PARAMS)"
proof (intro conjI allI impI)
  show "solr_render env ad template params query_text = solr_render (guarded env) ad template params query_text"
    unfolding solr_render_def guarded_pivot guarded_fields guarded_rendering [OF assms neutralized_opens_none [OF assms]] ..
  fix nq
  assume "solr_render env ad template params query_text = Inr nq"
  then obtain rendered where "pivot_loop env rendered [] = Some (nq_body nq)"
    by (auto simp: solr_render_def pivot_to_solr_params_def split: sum.splits option.splits if_splits)
  then show "dict_ok (nq_body nq)" "set (dict_keys (nq_body nq)) \<subseteq> set SOLR_NATIVE_PARAMS"
    using pivot_keys [of env rendered "[]"] by (simp_all add: dict_ok_def dict_keys_def)
qed

text \<open>A text that would choose another parser arrives escaped, beside the boosts of its template.\<close>

theorem solr_query_text_inert_witness:
  "dict_ok [(''q'', PStr ([CHR 0x5C] @ ''{!func}'')), (''qf'', PStr ''title^3'')] \<and>
   set (dict_keys [(''q'', PStr ([CHR 0x5C] @ ''{!func}'')), (''qf'', PStr ''title^3'')]) \<subseteq> set SOLR_NATIVE_PARAMS"
proof -
  have u: "unicode_ok (se_unicode demo_search_env)" using demo_unicode_ok by (simp add: demo_search_env_def)
  show ?thesis using solr_query_text_inert [OF u, of demo_solr_adapter demo_template "[]" "codes ''{!func}''"] demo_rendered by simp
qed

text \<open>C27 A batch that returns has exactly one answer for every query, in the order of the queries; on Solr
  each answer is the one the query gets when it is asked alone, whatever its neighbours are.\<close>

theorem batch_answers_every_query:
  assumes "search_batch env ad target queries top_k strict = Inr out" and "distinct (map nq_query_id queries)"
  shows "map fst out = map nq_query_id queries \<and>
    (ad_engine_type ad = ''solr'' \<longrightarrow> (\<forall>q\<in>set queries. \<forall>hits. (nq_query_id q, hits) \<in> set out \<longrightarrow>
       search_batch env ad target [q] top_k strict = Inr [(nq_query_id q, hits)]))"
proof -
  obtain answers where out: "length answers = length queries" "out = zip (map nq_query_id queries) answers"
    using batch_answers [OF assms] by blast
  then have keys: "map fst out = map nq_query_id queries" by simp
  have "search_batch env ad target [q] top_k strict = Inr [(nq_query_id q, hits)]"
    if "ad_engine_type ad = ''solr''" "q \<in> set queries" "(nq_query_id q, hits) \<in> set out" for q hits
    using solr_answers [of env ad target queries top_k strict out q] assms that keys eq_key_imp_eq_value [of out]
    by (auto simp: search_batch_def)
  with keys show ?thesis by blast
qed

text \<open>Two queries asked together.\<close>

theorem batch_answers_every_query_witness:
  "\<exists>out. search_batch demo_search_env demo_solr_adapter ''products'' [\<lparr>nq_query_id = ''a'', nq_body = [(''q'', PStr ''x'')]\<rparr>,
     \<lparr>nq_query_id = ''b'', nq_body = [(''q'', PStr ''y'')]\<rparr>] 10 True = Inr out \<and> map fst out = [''a'', ''b'']"
proof -
  let ?qs = "[\<lparr>nq_query_id = ''a'', nq_body = [(''q'', PStr ''x'')]\<rparr>, \<lparr>nq_query_id = ''b'', nq_body = [(''q'', PStr ''y'')]\<rparr>]"
  obtain out where run: "search_batch demo_search_env demo_solr_adapter ''products'' ?qs 10 True = Inr out"
    using demo_hits by (auto simp: search_batch_def demo_solr_adapter_def)
  then show ?thesis using batch_answers_every_query [OF run] by simp
qed

end
