(* ===== verification/Ubi_Worker.thy ===== *)
theory Ubi_Worker
  imports Judgments
begin

text \<open>
  The worker that derives a judgment list from user behaviour
  (\<open>backend/workers/judgments_ubi.py\<close>) and the language model that fills in for pairs with too
  few impressions (\<open>make_hybrid_llm_rate_callback\<close> of
  \<open>backend/app/services/judgment_generation.py\<close>). It composes the reader, the mapping and the
  converters of \<open>Ubi\<close> with the tables, the judge and the budget of \<open>Judgments\<close>.
\<close>

section \<open>The environment\<close>

text \<open>
  \<open>uw_engine\<close> is the engine as the first and the second scan find it, for a target and a window;
  it is \<open>None\<close> when the window cannot be parsed. \<open>uw_judge\<close> is what surrounds the call for a query
  text, \<open>uw_get_document\<close> the document fetched, whose source may be missing, or an exception.
\<close>

record 'c ubi_env =
  uw_cluster :: "string \<Rightarrow> string option"
  uw_url_allowed :: "string \<Rightarrow> bool"
  uw_queries :: "string \<Rightarrow> query_row list"
  uw_engine :: "nat \<Rightarrow> pyval \<Rightarrow> pyval \<Rightarrow> pyval \<Rightarrow> 'c ubi_engine option"
  uw_py_str :: "pyval \<Rightarrow> string"
  uw_lower :: "string \<Rightarrow> string"
  uw_float_of_str :: "string \<Rightarrow> pyfloat option"
  uw_api_key :: bool
  uw_judge :: "string \<Rightarrow> judge_env"
  uw_model :: string
  uw_get_document :: "string \<Rightarrow> pyval option"
  uw_insert_ok :: bool
  uw_crash :: judge_crash
  uw_error_text :: string

section \<open>The language model for sparse pairs\<close>

definition group_by_text :: "(string \<times> string \<times> string) list \<Rightarrow> (string, pair list) pydict" where
  "group_by_text pairs = fold (\<lambda>(q, doc, txt) groups.
     dict_set txt ((case map_of groups txt of None \<Rightarrow> [] | Some ps \<Rightarrow> ps) @ [(q, doc)]) groups) pairs []"

definition document_body :: "judge_env \<Rightarrow> pyval \<Rightarrow> string" where
  "document_body env source = take DOC_BODY_CHAR_LIMIT (case source of
       PNone \<Rightarrow> []
     | PDict ob \<Rightarrow> if truthy (obj_get ob ''body'') then je_py_str env (obj_get ob ''body'') else je_dumps env source
     | _ \<Rightarrow> je_dumps env source)"

definition assign_ratings :: "(string, pair) pydict \<Rightarrow> doc_rating list \<Rightarrow> (pair, int) pydict \<Rightarrow> (pair, int) pydict" where
  "assign_ratings prompt_id_to_real ratings out =
     fold (\<lambda>r out. case map_of prompt_id_to_real (dr_doc_id r) of
         None \<Rightarrow> out | Some real_pair \<Rightarrow> dict_set real_pair (dr_rating r) out) ratings out"

text \<open>The counter is that of the calls that were answered.\<close>

definition rate_group ::
  "'c ubi_env \<Rightarrow> string \<Rightarrow> string \<Rightarrow> pair list \<Rightarrow> (pair, int) pydict \<Rightarrow> redis \<times> nat
   \<Rightarrow> (query_end + (pair, int) pydict) \<times> redis \<times> nat" where
  "rate_group env rubric query_text qd_pairs out s =
     (let (r, calls) = s; je = (uw_judge env query_text)\<lparr>je_model := uw_model env\<rparr> in
      case over_budget je r of
        Some e \<Rightarrow> (Inl e, s)
      | None \<Rightarrow>
        (if list_ex (\<lambda>p. uw_get_document env (snd p) = None) qd_pairs then (Inl Unexpected, s)
         else
          (let bodies = map (\<lambda>p. document_body je (the (uw_get_document env (snd p)))) qd_pairs;
               doc_inputs = map (\<lambda>(i, body). (item_id i, body)) (enumerate 0 bodies);
               prompt_id_to_real = map (\<lambda>(i, p). (item_id i, p)) (enumerate 0 qd_pairs);
               user_prompt = je_render_user_prompt je rubric query_text doc_inputs
           in case fst (rate_query_batch (je_model je)
                 (je_answers je (system_prompt (je_bundle_system je) rubric) user_prompt) (set (dict_keys prompt_id_to_real))) of
                Inl ProviderMisconfigured \<Rightarrow> (Inl Unexpected, s)
              | Inl (Pricing (UnknownModelPricing _)) \<Rightarrow> (Inl UnknownPricing, s)
              | Inl _ \<Rightarrow> (Inr out, s)
              | Inr res \<Rightarrow>
                  (Inr (assign_ratings prompt_id_to_real (jr_ratings res) out),
                   record_judge_cost je r (jr_cost_usd res), Suc calls))))"

fun rate_groups ::
  "'c ubi_env \<Rightarrow> string \<Rightarrow> (string, pair list) pydict \<Rightarrow> (pair, int) pydict \<Rightarrow> redis \<times> nat
   \<Rightarrow> (query_end + (pair, int) pydict) \<times> redis \<times> nat" where
  "rate_groups env rubric [] out s = (Inr out, s)"
| "rate_groups env rubric ((query_text, qd_pairs) # groups) out s =
     (case rate_group env rubric query_text qd_pairs out s of
        (Inl e, s1) \<Rightarrow> (Inl e, s1)
      | (Inr out1, s1) \<Rightarrow> rate_groups env rubric groups out1 s1)"

definition hybrid_llm_rate ::
  "'c ubi_env \<Rightarrow> string \<Rightarrow> (string \<times> string \<times> string) list \<Rightarrow> redis \<times> nat
   \<Rightarrow> (query_end + (pair, int) pydict) \<times> redis \<times> nat" where
  "hybrid_llm_rate env rubric pairs s = rate_groups env rubric (group_by_text pairs) [] s"

section \<open>The converter of a list\<close>

datatype inner_kind = InnerCtr | InnerDwell
datatype converter_kind = CtrThreshold | DwellTime | Hybrid inner_kind

text \<open>\<open>None\<close> is an exception: an unknown kind, a configuration that is no object, a missing key.\<close>

definition build_converter :: "'c ubi_env \<Rightarrow> pyval \<Rightarrow> pyval \<Rightarrow> converter_kind option" where
  "build_converter env kind converter_config =
     (if kind = PStr ''ctr_threshold'' then Some CtrThreshold
      else if kind = PStr ''dwell_time'' then Some DwellTime
      else if kind = PStr ''hybrid_ubi_llm''
      then (case converter_config of
          PDict cfg \<Rightarrow> if \<not> uw_api_key env then None
            else Some (Hybrid (if obj_get cfg ''inner'' = PStr ''dwell_time'' then InnerDwell else InnerCtr))
        | _ \<Rightarrow> None)
      else None)"

definition rubric_of :: "'c ubi_env \<Rightarrow> obj \<Rightarrow> string" where
  "rubric_of env params = (if truthy (obj_get params ''rubric'') then uw_py_str env (obj_get params ''rubric'')
     else ''Rate the document'' @ [CHR 0x27] @ ''s relevance to the query (0-3).'')"

text \<open>The outcome of a conversion, with what Redis holds and the count of calls after it.\<close>

definition inner_convert ::
  "'c ubi_env \<Rightarrow> inner_kind \<Rightarrow> (pair, feature_vec) pydict \<Rightarrow> obj \<Rightarrow> conv_error + (pair, int) pydict" where
  "inner_convert env k = (case k of
       InnerCtr \<Rightarrow> ctr_convert (uw_float_of_str env) | InnerDwell \<Rightarrow> dwell_convert (uw_float_of_str env))"

definition convert_features ::
  "'c ubi_env \<Rightarrow> converter_kind \<Rightarrow> string \<Rightarrow> (string \<Rightarrow> string) \<Rightarrow> (pair, feature_vec) pydict \<Rightarrow> obj \<Rightarrow> redis
   \<Rightarrow> (query_end + (pair, int) pydict) \<times> redis \<times> nat" where
  "convert_features env kind rubric lookup scoped extra r =
     (case kind of
        Hybrid k \<Rightarrow> (case hybrid_convert (inner_convert env k) (hybrid_llm_rate env rubric) lookup scoped extra (r, 0) of
            (Inl (FromRater e), s) \<Rightarrow> (Inl e, s)
          | (Inl (Conversion _), s) \<Rightarrow> (Inl Unexpected, s)
          | (Inr ratings, s) \<Rightarrow> (Inr ratings, s))
      | CtrThreshold \<Rightarrow> (case inner_convert env InnerCtr scoped extra of
            Inl _ \<Rightarrow> (Inl Unexpected, r, 0) | Inr ratings \<Rightarrow> (Inr ratings, r, 0))
      | DwellTime \<Rightarrow> (case inner_convert env InnerDwell scoped extra of
            Inl _ \<Rightarrow> (Inl Unexpected, r, 0) | Inr ratings \<Rightarrow> (Inr ratings, r, 0)))"

section \<open>The rows\<close>

text \<open>\<open>int < threshold\<close> and \<open>int >= threshold\<close> compare exactly.\<close>

definition below :: "nat \<Rightarrow> pyfloat \<Rightarrow> bool" where
  "below n threshold = flt (Fin (of_nat n)) threshold"

definition at_least :: "nat \<Rightarrow> pyfloat \<Rightarrow> bool" where
  "at_least n threshold = fle threshold (Fin (of_nat n))"

definition ubi_row ::
  "'c ubi_env \<Rightarrow> string \<Rightarrow> converter_kind \<Rightarrow> string \<Rightarrow> pyfloat \<Rightarrow> (pair, feature_vec) pydict \<Rightarrow> pair \<times> int \<Rightarrow> rating_row" where
  "ubi_row env judgment_list_id kind kind_name threshold scoped pr =
     (let (pair, rating) = pr;
          from_llm = ((\<exists>k. kind = Hybrid k) \<and> below (fv_impression_count (the (map_of scoped pair))) threshold)
      in \<lparr>jg_judgment_list_id = judgment_list_id, jg_query_id = fst pair, jg_doc_id = snd pair, jg_rating = rating,
          jg_source = (if from_llm then ''llm'' else ''click''),
          jg_rater_ref = Some (if from_llm then ''openai:'' @ uw_model env else ''ubi:'' @ kind_name),
          jg_notes = None\<rparr>)"

definition ubi_rows ::
  "'c ubi_env \<Rightarrow> string \<Rightarrow> converter_kind \<Rightarrow> string \<Rightarrow> pyfloat \<Rightarrow> (pair, feature_vec) pydict \<Rightarrow> (pair, int) pydict
   \<Rightarrow> rating_row list" where
  "ubi_rows env judgment_list_id kind kind_name threshold scoped ratings =
     map (ubi_row env judgment_list_id kind kind_name threshold scoped)
       (filter (\<lambda>(pair, _). map_of scoped pair \<noteq> None) ratings)"

definition ubi_calibration :: "pyfloat \<Rightarrow> nat \<Rightarrow> nat \<Rightarrow> nat \<Rightarrow> nat \<Rightarrow> nat \<Rightarrow> obj" where
  "ubi_calibration coverage_pct head_pairs tail_pairs llm_fill_calls ambiguous sparse =
     [(''coverage_pct'', PFloat coverage_pct), (''head_pairs'', PInt (int head_pairs)), (''tail_pairs'', PInt (int tail_pairs)),
      (''position_bias_prior_id'', PNone), (''ambiguous_query_skip_count'', PInt (int ambiguous)),
      (''sparse_query_skip_count'', PInt (int sparse))]
     @ (if 0 < llm_fill_calls then [(''llm_fill_calls'', PInt (int llm_fill_calls))] else [])"

text \<open>A vanished list raises; the handler then finds nothing to fail.\<close>

definition write_calibration_and_complete :: "string \<Rightarrow> obj \<Rightarrow> tables \<Rightarrow> tables" where
  "write_calibration_and_complete i calibration d =
     (case update_judgment_list_calibration i calibration d of
        None \<Rightarrow> d | Some d1 \<Rightarrow> set_list_status i ListComplete None d1)"

section \<open>The worker\<close>

definition unexpected_end :: "'c ubi_env \<Rightarrow> string \<Rightarrow> tables \<times> redis \<Rightarrow> worker_end \<times> tables \<times> redis" where
  "unexpected_end env i s = (WorkerDone, fail_judgment_list i (''UNEXPECTED:'' @ uw_error_text env) (fst s), snd s)"

definition coverage :: "nat \<Rightarrow> nat \<Rightarrow> pyfloat" where
  "coverage rated scoped = (case ratio rated (max scoped 1) of None \<Rightarrow> Fin 0 | Some x \<Rightarrow> x)"

definition store_ratings ::
  "'c ubi_env \<Rightarrow> string \<Rightarrow> converter_kind \<Rightarrow> string \<Rightarrow> pyfloat option \<Rightarrow> (pair, feature_vec) pydict \<Rightarrow> (pair, int) pydict
   \<Rightarrow> nat \<Rightarrow> nat \<Rightarrow> tables \<times> redis \<Rightarrow> worker_end \<times> tables \<times> redis" where
  "store_ratings env i kind kind_name threshold scoped ratings calls ambiguous s =
     (let (d, r) = s;
          kept = filter (\<lambda>(pair, _). map_of scoped pair \<noteq> None) ratings;
          rows = ubi_rows env i kind kind_name (case threshold of None \<Rightarrow> Fin 0 | Some t \<Rightarrow> t) scoped ratings;
          sparse = card (fst ` fst ` set scoped - fst ` fst ` set ratings)
      in if (\<exists>k. kind = Hybrid k) \<and> threshold = None \<and> kept \<noteq> [] then unexpected_end env i (d, r)
         else if uw_crash env = DiesBeforeInsert then (WorkerDied, d, r)
         else if rows \<noteq> [] \<and> \<not> uw_insert_ok env then unexpected_end env i (d, r)
         else (let d1 = snd (bulk_create_judgments rows d) in
           if uw_crash env = DiesAfterInsert then (WorkerDied, d1, r)
           else (case threshold of
               None \<Rightarrow> unexpected_end env i (d1, r)
             | Some t \<Rightarrow>
                 (let head_pairs = length (filter (\<lambda>(_, f). at_least (fv_impression_count f) t) scoped) in
                  (WorkerDone, write_calibration_and_complete i
                     (ubi_calibration (coverage (length rows) (length scoped)) head_pairs (length scoped - head_pairs)
                        calls ambiguous sparse) d1, r)))))"

definition rate_and_store ::
  "'c ubi_env \<Rightarrow> string \<Rightarrow> obj \<Rightarrow> query_row list \<Rightarrow> (pair, feature_vec) pydict \<Rightarrow> (string, string) pydict
   \<Rightarrow> tables \<times> redis \<Rightarrow> worker_end \<times> tables \<times> redis" where
  "rate_and_store env i params query_set_rows features user_queries s =
     (let (d, r) = s;
          mapping_strategy = (case obj_get params ''mapping_strategy'' of PStr m \<Rightarrow> (if m = [] then ''reject'' else m) | _ \<Rightarrow> ''reject'');
          (query_id_map, ambiguous) = apply_mapping_strategy user_queries query_set_rows mapping_strategy;
          lookup = (\<lambda>q. case map_of (rev (map (\<lambda>row. (qr_id row, qr_query_text row)) query_set_rows)) q of
              None \<Rightarrow> [] | Some t \<Rightarrow> t);
          kind_val = obj_get params ''converter'';
          cfg = (if truthy (obj_get params ''converter_config'') then obj_get params ''converter_config'' else PDict []);
          threshold = (if truthy (obj_get params ''llm_fill_threshold'') then obj_get params ''llm_fill_threshold'' else PInt 20)
      in case build_converter env kind_val cfg of
           None \<Rightarrow> unexpected_end env i (d, r)
         | Some kind \<Rightarrow>
           (let scoped = scope_features query_id_map features in
            if scoped = [] then (WorkerDone, write_calibration_and_complete i
                (ubi_calibration (Fin 0) 0 0 0 ambiguous 0) d, r)
            else (case cfg of
                PDict converter_config \<Rightarrow>
                  (case convert_features env kind (rubric_of env params) lookup scoped
                      (dict_update [(''llm_fill_threshold'', threshold)] converter_config) r of
                     (Inl BudgetExceeded, r1, _) \<Rightarrow> (WorkerDone, fail_judgment_list i ''OPENAI_BUDGET_EXCEEDED'' d, r1)
                   | (Inl UnknownPricing, r1, _) \<Rightarrow> (WorkerDone, fail_judgment_list i ''UNKNOWN_MODEL_PRICING'' d, r1)
                   | (Inl _, r1, _) \<Rightarrow> unexpected_end env i (d, r1)
                   | (Inr ratings, r1, calls) \<Rightarrow>
                       store_ratings env i kind (case kind_val of PStr n \<Rightarrow> n | _ \<Rightarrow> []) (num_of threshold) scoped ratings
                         calls ambiguous (d, r1))
              | _ \<Rightarrow> unexpected_end env i (d, r))))"

text \<open>\<open>None\<close> is a scan that does not end.\<close>

definition read_and_rate ::
  "'c ubi_env \<Rightarrow> string \<Rightarrow> obj \<Rightarrow> query_row list \<Rightarrow> tables \<times> redis \<Rightarrow> (worker_end \<times> tables \<times> redis) option" where
  "read_and_rate env i params query_set_rows s =
     (let until = (if truthy (obj_get params ''until'') then obj_get params ''until'' else PNone) in
      if map_of params ''target'' = None \<or> map_of params ''since'' = None \<or> map_of params ''converter'' = None
      then Some (unexpected_end env i s)
      else (case (uw_engine env 0 (obj_get params ''target'') (obj_get params ''since'') until,
             uw_engine env 1 (obj_get params ''target'') (obj_get params ''since'') until) of
          (Some eng, Some eng') \<Rightarrow>
            (case read_features eng (uw_py_str env) (uw_lower env) of
               None \<Rightarrow> None
             | Some (Inl UbiNotEnabled) \<Rightarrow> Some (WorkerDone, fail_judgment_list i ''UBI_NOT_ENABLED'' (fst s), snd s)
             | Some (Inl _) \<Rightarrow> Some (unexpected_end env i s)
             | Some (Inr features) \<Rightarrow>
                 (if features = [] then Some (WorkerDone, fail_judgment_list i ''UBI_INSUFFICIENT_DATA'' (fst s), snd s)
                  else (case read_user_query_map eng' of
                      None \<Rightarrow> None
                    | Some (Inl _) \<Rightarrow> Some (unexpected_end env i s)
                    | Some (Inr user_queries) \<Rightarrow> Some (rate_and_store env i params query_set_rows features user_queries s))))
        | _ \<Rightarrow> Some (unexpected_end env i s)))"

definition generate_judgments_from_ubi ::
  "'c ubi_env \<Rightarrow> string \<Rightarrow> tables \<times> redis \<Rightarrow> (worker_end \<times> tables \<times> redis) option" where
  "generate_judgments_from_ubi env i s =
     (case get_judgment_list (fst s) i of
        None \<Rightarrow> Some (WorkerDone, s)
      | Some jl \<Rightarrow>
        (if jl_status jl \<noteq> Generating then Some (WorkerDone, s)
         else (case jl_generation_params jl of
            None \<Rightarrow> Some (WorkerDone, fail_judgment_list i ''MISSING_GENERATION_PARAMS'' (fst s), snd s)
          | Some params \<Rightarrow>
            (if obj_get params ''generation_kind'' \<noteq> PStr ''ubi''
             then Some (WorkerDone, fail_judgment_list i ''MISSING_GENERATION_PARAMS'' (fst s), snd s)
             else (case uw_cluster env (jl_cluster_id jl) of
                None \<Rightarrow> Some (WorkerDone, fail_judgment_list i ''CLUSTER_NOT_FOUND'' (fst s), snd s)
              | Some base_url \<Rightarrow>
                (if \<not> uw_url_allowed env base_url then Some (unexpected_end env i s)
                 else read_and_rate env i params (uw_queries env (jl_query_set_id jl)) s))))))"

section \<open>Lemmas\<close>

definition valid_ratings :: "(pair, int) pydict \<Rightarrow> bool" where
  "valid_ratings rs = (\<forall>(p, v)\<in>set rs. 0 \<le> v \<and> v \<le> 3)"

lemma set_dict_set: "set (dict_set k v d) \<subseteq> insert (k, v) (set d)"
  by (induction k v d rule: dict_set.induct) (auto split: if_splits)

lemma valid_dict_set: "valid_ratings d \<Longrightarrow> 0 \<le> v \<Longrightarrow> v \<le> 3 \<Longrightarrow> valid_ratings (dict_set k v d)"
  using set_dict_set [of k v d] by (auto simp: valid_ratings_def)

lemma valid_dict_update: "valid_ratings d \<Longrightarrow> valid_ratings e \<Longrightarrow> valid_ratings (dict_update d e)"
proof (induction e arbitrary: d)
  case (Cons kv e)
  obtain k v where kv: "kv = (k, v)" by (cases kv)
  have e: "valid_ratings e" "0 \<le> v" "v \<le> 3" using Cons.prems(2) by (simp_all add: valid_ratings_def kv)
  from Cons.IH [OF valid_dict_set [OF Cons.prems(1) e(2,3)] e(1)] show ?case by (simp add: dict_update_def kv)
qed (simp add: dict_update_def)

lemma assign_ratings_valid:
  "valid_ratings out \<Longrightarrow> (\<forall>r\<in>set rs. 0 \<le> dr_rating r \<and> dr_rating r \<le> 3) \<Longrightarrow> valid_ratings (assign_ratings ids rs out)"
  by (induction rs arbitrary: out) (auto simp: assign_ratings_def valid_dict_set split: option.splits)

lemma rate_group_valid:
  assumes "rate_group env rubric query_text ps out s = (Inr out', s')" "valid_ratings out"
  shows "valid_ratings out'"
proof (cases "out' = out")
  case False
  obtain r calls where s: "s = (r, calls)" by (cases s)
  obtain model answers expected ids res where
    res: "fst (rate_query_batch model answers expected) = Inr res" and out': "out' = assign_ratings ids (jr_ratings res) out"
    using assms(1) False
    by (auto simp: rate_group_def Let_def s
        split: option.splits if_splits sum.splits judge_error.splits cost_error.splits)
  obtain calls' where "rate_query_batch model answers expected = (Inr res, calls')" using res by (metis prod.collapse)
  then have "\<forall>r\<in>set (jr_ratings res). 0 \<le> dr_rating r \<and> dr_rating r \<le> 3"
    using rate_attempts_spec unfolding rate_query_batch_def by blast
  then show ?thesis using assign_ratings_valid assms(2) out' by blast
qed (simp add: assms(2))

lemma rate_groups_valid:
  "rate_groups env rubric groups out s = (Inr out', s') \<Longrightarrow> valid_ratings out \<Longrightarrow> valid_ratings out'"
proof (induction groups arbitrary: out s)
  case (Cons g groups)
  obtain query_text ps where g: "g = (query_text, ps)" by (cases g)
  obtain res s1 where r: "rate_group env rubric query_text ps out s = (res, s1)" by (cases "rate_group env rubric query_text ps out s")
  then obtain out1 where out1: "res = Inr out1" using Cons.prems(1) g by (cases res) auto
  show ?case
    using Cons.IH [of out1 s1] rate_group_valid [OF r [unfolded out1] Cons.prems(2)] Cons.prems(1) r out1 g by simp
qed simp

lemma hybrid_llm_valid: "hybrid_llm_rate env rubric pairs s = (Inr ratings, s') \<Longrightarrow> valid_ratings ratings"
  using rate_groups_valid [of env rubric "group_by_text pairs" "[]" s ratings s']
  by (simp add: hybrid_llm_rate_def valid_ratings_def)

lemma inner_valid:
  assumes "inner_convert env k fs extra = Inr ratings"
  shows "valid_ratings ratings"
proof -
  have rated: "0 \<le> threshold_rating x th \<and> threshold_rating x th \<le> 3" for x th by (simp add: threshold_rating_def)
  show ?thesis
  proof (cases k)
    case InnerCtr
    then show ?thesis using assms rated by (auto simp: inner_convert_def ctr_convert_def valid_ratings_def split: sum.splits)
  next
    case InnerDwell
    then show ?thesis using assms rated
      by (auto simp: inner_convert_def dwell_convert_def valid_ratings_def List.map_filter_def split: sum.splits)
  qed
qed

text \<open>The head goes to the inner converter, the tail to the model.\<close>

lemma hybrid_parts:
  assumes "hybrid_convert inner llm_rate lookup features extra s = (Inr ratings, s')"
  shows "\<exists>t hr tail. int_conv (obj_get_default extra ''llm_fill_threshold'' (PInt HYBRID_LLM_FILL_THRESHOLD_DEFAULT)) = Inr t \<and>
    1 \<le> t \<and> inner (filter (\<lambda>(p, f). t \<le> int (fv_impression_count f)) features) extra = Inr hr \<and>
    ratings = dict_update tail hr \<and>
    (let below = filter (\<lambda>(p, f). \<not> t \<le> int (fv_impression_count f)) features
     in if below = [] then tail = [] \<and> s' = s
        else llm_rate (map (\<lambda>((q, doc), f). (q, doc, lookup q)) below) s = (Inr tail, s'))"
proof -
  from assms obtain t where t: "int_conv (obj_get_default extra ''llm_fill_threshold'' (PInt HYBRID_LLM_FILL_THRESHOLD_DEFAULT)) = Inr t"
    "1 \<le> t" by (auto simp: hybrid_convert_def split: sum.splits if_splits)
  define head where "head = filter (\<lambda>(p :: pair, f). t \<le> int (fv_impression_count f)) features"
  define below where "below = filter (\<lambda>(p :: pair, f). \<not> t \<le> int (fv_impression_count f)) features"
  obtain hr where hr: "inner head extra = Inr hr"
    using assms t by (auto simp: hybrid_convert_def head_def Let_def split: sum.splits if_splits)
  have "\<exists>tail. ratings = dict_update tail hr \<and> (if below = [] then tail = [] \<and> s' = s
      else llm_rate (map (\<lambda>((q, doc), f). (q, doc, lookup q)) below) s = (Inr tail, s'))"
  proof (cases "below = []")
    case True
    then show ?thesis using assms t hr by (simp add: hybrid_convert_def head_def below_def Let_def)
  next
    case False
    obtain r s1 where "llm_rate (map (\<lambda>((q, doc), f). (q, doc, lookup q)) below) s = (r, s1)" by fastforce
    then show ?thesis using assms t hr False
      by (cases r) (auto simp: hybrid_convert_def head_def [symmetric] below_def [symmetric] Let_def)
  qed
  then show ?thesis using t hr unfolding head_def below_def Let_def by blast
qed

text \<open>The keys of a conversion: the model rates pairs of the tail, the converter pairs of the head.\<close>

definition keyed :: "pair set \<Rightarrow> (pair, int) pydict \<Rightarrow> bool" where
  "keyed P rs = (dict_ok rs \<and> dom (map_of rs) \<subseteq> P)"

lemma keyed_set: "keyed P d \<Longrightarrow> k \<in> P \<Longrightarrow> keyed P (dict_set k v d)"
  by (simp add: keyed_def)

lemma assign_ratings_keyed: "keyed P out \<Longrightarrow> snd ` set ids \<subseteq> P \<Longrightarrow> keyed P (assign_ratings ids rs out)"
proof (induction rs arbitrary: out)
  case (Cons r rs)
  have "keyed P (case map_of ids (dr_doc_id r) of None \<Rightarrow> out | Some p \<Rightarrow> dict_set p (dr_rating r) out)"
    using Cons.prems by (force dest: map_of_SomeD intro: keyed_set split: option.splits)
  from Cons.IH [OF this Cons.prems(2)] show ?case by (simp add: assign_ratings_def)
qed (simp add: assign_ratings_def)

lemma enumerated_pairs: "snd ` set (map (\<lambda>(i, p). (item_id i, p)) (enumerate 0 ps)) = set ps"
  by (simp only: set_map image_image case_prod_unfold snd_conv) (metis list.set_map map_snd_enumerate)

lemma rate_group_keyed:
  assumes "rate_group env rubric query_text ps out s = (Inr out', s')" "keyed P out" "set ps \<subseteq> P"
  shows "keyed P out'"
proof -
  obtain r calls where s: "s = (r, calls)" by (cases s)
  have "out' = out \<or> (\<exists>rs. out' = assign_ratings (map (\<lambda>(i, p). (item_id i, p)) (enumerate 0 ps)) rs out)"
    using assms(1)
    by (auto simp: rate_group_def Let_def s
        split: option.splits if_splits sum.splits judge_error.splits cost_error.splits)
  then show ?thesis using assms(2,3) assign_ratings_keyed enumerated_pairs by metis
qed

lemma rate_groups_keyed:
  "rate_groups env rubric groups out s = (Inr out', s') \<Longrightarrow> keyed P out \<Longrightarrow> (\<forall>(t, ps)\<in>set groups. set ps \<subseteq> P) \<Longrightarrow> keyed P out'"
proof (induction groups arbitrary: out s)
  case (Cons g groups)
  obtain query_text ps where g: "g = (query_text, ps)" by (cases g)
  obtain res s1 where r: "rate_group env rubric query_text ps out s = (res, s1)"
    by (cases "rate_group env rubric query_text ps out s")
  then obtain out1 where out1: "res = Inr out1" using Cons.prems(1) g by (cases res) auto
  show ?case
    using Cons.IH [of out1 s1] rate_group_keyed [OF r [unfolded out1] Cons.prems(2)] Cons.prems(1,3) r out1 g by simp
qed simp

lemma group_by_text_within:
  assumes "\<forall>(q, doc, t)\<in>set pairs. (q, doc) \<in> P"
  shows "\<forall>(t, ps)\<in>set (group_by_text pairs). set ps \<subseteq> P"
proof -
  have "\<forall>(t, ps)\<in>set (fold (\<lambda>(q, doc, t) groups.
     dict_set t ((case map_of groups t of None \<Rightarrow> [] | Some ps \<Rightarrow> ps) @ [(q, doc)]) groups) pairs gs). set ps \<subseteq> P"
    if "\<forall>(t, ps)\<in>set gs. set ps \<subseteq> P" for gs
    using assms that
  proof (induction pairs arbitrary: gs)
    case (Cons e pairs)
    obtain q doc t where e: "e = (q, doc, t)" by (cases e)
    let ?ps = "(case map_of gs t of None \<Rightarrow> [] | Some ps \<Rightarrow> ps) @ [(q, doc)]"
    have "set ?ps \<subseteq> P" using Cons.prems by (cases "map_of gs t") (fastforce simp: e dest: map_of_SomeD)+
    then have "\<forall>(t, ps)\<in>set (dict_set t ?ps gs). set ps \<subseteq> P" using set_dict_set [of t ?ps gs] Cons.prems(2) by blast
    with Cons.IH [OF _ this] Cons.prems(1) show ?case by (simp add: e)
  qed simp
  from this [of "[]"] show ?thesis by (simp add: group_by_text_def)
qed

lemma hybrid_llm_keyed:
  assumes "hybrid_llm_rate env rubric pairs s = (Inr ratings, s')"
  shows "keyed ((\<lambda>(q, doc, t). (q, doc)) ` set pairs) ratings"
  using rate_groups_keyed [OF assms [unfolded hybrid_llm_rate_def], of "(\<lambda>(q, doc, t). (q, doc)) ` set pairs"]
    group_by_text_within [of pairs "(\<lambda>(q, doc, t). (q, doc)) ` set pairs"] by (force simp: keyed_def)

lemma inner_keyed:
  assumes "inner_convert env k fs extra = Inr ratings" "dict_ok fs"
  shows "dom (map_of ratings) \<subseteq> dom (map_of fs)" "dict_ok ratings"
proof -
  show "dom (map_of ratings) \<subseteq> dom (map_of fs)"
  proof (cases k)
    case InnerCtr
    then show ?thesis using ctr_lookup [of "uw_float_of_str env" fs extra ratings] assms
      by (fastforce simp: inner_convert_def split: option.splits)
  next
    case InnerDwell
    then show ?thesis using dwell_lookup [of "uw_float_of_str env" fs extra ratings] assms
      by (fastforce simp: inner_convert_def split: option.splits)
  qed
  have filtered: "distinct (map fst (List.map_filter (\<lambda>(p, f). map_option (\<lambda>x. (p, g x)) (h f)) fs))" if "distinct (map fst fs)"
    for g h and fs :: "(pair, feature_vec) pydict"
    using that
  proof (induction fs)
    case (Cons e fs)
    have "fst ` set (List.map_filter (\<lambda>(p, f). map_option (\<lambda>x. (p, g x)) (h f)) fs) \<subseteq> fst ` set fs"
      by (force simp: List.map_filter_def)
    with Cons show ?case by (cases e) (auto simp: List.map_filter_simps split: option.splits)
  qed (simp add: List.map_filter_simps)
  show "dict_ok ratings"
    using assms filtered
    by (cases k) (auto simp: inner_convert_def ctr_convert_def dwell_convert_def dict_ok_def o_def case_prod_unfold
        distinct_map_filter split: sum.splits)
qed

lemma convert_valid:
  assumes "convert_features env kind rubric lookup scoped extra r = (Inr ratings, r', calls)"
  shows "valid_ratings ratings"
proof (cases kind)
  case (Hybrid k)
  then have h: "hybrid_convert (inner_convert env k) (hybrid_llm_rate env rubric) lookup scoped extra (r, 0) = (Inr ratings, r', calls)"
    using assms by (auto simp: convert_features_def split: sum.splits prod.splits convert_error.splits)
  obtain hr tail where "ratings = dict_update tail hr" "valid_ratings hr" "valid_ratings tail"
    using hybrid_parts [OF h] inner_valid hybrid_llm_valid unfolding Let_def
    by (metis (no_types, lifting) empty_iff list.set(1) valid_ratings_def)
  then show ?thesis using valid_dict_update by blast
next
  case CtrThreshold
  then show ?thesis using assms inner_valid by (auto simp: convert_features_def split: sum.splits)
next
  case DwellTime
  then show ?thesis using assms inner_valid by (auto simp: convert_features_def split: sum.splits)
qed

text \<open>What a run does to the tables: the list is settled, others are left alone, and what is
  appended is a rating of this list.\<close>

definition list_write :: "string \<Rightarrow> tables \<Rightarrow> tables \<Rightarrow> bool" where
  "list_write i d d' = ((\<forall>j. j \<noteq> i \<longrightarrow> get_judgment_list d' j = get_judgment_list d j) \<and>
     (\<exists>new. jt_rows d' = jt_rows d @ new \<and> distinct (map key_of new) \<and>
        (\<forall>j\<in>set new. key_of j \<notin> key_of ` set (jt_rows d) \<and> jg_judgment_list_id j = i \<and> 0 \<le> jg_rating j \<and> jg_rating j \<le> 3)))"

definition settled :: "string \<Rightarrow> tables \<Rightarrow> bool" where
  "settled i d = (\<exists>l. get_judgment_list d i = Some l \<and> jl_status l \<noteq> Generating)"

lemma get_update_other: "j \<noteq> i \<Longrightarrow> get_judgment_list (update_list i f d) j = get_judgment_list d j"
proof -
  assume "j \<noteq> i"
  then have "find (\<lambda>l. jl_id l = j) (map (\<lambda>l. if jl_id l = i then (f l)\<lparr>jl_id := i\<rparr> else l) ls) = find (\<lambda>l. jl_id l = j) ls" for ls
    by (induction ls) auto
  then show ?thesis by (simp add: get_judgment_list_def update_list_def)
qed

lemma set_list_status_other [simp]: "j \<noteq> i \<Longrightarrow> get_judgment_list (set_list_status i st reason d) j = get_judgment_list d j"
  by (simp add: set_list_status_def update_judgment_list_status_def get_update_other split: option.splits)

lemma list_write_refl: "list_write i d d"
  by (simp add: list_write_def)

lemma list_write_same_rows:
  "jt_rows d' = jt_rows d \<Longrightarrow> (\<And>j. j \<noteq> i \<Longrightarrow> get_judgment_list d' j = get_judgment_list d j) \<Longrightarrow> list_write i d d'"
  by (simp add: list_write_def)

lemma list_write_status: "list_write i d d' \<Longrightarrow> list_write i d (set_list_status i st reason d')"
  by (simp add: list_write_def)

lemma fail_list_spec:
  assumes "get_judgment_list d i = Some l" "list_write i e d"
  shows "settled i (fail_judgment_list i reason d) \<and> list_write i e (fail_judgment_list i reason d)"
  using assms set_list_status_get [OF assms(1), of ListFailed "Some reason"] list_write_status [OF assms(2)]
  by (auto simp: fail_judgment_list_def settled_def)

lemma complete_list_spec:
  assumes "get_judgment_list d i = Some l" "list_write i e d"
  shows "settled i (write_calibration_and_complete i c d) \<and> list_write i e (write_calibration_and_complete i c d)"
proof -
  obtain d1 where d1: "update_judgment_list_calibration i c d = Some d1" "jt_rows d1 = jt_rows d"
    "\<exists>l. get_judgment_list d1 i = Some l" "\<And>j. j \<noteq> i \<Longrightarrow> get_judgment_list d1 j = get_judgment_list d j"
    using assms(1) by (auto simp: update_judgment_list_calibration_def get_update_other) (auto simp: update_list_def)
  then have "list_write i e d1" using assms(2) by (simp add: list_write_def)
  then show ?thesis using d1 set_list_status_get [of d1 i _ ListComplete None] list_write_status
    by (auto simp: write_calibration_and_complete_def settled_def)
qed

lemma bulk_create_write:
  assumes "\<forall>j\<in>set js. jg_judgment_list_id j = i \<and> 0 \<le> jg_rating j \<and> jg_rating j \<le> 3"
  shows "list_write i d (snd (bulk_create_judgments js d))"
proof -
  obtain new where "insert_missing js (jt_rows d) = jt_rows d @ new" "set new \<subseteq> set js" "distinct (map key_of new)"
    "\<forall>j\<in>set new. key_of j \<notin> key_of ` set (jt_rows d)" using insert_missing_spec by metis
  then show ?thesis using assms by (auto simp: list_write_def bulk_create_judgments_def Let_def)
qed

lemma ubi_rows_valid:
  assumes "valid_ratings ratings" "j \<in> set (ubi_rows env i kind name t scoped ratings)"
  shows "jg_judgment_list_id j = i \<and> 0 \<le> jg_rating j \<and> jg_rating j \<le> 3"
  using assms by (auto simp: ubi_rows_def ubi_row_def Let_def valid_ratings_def)

lemma get_after_bulk [simp]: "get_judgment_list (snd (bulk_create_judgments js d)) = get_judgment_list d"
  by (simp add: bulk_create_judgments_def Let_def)

definition run_ok :: "string \<Rightarrow> tables \<Rightarrow> worker_end \<times> tables \<times> redis \<Rightarrow> bool" where
  "run_ok i d res = (list_write i d (fst (snd res)) \<and> (fst res = WorkerDone \<longrightarrow> settled i (fst (snd res))))"

lemma run_ok_fail:
  "get_judgment_list d i = Some l \<Longrightarrow> list_write i e d \<Longrightarrow> run_ok i e (w, fail_judgment_list i reason d, r)"
  using fail_list_spec by (simp add: run_ok_def)

lemma run_ok_complete:
  "get_judgment_list d i = Some l \<Longrightarrow> list_write i e d \<Longrightarrow> run_ok i e (w, write_calibration_and_complete i c d, r)"
  using complete_list_spec by (simp add: run_ok_def)

lemma run_ok_unexpected:
  "get_judgment_list d i = Some l \<Longrightarrow> list_write i e d \<Longrightarrow> run_ok i e (unexpected_end env i (d, r))"
  by (simp add: unexpected_end_def run_ok_fail)

lemma run_ok_died: "list_write i e d \<Longrightarrow> run_ok i e (WorkerDied, d, r)"
  by (simp add: run_ok_def)

lemma run_ok_if: "(b \<Longrightarrow> run_ok i d x) \<Longrightarrow> (\<not> b \<Longrightarrow> run_ok i d y) \<Longrightarrow> run_ok i d (if b then x else y)"
  by simp

lemmas run_ok_intros = run_ok_fail run_ok_complete run_ok_unexpected run_ok_died run_ok_if

lemma store_ratings_ok:
  assumes l: "get_judgment_list d i = Some l" and v: "valid_ratings ratings"
  shows "run_ok i d (store_ratings env i kind name threshold scoped ratings calls ambiguous (d, r))"
proof -
  let ?rows = "ubi_rows env i kind name (case threshold of None \<Rightarrow> Fin 0 | Some t \<Rightarrow> t) scoped ratings"
  let ?d1 = "snd (bulk_create_judgments ?rows d)"
  have d1: "list_write i d ?d1" by (rule bulk_create_write) (use ubi_rows_valid [OF v] in blast)
  have l1: "get_judgment_list ?d1 i = Some l" using l by simp
  show ?thesis
    unfolding store_ratings_def Let_def prod.case
    by (intro run_ok_if run_ok_unexpected [OF l list_write_refl] run_ok_died list_write_refl d1)
      (cases threshold; insert run_ok_unexpected [OF l1 d1] run_ok_complete [OF l1 d1]; simp)
qed

lemma rate_and_store_ok:
  assumes l: "get_judgment_list d i = Some l"
  shows "run_ok i d (rate_and_store env i params rows features uq (d, r))"
proof -
  note ok = run_ok_fail [OF l list_write_refl] run_ok_complete [OF l list_write_refl] run_ok_unexpected [OF l list_write_refl]
  have stored: "run_ok i d (case convert_features env kind rubric lookup scoped extra r of
      (Inl BudgetExceeded, r1, _) \<Rightarrow> (WorkerDone, fail_judgment_list i ''OPENAI_BUDGET_EXCEEDED'' d, r1)
    | (Inl UnknownPricing, r1, _) \<Rightarrow> (WorkerDone, fail_judgment_list i ''UNKNOWN_MODEL_PRICING'' d, r1)
    | (Inl _, r1, _) \<Rightarrow> unexpected_end env i (d, r1)
    | (Inr ratings, r1, calls) \<Rightarrow> store_ratings env i kind name threshold scoped ratings calls ambiguous (d, r1))"
    for kind rubric lookup scoped extra name threshold ambiguous
  proof -
    obtain res r1 calls where c: "convert_features env kind rubric lookup scoped extra r = (res, r1, calls)"
      by (cases "convert_features env kind rubric lookup scoped extra r")
    show ?thesis
    proof (cases res)
      case (Inl e)
      then show ?thesis using ok c by (cases e) simp_all
    next
      case (Inr ratings)
      then show ?thesis using c store_ratings_ok [OF l convert_valid] by simp
    qed
  qed
  obtain mapping ambiguous where m: "apply_mapping_strategy uq rows
      (case obj_get params ''mapping_strategy'' of PStr m \<Rightarrow> if m = [] then ''reject'' else m | _ \<Rightarrow> ''reject'') = (mapping, ambiguous)"
    by (cases "apply_mapping_strategy uq rows
      (case obj_get params ''mapping_strategy'' of PStr m \<Rightarrow> if m = [] then ''reject'' else m | _ \<Rightarrow> ''reject'')")
  define cfg where "cfg = (if truthy (obj_get params ''converter_config'') then obj_get params ''converter_config'' else PDict [])"
  show ?thesis
    unfolding rate_and_store_def Let_def prod.case m cfg_def [symmetric]
    by (cases "build_converter env (obj_get params ''converter'') cfg"; cases cfg)
      (simp_all only: option.case pyval.case run_ok_if ok stored)
qed

lemma list_writeD:
  "list_write i d d' \<Longrightarrow> \<exists>new. jt_rows d' = jt_rows d @ new \<and> distinct (map key_of new) \<and>
    (\<forall>j\<in>set new. key_of j \<notin> key_of ` set (jt_rows d) \<and> jg_judgment_list_id j = i \<and> 0 \<le> jg_rating j \<and> jg_rating j \<le> 3)"
  unfolding list_write_def by (erule conjunct2)

lemma list_write_ok:
  assumes "list_write i d d'" "rows_ok d"
  shows "rows_ok d'"
proof -
  from list_writeD [OF assms(1)] obtain new where new: "jt_rows d' = jt_rows d @ new" "distinct (map key_of new)"
    "\<forall>j\<in>set new. key_of j \<notin> key_of ` set (jt_rows d) \<and> jg_judgment_list_id j = i \<and> 0 \<le> jg_rating j \<and> jg_rating j \<le> 3"
    by (elim exE conjE) (rule that)
  from new(3) have fresh: "\<forall>j\<in>set new. key_of j \<notin> key_of ` set (jt_rows d)" and "\<forall>j\<in>set new. 0 \<le> jg_rating j \<and> jg_rating j \<le> 3"
    by simp_all
  moreover from fresh have "key_of ` set (jt_rows d) \<inter> key_of ` set new = {}"
    by (simp only: disjoint_iff image_iff) metis
  ultimately show ?thesis using assms(2) new(2) by (simp add: rows_ok_def new(1) ball_Un)
qed

text \<open>A page that announces another one is not empty: the adapters end a scan at a short page.\<close>

definition progresses :: "('c option \<Rightarrow> nat \<Rightarrow> ('h list \<times> 'c option) option) \<Rightarrow> bool" where
  "progresses scan = (\<forall>c k hits x. 0 < k \<longrightarrow> scan c k = Some (hits, Some x) \<longrightarrow> hits \<noteq> [])"

lemma scan_loop_ends: "progresses scan \<Longrightarrow> \<exists>res. scan_loop scan remaining c acc = Some res"
proof (induction remaining arbitrary: c acc rule: less_induct)
  case (less remaining)
  let ?k = "min ES_MAX_RESULT_WINDOW remaining"
  show ?case
  proof (cases "remaining = 0 \<or> scan c ?k = None \<or> snd (the (scan c ?k)) = None")
    case True
    then show ?thesis by (subst scan_loop.simps) (auto split: option.splits)
  next
    case False
    then obtain hits x where page: "scan c ?k = Some (hits, Some x)" "0 < remaining" by auto
    have "0 < ?k" using page(2) by (simp add: ES_MAX_RESULT_WINDOW_def)
    then have "hits \<noteq> []" using less.prems page(1) unfolding progresses_def by blast
    then have "remaining - length (take remaining hits) < remaining" using page(2) by (cases hits) auto
    from less.IH [OF this less.prems] show ?thesis using page by (subst scan_loop.simps) auto
  qed
qed

lemma scan_chunks_ends: "(\<And>b. progresses (scan b)) \<Longrightarrow> \<exists>res. scan_chunks scan batches remaining out = Some res"
proof (induction batches arbitrary: remaining out)
  case (Cons b batches)
  obtain res where r: "scan_loop (scan b) remaining None [] = Some res" using scan_loop_ends Cons.prems by blast
  show ?case
  proof (cases res)
    case (Some x)
    obtain hits left trunc where x: "x = (hits, left, trunc)" by (cases x)
    obtain res' where "scan_chunks scan batches left (out @ List.map_filter id hits) = Some res'" using Cons by blast
    then show ?thesis using r Some x by (cases res') auto
  qed (simp add: r)
qed simp

definition engine_progresses :: "'c ubi_engine \<Rightarrow> bool" where
  "engine_progresses eng = (progresses (ub_queries eng) \<and> (\<forall>b. progresses (ub_events eng b)))"

lemma reads_end:
  assumes "engine_progresses eng"
  shows "\<exists>res. read_features eng py_str lower = Some res" "\<exists>res. read_user_query_map eng = Some res"
proof -
  obtain q where q: "scan_loop (ub_queries eng) (ub_max_queries eng) None [] = Some q"
    using assms scan_loop_ends unfolding engine_progresses_def by blast
  have ev: "\<exists>res. scan_chunks (ub_events eng) bs n [] = Some res" for bs n
    using assms scan_chunks_ends unfolding engine_progresses_def by blast
  show "\<exists>res. read_user_query_map eng = Some res" by (cases q) (auto simp: read_user_query_map_def q)
  show "\<exists>res. read_features eng py_str lower = Some res"
  proof (cases q)
    case (Some h)
    obtain hits left trunc where h: "h = (hits, left, trunc)" by (cases h)
    obtain res where res: "scan_chunks (ub_events eng)
        (chunk_query_ids (ub_size_of eng) (ub_batch_size eng) (ub_batch_bytes eng) (sorted_set (map fst (extract_query_hits hits))))
        (ub_max_events eng) [] = Some res" using ev by blast
    show ?thesis by (cases res) (auto simp: read_features_def q Some h res Let_def split: sum.splits option.splits)
  qed (simp add: read_features_def q)
qed

lemma read_and_rate_ok:
  assumes l: "get_judgment_list d i = Some l"
    and pages: "\<And>k t s u eng. uw_engine env k t s u = Some eng \<Longrightarrow> engine_progresses eng"
  shows "\<exists>res. read_and_rate env i params rows (d, r) = Some res \<and> run_ok i d res"
proof -
  note ok = run_ok_fail [OF l list_write_refl] run_ok_unexpected [OF l list_write_refl] rate_and_store_ok [OF l]
  define until where "until = (if truthy (obj_get params ''until'') then obj_get params ''until'' else PNone)"
  let ?e = "\<lambda>k. uw_engine env k (obj_get params ''target'') (obj_get params ''since'') until"
  show ?thesis
  proof (cases "(map_of params ''target'' = None \<or> map_of params ''since'' = None \<or> map_of params ''converter'' = None) \<or> ?e 0 = None \<or> ?e 1 = None")
    case True
    then have "read_and_rate env i params rows (d, r) = Some (unexpected_end env i (d, r))"
      unfolding read_and_rate_def Let_def until_def [symmetric] by (cases "?e 0"; cases "?e 1") simp_all
    then show ?thesis using ok(2) by simp
  next
    case False
    then obtain eng eng' where e: "?e 0 = Some eng" "?e 1 = Some eng'" by auto
    obtain fs where fs: "read_features eng (uw_py_str env) (uw_lower env) = Some fs" using reads_end pages [OF e(1)] by blast
    obtain uq where uq: "read_user_query_map eng' = Some uq" using reads_end pages [OF e(2)] by blast
    have *: "read_and_rate env i params rows (d, r) = (case fs of
         Inl UbiNotEnabled \<Rightarrow> Some (WorkerDone, fail_judgment_list i ''UBI_NOT_ENABLED'' d, r)
       | Inl _ \<Rightarrow> Some (unexpected_end env i (d, r))
       | Inr features \<Rightarrow> (if features = [] then Some (WorkerDone, fail_judgment_list i ''UBI_INSUFFICIENT_DATA'' d, r)
           else (case uq of Inl _ \<Rightarrow> Some (unexpected_end env i (d, r))
             | Inr user_queries \<Rightarrow> Some (rate_and_store env i params rows features user_queries (d, r)))))"
      unfolding read_and_rate_def Let_def until_def [symmetric]
      using False e fs uq by (auto split: sum.splits ubi_error.splits)
    show ?thesis
    proof (cases fs)
      case (Inl a)
      then show ?thesis by (cases a) (simp_all add: * ok)
    next
      case (Inr features)
      show ?thesis
      proof (cases "features = [] \<or> (\<exists>e. uq = Inl e)")
        case True
        then show ?thesis unfolding * Inr by (cases uq; cases "features = []") (simp_all add: ok(1,2) del: split_paired_Ex)
      next
        case False
        then obtain user_queries where "uq = Inr user_queries" "features \<noteq> []" by (cases uq) auto
        then show ?thesis unfolding * Inr using ok(3) by simp
      qed
    qed
  qed
qed

section \<open>What goes wrong\<close>

text \<open>
  The threshold of the converter configuration goes to the converter, not to the source: with 5
  there and 20 for the list, a pair of 10 impressions is rated from its clicks and stored as rated
  by the model.
\<close>

lemma sources_by_another_threshold:
  assumes "ctr_convert (uw_float_of_str env) [((q, doc), f)] [(''llm_fill_threshold'', PInt 5)] = Inr hr"
    and "fv_impression_count f = 10"
  shows "\<exists>ratings. convert_features env (Hybrid InnerCtr) rubric lookup [((q, doc), f)]
      (dict_update [(''llm_fill_threshold'', PInt 20)] [(''llm_fill_threshold'', PInt 5)]) r = (Inr ratings, r, 0) \<and>
    ratings \<noteq> [] \<and> (\<forall>row\<in>set (ubi_rows env i (Hybrid InnerCtr) name (Fin 20) [((q, doc), f)] ratings). jg_source row = ''llm'')"
proof -
  have one: "\<exists>rating. hr = [((q, doc), rating)]"
    using assms by (auto simp: ctr_convert_def split: sum.splits)
  have "obj_get_default [(''llm_fill_threshold'', PInt 5)] ''llm_fill_threshold'' x = PInt 5" for x
    by (simp add: obj_get_default_def)
  then have "hybrid_convert (inner_convert env InnerCtr) (hybrid_llm_rate env rubric) lookup [((q, doc), f)]
      [(''llm_fill_threshold'', PInt 5)] (r, 0) = (Inr (dict_update [] hr), r, 0)"
    using assms by (simp add: hybrid_convert_def int_conv_def inner_convert_def)
  then show ?thesis using one assms(2)
    by (auto simp: convert_features_def dict_update_def ubi_rows_def ubi_row_def below_def)
qed

section \<open>Concrete inputs\<close>

definition demo_engine :: "nat ubi_engine" where
  "demo_engine = \<lparr>ub_enabled = True,
     ub_queries = sample_pages [Some [(''query_id'', PStr ''u1''), (''user_query'', PStr ''shoe'')]],
     ub_events = (\<lambda>_. sample_pages [Some [(''query_id'', PStr ''u1''), (''action_name'', PStr ''click''), (''object_id'', PStr ''sku-7'')]]),
     ub_size_of = length, ub_prior = [], ub_max_queries = 10, ub_max_events = 10, ub_batch_size = 5, ub_batch_bytes = 100\<rparr>"

definition demo_ubi :: "nat ubi_env" where
  "demo_ubi = \<lparr>uw_cluster = (\<lambda>_. Some ''http://es''), uw_url_allowed = (\<lambda>_. True), uw_queries = (\<lambda>_. [demo_query]),
     uw_engine = (\<lambda>_ _ _ _. Some demo_engine), uw_py_str = (\<lambda>v. case v of PStr s \<Rightarrow> s | _ \<Rightarrow> []), uw_lower = id,
     uw_float_of_str = (\<lambda>_. None), uw_api_key = True, uw_judge = (\<lambda>_. demo_env), uw_model = ''gpt-4o-2024-08-06'',
     uw_get_document = (\<lambda>_. Some PNone), uw_insert_ok = True, uw_crash = Survives, uw_error_text = []\<rparr>"

definition demo_ubi_list :: judgment_list where
  "demo_ubi_list = demo_list\<lparr>jl_generation_params := Some [(''generation_kind'', PStr ''ubi''), (''target'', PStr ''idx''),
     (''since'', PStr ''2026-01-01''), (''converter'', PStr ''ctr_threshold'')]\<rparr>"

lemma sample_pages_progress: "progresses (sample_pages hits)"
  by (auto simp: progresses_def sample_pages_def Let_def split: if_splits option.splits)

section \<open>Properties\<close>



text \<open>A hybrid conversion splits the pairs at the threshold: each has the rating of its own side.\<close>

lemma hybrid_split:
  assumes h: "hybrid_convert (inner_convert env k) (hybrid_llm_rate env rubric) lookup scoped extra (r, 0) = (Inr ratings, r', calls)"
    and t: "\<And>x. int_conv (obj_get_default extra ''llm_fill_threshold'' x) = Inr t" and ok: "dict_ok scoped"
  shows "\<exists>clicks llm. inner_convert env k (filter (\<lambda>(p, f). t \<le> int (fv_impression_count f)) scoped) extra = Inr clicks \<and>
    (let tail = filter (\<lambda>(p, f). \<not> t \<le> int (fv_impression_count f)) scoped
     in if tail = [] then llm = []
        else hybrid_llm_rate env rubric (map (\<lambda>((q, doc), f). (q, doc, lookup q)) tail) (r, 0) = (Inr llm, r', calls)) \<and>
    dict_ok ratings \<and> (\<forall>p f v. map_of scoped p = Some f \<longrightarrow> map_of ratings p = Some v \<longrightarrow>
      (if t \<le> int (fv_impression_count f) then map_of clicks p = Some v else map_of llm p = Some v))"
proof -
  let ?head = "filter (\<lambda>(p, f). t \<le> int (fv_impression_count f)) scoped"
  let ?tail = "filter (\<lambda>(p, f). \<not> t \<le> int (fv_impression_count f)) scoped"
  obtain clicks llm where parts: "inner_convert env k ?head extra = Inr clicks" "ratings = dict_update llm clicks"
    "if ?tail = [] then llm = []
     else hybrid_llm_rate env rubric (map (\<lambda>((q, doc), f). (q, doc, lookup q)) ?tail) (r, 0) = (Inr llm, r', calls)"
    using hybrid_parts [OF h] t unfolding Let_def by (auto split: if_splits)
  have head: "dom (map_of clicks) \<subseteq> dom (map_of ?head)" "dict_ok clicks"
    using inner_keyed [OF parts(1) dict_ok_filter [OF ok]] by auto
  have "keyed (dom (map_of ?tail)) llm"
  proof (cases "?tail = []")
    case False
    then have "keyed ((\<lambda>(q, doc, t). (q, doc)) ` set (map (\<lambda>((q, doc), f). (q, doc, lookup q)) ?tail)) llm"
      using hybrid_llm_keyed parts(3) by (metis (no_types, lifting))
    moreover have "(\<lambda>(q, doc, t). (q, doc)) ` set (map (\<lambda>((q, doc), f). (q, doc, lookup q)) ?tail) = fst ` set ?tail"
      by (simp only: set_map image_image) (rule image_cong; auto)
    ultimately show ?thesis by (simp only: dom_map_of_conv_image_fst)
  qed (use parts(3) in \<open>simp add: keyed_def\<close>)
  then have llm: "dom (map_of llm) \<subseteq> dom (map_of ?tail)" "dict_ok llm" by (simp_all add: keyed_def)
  have rev: "map_of (rev clicks) = map_of clicks"
    using head(2) by (intro map_of_inject_set [THEN iffD2]) (auto simp: dict_ok_def rev_map [symmetric])
  have "dict_ok ratings" using llm(2) dict_ok_update parts(2) by blast
  have sides: "if t \<le> int (fv_impression_count f) then map_of clicks p = Some v else map_of llm p = Some v"
    if "map_of scoped p = Some f" "map_of ratings p = Some v" for p f v
  proof -
    have side: "map_of ?head p = (if t \<le> int (fv_impression_count f) then Some f else None)"
      "map_of ?tail p = (if t \<le> int (fv_impression_count f) then None else Some f)"
      using map_of_filter_keys [OF ok, of "\<lambda>f. t \<le> int (fv_impression_count f)"]
        map_of_filter_keys [OF ok, of "\<lambda>f. \<not> t \<le> int (fv_impression_count f)"] that(1) by simp_all
    have v: "(case map_of clicks p of None \<Rightarrow> map_of llm p | Some x \<Rightarrow> Some x) = Some v"
      using that(2) parts(2) rev by simp
    show ?thesis
    proof (cases "t \<le> int (fv_impression_count f)")
      case True
      then have "map_of llm p = None" using llm(1) side(2) by (auto simp: dom_def)
      then show ?thesis using v True by (simp split: option.splits)
    next
      case False
      then have "map_of clicks p = None" using head(1) side(1) by (auto simp: dom_def)
      then show ?thesis using v False by simp
    qed
  qed
  show ?thesis using parts(1,3) \<open>dict_ok ratings\<close> sides unfolding Let_def by blast
qed



end
