(* ===== verification/Spec2Isabelle.thy ===== *)
theory Spec2Isabelle
  imports Agent Calibration Clusters Csv_Parser Digest Followup_Worker Open_Pr Orchestrator Redaction
    Search Study_Views Template_Swap Ubi_Worker
begin

chapter \<open>Relyloop: the model of its study loop\<close>

text \<open>
  Relyloop tunes the relevance of a search engine. An operator registers a cluster, a query template
  with declared parameters, a set of queries and a list of judgments, and starts a \<^emph>\<open>study\<close>. Workers run
  its trials with Optuna, stop it, write a digest with a recommended configuration, and open a pull
  request for the change; a completed study can be followed by another one, a \<^emph>\<open>chain\<close>. Everything is
  Python under \<open>src/backend\<close>; the processes (an API, Arq workers, webhooks) share PostgreSQL, Redis
  and the storage of Optuna and talk to an OpenAI-compatible model, to Elasticsearch, OpenSearch or
  Solr, and to GitHub.

  This development models the logic of that loop as HOL functions on explicit state, with the errors
  as values, and proves what makes it correct. The proofs are about the definitions; that a definition
  is the code is for the reader to see, and the manifest of the project names the lines it translates.

  \<^bold>\<open>Conventions.\<close> A table is a list of records, a Python \<open>dict\<close> an association list with distinct keys
  (\<open>Prelude\<close>), a JSON value or an \<open>Any\<close> a \<open>pyval\<close> (\<open>Values\<close>), a \<open>float\<close> a \<open>pyfloat\<close>: a rational or one
  of the special values, with every result rounded to binary64 (\<open>Pyfloat\<close>; the sign of zero is left
  out). A string is the list of the bytes of its UTF-8 form, or a list of code points (\<open>qtext\<close>) where
  characters matter. Times are integers, in microseconds unless said otherwise. An exception is a value of an error type, \<open>None\<close> where
  only its absence matters, or an outcome like \<open>JobRaised\<close>. What a job reads from outside - settings,
  the clock, fresh ids, answers - is the record of its environment, named in each theory; what other
  sessions commit while a job runs is a function of the environment or an interleaving of steps.
  Log calls leave no trace, except where the log is what an operation is about.

  \<^bold>\<open>The tables and the state machines.\<close> \<open>Store\<close> holds the rows of studies, trials and proposals
  (\<open>app/db/models\<close>). \<open>Study_State\<close> is \<open>app/services/study_state.py\<close>: the transitions of a study, and the
  guard that refuses any other write of a status; its lemmas say that whatever a session does, statuses
  only move along the legal transitions, in the transaction and in what is committed. \<open>Study_Cascade\<close>
  shows that the recursive cancellation of a chain ends and stops exactly the rows below; the fuel of
  \<open>chain_cascade\<close> is bounded by the number of studies, since the parents form no cycle. \<open>Proposals\<close> is
  \<open>app/db/repo/proposal.py\<close>: conditional updates as one operation \<open>conditional_update\<close> with the locale
  \<open>guarded_update\<close> that every one of them interprets, and the life of a proposal. \<open>Trial_Repo\<close>,
  \<open>Chain_Repo\<close> and \<open>Paging\<close> are the queries: the batched and the single forms agree, and following the
  cursors of a page enumerates every row once in the order of the sort (locale \<open>keyset\<close>, interpreted by
  the sorts of the API and of the trial list). The traversal of a chain has the caps of the code,
  \<open>CHAIN_UPWARD_HOP_CAP\<close> and \<open>CHAIN_MAX_DESCENDANTS\<close>.

  \<^bold>\<open>Running a study.\<close> \<open>Search_Space\<close>, \<open>Search_Space_Defaults\<close>, \<open>Normalizers\<close> and \<open>Template_Swap\<close> are the
  spaces a study searches (\<open>app/domain/study\<close>): validation, cardinality, sampling, narrowing around a
  winner (always inside the old bounds), the labels of normalizer pipelines, and the move to another
  template, which does not depend on the order of Python's sets. \<open>Scoring\<close> is \<open>app/eval/scoring.py\<close>.
  \<open>Trial_Worker\<close> is \<open>workers/trials.py\<close> over an Optuna storage given by \<open>optuna_api\<close> and its documented
  behaviour \<open>optuna_ok\<close>: at most one row per trial, in agreement with Optuna, also when the job is killed
  between telling Optuna and writing the row. \<open>Baseline\<close> is \<open>workers/baseline.py\<close>. \<open>Orchestrator\<close> is
  \<open>workers/orchestrator.py\<close>, a polling loop cut into ticks: never more trials in flight than allowed,
  never more than the budget, and undisturbed ticks end the study in a number of rounds its budget gives.

  \<^bold>\<open>Chains.\<close> \<open>Chain_Gate\<close>, \<open>Chain_Summary\<close>, \<open>Convergence\<close>, \<open>Followups\<close> and \<open>Confidence\<close> are the pure
  decisions about a finished study; the locale \<open>objective\<close> is what they share about a direction.
  \<open>Followup_Worker\<close> is \<open>workers/auto_followup.py\<close>: the depth counts down, so chains end whatever
  interleaves, swaps never return to a template, and a cancelled chain gets no further link.
  \<open>Study_Views\<close> are the services behind the pages: the verdict of the list is that of the detail page.

  \<^bold>\<open>Digests.\<close> \<open>Digest\<close> is \<open>workers/digest.py\<close>, the job between the end of a study and its proposal: its checks,
  the prompt it assembles, the suggestions it keeps and the transaction. One digest per study whatever
  interleaves (locale \<open>unique_insert\<close>), a recommendation made of what the template declares, and suggestions
  that parse back to themselves.

  \<^bold>\<open>Judgments.\<close> \<open>Judgments\<close> is the judge of the language model, the worker that judges a list query by
  query and the sweeps that resume it; a query is judged wholly or not at all and a list always reaches
  an end. \<open>Ubi\<close> and \<open>Ubi_Worker\<close> derive judgments from the clicks of users: the prior, the features, the
  converters, the reader (whose paging has a fuel that the end of the index bounds) and the worker. \<open>Budget\<close>
  is the daily counter of costs. \<open>Calibration\<close> compares a judge with human ratings.

  \<^bold>\<open>GitHub.\<close> \<open>Git_Names\<close> are the validators of names and the signature of a delivery, \<open>Webhook\<close> the receiver
  and the reconciler: the pointer of every repository names its latest merge. \<open>Redaction\<close> takes tokens
  out of texts. \<open>Github_Client\<close> repeats requests, at most \<open>HTTP_RETRY_MAX\<close> times, and registers a hook once.
  \<open>Pr_Body\<close> and \<open>Open_Pr\<close> are \<open>workers/git_pr.py\<close>: no branch of the remote is ever moved, and a proposal is
  opened only with the pull request GitHub confirmed.

  \<^bold>\<open>The chat agent.\<close> \<open>Agent_Confirm\<close> is the guard that decides whether the user confirmed a tool that changes
  something, its regular expressions as a datatype with the set of its matches; \<open>Agent\<close> is a turn of the
  tool loop, at most \<open>MAX_LOOP_ITERATIONS\<close> completions, and the service that stores the conversation.

  \<^bold>\<open>Clusters and inputs.\<close> \<open>Url_Policy\<close> is the classification of addresses (\<open>app/domain/cluster/url_policy.py\<close>, on
  words of 32 and 128 bits) and the check of a base URL; its lemmas turn the networks into intervals.
  \<open>Adapters\<close> is what the adapters of \<open>app/adapters\<close> do to construct themselves, to check the health of an engine
  and to probe Solr; \<open>Clusters\<close> is \<open>app/services/cluster.py\<close> with its credentials, its cache and its table: any
  sequence of operations connects only to hosts the policy admits and keeps names, ids and credentials in
  order. \<open>Search\<close> goes from a template to hits: rendering, the request parameters of Solr, the batches of both
  adapters and the query of an operator. Its lemmas show that a query is answered as if alone, and that no
  normalization step makes a text that opens a block of local parameters out of one that does not (what they
  need of the tables of Unicode is \<open>unicode_ok\<close>). \<open>Csv_Parser\<close> reads a table of queries through a model of the
  reader of Python's csv module (its loops over lines and records end because each record takes a line).

  \<^bold>\<open>Parameters.\<close> Not under \<open>src\<close>, so arguments of the definitions with what the code relies on as
  hypotheses: Optuna (\<open>optuna_ok\<close>), the floating point sums of Redis, pydantic's validation where a model is
  given by a type of the library, JSON and base64 codecs, HMAC, \<open>repr\<close> and number formatting, the tables of
  Unicode, numpy's percentiles and deviation, \<open>ir_measures\<close>, square roots, the order of Python's sets, the
  file system and git (\<open>git_remote\<close>), GitHub (\<open>hook_server\<close>), the answers of language models and the pages of
  search engines. Every property with such a hypothesis has a witness that instantiates the parameter.

  \<^bold>\<open>Not modelled.\<close> The routing, the request models and the listings of the HTTP API; scanning, explanations,
  schemas and the listing of targets and documents in the adapters of the engines; template validation, which rests on the parse trees of Jinja2; the
  texts of prompts and the capability probe of a language model; the adapters from tool arguments of the
  agent to the services; demo data and its seeding; settings and logging; the scripts of the repository.
  These are glue, or rest on libraries to the extent that a model would be one of the library.

  \<^bold>\<open>What modelling showed\<close> is kept as lemmas beside the theories (for instance \<open>sources_by_another_threshold\<close>,
  \<open>cut_leaves_calls_pending\<close>, \<open>gap_ignores_direction\<close>, \<open>pushed_branch_blocks\<close>, \<open>lone_carriage_return\<close>, \<open>slow_resolver_passes\<close>) and listed in the manifest.
\<close>

end
